(* ===== verification/Prelude.thy ===== *)
theory Prelude
  imports Main "HOL-Library.Word"
begin

text \<open>
  Shared vocabulary of the development: the exceptions the C++ sources throw (and the
  undefined behaviour they can run into) as a datatype, results as sums, a state and
  exception monad for the message handlers, and the generic lemmas on lists, results and
  words that the component theories use. The collection \<open>res_simps\<close> unfolds sequencing of
  results; the collection \<open>keeps_intros\<close> holds the rules that push an invariant through a
  handler; \<open>appends_intros\<close> says which bytes each operation of a datagram appends.
\<close>

named_theorems res_simps
named_theorems keeps_intros
named_theorems appends_intros

section \<open>Machine integers\<close>

type_synonym u8 = "8 word"
type_synonym u16 = "16 word"
type_synonym u32 = "32 word"
type_synonym u64 = "64 word"
type_synonym bytes = "u8 list"

section \<open>Results and exceptions\<close>

text \<open>
  \<open>DatagramOverflow\<close>, \<open>DatagramIteratorEOF\<close> and \<open>FieldConstraintViolation\<close> are the
  exception classes of \<open>util/Datagram.h\<close> and \<open>util/DatagramIterator.h\<close>. \<open>HeapOverflow\<close> and
  \<open>HeapOverread\<close> are not thrown by the code: they mark an access outside an allocated
  buffer, which in C++ is undefined behaviour. \<open>NoReturn\<close> marks a loop that never ends,
  \<open>DanglingReference\<close> the use of an object that was deleted, of a container's \<open>end()\<close> or of a
  null pointer, \<open>UndefinedConversion\<close> a floating-point value converted to an integer type that
  cannot represent it.
\<close>

datatype exn =
    DatagramOverflow
  | DatagramIteratorEOF
  | FieldConstraintViolation
  | HeapOverflow
  | HeapOverread
  | NoReturn
  | DanglingReference
  | UndefinedConversion

type_synonym 'a res = "exn + 'a"

definition rbind :: "'a res \<Rightarrow> ('a \<Rightarrow> 'b res) \<Rightarrow> 'b res" where
  "rbind m f = (case m of Inl e \<Rightarrow> Inl e | Inr x \<Rightarrow> f x)"

lemma rbind_Inl [simp, res_simps]: "rbind (Inl e) f = Inl e"
  by (simp add: rbind_def)

lemma rbind_Inr [simp, res_simps]: "rbind (Inr x) f = f x"
  by (simp add: rbind_def)

lemma rbind_eq_Inr [res_simps]: "rbind m f = Inr y \<longleftrightarrow> (\<exists>x. m = Inr x \<and> f x = Inr y)"
  by (cases m) auto

lemma rbind_eq_Inl: "rbind m f = Inl e \<longleftrightarrow> m = Inl e \<or> (\<exists>x. m = Inr x \<and> f x = Inl e)"
  by (cases m) auto

lemma rbind_assoc [res_simps]: "rbind (rbind m f) g = rbind m (\<lambda>x. rbind (f x) g)"
  by (cases m) auto

lemma rbind_InrE:
  assumes "rbind m f = Inr y"
  obtains x where "m = Inr x" and "f x = Inr y"
  using assms by (auto simp: rbind_eq_Inr)

section \<open>A state and exception monad\<close>

text \<open>
  A C++ handler mutates its object and may throw half way; what it did before the throw
  stays done. So a handler is a function from the state to a result and the state at the
  point where it returned or threw.
\<close>

type_synonym ('s, 'a) sm = "'s \<Rightarrow> 'a res \<times> 's"

definition sret :: "'a \<Rightarrow> ('s, 'a) sm" where
  "sret x = (\<lambda>s. (Inr x, s))"

definition sthrow :: "exn \<Rightarrow> ('s, 'a) sm" where
  "sthrow e = (\<lambda>s. (Inl e, s))"

definition sbind :: "('s, 'a) sm \<Rightarrow> ('a \<Rightarrow> ('s, 'b) sm) \<Rightarrow> ('s, 'b) sm" where
  "sbind m f = (\<lambda>s. case m s of (Inl e, s') \<Rightarrow> (Inl e, s') | (Inr x, s') \<Rightarrow> f x s')"

definition sget :: "('s \<Rightarrow> 'a) \<Rightarrow> ('s, 'a) sm" where
  "sget f = (\<lambda>s. (Inr (f s), s))"

definition supd :: "('s \<Rightarrow> 's) \<Rightarrow> ('s, unit) sm" where
  "supd f = (\<lambda>s. (Inr (), f s))"

definition slift :: "'a res \<Rightarrow> ('s, 'a) sm" where
  "slift r = (\<lambda>s. (r, s))"

definition sseq :: "('s, unit) sm \<Rightarrow> ('s, 'b) sm \<Rightarrow> ('s, 'b) sm" where
  "sseq m n = sbind m (\<lambda>_. n)"

definition swhen :: "bool \<Rightarrow> ('s, unit) sm \<Rightarrow> ('s, unit) sm" where
  "swhen b m = (if b then m else sret ())"

lemma sret_apply [simp]: "sret x s = (Inr x, s)"
  by (simp add: sret_def)

lemma sthrow_apply [simp]: "sthrow e s = (Inl e, s)"
  by (simp add: sthrow_def)

lemma sget_apply [simp]: "sget f s = (Inr (f s), s)"
  by (simp add: sget_def)

lemma supd_apply [simp]: "supd f s = (Inr (), f s)"
  by (simp add: supd_def)

lemma slift_apply [simp]: "slift r s = (r, s)"
  by (simp add: slift_def)

lemma sbind_apply:
  "sbind m f s = (case m s of (Inl e, s') \<Rightarrow> (Inl e, s') | (Inr x, s') \<Rightarrow> f x s')"
  by (simp add: sbind_def)

lemma sbind_ok: "m s = (Inr x, s') \<Longrightarrow> sbind m f s = f x s'"
  by (simp add: sbind_def)

lemma sbind_fail: "m s = (Inl e, s') \<Longrightarrow> sbind m f s = (Inl e, s')"
  by (simp add: sbind_def)

lemma sbind_sret [simp]: "sbind (sret x) f = f x"
  by (simp add: sbind_def sret_def)

lemma sbind_sthrow [simp]: "sbind (sthrow e) f = sthrow e"
  by (simp add: sbind_def sthrow_def)

lemma sbind_sget [simp]: "sbind (sget g) f s = f (g s) s"
  by (simp add: sbind_def)

lemma sbind_supd [simp]: "sbind (supd g) f s = f () (g s)"
  by (simp add: sbind_def)

lemma sbind_slift_Inr [simp]: "sbind (slift (Inr x)) f s = f x s"
  by (simp add: sbind_def)

lemma sbind_slift_Inr_fun [simp]: "sbind (slift (Inr x)) f = f x"
  by (simp add: fun_eq_iff)

lemma sbind_slift_Inl [simp]: "sbind (slift (Inl e)) f s = (Inl e, s)"
  by (simp add: sbind_def)

lemma sseq_apply: "sseq m n s = (case m s of (Inl e, s') \<Rightarrow> (Inl e, s') | (Inr _, s') \<Rightarrow> n s')"
  by (simp add: sseq_def sbind_def)

lemma sseq_supd [simp]: "sseq (supd g) n s = n (g s)"
  by (simp add: sseq_def)

lemma sseq_sret [simp]: "sseq (sret x) n = n"
  by (simp add: sseq_def)

lemma swhen_simps [simp]: "swhen True m = m" "swhen False m = sret ()"
  by (simp_all add: swhen_def)

text \<open>
  \<open>keeps P m\<close>: running \<open>m\<close> from a state with \<open>P\<close> ends, normally or by an exception, in a
  state with \<open>P\<close>.
\<close>

definition keeps :: "('s \<Rightarrow> bool) \<Rightarrow> ('s, 'a) sm \<Rightarrow> bool" where
  "keeps P m \<longleftrightarrow> (\<forall>s. P s \<longrightarrow> P (snd (m s)))"

lemma keepsI: "(\<And>s. P s \<Longrightarrow> P (snd (m s))) \<Longrightarrow> keeps P m"
  by (simp add: keeps_def)

lemma keepsD: "keeps P m \<Longrightarrow> P s \<Longrightarrow> P (snd (m s))"
  by (simp add: keeps_def)

lemma keeps_sret [keeps_intros]: "keeps P (sret x)"
  by (simp add: keeps_def)

lemma keeps_Pair [keeps_intros]: "keeps P (Pair r)"
  by (simp add: keeps_def)

lemma keeps_sthrow [keeps_intros]: "keeps P (sthrow e)"
  by (simp add: keeps_def)

lemma keeps_sget [keeps_intros]: "keeps P (sget f)"
  by (simp add: keeps_def)

lemma keeps_slift [keeps_intros]: "keeps P (slift r)"
  by (simp add: keeps_def)

lemma keeps_supd: "(\<And>s. P s \<Longrightarrow> P (f s)) \<Longrightarrow> keeps P (supd f)"
  by (simp add: keeps_def)

lemma keeps_sbind [keeps_intros]: "keeps P m \<Longrightarrow> (\<And>x. keeps P (f x)) \<Longrightarrow> keeps P (sbind m f)"
  by (fastforce simp: keeps_def sbind_def split: prod.splits sum.splits)

lemma keeps_sseq [keeps_intros]: "keeps P m \<Longrightarrow> keeps P n \<Longrightarrow> keeps P (sseq m n)"
  by (simp add: sseq_def keeps_sbind)

lemma keeps_if [keeps_intros]: "(b \<Longrightarrow> keeps P m) \<Longrightarrow> (\<not> b \<Longrightarrow> keeps P n) \<Longrightarrow> keeps P (if b then m else n)"
  by simp

lemma keeps_swhen [keeps_intros]: "(b \<Longrightarrow> keeps P m) \<Longrightarrow> keeps P (swhen b m)"
  by (simp add: swhen_def keeps_sret)

lemma keeps_case_option [keeps_intros]:
  "(x = None \<Longrightarrow> keeps P m) \<Longrightarrow> (\<And>y. x = Some y \<Longrightarrow> keeps P (f y)) \<Longrightarrow>
    keeps P (case x of None \<Rightarrow> m | Some y \<Rightarrow> f y)"
  by (cases x) auto

lemma keeps_case_prod [keeps_intros]:
  "(\<And>a b. x = (a, b) \<Longrightarrow> keeps P (f a b)) \<Longrightarrow> keeps P (case x of (a, b) \<Rightarrow> f a b)"
  by (cases x) auto

text \<open>A loop over the elements of a container, until one of them throws.\<close>

fun for_each :: "('a \<Rightarrow> ('s, unit) sm) \<Rightarrow> 'a list \<Rightarrow> ('s, unit) sm" where
  "for_each f [] = sret ()"
| "for_each f (x # xs) = sseq (f x) (for_each f xs)"

text \<open>
  \<open>returns P m Q\<close>: from a state with \<open>P\<close>, \<open>m\<close> returns without an exception, with a result and a
  state in \<open>Q\<close>.
\<close>

definition returns :: "('s \<Rightarrow> bool) \<Rightarrow> ('s, 'a) sm \<Rightarrow> ('a \<Rightarrow> 's \<Rightarrow> bool) \<Rightarrow> bool" where
  "returns P m Q \<longleftrightarrow> (\<forall>s. P s \<longrightarrow> (\<exists>x s'. m s = (Inr x, s') \<and> Q x s'))"

lemma returnsI: "(\<And>s. P s \<Longrightarrow> \<exists>x s'. m s = (Inr x, s') \<and> Q x s') \<Longrightarrow> returns P m Q"
  by (simp add: returns_def)

lemma returns_sbind:
  "returns P m Q \<Longrightarrow> (\<And>x. returns (Q x) (f x) R) \<Longrightarrow> returns P (sbind m f) R"
  by (fastforce simp: returns_def sbind_def)

lemma returns_sseq: "returns P m (\<lambda>_. Q) \<Longrightarrow> returns Q n R \<Longrightarrow> returns P (sseq m n) R"
  by (auto simp: sseq_def intro: returns_sbind)

lemma returns_sret: "(\<And>s. P s \<Longrightarrow> Q x s) \<Longrightarrow> returns P (sret x) Q"
  by (simp add: returns_def)

lemma returns_weaken:
  "returns P' m Q' \<Longrightarrow> (\<And>s. P s \<Longrightarrow> P' s) \<Longrightarrow> (\<And>x s. Q' x s \<Longrightarrow> Q x s) \<Longrightarrow> returns P m Q"
  by (fastforce simp: returns_def)

lemma returns_for_each:
  "(\<And>x. x \<in> set xs \<Longrightarrow> returns P (f x) (\<lambda>_. P)) \<Longrightarrow> returns P (for_each f xs) (\<lambda>_. P)"
  by (induction xs) (auto intro!: returns_sseq returns_sret)

text \<open>The same with what has been done so far.\<close>

lemma returns_for_each_prefix:
  assumes "\<And>pre x post. xs = pre @ x # post \<Longrightarrow> returns (P pre) (f x) (\<lambda>_. P (pre @ [x]))"
  shows "returns (P []) (for_each f xs) (\<lambda>_. P xs)"
proof -
  have "returns (P pre) (for_each f post) (\<lambda>_. P xs)" if "xs = pre @ post" for pre post
    using that
  proof (induction post arbitrary: pre)
    case (Cons x post)
    have "returns (P (pre @ [x])) (for_each f post) (\<lambda>_. P xs)" using Cons by simp
    with assms [OF Cons.prems] show ?case by (auto intro: returns_sseq)
  qed (auto simp: returns_def)
  from this [of "[]" xs] show ?thesis by simp
qed

section \<open>Little-endian byte strings\<close>

fun le_bytes :: "nat \<Rightarrow> 'a::len word \<Rightarrow> bytes" where
  "le_bytes 0 w = []"
| "le_bytes (Suc n) w = ucast w # le_bytes n (drop_bit 8 w)"

fun le_nat :: "bytes \<Rightarrow> nat" where
  "le_nat [] = 0"
| "le_nat (b # bs) = unat b + 256 * le_nat bs"

definition le_word :: "bytes \<Rightarrow> 'a::len word" where
  "le_word bs = word_of_nat (le_nat bs)"

lemma length_le_bytes [simp]: "length (le_bytes n w) = n"
  by (induction n arbitrary: w) auto

lemma le_bytes_eq_Nil [simp]: "le_bytes n w = [] \<longleftrightarrow> n = 0"
  by (metis length_0_conv length_le_bytes)

lemma le_nat_le_bytes: "le_nat (le_bytes n w) = unat w mod 256 ^ n"
proof (induction n arbitrary: w)
  case 0
  then show ?case by simp
next
  case (Suc n)
  have "unat (ucast w :: u8) = unat w mod 256"
    by (simp add: unsigned_ucast_eq take_bit_eq_mod unsigned_take_bit_eq)
  moreover have "unat (drop_bit 8 w) = unat w div 256"
    by (simp only: unat_drop_bit_eq) (simp add: drop_bit_eq_div)
  moreover have "unat w mod 256 + 256 * (unat w div 256 mod 256 ^ n) = unat w mod (256 * 256 ^ n)"
    by (metis add.commute mod_mult2_eq mult.commute)
  ultimately show ?case by (simp add: Suc)
qed

lemma le_word_le_bytes:
  "LENGTH('a::len) = 8 * n \<Longrightarrow> le_word (le_bytes n (w :: 'a word)) = w"
proof -
  assume l: "LENGTH('a) = 8 * n"
  have "unat w < 256 ^ n"
    using unsigned_less [of w] l by (simp add: power_mult)
  then show ?thesis by (simp add: le_word_def le_nat_le_bytes)
qed

lemma le_nat_bound: "le_nat bs < 256 ^ length bs"
proof (induction bs)
  case (Cons b bs)
  have "unat b < 256" using unsigned_less [of b] by simp
  with Cons show ?case by simp
qed simp

lemma le_bytes_of_nat:
  "le_nat bs < 2 ^ LENGTH('a::len) \<Longrightarrow>
    le_bytes (length bs) (word_of_nat (le_nat bs) :: 'a word) = bs"
proof (induction bs)
  case (Cons b bs)
  let ?w = "word_of_nat (le_nat (b # bs)) :: 'a word"
  have b: "unat b < 256" using unsigned_less [of b] by simp
  have u: "unat ?w = unat b + 256 * le_nat bs"
    using Cons.prems by (simp only: unsigned_of_nat take_bit_nat_eq_self le_nat.simps of_nat_id)
  have "unat (ucast ?w :: u8) = unat ?w mod 256"
    by (simp add: unsigned_ucast_eq take_bit_eq_mod unsigned_take_bit_eq)
  then have hd: "(ucast ?w :: u8) = b"
    using b u by (simp add: word_unat_eq_iff)
  have d: "unat (drop_bit 8 ?w) = le_nat bs"
    using b u by (simp only: unat_drop_bit_eq) (simp add: drop_bit_eq_div)
  have tl: "drop_bit 8 ?w = word_of_nat (le_nat bs)"
    using arg_cong [OF d, of "of_nat :: nat \<Rightarrow> 'a word"] by (simp only: of_nat_unat ucast_id)
  from Cons.prems have "le_nat bs < 2 ^ LENGTH('a)" by simp
  then have "le_bytes (length bs) (word_of_nat (le_nat bs) :: 'a word) = bs"
    by (rule Cons.IH)
  then show ?case unfolding list.size by (simp only: hd tl le_bytes.simps add_0_right add_Suc_right)
qed simp

lemma le_bytes_le_word:
  "LENGTH('a::len) = 8 * length bs \<Longrightarrow> le_bytes (length bs) (le_word bs :: 'a word) = bs"
  using le_nat_bound [of bs] by (simp add: le_word_def le_bytes_of_nat power_mult)

lemma le_word_le_bytes_sizes [simp]:
  "le_word (le_bytes 1 (a :: u8)) = a"
  "le_word (le_bytes 2 (b :: u16)) = b"
  "le_word (le_bytes 4 (c :: u32)) = c"
  "le_word (le_bytes 8 (d :: u64)) = d"
  by (rule le_word_le_bytes; simp)+

declare le_bytes.simps [simp del]

section \<open>Lists\<close>

lemma take_append_drop_add: "take m (drop k xs) @ take n (drop (k + m) xs) = take (m + n) (drop k xs)"
  by (metis add.commute drop_drop take_add)

end
