(* ===== verification/Wire.thy ===== *)
theory Wire
  imports Prelude
begin

text \<open>
  The identifier types, channel constants and channel-building functions of
  \<open>core/types.h\<close> (default build: 64-bit channels, 32-bit object and zone identifiers, 16-bit
  datagram sizes) and the message type numbers of \<open>core/msgtypes.h\<close>. The message types are
  abbreviations for their numbers, so the handlers read as the source does.
\<close>

unbundle bit_operations_syntax

section \<open>Message types\<close>

abbreviation (input) CONTROL_MSGTYPE_MIN :: u16 where "CONTROL_MSGTYPE_MIN \<equiv> 9000"
abbreviation (input) CONTROL_MSGTYPE_MAX :: u16 where "CONTROL_MSGTYPE_MAX \<equiv> 9999"
abbreviation (input) CLIENTAGENT_MSGTYPE_MIN :: u16 where "CLIENTAGENT_MSGTYPE_MIN \<equiv> 1000"
abbreviation (input) CLIENTAGENT_MSGTYPE_MAX :: u16 where "CLIENTAGENT_MSGTYPE_MAX \<equiv> 1999"
abbreviation (input) STATESERVER_CONTEXT_WAKE_CHILDREN :: u32 where "STATESERVER_CONTEXT_WAKE_CHILDREN \<equiv> 1001"
abbreviation (input) STATESERVER_MSGTYPE_MIN :: u16 where "STATESERVER_MSGTYPE_MIN \<equiv> 2000"
abbreviation (input) STATESERVER_MSGTYPE_MAX :: u16 where "STATESERVER_MSGTYPE_MAX \<equiv> 2999"
abbreviation (input) DBSERVER_MSGTYPE_MIN :: u16 where "DBSERVER_MSGTYPE_MIN \<equiv> 3000"
abbreviation (input) DBSERVER_MSGTYPE_MAX :: u16 where "DBSERVER_MSGTYPE_MAX \<equiv> 3999"
abbreviation (input) RESERVED_MSG_TYPE :: u16 where "RESERVED_MSG_TYPE \<equiv> 0"
abbreviation (input) CONTROL_ADD_CHANNEL :: u16 where "CONTROL_ADD_CHANNEL \<equiv> 9000"
abbreviation (input) CONTROL_REMOVE_CHANNEL :: u16 where "CONTROL_REMOVE_CHANNEL \<equiv> 9001"
abbreviation (input) CONTROL_ADD_RANGE :: u16 where "CONTROL_ADD_RANGE \<equiv> 9002"
abbreviation (input) CONTROL_REMOVE_RANGE :: u16 where "CONTROL_REMOVE_RANGE \<equiv> 9003"
abbreviation (input) CONTROL_ADD_POST_REMOVE :: u16 where "CONTROL_ADD_POST_REMOVE \<equiv> 9010"
abbreviation (input) CONTROL_CLEAR_POST_REMOVES :: u16 where "CONTROL_CLEAR_POST_REMOVES \<equiv> 9011"
abbreviation (input) CONTROL_SET_CON_NAME :: u16 where "CONTROL_SET_CON_NAME \<equiv> 9012"
abbreviation (input) CONTROL_SET_CON_URL :: u16 where "CONTROL_SET_CON_URL \<equiv> 9013"
abbreviation (input) CONTROL_LOG_MESSAGE :: u16 where "CONTROL_LOG_MESSAGE \<equiv> 9014"
abbreviation (input) CLIENTAGENT_SET_STATE :: u16 where "CLIENTAGENT_SET_STATE \<equiv> 1000"
abbreviation (input) CLIENTAGENT_SET_CLIENT_ID :: u16 where "CLIENTAGENT_SET_CLIENT_ID \<equiv> 1001"
abbreviation (input) CLIENTAGENT_SEND_DATAGRAM :: u16 where "CLIENTAGENT_SEND_DATAGRAM \<equiv> 1002"
abbreviation (input) CLIENTAGENT_EJECT :: u16 where "CLIENTAGENT_EJECT \<equiv> 1004"
abbreviation (input) CLIENTAGENT_DROP :: u16 where "CLIENTAGENT_DROP \<equiv> 1005"
abbreviation (input) CLIENTAGENT_GET_NETWORK_ADDRESS :: u16 where "CLIENTAGENT_GET_NETWORK_ADDRESS \<equiv> 1006"
abbreviation (input) CLIENTAGENT_GET_NETWORK_ADDRESS_RESP :: u16 where "CLIENTAGENT_GET_NETWORK_ADDRESS_RESP \<equiv> 1007"
abbreviation (input) CLIENTAGENT_DECLARE_OBJECT :: u16 where "CLIENTAGENT_DECLARE_OBJECT \<equiv> 1010"
abbreviation (input) CLIENTAGENT_UNDECLARE_OBJECT :: u16 where "CLIENTAGENT_UNDECLARE_OBJECT \<equiv> 1011"
abbreviation (input) CLIENTAGENT_ADD_SESSION_OBJECT :: u16 where "CLIENTAGENT_ADD_SESSION_OBJECT \<equiv> 1012"
abbreviation (input) CLIENTAGENT_REMOVE_SESSION_OBJECT :: u16 where "CLIENTAGENT_REMOVE_SESSION_OBJECT \<equiv> 1013"
abbreviation (input) CLIENTAGENT_SET_FIELDS_SENDABLE :: u16 where "CLIENTAGENT_SET_FIELDS_SENDABLE \<equiv> 1014"
abbreviation (input) CLIENTAGENT_GET_TLVS :: u16 where "CLIENTAGENT_GET_TLVS \<equiv> 1015"
abbreviation (input) CLIENTAGENT_GET_TLVS_RESP :: u16 where "CLIENTAGENT_GET_TLVS_RESP \<equiv> 1016"
abbreviation (input) CLIENTAGENT_OPEN_CHANNEL :: u16 where "CLIENTAGENT_OPEN_CHANNEL \<equiv> 1100"
abbreviation (input) CLIENTAGENT_CLOSE_CHANNEL :: u16 where "CLIENTAGENT_CLOSE_CHANNEL \<equiv> 1101"
abbreviation (input) CLIENTAGENT_ADD_POST_REMOVE :: u16 where "CLIENTAGENT_ADD_POST_REMOVE \<equiv> 1110"
abbreviation (input) CLIENTAGENT_CLEAR_POST_REMOVES :: u16 where "CLIENTAGENT_CLEAR_POST_REMOVES \<equiv> 1111"
abbreviation (input) CLIENTAGENT_ADD_INTEREST :: u16 where "CLIENTAGENT_ADD_INTEREST \<equiv> 1200"
abbreviation (input) CLIENTAGENT_ADD_INTEREST_MULTIPLE :: u16 where "CLIENTAGENT_ADD_INTEREST_MULTIPLE \<equiv> 1201"
abbreviation (input) CLIENTAGENT_REMOVE_INTEREST :: u16 where "CLIENTAGENT_REMOVE_INTEREST \<equiv> 1203"
abbreviation (input) CLIENTAGENT_DONE_INTEREST_RESP :: u16 where "CLIENTAGENT_DONE_INTEREST_RESP \<equiv> 1204"
abbreviation (input) STATESERVER_CREATE_OBJECT_WITH_REQUIRED :: u16 where "STATESERVER_CREATE_OBJECT_WITH_REQUIRED \<equiv> 2000"
abbreviation (input) STATESERVER_CREATE_OBJECT_WITH_REQUIRED_OTHER :: u16 where "STATESERVER_CREATE_OBJECT_WITH_REQUIRED_OTHER \<equiv> 2001"
abbreviation (input) STATESERVER_DELETE_AI_OBJECTS :: u16 where "STATESERVER_DELETE_AI_OBJECTS \<equiv> 2009"
abbreviation (input) STATESERVER_OBJECT_GET_FIELD :: u16 where "STATESERVER_OBJECT_GET_FIELD \<equiv> 2010"
abbreviation (input) STATESERVER_OBJECT_GET_FIELD_RESP :: u16 where "STATESERVER_OBJECT_GET_FIELD_RESP \<equiv> 2011"
abbreviation (input) STATESERVER_OBJECT_GET_FIELDS :: u16 where "STATESERVER_OBJECT_GET_FIELDS \<equiv> 2012"
abbreviation (input) STATESERVER_OBJECT_GET_FIELDS_RESP :: u16 where "STATESERVER_OBJECT_GET_FIELDS_RESP \<equiv> 2013"
abbreviation (input) STATESERVER_OBJECT_GET_ALL :: u16 where "STATESERVER_OBJECT_GET_ALL \<equiv> 2014"
abbreviation (input) STATESERVER_OBJECT_GET_ALL_RESP :: u16 where "STATESERVER_OBJECT_GET_ALL_RESP \<equiv> 2015"
abbreviation (input) STATESERVER_OBJECT_SET_FIELD :: u16 where "STATESERVER_OBJECT_SET_FIELD \<equiv> 2020"
abbreviation (input) STATESERVER_OBJECT_SET_FIELDS :: u16 where "STATESERVER_OBJECT_SET_FIELDS \<equiv> 2021"
abbreviation (input) STATESERVER_OBJECT_DELETE_FIELD_RAM :: u16 where "STATESERVER_OBJECT_DELETE_FIELD_RAM \<equiv> 2030"
abbreviation (input) STATESERVER_OBJECT_DELETE_FIELDS_RAM :: u16 where "STATESERVER_OBJECT_DELETE_FIELDS_RAM \<equiv> 2031"
abbreviation (input) STATESERVER_OBJECT_DELETE_RAM :: u16 where "STATESERVER_OBJECT_DELETE_RAM \<equiv> 2032"
abbreviation (input) STATESERVER_OBJECT_SET_LOCATION :: u16 where "STATESERVER_OBJECT_SET_LOCATION \<equiv> 2040"
abbreviation (input) STATESERVER_OBJECT_CHANGING_LOCATION :: u16 where "STATESERVER_OBJECT_CHANGING_LOCATION \<equiv> 2041"
abbreviation (input) STATESERVER_OBJECT_ENTER_LOCATION_WITH_REQUIRED :: u16 where "STATESERVER_OBJECT_ENTER_LOCATION_WITH_REQUIRED \<equiv> 2042"
abbreviation (input) STATESERVER_OBJECT_ENTER_LOCATION_WITH_REQUIRED_OTHER :: u16 where "STATESERVER_OBJECT_ENTER_LOCATION_WITH_REQUIRED_OTHER \<equiv> 2043"
abbreviation (input) STATESERVER_OBJECT_GET_LOCATION :: u16 where "STATESERVER_OBJECT_GET_LOCATION \<equiv> 2044"
abbreviation (input) STATESERVER_OBJECT_GET_LOCATION_RESP :: u16 where "STATESERVER_OBJECT_GET_LOCATION_RESP \<equiv> 2045"
abbreviation (input) STATESERVER_OBJECT_LOCATION_ACK :: u16 where "STATESERVER_OBJECT_LOCATION_ACK \<equiv> 2046"
abbreviation (input) STATESERVER_OBJECT_SET_AI :: u16 where "STATESERVER_OBJECT_SET_AI \<equiv> 2050"
abbreviation (input) STATESERVER_OBJECT_CHANGING_AI :: u16 where "STATESERVER_OBJECT_CHANGING_AI \<equiv> 2051"
abbreviation (input) STATESERVER_OBJECT_ENTER_AI_WITH_REQUIRED :: u16 where "STATESERVER_OBJECT_ENTER_AI_WITH_REQUIRED \<equiv> 2052"
abbreviation (input) STATESERVER_OBJECT_ENTER_AI_WITH_REQUIRED_OTHER :: u16 where "STATESERVER_OBJECT_ENTER_AI_WITH_REQUIRED_OTHER \<equiv> 2053"
abbreviation (input) STATESERVER_OBJECT_GET_AI :: u16 where "STATESERVER_OBJECT_GET_AI \<equiv> 2054"
abbreviation (input) STATESERVER_OBJECT_GET_AI_RESP :: u16 where "STATESERVER_OBJECT_GET_AI_RESP \<equiv> 2055"
abbreviation (input) STATESERVER_OBJECT_SET_OWNER :: u16 where "STATESERVER_OBJECT_SET_OWNER \<equiv> 2060"
abbreviation (input) STATESERVER_OBJECT_CHANGING_OWNER :: u16 where "STATESERVER_OBJECT_CHANGING_OWNER \<equiv> 2061"
abbreviation (input) STATESERVER_OBJECT_ENTER_OWNER_WITH_REQUIRED :: u16 where "STATESERVER_OBJECT_ENTER_OWNER_WITH_REQUIRED \<equiv> 2062"
abbreviation (input) STATESERVER_OBJECT_ENTER_OWNER_WITH_REQUIRED_OTHER :: u16 where "STATESERVER_OBJECT_ENTER_OWNER_WITH_REQUIRED_OTHER \<equiv> 2063"
abbreviation (input) STATESERVER_OBJECT_GET_OWNER :: u16 where "STATESERVER_OBJECT_GET_OWNER \<equiv> 2064"
abbreviation (input) STATESERVER_OBJECT_GET_OWNER_RESP :: u16 where "STATESERVER_OBJECT_GET_OWNER_RESP \<equiv> 2065"
abbreviation (input) STATESERVER_OBJECT_ENTER_INTEREST_WITH_REQUIRED :: u16 where "STATESERVER_OBJECT_ENTER_INTEREST_WITH_REQUIRED \<equiv> 2066"
abbreviation (input) STATESERVER_OBJECT_ENTER_INTEREST_WITH_REQUIRED_OTHER :: u16 where "STATESERVER_OBJECT_ENTER_INTEREST_WITH_REQUIRED_OTHER \<equiv> 2067"
abbreviation (input) STATESERVER_OBJECT_GET_ZONE_OBJECTS :: u16 where "STATESERVER_OBJECT_GET_ZONE_OBJECTS \<equiv> 2100"
abbreviation (input) STATESERVER_OBJECT_GET_ZONES_OBJECTS :: u16 where "STATESERVER_OBJECT_GET_ZONES_OBJECTS \<equiv> 2102"
abbreviation (input) STATESERVER_OBJECT_GET_CHILDREN :: u16 where "STATESERVER_OBJECT_GET_CHILDREN \<equiv> 2104"
abbreviation (input) STATESERVER_OBJECT_GET_ZONE_COUNT :: u16 where "STATESERVER_OBJECT_GET_ZONE_COUNT \<equiv> 2110"
abbreviation (input) STATESERVER_OBJECT_GET_ZONE_COUNT_RESP :: u16 where "STATESERVER_OBJECT_GET_ZONE_COUNT_RESP \<equiv> 2111"
abbreviation (input) STATESERVER_OBJECT_GET_ZONES_COUNT :: u16 where "STATESERVER_OBJECT_GET_ZONES_COUNT \<equiv> 2112"
abbreviation (input) STATESERVER_OBJECT_GET_ZONES_COUNT_RESP :: u16 where "STATESERVER_OBJECT_GET_ZONES_COUNT_RESP \<equiv> 2113"
abbreviation (input) STATESERVER_OBJECT_GET_CHILD_COUNT :: u16 where "STATESERVER_OBJECT_GET_CHILD_COUNT \<equiv> 2114"
abbreviation (input) STATESERVER_OBJECT_GET_CHILD_COUNT_RESP :: u16 where "STATESERVER_OBJECT_GET_CHILD_COUNT_RESP \<equiv> 2115"
abbreviation (input) STATESERVER_OBJECT_DELETE_ZONE :: u16 where "STATESERVER_OBJECT_DELETE_ZONE \<equiv> 2120"
abbreviation (input) STATESERVER_OBJECT_DELETE_ZONES :: u16 where "STATESERVER_OBJECT_DELETE_ZONES \<equiv> 2122"
abbreviation (input) STATESERVER_OBJECT_DELETE_CHILDREN :: u16 where "STATESERVER_OBJECT_DELETE_CHILDREN \<equiv> 2124"
abbreviation (input) STATESERVER_GET_ACTIVE_ZONES :: u16 where "STATESERVER_GET_ACTIVE_ZONES \<equiv> 2125"
abbreviation (input) STATESERVER_GET_ACTIVE_ZONES_RESP :: u16 where "STATESERVER_GET_ACTIVE_ZONES_RESP \<equiv> 2126"
abbreviation (input) DBSS_OBJECT_ACTIVATE_WITH_DEFAULTS :: u16 where "DBSS_OBJECT_ACTIVATE_WITH_DEFAULTS \<equiv> 2200"
abbreviation (input) DBSS_OBJECT_ACTIVATE_WITH_DEFAULTS_OTHER :: u16 where "DBSS_OBJECT_ACTIVATE_WITH_DEFAULTS_OTHER \<equiv> 2201"
abbreviation (input) DBSS_OBJECT_GET_ACTIVATED :: u16 where "DBSS_OBJECT_GET_ACTIVATED \<equiv> 2207"
abbreviation (input) DBSS_OBJECT_GET_ACTIVATED_RESP :: u16 where "DBSS_OBJECT_GET_ACTIVATED_RESP \<equiv> 2208"
abbreviation (input) DBSS_OBJECT_DELETE_FIELD_RAM :: u16 where "DBSS_OBJECT_DELETE_FIELD_RAM \<equiv> 2230"
abbreviation (input) DBSS_OBJECT_DELETE_FIELDS_RAM :: u16 where "DBSS_OBJECT_DELETE_FIELDS_RAM \<equiv> 2231"
abbreviation (input) DBSS_OBJECT_DELETE_DISK :: u16 where "DBSS_OBJECT_DELETE_DISK \<equiv> 2232"
abbreviation (input) DBSERVER_CREATE_OBJECT :: u16 where "DBSERVER_CREATE_OBJECT \<equiv> 3000"
abbreviation (input) DBSERVER_CREATE_OBJECT_RESP :: u16 where "DBSERVER_CREATE_OBJECT_RESP \<equiv> 3001"
abbreviation (input) DBSERVER_OBJECT_GET_FIELD :: u16 where "DBSERVER_OBJECT_GET_FIELD \<equiv> 3010"
abbreviation (input) DBSERVER_OBJECT_GET_FIELD_RESP :: u16 where "DBSERVER_OBJECT_GET_FIELD_RESP \<equiv> 3011"
abbreviation (input) DBSERVER_OBJECT_GET_FIELDS :: u16 where "DBSERVER_OBJECT_GET_FIELDS \<equiv> 3012"
abbreviation (input) DBSERVER_OBJECT_GET_FIELDS_RESP :: u16 where "DBSERVER_OBJECT_GET_FIELDS_RESP \<equiv> 3013"
abbreviation (input) DBSERVER_OBJECT_GET_ALL :: u16 where "DBSERVER_OBJECT_GET_ALL \<equiv> 3014"
abbreviation (input) DBSERVER_OBJECT_GET_ALL_RESP :: u16 where "DBSERVER_OBJECT_GET_ALL_RESP \<equiv> 3015"
abbreviation (input) DBSERVER_OBJECT_SET_FIELD :: u16 where "DBSERVER_OBJECT_SET_FIELD \<equiv> 3020"
abbreviation (input) DBSERVER_OBJECT_SET_FIELDS :: u16 where "DBSERVER_OBJECT_SET_FIELDS \<equiv> 3021"
abbreviation (input) DBSERVER_OBJECT_SET_FIELD_IF_EQUALS :: u16 where "DBSERVER_OBJECT_SET_FIELD_IF_EQUALS \<equiv> 3022"
abbreviation (input) DBSERVER_OBJECT_SET_FIELD_IF_EQUALS_RESP :: u16 where "DBSERVER_OBJECT_SET_FIELD_IF_EQUALS_RESP \<equiv> 3023"
abbreviation (input) DBSERVER_OBJECT_SET_FIELDS_IF_EQUALS :: u16 where "DBSERVER_OBJECT_SET_FIELDS_IF_EQUALS \<equiv> 3024"
abbreviation (input) DBSERVER_OBJECT_SET_FIELDS_IF_EQUALS_RESP :: u16 where "DBSERVER_OBJECT_SET_FIELDS_IF_EQUALS_RESP \<equiv> 3025"
abbreviation (input) DBSERVER_OBJECT_SET_FIELD_IF_EMPTY :: u16 where "DBSERVER_OBJECT_SET_FIELD_IF_EMPTY \<equiv> 3026"
abbreviation (input) DBSERVER_OBJECT_SET_FIELD_IF_EMPTY_RESP :: u16 where "DBSERVER_OBJECT_SET_FIELD_IF_EMPTY_RESP \<equiv> 3027"
abbreviation (input) DBSERVER_OBJECT_DELETE_FIELD :: u16 where "DBSERVER_OBJECT_DELETE_FIELD \<equiv> 3030"
abbreviation (input) DBSERVER_OBJECT_DELETE_FIELDS :: u16 where "DBSERVER_OBJECT_DELETE_FIELDS \<equiv> 3031"
abbreviation (input) DBSERVER_OBJECT_DELETE :: u16 where "DBSERVER_OBJECT_DELETE \<equiv> 3032"

section \<open>Identifiers and channels\<close>

type_synonym channel = u64
type_synonym doid = u32
type_synonym zone = u32
type_synonym dgsize = u16

definition DGSIZE_MAX :: nat where "DGSIZE_MAX = 65535"
definition CHANNEL_MAX :: channel where "CHANNEL_MAX = -1"
definition ZONE_BITS :: nat where "ZONE_BITS = 32"

abbreviation (input) INVALID_DO_ID :: doid where "INVALID_DO_ID \<equiv> 0"
abbreviation (input) INVALID_CHANNEL :: channel where "INVALID_CHANNEL \<equiv> 0"
abbreviation (input) CONTROL_MESSAGE :: channel where "CONTROL_MESSAGE \<equiv> 1"
abbreviation (input) BCHAN_CLIENTS :: channel where "BCHAN_CLIENTS \<equiv> 10"
abbreviation (input) BCHAN_STATESERVERS :: channel where "BCHAN_STATESERVERS \<equiv> 12"
abbreviation (input) BCHAN_DBSERVERS :: channel where "BCHAN_DBSERVERS \<equiv> 13"

definition PARENT_PREFIX :: channel where "PARENT_PREFIX = push_bit ZONE_BITS 1"
definition DATABASE_PREFIX :: channel where "DATABASE_PREFIX = push_bit ZONE_BITS 2"

definition location_as_channel :: "doid \<Rightarrow> zone \<Rightarrow> channel" where
  "location_as_channel parent zone = push_bit ZONE_BITS (ucast parent) OR ucast zone"

definition parent_to_children :: "doid \<Rightarrow> channel" where
  "parent_to_children parent = PARENT_PREFIX OR ucast parent"

definition database_to_object :: "doid \<Rightarrow> channel" where
  "database_to_object object = DATABASE_PREFIX OR ucast object"

text \<open>An object's own channel is its identifier, widened by the implicit conversion.\<close>

abbreviation doid_channel :: "doid \<Rightarrow> channel" where
  "doid_channel d \<equiv> ucast d"

lemma unat_ucast_u32_u64 [simp]: "unat (ucast (a :: u32) :: u64) = unat a"
  by (simp add: unsigned_ucast_eq take_bit_nat_eq_self_iff order_less_trans [OF unsigned_less])

lemma high_or_low_word:
  fixes a b :: u32
  shows "unat (push_bit 32 (ucast a :: u64) OR ucast b) = unat a * 2 ^ 32 + unat b"
proof -
  have disj: "push_bit 32 (ucast a :: u64) AND ucast b = 0"
    by (rule bit_eqI) (auto simp: bit_simps dest: bit_imp_le_length)
  then have "push_bit 32 (ucast a :: u64) OR ucast b = push_bit 32 (ucast a) + ucast b"
    by (simp add: disjunctive_add_eq_or)
  moreover have "unat a < 2 ^ 32" "unat b < 2 ^ 32"
    using unsigned_less [of a] unsigned_less [of b] by simp_all
  ultimately show ?thesis
    by (simp add: push_bit_eq_mult unat_word_ariths)
qed

lemma unat_location: "unat (location_as_channel p z) = unat p * 2 ^ 32 + unat z"
  by (simp add: location_as_channel_def ZONE_BITS_def high_or_low_word)

lemma parent_to_children_location: "parent_to_children d = location_as_channel 1 d"
  by (simp add: parent_to_children_def location_as_channel_def PARENT_PREFIX_def)

lemma database_to_object_location: "database_to_object d = location_as_channel 2 d"
  by (simp add: database_to_object_def location_as_channel_def DATABASE_PREFIX_def)

lemma location_as_channel_inj [simp]:
  "location_as_channel p z = location_as_channel p' z' \<longleftrightarrow> p = p' \<and> z = z'"
proof
  assume "location_as_channel p z = location_as_channel p' z'"
  then have eq: "unat p * 2 ^ 32 + unat z = unat p' * 2 ^ 32 + unat z'"
    by (metis unat_location)
  have "unat z < 2 ^ 32" "unat z' < 2 ^ 32"
    using unsigned_less [of z] unsigned_less [of z'] by simp_all
  with eq have p: "unat p = unat p'"
    by simp
  with eq have "unat z = unat z'"
    by simp
  with p show "p = p' \<and> z = z'" by (simp add: word_unat_eq_iff)
qed simp

lemma doid_channel_location: "doid_channel d = location_as_channel 0 d"
  by (simp add: location_as_channel_def)

text \<open>
  The channel space at a glance: the object channels, the child-broadcast channels and the
  database-broadcast channels are the location channels of the "parents" 0, 1 and 2, so
  they never meet each other, and meet a real object's location channels only when that
  object's identifier is 0, 1 or 2.
\<close>

lemmas channel_spaces = doid_channel_location parent_to_children_location database_to_object_location

end
