(* ===== verification/Channel_Map.thy ===== *)
theory Channel_Map
  imports Wire
begin

text \<open>
  \<open>ChannelMap\<close> of \<open>messagedirector/ChannelMap.h\<close> and \<open>.cpp\<close>: which subscriber listens to which
  channels. Subscribers are numbered. The two Boost containers are represented by their
  content: \<open>interval_set\<close> by the set of its channels, \<open>interval_map\<close> by the function from a
  channel to its subscribers (a channel that is in no segment has none, since the map absorbs
  empty sets). What the code sees of their segments, and the iteration order of
  \<open>unordered_set\<close>, comes from a parameter of type \<open>containers\<close>; the predicate
  \<open>containers_ok\<close> states what Boost and the standard library document. The upstream
  notifications \<open>on_add_channel\<close>, \<open>on_remove_channel\<close>, \<open>on_add_range\<close> and \<open>on_remove_range\<close> are
  appended to a log.
\<close>

section \<open>Intervals and container views\<close>

text \<open>
  A Boost \<open>discrete_interval\<close> has two bounds and, in \<open>bounds().bits()\<close>, a bit for each that
  says whether it is closed (2 for the left bound, 1 for the right one).
\<close>

record interval =
  iv_lower :: channel
  iv_upper :: channel
  iv_bits :: "2 word"

definition iv_channels :: "interval \<Rightarrow> channel set" where
  "iv_channels iv = {c. (if iv_bits iv AND 2 \<noteq> 0 then iv_lower iv \<le> c else iv_lower iv < c)
                      \<and> (if iv_bits iv AND 1 \<noteq> 0 then c \<le> iv_upper iv else c < iv_upper iv)}"

definition get_closed_bounds :: "interval \<Rightarrow> channel \<times> channel" where
  "get_closed_bounds iv =
     (if iv_bits iv AND 2 = 0 then iv_lower iv + 1 else iv_lower iv,
      if iv_bits iv AND 1 = 0 then iv_upper iv - 1 else iv_upper iv)"

type_synonym subscriber = nat

record containers =
  segments :: "channel set \<Rightarrow> interval list"
  map_lower :: "(channel \<Rightarrow> subscriber set) \<Rightarrow> channel"
  map_upper :: "(channel \<Rightarrow> subscriber set) \<Rightarrow> channel"
  set_order :: "channel set \<Rightarrow> channel list"

definition segments_ok :: "containers \<Rightarrow> bool" where
  "segments_ok cs \<longleftrightarrow> (\<forall>S. \<Union>(iv_channels ` set (segments cs S)) = S
     \<and> (\<forall>iv \<in> set (segments cs S). iv_channels iv \<noteq> {}))"

definition map_bounds_ok :: "containers \<Rightarrow> bool" where
  "map_bounds_ok cs \<longleftrightarrow> (\<forall>m c. m c \<noteq> {} \<longrightarrow> map_lower cs m \<le> c \<and> c \<le> map_upper cs m)"

definition set_order_ok :: "containers \<Rightarrow> bool" where
  "set_order_ok cs \<longleftrightarrow> (\<forall>S. set (set_order cs S) = S \<and> distinct (set_order cs S))"

definition containers_ok :: "containers \<Rightarrow> bool" where
  "containers_ok cs \<longleftrightarrow> segments_ok cs \<and> map_bounds_ok cs \<and> set_order_ok cs"

lemma containers_okD:
  assumes "containers_ok cs"
  shows "\<Union>(iv_channels ` set (segments cs S)) = S"
    "iv \<in> set (segments cs S) \<Longrightarrow> iv_channels iv \<noteq> {}"
    "m c \<noteq> {} \<Longrightarrow> map_lower cs m \<le> c" "m c \<noteq> {} \<Longrightarrow> c \<le> map_upper cs m"
    "set (set_order cs S') = S'" "distinct (set_order cs S')"
  using assms by (simp_all add: containers_ok_def segments_ok_def map_bounds_ok_def set_order_ok_def)

text \<open>Containers exist: one closed interval per channel, everything in increasing order.\<close>

definition plain_containers :: containers where
  "plain_containers = \<lparr>
     segments = (\<lambda>S. map (\<lambda>c. \<lparr>iv_lower = c, iv_upper = c, iv_bits = 3\<rparr>) (sorted_list_of_set S)),
     map_lower = (\<lambda>_. 0), map_upper = (\<lambda>_. - 1), set_order = sorted_list_of_set\<rparr>"

lemma plain_containers_ok: "containers_ok plain_containers"
proof -
  have iv: "iv_channels \<lparr>iv_lower = c, iv_upper = c, iv_bits = 3\<rparr> = {c}" for c
    by (auto simp: iv_channels_def)
  have fin: "finite (S :: channel set)" for S by simp
  show ?thesis
    using fin by (auto simp: containers_ok_def segments_ok_def map_bounds_ok_def set_order_ok_def
        plain_containers_def iv)
qed

section \<open>State and operations\<close>

datatype upstream_event =
    AddChannel channel
  | RemoveChannel channel
  | AddRange channel channel
  | RemoveRange channel channel

record channel_map =
  channels :: "subscriber \<Rightarrow> channel set"
  ranges :: "subscriber \<Rightarrow> channel set"
  channel_subscriptions :: "channel \<Rightarrow> subscriber list"
  range_subscriptions :: "channel \<Rightarrow> subscriber set"
  upstream_log :: "upstream_event list"

definition cm_init :: channel_map where
  "cm_init = \<lparr>channels = (\<lambda>_. {}), ranges = (\<lambda>_. {}), channel_subscriptions = (\<lambda>_. []),
     range_subscriptions = (\<lambda>_. {}), upstream_log = []\<rparr>"

definition notify :: "upstream_event \<Rightarrow> channel_map \<Rightarrow> channel_map" where
  "notify ev cm = cm\<lparr>upstream_log := upstream_log cm @ [ev]\<rparr>"

definition is_subscribed :: "subscriber \<Rightarrow> channel \<Rightarrow> channel_map \<Rightarrow> bool" where
  "is_subscribed p c cm \<longleftrightarrow> (if c \<in> channels cm p then True else if c \<in> ranges cm p then True else False)"

definition subscribe_channel :: "subscriber \<Rightarrow> channel \<Rightarrow> channel_map \<Rightarrow> channel_map" where
  "subscribe_channel p c cm =
     (if is_subscribed p c cm then cm
      else
        let cm1 = cm\<lparr>channels := (channels cm)(p := insert c (channels cm p))\<rparr>;
            has_subs = (channel_subscriptions cm1 c \<noteq> []);
            cm2 = (if \<not> has_subs then notify (AddChannel c) cm1 else cm1)
        in cm2\<lparr>channel_subscriptions :=
                 (channel_subscriptions cm2)(c := channel_subscriptions cm2 c @ [p])\<rparr>)"

definition remove_subscriber :: "subscriber \<Rightarrow> channel \<Rightarrow> channel_map \<Rightarrow> bool \<times> channel_map" where
  "remove_subscriber p c cm =
     (let subs = channel_subscriptions cm c in
      if length subs = 0 then (False, cm)
      else
        let subs' = remove1 p subs
        in (length subs' = 0,
            cm\<lparr>channel_subscriptions := (channel_subscriptions cm)(c := subs')\<rparr>))"

definition unsubscribe_channel :: "subscriber \<Rightarrow> channel \<Rightarrow> channel_map \<Rightarrow> channel_map" where
  "unsubscribe_channel p c cm =
     (if \<not> is_subscribed p c cm then cm
      else
        let cm1 = cm\<lparr>channels := (channels cm)(p := channels cm p - {c})\<rparr>;
            (last, cm2) = remove_subscriber p c cm1
        in if last then notify (RemoveChannel c) cm2 else cm2)"

definition subscribe_range :: "subscriber \<Rightarrow> channel \<Rightarrow> channel \<Rightarrow> channel_map \<Rightarrow> channel_map" where
  "subscribe_range p lo hi cm =
     (let cm1 = cm\<lparr>
            ranges := (ranges cm)(p := ranges cm p \<union> {lo..hi}),
            range_subscriptions := (\<lambda>c. if c \<in> {lo..hi} then insert p (range_subscriptions cm c)
                                        else range_subscriptions cm c)\<rparr>
      in if \<exists>c \<in> {lo..hi}. card (range_subscriptions cm1 c) = 1
         then notify (AddRange lo hi) cm1 else cm1)"

text \<open>
  The loop over the subscriber's own channels: each one inside the range loses its entry in
  the channel table, without a notification.
\<close>

fun clobber_channels :: "subscriber \<Rightarrow> channel \<Rightarrow> channel \<Rightarrow> channel list \<Rightarrow> channel_map \<Rightarrow> channel_map" where
  "clobber_channels p lo hi [] cm = cm"
| "clobber_channels p lo hi (c # cs) cm =
     clobber_channels p lo hi cs
       (if lo \<le> c \<and> c \<le> hi
        then let cm1 = snd (remove_subscriber p c cm)
             in cm1\<lparr>channels := (channels cm1)(p := channels cm1 p - {c})\<rparr>
        else cm)"

fun notify_ranges :: "interval list \<Rightarrow> channel_map \<Rightarrow> channel_map" where
  "notify_ranges [] cm = cm"
| "notify_ranges (iv # ivs) cm =
     (case get_closed_bounds iv of (lower, upper) \<Rightarrow>
        notify_ranges ivs (notify (RemoveRange lower upper) cm))"

definition unsubscribe_range ::
    "containers \<Rightarrow> subscriber \<Rightarrow> channel \<Rightarrow> channel \<Rightarrow> channel_map \<Rightarrow> channel_map" where
  "unsubscribe_range cs p lo hi cm =
     (if \<forall>c. range_subscriptions cm c = {} then cm
      else
        let lower = map_lower cs (range_subscriptions cm);
            upper = map_upper cs (range_subscriptions cm);
            interval = {max lo lower .. min hi upper};
            silent_ranges = {c \<in> interval. \<not> (range_subscriptions cm c \<noteq> {}
                               \<and> \<not> (card (range_subscriptions cm c) = 1 \<and> p \<in> range_subscriptions cm c))};
            cm1 = cm\<lparr>
              ranges := (ranges cm)(p := ranges cm p - interval),
              range_subscriptions := (\<lambda>c. if c \<in> interval then range_subscriptions cm c - {p}
                                          else range_subscriptions cm c)\<rparr>;
            cm2 = clobber_channels p lo hi (set_order cs (channels cm1 p)) cm1
        in notify_ranges (segments cs silent_ranges) cm2)"

fun unsubscribe_channels :: "subscriber \<Rightarrow> channel list \<Rightarrow> channel_map \<Rightarrow> channel_map" where
  "unsubscribe_channels p [] cm = cm"
| "unsubscribe_channels p (c # cs) cm = unsubscribe_channels p cs (unsubscribe_channel p c cm)"

fun unsubscribe_ranges :: "containers \<Rightarrow> subscriber \<Rightarrow> interval list \<Rightarrow> channel_map \<Rightarrow> channel_map" where
  "unsubscribe_ranges cs p [] cm = cm"
| "unsubscribe_ranges cs p (iv # ivs) cm =
     (case get_closed_bounds iv of (lower, upper) \<Rightarrow>
        unsubscribe_ranges cs p ivs (unsubscribe_range cs p lower upper cm))"

definition unsubscribe_all :: "containers \<Rightarrow> subscriber \<Rightarrow> channel_map \<Rightarrow> channel_map" where
  "unsubscribe_all cs p cm =
     (let cm1 = unsubscribe_channels p (set_order cs (channels cm p)) cm
      in unsubscribe_ranges cs p (segments cs (ranges cm1 p)) cm1)"

definition lookup_channels :: "channel list \<Rightarrow> channel_map \<Rightarrow> subscriber set" where
  "lookup_channels cl cm =
     (\<Union>c \<in> set cl. set (channel_subscriptions cm c) \<union> range_subscriptions cm c)"

section \<open>The two tables agree with the subscribers\<close>

text \<open>
  The map keeps every subscription twice, in the subscriber and in its own tables; this is
  the invariant between them.
\<close>

definition cm_ok :: "channel_map \<Rightarrow> bool" where
  "cm_ok cm \<longleftrightarrow>
     (\<forall>c. distinct (channel_subscriptions cm c))
   \<and> (\<forall>p c. p \<in> set (channel_subscriptions cm c) \<longleftrightarrow> c \<in> channels cm p)
   \<and> (\<forall>p c. p \<in> range_subscriptions cm c \<longleftrightarrow> c \<in> ranges cm p)"

lemma cm_okD:
  assumes "cm_ok cm"
  shows "distinct (channel_subscriptions cm c)"
    "p \<in> set (channel_subscriptions cm c) \<longleftrightarrow> c \<in> channels cm p"
    "p \<in> range_subscriptions cm c \<longleftrightarrow> c \<in> ranges cm p"
  using assms by (simp_all add: cm_ok_def)

lemma notify_simps [simp]:
  "channels (notify ev cm) = channels cm" "ranges (notify ev cm) = ranges cm"
  "channel_subscriptions (notify ev cm) = channel_subscriptions cm"
  "range_subscriptions (notify ev cm) = range_subscriptions cm"
  "upstream_log (notify ev cm) = upstream_log cm @ [ev]"
  by (simp_all add: notify_def)

lemma cm_ok_notify [simp]: "cm_ok (notify ev cm) = cm_ok cm"
  by (simp add: cm_ok_def)

lemma cm_ok_init: "cm_ok cm_init"
  by (simp add: cm_ok_def cm_init_def)

text \<open>What a subscriber listens to, one operation at a time.\<close>

definition listens :: "channel_map \<Rightarrow> subscriber \<Rightarrow> channel set" where
  "listens cm p = channels cm p \<union> ranges cm p"

lemma is_subscribed_listens: "is_subscribed p c cm \<longleftrightarrow> c \<in> listens cm p"
  by (simp add: is_subscribed_def listens_def)

lemma lookup_listens:
  "cm_ok cm \<Longrightarrow> p \<in> lookup_channels cl cm \<longleftrightarrow> (\<exists>c \<in> set cl. is_subscribed p c cm)"
  by (auto simp: lookup_channels_def is_subscribed_def cm_okD)

lemma subscribe_channel_fields:
  "ranges (subscribe_channel p c cm) = ranges cm"
  "range_subscriptions (subscribe_channel p c cm) = range_subscriptions cm"
  "\<not> is_subscribed p c cm \<Longrightarrow>
    channels (subscribe_channel p c cm) = (channels cm)(p := insert c (channels cm p))"
  "\<not> is_subscribed p c cm \<Longrightarrow>
    channel_subscriptions (subscribe_channel p c cm) =
      (channel_subscriptions cm)(c := channel_subscriptions cm c @ [p])"
  by (simp_all add: subscribe_channel_def Let_def)

lemma cm_ok_subscribe_channel: "cm_ok cm \<Longrightarrow> cm_ok (subscribe_channel p c cm)"
proof (cases "is_subscribed p c cm")
  case False
  assume "cm_ok cm"
  with False show ?thesis by (auto simp: cm_ok_def subscribe_channel_fields is_subscribed_def)
qed (simp add: subscribe_channel_def)

lemma listens_subscribe_channel:
  "listens (subscribe_channel p c cm) q = (if q = p then insert c (listens cm q) else listens cm q)"
  by (auto simp: subscribe_channel_def listens_def is_subscribed_def Let_def)

lemma remove_subscriber_fields [simp]:
  "channels (snd (remove_subscriber p c cm)) = channels cm"
  "ranges (snd (remove_subscriber p c cm)) = ranges cm"
  "range_subscriptions (snd (remove_subscriber p c cm)) = range_subscriptions cm"
  "upstream_log (snd (remove_subscriber p c cm)) = upstream_log cm"
  "channel_subscriptions (snd (remove_subscriber p c cm)) =
     (channel_subscriptions cm)(c := remove1 p (channel_subscriptions cm c))"
  by (auto simp: remove_subscriber_def Let_def)

lemma remove_subscriber_last:
  "fst (remove_subscriber p c cm) \<longleftrightarrow>
     channel_subscriptions cm c \<noteq> [] \<and> remove1 p (channel_subscriptions cm c) = []"
  by (auto simp: remove_subscriber_def Let_def)

lemma unsubscribe_channel_fields:
  "ranges (unsubscribe_channel p c cm) = ranges cm"
  "range_subscriptions (unsubscribe_channel p c cm) = range_subscriptions cm"
  "is_subscribed p c cm \<Longrightarrow>
    channels (unsubscribe_channel p c cm) = (channels cm)(p := channels cm p - {c})"
  "is_subscribed p c cm \<Longrightarrow>
    channel_subscriptions (unsubscribe_channel p c cm) =
      (channel_subscriptions cm)(c := remove1 p (channel_subscriptions cm c))"
  by (simp_all add: unsubscribe_channel_def Let_def case_prod_beta)

lemma cm_ok_unsubscribe_channel: "cm_ok cm \<Longrightarrow> cm_ok (unsubscribe_channel p c cm)"
proof (cases "is_subscribed p c cm")
  case True
  assume "cm_ok cm"
  with True show ?thesis by (auto simp: cm_ok_def unsubscribe_channel_fields)
qed (simp add: unsubscribe_channel_def)

lemma channels_unsubscribe_channel:
  "channels (unsubscribe_channel p c cm) q = (if q = p then channels cm q - {c} else channels cm q)"
proof (cases "is_subscribed p c cm")
  case True
  then show ?thesis by (simp add: unsubscribe_channel_fields)
next
  case False
  then show ?thesis by (auto simp: unsubscribe_channel_def is_subscribed_def)
qed

lemma cm_ok_subscribe_range: "cm_ok cm \<Longrightarrow> cm_ok (subscribe_range p lo hi cm)"
  by (auto simp: subscribe_range_def cm_ok_def Let_def)

lemma listens_subscribe_range:
  "listens (subscribe_range p lo hi cm) q = (if q = p then listens cm q \<union> {lo..hi} else listens cm q)"
  by (auto simp: subscribe_range_def listens_def Let_def)

lemma notify_ranges_fields [simp]:
  "channels (notify_ranges ivs cm) = channels cm" "ranges (notify_ranges ivs cm) = ranges cm"
  "channel_subscriptions (notify_ranges ivs cm) = channel_subscriptions cm"
  "range_subscriptions (notify_ranges ivs cm) = range_subscriptions cm"
  by (induction ivs arbitrary: cm) (auto split: prod.splits)

lemma cm_ok_notify_ranges [simp]: "cm_ok (notify_ranges ivs cm) = cm_ok cm"
  by (simp add: cm_ok_def)

lemma clobber_fields [simp]:
  "ranges (clobber_channels p lo hi ks cm) = ranges cm"
  "range_subscriptions (clobber_channels p lo hi ks cm) = range_subscriptions cm"
  "upstream_log (clobber_channels p lo hi ks cm) = upstream_log cm"
  by (induction ks arbitrary: cm) (auto simp: Let_def)

lemma channels_clobber:
  "channels (clobber_channels p lo hi ks cm) q =
     (if q = p then channels cm q - (set ks \<inter> {lo..hi}) else channels cm q)"
  by (induction ks arbitrary: cm) (auto simp: Let_def)

lemma cm_ok_clobber: "cm_ok cm \<Longrightarrow> cm_ok (clobber_channels p lo hi ks cm)"
proof (induction ks arbitrary: cm)
  case (Cons k ks)
  let ?cm1 = "(snd (remove_subscriber p k cm))\<lparr>channels := (channels cm)(p := channels cm p - {k})\<rparr>"
  from Cons.prems have "cm_ok ?cm1" by (auto simp: cm_ok_def)
  with Cons show ?case by (simp add: Let_def)
qed simp

lemma cm_ok_unsubscribe_range: "cm_ok cm \<Longrightarrow> cm_ok (unsubscribe_range cs p lo hi cm)"
  unfolding unsubscribe_range_def Let_def
  by (simp, intro impI cm_ok_clobber) (auto simp: cm_ok_def)

text \<open>
  With some range subscribed by somebody, \<open>unsubscribe_range\<close> takes the whole range away from
  the subscriber, single channels included, and from nobody else.
\<close>

lemma unsubscribe_range_subscriber:
  assumes ok: "cm_ok cm" "containers_ok cs" and some: "range_subscriptions cm c0 \<noteq> {}"
  shows "channels (unsubscribe_range cs p lo hi cm) q =
      (if q = p then channels cm q - {lo..hi} else channels cm q)"
    and "ranges (unsubscribe_range cs p lo hi cm) q =
      (if q = p then ranges cm q - {lo..hi} else ranges cm q)"
proof -
  let ?m = "range_subscriptions cm"
  have some': "\<not> (\<forall>c. ?m c = {})" using some by blast
  show "channels (unsubscribe_range cs p lo hi cm) q =
      (if q = p then channels cm q - {lo..hi} else channels cm q)"
    unfolding unsubscribe_range_def if_not_P [OF some'] Let_def
    by (auto simp: channels_clobber containers_okD(5) [OF ok(2)])
  have "map_lower cs ?m \<le> c \<and> c \<le> map_upper cs ?m" if "c \<in> ranges cm p" for c
    using that cm_okD(3) [OF ok(1), of p c] containers_okD(3,4) [OF ok(2), of ?m c] by blast
  then have "ranges cm p - {max lo (map_lower cs ?m)..min hi (map_upper cs ?m)} = ranges cm p - {lo..hi}"
    by auto
  then show "ranges (unsubscribe_range cs p lo hi cm) q =
      (if q = p then ranges cm q - {lo..hi} else ranges cm q)"
    unfolding unsubscribe_range_def if_not_P [OF some'] Let_def by simp
qed

lemma listens_unsubscribe_range:
  assumes "cm_ok cm" "containers_ok cs" "range_subscriptions cm c0 \<noteq> {}"
  shows "listens (unsubscribe_range cs p lo hi cm) q =
    (if q = p then listens cm q - {lo..hi} else listens cm q)"
  using unsubscribe_range_subscriber [OF assms] by (auto simp: listens_def)

section \<open>Taking a subscriber out\<close>

lemma word_open_lower: "(a :: channel) < c \<Longrightarrow> a + 1 \<le> x \<longleftrightarrow> a < x"
  by uint_arith

lemma word_open_upper: "c < (b :: channel) \<Longrightarrow> x \<le> b - 1 \<longleftrightarrow> x < b"
  by uint_arith

text \<open>
  \<open>get_closed_bounds\<close> turns every non-empty interval, whatever its bounds, into the closed
  interval of the same channels; the additions and subtractions do not wrap.
\<close>

lemma get_closed_bounds_channels:
  assumes "iv_channels iv \<noteq> {}" "get_closed_bounds iv = (lo, hi)"
  shows "{lo..hi} = iv_channels iv"
proof -
  from assms(1) obtain c where "c \<in> iv_channels iv" by blast
  then have "iv_bits iv AND 2 = 0 \<Longrightarrow> iv_lower iv < c" "iv_bits iv AND 1 = 0 \<Longrightarrow> c < iv_upper iv"
    by (auto simp: iv_channels_def split: if_splits)
  then have "lo \<le> x \<longleftrightarrow> (if iv_bits iv AND 2 \<noteq> 0 then iv_lower iv \<le> x else iv_lower iv < x)"
    and "x \<le> hi \<longleftrightarrow> (if iv_bits iv AND 1 \<noteq> 0 then x \<le> iv_upper iv else x < iv_upper iv)" for x
    using assms(2) word_open_lower [of "iv_lower iv" c x] word_open_upper [of c "iv_upper iv" x]
    by (auto simp: get_closed_bounds_def)
  then show ?thesis by (simp add: iv_channels_def set_eq_iff)
qed

lemma unsubscribe_channels_effect:
  "cm_ok cm \<Longrightarrow> cm_ok (unsubscribe_channels p ks cm)"
  "ranges (unsubscribe_channels p ks cm) = ranges cm"
  "channels (unsubscribe_channels p ks cm) q = (if q = p then channels cm q - set ks else channels cm q)"
  by (induction ks arbitrary: cm)
     (auto simp: cm_ok_unsubscribe_channel unsubscribe_channel_fields channels_unsubscribe_channel)

lemma unsubscribe_range_none:
  "cm_ok cm \<Longrightarrow> \<forall>c. range_subscriptions cm c = {} \<Longrightarrow>
    unsubscribe_range cs p lo hi cm = cm \<and> ranges cm q = {}"
  by (auto simp: unsubscribe_range_def cm_ok_def)

lemma unsubscribe_ranges_effect:
  assumes "containers_ok cs" "\<forall>iv \<in> set ivs. iv_channels iv \<noteq> {}"
  shows "cm_ok cm \<Longrightarrow> channels cm p = {} \<Longrightarrow>
    cm_ok (unsubscribe_ranges cs p ivs cm)
    \<and> channels (unsubscribe_ranges cs p ivs cm) = channels cm
    \<and> ranges (unsubscribe_ranges cs p ivs cm) q =
        (if q = p then ranges cm q - \<Union>(iv_channels ` set ivs) else ranges cm q)"
  using assms(2)
proof (induction ivs arbitrary: cm)
  case (Cons iv ivs)
  obtain lo hi where b: "get_closed_bounds iv = (lo, hi)" by (cases "get_closed_bounds iv")
  have iv: "iv_channels iv = {lo..hi}"
    using Cons.prems(3) get_closed_bounds_channels [OF _ b] by simp
  let ?cm1 = "unsubscribe_range cs p lo hi cm"
  show ?case
  proof (cases "\<forall>c. range_subscriptions cm c = {}")
    case True
    with Cons.prems(1) have "?cm1 = cm" "\<And>q. ranges cm q = {}"
      using unsubscribe_range_none by blast+
    with Cons b show ?thesis by auto
  next
    case False
    then obtain c0 where c0: "range_subscriptions cm c0 \<noteq> {}" by blast
    note eff = unsubscribe_range_subscriber [OF Cons.prems(1) assms(1) c0, of p lo hi]
    have ok1: "cm_ok ?cm1" using Cons.prems(1) by (rule cm_ok_unsubscribe_range)
    have ch: "channels ?cm1 = channels cm"
      using Cons.prems(2) by (intro ext) (simp add: eff(1))
    have "cm_ok (unsubscribe_ranges cs p ivs ?cm1)
        \<and> channels (unsubscribe_ranges cs p ivs ?cm1) = channels ?cm1
        \<and> ranges (unsubscribe_ranges cs p ivs ?cm1) q =
            (if q = p then ranges ?cm1 q - \<Union>(iv_channels ` set ivs) else ranges ?cm1 q)"
      using Cons.prems(2,3) ch ok1 by (intro Cons.IH) auto
    with ch b iv show ?thesis by (auto simp: eff(2))
  qed
qed simp

lemma unsubscribe_all_effect:
  assumes ok: "cm_ok cm" and cs: "containers_ok cs"
  shows "cm_ok (unsubscribe_all cs p cm)"
    and "listens (unsubscribe_all cs p cm) q = (if q = p then {} else listens cm q)"
proof -
  let ?cm1 = "unsubscribe_channels p (set_order cs (channels cm p)) cm"
  let ?ivs = "segments cs (ranges ?cm1 p)"
  have 1: "cm_ok ?cm1" "ranges ?cm1 = ranges cm"
    "\<And>q. channels ?cm1 q = (if q = p then {} else channels cm q)"
    using ok containers_okD(5) [OF cs]
    by (auto simp: unsubscribe_channels_effect)
  have "\<forall>iv \<in> set ?ivs. iv_channels iv \<noteq> {}" "\<Union>(iv_channels ` set ?ivs) = ranges ?cm1 p"
    using containers_okD(1,2) [OF cs] by blast+
  note eff = unsubscribe_ranges_effect [OF cs this(1) 1(1), of p, simplified this(2)]
  from eff 1 show "cm_ok (unsubscribe_all cs p cm)"
    by (simp add: unsubscribe_all_def Let_def)
  from eff [of q] 1 show "listens (unsubscribe_all cs p cm) q = (if q = p then {} else listens cm q)"
    by (simp add: unsubscribe_all_def Let_def listens_def)
qed

section \<open>The interface the message director uses\<close>

text \<open>
  A registry of listeners, as the message director sees it. The \<open>env\<close> argument of the
  operations that walk containers is the containers' behaviour.
\<close>

locale listener_registry =
  fixes inv :: "'m \<Rightarrow> bool"
    and env_ok :: "'e \<Rightarrow> bool"
    and heard :: "'m \<Rightarrow> 'p \<Rightarrow> channel set"
    and lookup :: "channel list \<Rightarrow> 'm \<Rightarrow> 'p set"
    and sub :: "'p \<Rightarrow> channel \<Rightarrow> 'm \<Rightarrow> 'm"
    and sub_range :: "'p \<Rightarrow> channel \<Rightarrow> channel \<Rightarrow> 'm \<Rightarrow> 'm"
    and drop_all :: "'e \<Rightarrow> 'p \<Rightarrow> 'm \<Rightarrow> 'm"
  assumes lookup_heard: "inv m \<Longrightarrow> p \<in> lookup cl m \<longleftrightarrow> (\<exists>c \<in> set cl. c \<in> heard m p)"
    and inv_sub: "inv m \<Longrightarrow> inv (sub p c m)"
    and heard_sub: "inv m \<Longrightarrow> heard (sub p c m) q = (if q = p then insert c (heard m q) else heard m q)"
    and inv_sub_range: "inv m \<Longrightarrow> inv (sub_range p lo hi m)"
    and heard_sub_range: "inv m \<Longrightarrow>
      heard (sub_range p lo hi m) q = (if q = p then heard m q \<union> {lo..hi} else heard m q)"
    and inv_drop: "inv m \<Longrightarrow> env_ok e \<Longrightarrow> inv (drop_all e p m)"
    and heard_drop: "inv m \<Longrightarrow> env_ok e \<Longrightarrow>
      heard (drop_all e p m) q = (if q = p then {} else heard m q)"
begin

lemmas heard_simps = heard_sub heard_sub_range heard_drop

lemma lookup_drop:
  "inv m \<Longrightarrow> env_ok e \<Longrightarrow> lookup cl (drop_all e p m) = lookup cl m - {p}"
  by (auto simp: lookup_heard inv_drop heard_drop split: if_splits)

lemma lookup_sub:
  "inv m \<Longrightarrow> lookup cl (sub p c m) = (if c \<in> set cl then insert p (lookup cl m) else lookup cl m)"
  by (auto simp: lookup_heard inv_sub heard_sub split: if_splits)

lemma lookup_sub_range:
  "inv m \<Longrightarrow> lookup cl (sub_range p lo hi m) =
    (if set cl \<inter> {lo..hi} \<noteq> {} then insert p (lookup cl m) else lookup cl m)"
  by (fastforce simp: lookup_heard inv_sub_range heard_sub_range disjoint_iff split: if_splits)

lemma lookup_append: "inv m \<Longrightarrow> lookup (cl @ cl') m = lookup cl m \<union> lookup cl' m"
  by (auto simp: lookup_heard)

lemma lookup_set_cong: "inv m \<Longrightarrow> set cl = set cl' \<Longrightarrow> lookup cl m = lookup cl' m"
  by (auto simp: lookup_heard)

end

interpretation registry: listener_registry cm_ok containers_ok listens lookup_channels
    subscribe_channel subscribe_range unsubscribe_all
  by unfold_locales
     (simp_all add: lookup_listens is_subscribed_listens cm_ok_subscribe_channel
       listens_subscribe_channel cm_ok_subscribe_range listens_subscribe_range unsubscribe_all_effect)

section \<open>What the upstream knows\<close>

text \<open>
  A message director below another one is a subscriber \<open>q\<close> of the upper one's channel map, and
  the notifications become operations on that map (\<open>MDNetworkUpstream\<close> sends them,
  \<open>MDNetworkParticipant::receive_datagram\<close> performs them).
\<close>

fun upstream_apply :: "containers \<Rightarrow> subscriber \<Rightarrow> upstream_event \<Rightarrow> channel_map \<Rightarrow> channel_map" where
  "upstream_apply cs q (AddChannel c) pm = subscribe_channel q c pm"
| "upstream_apply cs q (RemoveChannel c) pm = unsubscribe_channel q c pm"
| "upstream_apply cs q (AddRange lo hi) pm = subscribe_range q lo hi pm"
| "upstream_apply cs q (RemoveRange lo hi) pm = unsubscribe_range cs q lo hi pm"

datatype cm_op =
    SubChannel subscriber channel
  | UnsubChannel subscriber channel
  | SubRange subscriber channel channel
  | UnsubRange subscriber channel channel

fun cm_apply :: "containers \<Rightarrow> cm_op \<Rightarrow> channel_map \<Rightarrow> channel_map" where
  "cm_apply cs (SubChannel p c) cm = subscribe_channel p c cm"
| "cm_apply cs (UnsubChannel p c) cm = unsubscribe_channel p c cm"
| "cm_apply cs (SubRange p lo hi) cm = subscribe_range p lo hi cm"
| "cm_apply cs (UnsubRange p lo hi) cm = unsubscribe_range cs p lo hi cm"

text \<open>One operation below, followed by its notifications above.\<close>

definition linked_step ::
    "containers \<Rightarrow> subscriber \<Rightarrow> cm_op \<Rightarrow> channel_map \<times> channel_map \<Rightarrow> channel_map \<times> channel_map" where
  "linked_step cs q op s =
     (let cm' = cm_apply cs op ((fst s)\<lparr>upstream_log := []\<rparr>)
      in (cm', fold (upstream_apply cs q) (upstream_log cm') (snd s)))"

text \<open>The upstream sends us everything one of our participants listens to.\<close>

definition covered :: "subscriber \<Rightarrow> channel_map \<Rightarrow> channel_map \<Rightarrow> bool" where
  "covered q cm pm \<longleftrightarrow> (\<forall>p. ranges cm p \<subseteq> ranges pm q \<and> channels cm p \<subseteq> listens pm q)"

definition linked_ok :: "subscriber \<Rightarrow> channel_map \<times> channel_map \<Rightarrow> bool" where
  "linked_ok q s \<longleftrightarrow> cm_ok (fst s) \<and> cm_ok (snd s) \<and> covered q (fst s) (snd s)"

text \<open>
  The condition under which an operation is safe: a range is only given up when no other
  participant holds a single channel inside it.
\<close>

fun op_safe :: "cm_op \<Rightarrow> channel_map \<Rightarrow> bool" where
  "op_safe (UnsubRange p lo hi) cm = (\<forall>p'. p' \<noteq> p \<longrightarrow> channels cm p' \<inter> {lo..hi} = {})"
| "op_safe _ cm = True"

lemma cm_ok_apply: "cm_ok cm \<Longrightarrow> cm_ok (cm_apply cs op cm)"
  by (cases op) (simp_all add: cm_ok_subscribe_channel cm_ok_unsubscribe_channel
      cm_ok_subscribe_range cm_ok_unsubscribe_range)

lemma cm_ok_upstream_apply: "cm_ok pm \<Longrightarrow> cm_ok (upstream_apply cs q ev pm)"
  by (cases ev) (simp_all add: cm_ok_subscribe_channel cm_ok_unsubscribe_channel
      cm_ok_subscribe_range cm_ok_unsubscribe_range)

lemma cm_ok_clear_log [simp]: "cm_ok (cm\<lparr>upstream_log := l\<rparr>) = cm_ok cm"
  by (simp add: cm_ok_def)

lemma cm_ok_upstream_fold: "cm_ok pm \<Longrightarrow> cm_ok (fold (upstream_apply cs q) evs pm)"
  by (induction evs arbitrary: pm) (simp_all add: cm_ok_upstream_apply)

lemma log_subscribe_channel:
  "upstream_log (subscribe_channel p c cm) = upstream_log cm @
     (if \<not> is_subscribed p c cm \<and> channel_subscriptions cm c = [] then [AddChannel c] else [])"
  by (simp add: subscribe_channel_def Let_def)

lemma log_unsubscribe_channel:
  "upstream_log (unsubscribe_channel p c cm) = upstream_log cm @
     (if is_subscribed p c cm \<and> channel_subscriptions cm c \<noteq> []
         \<and> remove1 p (channel_subscriptions cm c) = [] then [RemoveChannel c] else [])"
  by (auto simp: unsubscribe_channel_def Let_def case_prod_beta remove_subscriber_last)

lemma covered_subscribe_channel:
  assumes "cm_ok cm" "covered q cm pm" "upstream_log cm = []"
  shows "covered q (subscribe_channel p c cm)
    (fold (upstream_apply cs q) (upstream_log (subscribe_channel p c cm)) pm)"
proof (cases "is_subscribed p c cm")
  case True
  then have "subscribe_channel p c cm = cm" by (simp add: subscribe_channel_def)
  with assms show ?thesis by simp
next
  case False
  show ?thesis
  proof (cases "channel_subscriptions cm c = []")
    case True
    with False assms show ?thesis
      by (auto simp: log_subscribe_channel covered_def subscribe_channel_fields listens_subscribe_channel)
  next
    case False
    then obtain p' where "p' \<in> set (channel_subscriptions cm c)" by (cases "channel_subscriptions cm c") auto
    then have "c \<in> channels cm p'" using assms(1) by (simp add: cm_okD)
    then have "c \<in> listens pm q" using assms(2) by (auto simp: covered_def)
    with False \<open>\<not> is_subscribed p c cm\<close> assms(2,3) show ?thesis
      by (auto simp: log_subscribe_channel covered_def subscribe_channel_fields)
  qed
qed

lemma covered_unsubscribe_channel:
  assumes "cm_ok cm" "covered q cm pm" "upstream_log cm = []"
  shows "covered q (unsubscribe_channel p c cm)
    (fold (upstream_apply cs q) (upstream_log (unsubscribe_channel p c cm)) pm)"
proof (cases "is_subscribed p c cm \<and> channel_subscriptions cm c \<noteq> []
         \<and> remove1 p (channel_subscriptions cm c) = []")
  case True
  have none: "c \<notin> channels (unsubscribe_channel p c cm) p'" for p'
    using cm_ok_unsubscribe_channel [OF assms(1), of p c] True
    by (auto simp: cm_ok_def unsubscribe_channel_fields split: if_splits)
  have sub: "channels (unsubscribe_channel p c cm) p' \<subseteq> channels cm p'" for p'
    by (simp add: channels_unsubscribe_channel)
  have "channels (unsubscribe_channel p c cm) p' \<subseteq> listens (unsubscribe_channel q c pm) q" for p'
    using none [of p'] sub [of p'] assms(2)
    by (auto simp: covered_def listens_def channels_unsubscribe_channel unsubscribe_channel_fields)
  with True assms show ?thesis
    by (simp add: log_unsubscribe_channel covered_def unsubscribe_channel_fields(1))
next
  case False
  with assms show ?thesis
    by (auto simp: log_unsubscribe_channel covered_def unsubscribe_channel_fields(1)
        channels_unsubscribe_channel split: if_splits)
qed

lemma covered_subscribe_range:
  assumes "cm_ok cm" "covered q cm pm" "upstream_log cm = []"
  shows "covered q (subscribe_range p lo hi cm)
    (fold (upstream_apply cs q) (upstream_log (subscribe_range p lo hi cm)) pm)"
proof (cases "upstream_log (subscribe_range p lo hi cm) = []")
  case False
  then have "upstream_log (subscribe_range p lo hi cm) = [AddRange lo hi]"
    using assms(3) by (auto simp: subscribe_range_def Let_def split: if_splits)
  with assms(2) show ?thesis
    by (auto simp: covered_def listens_def subscribe_range_def Let_def)
next
  case True
  have "c \<in> ranges pm q" if c: "c \<in> {lo..hi}" for c
  proof -
    from True c have "card (insert p (range_subscriptions cm c)) \<noteq> 1"
      by (auto simp: subscribe_range_def Let_def split: if_splits)
    then have "range_subscriptions cm c \<noteq> {}" by (cases "range_subscriptions cm c = {}") auto
    then obtain p' where "p' \<in> range_subscriptions cm c" by blast
    with assms(1) have "c \<in> ranges cm p'" by (simp add: cm_okD)
    with assms(2) show ?thesis unfolding covered_def by blast
  qed
  with True assms(2) show ?thesis
    by (auto simp: covered_def subscribe_range_def Let_def split: if_splits)
qed

lemma fold_remove_ranges:
  assumes "containers_ok cs" "\<forall>iv \<in> set ivs. iv_channels iv \<noteq> {}"
  shows "cm_ok pm \<Longrightarrow>
    ranges pm q - \<Union>(iv_channels ` set ivs) \<subseteq>
      ranges (fold (upstream_apply cs q) (map (\<lambda>iv. case get_closed_bounds iv of (l, u) \<Rightarrow> RemoveRange l u) ivs) pm) q
    \<and> listens pm q - \<Union>(iv_channels ` set ivs) \<subseteq>
      listens (fold (upstream_apply cs q) (map (\<lambda>iv. case get_closed_bounds iv of (l, u) \<Rightarrow> RemoveRange l u) ivs) pm) q"
  using assms(2)
proof (induction ivs arbitrary: pm)
  case (Cons iv ivs)
  obtain lo hi where b: "get_closed_bounds iv = (lo, hi)" by (cases "get_closed_bounds iv")
  have iv: "iv_channels iv = {lo..hi}"
    using Cons.prems(2) get_closed_bounds_channels [OF _ b] by simp
  let ?pm1 = "unsubscribe_range cs q lo hi pm"
  have one: "ranges pm q - {lo..hi} \<subseteq> ranges ?pm1 q \<and> listens pm q - {lo..hi} \<subseteq> listens ?pm1 q"
  proof (cases "\<forall>c. range_subscriptions pm c = {}")
    case True
    then show ?thesis by (simp add: unsubscribe_range_def Diff_subset)
  next
    case False
    then obtain c0 where "range_subscriptions pm c0 \<noteq> {}" by blast
    from unsubscribe_range_subscriber [OF Cons.prems(1) assms(1) this] show ?thesis
      by (auto simp: listens_def)
  qed
  have "cm_ok ?pm1" using Cons.prems(1) by (rule cm_ok_unsubscribe_range)
  from Cons.IH [OF this] Cons.prems(2) one b iv show ?case by simp blast
qed simp

lemma log_notify_ranges:
  "upstream_log (notify_ranges ivs cm) =
     upstream_log cm @ map (\<lambda>iv. case get_closed_bounds iv of (l, u) \<Rightarrow> RemoveRange l u) ivs"
  by (induction ivs arbitrary: cm) (auto split: prod.splits)

lemma covered_unsubscribe_range:
  assumes ok: "cm_ok cm" "cm_ok pm" and cov: "covered q cm pm" and log: "upstream_log cm = []"
    and cs: "containers_ok cs" and safe: "op_safe (UnsubRange p lo hi) cm"
  shows "covered q (unsubscribe_range cs p lo hi cm)
    (fold (upstream_apply cs q) (upstream_log (unsubscribe_range cs p lo hi cm)) pm)"
proof (cases "\<forall>c. range_subscriptions cm c = {}")
  case True
  then have "unsubscribe_range cs p lo hi cm = cm" by (simp add: unsubscribe_range_def)
  with cov log show ?thesis by simp
next
  case False
  then obtain c0 where c0: "range_subscriptions cm c0 \<noteq> {}" by blast
  note eff = unsubscribe_range_subscriber [OF ok(1) cs c0, of p lo hi]
  define I where "I = {max lo (map_lower cs (range_subscriptions cm)) .. min hi (map_upper cs (range_subscriptions cm))}"
  define S where "S = {c \<in> I. \<not> (range_subscriptions cm c \<noteq> {}
      \<and> \<not> (card (range_subscriptions cm c) = 1 \<and> p \<in> range_subscriptions cm c))}"
  let ?evs = "map (\<lambda>iv. case get_closed_bounds iv of (l, u) \<Rightarrow> RemoveRange l u) (segments cs S)"
  have evs: "upstream_log (unsubscribe_range cs p lo hi cm) = ?evs"
    unfolding unsubscribe_range_def if_not_P [OF False] Let_def I_def [symmetric] S_def [symmetric]
    by (simp add: log_notify_ranges log)
  have segs: "\<Union>(iv_channels ` set (segments cs S)) = S" "\<forall>iv \<in> set (segments cs S). iv_channels iv \<noteq> {}"
    by (rule containers_okD(1) [OF cs], rule ballI, rule containers_okD(2) [OF cs])
  define pm' where "pm' = fold (upstream_apply cs q) ?evs pm"
  have pm': "ranges pm q - S \<subseteq> ranges pm' q" "listens pm q - S \<subseteq> listens pm' q"
    using fold_remove_ranges [OF cs segs(2) ok(2), of q] unfolding segs(1) pm'_def by simp_all
  have SI: "S \<subseteq> {lo..hi}" by (auto simp: S_def I_def)
  have alone: "r = p" if "c \<in> S" "c \<in> ranges cm r" for c r
  proof -
    from that(2) ok(1) have r: "r \<in> range_subscriptions cm c" by (simp add: cm_okD)
    with that(1) have "card (range_subscriptions cm c) = 1" and p: "p \<in> range_subscriptions cm c"
      unfolding S_def by blast+
    then obtain x where "range_subscriptions cm c = {x}" by (auto simp: card_1_singleton_iff)
    with r p show ?thesis by simp
  qed
  have "ranges (unsubscribe_range cs p lo hi cm) r \<subseteq> ranges pm' q" for r
  proof -
    have "ranges (unsubscribe_range cs p lo hi cm) r \<subseteq> ranges cm r - S"
      using alone SI unfolding eff(2) by (cases "r = p") auto
    moreover have "ranges cm r \<subseteq> ranges pm q" using cov unfolding covered_def by blast
    ultimately show ?thesis using pm'(1) by blast
  qed
  moreover have "channels (unsubscribe_range cs p lo hi cm) r \<subseteq> listens pm' q" for r
  proof -
    have "channels (unsubscribe_range cs p lo hi cm) r \<subseteq> channels cm r - S"
      using safe SI unfolding eff(1) by (cases "r = p") auto
    moreover have "channels cm r \<subseteq> listens pm q" using cov unfolding covered_def by blast
    ultimately show ?thesis using pm'(2) by blast
  qed
  ultimately show ?thesis
    unfolding covered_def evs pm'_def [symmetric] by blast
qed

lemma linked_step_ok:
  assumes "linked_ok q s" "containers_ok cs" "op_safe op (fst s)"
  shows "linked_ok q (linked_step cs q op s)"
proof -
  let ?cm = "(fst s)\<lparr>upstream_log := []\<rparr>"
  have 1: "cm_ok ?cm" "cm_ok (snd s)" "covered q ?cm (snd s)" "upstream_log ?cm = []" "op_safe op ?cm"
    using assms by (auto simp: linked_ok_def covered_def listens_def, cases op, auto)
  have "covered q (cm_apply cs op ?cm) (fold (upstream_apply cs q) (upstream_log (cm_apply cs op ?cm)) (snd s))"
    using 1 assms(2) by (cases op)
      (simp_all add: covered_subscribe_channel covered_unsubscribe_channel covered_subscribe_range
        covered_unsubscribe_range)
  with 1 show ?thesis
    by (simp add: linked_step_def linked_ok_def Let_def cm_ok_apply cm_ok_upstream_fold)
qed

end
