(* ===== verification/Datagram.thy ===== *)
theory Datagram
  imports Wire
begin

text \<open>
  The class \<open>Datagram\<close> of \<open>util/Datagram.h\<close>: a growing byte buffer. The record keeps the bytes
  written so far (their number is \<open>buf_offset\<close>) and the allocated capacity \<open>buf_cap\<close>. A write
  past the capacity, which the C++ would perform, is the value \<open>HeapOverflow\<close>; the lemmas
  show which operations can reach it. Multi-byte values are little-endian on the wire
  (\<open>swap_le\<close> of \<open>dclass/util/byteorder.h\<close>); signed integers and floats are added by their bit
  patterns.
\<close>

section \<open>The buffer\<close>

record datagram =
  dg_buf :: bytes
  buf_cap :: nat

definition buf_offset :: "datagram \<Rightarrow> nat" where
  "buf_offset dg = length (dg_buf dg)"

definition dg_size :: "datagram \<Rightarrow> dgsize" where
  "dg_size dg = word_of_nat (buf_offset dg)"

definition dg_cap :: "datagram \<Rightarrow> dgsize" where
  "dg_cap dg = word_of_nat (buf_cap dg)"

definition check_add_length :: "dgsize \<Rightarrow> datagram \<Rightarrow> datagram res" where
  "check_add_length len dg =
     (let new_offset = buf_offset dg + unat len in
      if new_offset > DGSIZE_MAX then Inl DatagramOverflow
      else if new_offset > buf_cap dg then Inr (dg\<lparr>buf_cap := buf_cap dg + unat len + 64\<rparr>)
      else Inr dg)"

text \<open>The \<open>memcpy\<close> (or typed store) at \<open>buf + buf_offset\<close>, and the advance of \<open>buf_offset\<close>.\<close>

definition dg_store :: "bytes \<Rightarrow> datagram \<Rightarrow> datagram res" where
  "dg_store bs dg =
     (if buf_offset dg + length bs \<le> buf_cap dg then Inr (dg\<lparr>dg_buf := dg_buf dg @ bs\<rparr>)
      else Inl HeapOverflow)"

definition dg_put :: "dgsize \<Rightarrow> bytes \<Rightarrow> datagram \<Rightarrow> datagram res" where
  "dg_put len bs dg = rbind (check_add_length len dg) (dg_store bs)"

section \<open>Adding values\<close>

definition add_uint8 :: "u8 \<Rightarrow> datagram \<Rightarrow> datagram res" where
  "add_uint8 v = dg_put 1 (le_bytes 1 v)"

definition add_uint16 :: "u16 \<Rightarrow> datagram \<Rightarrow> datagram res" where
  "add_uint16 v = dg_put 2 (le_bytes 2 v)"

definition add_uint32 :: "u32 \<Rightarrow> datagram \<Rightarrow> datagram res" where
  "add_uint32 v = dg_put 4 (le_bytes 4 v)"

definition add_uint64 :: "u64 \<Rightarrow> datagram \<Rightarrow> datagram res" where
  "add_uint64 v = dg_put 8 (le_bytes 8 v)"

definition add_bool :: "bool \<Rightarrow> datagram \<Rightarrow> datagram res" where
  "add_bool v = (if v then add_uint8 1 else add_uint8 0)"

definition add_int8 :: "u8 \<Rightarrow> datagram \<Rightarrow> datagram res" where
  "add_int8 v = dg_put 1 (le_bytes 1 v)"

definition add_int16 :: "u16 \<Rightarrow> datagram \<Rightarrow> datagram res" where
  "add_int16 v = dg_put 2 (le_bytes 2 v)"

definition add_int32 :: "u32 \<Rightarrow> datagram \<Rightarrow> datagram res" where
  "add_int32 v = dg_put 4 (le_bytes 4 v)"

definition add_int64 :: "u64 \<Rightarrow> datagram \<Rightarrow> datagram res" where
  "add_int64 v = dg_put 8 (le_bytes 8 v)"

definition add_float32 :: "u32 \<Rightarrow> datagram \<Rightarrow> datagram res" where
  "add_float32 v = dg_put 4 (le_bytes 4 v)"

definition add_float64 :: "u64 \<Rightarrow> datagram \<Rightarrow> datagram res" where
  "add_float64 v = dg_put 8 (le_bytes 8 v)"

definition add_size :: "dgsize \<Rightarrow> datagram \<Rightarrow> datagram res" where
  "add_size v = dg_put 2 (le_bytes 2 v)"

definition add_channel :: "channel \<Rightarrow> datagram \<Rightarrow> datagram res" where
  "add_channel v = dg_put 8 (le_bytes 8 v)"

definition add_doid :: "doid \<Rightarrow> datagram \<Rightarrow> datagram res" where
  "add_doid v = dg_put 4 (le_bytes 4 v)"

definition add_zone :: "zone \<Rightarrow> datagram \<Rightarrow> datagram res" where
  "add_zone v = dg_put 4 (le_bytes 4 v)"

definition add_location :: "doid \<Rightarrow> zone \<Rightarrow> datagram \<Rightarrow> datagram res" where
  "add_location parent zone dg =
     rbind (check_add_length 8 dg) (\<lambda>dg.
     rbind (dg_store (le_bytes 4 parent) dg) (\<lambda>dg.
     dg_store (le_bytes 4 zone) dg))"

text \<open>
  The length arguments below are \<open>size_t\<close> values passed to parameters of type \<open>dgsize_t\<close>: the
  implicit conversion keeps their low 16 bits, while the copy uses the whole length.
\<close>

definition add_data :: "bytes \<Rightarrow> datagram \<Rightarrow> datagram res" where
  "add_data data dg =
     (if length data \<noteq> 0 then dg_put (word_of_nat (length data)) data dg else Inr dg)"

definition add_data_dg :: "datagram \<Rightarrow> datagram \<Rightarrow> datagram res" where
  "add_data_dg src dg =
     (if buf_offset src \<noteq> 0 then dg_put (word_of_nat (buf_offset src)) (dg_buf src) dg else Inr dg)"

definition add_string :: "bytes \<Rightarrow> datagram \<Rightarrow> datagram res" where
  "add_string str dg =
     rbind (add_size (word_of_nat (length str)) dg) (dg_put (word_of_nat (length str)) str)"

definition add_blob :: "bytes \<Rightarrow> datagram \<Rightarrow> datagram res" where
  "add_blob blob dg =
     rbind (add_size (word_of_nat (length blob)) dg) (dg_put (word_of_nat (length blob)) blob)"

definition add_blob_dg :: "datagram \<Rightarrow> datagram \<Rightarrow> datagram res" where
  "add_blob_dg src dg =
     rbind (add_size (word_of_nat (buf_offset src)) dg)
       (dg_put (word_of_nat (buf_offset src)) (dg_buf src))"

text \<open>
  \<open>add_buffer\<close> reserves \<open>length\<close> bytes and returns a pointer for the caller to fill; the model
  takes what the caller (or the uninitialised memory) has there.
\<close>

definition add_buffer :: "dgsize \<Rightarrow> bytes \<Rightarrow> datagram \<Rightarrow> datagram res" where
  "add_buffer len filler dg = dg_put len (take (unat len) filler) dg"

fun add_all :: "(datagram \<Rightarrow> datagram res) list \<Rightarrow> datagram \<Rightarrow> datagram res" where
  "add_all [] dg = Inr dg"
| "add_all (a # as) dg = rbind (a dg) (add_all as)"

definition add_server_header :: "channel \<Rightarrow> channel \<Rightarrow> u16 \<Rightarrow> datagram \<Rightarrow> datagram res" where
  "add_server_header to_ch from message_type =
     add_all [add_uint8 1, add_channel to_ch, add_channel from, add_uint16 message_type]"

text \<open>
  The set-valued overload: the list holds the members of the \<open>unordered_set\<close> in its iteration
  order. The member count is converted to \<open>uint8_t\<close>.
\<close>

definition add_server_header_set :: "channel list \<Rightarrow> channel \<Rightarrow> u16 \<Rightarrow> datagram \<Rightarrow> datagram res" where
  "add_server_header_set to_chs from message_type =
     add_all ([add_uint8 (word_of_nat (length to_chs))] @ map add_channel to_chs
              @ [add_channel from, add_uint16 message_type])"

definition add_control_header :: "u16 \<Rightarrow> datagram \<Rightarrow> datagram res" where
  "add_control_header message_type =
     add_all [add_uint8 1, add_channel CONTROL_MESSAGE, add_uint16 message_type]"

section \<open>Constructors\<close>

definition dg_create :: datagram where
  "dg_create = \<lparr>dg_buf = [], buf_cap = 64\<rparr>"

definition dg_create_copy :: "datagram \<Rightarrow> datagram" where
  "dg_create_copy dg =
     \<lparr>dg_buf = take (unat (dg_size dg)) (dg_buf dg), buf_cap = unat (dg_size dg)\<rparr>"

definition dg_create_data :: "bytes \<Rightarrow> datagram" where
  "dg_create_data data = \<lparr>dg_buf = data, buf_cap = length data\<rparr>"

text \<open>The pointer constructor copies \<open>length\<close> bytes from a region that holds \<open>avail\<close>.\<close>

definition dg_create_ptr :: "bytes \<Rightarrow> dgsize \<Rightarrow> datagram res" where
  "dg_create_ptr avail len =
     (if unat len \<le> length avail
      then Inr \<lparr>dg_buf = take (unat len) avail, buf_cap = unat len\<rparr>
      else Inl HeapOverread)"

definition dg_create_server :: "channel \<Rightarrow> channel \<Rightarrow> u16 \<Rightarrow> datagram res" where
  "dg_create_server to_ch from message_type = add_server_header to_ch from message_type dg_create"

definition dg_create_server_set :: "channel list \<Rightarrow> channel \<Rightarrow> u16 \<Rightarrow> datagram res" where
  "dg_create_server_set to_chs from message_type =
     add_server_header_set to_chs from message_type dg_create"

definition dg_create_control :: "u16 \<Rightarrow> datagram res" where
  "dg_create_control message_type = add_control_header message_type dg_create"

section \<open>What the operations guarantee\<close>

text \<open>
  A datagram is well formed when its bytes fit both its allocation and \<open>DGSIZE_MAX\<close>.
\<close>

definition dg_ok :: "datagram \<Rightarrow> bool" where
  "dg_ok dg \<longleftrightarrow> buf_offset dg \<le> buf_cap dg \<and> buf_offset dg \<le> DGSIZE_MAX"

text \<open>
  \<open>appends bs op\<close>: on every well-formed datagram, \<open>op\<close> either appends exactly the bytes \<open>bs\<close>
  inside the allocation, or throws \<open>DatagramOverflow\<close>, and it throws exactly when the
  result would exceed \<open>DGSIZE_MAX\<close>.
\<close>

definition appends :: "bytes \<Rightarrow> (datagram \<Rightarrow> datagram res) \<Rightarrow> bool" where
  "appends bs op \<longleftrightarrow> (\<forall>dg. dg_ok dg \<longrightarrow>
     (if buf_offset dg + length bs \<le> DGSIZE_MAX
      then \<exists>dg'. op dg = Inr dg' \<and> dg_ok dg' \<and> dg_buf dg' = dg_buf dg @ bs
      else op dg = Inl DatagramOverflow))"

lemma appends_ok:
  assumes "appends bs op" "dg_ok dg" "buf_offset dg + length bs \<le> DGSIZE_MAX"
  obtains dg' where "op dg = Inr dg'" "dg_ok dg'" "dg_buf dg' = dg_buf dg @ bs"
  using assms(1) [unfolded appends_def, rule_format, OF assms(2)] assms(3) by auto

lemma appends_overflow:
  "appends bs op \<Longrightarrow> dg_ok dg \<Longrightarrow> DGSIZE_MAX < buf_offset dg + length bs \<Longrightarrow>
    op dg = Inl DatagramOverflow"
  by (auto simp: appends_def)

lemma appends_Inr:
  "appends bs op \<Longrightarrow> dg_ok dg \<Longrightarrow> op dg = Inr dg' \<Longrightarrow>
    dg_ok dg' \<and> dg_buf dg' = dg_buf dg @ bs \<and> buf_offset dg + length bs \<le> DGSIZE_MAX"
  by (auto simp: appends_def split: if_splits)

lemma appends_Inl:
  "appends bs op \<Longrightarrow> dg_ok dg \<Longrightarrow> op dg = Inl e \<Longrightarrow>
    e = DatagramOverflow \<and> DGSIZE_MAX < buf_offset dg + length bs"
  by (auto simp: appends_def split: if_splits)

lemma appends_nil [appends_intros]: "appends [] Inr"
  by (simp add: appends_def dg_ok_def)

lemma appends_put: "unat n = length bs \<Longrightarrow> appends bs (dg_put n bs)"
  by (auto simp: appends_def dg_put_def check_add_length_def dg_store_def dg_ok_def
      buf_offset_def Let_def)

lemma appends_seq:
  assumes a: "appends as f" and b: "appends bs g"
  shows "appends (as @ bs) (\<lambda>dg. rbind (f dg) g)"
  unfolding appends_def
proof (intro allI impI)
  fix dg
  assume ok: "dg_ok dg"
  show "if buf_offset dg + length (as @ bs) \<le> DGSIZE_MAX
    then \<exists>dg'. rbind (f dg) g = Inr dg' \<and> dg_ok dg' \<and> dg_buf dg' = dg_buf dg @ as @ bs
    else rbind (f dg) g = Inl DatagramOverflow"
  proof (cases "buf_offset dg + length as \<le> DGSIZE_MAX")
    case True
    with a ok obtain dg1 where 1: "f dg = Inr dg1" "dg_ok dg1" "dg_buf dg1 = dg_buf dg @ as"
      by (auto elim: appends_ok)
    then have off: "buf_offset dg1 + length bs = buf_offset dg + length (as @ bs)"
      by (simp add: buf_offset_def)
    from b have "if buf_offset dg1 + length bs \<le> DGSIZE_MAX
      then \<exists>dg'. g dg1 = Inr dg' \<and> dg_ok dg' \<and> dg_buf dg' = dg_buf dg1 @ bs
      else g dg1 = Inl DatagramOverflow"
      using 1(2) by (simp add: appends_def)
    then show ?thesis using 1 off by (auto split: if_splits)
  next
    case False
    with a ok have "f dg = Inl DatagramOverflow" by (simp add: appends_overflow)
    with False show ?thesis by simp
  qed
qed

lemma appends_add_all_Nil [appends_intros]: "appends [] (add_all [])"
  by (simp add: appends_def dg_ok_def)

lemma appends_add_all_Cons [appends_intros]:
  "appends bs a \<Longrightarrow> appends cs (add_all as) \<Longrightarrow> appends (bs @ cs) (add_all (a # as))"
  using appends_seq [of bs a cs "add_all as"] by (simp add: appends_def)

lemma add_all_append: "add_all (as @ bs) dg = rbind (add_all as dg) (add_all bs)"
  by (induction as arbitrary: dg) (simp_all add: rbind_def split: sum.split)

lemma appends_add_all_append [appends_intros]:
  "appends bs (add_all as) \<Longrightarrow> appends cs (add_all bs') \<Longrightarrow> appends (bs @ cs) (add_all (as @ bs'))"
  using appends_seq [of bs "add_all as" cs "add_all bs'"] by (simp add: appends_def add_all_append)

lemma appends_add_all_map [appends_intros]:
  "(\<And>x. x \<in> set xs \<Longrightarrow> appends (enc x) (add x)) \<Longrightarrow>
    appends (concat (map enc xs)) (add_all (map add xs))"
  by (induction xs) (auto intro: appends_intros)

lemma appends_add [appends_intros]:
  "appends (le_bytes 1 a) (add_uint8 a)" "appends (le_bytes 2 b) (add_uint16 b)"
  "appends (le_bytes 4 c) (add_uint32 c)" "appends (le_bytes 8 d) (add_uint64 d)"
  "appends (le_bytes 1 a) (add_int8 a)" "appends (le_bytes 2 b) (add_int16 b)"
  "appends (le_bytes 4 c) (add_int32 c)" "appends (le_bytes 8 d) (add_int64 d)"
  "appends (le_bytes 4 c) (add_float32 c)" "appends (le_bytes 8 d) (add_float64 d)"
  "appends (le_bytes 2 b) (add_size b)" "appends (le_bytes 8 d) (add_channel d)"
  "appends (le_bytes 4 c) (add_doid c)" "appends (le_bytes 4 c) (add_zone c)"
  by (simp_all add: add_uint8_def add_uint16_def add_uint32_def add_uint64_def add_int8_def
      add_int16_def add_int32_def add_int64_def add_float32_def add_float64_def add_size_def
      add_channel_def add_doid_def add_zone_def appends_put)

lemma appends_add_bool [appends_intros]: "appends [if v then 1 else 0] (add_bool v)"
  using appends_add(1) [of 1] appends_add(1) [of 0]
  by (simp add: add_bool_def le_bytes.simps)

lemma appends_add_location [appends_intros]:
  "appends (le_bytes 4 p @ le_bytes 4 z) (add_location p z)"
  by (auto simp: appends_def add_location_def check_add_length_def dg_store_def dg_ok_def
      buf_offset_def Let_def)

lemma unat_of_short_length:
  "length (bs :: bytes) \<le> DGSIZE_MAX \<Longrightarrow> unat (word_of_nat (length bs) :: u16) = length bs"
  by (simp add: DGSIZE_MAX_def unsigned_of_nat take_bit_nat_eq_self)

lemma dg_ok_size: "dg_ok dg \<Longrightarrow> unat (dg_size dg) = length (dg_buf dg)"
  using unat_of_short_length [of "dg_buf dg"] by (simp add: dg_ok_def dg_size_def buf_offset_def)

lemma appends_add_data [appends_intros]:
  "length data \<le> DGSIZE_MAX \<Longrightarrow> appends data (add_data data)"
  using appends_put [of "word_of_nat (length data)" data] appends_nil
  by (auto simp: add_data_def unat_of_short_length appends_def dg_ok_def)

lemma appends_add_data_dg [appends_intros]:
  "dg_ok src \<Longrightarrow> appends (dg_buf src) (add_data_dg src)"
  using appends_put [of "word_of_nat (buf_offset src)" "dg_buf src"] appends_nil
  by (auto simp: add_data_dg_def unat_of_short_length appends_def dg_ok_def buf_offset_def)

lemma appends_sized:
  assumes "length bs \<le> DGSIZE_MAX"
  shows "appends (le_bytes 2 (word_of_nat (length bs) :: u16) @ bs)
    (\<lambda>dg. rbind (add_size (word_of_nat (length bs)) dg) (dg_put (word_of_nat (length bs)) bs))"
  by (rule appends_seq [OF appends_add(11) appends_put]) (rule unat_of_short_length [OF assms])

lemma appends_add_string [appends_intros]:
  "length str \<le> DGSIZE_MAX \<Longrightarrow>
    appends (le_bytes 2 (word_of_nat (length str) :: u16) @ str) (add_string str)"
  using appends_sized [of str] by (simp add: add_string_def appends_def)

lemma appends_add_blob [appends_intros]:
  "length blob \<le> DGSIZE_MAX \<Longrightarrow>
    appends (le_bytes 2 (word_of_nat (length blob) :: u16) @ blob) (add_blob blob)"
  using appends_sized [of blob] by (simp add: add_blob_def appends_def)

lemma appends_add_blob_dg [appends_intros]:
  assumes "dg_ok src"
  shows "appends (le_bytes 2 (dg_size src) @ dg_buf src) (add_blob_dg src)"
proof -
  from assms have "length (dg_buf src) \<le> DGSIZE_MAX" by (simp add: dg_ok_def buf_offset_def)
  from appends_sized [OF this] show ?thesis
    by (simp add: add_blob_dg_def [abs_def] buf_offset_def dg_size_def)
qed

definition server_header_bytes :: "channel list \<Rightarrow> channel \<Rightarrow> u16 \<Rightarrow> bytes" where
  "server_header_bytes tos from mtype =
     le_bytes 1 (word_of_nat (length tos) :: u8) @ concat (map (le_bytes 8) tos)
     @ le_bytes 8 from @ le_bytes 2 mtype"

lemma appends_add_server_header [appends_intros]:
  "appends (server_header_bytes [t] from mtype) (add_server_header t from mtype)"
proof -
  have "appends (le_bytes 1 (1 :: u8) @ le_bytes 8 t @ le_bytes 8 from @ le_bytes 2 mtype @ [])
      (add_all [add_uint8 1, add_channel t, add_channel from, add_uint16 mtype])"
    by (intro appends_intros)
  then show ?thesis
    by (simp add: add_server_header_def server_header_bytes_def del: add_all.simps)
qed

lemma appends_add_server_header_set [appends_intros]:
  "appends (server_header_bytes tos from mtype) (add_server_header_set tos from mtype)"
proof -
  have "appends ((le_bytes 1 (word_of_nat (length tos) :: u8) @ []) @ concat (map (le_bytes 8) tos)
        @ le_bytes 8 from @ le_bytes 2 mtype @ [])
      (add_all ([add_uint8 (word_of_nat (length tos))] @ map add_channel tos
              @ [add_channel from, add_uint16 mtype]))"
    by (intro appends_intros)
  then show ?thesis
    by (simp add: add_server_header_set_def server_header_bytes_def del: add_all.simps)
qed

lemma appends_add_control_header [appends_intros]:
  "appends (le_bytes 1 (1 :: u8) @ le_bytes 8 CONTROL_MESSAGE @ le_bytes 2 mtype)
     (add_control_header mtype)"
proof -
  have "appends (le_bytes 1 (1 :: u8) @ le_bytes 8 CONTROL_MESSAGE @ le_bytes 2 mtype @ [])
      (add_all [add_uint8 1, add_channel CONTROL_MESSAGE, add_uint16 mtype])"
    by (intro appends_intros)
  then show ?thesis
    by (simp add: add_control_header_def del: add_all.simps)
qed

lemma dg_create_ok [simp]: "dg_ok dg_create" "dg_buf dg_create = []" "buf_offset dg_create = 0"
  by (simp_all add: dg_ok_def dg_create_def buf_offset_def)

end
