(* ===== verification/DClass.thy ===== *)
theory DClass
  imports Wire
begin

text \<open>
  The distributed types of \<open>dclass/dc\<close>: the layout tags of \<open>DistributedType.h\<close>, numeric types
  with their value ranges (\<open>NumericType\<close>, \<open>NumericRange.h\<close>), arrays, structs, methods, fields
  with their keywords, molecular fields, and the objects a class hands to the servers. Sizes
  are the 16-bit \<open>sizetag_t\<close> of the default build; a size of 0 means "variable", as in the
  code. The types are trees here: the recursion of the code over \<open>get_element_type\<close>,
  \<open>get_field\<close> and \<open>get_parameter\<close> is structural recursion. Of the alias of a type only that of
  an array is kept, which is all the hash of a file reads; \<open>str_class\<close> is \<open>Struct::as_class\<close>, the
  class a struct is, as its place in the heap of classes.
\<close>

section \<open>Tags, numbers and ranges\<close>

datatype type_tag =
    T_INT8 | T_INT16 | T_INT32 | T_INT64
  | T_UINT8 | T_UINT16 | T_UINT32 | T_UINT64
  | T_CHAR | T_FLOAT32 | T_FLOAT64
  | T_STRING | T_VARSTRING | T_BLOB | T_VARBLOB | T_ARRAY | T_VARARRAY
  | T_STRUCT | T_METHOD | T_INVALID

datatype number_kind = NK_NONE | NK_INT | NK_UINT | NK_FLOAT

text \<open>
  \<open>Number\<close> is a tagged union of a signed, an unsigned and a floating 64-bit value; the record
  keeps the tag and the 64 bits, and each reader interprets the bits.
\<close>

record number =
  num_kind :: number_kind
  num_bits :: u64

abbreviation num_int :: "int \<Rightarrow> number" where
  "num_int n \<equiv> \<lparr>num_kind = NK_INT, num_bits = word_of_int n\<rparr>"

abbreviation num_uint :: "u64 \<Rightarrow> number" where
  "num_uint n \<equiv> \<lparr>num_kind = NK_UINT, num_bits = n\<rparr>"

text \<open>
  The IEEE 754 comparison of two doubles on their bit patterns: false when either is a NaN,
  and otherwise the order of sign and magnitude, with the two zeros equal.
\<close>

definition double_is_nan :: "u64 \<Rightarrow> bool" where
  "double_is_nan b \<longleftrightarrow> unat b mod 2 ^ 63 > 2047 * 2 ^ 52"

definition double_key :: "u64 \<Rightarrow> int" where
  "double_key b = (if unat b \<ge> 2 ^ 63 then - int (unat b mod 2 ^ 63) else int (unat b))"

definition double_le :: "u64 \<Rightarrow> u64 \<Rightarrow> bool" where
  "double_le a b \<longleftrightarrow> \<not> double_is_nan a \<and> \<not> double_is_nan b \<and> double_key a \<le> double_key b"

text \<open>The exact conversion \<open>float\<close> to \<open>double\<close>, on bit patterns.\<close>

fun top_bit :: "nat \<Rightarrow> nat" where
  "top_bit n = (if n \<le> 1 then 0 else Suc (top_bit (n div 2)))"

declare top_bit.simps [simp del]

definition float_to_double :: "u32 \<Rightarrow> u64" where
  "float_to_double w =
     (let n = unat w; s = n div 2 ^ 31; e = n div 2 ^ 23 mod 256; m = n mod 2 ^ 23;
          mag = (if e = 255 then 2047 * 2 ^ 52 + m * 2 ^ 29
                 else if e = 0 \<and> m = 0 then 0
                 else if e = 0 then (top_bit m + 874) * 2 ^ 52 + (m - 2 ^ top_bit m) * 2 ^ (52 - top_bit m)
                 else (e + 896) * 2 ^ 52 + m * 2 ^ 29)
      in word_of_nat (s * 2 ^ 63 + mag))"

record nrange =
  nr_kind :: number_kind
  nr_min :: number
  nr_max :: number

text \<open>The default range: no constraint; its bounds are minus and plus infinity.\<close>

definition nrange_none :: nrange where
  "nrange_none = \<lparr>nr_kind = NK_NONE,
     nr_min = \<lparr>num_kind = NK_NONE, num_bits = word_of_nat (4095 * 2 ^ 52)\<rparr>,
     nr_max = \<lparr>num_kind = NK_NONE, num_bits = word_of_nat (2047 * 2 ^ 52)\<rparr>\<rparr>"

definition nrange_int :: "int \<Rightarrow> int \<Rightarrow> nrange" where
  "nrange_int lo hi = \<lparr>nr_kind = NK_INT, nr_min = num_int lo, nr_max = num_int hi\<rparr>"

definition nrange_uint :: "u64 \<Rightarrow> u64 \<Rightarrow> nrange" where
  "nrange_uint lo hi = \<lparr>nr_kind = NK_UINT, nr_min = num_uint lo, nr_max = num_uint hi\<rparr>"

definition nrange_is_empty :: "nrange \<Rightarrow> bool" where
  "nrange_is_empty r \<longleftrightarrow> nr_kind r = NK_NONE"

definition nrange_contains :: "nrange \<Rightarrow> number \<Rightarrow> bool" where
  "nrange_contains r num =
     (case num_kind (nr_min r) of
        NK_NONE \<Rightarrow> True
      | NK_INT \<Rightarrow> sint (num_bits (nr_min r)) \<le> sint (num_bits num)
                  \<and> sint (num_bits num) \<le> sint (num_bits (nr_max r))
      | NK_UINT \<Rightarrow> num_bits (nr_min r) \<le> num_bits num \<and> num_bits num \<le> num_bits (nr_max r)
      | NK_FLOAT \<Rightarrow> double_le (num_bits (nr_min r)) (num_bits num)
                  \<and> double_le (num_bits num) (num_bits (nr_max r)))"

section \<open>Numeric types\<close>

record numeric_type =
  nt_type :: type_tag
  nt_size :: dgsize
  nt_divisor :: u32
  nt_modulus :: u64
  nt_orig_range :: nrange
  nt_range :: nrange

fun numeric_size :: "type_tag \<Rightarrow> dgsize option" where
  "numeric_size T_CHAR = Some 1"
| "numeric_size T_INT8 = Some 1"
| "numeric_size T_UINT8 = Some 1"
| "numeric_size T_INT16 = Some 2"
| "numeric_size T_UINT16 = Some 2"
| "numeric_size T_INT32 = Some 4"
| "numeric_size T_UINT32 = Some 4"
| "numeric_size T_INT64 = Some 8"
| "numeric_size T_UINT64 = Some 8"
| "numeric_size T_FLOAT32 = Some 4"
| "numeric_size T_FLOAT64 = Some 8"
| "numeric_size _ = None"

definition numeric_type_new :: "type_tag \<Rightarrow> numeric_type" where
  "numeric_type_new t = (case numeric_size t of
       Some n \<Rightarrow> \<lparr>nt_type = t, nt_size = n, nt_divisor = 1, nt_modulus = 0,
                  nt_orig_range = nrange_none, nt_range = nrange_none\<rparr>
     | None \<Rightarrow> \<lparr>nt_type = T_INVALID, nt_size = 0, nt_divisor = 1, nt_modulus = 0,
                  nt_orig_range = nrange_none, nt_range = nrange_none\<rparr>)"

definition numeric_has_range :: "numeric_type \<Rightarrow> bool" where
  "numeric_has_range nt \<longleftrightarrow> \<not> nrange_is_empty (nt_orig_range nt)"

text \<open>
  \<open>data_to_number\<close> reads the value's bytes in the platform's (little-endian) order and
  widens it to 64 bits, with or without sign.
\<close>

fun data_to_number :: "numeric_type \<Rightarrow> bytes \<Rightarrow> number option" where
  "data_to_number nt data =
     (if unat (nt_size nt) \<noteq> length data then None
      else case nt_type nt of
        T_INT8 \<Rightarrow> Some (num_int (sint (le_word data :: u8)))
      | T_INT16 \<Rightarrow> Some (num_int (sint (le_word data :: u16)))
      | T_INT32 \<Rightarrow> Some (num_int (sint (le_word data :: u32)))
      | T_INT64 \<Rightarrow> Some (num_int (sint (le_word data :: u64)))
      | T_CHAR \<Rightarrow> Some (num_uint (ucast (le_word data :: u8)))
      | T_UINT8 \<Rightarrow> Some (num_uint (ucast (le_word data :: u8)))
      | T_UINT16 \<Rightarrow> Some (num_uint (ucast (le_word data :: u16)))
      | T_UINT32 \<Rightarrow> Some (num_uint (ucast (le_word data :: u32)))
      | T_UINT64 \<Rightarrow> Some (num_uint (le_word data))
      | T_FLOAT32 \<Rightarrow> Some \<lparr>num_kind = NK_FLOAT, num_bits = float_to_double (le_word data)\<rparr>
      | T_FLOAT64 \<Rightarrow> Some \<lparr>num_kind = NK_FLOAT, num_bits = le_word data\<rparr>
      | _ \<Rightarrow> None)"

definition numeric_within_range :: "numeric_type \<Rightarrow> bytes \<Rightarrow> bool" where
  "numeric_within_range nt data =
     (case data_to_number nt data of None \<Rightarrow> False | Some n \<Rightarrow> nrange_contains (nt_range nt) n)"

section \<open>Types, fields and parameters\<close>

datatype dtype =
    TInvalid
  | TNumeric numeric_type
  | TArray (arr_tag: type_tag) (arr_bytes: dgsize) (arr_elem: dtype) (arr_count: u32) (arr_range: nrange)
      (arr_alias: string)
  | TStruct (str_bytes: dgsize) (str_fields: "field list") (str_constraint: bool) (str_name: string)
      (str_class: "nat option")
  | TMethod (met_bytes: dgsize) (met_params: "param list") (met_constraint: bool)
and field =
    Field (field_id: u32) (field_name: string) (field_keywords: "string list")
      (field_type: dtype) (field_default: bytes) (field_has_default: bool) (field_molecular: bool)
and param =
    Param (param_name: string) (param_type: dtype) (param_default: bytes) (param_has_default: bool)

fun get_type :: "dtype \<Rightarrow> type_tag" where
  "get_type TInvalid = T_INVALID"
| "get_type (TNumeric nt) = nt_type nt"
| "get_type (TArray tag _ _ _ _ _) = tag"
| "get_type (TStruct _ _ _ _ _) = T_STRUCT"
| "get_type (TMethod _ _ _) = T_METHOD"

fun get_size :: "dtype \<Rightarrow> dgsize" where
  "get_size TInvalid = 0"
| "get_size (TNumeric nt) = nt_size nt"
| "get_size (TArray _ sz _ _ _ _) = sz"
| "get_size (TStruct sz _ _ _ _) = sz"
| "get_size (TMethod sz _ _) = sz"

definition has_fixed_size :: "dtype \<Rightarrow> bool" where
  "has_fixed_size t \<longleftrightarrow> get_size t \<noteq> 0"

fun has_range :: "dtype \<Rightarrow> bool" where
  "has_range TInvalid = False"
| "has_range (TNumeric nt) = numeric_has_range nt"
| "has_range (TArray _ _ _ _ r _) = (\<not> nrange_is_empty r)"
| "has_range (TStruct _ _ c _ _) = c"
| "has_range (TMethod _ _ c) = c"

section \<open>Arrays\<close>

text \<open>\<open>ArrayType::ArrayType\<close>; an absent element type becomes the invalid type.\<close>

definition array_type :: "dtype option \<Rightarrow> nrange \<Rightarrow> dtype" where
  "array_type element_type rng0 =
     (let e = (case element_type of None \<Rightarrow> TInvalid | Some t \<Rightarrow> t);
          rng = (if nrange_is_empty rng0
                 then rng0\<lparr>nr_min := (nr_min rng0)\<lparr>num_bits := 0\<rparr>,
                           nr_max := (nr_max rng0)\<lparr>num_bits := - 1\<rparr>\<rparr>
                 else rng0);
          count = (if nrange_is_empty rng0 then 0
                   else if nr_min rng0 = nr_max rng0 then ucast (num_bits (nr_min rng0))
                   else 0 :: u32);
          fixed = (has_fixed_size e \<and> count > 0);
          tag = (if fixed then T_ARRAY else T_VARARRAY);
          sz = (if fixed then ucast (count * ucast (get_size e)) else 0 :: dgsize);
          tag' = (if get_type e = T_CHAR then (if tag = T_ARRAY then T_STRING else T_VARSTRING)
                  else if get_type e = T_UINT8 then (if tag = T_ARRAY then T_BLOB else T_VARBLOB)
                  else tag)
      in TArray tag' sz e count rng [])"

fun array_within_range :: "dtype \<Rightarrow> u64 \<Rightarrow> bool" where
  "array_within_range (TArray _ _ _ count r _) array_size =
     (if count > 0 then ucast count = array_size
      else num_bits (nr_min r) \<le> array_size \<and> num_bits (nr_max r) \<ge> array_size)"
| "array_within_range _ _ = True"

section \<open>Keywords\<close>

definition has_keyword :: "field \<Rightarrow> string \<Rightarrow> bool" where
  "has_keyword f name \<longleftrightarrow> name \<in> set (field_keywords f)"

definition add_keyword :: "string \<Rightarrow> string list \<Rightarrow> bool \<times> string list" where
  "add_keyword keyword kws = (if keyword \<in> set kws then (False, kws) else (True, kws @ [keyword]))"

definition has_matching_keywords :: "string list \<Rightarrow> string list \<Rightarrow> bool" where
  "has_matching_keywords kws other \<longleftrightarrow> set kws = set other"

section \<open>Building structs, methods and molecular fields\<close>

text \<open>
  The running size of a struct, method or molecular: the fourth step of \<open>Struct::add_field\<close>,
  \<open>Method::add_parameter\<close> and \<open>MolecularField::add_field\<close>. \<open>n\<close> is the number of members after
  the new one was pushed.
\<close>

definition grow_size :: "dgsize \<Rightarrow> nat \<Rightarrow> dtype \<Rightarrow> dgsize" where
  "grow_size sz n t =
     (if sz \<noteq> 0 \<or> n = 1 then (if has_fixed_size t then sz + get_size t else 0) else sz)"

record struct_obj =
  so_name :: string
  so_fields :: "field list"
  so_by_name :: "string \<rightharpoonup> field"
  so_by_id :: "u32 \<rightharpoonup> field"
  so_size :: dgsize
  so_constraint :: bool

definition struct_new :: "string \<Rightarrow> struct_obj" where
  "struct_new name = \<lparr>so_name = name, so_fields = [], so_by_name = Map.empty, so_by_id = Map.empty,
     so_size = 0, so_constraint = False\<rparr>"

text \<open>\<open>File::add_field\<close>: the file numbers its fields in the order they are added.\<close>

definition file_add_field :: "field list \<Rightarrow> field \<Rightarrow> field list \<times> field" where
  "file_add_field tbl f =
     (case f of Field _ nm kws t d dflt m \<Rightarrow>
        let f' = Field (word_of_nat (length tbl)) nm kws t d dflt m in (tbl @ [f'], f'))"

definition is_method :: "dtype \<Rightarrow> bool" where
  "is_method t = (case t of TMethod _ _ _ \<Rightarrow> True | _ \<Rightarrow> False)"

text \<open>
  \<open>Struct::add_field\<close>. The first argument is the file's field table, \<open>foreign\<close> says whether the
  field already belongs to another struct, \<open>None\<close> is the null pointer. The result is the
  returned flag, the table and the struct. As in the code, the name table keeps the pointer,
  which sees the identifier the file assigns afterwards.
\<close>

definition struct_add_field ::
    "field list \<Rightarrow> struct_obj \<Rightarrow> bool \<Rightarrow> field option \<Rightarrow> bool \<times> field list \<times> struct_obj" where
  "struct_add_field tbl so foreign fo =
     (case fo of
        None \<Rightarrow> (False, tbl, so)
      | Some f \<Rightarrow>
          if foreign then (False, tbl, so)
          else if field_molecular f then (False, tbl, so)
          else if is_method (field_type f) then (False, tbl, so)
          else if field_name f \<noteq> [] \<and> field_name f = so_name so then (False, tbl, so)
          else if field_name f \<noteq> [] \<and> so_by_name so (field_name f) \<noteq> None then (False, tbl, so)
          else
            let (tbl', f') = file_add_field tbl f;
                fs' = so_fields so @ [f']
            in (True, tbl', so\<lparr>
                 so_by_name := (if field_name f \<noteq> [] then (so_by_name so)(field_name f \<mapsto> f')
                                else so_by_name so),
                 so_by_id := (if so_by_id so (field_id f') = None
                              then (so_by_id so)(field_id f' \<mapsto> f') else so_by_id so),
                 so_fields := fs',
                 so_size := grow_size (so_size so) (length fs') (field_type f'),
                 so_constraint := so_constraint so \<or> has_range (field_type f')\<rparr>))"

definition struct_type :: "struct_obj \<Rightarrow> dtype" where
  "struct_type so = TStruct (so_size so) (so_fields so) (so_constraint so) (so_name so) None"

record method_obj =
  mo_params :: "param list"
  mo_by_name :: "string \<rightharpoonup> param"
  mo_size :: dgsize
  mo_constraint :: bool

definition method_new :: method_obj where
  "method_new = \<lparr>mo_params = [], mo_by_name = Map.empty, mo_size = 0, mo_constraint = False\<rparr>"

definition method_add_parameter :: "method_obj \<Rightarrow> param option \<Rightarrow> bool \<times> method_obj" where
  "method_add_parameter mo po =
     (case po of
        None \<Rightarrow> (False, mo)
      | Some p \<Rightarrow>
          if param_name p \<noteq> [] \<and> mo_by_name mo (param_name p) \<noteq> None then (False, mo)
          else
            let params' = mo_params mo @ [p]
            in (True, mo\<lparr>
                 mo_by_name := (if param_name p \<noteq> [] then (mo_by_name mo)(param_name p \<mapsto> p)
                                else mo_by_name mo),
                 mo_params := params',
                 mo_size := grow_size (mo_size mo) (length params') (param_type p),
                 mo_constraint := mo_constraint mo \<or> has_range (param_type p)\<rparr>))"

definition method_type :: "method_obj \<Rightarrow> dtype" where
  "method_type mo = TMethod (mo_size mo) (mo_params mo) (mo_constraint mo)"

record molecular_obj =
  ml_name :: string
  ml_keywords :: "string list"
  ml_fields :: "field list"
  ml_size :: dgsize
  ml_has_default :: bool
  ml_default :: bytes

definition molecular_new :: "string \<Rightarrow> molecular_obj" where
  "molecular_new name = \<lparr>ml_name = name, ml_keywords = [], ml_fields = [], ml_size = 0,
     ml_has_default = False, ml_default = []\<rparr>"

text \<open>
  \<open>MolecularField::add_field\<close>. The statement \<open>m_default_value = true\<close> assigns to the string
  (a one-character string holding the byte 1), not to the flag.
\<close>

definition molecular_add_field :: "molecular_obj \<Rightarrow> field \<Rightarrow> bool \<times> molecular_obj" where
  "molecular_add_field ml f =
     (if field_molecular f then (False, ml)
      else if ml_fields ml \<noteq> [] \<and> \<not> has_matching_keywords (ml_keywords ml) (field_keywords f)
      then (False, ml)
      else
        let kws = (if ml_fields ml = [] then field_keywords f else ml_keywords ml);
            fs' = ml_fields ml @ [f];
            def0 = ml_default ml;
            def' = (if ml_has_default ml \<or> length fs' = 1
                    then (if field_has_default f then [1] else def0) @ field_default f
                    else def0)
        in (True, ml\<lparr>
             ml_keywords := kws,
             ml_fields := fs',
             ml_size := grow_size (ml_size ml) (length fs') (field_type f),
             ml_default := def'\<rparr>))"

definition class_type :: "dgsize \<Rightarrow> field list \<Rightarrow> string \<Rightarrow> nat \<Rightarrow> dtype" where
  "class_type sz fs name c = TStruct sz fs False name (Some c)"

text \<open>\<open>DistributedType::set_alias\<close>, as far as the alias is kept.\<close>

fun set_alias :: "string \<Rightarrow> dtype \<Rightarrow> dtype" where
  "set_alias al (TArray tag sz e n r _) = TArray tag sz e n r al"
| "set_alias al t = t"

text \<open>
  A molecular field is its own type: a struct of its atomic fields. Its constraint flag is
  the one of its \<open>Struct\<close> part, which \<open>MolecularField::add_field\<close> never sets.
\<close>

definition molecular_field :: "u32 \<Rightarrow> molecular_obj \<Rightarrow> field" where
  "molecular_field i ml =
     Field i (ml_name ml) (ml_keywords ml) (TStruct (ml_size ml) (ml_fields ml) False [] None)
       (ml_default ml) (ml_has_default ml) True"

definition as_molecular :: "field \<Rightarrow> field list option" where
  "as_molecular f = (if field_molecular f then
     (case field_type f of TStruct _ fs _ _ _ \<Rightarrow> Some fs | _ \<Rightarrow> None) else None)"

section \<open>Classes\<close>

text \<open>
  What the servers use of a finished \<open>Class\<close>: its number and name, its fields in order and
  the lookup by field number.
\<close>

record dclass =
  cls_id :: u32
  cls_name :: string
  cls_fields :: "field list"
  cls_by_id :: "u32 \<rightharpoonup> field"

definition get_field_by_id :: "dclass \<Rightarrow> u32 \<Rightarrow> field option" where
  "get_field_by_id c i = cls_by_id c i"

end
