(* ===== verification/Dg_Iterator.thy ===== *)
theory Dg_Iterator
  imports Datagram DClass
begin

text \<open>
  The class \<open>DatagramIterator\<close> of \<open>util/DatagramIterator.h\<close>: a cursor over a datagram, with
  checked reads, and the type-directed \<open>unpack_field\<close> and \<open>skip_field\<close> that the state server,
  the database server and the client agent use on incoming field values. A read returns the
  value and the advanced iterator, or the exception. The loop over the elements of a
  variable-length array carries fuel; the fuel given is the declared byte length, and
  \<open>unpack_while_stuck\<close> shows that a loop that uses it up never ends in the code.
\<close>

section \<open>Cursor and plain reads\<close>

record dgi =
  it_dg :: datagram
  it_offset :: nat

definition check_read_length :: "dgsize \<Rightarrow> dgi \<Rightarrow> unit res" where
  "check_read_length len it =
     (if it_offset it + unat len > unat (dg_size (it_dg it)) then Inl DatagramIteratorEOF else Inr ())"

definition dgi_new :: "datagram \<Rightarrow> dgsize \<Rightarrow> dgi res" where
  "dgi_new dg offset =
     (let it = \<lparr>it_dg = dg, it_offset = unat offset\<rparr> in rbind (check_read_length 0 it) (\<lambda>_. Inr it))"

text \<open>Check, load the next \<open>n\<close> bytes, advance: the body every fixed-width read repeats.\<close>

definition read_raw :: "dgsize \<Rightarrow> dgi \<Rightarrow> (bytes \<times> dgi) res" where
  "read_raw n it =
     rbind (check_read_length n it) (\<lambda>_.
       Inr (take (unat n) (drop (it_offset it) (dg_buf (it_dg it))),
            it\<lparr>it_offset := it_offset it + unat n\<rparr>))"

definition read_uint8 :: "dgi \<Rightarrow> (u8 \<times> dgi) res" where
  "read_uint8 it = rbind (read_raw 1 it) (\<lambda>(bs, it). Inr (le_word bs, it))"

definition read_uint16 :: "dgi \<Rightarrow> (u16 \<times> dgi) res" where
  "read_uint16 it = rbind (read_raw 2 it) (\<lambda>(bs, it). Inr (le_word bs, it))"

definition read_uint32 :: "dgi \<Rightarrow> (u32 \<times> dgi) res" where
  "read_uint32 it = rbind (read_raw 4 it) (\<lambda>(bs, it). Inr (le_word bs, it))"

definition read_uint64 :: "dgi \<Rightarrow> (u64 \<times> dgi) res" where
  "read_uint64 it = rbind (read_raw 8 it) (\<lambda>(bs, it). Inr (le_word bs, it))"

definition read_int8 :: "dgi \<Rightarrow> (u8 \<times> dgi) res" where
  "read_int8 it = rbind (read_raw 1 it) (\<lambda>(bs, it). Inr (le_word bs, it))"

definition read_int16 :: "dgi \<Rightarrow> (u16 \<times> dgi) res" where
  "read_int16 it = rbind (read_raw 2 it) (\<lambda>(bs, it). Inr (le_word bs, it))"

definition read_int32 :: "dgi \<Rightarrow> (u32 \<times> dgi) res" where
  "read_int32 it = rbind (read_raw 4 it) (\<lambda>(bs, it). Inr (le_word bs, it))"

definition read_int64 :: "dgi \<Rightarrow> (u64 \<times> dgi) res" where
  "read_int64 it = rbind (read_raw 8 it) (\<lambda>(bs, it). Inr (le_word bs, it))"

definition read_bool :: "dgi \<Rightarrow> (bool \<times> dgi) res" where
  "read_bool it = rbind (read_uint8 it) (\<lambda>(v, it). Inr (v \<noteq> 0, it))"

definition read_size :: "dgi \<Rightarrow> (dgsize \<times> dgi) res" where
  "read_size it = rbind (read_raw 2 it) (\<lambda>(bs, it). Inr (le_word bs, it))"

definition read_channel :: "dgi \<Rightarrow> (channel \<times> dgi) res" where
  "read_channel it = rbind (read_raw 8 it) (\<lambda>(bs, it). Inr (le_word bs, it))"

definition read_doid :: "dgi \<Rightarrow> (doid \<times> dgi) res" where
  "read_doid it = rbind (read_raw 4 it) (\<lambda>(bs, it). Inr (le_word bs, it))"

definition read_zone :: "dgi \<Rightarrow> (zone \<times> dgi) res" where
  "read_zone it = rbind (read_raw 4 it) (\<lambda>(bs, it). Inr (le_word bs, it))"

definition read_float32 :: "dgi \<Rightarrow> (u32 \<times> dgi) res" where
  "read_float32 it = rbind (read_raw 4 it) (\<lambda>(bs, it). Inr (le_word bs, it))"

definition read_float64 :: "dgi \<Rightarrow> (u64 \<times> dgi) res" where
  "read_float64 it = rbind (read_raw 8 it) (\<lambda>(bs, it). Inr (le_word bs, it))"

definition read_data :: "dgsize \<Rightarrow> dgi \<Rightarrow> (bytes \<times> dgi) res" where
  "read_data len it = read_raw len it"

definition read_string :: "dgi \<Rightarrow> (bytes \<times> dgi) res" where
  "read_string it = rbind (read_size it) (\<lambda>(len, it). read_raw len it)"

definition read_blob :: "dgi \<Rightarrow> (bytes \<times> dgi) res" where
  "read_blob it = rbind (read_size it) (\<lambda>(len, it). read_data len it)"

text \<open>
  \<open>read_datagram\<close> copies \<open>length\<close> bytes from the cursor without checking that they are there,
  and does not advance past them.
\<close>

definition read_datagram :: "dgi \<Rightarrow> (datagram \<times> dgi) res" where
  "read_datagram it =
     rbind (read_size it) (\<lambda>(len, it).
     rbind (dg_create_ptr (drop (it_offset it) (dg_buf (it_dg it))) len) (\<lambda>d. Inr (d, it)))"

definition get_remaining :: "dgi \<Rightarrow> dgsize" where
  "get_remaining it = word_of_int (int (unat (dg_size (it_dg it))) - int (it_offset it))"

definition read_remainder :: "dgi \<Rightarrow> (bytes \<times> dgi) res" where
  "read_remainder it = read_data (get_remaining it) it"

definition tell :: "dgi \<Rightarrow> dgsize" where
  "tell it = word_of_nat (it_offset it)"

definition seek :: "dgsize \<Rightarrow> dgi \<Rightarrow> dgi" where
  "seek to_off it = it\<lparr>it_offset := unat to_off\<rparr>"

definition skip_bytes :: "dgsize \<Rightarrow> dgi \<Rightarrow> dgi res" where
  "skip_bytes len it =
     rbind (check_read_length len it) (\<lambda>_. Inr (it\<lparr>it_offset := it_offset it + unat len\<rparr>))"

section \<open>Header access\<close>

definition get_recipient_count :: "dgi \<Rightarrow> u8 res" where
  "get_recipient_count it =
     (if dg_size (it_dg it) > 0 then Inr (hd (dg_buf (it_dg it))) else Inl DatagramIteratorEOF)"

definition get_sender :: "dgi \<Rightarrow> (channel \<times> dgi) res" where
  "get_sender it =
     rbind (get_recipient_count it) (\<lambda>n.
     rbind (read_channel (it\<lparr>it_offset := 1 + unat n * 8\<rparr>)) (\<lambda>(sender, it').
     Inr (sender, it'\<lparr>it_offset := unat (tell it)\<rparr>)))"

definition get_msg_type :: "dgi \<Rightarrow> (u16 \<times> dgi) res" where
  "get_msg_type it =
     rbind (get_recipient_count it) (\<lambda>n.
     rbind (read_uint16 (it\<lparr>it_offset := 1 + unat n * 8 + 8\<rparr>)) (\<lambda>(msg_type, it').
     Inr (msg_type, it'\<lparr>it_offset := unat (tell it)\<rparr>)))"

definition seek_payload :: "dgi \<Rightarrow> dgi res" where
  "seek_payload it =
     rbind (get_recipient_count (it\<lparr>it_offset := 0\<rparr>)) (\<lambda>n.
     Inr (it\<lparr>it_offset := 1 + unat n * 8\<rparr>))"

text \<open>The header loop of the readers: \<open>n\<close> channels in a row.\<close>

fun read_channels :: "nat \<Rightarrow> dgi \<Rightarrow> (channel list \<times> dgi) res" where
  "read_channels 0 it = Inr ([], it)"
| "read_channels (Suc n) it =
     rbind (read_channel it) (\<lambda>(c, it).
     rbind (read_channels n it) (\<lambda>(cs, it). Inr (c # cs, it)))"

section \<open>Unpacking a typed value\<close>

definition string_ok :: "bytes \<Rightarrow> bool" where
  "string_ok data \<longleftrightarrow> \<not> list_ex (\<lambda>b. sint b < 0) data"

text \<open>The single-read path for a type of fixed size, with the value checks it makes.\<close>

definition read_fixed_value :: "dtype \<Rightarrow> dgi \<Rightarrow> (bytes \<times> dgi) res" where
  "read_fixed_value t it =
     rbind (read_data (get_size t) it) (\<lambda>(data, it').
       if (case t of TNumeric nt \<Rightarrow> numeric_has_range nt \<and> \<not> numeric_within_range nt data | _ \<Rightarrow> False)
       then Inl FieldConstraintViolation
       else if get_type t = T_STRING \<and> \<not> string_ok data then Inl FieldConstraintViolation
       else Inr (data, it'))"

fun unpack_times :: "nat \<Rightarrow> (dgi \<Rightarrow> (bytes \<times> dgi) res) \<Rightarrow> dgi \<Rightarrow> (bytes \<times> dgi) res" where
  "unpack_times 0 body it = Inr ([], it)"
| "unpack_times (Suc n) body it =
     rbind (body it) (\<lambda>(bs, it').
     rbind (unpack_times n body it') (\<lambda>(bs', it''). Inr (bs @ bs', it'')))"

text \<open>
  \<open>while(buffer.size() - cur_ptr < len)\<close>: \<open>acc\<close> is what the loop has appended, \<open>cnt\<close> the
  element count, the first argument the fuel.
\<close>

fun unpack_while ::
    "nat \<Rightarrow> (dgi \<Rightarrow> (bytes \<times> dgi) res) \<Rightarrow> nat \<Rightarrow> dgi \<Rightarrow> bytes \<Rightarrow> nat \<Rightarrow> (bytes \<times> nat \<times> dgi) res" where
  "unpack_while 0 body len it acc cnt =
     (if length acc < len then Inl NoReturn else Inr (acc, cnt, it))"
| "unpack_while (Suc fuel) body len it acc cnt =
     (if length acc < len
      then rbind (body it) (\<lambda>(bs, it'). unpack_while fuel body len it' (acc @ bs) (Suc cnt))
      else Inr (acc, cnt, it))"

fun unpack_dtype :: "dtype \<Rightarrow> dgi \<Rightarrow> (bytes \<times> dgi) res"
and unpack_fields :: "field list \<Rightarrow> dgi \<Rightarrow> (bytes \<times> dgi) res"
and unpack_params :: "param list \<Rightarrow> dgi \<Rightarrow> (bytes \<times> dgi) res" where
  "unpack_dtype TInvalid it = Inr ([], it)"
| "unpack_dtype (TNumeric nt) it =
     (if nt_size nt \<noteq> 0 then read_fixed_value (TNumeric nt) it else Inr ([], it))"
| "unpack_dtype (TArray tag sz e n r al) it =
     (if sz \<noteq> 0 then
        (if tag = T_ARRAY \<and> has_range e
         then unpack_times (unat n) (\<lambda>i. unpack_dtype e i) it
         else read_fixed_value (TArray tag sz e n r al) it)
      else if tag = T_VARSTRING \<or> tag = T_VARBLOB \<or> tag = T_VARARRAY then
        rbind (read_size it) (\<lambda>(len, it1).
        rbind (if tag = T_VARARRAY
               then unpack_while (unat len) (\<lambda>i. unpack_dtype e i) (unat len) it1 [] 0
               else rbind (read_data len it1) (\<lambda>(data, it2).
                      if tag = T_VARSTRING \<and> \<not> string_ok data then Inl FieldConstraintViolation
                      else Inr (data, unat len, it2)))
          (\<lambda>(data, cnt, it2).
             if array_within_range (TArray tag sz e n r al) (word_of_nat cnt)
             then Inr (le_bytes 2 len @ data, it2)
             else Inl FieldConstraintViolation))
      else Inr ([], it))"
| "unpack_dtype (TStruct sz fs c sn sc) it =
     (if sz \<noteq> 0 \<and> \<not> c then read_fixed_value (TStruct sz fs c sn sc) it else unpack_fields fs it)"
| "unpack_dtype (TMethod sz ps c) it =
     (if sz \<noteq> 0 \<and> \<not> c then read_fixed_value (TMethod sz ps c) it else unpack_params ps it)"
| "unpack_fields [] it = Inr ([], it)"
| "unpack_fields (Field i nm kws t d dflt m # fs) it =
     rbind (unpack_dtype t it) (\<lambda>(bs, it').
     rbind (unpack_fields fs it') (\<lambda>(bs', it''). Inr (bs @ bs', it'')))"
| "unpack_params [] it = Inr ([], it)"
| "unpack_params (Param nm t d pd # ps) it =
     rbind (unpack_dtype t it) (\<lambda>(bs, it').
     rbind (unpack_params ps it') (\<lambda>(bs', it''). Inr (bs @ bs', it'')))"

definition unpack_field :: "field \<Rightarrow> dgi \<Rightarrow> (bytes \<times> dgi) res" where
  "unpack_field f it = unpack_dtype (field_type f) it"

section \<open>Skipping a typed value\<close>

fun skip_dtype :: "dtype \<Rightarrow> dgi \<Rightarrow> dgi res"
and skip_fields :: "field list \<Rightarrow> dgi \<Rightarrow> dgi res"
and skip_params :: "param list \<Rightarrow> dgi \<Rightarrow> dgi res" where
  "skip_dtype TInvalid it = Inr it"
| "skip_dtype (TNumeric nt) it = (if nt_size nt \<noteq> 0 then skip_bytes (nt_size nt) it else Inr it)"
| "skip_dtype (TArray tag sz e n r al) it =
     (if sz \<noteq> 0 then skip_bytes sz it
      else if tag = T_VARSTRING \<or> tag = T_VARBLOB \<or> tag = T_VARARRAY
      then rbind (read_size it) (\<lambda>(len, it1). skip_bytes len it1)
      else Inr it)"
| "skip_dtype (TStruct sz fs c sn sc) it = (if sz \<noteq> 0 then skip_bytes sz it else skip_fields fs it)"
| "skip_dtype (TMethod sz ps c) it = (if sz \<noteq> 0 then skip_bytes sz it else skip_params ps it)"
| "skip_fields [] it = Inr it"
| "skip_fields (Field i nm kws t d dflt m # fs) it = rbind (skip_dtype t it) (skip_fields fs)"
| "skip_params [] it = Inr it"
| "skip_params (Param nm t d pd # ps) it = rbind (skip_dtype t it) (skip_params ps)"

definition skip_field :: "field \<Rightarrow> dgi \<Rightarrow> dgi res" where
  "skip_field f it = skip_dtype (field_type f) it"

section \<open>What a read consumes\<close>

text \<open>
  \<open>consumed it bs it'\<close>: the iterator moved over exactly the bytes \<open>bs\<close> of its datagram, and
  did not pass the datagram's end.
\<close>

definition consumed :: "dgi \<Rightarrow> bytes \<Rightarrow> dgi \<Rightarrow> bool" where
  "consumed it bs it' \<longleftrightarrow>
     it' = it\<lparr>it_offset := it_offset it + length bs\<rparr>
     \<and> bs = take (length bs) (drop (it_offset it) (dg_buf (it_dg it)))
     \<and> (bs = [] \<or> it_offset it' \<le> unat (dg_size (it_dg it)))"

lemma dg_size_le: "unat (dg_size dg) \<le> buf_offset dg"
  by (simp add: dg_size_def unsigned_of_nat take_bit_eq_mod)

lemma consumed_refl [simp]: "consumed it [] it"
  by (simp add: consumed_def)

lemma consumed_trans: "consumed it as it1 \<Longrightarrow> consumed it1 bs it2 \<Longrightarrow> consumed it (as @ bs) it2"
  by (auto simp: consumed_def take_append_drop_add)
     (metis add.assoc take_append_drop_add)+

lemma consumed_dg: "consumed it bs it' \<Longrightarrow> it_dg it' = it_dg it"
  by (simp add: consumed_def)

lemma consumed_offset: "consumed it bs it' \<Longrightarrow> it_offset it' = it_offset it + length bs"
  by (simp add: consumed_def)

lemma read_raw_Inr:
  "read_raw n it = Inr (bs, it') \<longleftrightarrow>
     it_offset it + unat n \<le> unat (dg_size (it_dg it))
     \<and> bs = take (unat n) (drop (it_offset it) (dg_buf (it_dg it)))
     \<and> it' = it\<lparr>it_offset := it_offset it + unat n\<rparr>"
  by (auto simp: read_raw_def check_read_length_def)

lemma read_raw_length: "read_raw n it = Inr (bs, it') \<Longrightarrow> length bs = unat n"
  using dg_size_le [of "it_dg it"] by (auto simp: read_raw_Inr buf_offset_def)

lemma read_raw_consumed: "read_raw n it = Inr (bs, it') \<Longrightarrow> consumed it bs it'"
  using read_raw_length [of n it bs it'] by (auto simp: read_raw_Inr consumed_def)

lemma read_size_Inr:
  "read_size it = Inr (len, it') \<Longrightarrow> consumed it (le_bytes 2 len) it'"
proof -
  assume "read_size it = Inr (len, it')"
  then obtain bs where bs: "read_raw 2 it = Inr (bs, it')" and len: "len = le_word bs"
    by (auto simp: read_size_def rbind_eq_Inr)
  then have "length bs = 2" by (auto dest: read_raw_length)
  then have "le_bytes 2 len = bs"
    using le_bytes_le_word [of bs, where 'a = 16] len by simp
  with bs show ?thesis by (auto dest: read_raw_consumed)
qed

lemma read_fixed_value_Inr:
  "read_fixed_value t it = Inr (bs, it') \<Longrightarrow> read_raw (get_size t) it = Inr (bs, it')"
  by (auto simp: read_fixed_value_def read_data_def rbind_eq_Inr split: if_splits)

lemma unpack_times_consumed:
  assumes "\<And>it bs it'. body it = Inr (bs, it') \<Longrightarrow> consumed it bs it'"
  shows "unpack_times n body it = Inr (bs, it') \<Longrightarrow> consumed it bs it'"
  by (induction n arbitrary: it bs)
     (auto simp: rbind_eq_Inr intro: consumed_trans dest: assms)

lemma unpack_while_consumed:
  assumes body: "\<And>it bs it'. body it = Inr (bs, it') \<Longrightarrow> consumed it bs it'"
  shows "unpack_while fuel body len it acc cnt = Inr (bs, cnt', it') \<Longrightarrow>
    \<exists>cs. bs = acc @ cs \<and> consumed it cs it' \<and> len \<le> length bs"
proof (induction fuel arbitrary: it acc cnt)
  case 0
  then show ?case by (auto split: if_splits)
next
  case (Suc fuel)
  show ?case
  proof (cases "length acc < len")
    case True
    with Suc.prems obtain b it1 where b: "body it = Inr (b, it1)"
      and rest: "unpack_while fuel body len it1 (acc @ b) (Suc cnt) = Inr (bs, cnt', it')"
      by (auto simp: rbind_eq_Inr)
    from Suc.IH [OF rest] obtain cs where "bs = (acc @ b) @ cs" "consumed it1 cs it'" "len \<le> length bs"
      by auto
    with body [OF b] show ?thesis
      by (intro exI [of _ "b @ cs"]) (auto intro: consumed_trans)
  next
    case False
    with Suc.prems show ?thesis by auto
  qed
qed

lemma unpack_consumed:
  "unpack_dtype t it = Inr (bs, it') \<Longrightarrow> consumed it bs it'"
  "unpack_fields fs it = Inr (bs, it') \<Longrightarrow> consumed it bs it'"
  "unpack_params ps it = Inr (bs, it') \<Longrightarrow> consumed it bs it'"
proof (induction t it and fs it and ps it arbitrary: bs it' and bs it' and bs it'
    rule: unpack_dtype_unpack_fields_unpack_params.induct)
  case (3 tag sz e n r al it)
  have body: "\<And>i b i'. unpack_dtype e i = Inr (b, i') \<Longrightarrow> consumed i b i'" if "tag = T_ARRAY \<and> has_range e \<and> sz \<noteq> 0 \<or> tag = T_VARARRAY \<and> sz = 0"
    using "3.IH" that by (cases "sz = 0") auto
  show ?case
  proof (cases "sz = 0")
    case False
    with "3.prems" body show ?thesis
      by (auto split: if_splits intro: unpack_times_consumed
          dest: read_fixed_value_Inr read_raw_consumed)
  next
    case True
    show ?thesis
    proof (cases "tag = T_VARSTRING \<or> tag = T_VARBLOB \<or> tag = T_VARARRAY")
      case False
      with True "3.prems" show ?thesis by (auto split: if_splits)
    next
      case var: True
      with True "3.prems" obtain len it1 data cnt where
        len: "read_size it = Inr (len, it1)" and
        data: "(if tag = T_VARARRAY
               then unpack_while (unat len) (\<lambda>i. unpack_dtype e i) (unat len) it1 [] 0
               else rbind (read_data len it1) (\<lambda>(data, it2).
                      if tag = T_VARSTRING \<and> \<not> string_ok data then Inl FieldConstraintViolation
                      else Inr (data, unat len, it2))) = Inr (data, cnt, it')" and
        bs: "bs = le_bytes 2 len @ data"
        by (auto simp: rbind_eq_Inr simp del: unpack_while.simps split: if_splits)
      have "consumed it1 data it'"
      proof (cases "tag = T_VARARRAY")
        case True
        with data body \<open>sz = 0\<close> show ?thesis
          by (auto dest!: unpack_while_consumed [rotated])
      next
        case False
        with data show ?thesis
          by (auto simp: read_data_def rbind_eq_Inr dest: read_raw_consumed split: if_splits)
      qed
      with read_size_Inr [OF len] bs show ?thesis by (auto intro: consumed_trans)
    qed
  qed
qed (auto simp: rbind_eq_Inr intro: consumed_trans split: if_splits
     dest!: read_fixed_value_Inr read_raw_consumed)

section \<open>Writers and readers as codecs\<close>

text \<open>\<open>upcoming it bs\<close>: the unread part of the datagram starts with \<open>bs\<close>.\<close>

definition upcoming :: "dgi \<Rightarrow> bytes \<Rightarrow> bool" where
  "upcoming it bs \<longleftrightarrow>
     it_offset it + length bs \<le> unat (dg_size (it_dg it))
     \<and> take (length bs) (drop (it_offset it) (dg_buf (it_dg it))) = bs"

definition advance :: "dgi \<Rightarrow> nat \<Rightarrow> dgi" where
  "advance it n = it\<lparr>it_offset := it_offset it + n\<rparr>"

lemma advance_simps [simp]:
  "advance it 0 = it" "advance (advance it m) n = advance it (m + n)"
  "it_dg (advance it n) = it_dg it" "it_offset (advance it n) = it_offset it + n"
  by (simp_all add: advance_def add.assoc)

lemma upcoming_append:
  "upcoming it (as @ bs) \<longleftrightarrow> upcoming it as \<and> upcoming (advance it (length as)) bs"
proof -
  have "take (length as + length bs) (drop (it_offset it) xs) = as @ bs \<longleftrightarrow>
      take (length as) (drop (it_offset it) xs) = as
      \<and> take (length bs) (drop (it_offset it + length as) xs) = bs"
    if "it_offset it + (length as + length bs) \<le> length xs" for xs :: bytes
    using that by (simp add: take_append_drop_add [symmetric])
  from this [of "dg_buf (it_dg it)"] show ?thesis
    using dg_size_le [of "it_dg it"]
    by (auto simp: upcoming_def buf_offset_def add.assoc)
qed

lemma read_raw_upcoming:
  "upcoming it bs \<Longrightarrow> length bs = unat n \<Longrightarrow> read_raw n it = Inr (bs, advance it (length bs))"
  by (simp add: read_raw_Inr upcoming_def advance_def)

text \<open>
  A codec pairs an \<open>add\<close> operation of \<open>Datagram\<close> with a read of \<open>DatagramIterator\<close>: the
  writer appends the encoding, the reader takes it back and moves past it. The values it is
  meant for are the \<open>valid\<close> ones.
\<close>

locale wire_codec =
  fixes enc :: "'a \<Rightarrow> bytes"
    and add :: "'a \<Rightarrow> datagram \<Rightarrow> datagram res"
    and rd :: "dgi \<Rightarrow> ('a \<times> dgi) res"
    and valid :: "'a \<Rightarrow> bool"
  assumes add_appends: "valid v \<Longrightarrow> appends (enc v) (add v)"
    and rd_upcoming: "valid v \<Longrightarrow> upcoming it (enc v) \<Longrightarrow> rd it = Inr (v, advance it (length (enc v)))"
begin

text \<open>A value written to a datagram is read back at the place it was written, whatever follows.\<close>

lemma roundtrip:
  assumes v: "valid v" and dg: "dg_ok dg" and add: "add v dg = Inr dg'"
    and later: "dg_ok dg''" "dg_buf dg'' = dg_buf dg' @ rest"
  shows "rd \<lparr>it_dg = dg'', it_offset = buf_offset dg\<rparr>
    = Inr (v, \<lparr>it_dg = dg'', it_offset = buf_offset dg'\<rparr>)"
proof -
  from add_appends [OF v] dg add
  have dg': "dg_ok dg'" "dg_buf dg' = dg_buf dg @ enc v" by (auto dest: appends_Inr)
  have "unat (dg_size dg'') = buf_offset dg''"
    using later(1) by (simp add: dg_size_def dg_ok_def DGSIZE_MAX_def unsigned_of_nat take_bit_nat_eq_self)
  then have "upcoming \<lparr>it_dg = dg'', it_offset = buf_offset dg\<rparr> (enc v)"
    using dg' later by (simp add: upcoming_def buf_offset_def)
  from rd_upcoming [OF v this] show ?thesis
    using dg' by (simp add: advance_def buf_offset_def)
qed

lemma roundtrip_now:
  assumes v: "valid v" and dg: "dg_ok dg" and add: "add v dg = Inr dg'"
  shows "rd \<lparr>it_dg = dg', it_offset = buf_offset dg\<rparr> = Inr (v, \<lparr>it_dg = dg', it_offset = buf_offset dg'\<rparr>)"
proof -
  from appends_Inr [OF add_appends [OF v] dg add] have "dg_ok dg'" by blast
  from roundtrip [OF v dg add this, of "[]"] show ?thesis by simp
qed

end

text \<open>The fixed-width scalars.\<close>

lemma read_scalar_upcoming:
  "LENGTH('a::len) = 8 * unat n \<Longrightarrow> upcoming it (le_bytes (unat n) (v :: 'a word)) \<Longrightarrow>
    rbind (read_raw n it) (\<lambda>(bs, it). Inr (le_word bs, it)) = Inr (v, advance it (unat n))"
  using read_raw_upcoming [of it "le_bytes (unat n) v" n] by (simp add: le_word_le_bytes)

interpretation u8c: wire_codec "le_bytes 1" add_uint8 read_uint8 "\<lambda>_. True"
proof unfold_locales
  show "appends (le_bytes 1 v) (add_uint8 v)" for v
    by (rule appends_add)
  show "read_uint8 it = Inr (v, advance it (length (le_bytes 1 v)))"
    if "upcoming it (le_bytes 1 v)" for v it
    using read_scalar_upcoming [of 1 it v] that by (simp add: read_uint8_def)
qed

interpretation u16c: wire_codec "le_bytes 2" add_uint16 read_uint16 "\<lambda>_. True"
  by unfold_locales (auto simp: read_uint16_def intro: appends_intros
      read_scalar_upcoming [of 2, simplified])

interpretation u32c: wire_codec "le_bytes 4" add_uint32 read_uint32 "\<lambda>_. True"
  by unfold_locales (auto simp: read_uint32_def intro: appends_intros
      read_scalar_upcoming [of 4, simplified])

interpretation u64c: wire_codec "le_bytes 8" add_uint64 read_uint64 "\<lambda>_. True"
  by unfold_locales (auto simp: read_uint64_def intro: appends_intros
      read_scalar_upcoming [of 8, simplified])

interpretation sizec: wire_codec "le_bytes 2" add_size read_size "\<lambda>_. True"
  by unfold_locales (auto simp: read_size_def intro: appends_intros
      read_scalar_upcoming [of 2, simplified])

interpretation chanc: wire_codec "le_bytes 8" add_channel read_channel "\<lambda>_. True"
  by unfold_locales (auto simp: read_channel_def intro: appends_intros
      read_scalar_upcoming [of 8, simplified])

interpretation doidc: wire_codec "le_bytes 4" add_doid read_doid "\<lambda>_. True"
  by unfold_locales (auto simp: read_doid_def intro: appends_intros
      read_scalar_upcoming [of 4, simplified])

interpretation zonec: wire_codec "le_bytes 4" add_zone read_zone "\<lambda>_. True"
  by unfold_locales (auto simp: read_zone_def intro: appends_intros
      read_scalar_upcoming [of 4, simplified])

interpretation boolc: wire_codec "\<lambda>v. le_bytes 1 (if v then 1 else 0 :: u8)" add_bool read_bool "\<lambda>_. True"
proof unfold_locales
  fix v show "appends (le_bytes 1 (if v then 1 else 0 :: u8)) (add_bool v)"
    using appends_add(1) [of 1] appends_add(1) [of 0] by (cases v) (simp_all only: add_bool_def if_True if_False)
next
  fix v it
  assume "upcoming it (le_bytes 1 (if v then 1 else 0 :: u8))"
  from u8c.rd_upcoming [OF TrueI this]
  show "read_bool it = Inr (v, advance it (length (le_bytes 1 (if v then 1 else 0 :: u8))))"
    by (simp add: read_bool_def)
qed

text \<open>Length-tagged strings and blobs, and runs of channels.\<close>

definition sized_bytes :: "bytes \<Rightarrow> bytes" where
  "sized_bytes bs = le_bytes 2 (word_of_nat (length bs) :: u16) @ bs"

lemma sized_upcoming:
  assumes "length bs \<le> DGSIZE_MAX" "upcoming it (sized_bytes bs)"
  shows "rbind (read_size it) (\<lambda>(len, it). read_raw len it) = Inr (bs, advance it (length (sized_bytes bs)))"
proof -
  let ?n = "word_of_nat (length bs) :: u16"
  from assms(2) have up: "upcoming it (le_bytes 2 ?n)" "upcoming (advance it 2) bs"
    by (auto simp: sized_bytes_def upcoming_append)
  from sizec.rd_upcoming [OF TrueI up(1)] read_raw_upcoming [OF up(2), of ?n]
  show ?thesis
    using unat_of_short_length [OF assms(1)] by (simp add: sized_bytes_def)
qed

interpretation stringc: wire_codec sized_bytes add_string read_string "\<lambda>bs. length bs \<le> DGSIZE_MAX"
  by unfold_locales (auto simp: read_string_def sized_upcoming sized_bytes_def [symmetric]
      dest: appends_add_string)

interpretation blobc: wire_codec sized_bytes add_blob read_blob "\<lambda>bs. length bs \<le> DGSIZE_MAX"
  by unfold_locales (auto simp: read_blob_def read_data_def sized_upcoming sized_bytes_def [symmetric]
      dest: appends_add_blob)

lemma read_channels_upcoming:
  "upcoming it (concat (map (le_bytes 8) cs)) \<Longrightarrow>
    read_channels (length cs) it = Inr (cs, advance it (8 * length cs))"
proof (induction cs arbitrary: it)
  case (Cons c cs)
  then have up: "upcoming it (le_bytes 8 c)" "upcoming (advance it 8) (concat (map (le_bytes 8) cs))"
    by (auto simp: upcoming_append)
  from chanc.rd_upcoming [OF TrueI up(1)] Cons.IH [OF up(2)] show ?case by simp
qed simp

lemma length_concat_channels [simp]: "length (concat (map (le_bytes 8 :: channel \<Rightarrow> bytes) cs)) = 8 * length cs"
  by (induction cs) auto

text \<open>Reading a value off the front of what comes, as one step.\<close>

lemma read_uint32_upcoming: "upcoming it (le_bytes 4 (v :: u32) @ rest) \<Longrightarrow>
    read_uint32 it = Inr (v, advance it 4) \<and> upcoming (advance it 4) rest"
  using u32c.rd_upcoming [OF TrueI, of it v] by (simp add: upcoming_append)

lemma read_doid_upcoming: "upcoming it (le_bytes 4 (v :: doid) @ rest) \<Longrightarrow>
    read_doid it = Inr (v, advance it 4) \<and> upcoming (advance it 4) rest"
  using doidc.rd_upcoming [OF TrueI, of it v] by (simp add: upcoming_append)

lemma read_zone_upcoming: "upcoming it (le_bytes 4 (v :: zone) @ rest) \<Longrightarrow>
    read_zone it = Inr (v, advance it 4) \<and> upcoming (advance it 4) rest"
  using zonec.rd_upcoming [OF TrueI, of it v] by (simp add: upcoming_append)

lemma read_uint16_upcoming: "upcoming it (le_bytes 2 (v :: u16) @ rest) \<Longrightarrow>
    read_uint16 it = Inr (v, advance it 2) \<and> upcoming (advance it 2) rest"
  using u16c.rd_upcoming [OF TrueI, of it v] by (simp add: upcoming_append)

lemma read_channel_upcoming: "upcoming it (le_bytes 8 (v :: channel) @ rest) \<Longrightarrow>
    read_channel it = Inr (v, advance it 8) \<and> upcoming (advance it 8) rest"
  using chanc.rd_upcoming [OF TrueI, of it v] by (simp add: upcoming_append)

end
