(* ===== verification/Message_Director.thy ===== *)
theory Message_Director
  imports Channel_Map Dg_Iterator
begin

text \<open>
  The message director (\<open>messagedirector/MessageDirector.cpp\<close> and \<open>.h\<close>), its network
  participants (\<open>MDNetworkParticipant.cpp\<close>) and its upstream link (\<open>MDNetworkUpstream.cpp\<close>).
  The state is the singleton's, with what the participants carry in their base class
  (\<open>MDParticipantInterface\<close>) kept as maps from participants; a network participant's and the
  upstream's socket are the sequence of datagrams given to them. What a local participant does
  in its \<open>handle_datagram\<close> is the environment's \<open>handler\<close>: the calls it makes back into the
  director, in order, and the exception it ends with, if any. The order in which an unordered
  set is iterated is the environment's too.
\<close>

section \<open>State\<close>

datatype md_action =
    ARoute subscriber datagram
  | ASubscribe subscriber channel
  | AUnsubscribe subscriber channel
  | ASubscribeRange subscriber channel channel
  | AUnsubscribeRange subscriber channel channel
  | AUnsubscribeAll subscriber
  | AAddPostRemove subscriber channel datagram
  | AClearPostRemoves subscriber channel
  | ASetName subscriber bytes
  | ASetUrl subscriber bytes
  | ALog bytes
  | ATerminate subscriber
  | ANew subscriber

record 'w md_env =
  md_containers :: containers
  receiver_order :: "subscriber set \<Rightarrow> subscriber list"
  is_network :: "subscriber \<Rightarrow> bool"
  handler :: "subscriber \<Rightarrow> datagram \<Rightarrow> dgi \<Rightarrow> 'w \<Rightarrow> md_action list \<times> exn option \<times> 'w"
  has_upstream :: bool
  threaded :: bool
  on_main_thread :: bool

record 'w md =
  md_channels :: channel_map
  md_participants :: "subscriber set"
  md_terminated :: "subscriber set"
  is_terminated :: "subscriber \<Rightarrow> bool"
  post_removes :: "subscriber \<Rightarrow> channel \<rightharpoonup> datagram list"
  con_name :: "subscriber \<Rightarrow> bytes"
  con_url :: "subscriber \<Rightarrow> bytes"
  md_messages :: "(subscriber option \<times> datagram) list"
  main_is_routing :: bool
  md_tasks :: nat
  md_deleted :: "subscriber set"
  up_initialized :: bool
  up_is_sending :: bool
  up_messages :: "datagram list"
  up_sent :: "datagram list"
  net_sent :: "(subscriber \<times> datagram) list"
  events_sent :: "datagram list"
  world :: 'w

section \<open>The upstream link\<close>

definition upstream_send_datagram :: "datagram \<Rightarrow> ('w md, unit) sm" where
  "upstream_send_datagram dg = supd (\<lambda>s.
     if \<not> up_initialized s then s\<lparr>up_messages := up_messages s @ [dg]\<rparr>
     else s\<lparr>up_sent := up_sent s @ [dg]\<rparr>)"

fun send_each :: "datagram list \<Rightarrow> 'w md \<Rightarrow> 'w md" where
  "send_each [] s = s"
| "send_each (dg # dgs) s =
     send_each dgs (s\<lparr>up_messages := tl (up_messages s), up_sent := up_sent s @ [dg]\<rparr>)"

definition flush_send_queue :: "('w md, unit) sm" where
  "flush_send_queue = supd (\<lambda>s.
     if up_is_sending s then s
     else (send_each (up_messages s) (s\<lparr>up_is_sending := True\<rparr>))\<lparr>up_is_sending := False\<rparr>)"

definition upstream_on_connect :: "('w md, unit) sm" where
  "upstream_on_connect = sseq (supd (\<lambda>s. s\<lparr>up_initialized := True\<rparr>)) flush_send_queue"

definition upstream_subscribe_channel :: "channel \<Rightarrow> ('w md, unit) sm" where
  "upstream_subscribe_channel c =
     sbind (slift (rbind (dg_create_control CONTROL_ADD_CHANNEL) (add_channel c))) upstream_send_datagram"

definition upstream_unsubscribe_channel :: "channel \<Rightarrow> ('w md, unit) sm" where
  "upstream_unsubscribe_channel c =
     sbind (slift (rbind (dg_create_control CONTROL_REMOVE_CHANNEL) (add_channel c))) upstream_send_datagram"

definition upstream_subscribe_range :: "channel \<Rightarrow> channel \<Rightarrow> ('w md, unit) sm" where
  "upstream_subscribe_range lo hi =
     sbind (slift (rbind (dg_create_control CONTROL_ADD_RANGE) (add_all [add_channel lo, add_channel hi])))
       upstream_send_datagram"

definition upstream_unsubscribe_range :: "channel \<Rightarrow> channel \<Rightarrow> ('w md, unit) sm" where
  "upstream_unsubscribe_range lo hi =
     sbind (slift (rbind (dg_create_control CONTROL_REMOVE_RANGE) (add_all [add_channel lo, add_channel hi])))
       upstream_send_datagram"

text \<open>The four \<open>on_\<dots>\<close> callbacks of the channel map.\<close>

fun on_event :: "'w md_env \<Rightarrow> upstream_event \<Rightarrow> ('w md, unit) sm" where
  "on_event env (AddChannel c) = swhen (has_upstream env) (upstream_subscribe_channel c)"
| "on_event env (RemoveChannel c) = swhen (has_upstream env) (upstream_unsubscribe_channel c)"
| "on_event env (AddRange lo hi) = swhen (has_upstream env) (upstream_subscribe_range lo hi)"
| "on_event env (RemoveRange lo hi) = swhen (has_upstream env) (upstream_unsubscribe_range lo hi)"

fun on_events :: "'w md_env \<Rightarrow> upstream_event list \<Rightarrow> ('w md, unit) sm" where
  "on_events env [] = sret ()"
| "on_events env (ev # evs) = sseq (on_event env ev) (on_events env evs)"

text \<open>An operation of the base class \<open>ChannelMap\<close>, with the callbacks it makes.\<close>

definition channel_op :: "'w md_env \<Rightarrow> (channel_map \<Rightarrow> channel_map) \<Rightarrow> ('w md, unit) sm" where
  "channel_op env f =
     sbind (sget (\<lambda>s. f ((md_channels s)\<lparr>upstream_log := []\<rparr>))) (\<lambda>cm.
     sseq (supd (\<lambda>s. s\<lparr>md_channels := cm\<lparr>upstream_log := []\<rparr>\<rparr>)) (on_events env (upstream_log cm)))"

section \<open>Routing\<close>

text \<open>
  \<open>fl\<close> is \<open>flush_queue\<close>: \<open>route_datagram\<close> and everything that routes is a parameter away from
  it, and \<open>flush_queue\<close> below ties the knot.
\<close>

definition route_datagram ::
    "('w md, unit) sm \<Rightarrow> 'w md_env \<Rightarrow> subscriber option \<Rightarrow> datagram \<Rightarrow> ('w md, unit) sm" where
  "route_datagram fl env p dg =
     sseq (supd (\<lambda>s. s\<lparr>md_messages := md_messages s @ [(p, dg)]\<rparr>))
       (if threaded env then sret ()
        else if \<not> on_main_thread env then supd (\<lambda>s. s\<lparr>md_tasks := md_tasks s + 1\<rparr>)
        else fl)"

fun route_each :: "('w md, unit) sm \<Rightarrow> 'w md_env \<Rightarrow> subscriber \<Rightarrow> datagram list \<Rightarrow> ('w md, unit) sm" where
  "route_each fl env p [] = sret ()"
| "route_each fl env p (dg # dgs) = sseq (route_datagram fl env (Some p) dg) (route_each fl env p dgs)"

definition preroute_post_remove :: "'w md_env \<Rightarrow> channel \<Rightarrow> datagram \<Rightarrow> ('w md, unit) sm" where
  "preroute_post_remove env sender dg =
     swhen (has_upstream env)
       (sbind (slift (rbind (dg_create_control CONTROL_ADD_POST_REMOVE)
          (add_all [add_channel sender, add_blob_dg dg]))) upstream_send_datagram)"

definition recall_post_removes :: "'w md_env \<Rightarrow> channel \<Rightarrow> ('w md, unit) sm" where
  "recall_post_removes env sender =
     swhen (has_upstream env)
       (sbind (slift (rbind (dg_create_control CONTROL_CLEAR_POST_REMOVES) (add_channel sender)))
          upstream_send_datagram)"

definition add_post_remove :: "'w md_env \<Rightarrow> subscriber \<Rightarrow> channel \<Rightarrow> datagram \<Rightarrow> ('w md, unit) sm" where
  "add_post_remove env p sender dg =
     sseq (supd (\<lambda>s. s\<lparr>post_removes := (post_removes s)(p := (post_removes s p)(sender \<mapsto>
        (case post_removes s p sender of None \<Rightarrow> [] | Some dgs \<Rightarrow> dgs) @ [dg]))\<rparr>))
       (preroute_post_remove env sender dg)"

definition clear_post_removes :: "'w md_env \<Rightarrow> subscriber \<Rightarrow> channel \<Rightarrow> ('w md, unit) sm" where
  "clear_post_removes env p sender =
     sseq (supd (\<lambda>s. s\<lparr>post_removes := (post_removes s)(p := (post_removes s p)(sender := None))\<rparr>))
       (recall_post_removes env sender)"

fun post_remove_each ::
    "('w md, unit) sm \<Rightarrow> 'w md_env \<Rightarrow> subscriber \<Rightarrow> (channel \<times> datagram list) list \<Rightarrow> ('w md, unit) sm" where
  "post_remove_each fl env p [] = sret ()"
| "post_remove_each fl env p ((sender, dgs) # rest) =
     sseq (route_each fl env p dgs)
       (sseq (recall_post_removes env sender) (post_remove_each fl env p rest))"

text \<open>The map's entries, in the order of iteration.\<close>

definition post_remove_entries :: "'w md_env \<Rightarrow> subscriber \<Rightarrow> 'w md \<Rightarrow> (channel \<times> datagram list) list" where
  "post_remove_entries env p s =
     map (\<lambda>c. (c, the (post_removes s p c))) (set_order (md_containers env) (dom (post_removes s p)))"

definition post_remove :: "('w md, unit) sm \<Rightarrow> 'w md_env \<Rightarrow> subscriber \<Rightarrow> ('w md, unit) sm" where
  "post_remove fl env p = sbind (sget (post_remove_entries env p)) (post_remove_each fl env p)"

definition add_participant :: "subscriber \<Rightarrow> ('w md, unit) sm" where
  "add_participant p = supd (\<lambda>s. s\<lparr>md_participants := insert p (md_participants s)\<rparr>)"

definition remove_participant :: "('w md, unit) sm \<Rightarrow> 'w md_env \<Rightarrow> subscriber \<Rightarrow> ('w md, unit) sm" where
  "remove_participant fl env p =
     sseq (channel_op env (unsubscribe_all (md_containers env) p))
    (sseq (supd (\<lambda>s. s\<lparr>md_participants := md_participants s - {p}\<rparr>))
    (sseq (post_remove fl env p)
          (supd (\<lambda>s. s\<lparr>md_terminated := insert p (md_terminated s)\<rparr>))))"

definition terminate :: "('w md, unit) sm \<Rightarrow> 'w md_env \<Rightarrow> subscriber \<Rightarrow> ('w md, unit) sm" where
  "terminate fl env p =
     sbind (sget (\<lambda>s. is_terminated s p)) (\<lambda>done.
     if done then sret ()
     else sseq (supd (\<lambda>s. s\<lparr>is_terminated := (is_terminated s)(p := True)\<rparr>)) (remove_participant fl env p))"

text \<open>The protected interface of a participant.\<close>

fun perform :: "('w md, unit) sm \<Rightarrow> 'w md_env \<Rightarrow> md_action \<Rightarrow> ('w md, unit) sm" where
  "perform fl env (ARoute p dg) = route_datagram fl env (Some p) dg"
| "perform fl env (ASubscribe p c) = channel_op env (subscribe_channel p c)"
| "perform fl env (AUnsubscribe p c) = channel_op env (unsubscribe_channel p c)"
| "perform fl env (ASubscribeRange p lo hi) = channel_op env (subscribe_range p lo hi)"
| "perform fl env (AUnsubscribeRange p lo hi) = channel_op env (unsubscribe_range (md_containers env) p lo hi)"
| "perform fl env (AUnsubscribeAll p) = channel_op env (unsubscribe_all (md_containers env) p)"
| "perform fl env (AAddPostRemove p sender dg) = add_post_remove env p sender dg"
| "perform fl env (AClearPostRemoves p sender) = clear_post_removes env p sender"
| "perform fl env (ASetName p name) = supd (\<lambda>s. s\<lparr>con_name := (con_name s)(p := name)\<rparr>)"
| "perform fl env (ASetUrl p url) = supd (\<lambda>s. s\<lparr>con_url := (con_url s)(p := url)\<rparr>)"
| "perform fl env (ALog message) = supd (\<lambda>s. s\<lparr>events_sent := events_sent s @ [dg_create_data message]\<rparr>)"
| "perform fl env (ATerminate p) = terminate fl env p"
| "perform fl env (ANew p) = add_participant p"

fun perform_all :: "('w md, unit) sm \<Rightarrow> 'w md_env \<Rightarrow> md_action list \<Rightarrow> ('w md, unit) sm" where
  "perform_all fl env [] = sret ()"
| "perform_all fl env (a # as) = sseq (perform fl env a) (perform_all fl env as)"

section \<open>Processing a datagram\<close>

text \<open>The virtual call \<open>participant->handle_datagram\<close>.\<close>

definition handle_datagram ::
    "('w md, unit) sm \<Rightarrow> 'w md_env \<Rightarrow> subscriber \<Rightarrow> datagram \<Rightarrow> dgi \<Rightarrow> ('w md, unit) sm" where
  "handle_datagram fl env q dg it =
     (if is_network env q then supd (\<lambda>s. s\<lparr>net_sent := net_sent s @ [(q, dg)]\<rparr>)
      else (\<lambda>s. case handler env q dg it (world s) of (acts, ex, w) \<Rightarrow>
              sseq (perform_all fl env acts) (case ex of None \<Rightarrow> sret () | Some e \<Rightarrow> sthrow e)
                (s\<lparr>world := w\<rparr>)))"

text \<open>\<open>try { \<dots> } catch (const DatagramIteratorEOF &)\<close>: whether the body returned.\<close>

definition returns_before_eof :: "('s, unit) sm \<Rightarrow> ('s, bool) sm" where
  "returns_before_eof m = (\<lambda>s. case m s of
       (Inr _, s') \<Rightarrow> (Inr True, s')
     | (Inl e, s') \<Rightarrow> if e = DatagramIteratorEOF then (Inr False, s') else (Inl e, s'))"

definition receivers :: "datagram \<Rightarrow> (channel list \<times> dgi) res" where
  "receivers dg =
     rbind (dgi_new dg 0) (\<lambda>it.
     rbind (read_uint8 it) (\<lambda>(channel_count, it). read_channels (unat channel_count) it))"

fun deliver_all ::
    "('w md, unit) sm \<Rightarrow> 'w md_env \<Rightarrow> datagram \<Rightarrow> dgsize \<Rightarrow> subscriber list \<Rightarrow> ('w md, bool) sm" where
  "deliver_all fl env dg off [] = sret True"
| "deliver_all fl env dg off (q # qs) =
     sbind (slift (dgi_new dg off)) (\<lambda>it.
     sbind (returns_before_eof (handle_datagram fl env q dg it)) (\<lambda>returned.
     if returned then deliver_all fl env dg off qs else sret False))"

definition process_terminates :: "('w md, unit) sm" where
  "process_terminates = supd (\<lambda>s. s\<lparr>md_deleted := md_deleted s \<union> md_terminated s, md_terminated := {}\<rparr>)"

definition receiving_participants :: "subscriber option \<Rightarrow> channel list \<Rightarrow> 'w md \<Rightarrow> subscriber set" where
  "receiving_participants p cl s = lookup_channels cl (md_channels s) - set_option p"

definition process_datagram ::
    "('w md, unit) sm \<Rightarrow> 'w md_env \<Rightarrow> subscriber option \<Rightarrow> datagram \<Rightarrow> ('w md, unit) sm" where
  "process_datagram fl env p dg =
     (case receivers dg of
        Inl e \<Rightarrow> if e = DatagramIteratorEOF then sret () else sthrow e
      | Inr (cl, it) \<Rightarrow>
          sbind (sget (\<lambda>s. receiver_order env (receiving_participants p cl s))) (\<lambda>qs.
          sbind (deliver_all fl env dg (tell it) qs) (\<lambda>completed.
          swhen completed
            (sseq (swhen (p \<noteq> None \<and> has_upstream env) (upstream_send_datagram dg))
                  process_terminates))))"

text \<open>
  The loop of \<open>flush_queue\<close> runs as long as messages arrive, which two participants that
  answer each other make forever: the first argument is fuel, and \<open>NoReturn\<close> stands for a
  loop that outlives it.
\<close>

fun flush_loop :: "nat \<Rightarrow> 'w md_env \<Rightarrow> ('w md, unit) sm"
and flush_queue :: "nat \<Rightarrow> 'w md_env \<Rightarrow> ('w md, unit) sm" where
  "flush_loop n env =
     sbind (sget md_messages) (\<lambda>ms.
     case ms of
       [] \<Rightarrow> sret ()
     | (p, dg) # rest \<Rightarrow>
         (case n of
            0 \<Rightarrow> sthrow NoReturn
          | Suc k \<Rightarrow>
              sseq (supd (\<lambda>s. s\<lparr>md_messages := rest\<rparr>))
             (sseq (process_datagram (flush_queue k env) env p dg) (flush_loop k env))))"
| "flush_queue n env =
     sbind (sget main_is_routing) (\<lambda>routing.
     if routing then sret ()
     else case n of
         0 \<Rightarrow> sthrow NoReturn
       | Suc k \<Rightarrow>
           sseq (supd (\<lambda>s. s\<lparr>main_is_routing := True\<rparr>))
          (sseq (flush_loop k env) (supd (\<lambda>s. s\<lparr>main_is_routing := False\<rparr>))))"

text \<open>One turn of the routing thread of the threaded mode, when there is a message.\<close>

definition routing_thread_turn :: "nat \<Rightarrow> 'w md_env \<Rightarrow> ('w md, unit) sm" where
  "routing_thread_turn n env =
     sbind (sget md_messages) (\<lambda>ms.
     case ms of
       [] \<Rightarrow> sret ()
     | (p, dg) # rest \<Rightarrow>
         sseq (supd (\<lambda>s. s\<lparr>md_messages := rest\<rparr>)) (process_datagram (flush_queue n env) env p dg))"

definition md_receive_datagram :: "nat \<Rightarrow> 'w md_env \<Rightarrow> datagram \<Rightarrow> ('w md, unit) sm" where
  "md_receive_datagram n env dg = route_datagram (flush_queue n env) env None dg"

section \<open>Network participants\<close>

definition net_control :: "('w md, unit) sm \<Rightarrow> 'w md_env \<Rightarrow> subscriber \<Rightarrow> u16 \<Rightarrow> dgi \<Rightarrow> ('w md, unit) sm" where
  "net_control fl env p msg_type it =
     (if msg_type = CONTROL_ADD_CHANNEL then
        sbind (slift (read_channel it)) (\<lambda>(c, _). perform fl env (ASubscribe p c))
      else if msg_type = CONTROL_REMOVE_CHANNEL then
        sbind (slift (read_channel it)) (\<lambda>(c, _). perform fl env (AUnsubscribe p c))
      else if msg_type = CONTROL_ADD_RANGE then
        sbind (slift (read_channel it)) (\<lambda>(lo, it).
        sbind (slift (read_channel it)) (\<lambda>(hi, _). perform fl env (ASubscribeRange p lo hi)))
      else if msg_type = CONTROL_REMOVE_RANGE then
        sbind (slift (read_channel it)) (\<lambda>(lo, it).
        sbind (slift (read_channel it)) (\<lambda>(hi, _). perform fl env (AUnsubscribeRange p lo hi)))
      else if msg_type = CONTROL_ADD_POST_REMOVE then
        sbind (slift (read_channel it)) (\<lambda>(sender, it).
        sbind (slift (read_datagram it)) (\<lambda>(dg, _). perform fl env (AAddPostRemove p sender dg)))
      else if msg_type = CONTROL_CLEAR_POST_REMOVES then
        sbind (slift (read_channel it)) (\<lambda>(sender, _). perform fl env (AClearPostRemoves p sender))
      else if msg_type = CONTROL_SET_CON_NAME then
        sbind (slift (read_string it)) (\<lambda>(name, _). perform fl env (ASetName p name))
      else if msg_type = CONTROL_SET_CON_URL then
        sbind (slift (read_string it)) (\<lambda>(url, _). perform fl env (ASetUrl p url))
      else if msg_type = CONTROL_LOG_MESSAGE then
        sbind (slift (read_blob it)) (\<lambda>(message, _). perform fl env (ALog message))
      else sret ())"

text \<open>The \<open>try\<close> block: whether the datagram was a control message, and so is done with.\<close>

definition net_try_control ::
    "('w md, unit) sm \<Rightarrow> 'w md_env \<Rightarrow> subscriber \<Rightarrow> datagram \<Rightarrow> ('w md, bool) sm" where
  "net_try_control fl env p dg =
     sbind (slift (dgi_new dg 0)) (\<lambda>it.
     sbind (slift (read_uint8 it)) (\<lambda>(channels, it).
     if channels = 1 then
       sbind (slift (read_channel it)) (\<lambda>(c, it).
       if c = CONTROL_MESSAGE then
         sbind (slift (read_uint16 it)) (\<lambda>(msg_type, it).
         sseq (net_control fl env p msg_type it) (sret True))
       else sret False)
     else sret False))"

definition net_receive_datagram ::
    "('w md, unit) sm \<Rightarrow> 'w md_env \<Rightarrow> subscriber \<Rightarrow> datagram \<Rightarrow> ('w md, unit) sm" where
  "net_receive_datagram fl env p dg = (\<lambda>s.
     case net_try_control fl env p dg s of
       (Inr True, s') \<Rightarrow> (Inr (), s')
     | (Inr False, s') \<Rightarrow> route_datagram fl env (Some p) dg s'
     | (Inl e, s') \<Rightarrow> if e = DatagramIteratorEOF then terminate fl env p s' else (Inl e, s'))"

definition net_connect :: "subscriber \<Rightarrow> bytes \<Rightarrow> ('w md, unit) sm" where
  "net_connect p default_name =
     sseq (add_participant p) (supd (\<lambda>s. s\<lparr>con_name := (con_name s)(p := default_name)\<rparr>))"

definition net_receive_disconnect :: "('w md, unit) sm \<Rightarrow> 'w md_env \<Rightarrow> subscriber \<Rightarrow> ('w md, unit) sm" where
  "net_receive_disconnect fl env p = terminate fl env p"

end
