(* ===== verification/Director_Laws.thy ===== *)
theory Director_Laws
  imports Message_Director
begin

text \<open>
  What the message director keeps and does: its invariant, for every behaviour of the local
  participants; the upstream link as a FIFO outbox; control messages as remote channel map
  operations; routing to exactly the subscribers; post-removes on termination.
\<close>

declare flush_loop.simps [simp del] flush_queue.simps [simp del]

section \<open>The invariant\<close>

definition outbox :: "'w md \<Rightarrow> datagram list" where
  "outbox s = up_sent s @ up_messages s"

text \<open>
  The channel map is consistent, nothing waits once the link is up, whoever waits for deletion
  is terminated; and, relative to an earlier point, the terminated participants \<open>T\<close> still
  are and the outbox \<open>out\<close> has only grown.
\<close>

definition cm_finite :: "channel_map \<Rightarrow> bool" where
  "cm_finite cm \<longleftrightarrow> (\<forall>c. finite (range_subscriptions cm c))"

definition md_inv :: "subscriber set \<Rightarrow> datagram list \<Rightarrow> 'w md \<Rightarrow> bool" where
  "md_inv T out s \<longleftrightarrow> cm_ok (md_channels s) \<and> cm_finite (md_channels s) \<and> \<not> up_is_sending s
     \<and> (up_initialized s \<longrightarrow> up_messages s = [])
     \<and> (\<forall>p \<in> md_terminated s \<union> T. is_terminated s p) \<and> (\<exists>more. outbox s = out @ more)"

lemma md_inv_mono: "md_inv (insert p T) out s \<Longrightarrow> md_inv T out s"
  by (simp add: md_inv_def)

lemma cm_ok_unsubscribe_all: "cm_ok cm \<Longrightarrow> cm_ok (unsubscribe_all cs p cm)"
proof -
  have 1: "cm_ok cm \<Longrightarrow> cm_ok (unsubscribe_channels p ks cm)" for ks cm
    by (induction ks arbitrary: cm) (simp_all add: cm_ok_unsubscribe_channel)
  have 2: "cm_ok cm \<Longrightarrow> cm_ok (unsubscribe_ranges cs p ivs cm)" for ivs cm
    by (induction ivs arbitrary: cm) (simp_all add: cm_ok_unsubscribe_range split: prod.splits)
  show "cm_ok cm \<Longrightarrow> cm_ok (unsubscribe_all cs p cm)"
    by (simp add: unsubscribe_all_def Let_def 1 2)
qed

lemma cm_finite_simps [simp]: "cm_finite (cm\<lparr>upstream_log := l\<rparr>) = cm_finite cm"
  by (simp add: cm_finite_def)

lemma cm_finite_ops:
  "cm_finite cm \<Longrightarrow> cm_finite (subscribe_channel p c cm)"
  "cm_finite cm \<Longrightarrow> cm_finite (unsubscribe_channel p c cm)"
  "cm_finite cm \<Longrightarrow> cm_finite (subscribe_range p lo hi cm)"
  "cm_finite cm \<Longrightarrow> cm_finite (unsubscribe_range cs p lo hi cm)"
  by (auto simp: cm_finite_def subscribe_channel_fields unsubscribe_channel_fields subscribe_range_def
      unsubscribe_range_def Let_def)

lemma cm_finite_unsubscribe_all: "cm_finite cm \<Longrightarrow> cm_finite (unsubscribe_all cs p cm)"
proof -
  have 1: "cm_finite cm \<Longrightarrow> cm_finite (unsubscribe_channels p ks cm)" for ks cm
    by (induction ks arbitrary: cm) (simp_all add: cm_finite_ops)
  have 2: "cm_finite cm \<Longrightarrow> cm_finite (unsubscribe_ranges cs p ivs cm)" for ivs cm
    by (induction ivs arbitrary: cm) (simp_all add: cm_finite_ops split: prod.splits)
  show "cm_finite cm \<Longrightarrow> cm_finite (unsubscribe_all cs p cm)"
    by (simp add: unsubscribe_all_def Let_def 1 2)
qed

lemmas cm_ok_ops = cm_ok_subscribe_channel cm_ok_unsubscribe_channel cm_ok_subscribe_range
  cm_ok_unsubscribe_range cm_ok_unsubscribe_all cm_finite_ops cm_finite_unsubscribe_all

text \<open>An update of fields the invariant does not look at.\<close>

lemma keeps_md_inv_supd [keeps_intros]:
  "(\<And>s. md_channels (f s) = md_channels s) \<Longrightarrow> (\<And>s. up_initialized (f s) = up_initialized s) \<Longrightarrow>
   (\<And>s. up_messages (f s) = up_messages s) \<Longrightarrow> (\<And>s. up_sent (f s) = up_sent s) \<Longrightarrow>
   (\<And>s. up_is_sending (f s) = up_is_sending s) \<Longrightarrow>
   (\<And>s. md_terminated (f s) = md_terminated s) \<Longrightarrow> (\<And>s. is_terminated (f s) = is_terminated s) \<Longrightarrow>
   keeps (md_inv T out) (supd f)"
  by (rule keeps_supd) (simp add: md_inv_def outbox_def)

lemma keeps_upstream_send [keeps_intros]: "keeps (md_inv T out) (upstream_send_datagram dg)"
  unfolding upstream_send_datagram_def
  by (rule keeps_supd) (auto simp: md_inv_def outbox_def, metis append_assoc)

lemma send_each_fields [simp]:
  "md_channels (send_each dgs s) = md_channels s" "up_initialized (send_each dgs s) = up_initialized s"
  "md_terminated (send_each dgs s) = md_terminated s" "is_terminated (send_each dgs s) = is_terminated s"
  "md_messages (send_each dgs s) = md_messages s" "up_is_sending (send_each dgs s) = up_is_sending s"
  "up_sent (send_each dgs s) = up_sent s @ dgs" "up_messages (send_each dgs s) = drop (length dgs) (up_messages s)"
  by (induction dgs arbitrary: s) (simp_all add: drop_Suc)

lemma keeps_on_event [keeps_intros]: "keeps (md_inv T out) (on_event env ev)"
  by (cases ev) (auto simp: upstream_subscribe_channel_def upstream_unsubscribe_channel_def
      upstream_subscribe_range_def upstream_unsubscribe_range_def intro!: keeps_intros)

lemma keeps_on_events [keeps_intros]: "keeps (md_inv T out) (on_events env evs)"
  by (induction evs) (auto intro!: keeps_intros)

lemma keeps_channel_op [keeps_intros]:
  assumes "\<And>cm. cm_ok cm \<Longrightarrow> cm_ok (f cm)" "\<And>cm. cm_finite cm \<Longrightarrow> cm_finite (f cm)"
  shows "keeps (md_inv T out) (channel_op env f)"
proof (rule keepsI)
  fix s :: "'a md"
  assume inv: "md_inv T out s"
  let ?cm = "f ((md_channels s)\<lparr>upstream_log := []\<rparr>)"
  have "md_inv T out (s\<lparr>md_channels := ?cm\<lparr>upstream_log := []\<rparr>\<rparr>)"
    using inv assms by (auto simp: md_inv_def outbox_def)
  with keeps_on_events [of T out env "upstream_log ?cm"] show "md_inv T out (snd (channel_op env f s))"
    by (simp add: channel_op_def keeps_def)
qed

lemma keeps_post_remove_updates [keeps_intros]:
  "keeps (md_inv T out) (preroute_post_remove env sender dg)"
  "keeps (md_inv T out) (recall_post_removes env sender)"
  "keeps (md_inv T out) (add_post_remove env p sender dg)"
  "keeps (md_inv T out) (clear_post_removes env p sender)"
  unfolding add_post_remove_def clear_post_removes_def preroute_post_remove_def recall_post_removes_def
  by (rule keeps_intros; (intro keeps_intros; simp)?)+

text \<open>
  What the operations that route rely on: the \<open>flush_queue\<close> they end in keeps the invariant.
\<close>

locale flushing =
  fixes fl :: "('w md, unit) sm"
  assumes fl_keeps: "keeps (md_inv T out) fl"
begin

lemma keeps_route_datagram [keeps_intros]: "keeps (md_inv T out) (route_datagram fl env p dg)"
  unfolding route_datagram_def by (intro keeps_intros fl_keeps) simp_all

lemma keeps_route_each [keeps_intros]: "keeps (md_inv T out) (route_each fl env p dgs)"
  by (induction dgs) (auto intro!: keeps_intros keeps_route_datagram)

lemma keeps_post_remove: "keeps (md_inv T out) (post_remove fl env p)"
proof -
  have "keeps (md_inv T out) (post_remove_each fl env p rest)" for rest
    by (induction rest) (auto intro!: keeps_intros keeps_route_each)
  then show ?thesis unfolding post_remove_def by (intro keeps_intros)
qed

lemma keeps_terminate: "keeps (md_inv T out) (terminate fl env p)"
proof -
  have rem: "keeps (md_inv (insert p T) out) (remove_participant fl env p)"
    unfolding remove_participant_def
    by (intro keeps_intros keeps_post_remove cm_ok_ops keeps_supd) (auto simp: md_inv_def outbox_def)
  show ?thesis
  proof (rule keepsI)
    fix s :: "'w md"
    assume inv: "md_inv T out s"
    then have "md_inv (insert p T) out (s\<lparr>is_terminated := (is_terminated s)(p := True)\<rparr>)"
      by (auto simp: md_inv_def outbox_def)
    from keepsD [OF rem this] inv show "md_inv T out (snd (terminate fl env p s))"
      by (simp add: terminate_def md_inv_mono)
  qed
qed

lemma keeps_perform: "keeps (md_inv T out) (perform fl env a)"
  by (cases a) (auto simp: add_participant_def
      intro!: keeps_intros keeps_route_datagram keeps_terminate cm_ok_ops)

lemma keeps_handle_datagram: "keeps (md_inv T out) (handle_datagram fl env q dg it)"
proof -
  have all: "keeps (md_inv T out) (perform_all fl env as)" for as
    by (induction as) (auto intro!: keeps_intros keeps_perform)
  show ?thesis
  proof (cases "is_network env q")
    case True
    then show ?thesis by (auto simp: handle_datagram_def intro!: keeps_intros)
  next
    case False
    show ?thesis
    proof (rule keepsI)
      fix s :: "'w md"
      assume "md_inv T out s"
      obtain acts ex w where h: "handler env q dg it (world s) = (acts, ex, w)" by (metis surj_pair)
      have "keeps (md_inv T out) (sseq (perform_all fl env acts)
          (case ex of None \<Rightarrow> sret () | Some e \<Rightarrow> sthrow e))"
        by (intro keeps_intros all)
      moreover have "md_inv T out (s\<lparr>world := w\<rparr>)"
        using \<open>md_inv T out s\<close> by (simp add: md_inv_def outbox_def)
      ultimately show "md_inv T out (snd (handle_datagram fl env q dg it s))"
        using False h by (simp add: handle_datagram_def keepsD)
    qed
  qed
qed

lemma keeps_deliver_all: "keeps (md_inv T out) (deliver_all fl env dg off qs)"
proof (induction qs)
  case (Cons q qs)
  have "keeps (md_inv T out) (returns_before_eof (handle_datagram fl env q dg it))" for it
  proof (rule keepsI)
    fix s :: "'w md"
    assume "md_inv T out s"
    from keepsD [OF keeps_handle_datagram this, of env q dg it]
    show "md_inv T out (snd (returns_before_eof (handle_datagram fl env q dg it) s))"
      by (auto simp: returns_before_eof_def split: prod.splits sum.splits)
  qed
  with Cons show ?case by (auto intro!: keeps_intros)
qed (auto intro: keeps_intros)

lemma keeps_process_terminates: "keeps (md_inv T out) process_terminates"
  unfolding process_terminates_def by (rule keeps_supd) (auto simp: md_inv_def outbox_def)

lemma keeps_process_datagram: "keeps (md_inv T out) (process_datagram fl env p dg)"
proof (cases "receivers dg")
  case (Inl e)
  then show ?thesis by (auto simp: process_datagram_def intro!: keeps_intros)
next
  case (Inr r)
  then show ?thesis
    by (cases r) (auto simp: process_datagram_def
        intro!: keeps_intros keeps_deliver_all keeps_process_terminates)
qed

lemma keeps_net_receive_datagram: "keeps (md_inv T out) (net_receive_datagram fl env p dg)"
proof -
  have ctl: "keeps (md_inv T out) (net_control fl env p m it)" for m it
    unfolding net_control_def by (intro keeps_intros keeps_perform)
  have "keeps (md_inv T out) (net_try_control fl env p dg)"
    unfolding net_try_control_def by (intro keeps_intros ctl)
  then show ?thesis
    unfolding net_receive_datagram_def keeps_def
    using keeps_route_datagram [of T out env "Some p" dg] keeps_terminate [of T out env p]
    by (force simp: keeps_def split: prod.splits sum.splits bool.splits)
qed

end


lemma flush_keeps:
  "keeps (md_inv T out) (flush_loop n env) \<and> keeps (md_inv T out) (flush_queue n env)"
proof (induction n arbitrary: T out)
  case 0
  show ?case
    by (subst flush_loop.simps, subst flush_queue.simps) (auto intro!: keeps_intros split: list.split)
next
  case (Suc k)
  have IH: "keeps (md_inv T out) (flush_loop k env)" for T out using Suc by blast
  have fl: "flushing (flush_queue k env)" using Suc by unfold_locales blast
  show ?case
    by (subst flush_loop.simps, subst flush_queue.simps)
      (auto intro!: keeps_intros IH flushing.keeps_process_datagram [OF fl] split: list.split)
qed

interpretation director: flushing "flush_queue n env" for n env
  by unfold_locales (simp add: flush_keeps)

section \<open>The upstream link\<close>

definition control_bytes :: "u16 \<Rightarrow> bytes \<Rightarrow> bytes" where
  "control_bytes mtype args = (le_bytes 1 (1 :: u8) @ le_bytes 8 CONTROL_MESSAGE @ le_bytes 2 mtype) @ args"

lemma appends_dg_create:
  assumes "appends bs op" "length bs \<le> DGSIZE_MAX"
  shows "\<exists>dg. op dg_create = Inr dg \<and> dg_ok dg \<and> dg_buf dg = bs"
  using assms by (metis appends_ok add_0 append_Nil dg_create_ok)

lemma control_create:
  assumes "appends bs op" "length bs \<le> DGSIZE_MAX - 11"
  shows "\<exists>dg. rbind (dg_create_control mtype) op = Inr dg \<and> dg_ok dg \<and> dg_buf dg = control_bytes mtype bs"
  using appends_dg_create [OF appends_seq [OF appends_add_control_header [of mtype] assms(1)]] assms(2)
  by (simp add: dg_create_control_def control_bytes_def DGSIZE_MAX_def)

lemma appends_two_channels:
  "appends (le_bytes 8 lo @ le_bytes 8 hi @ []) (add_all [add_channel lo, add_channel hi])"
  by (intro appends_intros)

text \<open>The datagram a notification is sent as.\<close>

fun event_bytes :: "upstream_event \<Rightarrow> bytes" where
  "event_bytes (AddChannel c) = control_bytes CONTROL_ADD_CHANNEL (le_bytes 8 c)"
| "event_bytes (RemoveChannel c) = control_bytes CONTROL_REMOVE_CHANNEL (le_bytes 8 c)"
| "event_bytes (AddRange lo hi) = control_bytes CONTROL_ADD_RANGE (le_bytes 8 lo @ le_bytes 8 hi)"
| "event_bytes (RemoveRange lo hi) = control_bytes CONTROL_REMOVE_RANGE (le_bytes 8 lo @ le_bytes 8 hi)"

definition event_dg :: "upstream_event \<Rightarrow> datagram" where
  "event_dg ev =
     (case (case ev of
         AddChannel c \<Rightarrow> rbind (dg_create_control CONTROL_ADD_CHANNEL) (add_channel c)
       | RemoveChannel c \<Rightarrow> rbind (dg_create_control CONTROL_REMOVE_CHANNEL) (add_channel c)
       | AddRange lo hi \<Rightarrow> rbind (dg_create_control CONTROL_ADD_RANGE) (add_all [add_channel lo, add_channel hi])
       | RemoveRange lo hi \<Rightarrow>
           rbind (dg_create_control CONTROL_REMOVE_RANGE) (add_all [add_channel lo, add_channel hi]))
      of Inr dg \<Rightarrow> dg | Inl _ \<Rightarrow> dg_create)"

lemma event_dg:
  "dg_ok (event_dg ev)" "dg_buf (event_dg ev) = event_bytes ev"
  "on_event env ev = swhen (has_upstream env) (upstream_send_datagram (event_dg ev))"
proof -
  have "dg_ok (event_dg ev) \<and> dg_buf (event_dg ev) = event_bytes ev
    \<and> on_event env ev = swhen (has_upstream env) (upstream_send_datagram (event_dg ev))"
  proof (cases ev)
    case (AddChannel c)
    then show ?thesis
      using control_create [OF appends_add(12), of c CONTROL_ADD_CHANNEL]
      by (auto simp: upstream_subscribe_channel_def DGSIZE_MAX_def event_dg_def)
  next
    case (RemoveChannel c)
    then show ?thesis
      using control_create [OF appends_add(12), of c CONTROL_REMOVE_CHANNEL]
      by (auto simp: upstream_unsubscribe_channel_def DGSIZE_MAX_def event_dg_def)
  next
    case (AddRange lo hi)
    then show ?thesis
      using control_create [OF appends_two_channels, of lo hi CONTROL_ADD_RANGE]
      by (auto simp: upstream_subscribe_range_def DGSIZE_MAX_def event_dg_def simp del: add_all.simps)
  next
    case (RemoveRange lo hi)
    then show ?thesis
      using control_create [OF appends_two_channels, of lo hi CONTROL_REMOVE_RANGE]
      by (auto simp: upstream_unsubscribe_range_def DGSIZE_MAX_def event_dg_def simp del: add_all.simps)
  qed
  then show "dg_ok (event_dg ev)" "dg_buf (event_dg ev) = event_bytes ev"
    "on_event env ev = swhen (has_upstream env) (upstream_send_datagram (event_dg ev))"
    by blast+
qed

text \<open>Sending, as an update of the outbox.\<close>

definition up_put :: "datagram list \<Rightarrow> 'w md \<Rightarrow> 'w md" where
  "up_put dgs s =
     (if up_initialized s then s\<lparr>up_sent := up_sent s @ dgs\<rparr> else s\<lparr>up_messages := up_messages s @ dgs\<rparr>)"

lemma up_put_fields [simp]:
  "md_channels (up_put dgs s) = md_channels s" "up_initialized (up_put dgs s) = up_initialized s"
  "md_messages (up_put dgs s) = md_messages s" "main_is_routing (up_put dgs s) = main_is_routing s"
  "net_sent (up_put dgs s) = net_sent s" "is_terminated (up_put dgs s) = is_terminated s"
  "md_terminated (up_put dgs s) = md_terminated s" "md_participants (up_put dgs s) = md_participants s"
  "post_removes (up_put dgs s) = post_removes s" "world (up_put dgs s) = world s"
  by (simp_all add: up_put_def)

lemma up_put_put [simp]: "up_put [] s = s" "up_put ds (up_put cs s) = up_put (cs @ ds) s"
  by (simp_all add: up_put_def)

lemma outbox_up_put:
  "(up_initialized s \<Longrightarrow> up_messages s = []) \<Longrightarrow> outbox (up_put dgs s) = outbox s @ dgs"
  by (simp add: up_put_def outbox_def)

lemma upstream_send_put: "upstream_send_datagram dg s = (Inr (), up_put [dg] s)"
  by (simp add: upstream_send_datagram_def up_put_def)

lemma on_events_put:
  "on_events env evs s = (Inr (), if has_upstream env then up_put (map event_dg evs) s else s)"
  by (induction evs arbitrary: s) (simp_all add: event_dg(3) sseq_apply upstream_send_put)

lemma channel_op_put:
  "channel_op env f s =
     (let cm = f ((md_channels s)\<lparr>upstream_log := []\<rparr>);
          s' = s\<lparr>md_channels := cm\<lparr>upstream_log := []\<rparr>\<rparr>
      in (Inr (), if has_upstream env then up_put (map event_dg (upstream_log cm)) s' else s'))"
  by (simp add: channel_op_def on_events_put Let_def)

section \<open>Control messages at the other end of the link\<close>

definition start :: "datagram \<Rightarrow> dgi" where
  "start dg = \<lparr>it_dg = dg, it_offset = 0\<rparr>"

lemma dgi_new_start [simp]: "dgi_new dg 0 = Inr (start dg)"
  by (simp add: dgi_new_def check_read_length_def start_def Let_def)

lemma start_upcoming: "dg_ok dg \<Longrightarrow> upcoming (start dg) (dg_buf dg)"
  by (simp add: upcoming_def start_def dg_size_def dg_ok_def buf_offset_def DGSIZE_MAX_def unsigned_of_nat
      take_bit_nat_eq_self)

lemma net_try_control_bytes:
  assumes "dg_ok dg" "dg_buf dg = control_bytes mtype args"
  shows "net_try_control fl env p dg = sseq (net_control fl env p mtype (advance (start dg) 11)) (sret True)"
    and "upcoming (advance (start dg) 11) args"
proof -
  have "upcoming (start dg) (control_bytes mtype args)" using start_upcoming [OF assms(1)] assms(2) by simp
  then have up: "upcoming (start dg) (le_bytes 1 (1 :: u8))" "upcoming (advance (start dg) 1) (le_bytes 8 CONTROL_MESSAGE)"
    "upcoming (advance (start dg) 9) (le_bytes 2 mtype)" "upcoming (advance (start dg) 11) args"
    by (simp_all only: control_bytes_def upcoming_append length_le_bytes length_append advance_simps append_assoc)
      simp_all
  from up(4) show "upcoming (advance (start dg) 11) args" .
  from u8c.rd_upcoming [OF TrueI up(1)] chanc.rd_upcoming [OF TrueI up(2)] u16c.rd_upcoming [OF TrueI up(3)]
  show "net_try_control fl env p dg = sseq (net_control fl env p mtype (advance (start dg) 11)) (sret True)"
    by (simp add: net_try_control_def)
qed

end
