(* ===== verification/Director_Routing.thy ===== *)
theory Director_Routing
  imports Director_Laws
begin

text \<open>
  The message director end to end: a notification sent by a lower director does the same
  operation at the upper one; a datagram reaches exactly the subscribers of its targets; the
  queue drains in order; terminating a participant sends its post-removes.
\<close>

section \<open>Notifications at the upper director\<close>

lemma net_receive_control:
  assumes "dg_ok dg" "dg_buf dg = control_bytes mtype args"
    "\<And>it. upcoming it args \<Longrightarrow> net_control fl env p mtype it s = (Inr (), s')"
  shows "net_receive_datagram fl env p dg s = (Inr (), s')"
  using net_try_control_bytes(1) [OF assms(1,2), of fl env p] assms(3) [OF net_try_control_bytes(2) [OF assms(1,2)]]
  by (simp add: net_receive_datagram_def sseq_apply)

lemma two_channels_upcoming:
  "upcoming it (le_bytes 8 lo @ le_bytes 8 hi) \<Longrightarrow>
    read_channel it = Inr (lo, advance it 8) \<and> read_channel (advance it 8) = Inr (hi, advance it 16)"
  using chanc.rd_upcoming [OF TrueI, of it lo] chanc.rd_upcoming [OF TrueI, of "advance it 8" hi]
  by (simp add: upcoming_append)

lemma upstream_apply_fun:
  "upstream_apply cs q (AddChannel c) = subscribe_channel q c"
  "upstream_apply cs q (RemoveChannel c) = unsubscribe_channel q c"
  "upstream_apply cs q (AddRange lo hi) = subscribe_range q lo hi"
  "upstream_apply cs q (RemoveRange lo hi) = unsubscribe_range cs q lo hi"
  by (simp_all add: fun_eq_iff)

lemma net_receive_event:
  "net_receive_datagram fl env p (event_dg ev) s =
     channel_op env (upstream_apply (md_containers env) p ev) s"
proof -
  obtain s' where s': "channel_op env (upstream_apply (md_containers env) p ev) s = (Inr (), s')"
    by (simp add: channel_op_put Let_def)
  have "net_receive_datagram fl env p (event_dg ev) s = (Inr (), s')"
  proof (cases ev)
    case (AddChannel c)
    then have *: "dg_buf (event_dg ev) = control_bytes CONTROL_ADD_CHANNEL (le_bytes 8 c)" by (simp add: event_dg)
    show ?thesis
      by (rule net_receive_control [OF event_dg(1) *])
        (use s' AddChannel in \<open>simp add: net_control_def upstream_apply_fun chanc.rd_upcoming\<close>)
  next
    case (RemoveChannel c)
    then have *: "dg_buf (event_dg ev) = control_bytes CONTROL_REMOVE_CHANNEL (le_bytes 8 c)" by (simp add: event_dg)
    show ?thesis
      by (rule net_receive_control [OF event_dg(1) *])
        (use s' RemoveChannel in \<open>simp add: net_control_def upstream_apply_fun chanc.rd_upcoming\<close>)
  next
    case (AddRange lo hi)
    then have *: "dg_buf (event_dg ev) = control_bytes CONTROL_ADD_RANGE (le_bytes 8 lo @ le_bytes 8 hi)"
      by (simp add: event_dg)
    show ?thesis
      by (rule net_receive_control [OF event_dg(1) *])
        (use s' AddRange in \<open>simp add: net_control_def upstream_apply_fun two_channels_upcoming\<close>)
  next
    case (RemoveRange lo hi)
    then have *: "dg_buf (event_dg ev) = control_bytes CONTROL_REMOVE_RANGE (le_bytes 8 lo @ le_bytes 8 hi)"
      by (simp add: event_dg)
    show ?thesis
      by (rule net_receive_control [OF event_dg(1) *])
        (use s' RemoveRange in \<open>simp add: net_control_def upstream_apply_fun two_channels_upcoming\<close>)
  qed
  with s' show ?thesis by simp
qed

text \<open>The notifications pending in a channel map do not influence its operations.\<close>

definition same_subs :: "channel_map \<Rightarrow> channel_map \<Rightarrow> bool" where
  "same_subs a b \<longleftrightarrow> a\<lparr>upstream_log := []\<rparr> = b\<lparr>upstream_log := []\<rparr>"

lemma same_subsD:
  "same_subs a b \<Longrightarrow> channels a = channels b \<and> ranges a = ranges b
     \<and> channel_subscriptions a = channel_subscriptions b \<and> range_subscriptions a = range_subscriptions b"
  by (cases a; cases b) (simp add: same_subs_def)

lemma same_subsI:
  "channels a = channels b \<Longrightarrow> ranges a = ranges b \<Longrightarrow>
    channel_subscriptions a = channel_subscriptions b \<Longrightarrow> range_subscriptions a = range_subscriptions b \<Longrightarrow>
    same_subs a b"
  by (cases a; cases b) (simp add: same_subs_def)

lemma same_subs_log [simp]: "same_subs (a\<lparr>upstream_log := l\<rparr>) b = same_subs a b"
  "same_subs a (b\<lparr>upstream_log := l\<rparr>) = same_subs a b" "same_subs a a"
  by (simp_all add: same_subs_def)

lemma same_subs_trans: "same_subs a b \<Longrightarrow> same_subs b c \<Longrightarrow> same_subs a c"
  by (simp add: same_subs_def)

lemma same_subs_remove_subscriber:
  "same_subs a b \<Longrightarrow> same_subs (snd (remove_subscriber p c a)) (snd (remove_subscriber p c b))
     \<and> fst (remove_subscriber p c a) = fst (remove_subscriber p c b)"
  using same_subsD [of a b] by (auto simp: remove_subscriber_def Let_def intro!: same_subsI)

lemma same_subs_clobber:
  "same_subs a b \<Longrightarrow> same_subs (clobber_channels p lo hi ks a) (clobber_channels p lo hi ks b)"
proof (induction ks arbitrary: a b)
  case (Cons k ks)
  from same_subs_remove_subscriber [OF Cons.prems, of p k]
  have r: "same_subs (snd (remove_subscriber p k a)) (snd (remove_subscriber p k b))" by blast
  have "same_subs ((snd (remove_subscriber p k a))\<lparr>channels := (channels (snd (remove_subscriber p k a)))
        (p := channels (snd (remove_subscriber p k a)) p - {k})\<rparr>)
      ((snd (remove_subscriber p k b))\<lparr>channels := (channels (snd (remove_subscriber p k b)))
        (p := channels (snd (remove_subscriber p k b)) p - {k})\<rparr>)"
    using same_subsD [OF r] by (intro same_subsI) simp_all
  with Cons show ?case by (simp add: Let_def del: remove_subscriber_fields)
qed simp

lemma same_subs_notify_ranges: "same_subs (notify_ranges ivs a) a"
  by (rule same_subsI) simp_all

lemma same_subs_upstream_apply:
  assumes "same_subs a b"
  shows "same_subs (upstream_apply cs q ev a) (upstream_apply cs q ev b)"
proof (cases ev)
  case (AddChannel c)
  with same_subsD [OF assms] assms show ?thesis
    by (auto simp: subscribe_channel_def is_subscribed_def Let_def notify_def intro!: same_subsI)
next
  case (RemoveChannel c)
  have s: "is_subscribed q c a = is_subscribed q c b"
    using same_subsD [OF assms] by (simp add: is_subscribed_def)
  let ?f = "\<lambda>m. m\<lparr>channels := (channels m)(q := channels m q - {c})\<rparr>"
  have "same_subs (?f a) (?f b)" using same_subsD [OF assms] by (intro same_subsI) simp_all
  from same_subs_remove_subscriber [OF this, of q c] have r:
    "same_subs (snd (remove_subscriber q c (?f a))) (snd (remove_subscriber q c (?f b)))" by blast
  from same_subsD [OF r] RemoveChannel s assms show ?thesis
    by (auto simp: unsubscribe_channel_def case_prod_beta Let_def notify_def intro!: same_subsI)
next
  case (AddRange lo hi)
  from assms obtain l where "b = a\<lparr>upstream_log := l\<rparr>"
    by (cases a; cases b) (auto simp: same_subs_def)
  with AddRange show ?thesis
    by (simp add: subscribe_range_def Let_def notify_def same_subs_def cong: if_cong)
next
  case (RemoveRange lo hi)
  from assms obtain l where b: "b = a\<lparr>upstream_log := l\<rparr>"
    by (cases a; cases b) (auto simp: same_subs_def)
  have n: "same_subs (notify_ranges ivs x) (notify_ranges ivs y)" if "same_subs x y" for ivs x y
    using that same_subs_notify_ranges [of ivs x] same_subs_notify_ranges [of ivs y]
    by (simp add: same_subs_def)
  show ?thesis
    unfolding RemoveRange upstream_apply.simps unsubscribe_range_def b
    by (auto simp: Let_def intro!: n same_subs_clobber cong: if_cong) (simp add: same_subs_def cong: if_cong)
qed


lemma same_subs_fold:
  "same_subs a b \<Longrightarrow> same_subs (fold (upstream_apply cs q) evs a) (fold (upstream_apply cs q) evs b)"
  by (induction evs arbitrary: a b) (simp_all add: same_subs_upstream_apply)

text \<open>The upper director takes in the datagrams of the link, one by one.\<close>

fun net_receive_all ::
    "('w md, unit) sm \<Rightarrow> 'w md_env \<Rightarrow> subscriber \<Rightarrow> datagram list \<Rightarrow> ('w md, unit) sm" where
  "net_receive_all fl env p [] = sret ()"
| "net_receive_all fl env p (dg # dgs) =
     sseq (net_receive_datagram fl env p dg) (net_receive_all fl env p dgs)"

lemma net_receive_all_events:
  "\<exists>s'. net_receive_all fl env q (map event_dg evs) s = (Inr (), s') \<and>
     same_subs (md_channels s') (fold (upstream_apply (md_containers env) q) evs (md_channels s))"
proof (induction evs arbitrary: s)
  case (Cons ev evs)
  let ?ap = "upstream_apply (md_containers env) q"
  obtain s1 where s1: "channel_op env (?ap ev) s = (Inr (), s1)"
      "md_channels s1 = (?ap ev ((md_channels s)\<lparr>upstream_log := []\<rparr>))\<lparr>upstream_log := []\<rparr>"
    by (simp add: channel_op_put Let_def)
  have "same_subs (md_channels s1) (?ap ev (md_channels s))"
    unfolding s1(2) by (simp add: same_subs_upstream_apply)
  from same_subs_fold [OF this, of "md_containers env" q evs] Cons.IH [of s1] s1(1) show ?case
    by (auto simp: net_receive_event sseq_apply intro: same_subs_trans)
qed simp

lemma covered_same_subs: "same_subs pm pm' \<Longrightarrow> covered q cm pm = covered q cm pm'"
  using same_subsD [of pm pm'] by (simp add: covered_def listens_def)

lemma cm_ok_same_subs: "same_subs pm pm' \<Longrightarrow> cm_ok pm = cm_ok pm'"
  using same_subsD [of pm pm'] by (simp add: cm_ok_def)

text \<open>One channel operation below, and the link's traffic taken in above.\<close>

lemma link_step:
  assumes low: "cm_ok (md_channels sl)" and high: "cm_ok (md_channels sh)"
    and cov: "covered q (md_channels sl) (md_channels sh)"
    and cs: "containers_ok (md_containers envh)" "md_containers envl = md_containers envh"
    and up: "has_upstream envl" "up_initialized sl" and safe: "op_safe op (md_channels sl)"
  shows "\<exists>sl' evs sh'. channel_op envl (cm_apply (md_containers envl) op) sl = (Inr (), sl')
    \<and> up_sent sl' = up_sent sl @ map event_dg evs
    \<and> net_receive_all fl envh q (map event_dg evs) sh = (Inr (), sh')
    \<and> cm_ok (md_channels sl') \<and> cm_ok (md_channels sh')
    \<and> covered q (md_channels sl') (md_channels sh')"
proof -
  let ?cs = "md_containers envh"
  let ?cm = "cm_apply ?cs op ((md_channels sl)\<lparr>upstream_log := []\<rparr>)"
  let ?evs = "upstream_log ?cm"
  define sl' where "sl' = up_put (map event_dg ?evs) (sl\<lparr>md_channels := ?cm\<lparr>upstream_log := []\<rparr>\<rparr>)"
  have l: "channel_op envl (cm_apply (md_containers envl) op) sl = (Inr (), sl')"
    using up cs(2) by (simp add: channel_op_put Let_def sl'_def)
  have sent: "up_sent sl' = up_sent sl @ map event_dg ?evs"
    using up(2) by (simp add: sl'_def up_put_def)
  have lmap: "md_channels sl' = ?cm\<lparr>upstream_log := []\<rparr>" by (simp add: sl'_def)
  obtain sh' where h: "net_receive_all fl envh q (map event_dg ?evs) sh = (Inr (), sh')"
    "same_subs (md_channels sh') (fold (upstream_apply ?cs q) ?evs (md_channels sh))"
    using net_receive_all_events by blast
  have "linked_ok q (linked_step ?cs q op (md_channels sl, md_channels sh))"
    by (rule linked_step_ok) (use low high cov cs safe in \<open>simp_all add: linked_ok_def\<close>)
  then have "cm_ok ?cm" "cm_ok (md_channels sh')" "covered q ?cm (md_channels sh')"
    using h(2) by (simp_all add: linked_ok_def linked_step_def Let_def covered_same_subs cm_ok_same_subs)
  then have "cm_ok (md_channels sl')" "cm_ok (md_channels sh')" "covered q (md_channels sl') (md_channels sh')"
    unfolding lmap by (simp_all add: covered_def)
  with l sent h(1) show ?thesis by blast
qed

section \<open>Reading the receivers\<close>

lemma concat_take_channels:
  "concat (map (le_bytes 8 :: channel \<Rightarrow> bytes) tos) =
     concat (map (le_bytes 8) (take n tos)) @ concat (map (le_bytes 8) (drop n tos))"
  by (metis append_take_drop_id concat_append map_append)

lemma receivers_header:
  assumes ok: "dg_ok dg" and buf: "dg_buf dg = server_header_bytes tos from mtype @ payload"
  shows "receivers dg = Inr (take (length tos mod 256) tos, advance (start dg) (1 + 8 * (length tos mod 256)))"
    and "upcoming (advance (start dg) (1 + 8 * (length tos mod 256)))
      (concat (map (le_bytes 8) (drop (length tos mod 256) tos)) @ le_bytes 8 from @ le_bytes 2 mtype @ payload)"
proof -
  let ?n = "length tos mod 256"
  let ?count = "word_of_nat (length tos) :: u8"
  have n: "unat ?count = ?n" by (simp add: unsigned_of_nat take_bit_nat_def)
  have le: "min (length tos) ?n = ?n" by (rule min_absorb2) simp
  have "upcoming (start dg) (le_bytes 1 ?count @ concat (map (le_bytes 8) (take ?n tos))
      @ (concat (map (le_bytes 8) (drop ?n tos)) @ le_bytes 8 from @ le_bytes 2 mtype @ payload))"
    using start_upcoming [OF ok] unfolding buf server_header_bytes_def concat_take_channels [of tos ?n]
    by (simp only: append_assoc)
  then have up: "upcoming (start dg) (le_bytes 1 ?count)"
    "upcoming (advance (start dg) 1) (concat (map (le_bytes 8) (take ?n tos)))"
    and rest: "upcoming (advance (start dg) (1 + 8 * ?n))
      (concat (map (le_bytes 8) (drop ?n tos)) @ le_bytes 8 from @ le_bytes 2 mtype @ payload)"
    using le unfolding upcoming_append [of _ "le_bytes 1 ?count"] upcoming_append [of _ "concat (map (le_bytes 8) (take ?n tos))"]
    by simp_all
  from u8c.rd_upcoming [OF TrueI up(1)] read_channels_upcoming [OF up(2)] n le
  show "receivers dg = Inr (take ?n tos, advance (start dg) (1 + 8 * ?n))"
    by (simp add: receivers_def)
  from rest show "upcoming (advance (start dg) (1 + 8 * ?n))
      (concat (map (le_bytes 8) (drop ?n tos)) @ le_bytes 8 from @ le_bytes 2 mtype @ payload)" .
qed

lemma receivers_errors: "receivers dg = Inl e \<Longrightarrow> e = DatagramIteratorEOF"
proof -
  have ch: "read_channels n it = Inl e \<Longrightarrow> e = DatagramIteratorEOF" for n it
    by (induction n arbitrary: it)
      (auto simp: rbind_eq_Inl read_channel_def read_raw_def check_read_length_def split: if_splits prod.splits)
  show "receivers dg = Inl e \<Longrightarrow> e = DatagramIteratorEOF"
    by (auto simp: receivers_def rbind_eq_Inl read_uint8_def read_raw_def check_read_length_def
        split: if_splits prod.splits dest: ch)
qed

lemma receivers_offset:
  assumes "receivers dg = Inr (cl, it)"
  shows "it_dg it = dg" "it_offset it \<le> unat (dg_size dg)" "length cl \<le> 255"
proof -
  have ch: "read_channels n it = Inr (cs, it') \<Longrightarrow> it_offset it \<le> unat (dg_size (it_dg it)) \<Longrightarrow>
      it_dg it' = it_dg it \<and> it_offset it' \<le> unat (dg_size (it_dg it)) \<and> length cs = n" for n it cs it'
    by (induction n arbitrary: it cs)
      (fastforce simp: rbind_eq_Inr read_channel_def read_raw_Inr)+
  from assms obtain k it1 where "read_channels (unat (k :: u8)) it1 = Inr (cl, it)"
      "it_dg it1 = dg" "it_offset it1 \<le> unat (dg_size dg)"
    by (auto simp: receivers_def rbind_eq_Inr read_uint8_def read_raw_Inr start_def)
  moreover have "unat k \<le> 255" using unsigned_less [of k, where 'a = nat] by simp
  ultimately show "it_dg it = dg" "it_offset it \<le> unat (dg_size dg)" "length cl \<le> 255"
    using ch [of "unat k" it1 cl it] by auto
qed

lemma dgi_new_tell:
  assumes "receivers dg = Inr (cl, it)"
  shows "dgi_new dg (tell it) = Inr it"
proof -
  have "unat (dg_size dg) < 65536" using unsigned_less [of "dg_size dg", where 'a = nat] by simp
  with receivers_offset [OF assms]
  have "unat (tell it) = it_offset it" by (simp add: tell_def unsigned_of_nat take_bit_nat_eq_self)
  with receivers_offset [OF assms] show ?thesis
    by (simp add: dgi_new_def check_read_length_def Let_def)
qed


section \<open>Delivery\<close>

definition order_ok :: "'w md_env \<Rightarrow> bool" where
  "order_ok env \<longleftrightarrow> (\<forall>S. finite S \<longrightarrow> set (receiver_order env S) = S \<and> distinct (receiver_order env S))"

lemma finite_lookup: "cm_finite cm \<Longrightarrow> finite (lookup_channels cl cm)"
  by (simp add: cm_finite_def lookup_channels_def)

lemma deliver_network:
  "\<forall>q \<in> set qs. is_network env q \<Longrightarrow> dgi_new dg off = Inr it \<Longrightarrow>
    deliver_all fl env dg off qs s = (Inr True, s\<lparr>net_sent := net_sent s @ map (\<lambda>q. (q, dg)) qs\<rparr>)"
  by (induction qs arbitrary: s) (simp_all add: handle_datagram_def returns_before_eof_def sbind_apply)

definition forwarded :: "'w md_env \<Rightarrow> subscriber option \<Rightarrow> datagram \<Rightarrow> datagram list" where
  "forwarded env p dg = (if p \<noteq> None \<and> has_upstream env then [dg] else [])"

definition after_delivery ::
    "'w md_env \<Rightarrow> subscriber option \<Rightarrow> datagram \<Rightarrow> subscriber list \<Rightarrow> 'w md \<Rightarrow> 'w md" where
  "after_delivery env p dg qs s =
     (up_put (forwarded env p dg) (s\<lparr>net_sent := net_sent s @ map (\<lambda>q. (q, dg)) qs\<rparr>))
       \<lparr>md_deleted := md_deleted s \<union> md_terminated s, md_terminated := {}\<rparr>"

lemma after_delivery_fields [simp]:
  "md_channels (after_delivery env p dg qs s) = md_channels s"
  "md_messages (after_delivery env p dg qs s) = md_messages s"
  "main_is_routing (after_delivery env p dg qs s) = main_is_routing s"
  "up_initialized (after_delivery env p dg qs s) = up_initialized s"
  "net_sent (after_delivery env p dg qs s) = net_sent s @ map (\<lambda>q. (q, dg)) qs"
  by (simp_all add: after_delivery_def)

lemma process_network:
  assumes "receivers dg = Inr (cl, it)"
    and "\<forall>q \<in> set (receiver_order env (receiving_participants p cl s)). is_network env q"
  shows "process_datagram fl env p dg s =
    (Inr (), after_delivery env p dg (receiver_order env (receiving_participants p cl s)) s)"
  using assms
  by (simp add: process_datagram_def sbind_apply deliver_network [OF assms(2) dgi_new_tell [OF assms(1)]])
    (auto simp: swhen_def sseq_apply upstream_send_put process_terminates_def after_delivery_def
      forwarded_def up_put_def)

text \<open>A receiver that runs off the end of the datagram ends its delivery.\<close>

lemma deliver_eof:
  assumes "dgi_new dg off = Inr it" "\<not> is_network env q"
    "handler env q dg it (world s) = ([], Some DatagramIteratorEOF, w)"
  shows "deliver_all fl env dg off (q # qs) s = (Inr False, s\<lparr>world := w\<rparr>)"
  using assms by (simp add: sbind_apply returns_before_eof_def handle_datagram_def)

section \<open>The queue\<close>

lemma flush_while_routing: "main_is_routing s \<Longrightarrow> flush_queue n env s = (Inr (), s)"
  by (subst flush_queue.simps) simp

lemma route_while_routing:
  assumes "main_is_routing s" "\<not> threaded env" "on_main_thread env"
  shows "route_datagram (flush_queue n env) env p dg s = (Inr (), s\<lparr>md_messages := md_messages s @ [(p, dg)]\<rparr>)"
  using assms by (simp add: route_datagram_def flush_while_routing)

definition deliveries :: "'w md_env \<Rightarrow> channel_map \<Rightarrow> subscriber option \<times> datagram \<Rightarrow> (subscriber \<times> datagram) list" where
  "deliveries env cm m =
     (case m of (p, dg) \<Rightarrow>
       (case receivers dg of
          Inl _ \<Rightarrow> []
        | Inr (cl, _) \<Rightarrow> map (\<lambda>q. (q, dg)) (receiver_order env (lookup_channels cl cm - set_option p))))"

lemma process_deliveries:
  assumes "\<And>q. is_network env q"
  shows "\<exists>s'. process_datagram fl env p dg s = (Inr (), s') \<and> md_channels s' = md_channels s
    \<and> md_messages s' = md_messages s \<and> main_is_routing s' = main_is_routing s
    \<and> net_sent s' = net_sent s @ deliveries env (md_channels s) (p, dg)"
proof (cases "receivers dg")
  case (Inl e)
  then show ?thesis
    using receivers_errors [OF Inl] by (simp add: process_datagram_def deliveries_def)
next
  case (Inr r)
  obtain cl it where r: "r = (cl, it)" by (cases r)
  show ?thesis
    using process_network [of dg cl it env p s fl] Inr r assms
    by (auto simp: deliveries_def receiving_participants_def)
qed

lemma flush_loop_network:
  assumes net: "\<And>q. is_network env q"
  shows "length (md_messages s) \<le> n \<Longrightarrow>
    \<exists>s'. flush_loop n env s = (Inr (), s') \<and> md_messages s' = [] \<and> md_channels s' = md_channels s
      \<and> main_is_routing s' = main_is_routing s
      \<and> net_sent s' = net_sent s @ concat (map (deliveries env (md_channels s)) (md_messages s))"
proof (induction "md_messages s" arbitrary: s n)
  case Nil
  then show ?case by (subst flush_loop.simps) simp
next
  case (Cons m ms)
  obtain p dg where m: "m = (p, dg)" by (cases m)
  from Cons obtain k where n: "n = Suc k" by (cases n) auto
  let ?s = "s\<lparr>md_messages := ms\<rparr>"
  obtain s1 where s1: "process_datagram (flush_queue k env) env p dg ?s = (Inr (), s1)"
    "md_channels s1 = md_channels s" "md_messages s1 = ms" "main_is_routing s1 = main_is_routing s"
    "net_sent s1 = net_sent s @ deliveries env (md_channels s) (p, dg)"
    using process_deliveries [OF net, of "flush_queue k env" p dg ?s] by auto
  have "length (md_messages s1) \<le> k" using Cons(2,3) n s1(3) by (metis Suc_le_mono length_Cons)
  with Cons(1) [of s1 k] s1(3) obtain s2 where s2: "flush_loop k env s1 = (Inr (), s2)"
    "md_messages s2 = []" "md_channels s2 = md_channels s1" "main_is_routing s2 = main_is_routing s1"
    "net_sent s2 = net_sent s1 @ concat (map (deliveries env (md_channels s1)) ms)" by auto
  have "flush_loop n env s = (Inr (), s2)"
    using s1(1) s2(1) Cons(2) [symmetric] m n
    by (subst flush_loop.simps) (simp add: sseq_apply)
  with s1 s2 Cons(2) [symmetric] m show ?case by simp
qed

section \<open>Post-removes and termination\<close>

lemma recall_put: "\<exists>dgs. recall_post_removes env sender s = (Inr (), up_put dgs s)"
proof (cases "has_upstream env")
  case True
  obtain dg where "rbind (dg_create_control CONTROL_CLEAR_POST_REMOVES) (add_channel sender) = Inr dg"
    using control_create [OF appends_add(12), of sender CONTROL_CLEAR_POST_REMOVES]
    by (auto simp: DGSIZE_MAX_def)
  with True show ?thesis by (auto simp: recall_post_removes_def upstream_send_put)
next
  case False
  then show ?thesis by (auto simp: recall_post_removes_def intro: exI [of _ "[]"])
qed

lemma route_each_routing:
  assumes "\<not> threaded env" "on_main_thread env"
  shows "main_is_routing s \<Longrightarrow> route_each (flush_queue n env) env p dgs s =
    (Inr (), s\<lparr>md_messages := md_messages s @ map (Pair (Some p)) dgs\<rparr>)"
  by (induction dgs arbitrary: s) (simp_all add: sseq_apply route_while_routing assms)

lemma post_remove_each_routing:
  assumes "\<not> threaded env" "on_main_thread env"
  shows "main_is_routing s \<Longrightarrow> \<exists>ups. post_remove_each (flush_queue n env) env p entries s =
    (Inr (), up_put ups (s\<lparr>md_messages := md_messages s @ map (Pair (Some p)) (concat (map snd entries))\<rparr>))"
proof (induction entries arbitrary: s)
  case Nil
  show ?case by (auto intro: exI [of _ "[]"])
next
  case (Cons e entries)
  obtain sender dgs where e: "e = (sender, dgs)" by (cases e)
  let ?s1 = "s\<lparr>md_messages := md_messages s @ map (Pair (Some p)) dgs\<rparr>"
  obtain us where us: "recall_post_removes env sender ?s1 = (Inr (), up_put us ?s1)" using recall_put by blast
  obtain vs where "post_remove_each (flush_queue n env) env p entries (up_put us ?s1) =
     (Inr (), up_put vs ((up_put us ?s1)\<lparr>md_messages := md_messages (up_put us ?s1)
        @ map (Pair (Some p)) (concat (map snd entries))\<rparr>))"
    using Cons.IH [of "up_put us ?s1"] Cons.prems by auto
  moreover have "(up_put us ?s1)\<lparr>md_messages := md_messages (up_put us ?s1)
        @ map (Pair (Some p)) (concat (map snd entries))\<rparr>
     = up_put us (s\<lparr>md_messages := md_messages s @ map (Pair (Some p)) (concat (map snd (e # entries)))\<rparr>)"
    by (simp add: up_put_def e)
  ultimately show ?case
    using us Cons.prems assms by (auto simp: e sseq_apply route_each_routing)
qed


lemma terminate_routing:
  assumes mode: "\<not> threaded env" "on_main_thread env" "main_is_routing s"
    and ok: "cm_ok (md_channels s)" "containers_ok (md_containers env)" and live: "\<not> is_terminated s p"
  shows "\<exists>s'. terminate (flush_queue n env) env p s = (Inr (), s') \<and> is_terminated s' p
    \<and> p \<in> md_terminated s' \<and> p \<notin> md_participants s' \<and> cm_ok (md_channels s')
    \<and> (\<forall>q. listens (md_channels s') q = (if q = p then {} else listens (md_channels s) q))
    \<and> md_messages s' = md_messages s @ map (Pair (Some p)) (concat (map snd (post_remove_entries env p s)))"
proof -
  let ?s1 = "s\<lparr>is_terminated := (is_terminated s)(p := True)\<rparr>"
  let ?X = "?s1\<lparr>md_channels := (unsubscribe_all (md_containers env) p
       ((md_channels s)\<lparr>upstream_log := []\<rparr>))\<lparr>upstream_log := []\<rparr>\<rparr>"
  have "\<exists>ups. channel_op env (unsubscribe_all (md_containers env) p) ?s1 = (Inr (), up_put ups ?X)"
  proof (cases "has_upstream env")
    case False
    then show ?thesis by (intro exI [of _ "[]"]) (simp add: channel_op_put Let_def)
  qed (auto simp: channel_op_put Let_def)
  then obtain ups s2 where s2: "channel_op env (unsubscribe_all (md_containers env) p) ?s1 = (Inr (), s2)"
    "s2 = up_put ups ?X" by blast
  let ?s3 = "s2\<lparr>md_participants := md_participants s2 - {p}\<rparr>"
  have entries: "post_remove_entries env p ?s3 = post_remove_entries env p s"
    by (simp add: post_remove_entries_def s2(2))
  have "main_is_routing ?s3" using mode(3) by (simp add: s2(2))
  from post_remove_each_routing [OF mode(1,2) this, of n p "post_remove_entries env p s"]
  obtain vs where vs: "post_remove_each (flush_queue n env) env p (post_remove_entries env p s) ?s3 =
    (Inr (), up_put vs (?s3\<lparr>md_messages := md_messages s @ map (Pair (Some p)) (concat (map snd (post_remove_entries env p s)))\<rparr>))"
    by (auto simp: s2(2))
  have "cm_ok ((md_channels s)\<lparr>upstream_log := []\<rparr>)" using ok(1) by simp
  note eff = unsubscribe_all_effect [OF this ok(2)]
  show ?thesis
    using live s2(1) vs eff [of p]
    by (simp add: terminate_def remove_participant_def sseq_apply post_remove_def entries)
      (simp add: s2(2) listens_def)
qed

section \<open>Properties\<close>

text \<open>A demonstration configuration for the instances: two network participants, one upstream.\<close>

definition demo_env :: "unit md_env" where
  "demo_env = \<lparr>md_containers = plain_containers, receiver_order = sorted_list_of_set, is_network = (\<lambda>_. True),
     handler = (\<lambda>_ _ _ w. ([], None, w)), has_upstream = True, threaded = False, on_main_thread = True\<rparr>"

definition demo_md :: "unit md" where
  "demo_md = \<lparr>md_channels = subscribe_channel 2 6 (subscribe_channel 1 5 cm_init), md_participants = {1, 2},
     md_terminated = {}, is_terminated = (\<lambda>_. False), post_removes = (\<lambda>_. Map.empty), con_name = (\<lambda>_. []),
     con_url = (\<lambda>_. []), md_messages = [], main_is_routing = False, md_tasks = 0, md_deleted = {},
     up_initialized = True, up_is_sending = False, up_messages = [], up_sent = [], net_sent = [],
     events_sent = [], world = ()\<rparr>"

lemma demo_env_ok: "order_ok demo_env" "containers_ok (md_containers demo_env)"
  by (simp_all add: order_ok_def demo_env_def plain_containers_ok)

lemma demo_md_ok: "md_inv {} [] demo_md"
proof -
  have "cm_ok (md_channels demo_md) \<and> cm_finite (md_channels demo_md)"
    by (simp add: demo_md_def cm_ok_subscribe_channel cm_ok_init cm_finite_ops)
      (simp add: cm_finite_def cm_init_def subscribe_channel_fields)
  then show ?thesis by (simp add: md_inv_def demo_md_def)
qed

definition demo_dg :: datagram where
  "demo_dg = \<lparr>dg_buf = server_header_bytes [5, 6] 7 2000 @ [1], buf_cap = 64\<rparr>"

lemma demo_dg_ok: "dg_ok demo_dg"
  by (simp add: dg_ok_def demo_dg_def server_header_bytes_def buf_offset_def DGSIZE_MAX_def)

text \<open>
  C1: in a state of the routing invariant, a datagram addressed to at most 255 channels, to none of
  which a participant of the director's own process listens, is delivered once to each network
  participant that listens, by a channel or a range, to one of them, except its sender, and if there
  is an upstream link it goes upstream exactly when it did not come from there. (A receiver in the
  director's own process can remove others while the datagram is handed out.)
\<close>

theorem route_reaches_subscribers:
  assumes inv: "md_inv T out s" and ord: "order_ok env" and ok: "dg_ok dg"
    and buf: "dg_buf dg = server_header_bytes tos from mtype @ payload" and few: "length tos \<le> 255"
    and net: "\<And>q. listens (md_channels s) q \<inter> set tos \<noteq> {} \<Longrightarrow> is_network env q"
  shows "\<exists>qs s'. process_datagram fl env p dg s = (Inr (), s') \<and> distinct qs
    \<and> set qs = {q. Some q \<noteq> p \<and> listens (md_channels s) q \<inter> set tos \<noteq> {}}
    \<and> net_sent s' = net_sent s @ map (\<lambda>q. (q, dg)) qs
    \<and> outbox s' = outbox s @ (if p \<noteq> None \<and> has_upstream env then [dg] else [])"
proof -
  let ?qs = "receiver_order env (receiving_participants p tos s)"
  have r: "receivers dg = Inr (tos, advance (start dg) (1 + 8 * length tos))"
    using receivers_header(1) [OF ok buf] few by simp
  have cm: "cm_ok (md_channels s)" "cm_finite (md_channels s)" "up_initialized s \<Longrightarrow> up_messages s = []"
    using inv by (simp_all add: md_inv_def)
  have recv: "receiving_participants p tos s = {q. Some q \<noteq> p \<and> listens (md_channels s) q \<inter> set tos \<noteq> {}}"
    by (auto simp: receiving_participants_def registry.lookup_heard [OF cm(1)] elem_set)
  have qs: "set ?qs = receiving_participants p tos s" "distinct ?qs"
    using ord finite_lookup [OF cm(2), of tos] by (simp_all add: order_ok_def receiving_participants_def)
  have "process_datagram fl env p dg s = (Inr (), after_delivery env p dg ?qs s)"
    by (rule process_network [OF r]) (use qs recv net in auto)
  moreover have "outbox (after_delivery env p dg ?qs s) = outbox s @ forwarded env p dg"
    using cm(3) by (auto simp: after_delivery_def up_put_def outbox_def)
  ultimately show ?thesis using qs recv by (auto simp: forwarded_def)
qed

lemma route_reaches_subscribers_witness:
  "\<exists>qs s'. process_datagram (sret ()) demo_env (Some 2) demo_dg demo_md = (Inr (), s') \<and> distinct qs
    \<and> set qs = {q. Some q \<noteq> Some 2 \<and> listens (md_channels demo_md) q \<inter> set [5, 6] \<noteq> {}}
    \<and> net_sent s' = net_sent demo_md @ map (\<lambda>q. (q, demo_dg)) qs
    \<and> outbox s' = outbox demo_md @ [demo_dg]"
  using route_reaches_subscribers [OF demo_md_ok demo_env_ok(1) demo_dg_ok,
      where p = "Some 2" and fl = "sret ()" and tos = "[5, 6]" and payload = "[1]"]
  by (simp add: demo_dg_def demo_env_def)


text \<open>
  The queue is first in, first out and \<open>flush_queue\<close> empties it: with as much fuel as there
  are messages (and one more) it returns, and the datagrams sent are those of the messages, in
  the order they were queued.
\<close>

theorem flush_queue_fifo:
  assumes net: "\<And>q. is_network env q" and idle: "\<not> main_is_routing s" and fuel: "length (md_messages s) < n"
  shows "\<exists>s'. flush_queue n env s = (Inr (), s') \<and> md_messages s' = [] \<and> \<not> main_is_routing s'
    \<and> md_channels s' = md_channels s
    \<and> net_sent s' = net_sent s @ concat (map (deliveries env (md_channels s)) (md_messages s))"
proof -
  from fuel obtain k where n: "n = Suc k" "length (md_messages s) \<le> k" by (cases n) auto
  let ?s = "s\<lparr>main_is_routing := True\<rparr>"
  obtain s' where s': "flush_loop k env ?s = (Inr (), s')" "md_messages s' = []" "md_channels s' = md_channels s"
    "net_sent s' = net_sent s @ concat (map (deliveries env (md_channels s)) (md_messages s))"
    using flush_loop_network [OF net, of ?s k] n(2) by auto
  have "flush_queue n env s = (Inr (), s'\<lparr>main_is_routing := False\<rparr>)"
    using idle s'(1) n(1) by (subst flush_queue.simps) (simp add: sseq_apply)
  with s' show ?thesis by simp
qed

lemma flush_queue_fifo_witness:
  "\<exists>s'. flush_queue 3 demo_env (demo_md\<lparr>md_messages := [(Some 2, demo_dg), (Some 1, demo_dg)]\<rparr>) = (Inr (), s')
    \<and> md_messages s' = [] \<and> \<not> main_is_routing s' \<and> md_channels s' = md_channels demo_md
    \<and> net_sent s' = deliveries demo_env (md_channels demo_md) (Some 2, demo_dg)
        @ deliveries demo_env (md_channels demo_md) (Some 1, demo_dg)"
  using flush_queue_fifo [of demo_env "demo_md\<lparr>md_messages := [(Some 2, demo_dg), (Some 1, demo_dg)]\<rparr>" 3]
  by (simp add: demo_env_def demo_md_def)

text \<open>
  Terminating a participant while the director routes takes it out of the subscription
  tables, and nobody else; its post-removes are queued with it as their sender, grouped by the
  channel they were registered for and in registration order; it waits for deletion, and no
  lookup finds it any more.
\<close>

theorem terminate_sends_post_removes:
  assumes "\<not> threaded env" "on_main_thread env" "main_is_routing s"
    and "md_inv T out s" "containers_ok (md_containers env)" and "\<not> is_terminated s p"
  shows "\<exists>s'. terminate (flush_queue n env) env p s = (Inr (), s') \<and> is_terminated s' p
    \<and> p \<in> md_terminated s' \<and> p \<notin> md_participants s'
    \<and> (\<forall>cl. lookup_channels cl (md_channels s') = lookup_channels cl (md_channels s) - {p})
    \<and> md_messages s' = md_messages s @ map (Pair (Some p)) (concat (map snd (post_remove_entries env p s)))"
proof -
  from assms(4) have cm: "cm_ok (md_channels s)" by (simp add: md_inv_def)
  from terminate_routing [OF assms(1-3) cm assms(5,6), of n]
  obtain s' where s': "terminate (flush_queue n env) env p s = (Inr (), s')" "is_terminated s' p"
    "p \<in> md_terminated s'" "p \<notin> md_participants s'" and cm': "cm_ok (md_channels s')"
    and eff: "\<forall>q. listens (md_channels s') q = (if q = p then {} else listens (md_channels s) q)"
    and msgs: "md_messages s' = md_messages s @ map (Pair (Some p)) (concat (map snd (post_remove_entries env p s)))"
    by blast
  have "lookup_channels cl (md_channels s') = lookup_channels cl (md_channels s) - {p}" for cl
    by (auto simp: registry.lookup_heard [OF cm] registry.lookup_heard [OF cm'] eff [rule_format]
        split: if_splits)
  with s' msgs show ?thesis by blast
qed

lemma terminate_sends_post_removes_witness:
  "\<exists>s'. terminate (flush_queue 5 demo_env) demo_env 1 (demo_md\<lparr>main_is_routing := True\<rparr>) = (Inr (), s')
    \<and> is_terminated s' 1 \<and> 1 \<in> md_terminated s' \<and> 1 \<notin> md_participants s'
    \<and> (\<forall>cl. lookup_channels cl (md_channels s') = lookup_channels cl (md_channels demo_md) - {1})
    \<and> md_messages s' = map (Pair (Some 1)) (concat (map snd (post_remove_entries demo_env 1 demo_md)))"
proof -
  have "md_inv {} [] (demo_md\<lparr>main_is_routing := True\<rparr>)"
    using demo_md_ok by (simp add: md_inv_def outbox_def)
  from terminate_sends_post_removes [OF _ _ _ this demo_env_ok(2), of 1 5]
  show ?thesis by (simp add: demo_env_def demo_md_def post_remove_entries_def)
qed

text \<open>
  C2: whatever the local participants do, and whatever bytes arrive on a network participant's
  connection, the director keeps its invariant: the two subscription tables agree, only
  terminated participants wait for deletion, no datagram waits for an upstream link that is up,
  terminated participants stay terminated and what was sent upstream is never taken back.
\<close>

theorem director_keeps_invariant:
  fixes s :: "'w md"
  assumes "md_inv T out s"
  shows "md_inv T out (snd (net_receive_datagram (flush_queue n env) env p dg s))
    \<and> md_inv T out (snd (net_receive_disconnect (flush_queue n env) env p s))
    \<and> md_inv T out (snd (md_receive_datagram n env dg s))
    \<and> md_inv T out (snd (flush_queue n env s)) \<and> md_inv T out (snd (routing_thread_turn n env s))
    \<and> md_inv T out (snd (perform (flush_queue n env) env a s))
    \<and> md_inv T out (snd (upstream_on_connect s))"
proof -
  have turn: "keeps (md_inv T out) (routing_thread_turn n env)"
    unfolding routing_thread_turn_def
    by (intro keeps_intros director.keeps_process_datagram keeps_md_inv_supd
        keeps_sbind) (auto split: list.split intro!: keeps_intros director.keeps_process_datagram)
  have conn: "keeps (md_inv T out) (upstream_on_connect :: ('w md, unit) sm)"
    unfolding upstream_on_connect_def flush_send_queue_def
    by (rule keepsI) (auto simp: md_inv_def outbox_def)
  show ?thesis
    using assms turn conn director.keeps_net_receive_datagram [of T out n env env p dg]
      director.keeps_terminate [of T out n env env p] director.keeps_route_datagram [of T out n env env None dg]
      director.fl_keeps [of T out n env] director.keeps_perform [of T out n env env a]
    by (simp add: keeps_def net_receive_disconnect_def md_receive_datagram_def)
qed

lemma director_keeps_invariant_witness:
  "md_inv {} [] (snd (net_receive_datagram (flush_queue 4 demo_env) demo_env 1 demo_dg demo_md))"
  using director_keeps_invariant [OF demo_md_ok] by blast

text \<open>
  C3: while the link is up and initialised, a message director and the one above it stay in step: an
  operation on the channel map below, followed by the upper director's processing of the datagrams it
  sent over the link, leaves the upper one subscribed, on the link's behalf, to everything anybody
  below listens to, if it was so before. The operation is any subscription or unsubscription except
  the removal of a range inside which another participant holds a single channel.
\<close>

theorem upstream_covers_downstream:
  assumes "cm_ok (md_channels sl)" "cm_ok (md_channels sh)" "covered q (md_channels sl) (md_channels sh)"
    and "containers_ok (md_containers envh)" "md_containers envl = md_containers envh"
    and "has_upstream envl" "up_initialized sl" "op_safe op (md_channels sl)"
  shows "\<exists>sl' evs sh'. channel_op envl (cm_apply (md_containers envl) op) sl = (Inr (), sl')
    \<and> up_sent sl' = up_sent sl @ map event_dg evs
    \<and> net_receive_all fl envh q (map event_dg evs) sh = (Inr (), sh')
    \<and> cm_ok (md_channels sl') \<and> cm_ok (md_channels sh') \<and> covered q (md_channels sl') (md_channels sh')"
  by (rule link_step [OF assms])

lemma demo_cm_ok: "cm_ok (md_channels demo_md)"
  using demo_md_ok by (simp add: md_inv_def)

lemma upstream_covers_downstream_witness:
  "\<exists>sl' evs sh'. channel_op demo_env (cm_apply plain_containers (SubChannel 1 9)) (demo_md\<lparr>md_channels := cm_init\<rparr>) = (Inr (), sl')
    \<and> up_sent sl' = map event_dg evs
    \<and> net_receive_all (sret ()) demo_env 2 (map event_dg evs) demo_md = (Inr (), sh')
    \<and> cm_ok (md_channels sl') \<and> cm_ok (md_channels sh') \<and> covered 2 (md_channels sl') (md_channels sh')"
  using upstream_covers_downstream [of "demo_md\<lparr>md_channels := cm_init\<rparr>" demo_md 2 demo_env demo_env "SubChannel 1 9" "sret ()"]
  by (simp add: demo_env_def plain_containers_ok cm_ok_init demo_cm_ok)
    (simp add: demo_md_def covered_def cm_init_def)

text \<open>
  the target count of a header is one byte, so a header written for \<open>n\<close> targets is read as
  one for \<open>n mod 256\<close>: with at most 255 targets the reader gets exactly the targets, with more
  it takes the rest for sender, message type and payload.
\<close>

theorem receivers_of_server_header:
  assumes "dg_ok dg" "dg_buf dg = server_header_bytes tos from mtype @ payload"
  shows "\<exists>it. receivers dg = Inr (take (length tos mod 256) tos, it)
    \<and> it_offset it = 1 + 8 * (length tos mod 256)
    \<and> (length tos \<le> 255 \<longrightarrow> receivers dg = Inr (tos, it) \<and> upcoming it (le_bytes 8 from @ le_bytes 2 mtype @ payload))"
  using receivers_header [OF assms] by (auto simp: start_def)

lemma receivers_of_server_header_witness:
  "\<exists>it. receivers demo_dg = Inr ([5, 6], it) \<and> it_offset it = 17"
  using receivers_of_server_header [OF demo_dg_ok, of "[5, 6]" 7 2000 "[1]"] by (fastforce simp: demo_dg_def)

text \<open>
  a subscription message that ends before its channel terminates the connection it came
  from, and does nothing else.
\<close>

theorem truncated_control_terminates:
  assumes "dg_ok dg" "dg_buf dg = control_bytes mtype args" "length args < 8"
    and "mtype \<in> {CONTROL_ADD_CHANNEL, CONTROL_REMOVE_CHANNEL, CONTROL_ADD_RANGE, CONTROL_REMOVE_RANGE,
      CONTROL_ADD_POST_REMOVE, CONTROL_CLEAR_POST_REMOVES}"
  shows "net_receive_datagram fl env p dg s = terminate fl env p s"
proof -
  have "unat (dg_size dg) = 11 + length args"
    using dg_ok_size [OF assms(1)] assms(2) by (simp add: control_bytes_def)
  then have "read_channel (advance (start dg) 11) = Inl DatagramIteratorEOF"
    using assms(3) by (simp add: read_channel_def read_raw_def check_read_length_def start_def)
  with assms(4) have "net_control fl env p mtype (advance (start dg) 11) s = (Inl DatagramIteratorEOF, s)"
    by (auto simp: net_control_def)
  then show ?thesis
    using net_try_control_bytes(1) [OF assms(1,2), of fl env p] by (simp add: net_receive_datagram_def sseq_apply)
qed

lemma truncated_control_terminates_witness:
  "net_receive_datagram (sret ()) demo_env 1 \<lparr>dg_buf = control_bytes CONTROL_ADD_RANGE [1, 2], buf_cap = 64\<rparr> demo_md
    = terminate (sret ()) demo_env 1 demo_md"
  by (rule truncated_control_terminates [where mtype = CONTROL_ADD_RANGE and args = "[1, 2]"])
    (simp_all add: dg_ok_def buf_offset_def control_bytes_def DGSIZE_MAX_def)

lemma read_post_remove:
  fixes len :: dgsize and sender :: channel
  assumes "upcoming it (le_bytes 8 sender @ le_bytes 2 len @ rest)"
    "unat (dg_size (it_dg it)) = length (dg_buf (it_dg it))"
    "drop (it_offset it + 10) (dg_buf (it_dg it)) = rest"
  shows "read_channel it = Inr (sender, advance it 8)"
    "read_datagram (advance it 8) =
      (if unat len \<le> length rest then Inr (\<lparr>dg_buf = take (unat len) rest, buf_cap = unat len\<rparr>, advance it 10)
       else Inl HeapOverread)"
proof -
  from assms(1) have up: "upcoming it (le_bytes 8 sender)" "upcoming (advance it 8) (le_bytes 2 len)"
    by (simp_all add: upcoming_append)
  from chanc.rd_upcoming [OF TrueI up(1)] show "read_channel it = Inr (sender, advance it 8)" by simp
  from sizec.rd_upcoming [OF TrueI up(2)] assms(3) [symmetric]
  show "read_datagram (advance it 8) =
      (if unat len \<le> length rest then Inr (\<lparr>dg_buf = take (unat len) rest, buf_cap = unat len\<rparr>, advance it 10)
       else Inl HeapOverread)"
    by (simp add: read_datagram_def dg_create_ptr_def)
qed

lemma control_args_dropped:
  fixes len :: dgsize and sender :: channel
  assumes "dg_ok dg" "dg_buf dg = control_bytes mtype (le_bytes 8 sender @ le_bytes 2 len @ rest)"
  shows "drop (it_offset (advance (start dg) 11) + 10) (dg_buf (it_dg (advance (start dg) 11))) = rest"
    "unat (dg_size (it_dg (advance (start dg) 11))) = length (dg_buf (it_dg (advance (start dg) 11)))"
  using assms by (simp_all add: start_def control_bytes_def dg_ok_size)

text \<open>
  a post-remove registered over the network is stored with its sender's, last, and is
  exactly the sized datagram the message carries.
\<close>

theorem remote_post_remove_stored:
  fixes len :: dgsize and sender :: channel
  assumes "dg_ok dg" "dg_buf dg = control_bytes CONTROL_ADD_POST_REMOVE (le_bytes 8 sender @ le_bytes 2 len @ rest)"
    and "unat len \<le> length rest" "\<not> has_upstream env"
  shows "net_receive_datagram fl env p dg s = (Inr (), s\<lparr>post_removes := (post_removes s)(p :=
      (post_removes s p)(sender \<mapsto> (case post_removes s p sender of None \<Rightarrow> [] | Some dgs \<Rightarrow> dgs)
          @ [\<lparr>dg_buf = take (unat len) rest, buf_cap = unat len\<rparr>]))\<rparr>)"
proof -
  note rd = read_post_remove [OF net_try_control_bytes(2) [OF assms(1,2)] control_args_dropped(2,1) [OF assms(1,2)]]
  show ?thesis
    using net_try_control_bytes(1) [OF assms(1,2), of fl env p] rd assms(3,4)
    by (simp add: net_receive_datagram_def sseq_apply net_control_def add_post_remove_def preroute_post_remove_def)
qed

lemma remote_post_remove_stored_witness:
  "net_receive_datagram (sret ()) (demo_env\<lparr>has_upstream := False\<rparr>) 1
     \<lparr>dg_buf = control_bytes CONTROL_ADD_POST_REMOVE (le_bytes 8 (9 :: channel) @ le_bytes 2 (2 :: u16) @ [1, 2]), buf_cap = 64\<rparr> demo_md
   = (Inr (), demo_md\<lparr>post_removes := (\<lambda>_. Map.empty)(1 := [9 \<mapsto> [\<lparr>dg_buf = [1, 2], buf_cap = 2\<rparr>]])\<rparr>)"
  by (subst remote_post_remove_stored [where sender = 9 and len = 2 and rest = "[1, 2]"])
    (simp_all add: dg_ok_def buf_offset_def control_bytes_def DGSIZE_MAX_def demo_md_def)

text \<open>
  The length a remote post-remove declares is not checked against the message: when it
  exceeds what follows, the copy reads past the end of the received datagram.
\<close>

theorem remote_post_remove_overread:
  fixes len :: dgsize and sender :: channel
  assumes "dg_ok dg" "dg_buf dg = control_bytes CONTROL_ADD_POST_REMOVE (le_bytes 8 sender @ le_bytes 2 len @ rest)"
    and "length rest < unat len"
  shows "net_receive_datagram fl env p dg s = (Inl HeapOverread, s)"
proof -
  note rd = read_post_remove [OF net_try_control_bytes(2) [OF assms(1,2)] control_args_dropped(2,1) [OF assms(1,2)]]
  show ?thesis
    using net_try_control_bytes(1) [OF assms(1,2), of fl env p] rd assms(3)
    by (simp add: net_receive_datagram_def sseq_apply net_control_def)
qed

lemma remote_post_remove_overread_witness:
  "net_receive_datagram (sret ()) demo_env 1
     \<lparr>dg_buf = control_bytes CONTROL_ADD_POST_REMOVE (le_bytes 8 (9 :: channel) @ le_bytes 2 (500 :: u16) @ [1, 2]), buf_cap = 64\<rparr> demo_md
   = (Inl HeapOverread, demo_md)"
  by (rule remote_post_remove_overread [where sender = 9 and len = 500 and rest = "[1, 2]"])
    (simp_all add: dg_ok_def buf_offset_def control_bytes_def DGSIZE_MAX_def)

end
