(* ===== verification/Field_Values.thy ===== *)
theory Field_Values
  imports DClass
begin

text \<open>
  The field containers of \<open>core/objtypes.h\<close>: a \<open>FieldValues\<close> is a \<open>std::map\<close> from fields to
  byte vectors and a \<open>FieldSet\<close> a \<open>std::set\<close> of fields, both ordered by field number
  (\<open>FieldPtrComp\<close>). They are kept as sorted lists.
\<close>

type_synonym field_values = "(field \<times> bytes) list"

fun fv_lookup :: "field \<Rightarrow> field_values \<Rightarrow> bytes option" where
  "fv_lookup f [] = None"
| "fv_lookup f ((g, v) # kvs) = (if field_id g = field_id f then Some v else fv_lookup f kvs)"

fun fv_update :: "field \<Rightarrow> bytes \<Rightarrow> field_values \<Rightarrow> field_values" where
  "fv_update f v [] = [(f, v)]"
| "fv_update f v ((g, w) # kvs) =
     (if field_id f < field_id g then (f, v) # (g, w) # kvs
      else if field_id f = field_id g then (g, v) # kvs
      else (g, w) # fv_update f v kvs)"

text \<open>\<open>values[field]\<close> as the target of an append: an absent entry starts empty.\<close>

definition fv_append :: "field \<Rightarrow> bytes \<Rightarrow> field_values \<Rightarrow> field_values" where
  "fv_append f data kvs =
     fv_update f ((case fv_lookup f kvs of None \<Rightarrow> [] | Some old \<Rightarrow> old) @ data) kvs"

fun fs_insert :: "field \<Rightarrow> field list \<Rightarrow> field list" where
  "fs_insert f [] = [f]"
| "fs_insert f (g # gs) =
     (if field_id f < field_id g then f # g # gs
      else if field_id f = field_id g then g # gs
      else g # fs_insert f gs)"

definition fv_ids :: "field_values \<Rightarrow> u32 set" where
  "fv_ids kvs = (\<lambda>(f, v). field_id f) ` set kvs"

definition fv_sorted :: "field_values \<Rightarrow> bool" where
  "fv_sorted kvs \<longleftrightarrow> sorted_wrt (\<lambda>a b. field_id (fst a) < field_id (fst b)) kvs"

lemma fv_lookup_update [simp]: "fv_lookup f (fv_update f v kvs) = Some v"
  by (induction kvs) auto

lemma fv_lookup_update_other [simp]:
  "field_id g \<noteq> field_id f \<Longrightarrow> fv_lookup g (fv_update f v kvs) = fv_lookup g kvs"
  by (induction kvs) auto

lemma fv_ids_simps [simp]: "fv_ids [] = {}" "fv_ids ((f, v) # kvs) = insert (field_id f) (fv_ids kvs)"
  by (simp_all add: fv_ids_def)

lemma fv_lookup_None: "fv_lookup f kvs = None \<longleftrightarrow> field_id f \<notin> fv_ids kvs"
  by (induction kvs) (auto split: if_splits)

lemma fv_ids_update [simp]: "fv_ids (fv_update f v kvs) = insert (field_id f) (fv_ids kvs)"
proof (induction kvs)
  case (Cons kv kvs)
  then show ?case by (cases kv) auto
qed simp

lemma fv_update_bound:
  "k < field_id f \<Longrightarrow> \<forall>x \<in> set kvs. k < field_id (fst x) \<Longrightarrow> \<forall>x \<in> set (fv_update f v kvs). k < field_id (fst x)"
  by (induction kvs) (fastforce split: if_splits)+

lemma fv_sorted_update: "fv_sorted kvs \<Longrightarrow> fv_sorted (fv_update f v kvs)"
proof (induction kvs)
  case (Cons kv kvs)
  obtain g w where kv: "kv = (g, w)" by (cases kv)
  show ?case
  proof (cases "field_id g < field_id f")
    case True
    with Cons kv fv_update_bound [OF True, of kvs v] show ?thesis by (auto simp: fv_sorted_def)
  qed (use Cons kv in \<open>auto simp: fv_sorted_def\<close>)
qed (simp add: fv_sorted_def)

end
