(* ===== verification/Distributed_Object.thy ===== *)
theory Distributed_Object
  imports Dg_Iterator Field_Values
begin

text \<open>
  A state server's object, the class \<open>DistributedObject\<close> of \<open>stateserver/DistributedObject.cpp\<close>:
  its fields, its place (parent and zone), its AI and owner, the table of its children, and one
  handler per message. What an object does to the rest of the program (datagrams routed,
  channels subscribed, its entry in the state server's table erased, its termination) is the
  sequence \<open>effects\<close>. A required value is stored under its field's number, the ram values in a
  list sorted by field number (a \<open>std::map\<close>). The iteration order of unordered sets is given by
  the environment. Log lines and connection names are left out.
\<close>

section \<open>State\<close>

datatype do_effect =
    Route datagram
  | Subscribe channel
  | Unsubscribe channel
  | EraseObject doid
  | Terminated

record do_env =
  target_order :: "channel set \<Rightarrow> channel list"
  zone_order :: "zone set \<Rightarrow> zone list"
  objs_order :: "doid set \<Rightarrow> doid list"

record dobj =
  do_id :: doid
  parent_id :: doid
  zone_id :: zone
  do_class :: dclass
  required_fields :: "u32 \<rightharpoonup> bytes"
  ram_fields :: field_values
  ai_channel :: channel
  owner_channel :: channel
  ai_explicitly_set :: bool
  parent_synchronized :: bool
  next_context :: u32
  zone_objects :: "zone \<rightharpoonup> doid set"
  effects :: "do_effect list"

type_synonym 'a do_op = "(dobj, 'a) sm"

definition effect :: "do_effect \<Rightarrow> unit do_op" where
  "effect e = supd (\<lambda>s. s\<lparr>effects := effects s @ [e]\<rparr>)"

definition route :: "datagram \<Rightarrow> unit do_op" where
  "route dg = effect (Route dg)"

section \<open>Snapshots\<close>

text \<open>\<open>m_required_fields[field]\<close>, which makes an empty entry where there is none.\<close>

definition required_ref :: "field \<Rightarrow> bytes do_op" where
  "required_ref f =
     sbind (sget (\<lambda>s. required_fields s (field_id f))) (\<lambda>v.
     case v of
       Some d \<Rightarrow> sret d
     | None \<Rightarrow> sseq (supd (\<lambda>s. s\<lparr>required_fields := (required_fields s)(field_id f \<mapsto> [])\<rparr>)) (sret []))"

definition client_visible :: "bool \<Rightarrow> field \<Rightarrow> bool" where
  "client_visible also_owner f \<longleftrightarrow>
     has_keyword f ''broadcast'' \<or> has_keyword f ''clrecv'' \<or> (also_owner \<and> has_keyword f ''ownrecv'')"

fun append_required_fields :: "bool \<Rightarrow> bool \<Rightarrow> field list \<Rightarrow> datagram \<Rightarrow> datagram do_op" where
  "append_required_fields client_only also_owner [] dg = sret dg"
| "append_required_fields client_only also_owner (f # fs) dg =
     (if has_keyword f ''required'' \<and> as_molecular f = None
         \<and> (\<not> client_only \<or> client_visible also_owner f)
      then sbind (required_ref f) (\<lambda>data.
           sbind (slift (add_data data dg)) (\<lambda>dg.
           append_required_fields client_only also_owner fs dg))
      else append_required_fields client_only also_owner fs dg)"

definition append_required_data :: "bool \<Rightarrow> bool \<Rightarrow> datagram \<Rightarrow> datagram do_op" where
  "append_required_data client_only also_owner dg =
     sbind (sget id) (\<lambda>s.
     sbind (slift (add_all [add_doid (do_id s), add_location (parent_id s) (zone_id s),
        add_uint16 (ucast (cls_id (do_class s)))] dg)) (\<lambda>dg.
     append_required_fields client_only also_owner (cls_fields (do_class s)) dg))"

fun append_values :: "(field \<times> bytes) list \<Rightarrow> datagram \<Rightarrow> datagram res" where
  "append_values [] dg = Inr dg"
| "append_values ((f, v) # kvs) dg =
     rbind (add_uint16 (ucast (field_id f)) dg) (\<lambda>dg. rbind (add_data v dg) (append_values kvs))"

definition append_other_data :: "bool \<Rightarrow> bool \<Rightarrow> datagram \<Rightarrow> datagram do_op" where
  "append_other_data client_only also_owner dg =
     sbind (sget ram_fields) (\<lambda>ram.
     let kvs = (if client_only then filter (\<lambda>(f, v). client_visible also_owner f) ram else ram) in
     slift (rbind (add_uint16 (word_of_nat (length kvs)) dg) (append_values kvs)))"

text \<open>
  The body the four entry messages share: the header, an optional prefix, the required values
  and, when there are any, the ram values.
\<close>

definition send_entry ::
    "channel \<Rightarrow> u16 \<Rightarrow> u16 \<Rightarrow> (datagram \<Rightarrow> datagram res) \<Rightarrow> bool \<Rightarrow> bool \<Rightarrow> unit do_op" where
  "send_entry location plain with_other prefix client_only also_owner =
     sbind (sget id) (\<lambda>s.
     let other = (ram_fields s \<noteq> []) in
     sbind (slift (rbind (dg_create_server location (doid_channel (do_id s))
        (if other then with_other else plain)) prefix)) (\<lambda>dg.
     sbind (append_required_data client_only also_owner dg) (\<lambda>dg.
     sbind (if other then append_other_data client_only also_owner dg else sret dg) route)))"

definition send_interest_entry :: "channel \<Rightarrow> u32 \<Rightarrow> unit do_op" where
  "send_interest_entry location context =
     send_entry location STATESERVER_OBJECT_ENTER_INTEREST_WITH_REQUIRED
       STATESERVER_OBJECT_ENTER_INTEREST_WITH_REQUIRED_OTHER (add_uint32 context) True False"

definition send_location_entry :: "channel \<Rightarrow> unit do_op" where
  "send_location_entry location =
     send_entry location STATESERVER_OBJECT_ENTER_LOCATION_WITH_REQUIRED
       STATESERVER_OBJECT_ENTER_LOCATION_WITH_REQUIRED_OTHER Inr True False"

definition send_ai_entry :: "channel \<Rightarrow> unit do_op" where
  "send_ai_entry ai =
     send_entry ai STATESERVER_OBJECT_ENTER_AI_WITH_REQUIRED
       STATESERVER_OBJECT_ENTER_AI_WITH_REQUIRED_OTHER Inr False False"

definition send_owner_entry :: "channel \<Rightarrow> unit do_op" where
  "send_owner_entry owner =
     send_entry owner STATESERVER_OBJECT_ENTER_OWNER_WITH_REQUIRED
       STATESERVER_OBJECT_ENTER_OWNER_WITH_REQUIRED_OTHER Inr True True"

section \<open>Location, AI and deletion\<close>

text \<open>Create a message to one channel or a set of channels, fill it in, route it.\<close>

definition send_to :: "channel \<Rightarrow> channel \<Rightarrow> u16 \<Rightarrow> (datagram \<Rightarrow> datagram res) list \<Rightarrow> unit do_op" where
  "send_to target sender msgtype body =
     sbind (slift (rbind (dg_create_server target sender msgtype) (add_all body))) route"

definition send_to_set ::
    "do_env \<Rightarrow> channel set \<Rightarrow> channel \<Rightarrow> u16 \<Rightarrow> (datagram \<Rightarrow> datagram res) list \<Rightarrow> unit do_op" where
  "send_to_set env targets sender msgtype body =
     sbind (slift (rbind (dg_create_server_set (target_order env targets) sender msgtype) (add_all body))) route"

definition when_set :: "channel \<Rightarrow> channel set" where
  "when_set c = (if c \<noteq> 0 then {c} else {})"

definition ask_parent_ai :: "unit do_op" where
  "ask_parent_ai =
     sbind (sget id) (\<lambda>s.
     sbind (slift (dg_create_server (doid_channel (parent_id s)) (doid_channel (do_id s)) STATESERVER_OBJECT_GET_AI)) (\<lambda>dg.
     sseq (supd (\<lambda>s. s\<lparr>next_context := next_context s + 1\<rparr>))
       (sbind (slift (add_uint32 (next_context s) dg)) route)))"

text \<open>The tail of \<open>handle_location_change\<close>, once the targets are known.\<close>

definition announce_location ::
    "do_env \<Rightarrow> channel set \<Rightarrow> channel \<Rightarrow> doid \<Rightarrow> zone \<Rightarrow> doid \<Rightarrow> zone \<Rightarrow> unit do_op" where
  "announce_location env targets sender new_parent new_zone old_parent old_zone =
     sbind (sget do_id) (\<lambda>me.
     sseq (send_to_set env targets sender STATESERVER_OBJECT_CHANGING_LOCATION
        [add_doid me, add_location new_parent new_zone, add_location old_parent old_zone])
    (sseq (supd (\<lambda>s. s\<lparr>parent_synchronized := False\<rparr>))
          (swhen (new_parent \<noteq> 0) (send_location_entry (location_as_channel new_parent new_zone)))))"

definition handle_location_change :: "do_env \<Rightarrow> doid \<Rightarrow> zone \<Rightarrow> channel \<Rightarrow> unit do_op" where
  "handle_location_change env new_parent new_zone sender =
     sbind (sget id) (\<lambda>s.
     let old_parent = parent_id s; old_zone = zone_id s;
         targets = when_set (ai_channel s) \<union> when_set (owner_channel s)
     in if new_parent = do_id s then sret ()
        else if new_parent \<noteq> old_parent then
          let targets1 = (if old_parent \<noteq> 0
                          then {doid_channel old_parent, location_as_channel old_parent old_zone} \<union> targets
                          else targets) in
          sseq (swhen (old_parent \<noteq> 0) (effect (Unsubscribe (parent_to_children old_parent))))
         (sseq (supd (\<lambda>s. s\<lparr>parent_id := new_parent, zone_id := new_zone\<rparr>))
            (if new_parent \<noteq> 0 then
               sseq (effect (Subscribe (parent_to_children new_parent)))
              (sseq (swhen (\<not> ai_explicitly_set s) ask_parent_ai)
                 (announce_location env (insert (doid_channel new_parent) targets1) sender
                    new_parent new_zone old_parent old_zone))
             else
               sseq (swhen (\<not> ai_explicitly_set s) (supd (\<lambda>s. s\<lparr>ai_channel := 0\<rparr>)))
                 (announce_location env targets1 sender new_parent new_zone old_parent old_zone)))
        else if new_zone \<noteq> old_zone then
          sseq (supd (\<lambda>s. s\<lparr>zone_id := new_zone\<rparr>))
            (announce_location env
               ({doid_channel (parent_id s), location_as_channel (parent_id s) old_zone} \<union> targets)
               sender new_parent new_zone old_parent old_zone)
        else sret ())"

definition handle_ai_change :: "do_env \<Rightarrow> channel \<Rightarrow> channel \<Rightarrow> bool \<Rightarrow> unit do_op" where
  "handle_ai_change env new_ai sender channel_is_explicit =
     sbind (sget id) (\<lambda>s.
     let old_ai = ai_channel s in
     if new_ai = old_ai then sret ()
     else
       let targets = when_set old_ai
             \<union> (if dom (zone_objects s) \<noteq> {} then {parent_to_children (do_id s)} else {}) in
       sseq (supd (\<lambda>s. s\<lparr>ai_channel := new_ai, ai_explicitly_set := channel_is_explicit\<rparr>))
      (sseq (send_to_set env targets sender STATESERVER_OBJECT_CHANGING_AI
               [add_doid (do_id s), add_channel new_ai, add_channel old_ai])
            (swhen (new_ai \<noteq> 0) (send_ai_entry new_ai))))"

definition delete_children :: "channel \<Rightarrow> unit do_op" where
  "delete_children sender =
     sbind (sget id) (\<lambda>s.
     swhen (dom (zone_objects s) \<noteq> {})
       (send_to (parent_to_children (do_id s)) sender STATESERVER_OBJECT_DELETE_CHILDREN [add_doid (do_id s)]))"

definition annihilate :: "do_env \<Rightarrow> channel \<Rightarrow> bool \<Rightarrow> unit do_op" where
  "annihilate env sender notify_parent =
     sbind (sget id) (\<lambda>s.
     let targets = (if parent_id s \<noteq> 0 then {location_as_channel (parent_id s) (zone_id s)} else {})
           \<union> when_set (owner_channel s) \<union> when_set (ai_channel s) in
     sseq (swhen (parent_id s \<noteq> 0 \<and> notify_parent)
       (send_to (doid_channel (parent_id s)) sender STATESERVER_OBJECT_CHANGING_LOCATION
          [add_doid (do_id s), add_location 0 0, add_location (parent_id s) (zone_id s)]))
    (sseq (send_to_set env targets sender STATESERVER_OBJECT_DELETE_RAM [add_doid (do_id s)])
    (sseq (delete_children sender)
    (sseq (effect (EraseObject (do_id s))) (effect Terminated)))))"

definition wake_children :: "unit do_op" where
  "wake_children =
     sbind (sget do_id) (\<lambda>me.
     send_to (parent_to_children me) (doid_channel me) STATESERVER_OBJECT_GET_LOCATION
       [add_uint32 STATESERVER_CONTEXT_WAKE_CHILDREN])"


section \<open>Field updates and queries\<close>

definition save_field :: "field \<Rightarrow> bytes \<Rightarrow> unit do_op" where
  "save_field f data =
     (if has_keyword f ''required'' then supd (\<lambda>s. s\<lparr>required_fields := (required_fields s)(field_id f \<mapsto> data)\<rparr>)
      else if has_keyword f ''ram'' then supd (\<lambda>s. s\<lparr>ram_fields := fv_update f data (ram_fields s)\<rparr>)
      else sret ())"

fun save_atomics :: "field list \<Rightarrow> dgi \<Rightarrow> dgi do_op" where
  "save_atomics [] it = sret it"
| "save_atomics (f # fs) it =
     sbind (slift (unpack_field f it)) (\<lambda>(data, it). sseq (save_field f data) (save_atomics fs it))"

definition update_targets :: "field \<Rightarrow> channel \<Rightarrow> dobj \<Rightarrow> channel set" where
  "update_targets f sender s =
     (if has_keyword f ''broadcast'' then {location_as_channel (parent_id s) (zone_id s)} else {})
     \<union> (if has_keyword f ''airecv'' \<and> ai_channel s \<noteq> 0 \<and> ai_channel s \<noteq> sender then {ai_channel s} else {})
     \<union> (if has_keyword f ''ownrecv'' \<and> owner_channel s \<noteq> 0 \<and> owner_channel s \<noteq> sender
        then {owner_channel s} else {})"

text \<open>The result is the returned flag and the iterator.\<close>

definition handle_one_update :: "do_env \<Rightarrow> dgi \<Rightarrow> channel \<Rightarrow> (bool \<times> dgi) do_op" where
  "handle_one_update env it sender =
     sbind (slift (read_uint16 it)) (\<lambda>(fid, it).
     sbind (sget do_class) (\<lambda>cls.
     case get_field_by_id cls (ucast fid) of
       None \<Rightarrow> sret (False, it)
     | Some f \<Rightarrow>
         (case unpack_field f it of
            Inl e \<Rightarrow> if e = DatagramIteratorEOF then sret (False, it) else sthrow e
          | Inr (data, it') \<Rightarrow>
              sbind (case as_molecular f of
                       Some atomics \<Rightarrow> save_atomics atomics (seek (tell it) it')
                     | None \<Rightarrow> sseq (save_field f data) (sret it')) (\<lambda>it''.
              sbind (sget (update_targets f sender)) (\<lambda>targets.
              sbind (sget do_id) (\<lambda>me.
              sseq (swhen (targets \<noteq> {})
                (send_to_set env targets sender STATESERVER_OBJECT_SET_FIELD
                   [add_doid me, add_uint16 fid, add_data data]))
                (sret (True, it'')))))))) "

text \<open>
  The loop of \<open>STATESERVER_OBJECT_SET_FIELDS\<close> counts with an \<open>int16_t\<close> against a \<open>uint16_t\<close>;
  the fuel is larger than the number of updates a datagram can hold.
\<close>

fun update_loop :: "nat \<Rightarrow> do_env \<Rightarrow> channel \<Rightarrow> 16 word \<Rightarrow> u16 \<Rightarrow> dgi \<Rightarrow> unit do_op" where
  "update_loop 0 env sender i field_count it =
     (if sint i < int (unat field_count) then sthrow NoReturn else sret ())"
| "update_loop (Suc fuel) env sender i field_count it =
     (if sint i < int (unat field_count)
      then sbind (handle_one_update env it sender) (\<lambda>(ok, it').
           if ok then update_loop fuel env sender (i + 1) field_count it' else sret ())
      else sret ())"

text \<open>
  \<open>handle_one_get\<close> reads the object and appends to \<open>out\<close>. It calls itself on the parts of a
  molecular field; the first argument bounds the depth of that recursion.
\<close>

fun get_each ::
    "(datagram \<Rightarrow> field \<Rightarrow> (bool \<times> datagram) res) \<Rightarrow> datagram \<Rightarrow> field list \<Rightarrow> (bool \<times> datagram) res" where
  "get_each get out [] = Inr (True, out)"
| "get_each get out (f # fs) =
     rbind (get out f) (\<lambda>(ok, out). if ok then get_each get out fs else Inr (False, out))"

fun handle_one_get ::
    "nat \<Rightarrow> dobj \<Rightarrow> datagram \<Rightarrow> u16 \<Rightarrow> bool \<Rightarrow> bool \<Rightarrow> (bool \<times> datagram) res" where
  "handle_one_get 0 s out fid succeed_if_unset is_subfield = Inl NoReturn"
| "handle_one_get (Suc depth) s out fid succeed_if_unset is_subfield =
     (case get_field_by_id (do_class s) (ucast fid) of
        None \<Rightarrow> Inr (False, out)
      | Some f \<Rightarrow>
          (case as_molecular f of
             Some atomics \<Rightarrow>
               rbind (add_uint16 fid out) (\<lambda>out.
               get_each (\<lambda>out a. handle_one_get depth s out (ucast (field_id a)) succeed_if_unset True) out atomics)
           | None \<Rightarrow>
               (case required_fields s (field_id f) of
                  Some data \<Rightarrow>
                    rbind (if \<not> is_subfield then add_uint16 fid out else Inr out) (\<lambda>out.
                    rbind (add_data data out) (\<lambda>out. Inr (True, out)))
                | None \<Rightarrow>
                    (case fv_lookup f (ram_fields s) of
                       Some data \<Rightarrow>
                         rbind (if \<not> is_subfield then add_uint16 fid out else Inr out) (\<lambda>out.
                         rbind (add_data data out) (\<lambda>out. Inr (True, out)))
                     | None \<Rightarrow> Inr (succeed_if_unset, out)))))"

section \<open>Constructors\<close>

definition dobj_new :: "doid \<Rightarrow> dclass \<Rightarrow> bool \<Rightarrow> dobj" where
  "dobj_new me cls synchronized = \<lparr>do_id = me, parent_id = 0, zone_id = 0, do_class = cls,
     required_fields = Map.empty, ram_fields = [], ai_channel = 0, owner_channel = 0,
     ai_explicitly_set = False, parent_synchronized = synchronized, next_context = 0,
     zone_objects = Map.empty, effects = []\<rparr>"

fun unpack_required :: "field list \<Rightarrow> dgi \<Rightarrow> dgi do_op" where
  "unpack_required [] it = sret it"
| "unpack_required (f # fs) it =
     (if has_keyword f ''required'' \<and> as_molecular f = None
      then sbind (required_ref f) (\<lambda>old.
           sbind (slift (unpack_field f it)) (\<lambda>(data, it).
           sseq (supd (\<lambda>s. s\<lparr>required_fields := (required_fields s)(field_id f \<mapsto> old @ data)\<rparr>))
             (unpack_required fs it)))
      else unpack_required fs it)"

text \<open>The OTHER section: an unknown field ends it, one without \<open>ram\<close> is skipped.\<close>

fun unpack_other :: "nat \<Rightarrow> dgi \<Rightarrow> dgi do_op" where
  "unpack_other 0 it = sret it"
| "unpack_other (Suc n) it =
     sbind (slift (read_uint16 it)) (\<lambda>(fid, it).
     sbind (sget do_class) (\<lambda>cls.
     case get_field_by_id cls (ucast fid) of
       None \<Rightarrow> sret it
     | Some f \<Rightarrow>
         if has_keyword f ''ram'' then
           sbind (slift (unpack_field f it)) (\<lambda>(data, it).
           sseq (supd (\<lambda>s. s\<lparr>ram_fields := fv_append f data (ram_fields s)\<rparr>))
             (unpack_other n it))
         else sbind (slift (skip_field f it)) (\<lambda>it. unpack_other n it)))"

definition dobj_generate ::
    "do_env \<Rightarrow> doid \<Rightarrow> doid \<Rightarrow> zone \<Rightarrow> dclass \<Rightarrow> dgi \<Rightarrow> bool \<Rightarrow> unit res \<times> dobj" where
  "dobj_generate env me parent zn cls it has_other =
     sbind (unpack_required (cls_fields cls) it) (\<lambda>it.
     sbind (if has_other
            then sbind (slift (read_uint16 it)) (\<lambda>(count, it). unpack_other (unat count) it)
            else sret it) (\<lambda>it.
     sseq (effect (Subscribe (doid_channel me)))
       (sbind (slift (seek_payload it)) (\<lambda>it.
        sbind (slift (read_channel it)) (\<lambda>(sender, _).
        sseq (handle_location_change env parent zn sender) wake_children)))))
     (dobj_new me cls False)"

text \<open>
  The second constructor, of objects activated from the database; it leaves
  \<open>m_parent_synchronized\<close> uninitialised, so its first value is an argument.
\<close>

definition dobj_activate ::
    "bool \<Rightarrow> do_env \<Rightarrow> channel \<Rightarrow> doid \<Rightarrow> doid \<Rightarrow> zone \<Rightarrow> dclass \<Rightarrow> (u32 \<rightharpoonup> bytes) \<Rightarrow>
     (field \<times> bytes) list \<Rightarrow> unit res \<times> dobj" where
  "dobj_activate synchronized env sender me parent zn cls required ram =
     sseq (effect (Subscribe (doid_channel me)))
       (sseq (handle_location_change env parent zn sender) wake_children)
     ((dobj_new me cls synchronized)\<lparr>required_fields := required, ram_fields := ram\<rparr>)"


section \<open>Messages\<close>

text \<open>One definition per message; the argument is the iterator after the message type.\<close>

definition on_delete_ai_objects :: "do_env \<Rightarrow> channel \<Rightarrow> dgi \<Rightarrow> unit do_op" where
  "on_delete_ai_objects env sender it =
     sbind (slift (read_channel it)) (\<lambda>(c, _).
     sbind (sget ai_channel) (\<lambda>ai. if ai \<noteq> c then sret () else annihilate env sender True))"

definition on_delete_ram :: "do_env \<Rightarrow> channel \<Rightarrow> dgi \<Rightarrow> unit do_op" where
  "on_delete_ram env sender it =
     sbind (slift (read_doid it)) (\<lambda>(d, _).
     sbind (sget do_id) (\<lambda>me. if me \<noteq> d then sret () else annihilate env sender True))"

definition on_delete_children :: "do_env \<Rightarrow> channel \<Rightarrow> dgi \<Rightarrow> unit do_op" where
  "on_delete_children env sender it =
     sbind (slift (read_doid it)) (\<lambda>(d, _).
     sbind (sget id) (\<lambda>s.
     if d = do_id s then delete_children sender
     else if d = parent_id s then annihilate env sender False
     else sret ()))"

definition on_set_field :: "do_env \<Rightarrow> channel \<Rightarrow> dgi \<Rightarrow> unit do_op" where
  "on_set_field env sender it =
     sbind (slift (read_doid it)) (\<lambda>(d, it).
     sbind (sget do_id) (\<lambda>me.
     if me \<noteq> d then sret () else sbind (handle_one_update env it sender) (\<lambda>_. sret ())))"

definition on_set_fields :: "do_env \<Rightarrow> channel \<Rightarrow> dgi \<Rightarrow> unit do_op" where
  "on_set_fields env sender it =
     sbind (slift (read_doid it)) (\<lambda>(d, it).
     sbind (sget do_id) (\<lambda>me.
     if me \<noteq> d then sret ()
     else sbind (slift (read_uint16 it)) (\<lambda>(field_count, it).
          update_loop 65536 env sender 0 field_count it)))"

definition on_changing_ai :: "do_env \<Rightarrow> channel \<Rightarrow> dgi \<Rightarrow> unit do_op" where
  "on_changing_ai env sender it =
     sbind (slift (read_doid it)) (\<lambda>(r_parent_id, it).
     sbind (slift (read_channel it)) (\<lambda>(new_channel, _).
     sbind (sget id) (\<lambda>s.
     if r_parent_id \<noteq> parent_id s then sret ()
     else if ai_explicitly_set s then sret ()
     else handle_ai_change env new_channel sender False)))"

definition on_set_ai :: "do_env \<Rightarrow> channel \<Rightarrow> dgi \<Rightarrow> unit do_op" where
  "on_set_ai env sender it =
     sbind (slift (read_channel it)) (\<lambda>(new_channel, _). handle_ai_change env new_channel sender True)"

definition on_get_ai :: "channel \<Rightarrow> dgi \<Rightarrow> unit do_op" where
  "on_get_ai sender it =
     sbind (slift (read_uint32 it)) (\<lambda>(context, _).
     sbind (sget id) (\<lambda>s.
     send_to sender (doid_channel (do_id s)) STATESERVER_OBJECT_GET_AI_RESP
       [add_uint32 context, add_doid (do_id s), add_channel (ai_channel s)]))"

definition on_get_ai_resp :: "do_env \<Rightarrow> channel \<Rightarrow> dgi \<Rightarrow> unit do_op" where
  "on_get_ai_resp env sender it =
     sbind (slift (read_uint32 it)) (\<lambda>(_, it).
     sbind (slift (read_doid it)) (\<lambda>(r_parent_id, it).
     sbind (sget id) (\<lambda>s.
     if r_parent_id \<noteq> parent_id s then sret ()
     else sbind (slift (read_channel it)) (\<lambda>(new_ai, _).
          if ai_explicitly_set s then sret () else handle_ai_change env new_ai sender False))))"

text \<open>The table of children: an empty zone has no entry.\<close>

definition zone_children :: "(zone \<rightharpoonup> doid set) \<Rightarrow> zone \<Rightarrow> doid set" where
  "zone_children zo z = (case zo z of None \<Rightarrow> {} | Some S \<Rightarrow> S)"

definition insert_child :: "zone \<Rightarrow> doid \<Rightarrow> (zone \<rightharpoonup> doid set) \<Rightarrow> (zone \<rightharpoonup> doid set)" where
  "insert_child z child zo = zo(z \<mapsto> insert child (zone_children zo z))"

definition erase_child :: "zone \<Rightarrow> doid \<Rightarrow> (zone \<rightharpoonup> doid set) \<Rightarrow> (zone \<rightharpoonup> doid set)" where
  "erase_child z child zo =
     (let children = zone_children zo z - {child}
      in if children = {} then zo(z := None) else zo(z \<mapsto> children))"

definition on_changing_location :: "dgi \<Rightarrow> unit do_op" where
  "on_changing_location it =
     sbind (slift (read_doid it)) (\<lambda>(child, it).
     sbind (slift (read_doid it)) (\<lambda>(new_parent, it).
     sbind (slift (read_zone it)) (\<lambda>(new_zone, it).
     sbind (slift (read_doid it)) (\<lambda>(r_do_id, it).
     sbind (slift (read_zone it)) (\<lambda>(r_zone, _).
     sbind (sget do_id) (\<lambda>me.
     if new_parent = me then
       (if me = r_do_id \<and> new_zone = r_zone then sret ()
        else
          sseq (swhen (me = r_do_id) (supd (\<lambda>s. s\<lparr>zone_objects := erase_child r_zone child (zone_objects s)\<rparr>)))
         (sseq (supd (\<lambda>s. s\<lparr>zone_objects := insert_child new_zone child (zone_objects s)\<rparr>))
            (send_to (doid_channel child) (doid_channel me) STATESERVER_OBJECT_LOCATION_ACK
               [add_doid me, add_zone new_zone])))
     else if r_do_id = me then
       supd (\<lambda>s. s\<lparr>zone_objects := erase_child r_zone child (zone_objects s)\<rparr>)
     else sret ()))))))"

definition on_location_ack :: "dgi \<Rightarrow> unit do_op" where
  "on_location_ack it =
     sbind (slift (read_doid it)) (\<lambda>(r_parent_id, it).
     sbind (slift (read_zone it)) (\<lambda>(r_zone_id, _).
     supd (\<lambda>s. if r_parent_id \<noteq> parent_id s then s
                else if r_zone_id \<noteq> zone_id s then s
                else s\<lparr>parent_synchronized := True\<rparr>)))"

definition on_set_location :: "do_env \<Rightarrow> channel \<Rightarrow> dgi \<Rightarrow> unit do_op" where
  "on_set_location env sender it =
     sbind (slift (read_doid it)) (\<lambda>(new_parent, it).
     sbind (slift (read_zone it)) (\<lambda>(new_zone, _). handle_location_change env new_parent new_zone sender))"

definition on_get_location :: "channel \<Rightarrow> dgi \<Rightarrow> unit do_op" where
  "on_get_location sender it =
     sbind (slift (read_uint32 it)) (\<lambda>(context, _).
     sbind (sget id) (\<lambda>s.
     send_to sender (doid_channel (do_id s)) STATESERVER_OBJECT_GET_LOCATION_RESP
       [add_uint32 context, add_doid (do_id s), add_location (parent_id s) (zone_id s)]))"

text \<open>The warning for an unexpected context reads a second number from the message.\<close>

definition on_get_location_resp :: "dgi \<Rightarrow> unit do_op" where
  "on_get_location_resp it =
     sbind (slift (read_uint32 it)) (\<lambda>(context, it).
     if context \<noteq> STATESERVER_CONTEXT_WAKE_CHILDREN
     then sbind (slift (read_uint32 it)) (\<lambda>_. sret ())
     else
       sbind (slift (read_doid it)) (\<lambda>(child, it).
       sbind (slift (read_doid it)) (\<lambda>(r_parent, it).
       sbind (slift (read_zone it)) (\<lambda>(r_zone, _).
       supd (\<lambda>s. if r_parent = do_id s then s\<lparr>zone_objects := insert_child r_zone child (zone_objects s)\<rparr>
                  else s)))))"

definition on_get_all :: "channel \<Rightarrow> dgi \<Rightarrow> unit do_op" where
  "on_get_all sender it =
     sbind (slift (read_uint32 it)) (\<lambda>(context, it).
     sbind (slift (read_doid it)) (\<lambda>(d, _).
     sbind (sget do_id) (\<lambda>me.
     if d \<noteq> me then sret ()
     else
       sbind (slift (rbind (dg_create_server sender (doid_channel me) STATESERVER_OBJECT_GET_ALL_RESP)
          (add_uint32 context))) (\<lambda>dg.
       sbind (append_required_data False False dg) (\<lambda>dg.
       sbind (append_other_data False False dg) route)))))"

definition on_get_field :: "channel \<Rightarrow> dgi \<Rightarrow> unit do_op" where
  "on_get_field sender it =
     sbind (slift (read_uint32 it)) (\<lambda>(context, it).
     sbind (slift (read_doid it)) (\<lambda>(d, it).
     sbind (sget id) (\<lambda>s.
     if d \<noteq> do_id s then sret ()
     else
       sbind (slift (read_uint16 it)) (\<lambda>(fid, _).
       sbind (slift (handle_one_get 2 s dg_create fid False False)) (\<lambda>(success, raw_field).
       send_to sender (doid_channel (do_id s)) STATESERVER_OBJECT_GET_FIELD_RESP
         ([add_uint32 context, add_bool success] @ (if success then [add_data_dg raw_field] else [])))))))"

fun read_field_ids :: "nat \<Rightarrow> dgi \<Rightarrow> (u16 list \<times> dgi) res" where
  "read_field_ids 0 it = Inr ([], it)"
| "read_field_ids (Suc n) it =
     rbind (read_uint16 it) (\<lambda>(i, it). rbind (read_field_ids n it) (\<lambda>(is, it). Inr (i # is, it)))"

text \<open>The loop over the requested fields, in increasing order: success, count and the output.\<close>

fun get_requested :: "dobj \<Rightarrow> u16 list \<Rightarrow> u16 \<Rightarrow> datagram \<Rightarrow> (bool \<times> u16 \<times> datagram) res" where
  "get_requested s [] found raw = Inr (True, found, raw)"
| "get_requested s (fid # fids) found raw =
     rbind (handle_one_get 2 s raw fid True False) (\<lambda>(ok, raw').
     if \<not> ok then Inr (False, found, raw')
     else get_requested s fids (if dg_size raw' > dg_size raw then found + 1 else found) raw')"

definition on_get_fields :: "channel \<Rightarrow> dgi \<Rightarrow> unit do_op" where
  "on_get_fields sender it =
     sbind (slift (read_uint32 it)) (\<lambda>(context, it).
     sbind (slift (read_doid it)) (\<lambda>(d, it).
     sbind (sget id) (\<lambda>s.
     if d \<noteq> do_id s then sret ()
     else
       sbind (slift (read_uint16 it)) (\<lambda>(field_count, it).
       sbind (slift (read_field_ids (unat field_count) it)) (\<lambda>(ids, _).
       sbind (slift (get_requested s (sort (remdups ids)) 0 dg_create)) (\<lambda>(success, found, raw).
       send_to sender (doid_channel (do_id s)) STATESERVER_OBJECT_GET_FIELDS_RESP
         ([add_uint32 context, add_bool success]
          @ (if success then [add_uint16 found, add_data_dg raw] else []))))))))"

definition on_set_owner :: "channel \<Rightarrow> dgi \<Rightarrow> unit do_op" where
  "on_set_owner sender it =
     sbind (slift (read_channel it)) (\<lambda>(new_owner, _).
     sbind (sget id) (\<lambda>s.
     if new_owner = owner_channel s then sret ()
     else
       sseq (swhen (owner_channel s \<noteq> 0)
         (send_to (owner_channel s) sender STATESERVER_OBJECT_CHANGING_OWNER
            [add_doid (do_id s), add_channel new_owner, add_channel (owner_channel s)]))
      (sseq (supd (\<lambda>s. s\<lparr>owner_channel := new_owner\<rparr>))
            (swhen (new_owner \<noteq> 0) (send_owner_entry new_owner)))))"

text \<open>The relayed query: look for our zone among the next \<open>n\<close>, stopping where it is found.\<close>

fun find_zone :: "nat \<Rightarrow> zone \<Rightarrow> dgi \<Rightarrow> bool res" where
  "find_zone 0 z it = Inr False"
| "find_zone (Suc n) z it = rbind (read_zone it) (\<lambda>(z', it). if z' = z then Inr True else find_zone n z it)"

text \<open>
  The parent's loop. \<open>m_zone_objects[zone]\<close> makes an entry for a zone that has none.
\<close>

fun count_zones :: "nat \<Rightarrow> dgi \<Rightarrow> u32 \<Rightarrow> datagram \<Rightarrow> (u32 \<times> datagram) do_op" where
  "count_zones 0 it child_count child_dg = sret (child_count, child_dg)"
| "count_zones (Suc n) it child_count child_dg =
     sbind (slift (read_zone it)) (\<lambda>(z, it).
     sbind (sget (\<lambda>s. zone_children (zone_objects s) z)) (\<lambda>children.
     sseq (supd (\<lambda>s. s\<lparr>zone_objects := (zone_objects s)(z \<mapsto> children)\<rparr>))
       (sbind (slift (add_zone z child_dg)) (\<lambda>child_dg.
        count_zones n it (child_count + word_of_nat (card children)) child_dg))))"

definition on_get_zones_objects :: "channel \<Rightarrow> u16 \<Rightarrow> dgi \<Rightarrow> unit do_op" where
  "on_get_zones_objects sender msgtype it =
     sbind (slift (read_uint32 it)) (\<lambda>(context, it).
     sbind (slift (read_doid it)) (\<lambda>(queried_parent, it).
     sbind (slift (if msgtype = STATESERVER_OBJECT_GET_ZONES_OBJECTS then read_uint16 it else Inr (1, it)))
       (\<lambda>(zone_count, it).
     sbind (sget id) (\<lambda>s.
     if queried_parent = parent_id s then
       sbind (slift (find_zone (unat zone_count) (zone_id s) it)) (\<lambda>found.
       swhen found (if parent_synchronized s then send_interest_entry sender context
                    else send_location_entry sender))
     else if queried_parent = do_id s then
       sbind (slift (rbind (dg_create_server (parent_to_children (do_id s)) sender STATESERVER_OBJECT_GET_ZONES_OBJECTS)
          (add_all [add_uint32 context, add_doid queried_parent, add_uint16 zone_count]))) (\<lambda>child_dg.
       sbind (count_zones (unat zone_count) it 0 child_dg) (\<lambda>(child_count, child_dg).
       sseq (send_to sender (doid_channel (do_id s)) STATESERVER_OBJECT_GET_ZONES_COUNT_RESP
               [add_uint32 context, add_doid child_count])
            (swhen (child_count > 0) (route child_dg))))
     else sret ()))))"

definition on_get_active_zones :: "do_env \<Rightarrow> channel \<Rightarrow> dgi \<Rightarrow> unit do_op" where
  "on_get_active_zones env sender it =
     sbind (slift (read_uint32 it)) (\<lambda>(context, _).
     sbind (sget id) (\<lambda>s.
     let keys = dom (zone_objects s) in
     send_to sender (doid_channel (do_id s)) STATESERVER_GET_ACTIVE_ZONES_RESP
       ([add_uint32 context, add_uint16 (word_of_nat (card keys))] @ map add_zone (zone_order env keys))))"

definition do_dispatch :: "do_env \<Rightarrow> channel \<Rightarrow> u16 \<Rightarrow> dgi \<Rightarrow> unit do_op" where
  "do_dispatch env sender msgtype it =
     (if msgtype = STATESERVER_DELETE_AI_OBJECTS then on_delete_ai_objects env sender it
      else if msgtype = STATESERVER_OBJECT_DELETE_RAM then on_delete_ram env sender it
      else if msgtype = STATESERVER_OBJECT_DELETE_CHILDREN then on_delete_children env sender it
      else if msgtype = STATESERVER_OBJECT_SET_FIELD then on_set_field env sender it
      else if msgtype = STATESERVER_OBJECT_SET_FIELDS then on_set_fields env sender it
      else if msgtype = STATESERVER_OBJECT_CHANGING_AI then on_changing_ai env sender it
      else if msgtype = STATESERVER_OBJECT_SET_AI then on_set_ai env sender it
      else if msgtype = STATESERVER_OBJECT_GET_AI then on_get_ai sender it
      else if msgtype = STATESERVER_OBJECT_GET_AI_RESP then on_get_ai_resp env sender it
      else if msgtype = STATESERVER_OBJECT_CHANGING_LOCATION then on_changing_location it
      else if msgtype = STATESERVER_OBJECT_LOCATION_ACK then on_location_ack it
      else if msgtype = STATESERVER_OBJECT_SET_LOCATION then on_set_location env sender it
      else if msgtype = STATESERVER_OBJECT_GET_LOCATION then on_get_location sender it
      else if msgtype = STATESERVER_OBJECT_GET_LOCATION_RESP then on_get_location_resp it
      else if msgtype = STATESERVER_OBJECT_GET_ALL then on_get_all sender it
      else if msgtype = STATESERVER_OBJECT_GET_FIELD then on_get_field sender it
      else if msgtype = STATESERVER_OBJECT_GET_FIELDS then on_get_fields sender it
      else if msgtype = STATESERVER_OBJECT_SET_OWNER then on_set_owner sender it
      else if msgtype = STATESERVER_OBJECT_GET_ZONE_OBJECTS \<or> msgtype = STATESERVER_OBJECT_GET_ZONES_OBJECTS
      then on_get_zones_objects sender msgtype it
      else if msgtype = STATESERVER_GET_ACTIVE_ZONES then on_get_active_zones env sender it
      else sret ())"

definition do_handle_datagram :: "do_env \<Rightarrow> dgi \<Rightarrow> unit do_op" where
  "do_handle_datagram env it =
     sbind (slift (read_channel it)) (\<lambda>(sender, it).
     sbind (slift (read_uint16 it)) (\<lambda>(msgtype, it). do_dispatch env sender msgtype it))"

end
