(* ===== verification/State_Server.thy ===== *)
theory State_Server
  imports Distributed_Object
begin

text \<open>
  The state server itself (\<open>stateserver/StateServer.cpp\<close>): the table of its objects, the
  creation of objects and the deletion of those of an AI. \<open>classes\<close> is the lookup
  \<open>g_dcf->get_class_by_id\<close>.
\<close>

record ss =
  ss_objs :: "doid \<rightharpoonup> dobj"
  ss_routed :: "datagram list"

type_synonym 'a ss_op = "(ss, 'a) sm"

definition ss_route :: "datagram \<Rightarrow> unit ss_op" where
  "ss_route dg = supd (\<lambda>s. s\<lparr>ss_routed := ss_routed s @ [dg]\<rparr>)"

text \<open>
  A truncated message is caught and no object results; any other exception of the constructor
  escapes.
\<close>

definition handle_generate :: "do_env \<Rightarrow> (u16 \<Rightarrow> dclass option) \<Rightarrow> dgi \<Rightarrow> bool \<Rightarrow> unit ss_op" where
  "handle_generate env classes it has_other =
     sbind (slift (read_doid it)) (\<lambda>(me, it).
     sbind (slift (read_doid it)) (\<lambda>(parent, it).
     sbind (slift (read_zone it)) (\<lambda>(zn, it).
     sbind (slift (read_uint16 it)) (\<lambda>(dc_id, it).
     sbind (sget ss_objs) (\<lambda>objs.
     if objs me \<noteq> None then sret ()
     else
       (case classes dc_id of
          None \<Rightarrow> sret ()
        | Some cls \<Rightarrow>
            (case dobj_generate env me parent zn cls it has_other of
               (Inr _, obj) \<Rightarrow> supd (\<lambda>s. s\<lparr>ss_objs := (ss_objs s)(me \<mapsto> obj)\<rparr>)
             | (Inl e, _) \<Rightarrow> if e = DatagramIteratorEOF then sret () else sthrow e)))))))"

definition ai_objects :: "channel \<Rightarrow> (doid \<rightharpoonup> dobj) \<Rightarrow> doid set" where
  "ai_objects ai objs =
     {do_id obj | d obj. objs d = Some obj \<and> ai_channel obj = ai \<and> ai_explicitly_set obj}"

definition handle_delete_ai :: "do_env \<Rightarrow> dgi \<Rightarrow> channel \<Rightarrow> unit ss_op" where
  "handle_delete_ai env it sender =
     sbind (slift (read_channel it)) (\<lambda>(ai, _).
     sbind (sget (\<lambda>s. (\<lambda>d. doid_channel d) ` ai_objects ai (ss_objs s))) (\<lambda>targets.
     swhen (targets \<noteq> {})
       (sbind (slift (rbind (dg_create_server_set (target_order env targets) sender STATESERVER_DELETE_AI_OBJECTS)
          (add_channel ai))) ss_route)))"

definition ss_handle_datagram :: "do_env \<Rightarrow> (u16 \<Rightarrow> dclass option) \<Rightarrow> dgi \<Rightarrow> unit ss_op" where
  "ss_handle_datagram env classes it =
     sbind (slift (read_channel it)) (\<lambda>(sender, it).
     sbind (slift (read_uint16 it)) (\<lambda>(msgtype, it).
     if msgtype = STATESERVER_CREATE_OBJECT_WITH_REQUIRED then handle_generate env classes it False
     else if msgtype = STATESERVER_CREATE_OBJECT_WITH_REQUIRED_OTHER then handle_generate env classes it True
     else if msgtype = STATESERVER_DELETE_AI_OBJECTS then handle_delete_ai env it sender
     else sret ()))"


text \<open>
  The director hands a datagram to an object of the table: what the object does to itself, and
  the erasure of its table entry in \<open>annihilate\<close>.
\<close>

definition ss_object_datagram :: "do_env \<Rightarrow> doid \<Rightarrow> dgi \<Rightarrow> unit ss_op" where
  "ss_object_datagram env d it = (\<lambda>s.
     case ss_objs s d of
       None \<Rightarrow> (Inr (), s)
     | Some obj \<Rightarrow>
         (case do_handle_datagram env it (obj\<lparr>effects := []\<rparr>) of (r, obj') \<Rightarrow>
            (r, s\<lparr>ss_objs := (if EraseObject (do_id obj) \<in> set (effects obj')
                              then (ss_objs s)(do_id obj := None) else (ss_objs s)(d \<mapsto> obj')),
                  ss_routed := ss_routed s @ List.map_filter (\<lambda>e. case e of Route dg \<Rightarrow> Some dg | _ \<Rightarrow> None)
                    (effects obj')\<rparr>)))"

end
