(* ===== verification/DB_State_Server.thy ===== *)
theory DB_State_Server
  imports State_Server
begin

text \<open>
  The database state server (\<open>stateserver/DBStateServer.cpp\<close>) and the loaders it spawns
  (\<open>stateserver/LoadingObject.cpp\<close>): queries for objects that are not active are turned into
  database queries and the answers into responses; an activation asks the database for the
  object, holds back what arrives for it meanwhile, and replays it to the finished object.
  What server and loaders do to the rest of the program is the sequence \<open>dbss_log\<close>. A loader
  is part of the server's state until \<open>finalize\<close> discards it; after that it ignores everything.
  Its maps of required and ram values are filled and used in one message, so they are local
  here. Log lines and connection names are left out.
\<close>

section \<open>State\<close>

datatype dbss_effect =
    DbssRoute datagram
  | LoaderSubscribe doid
  | LoaderRoute doid datagram
  | LoaderTerminate doid
  | ObjectEffect doid do_effect

record loader =
  ld_parent :: doid
  ld_zone :: zone
  ld_context :: u32
  ld_class :: "dclass option"
  field_updates :: "u32 \<rightharpoonup> bytes"
  valid_contexts :: "u32 set"
  datagram_queue :: "datagram list"
  is_loaded :: bool

record dbss =
  dbss_objs :: "doid \<rightharpoonup> dobj"
  loading :: "doid \<rightharpoonup> loader"
  db_next_context :: u32
  context_datagrams :: "u32 \<rightharpoonup> datagram"
  inactive_loads :: "doid \<rightharpoonup> u32 set"
  dbss_log :: "dbss_effect list"

text \<open>
  The configuration and the dclass file: \<open>num_types\<close>, \<open>class_by_id\<close> and \<open>field_by_id\<close> are
  \<open>g_dcf->get_num_types\<close>, \<open>get_class_by_id\<close> and \<open>get_field_by_id\<close>. \<open>uninitialised\<close> is what
  the flag that \<open>DistributedObject\<close>'s second constructor leaves out happens to hold.
\<close>

record dbss_env =
  object_env :: do_env
  db_channel :: channel
  num_types :: nat
  class_by_id :: "u16 \<Rightarrow> dclass option"
  field_by_id :: "u16 \<Rightarrow> field option"
  uninitialised :: bool

type_synonym 'a dbss_op = "(dbss, 'a) sm"

definition dbss_effect :: "dbss_effect \<Rightarrow> unit dbss_op" where
  "dbss_effect e = supd (\<lambda>s. s\<lparr>dbss_log := dbss_log s @ [e]\<rparr>)"

definition dbss_route :: "datagram \<Rightarrow> unit dbss_op" where
  "dbss_route dg = dbss_effect (DbssRoute dg)"

text \<open>Create a message, fill it in, route it.\<close>

definition dbss_send :: "channel \<Rightarrow> channel \<Rightarrow> u16 \<Rightarrow> (datagram \<Rightarrow> datagram res) list \<Rightarrow> unit dbss_op" where
  "dbss_send target sender msgtype body =
     sbind (slift (rbind (dg_create_server target sender msgtype) (add_all body))) dbss_route"

definition is_expected_context :: "dbss \<Rightarrow> u32 \<Rightarrow> bool" where
  "is_expected_context s c \<longleftrightarrow> context_datagrams s c \<noteq> None"

definition is_activated_object :: "dbss \<Rightarrow> doid \<Rightarrow> bool" where
  "is_activated_object s d \<longleftrightarrow> dbss_objs s d \<noteq> None \<or> loading s d \<noteq> None"

text \<open>\<open>m_next_context++\<close>\<close>

definition take_context :: "u32 dbss_op" where
  "take_context = (\<lambda>s. (Inr (db_next_context s), s\<lparr>db_next_context := db_next_context s + 1\<rparr>))"

section \<open>Activation\<close>

text \<open>\<open>values[field]\<close> of an unordered map as the target of an append.\<close>

definition map_append :: "field \<Rightarrow> bytes \<Rightarrow> (u32 \<rightharpoonup> bytes) \<Rightarrow> (u32 \<rightharpoonup> bytes)" where
  "map_append f data m =
     m(field_id f \<mapsto> (case m (field_id f) of None \<Rightarrow> [] | Some old \<Rightarrow> old) @ data)"

text \<open>
  The OTHER section of an activation. A field that is neither required nor ram is reported but
  its value is not skipped; the class pointer may be null.
\<close>

fun read_updates :: "nat \<Rightarrow> dclass option \<Rightarrow> dgi \<Rightarrow> (u32 \<rightharpoonup> bytes) \<Rightarrow> (u32 \<rightharpoonup> bytes) res" where
  "read_updates 0 cls it ups = Inr ups"
| "read_updates (Suc n) cls it ups =
     rbind (read_uint16 it) (\<lambda>(fid, it).
     case cls of
       None \<Rightarrow> Inl DanglingReference
     | Some c \<Rightarrow>
         (case get_field_by_id c (ucast fid) of
            None \<Rightarrow> Inr ups
          | Some f \<Rightarrow>
              if has_keyword f ''ram'' \<or> has_keyword f ''required''
              then rbind (unpack_field f it) (\<lambda>(data, it). read_updates n cls it (map_append f data ups))
              else read_updates n cls it ups))"

text \<open>The two constructors of \<open>LoadingObject\<close>.\<close>

definition loader_new :: "doid \<Rightarrow> doid \<Rightarrow> zone \<Rightarrow> u32 set \<Rightarrow> loader dbss_op" where
  "loader_new d parent zn contexts =
     sbind take_context (\<lambda>c.
     sseq (dbss_effect (LoaderSubscribe d))
       (sret \<lparr>ld_parent = parent, ld_zone = zn, ld_context = c, ld_class = None, field_updates = Map.empty,
          valid_contexts = contexts, datagram_queue = [], is_loaded = False\<rparr>))"

definition loader_new_other ::
    "doid \<Rightarrow> doid \<Rightarrow> zone \<Rightarrow> dclass option \<Rightarrow> dgi \<Rightarrow> u32 set \<Rightarrow> loader dbss_op" where
  "loader_new_other d parent zn cls it contexts =
     sbind take_context (\<lambda>c.
     sseq (dbss_effect (LoaderSubscribe d))
       (sbind (slift (read_uint16 it)) (\<lambda>(field_count, it).
        sbind (slift (read_updates (unat field_count) cls it Map.empty)) (\<lambda>ups.
        sret \<lparr>ld_parent = parent, ld_zone = zn, ld_context = c, ld_class = cls, field_updates = ups,
          valid_contexts = contexts, datagram_queue = [], is_loaded = False\<rparr>))))"

text \<open>\<open>begin\<close> with \<open>send_get_object\<close>.\<close>

definition loader_begin :: "dbss_env \<Rightarrow> doid \<Rightarrow> loader \<Rightarrow> unit dbss_op" where
  "loader_begin env d ld =
     (if valid_contexts ld = {}
      then sbind (slift (rbind (dg_create_server (db_channel env) (doid_channel d) DBSERVER_OBJECT_GET_ALL)
             (add_all [add_uint32 (ld_context ld), add_doid d]))) (\<lambda>dg. dbss_effect (LoaderRoute d dg))
      else sret ())"

text \<open>
  Store the loader; \<open>begin\<close> is called only where no queries for the inactive object are under
  way.
\<close>

definition start_loader :: "dbss_env \<Rightarrow> doid \<Rightarrow> (u32 set \<Rightarrow> loader dbss_op) \<Rightarrow> unit dbss_op" where
  "start_loader env d spawn =
     sbind (sget (\<lambda>s. inactive_loads s d)) (\<lambda>inactive.
     sbind (spawn (case inactive of None \<Rightarrow> {} | Some cs \<Rightarrow> cs)) (\<lambda>ld.
     sseq (supd (\<lambda>s. s\<lparr>loading := (loading s)(d \<mapsto> ld)\<rparr>))
       (if inactive = None then loader_begin env d ld else sret ())))"

definition handle_activate :: "dbss_env \<Rightarrow> dgi \<Rightarrow> bool \<Rightarrow> unit dbss_op" where
  "handle_activate env it has_other =
     sbind (slift (read_doid it)) (\<lambda>(d, it).
     sbind (slift (read_doid it)) (\<lambda>(parent, it).
     sbind (slift (read_zone it)) (\<lambda>(zn, it).
     sbind (sget (\<lambda>s. is_activated_object s d)) (\<lambda>active.
     if active then sret ()
     else if \<not> has_other then start_loader env d (loader_new d parent zn)
     else
       sbind (slift (read_uint16 it)) (\<lambda>(dc_id, it).
       if num_types env \<le> unat dc_id then sret ()
       else start_loader env d (loader_new_other d parent zn (class_by_id env dc_id) it))))))"

definition handle_get_activated :: "channel \<Rightarrow> dgi \<Rightarrow> unit dbss_op" where
  "handle_get_activated sender it =
     sbind (slift (read_uint32 it)) (\<lambda>(r_context, it).
     sbind (slift (read_doid it)) (\<lambda>(d, it).
     sbind (sget id) (\<lambda>s.
     if loading s d \<noteq> None then sret ()
     else dbss_send sender (doid_channel d) DBSS_OBJECT_GET_ACTIVATED_RESP
            [add_uint32 r_context, add_doid d, add_bool (dbss_objs s d \<noteq> None)])))"

section \<open>Deletion and updates of stored objects\<close>

definition delete_disk_targets :: "dobj \<Rightarrow> channel set" where
  "delete_disk_targets obj =
     when_set (location_as_channel (parent_id obj) (zone_id obj)) \<union> when_set (ai_channel obj)
     \<union> when_set (owner_channel obj)"

definition handle_delete_disk :: "dbss_env \<Rightarrow> channel \<Rightarrow> dgi \<Rightarrow> unit dbss_op" where
  "handle_delete_disk env sender it =
     sbind (slift (read_doid it)) (\<lambda>(d, _).
     sbind (sget id) (\<lambda>s.
     if loading s d \<noteq> None then sret ()
     else
       sseq (case dbss_objs s d of
               None \<Rightarrow> sret ()
             | Some obj \<Rightarrow>
                 sbind (slift (rbind (dg_create_server_set (target_order (object_env env) (delete_disk_targets obj))
                    sender DBSS_OBJECT_DELETE_DISK) (add_doid d))) dbss_route)
         (dbss_send (db_channel env) (doid_channel d) DBSERVER_OBJECT_DELETE [add_doid d])))"

definition dbss_set_field :: "dbss_env \<Rightarrow> dgi \<Rightarrow> unit dbss_op" where
  "dbss_set_field env it =
     sbind (slift (read_doid it)) (\<lambda>(d, it).
     sbind (sget (\<lambda>s. loading s d)) (\<lambda>ld.
     if ld \<noteq> None then sret ()
     else
       sbind (slift (read_uint16 it)) (\<lambda>(fid, it).
       case field_by_id env fid of
         None \<Rightarrow> sret ()
       | Some f \<Rightarrow>
           swhen (has_keyword f ''db'')
             (sbind (slift (rbind (dg_create_server (db_channel env) (doid_channel d) DBSERVER_OBJECT_SET_FIELD)
                (add_all [add_doid d, add_uint16 fid]))) (\<lambda>dg.
              sbind (slift (read_remainder it)) (\<lambda>(data, _).
              sbind (slift (add_data data dg)) dbss_route))))))"

text \<open>The fields of \<open>SET_FIELDS\<close> that are stored; \<open>None\<close> after an unknown field.\<close>

fun read_db_fields :: "dbss_env \<Rightarrow> nat \<Rightarrow> dgi \<Rightarrow> field_values \<Rightarrow> field_values option res" where
  "read_db_fields env 0 it acc = Inr (Some acc)"
| "read_db_fields env (Suc n) it acc =
     rbind (read_uint16 it) (\<lambda>(fid, it).
     case field_by_id env fid of
       None \<Rightarrow> Inr None
     | Some f \<Rightarrow>
         if has_keyword f ''db''
         then rbind (unpack_field f it) (\<lambda>(data, it). read_db_fields env n it (fv_append f data acc))
         else rbind (skip_field f it) (\<lambda>it. read_db_fields env n it acc))"

definition dbss_set_fields :: "dbss_env \<Rightarrow> dgi \<Rightarrow> unit dbss_op" where
  "dbss_set_fields env it =
     sbind (slift (read_doid it)) (\<lambda>(d, it).
     sbind (sget (\<lambda>s. loading s d)) (\<lambda>ld.
     if ld \<noteq> None then sret ()
     else
       sbind (slift (read_uint16 it)) (\<lambda>(field_count, it).
       sbind (slift (read_db_fields env (unat field_count) it [])) (\<lambda>vals.
       case vals of
         None \<Rightarrow> sret ()
       | Some kvs \<Rightarrow>
           swhen (kvs \<noteq> [])
             (dbss_send (db_channel env) (doid_channel d) DBSERVER_OBJECT_SET_FIELDS
                [add_doid d, add_uint16 (word_of_nat (length kvs)), append_values kvs])))))"

section \<open>Queries for inactive objects\<close>

definition get_field_failed :: "channel \<Rightarrow> doid \<Rightarrow> u32 \<Rightarrow> unit dbss_op" where
  "get_field_failed sender d r_context =
     dbss_send sender (doid_channel d) STATESERVER_OBJECT_GET_FIELD_RESP [add_uint32 r_context, add_bool False]"

definition dbss_get_field :: "dbss_env \<Rightarrow> channel \<Rightarrow> dgi \<Rightarrow> unit dbss_op" where
  "dbss_get_field env sender it =
     sbind (slift (read_uint32 it)) (\<lambda>(r_context, it).
     sbind (slift (read_doid it)) (\<lambda>(d, it).
     sbind (slift (read_uint16 it)) (\<lambda>(fid, _).
     sbind (sget (\<lambda>s. is_activated_object s d)) (\<lambda>active.
     if active then sret ()
     else case field_by_id env fid of
       None \<Rightarrow> get_field_failed sender d r_context
     | Some f \<Rightarrow>
         if \<not> (has_keyword f ''required'' \<or> has_keyword f ''ram'') then get_field_failed sender d r_context
         else if has_keyword f ''db'' then
           sbind take_context (\<lambda>c.
           sbind (slift (rbind (dg_create_server sender (doid_channel d) STATESERVER_OBJECT_GET_FIELD_RESP)
              (add_uint32 r_context))) (\<lambda>resp.
           sseq (supd (\<lambda>s. s\<lparr>context_datagrams := (context_datagrams s)(c \<mapsto> resp)\<rparr>))
             (dbss_send (db_channel env) (doid_channel d) DBSERVER_OBJECT_GET_FIELD
                [add_uint32 c, add_doid d, add_uint16 fid])))
         else if field_has_default f then
           dbss_send sender (doid_channel d) STATESERVER_OBJECT_GET_FIELD_RESP
             [add_uint32 r_context, add_bool True, add_uint16 fid, add_data (field_default f)]
         else get_field_failed sender d r_context))))"

text \<open>
  \<open>m_context_datagrams[db_context]->add...\<close>: the stored datagram grows in place, so what was
  added before an overflow stays.
\<close>

definition context_add :: "u32 \<Rightarrow> (datagram \<Rightarrow> datagram res) \<Rightarrow> unit dbss_op" where
  "context_add c add =
     sbind (sget (\<lambda>s. context_datagrams s c)) (\<lambda>o_dg.
     case o_dg of
       None \<Rightarrow> sthrow DanglingReference
     | Some dg \<Rightarrow> sbind (slift (add dg)) (\<lambda>dg'.
         supd (\<lambda>s. s\<lparr>context_datagrams := (context_datagrams s)(c \<mapsto> dg')\<rparr>)))"

fun context_add_all :: "u32 \<Rightarrow> (datagram \<Rightarrow> datagram res) list \<Rightarrow> unit dbss_op" where
  "context_add_all c [] = sret ()"
| "context_add_all c (a # as) = sseq (context_add c a) (context_add_all c as)"

definition default_adds :: "field list \<Rightarrow> (datagram \<Rightarrow> datagram res) list" where
  "default_adds fs = concat (map (\<lambda>f. [add_uint16 (ucast (field_id f)), add_data (field_default f)]) fs)"

text \<open>
  The loop over the requested fields: the required or ram fields that are stored in the
  database and those that are not. For an unknown field the failure is sent and the loop goes
  on.
\<close>

fun sort_requested ::
    "dbss_env \<Rightarrow> channel \<Rightarrow> doid \<Rightarrow> u32 \<Rightarrow> nat \<Rightarrow> dgi \<Rightarrow> field list \<Rightarrow> field list \<Rightarrow> (field list \<times> field list) dbss_op" where
  "sort_requested env sender d r_context 0 it db ram = sret (db, ram)"
| "sort_requested env sender d r_context (Suc n) it db ram =
     sbind (slift (read_uint16 it)) (\<lambda>(fid, it).
     case field_by_id env fid of
       None \<Rightarrow>
         sseq (dbss_send sender (doid_channel d) STATESERVER_OBJECT_GET_FIELDS_RESP [add_uint32 r_context, add_uint8 0])
           (sort_requested env sender d r_context n it db ram)
     | Some f \<Rightarrow>
         if has_keyword f ''ram'' \<or> has_keyword f ''required'' then
           (if has_keyword f ''db'' then sort_requested env sender d r_context n it (db @ [f]) ram
            else sort_requested env sender d r_context n it db (ram @ [f]))
         else sort_requested env sender d r_context n it db ram)"

definition dbss_get_fields :: "dbss_env \<Rightarrow> channel \<Rightarrow> dgi \<Rightarrow> unit dbss_op" where
  "dbss_get_fields env sender it =
     sbind (slift (read_uint32 it)) (\<lambda>(r_context, it).
     sbind (slift (read_doid it)) (\<lambda>(d, it).
     sbind (slift (read_uint16 it)) (\<lambda>(field_count, it).
     sbind (sget (\<lambda>s. is_activated_object s d)) (\<lambda>active.
     if active then sret ()
     else
       sbind (sort_requested env sender d r_context (unat field_count) it [] []) (\<lambda>(db, ram).
       if db \<noteq> [] then
         sbind take_context (\<lambda>c.
         sbind (sget (\<lambda>s. context_datagrams s c)) (\<lambda>old.
         sseq (if old = None
               then sbind (slift (dg_create_server sender (doid_channel d) STATESERVER_OBJECT_GET_FIELDS_RESP))
                      (\<lambda>dg. supd (\<lambda>s. s\<lparr>context_datagrams := (context_datagrams s)(c \<mapsto> dg)\<rparr>))
               else sret ())
        (sseq (context_add_all c ([add_uint32 r_context, add_bool True,
                add_uint16 (word_of_nat (length ram + length db))] @ default_adds ram))
              (dbss_send (db_channel env) (doid_channel d) DBSERVER_OBJECT_GET_FIELDS
                ([add_uint32 c, add_doid d, add_uint16 (word_of_nat (length db))]
                 @ map (\<lambda>f. add_uint16 (ucast (field_id f))) db)))))
       else
         dbss_send sender (doid_channel d) STATESERVER_OBJECT_GET_FIELDS_RESP
           ([add_uint32 r_context, add_bool True, add_uint16 (word_of_nat (length ram))] @ default_adds ram))))))"

definition dbss_get_all :: "dbss_env \<Rightarrow> channel \<Rightarrow> dgi \<Rightarrow> unit dbss_op" where
  "dbss_get_all env sender it =
     sbind (slift (read_uint32 it)) (\<lambda>(r_context, it).
     sbind (slift (read_doid it)) (\<lambda>(d, _).
     sbind (sget (\<lambda>s. is_activated_object s d)) (\<lambda>active.
     if active then sret ()
     else
       sbind take_context (\<lambda>c.
       sbind (slift (rbind (dg_create_server sender (doid_channel d) STATESERVER_OBJECT_GET_ALL_RESP)
          (add_all [add_uint32 r_context, add_doid d, add_channel 0]))) (\<lambda>resp.
       sseq (supd (\<lambda>s. s\<lparr>context_datagrams := (context_datagrams s)(c \<mapsto> resp),
               inactive_loads := (inactive_loads s)(d \<mapsto>
                 insert c (case inactive_loads s d of None \<Rightarrow> {} | Some cs \<Rightarrow> cs))\<rparr>))
         (dbss_send (db_channel env) (doid_channel d) DBSERVER_OBJECT_GET_ALL [add_uint32 c, add_doid d]))))))"

section \<open>Answers of the database\<close>

text \<open>
  What the three answer handlers share: an expected context is forgotten, and the answer is
  used only when the datagram kept for it is of the right type.
\<close>

definition expected_response ::
    "u16 \<Rightarrow> dgi \<Rightarrow> (u32 \<Rightarrow> datagram \<Rightarrow> dgi \<Rightarrow> unit dbss_op) \<Rightarrow> unit dbss_op" where
  "expected_response resp_type it body =
     sbind (slift (read_uint32 it)) (\<lambda>(c, it).
     sbind (sget (\<lambda>s. context_datagrams s c)) (\<lambda>o_dg.
     case o_dg of
       None \<Rightarrow> sret ()
     | Some dg \<Rightarrow>
         sseq (supd (\<lambda>s. s\<lparr>context_datagrams := (context_datagrams s)(c := None)\<rparr>))
           (sbind (slift (rbind (dgi_new dg 0) get_msg_type)) (\<lambda>(t, _).
            if t \<noteq> resp_type then sret () else body c dg it))))"

definition handle_get_field_resp :: "dgi \<Rightarrow> unit dbss_op" where
  "handle_get_field_resp it =
     expected_response STATESERVER_OBJECT_GET_FIELD_RESP it (\<lambda>c dg it.
       sbind (slift (read_remainder it)) (\<lambda>(data, _).
       sbind (slift (add_data data dg)) dbss_route))"

definition handle_get_fields_resp :: "dgi \<Rightarrow> unit dbss_op" where
  "handle_get_fields_resp it =
     expected_response STATESERVER_OBJECT_GET_FIELDS_RESP it (\<lambda>c dg it.
       sbind (slift (read_bool it)) (\<lambda>(success, it).
       if success then
         sbind (slift (read_uint16 it)) (\<lambda>(_, it).
         sbind (slift (read_remainder it)) (\<lambda>(data, _).
         sbind (slift (add_data data dg)) dbss_route))
       else dbss_route dg))"

text \<open>\<open>unpack_db_fields\<close>: the flag is the returned value; the class pointer may be null.\<close>

fun unpack_db_loop ::
    "nat \<Rightarrow> dclass option \<Rightarrow> dgi \<Rightarrow> (u32 \<rightharpoonup> bytes) \<Rightarrow> field_values \<Rightarrow> (bool \<times> (u32 \<rightharpoonup> bytes) \<times> field_values) res" where
  "unpack_db_loop 0 cls it required ram = Inr (True, required, ram)"
| "unpack_db_loop (Suc n) cls it required ram =
     rbind (read_uint16 it) (\<lambda>(fid, it).
     case cls of
       None \<Rightarrow> Inl DanglingReference
     | Some c \<Rightarrow>
         (case get_field_by_id c (ucast fid) of
            None \<Rightarrow> Inr (False, required, ram)
          | Some f \<Rightarrow>
              if has_keyword f ''required''
              then rbind (unpack_field f it) (\<lambda>(data, it). unpack_db_loop n cls it (map_append f data required) ram)
              else if has_keyword f ''ram''
              then rbind (unpack_field f it) (\<lambda>(data, it). unpack_db_loop n cls it required (fv_append f data ram))
              else rbind (skip_field f it) (\<lambda>it. unpack_db_loop n cls it required ram)))"

definition unpack_db_fields :: "dclass option \<Rightarrow> dgi \<Rightarrow> (bool \<times> (u32 \<rightharpoonup> bytes) \<times> field_values) res" where
  "unpack_db_fields cls it =
     rbind (read_uint16 it) (\<lambda>(count, it). unpack_db_loop (unat count) cls it Map.empty [])"

fun add_required :: "(u32 \<rightharpoonup> bytes) \<Rightarrow> field list \<Rightarrow> datagram \<Rightarrow> datagram res" where
  "add_required required [] dg = Inr dg"
| "add_required required (f # fs) dg =
     (if as_molecular f = None \<and> has_keyword f ''required''
      then rbind (add_data (case required (field_id f) of Some v \<Rightarrow> v | None \<Rightarrow> field_default f) dg)
             (add_required required fs)
      else add_required required fs dg)"

text \<open>
  The pending query is looked up by the object number read from the response datagram, at
  twelve bytes behind its receivers.
\<close>

definition answered_object :: "datagram \<Rightarrow> doid res" where
  "answered_object dg =
     rbind (dgi_new dg 0) (\<lambda>it.
     rbind (seek_payload it) (\<lambda>it.
     rbind (skip_bytes 12 it) (\<lambda>it.
     rbind (read_doid it) (\<lambda>(d, _). Inr d))))"

definition forget_inactive :: "doid \<Rightarrow> u32 \<Rightarrow> (doid \<rightharpoonup> u32 set) \<Rightarrow> (doid \<rightharpoonup> u32 set)" where
  "forget_inactive d c loads =
     (let cs = (case loads d of None \<Rightarrow> {} | Some cs \<Rightarrow> cs)
      in if card cs > 1 then loads(d \<mapsto> cs - {c}) else loads(d := None))"

definition handle_get_all_resp :: "dbss_env \<Rightarrow> dgi \<Rightarrow> unit dbss_op" where
  "handle_get_all_resp env it =
     expected_response STATESERVER_OBJECT_GET_ALL_RESP it (\<lambda>c dg it.
       sbind (slift (answered_object dg)) (\<lambda>d.
       sseq (supd (\<lambda>s. s\<lparr>inactive_loads := forget_inactive d c (inactive_loads s)\<rparr>))
         (sbind (slift (read_bool it)) (\<lambda>(found, it).
          if \<not> found then sret ()
          else
            sbind (slift (read_uint16 it)) (\<lambda>(dc_id, it).
            if dc_id = 0 then sret ()
            else
              sbind (slift (unpack_db_fields (class_by_id env dc_id) it)) (\<lambda>(ok, required, ram).
              if \<not> ok then sret ()
              else case class_by_id env dc_id of
                None \<Rightarrow> sthrow DanglingReference
              | Some cls \<Rightarrow>
                  sbind (slift (add_all [add_uint16 (ucast (cls_id cls)), add_required required (cls_fields cls),
                     add_uint16 (word_of_nat (length ram)), append_values ram] dg)) dbss_route))))))"

section \<open>Dispatch\<close>

definition dbss_dispatch :: "dbss_env \<Rightarrow> channel \<Rightarrow> u16 \<Rightarrow> dgi \<Rightarrow> unit dbss_op" where
  "dbss_dispatch env sender msgtype it =
     (if msgtype = DBSS_OBJECT_ACTIVATE_WITH_DEFAULTS then handle_activate env it False
      else if msgtype = DBSS_OBJECT_ACTIVATE_WITH_DEFAULTS_OTHER then handle_activate env it True
      else if msgtype = DBSS_OBJECT_DELETE_DISK then handle_delete_disk env sender it
      else if msgtype = STATESERVER_OBJECT_SET_FIELD then dbss_set_field env it
      else if msgtype = STATESERVER_OBJECT_SET_FIELDS then dbss_set_fields env it
      else if msgtype = STATESERVER_OBJECT_GET_FIELD then dbss_get_field env sender it
      else if msgtype = DBSERVER_OBJECT_GET_FIELD_RESP then handle_get_field_resp it
      else if msgtype = STATESERVER_OBJECT_GET_FIELDS then dbss_get_fields env sender it
      else if msgtype = DBSERVER_OBJECT_GET_FIELDS_RESP then handle_get_fields_resp it
      else if msgtype = STATESERVER_OBJECT_GET_ALL then dbss_get_all env sender it
      else if msgtype = DBSERVER_OBJECT_GET_ALL_RESP then handle_get_all_resp env it
      else if msgtype = DBSS_OBJECT_GET_ACTIVATED then handle_get_activated sender it
      else sret ())"

definition dbss_handle_datagram :: "dbss_env \<Rightarrow> dgi \<Rightarrow> unit dbss_op" where
  "dbss_handle_datagram env it =
     sbind (slift (read_channel it)) (\<lambda>(sender, it).
     sbind (slift (read_uint16 it)) (\<lambda>(msgtype, it). dbss_dispatch env sender msgtype it))"

section \<open>Loading\<close>

text \<open>The constructor of a loaded object and its hand-over (\<open>receive_object\<close>).\<close>

definition log_object :: "doid \<Rightarrow> do_effect list \<Rightarrow> unit dbss_op" where
  "log_object d es = supd (\<lambda>s. s\<lparr>dbss_log := dbss_log s @ map (ObjectEffect d) es\<rparr>)"

definition create_object ::
    "dbss_env \<Rightarrow> doid \<Rightarrow> loader \<Rightarrow> dclass \<Rightarrow> (u32 \<rightharpoonup> bytes) \<Rightarrow> field_values \<Rightarrow> unit dbss_op" where
  "create_object env d ld cls required ram =
     (case dobj_activate (uninitialised env) (object_env env) (db_channel env) d (ld_parent ld) (ld_zone ld)
        cls required ram of (r, obj) \<Rightarrow>
      sseq (log_object d (effects obj))
        (sbind (slift r) (\<lambda>_. supd (\<lambda>s. s\<lparr>dbss_objs := (dbss_objs s)(d \<mapsto> obj)\<rparr>))))"

text \<open>
  A message handed to an active object, with the erasure of its table entry in \<open>annihilate\<close>.
\<close>

definition dbss_object_datagram :: "dbss_env \<Rightarrow> doid \<Rightarrow> dgi \<Rightarrow> unit dbss_op" where
  "dbss_object_datagram env d it = (\<lambda>s.
     case dbss_objs s d of
       None \<Rightarrow> (Inr (), s)
     | Some obj \<Rightarrow>
         (case do_handle_datagram (object_env env) it (obj\<lparr>effects := []\<rparr>) of (r, obj') \<Rightarrow>
            (r, s\<lparr>dbss_objs := (if EraseObject (do_id obj) \<in> set (effects obj')
                               then (dbss_objs s)(do_id obj := None) else (dbss_objs s)(d \<mapsto> obj')),
                  dbss_log := dbss_log s @ map (ObjectEffect d) (effects obj')\<rparr>)))"

text \<open>The \<open>try\<close> blocks around a replayed datagram.\<close>

definition catch_truncated :: "('s, unit) sm \<Rightarrow> ('s, unit) sm" where
  "catch_truncated m = (\<lambda>s. case m s of
     (Inl e, s') \<Rightarrow> (if e = DatagramIteratorEOF then Inr () else Inl e, s')
   | (Inr _, s') \<Rightarrow> (Inr (), s'))"

definition at_payload :: "datagram \<Rightarrow> (dgi \<Rightarrow> unit dbss_op) \<Rightarrow> unit dbss_op" where
  "at_payload dg handle =
     catch_truncated (sbind (slift (rbind (dgi_new dg 0) seek_payload)) handle)"

fun replay_datagrams :: "dbss_env \<Rightarrow> doid \<Rightarrow> datagram list \<Rightarrow> unit dbss_op" where
  "replay_datagrams env d [] = sret ()"
| "replay_datagrams env d (dg # dgs) =
     sbind (sget (\<lambda>s. dbss_objs s d)) (\<lambda>obj.
     if obj = None then sret ()
     else sseq (at_payload dg (dbss_object_datagram env d)) (replay_datagrams env d dgs))"

fun forward_datagrams :: "dbss_env \<Rightarrow> datagram list \<Rightarrow> unit dbss_op" where
  "forward_datagrams env [] = sret ()"
| "forward_datagrams env (dg # dgs) =
     sseq (at_payload dg (dbss_handle_datagram env)) (forward_datagrams env dgs)"

text \<open>\<open>finalize\<close> with \<open>discard_loader\<close>.\<close>

definition loader_finalize :: "dbss_env \<Rightarrow> doid \<Rightarrow> loader \<Rightarrow> unit dbss_op" where
  "loader_finalize env d ld =
     sseq (supd (\<lambda>s. s\<lparr>loading := (loading s)(d := None)\<rparr>))
    (sseq (forward_datagrams env (datagram_queue ld))
          (dbss_effect (LoaderTerminate d)))"

text \<open>
  The values of the new object: the updates of the activation win over the database, a
  required field in neither has its default.
\<close>

fun merge_values ::
    "(u32 \<rightharpoonup> bytes) \<Rightarrow> field list \<Rightarrow> (u32 \<rightharpoonup> bytes) \<Rightarrow> field_values \<Rightarrow> (u32 \<rightharpoonup> bytes) \<times> field_values" where
  "merge_values ups [] required ram = (required, ram)"
| "merge_values ups (f # fs) required ram =
     (if as_molecular f = None \<and> has_keyword f ''required'' then
        merge_values ups fs
          (case ups (field_id f) of
             Some v \<Rightarrow> required(field_id f \<mapsto> v)
           | None \<Rightarrow> (if required (field_id f) = None then required(field_id f \<mapsto> field_default f) else required))
          ram
      else if as_molecular f = None \<and> has_keyword f ''ram'' then
        merge_values ups fs required
          (case ups (field_id f) of Some v \<Rightarrow> fv_update f v ram | None \<Rightarrow> ram)
      else merge_values ups fs required ram)"

text \<open>
  \<open>DBSERVER_OBJECT_GET_ALL_RESP\<close> at a loader. The classes compared are pointers into one dclass
  file, which numbers its classes.
\<close>

definition loader_response :: "dbss_env \<Rightarrow> doid \<Rightarrow> loader \<Rightarrow> dgi \<Rightarrow> unit dbss_op" where
  "loader_response env d ld it =
     sbind (slift (read_uint32 it)) (\<lambda>(c, it).
     if c \<noteq> ld_context ld \<and> c \<notin> valid_contexts ld then sret ()
     else
       sseq (supd (\<lambda>s. s\<lparr>loading := (loading s)(d \<mapsto> ld\<lparr>is_loaded := True\<rparr>)\<rparr>))
         (sbind (slift (read_bool it)) (\<lambda>(found, it).
          if \<not> found then loader_finalize env d ld
          else
            sbind (slift (read_uint16 it)) (\<lambda>(dc_id, it).
            case class_by_id env dc_id of
              None \<Rightarrow> loader_finalize env d ld
            | Some cls \<Rightarrow>
                if (case ld_class ld of None \<Rightarrow> False | Some c \<Rightarrow> cls_id cls \<noteq> cls_id c)
                then loader_finalize env d ld
                else
                  sbind (slift (unpack_db_fields (Some cls) it)) (\<lambda>(ok, required, ram).
                  if \<not> ok then loader_finalize env d ld
                  else
                    (case merge_values (field_updates ld) (cls_fields cls) required ram of (required', ram') \<Rightarrow>
                     sseq (create_object env d ld cls required' ram')
                    (sseq (replay_datagrams env d (datagram_queue ld))
                          (loader_finalize env d ld))))))))"

text \<open>The loader of object \<open>d\<close> receives a datagram.\<close>

definition loader_handle_datagram :: "dbss_env \<Rightarrow> doid \<Rightarrow> dgi \<Rightarrow> unit dbss_op" where
  "loader_handle_datagram env d it =
     sbind (slift (read_channel it)) (\<lambda>(_, it).
     sbind (slift (read_uint16 it)) (\<lambda>(msgtype, it).
     sbind (sget (\<lambda>s. loading s d)) (\<lambda>o_ld.
     case o_ld of
       None \<Rightarrow> sret ()
     | Some ld \<Rightarrow>
         if msgtype = DBSERVER_OBJECT_GET_ALL_RESP
         then (if is_loaded ld then sret () else loader_response env d ld it)
         else if msgtype = DBSS_OBJECT_ACTIVATE_WITH_DEFAULTS \<or> msgtype = DBSS_OBJECT_ACTIVATE_WITH_DEFAULTS_OTHER
         then sret ()
         else supd (\<lambda>s. s\<lparr>loading := (loading s)(d \<mapsto> ld\<lparr>datagram_queue := datagram_queue ld @ [it_dg it]\<rparr>)\<rparr>))))"

definition dbss_new :: dbss where
  "dbss_new = \<lparr>dbss_objs = Map.empty, loading = Map.empty, db_next_context = 0,
     context_datagrams = Map.empty, inactive_loads = Map.empty, dbss_log = []\<rparr>"

end
