(* ===== verification/Field_Laws.thy ===== *)
theory Field_Laws
  imports Dg_Iterator
begin

text \<open>
  What the type-directed readers of \<open>DatagramIterator\<close> do with the types that
  \<open>dclass/dc\<close> builds: the mathematical byte size of a type and its agreement with the 16-bit
  size the code keeps, the exact length of an unpacked value, when \<open>skip_field\<close> and
  \<open>unpack_field\<close> move alike, and when the element loop of a variable-length array ends.
\<close>

section \<open>Sizes\<close>

text \<open>
  The number of bytes every value of a type has, \<open>None\<close> where it varies: the specification of
  \<open>m_size\<close>, without its 16-bit arithmetic. An array has a fixed size when it has a fixed
  number of elements and its element type is recorded as being of fixed size.
\<close>

fun byte_size :: "dtype \<Rightarrow> nat option"
and field_sizes :: "field list \<Rightarrow> nat option"
and param_sizes :: "param list \<Rightarrow> nat option" where
  "byte_size TInvalid = None"
| "byte_size (TNumeric nt) = Some (unat (nt_size nt))"
| "byte_size (TArray tag sz e n r al) =
     (case byte_size e of None \<Rightarrow> None | Some k \<Rightarrow> if 0 < n \<and> has_fixed_size e then Some (unat n * k) else None)"
| "byte_size (TStruct sz fs c sn sc) = field_sizes fs"
| "byte_size (TMethod sz ps c) = param_sizes ps"
| "field_sizes [] = Some 0"
| "field_sizes (Field i nm kws t d dflt m # fs) =
     (case (byte_size t, field_sizes fs) of (Some a, Some b) \<Rightarrow> Some (a + b) | _ \<Rightarrow> None)"
| "param_sizes [] = Some 0"
| "param_sizes (Param nm t d pd # ps) =
     (case (byte_size t, param_sizes ps) of (Some a, Some b) \<Rightarrow> Some (a + b) | _ \<Rightarrow> None)"

text \<open>The size a struct or method has after its members were added one by one.\<close>

fun run_size :: "dgsize \<Rightarrow> nat \<Rightarrow> dtype list \<Rightarrow> dgsize" where
  "run_size sz n [] = sz"
| "run_size sz n (t # ts) = run_size (grow_size sz (Suc n) t) (Suc n) ts"

text \<open>
  Types as the constructors and \<open>add_\<close> operations of \<open>dclass/dc\<close> build them, where no size
  exceeds the 16 bits of \<open>sizetag_t\<close>.
\<close>

definition fits :: "nat option \<Rightarrow> bool" where
  "fits so = (case so of None \<Rightarrow> True | Some k \<Rightarrow> k \<le> DGSIZE_MAX)"

definition array_shape :: "type_tag \<Rightarrow> dgsize \<Rightarrow> dtype \<Rightarrow> u32 \<Rightarrow> bool" where
  "array_shape tag sz e n \<longleftrightarrow>
     (if has_fixed_size e \<and> n > 0
      then sz = ucast (n * ucast (get_size e)) \<and>
           tag = (if get_type e = T_CHAR then T_STRING else if get_type e = T_UINT8 then T_BLOB else T_ARRAY)
      else sz = 0 \<and>
           tag = (if get_type e = T_CHAR then T_VARSTRING
                  else if get_type e = T_UINT8 then T_VARBLOB else T_VARARRAY))"

fun wf_type :: "dtype \<Rightarrow> bool"
and wf_fields :: "field list \<Rightarrow> bool"
and wf_params :: "param list \<Rightarrow> bool" where
  "wf_type TInvalid = True"
| "wf_type (TNumeric nt) = (numeric_size (nt_type nt) = Some (nt_size nt))"
| "wf_type (TArray tag sz e n r al) =
     (wf_type e \<and> array_shape tag sz e n \<and> fits (byte_size (TArray tag sz e n r al)))"
| "wf_type (TStruct sz fs c sn sc) =
     (wf_fields fs \<and> sz = run_size 0 0 (map field_type fs) \<and> fits (field_sizes fs))"
| "wf_type (TMethod sz ps c) =
     (wf_params ps \<and> sz = run_size 0 0 (map param_type ps) \<and> fits (param_sizes ps))"
| "wf_fields [] = True"
| "wf_fields (Field i nm kws t d dflt m # fs) = (wf_type t \<and> wf_fields fs)"
| "wf_params [] = True"
| "wf_params (Param nm t d pd # ps) = (wf_type t \<and> wf_params ps)"

text \<open>\<open>size_agrees sz so\<close>: a stored size of 0 says nothing, any other one is the byte size.\<close>

definition size_agrees :: "dgsize \<Rightarrow> nat option \<Rightarrow> bool" where
  "size_agrees sz so \<longleftrightarrow> sz = 0 \<or> so = Some (unat sz)"

fun sum_sizes :: "dtype list \<Rightarrow> nat option" where
  "sum_sizes [] = Some 0"
| "sum_sizes (t # ts) =
     (case (byte_size t, sum_sizes ts) of (Some a, Some b) \<Rightarrow> Some (a + b) | _ \<Rightarrow> None)"

lemma field_sizes_sum: "field_sizes fs = sum_sizes (map field_type fs)"
proof (induction fs)
  case (Cons f fs)
  then show ?case by (cases f) simp
qed simp

lemma param_sizes_sum: "param_sizes ps = sum_sizes (map param_type ps)"
proof (induction ps)
  case (Cons p ps)
  then show ?case by (cases p) simp
qed simp

lemma run_size_variable: "0 < n \<Longrightarrow> run_size 0 n ts = 0"
  by (induction ts arbitrary: n) (auto simp: grow_size_def)

lemma unat_add_small: "unat a + unat b \<le> DGSIZE_MAX \<Longrightarrow> unat (a + b :: u16) = unat a + unat b"
  by (simp add: unat_word_ariths DGSIZE_MAX_def)

lemma run_size_agrees:
  assumes "\<forall>t \<in> set ts. size_agrees (get_size t) (byte_size t)"
    and "run_size sz n ts \<noteq> 0" "0 < n" "\<forall>k. sum_sizes ts = Some k \<longrightarrow> unat sz + k \<le> DGSIZE_MAX"
  shows "\<exists>k. sum_sizes ts = Some k \<and> unat (run_size sz n ts) = unat sz + k"
  using assms
proof (induction ts arbitrary: sz n)
  case (Cons t ts)
  let ?g = "grow_size sz (Suc n) t"
  from Cons.prems(2,3) have "sz \<noteq> 0" and g: "?g \<noteq> 0"
    using run_size_variable [of n "t # ts"] run_size_variable [of "Suc n" ts] by auto
  then have fixed: "get_size t \<noteq> 0" and geq: "?g = sz + get_size t"
    by (auto simp: grow_size_def has_fixed_size_def split: if_splits)
  then have bt: "byte_size t = Some (unat (get_size t))"
    using Cons.prems(1) by (auto simp: size_agrees_def)
  show ?case
  proof (cases "sum_sizes ts")
    case None
    have "\<exists>k. sum_sizes ts = Some k \<and> unat (run_size ?g (Suc n) ts) = unat ?g + k"
      using Cons.prems None by (intro Cons.IH) auto
    with None show ?thesis by simp
  next
    case (Some j)
    with Cons.prems(4) bt have le: "unat sz + (unat (get_size t) + j) \<le> DGSIZE_MAX" by simp
    then have ug: "unat ?g = unat sz + unat (get_size t)"
      unfolding geq by (intro unat_add_small) simp
    have "\<exists>k. sum_sizes ts = Some k \<and> unat (run_size ?g (Suc n) ts) = unat ?g + k"
      using Cons.prems Some le ug by (intro Cons.IH) auto
    with Some bt ug show ?thesis by simp
  qed
qed simp

lemma run_size_0_agrees:
  assumes "\<forall>t \<in> set ts. size_agrees (get_size t) (byte_size t)" "fits (sum_sizes ts)"
  shows "size_agrees (run_size 0 0 ts) (sum_sizes ts)"
proof (cases ts)
  case (Cons t ts')
  let ?g = "grow_size 0 1 t"
  show ?thesis
  proof (cases "run_size ?g 1 ts' = 0")
    case False
    then have "?g \<noteq> 0" using run_size_variable [of 1 ts'] by auto
    then have geq: "?g = get_size t" and "get_size t \<noteq> 0"
      by (auto simp: grow_size_def has_fixed_size_def split: if_splits)
    then have bt: "byte_size t = Some (unat (get_size t))"
      using assms(1) Cons by (auto simp: size_agrees_def)
    have "\<exists>k. sum_sizes ts' = Some k \<and> unat (run_size ?g 1 ts') = unat ?g + k"
      using False assms Cons bt geq by (intro run_size_agrees) (auto simp: fits_def)
    with Cons bt geq show ?thesis by (auto simp: size_agrees_def)
  qed (simp add: Cons size_agrees_def)
qed (simp add: size_agrees_def)

lemma array_size_agrees:
  assumes "size_agrees (get_size e) (byte_size e)" "array_shape tag sz e n"
    "fits (byte_size (TArray tag sz e n r al))"
  shows "size_agrees sz (byte_size (TArray tag sz e n r al))"
proof (cases "has_fixed_size e \<and> n > 0")
  case True
  then have "get_size e \<noteq> 0" "0 < n" "has_fixed_size e"
    by (auto simp: has_fixed_size_def)
  moreover from this assms(1) have e: "byte_size e = Some (unat (get_size e))"
    by (simp add: size_agrees_def)
  ultimately have b: "byte_size (TArray tag sz e n r al) = Some (unat n * unat (get_size e))"
    by simp
  with assms(3) have le: "unat n * unat (get_size e) \<le> 65535"
    by (simp add: fits_def DGSIZE_MAX_def)
  have "unat (get_size e) < 65536"
    using unsigned_less [of "get_size e"] by simp
  then have "unat (ucast (get_size e) :: u32) = unat (get_size e)"
    by (simp add: unsigned_ucast_eq take_bit_nat_eq_self)
  with le have "unat (n * ucast (get_size e)) = unat n * unat (get_size e)"
    by (simp add: unat_word_ariths)
  with le have "unat (ucast (n * ucast (get_size e)) :: u16) = unat n * unat (get_size e)"
    by (simp add: unsigned_ucast_eq take_bit_nat_eq_self)
  with True assms(2) b show ?thesis by (simp add: array_shape_def size_agrees_def)
qed (use assms(2) in \<open>auto simp: array_shape_def size_agrees_def\<close>)

text \<open>The size the code keeps is the byte size of the type, or 0.\<close>

lemma wf_size_agrees:
  "wf_type t \<Longrightarrow> size_agrees (get_size t) (byte_size t)"
  "wf_fields fs \<Longrightarrow> \<forall>t \<in> set (map field_type fs). size_agrees (get_size t) (byte_size t)"
  "wf_params ps \<Longrightarrow> \<forall>t \<in> set (map param_type ps). size_agrees (get_size t) (byte_size t)"
proof (induction t and fs and ps rule: wf_type_wf_fields_wf_params.induct)
  case (3 tag sz e n r al)
  then have "size_agrees sz (byte_size (TArray tag sz e n r al))"
    by (intro array_size_agrees) auto
  then show ?case by simp
next
  case (4 sz fs c sn sc)
  then have "size_agrees (run_size 0 0 (map field_type fs)) (sum_sizes (map field_type fs))"
    by (intro run_size_0_agrees) (auto simp: field_sizes_sum)
  with 4 show ?case by (simp add: field_sizes_sum)
next
  case (5 sz ps c)
  then have "size_agrees (run_size 0 0 (map param_type ps)) (sum_sizes (map param_type ps))"
    by (intro run_size_0_agrees) (auto simp: param_sizes_sum)
  with 5 show ?case by (simp add: param_sizes_sum)
qed (auto simp: size_agrees_def)

section \<open>The length of an unpacked value\<close>

lemma unpack_times_length:
  assumes "\<And>it bs it'. body it = Inr (bs, it') \<Longrightarrow> length bs = k"
  shows "unpack_times n body it = Inr (bs, it') \<Longrightarrow> length bs = n * k"
  by (induction n arbitrary: it bs) (auto simp: rbind_eq_Inr dest: assms)

lemma read_fixed_value_length: "read_fixed_value t it = Inr (bs, it') \<Longrightarrow> length bs = unat (get_size t)"
  by (auto dest!: read_fixed_value_Inr read_raw_length)

lemma unpack_length:
  "unpack_dtype t it = Inr (bs, it') \<Longrightarrow> wf_type t \<Longrightarrow> byte_size t = Some k \<Longrightarrow> length bs = k"
  "unpack_fields fs it = Inr (bs, it') \<Longrightarrow> wf_fields fs \<Longrightarrow> field_sizes fs = Some k \<Longrightarrow> length bs = k"
  "unpack_params ps it = Inr (bs, it') \<Longrightarrow> wf_params ps \<Longrightarrow> param_sizes ps = Some k \<Longrightarrow> length bs = k"
proof (induction t it and fs it and ps it arbitrary: bs it' k and bs it' k and bs it' k
    rule: unpack_dtype_unpack_fields_unpack_params.induct)
  case (2 nt it)
  then show ?case by (auto split: if_splits dest: read_fixed_value_length)
next
  case (3 tag sz e n r al it)
  from "3.prems" have e: "wf_type e" "has_fixed_size e" "0 < n"
    and shape: "array_shape tag sz e n" and k: "byte_size e \<noteq> None" "k = unat n * the (byte_size e)"
    by (auto split: option.splits if_splits)
  from wf_size_agrees(1) [OF "3.prems"(2)] "3.prems"(3) have sz: "sz = 0 \<or> unat sz = k"
    by (auto simp: size_agrees_def)
  from wf_size_agrees(1) [OF e(1)] e(2) have "byte_size e = Some (unat (get_size e))" "get_size e \<noteq> 0"
    by (auto simp: size_agrees_def has_fixed_size_def)
  with k e(3) have "0 < k" "unat n * unat (get_size e) = k"
    by (auto simp: word_gt_0 unat_gt_0)
  have "sz \<noteq> 0"
  proof
    assume 0: "sz = 0"
    have "k \<le> 65535" using "3.prems"(2,3) by (simp add: fits_def DGSIZE_MAX_def)
    have "unat (get_size e) < 65536"
      using unsigned_less [of "get_size e"] by simp
    then have "unat (ucast (get_size e) :: u32) = unat (get_size e)"
      by (simp add: unsigned_ucast_eq take_bit_nat_eq_self)
    then have "unat (n * ucast (get_size e)) = k"
      using \<open>k \<le> 65535\<close> \<open>unat n * unat (get_size e) = k\<close> by (simp add: unat_word_ariths)
    then have "unat (ucast (n * ucast (get_size e)) :: u16) = k"
      using \<open>k \<le> 65535\<close> by (simp add: unsigned_ucast_eq take_bit_nat_eq_self)
    with e shape 0 \<open>0 < k\<close> show False by (simp add: array_shape_def)
  qed
  show ?case
  proof (cases "tag = T_ARRAY \<and> has_range e")
    case True
    with "3.prems"(1) \<open>sz \<noteq> 0\<close> have t: "unpack_times (unat n) (\<lambda>i. unpack_dtype e i) it = Inr (bs, it')"
      by simp
    have "length bs = unat n * the (byte_size e)"
    proof (rule unpack_times_length [OF _ t])
      fix i b i' assume "unpack_dtype e i = Inr (b, i')"
      then show "length b = the (byte_size e)"
        using "3.IH"(1) True \<open>sz \<noteq> 0\<close> e(1) k(1) by auto
    qed
    with k show ?thesis by simp
  next
    case False
    with "3.prems"(1) \<open>sz \<noteq> 0\<close> sz show ?thesis
      by (auto dest!: read_fixed_value_length)
  qed
next
  case (4 sz fs c sn sc it)
  from wf_size_agrees(1) [OF "4.prems"(2)] "4.prems"(3) have "sz = 0 \<or> unat sz = k"
    by (auto simp: size_agrees_def)
  with 4 show ?case by (auto split: if_splits dest!: read_fixed_value_length)
next
  case (5 sz ps c it)
  from wf_size_agrees(1) [OF "5.prems"(2)] "5.prems"(3) have "sz = 0 \<or> unat sz = k"
    by (auto simp: size_agrees_def)
  with 5 show ?case by (auto split: if_splits dest!: read_fixed_value_length)
qed (auto simp: rbind_eq_Inr split: option.splits)

section \<open>Skipping agrees with unpacking\<close>

text \<open>
  \<open>skip_dtype\<close> steps over the declared byte length of a variable-length array, while
  \<open>unpack_dtype\<close> reads whole elements until that length is reached or passed. The two agree
  on every type without such arrays.
\<close>

fun no_vararray :: "dtype \<Rightarrow> bool"
and no_vararray_fields :: "field list \<Rightarrow> bool"
and no_vararray_params :: "param list \<Rightarrow> bool" where
  "no_vararray TInvalid = True"
| "no_vararray (TNumeric nt) = True"
| "no_vararray (TArray tag sz e n r al) = (tag \<noteq> T_VARARRAY)"
| "no_vararray (TStruct sz fs c sn sc) = no_vararray_fields fs"
| "no_vararray (TMethod sz ps c) = no_vararray_params ps"
| "no_vararray_fields [] = True"
| "no_vararray_fields (Field i nm kws t d dflt m # fs) = (no_vararray t \<and> no_vararray_fields fs)"
| "no_vararray_params [] = True"
| "no_vararray_params (Param nm t d pd # ps) = (no_vararray t \<and> no_vararray_params ps)"

lemma skip_bytes_consumed:
  "consumed it bs it' \<Longrightarrow> length bs = unat n \<Longrightarrow> n \<noteq> 0 \<Longrightarrow> skip_bytes n it = Inr it'"
  by (auto simp: consumed_def skip_bytes_def check_read_length_def unsigned_eq_0_iff)

lemma skip_fixed_type:
  assumes "unpack_dtype t it = Inr (bs, it')" "wf_type t" "get_size t \<noteq> 0"
  shows "skip_bytes (get_size t) it = Inr it'"
proof -
  from wf_size_agrees(1) [OF assms(2)] assms(3) have "byte_size t = Some (unat (get_size t))"
    by (simp add: size_agrees_def)
  from unpack_length(1) [OF assms(1,2) this] unpack_consumed(1) [OF assms(1)] assms(3)
  show ?thesis by (simp add: skip_bytes_consumed)
qed

lemma skip_unpack:
  "unpack_dtype t it = Inr (bs, it') \<Longrightarrow> wf_type t \<Longrightarrow> no_vararray t \<Longrightarrow> skip_dtype t it = Inr it'"
  "unpack_fields fs it = Inr (bs, it') \<Longrightarrow> wf_fields fs \<Longrightarrow> no_vararray_fields fs \<Longrightarrow>
    skip_fields fs it = Inr it'"
  "unpack_params ps it = Inr (bs, it') \<Longrightarrow> wf_params ps \<Longrightarrow> no_vararray_params ps \<Longrightarrow>
    skip_params ps it = Inr it'"
proof (induction t it and fs it and ps it arbitrary: bs it' and bs it' and bs it'
    rule: unpack_dtype_unpack_fields_unpack_params.induct)
  case (2 nt it)
  show ?case using skip_fixed_type [OF "2.prems"(1,2)] "2.prems"(1) by auto
next
  case (3 tag sz e n r al it)
  show ?case
  proof (cases "sz = 0")
    case False
    with skip_fixed_type [OF "3.prems"(1,2)] show ?thesis by simp
  next
    case True
    with "3.prems" show ?thesis
      by (auto simp: rbind_eq_Inr read_data_def skip_bytes_def read_raw_def split: if_splits)
  qed
next
  case (4 sz fs c sn sc it)
  show ?case using skip_fixed_type [OF "4.prems"(1,2)] 4 by (auto split: if_splits)
next
  case (5 sz ps c it)
  show ?case using skip_fixed_type [OF "5.prems"(1,2)] 5 by (auto split: if_splits)
qed (auto simp: rbind_eq_Inr)

section \<open>When the element loop ends\<close>

text \<open>
  A type occupies bytes when each of its values has at least one; the elements of every
  variable-length array have to, or the loop over them makes no progress.
\<close>

fun occupies :: "dtype \<Rightarrow> bool"
and occupies_fields :: "field list \<Rightarrow> bool"
and occupies_params :: "param list \<Rightarrow> bool" where
  "occupies TInvalid = False"
| "occupies (TNumeric nt) = (nt_size nt \<noteq> 0)"
| "occupies (TArray tag sz e n r al) =
     (if sz \<noteq> 0 then (tag = T_ARRAY \<and> has_range e \<longrightarrow> 0 < n \<and> occupies e)
      else tag = T_VARSTRING \<or> tag = T_VARBLOB \<or> tag = T_VARARRAY)"
| "occupies (TStruct sz fs c sn sc) = (sz \<noteq> 0 \<and> \<not> c \<or> occupies_fields fs)"
| "occupies (TMethod sz ps c) = (sz \<noteq> 0 \<and> \<not> c \<or> occupies_params ps)"
| "occupies_fields [] = False"
| "occupies_fields (Field i nm kws t d dflt m # fs) = (occupies t \<or> occupies_fields fs)"
| "occupies_params [] = False"
| "occupies_params (Param nm t d pd # ps) = (occupies t \<or> occupies_params ps)"

fun loops_end :: "dtype \<Rightarrow> bool"
and loops_end_fields :: "field list \<Rightarrow> bool"
and loops_end_params :: "param list \<Rightarrow> bool" where
  "loops_end TInvalid = True"
| "loops_end (TNumeric nt) = True"
| "loops_end (TArray tag sz e n r al) = (loops_end e \<and> (tag = T_VARARRAY \<longrightarrow> occupies e))"
| "loops_end (TStruct sz fs c sn sc) = loops_end_fields fs"
| "loops_end (TMethod sz ps c) = loops_end_params ps"
| "loops_end_fields [] = True"
| "loops_end_fields (Field i nm kws t d dflt m # fs) = (loops_end t \<and> loops_end_fields fs)"
| "loops_end_params [] = True"
| "loops_end_params (Param nm t d pd # ps) = (loops_end t \<and> loops_end_params ps)"

lemma word_gt_0_unat: "0 < (n :: 'a::len word) \<longleftrightarrow> 0 < unat n"
  by (simp add: word_gt_0 unat_gt_0)

lemma read_fixed_value_nonempty: "read_fixed_value t it = Inr (bs, it') \<Longrightarrow> get_size t \<noteq> 0 \<Longrightarrow> bs \<noteq> []"
  using read_fixed_value_length [of t it bs it'] by (auto simp: unsigned_eq_0_iff)

lemma unpack_occupies:
  "unpack_dtype t it = Inr (bs, it') \<Longrightarrow> occupies t \<Longrightarrow> bs \<noteq> []"
  "unpack_fields fs it = Inr (bs, it') \<Longrightarrow> occupies_fields fs \<Longrightarrow> bs \<noteq> []"
  "unpack_params ps it = Inr (bs, it') \<Longrightarrow> occupies_params ps \<Longrightarrow> bs \<noteq> []"
proof (induction t it and fs it and ps it arbitrary: bs it' and bs it' and bs it'
    rule: unpack_dtype_unpack_fields_unpack_params.induct)
  case (3 tag sz e n r al it)
  show ?case
  proof (cases "sz = 0")
    case True
    with "3.prems" show ?thesis
      by (auto simp: rbind_eq_Inr simp del: unpack_while.simps split: if_splits)
  next
    case False
    show ?thesis
    proof (cases "tag = T_ARRAY \<and> has_range e")
      case True
      with False "3.prems" obtain m where "unat n = Suc m" "occupies e"
        by (auto simp: word_gt_0_unat gr0_conv_Suc)
      with True False "3.prems"(1) "3.IH"(1) show ?thesis by (auto simp: rbind_eq_Inr)
    next
      case nofast: False
      with False "3.prems" show ?thesis by (auto dest: read_fixed_value_nonempty)
    qed
  qed
next
  case (7 i nm kws t d dflt m fs it)
  then show ?case by (fastforce simp: rbind_eq_Inr)
next
  case (9 nm t d ps it)
  then show ?case by (fastforce simp: rbind_eq_Inr)
qed (auto simp: rbind_eq_Inr split: if_splits dest: read_fixed_value_nonempty)

text \<open>
  The loop run with the declared length as its fuel: it comes to an end when every element
  takes a byte, and if the fuel runs out it would run out for every amount of fuel.
\<close>

lemma unpack_while_no_stop:
  assumes "\<And>i. body i \<noteq> Inl NoReturn" "\<And>i b i'. body i = Inr (b, i') \<Longrightarrow> b \<noteq> []"
  shows "len \<le> length acc + fuel \<Longrightarrow> unpack_while fuel body len it acc cnt \<noteq> Inl NoReturn"
proof (induction fuel arbitrary: it acc cnt)
  case (Suc fuel)
  show ?case
  proof (cases "length acc < len")
    case True
    show ?thesis
    proof (cases "body it")
      case (Inl ex)
      with True assms(1) [of it] show ?thesis by auto
    next
      case (Inr p)
      obtain b i' where p: "p = (b, i')" by (cases p)
      with Inr assms(2) have "b \<noteq> []" by simp
      then have "len \<le> length (acc @ b) + fuel"
        using Suc.prems by (cases b) auto
      with Inr p True Suc.IH show ?thesis by simp
    qed
  qed auto
qed auto

lemma unpack_while_stuck:
  "body it = Inr ([], it) \<Longrightarrow> length acc < len \<Longrightarrow>
    unpack_while fuel body len it acc cnt = Inl NoReturn"
  by (induction fuel arbitrary: cnt) auto

lemma unpack_while_fuel_enough:
  assumes body: "\<And>i b i'. body i = Inr (b, i') \<Longrightarrow> consumed i b i'"
  shows "unpack_while fuel body len it acc cnt = Inl NoReturn \<Longrightarrow> len \<le> length acc + fuel \<Longrightarrow>
    unpack_while fuel' body len it acc cnt = Inl NoReturn"
proof (induction fuel arbitrary: it acc cnt fuel')
  case (Suc fuel)
  from Suc.prems(1) have short: "length acc < len" by (auto split: if_splits)
  show ?case
  proof (cases "body it")
    case (Inl ex)
    with Suc.prems(1) short show ?thesis by (cases fuel') auto
  next
    case (Inr p)
    obtain b i' where p: "p = (b, i')" by (cases p)
    show ?thesis
    proof (cases "b = []")
      case True
      with body [of it b i'] Inr p have "i' = it" by (simp add: consumed_def)
      with True Inr p short show ?thesis by (simp add: unpack_while_stuck)
    next
      case False
      then have "len \<le> length (acc @ b) + fuel" using Suc.prems(2) by (cases b) auto
      with Suc.IH [of i' "acc @ b" "Suc cnt"] Suc.prems(1) short Inr p
      show ?thesis by (cases fuel') auto
    qed
  qed
qed (auto split: if_splits)

lemma read_raw_Inl: "read_raw n it = Inl e \<Longrightarrow> e = DatagramIteratorEOF"
  by (auto simp: read_raw_def check_read_length_def split: if_splits)

lemma read_fixed_value_Inl:
  "read_fixed_value t it = Inl e \<Longrightarrow> e = DatagramIteratorEOF \<or> e = FieldConstraintViolation"
  by (auto simp: read_fixed_value_def read_data_def rbind_eq_Inl dest: read_raw_Inl split: if_splits)

definition read_errors :: "exn set" where
  "read_errors = {DatagramIteratorEOF, FieldConstraintViolation}"

lemma unpack_times_Inl:
  "(\<And>i. body i = Inl e \<Longrightarrow> e \<in> A) \<Longrightarrow> unpack_times n body it = Inl e \<Longrightarrow> e \<in> A"
  by (induction n arbitrary: it) (auto simp: rbind_eq_Inl)

lemma unpack_while_Inl:
  "(\<And>i. body i = Inl e \<Longrightarrow> e \<in> A) \<Longrightarrow>
    unpack_while fuel body len it acc cnt = Inl e \<Longrightarrow> e \<in> A \<or> e = NoReturn"
  by (induction fuel arbitrary: it acc cnt) (auto simp: rbind_eq_Inl split: if_splits)

lemma unpack_errors:
  "unpack_dtype t it = Inl ex \<Longrightarrow> loops_end t \<Longrightarrow> ex \<in> read_errors"
  "unpack_fields fs it = Inl ex \<Longrightarrow> loops_end_fields fs \<Longrightarrow> ex \<in> read_errors"
  "unpack_params ps it = Inl ex \<Longrightarrow> loops_end_params ps \<Longrightarrow> ex \<in> read_errors"
proof (induction t it and fs it and ps it arbitrary: ex and ex and ex
    rule: unpack_dtype_unpack_fields_unpack_params.induct)
  case (3 tag sz e n r al it)
  from "3.prems"(2) have e: "loops_end e" "tag = T_VARARRAY \<Longrightarrow> occupies e" by auto
  show ?case
  proof (cases "sz = 0")
    case False
    with "3.prems"(1) "3.IH"(1) e unpack_times_Inl [of "unpack_dtype e" ex read_errors "unat n" it]
    show ?thesis
      by (auto simp: read_errors_def dest: read_fixed_value_Inl split: if_splits)
  next
    case True
    show ?thesis
    proof (cases "tag = T_VARARRAY")
      case False
      with True "3.prems"(1) show ?thesis
        by (auto simp: read_errors_def rbind_eq_Inl read_data_def read_size_def dest: read_raw_Inl
            split: if_splits)
    next
      case var: True
      have body: "\<And>i ex. unpack_dtype e i = Inl ex \<Longrightarrow> ex \<in> read_errors"
        using "3.IH"(2) True var e by auto
      have "unpack_while (unat len) (\<lambda>i. unpack_dtype e i) (unat len) it1 [] 0 = Inl ex \<Longrightarrow>
          ex \<in> read_errors" for len :: u16 and it1
        using unpack_while_Inl [of "unpack_dtype e" ex read_errors] body
          unpack_while_no_stop [of "unpack_dtype e" "unat len" "[]" "unat len" it1 0]
          unpack_occupies(1) e(2) [OF var]
        by (fastforce simp: read_errors_def)
      with True var "3.prems"(1) show ?thesis
        by (auto simp: rbind_eq_Inl read_size_def read_errors_def dest: read_raw_Inl split: if_splits)
    qed
  qed
qed (auto simp: rbind_eq_Inl read_errors_def dest: read_fixed_value_Inl split: if_splits)

end
