(* ===== verification/Object_Laws.thy ===== *)
theory Object_Laws
  imports State_Server Director_Routing Field_Laws
begin

text \<open>
  What the state server's objects guarantee: their identity and the table of their children
  as invariants of every message; the messages they send, byte for byte; update and query of
  fields; location changes and the handshake with the parent.
\<close>

section \<open>Invariants\<close>

text \<open>A property of an object's identity and its table of children.\<close>

definition about :: "(doid \<Rightarrow> dclass \<Rightarrow> (zone \<rightharpoonup> doid set) \<Rightarrow> bool) \<Rightarrow> dobj \<Rightarrow> bool" where
  "about Q s \<longleftrightarrow> Q (do_id s) (do_class s) (zone_objects s)"

lemma keeps_about_supd [keeps_intros]:
  "(\<And>s. do_id (f s) = do_id s) \<Longrightarrow> (\<And>s. do_class (f s) = do_class s) \<Longrightarrow>
   (\<And>s. zone_objects (f s) = zone_objects s) \<Longrightarrow> keeps (about Q) (supd f)"
  by (rule keeps_supd) (simp add: about_def)

lemma keeps_about_messages [keeps_intros]:
  "keeps (about Q) (effect e)" "keeps (about Q) (route dg)"
  "keeps (about Q) (required_ref f)" "keeps (about Q) (send_to target sender msgtype body)"
  "keeps (about Q) (send_to_set env targets sender msgtype body)"
  unfolding effect_def route_def required_ref_def send_to_def send_to_set_def
  by (intro keeps_intros; simp)+

lemma keeps_about_append [keeps_intros]:
  "keeps (about Q) (append_required_fields c ow fs dg)"
  "keeps (about Q) (append_required_data c ow dg)" "keeps (about Q) (append_other_data c ow dg)"
proof -
  show 1: "keeps (about Q) (append_required_fields c ow fs dg)" for fs dg
    by (induction fs arbitrary: dg) (auto intro!: keeps_intros)
  show "keeps (about Q) (append_required_data c ow dg)"
    unfolding append_required_data_def by (intro keeps_intros 1)
  show "keeps (about Q) (append_other_data c ow dg)"
    unfolding append_other_data_def Let_def by (intro keeps_intros)
qed

lemma keeps_about_send [keeps_intros]:
  "keeps (about Q) (send_entry l a b pre c ow)" "keeps (about Q) (send_interest_entry l ctx)"
  "keeps (about Q) (send_location_entry l)" "keeps (about Q) (send_ai_entry l)"
  "keeps (about Q) (send_owner_entry l)" "keeps (about Q) ask_parent_ai"
  unfolding send_interest_entry_def send_location_entry_def send_ai_entry_def send_owner_entry_def
    send_entry_def ask_parent_ai_def Let_def
  by (intro keeps_intros; simp)+

lemma keeps_about_changes [keeps_intros]:
  "keeps (about Q) (announce_location env T sender p' z' p z)"
  "keeps (about Q) (handle_location_change env p' z' sender)"
  "keeps (about Q) (handle_ai_change env ai sender ex)" "keeps (about Q) (delete_children sender)"
  "keeps (about Q) (annihilate env sender tell_parent)" "keeps (about Q) wake_children"
  unfolding handle_location_change_def announce_location_def handle_ai_change_def annihilate_def
    delete_children_def wake_children_def Let_def
  by (intro keeps_intros; simp)+

lemma keeps_about_update [keeps_intros]:
  "keeps (about Q) (save_field f data)" "keeps (about Q) (handle_one_update env it sender)"
  "keeps (about Q) (update_loop n env sender i k it)"
proof -
  show 1: "keeps (about Q) (save_field f data)" for f data
    unfolding save_field_def by (intro keeps_intros) simp_all
  have 2: "keeps (about Q) (save_atomics fs it)" for fs it
    by (induction fs arbitrary: it) (auto intro!: keeps_intros 1)
  show 3: "keeps (about Q) (handle_one_update env it sender)" for it
    unfolding handle_one_update_def
    by (intro keeps_intros 1 2) (auto split: sum.split option.split intro!: keeps_intros 1 2)
  show "keeps (about Q) (update_loop n env sender i k it)"
    by (induction n arbitrary: i it) (auto intro!: keeps_intros 3)
qed

text \<open>
  What the table of children is kept by: the handlers only enter and remove children, except
  that a query for zones makes empty entries.
\<close>

locale child_table =
  fixes ok :: "doid \<Rightarrow> dclass \<Rightarrow> (zone \<rightharpoonup> doid set) \<Rightarrow> bool"
  assumes insert_ok: "ok d c zo \<Longrightarrow> ok d c (insert_child z child zo)"
    and erase_ok: "ok d c zo \<Longrightarrow> ok d c (erase_child z child zo)"
begin

lemma keeps_children:
  "keeps (about ok) (on_changing_location it)" "keeps (about ok) (on_get_location_resp it)"
  unfolding on_changing_location_def on_get_location_resp_def
  by (intro keeps_intros keeps_supd; simp add: about_def insert_ok erase_ok)+

lemma keeps_dispatch:
  assumes "msgtype \<noteq> STATESERVER_OBJECT_GET_ZONE_OBJECTS" "msgtype \<noteq> STATESERVER_OBJECT_GET_ZONES_OBJECTS"
  shows "keeps (about ok) (do_dispatch env sender msgtype it)"
  unfolding do_dispatch_def on_delete_ai_objects_def on_delete_ram_def on_delete_children_def on_set_field_def
    on_set_fields_def on_changing_ai_def on_set_ai_def on_get_ai_def on_get_ai_resp_def on_location_ack_def
    on_set_location_def on_get_location_def on_get_all_def on_get_field_def on_get_fields_def on_set_owner_def
    on_get_active_zones_def Let_def
  by (intro keeps_intros keeps_children; simp add: assms)

end

locale queried_child_table = child_table +
  assumes query_ok: "ok d c zo \<Longrightarrow> ok d c (zo(z \<mapsto> zone_children zo z))"
begin

lemma keeps_query: "keeps (about ok) (on_get_zones_objects sender msgtype it)"
proof -
  have "keeps (about ok) (count_zones n it k dg)" for n it k dg
  proof (induction n arbitrary: it k dg)
    case (Suc n)
    show ?case
    proof (rule keepsI)
      fix s assume s: "about ok s"
      have "keeps (about ok) (sbind (slift (add_zone z dg)) (\<lambda>dg'. count_zones n it' k' dg'))" for z it' k'
        by (intro keeps_intros Suc)
      with s show "about ok (snd (count_zones (Suc n) it k dg s))"
        by (auto simp: sbind_apply keeps_def about_def query_ok split: sum.split)
    qed
  qed (auto intro: keeps_intros)
  then show ?thesis
    unfolding on_get_zones_objects_def Let_def by (intro keeps_intros)
qed

lemma keeps_any_message: "keeps (about ok) (do_handle_datagram env it)"
proof -
  have "keeps (about ok) (do_dispatch env sender msgtype it)" for sender msgtype it
  proof (cases "msgtype = STATESERVER_OBJECT_GET_ZONE_OBJECTS \<or> msgtype = STATESERVER_OBJECT_GET_ZONES_OBJECTS")
    case True
    then have "do_dispatch env sender msgtype it = on_get_zones_objects sender msgtype it"
      by (auto simp: do_dispatch_def)
    then show ?thesis by (simp add: keeps_query)
  qed (simp add: keeps_dispatch)
  then show ?thesis unfolding do_handle_datagram_def by (intro keeps_intros)
qed

end

text \<open>No zone with an empty entry, and every zone finite.\<close>

definition zones_inhabited :: "(zone \<rightharpoonup> doid set) \<Rightarrow> bool" where
  "zones_inhabited zo \<longleftrightarrow> (\<forall>z. zo z \<noteq> Some {})"

interpretation inhabited: child_table "\<lambda>d c zo. d = d0 \<and> c = c0 \<and> zones_inhabited zo" for d0 c0
  by unfold_locales (auto simp: zones_inhabited_def insert_child_def erase_child_def Let_def)

interpretation identity: queried_child_table "\<lambda>d c zo. d = d0 \<and> c = c0" for d0 c0
  by unfold_locales auto


section \<open>Messages sent\<close>

definition env_ok :: "do_env \<Rightarrow> bool" where
  "env_ok env \<longleftrightarrow>
     (\<forall>S. set (target_order env S) = S \<and> distinct (target_order env S))
   \<and> (\<forall>S. set (zone_order env S) = S \<and> distinct (zone_order env S))"

text \<open>\<open>is_message dg tos sender msgtype body\<close>: the datagram is that message, to those channels.\<close>

definition is_message :: "datagram \<Rightarrow> channel list \<Rightarrow> channel \<Rightarrow> u16 \<Rightarrow> bytes \<Rightarrow> bool" where
  "is_message dg tos sender msgtype body \<longleftrightarrow>
     dg_ok dg \<and> dg_buf dg = server_header_bytes tos sender msgtype @ body"

definition emit :: "datagram list \<Rightarrow> dobj \<Rightarrow> dobj" where
  "emit dgs s = s\<lparr>effects := effects s @ map Route dgs\<rparr>"

lemma length_server_header [simp]: "length (server_header_bytes tos sender t) = 11 + 8 * length tos"
  by (simp add: server_header_bytes_def)

lemma route_emit [simp]: "route dg s = (Inr (), emit [dg] s)"
  by (simp add: route_def effect_def emit_def)

lemma send_to_emit:
  assumes "appends bs (add_all body)" "length bs \<le> 60000"
  shows "\<exists>dg. is_message dg [target] sender t bs \<and> send_to target sender t body s = (Inr (), emit [dg] s)"
proof -
  have "appends (server_header_bytes [target] sender t @ bs)
      (\<lambda>dg. rbind (add_server_header target sender t dg) (add_all body))"
    by (rule appends_seq [OF appends_add_server_header assms(1)])
  from appends_dg_create [OF this] assms(2) show ?thesis
    by (auto simp: send_to_def dg_create_server_def is_message_def DGSIZE_MAX_def)
qed

lemma send_to_set_emit:
  assumes "appends bs (add_all body)" "length bs + 8 * length (target_order env T) \<le> 60000"
  shows "\<exists>dg. is_message dg (target_order env T) sender t bs
    \<and> send_to_set env T sender t body s = (Inr (), emit [dg] s)"
proof -
  have "appends (server_header_bytes (target_order env T) sender t @ bs)
      (\<lambda>dg. rbind (add_server_header_set (target_order env T) sender t dg) (add_all body))"
    by (rule appends_seq [OF appends_add_server_header_set assms(1)])
  from appends_dg_create [OF this] assms(2) show ?thesis
    by (auto simp: send_to_set_def dg_create_server_set_def is_message_def DGSIZE_MAX_def)
qed

lemma length_target_order: "env_ok env \<Longrightarrow> length (target_order env T) = card T"
  unfolding env_ok_def by (metis distinct_card)

lemma update_targets_few: "card (update_targets f sender s) \<le> 3"
proof -
  have "update_targets f sender s \<subseteq> {location_as_channel (parent_id s) (zone_id s), ai_channel s, owner_channel s}"
    by (auto simp: update_targets_def split: if_splits)
  then have "card (update_targets f sender s)
      \<le> card (set [location_as_channel (parent_id s) (zone_id s), ai_channel s, owner_channel s])"
    by (intro card_mono) auto
  with card_length [of "[location_as_channel (parent_id s) (zone_id s), ai_channel s, owner_channel s]"]
  show ?thesis by simp
qed

lemma update_targets_fields [simp]:
  "update_targets f sender (s\<lparr>required_fields := r\<rparr>) = update_targets f sender s"
  "update_targets f sender (s\<lparr>ram_fields := k\<rparr>) = update_targets f sender s"
  unfolding update_targets_def by simp_all

section \<open>Updates and queries\<close>

lemma save_field_put:
  "save_field f data s = (Inr (),
     if has_keyword f ''required'' then s\<lparr>required_fields := (required_fields s)(field_id f \<mapsto> data)\<rparr>
     else if has_keyword f ''ram'' then s\<lparr>ram_fields := fv_update f data (ram_fields s)\<rparr> else s)"
  by (simp add: save_field_def)

lemma one_update:
  fixes sender :: channel
  assumes rd: "read_uint16 it = Inr (fid, it1)" and cls: "get_field_by_id (do_class s) (ucast fid) = Some f"
    and atomic: "as_molecular f = None" and up: "unpack_field f it1 = Inr (data, it2)"
    and len: "length data \<le> 50000" and env: "env_ok env"
  defines "T \<equiv> update_targets f sender s"
  shows "\<exists>dgs. handle_one_update env it sender s = (Inr (True, it2), emit dgs (snd (save_field f data s)))
    \<and> (if T = {} then dgs = []
       else \<exists>dg. dgs = [dg] \<and> is_message dg (target_order env T) sender STATESERVER_OBJECT_SET_FIELD
              (le_bytes 4 (do_id s) @ le_bytes 2 fid @ data))"
proof -
  obtain s1 where s1: "save_field f data s = (Inr (), s1)" "do_id s1 = do_id s" "update_targets f sender s1 = T"
    by (simp add: save_field_put T_def)
  have ap: "appends (le_bytes 4 (do_id s) @ le_bytes 2 fid @ data @ []) (add_all [add_doid (do_id s), add_uint16 fid, add_data data])"
    using len by (intro appends_intros) (simp add: DGSIZE_MAX_def)
  have "length (target_order env T) \<le> 3"
    using update_targets_few by (simp add: length_target_order [OF env] T_def)
  with len have few: "length (le_bytes 4 (do_id s) @ le_bytes 2 fid @ data @ []) + 8 * length (target_order env T) \<le> 60000" by simp
  from send_to_set_emit [OF ap few, of sender STATESERVER_OBJECT_SET_FIELD s1]
  obtain dg where dg: "is_message dg (target_order env T) sender STATESERVER_OBJECT_SET_FIELD
      (le_bytes 4 (do_id s) @ le_bytes 2 fid @ data)"
    "send_to_set env T sender STATESERVER_OBJECT_SET_FIELD
      [add_doid (do_id s), add_uint16 fid, add_data data] s1 = (Inr (), emit [dg] s1)"
    by auto
  have "handle_one_update env it sender s = (Inr (True, it2), emit (if T = {} then [] else [dg]) s1)"
    using rd cls atomic up s1 dg(2)
    by (simp add: handle_one_update_def sseq_apply sbind_apply emit_def)
  with dg(1) show ?thesis unfolding s1(1) snd_conv by (intro exI [of _ "if T = {} then [] else [dg]"]) auto
qed

section \<open>The loop over several updates\<close>

lemma read_uint16_bounds:
  "read_uint16 it = Inr (v, it') \<Longrightarrow> it_dg it' = it_dg it \<and> it_offset it' = it_offset it + 2
     \<and> it_offset it + 2 \<le> unat (dg_size (it_dg it))"
  by (auto simp: read_uint16_def rbind_eq_Inr read_raw_Inr)

lemma save_atomics_advance:
  "save_atomics fs it s = (Inr it', s') \<Longrightarrow> it_dg it' = it_dg it \<and> it_offset it \<le> it_offset it'"
proof (induction fs arbitrary: it s)
  case (Cons f fs)
  show ?case
  proof (cases "unpack_field f it")
    case (Inr r)
    obtain data it1 where r: "r = (data, it1)" by (cases r)
    have c: "consumed it data it1" using Inr r unpack_consumed(1) by (simp add: unpack_field_def)
    have "save_atomics fs it1 (snd (save_field f data s)) = (Inr it', s')"
      using Cons.prems Inr r by (simp add: sseq_apply save_field_put)
    from Cons.IH [OF this] c show ?thesis by (auto dest: consumed_dg consumed_offset)
  next
    case (Inl e)
    with Cons.prems show ?thesis by simp
  qed
qed simp

lemma one_update_advance:
  assumes "handle_one_update env it sender s = (Inr (True, it'), s')"
  shows "it_dg it' = it_dg it \<and> it_offset it + 2 \<le> it_offset it' \<and> it_offset it + 2 \<le> unat (dg_size (it_dg it))"
proof -
  from assms obtain fid it1 where rd: "read_uint16 it = Inr (fid, it1)"
    by (cases "read_uint16 it") (auto simp: handle_one_update_def)
  note b = read_uint16_bounds [OF rd]
  from assms rd obtain f where f: "get_field_by_id (do_class s) (ucast fid) = Some f"
    by (cases "get_field_by_id (do_class s) (ucast fid)") (auto simp: handle_one_update_def)
  from assms rd f obtain data it2 where up: "unpack_field f it1 = Inr (data, it2)"
    by (cases "unpack_field f it1") (auto simp: handle_one_update_def split: if_splits)
  have c: "consumed it1 data it2" using up unpack_consumed(1) by (simp add: unpack_field_def)
  have small: "unat (dg_size (it_dg it)) < 65536" using unsigned_less [of "dg_size (it_dg it)", where 'a = nat] by simp
  with b have "it_offset it1 < 65536" by simp
  then have t: "unat (tell it1) = it_offset it1"
    by (simp add: tell_def unsigned_of_nat take_bit_nat_eq_self)
  let ?m = "case as_molecular f of Some atomics \<Rightarrow> save_atomics atomics (seek (tell it1) it2)
    | None \<Rightarrow> sseq (save_field f data) (sret it2)"
  from assms rd f up obtain it3 s3 where m: "?m s = (Inr it3, s3)"
    and rest: "sbind (sget (update_targets f sender)) (\<lambda>targets. sbind (sget do_id) (\<lambda>me.
        sseq (swhen (targets \<noteq> {}) (send_to_set env targets sender STATESERVER_OBJECT_SET_FIELD
          [add_doid me, add_uint16 fid, add_data data])) (sret (True, it3)))) s3 = (Inr (True, it'), s')"
    by (auto simp: handle_one_update_def sbind_apply [of ?m] split: prod.splits sum.splits)
  have "it_dg it3 = it_dg it1 \<and> it_offset it1 \<le> it_offset it3"
  proof (cases "as_molecular f")
    case None
    with m c show ?thesis by (auto simp: sseq_apply save_field_put dest: consumed_dg consumed_offset)
  next
    case (Some atomics)
    with m have "save_atomics atomics (seek (tell it1) it2) s = (Inr it3, s3)" by simp
    from save_atomics_advance [OF this] t c show ?thesis by (auto simp: seek_def dest: consumed_dg)
  qed
  moreover have "it' = it3"
    using rest by (auto simp: sseq_apply split: prod.splits sum.splits)
  ultimately show ?thesis using b by auto
qed

text \<open>A class none of whose fields can make \<open>unpack_field\<close> loop.\<close>

definition class_ends :: "dclass \<Rightarrow> bool" where
  "class_ends cls \<longleftrightarrow> (\<forall>i f. cls_by_id cls i = Some f \<longrightarrow>
     loops_end (field_type f) \<and> (\<forall>fs. as_molecular f = Some fs \<longrightarrow> (\<forall>a \<in> set fs. loops_end (field_type a))))"

lemma send_to_set_errors:
  assumes "appends bs (add_all body)" "send_to_set env T sender t body s = (Inl e, s')"
  shows "e = DatagramOverflow"
proof -
  have "appends (server_header_bytes (target_order env T) sender t @ bs)
      (\<lambda>dg. rbind (add_server_header_set (target_order env T) sender t dg) (add_all body))"
    by (rule appends_seq [OF appends_add_server_header_set assms(1)])
  from appends_Inl [OF this dg_create_ok(1)] assms(2) show ?thesis
    by (cases "rbind (add_server_header_set (target_order env T) sender t dg_create) (add_all body)")
      (auto simp: send_to_set_def dg_create_server_set_def)
qed

lemma save_atomics_errors:
  "\<forall>a \<in> set fs. loops_end (field_type a) \<Longrightarrow> save_atomics fs it s = (Inl e, s') \<Longrightarrow> e \<in> read_errors"
proof (induction fs arbitrary: it s)
  case (Cons f fs)
  show ?case
  proof (cases "unpack_field f it")
    case (Inl x)
    with Cons.prems unpack_errors(1) [of "field_type f" it x] show ?thesis
      by (simp add: unpack_field_def)
  next
    case (Inr r)
    with Cons show ?thesis by (cases r) (auto simp: sseq_apply save_field_put)
  qed
qed simp

lemma one_update_errors:
  assumes cls: "class_ends (do_class s)" and fail: "handle_one_update env it sender s = (Inl e, s')"
  shows "e \<noteq> NoReturn"
proof (cases "read_uint16 it")
  case (Inl x)
  with fail show ?thesis by (auto simp: handle_one_update_def read_uint16_def rbind_eq_Inl dest: read_raw_Inl)
next
  case (Inr r)
  obtain fid it1 where rd: "read_uint16 it = Inr (fid, it1)" using Inr by (cases r) auto
  from fail rd obtain f where f: "get_field_by_id (do_class s) (ucast fid) = Some f"
    by (cases "get_field_by_id (do_class s) (ucast fid)") (auto simp: handle_one_update_def)
  with cls have ends: "loops_end (field_type f)"
    "\<And>fs. as_molecular f = Some fs \<Longrightarrow> \<forall>a \<in> set fs. loops_end (field_type a)"
    by (auto simp: class_ends_def get_field_by_id_def)
  show ?thesis
  proof (cases "unpack_field f it1")
    case (Inl x)
    with unpack_errors(1) [of "field_type f" it1 x] ends(1) have "x \<in> read_errors" by (simp add: unpack_field_def)
    with fail rd f Inl show ?thesis by (auto simp: handle_one_update_def read_errors_def split: if_splits)
  next
    case (Inr r')
    obtain data it2 where up: "unpack_field f it1 = Inr (data, it2)" using Inr by (cases r') auto
    then have c: "consumed it1 data it2" using unpack_consumed(1) by (simp add: unpack_field_def)
    have "length data \<le> DGSIZE_MAX"
    proof (cases "data = []")
      case False
      with c have "it_offset it1 + length data \<le> unat (dg_size (it_dg it1))" by (auto simp: consumed_def)
      then show ?thesis using unsigned_less [of "dg_size (it_dg it1)", where 'a = nat]
        by (simp add: DGSIZE_MAX_def)
    qed simp
    then have ap: "appends (le_bytes 4 me @ le_bytes 2 fid @ data @ []) (add_all [add_doid me, add_uint16 fid, add_data data])" for me
      by (intro appends_intros)
    let ?m = "case as_molecular f of Some atomics \<Rightarrow> save_atomics atomics (seek (tell it1) it2)
      | None \<Rightarrow> sseq (save_field f data) (sret it2)"
    show ?thesis
    proof (cases "?m s")
      case (Pair mr s3)
      show ?thesis
      proof (cases mr)
        case (Inl x)
        have "x \<in> read_errors"
          using Pair Inl ends(2) save_atomics_errors
          by (cases "as_molecular f") (auto simp: sseq_apply save_field_put)
        moreover have "x = e" using fail rd f up Pair Inl
          by (simp add: handle_one_update_def sbind_apply [of ?m])
        ultimately show ?thesis by (auto simp: read_errors_def)
      next
        case (Inr it3)
        with fail rd f up Pair have "send_to_set env (update_targets f sender s3) sender STATESERVER_OBJECT_SET_FIELD
            [add_doid (do_id s3), add_uint16 fid, add_data data] s3 = (Inl e, s')"
          by (auto simp: handle_one_update_def sbind_apply [of ?m] sseq_apply swhen_def simp del: add_all.simps
              split: if_splits prod.splits sum.splits)
        from send_to_set_errors [OF ap this] show ?thesis by simp
      qed
    qed
  qed
qed

lemma update_loop_returns:
  "class_ends (do_class s) \<Longrightarrow> 0 < fuel \<Longrightarrow> 131072 \<le> it_offset it + 2 * fuel \<Longrightarrow>
    fst (update_loop fuel env sender i field_count it s) \<noteq> Inl NoReturn"
proof (induction fuel arbitrary: i it s)
  case (Suc fuel)
  show ?case
  proof (cases "handle_one_update env it sender s")
    case (Pair r s')
    have cls: "class_ends (do_class s')"
      using keepsD [OF keeps_about_update(2) [of "\<lambda>_ c _. class_ends c" env it sender], of s] Suc.prems(1) Pair
      by (simp add: about_def)
    show ?thesis
    proof (cases r)
      case (Inl e)
      with one_update_errors [OF Suc.prems(1)] Pair show ?thesis by (auto simp: sbind_apply)
    next
      case (Inr p)
      obtain ok it' where p: "p = (ok, it')" by (cases p)
      show ?thesis
      proof (cases ok)
        case True
        with one_update_advance [of env it sender s it' s'] Pair Inr p
        have adv: "it_offset it + 2 \<le> it_offset it'" "it_offset it + 2 \<le> unat (dg_size (it_dg it))" by auto
        with unsigned_less [of "dg_size (it_dg it)", where 'a = nat] Suc.prems(3)
        have "0 < fuel" "131072 \<le> it_offset it' + 2 * fuel" by auto
        from Suc.IH [OF cls this, of "i + 1"] True Pair Inr p show ?thesis by (simp add: sbind_apply)
      qed (use Pair Inr p in \<open>simp add: sbind_apply\<close>)
    qed
  qed
qed simp

section \<open>Location changes\<close>

text \<open>The part of an object a message to others does not touch.\<close>

definition only_sends :: "dobj \<Rightarrow> dobj \<Rightarrow> bool" where
  "only_sends s s' \<longleftrightarrow> (\<exists>r more. s' = s\<lparr>required_fields := r, effects := effects s @ map Route more\<rparr>)"

lemma only_sends_refl [simp]: "only_sends s s"
  unfolding only_sends_def by (rule exI [of _ "required_fields s"], rule exI [of _ "[]"]) simp

lemma keeps_only_sends_route [keeps_intros]: "keeps (only_sends s) (route dg)"
  unfolding keeps_def only_sends_def
  by (auto simp: emit_def) (metis append_assoc list.simps(8) list.simps(9) map_append)

lemma keeps_only_sends_ref [keeps_intros]: "keeps (only_sends s) (required_ref f)"
proof -
  have "only_sends s (s'\<lparr>required_fields := r'\<rparr>)" if s': "only_sends s s'" for s' r'
  proof -
    from s' obtain r more where "s' = s\<lparr>required_fields := r, effects := effects s @ map Route more\<rparr>"
      by (auto simp: only_sends_def)
    then have "s'\<lparr>required_fields := r'\<rparr> = s\<lparr>required_fields := r', effects := effects s @ map Route more\<rparr>"
      by simp
    then show ?thesis unfolding only_sends_def by blast
  qed
  then show ?thesis unfolding required_ref_def by (intro keeps_intros keeps_supd)
qed

lemma keeps_only_sends_entry: "keeps (only_sends s) (send_entry l a b pre c ow)"
proof -
  have 1: "keeps (only_sends s) (append_required_fields c ow fs dg)" for fs dg
    by (induction fs arbitrary: dg) (auto intro!: keeps_intros)
  show ?thesis
    unfolding send_entry_def append_required_data_def append_other_data_def Let_def
    by (intro keeps_intros 1)
qed

lemma location_entry_only_sends: "only_sends s (snd (send_location_entry l s))"
  using keepsD [OF keeps_only_sends_entry only_sends_refl] by (simp add: send_location_entry_def)

lemma announce_location:
  assumes env: "env_ok env" and few: "card T \<le> 10"
  shows "\<exists>dg s'. is_message dg (target_order env T) sender STATESERVER_OBJECT_CHANGING_LOCATION
      (le_bytes 4 (do_id s) @ le_bytes 4 p' @ le_bytes 4 z' @ le_bytes 4 p @ le_bytes 4 z)
    \<and> only_sends ((emit [dg] s)\<lparr>parent_synchronized := False\<rparr>) s'
    \<and> snd (announce_location env T sender p' z' p z s) = s'"
proof -
  have ap: "appends (le_bytes 4 (do_id s) @ (le_bytes 4 p' @ le_bytes 4 z') @ (le_bytes 4 p @ le_bytes 4 z) @ [])
      (add_all [add_doid (do_id s), add_location p' z', add_location p z])"
    by (intro appends_intros)
  from send_to_set_emit [OF ap, of env T sender STATESERVER_OBJECT_CHANGING_LOCATION s]
    few length_target_order [OF env, of T]
  obtain dg where dg: "is_message dg (target_order env T) sender STATESERVER_OBJECT_CHANGING_LOCATION
      (le_bytes 4 (do_id s) @ le_bytes 4 p' @ le_bytes 4 z' @ le_bytes 4 p @ le_bytes 4 z)"
    "send_to_set env T sender STATESERVER_OBJECT_CHANGING_LOCATION
      [add_doid (do_id s), add_location p' z', add_location p z] s = (Inr (), emit [dg] s)"
    by auto
  let ?s2 = "(emit [dg] s)\<lparr>parent_synchronized := False\<rparr>"
  have "only_sends ?s2 (snd (announce_location env T sender p' z' p z s))"
    using dg(2) location_entry_only_sends [of ?s2 "location_as_channel p' z'"]
    by (simp add: announce_location_def sseq_apply swhen_def del: add_all.simps)
  with dg(1) show ?thesis by blast
qed

text \<open>Who hears of an object's move to parent \<open>p'\<close>.\<close>

definition location_targets :: "dobj \<Rightarrow> doid \<Rightarrow> channel set" where
  "location_targets s p' = when_set (ai_channel s) \<union> when_set (owner_channel s)
     \<union> (if p' = parent_id s then {doid_channel p', location_as_channel p' (zone_id s)}
        else (if parent_id s \<noteq> 0
              then {doid_channel (parent_id s), location_as_channel (parent_id s) (zone_id s)} else {})
           \<union> (if p' \<noteq> 0 then {doid_channel p'} else {}))"

lemma location_targets_few: "card (location_targets s p') \<le> 10"
proof -
  have "location_targets s p' \<subseteq> set [ai_channel s, owner_channel s, doid_channel p',
      location_as_channel p' (zone_id s), doid_channel (parent_id s), location_as_channel (parent_id s) (zone_id s)]"
    by (auto simp: location_targets_def when_set_def split: if_splits)
  then have "card (location_targets s p') \<le> card (set [ai_channel s, owner_channel s, doid_channel p',
      location_as_channel p' (zone_id s), doid_channel (parent_id s), location_as_channel (parent_id s) (zone_id s)])"
    by (intro card_mono) auto
  also have "\<dots> \<le> 6" by (rule order_trans [OF card_length]) simp
  finally show ?thesis by simp
qed

end
