(* ===== verification/Object_Location.thy ===== *)
theory Object_Location
  imports Object_Laws
begin

text \<open>
  Where an object is: its moves, the messages they send, and the handshake by which the new
  parent learns of it and it learns that the parent knows.
\<close>

section \<open>Moving\<close>

lemma ask_parent_ai_emit:
  "\<exists>q. is_message q [doid_channel (parent_id s)] (doid_channel (do_id s)) STATESERVER_OBJECT_GET_AI
      (le_bytes 4 (next_context s))
    \<and> ask_parent_ai s = (Inr (), (emit [q] s)\<lparr>next_context := next_context s + 1\<rparr>)"
proof -
  let ?to = "doid_channel (parent_id s)" and ?me = "doid_channel (do_id s)"
  obtain d where d: "dg_create_server ?to ?me STATESERVER_OBJECT_GET_AI = Inr d" "dg_ok d"
    "dg_buf d = server_header_bytes [?to] ?me STATESERVER_OBJECT_GET_AI"
    using appends_dg_create [OF appends_add_server_header, of ?to ?me STATESERVER_OBJECT_GET_AI]
    by (auto simp: dg_create_server_def DGSIZE_MAX_def)
  have "buf_offset d = 19" using d(3) by (simp add: buf_offset_def)
  then obtain q where "add_uint32 (next_context s) d = Inr q" "dg_ok q" "dg_buf q = dg_buf d @ le_bytes 4 (next_context s)"
    using appends_ok [OF appends_add(3) d(2), of "next_context s"] by (auto simp: DGSIZE_MAX_def)
  with d show ?thesis
    by (auto simp: ask_parent_ai_def is_message_def emit_def)
qed

lemma only_sendsD:
  assumes "only_sends s s'"
  shows "do_id s' = do_id s" "parent_id s' = parent_id s" "zone_id s' = zone_id s" "ai_channel s' = ai_channel s"
    "owner_channel s' = owner_channel s" "parent_synchronized s' = parent_synchronized s"
    "ai_explicitly_set s' = ai_explicitly_set s" "zone_objects s' = zone_objects s" "do_class s' = do_class s"
    "\<exists>more. effects s' = effects s @ map Route more"
  using assms by (auto simp: only_sends_def)

text \<open>What a move to \<open>(p', z')\<close> does to the object, and the effects it starts with.\<close>

definition moved :: "do_env \<Rightarrow> doid \<Rightarrow> zone \<Rightarrow> channel \<Rightarrow> dobj \<Rightarrow> datagram \<Rightarrow> dobj \<Rightarrow> bool" where
  "moved env p' z' sender s dg s' \<longleftrightarrow>
     do_id s' = do_id s \<and> parent_id s' = p' \<and> zone_id s' = z' \<and> \<not> parent_synchronized s'
   \<and> owner_channel s' = owner_channel s \<and> zone_objects s' = zone_objects s
   \<and> ai_channel s' = (if p' \<noteq> parent_id s \<and> p' = 0 \<and> \<not> ai_explicitly_set s then 0 else ai_channel s)
   \<and> is_message dg (target_order env (location_targets s p')) sender STATESERVER_OBJECT_CHANGING_LOCATION
       (le_bytes 4 (do_id s) @ le_bytes 4 p' @ le_bytes 4 z' @ le_bytes 4 (parent_id s) @ le_bytes 4 (zone_id s))
   \<and> (\<exists>asked entries. effects s' = effects s
        @ (if p' \<noteq> parent_id s \<and> parent_id s \<noteq> 0 then [Unsubscribe (parent_to_children (parent_id s))] else [])
        @ (if p' \<noteq> parent_id s \<and> p' \<noteq> 0 then [Subscribe (parent_to_children p')] else [])
        @ map Route asked @ Route dg # map Route entries
      \<and> (asked = [] \<longleftrightarrow> p' = parent_id s \<or> p' = 0 \<or> ai_explicitly_set s))"

text \<open>The object that already moved and is about to announce it.\<close>

definition relocated :: "dobj \<Rightarrow> doid \<Rightarrow> zone \<Rightarrow> datagram list \<Rightarrow> dobj \<Rightarrow> bool" where
  "relocated s p' z' asked s0 \<longleftrightarrow>
     do_id s0 = do_id s \<and> parent_id s0 = p' \<and> zone_id s0 = z' \<and> owner_channel s0 = owner_channel s
   \<and> zone_objects s0 = zone_objects s \<and> do_class s0 = do_class s
   \<and> required_fields s0 = required_fields s \<and> ram_fields s0 = ram_fields s
   \<and> ai_channel s0 = (if p' \<noteq> parent_id s \<and> p' = 0 \<and> \<not> ai_explicitly_set s then 0 else ai_channel s)
   \<and> effects s0 = effects s
        @ (if p' \<noteq> parent_id s \<and> parent_id s \<noteq> 0 then [Unsubscribe (parent_to_children (parent_id s))] else [])
        @ (if p' \<noteq> parent_id s \<and> p' \<noteq> 0 then [Subscribe (parent_to_children p')] else [])
        @ map Route asked
   \<and> (asked = [] \<longleftrightarrow> p' = parent_id s \<or> p' = 0 \<or> ai_explicitly_set s)"

lemma moved_by_announce:
  assumes env: "env_ok env" and s0: "relocated s p' z' asked s0"
  shows "\<exists>dg. moved env p' z' sender s dg
    (snd (announce_location env (location_targets s p') sender p' z' (parent_id s) (zone_id s) s0))"
proof -
  have me: "do_id s0 = do_id s" using s0 by (simp add: relocated_def)
  obtain dg s' where a: "is_message dg (target_order env (location_targets s p')) sender STATESERVER_OBJECT_CHANGING_LOCATION
      (le_bytes 4 (do_id s) @ le_bytes 4 p' @ le_bytes 4 z' @ le_bytes 4 (parent_id s) @ le_bytes 4 (zone_id s))"
    "only_sends ((emit [dg] s0)\<lparr>parent_synchronized := False\<rparr>) s'"
    "snd (announce_location env (location_targets s p') sender p' z' (parent_id s) (zone_id s) s0) = s'"
    using announce_location [OF env location_targets_few, of s p' sender s0 p' z' "parent_id s" "zone_id s"]
    unfolding me by blast
  from only_sendsD(10) [OF a(2)] obtain entries where "effects s' = effects s0 @ Route dg # map Route entries"
    by (auto simp: emit_def)
  with s0 have "\<exists>asked entries. effects s' = effects s
        @ (if p' \<noteq> parent_id s \<and> parent_id s \<noteq> 0 then [Unsubscribe (parent_to_children (parent_id s))] else [])
        @ (if p' \<noteq> parent_id s \<and> p' \<noteq> 0 then [Subscribe (parent_to_children p')] else [])
        @ map Route asked @ Route dg # map Route entries
      \<and> (asked = [] \<longleftrightarrow> p' = parent_id s \<or> p' = 0 \<or> ai_explicitly_set s)"
    by (intro exI [of _ asked] exI [of _ entries]) (simp add: relocated_def)
  with a(1) only_sendsD(1-8) [OF a(2)] s0 show ?thesis
    unfolding a(3) by (intro exI [of _ dg]) (simp add: moved_def emit_def relocated_def)
qed

text \<open>A location change is the move followed by its announcement.\<close>

lemma location_change_announces:
  assumes self: "p' \<noteq> do_id s" and new: "p' \<noteq> parent_id s \<or> z' \<noteq> zone_id s"
  shows "\<exists>asked s0. relocated s p' z' asked s0 \<and> handle_location_change env p' z' sender s
    = announce_location env (location_targets s p') sender p' z' (parent_id s) (zone_id s) s0"
proof -
  let ?T = "location_targets s p'"
  let ?un = "if parent_id s \<noteq> 0 then [Unsubscribe (parent_to_children (parent_id s))] else []"
  let ?s1 = "s\<lparr>effects := effects s @ ?un, parent_id := p', zone_id := z'\<rparr>"
  consider "p' = parent_id s" | "p' \<noteq> parent_id s" "p' = 0" | "p' \<noteq> parent_id s" "p' \<noteq> 0" by blast
  then show ?thesis
  proof cases
    case 1
    have "handle_location_change env p' z' sender s
      = announce_location env ?T sender p' z' (parent_id s) (zone_id s) (s\<lparr>zone_id := z'\<rparr>)"
      using 1 self new by (simp add: handle_location_change_def Let_def location_targets_def Un_commute)
    then show ?thesis using 1 by (intro exI [of _ "[]"] exI [of _ "s\<lparr>zone_id := z'\<rparr>"]) (simp add: relocated_def)
  next
    case 2
    let ?s0 = "if ai_explicitly_set s then ?s1 else ?s1\<lparr>ai_channel := 0\<rparr>"
    have "handle_location_change env p' z' sender s
      = announce_location env ?T sender p' z' (parent_id s) (zone_id s) ?s0"
      using 2 self by (simp add: handle_location_change_def Let_def location_targets_def effect_def swhen_def
          Un_commute Un_left_commute)
    then show ?thesis using 2 by (intro exI [of _ "[]"] exI [of _ ?s0]) (simp add: relocated_def)
  next
    case 3
    let ?s2 = "?s1\<lparr>effects := effects ?s1 @ [Subscribe (parent_to_children p')]\<rparr>"
    obtain q where q: "ask_parent_ai ?s2 = (Inr (), (emit [q] ?s2)\<lparr>next_context := next_context s + 1\<rparr>)"
      using ask_parent_ai_emit [of ?s2] by auto
    let ?s0 = "if ai_explicitly_set s then ?s2 else (emit [q] ?s2)\<lparr>next_context := next_context s + 1\<rparr>"
    have "handle_location_change env p' z' sender s
      = announce_location env ?T sender p' z' (parent_id s) (zone_id s) ?s0"
      by (cases "parent_id s = 0"; use 3 self q in \<open>simp add: handle_location_change_def Let_def
          location_targets_def effect_def swhen_def sseq_apply Un_commute Un_left_commute Un_insert_right insert_commute\<close>)
    then show ?thesis using 3
      by (intro exI [of _ "if ai_explicitly_set s then [] else [q]"] exI [of _ ?s0]) (simp add: relocated_def emit_def)
  qed
qed

lemma handle_location_change_moved:
  assumes env: "env_ok env" and self: "p' \<noteq> do_id s" and new: "p' \<noteq> parent_id s \<or> z' \<noteq> zone_id s"
  shows "\<exists>dg. moved env p' z' sender s dg (snd (handle_location_change env p' z' sender s))"
  using location_change_announces [OF self new, of env sender] moved_by_announce [OF env] by metis


section \<open>Receiving\<close>

lemma handle_bytes:
  assumes "upcoming it (le_bytes 8 sender @ le_bytes 2 mt @ rest)"
  shows "do_handle_datagram env it = do_dispatch env sender mt (advance it 10)"
    and "upcoming (advance it 10) rest"
proof -
  from assms have up: "upcoming it (le_bytes 8 sender)" "upcoming (advance it 8) (le_bytes 2 mt)"
    "upcoming (advance it 10) rest"
    by (simp_all add: upcoming_append)
  from chanc.rd_upcoming [OF TrueI up(1)] u16c.rd_upcoming [OF TrueI up(2)]
  show "do_handle_datagram env it = do_dispatch env sender mt (advance it 10)"
    by (simp add: do_handle_datagram_def)
  from up(3) show "upcoming (advance it 10) rest" .
qed

text \<open>What the receivers of a message get to see of it.\<close>

lemma message_received:
  assumes "is_message dg tos sender mt body" "length tos \<le> 255"
  shows "\<exists>it. receivers dg = Inr (tos, it) \<and> upcoming it (le_bytes 8 sender @ le_bytes 2 mt @ body)"
  using receivers_header [of dg tos sender mt body] assms by (auto simp: is_message_def)

lemma changing_location_received:
  assumes "upcoming it (le_bytes 4 child @ le_bytes 4 p' @ le_bytes 4 z' @ le_bytes 4 p @ le_bytes 4 z)"
  shows "on_changing_location it = sbind (sget do_id) (\<lambda>me.
     if p' = me then
       (if me = p \<and> z' = z then sret ()
        else
          sseq (swhen (me = p) (supd (\<lambda>s. s\<lparr>zone_objects := erase_child z child (zone_objects s)\<rparr>)))
         (sseq (supd (\<lambda>s. s\<lparr>zone_objects := insert_child z' child (zone_objects s)\<rparr>))
            (send_to (doid_channel child) (doid_channel me) STATESERVER_OBJECT_LOCATION_ACK
               [add_doid me, add_zone z'])))
     else if p = me then
       supd (\<lambda>s. s\<lparr>zone_objects := erase_child z child (zone_objects s)\<rparr>)
     else sret ())"
proof -
  from assms have up: "upcoming it (le_bytes 4 child)" "upcoming (advance it 4) (le_bytes 4 p')"
    "upcoming (advance it 8) (le_bytes 4 z')" "upcoming (advance it 12) (le_bytes 4 p)"
    "upcoming (advance it 16) (le_bytes 4 z)"
    by (simp_all add: upcoming_append)
  from doidc.rd_upcoming [OF TrueI up(1)] doidc.rd_upcoming [OF TrueI up(2)] zonec.rd_upcoming [OF TrueI up(3)]
    doidc.rd_upcoming [OF TrueI up(4)] zonec.rd_upcoming [OF TrueI up(5)]
  show ?thesis by (intro ext) (simp add: on_changing_location_def)
qed

text \<open>The child table after the message.\<close>

definition relocate :: "doid \<Rightarrow> doid \<Rightarrow> doid \<Rightarrow> zone \<Rightarrow> doid \<Rightarrow> zone \<Rightarrow> (zone \<rightharpoonup> doid set) \<Rightarrow> (zone \<rightharpoonup> doid set)" where
  "relocate me child p' z' p z zo =
     (let zo1 = (if p = me \<and> \<not> (p' = me \<and> z' = z) then erase_child z child zo else zo)
      in if p' = me \<and> \<not> (p = me \<and> z' = z) then insert_child z' child zo1 else zo1)"

lemma parent_relocates:
  fixes sender :: channel
  assumes "upcoming it (le_bytes 8 sender @ le_bytes 2 STATESERVER_OBJECT_CHANGING_LOCATION
      @ le_bytes 4 child @ le_bytes 4 p' @ le_bytes 4 z' @ le_bytes 4 p @ le_bytes 4 z)"
  shows "\<exists>acks. do_handle_datagram env it s = (Inr (),
      emit acks (s\<lparr>zone_objects := relocate (do_id s) child p' z' p z (zone_objects s)\<rparr>))
    \<and> (if p' = do_id s \<and> \<not> (p = do_id s \<and> z' = z)
       then \<exists>ack. acks = [ack] \<and> is_message ack [doid_channel child] (doid_channel (do_id s))
              STATESERVER_OBJECT_LOCATION_ACK (le_bytes 4 (do_id s) @ le_bytes 4 z')
       else acks = [])"
proof -
  note hb = handle_bytes [OF assms]
  have h: "do_handle_datagram env it = on_changing_location (advance it 10)"
    by (simp add: hb(1) do_dispatch_def)
  have ap: "appends (le_bytes 4 (do_id s) @ le_bytes 4 z' @ []) (add_all [add_doid (do_id s), add_zone z'])"
    by (intro appends_intros)
  define zo where "zo = relocate (do_id s) child p' z' p z (zone_objects s)"
  show ?thesis
  proof (cases "p' = do_id s \<and> \<not> (p = do_id s \<and> z' = z)")
    case True
    obtain ack where ack: "is_message ack [doid_channel child] (doid_channel (do_id s))
        STATESERVER_OBJECT_LOCATION_ACK (le_bytes 4 (do_id s) @ le_bytes 4 z')"
      "send_to (doid_channel child) (doid_channel (do_id s)) STATESERVER_OBJECT_LOCATION_ACK
        [add_doid (do_id s), add_zone z'] (s\<lparr>zone_objects := zo\<rparr>) = (Inr (), emit [ack] (s\<lparr>zone_objects := zo\<rparr>))"
      using send_to_emit [OF ap, of "doid_channel child" "doid_channel (do_id s)" STATESERVER_OBJECT_LOCATION_ACK]
      by auto
    have zo: "zo = insert_child z' child (if p = do_id s then erase_child z child (zone_objects s) else zone_objects s)"
      using True by (auto simp: zo_def relocate_def Let_def)
    have "on_changing_location (advance it 10) s = (Inr (), emit [ack] (s\<lparr>zone_objects := zo\<rparr>))"
      using True ack(2) unfolding changing_location_received [OF hb(2)] zo
      by (cases "p = do_id s") (simp_all del: add_all.simps)
    with ack(1) True show ?thesis unfolding h zo_def [symmetric] by auto
  next
    case False
    have zo: "zo = (if p' \<noteq> do_id s \<and> p = do_id s then erase_child z child (zone_objects s) else zone_objects s)"
      using False by (auto simp: zo_def relocate_def Let_def)
    have "on_changing_location (advance it 10) s = (Inr (), emit [] (s\<lparr>zone_objects := zo\<rparr>))"
      using False unfolding changing_location_received [OF hb(2)] zo
      by (auto simp: emit_def)
    with False show ?thesis unfolding h zo_def [symmetric] by auto
  qed
qed

lemma location_ack_received:
  fixes sender :: channel
  assumes "upcoming it (le_bytes 8 sender @ le_bytes 2 STATESERVER_OBJECT_LOCATION_ACK @ le_bytes 4 p @ le_bytes 4 z)"
  shows "do_handle_datagram env it s =
    (Inr (), if p = parent_id s \<and> z = zone_id s then s\<lparr>parent_synchronized := True\<rparr> else s)"
proof -
  note hb = handle_bytes [OF assms]
  from hb(2) have up: "upcoming (advance it 10) (le_bytes 4 p)" "upcoming (advance it 14) (le_bytes 4 z)"
    by (simp_all add: upcoming_append)
  from doidc.rd_upcoming [OF TrueI up(1)] zonec.rd_upcoming [OF TrueI up(2)]
  show ?thesis by (simp add: hb(1) do_dispatch_def on_location_ack_def)
qed

end
