(* ===== verification/DBSS_Laws.thy ===== *)
theory DBSS_Laws
  imports DB_State_Server Object_Location
begin

text \<open>
  Facts about the database state server and its loaders that their properties share: the
  messages sent, the stubs of pending responses, reading requests and answers.
\<close>

section \<open>Messages\<close>

definition dbss_sent :: "datagram \<Rightarrow> dbss \<Rightarrow> dbss" where
  "dbss_sent q s = s\<lparr>dbss_log := dbss_log s @ [DbssRoute q]\<rparr>"

lemma dbss_effect_apply [simp]: "dbss_effect e s = (Inr (), s\<lparr>dbss_log := dbss_log s @ [e]\<rparr>)"
  by (simp add: dbss_effect_def)

lemma dbss_route_apply [simp]: "dbss_route q s = (Inr (), dbss_sent q s)"
  by (simp add: dbss_route_def dbss_sent_def)

lemma db_context_apply [simp]:
  "take_context s = (Inr (db_next_context s), s\<lparr>db_next_context := db_next_context s + 1\<rparr>)"
  by (simp add: take_context_def)

lemma created_message:
  assumes "appends bs (add_all body)" "19 + length bs \<le> DGSIZE_MAX"
  shows "\<exists>q. is_message q [target] sender t bs
    \<and> rbind (dg_create_server target sender t) (add_all body) = Inr q"
proof -
  have "appends (server_header_bytes [target] sender t @ bs)
      (\<lambda>dg. rbind (add_server_header target sender t dg) (add_all body))"
    by (rule appends_seq [OF appends_add_server_header assms(1)])
  from appends_dg_create [OF this] assms(2) show ?thesis
    by (auto simp: dg_create_server_def is_message_def)
qed

lemma dbss_send_sent:
  assumes "appends bs (add_all body)" "19 + length bs \<le> DGSIZE_MAX"
  shows "\<exists>q. is_message q [target] sender t bs \<and> dbss_send target sender t body s = (Inr (), dbss_sent q s)"
  using created_message [OF assms, of target sender t] by (auto simp: dbss_send_def)

lemma dbss_sent_fields [simp]:
  "dbss_objs (dbss_sent q s) = dbss_objs s" "loading (dbss_sent q s) = loading s"
  "context_datagrams (dbss_sent q s) = context_datagrams s" "inactive_loads (dbss_sent q s) = inactive_loads s"
  "dbss_log (dbss_sent q s) = dbss_log s @ [DbssRoute q]" "db_next_context (dbss_sent q s) = db_next_context s"
  by (simp_all add: dbss_sent_def)

lemma dbss_bytes:
  assumes "upcoming it (le_bytes 8 sender @ le_bytes 2 mt @ rest)"
  shows "dbss_handle_datagram env it = dbss_dispatch env sender mt (advance it 10)"
    and "upcoming (advance it 10) rest"
proof -
  from read_channel_upcoming [OF assms] have 1: "read_channel it = Inr (sender, advance it 8)"
    "upcoming (advance it 8) (le_bytes 2 mt @ rest)" by simp_all
  from read_uint16_upcoming [OF 1(2)] 1 show "dbss_handle_datagram env it = dbss_dispatch env sender mt (advance it 10)"
    "upcoming (advance it 10) rest"
    by (simp_all add: dbss_handle_datagram_def)
qed

section \<open>Reading to the end\<close>

text \<open>\<open>exactly it bs\<close>: the unread part of the datagram is \<open>bs\<close>.\<close>

definition exactly :: "dgi \<Rightarrow> bytes \<Rightarrow> bool" where
  "exactly it bs \<longleftrightarrow> dg_ok (it_dg it) \<and> it_offset it \<le> length (dg_buf (it_dg it))
     \<and> drop (it_offset it) (dg_buf (it_dg it)) = bs"

lemma exactly_upcoming: "exactly it bs \<Longrightarrow> upcoming it bs"
  by (auto simp: exactly_def upcoming_def dg_ok_size)

lemma exactly_drop: "exactly it (as @ bs) \<Longrightarrow> n = length as \<Longrightarrow> exactly (advance it n) bs"
proof -
  assume ex: "exactly it (as @ bs)" and n: "n = length as"
  then have eq: "drop (it_offset it) (dg_buf (it_dg it)) = as @ bs" by (simp add: exactly_def)
  have "drop (it_offset it + n) (dg_buf (it_dg it)) = drop n (drop (it_offset it) (dg_buf (it_dg it)))"
    by (simp add: add.commute)
  with eq n have "drop (it_offset it + n) (dg_buf (it_dg it)) = bs" by simp
  moreover have "length (dg_buf (it_dg it)) - it_offset it = length as + length bs"
    using arg_cong [OF eq, of length] by simp
  ultimately show "exactly (advance it n) bs" using ex n by (auto simp: exactly_def)
qed

lemma read_remainder_exactly: "exactly it bs \<Longrightarrow> read_remainder it = Inr (bs, advance it (length bs))"
proof -
  assume ex: "exactly it bs"
  then have len: "length bs = length (dg_buf (it_dg it)) - it_offset it" "length bs \<le> DGSIZE_MAX"
    by (auto simp: exactly_def dg_ok_def buf_offset_def)
  have "get_remaining it = word_of_nat (length bs)"
    using ex len(1) by (simp add: get_remaining_def exactly_def dg_ok_size of_nat_diff)
  then have n: "unat (get_remaining it) = length bs" using unat_of_short_length [OF len(2)] by simp
  from read_raw_upcoming [OF exactly_upcoming [OF ex] n [symmetric]] show ?thesis
    by (simp add: read_remainder_def read_data_def)
qed

lemma message_received_exactly:
  assumes "is_message dg tos sender mt body" "length tos \<le> 255"
  shows "\<exists>it. receivers dg = Inr (tos, it) \<and> exactly it (le_bytes 8 sender @ le_bytes 2 mt @ body)"
proof -
  have dg: "dg_ok dg" "dg_buf dg = server_header_bytes tos sender mt @ body"
    using assms(1) by (simp_all add: is_message_def)
  from receivers_header(1) [OF dg] assms(2)
  have r: "receivers dg = Inr (tos, advance (start dg) (1 + 8 * length tos))" by simp
  have "exactly (advance (start dg) (1 + 8 * length tos)) (le_bytes 8 sender @ le_bytes 2 mt @ body)"
    using dg by (simp add: exactly_def start_def advance_def server_header_bytes_def)
  with r show ?thesis by blast
qed

section \<open>Stubs of pending responses\<close>

lemma server_header_one: "server_header_bytes [t] sender mt = 1 # le_bytes 8 t @ le_bytes 8 sender @ le_bytes 2 mt"
  by (simp add: server_header_bytes_def le_bytes.simps)

lemma message_start:
  assumes "is_message dg [t] sender mt body"
  shows "upcoming (start dg) (1 # le_bytes 8 t @ le_bytes 8 sender @ le_bytes 2 mt @ body)"
    and "get_recipient_count (it\<lparr>it_dg := dg\<rparr>) = Inr 1"
proof -
  from assms have dg: "dg_ok dg" "dg_buf dg = 1 # le_bytes 8 t @ le_bytes 8 sender @ le_bytes 2 mt @ body"
    by (simp_all add: is_message_def server_header_one)
  from start_upcoming [OF dg(1)] show "upcoming (start dg) (1 # le_bytes 8 t @ le_bytes 8 sender @ le_bytes 2 mt @ body)"
    by (simp add: dg(2))
  then have "0 < unat (dg_size dg)" by (simp add: upcoming_def start_def)
  then have "dg_size dg > 0" by (simp add: word_gt_0_unat)
  with dg(2) show "get_recipient_count (it\<lparr>it_dg := dg\<rparr>) = Inr 1" by (simp add: get_recipient_count_def)
qed

lemma message_parts:
  assumes "is_message dg [t] sender mt body"
  shows "upcoming (advance (start dg) 17) (le_bytes 2 mt @ body)"
    and "upcoming (advance (start dg) 9) (le_bytes 8 sender @ le_bytes 2 mt @ body)"
proof -
  have "upcoming (start dg) ((1 # le_bytes 8 t) @ le_bytes 8 sender @ le_bytes 2 mt @ body)"
    using message_start(1) [OF assms] by simp
  then show payload: "upcoming (advance (start dg) 9) (le_bytes 8 sender @ le_bytes 2 mt @ body)"
    unfolding upcoming_append [of _ "1 # le_bytes 8 t"] by simp
  then show "upcoming (advance (start dg) 17) (le_bytes 2 mt @ body)"
    unfolding upcoming_append [of _ "le_bytes 8 sender"] by simp
qed

lemma stub_type:
  assumes "is_message dg [t] sender mt body"
  shows "\<exists>it. rbind (dgi_new dg 0) get_msg_type = Inr (mt, it)"
proof -
  have off: "(start dg)\<lparr>it_offset := 17\<rparr> = advance (start dg) 17" by (simp add: start_def advance_def)
  from read_uint16_upcoming [OF message_parts(1) [OF assms]]
  have rd: "read_uint16 ((start dg)\<lparr>it_offset := 17\<rparr>) = Inr (mt, advance (start dg) 19)"
    by (simp add: off)
  have "get_recipient_count (start dg) = Inr 1"
    using message_start(2) [OF assms, of "start dg"] by (simp add: start_def)
  with rd show ?thesis by (simp add: get_msg_type_def)
qed

lemma stub_payload:
  assumes "is_message dg [t] sender mt body"
  shows "rbind (dgi_new dg 0) seek_payload = Inr (advance (start dg) 9)"
proof -
  have "get_recipient_count (start dg) = Inr 1"
    using message_start(2) [OF assms, of "start dg"] by (simp add: start_def)
  then show ?thesis by (simp add: seek_payload_def start_def advance_def)
qed

text \<open>
  The object number that the answer of \<open>GET_ALL\<close> is attributed to: the upper half of the
  requester's context and the lower half of the object's number.
\<close>

definition misread_doid :: "u32 \<Rightarrow> doid \<Rightarrow> doid" where
  "misread_doid ctx d = le_word (drop 2 (le_bytes 4 ctx) @ take 2 (le_bytes 4 d))"

lemma upcoming_drop: "upcoming it (as @ bs) \<Longrightarrow> n = length as \<Longrightarrow> upcoming (advance it n) bs"
  by (simp add: upcoming_append)

lemma answered_object_misread:
  assumes "is_message stub [t] sender mt (le_bytes 4 (ctx :: u32) @ le_bytes 4 (d :: doid) @ rest)"
  shows "answered_object stub = Inr (misread_doid ctx d)"
proof -
  let ?bs = "drop 2 (le_bytes 4 ctx) @ take 2 (le_bytes 4 d)"
  have split: "le_bytes 4 ctx @ le_bytes 4 d @ rest
      = take 2 (le_bytes 4 ctx) @ ?bs @ drop 2 (le_bytes 4 d) @ rest"
    by (simp add: append_assoc [symmetric] del: append_assoc) (simp only: append_assoc append_take_drop_id)
  from message_parts(2) [OF assms] have up: "upcoming (advance (start stub) 9)
      ((le_bytes 8 sender @ le_bytes 2 mt @ take 2 (le_bytes 4 ctx)) @ ?bs @ drop 2 (le_bytes 4 d) @ rest)"
    unfolding split by (simp only: append_assoc)
  then have end_ok: "it_offset (advance (start stub) 9) + unat (12 :: u16) \<le> unat (dg_size stub)"
    by (simp add: upcoming_def start_def advance_def)
  have skip: "skip_bytes 12 (advance (start stub) 9) = Inr (advance (start stub) 21)"
    using end_ok by (simp add: skip_bytes_def check_read_length_def start_def advance_def)
  from upcoming_drop [OF up, of 12] have "upcoming (advance (start stub) 21) ?bs"
    by (simp add: upcoming_append)
  then have "read_raw 4 (advance (start stub) 21) = Inr (?bs, advance (start stub) 25)"
    by (subst read_raw_upcoming [of _ ?bs]) simp_all
  with skip stub_payload [OF assms] show ?thesis
    by (simp add: answered_object_def misread_doid_def read_doid_def)
qed

lemma le_nat_append: "le_nat (xs @ ys) = le_nat xs + 256 ^ length xs * le_nat ys"
  by (induction xs) (simp_all add: algebra_simps)

lemma le_nat_take: "le_nat (take k (le_bytes n w)) = unat w mod 256 ^ min k n"
proof -
  have "le_nat (le_bytes n w) = le_nat (take k (le_bytes n w)) + 256 ^ min k n * le_nat (drop k (le_bytes n w))"
    using le_nat_append [of "take k (le_bytes n w)" "drop k (le_bytes n w)"] by (simp add: min.commute)
  moreover have "le_nat (take k (le_bytes n w)) < 256 ^ min k n"
    using le_nat_bound [of "take k (le_bytes n w)"] by (simp add: min.commute)
  ultimately have "le_nat (take k (le_bytes n w)) = le_nat (le_bytes n w) mod 256 ^ min k n" by simp
  then show ?thesis
    by (simp add: le_nat_le_bytes mod_mod_cancel le_imp_power_dvd)
qed

lemma le_nat_drop: "k \<le> n \<Longrightarrow> le_nat (drop k (le_bytes n w)) = unat w mod 256 ^ n div 256 ^ k"
proof -
  assume "k \<le> n"
  then have "le_nat (le_bytes n w) = le_nat (take k (le_bytes n w)) + 256 ^ k * le_nat (drop k (le_bytes n w))"
    using le_nat_append [of "take k (le_bytes n w)" "drop k (le_bytes n w)"] by simp
  moreover have "le_nat (take k (le_bytes n w)) < 256 ^ k"
    using le_nat_bound [of "take k (le_bytes n w)"] \<open>k \<le> n\<close> by simp
  ultimately show ?thesis by (simp add: le_nat_le_bytes)
qed

lemma unat_misread: "unat (misread_doid ctx d) = unat ctx div 65536 + 65536 * (unat d mod 65536)"
proof -
  have ctx_bound: "unat ctx < 4294967296" by (rule order_less_le_trans [OF unsigned_less]) simp
  have ctx: "unat ctx mod 4294967296 = unat ctx" "unat ctx div 65536 < 65536"
    using ctx_bound by (simp_all add: less_mult_imp_div_less)
  have "unat ctx div 65536 + 65536 * (unat d mod 65536) < 4294967296"
    using ctx(2) mod_less_divisor [of 65536 "unat d"] by linarith
  moreover have "le_nat (drop 2 (le_bytes 4 ctx) @ take 2 (le_bytes 4 d)) = unat ctx div 65536 + 65536 * (unat d mod 65536)"
    by (simp add: le_nat_append le_nat_take le_nat_drop ctx(1))
  ultimately show ?thesis
    unfolding misread_doid_def le_word_def by (simp only: unsigned_of_nat of_nat_id) (simp add: take_bit_nat_eq_self)
qed

lemma misread_other:
  assumes "unat ctx < 65536" "d \<noteq> 0"
  shows "misread_doid ctx d \<noteq> d"
proof
  assume "misread_doid ctx d = d"
  with unat_misread [of ctx d] assms(1) have eq: "unat d = 65536 * (unat d mod 65536)" by simp
  then have "unat d mod 65536 = 0" by (metis mod_mult_self1_is_0)
  with eq have "unat d = 0" by simp
  with assms(2) show False by (simp add: unat_eq_zero)
qed

section \<open>Queries and their answers\<close>

lemma get_all_run:
  fixes ctx :: u32 and d :: doid
  assumes up: "upcoming it (le_bytes 4 ctx @ le_bytes 4 d)" and inactive: "\<not> is_activated_object s d"
  shows "\<exists>stub q. is_message stub [sender] (doid_channel d) STATESERVER_OBJECT_GET_ALL_RESP
      (le_bytes 4 ctx @ le_bytes 4 d @ le_bytes 8 (0 :: channel))
    \<and> is_message q [db_channel env] (doid_channel d) DBSERVER_OBJECT_GET_ALL (le_bytes 4 (db_next_context s) @ le_bytes 4 d)
    \<and> dbss_get_all env sender it s = (Inr (), dbss_sent q (s\<lparr>db_next_context := db_next_context s + 1,
        context_datagrams := (context_datagrams s)(db_next_context s \<mapsto> stub),
        inactive_loads := (inactive_loads s)(d \<mapsto>
          insert (db_next_context s) (case inactive_loads s d of None \<Rightarrow> {} | Some cs \<Rightarrow> cs))\<rparr>))"
proof -
  note ctx = read_uint32_upcoming [OF up]
  from ctx have "upcoming (advance it 4) (le_bytes 4 d @ [])" by simp
  note d = read_doid_upcoming [OF this]
  have "appends (le_bytes 4 ctx @ le_bytes 4 d @ le_bytes 8 (0 :: channel) @ [])
      (add_all [add_uint32 ctx, add_doid d, add_channel 0])"
    by (intro appends_intros)
  from created_message [OF this, of sender "doid_channel d" STATESERVER_OBJECT_GET_ALL_RESP]
  obtain stub where stub: "is_message stub [sender] (doid_channel d) STATESERVER_OBJECT_GET_ALL_RESP
      (le_bytes 4 ctx @ le_bytes 4 d @ le_bytes 8 (0 :: channel))"
    "rbind (dg_create_server sender (doid_channel d) STATESERVER_OBJECT_GET_ALL_RESP)
      (add_all [add_uint32 ctx, add_doid d, add_channel 0]) = Inr stub"
    by (auto simp: DGSIZE_MAX_def)
  let ?s = "s\<lparr>db_next_context := db_next_context s + 1,
        context_datagrams := (context_datagrams s)(db_next_context s \<mapsto> stub),
        inactive_loads := (inactive_loads s)(d \<mapsto>
          insert (db_next_context s) (case inactive_loads s d of None \<Rightarrow> {} | Some cs \<Rightarrow> cs))\<rparr>"
  have "appends (le_bytes 4 (db_next_context s) @ le_bytes 4 d @ [])
      (add_all [add_uint32 (db_next_context s), add_doid d])"
    by (intro appends_intros)
  from dbss_send_sent [OF this, of "db_channel env" "doid_channel d" DBSERVER_OBJECT_GET_ALL ?s]
  obtain q where "is_message q [db_channel env] (doid_channel d) DBSERVER_OBJECT_GET_ALL
      (le_bytes 4 (db_next_context s) @ le_bytes 4 d)"
    "dbss_send (db_channel env) (doid_channel d) DBSERVER_OBJECT_GET_ALL [add_uint32 (db_next_context s), add_doid d] ?s
      = (Inr (), dbss_sent q ?s)"
    by (auto simp: DGSIZE_MAX_def)
  with stub inactive ctx d show ?thesis
    by (intro exI [of _ stub] exI [of _ q])
      (simp add: dbss_get_all_def sbind_ok [of take_context] del: add_all.simps)
qed

lemma expected_response_run:
  assumes "upcoming it (le_bytes 4 c @ rest)" "context_datagrams s c = Some stub"
    "is_message stub [t] sender mt stub_body"
  shows "expected_response mt it body s = body c stub (advance it 4) (s\<lparr>context_datagrams := (context_datagrams s)(c := None)\<rparr>)"
    and "upcoming (advance it 4) rest"
proof -
  from stub_type [OF assms(3)] obtain i where "rbind (dgi_new stub 0) get_msg_type = Inr (mt, i)" by blast
  with read_uint32_upcoming [OF assms(1)] assms(2)
  show "expected_response mt it body s = body c stub (advance it 4) (s\<lparr>context_datagrams := (context_datagrams s)(c := None)\<rparr>)"
    "upcoming (advance it 4) rest"
    by (simp_all add: expected_response_def)
qed

text \<open>A query for one field that is stored in the database, and the database's answer to it.\<close>

lemma get_field_query:
  fixes ctx :: u32 and d :: doid and fid :: u16
  assumes up: "upcoming it (le_bytes 4 ctx @ le_bytes 4 d @ le_bytes 2 fid)" and inactive: "\<not> is_activated_object s d"
    and f: "field_by_id env fid = Some f" "has_keyword f ''required'' \<or> has_keyword f ''ram''" "has_keyword f ''db''"
  shows "\<exists>stub q. is_message stub [sender] (doid_channel d) STATESERVER_OBJECT_GET_FIELD_RESP (le_bytes 4 ctx)
    \<and> is_message q [db_channel env] (doid_channel d) DBSERVER_OBJECT_GET_FIELD
        (le_bytes 4 (db_next_context s) @ le_bytes 4 d @ le_bytes 2 fid)
    \<and> dbss_get_field env sender it s = (Inr (), dbss_sent q (s\<lparr>db_next_context := db_next_context s + 1,
        context_datagrams := (context_datagrams s)(db_next_context s \<mapsto> stub)\<rparr>))"
proof -
  note ctx = read_uint32_upcoming [OF up]
  note d = read_doid_upcoming [OF conjunct2 [OF ctx]]
  from d have "upcoming (advance it 8) (le_bytes 2 fid @ [])" by simp
  note fid = read_uint16_upcoming [OF this]
  have "appends (le_bytes 4 ctx @ []) (add_all [add_uint32 ctx])" by (intro appends_intros)
  from created_message [OF this, of sender "doid_channel d" STATESERVER_OBJECT_GET_FIELD_RESP]
  obtain stub where stub: "is_message stub [sender] (doid_channel d) STATESERVER_OBJECT_GET_FIELD_RESP (le_bytes 4 ctx)"
    "rbind (dg_create_server sender (doid_channel d) STATESERVER_OBJECT_GET_FIELD_RESP) (add_all [add_uint32 ctx]) = Inr stub"
    by (auto simp: DGSIZE_MAX_def)
  have one: "add_all [a] dg = a dg" for a dg by (cases "a dg") simp_all
  let ?s = "s\<lparr>db_next_context := db_next_context s + 1,
        context_datagrams := (context_datagrams s)(db_next_context s \<mapsto> stub)\<rparr>"
  have "appends (le_bytes 4 (db_next_context s) @ le_bytes 4 d @ le_bytes 2 fid @ [])
      (add_all [add_uint32 (db_next_context s), add_doid d, add_uint16 fid])"
    by (intro appends_intros)
  from dbss_send_sent [OF this, of "db_channel env" "doid_channel d" DBSERVER_OBJECT_GET_FIELD ?s]
  obtain q where "is_message q [db_channel env] (doid_channel d) DBSERVER_OBJECT_GET_FIELD
      (le_bytes 4 (db_next_context s) @ le_bytes 4 d @ le_bytes 2 fid)"
    "dbss_send (db_channel env) (doid_channel d) DBSERVER_OBJECT_GET_FIELD
        [add_uint32 (db_next_context s), add_doid d, add_uint16 fid] ?s = (Inr (), dbss_sent q ?s)"
    by (auto simp: DGSIZE_MAX_def)
  with stub inactive f ctx d fid show ?thesis
    by (intro exI [of _ stub] exI [of _ q])
      (simp add: dbss_get_field_def sbind_ok [of take_context] one [abs_def] del: add_all.simps)
qed

lemma get_field_answer:
  assumes it: "exactly it (le_bytes 4 c @ data)" and stub: "context_datagrams s c = Some stub"
    and msg: "is_message stub [t] sender STATESERVER_OBJECT_GET_FIELD_RESP body" and len: "length body + length data \<le> 60000"
  shows "\<exists>a. is_message a [t] sender STATESERVER_OBJECT_GET_FIELD_RESP (body @ data)
    \<and> handle_get_field_resp it s = (Inr (), dbss_sent a (s\<lparr>context_datagrams := (context_datagrams s)(c := None)\<rparr>))"
proof -
  note rest = exactly_drop [OF it, of 4, simplified]
  have stub_ok: "dg_ok stub" "dg_buf stub = server_header_bytes [t] sender STATESERVER_OBJECT_GET_FIELD_RESP @ body"
    using msg by (simp_all add: is_message_def)
  have "length data \<le> DGSIZE_MAX" using len by (simp add: DGSIZE_MAX_def)
  from appends_ok [OF appends_add_data [OF this] stub_ok(1)] len obtain a where
    a: "add_data data stub = Inr a" "dg_ok a" "dg_buf a = dg_buf stub @ data"
    by (auto simp: buf_offset_def stub_ok(2) DGSIZE_MAX_def)
  have "handle_get_field_resp it s = (Inr (), dbss_sent a (s\<lparr>context_datagrams := (context_datagrams s)(c := None)\<rparr>))"
    unfolding handle_get_field_resp_def expected_response_run(1) [OF exactly_upcoming [OF it] stub msg]
    by (simp add: read_remainder_exactly [OF rest] a(1))
  with a(2,3) stub_ok(2) show ?thesis by (auto simp: is_message_def)
qed

text \<open>An activation without values: the loader, and whether it asks the database.\<close>

lemma activate_run:
  fixes d parent :: doid and zn :: zone
  assumes up: "upcoming it (le_bytes 4 d @ le_bytes 4 parent @ le_bytes 4 zn)" and inactive: "\<not> is_activated_object s d"
  defines "ld \<equiv> \<lparr>ld_parent = parent, ld_zone = zn, ld_context = db_next_context s, ld_class = None,
    field_updates = Map.empty, valid_contexts = (case inactive_loads s d of None \<Rightarrow> {} | Some cs \<Rightarrow> cs),
    datagram_queue = [], is_loaded = False\<rparr>"
  shows "\<exists>es. handle_activate env it False s = (Inr (), s\<lparr>db_next_context := db_next_context s + 1,
      loading := (loading s)(d \<mapsto> ld), dbss_log := dbss_log s @ LoaderSubscribe d # es\<rparr>)
    \<and> (if inactive_loads s d = None
       then \<exists>q. es = [LoaderRoute d q] \<and> is_message q [db_channel env] (doid_channel d) DBSERVER_OBJECT_GET_ALL
              (le_bytes 4 (db_next_context s) @ le_bytes 4 d)
       else es = [])"
proof -
  note d = read_doid_upcoming [OF up]
  note parent = read_doid_upcoming [OF conjunct2 [OF d]]
  from parent have "upcoming (advance it 8) (le_bytes 4 zn @ [])" by simp
  note zn = read_zone_upcoming [OF this]
  have "appends (le_bytes 4 (db_next_context s) @ le_bytes 4 d @ [])
      (add_all [add_uint32 (db_next_context s), add_doid d])"
    by (intro appends_intros)
  from created_message [OF this, of "db_channel env" "doid_channel d" DBSERVER_OBJECT_GET_ALL]
  obtain q where q: "is_message q [db_channel env] (doid_channel d) DBSERVER_OBJECT_GET_ALL
      (le_bytes 4 (db_next_context s) @ le_bytes 4 d)"
    "rbind (dg_create_server (db_channel env) (doid_channel d) DBSERVER_OBJECT_GET_ALL)
      (add_all [add_uint32 (db_next_context s), add_doid d]) = Inr q"
    by (auto simp: DGSIZE_MAX_def)
  let ?es = "if inactive_loads s d = None then [LoaderRoute d q] else []"
  have "handle_activate env it False s = (Inr (), s\<lparr>db_next_context := db_next_context s + 1,
      loading := (loading s)(d \<mapsto> ld), dbss_log := dbss_log s @ LoaderSubscribe d # ?es\<rparr>)"
    using d parent zn inactive q(2)
    by (cases "inactive_loads s d")
      (simp_all add: handle_activate_def start_loader_def loader_new_def loader_begin_def ld_def sbind_apply sseq_apply
        del: add_all.simps)
  with q(1) show ?thesis by (cases "inactive_loads s d") auto
qed

end
