(* ===== verification/DBSS_Invariant.thy ===== *)
theory DBSS_Invariant
  imports DBSS_Laws
begin

text \<open>
  The invariant of the database state server's tables and its preservation by every handler of
  the server, of the loaders and of the active objects.
\<close>

section \<open>What holds of the tables\<close>

definition payload :: "datagram \<Rightarrow> dgi res" where
  "payload dg = rbind (dgi_new dg 0) seek_payload"

definition message_type :: "dgi \<Rightarrow> u16 res" where
  "message_type it = rbind (read_channel it) (\<lambda>(_, it). rbind (read_uint16 it) (\<lambda>(t, _). Inr t))"

text \<open>An activation of an object, which no loader keeps in its queue.\<close>

definition is_activation :: "datagram \<Rightarrow> bool" where
  "is_activation dg \<longleftrightarrow> rbind (payload dg) message_type
     \<in> {Inr DBSS_OBJECT_ACTIVATE_WITH_DEFAULTS, Inr DBSS_OBJECT_ACTIVATE_WITH_DEFAULTS_OTHER}"

text \<open>A response kept for a pending query.\<close>

definition is_stub :: "datagram \<Rightarrow> bool" where
  "is_stub dg \<longleftrightarrow> (\<exists>t sender mt body. is_message dg [t] sender mt body
     \<and> mt \<in> {STATESERVER_OBJECT_GET_FIELD_RESP, STATESERVER_OBJECT_GET_FIELDS_RESP, STATESERVER_OBJECT_GET_ALL_RESP}
     \<and> (mt = STATESERVER_OBJECT_GET_ALL_RESP \<longrightarrow> 16 \<le> length body))"

definition objects_ok :: "(doid \<rightharpoonup> dobj) \<Rightarrow> (doid \<rightharpoonup> loader) \<Rightarrow> bool" where
  "objects_ok objs loads \<longleftrightarrow> (\<forall>d obj. objs d = Some obj \<longrightarrow> do_id obj = d)
     \<and> (\<forall>d ld. loads d = Some ld \<and> objs d \<noteq> None \<longrightarrow> is_loaded ld)
     \<and> (\<forall>d ld dg. loads d = Some ld \<and> dg \<in> set (datagram_queue ld) \<longrightarrow> \<not> is_activation dg)"

definition dbss_ok :: "dbss \<Rightarrow> bool" where
  "dbss_ok s \<longleftrightarrow> objects_ok (dbss_objs s) (loading s) \<and> (\<forall>dg \<in> ran (context_datagrams s). is_stub dg)"

definition defaults_short :: "dbss_env \<Rightarrow> bool" where
  "defaults_short env \<longleftrightarrow> (\<forall>fid f. field_by_id env fid = Some f \<longrightarrow> length (field_default f) \<le> DGSIZE_MAX)"

lemma dbss_ok_update [simp]:
  "dbss_ok (s\<lparr>dbss_log := l\<rparr>) = dbss_ok s" "dbss_ok (s\<lparr>db_next_context := c\<rparr>) = dbss_ok s"
  "dbss_ok (s\<lparr>inactive_loads := i\<rparr>) = dbss_ok s"
  by (simp_all add: dbss_ok_def)

lemma keeps_read_state: "(\<And>s. P s \<Longrightarrow> P (snd (f (g s) s))) \<Longrightarrow> keeps P (sbind (sget g) f)"
  by (simp add: keeps_def)

lemma keeps_lifted: "(\<And>x. r = Inr x \<Longrightarrow> keeps P (f x)) \<Longrightarrow> keeps P (sbind (slift r) f)"
  by (cases r) (auto simp: keeps_def)

text \<open>
  Steps that leave objects and loaders alone, and put nothing but stubs among the pending
  responses.
\<close>

definition tables_kept :: "dbss \<Rightarrow> dbss \<Rightarrow> bool" where
  "tables_kept s s' \<longleftrightarrow> dbss_objs s' = dbss_objs s \<and> loading s' = loading s
     \<and> ((\<forall>dg \<in> ran (context_datagrams s). is_stub dg) \<longrightarrow> (\<forall>dg \<in> ran (context_datagrams s'). is_stub dg))"

definition quiet_op :: "'a dbss_op \<Rightarrow> bool" where
  "quiet_op m \<longleftrightarrow> (\<forall>s. tables_kept s (snd (m s)))"

named_theorems quiet_intros

lemma tables_kept_trans: "tables_kept s s1 \<Longrightarrow> tables_kept s1 s2 \<Longrightarrow> tables_kept s s2"
  by (simp add: tables_kept_def)

lemma quiet_op_sbind [quiet_intros]: "quiet_op m \<Longrightarrow> (\<And>x. quiet_op (f x)) \<Longrightarrow> quiet_op (sbind m f)"
  unfolding quiet_op_def
proof
  fix s
  assume m: "\<forall>s. tables_kept s (snd (m s))" and f: "\<And>x. \<forall>s. tables_kept s (snd (f x s))"
  obtain r s1 where r: "m s = (r, s1)" by (cases "m s")
  with m have "tables_kept s s1" by (metis snd_conv)
  with f r show "tables_kept s (snd (sbind m f s))"
    by (cases r) (auto simp: sbind_def intro: tables_kept_trans)
qed

lemma quiet_lifted [quiet_intros]: "(\<And>x. r = Inr x \<Longrightarrow> quiet_op (f x)) \<Longrightarrow> quiet_op (sbind (slift r) f)"
  by (cases r) (auto simp: quiet_op_def tables_kept_def)

lemma quiet_op_sseq [quiet_intros]: "quiet_op m \<Longrightarrow> quiet_op n \<Longrightarrow> quiet_op (sseq m n)"
  unfolding sseq_def by (intro quiet_op_sbind)

lemma quiet_plain [quiet_intros]:
  "quiet_op (sret x)" "quiet_op (sthrow e)" "quiet_op (sget g)" "quiet_op (slift r)" "quiet_op take_context"
  "quiet_op (dbss_effect ev)" "quiet_op (dbss_route q)"
  by (simp_all add: quiet_op_def tables_kept_def)

lemma quiet_if [quiet_intros]: "(b \<Longrightarrow> quiet_op m) \<Longrightarrow> (\<not> b \<Longrightarrow> quiet_op n) \<Longrightarrow> quiet_op (if b then m else n)"
  by simp

lemma quiet_op_swhen [quiet_intros]: "(b \<Longrightarrow> quiet_op m) \<Longrightarrow> quiet_op (swhen b m)"
  by (cases b) (simp_all add: quiet_plain)

lemma quiet_case_option [quiet_intros]:
  "(x = None \<Longrightarrow> quiet_op m) \<Longrightarrow> (\<And>y. x = Some y \<Longrightarrow> quiet_op (f y)) \<Longrightarrow>
    quiet_op (case x of None \<Rightarrow> m | Some y \<Rightarrow> f y)"
  by (cases x) auto

lemma quiet_op_case_prod [quiet_intros]:
  "(\<And>a b. x = (a, b) \<Longrightarrow> quiet_op (f a b)) \<Longrightarrow> quiet_op (case x of (a, b) \<Rightarrow> f a b)"
  by (cases x) auto

lemma quiet_send [quiet_intros]: "quiet_op (dbss_send t sender mt body)"
  unfolding dbss_send_def by (intro quiet_intros)

lemma quiet_inactive [quiet_intros]: "quiet_op (supd (\<lambda>s. s\<lparr>inactive_loads := f s\<rparr>))"
  by (simp add: quiet_op_def tables_kept_def)

lemma quiet_forget_context [quiet_intros]:
  "quiet_op (supd (\<lambda>s. s\<lparr>context_datagrams := (context_datagrams s)(c := None)\<rparr>))"
  by (auto simp: quiet_op_def tables_kept_def ran_def)

lemma quiet_keep_stub [quiet_intros]:
  "is_stub dg \<Longrightarrow> quiet_op (supd (\<lambda>s. s\<lparr>context_datagrams := (context_datagrams s)(c \<mapsto> dg)\<rparr>))"
  "is_stub dg \<Longrightarrow> quiet_op (supd (\<lambda>s. s\<lparr>context_datagrams := (context_datagrams s)(c \<mapsto> dg), inactive_loads := f s\<rparr>))"
  by (auto simp: quiet_op_def tables_kept_def ran_def)

section \<open>Stubs\<close>

lemma message_appended:
  assumes "is_message dg tos sender mt body" "appends bs op" "op dg = Inr dg'"
  shows "is_message dg' tos sender mt (body @ bs)"
  using appends_Inr [OF assms(2) _ assms(3)] assms(1) by (simp add: is_message_def)

lemma created_is_message:
  assumes "dg_create_server t sender mt = Inr dg"
  shows "is_message dg [t] sender mt []"
  using appends_Inr [OF appends_add_server_header _ assms [unfolded dg_create_server_def]] by (simp add: is_message_def)

lemma stub_appended:
  assumes "is_stub dg" "appends bs op" "op dg = Inr dg'"
  shows "is_stub dg'"
proof -
  from assms(1) obtain t sender mt body where m: "is_message dg [t] sender mt body"
    "mt \<in> {STATESERVER_OBJECT_GET_FIELD_RESP, STATESERVER_OBJECT_GET_FIELDS_RESP, STATESERVER_OBJECT_GET_ALL_RESP}"
    "mt = STATESERVER_OBJECT_GET_ALL_RESP \<longrightarrow> 16 \<le> length body"
    by (auto simp: is_stub_def)
  from message_appended [OF m(1) assms(2,3)] m(2,3) show ?thesis
    unfolding is_stub_def by (intro exI [of _ t] exI [of _ sender] exI [of _ mt] exI [of _ "body @ bs"]) auto
qed

lemma field_stub:
  assumes "rbind (dg_create_server t sender STATESERVER_OBJECT_GET_FIELD_RESP) (add_uint32 c) = Inr dg"
  shows "is_stub dg"
proof -
  from assms obtain dg0 where 0: "dg_create_server t sender STATESERVER_OBJECT_GET_FIELD_RESP = Inr dg0"
    "add_uint32 c dg0 = Inr dg" by (auto simp: rbind_eq_Inr)
  from message_appended [OF created_is_message [OF 0(1)] appends_add(3) 0(2)] show ?thesis
    unfolding is_stub_def by (intro exI) (auto intro: conjI)
qed

lemma fields_stub: "dg_create_server t sender STATESERVER_OBJECT_GET_FIELDS_RESP = Inr dg \<Longrightarrow> is_stub dg"
  using created_is_message [of t sender STATESERVER_OBJECT_GET_FIELDS_RESP dg] unfolding is_stub_def by fastforce

lemma all_stub:
  assumes "rbind (dg_create_server t sender STATESERVER_OBJECT_GET_ALL_RESP)
    (add_all [add_uint32 c, add_doid d, add_channel 0]) = Inr dg"
  shows "is_stub dg"
proof -
  from assms obtain dg0 where 0: "dg_create_server t sender STATESERVER_OBJECT_GET_ALL_RESP = Inr dg0"
    "add_all [add_uint32 c, add_doid d, add_channel 0] dg0 = Inr dg" by (auto simp: rbind_eq_Inr)
  have "appends (le_bytes 4 c @ le_bytes 4 d @ le_bytes 8 (0 :: channel) @ [])
      (add_all [add_uint32 c, add_doid d, add_channel 0])" by (intro appends_intros)
  from message_appended [OF created_is_message [OF 0(1)] this 0(2)] show ?thesis
    unfolding is_stub_def by (intro exI) (auto intro: conjI)
qed

lemma quiet_context_add:
  assumes "appends bs a"
  shows "quiet_op (context_add c a)"
  unfolding quiet_op_def
proof
  fix s
  show "tables_kept s (snd (context_add c a s))"
  proof (cases "context_datagrams s c")
    case None
    then show ?thesis by (simp add: context_add_def tables_kept_def)
  next
    case (Some dg)
    show ?thesis
    proof (cases "a dg")
      case (Inr dg')
      have "is_stub dg'" if "\<forall>dg \<in> ran (context_datagrams s). is_stub dg"
        using stub_appended [OF _ assms Inr] that Some by (auto simp: ran_def)
      then show ?thesis using Some Inr by (auto simp: context_add_def tables_kept_def ran_def)
    qed (use Some in \<open>simp add: context_add_def tables_kept_def\<close>)
  qed
qed

lemma quiet_context_add_all: "(\<And>a. a \<in> set as \<Longrightarrow> \<exists>bs. appends bs a) \<Longrightarrow> quiet_op (context_add_all c as)"
  by (induction as) (auto intro!: quiet_intros intro: quiet_context_add)

section \<open>Every handler but the activations is quiet\<close>

lemma quiet_op_sbind_post:
  assumes "quiet_op m" "\<And>s x s'. m s = (Inr x, s') \<Longrightarrow> Q x" "\<And>x. Q x \<Longrightarrow> quiet_op (f x)"
  shows "quiet_op (sbind m f)"
  unfolding quiet_op_def
proof
  fix s
  obtain r s1 where r: "m s = (r, s1)" by (cases "m s")
  with assms(1) have "tables_kept s s1" unfolding quiet_op_def by (metis snd_conv)
  with assms(2,3) r show "tables_kept s (snd (sbind m f s))"
    by (cases r) (auto simp: sbind_def quiet_op_def intro: tables_kept_trans)
qed

lemma quiet_expected [quiet_intros]: "(\<And>c dg it. quiet_op (body c dg it)) \<Longrightarrow> quiet_op (expected_response t it body)"
  unfolding expected_response_def by (intro quiet_intros)

lemma quiet_small:
  "quiet_op (handle_get_activated sender it)" "quiet_op (handle_delete_disk env sender it)"
  "quiet_op (dbss_set_field env it)" "quiet_op (dbss_set_fields env it)"
  unfolding handle_get_activated_def handle_delete_disk_def dbss_set_field_def dbss_set_fields_def
  by (intro quiet_intros)+

lemma quiet_responses:
  "quiet_op (handle_get_field_resp it)" "quiet_op (handle_get_fields_resp it)" "quiet_op (handle_get_all_resp env it)"
  unfolding handle_get_field_resp_def handle_get_fields_resp_def handle_get_all_resp_def
  by (intro quiet_intros)+

lemma quiet_get_all: "quiet_op (dbss_get_all env sender it)"
  unfolding dbss_get_all_def by (intro quiet_intros all_stub)

lemma quiet_get_field: "quiet_op (dbss_get_field env sender it)"
  unfolding dbss_get_field_def get_field_failed_def by (intro quiet_intros field_stub)

lemma quiet_sort_requested [quiet_intros]: "quiet_op (sort_requested env sender d c n it db ram)"
  by (induction n arbitrary: it db ram) (auto intro!: quiet_intros)

lemma sort_requested_short:
  assumes "defaults_short env"
  shows "sort_requested env sender d c n it db ram s = (Inr (db', ram'), s') \<Longrightarrow>
    \<forall>f \<in> set ram. length (field_default f) \<le> DGSIZE_MAX \<Longrightarrow> \<forall>f \<in> set ram'. length (field_default f) \<le> DGSIZE_MAX"
proof (induction n arbitrary: it db ram s)
  case (Suc n)
  from Suc.prems(1) obtain fid it1 where rd: "read_uint16 it = Inr (fid, it1)"
    by (cases "read_uint16 it") auto
  show ?case
  proof (cases "field_by_id env fid")
    case None
    with Suc.prems(1) rd obtain s1 where "sort_requested env sender d c n it1 db ram s1 = (Inr (db', ram'), s')"
      by (auto simp: sseq_apply split: prod.splits sum.splits)
    with Suc.IH Suc.prems(2) show ?thesis by blast
  next
    case (Some f)
    with assms have "length (field_default f) \<le> DGSIZE_MAX" by (simp add: defaults_short_def)
    with Suc.IH [of it1 "db @ [f]" ram s] Suc.IH [of it1 db "ram @ [f]" s] Suc.IH [of it1 db ram s] Suc.prems rd Some
    show ?thesis by (auto split: if_splits)
  qed
qed simp

lemma default_adds_append:
  assumes "\<forall>f \<in> set fs. length (field_default f) \<le> DGSIZE_MAX" "a \<in> set (default_adds fs)"
  shows "\<exists>bs. appends bs a"
  using assms appends_add(2) appends_add_data unfolding default_adds_def by fastforce

lemma quiet_get_fields:
  assumes "defaults_short env"
  shows "quiet_op (dbss_get_fields env sender it)"
proof -
  have adds: "quiet_op (context_add_all k ([add_uint32 c, add_bool True, add_uint16 n] @ default_adds ram))"
    if "\<forall>f \<in> set ram. length (field_default f) \<le> DGSIZE_MAX" for k c n ram
    by (rule quiet_context_add_all)
      (use default_adds_append [OF that] appends_add(2,3) appends_add_bool [of True] in auto)
  show ?thesis
    unfolding dbss_get_fields_def
    by (intro quiet_op_sbind_post [where m = "sort_requested _ _ _ _ _ _ _ _"
          and Q = "\<lambda>(db, ram). \<forall>f \<in> set ram. length (field_default f) \<le> DGSIZE_MAX"] quiet_intros adds)
      (auto dest: sort_requested_short [OF assms] intro: fields_stub)
qed

lemma dispatch_quiet:
  assumes "defaults_short env" "mt \<noteq> DBSS_OBJECT_ACTIVATE_WITH_DEFAULTS" "mt \<noteq> DBSS_OBJECT_ACTIVATE_WITH_DEFAULTS_OTHER"
  shows "quiet_op (dbss_dispatch env sender mt it)"
  using assms(2,3) unfolding dbss_dispatch_def
  by (simp add: quiet_small quiet_responses quiet_get_all quiet_get_field quiet_get_fields [OF assms(1)] quiet_plain)

lemma handle_datagram_quiet:
  assumes "defaults_short env" "payload dg = Inr it" "\<not> is_activation dg"
  shows "quiet_op (dbss_handle_datagram env it)"
proof -
  have "quiet_op (dbss_dispatch env sender mt it2)"
    if "read_channel it = Inr (sender, it1)" "read_uint16 it1 = Inr (mt, it2)" for sender it1 mt it2
    by (rule dispatch_quiet [OF assms(1)]) (use assms(2,3) that in \<open>auto simp: is_activation_def message_type_def\<close>)
  then show ?thesis unfolding dbss_handle_datagram_def by (intro quiet_intros) auto
qed

section \<open>Activation\<close>

lemma quiet_keeps_ok: "quiet_op m \<Longrightarrow> keeps dbss_ok m"
  by (auto simp: keeps_def quiet_op_def tables_kept_def dbss_ok_def)

lemma fresh_loader_ok:
  assumes ok: "dbss_ok s" and d: "dbss_objs s d = None" and ld: "datagram_queue ld = []"
  shows "dbss_ok (s\<lparr>loading := (loading s)(d \<mapsto> ld)\<rparr>)"
  using assms by (auto simp: dbss_ok_def objects_ok_def)

lemma quiet_begin: "quiet_op (loader_begin env d ld)"
  unfolding loader_begin_def by (intro quiet_intros)

text \<open>What the two constructors have in common.\<close>

definition spawns :: "(u32 set \<Rightarrow> loader dbss_op) \<Rightarrow> bool" where
  "spawns spawn \<longleftrightarrow> (\<forall>cs. quiet_op (spawn cs))
     \<and> (\<forall>cs s ld s'. spawn cs s = (Inr ld, s') \<longrightarrow> datagram_queue ld = [])"

lemma loader_new_spawns:
  "quiet_op (loader_new d p z cs)" "quiet_op (loader_new_other d p z cls it cs)"
  "loader_new d p z cs s = (Inr ld, s') \<Longrightarrow> datagram_queue ld = []"
  "loader_new_other d p z cls it cs s = (Inr ld, s') \<Longrightarrow> datagram_queue ld = []"
proof -
  show "quiet_op (loader_new d p z cs)" "quiet_op (loader_new_other d p z cls it cs)"
    unfolding loader_new_def loader_new_other_def by (intro quiet_intros)+
  show "loader_new d p z cs s = (Inr ld, s') \<Longrightarrow> datagram_queue ld = []"
    by (auto simp: loader_new_def sbind_ok [of take_context] sseq_apply)
  show "loader_new_other d p z cls it cs s = (Inr ld, s') \<Longrightarrow> datagram_queue ld = []"
    by (cases "read_uint16 it")
      (auto simp: loader_new_other_def sbind_ok [of take_context] sseq_apply sbind_apply split: sum.splits)
qed

lemma spawns_new: "spawns (loader_new d p z)" "spawns (loader_new_other d p z cls it)"
  unfolding spawns_def by (auto simp: loader_new_spawns(1,2) dest: loader_new_spawns(3,4))

lemma start_loader_ok:
  assumes ok: "dbss_ok s" and d: "\<not> is_activated_object s d"
    and spawn: "spawns spawn"
  shows "dbss_ok (snd (start_loader env d spawn s))"
proof -
  let ?cs = "case inactive_loads s d of None \<Rightarrow> {} | Some cs \<Rightarrow> cs"
  obtain r s1 where r: "spawn ?cs s = (r, s1)" by (cases "spawn ?cs s")
  with spawn have kept: "tables_kept s s1" unfolding quiet_op_def spawns_def by (metis snd_conv)
  with ok have ok1: "dbss_ok s1" by (simp add: dbss_ok_def tables_kept_def)
  show ?thesis
  proof (cases r)
    case (Inr ld)
    have "datagram_queue ld = []" using spawn r Inr unfolding spawns_def by blast
    moreover have "dbss_objs s1 d = None" using kept d by (simp add: tables_kept_def is_activated_object_def)
    ultimately have "dbss_ok (s1\<lparr>loading := (loading s1)(d \<mapsto> ld)\<rparr>)"
      using fresh_loader_ok [OF ok1] by blast
    with keepsD [OF quiet_keeps_ok [OF quiet_begin]] r Inr show ?thesis
      by (simp add: start_loader_def sbind_apply [of "spawn _"])
  qed (use r ok1 in \<open>simp add: start_loader_def sbind_apply [of "spawn _"]\<close>)
qed

lemma activate_ok: "keeps dbss_ok (handle_activate env it has_other)"
  unfolding handle_activate_def
  by (intro keeps_lifted keeps_case_prod keeps_read_state)
    (auto simp: sbind_apply split: sum.split prod.split intro: start_loader_ok spawns_new)

lemma dispatch_ok: "defaults_short env \<Longrightarrow> keeps dbss_ok (dbss_dispatch env sender mt it)"
proof (cases "mt \<in> {DBSS_OBJECT_ACTIVATE_WITH_DEFAULTS, DBSS_OBJECT_ACTIVATE_WITH_DEFAULTS_OTHER}")
  case True
  then show ?thesis by (auto simp: dbss_dispatch_def activate_ok)
qed (auto intro: quiet_keeps_ok dispatch_quiet)

lemma handle_datagram_ok: "defaults_short env \<Longrightarrow> keeps dbss_ok (dbss_handle_datagram env it)"
  unfolding dbss_handle_datagram_def by (intro keeps_intros dispatch_ok)

section \<open>Objects and loaders\<close>

lemma identity_of_message: "do_id (snd (do_handle_datagram env it obj)) = do_id obj"
proof -
  have "keeps (about (\<lambda>d c zo. d = do_id obj \<and> c = do_class obj)) (do_handle_datagram env it)"
    by (rule identity.keeps_any_message)
  from keepsD [OF this, of obj] show ?thesis by (simp add: about_def)
qed

lemma identity_of_activation: "do_id (snd (dobj_activate sync env sender d p z cls R M)) = d"
proof -
  have "keeps (about (\<lambda>d' c zo. d' = d)) (sseq (effect (Subscribe (doid_channel d)))
      (sseq (handle_location_change env p z sender) wake_children))"
    by (intro keeps_intros)
  from keepsD [OF this, of "(dobj_new d cls sync)\<lparr>required_fields := R, ram_fields := M\<rparr>"] show ?thesis
    by (simp add: about_def dobj_activate_def dobj_new_def)
qed

lemma objects_ok_update:
  "objects_ok objs loads \<Longrightarrow> objs d = Some obj \<Longrightarrow> do_id obj' = d \<Longrightarrow> objects_ok (objs(d \<mapsto> obj')) loads"
  "objects_ok objs loads \<Longrightarrow> objects_ok (objs(d := None)) loads"
  unfolding objects_ok_def by simp_all blast

lemma object_datagram_ok: "keeps dbss_ok (dbss_object_datagram env d it)"
proof (rule keepsI)
  fix s
  assume ok: "dbss_ok s"
  show "dbss_ok (snd (dbss_object_datagram env d it s))"
  proof (cases "dbss_objs s d")
    case (Some obj)
    obtain r obj' where h: "do_handle_datagram (object_env env) it (obj\<lparr>effects := []\<rparr>) = (r, obj')"
      by (cases "do_handle_datagram (object_env env) it (obj\<lparr>effects := []\<rparr>)")
    with identity_of_message [of "object_env env" it "obj\<lparr>effects := []\<rparr>"] have "do_id obj' = do_id obj" by simp
    moreover have "do_id obj = d" using ok Some by (simp add: dbss_ok_def objects_ok_def)
    ultimately show ?thesis
      using ok Some objects_ok_update [of "dbss_objs s" "loading s"] by (simp add: dbss_object_datagram_def h dbss_ok_def)
  qed (simp add: dbss_object_datagram_def ok)
qed

lemma object_datagram_loading: "loading (snd (dbss_object_datagram env d it s)) = loading s"
  by (simp add: dbss_object_datagram_def split: option.split prod.split)

text \<open>A loader that has its answer.\<close>

definition answered :: "doid \<Rightarrow> dbss \<Rightarrow> bool" where
  "answered d s \<longleftrightarrow> dbss_ok s \<and> (\<forall>ld. loading s d = Some ld \<longrightarrow> is_loaded ld)"

lemma keeps_catch: "keeps P m \<Longrightarrow> keeps P (catch_truncated m)"
  by (auto simp: keeps_def catch_truncated_def split: prod.split sum.split)

lemma keeps_at_payload: "(\<And>it. payload dg = Inr it \<Longrightarrow> keeps P (h it)) \<Longrightarrow> keeps P (at_payload dg h)"
  unfolding at_payload_def payload_def by (intro keeps_catch keeps_lifted) auto

lemma quiet_answered: "quiet_op m \<Longrightarrow> keeps (answered d) m"
  by (auto simp: keeps_def quiet_op_def tables_kept_def answered_def dbss_ok_def)

lemma create_answered: "keeps (answered d) (create_object env d ld cls R M)"
proof -
  obtain r obj where ro: "dobj_activate (uninitialised env) (object_env env) (db_channel env) d (ld_parent ld) (ld_zone ld) cls R M = (r, obj)"
    by (cases "dobj_activate (uninitialised env) (object_env env) (db_channel env) d (ld_parent ld) (ld_zone ld) cls R M")
  have me: "do_id obj = d"
    using identity_of_activation [of "uninitialised env" "object_env env" "db_channel env" d "ld_parent ld" "ld_zone ld" cls R M] ro
    by simp
  have "keeps (answered d) (supd (\<lambda>s. s\<lparr>dbss_objs := (dbss_objs s)(d \<mapsto> obj)\<rparr>))"
    using me by (intro keeps_supd) (auto simp: answered_def dbss_ok_def objects_ok_def)
  moreover have "keeps (answered d) (log_object d (effects obj))"
    by (simp add: log_object_def keeps_def answered_def)
  ultimately show ?thesis unfolding create_object_def ro prod.case by (intro keeps_intros)
qed

lemma replay_answered: "keeps (answered d) (replay_datagrams env d dgs)"
proof (induction dgs)
  case (Cons dg dgs)
  have "keeps (answered d) (dbss_object_datagram env d it)" for it
    using object_datagram_ok [of env d it] by (simp add: keeps_def answered_def object_datagram_loading)
  then have "keeps (answered d) (at_payload dg (dbss_object_datagram env d))" by (intro keeps_at_payload)
  with Cons show ?case unfolding replay_datagrams.simps by (intro keeps_intros)
qed (simp add: keeps_Pair keeps_sret)

lemma forward_quiet:
  assumes "defaults_short env"
  shows "\<forall>dg \<in> set dgs. \<not> is_activation dg \<Longrightarrow> keeps dbss_ok (forward_datagrams env dgs)"
proof (induction dgs)
  case (Cons dg dgs)
  then have "keeps dbss_ok (at_payload dg (dbss_handle_datagram env))"
    by (intro keeps_at_payload quiet_keeps_ok handle_datagram_quiet [OF assms]) auto
  with Cons show ?case by (auto intro!: keeps_intros)
qed (simp add: keeps_sret)

lemma loader_finalize_ok:
  assumes "defaults_short env" "\<forall>dg \<in> set (datagram_queue ld). \<not> is_activation dg"
  shows "keeps dbss_ok (loader_finalize env d ld)"
proof -
  have "keeps dbss_ok (supd (\<lambda>s. s\<lparr>loading := (loading s)(d := None)\<rparr>))"
    by (intro keeps_supd) (auto simp: dbss_ok_def objects_ok_def)
  with forward_quiet [OF assms] quiet_keeps_ok [OF quiet_plain(6)] show ?thesis
    unfolding loader_finalize_def by (intro keeps_sseq)
qed

lemma keeps_stronger: "keeps P m \<Longrightarrow> P s \<Longrightarrow> (\<And>s. P s \<Longrightarrow> Q s) \<Longrightarrow> Q (snd (m s))"
  by (simp add: keeps_def)

text \<open>The answer of the database at a loader, the rest of the message being arbitrary.\<close>

lemma response_ok:
  assumes env: "defaults_short env" and ok: "dbss_ok s" and ld: "loading s d = Some ld"
  shows "dbss_ok (snd (loader_response env d ld it s))"
proof -
  let ?s1 = "s\<lparr>loading := (loading s)(d \<mapsto> ld\<lparr>is_loaded := True\<rparr>)\<rparr>"
  have queue: "\<forall>dg \<in> set (datagram_queue ld). \<not> is_activation dg"
    using ok ld unfolding dbss_ok_def objects_ok_def by blast
  have s1: "answered d ?s1"
    using ok queue by (auto simp: answered_def dbss_ok_def objects_ok_def)
  note fin = keepsD [OF loader_finalize_ok [OF env queue, of d]]
  define tail where "tail = (\<lambda>cls R M. sseq (create_object env d ld cls R M)
    (sseq (replay_datagrams env d (datagram_queue ld)) (loader_finalize env d ld)))"
  have tail: "dbss_ok (snd (tail cls R M ?s1))" for cls R M
  proof -
    obtain r2 s2 where c: "create_object env d ld cls R M ?s1 = (r2, s2)" by (cases "create_object env d ld cls R M ?s1")
    have s2: "answered d s2" using keepsD [OF create_answered s1, of env ld cls R M] c by simp
    obtain r3 s3 where p: "replay_datagrams env d (datagram_queue ld) s2 = (r3, s3)"
      by (cases "replay_datagrams env d (datagram_queue ld) s2")
    have "answered d s3" using keepsD [OF replay_answered s2, of env "datagram_queue ld"] p by simp
    with s2 fin [of s3] show ?thesis
      by (cases r2; cases r3) (simp_all add: tail_def sseq_apply c p answered_def)
  qed
  have ok1: "dbss_ok ?s1" using s1 by (simp add: answered_def)
  show ?thesis
    by (simp add: loader_response_def sbind_apply ok ok1 fin tail [unfolded tail_def]
        split: sum.split prod.split option.split)
qed

lemma push_ok:
  assumes ok: "dbss_ok s" and ld: "loading s d = Some ld" and dg: "\<not> is_activation dg"
  shows "dbss_ok (s\<lparr>loading := (loading s)(d \<mapsto> ld\<lparr>datagram_queue := datagram_queue ld @ [dg]\<rparr>)\<rparr>)"
  using ok ld dg unfolding dbss_ok_def objects_ok_def by auto

lemma loader_datagram_ok:
  assumes env: "defaults_short env" and ok: "dbss_ok s" and dg: "payload dg = Inr it"
  shows "dbss_ok (snd (loader_handle_datagram env d it s))"
proof -
  have here: "it_dg it = dg"
    using dg by (auto simp: payload_def seek_payload_def rbind_eq_Inr start_def)
  have dg_kept: "it_dg it2 = dg" if "read_channel it = Inr (c, it1)" "read_uint16 it1 = Inr (t, it2)" for c it1 t it2
    using that here by (auto simp: read_channel_def read_uint16_def rbind_eq_Inr read_raw_Inr)
  have type: "is_activation dg \<longleftrightarrow> t \<in> {DBSS_OBJECT_ACTIVATE_WITH_DEFAULTS, DBSS_OBJECT_ACTIVATE_WITH_DEFAULTS_OTHER}"
    if "read_channel it = Inr (c, it1)" "read_uint16 it1 = Inr (t, it2)" for c it1 t it2
    using that dg by (simp add: is_activation_def message_type_def)
  show ?thesis
  proof (cases "read_channel it")
    case (Inr r)
    obtain c it1 where c: "r = (c, it1)" by (cases r)
    show ?thesis
    proof (cases "read_uint16 it1")
      case (Inr q)
      obtain t it2 where t: "q = (t, it2)" by (cases q)
      note rd = \<open>read_channel it = Inr r\<close> [unfolded c] Inr [unfolded t]
      show ?thesis
      proof (cases "loading s d")
        case (Some ld)
        with rd type [OF rd] dg_kept [OF rd] response_ok [OF env ok Some] push_ok [OF ok Some] ok
        show ?thesis by (simp add: loader_handle_datagram_def)
      qed (use rd ok in \<open>simp add: loader_handle_datagram_def\<close>)
    qed (use \<open>read_channel it = Inr r\<close> c ok in \<open>simp add: loader_handle_datagram_def\<close>)
  qed (use ok in \<open>simp add: loader_handle_datagram_def\<close>)
qed

section \<open>A loader that is not answered\<close>

text \<open>
  The object \<open>d\<close> is not active, and its loader waits for an answer under the context \<open>c\<close> or one of
  \<open>cs\<close>. It stays so whatever happens, as long as no answer under one of them reaches the loader.
\<close>

definition awaiting :: "doid \<Rightarrow> u32 \<Rightarrow> u32 set \<Rightarrow> dbss \<Rightarrow> bool" where
  "awaiting d c cs s \<longleftrightarrow> dbss_objs s d = None
     \<and> (\<exists>ld. loading s d = Some ld \<and> \<not> is_loaded ld \<and> ld_context ld = c \<and> valid_contexts ld = cs)"

definition answers :: "u32 set \<Rightarrow> dgi \<Rightarrow> bool" where
  "answers cs it \<longleftrightarrow>
     rbind (read_channel it) (\<lambda>(_, it). rbind (read_uint16 it) (\<lambda>(t, it).
       rbind (read_uint32 it) (\<lambda>(c, _). Inr (t = DBSERVER_OBJECT_GET_ALL_RESP \<and> c \<in> cs)))) = Inr True"

inductive dbss_later :: "dbss_env \<Rightarrow> doid \<Rightarrow> u32 set \<Rightarrow> dbss \<Rightarrow> dbss \<Rightarrow> bool" for env d cs s where
  now: "dbss_later env d cs s s"
| serve: "dbss_later env d cs s s' \<Longrightarrow> payload dg = Inr it \<Longrightarrow> dbss_later env d cs s (snd (dbss_handle_datagram env it s'))"
| load: "dbss_later env d cs s s' \<Longrightarrow> payload dg = Inr it \<Longrightarrow> e \<noteq> d \<or> \<not> answers cs it \<Longrightarrow>
    dbss_later env d cs s (snd (loader_handle_datagram env e it s'))"
| act: "dbss_later env d cs s s' \<Longrightarrow> payload dg = Inr it \<Longrightarrow> dbss_later env d cs s (snd (dbss_object_datagram env e it s'))"

lemma quiet_awaiting: "quiet_op m \<Longrightarrow> keeps (awaiting d c cs) m"
  by (simp add: keeps_def quiet_op_def tables_kept_def awaiting_def)

lemma start_loader_awaiting:
  assumes s: "awaiting d c cs s" and e: "\<not> is_activated_object s e" and spawn: "spawns spawn"
  shows "awaiting d c cs (snd (start_loader env e spawn s))"
proof -
  let ?cs = "case inactive_loads s e of None \<Rightarrow> {} | Some cs \<Rightarrow> cs"
  obtain r s1 where r: "spawn ?cs s = (r, s1)" by (cases "spawn ?cs s")
  have "quiet_op (spawn ?cs)" using spawn by (simp add: spawns_def)
  with r s have s1: "awaiting d c cs s1" using keepsD [OF quiet_awaiting s, of "spawn ?cs"] by simp
  have "e \<noteq> d" using e s by (auto simp: is_activated_object_def awaiting_def)
  with s1 have put: "awaiting d c cs (s1\<lparr>loading := (loading s1)(e \<mapsto> ld)\<rparr>)" for ld
    by (simp add: awaiting_def)
  show ?thesis
    using r s1 put keepsD [OF quiet_awaiting [OF quiet_begin] put]
    by (cases r) (simp_all add: start_loader_def sbind_apply [of "spawn _"])
qed

lemma handle_datagram_awaiting:
  assumes "defaults_short env"
  shows "keeps (awaiting d c cs) (dbss_handle_datagram env it)"
proof -
  have "keeps (awaiting d c cs) (handle_activate env it other)" for it other
    unfolding handle_activate_def
    by (intro keeps_lifted keeps_case_prod keeps_read_state)
      (auto simp: sbind_apply split: sum.split prod.split intro: start_loader_awaiting spawns_new)
  then have "keeps (awaiting d c cs) (dbss_dispatch env sender mt it)" for sender mt it
  proof (cases "mt \<in> {DBSS_OBJECT_ACTIVATE_WITH_DEFAULTS, DBSS_OBJECT_ACTIVATE_WITH_DEFAULTS_OTHER}")
    case True
    with \<open>\<And>it other. keeps (awaiting d c cs) (handle_activate env it other)\<close> show ?thesis
      by (auto simp: dbss_dispatch_def)
  qed (auto intro: quiet_awaiting dispatch_quiet [OF assms])
  then show ?thesis unfolding dbss_handle_datagram_def by (intro keeps_intros)
qed

lemma forward_awaiting: "defaults_short env \<Longrightarrow> keeps (awaiting d c cs) (forward_datagrams env dgs)"
  by (induction dgs) (auto intro!: keeps_intros keeps_at_payload handle_datagram_awaiting)

lemma object_datagram_awaiting: "keeps (awaiting d c cs) (dbss_object_datagram env e it)"
  by (auto simp: keeps_def dbss_object_datagram_def awaiting_def split: option.split prod.split)

lemma replay_awaiting: "keeps (awaiting d c cs) (replay_datagrams env e dgs)"
  by (induction dgs)
    (simp_all only: replay_datagrams.simps, intro keeps_intros,
      intro keeps_intros keeps_at_payload object_datagram_awaiting)

lemma other_loader_awaiting:
  assumes "defaults_short env" "e \<noteq> d"
  shows "keeps (awaiting d c cs) (loader_handle_datagram env e it)"
proof -
  have put: "keeps (awaiting d c cs) (supd (\<lambda>s. s\<lparr>loading := (loading s)(e := o_ld)\<rparr>))" for o_ld
    using assms(2) by (intro keeps_supd) (simp add: awaiting_def)
  have object: "keeps (awaiting d c cs) (create_object env e ld cls R M)" for ld cls R M
    unfolding create_object_def log_object_def
    by (intro keeps_case_prod keeps_intros keeps_supd) (use assms(2) in \<open>auto simp: awaiting_def\<close>)
  have fin: "keeps (awaiting d c cs) (loader_finalize env e ld)" for ld
    unfolding loader_finalize_def by (intro keeps_sseq put forward_awaiting [OF assms(1)] quiet_awaiting quiet_intros)
  have "keeps (awaiting d c cs) (loader_response env e ld it)" for ld it
    unfolding loader_response_def
    by (intro keeps_lifted keeps_case_prod keeps_sseq keeps_if keeps_case_option keeps_sret put fin object replay_awaiting)
  then show ?thesis
    unfolding loader_handle_datagram_def
    by (intro keeps_lifted keeps_case_prod keeps_if keeps_case_option keeps_sret put keeps_sbind keeps_intros)
qed

lemma unanswered_loader_awaiting:
  assumes s: "awaiting d c cs s" and it: "\<not> answers (insert c cs) it"
  shows "awaiting d c cs (snd (loader_handle_datagram env d it s))"
proof -
  from s obtain ld where ld: "dbss_objs s d = None" "loading s d = Some ld" "\<not> is_loaded ld" "ld_context ld = c" "valid_contexts ld = cs"
    by (auto simp: awaiting_def)
  show ?thesis
    using it s ld unfolding answers_def
    by (auto simp: loader_handle_datagram_def loader_response_def sbind_apply rbind_def awaiting_def
        split: sum.splits prod.splits)
qed

lemma later_awaiting:
  assumes "dbss_later env d (insert c cs) s s'" "defaults_short env" "awaiting d c cs s"
  shows "awaiting d c cs s'"
  using assms
proof (induction rule: dbss_later.induct)
  case (serve s' dg it)
  then show ?case using keepsD [OF handle_datagram_awaiting] by blast
next
  case (load s' dg it e)
  then show ?case
    using keepsD [OF other_loader_awaiting] unanswered_loader_awaiting by (cases "e = d") blast+
next
  case (act s' dg it e)
  then show ?case using keepsD [OF object_datagram_awaiting] by blast
qed

section \<open>Runs\<close>

text \<open>
  What can happen to a database state server: it, one of its loaders or one of its active
  objects receives a datagram.
\<close>

inductive dbss_run :: "dbss_env \<Rightarrow> dbss \<Rightarrow> bool" for env where
  boot: "dbss_run env dbss_new"
| serve: "dbss_run env s \<Longrightarrow> payload dg = Inr it \<Longrightarrow> dbss_run env (snd (dbss_handle_datagram env it s))"
| load: "dbss_run env s \<Longrightarrow> payload dg = Inr it \<Longrightarrow> dbss_run env (snd (loader_handle_datagram env d it s))"
| act: "dbss_run env s \<Longrightarrow> payload dg = Inr it \<Longrightarrow> dbss_run env (snd (dbss_object_datagram env d it s))"

lemma dbss_run_ok: "dbss_run env s \<Longrightarrow> defaults_short env \<Longrightarrow> dbss_ok s"
proof (induction rule: dbss_run.induct)
  case boot
  show ?case by (simp add: dbss_ok_def objects_ok_def dbss_new_def)
next
  case (serve s dg it)
  then show ?case using keepsD [OF handle_datagram_ok] by blast
next
  case (load s dg it d)
  then show ?case using loader_datagram_ok by blast
next
  case (act s dg it d)
  then show ?case using keepsD [OF object_datagram_ok] by blast
qed

end
