(* ===== verification/Object_Activation.thy ===== *)
theory Object_Activation
  imports Object_Location
begin

text \<open>
  Objects created with their values given (the second constructor of \<open>DistributedObject\<close>):
  values that fit a datagram are kept, and the creation succeeds.
\<close>

section \<open>Entry messages that fit\<close>

definition value_of :: "(u32 \<rightharpoonup> bytes) \<Rightarrow> field \<Rightarrow> bytes" where
  "value_of R f = (case R (field_id f) of None \<Rightarrow> [] | Some v \<Rightarrow> v)"

definition required_room :: "(u32 \<rightharpoonup> bytes) \<Rightarrow> field list \<Rightarrow> nat" where
  "required_room R fs = sum_list (map (\<lambda>f. length (value_of R f)) fs)"

definition ram_room :: "field_values \<Rightarrow> nat" where
  "ram_room M = sum_list (map (\<lambda>(f, v). 2 + length v) M)"

definition all_required :: "(u32 \<rightharpoonup> bytes) \<Rightarrow> field list \<Rightarrow> bool" where
  "all_required R fs \<longleftrightarrow> (\<forall>f \<in> set fs. has_keyword f ''required'' \<and> as_molecular f = None \<longrightarrow> R (field_id f) \<noteq> None)"

text \<open>\<open>room dg n\<close>: a well-formed datagram of at most \<open>n\<close> bytes.\<close>

definition room :: "datagram \<Rightarrow> nat \<Rightarrow> bool" where
  "room dg n \<longleftrightarrow> dg_ok dg \<and> buf_offset dg \<le> n"

lemma appends_room:
  assumes "appends bs op" "room dg n" "n + length bs \<le> DGSIZE_MAX"
  shows "\<exists>dg'. op dg = Inr dg' \<and> room dg' (n + length bs)"
proof -
  from assms(2) have dg: "dg_ok dg" "length (dg_buf dg) \<le> n" by (simp_all add: room_def buf_offset_def)
  with assms(3) have "buf_offset dg + length bs \<le> DGSIZE_MAX" by (simp add: buf_offset_def)
  from appends_ok [OF assms(1) dg(1) this] obtain dg' where
    "op dg = Inr dg'" "dg_ok dg'" "dg_buf dg' = dg_buf dg @ bs" .
  with dg(2) show ?thesis by (intro exI [of _ dg']) (simp add: room_def buf_offset_def)
qed

lemma append_required_fits:
  assumes "all_required (required_fields s) fs" "room dg n" "n + required_room (required_fields s) fs \<le> DGSIZE_MAX"
  shows "\<exists>dg'. append_required_fields c ow fs dg s = (Inr dg', s) \<and> room dg' (n + required_room (required_fields s) fs)"
  using assms
proof (induction fs arbitrary: dg n)
  case (Cons f fs)
  let ?v = "value_of (required_fields s) f"
  have rest: "all_required (required_fields s) fs" using Cons.prems(1) by (simp add: all_required_def)
  have total: "required_room (required_fields s) (f # fs) = length ?v + required_room (required_fields s) fs"
    by (simp add: required_room_def)
  show ?case
  proof (cases "has_keyword f ''required'' \<and> as_molecular f = None \<and> (\<not> c \<or> client_visible ow f)")
    case True
    with Cons.prems(1) have v: "required_fields s (field_id f) = Some ?v"
      by (auto simp: all_required_def value_of_def)
    have "length ?v \<le> DGSIZE_MAX" using Cons.prems(3) by (simp add: total)
    from appends_room [OF appends_add_data [OF this] Cons.prems(2)] Cons.prems(3) obtain dg1 where
      1: "add_data ?v dg = Inr dg1" "room dg1 (n + length ?v)" by (auto simp: total)
    have "n + length ?v + required_room (required_fields s) fs \<le> DGSIZE_MAX" using Cons.prems(3) by (simp add: total)
    moreover have "required_ref f s = (Inr ?v, s)" by (simp add: required_ref_def v)
    ultimately show ?thesis
      using Cons.IH [OF rest 1(2)] True 1(1) by (simp add: sbind_ok [of "required_ref f"] total add.assoc)
  next
    case False
    have "n + required_room (required_fields s) fs \<le> DGSIZE_MAX" using Cons.prems(3) by (simp add: total)
    from Cons.IH [OF rest Cons.prems(2) this] False show ?thesis
      by (auto simp: total room_def)
  qed
qed (simp add: required_room_def)

lemma append_values_fits:
  "room dg n \<Longrightarrow> n + ram_room M \<le> DGSIZE_MAX \<Longrightarrow> \<exists>dg'. append_values M dg = Inr dg' \<and> room dg' (n + ram_room M)"
proof (induction M arbitrary: dg n)
  case (Cons kv M)
  obtain f v where kv: "kv = (f, v)" by (cases kv)
  have total: "ram_room ((f, v) # M) = 2 + length v + ram_room M" by (simp add: ram_room_def)
  have bound: "n + 2 + length v + ram_room M \<le> DGSIZE_MAX" using Cons.prems(2) by (simp add: kv total)
  then have "length v \<le> DGSIZE_MAX" by simp
  note data = appends_add_data [OF this]
  from appends_room [OF appends_add(2) Cons.prems(1), of "ucast (field_id f)"] bound obtain dg1 where
    1: "add_uint16 (ucast (field_id f)) dg = Inr dg1" "room dg1 (n + 2)" by auto
  from appends_room [OF data 1(2)] bound obtain dg2 where 2: "add_data v dg1 = Inr dg2" "room dg2 (n + 2 + length v)" by auto
  from Cons.IH [OF 2(2) bound] 1(1) 2(1) show ?case by (simp add: kv total add.assoc)
qed (simp add: ram_room_def)

lemma ram_room_filter: "ram_room (filter P M) \<le> ram_room M"
  by (induction M) (auto simp: ram_room_def)

text \<open>An object whose values fit.\<close>

definition fits :: "dobj \<Rightarrow> bool" where
  "fits s \<longleftrightarrow> all_required (required_fields s) (cls_fields (do_class s))
     \<and> required_room (required_fields s) (cls_fields (do_class s)) + ram_room (ram_fields s) \<le> 50000"

lemma location_entry_sent:
  assumes "fits s"
  shows "\<exists>dg. send_location_entry l s = (Inr (), emit [dg] s)"
proof -
  let ?other = "ram_fields s \<noteq> []"
  let ?t = "if ?other then STATESERVER_OBJECT_ENTER_LOCATION_WITH_REQUIRED_OTHER else STATESERVER_OBJECT_ENTER_LOCATION_WITH_REQUIRED"
  let ?R = "required_room (required_fields s) (cls_fields (do_class s))"
  have max: "19 + 14 + ?R + 2 + ram_room (ram_fields s) \<le> DGSIZE_MAX" using assms by (simp add: fits_def DGSIZE_MAX_def)
  from appends_dg_create [OF appends_add_server_header, of l "doid_channel (do_id s)" ?t] obtain d0 where
    0: "dg_create_server l (doid_channel (do_id s)) ?t = Inr d0" "room d0 19"
    by (auto simp: dg_create_server_def room_def buf_offset_def DGSIZE_MAX_def)
  have "appends (le_bytes 4 (do_id s) @ (le_bytes 4 (parent_id s) @ le_bytes 4 (zone_id s))
      @ le_bytes 2 (ucast (cls_id (do_class s)) :: u16) @ [])
      (add_all [add_doid (do_id s), add_location (parent_id s) (zone_id s), add_uint16 (ucast (cls_id (do_class s)))])"
    by (intro appends_intros)
  from appends_room [OF this 0(2)] max obtain d1 where
    1: "add_all [add_doid (do_id s), add_location (parent_id s) (zone_id s), add_uint16 (ucast (cls_id (do_class s)))] d0 = Inr d1"
      "room d1 33" by auto
  from append_required_fits [OF _ 1(2), of s "cls_fields (do_class s)" True False] assms max obtain d2 where
    2: "append_required_fields True False (cls_fields (do_class s)) d1 s = (Inr d2, s)" "room d2 (33 + ?R)"
    by (auto simp: fits_def)
  have data: "append_required_data True False d0 s = (Inr d2, s)"
    using 1(1) 2(1) by (simp add: append_required_data_def del: add_all.simps)
  let ?kvs = "filter (\<lambda>(f, v). client_visible False f) (ram_fields s)"
  from appends_room [OF appends_add(2) 2(2), of "word_of_nat (length ?kvs)"] max obtain d3 where
    3: "add_uint16 (word_of_nat (length ?kvs)) d2 = Inr d3" "room d3 (35 + ?R)" by auto
  from append_values_fits [OF 3(2), of ?kvs] max ram_room_filter [of "\<lambda>(f, v). client_visible False f" "ram_fields s"]
  obtain d4 where 4: "append_values ?kvs d3 = Inr d4" by auto
  have "append_other_data True False d2 s = (Inr d4, s)"
    using 3(1) 4 by (simp add: append_other_data_def Let_def)
  with 0(1) data show ?thesis
    by (intro exI [of _ "if ?other then d4 else d2"], cases ?other)
      (simp_all add: send_location_entry_def send_entry_def Let_def sbind_apply)
qed

section \<open>Creation\<close>

lemma announce_sent:
  assumes env: "env_ok env" and few: "card T \<le> 10" and fits: "fits s"
  shows "\<exists>dgs. announce_location env T sender p' z' p z s = (Inr (), emit dgs (s\<lparr>parent_synchronized := False\<rparr>))"
proof -
  have ap: "appends (le_bytes 4 (do_id s) @ (le_bytes 4 p' @ le_bytes 4 z') @ (le_bytes 4 p @ le_bytes 4 z) @ [])
      (add_all [add_doid (do_id s), add_location p' z', add_location p z])"
    by (intro appends_intros)
  from send_to_set_emit [OF ap, of env T sender STATESERVER_OBJECT_CHANGING_LOCATION s]
    few length_target_order [OF env, of T]
  obtain dg where dg: "send_to_set env T sender STATESERVER_OBJECT_CHANGING_LOCATION
      [add_doid (do_id s), add_location p' z', add_location p z] s = (Inr (), emit [dg] s)"
    by auto
  let ?s2 = "(emit [dg] s)\<lparr>parent_synchronized := False\<rparr>"
  have "fits ?s2" using fits by (simp add: fits_def emit_def)
  from location_entry_sent [OF this] obtain dg' where
    "send_location_entry (location_as_channel p' z') ?s2 = (Inr (), emit [dg'] ?s2)" by blast
  with dg have "announce_location env T sender p' z' p z s
      = (Inr (), emit (dg # (if p' = 0 then [] else [dg'])) (s\<lparr>parent_synchronized := False\<rparr>))"
    by (simp add: announce_location_def sseq_apply swhen_def emit_def del: add_all.simps)
  then show ?thesis by blast
qed

text \<open>The object that results: its values are the given ones, its place too.\<close>

lemma activated_object:
  assumes env: "env_ok env" and parent: "p \<noteq> d"
    and room: "all_required R (cls_fields cls)" "required_room R (cls_fields cls) + ram_room M \<le> 50000"
  shows "\<exists>obj. dobj_activate sync env sender d p z cls R M = (Inr (), obj) \<and> do_id obj = d \<and> do_class obj = cls
    \<and> parent_id obj = p \<and> zone_id obj = z \<and> required_fields obj = R \<and> ram_fields obj = M"
proof -
  let ?s = "(dobj_new d cls sync)\<lparr>required_fields := R, ram_fields := M, effects := [Subscribe (doid_channel d)]\<rparr>"
  define good where "good = (\<lambda>o' :: dobj. do_id o' = d \<and> do_class o' = cls \<and> parent_id o' = p \<and> zone_id o' = z
    \<and> required_fields o' = R \<and> ram_fields o' = M)"
  have "\<exists>s1. handle_location_change env p z sender ?s = (Inr (), s1) \<and> good s1"
  proof (cases "p = 0 \<and> z = 0")
    case True
    then have "handle_location_change env p z sender ?s = (Inr (), ?s)"
      using parent by (simp add: handle_location_change_def dobj_new_def Let_def)
    with True show ?thesis by (auto simp: good_def dobj_new_def)
  next
    case False
    with location_change_announces [of p ?s z env sender] parent obtain asked s0 where
      s0: "relocated ?s p z asked s0" "handle_location_change env p z sender ?s
        = announce_location env (location_targets ?s p) sender p z (parent_id ?s) (zone_id ?s) s0"
      by (auto simp: dobj_new_def)
    from s0(1) have "fits s0" "good s0" using room by (simp_all add: relocated_def fits_def good_def dobj_new_def)
    with announce_sent [OF env location_targets_few] s0(2) show ?thesis
      by (fastforce simp: good_def emit_def)
  qed
  then obtain s1 where s1: "handle_location_change env p z sender ?s = (Inr (), s1)" "good s1" by blast
  have "appends (le_bytes 4 STATESERVER_CONTEXT_WAKE_CHILDREN @ []) (add_all [add_uint32 STATESERVER_CONTEXT_WAKE_CHILDREN])"
    by (intro appends_intros)
  from send_to_emit [OF this, of "parent_to_children (do_id s1)" "doid_channel (do_id s1)" STATESERVER_OBJECT_GET_LOCATION s1]
  obtain w where w: "wake_children s1 = (Inr (), emit [w] s1)"
    by (auto simp: wake_children_def simp del: add_all.simps)
  have "dobj_activate sync env sender d p z cls R M = (Inr (), emit [w] s1)"
    using s1(1) w by (simp add: dobj_activate_def effect_def dobj_new_def sseq_apply)
  with s1(2) show ?thesis by (auto simp: good_def emit_def)
qed

end
