(* ===== verification/DBSS_Load.thy ===== *)
theory DBSS_Load
  imports DBSS_Invariant Object_Activation
begin

text \<open>
  A load from the database's answer to the active object: where each of its values comes from,
  the object that results, and the messages held back meanwhile.
\<close>

section \<open>Where the values come from\<close>

lemma merge_untouched:
  "i \<notin> field_id ` set fs \<Longrightarrow> fst (merge_values ups fs R M) i = R i"
  by (induction fs arbitrary: R M) (auto split: option.split)

lemma merge_required:
  assumes "distinct (map field_id fs)" "f \<in> set fs" "as_molecular f = None" "has_keyword f ''required''"
  shows "fst (merge_values ups fs R M) (field_id f) = Some (case ups (field_id f) of Some v \<Rightarrow> v
    | None \<Rightarrow> (case R (field_id f) of Some v \<Rightarrow> v | None \<Rightarrow> field_default f))"
  using assms(1,2)
proof (induction fs arbitrary: R M)
  case (Cons g fs)
  have later: "f \<noteq> g \<Longrightarrow> f \<in> set fs \<and> field_id g \<noteq> field_id f" using Cons.prems by (auto simp: rev_image_eqI)
  show ?case
  proof (cases "f = g")
    case True
    with Cons.prems(1) have "field_id f \<notin> field_id ` set fs" by simp
    with True assms(3,4) show ?thesis by (auto simp: merge_untouched split: option.split)
  next
    case False
    with later Cons.prems(1) Cons.IH show ?thesis by (auto split: option.split)
  qed
qed simp

lemma merge_ram_untouched:
  "i \<notin> field_id ` set fs \<Longrightarrow> field_id f = i \<Longrightarrow> fv_lookup f (snd (merge_values ups fs R M)) = fv_lookup f M"
  by (induction fs arbitrary: R M) (auto split: option.split)

lemma merge_ram:
  assumes "distinct (map field_id fs)" "f \<in> set fs" "as_molecular f = None" "\<not> has_keyword f ''required''" "has_keyword f ''ram''"
  shows "fv_lookup f (snd (merge_values ups fs R M)) = (case ups (field_id f) of Some v \<Rightarrow> Some v | None \<Rightarrow> fv_lookup f M)"
  using assms(1,2)
proof (induction fs arbitrary: R M)
  case (Cons g fs)
  have later: "f \<noteq> g \<Longrightarrow> f \<in> set fs \<and> field_id f \<noteq> field_id g" using Cons.prems by (auto simp: rev_image_eqI)
  show ?case
  proof (cases "f = g")
    case True
    with Cons.prems(1) have "field_id f \<notin> field_id ` set fs" by simp
    with True assms(3-5) show ?thesis by (auto simp: merge_ram_untouched split: option.split)
  next
    case False
    with later Cons.prems(1) Cons.IH show ?thesis by (auto split: option.split)
  qed
qed simp

lemma merge_all_required:
  assumes "distinct (map field_id fs)"
  shows "all_required (fst (merge_values ups fs R M)) fs"
  using merge_required [OF assms] by (auto simp: all_required_def)

section \<open>Messages held back\<close>

text \<open>
  The object after the messages held back, one after the other; \<open>None\<close> once one of them has
  deleted it.
\<close>

fun replayed :: "do_env \<Rightarrow> datagram list \<Rightarrow> dobj \<Rightarrow> dobj option" where
  "replayed env [] obj = Some obj"
| "replayed env (dg # dgs) obj =
     (case payload dg of
        Inl e \<Rightarrow> replayed env dgs obj
      | Inr it \<Rightarrow>
          (let obj' = snd (do_handle_datagram env it (obj\<lparr>effects := []\<rparr>)) in
           if EraseObject (do_id obj) \<in> set (effects obj') then None else replayed env dgs obj'))"

text \<open>
  A message that neither the object nor the server handles with an exception, other than that
  it is too short.
\<close>

definition tolerated :: "dbss_env \<Rightarrow> datagram \<Rightarrow> bool" where
  "tolerated env dg \<longleftrightarrow> (\<forall>it. payload dg = Inr it \<longrightarrow>
     (\<forall>obj. fst (do_handle_datagram (object_env env) it obj) \<in> {Inr (), Inl DatagramIteratorEOF})
   \<and> (\<forall>s. fst (dbss_handle_datagram env it s) \<in> {Inr (), Inl DatagramIteratorEOF}))"

lemma payload_errors: "payload dg = Inl e \<Longrightarrow> e = DatagramIteratorEOF"
  by (auto simp: payload_def seek_payload_def get_recipient_count_def rbind_eq_Inl split: if_splits)

lemma replay_run:
  assumes "dbss_objs s d = Some obj" "do_id obj = d" "\<forall>dg \<in> set dgs. tolerated env dg"
  shows "\<exists>s'. replay_datagrams env d dgs s = (Inr (), s') \<and> dbss_objs s' = (dbss_objs s)(d := replayed (object_env env) dgs obj)
    \<and> loading s' = loading s"
  using assms
proof (induction dgs arbitrary: s obj)
  case Nil
  then show ?case by (auto simp: fun_upd_idem)
next
  case (Cons dg dgs)
  show ?case
  proof (cases "payload dg")
    case (Inl e)
    then have "at_payload dg (dbss_object_datagram env d) s = (Inr (), s)"
      using payload_errors [OF Inl] by (simp add: at_payload_def payload_def catch_truncated_def)
    moreover obtain s' where "replay_datagrams env d dgs s = (Inr (), s')"
      "dbss_objs s' = (dbss_objs s)(d := replayed (object_env env) dgs obj)" "loading s' = loading s"
      using Cons.IH [OF Cons.prems(1,2)] Cons.prems(3) by (metis list.set_intros(2))
    ultimately have "replay_datagrams env d (dg # dgs) s = (Inr (), s')" using Cons.prems(1) by (simp add: sseq_apply)
    moreover have "replayed (object_env env) (dg # dgs) obj = replayed (object_env env) dgs obj" using Inl by simp
    ultimately show ?thesis
      using \<open>dbss_objs s' = _\<close> \<open>loading s' = loading s\<close> by metis
  next
    case (Inr it)
    obtain r obj' where h: "do_handle_datagram (object_env env) it (obj\<lparr>effects := []\<rparr>) = (r, obj')"
      by (cases "do_handle_datagram (object_env env) it (obj\<lparr>effects := []\<rparr>)")
    have r: "r \<in> {Inr (), Inl DatagramIteratorEOF}"
      using Cons.prems(3) Inr h unfolding tolerated_def by (metis fst_conv list.set_intros(1))
    have me: "do_id obj' = d"
      using identity_of_message [of "object_env env" it "obj\<lparr>effects := []\<rparr>"] h Cons.prems(2) by simp
    let ?s1 = "snd (dbss_object_datagram env d it s)"
    have run: "at_payload dg (dbss_object_datagram env d) s = (Inr (), ?s1)"
      using Inr r Cons.prems(1)
      by (auto simp: at_payload_def payload_def catch_truncated_def dbss_object_datagram_def h)
    show ?thesis
    proof (cases "EraseObject d \<in> set (effects obj')")
      case True
      have "dbss_objs ?s1 = (dbss_objs s)(d := None)" "loading ?s1 = loading s"
        using True Cons.prems(1,2) by (simp_all add: dbss_object_datagram_def h)
      moreover have "replay_datagrams env d dgs ?s1 = (Inr (), ?s1)"
        using calculation(1) by (cases dgs) simp_all
      moreover have "replayed (object_env env) (dg # dgs) obj = None" using Inr True Cons.prems(2) h by simp
      moreover have "replay_datagrams env d (dg # dgs) s = replay_datagrams env d dgs ?s1"
        using run Cons.prems(1) by (simp add: sseq_apply)
      ultimately show ?thesis by metis
    next
      case False
      have s1: "dbss_objs ?s1 = (dbss_objs s)(d \<mapsto> obj')" "loading ?s1 = loading s"
        using False Cons.prems(1,2) by (simp_all add: dbss_object_datagram_def h)
      then have "dbss_objs ?s1 d = Some obj'" by simp
      from Cons.IH [OF this me] Cons.prems(3) obtain s' where "replay_datagrams env d dgs ?s1 = (Inr (), s')"
        "dbss_objs s' = (dbss_objs ?s1)(d := replayed (object_env env) dgs obj')" "loading s' = loading ?s1"
        by (metis list.set_intros(2))
      moreover have "replayed (object_env env) (dg # dgs) obj = replayed (object_env env) dgs obj'"
        using Inr False Cons.prems(2) h by simp
      moreover have "replay_datagrams env d (dg # dgs) s = replay_datagrams env d dgs ?s1"
        using run Cons.prems(1) by (simp add: sseq_apply)
      ultimately show ?thesis using s1 by (metis fun_upd_upd)
    qed
  qed
qed

lemma forward_run:
  assumes env: "defaults_short env"
  shows "\<forall>dg \<in> set dgs. tolerated env dg \<and> \<not> is_activation dg \<Longrightarrow>
    \<exists>s'. forward_datagrams env dgs s = (Inr (), s') \<and> dbss_objs s' = dbss_objs s \<and> loading s' = loading s"
proof (induction dgs arbitrary: s)
  case (Cons dg dgs)
  have "\<exists>s1. at_payload dg (dbss_handle_datagram env) s = (Inr (), s1) \<and> dbss_objs s1 = dbss_objs s \<and> loading s1 = loading s"
  proof (cases "payload dg")
    case (Inl e)
    then show ?thesis using payload_errors [OF Inl] by (simp add: at_payload_def payload_def catch_truncated_def)
  next
    case (Inr it)
    obtain r s1 where h: "dbss_handle_datagram env it s = (r, s1)" by (cases "dbss_handle_datagram env it s")
    have "r \<in> {Inr (), Inl DatagramIteratorEOF}"
      using Cons.prems Inr h unfolding tolerated_def by (metis fst_conv list.set_intros(1))
    moreover have "tables_kept s s1"
      using handle_datagram_quiet [OF env Inr] Cons.prems h unfolding quiet_op_def by (metis list.set_intros(1) snd_conv)
    ultimately show ?thesis using Inr
      by (auto simp: at_payload_def payload_def catch_truncated_def h tables_kept_def)
  qed
  then obtain s1 where s1: "at_payload dg (dbss_handle_datagram env) s = (Inr (), s1)"
    "dbss_objs s1 = dbss_objs s" "loading s1 = loading s" by blast
  from Cons.IH [of s1] Cons.prems obtain s' where "forward_datagrams env dgs s1 = (Inr (), s')"
    "dbss_objs s' = dbss_objs s1" "loading s' = loading s1" by auto
  with s1 show ?case by (simp add: sseq_apply)
qed simp

lemma finalize_run:
  assumes "defaults_short env" "\<forall>dg \<in> set (datagram_queue ld). tolerated env dg \<and> \<not> is_activation dg"
  shows "\<exists>s'. loader_finalize env d ld s = (Inr (), s') \<and> dbss_objs s' = dbss_objs s \<and> loading s' = (loading s)(d := None)"
proof -
  from forward_run [OF assms, of "s\<lparr>loading := (loading s)(d := None)\<rparr>"] obtain s1 where
    "forward_datagrams env (datagram_queue ld) (s\<lparr>loading := (loading s)(d := None)\<rparr>) = (Inr (), s1)"
    "dbss_objs s1 = dbss_objs s" "loading s1 = (loading s)(d := None)" by auto
  then show ?thesis by (simp add: loader_finalize_def sseq_apply)
qed

section \<open>The load\<close>

lemma load_run:
  fixes db :: channel and c :: u32 and dc_id :: u16
  assumes msg: "upcoming it (le_bytes 8 db @ le_bytes 2 DBSERVER_OBJECT_GET_ALL_RESP @ le_bytes 4 c
      @ le_bytes 1 (1 :: u8) @ le_bytes 2 dc_id)"
    and ld: "loading s d = Some ld" "\<not> is_loaded ld" "c = ld_context ld \<or> c \<in> valid_contexts ld" "ld_parent ld \<noteq> d"
    and cls: "class_by_id env dc_id = Some cls" "ld_class ld \<in> {None, Some cls}" "distinct (map field_id (cls_fields cls))"
    and vals: "unpack_db_fields (Some cls) (advance it 17) = Inr (True, R, M)"
    and merged: "merge_values (field_updates ld) (cls_fields cls) R M = (R', M')"
    and room: "required_room R' (cls_fields cls) + ram_room M' \<le> 50000"
    and env: "env_ok (object_env env)" "defaults_short env"
    and queue: "\<forall>dg \<in> set (datagram_queue ld). tolerated env dg \<and> \<not> is_activation dg"
  shows "\<exists>obj s'. loader_handle_datagram env d it s = (Inr (), s')
    \<and> do_id obj = d \<and> do_class obj = cls \<and> parent_id obj = ld_parent ld \<and> zone_id obj = ld_zone ld
    \<and> required_fields obj = R' \<and> ram_fields obj = M'
    \<and> dbss_objs s' = (dbss_objs s)(d := replayed (object_env env) (datagram_queue ld) obj)
    \<and> loading s' = (loading s)(d := None)"
proof -
  note h1 = read_channel_upcoming [OF msg]
  note h2 = read_uint16_upcoming [OF conjunct2 [OF h1]]
  note h3 = read_uint32_upcoming [OF conjunct2 [OF h2]]
  from h3 have up: "upcoming (advance it 14) (le_bytes 1 (1 :: u8))" "upcoming (advance it 15) (le_bytes 2 dc_id @ [])"
    by (simp_all add: upcoming_append)
  note h5 = read_uint16_upcoming [OF up(2)]
  have h4: "read_bool (advance it 14) = Inr (True, advance it 15)"
    using boolc.rd_upcoming [OF TrueI, of "advance it 14" True] up(1) by simp
  let ?s1 = "s\<lparr>loading := (loading s)(d \<mapsto> ld\<lparr>is_loaded := True\<rparr>)\<rparr>"
  have "all_required R' (cls_fields cls)" using merge_all_required [OF cls(3), of "field_updates ld" R M] merged by simp
  from activated_object [OF env(1) ld(4) this room, of "uninitialised env" "db_channel env" "ld_zone ld"] obtain obj where
    act: "dobj_activate (uninitialised env) (object_env env) (db_channel env) d (ld_parent ld) (ld_zone ld) cls R' M' = (Inr (), obj)"
    and obj: "do_id obj = d" "do_class obj = cls" "parent_id obj = ld_parent ld" "zone_id obj = ld_zone ld"
      "required_fields obj = R'" "ram_fields obj = M'" by blast
  let ?s2 = "?s1\<lparr>dbss_log := dbss_log s @ map (ObjectEffect d) (effects obj), dbss_objs := (dbss_objs s)(d \<mapsto> obj)\<rparr>"
  have created: "create_object env d ld cls R' M' ?s1 = (Inr (), ?s2)"
    by (simp add: create_object_def act log_object_def sseq_apply)
  have "dbss_objs ?s2 d = Some obj" by simp
  from replay_run [OF this obj(1)] queue obtain s3 where
    replay: "replay_datagrams env d (datagram_queue ld) ?s2 = (Inr (), s3)"
      "dbss_objs s3 = (dbss_objs ?s2)(d := replayed (object_env env) (datagram_queue ld) obj)" "loading s3 = loading ?s2"
    by blast
  from finalize_run [OF env(2) queue, of d s3] obtain s4 where
    fin: "loader_finalize env d ld s3 = (Inr (), s4)" "dbss_objs s4 = dbss_objs s3" "loading s4 = (loading s3)(d := None)"
    by blast
  have "loader_response env d ld (advance it 10) s
      = sseq (create_object env d ld cls R' M') (sseq (replay_datagrams env d (datagram_queue ld)) (loader_finalize env d ld)) ?s1"
    using h3 h4 h5 ld(3) cls(1,2) vals merged by (auto simp: loader_response_def)
  also have "\<dots> = (Inr (), s4)" by (simp add: sseq_apply created replay(1) fin(1))
  finally have "loader_handle_datagram env d it s = (Inr (), s4)"
    using h1 h2 ld(1,2) by (simp add: loader_handle_datagram_def)
  then show ?thesis using obj fin(2,3) replay(2,3) by auto
qed

end
