(* ===== verification/DB_Queue.thy ===== *)
theory DB_Queue
  imports Prelude
begin

text \<open>
  The queue of the operations on one database object, \<open>database/DBOperationQueue.cpp\<close>. The
  virtual call \<open>op->is_independent_of(other)\<close> is the argument \<open>indep\<close>; what the queue promises
  rests on it being symmetric, which the locale states.
\<close>

section \<open>The queue\<close>

record 'op dbqueue =
  q_queue :: "'op list"
  q_running :: "'op list"

definition queue_new :: "'op dbqueue" where
  "queue_new = \<lparr>q_queue = [], q_running = []\<rparr>"

definition can_operation_start :: "('op \<Rightarrow> 'op \<Rightarrow> bool) \<Rightarrow> 'op \<Rightarrow> 'op dbqueue \<Rightarrow> bool" where
  "can_operation_start indep op q \<longleftrightarrow> list_all (\<lambda>running. indep op running) (q_running q)"

definition get_next_operation :: "('op \<Rightarrow> 'op \<Rightarrow> bool) \<Rightarrow> 'op dbqueue \<Rightarrow> 'op option \<times> 'op dbqueue" where
  "get_next_operation indep q =
     (case q_queue q of
        [] \<Rightarrow> (None, q)
      | op # rest \<Rightarrow>
          if can_operation_start indep op q then (Some op, q\<lparr>q_queue := rest\<rparr>) else (None, q))"

definition enqueue_operation :: "('op \<Rightarrow> 'op \<Rightarrow> bool) \<Rightarrow> 'op \<Rightarrow> 'op dbqueue \<Rightarrow> bool \<times> 'op dbqueue" where
  "enqueue_operation indep op q =
     (if q_queue q = [] \<and> can_operation_start indep op q then (False, q)
      else (True, q\<lparr>q_queue := q_queue q @ [op]\<rparr>))"

definition begin_operation :: "'op \<Rightarrow> 'op dbqueue \<Rightarrow> 'op dbqueue" where
  "begin_operation op q = (if op \<in> set (q_running q) then q else q\<lparr>q_running := q_running q @ [op]\<rparr>)"

definition finalize_operation :: "('op \<Rightarrow> 'op \<Rightarrow> bool) \<Rightarrow> 'op \<Rightarrow> 'op dbqueue \<Rightarrow> bool \<times> 'op dbqueue" where
  "finalize_operation indep op q =
     (let q' = q\<lparr>q_running := removeAll op (q_running q)\<rparr>
      in (case q_queue q' of [] \<Rightarrow> False | front # _ \<Rightarrow> \<not> indep op front, q'))"

definition queue_is_empty :: "'op dbqueue \<Rightarrow> bool" where
  "queue_is_empty q \<longleftrightarrow> q_queue q = [] \<and> q_running q = []"

text \<open>
  The loop of \<open>DatabaseServer::clear_operation\<close>: begin and submit whatever may start. The
  result is what was submitted, in order.
\<close>

function start_eligible :: "('op \<Rightarrow> 'op \<Rightarrow> bool) \<Rightarrow> 'op dbqueue \<Rightarrow> 'op list \<times> 'op dbqueue" where
  "start_eligible indep q =
     (case get_next_operation indep q of
        (None, q1) \<Rightarrow> ([], q1)
      | (Some op, q1) \<Rightarrow>
          (case start_eligible indep (begin_operation op q1) of (ops, q2) \<Rightarrow> (op # ops, q2)))"
  by pat_completeness auto
termination
  by (relation "measure (\<lambda>(_, q). length (q_queue q))")
     (auto simp: get_next_operation_def begin_operation_def split: list.splits if_splits)

declare start_eligible.simps [simp del]

section \<open>What the queue promises\<close>

text \<open>
  The running operations are pairwise independent, and the first waiting one is blocked by one
  of them.
\<close>

definition running_ok :: "('op \<Rightarrow> 'op \<Rightarrow> bool) \<Rightarrow> 'op dbqueue \<Rightarrow> bool" where
  "running_ok indep q \<longleftrightarrow> distinct (q_running q)
     \<and> (\<forall>a \<in> set (q_running q). \<forall>b \<in> set (q_running q). a \<noteq> b \<longrightarrow> indep a b)"

definition front_blocked :: "('op \<Rightarrow> 'op \<Rightarrow> bool) \<Rightarrow> 'op dbqueue \<Rightarrow> bool" where
  "front_blocked indep q \<longleftrightarrow>
     (\<forall>op rest. q_queue q = op # rest \<longrightarrow> \<not> can_operation_start indep op q)"

definition queue_ok :: "('op \<Rightarrow> 'op \<Rightarrow> bool) \<Rightarrow> 'op dbqueue \<Rightarrow> bool" where
  "queue_ok indep q \<longleftrightarrow> running_ok indep q \<and> front_blocked indep q
     \<and> distinct (q_running q @ q_queue q)"

locale operation_queue =
  fixes indep :: "'op \<Rightarrow> 'op \<Rightarrow> bool"
  assumes sym: "indep a b = indep b a"
begin

lemma running_begin:
  "running_ok indep q \<Longrightarrow> can_operation_start indep op q \<Longrightarrow> running_ok indep (begin_operation op q)"
  using sym by (auto simp: running_ok_def begin_operation_def can_operation_start_def list_all_iff)

lemma start_eligible_ok:
  "running_ok indep q \<Longrightarrow> distinct (q_running q @ q_queue q) \<Longrightarrow> start_eligible indep q = (ops, q') \<Longrightarrow>
    queue_ok indep q' \<and> q_queue q = ops @ q_queue q' \<and> q_running q' = q_running q @ ops"
proof (induction "q_queue q" arbitrary: q ops)
  case Nil
  then show ?case
    by (subst (asm) start_eligible.simps) (simp add: get_next_operation_def queue_ok_def front_blocked_def)
next
  case (Cons op rest)
  show ?case
  proof (cases "can_operation_start indep op q")
    case False
    with Cons.hyps(2) Cons.prems show ?thesis
      by (subst (asm) start_eligible.simps)
        (auto simp: get_next_operation_def queue_ok_def front_blocked_def split: list.splits)
  next
    case True
    let ?q1 = "begin_operation op (q\<lparr>q_queue := rest\<rparr>)"
    have fresh: "op \<notin> set (q_running q)" using Cons.hyps(2) [symmetric] Cons.prems(2) by auto
    have q1: "q_queue ?q1 = rest" "q_running ?q1 = q_running q @ [op]"
      using fresh by (simp_all add: begin_operation_def)
    have "running_ok indep ?q1"
      by (rule running_begin) (use Cons.prems(1) True in \<open>simp_all add: running_ok_def can_operation_start_def\<close>)
    moreover have "distinct (q_running ?q1 @ q_queue ?q1)"
      using Cons.hyps(2) [symmetric] Cons.prems(2) q1 by auto
    moreover obtain ops1 where ops1: "start_eligible indep ?q1 = (ops1, q')" "ops = op # ops1"
      using Cons.prems(3) Cons.hyps(2) [symmetric] True
      by (subst (asm) start_eligible.simps) (auto simp: get_next_operation_def split: prod.splits)
    ultimately have "queue_ok indep q' \<and> q_queue ?q1 = ops1 @ q_queue q' \<and> q_running q' = q_running ?q1 @ ops1"
      using Cons.hyps(1) [of ?q1 ops1] q1(1) by simp
    then show ?thesis using q1 ops1(2) Cons.hyps(2) [symmetric] by simp
  qed
qed

text \<open>A new operation: begun at once, or queued behind everything that waits.\<close>

lemma enqueue_ok:
  assumes "queue_ok indep q" "op \<notin> set (q_running q @ q_queue q)"
  shows "enqueue_operation indep op q = (False, q1) \<Longrightarrow>
      q1 = q \<and> queue_ok indep (begin_operation op q) \<and> q_queue q = []"
    and "enqueue_operation indep op q = (True, q1) \<Longrightarrow>
      queue_ok indep q1 \<and> q_queue q1 = q_queue q @ [op] \<and> q_running q1 = q_running q"
proof -
  assume "enqueue_operation indep op q = (False, q1)"
  then have q: "q_queue q = []" "can_operation_start indep op q" "q1 = q"
    by (auto simp: enqueue_operation_def split: if_splits)
  have "running_ok indep (begin_operation op q)"
    using running_begin [OF _ q(2)] assms(1) by (simp add: queue_ok_def)
  with q assms(2) show "q1 = q \<and> queue_ok indep (begin_operation op q) \<and> q_queue q = []"
    by (auto simp: queue_ok_def front_blocked_def begin_operation_def running_ok_def)
next
  assume "enqueue_operation indep op q = (True, q1)"
  then show "queue_ok indep q1 \<and> q_queue q1 = q_queue q @ [op] \<and> q_running q1 = q_running q"
    using assms
    by (cases "q_queue q") (auto simp: enqueue_operation_def queue_ok_def front_blocked_def running_ok_def
        can_operation_start_def split: if_splits)
qed

text \<open>
  The end of an operation. When \<open>finalize_operation\<close> says there is nothing to do, there is
  nothing to do: the front is still blocked, by an operation other than the finished one.
\<close>

lemma finalize_ok:
  assumes ok: "queue_ok indep q" and fin: "finalize_operation indep op q = (again, q1)"
  shows "running_ok indep q1 \<and> distinct (q_running q1 @ q_queue q1) \<and> q_queue q1 = q_queue q
      \<and> set (q_running q1) = set (q_running q) - {op}"
    and "\<not> again \<Longrightarrow> queue_ok indep q1"
proof -
  have q1: "q1 = q\<lparr>q_running := removeAll op (q_running q)\<rparr>"
    and again: "again = (case q_queue q of [] \<Rightarrow> False | front # _ \<Rightarrow> \<not> indep op front)"
    using fin by (auto simp: finalize_operation_def Let_def)
  show 1: "running_ok indep q1 \<and> distinct (q_running q1 @ q_queue q1) \<and> q_queue q1 = q_queue q
      \<and> set (q_running q1) = set (q_running q) - {op}"
    using ok by (auto simp: q1 queue_ok_def running_ok_def distinct_removeAll)
  assume na: "\<not> again"
  have "front_blocked indep q1"
    unfolding front_blocked_def
  proof (intro allI impI)
    fix front rest
    assume f: "q_queue q1 = front # rest"
    with ok q1 obtain r where r: "r \<in> set (q_running q)" "\<not> indep front r"
      by (auto simp: queue_ok_def front_blocked_def can_operation_start_def list_all_iff)
    moreover have "indep op front" using na f q1 again by simp
    ultimately have "r \<noteq> op" using sym by auto
    with r show "\<not> can_operation_start indep front q1"
      by (auto simp: q1 can_operation_start_def list_all_iff)
  qed
  with 1 show "queue_ok indep q1" unfolding queue_ok_def by blast
qed

text \<open>Nothing waits when nothing runs.\<close>

lemma idle_is_empty: "queue_ok indep q \<Longrightarrow> q_running q = [] \<Longrightarrow> queue_is_empty q"
  by (cases "q_queue q") (auto simp: queue_ok_def front_blocked_def can_operation_start_def queue_is_empty_def)

end

end
