(* ===== verification/DB_Operation.thy ===== *)
theory DB_Operation
  imports DB_Queue Dg_Iterator Field_Values
begin

text \<open>
  Database operations, \<open>database/DBOperation.cpp\<close> and \<open>.h\<close>: what a request asks for, how it
  is read from its message, when two of them may run at the same time, and the answers. The
  subclass of an operation is determined by its type (Get has two). \<open>op_ptr\<close> is the object's
  address, which tells apart two operations with the same contents. The dclass file is seen
  through its two lookups.
\<close>

section \<open>Operations\<close>

datatype op_type = CREATE_OBJECT | DELETE_OBJECT | GET_OBJECT | GET_FIELDS | SET_FIELDS | UPDATE_FIELDS

record dbop =
  op_ptr :: nat
  op_type :: op_type
  op_sender :: channel
  op_doid :: doid
  op_class :: "dclass option"
  get_fields :: "field list"
  set_fields :: field_values
  criteria_fields :: field_values
  op_context :: u32
  resp_msgtype :: u16

record dc_file =
  dcf_field :: "u16 \<Rightarrow> field option"
  dcf_class :: "u16 \<Rightarrow> dclass option"

record snapshot =
  snap_class :: "dclass option"
  snap_fields :: field_values

definition dbop_new :: "nat \<Rightarrow> op_type \<Rightarrow> channel \<Rightarrow> dbop" where
  "dbop_new ptr ty sender = \<lparr>op_ptr = ptr, op_type = ty, op_sender = sender, op_doid = 0, op_class = None,
     get_fields = [], set_fields = [], criteria_fields = [], op_context = 0, resp_msgtype = 0\<rparr>"

section \<open>Independence\<close>

definition base_independent :: "dbop \<Rightarrow> dbop \<Rightarrow> bool" where
  "base_independent op other \<longleftrightarrow> op_doid op \<noteq> op_doid other"

definition get_independent :: "dbop \<Rightarrow> dbop \<Rightarrow> bool" where
  "get_independent op other =
     (if op_doid op \<noteq> op_doid other then True
      else case op_type other of
        GET_OBJECT \<Rightarrow> True
      | GET_FIELDS \<Rightarrow> True
      | SET_FIELDS \<Rightarrow>
          (if op_type op = GET_OBJECT then False
           else list_all (\<lambda>f. fv_lookup f (set_fields other) = None) (get_fields op))
      | UPDATE_FIELDS \<Rightarrow>
          (if op_type op = GET_OBJECT then False
           else list_all (\<lambda>f. fv_lookup f (set_fields other) = None) (get_fields op))
      | _ \<Rightarrow> False)"

definition set_independent :: "dbop \<Rightarrow> dbop \<Rightarrow> bool" where
  "set_independent op other =
     (if op_doid op \<noteq> op_doid other then True
      else case op_type other of
        GET_OBJECT \<Rightarrow> get_independent other op
      | GET_FIELDS \<Rightarrow> get_independent other op
      | SET_FIELDS \<Rightarrow> list_all (\<lambda>(f, v). fv_lookup f (set_fields other) = None) (set_fields op)
      | UPDATE_FIELDS \<Rightarrow>
          list_all (\<lambda>(f, v). fv_lookup f (set_fields other) = None
            \<and> fv_lookup f (criteria_fields other) = None) (set_fields op)
      | _ \<Rightarrow> False)"

definition update_independent :: "dbop \<Rightarrow> dbop \<Rightarrow> bool" where
  "update_independent op other =
     (if op_doid op \<noteq> op_doid other then True
      else case op_type other of
        GET_OBJECT \<Rightarrow> get_independent other op
      | GET_FIELDS \<Rightarrow> get_independent other op
      | SET_FIELDS \<Rightarrow> set_independent other op
      | UPDATE_FIELDS \<Rightarrow>
          list_all (\<lambda>(f, v). fv_lookup f (set_fields other) = None
            \<and> fv_lookup f (criteria_fields other) = None) (set_fields op)
          \<and> list_all (\<lambda>(f, v). fv_lookup f (criteria_fields op) = None) (set_fields other)
      | _ \<Rightarrow> False)"

text \<open>The virtual call.\<close>

definition is_independent_of :: "dbop \<Rightarrow> dbop \<Rightarrow> bool" where
  "is_independent_of op other =
     (case op_type op of
        GET_OBJECT \<Rightarrow> get_independent op other
      | GET_FIELDS \<Rightarrow> get_independent op other
      | SET_FIELDS \<Rightarrow> set_independent op other
      | UPDATE_FIELDS \<Rightarrow> update_independent op other
      | _ \<Rightarrow> base_independent op other)"

section \<open>Reading a request\<close>

definition unpack_criterion :: "field \<Rightarrow> dgi \<Rightarrow> (dbop, dgi) sm" where
  "unpack_criterion f it =
     sbind (slift (unpack_field f it)) (\<lambda>(data, it).
     sseq (supd (\<lambda>op. op\<lparr>criteria_fields := fv_append f data (criteria_fields op)\<rparr>)) (sret it))"

definition unpack_value :: "field \<Rightarrow> dgi \<Rightarrow> (dbop, dgi) sm" where
  "unpack_value f it =
     sbind (slift (unpack_field f it)) (\<lambda>(data, it).
     sseq (supd (\<lambda>op. op\<lparr>set_fields := fv_append f data (set_fields op)\<rparr>)) (sret it))"

text \<open>The \<open>try\<close> block of \<open>populate_set_fields\<close>.\<close>

definition read_change :: "field \<Rightarrow> bool \<Rightarrow> bool \<Rightarrow> dgi \<Rightarrow> (dbop, dgi) sm" where
  "read_change f delete_values check_values it =
     sbind (if check_values then unpack_criterion f it else sret it) (\<lambda>it.
     if \<not> delete_values then unpack_value f it
     else if field_has_default f then
       sseq (supd (\<lambda>op. op\<lparr>set_fields := fv_update f (field_default f) (set_fields op)\<rparr>)) (sret it)
     else sseq (supd (\<lambda>op. op\<lparr>set_fields := fv_update f [] (set_fields op)\<rparr>)) (sret it))"

fun populate_set_fields :: "dc_file \<Rightarrow> nat \<Rightarrow> bool \<Rightarrow> bool \<Rightarrow> dgi \<Rightarrow> (dbop, bool) sm" where
  "populate_set_fields dcf 0 delete_values check_values it =
     sget (\<lambda>op. op_type op = CREATE_OBJECT \<or> set_fields op \<noteq> [])"
| "populate_set_fields dcf (Suc n) delete_values check_values it =
     sbind (slift (read_uint16 it)) (\<lambda>(fid, it).
     case dcf_field dcf fid of
       None \<Rightarrow> sret False
     | Some f \<Rightarrow>
         if has_keyword f ''db'' then
           (\<lambda>op. case read_change f delete_values check_values it op of
              (Inr it, op') \<Rightarrow> populate_set_fields dcf n delete_values check_values it op'
            | (Inl e, op') \<Rightarrow>
                if e = FieldConstraintViolation \<or> e = DatagramIteratorEOF then (Inr False, op') else (Inl e, op'))
         else
           sbind (if \<not> delete_values then slift (skip_field f it) else sret it) (\<lambda>it.
           if check_values then sret False
           else populate_set_fields dcf n delete_values check_values it))"

fun populate_get_fields :: "dc_file \<Rightarrow> nat \<Rightarrow> dgi \<Rightarrow> (dbop, bool) sm" where
  "populate_get_fields dcf 0 it = sget (\<lambda>op. get_fields op \<noteq> [])"
| "populate_get_fields dcf (Suc n) it =
     sbind (slift (read_uint16 it)) (\<lambda>(fid, it).
     case dcf_field dcf fid of
       None \<Rightarrow> sret False
     | Some f \<Rightarrow>
         sseq (swhen (has_keyword f ''db'') (supd (\<lambda>op. op\<lparr>get_fields := fs_insert f (get_fields op)\<rparr>)))
           (populate_get_fields dcf n it))"

section \<open>Checks against the class\<close>

definition verify_set :: "dclass \<Rightarrow> field list \<Rightarrow> bool" where
  "verify_set cls fs \<longleftrightarrow> list_all (\<lambda>f. get_field_by_id cls (field_id f) \<noteq> None) fs"

definition verify_values :: "dclass \<Rightarrow> field_values \<Rightarrow> bool" where
  "verify_values cls kvs \<longleftrightarrow> list_all (\<lambda>(f, v). get_field_by_id cls (field_id f) \<noteq> None) kvs"

definition verify_class :: "dclass \<Rightarrow> dbop \<Rightarrow> bool" where
  "verify_class cls op =
     (case op_type op of
        SET_FIELDS \<Rightarrow> verify_values cls (set_fields op)
      | UPDATE_FIELDS \<Rightarrow> verify_values cls (set_fields op) \<and> verify_values cls (criteria_fields op)
      | _ \<Rightarrow> True)"

text \<open>\<open>DBOperationCreate::initialize\<close> after the fields were read: membership, then defaults.\<close>

fun add_defaults :: "field list \<Rightarrow> field_values \<Rightarrow> field_values" where
  "add_defaults [] kvs = kvs"
| "add_defaults (f # fs) kvs =
     add_defaults fs
       (if field_has_default f \<and> has_keyword f ''db'' \<and> fv_lookup f kvs = None
        then fv_update f (field_default f) kvs else kvs)"

definition create_initialize :: "dc_file \<Rightarrow> dgi \<Rightarrow> (dbop, bool) sm" where
  "create_initialize dcf it =
     sbind (slift (read_uint32 it)) (\<lambda>(ctx, it).
     sseq (supd (\<lambda>op. op\<lparr>op_context := ctx\<rparr>))
    (sbind (slift (read_uint16 it)) (\<lambda>(dclass_id, it).
     case dcf_class dcf dclass_id of
       None \<Rightarrow> sret False
     | Some cls \<Rightarrow>
         sseq (supd (\<lambda>op. op\<lparr>op_class := Some cls\<rparr>))
        (sbind (slift (read_uint16 it)) (\<lambda>(field_count, it).
         sbind (populate_set_fields dcf (unat field_count) False False it) (\<lambda>ok.
         if \<not> ok then sret False
         else sbind (sget set_fields) (\<lambda>kvs.
           if \<not> verify_values cls kvs then sret False
           else sseq (supd (\<lambda>op. op\<lparr>set_fields := add_defaults (cls_fields cls) (set_fields op)\<rparr>)) (sret True))))))))"

definition delete_initialize :: "dgi \<Rightarrow> (dbop, bool) sm" where
  "delete_initialize it =
     sbind (slift (read_doid it)) (\<lambda>(d, _). sseq (supd (\<lambda>op. op\<lparr>op_doid := d\<rparr>)) (sret True))"

definition get_initialize :: "dc_file \<Rightarrow> u16 \<Rightarrow> dgi \<Rightarrow> (dbop, bool) sm" where
  "get_initialize dcf msg_type it =
     sbind (slift (read_uint32 it)) (\<lambda>(ctx, it).
     sbind (slift (read_doid it)) (\<lambda>(d, it).
     sseq (supd (\<lambda>op. op\<lparr>op_context := ctx, op_doid := d\<rparr>))
     (if msg_type = DBSERVER_OBJECT_GET_ALL then
        sseq (supd (\<lambda>op. op\<lparr>op_type := GET_OBJECT, resp_msgtype := DBSERVER_OBJECT_GET_ALL_RESP\<rparr>)) (sret True)
      else
        sseq (supd (\<lambda>op. op\<lparr>op_type := GET_FIELDS\<rparr>))
        (if msg_type = DBSERVER_OBJECT_GET_FIELD then
           sseq (supd (\<lambda>op. op\<lparr>resp_msgtype := DBSERVER_OBJECT_GET_FIELD_RESP\<rparr>)) (populate_get_fields dcf 1 it)
         else if msg_type = DBSERVER_OBJECT_GET_FIELDS then
           sbind (slift (read_uint16 it)) (\<lambda>(field_count, it).
           sseq (supd (\<lambda>op. op\<lparr>resp_msgtype := DBSERVER_OBJECT_GET_FIELDS_RESP\<rparr>))
             (populate_get_fields dcf (unat field_count) it))
         else populate_get_fields dcf 1 it))))"

definition set_initialize :: "dc_file \<Rightarrow> u16 \<Rightarrow> dgi \<Rightarrow> (dbop, bool) sm" where
  "set_initialize dcf msg_type it =
     sbind (slift (read_doid it)) (\<lambda>(d, it).
     sseq (supd (\<lambda>op. op\<lparr>op_doid := d\<rparr>))
    (sbind (slift (if msg_type = DBSERVER_OBJECT_SET_FIELDS \<or> msg_type = DBSERVER_OBJECT_DELETE_FIELDS
                   then read_uint16 it else Inr (1, it))) (\<lambda>(field_count, it).
     populate_set_fields dcf (unat field_count)
       (msg_type = DBSERVER_OBJECT_DELETE_FIELD \<or> msg_type = DBSERVER_OBJECT_DELETE_FIELDS) False it)))"

definition update_initialize :: "dc_file \<Rightarrow> u16 \<Rightarrow> dgi \<Rightarrow> (dbop, bool) sm" where
  "update_initialize dcf msg_type it =
     sbind (slift (read_uint32 it)) (\<lambda>(ctx, it).
     sbind (slift (read_doid it)) (\<lambda>(d, it).
     sseq (supd (\<lambda>op. op\<lparr>op_context := ctx, op_doid := d\<rparr>))
    (sbind (slift (if msg_type = DBSERVER_OBJECT_SET_FIELDS_IF_EQUALS then read_uint16 it else Inr (1, it)))
       (\<lambda>(field_count, it).
     sseq (supd (\<lambda>op. op\<lparr>resp_msgtype :=
        (if msg_type = DBSERVER_OBJECT_SET_FIELD_IF_EQUALS then DBSERVER_OBJECT_SET_FIELD_IF_EQUALS_RESP
         else if msg_type = DBSERVER_OBJECT_SET_FIELDS_IF_EQUALS then DBSERVER_OBJECT_SET_FIELDS_IF_EQUALS_RESP
         else if msg_type = DBSERVER_OBJECT_SET_FIELD_IF_EMPTY then DBSERVER_OBJECT_SET_FIELD_IF_EMPTY_RESP
         else resp_msgtype op)\<rparr>))
    (sbind (populate_set_fields dcf (unat field_count) False (msg_type \<noteq> DBSERVER_OBJECT_SET_FIELD_IF_EMPTY) it) (\<lambda>ok.
     if \<not> ok then sret False
     else
       sseq (swhen (msg_type = DBSERVER_OBJECT_SET_FIELD_IF_EMPTY)
         (supd (\<lambda>op. op\<lparr>criteria_fields := fv_append (fst (hd (set_fields op))) [] (criteria_fields op)\<rparr>)))
         (sret True)))))))"

end
