(* ===== verification/Database_Server.thy ===== *)
theory Database_Server
  imports DB_Operation Distributed_Object
begin

text \<open>
  The database server, \<open>database/DatabaseServer.cpp\<close>: requests become operations, operations on
  one object pass through its queue, the backend is handed those that may run, and its verdict
  becomes an answer and a broadcast (the \<open>on_\<dots>\<close> methods of \<open>DBOperation.cpp\<close>). \<open>submit\<close> appends
  to \<open>db_submitted\<close>. The adaptor for synchronous backends, \<open>OldDatabaseBackend.cpp\<close>, runs a
  submitted operation on a store given by the virtual operations of that class.
\<close>

section \<open>State\<close>

record 'st dbs =
  db_control :: channel
  db_broadcast :: bool
  db_min_id :: doid
  db_max_id :: doid
  db_queues :: "doid \<rightharpoonup> dbop dbqueue"
  db_submitted :: "dbop list"
  db_routed :: "datagram list"
  db_store :: 'st

definition db_route :: "datagram \<Rightarrow> ('st dbs, unit) sm" where
  "db_route dg = supd (\<lambda>s. s\<lparr>db_routed := db_routed s @ [dg]\<rparr>)"

definition db_submit :: "dbop \<Rightarrow> 'st dbs \<Rightarrow> 'st dbs" where
  "db_submit op s = s\<lparr>db_submitted := db_submitted s @ [op]\<rparr>"

definition db_send :: "channel \<Rightarrow> channel \<Rightarrow> u16 \<Rightarrow> (datagram \<Rightarrow> datagram res) list \<Rightarrow> ('st dbs, unit) sm" where
  "db_send target sender msgtype body =
     sbind (slift (rbind (dg_create_server target sender msgtype) (add_all body))) db_route"

section \<open>Queues\<close>

definition queue_of :: "doid \<Rightarrow> 'st dbs \<Rightarrow> dbop dbqueue" where
  "queue_of d s = (case db_queues s d of None \<Rightarrow> queue_new | Some q \<Rightarrow> q)"

definition put_queue :: "doid \<Rightarrow> dbop dbqueue \<Rightarrow> 'st dbs \<Rightarrow> 'st dbs" where
  "put_queue d q s = s\<lparr>db_queues := (db_queues s)(d \<mapsto> q)\<rparr>"

definition handle_operation :: "dbop \<Rightarrow> 'st dbs \<Rightarrow> 'st dbs" where
  "handle_operation op s =
     (if op_type op = CREATE_OBJECT then db_submit op s
      else
        (case enqueue_operation is_independent_of op (queue_of (op_doid op) s) of
           (True, q) \<Rightarrow> put_queue (op_doid op) q s
         | (False, q) \<Rightarrow> db_submit op (put_queue (op_doid op) (begin_operation op q) s)))"

definition clear_operation :: "dbop \<Rightarrow> 'st dbs \<Rightarrow> 'st dbs" where
  "clear_operation op s =
     (if op_type op = CREATE_OBJECT then s
      else
        (case finalize_operation is_independent_of op (queue_of (op_doid op) s) of
           (again, q) \<Rightarrow>
             (case (if again then start_eligible is_independent_of q else ([], q)) of
                (ops, q') \<Rightarrow>
                  (fold db_submit ops s)\<lparr>db_queues := (db_queues s)(op_doid op :=
                     (if queue_is_empty q' then None else Some q'))\<rparr>)))"

definition cleanup :: "dbop \<Rightarrow> ('st dbs, unit) sm" where
  "cleanup op = supd (clear_operation op)"

section \<open>Answers\<close>

abbreviation (input) DB_SUCCESS :: u8 where "DB_SUCCESS \<equiv> 1"
abbreviation (input) DB_FAILURE :: u8 where "DB_FAILURE \<equiv> 0"

definition value_writers :: "field_values \<Rightarrow> (datagram \<Rightarrow> datagram res) list" where
  "value_writers kvs = concat (map (\<lambda>(f, v). [add_uint16 (ucast (field_id f)), add_data v]) kvs)"

definition announce_fields :: "dbop \<Rightarrow> field_values \<Rightarrow> ('st dbs, unit) sm" where
  "announce_fields op kvs =
     (let deleted = filter (\<lambda>(f, v). v = []) kvs;
          changed = filter (\<lambda>(f, v). v \<noteq> []) kvs;
          target = database_to_object (op_doid op)
      in sseq (swhen (deleted \<noteq> [])
           (db_send target (op_sender op)
             (if length deleted > 1 then DBSERVER_OBJECT_DELETE_FIELDS else DBSERVER_OBJECT_DELETE_FIELD)
             ([add_doid (op_doid op)]
              @ (if length deleted > 1 then [add_uint16 (word_of_nat (length deleted))] else [])
              @ map (\<lambda>(f, v). add_uint16 (ucast (field_id f))) deleted)))
         (swhen (changed \<noteq> [])
           (db_send target (op_sender op)
             (if length changed > 1 then DBSERVER_OBJECT_SET_FIELDS else DBSERVER_OBJECT_SET_FIELD)
             ([add_doid (op_doid op)]
              @ (if length changed > 1 then [add_uint16 (word_of_nat (length changed))] else [])
              @ value_writers changed))))"

definition create_complete :: "dbop \<Rightarrow> doid \<Rightarrow> ('st dbs, unit) sm" where
  "create_complete op d =
     sbind (sget db_control) (\<lambda>control.
     sseq (db_send (op_sender op) control DBSERVER_CREATE_OBJECT_RESP [add_uint32 (op_context op), add_doid d])
       (cleanup op))"

definition create_failure :: "dbop \<Rightarrow> ('st dbs, unit) sm" where
  "create_failure op = create_complete op INVALID_DO_ID"

definition delete_complete :: "dbop \<Rightarrow> ('st dbs, unit) sm" where
  "delete_complete op =
     sbind (sget db_broadcast) (\<lambda>broadcast.
     sseq (swhen broadcast
       (db_send (database_to_object (op_doid op)) (op_sender op) DBSERVER_OBJECT_DELETE [add_doid (op_doid op)]))
       (cleanup op))"

text \<open>The response with a verdict and what follows it.\<close>

definition db_respond :: "dbop \<Rightarrow> u8 \<Rightarrow> (datagram \<Rightarrow> datagram res) list \<Rightarrow> ('st dbs, unit) sm" where
  "db_respond op verdict body =
     sbind (sget db_control) (\<lambda>control.
     db_send (op_sender op) control (resp_msgtype op)
       ([add_uint32 (op_context op), add_uint8 verdict] @ body))"

definition get_failure :: "dbop \<Rightarrow> ('st dbs, unit) sm" where
  "get_failure op = sseq (db_respond op DB_FAILURE []) (cleanup op)"

definition response_fields :: "dbop \<Rightarrow> snapshot \<Rightarrow> field_values" where
  "response_fields op snap =
     (if resp_msgtype op = DBSERVER_OBJECT_GET_ALL_RESP then snap_fields snap
      else List.map_filter (\<lambda>f. map_option (Pair f) (fv_lookup f (snap_fields snap))) (get_fields op))"

text \<open>Whether every stored value unpacks as its field's type.\<close>

fun validate_fields :: "field_values \<Rightarrow> bool res" where
  "validate_fields [] = Inr True"
| "validate_fields ((f, v) # kvs) =
     rbind (add_data v dg_create) (\<lambda>dg.
     rbind (dgi_new dg 0) (\<lambda>it.
     case unpack_field f it of
       Inr _ \<Rightarrow> validate_fields kvs
     | Inl e \<Rightarrow> if e = FieldConstraintViolation \<or> e = DatagramIteratorEOF then Inr False else Inl e))"

definition get_complete :: "dbop \<Rightarrow> snapshot \<Rightarrow> ('st dbs, unit) sm" where
  "get_complete op snap =
     (let fields = response_fields op snap in
      sbind (slift (validate_fields fields)) (\<lambda>valid.
      if \<not> valid then get_failure op
      else if resp_msgtype op = DBSERVER_OBJECT_GET_FIELD_RESP then
        (case fields of
           [] \<Rightarrow> get_failure op
         | kv # _ \<Rightarrow> sseq (db_respond op DB_SUCCESS (value_writers [kv])) (cleanup op))
      else
        sseq (db_respond op DB_SUCCESS
          ((if resp_msgtype op = DBSERVER_OBJECT_GET_ALL_RESP
            then [add_uint16 (case snap_class snap of None \<Rightarrow> 0 | Some cls \<Rightarrow> ucast (cls_id cls))] else [])
           @ [add_uint16 (word_of_nat (length fields))] @ value_writers fields))
          (cleanup op)))"

definition set_complete :: "dbop \<Rightarrow> ('st dbs, unit) sm" where
  "set_complete op =
     sbind (sget db_broadcast) (\<lambda>broadcast.
     sseq (swhen broadcast (announce_fields op (set_fields op))) (cleanup op))"

definition update_complete :: "dbop \<Rightarrow> ('st dbs, unit) sm" where
  "update_complete op =
     sbind (sget db_broadcast) (\<lambda>broadcast.
     sseq (swhen broadcast (announce_fields op (set_fields op)))
       (sseq (db_respond op DB_SUCCESS []) (cleanup op)))"

definition update_failure :: "dbop \<Rightarrow> ('st dbs, unit) sm" where
  "update_failure op = sseq (db_respond op DB_FAILURE []) (cleanup op)"

definition mismatched_fields :: "dbop \<Rightarrow> snapshot \<Rightarrow> field_values" where
  "mismatched_fields op snap =
     List.map_filter (\<lambda>(f, v). case fv_lookup f (snap_fields snap) of
        None \<Rightarrow> None | Some w \<Rightarrow> if w = [] then None else Some (f, w)) (criteria_fields op)"

definition update_mismatch :: "dbop \<Rightarrow> snapshot \<Rightarrow> ('st dbs, unit) sm" where
  "update_mismatch op snap =
     (let fields = mismatched_fields op snap in
      sseq (db_respond op DB_FAILURE
        ((if resp_msgtype op = DBSERVER_OBJECT_SET_FIELDS_IF_EQUALS_RESP
          then [add_uint16 (word_of_nat (length fields))] else []) @ value_writers fields))
        (cleanup op))"

section \<open>Requests\<close>

definition request_type :: "u16 \<Rightarrow> op_type option" where
  "request_type msg_type =
     (if msg_type = DBSERVER_CREATE_OBJECT then Some CREATE_OBJECT
      else if msg_type = DBSERVER_OBJECT_DELETE then Some DELETE_OBJECT
      else if msg_type = DBSERVER_OBJECT_GET_ALL \<or> msg_type = DBSERVER_OBJECT_GET_FIELD
           \<or> msg_type = DBSERVER_OBJECT_GET_FIELDS then Some GET_FIELDS
      else if msg_type = DBSERVER_OBJECT_SET_FIELD \<or> msg_type = DBSERVER_OBJECT_SET_FIELDS
           \<or> msg_type = DBSERVER_OBJECT_DELETE_FIELD \<or> msg_type = DBSERVER_OBJECT_DELETE_FIELDS then Some SET_FIELDS
      else if msg_type = DBSERVER_OBJECT_SET_FIELD_IF_EMPTY \<or> msg_type = DBSERVER_OBJECT_SET_FIELD_IF_EQUALS
           \<or> msg_type = DBSERVER_OBJECT_SET_FIELDS_IF_EQUALS then Some UPDATE_FIELDS
      else None)"

definition initialize :: "dc_file \<Rightarrow> op_type \<Rightarrow> u16 \<Rightarrow> dgi \<Rightarrow> (dbop, bool) sm" where
  "initialize dcf ty msg_type it =
     (case ty of
        CREATE_OBJECT \<Rightarrow> create_initialize dcf it
      | DELETE_OBJECT \<Rightarrow> delete_initialize it
      | GET_OBJECT \<Rightarrow> get_initialize dcf msg_type it
      | GET_FIELDS \<Rightarrow> get_initialize dcf msg_type it
      | SET_FIELDS \<Rightarrow> set_initialize dcf msg_type it
      | UPDATE_FIELDS \<Rightarrow> update_initialize dcf msg_type it)"

text \<open>What a failing \<open>initialize\<close> did before it returned; a failing get did nothing.\<close>

definition initialize_failed :: "dbop \<Rightarrow> ('st dbs, unit) sm" where
  "initialize_failed op =
     (case op_type op of
        CREATE_OBJECT \<Rightarrow> create_failure op
      | SET_FIELDS \<Rightarrow> cleanup op
      | UPDATE_FIELDS \<Rightarrow> update_failure op
      | _ \<Rightarrow> sret ())"

definition db_handle_datagram :: "dc_file \<Rightarrow> nat \<Rightarrow> dgi \<Rightarrow> ('st dbs, unit) sm" where
  "db_handle_datagram dcf ptr it =
     sbind (slift (read_channel it)) (\<lambda>(sender, it).
     sbind (slift (read_uint16 it)) (\<lambda>(msg_type, it).
     case request_type msg_type of
       None \<Rightarrow> sret ()
     | Some ty \<Rightarrow>
         (case initialize dcf ty msg_type it (dbop_new ptr ty sender) of
            (Inr True, op) \<Rightarrow> supd (handle_operation op)
          | (Inr False, op) \<Rightarrow> initialize_failed op
          | (Inl e, op) \<Rightarrow> sthrow e)))"

section \<open>Synchronous backends\<close>

text \<open>The pure virtual operations of \<open>OldDatabaseBackend\<close> that \<open>submit\<close> calls.\<close>

record 'st old_db =
  create_object :: "u16 \<Rightarrow> field_values \<Rightarrow> 'st \<Rightarrow> doid \<times> 'st"
  delete_object :: "doid \<Rightarrow> 'st \<Rightarrow> 'st"
  get_object :: "doid \<Rightarrow> 'st \<Rightarrow> (u16 \<times> field_values) option"
  get_class :: "doid \<Rightarrow> 'st \<Rightarrow> dclass option"
  set_field :: "doid \<Rightarrow> field \<Rightarrow> bytes \<Rightarrow> 'st \<Rightarrow> 'st"
  del_field :: "doid \<Rightarrow> field \<Rightarrow> 'st \<Rightarrow> 'st"

fun apply_changes :: "'st old_db \<Rightarrow> doid \<Rightarrow> field_values \<Rightarrow> 'st \<Rightarrow> 'st" where
  "apply_changes db d [] st = st"
| "apply_changes db d ((f, v) # kvs) st =
     apply_changes db d kvs (if v \<noteq> [] then set_field db d f v st else del_field db d f st)"

definition with_store :: "('st \<Rightarrow> 'st) \<Rightarrow> ('st dbs, unit) sm" where
  "with_store f = supd (\<lambda>s. s\<lparr>db_store := f (db_store s)\<rparr>)"

text \<open>\<open>dbo.fields[it->first] != it->second\<close>: an absent field compares as empty.\<close>

definition criteria_met :: "field_values \<Rightarrow> field_values \<Rightarrow> bool" where
  "criteria_met criteria stored \<longleftrightarrow>
     list_all (\<lambda>(f, v). (case fv_lookup f stored of None \<Rightarrow> [] | Some w \<Rightarrow> w) = v) criteria"

definition old_submit :: "'st old_db \<Rightarrow> dc_file \<Rightarrow> dbop \<Rightarrow> ('st dbs, unit) sm" where
  "old_submit db dcf op =
     (case op_type op of
        CREATE_OBJECT \<Rightarrow>
          sbind (sget id) (\<lambda>s.
          case create_object db (case op_class op of None \<Rightarrow> 0 | Some cls \<Rightarrow> ucast (cls_id cls)) (set_fields op) (db_store s) of
            (d, st) \<Rightarrow>
              sseq (with_store (\<lambda>_. st))
                (if d = INVALID_DO_ID \<or> d < db_min_id s \<or> d > db_max_id s then create_failure op
                 else create_complete op d))
      | DELETE_OBJECT \<Rightarrow> sseq (with_store (delete_object db (op_doid op))) (delete_complete op)
      | SET_FIELDS \<Rightarrow>
          sbind (sget db_store) (\<lambda>st.
          case get_class db (op_doid op) st of
            None \<Rightarrow> cleanup op
          | Some cls \<Rightarrow>
              if \<not> verify_class cls op then cleanup op
              else sseq (with_store (apply_changes db (op_doid op) (set_fields op))) (set_complete op))
      | UPDATE_FIELDS \<Rightarrow>
          sbind (sget db_store) (\<lambda>st.
          case get_object db (op_doid op) st of
            None \<Rightarrow> update_failure op
          | Some (dc_id, stored) \<Rightarrow>
              (case dcf_class dcf dc_id of
                 None \<Rightarrow> update_failure op
               | Some cls \<Rightarrow>
                   if \<not> verify_class cls op then update_failure op
                   else if \<not> criteria_met (criteria_fields op) stored
                   then update_mismatch op \<lparr>snap_class = None, snap_fields = stored\<rparr>
                   else sseq (with_store (apply_changes db (op_doid op) (set_fields op))) (update_complete op)))
      | _ \<Rightarrow>
          sbind (sget db_store) (\<lambda>st.
          case get_object db (op_doid op) st of
            None \<Rightarrow> get_failure op
          | Some (dc_id, stored) \<Rightarrow>
              (case dcf_class dcf dc_id of
                 None \<Rightarrow> get_failure op
               | Some cls \<Rightarrow>
                   if \<not> verify_class cls op then get_failure op
                   else get_complete op \<lparr>snap_class = Some cls, snap_fields = stored\<rparr>)))"

end
