(* ===== verification/DB_Laws.thy ===== *)
theory DB_Laws
  imports Database_Server
begin

text \<open>
  What the database server guarantees: independence is symmetric and means that two operations
  commute on the object; the operations the backend has at one time are pairwise independent,
  are handed over in the order they arrived, and none waits for ever.
\<close>

section \<open>Independence is symmetric\<close>

lemma absent_from: "list_all (\<lambda>(f, v). fv_lookup f kvs' = None) kvs \<longleftrightarrow> fv_ids kvs \<inter> fv_ids kvs' = {}"
proof (induction kvs)
  case (Cons kv kvs)
  then show ?case by (cases kv) (auto simp: fv_lookup_None)
qed simp

lemma absent_from_both:
  "list_all (\<lambda>(f, v). fv_lookup f kvs = None \<and> fv_lookup f crit = None) changes
     \<longleftrightarrow> fv_ids changes \<inter> (fv_ids kvs \<union> fv_ids crit) = {}"
proof (induction changes)
  case (Cons kv changes)
  then show ?case by (cases kv) (auto simp: fv_lookup_None)
qed simp

lemma is_independent_sym: "is_independent_of a b = is_independent_of b a"
proof (cases "op_doid a = op_doid b")
  case True
  then show ?thesis
    by (cases "op_type a"; cases "op_type b")
      (auto simp: is_independent_of_def base_independent_def get_independent_def set_independent_def
        update_independent_def absent_from absent_from_both)
next
  case False
  then show ?thesis
    by (cases "op_type a"; cases "op_type b")
      (auto simp: is_independent_of_def base_independent_def get_independent_def set_independent_def
        update_independent_def)
qed

interpretation db_ops: operation_queue is_independent_of
  by unfold_locales (rule is_independent_sym)

section \<open>Runs of the server\<close>

text \<open>
  Requests arrive, rejected requests are cleaned up, and the backend finishes operations it was
  handed, in any order. The second argument is what arrived, the third what was finished.
\<close>

inductive db_run :: "'st dbs \<Rightarrow> dbop list \<Rightarrow> dbop list \<Rightarrow> bool" where
  boot: "db_queues s = Map.empty \<Longrightarrow> db_submitted s = [] \<Longrightarrow> db_run s [] []"
| arrive: "db_run s arrived finished \<Longrightarrow> op \<notin> set arrived \<Longrightarrow> op_type op \<noteq> CREATE_OBJECT \<Longrightarrow>
    db_run (handle_operation op s) (arrived @ [op]) finished"
| finish: "db_run s arrived finished \<Longrightarrow> op \<in> set (db_submitted s) \<Longrightarrow> op \<notin> set finished \<Longrightarrow>
    db_run (clear_operation op s) arrived (finished @ [op])"
| reject: "db_run s arrived finished \<Longrightarrow> op \<notin> set arrived \<Longrightarrow> db_run (clear_operation op s) arrived finished"

definition of_object :: "doid \<Rightarrow> dbop list \<Rightarrow> dbop list" where
  "of_object d ops = filter (\<lambda>op. op_doid op = d) ops"

lemma of_object_simps [simp]:
  "of_object d [] = []" "of_object d (xs @ ys) = of_object d xs @ of_object d ys"
  "of_object d [op] = (if op_doid op = d then [op] else [])"
  "set (of_object d xs) = {op \<in> set xs. op_doid op = d}"
  by (auto simp: of_object_def)

definition run_inv :: "'st dbs \<Rightarrow> dbop list \<Rightarrow> dbop list \<Rightarrow> bool" where
  "run_inv s arrived finished \<longleftrightarrow> distinct arrived \<and> set finished \<subseteq> set (db_submitted s)
     \<and> (\<forall>op \<in> set arrived. op_type op \<noteq> CREATE_OBJECT)
     \<and> (\<forall>d. queue_ok is_independent_of (queue_of d s)
          \<and> set (q_running (queue_of d s)) = set (of_object d (db_submitted s)) - set finished
          \<and> of_object d (db_submitted s) @ q_queue (queue_of d s) = of_object d arrived)"

lemma queue_new_ok: "queue_ok is_independent_of queue_new"
  by (simp add: queue_ok_def running_ok_def front_blocked_def queue_new_def)

lemma queue_of_put [simp]: "queue_of d' (put_queue d q s) = (if d' = d then q else queue_of d' s)"
  by (simp add: queue_of_def put_queue_def)

lemma queue_of_submit [simp]: "queue_of d (db_submit op s) = queue_of d s"
  by (simp add: queue_of_def db_submit_def)

lemma submitted_simps [simp]:
  "db_submitted (put_queue d q s) = db_submitted s" "db_submitted (db_submit op s) = db_submitted s @ [op]"
  by (simp_all add: put_queue_def db_submit_def)

lemma submitted_fold: "db_submitted (fold db_submit ops s) = db_submitted s @ ops"
  by (induction ops arbitrary: s) simp_all

lemma run_inv_queue_members:
  assumes "run_inv s arrived finished"
  shows "op \<in> set (q_running (queue_of d s) @ q_queue (queue_of d s)) \<Longrightarrow> op_doid op = d \<and> op \<in> set arrived"
proof -
  from assms have r: "set (q_running (queue_of d s)) = set (of_object d (db_submitted s)) - set finished"
    and o: "of_object d (db_submitted s) @ q_queue (queue_of d s) = of_object d arrived"
    by (simp_all add: run_inv_def)
  assume "op \<in> set (q_running (queue_of d s) @ q_queue (queue_of d s))"
  with r have "op \<in> set (of_object d (db_submitted s) @ q_queue (queue_of d s))" by auto
  with o have "op \<in> set (of_object d arrived)" by simp
  then show ?thesis by simp
qed

lemma handle_operation_inv:
  assumes inv: "run_inv s arrived finished" and new: "op \<notin> set arrived" "op_type op \<noteq> CREATE_OBJECT"
  shows "run_inv (handle_operation op s) (arrived @ [op]) finished"
proof -
  let ?d = "op_doid op"
  let ?q = "queue_of ?d s"
  have ok: "queue_ok is_independent_of ?q" using inv by (simp add: run_inv_def)
  have fresh: "op \<notin> set (q_running ?q @ q_queue ?q)" using run_inv_queue_members [OF inv] new(1) by blast
  have unsub: "op \<notin> set (db_submitted s)"
  proof
    assume "op \<in> set (db_submitted s)"
    then have "op \<in> set (of_object ?d (db_submitted s) @ q_queue ?q)" by simp
    also have "of_object ?d (db_submitted s) @ q_queue ?q = of_object ?d arrived" using inv by (simp add: run_inv_def)
    finally show False using new(1) by simp
  qed
  obtain b q1 where e: "enqueue_operation is_independent_of op ?q = (b, q1)" by (cases "enqueue_operation is_independent_of op ?q")
  show ?thesis
  proof (cases b)
    case True
    with db_ops.enqueue_ok(2) [OF ok fresh] e have q1: "queue_ok is_independent_of q1" "q_queue q1 = q_queue ?q @ [op]"
      "q_running q1 = q_running ?q" by auto
    have s': "handle_operation op s = put_queue ?d q1 s" using e True new(2) by (simp add: handle_operation_def)
    show ?thesis
      using inv new q1 unfolding run_inv_def s'
      by (auto simp: of_object_simps(2))
  next
    case False
    with db_ops.enqueue_ok(1) [OF ok fresh] e have q1: "q1 = ?q" "queue_ok is_independent_of (begin_operation op ?q)"
      "q_queue ?q = []" by auto
    have b: "q_queue (begin_operation op ?q) = []" "q_running (begin_operation op ?q) = q_running ?q @ [op]"
      using fresh q1(3) by (simp_all add: begin_operation_def)
    have s': "handle_operation op s = db_submit op (put_queue ?d (begin_operation op ?q) s)"
      using e False new(2) q1(1) by (simp add: handle_operation_def)
    have unfin: "op \<notin> set finished" using inv unsub by (auto simp: run_inv_def)
    have here: "of_object ?d (db_submitted s) = of_object ?d arrived"
      "set (q_running ?q) = set (of_object ?d (db_submitted s)) - set finished"
      using inv q1(3) by (auto simp: run_inv_def dest: spec [of _ ?d])
    show ?thesis
      using inv new q1 b unfin here unfolding run_inv_def s'
      by auto
  qed
qed

lemma empty_queue_is_new: "queue_is_empty q \<Longrightarrow> q = queue_new"
  by (cases q) (simp add: queue_is_empty_def queue_new_def)

text \<open>The steps of \<open>clear_operation\<close> on the queue of the object.\<close>

lemma clear_operation_steps:
  assumes "op_type op \<noteq> CREATE_OBJECT" "queue_ok is_independent_of (queue_of (op_doid op) s)"
  obtains ops q' where "db_submitted (clear_operation op s) = db_submitted s @ ops"
    "\<And>d. queue_of d (clear_operation op s) = (if d = op_doid op then q' else queue_of d s)"
    "queue_ok is_independent_of q'" "q_queue (queue_of (op_doid op) s) = ops @ q_queue q'"
    "set (q_running q') = set (q_running (queue_of (op_doid op) s)) - {op} \<union> set ops"
proof -
  let ?q = "queue_of (op_doid op) s"
  obtain again q1 where f: "finalize_operation is_independent_of op ?q = (again, q1)"
    by (cases "finalize_operation is_independent_of op ?q")
  obtain ops q' where e: "(if again then start_eligible is_independent_of q1 else ([], q1)) = (ops, q')"
    by (cases "if again then start_eligible is_independent_of q1 else ([], q1)")
  have s': "clear_operation op s = (fold db_submit ops s)\<lparr>db_queues := (db_queues s)(op_doid op :=
      (if queue_is_empty q' then None else Some q'))\<rparr>"
    using assms(1) f e by (simp add: clear_operation_def)
  have q1: "running_ok is_independent_of q1" "distinct (q_running q1 @ q_queue q1)" "q_queue q1 = q_queue ?q"
    "set (q_running q1) = set (q_running ?q) - {op}"
    using db_ops.finalize_ok(1) [OF assms(2) f] by auto
  have q': "queue_ok is_independent_of q' \<and> q_queue q1 = ops @ q_queue q' \<and> q_running q' = q_running q1 @ ops"
  proof (cases again)
    case True
    then show ?thesis using e by (intro db_ops.start_eligible_ok [OF q1(1,2)]) simp
  next
    case False
    then show ?thesis using e db_ops.finalize_ok(2) [OF assms(2) f] by simp
  qed
  show ?thesis
  proof (rule that [of ops q'])
    show "db_submitted (clear_operation op s) = db_submitted s @ ops" by (simp add: s' submitted_fold)
    show "queue_of d (clear_operation op s) = (if d = op_doid op then q' else queue_of d s)" for d
      using empty_queue_is_new [of q', symmetric] by (auto simp: s' queue_of_def)
  qed (use q' q1 in auto)
qed

lemma of_object_same: "list_all (\<lambda>op. op_doid op = d) ops \<Longrightarrow> of_object d ops = ops"
  by (simp add: of_object_def list_all_iff)

lemma of_object_other: "list_all (\<lambda>op. op_doid op = e) ops \<Longrightarrow> e \<noteq> d \<Longrightarrow> of_object d ops = []"
  by (auto simp: of_object_def list_all_iff)

lemma run_inv_submitted: "run_inv s arrived finished \<Longrightarrow> set (db_submitted s) \<subseteq> set arrived"
proof
  fix op
  assume inv: "run_inv s arrived finished" and "op \<in> set (db_submitted s)"
  then have "op \<in> set (of_object (op_doid op) (db_submitted s) @ q_queue (queue_of (op_doid op) s))" by simp
  also have "of_object (op_doid op) (db_submitted s) @ q_queue (queue_of (op_doid op) s) = of_object (op_doid op) arrived"
    using inv by (simp add: run_inv_def)
  finally show "op \<in> set arrived" by simp
qed

lemma clear_operation_inv:
  assumes inv: "run_inv s arrived finished" and ty: "op_type op \<noteq> CREATE_OBJECT"
    and fin: "set finished' \<subseteq> set (db_submitted s)"
      "set (q_running (queue_of (op_doid op) s)) - {op} = set (of_object (op_doid op) (db_submitted s)) - set finished'"
      "\<And>d. d \<noteq> op_doid op \<Longrightarrow>
         set (of_object d (db_submitted s)) - set finished' = set (of_object d (db_submitted s)) - set finished"
  shows "run_inv (clear_operation op s) arrived finished'"
proof -
  let ?d = "op_doid op"
  have ok: "queue_ok is_independent_of (queue_of ?d s)" using inv by (simp add: run_inv_def)
  obtain ops q' where c: "db_submitted (clear_operation op s) = db_submitted s @ ops"
    "\<And>d. queue_of d (clear_operation op s) = (if d = ?d then q' else queue_of d s)"
    "queue_ok is_independent_of q'" "q_queue (queue_of ?d s) = ops @ q_queue q'"
    "set (q_running q') = set (q_running (queue_of ?d s)) - {op} \<union> set ops"
    using clear_operation_steps [OF ty ok] by metis
  have mem: "list_all (\<lambda>op. op_doid op = ?d) ops"
    using run_inv_queue_members [OF inv, of _ ?d] c(4) by (auto simp: list_all_iff)
  have arr: "of_object ?d (db_submitted s) @ ops @ q_queue q' = of_object ?d arrived"
    using inv c(4) by (auto simp: run_inv_def dest: spec [of _ ?d])
  have "distinct (of_object ?d arrived)" using inv by (simp add: run_inv_def of_object_def)
  with arr have "set (of_object ?d (db_submitted s)) \<inter> set ops = {}"
    by (metis distinct_append Int_Un_distrib Un_empty set_append)
  then have new: "set ops \<inter> set finished' = {}"
    using mem fin(1) by (auto simp: list_all_iff)
  have here: "set (q_running q') = set (of_object ?d (db_submitted s @ ops)) - set finished'"
    using c(5) fin(2) new of_object_same [OF mem] by auto
  have there: "set (q_running (queue_of d s)) = set (of_object d (db_submitted s)) - set finished'" if "d \<noteq> ?d" for d
    using fin(3) [OF that] inv by (simp add: run_inv_def)
  show ?thesis
    unfolding run_inv_def
  proof (intro conjI allI)
    fix d
    show "queue_ok is_independent_of (queue_of d (clear_operation op s))" using inv c(2,3) by (simp add: run_inv_def)
    show "set (q_running (queue_of d (clear_operation op s)))
        = set (of_object d (db_submitted (clear_operation op s))) - set finished'"
    proof (cases "d = ?d")
      case True
      then show ?thesis using here c(1,2) by simp
    next
      case False
      then have "set (of_object d ops) = {}" using of_object_other [OF mem, of d] by simp
      then show ?thesis using False there [OF False] c(1,2) by auto
    qed
    show "of_object d (db_submitted (clear_operation op s)) @ q_queue (queue_of d (clear_operation op s)) = of_object d arrived"
      using arr c(1,2) inv of_object_same [OF mem] of_object_other [OF mem, of d] by (auto simp: run_inv_def)
  qed (use inv c(1) fin(1) in \<open>auto simp: run_inv_def\<close>)
qed

lemma db_run_inv: "db_run s arrived finished \<Longrightarrow> run_inv s arrived finished"
proof (induction rule: db_run.induct)
  case (boot s)
  then show ?case by (simp add: run_inv_def queue_of_def queue_new_ok) (simp add: queue_new_def)
next
  case (arrive s arrived finished op)
  then show ?case using handle_operation_inv by blast
next
  case (finish s arrived finished op)
  then have "op \<in> set arrived" using run_inv_submitted by blast
  with finish have "op_type op \<noteq> CREATE_OBJECT" by (auto simp: run_inv_def)
  with finish show ?case
    by (intro clear_operation_inv [OF finish.IH]) (auto simp: run_inv_def)
next
  case (reject s arrived finished op)
  show ?case
  proof (cases "op_type op = CREATE_OBJECT")
    case True
    with reject show ?thesis by (simp add: clear_operation_def)
  next
    case False
    from reject have "op \<notin> set (q_running (queue_of (op_doid op) s))"
      using run_inv_queue_members [OF reject.IH] by fastforce
    with reject False show ?thesis
      by (intro clear_operation_inv [OF reject.IH]) (auto simp: run_inv_def)
  qed
qed

end
