(* ===== verification/Object_Props.thy ===== *)
theory Object_Props
  imports Object_Location
begin

text \<open>
  The properties of the state server and its objects, each with an instance on a small
  configuration: a class with one required broadcast field, an object of it and its parent.
\<close>

section \<open>A configuration for the instances\<close>

definition demo_field :: field where
  "demo_field = Field 3 ''hp'' [''required'', ''broadcast''] (TNumeric
     \<lparr>nt_type = T_UINT8, nt_size = 1, nt_divisor = 1, nt_modulus = 0, nt_orig_range = nrange_none, nt_range = nrange_none\<rparr>) [] False False"

definition demo_class :: dclass where
  "demo_class = \<lparr>cls_id = 4, cls_name = ''Avatar'', cls_fields = [demo_field], cls_by_id = [3 \<mapsto> demo_field]\<rparr>"

definition demo_do_env :: do_env where
  "demo_do_env = \<lparr>target_order = sorted_list_of_set, zone_order = sorted_list_of_set, objs_order = sorted_list_of_set\<rparr>"

definition demo_child :: dobj where
  "demo_child = (dobj_new 100 demo_class False)\<lparr>required_fields := [3 \<mapsto> [7]]\<rparr>"

definition demo_parent :: dobj where
  "demo_parent = dobj_new 200 demo_class False"

lemma demo_do_env_ok: "env_ok demo_do_env"
  by (simp add: env_ok_def demo_do_env_def)

lemma demo_class_ends: "class_ends demo_class"
  by (auto simp: class_ends_def demo_class_def demo_field_def as_molecular_def split: if_splits)

text \<open>The payload of an update of field 3 to the value 9.\<close>

definition demo_update :: dgi where
  "demo_update = start \<lparr>dg_buf = le_bytes 2 (3 :: u16) @ [9], buf_cap = 64\<rparr>"

lemma demo_update_reads:
  "read_uint16 demo_update = Inr (3, advance demo_update 2)"
  "unpack_field demo_field (advance demo_update 2) = Inr ([9], advance demo_update 3)"
proof -
  have up: "upcoming demo_update (le_bytes 2 (3 :: u16) @ [9])"
    by (simp add: upcoming_def demo_update_def start_def dg_size_def buf_offset_def)
  then have up': "upcoming demo_update (le_bytes 2 (3 :: u16))" "upcoming (advance demo_update 2) [9]"
    by (simp_all add: upcoming_append)
  from u16c.rd_upcoming [OF TrueI up'(1)] show "read_uint16 demo_update = Inr (3, advance demo_update 2)" by simp
  from read_raw_upcoming [OF up'(2), of 1]
  show "unpack_field demo_field (advance demo_update 2) = Inr ([9], advance demo_update 3)"
    by (simp add: unpack_field_def demo_field_def read_fixed_value_def read_data_def numeric_has_range_def
        nrange_none_def nrange_is_empty_def)
qed

section \<open>Field values\<close>

text \<open>
  C33: an update of an atomic field stores its value - among the required values if the field is required,
  otherwise among the ram values if it is ram, otherwise nowhere - and changes nothing else of the object. It
  is passed on, unchanged and in the sender's name, in one message to the object's location if the field is
  broadcast, to its AI if the field is \<open>airecv\<close> and to its owner if it is \<open>ownrecv\<close>, unless they are not
  set or sent it themselves, and to nobody else; without a receiver nothing is sent.
\<close>

theorem update_saves_and_routes:
  assumes "read_uint16 it = Inr (fid, it1)" "get_field_by_id (do_class s) (ucast fid) = Some f"
    and "as_molecular f = None" "unpack_field f it1 = Inr (data, it2)" "length data \<le> 50000" "env_ok env"
  shows "\<exists>dgs tos. handle_one_update env it sender s = (Inr (True, it2), emit dgs (s\<lparr>
        required_fields := (if has_keyword f ''required'' then (required_fields s)(field_id f \<mapsto> data) else required_fields s),
        ram_fields := (if \<not> has_keyword f ''required'' \<and> has_keyword f ''ram'' then fv_update f data (ram_fields s)
                       else ram_fields s)\<rparr>))
    \<and> distinct tos
    \<and> (\<forall>c. c \<in> set tos \<longleftrightarrow>
          has_keyword f ''broadcast'' \<and> c = location_as_channel (parent_id s) (zone_id s)
        \<or> has_keyword f ''airecv'' \<and> c = ai_channel s \<and> c \<notin> {0, sender}
        \<or> has_keyword f ''ownrecv'' \<and> c = owner_channel s \<and> c \<notin> {0, sender})
    \<and> (if tos = [] then dgs = []
       else \<exists>dg. dgs = [dg] \<and> is_message dg tos sender STATESERVER_OBJECT_SET_FIELD (le_bytes 4 (do_id s) @ le_bytes 2 fid @ data))"
proof -
  let ?T = "update_targets f sender s"
  let ?tos = "target_order env ?T"
  from one_update [OF assms, of sender] obtain dgs where
    d: "handle_one_update env it sender s = (Inr (True, it2), emit dgs (snd (save_field f data s)))"
      "if ?T = {} then dgs = []
       else \<exists>dg. dgs = [dg] \<and> is_message dg ?tos sender STATESERVER_OBJECT_SET_FIELD (le_bytes 4 (do_id s) @ le_bytes 2 fid @ data)"
    by blast
  have tos: "set ?tos = ?T" "distinct ?tos" "?tos = [] \<longleftrightarrow> ?T = {}"
    using assms(6) by (auto simp: env_ok_def simp flip: set_empty)
  have "snd (save_field f data s) = s\<lparr>
      required_fields := (if has_keyword f ''required'' then (required_fields s)(field_id f \<mapsto> data) else required_fields s),
      ram_fields := (if \<not> has_keyword f ''required'' \<and> has_keyword f ''ram'' then fv_update f data (ram_fields s)
                     else ram_fields s)\<rparr>"
    by (simp add: save_field_put)
  moreover have "\<forall>c. c \<in> set ?tos \<longleftrightarrow>
          has_keyword f ''broadcast'' \<and> c = location_as_channel (parent_id s) (zone_id s)
        \<or> has_keyword f ''airecv'' \<and> c = ai_channel s \<and> c \<notin> {0, sender}
        \<or> has_keyword f ''ownrecv'' \<and> c = owner_channel s \<and> c \<notin> {0, sender}"
    unfolding tos(1) by (auto simp: update_targets_def)
  ultimately show ?thesis using d tos(2,3) by (intro exI [of _ dgs] exI [of _ ?tos]) simp
qed

lemma update_saves_and_routes_witness:
  "\<exists>dg. handle_one_update demo_do_env demo_update 5 demo_child
      = (Inr (True, advance demo_update 3), emit [dg] (demo_child\<lparr>required_fields := [3 \<mapsto> [9]]\<rparr>))
    \<and> is_message dg [location_as_channel 0 0] 5 STATESERVER_OBJECT_SET_FIELD (le_bytes 4 (100 :: doid) @ le_bytes 2 (3 :: u16) @ [9])"
proof -
  have c: "do_class demo_child = demo_class" "get_field_by_id demo_class (ucast (3 :: u16)) = Some demo_field" "as_molecular demo_field = None"
    "has_keyword demo_field ''required''" "has_keyword demo_field ''broadcast''" "\<not> has_keyword demo_field ''airecv''"
    "\<not> has_keyword demo_field ''ownrecv''" "field_id demo_field = 3" "do_id demo_child = 100"
    "parent_id demo_child = 0" "zone_id demo_child = 0" "required_fields demo_child = [3 \<mapsto> [7]]"
    by (simp_all add: demo_child_def dobj_new_def demo_class_def get_field_by_id_def demo_field_def as_molecular_def has_keyword_def)
  have e: "length [9 :: u8] \<le> 50000" by simp
  have g: "get_field_by_id (do_class demo_child) (ucast (3 :: u16)) = Some demo_field" unfolding c(1) by (rule c(2))
  from update_saves_and_routes [OF demo_update_reads(1) g c(3) demo_update_reads(2) e demo_do_env_ok, of 5]
  obtain dgs tos where r: "handle_one_update demo_do_env demo_update 5 demo_child
      = (Inr (True, advance demo_update 3), emit dgs (demo_child\<lparr>required_fields := [3 \<mapsto> [9]], ram_fields := ram_fields demo_child\<rparr>))"
    "distinct tos" "set tos = {location_as_channel 0 0}"
    "if tos = [] then dgs = [] else \<exists>dg. dgs = [dg] \<and> is_message dg tos 5 STATESERVER_OBJECT_SET_FIELD
       (le_bytes 4 (do_id demo_child) @ le_bytes 2 (3 :: u16) @ [9])"
    by (auto simp: c(4-8) c(10-12) set_eq_iff)
  from r(2,3) have "tos = [location_as_channel 0 0]" by (cases tos) (auto dest: subset_singletonD)
  with r(1,4) show ?thesis by (auto simp: c(9))
qed

text \<open>
  A query for a required or ram field after an update of it answers with exactly the bytes
  of the update, whatever was stored before.
\<close>

theorem get_after_set:
  assumes rd: "read_uint16 it = Inr (fid, it1)" and cls: "get_field_by_id (do_class s) (ucast fid) = Some f"
    and atomic: "as_molecular f = None" and up: "unpack_field f it1 = Inr (data, it2)"
    and len: "length data \<le> 50000" and env: "env_ok env"
    and kept: "has_keyword f ''required'' \<or> (has_keyword f ''ram'' \<and> required_fields s (field_id f) = None)"
  shows "handle_one_get (Suc n) (snd (handle_one_update env it sender s)) out fid unset False
    = rbind (add_uint16 fid out) (\<lambda>out. rbind (add_data data out) (\<lambda>out. Inr (True, out)))"
proof -
  from one_update [OF rd cls atomic up len env, of sender] obtain dgs
    where "handle_one_update env it sender s = (Inr (True, it2), emit dgs (snd (save_field f data s)))"
    by blast
  with cls atomic kept show ?thesis
    by (auto simp: save_field_put emit_def)
qed

lemma get_after_set_witness:
  "handle_one_get 1 (snd (handle_one_update demo_do_env demo_update 5 demo_child)) dg_create 3 False False
    = rbind (add_uint16 3 dg_create) (\<lambda>out. rbind (add_data [9] out) (\<lambda>out. Inr (True, out)))"
  unfolding One_nat_def
  by (rule get_after_set [OF demo_update_reads(1) _ _ demo_update_reads(2) _ demo_do_env_ok])
    (simp_all add: demo_child_def dobj_new_def demo_class_def get_field_by_id_def demo_field_def as_molecular_def
      has_keyword_def)

text \<open>
  \<open>SET_FIELDS\<close> always comes to an end although its 16-bit signed counter may never reach the
  number of fields the message announces: each update takes at least two bytes of the datagram,
  which runs out first. The class must not have an array of elements that occupy no bytes.
\<close>

theorem set_fields_returns:
  assumes "class_ends (do_class s)"
  shows "fst (on_set_fields env sender it s) \<noteq> Inl NoReturn"
proof -
  have eof: "read_doid it = Inl e \<Longrightarrow> e = DatagramIteratorEOF" "read_uint16 it' = Inl e \<Longrightarrow> e = DatagramIteratorEOF" for e it'
    by (auto simp: read_doid_def read_uint16_def rbind_eq_Inl dest: read_raw_Inl)
  show ?thesis
  proof (cases "read_doid it")
    case (Inl e)
    with eof(1) show ?thesis by (auto simp: on_set_fields_def)
  next
    case (Inr r)
    obtain d it1 where r: "r = (d, it1)" by (cases r)
    show ?thesis
    proof (cases "read_uint16 it1")
      case (Inl e)
      with Inr r eof(2) show ?thesis by (auto simp: on_set_fields_def)
    next
      case (Inr q)
      with \<open>read_doid it = Inr r\<close> r update_loop_returns [OF assms, of 65536] show ?thesis
        by (cases q) (auto simp: on_set_fields_def)
    qed
  qed
qed

lemma set_fields_returns_witness:
  "fst (on_set_fields demo_do_env 5 (start \<lparr>dg_buf = [100, 0, 0, 0, 255, 255], buf_cap = 64\<rparr>) demo_child) \<noteq> Inl NoReturn"
  by (rule set_fields_returns) (simp add: demo_child_def dobj_new_def demo_class_ends)

section \<open>Place\<close>

text \<open>
  A move to another parent or zone updates the object and makes exactly these calls: the
  old parent's child channel is left and the new one's joined, the new parent is asked for its
  AI unless the AI was set explicitly, and one announcement with the new and the old location
  goes to the AI, the owner, both parents and the old location; an object that loses its parent
  loses an inherited AI.
\<close>

theorem location_change:
  assumes "env_ok env" "p' \<noteq> do_id s" "p' \<noteq> parent_id s \<or> z' \<noteq> zone_id s"
  shows "\<exists>dg. moved env p' z' sender s dg (snd (handle_location_change env p' z' sender s))"
  by (rule handle_location_change_moved [OF assms])

lemma location_change_witness:
  "\<exists>dg. moved demo_do_env 200 8 5 demo_child dg (snd (handle_location_change demo_do_env 200 8 5 demo_child))"
  by (rule location_change [OF demo_do_env_ok]) (simp_all add: demo_child_def dobj_new_def)

lemma moved_message:
  assumes env: "env_ok env" and m: "moved env p' z' sender s dg s'"
  shows "\<exists>it. receivers dg = Inr (target_order env (location_targets s p'), it)
    \<and> upcoming it (le_bytes 8 sender @ le_bytes 2 STATESERVER_OBJECT_CHANGING_LOCATION
        @ le_bytes 4 (do_id s) @ le_bytes 4 p' @ le_bytes 4 z' @ le_bytes 4 (parent_id s) @ le_bytes 4 (zone_id s))
    \<and> Route dg \<in> set (effects s')"
proof -
  have "length (target_order env (location_targets s p')) \<le> 255"
    using location_targets_few [of s p'] by (simp add: length_target_order [OF env])
  with m message_received show ?thesis by (auto simp: moved_def)
qed

text \<open>
  C8: the location handshake. The announcement of an object's move to a new parent is addressed
  to that parent, which enters the object in its table and acknowledges; the acknowledgement is
  addressed to the object, which then knows that its parent counts it.
\<close>

theorem location_handshake:
  fixes sender :: channel and z' :: zone
  assumes env: "env_ok env" and c: "p' \<noteq> do_id c" "p' \<noteq> parent_id c" "p' \<noteq> 0" and par: "do_id par = p'"
  defines "c' \<equiv> snd (handle_location_change env p' z' sender c)"
  shows "\<exists>dg cl it par' ack it'. Route dg \<in> set (effects c') \<and> receivers dg = Inr (cl, it) \<and> doid_channel p' \<in> set cl
    \<and> do_handle_datagram env it par = (Inr (), par')
    \<and> zone_objects par' = insert_child z' (do_id c) (zone_objects par)
    \<and> Route ack \<in> set (effects par') \<and> receivers ack = Inr ([doid_channel (do_id c)], it')
    \<and> do_handle_datagram env it' c' = (Inr (), c'\<lparr>parent_synchronized := True\<rparr>)"
proof -
  from handle_location_change_moved [OF env c(1)] c(2)
  obtain dg where m: "moved env p' z' sender c dg c'" unfolding c'_def by blast
  from moved_message [OF env m] obtain it where it: "receivers dg = Inr (target_order env (location_targets c p'), it)"
    "upcoming it (le_bytes 8 sender @ le_bytes 2 STATESERVER_OBJECT_CHANGING_LOCATION
        @ le_bytes 4 (do_id c) @ le_bytes 4 p' @ le_bytes 4 z' @ le_bytes 4 (parent_id c) @ le_bytes 4 (zone_id c))"
    "Route dg \<in> set (effects c')" by blast
  have tgt: "doid_channel p' \<in> set (target_order env (location_targets c p'))"
    using env c(2,3) by (simp add: env_ok_def location_targets_def)
  let ?par = "par\<lparr>zone_objects := relocate p' (do_id c) p' z' (parent_id c) (zone_id c) (zone_objects par)\<rparr>"
  from parent_relocates [OF it(2), of env par] c(2) par obtain ack where
    p: "do_handle_datagram env it par = (Inr (), emit [ack] ?par)"
    and ack: "is_message ack [doid_channel (do_id c)] (doid_channel p') STATESERVER_OBJECT_LOCATION_ACK
      (le_bytes 4 p' @ le_bytes 4 z')" by auto
  have table: "zone_objects (emit [ack] ?par) = insert_child z' (do_id c) (zone_objects par)"
    using c(2) by (simp add: emit_def relocate_def Let_def)
  from message_received [OF ack] obtain it' where it': "receivers ack = Inr ([doid_channel (do_id c)], it')"
    "upcoming it' (le_bytes 8 (doid_channel p') @ le_bytes 2 STATESERVER_OBJECT_LOCATION_ACK @ le_bytes 4 p' @ le_bytes 4 z')"
    by auto
  have "do_handle_datagram env it' c' = (Inr (), c'\<lparr>parent_synchronized := True\<rparr>)"
    using location_ack_received [OF it'(2), of env c'] m by (simp add: moved_def)
  moreover have "Route ack \<in> set (effects (emit [ack] ?par))" by (simp add: emit_def)
  ultimately show ?thesis using it tgt p table it'(1) by blast
qed

lemma location_handshake_witness:
  "\<exists>dg cl it par' ack it'. Route dg \<in> set (effects (snd (handle_location_change demo_do_env 200 8 5 demo_child)))
    \<and> receivers dg = Inr (cl, it) \<and> doid_channel 200 \<in> set cl
    \<and> do_handle_datagram demo_do_env it demo_parent = (Inr (), par')
    \<and> zone_objects par' = insert_child 8 (do_id demo_child) (zone_objects demo_parent)
    \<and> Route ack \<in> set (effects par') \<and> receivers ack = Inr ([doid_channel (do_id demo_child)], it')
    \<and> do_handle_datagram demo_do_env it' (snd (handle_location_change demo_do_env 200 8 5 demo_child))
      = (Inr (), (snd (handle_location_change demo_do_env 200 8 5 demo_child))\<lparr>parent_synchronized := True\<rparr>)"
  by (rule location_handshake [OF demo_do_env_ok]) (simp_all add: demo_child_def demo_parent_def dobj_new_def)


text \<open>
  An object's announcement that it leaves its parent makes the parent forget it: after
  the parent has processed it the object is in the table under its old zone no more, and a zone
  without objects has no entry.
\<close>

theorem parent_forgets:
  fixes sender :: channel and z' :: zone
  assumes env: "env_ok env" and c: "p' \<noteq> do_id c" "p' \<noteq> parent_id c" and par: "do_id par = parent_id c" "parent_id c \<noteq> 0"
    and ok: "zones_inhabited (zone_objects par)"
  defines "c' \<equiv> snd (handle_location_change env p' z' sender c)"
  shows "\<exists>dg cl it par'. Route dg \<in> set (effects c') \<and> receivers dg = Inr (cl, it)
    \<and> doid_channel (parent_id c) \<in> set cl \<and> do_handle_datagram env it par = (Inr (), par')
    \<and> do_id c \<notin> zone_children (zone_objects par') (zone_id c) \<and> zones_inhabited (zone_objects par')
    \<and> effects par' = effects par"
proof -
  from handle_location_change_moved [OF env c(1)] c(2)
  obtain dg where m: "moved env p' z' sender c dg c'" unfolding c'_def by blast
  from moved_message [OF env m] obtain it where it: "receivers dg = Inr (target_order env (location_targets c p'), it)"
    "upcoming it (le_bytes 8 sender @ le_bytes 2 STATESERVER_OBJECT_CHANGING_LOCATION
        @ le_bytes 4 (do_id c) @ le_bytes 4 p' @ le_bytes 4 z' @ le_bytes 4 (parent_id c) @ le_bytes 4 (zone_id c))"
    "Route dg \<in> set (effects c')" by blast
  have tgt: "doid_channel (parent_id c) \<in> set (target_order env (location_targets c p'))"
    using env c(2) par(2) by (simp add: env_ok_def location_targets_def)
  let ?zo = "erase_child (zone_id c) (do_id c) (zone_objects par)"
  have "do_handle_datagram env it par = (Inr (), par\<lparr>zone_objects := ?zo\<rparr>)"
    using parent_relocates [OF it(2), of env par] c(2) par(1) by (auto simp: relocate_def emit_def)
  moreover have "do_id c \<notin> zone_children ?zo (zone_id c)" "zones_inhabited ?zo"
    using ok by (auto simp: erase_child_def zone_children_def zones_inhabited_def Let_def)
  ultimately show ?thesis using it tgt by fastforce
qed

lemma parent_forgets_witness:
  "\<exists>dg cl it par'. Route dg \<in> set (effects (snd (handle_location_change demo_do_env 300 1 5 (demo_child\<lparr>parent_id := 200, zone_id := 8\<rparr>))))
    \<and> receivers dg = Inr (cl, it) \<and> doid_channel (parent_id (demo_child\<lparr>parent_id := 200, zone_id := 8\<rparr>)) \<in> set cl
    \<and> do_handle_datagram demo_do_env it (demo_parent\<lparr>zone_objects := [8 \<mapsto> {100}]\<rparr>) = (Inr (), par')
    \<and> do_id (demo_child\<lparr>parent_id := 200, zone_id := 8\<rparr>)
        \<notin> zone_children (zone_objects par') (zone_id (demo_child\<lparr>parent_id := 200, zone_id := 8\<rparr>))
    \<and> zones_inhabited (zone_objects par') \<and> effects par' = effects (demo_parent\<lparr>zone_objects := [8 \<mapsto> {100}]\<rparr>)"
  by (rule parent_forgets [OF demo_do_env_ok])
    (simp_all add: demo_child_def demo_parent_def dobj_new_def zones_inhabited_def)

text \<open>
  No message changes an object's number or class, whatever it contains and however its
  processing ends.
\<close>

theorem identity_kept:
  "do_id (snd (do_handle_datagram env it s)) = do_id s \<and> do_class (snd (do_handle_datagram env it s)) = do_class s"
proof -
  have "keeps (about (\<lambda>d c zo. d = do_id s \<and> c = do_class s)) (do_handle_datagram env it)"
    by (rule identity.keeps_any_message)
  from keepsD [OF this, of s] show ?thesis by (simp add: about_def)
qed

text \<open>
  The table of children has no entry for a zone without objects, and every message other
  than a query for a zone's objects keeps it so.
\<close>

theorem zones_stay_inhabited:
  assumes "zones_inhabited (zone_objects s)"
    and "msgtype \<noteq> STATESERVER_OBJECT_GET_ZONE_OBJECTS" "msgtype \<noteq> STATESERVER_OBJECT_GET_ZONES_OBJECTS"
  shows "zones_inhabited (zone_objects (snd (do_dispatch env sender msgtype it s)))"
proof -
  have "keeps (about (\<lambda>d c zo. d = do_id s \<and> c = do_class s \<and> zones_inhabited zo)) (do_dispatch env sender msgtype it)"
    by (rule inhabited.keeps_dispatch [OF assms(2,3)])
  from keepsD [OF this, of s] assms(1) show ?thesis by (simp add: about_def)
qed

lemma zones_stay_inhabited_witness:
  "zones_inhabited (zone_objects (snd (do_dispatch demo_do_env 5 STATESERVER_OBJECT_CHANGING_LOCATION demo_update demo_child)))"
  by (rule zones_stay_inhabited) (simp_all add: demo_child_def dobj_new_def zones_inhabited_def)

lemma zone_query_bytes:
  fixes ctx :: u32
  assumes "upcoming it (le_bytes 4 ctx @ le_bytes 4 d @ le_bytes 4 z)" "d \<noteq> parent_id s" "d = do_id s"
    "zone_objects s z = None"
  shows "zone_objects (snd (on_get_zones_objects sender STATESERVER_OBJECT_GET_ZONE_OBJECTS it s)) z = Some {}"
proof -
  from assms(1) have up: "upcoming it (le_bytes 4 ctx)" "upcoming (advance it 4) (le_bytes 4 d)"
    "upcoming (advance it 8) (le_bytes 4 z)"
    by (simp_all add: upcoming_append)
  note rd = u32c.rd_upcoming [OF TrueI up(1)] doidc.rd_upcoming [OF TrueI up(2)] zonec.rd_upcoming [OF TrueI up(3)]
  let ?hd = "server_header_bytes [parent_to_children (do_id s)] sender STATESERVER_OBJECT_GET_ZONES_OBJECTS"
  have "appends (?hd @ (le_bytes 4 ctx @ le_bytes 4 d @ le_bytes 2 (1 :: u16) @ []))
      (\<lambda>dg. rbind (add_server_header (parent_to_children (do_id s)) sender STATESERVER_OBJECT_GET_ZONES_OBJECTS dg)
        (add_all [add_uint32 ctx, add_doid d, add_uint16 1]))"
    by (rule appends_seq [OF appends_add_server_header]) (intro appends_intros)
  from appends_dg_create [OF this] obtain dg where
    dg: "rbind (dg_create_server (parent_to_children (do_id s)) sender STATESERVER_OBJECT_GET_ZONES_OBJECTS)
      (add_all [add_uint32 ctx, add_doid d, add_uint16 1]) = Inr dg" "dg_ok dg" "length (dg_buf dg) = 29"
    by (auto simp: dg_create_server_def DGSIZE_MAX_def)
  obtain dg' where dg': "add_zone z dg = Inr dg'"
    using appends_ok [OF appends_add(14) dg(2), of z] dg(3) by (auto simp: buf_offset_def DGSIZE_MAX_def)
  have cnt: "count_zones (Suc 0) (advance it 8) 0 dg s = (Inr (0, dg'), s\<lparr>zone_objects := (zone_objects s)(z \<mapsto> {})\<rparr>)"
    using rd(3) dg' assms(4) by (simp add: zone_children_def)
  have ap: "appends (le_bytes 4 ctx @ le_bytes 4 (0 :: doid) @ []) (add_all [add_uint32 ctx, add_doid 0])"
    by (intro appends_intros)
  from send_to_emit [OF ap, of sender "doid_channel (do_id s)" STATESERVER_OBJECT_GET_ZONES_COUNT_RESP
      "s\<lparr>zone_objects := (zone_objects s)(z \<mapsto> {})\<rparr>"]
  obtain r where "send_to sender (doid_channel (do_id s)) STATESERVER_OBJECT_GET_ZONES_COUNT_RESP
      [add_uint32 ctx, add_doid 0] (s\<lparr>zone_objects := (zone_objects s)(z \<mapsto> {})\<rparr>)
    = (Inr (), emit [r] (s\<lparr>zone_objects := (zone_objects s)(z \<mapsto> {})\<rparr>))"
    by auto
  with rd dg(1) cnt assms(2,3) show ?thesis
    by (simp add: on_get_zones_objects_def sseq_apply sbind_apply [of "count_zones _ _ _ _"] emit_def
        del: add_all.simps count_zones.simps)
qed

text \<open>
  a query for the objects of a zone the object has none in leaves an empty entry for that
  zone in the table, so that from then on the zone counts as active and the object as a parent
  with children.
\<close>

theorem zone_query_makes_entry:
  fixes ctx :: u32
  assumes "upcoming it (le_bytes 4 ctx @ le_bytes 4 d @ le_bytes 4 z)" "d \<noteq> parent_id s" "d = do_id s"
    "zone_objects s z = None"
  shows "\<not> zones_inhabited (zone_objects (snd (do_dispatch env sender STATESERVER_OBJECT_GET_ZONE_OBJECTS it s)))"
proof -
  have "do_dispatch env sender STATESERVER_OBJECT_GET_ZONE_OBJECTS it
      = on_get_zones_objects sender STATESERVER_OBJECT_GET_ZONE_OBJECTS it"
    by (simp add: do_dispatch_def)
  with zone_query_bytes [OF assms] show ?thesis by (auto simp: zones_inhabited_def)
qed

lemma zone_query_makes_entry_witness:
  "\<not> zones_inhabited (zone_objects (snd (do_dispatch demo_do_env 5 STATESERVER_OBJECT_GET_ZONE_OBJECTS
     (start \<lparr>dg_buf = le_bytes 4 (1 :: u32) @ le_bytes 4 (200 :: doid) @ le_bytes 4 (8 :: zone), buf_cap = 64\<rparr>) demo_parent)))"
proof (rule zone_query_makes_entry)
  show "upcoming (start \<lparr>dg_buf = le_bytes 4 (1 :: u32) @ le_bytes 4 (200 :: doid) @ le_bytes 4 (8 :: zone), buf_cap = 64\<rparr>)
      (le_bytes 4 (1 :: u32) @ le_bytes 4 (200 :: doid) @ le_bytes 4 (8 :: zone))"
    by (rule start_upcoming [of "\<lparr>dg_buf = _, buf_cap = _\<rparr>", simplified]) (simp add: dg_ok_def buf_offset_def DGSIZE_MAX_def)
qed (simp_all add: demo_parent_def dobj_new_def)

text \<open>
  an object that has no parent sends its broadcast updates to the channel numbered like its
  zone, which is the channel of the object with that number.
\<close>

theorem orphan_broadcast:
  assumes "parent_id s = 0" "has_keyword f ''broadcast''"
  shows "doid_channel (zone_id s) \<in> update_targets f sender s"
  using assms by (simp add: update_targets_def channel_spaces)

lemma orphan_broadcast_witness:
  "doid_channel (zone_id demo_child) \<in> update_targets demo_field 5 demo_child"
  by (rule orphan_broadcast) (simp_all add: demo_child_def dobj_new_def demo_field_def has_keyword_def)


section \<open>Deletion\<close>

definition deletion_targets :: "dobj \<Rightarrow> channel set" where
  "deletion_targets s = (if parent_id s \<noteq> 0 then {location_as_channel (parent_id s) (zone_id s)} else {})
     \<union> when_set (owner_channel s) \<union> when_set (ai_channel s)"

text \<open>
  an object that is deleted tells its parent (on an explicit deletion) that it has left, its
  location, owner and AI that it is gone, and its children, if it has any, that they are to go
  too; then it leaves the state server's table and terminates.
\<close>

theorem annihilate_announces:
  assumes env: "env_ok env"
  shows "\<exists>notice del kids. annihilate env sender tell_parent s = (Inr (), s\<lparr>effects := effects s
        @ map Route (notice @ [del] @ kids) @ [EraseObject (do_id s), Terminated]\<rparr>)
    \<and> is_message del (target_order env (deletion_targets s)) sender STATESERVER_OBJECT_DELETE_RAM (le_bytes 4 (do_id s))
    \<and> (if parent_id s \<noteq> 0 \<and> tell_parent
       then \<exists>m. notice = [m] \<and> is_message m [doid_channel (parent_id s)] sender STATESERVER_OBJECT_CHANGING_LOCATION
              (le_bytes 4 (do_id s) @ le_bytes 4 (0 :: doid) @ le_bytes 4 (0 :: zone) @ le_bytes 4 (parent_id s) @ le_bytes 4 (zone_id s))
       else notice = [])
    \<and> (if dom (zone_objects s) \<noteq> {}
       then \<exists>m. kids = [m] \<and> is_message m [parent_to_children (do_id s)] sender STATESERVER_OBJECT_DELETE_CHILDREN
              (le_bytes 4 (do_id s))
       else kids = [])"
proof -
  let ?b1 = "[add_doid (do_id s), add_location 0 0, add_location (parent_id s) (zone_id s)]"
  let ?b2 = "[add_doid (do_id s)]"
  have ap1: "appends (le_bytes 4 (do_id s) @ (le_bytes 4 (0 :: doid) @ le_bytes 4 (0 :: zone))
      @ (le_bytes 4 (parent_id s) @ le_bytes 4 (zone_id s)) @ []) (add_all ?b1)"
    and ap2: "appends (le_bytes 4 (do_id s) @ []) (add_all ?b2)"
    by (intro appends_intros)+
  have "deletion_targets s \<subseteq> set [location_as_channel (parent_id s) (zone_id s), owner_channel s, ai_channel s]"
    by (auto simp: deletion_targets_def when_set_def split: if_splits)
  then have "card (deletion_targets s) \<le> card (set [location_as_channel (parent_id s) (zone_id s), owner_channel s, ai_channel s])"
    by (intro card_mono) auto
  also have "\<dots> \<le> 3" by (rule order_trans [OF card_length]) simp
  finally have few: "8 * length (target_order env (deletion_targets s)) \<le> 24" by (simp add: length_target_order [OF env])
  obtain n1 where n1: "is_message n1 [doid_channel (parent_id s)] sender STATESERVER_OBJECT_CHANGING_LOCATION
      (le_bytes 4 (do_id s) @ le_bytes 4 (0 :: doid) @ le_bytes 4 (0 :: zone) @ le_bytes 4 (parent_id s) @ le_bytes 4 (zone_id s))"
    "send_to (doid_channel (parent_id s)) sender STATESERVER_OBJECT_CHANGING_LOCATION ?b1 s = (Inr (), emit [n1] s)"
    using send_to_emit [OF ap1, of "doid_channel (parent_id s)" sender STATESERVER_OBJECT_CHANGING_LOCATION s] by auto
  define notice where "notice = (if parent_id s \<noteq> 0 \<and> tell_parent then [n1] else [])"
  obtain del where del: "is_message del (target_order env (deletion_targets s)) sender STATESERVER_OBJECT_DELETE_RAM (le_bytes 4 (do_id s))"
    "send_to_set env (deletion_targets s) sender STATESERVER_OBJECT_DELETE_RAM ?b2 (emit notice s) = (Inr (), emit [del] (emit notice s))"
    using send_to_set_emit [OF ap2, of env "deletion_targets s" sender STATESERVER_OBJECT_DELETE_RAM "emit notice s"] few by auto
  let ?s2 = "emit [del] (emit notice s)"
  obtain k1 where k1: "is_message k1 [parent_to_children (do_id s)] sender STATESERVER_OBJECT_DELETE_CHILDREN (le_bytes 4 (do_id s))"
    "send_to (parent_to_children (do_id s)) sender STATESERVER_OBJECT_DELETE_CHILDREN ?b2 ?s2 = (Inr (), emit [k1] ?s2)"
    using send_to_emit [OF ap2, of "parent_to_children (do_id s)" sender STATESERVER_OBJECT_DELETE_CHILDREN ?s2] by auto
  define kids where "kids = (if dom (zone_objects s) \<noteq> {} then [k1] else [])"
  have emit_fields: "do_id (emit ds t) = do_id t" "zone_objects (emit ds t) = zone_objects t" for ds t
    by (simp_all add: emit_def)
  have "delete_children sender ?s2 = (Inr (), emit kids ?s2)"
    using k1(2) unfolding delete_children_def kids_def
    by (cases "dom (zone_objects s) = {}") (simp_all add: emit_fields swhen_def emit_def del: add_all.simps)
  moreover have "swhen (parent_id s \<noteq> 0 \<and> tell_parent)
      (send_to (doid_channel (parent_id s)) sender STATESERVER_OBJECT_CHANGING_LOCATION ?b1) s = (Inr (), emit notice s)"
    using n1(2) by (auto simp: notice_def swhen_def emit_def simp del: add_all.simps)
  ultimately have "annihilate env sender tell_parent s = (Inr (), s\<lparr>effects := effects s
        @ map Route (notice @ [del] @ kids) @ [EraseObject (do_id s), Terminated]\<rparr>)"
    using del(2) unfolding annihilate_def sbind_sget id_apply Let_def deletion_targets_def [symmetric]
    by (simp add: sseq_apply effect_def emit_def del: add_all.simps)
  moreover have "if parent_id s \<noteq> 0 \<and> tell_parent
       then \<exists>m. notice = [m] \<and> is_message m [doid_channel (parent_id s)] sender STATESERVER_OBJECT_CHANGING_LOCATION
              (le_bytes 4 (do_id s) @ le_bytes 4 (0 :: doid) @ le_bytes 4 (0 :: zone) @ le_bytes 4 (parent_id s) @ le_bytes 4 (zone_id s))
       else notice = []"
    using n1(1) by (simp add: notice_def)
  moreover have "if dom (zone_objects s) \<noteq> {}
       then \<exists>m. kids = [m] \<and> is_message m [parent_to_children (do_id s)] sender STATESERVER_OBJECT_DELETE_CHILDREN
              (le_bytes 4 (do_id s))
       else kids = []"
    using k1(1) by (simp add: kids_def)
  ultimately show ?thesis using del(1) by blast
qed

lemma annihilate_announces_witness:
  "\<exists>del. annihilate demo_do_env 5 True demo_child = (Inr (), demo_child\<lparr>effects :=
      [Route del, EraseObject 100, Terminated]\<rparr>)"
  using annihilate_announces [OF demo_do_env_ok, of 5 True demo_child]
  by (auto simp: demo_child_def dobj_new_def)

section \<open>The state server\<close>

definition ss_ok :: "ss \<Rightarrow> bool" where
  "ss_ok s \<longleftrightarrow> (\<forall>d obj. ss_objs s d = Some obj \<longrightarrow> do_id obj = d)"

lemma doid_channel_inj: "inj doid_channel"
  by (rule injI) (metis doid_channel_location location_as_channel_inj)

lemma keeps_about_unpack [keeps_intros]:
  "keeps (about Q) (unpack_required fs it)" "keeps (about Q) (unpack_other n it)"
proof -
  show "keeps (about Q) (unpack_required fs it)"
    by (induction fs arbitrary: it) (auto intro!: keeps_intros)
  show "keeps (about Q) (unpack_other n it)"
    by (induction n arbitrary: it) (auto intro!: keeps_intros split: option.split)
qed

lemma dobj_generate_id: "do_id (snd (dobj_generate env me parent zn cls it has_other)) = me"
proof -
  have "keeps (about (\<lambda>d _ _. d = me))
    (sbind (unpack_required (cls_fields cls) it) (\<lambda>it.
     sbind (if has_other
            then sbind (slift (read_uint16 it)) (\<lambda>(count, it). unpack_other (unat count) it)
            else sret it) (\<lambda>it.
     sseq (effect (Subscribe (doid_channel me)))
       (sbind (slift (seek_payload it)) (\<lambda>it.
        sbind (slift (read_channel it)) (\<lambda>(sender, _).
        sseq (handle_location_change env parent zn sender) wake_children))))))"
    by (intro keeps_intros)
  from keepsD [OF this, of "dobj_new me cls False"] show ?thesis
    by (simp add: about_def dobj_generate_def dobj_new_def)
qed

lemma handle_generate_result:
  "snd (handle_generate env classes it has_other s) = s
   \<or> (\<exists>me obj. ss_objs s me = None \<and> do_id obj = me
       \<and> snd (handle_generate env classes it has_other s) = s\<lparr>ss_objs := (ss_objs s)(me \<mapsto> obj)\<rparr>)"
proof -
  have gid: "dobj_generate env me parent zn cls it ho = (r, obj) \<Longrightarrow> do_id obj = me" for me parent zn cls it ho r obj
    by (metis dobj_generate_id snd_conv)
  show ?thesis
    unfolding handle_generate_def
    apply (auto simp: sbind_apply split: prod.split sum.split option.split)
    subgoal premises prems for me it1 parent it2 zn it3 dc it4 cls obj
      using gid [OF prems(2)] spec [OF prems(8), of me] prems(1) by auto
    done
qed

text \<open>
  a message to the state server never changes or removes an object it has; an object that a
  create message adds stands under its own number, and a create message for a number in use, of
  an unknown class, or cut short adds nothing.
\<close>

theorem create_keeps_objects:
  assumes "ss_ok s"
  shows "ss_ok (snd (ss_handle_datagram env classes it s))
    \<and> (\<forall>d obj. ss_objs s d = Some obj \<longrightarrow> ss_objs (snd (ss_handle_datagram env classes it s)) d = Some obj)"
proof -
  let ?ok = "\<lambda>s'. ss_ok s' \<and> (\<forall>d obj. ss_objs s d = Some obj \<longrightarrow> ss_objs s' d = Some obj)"
  have gen: "keeps ?ok (handle_generate env classes it has_other)" for it has_other
  proof (rule keepsI)
    fix s' assume s': "?ok s'"
    from handle_generate_result [of env classes it has_other s']
    show "?ok (snd (handle_generate env classes it has_other s'))"
    proof (elim disjE exE conjE)
      fix me obj
      assume new: "ss_objs s' me = None" "do_id obj = me"
        and r: "snd (handle_generate env classes it has_other s') = s'\<lparr>ss_objs := (ss_objs s')(me \<mapsto> obj)\<rparr>"
      show ?thesis unfolding r using s' new by (auto simp: ss_ok_def)
    qed (use s' in simp)
  qed
  have "keeps ?ok (ss_route dg)" for dg
    unfolding ss_route_def by (rule keeps_supd) (simp add: ss_ok_def)
  then have "keeps ?ok (ss_handle_datagram env classes it)"
    unfolding ss_handle_datagram_def handle_delete_ai_def
    by (intro keeps_intros gen)
  from keepsD [OF this, of s] assms show ?thesis by simp
qed

lemma create_keeps_objects_witness:
  "ss_ok (snd (ss_handle_datagram demo_do_env (\<lambda>_. Some demo_class) demo_update \<lparr>ss_objs = [100 \<mapsto> demo_child], ss_routed = []\<rparr>))"
  by (rule create_keeps_objects [THEN conjunct1]) (simp add: ss_ok_def demo_child_def dobj_new_def)

lemma delete_ai_message:
  assumes env: "env_ok env" and it: "upcoming it (le_bytes 8 ai)" and few: "card (ai_objects ai (ss_objs s)) \<le> 7000"
    and some: "ai_objects ai (ss_objs s) \<noteq> {}"
  shows "\<exists>dg it'. handle_delete_ai env it sender s = (Inr (), s\<lparr>ss_routed := ss_routed s @ [dg]\<rparr>)
    \<and> receivers dg = Inr (take (card (ai_objects ai (ss_objs s)) mod 256)
        (target_order env ((\<lambda>d. doid_channel d) ` ai_objects ai (ss_objs s))), it')"
proof -
  let ?T = "(\<lambda>d. doid_channel d) ` ai_objects ai (ss_objs s)"
  have card: "card ?T = card (ai_objects ai (ss_objs s))"
    by (rule card_image) (rule inj_on_subset [OF doid_channel_inj], simp)
  have "appends (server_header_bytes (target_order env ?T) sender STATESERVER_DELETE_AI_OBJECTS @ le_bytes 8 ai)
      (\<lambda>dg. rbind (add_server_header_set (target_order env ?T) sender STATESERVER_DELETE_AI_OBJECTS dg) (add_channel ai))"
    by (rule appends_seq [OF appends_add_server_header_set appends_add(12)])
  note created = appends_dg_create [OF this]
  have "length (target_order env ?T) \<le> 7000" unfolding length_target_order [OF env] card by (rule few)
  then have "length (server_header_bytes (target_order env ?T) sender STATESERVER_DELETE_AI_OBJECTS @ le_bytes 8 ai) \<le> DGSIZE_MAX"
    by (simp add: DGSIZE_MAX_def)
  from created [OF this] obtain dg where
    dg: "rbind (add_server_header_set (target_order env ?T) sender STATESERVER_DELETE_AI_OBJECTS dg_create) (add_channel ai) = Inr dg"
    "dg_ok dg" "dg_buf dg = server_header_bytes (target_order env ?T) sender STATESERVER_DELETE_AI_OBJECTS @ le_bytes 8 ai"
    by blast
  have ne: "?T \<noteq> {}" using some by blast
  have rd: "read_channel it = Inr (ai, advance it 8)" using chanc.rd_upcoming [OF TrueI it] by simp
  have "handle_delete_ai env it sender s = (Inr (), s\<lparr>ss_routed := ss_routed s @ [dg]\<rparr>)"
    unfolding handle_delete_ai_def rd dg_create_server_set_def
    by (simp only: sbind_slift_Inr_fun prod.case sbind_sget ne dg(1) swhen_simps not_False_eq_True
        ss_route_def supd_apply)
  moreover have "receivers dg = Inr (take (card (ai_objects ai (ss_objs s)) mod 256) (target_order env ?T),
      advance (start dg) (1 + 8 * (card (ai_objects ai (ss_objs s)) mod 256)))"
    using receivers_header(1) [OF dg(2,3)] unfolding length_target_order [OF env] card .
  ultimately show ?thesis by blast
qed

text \<open>
  deleting the objects of an AI addresses exactly the objects whose AI was explicitly set to
  it, as long as there are at most 255 of them.
\<close>

theorem delete_ai_reaches_objects:
  assumes "env_ok env" "upcoming it (le_bytes 8 ai)" "ai_objects ai (ss_objs s) \<noteq> {}"
    and "card (ai_objects ai (ss_objs s)) \<le> 255"
  shows "\<exists>dg cl it'. handle_delete_ai env it sender s = (Inr (), s\<lparr>ss_routed := ss_routed s @ [dg]\<rparr>)
    \<and> receivers dg = Inr (cl, it') \<and> set cl = (\<lambda>d. doid_channel d) ` ai_objects ai (ss_objs s)"
proof -
  let ?T = "(\<lambda>d. doid_channel d) ` ai_objects ai (ss_objs s)"
  have "length (target_order env ?T) = card (ai_objects ai (ss_objs s))"
    unfolding length_target_order [OF assms(1)]
    by (rule card_image) (rule inj_on_subset [OF doid_channel_inj], simp)
  moreover have "set (target_order env ?T) = ?T" using assms(1) by (simp add: env_ok_def)
  ultimately show ?thesis
    using delete_ai_message [OF assms(1,2) _ assms(3), of sender] assms(4) by auto
qed

lemma demo_ai_objects:
  "ai_objects 77 [100 \<mapsto> demo_child\<lparr>ai_channel := 77, ai_explicitly_set := True\<rparr>] = {100}"
  by (auto simp: ai_objects_def demo_child_def dobj_new_def split: if_splits)

lemma delete_ai_reaches_objects_witness:
  "\<exists>dg cl it'. handle_delete_ai demo_do_env (start \<lparr>dg_buf = le_bytes 8 (77 :: channel), buf_cap = 64\<rparr>) 5
      \<lparr>ss_objs = [100 \<mapsto> demo_child\<lparr>ai_channel := 77, ai_explicitly_set := True\<rparr>], ss_routed = []\<rparr>
      = (Inr (), \<lparr>ss_objs = [100 \<mapsto> demo_child\<lparr>ai_channel := 77, ai_explicitly_set := True\<rparr>], ss_routed = [dg]\<rparr>)
    \<and> receivers dg = Inr (cl, it') \<and> set cl = {100}"
proof -
  have "upcoming (start \<lparr>dg_buf = le_bytes 8 (77 :: channel), buf_cap = 64\<rparr>) (le_bytes 8 (77 :: channel))"
    by (rule start_upcoming [of "\<lparr>dg_buf = _, buf_cap = _\<rparr>", simplified]) (simp add: dg_ok_def buf_offset_def DGSIZE_MAX_def)
  from delete_ai_reaches_objects [OF demo_do_env_ok this,
      of "\<lparr>ss_objs = [100 \<mapsto> demo_child\<lparr>ai_channel := 77, ai_explicitly_set := True\<rparr>], ss_routed = []\<rparr>" 5]
  show ?thesis by (simp add: demo_ai_objects)
qed

text \<open>
  C34: with more than 255 objects of the AI the target count wraps, and some object that is to
  be deleted is not among the receivers.
\<close>

theorem delete_ai_misses_objects:
  assumes "env_ok env" "upcoming it (le_bytes 8 ai)"
    and "255 < card (ai_objects ai (ss_objs s))" "card (ai_objects ai (ss_objs s)) \<le> 7000"
  shows "\<exists>dg cl it'. handle_delete_ai env it sender s = (Inr (), s\<lparr>ss_routed := ss_routed s @ [dg]\<rparr>)
    \<and> receivers dg = Inr (cl, it') \<and> (\<exists>d \<in> ai_objects ai (ss_objs s). doid_channel d \<notin> set cl)"
proof -
  let ?O = "ai_objects ai (ss_objs s)" and ?T = "(\<lambda>d. doid_channel d) ` ai_objects ai (ss_objs s)"
  have card: "card ?T = card ?O"
    by (rule card_image) (rule inj_on_subset [OF doid_channel_inj], simp)
  have "?O \<noteq> {}" using assms(3) by auto
  from delete_ai_message [OF assms(1,2,4) this, of sender] obtain dg it' where
    dg: "handle_delete_ai env it sender s = (Inr (), s\<lparr>ss_routed := ss_routed s @ [dg]\<rparr>)"
    "receivers dg = Inr (take (card ?O mod 256) (target_order env ?T), it')" by blast
  have "card (set (take (card ?O mod 256) (target_order env ?T))) \<le> card ?O mod 256"
    by (rule order_trans [OF card_length]) simp
  also have "\<dots> < 256" by simp
  also have "\<dots> \<le> card ?T" using assms(3) unfolding card by linarith
  finally have "\<not> ?T \<subseteq> set (take (card ?O mod 256) (target_order env ?T))"
    using card_mono [OF finite_set, of ?T "take (card ?O mod 256) (target_order env ?T)"] by linarith
  with dg show ?thesis by blast
qed

definition demo_crowd :: ss where
  "demo_crowd = \<lparr>ss_objs = (\<lambda>d. if unat d < 300 then Some ((dobj_new d demo_class False)\<lparr>ai_channel := 77, ai_explicitly_set := True\<rparr>) else None),
     ss_routed = []\<rparr>"

lemma demo_crowd_ai: "card (ai_objects 77 (ss_objs demo_crowd)) = 300"
proof -
  have "ai_objects 77 (ss_objs demo_crowd) = {d. unat d < 300}"
    by (auto simp: ai_objects_def demo_crowd_def dobj_new_def split: if_splits)
  also have "\<dots> = word_of_nat ` {..<300}"
  proof (intro equalityI subsetI)
    fix d :: doid
    assume "d \<in> {d. unat d < 300}"
    then show "d \<in> word_of_nat ` {..<300}" by (intro image_eqI [of _ _ "unat d"]) simp_all
  next
    fix d :: doid
    assume "d \<in> word_of_nat ` {..<300}"
    then show "d \<in> {d. unat d < 300}" by (auto simp: unsigned_of_nat take_bit_nat_eq_self)
  qed
  also have "card \<dots> = 300"
  proof (subst card_image)
    show "inj_on (word_of_nat :: nat \<Rightarrow> doid) {..<300}"
    proof (rule inj_onI)
      fix a b :: nat
      assume ab: "a \<in> {..<300}" "b \<in> {..<300}" and eq: "(word_of_nat a :: doid) = word_of_nat b"
      from arg_cong [OF eq, of unat] ab show "a = b" by (simp add: unsigned_of_nat take_bit_nat_eq_self)
    qed
  qed simp
  finally show ?thesis .
qed

lemma delete_ai_misses_objects_witness:
  "\<exists>dg cl it'. handle_delete_ai demo_do_env (start \<lparr>dg_buf = le_bytes 8 (77 :: channel), buf_cap = 64\<rparr>) 5 demo_crowd
      = (Inr (), demo_crowd\<lparr>ss_routed := ss_routed demo_crowd @ [dg]\<rparr>)
    \<and> receivers dg = Inr (cl, it') \<and> (\<exists>d \<in> ai_objects 77 (ss_objs demo_crowd). doid_channel d \<notin> set cl)"
proof -
  have "upcoming (start \<lparr>dg_buf = le_bytes 8 (77 :: channel), buf_cap = 64\<rparr>) (le_bytes 8 (77 :: channel))"
    by (rule start_upcoming [of "\<lparr>dg_buf = _, buf_cap = _\<rparr>", simplified]) (simp add: dg_ok_def buf_offset_def DGSIZE_MAX_def)
  then show ?thesis by (rule delete_ai_misses_objects [OF demo_do_env_ok]) (simp_all add: demo_crowd_ai)
qed

end
