(* ===== verification/DB_Props.thy ===== *)
theory DB_Props
  imports DB_Laws Object_Props
begin

text \<open>
  The properties of the database server. An abstract object is its class and a map from field
  numbers to values; \<open>spec_run\<close> and \<open>spec_reads\<close> say what an operation does to it and what its
  answer depends on. Independent operations commute on it, the synchronous adaptor implements
  it, and the queues hand operations to the backend in order, pairwise independent.
\<close>

section \<open>The abstract object\<close>

type_synonym stored = "u16 \<times> (u32 \<rightharpoonup> bytes)"

fun write_fields :: "field_values \<Rightarrow> (u32 \<rightharpoonup> bytes) \<Rightarrow> (u32 \<rightharpoonup> bytes)" where
  "write_fields [] m = m"
| "write_fields ((f, v) # kvs) m = write_fields kvs (m(field_id f := (if v \<noteq> [] then Some v else None)))"

definition spec_met :: "field_values \<Rightarrow> (u32 \<rightharpoonup> bytes) \<Rightarrow> bool" where
  "spec_met criteria m \<longleftrightarrow>
     list_all (\<lambda>(f, v). (case m (field_id f) of None \<Rightarrow> [] | Some w \<Rightarrow> w) = v) criteria"

definition class_accepts :: "dc_file \<Rightarrow> dbop \<Rightarrow> u16 \<Rightarrow> bool" where
  "class_accepts dcf op c \<longleftrightarrow> (case dcf_class dcf c of None \<Rightarrow> False | Some cls \<Rightarrow> verify_class cls op)"

definition spec_run :: "dc_file \<Rightarrow> dbop \<Rightarrow> stored option \<Rightarrow> stored option" where
  "spec_run dcf op obj =
     (case op_type op of
        DELETE_OBJECT \<Rightarrow> None
      | SET_FIELDS \<Rightarrow>
          map_option (\<lambda>(c, m). if class_accepts dcf op c then (c, write_fields (set_fields op) m) else (c, m)) obj
      | UPDATE_FIELDS \<Rightarrow>
          map_option (\<lambda>(c, m). if class_accepts dcf op c \<and> spec_met (criteria_fields op) m
            then (c, write_fields (set_fields op) m) else (c, m)) obj
      | _ \<Rightarrow> obj)"

definition spec_reads :: "dbop \<Rightarrow> stored option \<Rightarrow> stored option" where
  "spec_reads op obj =
     (case op_type op of
        GET_OBJECT \<Rightarrow> obj
      | GET_FIELDS \<Rightarrow> map_option (\<lambda>(c, m). (c, m |` (field_id ` set (get_fields op)))) obj
      | UPDATE_FIELDS \<Rightarrow> map_option (\<lambda>(c, m). (c, m |` fv_ids (criteria_fields op))) obj
      | SET_FIELDS \<Rightarrow> map_option (\<lambda>(c, m). (c, Map.empty)) obj
      | _ \<Rightarrow> None)"

lemma write_fields_other: "x \<notin> fv_ids kvs \<Longrightarrow> write_fields kvs m x = m x"
  by (induction kvs m rule: write_fields.induct) auto

lemma write_fields_same: "x \<in> fv_ids kvs \<Longrightarrow> write_fields kvs m x = write_fields kvs m' x"
proof (induction kvs arbitrary: m m')
  case (Cons kv kvs)
  obtain f v where kv: "kv = (f, v)" by (cases kv)
  show ?case
  proof (cases "x \<in> fv_ids kvs")
    case True
    with Cons.IH kv show ?thesis by simp
  next
    case False
    with Cons.prems kv show ?thesis by (simp add: write_fields_other)
  qed
qed simp

lemma write_fields_commute:
  assumes "fv_ids as \<inter> fv_ids bs = {}"
  shows "write_fields as (write_fields bs m) = write_fields bs (write_fields as m)"
proof
  fix x
  show "write_fields as (write_fields bs m) x = write_fields bs (write_fields as m) x"
  proof (cases "x \<in> fv_ids as")
    case True
    with assms have "x \<notin> fv_ids bs" by blast
    then have "write_fields bs (write_fields as m) x = write_fields as m x" by (rule write_fields_other)
    also have "\<dots> = write_fields as (write_fields bs m) x" using True by (rule write_fields_same)
    finally show ?thesis by simp
  next
    case False
    then have l: "write_fields as (write_fields bs m) x = write_fields bs m x" by (rule write_fields_other)
    show ?thesis
    proof (cases "x \<in> fv_ids bs")
      case True
      then show ?thesis unfolding l by (rule write_fields_same)
    next
      case out: False
      then show ?thesis using False l by (simp add: write_fields_other [of x])
    qed
  qed
qed

lemma restrict_write:
  "fv_ids kvs \<inter> A = {} \<Longrightarrow> write_fields kvs m |` A = m |` A"
proof
  fix x
  assume "fv_ids kvs \<inter> A = {}"
  then show "(write_fields kvs m |` A) x = (m |` A) x"
    by (cases "x \<in> A") (auto simp: restrict_map_def intro!: write_fields_other)
qed

lemma spec_met_cong: "m |` fv_ids crit = m' |` fv_ids crit \<Longrightarrow> spec_met crit m = spec_met crit m'"
proof (induction crit)
  case (Cons kv crit)
  obtain f v where kv: "kv = (f, v)" by (cases kv)
  have in_both: "m x = m' x" if "x \<in> fv_ids (kv # crit)" for x
    using fun_cong [OF Cons.prems, of x] that by (simp add: restrict_map_def)
  then have "m |` fv_ids crit = m' |` fv_ids crit" using kv by (auto simp: restrict_map_def fun_eq_iff)
  with Cons.IH in_both [of "field_id f"] kv show ?case by (simp add: spec_met_def)
qed (simp add: spec_met_def)

lemma get_disjoint_ids: "list_all (\<lambda>f. fv_lookup f kvs = None) fs \<longleftrightarrow> fv_ids kvs \<inter> field_id ` set fs = {}"
  by (induction fs) (auto simp: fv_lookup_None)

text \<open>Independence of two operations on the same object, as disjointness of what they touch.\<close>

definition writes :: "dbop \<Rightarrow> u32 set" where
  "writes op = (if op_type op = SET_FIELDS \<or> op_type op = UPDATE_FIELDS then fv_ids (set_fields op) else {})"

definition observes :: "dbop \<Rightarrow> u32 set" where
  "observes op =
     (case op_type op of GET_OBJECT \<Rightarrow> UNIV | GET_FIELDS \<Rightarrow> field_id ` set (get_fields op)
      | UPDATE_FIELDS \<Rightarrow> fv_ids (criteria_fields op) | _ \<Rightarrow> {})"

lemma independent_touches:
  assumes "is_independent_of a b" "op_doid a = op_doid b"
  shows "op_type a \<notin> {CREATE_OBJECT, DELETE_OBJECT}" "op_type b \<notin> {CREATE_OBJECT, DELETE_OBJECT}"
    "writes a \<inter> writes b = {}" "writes a \<inter> observes b = {}" "writes b \<inter> observes a = {}"
  using assms
  by (cases "op_type a"; cases "op_type b";
      auto simp: is_independent_of_def base_independent_def get_independent_def set_independent_def
        update_independent_def absent_from absent_from_both get_disjoint_ids writes_def observes_def)+

text \<open>Two operations that do not touch each other.\<close>

lemma spec_run_writes:
  assumes "op_type op \<notin> {CREATE_OBJECT, DELETE_OBJECT}"
  obtains kvs where "fv_ids kvs \<subseteq> writes op"
    "\<And>m'. m' |` observes op = m |` observes op \<Longrightarrow> spec_run dcf op (Some (c, m')) = Some (c, write_fields kvs m')"
proof -
  define go where "go \<longleftrightarrow> class_accepts dcf op c \<and> (op_type op = SET_FIELDS
     \<or> (op_type op = UPDATE_FIELDS \<and> spec_met (criteria_fields op) m))"
  have "spec_run dcf op (Some (c, m')) = Some (c, write_fields (if go then set_fields op else []) m')"
    if "m' |` observes op = m |` observes op" for m'
    using assms that spec_met_cong [of m' "criteria_fields op" m]
    by (cases "op_type op") (auto simp: spec_run_def go_def observes_def)
  moreover have "fv_ids (if go then set_fields op else []) \<subseteq> writes op"
    by (auto simp: go_def writes_def)
  ultimately show thesis using that by blast
qed

lemma spec_reads_observes:
  "m' |` observes op = m |` observes op \<Longrightarrow> spec_reads op (Some (c, m')) = spec_reads op (Some (c, m))"
  by (cases "op_type op") (auto simp: spec_reads_def observes_def restrict_map_def)

lemma untouched_commute:
  assumes "op_type a \<notin> {CREATE_OBJECT, DELETE_OBJECT}" "op_type b \<notin> {CREATE_OBJECT, DELETE_OBJECT}"
    "writes a \<inter> writes b = {}" "writes a \<inter> observes b = {}" "writes b \<inter> observes a = {}"
  shows "spec_run dcf a (spec_run dcf b obj) = spec_run dcf b (spec_run dcf a obj)"
    "spec_reads a (spec_run dcf b obj) = spec_reads a obj"
proof -
  have "spec_run dcf a (spec_run dcf b obj) = spec_run dcf b (spec_run dcf a obj)
    \<and> spec_reads a (spec_run dcf b obj) = spec_reads a obj"
  proof (cases obj)
    case None
    then show ?thesis using assms(1,2) by (auto simp: spec_run_def split: op_type.split)
  next
    case (Some cm)
    obtain c m where cm: "cm = (c, m)" by (cases cm)
    obtain ka where ka: "fv_ids ka \<subseteq> writes a"
      "\<And>m'. m' |` observes a = m |` observes a \<Longrightarrow> spec_run dcf a (Some (c, m')) = Some (c, write_fields ka m')"
      by (rule spec_run_writes [OF assms(1), where c = c and m = m and dcf = dcf]) blast
    obtain kb where kb: "fv_ids kb \<subseteq> writes b"
      "\<And>m'. m' |` observes b = m |` observes b \<Longrightarrow> spec_run dcf b (Some (c, m')) = Some (c, write_fields kb m')"
      by (rule spec_run_writes [OF assms(2), where c = c and m = m and dcf = dcf]) blast
    have ra: "write_fields kb m |` observes a = m |` observes a"
      by (rule restrict_write) (use kb(1) assms(5) in blast)
    have rb: "write_fields ka m |` observes b = m |` observes b"
      by (rule restrict_write) (use ka(1) assms(4) in blast)
    have dis: "fv_ids ka \<inter> fv_ids kb = {}" using ka(1) kb(1) assms(3) by blast
    show ?thesis
      unfolding Some cm ka(2) [OF refl] kb(2) [OF refl] ka(2) [OF ra] kb(2) [OF rb]
        write_fields_commute [OF dis] spec_reads_observes [OF ra] by simp
  qed
  then show "spec_run dcf a (spec_run dcf b obj) = spec_run dcf b (spec_run dcf a obj)"
    "spec_reads a (spec_run dcf b obj) = spec_reads a obj" by blast+
qed

lemma independent_swap:
  assumes "is_independent_of a b" "op_doid a = op_doid b"
  shows "spec_run dcf a (spec_run dcf b obj) = spec_run dcf b (spec_run dcf a obj)"
    "spec_reads a (spec_run dcf b obj) = spec_reads a obj"
    "spec_reads b (spec_run dcf a obj) = spec_reads b obj"
proof -
  note t = independent_touches [OF assms]
  show "spec_run dcf a (spec_run dcf b obj) = spec_run dcf b (spec_run dcf a obj)"
    "spec_reads a (spec_run dcf b obj) = spec_reads a obj"
    by (rule untouched_commute [OF t])+
  show "spec_reads b (spec_run dcf a obj) = spec_reads b obj"
    by (rule untouched_commute(2) [OF t(2,1) _ t(5,4)]) (use t(3) in blast)
qed

section \<open>The synchronous adaptor\<close>

definition implements :: "('st \<Rightarrow> doid \<Rightarrow> stored option) \<Rightarrow> dc_file \<Rightarrow> 'st old_db \<Rightarrow> bool" where
  "implements view dcf db \<longleftrightarrow>
     (\<forall>d f v st. view (set_field db d f v st)
        = (view st)(d := map_option (\<lambda>(c, m). (c, m(field_id f \<mapsto> v))) (view st d)))
   \<and> (\<forall>d f st. view (del_field db d f st)
        = (view st)(d := map_option (\<lambda>(c, m). (c, m(field_id f := None))) (view st d)))
   \<and> (\<forall>d st. view (delete_object db d st) = (view st)(d := None))
   \<and> (\<forall>d st. get_class db d st = Option.bind (view st d) (\<lambda>(c, m). dcf_class dcf c))
   \<and> (\<forall>d st. case get_object db d st of
          None \<Rightarrow> view st d = None
        | Some (c, kvs) \<Rightarrow> \<exists>m. view st d = Some (c, m) \<and> (\<forall>f. fv_lookup f kvs = m (field_id f)))"

lemma implementsD:
  assumes "implements view dcf db"
  shows "view (set_field db d f v st) = (view st)(d := map_option (\<lambda>(c, m). (c, m(field_id f \<mapsto> v))) (view st d))"
    "view (del_field db d f st) = (view st)(d := map_option (\<lambda>(c, m). (c, m(field_id f := None))) (view st d))"
    "view (delete_object db d st) = (view st)(d := None)"
    "get_class db d st = Option.bind (view st d) (\<lambda>(c, m). dcf_class dcf c)"
    "get_object db d st = None \<Longrightarrow> view st d = None"
    "get_object db d st = Some (c, kvs) \<Longrightarrow> \<exists>m. view st d = Some (c, m) \<and> (\<forall>f. fv_lookup f kvs = m (field_id f))"
proof -
  note i = assms [unfolded implements_def]
  note i1 = i [THEN conjunct1] and r1 = i [THEN conjunct2]
  note i2 = r1 [THEN conjunct1] and r2 = r1 [THEN conjunct2]
  note i3 = r2 [THEN conjunct1] and r3 = r2 [THEN conjunct2]
  note i4 = r3 [THEN conjunct1] and i5 = r3 [THEN conjunct2, THEN spec [of _ d], THEN spec [of _ st]]
  from i1 show "view (set_field db d f v st) = (view st)(d := map_option (\<lambda>(c, m). (c, m(field_id f \<mapsto> v))) (view st d))"
    by (elim allE)
  from i2 show "view (del_field db d f st) = (view st)(d := map_option (\<lambda>(c, m). (c, m(field_id f := None))) (view st d))"
    by (elim allE)
  from i3 show "view (delete_object db d st) = (view st)(d := None)" by (elim allE)
  from i4 show "get_class db d st = Option.bind (view st d) (\<lambda>(c, m). dcf_class dcf c)" by (elim allE)
  from i5 show "get_object db d st = None \<Longrightarrow> view st d = None" by simp
  from i5 show "get_object db d st = Some (c, kvs) \<Longrightarrow> \<exists>m. view st d = Some (c, m) \<and> (\<forall>f. fv_lookup f kvs = m (field_id f))"
    by simp
qed

lemma keeps_store_supd:
  "(\<And>s. db_store (f s) = db_store s) \<Longrightarrow> keeps (\<lambda>s. db_store s = st) (supd f)"
  by (rule keeps_supd) simp

lemma store_fold [simp]: "db_store (fold db_submit ops s) = db_store s"
  by (induction ops arbitrary: s) (simp_all add: db_submit_def)

lemma keeps_store [keeps_intros]:
  "keeps (\<lambda>s. db_store s = st) (db_route dg)" "keeps (\<lambda>s. db_store s = st) (cleanup op)"
  unfolding db_route_def cleanup_def
  by (rule keeps_store_supd, simp add: clear_operation_def split: prod.split)+

lemma keeps_store_answers [keeps_intros]:
  "keeps (\<lambda>s. db_store s = st) (db_send t se mt body)" "keeps (\<lambda>s. db_store s = st) (db_respond op v body)"
  "keeps (\<lambda>s. db_store s = st) (announce_fields op kvs)" "keeps (\<lambda>s. db_store s = st) (delete_complete op)"
  "keeps (\<lambda>s. db_store s = st) (get_failure op)" "keeps (\<lambda>s. db_store s = st) (set_complete op)"
  "keeps (\<lambda>s. db_store s = st) (update_complete op)" "keeps (\<lambda>s. db_store s = st) (update_failure op)"
  "keeps (\<lambda>s. db_store s = st) (update_mismatch op snap)"
  unfolding update_mismatch_def update_failure_def update_complete_def set_complete_def get_failure_def
    delete_complete_def announce_fields_def db_respond_def db_send_def Let_def
  by (intro keeps_intros)+

lemma keeps_store_get [keeps_intros]: "keeps (\<lambda>s. db_store s = st) (get_complete op snap)"
  unfolding get_complete_def Let_def
  by (intro keeps_intros) (auto split: list.split intro!: keeps_intros)

lemma store_after:
  assumes "\<And>st. keeps (\<lambda>s. db_store s = st) m"
  shows "db_store (snd (m s)) = db_store s" "db_store (snd (sseq (with_store f) m s)) = f (db_store s)"
  using keepsD [OF assms [of "db_store s"], of s] keepsD [OF assms [of "f (db_store s)"], of "s\<lparr>db_store := f (db_store s)\<rparr>"]
  by (simp_all add: with_store_def)

lemma apply_changes_view:
  assumes "implements view dcf db"
  shows "view (apply_changes db d kvs st) = (view st)(d := map_option (\<lambda>(c, m). (c, write_fields kvs m)) (view st d))"
proof (induction kvs arbitrary: st)
  case Nil
  then show ?case by (cases "view st d") auto
next
  case (Cons kv kvs)
  obtain f v where kv: "kv = (f, v)" by (cases kv)
  show ?case unfolding kv
    by (cases "v = []"; cases "view st d")
      (simp_all add: Cons.IH implementsD(1) [OF assms] implementsD(2) [OF assms] fun_eq_iff split: prod.split)
qed

lemma criteria_met_spec:
  "\<forall>f. fv_lookup f kvs = m (field_id f) \<Longrightarrow> criteria_met crit kvs = spec_met crit m"
  by (simp add: criteria_met_def spec_met_def)

text \<open>
  C7: the adaptor for synchronous backends implements the abstract operations: after
  \<open>submit\<close> the object of the operation is what \<open>spec_run\<close> says and every other object is as
  before, also when building the answer throws.
\<close>

theorem old_submit_refines:
  assumes ok: "implements view dcf db" and ty: "op_type op \<noteq> CREATE_OBJECT"
  shows "view (db_store (snd (old_submit db dcf op s)))
    = (view (db_store s))(op_doid op := spec_run dcf op (view (db_store s) (op_doid op)))"
proof (cases "op_type op")
  case DELETE_OBJECT
  then show ?thesis
    by (simp add: old_submit_def store_after keeps_intros implementsD(3) [OF ok] spec_run_def)
next
  case SET_FIELDS
  then show ?thesis
    by (cases "view (db_store s) (op_doid op)")
      (auto simp: old_submit_def store_after keeps_intros implementsD(4) [OF ok] apply_changes_view [OF ok]
        spec_run_def class_accepts_def split: option.split)
next
  case UPDATE_FIELDS
  show ?thesis
  proof (cases "get_object db (op_doid op) (db_store s)")
    case None
    with UPDATE_FIELDS implementsD(5) [OF ok None] show ?thesis
      by (auto simp: old_submit_def store_after keeps_intros spec_run_def)
  next
    case (Some r)
    obtain c kvs where r: "r = (c, kvs)" by (cases r)
    with implementsD(6) [OF ok] Some obtain m where
      m: "view (db_store s) (op_doid op) = Some (c, m)" "\<forall>f. fv_lookup f kvs = m (field_id f)" by blast
    show ?thesis
      using UPDATE_FIELDS Some r m criteria_met_spec [OF m(2)]
      by (auto simp: old_submit_def store_after keeps_intros apply_changes_view [OF ok]
        spec_run_def class_accepts_def split: option.split)
  qed
qed (use ty in \<open>auto simp: old_submit_def store_after keeps_intros spec_run_def split: option.split\<close>)

subsection \<open>A store for the instances\<close>

definition by_id :: "field_values \<Rightarrow> (u32 \<rightharpoonup> bytes)" where
  "by_id kvs = map_of (map (\<lambda>(f, v). (field_id f, v)) kvs)"

type_synonym demo_store = "doid \<rightharpoonup> u16 \<times> field_values"

definition demo_view :: "demo_store \<Rightarrow> doid \<Rightarrow> stored option" where
  "demo_view st d = map_option (\<lambda>(c, kvs). (c, by_id kvs)) (st d)"

definition demo_file :: "dclass \<Rightarrow> dc_file" where
  "demo_file cls = \<lparr>dcf_field = (\<lambda>i. get_field_by_id cls (ucast i)), dcf_class = (\<lambda>c. if c = ucast (cls_id cls) then Some cls else None)\<rparr>"

definition demo_db :: "dc_file \<Rightarrow> demo_store old_db" where
  "demo_db dcf = \<lparr>create_object = (\<lambda>c kvs st. (7, st(7 \<mapsto> (c, kvs)))), delete_object = (\<lambda>d st. st(d := None)),
     get_object = (\<lambda>d st. st d), get_class = (\<lambda>d st. Option.bind (st d) (\<lambda>(c, _). dcf_class dcf c)),
     set_field = (\<lambda>d f v st. st(d := map_option (\<lambda>(c, kvs). (c, fv_update f v kvs)) (st d))),
     del_field = (\<lambda>d f st. st(d := map_option (\<lambda>(c, kvs). (c, filter (\<lambda>(g, _). field_id g \<noteq> field_id f) kvs)) (st d)))\<rparr>"

lemma by_id_lookup: "fv_lookup f kvs = by_id kvs (field_id f)"
  by (induction kvs) (auto simp: by_id_def)

lemma by_id_update: "by_id (fv_update f v kvs) = (by_id kvs)(field_id f \<mapsto> v)"
  by (induction kvs) (auto simp: by_id_def fun_eq_iff)

lemma by_id_filter: "by_id (filter (\<lambda>p. field_id (fst p) \<noteq> field_id f) kvs) = (by_id kvs)(field_id f := None)"
  by (induction kvs) (auto simp: by_id_def fun_eq_iff)

lemma demo_implements: "implements demo_view dcf (demo_db dcf)"
  unfolding implements_def
  by (auto simp: demo_db_def demo_view_def fun_eq_iff by_id_update by_id_filter by_id_lookup option.map_comp comp_def
      split_def map_option_case split: option.split)

definition demo_dbs :: "demo_store \<Rightarrow> demo_store dbs" where
  "demo_dbs st = \<lparr>db_control = 4003, db_broadcast = True, db_min_id = 1, db_max_id = 1000, db_queues = Map.empty,
     db_submitted = [], db_routed = [], db_store = st\<rparr>"

lemma old_submit_refines_witness:
  "demo_view (db_store (snd (old_submit (demo_db (demo_file demo_class)) (demo_file demo_class)
        (dbop_new 1 DELETE_OBJECT 5) (demo_dbs [0 \<mapsto> (4, [])])))) 0 = None"
  using old_submit_refines [OF demo_implements, of "dbop_new 1 DELETE_OBJECT 5" "demo_file demo_class" "demo_dbs [0 \<mapsto> (4, [])]"]
  by (simp add: dbop_new_def spec_run_def)

section \<open>The queues\<close>

lemma other_object_independent: "op_doid a \<noteq> op_doid b \<Longrightarrow> is_independent_of a b"
  by (cases "op_type a") (simp_all add: is_independent_of_def base_independent_def get_independent_def
      set_independent_def update_independent_def)

lemma held_independent:
  assumes run: "db_run s arrived finished" and a: "a \<in> set (db_submitted s) - set finished"
    and b: "b \<in> set (db_submitted s) - set finished" and ne: "a \<noteq> b"
  shows "is_independent_of a b"
proof (cases "op_doid a = op_doid b")
  case True
  have inv: "run_inv s arrived finished" using run by (rule db_run_inv)
  then have q: "queue_ok is_independent_of (queue_of (op_doid a) s)"
    "set (q_running (queue_of (op_doid a) s)) = set (of_object (op_doid a) (db_submitted s)) - set finished"
    by (simp_all add: run_inv_def)
  with a b True have "a \<in> set (q_running (queue_of (op_doid a) s))" "b \<in> set (q_running (queue_of (op_doid a) s))" by auto
  with q(1) ne show ?thesis by (auto simp: queue_ok_def running_ok_def)
qed (rule other_object_independent)

text \<open>
  C4: whatever requests on existing objects arrive and in whatever order the backend finishes them,
  the operations it holds at one time are pairwise independent. Creations of objects are not among
  the requests: they bypass the queues and are not independent of each other.
\<close>

theorem held_operations_independent:
  assumes "db_run s arrived finished" "a \<in> set (db_submitted s) - set finished"
    and "b \<in> set (db_submitted s) - set finished" "a \<noteq> b"
  shows "is_independent_of a b"
  by (rule held_independent [OF assms])

definition demo_get :: "nat \<Rightarrow> dbop" where
  "demo_get ptr = (dbop_new ptr GET_OBJECT 5)\<lparr>op_doid := 9\<rparr>"

definition demo_delete :: "nat \<Rightarrow> dbop" where
  "demo_delete ptr = (dbop_new ptr DELETE_OBJECT 5)\<lparr>op_doid := 9\<rparr>"

definition demo_busy :: "demo_store dbs" where
  "demo_busy = handle_operation (demo_delete 3) (handle_operation (demo_get 2) (handle_operation (demo_get 1) (demo_dbs Map.empty)))"

lemmas demo_op_defs = demo_get_def demo_delete_def dbop_new_def

lemma demo_busy_run: "db_run demo_busy [demo_get 1, demo_get 2, demo_delete 3] []"
proof -
  have "db_run (demo_dbs Map.empty) [] []" by (rule boot) (simp_all add: demo_dbs_def)
  from arrive [OF arrive [OF arrive [OF this, of "demo_get 1"], of "demo_get 2"], of "demo_delete 3"]
  show ?thesis by (simp add: demo_busy_def demo_op_defs)
qed

lemma demo_busy_state: "db_submitted demo_busy = [demo_get 1, demo_get 2]"
  by (simp add: demo_busy_def demo_dbs_def handle_operation_def demo_op_defs queue_of_def queue_new_def enqueue_operation_def
      can_operation_start_def begin_operation_def put_queue_def db_submit_def is_independent_of_def get_independent_def
      base_independent_def)

lemma held_operations_independent_witness: "is_independent_of (demo_get 1) (demo_get 2)"
  by (rule held_operations_independent [OF demo_busy_run]) (simp_all add: demo_busy_state, simp add: demo_op_defs)

text \<open>
  C6: so the backend may run the operations it holds on one object in any order: they lead to
  the same object, and what the answer of each depends on is not touched by the other.
\<close>

theorem held_operations_commute:
  assumes "db_run s arrived finished" "a \<in> set (db_submitted s) - set finished"
    and "b \<in> set (db_submitted s) - set finished" "a \<noteq> b" "op_doid a = op_doid b"
  shows "spec_run dcf a (spec_run dcf b obj) = spec_run dcf b (spec_run dcf a obj)
    \<and> spec_reads a (spec_run dcf b obj) = spec_reads a obj \<and> spec_reads b (spec_run dcf a obj) = spec_reads b obj"
  using independent_swap [OF held_independent [OF assms(1-4)] assms(5)] by blast

lemma held_operations_commute_witness:
  "spec_reads (demo_get 1) (spec_run (demo_file demo_class) (demo_get 2) (Some (4, [3 \<mapsto> [7]])))
     = spec_reads (demo_get 1) (Some (4, [3 \<mapsto> [7]]))"
  by (rule held_operations_commute [OF demo_busy_run, THEN conjunct2, THEN conjunct1])
    (simp_all add: demo_busy_state, simp_all add: demo_op_defs)

text \<open>
  C5: the operations on one object are handed to the backend in the order they arrived; the
  rest waits, and the first that waits conflicts with one that the backend still holds, so
  nothing waits once the backend is done.
\<close>

theorem operations_in_order:
  assumes "db_run s arrived finished"
  shows "\<exists>waiting. of_object d arrived = of_object d (db_submitted s) @ waiting
    \<and> (waiting \<noteq> [] \<longrightarrow> (\<exists>r \<in> set (of_object d (db_submitted s)) - set finished. \<not> is_independent_of (hd waiting) r))"
proof -
  have inv: "run_inv s arrived finished" using assms by (rule db_run_inv)
  then have q: "queue_ok is_independent_of (queue_of d s)"
    "set (q_running (queue_of d s)) = set (of_object d (db_submitted s)) - set finished"
    "of_object d arrived = of_object d (db_submitted s) @ q_queue (queue_of d s)"
    by (simp_all add: run_inv_def)
  show ?thesis
  proof (intro exI conjI impI)
    show "of_object d arrived = of_object d (db_submitted s) @ q_queue (queue_of d s)" by (rule q(3))
    assume "q_queue (queue_of d s) \<noteq> []"
    then obtain op rest where front: "q_queue (queue_of d s) = op # rest" by (cases "q_queue (queue_of d s)") auto
    with q(1) have "\<not> can_operation_start is_independent_of op (queue_of d s)"
      by (simp add: queue_ok_def front_blocked_def)
    with q(2) front show "\<exists>r \<in> set (of_object d (db_submitted s)) - set finished.
        \<not> is_independent_of (hd (q_queue (queue_of d s))) r"
      by (auto simp: can_operation_start_def list_all_iff)
  qed
qed

lemma operations_in_order_witness:
  "\<exists>waiting. [demo_get 1, demo_get 2, demo_delete 3] = [demo_get 1, demo_get 2] @ waiting"
  using operations_in_order [OF demo_busy_run, of 9]
  by (simp add: demo_busy_state of_object_def demo_op_defs)

section \<open>Answers and the end of an operation\<close>

text \<open>\<open>finishes op m\<close>: \<open>m\<close> leaves the queues alone until it clears \<open>op\<close> as its last act.\<close>

definition quiet :: "'st dbs \<Rightarrow> 'st dbs \<Rightarrow> bool" where
  "quiet s t \<longleftrightarrow> db_queues t = db_queues s \<and> db_submitted t = db_submitted s"

definition finishes :: "dbop \<Rightarrow> ('st dbs, unit) sm \<Rightarrow> bool" where
  "finishes op m \<longleftrightarrow> (\<forall>s s1. quiet s s1 \<longrightarrow>
     (case m s1 of (Inr _, s') \<Rightarrow> \<exists>t. quiet s t \<and> s' = clear_operation op t | (Inl e, s') \<Rightarrow> quiet s s'))"

named_theorems finishes_intros

lemma finishesD:
  assumes "finishes op m"
  shows "m s = (Inr u, s') \<Longrightarrow> \<exists>t. quiet s t \<and> s' = clear_operation op t"
    and "m s = (Inl e, s') \<Longrightarrow> quiet s s'"
  using assms [unfolded finishes_def, rule_format, of s s] by (simp_all add: quiet_def)

lemma keeps_quiet [keeps_intros]:
  "keeps (quiet s) (db_route dg)" "keeps (quiet s) (with_store f)"
  unfolding db_route_def with_store_def by (rule keeps_supd, simp add: quiet_def)+

lemma keeps_quiet_answers [keeps_intros]:
  "keeps (quiet s) (db_send t se mt body)" "keeps (quiet s) (db_respond op v body)"
  "keeps (quiet s) (announce_fields op kvs)"
  unfolding announce_fields_def db_respond_def db_send_def Let_def
  by (intro keeps_intros)+

lemma finishes_cleanup [finishes_intros]: "finishes op (cleanup op)"
  by (auto simp: finishes_def cleanup_def)

lemma finishes_sthrow [finishes_intros]: "finishes op (sthrow e)"
  by (simp add: finishes_def)

lemma finishes_sbind [finishes_intros]:
  fixes m :: "('st dbs, 'b) sm"
  assumes m: "\<And>s. keeps (quiet s) m" and f: "\<And>x. finishes op (f x)"
  shows "finishes op (sbind m f)"
  unfolding finishes_def
proof (intro allI impI)
  fix s s1 :: "'st dbs"
  assume "quiet s s1"
  with m have q: "quiet s (snd (m s1))" by (rule keepsD)
  show "case sbind m f s1 of (Inr _, s') \<Rightarrow> \<exists>t. quiet s t \<and> s' = clear_operation op t | (Inl e, s') \<Rightarrow> quiet s s'"
  proof (cases "m s1")
    case (Pair r t)
    show ?thesis
    proof (cases r)
      case (Inr x)
      with Pair q f [of x] show ?thesis by (simp add: finishes_def sbind_apply)
    qed (use Pair q in \<open>simp add: sbind_apply\<close>)
  qed
qed

lemma finishes_sseq [finishes_intros]: "(\<And>s. keeps (quiet s) m) \<Longrightarrow> finishes op n \<Longrightarrow> finishes op (sseq m n)"
  unfolding sseq_def by (rule finishes_sbind)

lemma finishes_cases [finishes_intros]:
  "(b \<Longrightarrow> finishes op m) \<Longrightarrow> (\<not> b \<Longrightarrow> finishes op n) \<Longrightarrow> finishes op (if b then m else n)"
  "(x = None \<Longrightarrow> finishes op m) \<Longrightarrow> (\<And>y. finishes op (f y)) \<Longrightarrow> finishes op (case x of None \<Rightarrow> m | Some y \<Rightarrow> f y)"
  "(\<And>a c. finishes op (g a c)) \<Longrightarrow> finishes op (case z of (a, c) \<Rightarrow> g a c)"
  "finishes op m \<Longrightarrow> (\<And>y ys. finishes op (h y ys)) \<Longrightarrow> finishes op (case l of [] \<Rightarrow> m | y # ys \<Rightarrow> h y ys)"
  by (auto split: option.split prod.split list.split)

lemma finishes_answers [finishes_intros]:
  "finishes op (delete_complete op)" "finishes op (get_failure op)" "finishes op (set_complete op)"
  "finishes op (update_complete op)" "finishes op (update_failure op)" "finishes op (update_mismatch op snap)"
  unfolding update_mismatch_def update_failure_def update_complete_def set_complete_def get_failure_def
    delete_complete_def Let_def
  by (intro finishes_intros keeps_intros)+

lemma finishes_get [finishes_intros]: "finishes op (get_complete op snap)"
  unfolding get_complete_def Let_def by (intro finishes_intros keeps_intros)

lemma finishes_old_submit: "op_type op \<noteq> CREATE_OBJECT \<Longrightarrow> finishes op (old_submit db dcf op)"
  by (cases "op_type op") (simp_all add: old_submit_def, (intro finishes_intros keeps_intros)+)

text \<open>The queue of an object that has none.\<close>

lemma free_handle:
  assumes "db_queues s (op_doid op) = None" "op_type op \<noteq> CREATE_OBJECT"
  shows "db_submitted (handle_operation op s) = db_submitted s @ [op]"
    "db_queues (handle_operation op s) = (db_queues s)(op_doid op \<mapsto> \<lparr>q_queue = [], q_running = [op]\<rparr>)"
  using assms by (simp_all add: handle_operation_def queue_of_def queue_new_def enqueue_operation_def can_operation_start_def
      begin_operation_def put_queue_def db_submit_def)

lemma clear_only_operation:
  assumes "db_queues t = (qs(op_doid op \<mapsto> \<lparr>q_queue = [], q_running = [op]\<rparr>))" "qs (op_doid op) = None"
    "op_type op \<noteq> CREATE_OBJECT"
  shows "db_queues (clear_operation op t) = qs" "db_submitted (clear_operation op t) = db_submitted t"
  using assms by (auto simp: clear_operation_def queue_of_def finalize_operation_def queue_is_empty_def fun_eq_iff)

text \<open>
  with a synchronous backend nothing is left queued: a request on an object that has no
  queue is submitted at once, and when the backend has dealt with it the queues are as before.
\<close>

theorem sync_request_completes:
  assumes free: "db_queues s (op_doid op) = None" and ty: "op_type op \<noteq> CREATE_OBJECT"
    and returns: "old_submit db dcf op (handle_operation op s) = (Inr u, s')"
  shows "db_submitted s' = db_submitted s @ [op] \<and> db_queues s' = db_queues s"
proof -
  let ?s1 = "handle_operation op s"
  from finishesD(1) [OF finishes_old_submit [OF ty] returns] obtain t where "quiet ?s1 t" "s' = clear_operation op t"
    by blast
  then have t: "db_queues t = (db_queues s)(op_doid op \<mapsto> \<lparr>q_queue = [], q_running = [op]\<rparr>)"
    "db_submitted t = db_submitted s @ [op]" "s' = clear_operation op t"
    by (simp_all add: quiet_def free_handle [OF free ty])
  with clear_only_operation [OF t(1) free ty] show ?thesis by simp
qed

text \<open>
  An answer that does not fit into a datagram throws before the operation is cleared: it
  stays in the queue of its object for ever, and no later operation that depends on it is
  handed to the backend.
\<close>

theorem failed_answer_blocks_object:
  assumes free: "db_queues s (op_doid op) = None" and ty: "op_type op \<noteq> CREATE_OBJECT"
    and thrown: "old_submit db dcf op (handle_operation op s) = (Inl e, s')"
    and later: "op_doid later = op_doid op" "\<not> is_independent_of later op" "op_type later \<noteq> CREATE_OBJECT"
  shows "db_submitted (handle_operation later s') = db_submitted s'"
proof -
  have "quiet (handle_operation op s) s'" by (rule finishesD(2) [OF finishes_old_submit [OF ty] thrown])
  then have "queue_of (op_doid op) s' = \<lparr>q_queue = [], q_running = [op]\<rparr>"
    by (simp add: quiet_def queue_of_def free_handle [OF free ty])
  with later show ?thesis
    by (simp add: handle_operation_def enqueue_operation_def can_operation_start_def)
qed

lemma demo_sync:
  "old_submit (demo_db (demo_file demo_class)) (demo_file demo_class) (demo_delete 3)
     (handle_operation (demo_delete 3) ((demo_dbs [9 \<mapsto> (4, [])])\<lparr>db_broadcast := False\<rparr>))
   = (Inr (), (demo_dbs Map.empty)\<lparr>db_broadcast := False, db_submitted := [demo_delete 3]\<rparr>)"
  by (simp add: old_submit_def demo_delete_def dbop_new_def handle_operation_def demo_dbs_def queue_of_def queue_new_def
      enqueue_operation_def can_operation_start_def begin_operation_def put_queue_def db_submit_def with_store_def
      delete_complete_def cleanup_def clear_operation_def finalize_operation_def queue_is_empty_def demo_db_def fun_upd_idem)

lemma sync_request_completes_witness:
  "db_queues ((demo_dbs Map.empty)\<lparr>db_broadcast := False, db_submitted := [demo_delete 3]\<rparr>) = Map.empty"
  using sync_request_completes [OF _ _ demo_sync] by (simp add: demo_dbs_def demo_delete_def dbop_new_def)

lemma db_send_created:
  assumes "appends bs (add_all body)"
  shows "length bs \<le> 60000 \<Longrightarrow> \<exists>dg. is_message dg [target] sender t bs
      \<and> db_send target sender t body s = (Inr (), s\<lparr>db_routed := db_routed s @ [dg]\<rparr>)"
    and "DGSIZE_MAX < length bs \<Longrightarrow> db_send target sender t body s = (Inl DatagramOverflow, s)"
proof -
  have ap: "appends (server_header_bytes [target] sender t @ bs)
      (\<lambda>dg. rbind (add_server_header target sender t dg) (add_all body))"
    by (rule appends_seq [OF appends_add_server_header assms])
  from appends_dg_create [OF ap] show "length bs \<le> 60000 \<Longrightarrow> \<exists>dg. is_message dg [target] sender t bs
      \<and> db_send target sender t body s = (Inr (), s\<lparr>db_routed := db_routed s @ [dg]\<rparr>)"
    by (auto simp: db_send_def dg_create_server_def is_message_def DGSIZE_MAX_def db_route_def)
  from appends_overflow [OF ap dg_create_ok(1)]
  show "DGSIZE_MAX < length bs \<Longrightarrow> db_send target sender t body s = (Inl DatagramOverflow, s)"
    by (auto simp: db_send_def dg_create_server_def sbind_apply)
qed

text \<open>The bytes of field values in an answer.\<close>

definition value_bytes :: "field_values \<Rightarrow> bytes" where
  "value_bytes kvs = concat (map (\<lambda>(f, v). le_bytes 2 (ucast (field_id f) :: u16) @ v) kvs)"

lemma appends_value_writers [appends_intros]:
  "list_all (\<lambda>(f, v). length v \<le> DGSIZE_MAX) kvs \<Longrightarrow> appends (value_bytes kvs) (add_all (value_writers kvs))"
proof (induction kvs)
  case Nil
  then show ?case unfolding value_bytes_def value_writers_def by (simp add: appends_intros)
next
  case (Cons kv kvs)
  obtain f v where kv: "kv = (f, v)" by (cases kv)
  have v: "length v < 65536" using Cons.prems kv by (simp add: DGSIZE_MAX_def)
  have "appends (le_bytes 2 (ucast (field_id f) :: u16) @ v @ value_bytes kvs)
      (add_all (add_uint16 (ucast (field_id f)) # add_data v # value_writers kvs))"
    using Cons kv v by (intro appends_intros) (simp_all add: DGSIZE_MAX_def)
  then show ?case by (simp add: kv value_bytes_def value_writers_def del: add_all.simps)
qed

definition demo_db_field :: field where
  "demo_db_field = Field 3 ''hp'' [''db''] (field_type demo_field) [] False False"

lemma byte_value_valid:
  assumes f: "field_type f = field_type demo_field" and ne: "0 < length v" and len: "length v \<le> DGSIZE_MAX"
  shows "validate_fields [(f, v)] = Inr True"
proof -
  have "appends v (add_data v)" by (rule appends_add_data) (use len in \<open>simp add: DGSIZE_MAX_def\<close>)
  from appends_dg_create [OF this len] obtain dg where dg: "add_data v dg_create = Inr dg" "dg_ok dg" "dg_buf dg = v" by blast
  have "dgi_new dg 0 = Inr (start dg)" by (simp add: dgi_new_def start_def check_read_length_def)
  moreover have "upcoming (start dg) v" using start_upcoming [OF dg(2)] dg(3) by simp
  then have up: "upcoming (start dg) (take 1 v @ drop 1 v)" by simp
  have "upcoming (start dg) (take 1 v)" using up unfolding upcoming_append by blast
  from read_raw_upcoming [OF this, of 1] ne
  have "unpack_field f (start dg) = Inr (take 1 v, advance (start dg) 1)"
    by (simp add: unpack_field_def f demo_field_def read_fixed_value_def read_data_def numeric_has_range_def
        nrange_none_def nrange_is_empty_def Suc_leI)
  ultimately show ?thesis using dg(1) by simp
qed


definition huge_object :: "demo_store" where
  "huge_object = [9 \<mapsto> (4, [(demo_field, replicate 65535 0)])]"

definition demo_get_all :: "nat \<Rightarrow> dbop" where
  "demo_get_all ptr = (demo_get ptr)\<lparr>resp_msgtype := DBSERVER_OBJECT_GET_ALL_RESP\<rparr>"

lemma huge_answer_throws:
  "old_submit (demo_db (demo_file demo_class)) (demo_file demo_class) (demo_get_all 2)
     (handle_operation (demo_get_all 2) (demo_dbs huge_object))
   = (Inl DatagramOverflow, handle_operation (demo_get_all 2) (demo_dbs huge_object))"
proof -
  let ?v = "replicate 65535 0 :: bytes" and ?s = "handle_operation (demo_get_all 2) (demo_dbs huge_object)"
  have store: "db_store ?s = huge_object"
    by (simp add: handle_operation_def demo_get_all_def demo_op_defs enqueue_operation_def queue_of_def queue_new_def
        can_operation_start_def demo_dbs_def put_queue_def db_submit_def)
  have valid: "validate_fields [(demo_field, ?v)] = Inr True" by (rule byte_value_valid) (simp_all add: DGSIZE_MAX_def)
  let ?body = "[add_uint32 (op_context (demo_get_all 2)), add_uint8 DB_SUCCESS, add_uint16 4, add_uint16 1] @ value_writers [(demo_field, ?v)]"
  have "appends (le_bytes 4 (op_context (demo_get_all 2)) @ le_bytes 1 DB_SUCCESS @ le_bytes 2 (4 :: u16) @ le_bytes 2 (1 :: u16) @ value_bytes [(demo_field, ?v)])
      (add_all ?body)"
    unfolding append_Cons append_Nil by (intro appends_intros) (simp add: DGSIZE_MAX_def)
  from db_send_created(2) [OF this, of "op_sender (demo_get_all 2)" "db_control ?s" DBSERVER_OBJECT_GET_ALL_RESP ?s]
  have send: "db_send (op_sender (demo_get_all 2)) (db_control ?s) DBSERVER_OBJECT_GET_ALL_RESP ?body ?s = (Inl DatagramOverflow, ?s)"
    by (simp add: value_bytes_def DGSIZE_MAX_def del: add_all.simps)
  have ty: "op_type (demo_get_all 2) = GET_OBJECT" "op_doid (demo_get_all 2) = 9" "resp_msgtype (demo_get_all 2) = DBSERVER_OBJECT_GET_ALL_RESP"
    by (simp_all add: demo_get_all_def demo_op_defs)
  have get: "get_object (demo_db (demo_file demo_class)) 9 huge_object = Some (4, [(demo_field, ?v)])"
    "dcf_class (demo_file demo_class) 4 = Some demo_class" "verify_class demo_class (demo_get_all 2)"
    by (simp_all add: demo_db_def huge_object_def demo_file_def demo_class_def verify_class_def ty)
  have "get_complete (demo_get_all 2) \<lparr>snap_class = Some demo_class, snap_fields = [(demo_field, ?v)]\<rparr> ?s = (Inl DatagramOverflow, ?s)"
    using send valid
    by (simp add: get_complete_def response_fields_def ty db_respond_def sseq_apply demo_class_def del: add_all.simps validate_fields.simps)
  then show ?thesis
    by (simp add: old_submit_def ty store get)
qed

lemma failed_answer_blocks_object_witness:
  "db_submitted (handle_operation (demo_delete 3) (handle_operation (demo_get_all 2) (demo_dbs huge_object)))
     = db_submitted (handle_operation (demo_get_all 2) (demo_dbs huge_object))"
  by (rule failed_answer_blocks_object [OF _ _ huge_answer_throws])
    (simp_all add: demo_dbs_def demo_get_all_def demo_op_defs is_independent_of_def base_independent_def)

section \<open>From a request to its answer\<close>

lemma request_header:
  assumes "upcoming it (le_bytes 8 sender @ le_bytes 2 mt @ rest)"
  shows "db_handle_datagram dcf ptr it =
     (case request_type mt of
       None \<Rightarrow> sret ()
     | Some ty \<Rightarrow> \<lambda>s.
         (case initialize dcf ty mt (advance it 10) (dbop_new ptr ty sender) of
            (Inr True, op) \<Rightarrow> supd (handle_operation op) s
          | (Inr False, op) \<Rightarrow> initialize_failed op s
          | (Inl e, op) \<Rightarrow> sthrow e s))"
    and "upcoming (advance it 10) rest"
proof -
  from assms have up: "upcoming it (le_bytes 8 sender)" "upcoming (advance it 8) (le_bytes 2 mt)"
    "upcoming (advance it 10) rest"
    by (simp_all add: upcoming_append)
  from chanc.rd_upcoming [OF TrueI up(1)] u16c.rd_upcoming [OF TrueI up(2)]
  show "db_handle_datagram dcf ptr it =
     (case request_type mt of
       None \<Rightarrow> sret ()
     | Some ty \<Rightarrow> \<lambda>s.
         (case initialize dcf ty mt (advance it 10) (dbop_new ptr ty sender) of
            (Inr True, op) \<Rightarrow> supd (handle_operation op) s
          | (Inr False, op) \<Rightarrow> initialize_failed op s
          | (Inl e, op) \<Rightarrow> sthrow e s))"
    by (auto simp: db_handle_datagram_def fun_eq_iff split: option.split prod.split sum.split bool.split)
  from up(3) show "upcoming (advance it 10) rest" .
qed

lemma clear_operation_fields [simp]:
  "db_routed (clear_operation op s) = db_routed s" "db_store (clear_operation op s) = db_store s"
proof -
  have "db_routed (fold db_submit ops s) = db_routed s" for ops
    by (induction ops arbitrary: s) (simp_all add: db_submit_def)
  then show "db_routed (clear_operation op s) = db_routed s" "db_store (clear_operation op s) = db_store s"
    by (simp_all add: clear_operation_def split: prod.split)
qed

lemma get_field_initialize:
  assumes "upcoming it (le_bytes 4 (ctx :: u32) @ le_bytes 4 d @ le_bytes 2 (fid :: u16))"
  shows "get_initialize dcf DBSERVER_OBJECT_GET_FIELD it op =
     (let op1 = op\<lparr>op_type := GET_FIELDS, op_doid := d, op_context := ctx, resp_msgtype := DBSERVER_OBJECT_GET_FIELD_RESP\<rparr> in
      case dcf_field dcf fid of
        None \<Rightarrow> (Inr False, op1)
      | Some f \<Rightarrow>
          if has_keyword f ''db'' then (Inr True, op1\<lparr>get_fields := fs_insert f (get_fields op)\<rparr>)
          else (Inr (get_fields op \<noteq> []), op1))"
proof -
  from assms have up: "upcoming it (le_bytes 4 ctx)" "upcoming (advance it 4) (le_bytes 4 d)"
    "upcoming (advance it 8) (le_bytes 2 fid)"
    by (simp_all add: upcoming_append)
  have ne: "fs_insert f fs \<noteq> []" for f fs by (cases fs) simp_all
  from u32c.rd_upcoming [OF TrueI up(1)] doidc.rd_upcoming [OF TrueI up(2)] u16c.rd_upcoming [OF TrueI up(3)]
  show ?thesis
    by (simp add: get_initialize_def Let_def ne swhen_def split: option.split)
qed

text \<open>
  a request for one field that is unknown or not kept in the database gets no answer, not
  even a failure: nothing is sent, queued or submitted.
\<close>

theorem get_of_volatile_field_unanswered:
  fixes sender :: channel and ctx :: u32 and d :: doid and fid :: u16
  assumes "upcoming it (le_bytes 8 sender @ le_bytes 2 DBSERVER_OBJECT_GET_FIELD @ le_bytes 4 ctx @ le_bytes 4 d @ le_bytes 2 fid)"
    and "\<forall>f. dcf_field dcf fid = Some f \<longrightarrow> \<not> has_keyword f ''db''"
  shows "db_handle_datagram dcf ptr it s = (Inr (), s)"
proof -
  note h = request_header [OF assms(1)]
  from assms(2) show ?thesis
    by (cases "dcf_field dcf fid")
      (simp_all add: h(1) request_type_def initialize_def get_field_initialize [OF h(2)] initialize_failed_def dbop_new_def)
qed

text \<open>One stored field: the request, the operation and the answer.\<close>

lemma get_field_run:
  fixes sender :: channel and ctx :: u32 and d :: doid and fid :: u16
  assumes msg: "upcoming it (le_bytes 8 sender @ le_bytes 2 DBSERVER_OBJECT_GET_FIELD @ le_bytes 4 ctx @ le_bytes 4 d @ le_bytes 2 fid)"
    and f: "dcf_field dcf fid = Some f" "has_keyword f ''db''" "field_id f = ucast fid"
    and obj: "get_object db d (db_store s) = Some (c, kvs)" "dcf_class dcf c = Some cls" "fv_lookup f kvs = Some v"
    and valid: "validate_fields [(f, v)] = Inr True" "length v \<le> 50000" and free: "db_queues s d = None"
  shows "\<exists>op s1 s2 dg. db_handle_datagram dcf ptr it s = (Inr (), s1) \<and> db_submitted s1 = db_submitted s @ [op]
    \<and> old_submit db dcf op s1 = (Inr (), s2) \<and> db_routed s2 = db_routed s @ [dg] \<and> db_queues s2 = db_queues s
    \<and> db_store s2 = db_store s
    \<and> is_message dg [sender] (db_control s) DBSERVER_OBJECT_GET_FIELD_RESP
        (le_bytes 4 ctx @ le_bytes 1 (1 :: u8) @ le_bytes 2 fid @ v)"
proof -
  note h = request_header [OF msg]
  let ?op = "(dbop_new ptr GET_FIELDS sender)\<lparr>op_doid := d, op_context := ctx, resp_msgtype := DBSERVER_OBJECT_GET_FIELD_RESP,
    get_fields := [f]\<rparr>"
  let ?s1 = "handle_operation ?op s"
  have op: "op_type ?op = GET_FIELDS" "op_doid ?op = d" "op_sender ?op = sender" "op_context ?op = ctx"
    "resp_msgtype ?op = DBSERVER_OBJECT_GET_FIELD_RESP" "get_fields ?op = [f]"
    by (simp_all add: dbop_new_def)
  have handled: "db_handle_datagram dcf ptr it s = (Inr (), ?s1)"
    using f(1,2) by (simp add: h(1) request_type_def initialize_def get_field_initialize [OF h(2)] dbop_new_def Let_def)
  have s1: "db_submitted ?s1 = db_submitted s @ [?op]" using free_handle(1) [of s ?op] free op by simp
  have same: "db_store ?s1 = db_store s" "db_control ?s1 = db_control s" "db_routed ?s1 = db_routed s"
    by (auto simp: handle_operation_def put_queue_def db_submit_def split: prod.split bool.split)
  have id: "(ucast (ucast fid :: u32) :: u16) = fid" by (rule bit_word_eqI) (auto simp: bit_simps)
  let ?body = "[add_uint32 ctx, add_uint8 DB_SUCCESS] @ value_writers [(f, v)]"
  have "appends (le_bytes 4 ctx @ le_bytes 1 DB_SUCCESS @ value_bytes [(f, v)]) (add_all ?body)"
    unfolding append_Cons append_Nil by (intro appends_intros) (use valid(2) in \<open>simp add: DGSIZE_MAX_def\<close>)
  from db_send_created(1) [OF this, of sender "db_control s" DBSERVER_OBJECT_GET_FIELD_RESP ?s1]
  obtain dg where dg: "is_message dg [sender] (db_control s) DBSERVER_OBJECT_GET_FIELD_RESP
      (le_bytes 4 ctx @ le_bytes 1 (1 :: u8) @ le_bytes 2 fid @ v)"
    "db_send sender (db_control s) DBSERVER_OBJECT_GET_FIELD_RESP ?body ?s1 = (Inr (), ?s1\<lparr>db_routed := db_routed s @ [dg]\<rparr>)"
    using valid(2) by (auto simp: value_bytes_def f(3) id same simp del: add_all.simps)
  have "response_fields ?op \<lparr>snap_class = Some cls, snap_fields = kvs\<rparr> = [(f, v)]"
    using obj(3) by (simp add: response_fields_def op List.map_filter_def)
  with valid(1) dg(2) have "get_complete ?op \<lparr>snap_class = Some cls, snap_fields = kvs\<rparr> ?s1
      = cleanup ?op (?s1\<lparr>db_routed := db_routed s @ [dg]\<rparr>)"
    by (simp add: get_complete_def op db_respond_def same sseq_apply del: add_all.simps validate_fields.simps)
  moreover have "verify_class cls ?op" by (simp add: verify_class_def op)
  ultimately have ran: "old_submit db dcf ?op ?s1 = (Inr (), clear_operation ?op (?s1\<lparr>db_routed := db_routed s @ [dg]\<rparr>))"
    using obj by (simp add: old_submit_def op same cleanup_def)
  have "db_queues (?s1\<lparr>db_routed := db_routed s @ [dg]\<rparr>) = (db_queues s)(op_doid ?op \<mapsto> \<lparr>q_queue = [], q_running = [?op]\<rparr>)"
    using free_handle(2) [of s ?op] free op by simp
  from clear_only_operation(1) [OF this] free op
  have "db_queues (clear_operation ?op (?s1\<lparr>db_routed := db_routed s @ [dg]\<rparr>)) = db_queues s" by simp
  then show ?thesis using handled s1 ran dg(1) same
    by (intro exI [of _ ?op] exI [of _ ?s1] exI [of _ "clear_operation ?op (?s1\<lparr>db_routed := db_routed s @ [dg]\<rparr>)"] exI [of _ dg]) simp
qed

text \<open>
  A request for one field that the object has stored is answered, to the sender and with
  its context, with success, the field's number and exactly the stored bytes; the operation went
  to the backend at once and the queues are as before.
\<close>

theorem get_field_answers:
  fixes sender :: channel and ctx :: u32 and d :: doid and fid :: u16
  assumes msg: "upcoming it (le_bytes 8 sender @ le_bytes 2 DBSERVER_OBJECT_GET_FIELD @ le_bytes 4 ctx @ le_bytes 4 d @ le_bytes 2 fid)"
    and f: "dcf_field dcf fid = Some f" "has_keyword f ''db''" "field_id f = ucast fid"
    and obj: "get_object db d (db_store s) = Some (c, kvs)" "dcf_class dcf c = Some cls" "fv_lookup f kvs = Some v"
    and valid: "validate_fields [(f, v)] = Inr True" "length v \<le> 50000" and free: "db_queues s d = None"
  shows "\<exists>op s1 s2 dg. db_handle_datagram dcf ptr it s = (Inr (), s1) \<and> db_submitted s1 = db_submitted s @ [op]
    \<and> old_submit db dcf op s1 = (Inr (), s2) \<and> db_routed s2 = db_routed s @ [dg] \<and> db_queues s2 = db_queues s
    \<and> db_store s2 = db_store s
    \<and> is_message dg [sender] (db_control s) DBSERVER_OBJECT_GET_FIELD_RESP
        (le_bytes 4 ctx @ le_bytes 1 (1 :: u8) @ le_bytes 2 fid @ v)"
  by (rule get_field_run [OF assms])

text \<open>An instance: object 9 has stored the value 7 of field 3.\<close>

definition demo_get_request :: datagram where
  "demo_get_request = \<lparr>dg_buf = le_bytes 8 (5 :: channel) @ le_bytes 2 DBSERVER_OBJECT_GET_FIELD @ le_bytes 4 (1 :: u32)
     @ le_bytes 4 (9 :: doid) @ le_bytes 2 (3 :: u16), buf_cap = 64\<rparr>"

lemma demo_get_request_bytes:
  "upcoming (start demo_get_request) (le_bytes 8 (5 :: channel) @ le_bytes 2 DBSERVER_OBJECT_GET_FIELD @ le_bytes 4 (1 :: u32)
     @ le_bytes 4 (9 :: doid) @ le_bytes 2 (3 :: u16))"
  using start_upcoming [of demo_get_request] by (simp add: demo_get_request_def dg_ok_def buf_offset_def DGSIZE_MAX_def)

lemma get_of_volatile_field_unanswered_witness:
  "db_handle_datagram (demo_file demo_class) 2 (start demo_get_request) (demo_dbs huge_object) = (Inr (), demo_dbs huge_object)"
  by (rule get_of_volatile_field_unanswered [OF demo_get_request_bytes])
    (simp add: demo_file_def demo_class_def get_field_by_id_def demo_field_def has_keyword_def)

definition demo_db_class :: dclass where
  "demo_db_class = \<lparr>cls_id = 4, cls_name = ''Avatar'', cls_fields = [demo_db_field], cls_by_id = [3 \<mapsto> demo_db_field]\<rparr>"

lemma get_field_answers_witness:
  "\<exists>op s1 s2 dg. db_handle_datagram (demo_file demo_db_class) 2 (start demo_get_request) (demo_dbs [9 \<mapsto> (4, [(demo_db_field, [7])])]) = (Inr (), s1)
    \<and> old_submit (demo_db (demo_file demo_db_class)) (demo_file demo_db_class) op s1 = (Inr (), s2) \<and> db_routed s2 = [dg]
    \<and> is_message dg [5] 4003 DBSERVER_OBJECT_GET_FIELD_RESP
        (le_bytes 4 (1 :: u32) @ le_bytes 1 (1 :: u8) @ le_bytes 2 (3 :: u16) @ [7])"
proof -
  have valid: "validate_fields [(demo_db_field, [7])] = Inr True"
    by (rule byte_value_valid) (simp_all add: demo_db_field_def DGSIZE_MAX_def)
  from get_field_answers [OF demo_get_request_bytes _ _ _ _ _ _ valid, of "demo_file demo_db_class" "demo_db (demo_file demo_db_class)"
      "demo_dbs [9 \<mapsto> (4, [(demo_db_field, [7])])]" 4 "[(demo_db_field, [7])]" demo_db_class 2]
  show ?thesis
    by (simp add: demo_file_def demo_db_class_def get_field_by_id_def demo_db_field_def has_keyword_def demo_db_def demo_dbs_def) blast
qed

end
