(* ===== verification/DBSS_Props.thy ===== *)
theory DBSS_Props
  imports DBSS_Load DB_Props Object_Props
begin

text \<open>
  The properties of the database state server: queries about inactive objects from the request
  to the answer, across the database server; activation and loading; the invariant of its
  tables.
\<close>

section \<open>A configuration for the instances\<close>

text \<open>One class with one required field that is kept in the database.\<close>

definition stored_field :: field where
  "stored_field = Field 3 ''hp'' [''required'', ''db''] (TNumeric
     \<lparr>nt_type = T_UINT8, nt_size = 1, nt_divisor = 1, nt_modulus = 0, nt_orig_range = nrange_none, nt_range = nrange_none\<rparr>) [0] False False"

definition stored_class :: dclass where
  "stored_class = \<lparr>cls_id = 4, cls_name = ''Avatar'', cls_fields = [stored_field], cls_by_id = [3 \<mapsto> stored_field]\<rparr>"

definition demo_dbss :: dbss_env where
  "demo_dbss = \<lparr>object_env = demo_do_env, db_channel = 4003, num_types = 5,
     class_by_id = (\<lambda>i. if i = 4 then Some stored_class else None),
     field_by_id = (\<lambda>i. if i = 3 then Some stored_field else None), uninitialised = True\<rparr>"

lemma demo_dbss_simps [simp]:
  "object_env demo_dbss = demo_do_env" "db_channel demo_dbss = 4003" "class_by_id demo_dbss 4 = Some stored_class"
  "field_by_id demo_dbss 3 = Some stored_field" "defaults_short demo_dbss"
  by (simp_all add: demo_dbss_def defaults_short_def stored_field_def DGSIZE_MAX_def)

lemma stored_field_simps [simp]:
  "field_id stored_field = 3" "has_keyword stored_field ''required''" "has_keyword stored_field ''db''"
  "\<not> has_keyword stored_field ''ram''" "as_molecular stored_field = None" "cls_fields stored_class = [stored_field]"
  "get_field_by_id stored_class 3 = Some stored_field" "cls_id stored_class = 4"
  by (simp_all add: stored_field_def has_keyword_def as_molecular_def stored_class_def get_field_by_id_def)

lemma dbss_new_simps [simp]:
  "\<not> is_activated_object dbss_new d" "inactive_loads dbss_new = Map.empty" "db_next_context dbss_new = 0"
  "context_datagrams dbss_new = Map.empty" "dbss_log dbss_new = []" "dbss_objs dbss_new = Map.empty" "loading dbss_new = Map.empty"
  by (simp_all add: dbss_new_def is_activated_object_def)

text \<open>A datagram that consists of the given bytes.\<close>

definition from_bytes :: "bytes \<Rightarrow> dgi" where
  "from_bytes bs = start (dg_create_data bs)"

lemma from_bytes_upcoming: "length bs \<le> DGSIZE_MAX \<Longrightarrow> upcoming (from_bytes bs) bs"
  using start_upcoming [of "dg_create_data bs"]
  by (simp add: from_bytes_def dg_create_data_def dg_ok_def buf_offset_def)

text \<open>A message made of the given parts.\<close>

definition demo_message :: "channel \<Rightarrow> channel \<Rightarrow> u16 \<Rightarrow> bytes \<Rightarrow> datagram" where
  "demo_message t sender mt body = dg_create_data (server_header_bytes [t] sender mt @ body)"

lemma demo_message_ok: "length body \<le> 1000 \<Longrightarrow> is_message (demo_message t sender mt body) [t] sender mt body"
  by (simp add: demo_message_def is_message_def dg_create_data_def dg_ok_def buf_offset_def DGSIZE_MAX_def)

lemma demo_message_payload:
  assumes "length body \<le> 1000"
  shows "payload (demo_message t sender mt body) = Inr (advance (start (demo_message t sender mt body)) 9)"
    "upcoming (advance (start (demo_message t sender mt body)) 9) (le_bytes 8 sender @ le_bytes 2 mt @ body)"
  using stub_payload [OF demo_message_ok [OF assms]] message_parts(2) [OF demo_message_ok [OF assms]]
  by (simp_all add: payload_def)

section \<open>A query that blocks the activation after it\<close>

lemma get_all_resp_keeps:
  fixes env :: dbss_env
  assumes up: "upcoming it (le_bytes 4 c @ [])" and stub: "context_datagrams s c = Some stub"
    and msg: "is_message stub [t] sender STATESERVER_OBJECT_GET_ALL_RESP (le_bytes 4 ctx @ le_bytes 4 d @ rest)"
    and other: "misread_doid ctx d \<noteq> d'"
  defines "s' \<equiv> snd (handle_get_all_resp env it s)"
  shows "inactive_loads s' d' = inactive_loads s d'" "context_datagrams s' = (context_datagrams s)(c := None)"
    "dbss_objs s' = dbss_objs s" "loading s' = loading s"
proof -
  let ?s1 = "s\<lparr>context_datagrams := (context_datagrams s)(c := None),
    inactive_loads := forget_inactive (misread_doid ctx d) c (inactive_loads s)\<rparr>"
  define tail where "tail = sbind (slift (read_bool (advance it 4))) (\<lambda>(found, it).
          if \<not> found then sret ()
          else
            sbind (slift (read_uint16 it)) (\<lambda>(dc_id, it).
            if dc_id = 0 then sret ()
            else
              sbind (slift (unpack_db_fields (class_by_id env dc_id) it)) (\<lambda>(ok, required, ram).
              if \<not> ok then sret ()
              else case class_by_id env dc_id of
                None \<Rightarrow> sthrow DanglingReference
              | Some cls \<Rightarrow>
                  sbind (slift (add_all [add_uint16 (ucast (cls_id cls)), add_required required (cls_fields cls),
                     add_uint16 (word_of_nat (length ram)), append_values ram] stub)) dbss_route)))"
  define same where "same = (\<lambda>s :: dbss. inactive_loads s = inactive_loads ?s1
    \<and> context_datagrams s = context_datagrams ?s1 \<and> dbss_objs s = dbss_objs ?s1 \<and> loading s = loading ?s1)"
  have "s' = snd (tail ?s1)"
    unfolding s'_def handle_get_all_resp_def expected_response_run(1) [OF up stub msg]
    by (simp add: answered_object_misread [OF msg] tail_def)
  moreover have "keeps same (dbss_route q)" for q
    by (simp add: keeps_def same_def)
  then have "keeps same tail" unfolding tail_def by (intro keeps_intros)
  then have "same (snd (tail ?s1))" by (rule keepsD) (simp add: same_def)
  ultimately have "same s'" by simp
  then show "inactive_loads s' d' = inactive_loads s d'" "context_datagrams s' = (context_datagrams s)(c := None)"
    "dbss_objs s' = dbss_objs s" "loading s' = loading s"
    using other by (simp_all add: same_def forget_inactive_def Let_def)
qed

text \<open>
  C13: a query for all fields of an inactive object, under a context below 65536, makes its next
  activation (with defaults) hang if the database has answered before, whatever it answers. The query is sent to
  the database under a context number; the answer makes the server forget that number, but the
  object's entry among the pending queries stays, because the answer is attributed to another object
  (its number is read two bytes too early). The activation then starts a loader that waits for the
  forgotten number or for one of its own, and sends nothing to the database. Whatever datagrams the
  server, its loaders and its objects receive from then on, the object does not become active and the
  loader goes on waiting, as long as no answer of the database under one of these two numbers reaches
  the loader (the fields' defaults being no longer than a datagram).
\<close>

theorem queried_object_never_loads:
  fixes d parent :: doid and zn :: zone and ctx :: u32 and sender db asker :: channel
    and env :: dbss_env
  assumes query: "upcoming it1 (le_bytes 8 sender @ le_bytes 2 STATESERVER_OBJECT_GET_ALL @ le_bytes 4 ctx @ le_bytes 4 d)"
    and env: "defaults_short env"
    and fresh: "\<not> is_activated_object s d" "inactive_loads s d = None" "d \<noteq> 0" "unat ctx < 65536"
    and answer: "upcoming it2 (le_bytes 8 db @ le_bytes 2 DBSERVER_OBJECT_GET_ALL_RESP @ le_bytes 4 (db_next_context s))"
    and activate: "upcoming it3 (le_bytes 8 asker @ le_bytes 2 DBSS_OBJECT_ACTIVATE_WITH_DEFAULTS
      @ le_bytes 4 d @ le_bytes 4 parent @ le_bytes 4 zn)"
    and s1_def: "s1 = snd (dbss_handle_datagram env it1 s)"
    and s2_def: "s2 = snd (dbss_handle_datagram env it2 s1)"
    and s3_def: "s3 = snd (dbss_handle_datagram env it3 s2)"
  shows "\<exists>q ld. dbss_log s1 = dbss_log s @ [DbssRoute q]
    \<and> is_message q [db_channel env] (doid_channel d) DBSERVER_OBJECT_GET_ALL (le_bytes 4 (db_next_context s) @ le_bytes 4 d)
    \<and> \<not> is_expected_context s2 (db_next_context s)
    \<and> loading s3 d = Some ld \<and> \<not> is_loaded ld \<and> valid_contexts ld = {db_next_context s}
    \<and> dbss_log s3 = dbss_log s2 @ [LoaderSubscribe d]
    \<and> (\<forall>s4. dbss_later env d {ld_context ld, db_next_context s} s3 s4 \<longrightarrow>
        dbss_objs s4 d = None \<and> (\<exists>ld'. loading s4 d = Some ld' \<and> \<not> is_loaded ld'))"
proof -
  note b1 = dbss_bytes [OF query] and b3 = dbss_bytes [OF activate]
  from answer have answer': "upcoming it2 (le_bytes 8 db @ le_bytes 2 DBSERVER_OBJECT_GET_ALL_RESP @ le_bytes 4 (db_next_context s) @ [])"
    by simp
  note b2 = dbss_bytes [OF answer']
  from get_all_run [OF b1(2) fresh(1), of sender env] fresh(2) obtain stub q where
    stub: "is_message stub [sender] (doid_channel d) STATESERVER_OBJECT_GET_ALL_RESP (le_bytes 4 ctx @ le_bytes 4 d @ le_bytes 8 (0 :: channel))"
    and q: "is_message q [db_channel env] (doid_channel d) DBSERVER_OBJECT_GET_ALL (le_bytes 4 (db_next_context s) @ le_bytes 4 d)"
    and s1: "s1 = dbss_sent q (s\<lparr>db_next_context := db_next_context s + 1,
        context_datagrams := (context_datagrams s)(db_next_context s \<mapsto> stub),
        inactive_loads := (inactive_loads s)(d \<mapsto> {db_next_context s})\<rparr>)"
    by (auto simp: s1_def b1(1) dbss_dispatch_def)
  have stored: "context_datagrams s1 (db_next_context s) = Some stub" by (simp add: s1)
  have "s2 = snd (handle_get_all_resp env (advance it2 10) s1)" by (simp add: s2_def b2(1) dbss_dispatch_def)
  with get_all_resp_keeps [OF b2(2) stored stub misread_other [OF fresh(4,3)], of env]
  have s2: "inactive_loads s2 d = Some {db_next_context s}" "\<not> is_expected_context s2 (db_next_context s)"
    "\<not> is_activated_object s2 d"
    using fresh(1) by (simp_all add: s1 is_expected_context_def is_activated_object_def)
  have "s3 = snd (handle_activate env (advance it3 10) False s2)" by (simp add: s3_def b3(1) dbss_dispatch_def)
  with activate_run [OF b3(2) s2(3), of env] s2(1) obtain ld where
    ld: "loading s3 d = Some ld" "\<not> is_loaded ld" "valid_contexts ld = {db_next_context s}"
      "dbss_log s3 = dbss_log s2 @ [LoaderSubscribe d]" "dbss_objs s3 d = None"
    using s2(3) by (auto simp: is_activated_object_def)
  then have "awaiting d (ld_context ld) {db_next_context s} s3" by (simp add: awaiting_def)
  with later_awaiting [OF _ env this] have "dbss_objs s4 d = None \<and> (\<exists>ld'. loading s4 d = Some ld' \<and> \<not> is_loaded ld')"
    if "dbss_later env d {ld_context ld, db_next_context s} s3 s4" for s4
    using that by (fastforce simp: awaiting_def)
  with ld(1-4) q s2(2) show ?thesis by (auto simp: s1)
qed

definition demo_query :: dgi where
  "demo_query = from_bytes (le_bytes 8 (5 :: channel) @ le_bytes 2 STATESERVER_OBJECT_GET_ALL @ le_bytes 4 (1 :: u32)
     @ le_bytes 4 (9 :: doid))"

definition demo_not_found :: dgi where
  "demo_not_found = from_bytes (le_bytes 8 (4003 :: channel) @ le_bytes 2 DBSERVER_OBJECT_GET_ALL_RESP @ le_bytes 4 (0 :: u32))"

definition demo_activate :: dgi where
  "demo_activate = from_bytes (le_bytes 8 (6 :: channel) @ le_bytes 2 DBSS_OBJECT_ACTIVATE_WITH_DEFAULTS
     @ le_bytes 4 (9 :: doid) @ le_bytes 4 (200 :: doid) @ le_bytes 4 (8 :: zone))"

lemma queried_object_never_loads_witness:
  "\<exists>s1 s2 s3 q ld. s1 = snd (dbss_handle_datagram demo_dbss demo_query dbss_new)
    \<and> s2 = snd (dbss_handle_datagram demo_dbss demo_not_found s1)
    \<and> s3 = snd (dbss_handle_datagram demo_dbss demo_activate s2)
    \<and> dbss_log s1 = [DbssRoute q] \<and> \<not> is_expected_context s2 0
    \<and> loading s3 9 = Some ld \<and> \<not> is_loaded ld \<and> valid_contexts ld = {0} \<and> dbss_log s3 = dbss_log s2 @ [LoaderSubscribe 9]
    \<and> (\<forall>s4. dbss_later demo_dbss 9 {ld_context ld, 0} s3 s4 \<longrightarrow>
        dbss_objs s4 9 = None \<and> (\<exists>ld'. loading s4 9 = Some ld' \<and> \<not> is_loaded ld'))"
proof -
  let ?s1 = "snd (dbss_handle_datagram demo_dbss demo_query dbss_new)"
  have "\<exists>q ld. dbss_log ?s1 = dbss_log dbss_new @ [DbssRoute q]
    \<and> is_message q [db_channel demo_dbss] (doid_channel 9) DBSERVER_OBJECT_GET_ALL (le_bytes 4 (db_next_context dbss_new) @ le_bytes 4 (9 :: doid))
    \<and> \<not> is_expected_context (snd (dbss_handle_datagram demo_dbss demo_not_found ?s1)) (db_next_context dbss_new)
    \<and> loading (snd (dbss_handle_datagram demo_dbss demo_activate (snd (dbss_handle_datagram demo_dbss demo_not_found ?s1)))) 9 = Some ld
    \<and> \<not> is_loaded ld \<and> valid_contexts ld = {db_next_context dbss_new}
    \<and> dbss_log (snd (dbss_handle_datagram demo_dbss demo_activate (snd (dbss_handle_datagram demo_dbss demo_not_found ?s1))))
        = dbss_log (snd (dbss_handle_datagram demo_dbss demo_not_found ?s1)) @ [LoaderSubscribe 9]
    \<and> (\<forall>s4. dbss_later demo_dbss 9 {ld_context ld, db_next_context dbss_new}
          (snd (dbss_handle_datagram demo_dbss demo_activate (snd (dbss_handle_datagram demo_dbss demo_not_found ?s1)))) s4 \<longrightarrow>
        dbss_objs s4 9 = None \<and> (\<exists>ld'. loading s4 9 = Some ld' \<and> \<not> is_loaded ld'))"
    by (rule queried_object_never_loads [OF _ _ _ _ _ _ _ _ refl refl refl, where ctx = 1 and sender = 5 and db = 4003
          and asker = 6 and parent = 200 and zn = 8])
      (unfold demo_query_def demo_not_found_def demo_activate_def, simp_all add: from_bytes_upcoming DGSIZE_MAX_def)
  then show ?thesis by auto
qed

section \<open>A field of an inactive object\<close>

text \<open>
  C11: the value of a stored field of an inactive object makes the round trip: the query of any
  requester becomes a query of the database server, whose answer, delivered back, becomes the
  answer to the requester, with the requester's context, the field's number and exactly the
  stored bytes; afterwards no query is pending for it.
\<close>

theorem inactive_field_query:
  fixes d :: doid and fid :: u16 and ctx :: u32 and sender :: channel and env :: dbss_env
  assumes query: "upcoming it (le_bytes 8 sender @ le_bytes 2 STATESERVER_OBJECT_GET_FIELD @ le_bytes 4 ctx
      @ le_bytes 4 d @ le_bytes 2 fid)" and inactive: "\<not> is_activated_object s d"
    and f: "field_by_id env fid = Some f" "dcf_field dcf fid = Some f" "field_id f = ucast fid"
      "has_keyword f ''required'' \<or> has_keyword f ''ram''" "has_keyword f ''db''"
    and obj: "get_object db d (db_store t) = Some (c, kvs)" "dcf_class dcf c = Some cls" "fv_lookup f kvs = Some v"
    and valid: "validate_fields [(f, v)] = Inr True" "length v \<le> 50000" and free: "db_queues t d = None"
    and chan: "db_channel env = db_control t"
  shows "\<exists>s1 q itq op t1 t2 r itr s2 a.
      dbss_handle_datagram env it s = (Inr (), s1) \<and> dbss_log s1 = dbss_log s @ [DbssRoute q]
    \<and> receivers q = Inr ([db_control t], itq)
    \<and> db_handle_datagram dcf ptr itq t = (Inr (), t1) \<and> db_submitted t1 = db_submitted t @ [op]
    \<and> old_submit db dcf op t1 = (Inr (), t2) \<and> db_routed t2 = db_routed t @ [r]
    \<and> receivers r = Inr ([doid_channel d], itr)
    \<and> dbss_handle_datagram env itr s1 = (Inr (), s2) \<and> dbss_log s2 = dbss_log s1 @ [DbssRoute a]
    \<and> is_message a [sender] (doid_channel d) STATESERVER_OBJECT_GET_FIELD_RESP
        (le_bytes 4 ctx @ le_bytes 1 (1 :: u8) @ le_bytes 2 fid @ v)
    \<and> context_datagrams s2 = (context_datagrams s)(db_next_context s := None)"
proof -
  note b = dbss_bytes [OF query]
  let ?c = "db_next_context s"
  from get_field_query [OF b(2) inactive f(1,4,5), of sender] obtain stub q where
    stub: "is_message stub [sender] (doid_channel d) STATESERVER_OBJECT_GET_FIELD_RESP (le_bytes 4 ctx)"
    and q: "is_message q [db_control t] (doid_channel d) DBSERVER_OBJECT_GET_FIELD (le_bytes 4 ?c @ le_bytes 4 d @ le_bytes 2 fid)"
    and run1: "dbss_handle_datagram env it s = (Inr (), dbss_sent q (s\<lparr>db_next_context := ?c + 1,
        context_datagrams := (context_datagrams s)(?c \<mapsto> stub)\<rparr>))"
    by (auto simp: b(1) dbss_dispatch_def chan)
  define s1 where "s1 = dbss_sent q (s\<lparr>db_next_context := ?c + 1, context_datagrams := (context_datagrams s)(?c \<mapsto> stub)\<rparr>)"
  have stored: "context_datagrams s1 ?c = Some stub" by (simp add: s1_def)
  from message_received [OF q] obtain itq where itq: "receivers q = Inr ([db_control t], itq)"
    "upcoming itq (le_bytes 8 (doid_channel d) @ le_bytes 2 DBSERVER_OBJECT_GET_FIELD @ le_bytes 4 ?c @ le_bytes 4 d @ le_bytes 2 fid)"
    by auto
  from get_field_run [OF itq(2) f(2,5,3) obj valid free, of ptr] obtain op t1 t2 r where
    db: "db_handle_datagram dcf ptr itq t = (Inr (), t1)" "db_submitted t1 = db_submitted t @ [op]"
      "old_submit db dcf op t1 = (Inr (), t2)" "db_routed t2 = db_routed t @ [r]"
    and r: "is_message r [doid_channel d] (db_control t) DBSERVER_OBJECT_GET_FIELD_RESP
        (le_bytes 4 ?c @ le_bytes 1 (1 :: u8) @ le_bytes 2 fid @ v)" by blast
  from message_received_exactly [OF r] obtain itr where itr: "receivers r = Inr ([doid_channel d], itr)"
    "exactly itr ((le_bytes 8 (db_control t) @ le_bytes 2 DBSERVER_OBJECT_GET_FIELD_RESP) @ le_bytes 4 ?c
        @ le_bytes 1 (1 :: u8) @ le_bytes 2 fid @ v)"
    by auto
  from dbss_bytes(1) [of itr "db_control t" DBSERVER_OBJECT_GET_FIELD_RESP] exactly_upcoming [OF itr(2)]
  have run2: "dbss_handle_datagram env itr s1 = handle_get_field_resp (advance itr 10) s1"
    by (simp add: dbss_dispatch_def)
  have "length (le_bytes 4 ctx) + length (le_bytes 1 (1 :: u8) @ le_bytes 2 fid @ v) \<le> 60000"
    using valid(2) by simp
  from get_field_answer [OF exactly_drop [OF itr(2)] stored stub this] obtain a where
    a: "is_message a [sender] (doid_channel d) STATESERVER_OBJECT_GET_FIELD_RESP
        (le_bytes 4 ctx @ le_bytes 1 (1 :: u8) @ le_bytes 2 fid @ v)"
      "handle_get_field_resp (advance itr 10) s1 = (Inr (), dbss_sent a (s1\<lparr>context_datagrams := (context_datagrams s1)(?c := None)\<rparr>))"
    by auto
  define s2 where "s2 = dbss_sent a (s1\<lparr>context_datagrams := (context_datagrams s1)(?c := None)\<rparr>)"
  have "dbss_handle_datagram env itr s1 = (Inr (), s2)" using run2 a(2) by (simp add: s2_def)
  moreover have "dbss_log s2 = dbss_log s1 @ [DbssRoute a]" "context_datagrams s2 = (context_datagrams s)(?c := None)"
    by (simp_all add: s2_def s1_def)
  moreover have "dbss_handle_datagram env it s = (Inr (), s1)" "dbss_log s1 = dbss_log s @ [DbssRoute q]"
    using run1 by (simp_all add: s1_def)
  ultimately show ?thesis using itq(1) db itr(1) a(1) by blast
qed

lemma inactive_field_query_witness:
  "\<exists>s1 q itq op t1 t2 r itr s2 a.
      dbss_handle_datagram demo_dbss (from_bytes (le_bytes 8 (5 :: channel) @ le_bytes 2 STATESERVER_OBJECT_GET_FIELD
        @ le_bytes 4 (1 :: u32) @ le_bytes 4 (9 :: doid) @ le_bytes 2 (3 :: u16))) dbss_new = (Inr (), s1)
    \<and> dbss_log s1 = dbss_log dbss_new @ [DbssRoute q]
    \<and> receivers q = Inr ([db_control (demo_dbs [9 \<mapsto> (4, [(stored_field, [7])])])], itq)
    \<and> db_handle_datagram (demo_file stored_class) 2 itq (demo_dbs [9 \<mapsto> (4, [(stored_field, [7])])]) = (Inr (), t1)
    \<and> db_submitted t1 = db_submitted (demo_dbs [9 \<mapsto> (4, [(stored_field, [7])])]) @ [op]
    \<and> old_submit (demo_db (demo_file stored_class)) (demo_file stored_class) op t1 = (Inr (), t2)
    \<and> db_routed t2 = db_routed (demo_dbs [9 \<mapsto> (4, [(stored_field, [7])])]) @ [r]
    \<and> receivers r = Inr ([doid_channel 9], itr)
    \<and> dbss_handle_datagram demo_dbss itr s1 = (Inr (), s2) \<and> dbss_log s2 = dbss_log s1 @ [DbssRoute a]
    \<and> is_message a [5] (doid_channel 9) STATESERVER_OBJECT_GET_FIELD_RESP
        (le_bytes 4 (1 :: u32) @ le_bytes 1 (1 :: u8) @ le_bytes 2 (3 :: u16) @ [7])
    \<and> context_datagrams s2 = (context_datagrams dbss_new)(db_next_context dbss_new := None)"
proof -
  have valid: "validate_fields [(stored_field, [7])] = Inr True"
    by (rule byte_value_valid) (simp_all add: stored_field_def demo_field_def DGSIZE_MAX_def)
  show ?thesis
    by (rule inactive_field_query [OF _ _ _ _ _ _ _ _ _ _ valid, where kvs = "[(stored_field, [7])]"
          and cls = stored_class and c = 4])
      (simp_all add: from_bytes_upcoming DGSIZE_MAX_def demo_file_def demo_db_def demo_dbs_def)
qed

section \<open>Activation\<close>

text \<open>
  C12: a load completes with the database's answer. The new object has the place the activation
  named; each required value is the one the activation brought, else the stored one, else the
  default, each ram value the one the activation brought, else the stored one; the messages held
  back while it was loading reach it in their order, and the loader is gone.
\<close>

theorem load_completes:
  fixes db :: channel and c :: u32 and dc_id :: u16
  assumes msg: "upcoming it (le_bytes 8 db @ le_bytes 2 DBSERVER_OBJECT_GET_ALL_RESP @ le_bytes 4 c
      @ le_bytes 1 (1 :: u8) @ le_bytes 2 dc_id)"
    and ld: "loading s d = Some ld" "\<not> is_loaded ld" "c = ld_context ld \<or> c \<in> valid_contexts ld" "ld_parent ld \<noteq> d"
    and cls: "class_by_id env dc_id = Some cls" "ld_class ld \<in> {None, Some cls}" "distinct (map field_id (cls_fields cls))"
    and vals: "unpack_db_fields (Some cls) (advance it 17) = Inr (True, R, M)"
    and room: "merge_values (field_updates ld) (cls_fields cls) R M = (R', M')"
      "required_room R' (cls_fields cls) + ram_room M' \<le> 50000"
    and env: "env_ok (object_env env)" "defaults_short env"
    and queue: "\<forall>dg \<in> set (datagram_queue ld). tolerated env dg \<and> \<not> is_activation dg"
  shows "\<exists>obj s'. loader_handle_datagram env d it s = (Inr (), s')
    \<and> do_id obj = d \<and> do_class obj = cls \<and> parent_id obj = ld_parent ld \<and> zone_id obj = ld_zone ld
    \<and> (\<forall>f \<in> set (cls_fields cls). as_molecular f = None \<and> has_keyword f ''required'' \<longrightarrow>
        required_fields obj (field_id f) = Some (case field_updates ld (field_id f) of Some v \<Rightarrow> v
          | None \<Rightarrow> (case R (field_id f) of Some v \<Rightarrow> v | None \<Rightarrow> field_default f)))
    \<and> (\<forall>f \<in> set (cls_fields cls). as_molecular f = None \<and> \<not> has_keyword f ''required'' \<and> has_keyword f ''ram'' \<longrightarrow>
        fv_lookup f (ram_fields obj) = (case field_updates ld (field_id f) of Some v \<Rightarrow> Some v | None \<Rightarrow> fv_lookup f M))
    \<and> dbss_objs s' = (dbss_objs s)(d := replayed (object_env env) (datagram_queue ld) obj)
    \<and> loading s' = (loading s)(d := None)"
proof -
  from load_run [OF msg ld cls vals room env queue] obtain obj s' where
    o: "loader_handle_datagram env d it s = (Inr (), s')" "do_id obj = d" "do_class obj = cls"
      "parent_id obj = ld_parent ld" "zone_id obj = ld_zone ld"
    and v: "required_fields obj = R'" "ram_fields obj = M'"
    and s': "dbss_objs s' = (dbss_objs s)(d := replayed (object_env env) (datagram_queue ld) obj)"
      "loading s' = (loading s)(d := None)" by metis
  have "R' = fst (merge_values (field_updates ld) (cls_fields cls) R M)"
    "M' = snd (merge_values (field_updates ld) (cls_fields cls) R M)" using room(1) by simp_all
  then have req: "required_fields obj (field_id f) = Some (case field_updates ld (field_id f) of Some v \<Rightarrow> v
          | None \<Rightarrow> (case R (field_id f) of Some v \<Rightarrow> v | None \<Rightarrow> field_default f))"
    if "f \<in> set (cls_fields cls)" "as_molecular f = None" "has_keyword f ''required''" for f
    using merge_required [OF cls(3) that] v(1) by simp
  have ram: "fv_lookup f (ram_fields obj) = (case field_updates ld (field_id f) of Some v \<Rightarrow> Some v | None \<Rightarrow> fv_lookup f M)"
    if "f \<in> set (cls_fields cls)" "as_molecular f = None" "\<not> has_keyword f ''required''" "has_keyword f ''ram''" for f
    using merge_ram [OF cls(3) that] v(2) \<open>M' = _\<close> by simp
  show ?thesis
    by (rule exI [of _ obj], rule exI [of _ s']) (use o s' req ram in blast)
qed

text \<open>The instance: the object is being loaded when an acknowledgement arrives for it.\<close>

definition demo_held :: datagram where
  "demo_held = demo_message 9 5 STATESERVER_OBJECT_LOCATION_ACK (le_bytes 4 (200 :: doid) @ le_bytes 4 (8 :: zone))"

lemma demo_held_harmless: "tolerated demo_dbss demo_held \<and> \<not> is_activation demo_held"
proof -
  have p: "payload demo_held = Inr (advance (start demo_held) 9)"
    and up: "upcoming (advance (start demo_held) 9) (le_bytes 8 (5 :: channel) @ le_bytes 2 STATESERVER_OBJECT_LOCATION_ACK
      @ le_bytes 4 (200 :: doid) @ le_bytes 4 (8 :: zone))"
    using demo_message_payload [of "le_bytes 4 (200 :: doid) @ le_bytes 4 (8 :: zone)" 9 5 STATESERVER_OBJECT_LOCATION_ACK]
    by (simp_all add: demo_held_def)
  note h = read_channel_upcoming [OF up]
  note t = read_uint16_upcoming [OF conjunct2 [OF h]]
  have "\<not> is_activation demo_held" using p h t by (simp add: is_activation_def message_type_def)
  moreover have "tolerated demo_dbss demo_held"
    using p location_ack_received [OF up] by (simp add: tolerated_def dbss_bytes(1) [OF up] dbss_dispatch_def)
  ultimately show ?thesis by blast
qed

definition demo_loader :: loader where
  "demo_loader = \<lparr>ld_parent = 200, ld_zone = 8, ld_context = 0, ld_class = None, field_updates = Map.empty,
     valid_contexts = {}, datagram_queue = [demo_held], is_loaded = False\<rparr>"

definition demo_stored :: dgi where
  "demo_stored = from_bytes (le_bytes 8 (4003 :: channel) @ le_bytes 2 DBSERVER_OBJECT_GET_ALL_RESP @ le_bytes 4 (0 :: u32)
     @ le_bytes 1 (1 :: u8) @ le_bytes 2 (4 :: u16) @ le_bytes 2 (1 :: u16) @ le_bytes 2 (3 :: u16) @ [7])"

lemma demo_stored_bytes:
  "upcoming demo_stored (le_bytes 8 (4003 :: channel) @ le_bytes 2 DBSERVER_OBJECT_GET_ALL_RESP @ le_bytes 4 (0 :: u32)
     @ le_bytes 1 (1 :: u8) @ le_bytes 2 (4 :: u16))"
  "unpack_db_fields (Some stored_class) (advance demo_stored 17) = Inr (True, [3 \<mapsto> [7]], [])"
proof -
  have up: "upcoming demo_stored ((le_bytes 8 (4003 :: channel) @ le_bytes 2 DBSERVER_OBJECT_GET_ALL_RESP @ le_bytes 4 (0 :: u32)
     @ le_bytes 1 (1 :: u8) @ le_bytes 2 (4 :: u16)) @ le_bytes 2 (1 :: u16) @ le_bytes 2 (3 :: u16) @ [7])"
    unfolding demo_stored_def append_assoc by (rule from_bytes_upcoming) (simp add: DGSIZE_MAX_def)
  then show "upcoming demo_stored (le_bytes 8 (4003 :: channel) @ le_bytes 2 DBSERVER_OBJECT_GET_ALL_RESP @ le_bytes 4 (0 :: u32)
     @ le_bytes 1 (1 :: u8) @ le_bytes 2 (4 :: u16))" unfolding upcoming_append by blast
  from upcoming_drop [OF up, of 17] have "upcoming (advance demo_stored 17) (le_bytes 2 (1 :: u16) @ le_bytes 2 (3 :: u16) @ [7])"
    by simp
  note n = read_uint16_upcoming [OF this]
  note i = read_uint16_upcoming [OF conjunct2 [OF n]]
  from i have "read_raw 1 (advance demo_stored 21) = Inr ([7], advance demo_stored 22)"
    using read_raw_upcoming [of "advance demo_stored 21" "[7]" 1] by simp
  then have "unpack_field stored_field (advance demo_stored 21) = Inr ([7], advance demo_stored 22)"
    by (simp add: unpack_field_def stored_field_def read_fixed_value_def read_data_def numeric_has_range_def
        nrange_none_def nrange_is_empty_def)
  with n i show "unpack_db_fields (Some stored_class) (advance demo_stored 17) = Inr (True, [3 \<mapsto> [7]], [])"
    by (simp add: unpack_db_fields_def One_nat_def [symmetric] map_append_def del: One_nat_def unpack_db_loop.simps(2))
      (simp add: map_append_def)
qed

lemma load_completes_witness:
  "\<exists>obj s'. loader_handle_datagram demo_dbss 9 demo_stored (dbss_new\<lparr>loading := [9 \<mapsto> demo_loader]\<rparr>) = (Inr (), s')
    \<and> required_fields obj 3 = Some [7] \<and> parent_id obj = 200 \<and> zone_id obj = 8
    \<and> dbss_objs s' 9 = replayed demo_do_env [demo_held] obj \<and> loading s' 9 = None"
proof -
  have ld: "loading (dbss_new\<lparr>loading := [9 \<mapsto> demo_loader]\<rparr>) 9 = Some demo_loader" "\<not> is_loaded demo_loader"
    "0 = ld_context demo_loader \<or> 0 \<in> valid_contexts demo_loader" "ld_parent demo_loader \<noteq> 9"
    "ld_class demo_loader \<in> {None, Some stored_class}" "field_updates demo_loader = Map.empty"
    "datagram_queue demo_loader = [demo_held]" "ld_zone demo_loader = 8" "ld_parent demo_loader = 200"
    by (simp_all add: demo_loader_def)
  have merged: "merge_values (field_updates demo_loader) (cls_fields stored_class) [3 \<mapsto> [7]] [] = ([3 \<mapsto> [7]], [])"
    by (simp add: ld)
  from load_completes [OF demo_stored_bytes(1) ld(1-4) _ ld(5) _ demo_stored_bytes(2) merged, of demo_dbss]
    demo_do_env_ok demo_held_harmless
  show ?thesis by (simp add: ld required_room_def ram_room_def value_of_def) fastforce
qed

section \<open>The tables\<close>

text \<open>
  C14: whatever datagrams the server, its loaders and its objects receive, well formed or not,
  every active object is stored under its own number, an active object has no loader that still
  waits for the database, no activation is held back, and every response kept for the database's
  answer is a complete message of one of the three response types, long enough for the server to
  read back what it needs.
\<close>

theorem tables_consistent:
  assumes "dbss_run env s" "defaults_short env"
  shows "dbss_ok s"
  by (rule dbss_run_ok [OF assms])

lemma tables_consistent_witness:
  "dbss_ok (snd (dbss_handle_datagram demo_dbss (advance (start (demo_message 9 5 STATESERVER_OBJECT_GET_ALL
     (le_bytes 4 (1 :: u32) @ le_bytes 4 (9 :: doid)))) 9) dbss_new))"
proof (rule tables_consistent)
  have "payload (demo_message 9 5 STATESERVER_OBJECT_GET_ALL (le_bytes 4 (1 :: u32) @ le_bytes 4 (9 :: doid)))
    = Inr (advance (start (demo_message 9 5 STATESERVER_OBJECT_GET_ALL (le_bytes 4 (1 :: u32) @ le_bytes 4 (9 :: doid)))) 9)"
    by (rule demo_message_payload) simp
  then show "dbss_run demo_dbss (snd (dbss_handle_datagram demo_dbss (advance (start (demo_message 9 5 STATESERVER_OBJECT_GET_ALL
     (le_bytes 4 (1 :: u32) @ le_bytes 4 (9 :: doid)))) 9) dbss_new))"
    by (rule dbss_run.serve [OF dbss_run.boot])
qed simp

section \<open>Queries for several fields\<close>

lemma context_add_all_run:
  "context_datagrams s c = Some dg \<Longrightarrow> add_all as dg = Inr dg' \<Longrightarrow>
    context_add_all c as s = (Inr (), s\<lparr>context_datagrams := (context_datagrams s)(c \<mapsto> dg')\<rparr>)"
proof (induction as arbitrary: s dg)
  case Nil
  then have "(context_datagrams s)(c \<mapsto> dg') = context_datagrams s" by (simp add: fun_upd_idem)
  then show ?case by simp
next
  case (Cons a as)
  then obtain dg1 where 1: "a dg = Inr dg1" "add_all as dg1 = Inr dg'" by (auto simp: rbind_eq_Inr)
  have "context_add c a s = (Inr (), s\<lparr>context_datagrams := (context_datagrams s)(c \<mapsto> dg1)\<rparr>)"
    using Cons.prems(1) 1(1) by (simp add: context_add_def)
  with Cons.IH [OF _ 1(2), of "s\<lparr>context_datagrams := (context_datagrams s)(c \<mapsto> dg1)\<rparr>"] show ?case
    by (simp add: sseq_apply cong: if_cong)
qed

lemma one_field_sorted:
  fixes fid :: u16
  assumes "upcoming it (le_bytes 2 fid)" "field_by_id env fid = Some f"
    "has_keyword f ''ram'' \<or> has_keyword f ''required''" "has_keyword f ''db''"
  shows "sort_requested env sender d ctx 1 it [] [] s = (Inr ([f], []), s)"
proof -
  from assms(1) have "upcoming it (le_bytes 2 fid @ [])" by simp
  with read_uint16_upcoming assms(2-4) show ?thesis unfolding One_nat_def by fastforce
qed

text \<open>
  When the database has no value for a stored field of an inactive object, the answer to a
  query for it (with GET_FIELDS) claims success and announces one field, but contains none: the
  response was prepared before the database was asked, and its failure does not change it.
\<close>

theorem missing_field_reported:
  fixes d :: doid and fid :: u16 and ctx :: u32 and sender db :: channel
  assumes query: "upcoming it1 (le_bytes 8 sender @ le_bytes 2 STATESERVER_OBJECT_GET_FIELDS @ le_bytes 4 ctx
      @ le_bytes 4 d @ le_bytes 2 (1 :: u16) @ le_bytes 2 fid)" and inactive: "\<not> is_activated_object s d"
    and f: "field_by_id env fid = Some f" "has_keyword f ''ram'' \<or> has_keyword f ''required''" "has_keyword f ''db''"
    and fresh: "context_datagrams s (db_next_context s) = None"
    and answer: "upcoming it2 (le_bytes 8 db @ le_bytes 2 DBSERVER_OBJECT_GET_FIELDS_RESP
      @ le_bytes 4 (db_next_context s) @ le_bytes 1 (0 :: u8))"
  shows "\<exists>s1 s2 q a. dbss_handle_datagram env it1 s = (Inr (), s1) \<and> dbss_log s1 = dbss_log s @ [DbssRoute q]
    \<and> dbss_handle_datagram env it2 s1 = (Inr (), s2) \<and> dbss_log s2 = dbss_log s1 @ [DbssRoute a]
    \<and> is_message a [sender] (doid_channel d) STATESERVER_OBJECT_GET_FIELDS_RESP
        (le_bytes 4 ctx @ le_bytes 1 (1 :: u8) @ le_bytes 2 (1 :: u16))"
proof -
  let ?c = "db_next_context s"
  note b = dbss_bytes [OF query]
  note h1 = read_uint32_upcoming [OF b(2)]
  note h2 = read_doid_upcoming [OF conjunct2 [OF h1]]
  note h3 = read_uint16_upcoming [OF conjunct2 [OF h2]]
  from dg_create_server_def appends_dg_create [OF appends_add_server_header, of sender "doid_channel d" STATESERVER_OBJECT_GET_FIELDS_RESP]
  obtain dg0 where dg0: "dg_create_server sender (doid_channel d) STATESERVER_OBJECT_GET_FIELDS_RESP = Inr dg0"
    by (auto simp: DGSIZE_MAX_def)
  have ap: "appends (le_bytes 4 ctx @ [1] @ le_bytes 2 (1 :: u16) @ []) (add_all [add_uint32 ctx, add_bool True, add_uint16 1])"
    using appends_add_bool [of True] by (intro appends_intros) simp
  from created_message [OF this, of sender "doid_channel d" STATESERVER_OBJECT_GET_FIELDS_RESP] dg0 obtain stub where
    stub: "is_message stub [sender] (doid_channel d) STATESERVER_OBJECT_GET_FIELDS_RESP (le_bytes 4 ctx @ [1] @ le_bytes 2 (1 :: u16))"
    and grown: "add_all [add_uint32 ctx, add_bool True, add_uint16 1] dg0 = Inr stub"
    by (auto simp: DGSIZE_MAX_def)
  let ?s0 = "s\<lparr>db_next_context := ?c + 1, context_datagrams := (context_datagrams s)(?c \<mapsto> dg0)\<rparr>"
  let ?s1 = "s\<lparr>db_next_context := ?c + 1, context_datagrams := (context_datagrams s)(?c \<mapsto> stub)\<rparr>"
  have added: "context_add_all ?c [add_uint32 ctx, add_bool True, add_uint16 1] ?s0 = (Inr (), ?s1)"
    using context_add_all_run [OF _ grown, of ?s0 ?c] by simp
  have "appends (le_bytes 4 ?c @ le_bytes 4 d @ le_bytes 2 (1 :: u16) @ le_bytes 2 (ucast (field_id f) :: u16) @ [])
      (add_all [add_uint32 ?c, add_doid d, add_uint16 1, add_uint16 (ucast (field_id f))])"
    by (intro appends_intros)
  from dbss_send_sent [OF this, of "db_channel env" "doid_channel d" DBSERVER_OBJECT_GET_FIELDS ?s1] obtain q where
    q: "dbss_send (db_channel env) (doid_channel d) DBSERVER_OBJECT_GET_FIELDS
      [add_uint32 ?c, add_doid d, add_uint16 1, add_uint16 (ucast (field_id f))] ?s1 = (Inr (), dbss_sent q ?s1)"
    by (auto simp: DGSIZE_MAX_def)
  have "dbss_get_fields env sender (advance it1 10) s = (Inr (), dbss_sent q ?s1)"
    using h1 h2 h3 inactive fresh dg0 added q one_field_sorted [OF conjunct2 [OF h3] f, of sender d ctx s]
    by (simp add: dbss_get_fields_def sbind_apply [of "sort_requested _ _ _ _ _ _ _ _"] sbind_ok [of take_context] sseq_apply
        default_adds_def del: add_all.simps context_add_all.simps sort_requested.simps)
  then have run1: "dbss_handle_datagram env it1 s = (Inr (), dbss_sent q ?s1)" by (simp add: b(1) dbss_dispatch_def)
  note b2 = dbss_bytes [OF answer]
  have stored: "context_datagrams (dbss_sent q ?s1) ?c = Some stub" by simp
  from expected_response_run(2) [OF b2(2) stored stub] have "upcoming (advance it2 14) (le_bytes 1 (0 :: u8))" by simp
  then have failed: "read_bool (advance it2 14) = Inr (False, advance it2 15)"
    using boolc.rd_upcoming [OF TrueI, of "advance it2 14" False] by simp
  have "handle_get_fields_resp (advance it2 10) (dbss_sent q ?s1)
      = (Inr (), dbss_sent stub ((dbss_sent q ?s1)\<lparr>context_datagrams := (context_datagrams s)(?c := None)\<rparr>))"
    unfolding handle_get_fields_resp_def expected_response_run(1) [OF b2(2) stored stub]
    by (simp add: failed)
  then have run2: "dbss_handle_datagram env it2 (dbss_sent q ?s1)
      = (Inr (), dbss_sent stub ((dbss_sent q ?s1)\<lparr>context_datagrams := (context_datagrams s)(?c := None)\<rparr>))"
    by (simp add: b2(1) dbss_dispatch_def)
  have one: "le_bytes 1 (1 :: u8) = [1]" by (simp add: le_bytes.simps)
  show ?thesis using run1 run2 stub unfolding one by fastforce
qed

lemma missing_field_reported_witness:
  "\<exists>s1 s2 q a. dbss_handle_datagram demo_dbss (from_bytes (le_bytes 8 (5 :: channel) @ le_bytes 2 STATESERVER_OBJECT_GET_FIELDS
        @ le_bytes 4 (1 :: u32) @ le_bytes 4 (9 :: doid) @ le_bytes 2 (1 :: u16) @ le_bytes 2 (3 :: u16))) dbss_new = (Inr (), s1)
    \<and> dbss_log s1 = dbss_log dbss_new @ [DbssRoute q]
    \<and> dbss_handle_datagram demo_dbss (from_bytes (le_bytes 8 (4003 :: channel) @ le_bytes 2 DBSERVER_OBJECT_GET_FIELDS_RESP
        @ le_bytes 4 (db_next_context dbss_new) @ le_bytes 1 (0 :: u8))) s1 = (Inr (), s2)
    \<and> dbss_log s2 = dbss_log s1 @ [DbssRoute a]
    \<and> is_message a [5] (doid_channel 9) STATESERVER_OBJECT_GET_FIELDS_RESP
        (le_bytes 4 (1 :: u32) @ le_bytes 1 (1 :: u8) @ le_bytes 2 (1 :: u16))"
  by (rule missing_field_reported [OF from_bytes_upcoming _ _ _ _ _ from_bytes_upcoming, where f = stored_field])
    (simp_all add: DGSIZE_MAX_def)

end
