(* ===== verification/DClass_File.thy ===== *)
theory DClass_File
  imports DClass
begin

text \<open>
  \<open>dclass/dc/Class.cpp\<close> and \<open>dclass/dc/File.cpp\<close>: classes with inheritance, and the tables of a
  dclass file. Classes point to their parents and children, so they live in a heap: a
  \<open>Class*\<close> is an index into \<open>df_heap\<close>, which holds every class the parser constructed, added to
  the file or not; structs likewise. A \<open>Field*\<close> is the field itself, which carries the number
  the file gave it; the file never gives a number twice, so comparing pointers is comparing
  numbers. \<open>df_owner\<close> is \<open>Field::m_struct\<close>. A \<open>DistributedType*\<close> is a \<open>type_ref\<close>: a class, a
  struct, or one of the other types that a typedef named, which live in \<open>df_other\<close>. An alias is
  one more name for the same pointer, so an alias of a class is that class.
\<close>

section \<open>State\<close>

type_synonym cref = nat

record class_obj =
  co_name :: string
  co_id :: u32
  co_size :: dgsize
  co_fields :: "field list"
  co_by_name :: "string \<rightharpoonup> field"
  co_by_id :: "u32 \<rightharpoonup> field"
  co_constructor :: "field option"
  co_base_fields :: "field list"
  co_base_by_name :: "string \<rightharpoonup> field"
  co_parents :: "cref list"
  co_children :: "cref list"

datatype type_ref = ClassRef cref | StructRef nat | TypeRef nat

record dc_import =
  im_module :: string
  im_symbols :: "string list"

record dcfile =
  df_heap :: "class_obj list"
  df_struct_heap :: "struct_obj list"
  df_struct_id :: "nat \<rightharpoonup> u32"
  df_other :: "dtype list"
  df_fields :: "field list"
  df_owner :: "u32 \<rightharpoonup> cref"
  df_classes :: "cref list"
  df_structs :: "nat list"
  df_imports :: "dc_import list"
  df_types :: "type_ref list"
  df_by_name :: "string \<rightharpoonup> type_ref"
  df_keywords :: "string list"

type_synonym 'a file_op = "(dcfile, 'a) sm"

definition dcfile_new :: dcfile where
  "dcfile_new = \<lparr>df_heap = [], df_struct_heap = [], df_struct_id = Map.empty, df_other = [], df_fields = [],
     df_owner = Map.empty, df_classes = [], df_structs = [], df_imports = [], df_types = [],
     df_by_name = Map.empty, df_keywords = []\<rparr>"

definition class_obj_new :: "string \<Rightarrow> class_obj" where
  "class_obj_new name = \<lparr>co_name = name, co_id = 0, co_size = 0, co_fields = [],
     co_by_name = Map.empty, co_by_id = Map.empty, co_constructor = None, co_base_fields = [],
     co_base_by_name = Map.empty, co_parents = [], co_children = []\<rparr>"

text \<open>\<open>new Class(file, name)\<close> returns the new object, which is the last of the heap.\<close>

definition new_class :: "string \<Rightarrow> cref file_op" where
  "new_class name = (\<lambda>d. (Inr (length (df_heap d)), d\<lparr>df_heap := df_heap d @ [class_obj_new name]\<rparr>))"

definition class_at :: "dcfile \<Rightarrow> cref \<Rightarrow> class_obj" where
  "class_at d c = df_heap d ! c"

definition on_class :: "cref \<Rightarrow> (class_obj \<Rightarrow> class_obj) \<Rightarrow> unit file_op" where
  "on_class c f = supd (\<lambda>d. d\<lparr>df_heap := (df_heap d)[c := f (df_heap d ! c)]\<rparr>)"

section \<open>Classes\<close>

definition class_fixed :: "class_obj \<Rightarrow> bool" where
  "class_fixed co \<longleftrightarrow> co_size co \<noteq> 0"

text \<open>
  \<open>Class::shadow_field\<close>. The calls follow the children, of which there are finitely many
  generations: the first argument bounds them (see \<open>fuel_of\<close>).
\<close>

definition drop_field :: "field \<Rightarrow> class_obj \<Rightarrow> class_obj" where
  "drop_field f co = co\<lparr>
     co_size := (if class_fixed co then co_size co - get_size (field_type f) else co_size co),
     co_by_id := (co_by_id co)(field_id f := None),
     co_by_name := (co_by_name co)(field_name f := None),
     co_fields := (let before = takeWhile (\<lambda>g. field_id g \<noteq> field_id f) (co_fields co)
                   in before @ drop (Suc (length before)) (co_fields co))\<rparr>"

definition holds_field :: "class_obj \<Rightarrow> field \<Rightarrow> bool" where
  "holds_field co f \<longleftrightarrow>
     (case co_by_id co (field_id f) of None \<Rightarrow> False | Some g \<Rightarrow> field_id g = field_id f)"

fun shadow_field :: "nat \<Rightarrow> cref \<Rightarrow> field \<Rightarrow> unit file_op" where
  "shadow_field 0 c f = sthrow NoReturn"
| "shadow_field (Suc n) c f =
     sseq (on_class c (drop_field f))
      (sbind (sget (\<lambda>d. co_children (class_at d c)))
        (for_each (\<lambda>ch. sbind (sget (\<lambda>d. holds_field (class_at d ch) f))
           (\<lambda>has. swhen has (shadow_field n ch f)))))"

text \<open>
  The search of \<open>Class::add_inherited_field\<close> for the parent that takes precedence, over the
  parents that are left: whether the new field is to be added. \<open>prev\<close> is the field of the same
  name, \<open>owner\<close> its class. Shadowing \<open>prev\<close> erases the entry the iterator \<open>prev_field\<close> stands
  on, so using it once more is undefined behaviour: \<open>live\<close> says that this has not happened.
\<close>

fun resolve_conflict :: "nat \<Rightarrow> cref \<Rightarrow> cref \<Rightarrow> cref option \<Rightarrow> field \<Rightarrow> bool \<Rightarrow> cref list \<Rightarrow> bool file_op" where
  "resolve_conflict n c parent owner prev live [] = sret True"
| "resolve_conflict n c parent owner prev live (p # ps) =
     (if owner = Some p then sret False
      else if p = parent then
        (if live then sseq (shadow_field n c prev) (resolve_conflict n c parent owner prev False ps)
         else sthrow DanglingReference)
      else resolve_conflict n c parent owner prev live ps)"

text \<open>
  The insertion into the list of fields, scanning backwards for a smaller number. A field
  whose number is smaller than all others is not inserted, unless the list is empty.
\<close>

definition insert_field :: "field \<Rightarrow> field list \<Rightarrow> field list" where
  "insert_field f fs =
     (if fs = [] then [f]
      else let after = takeWhile (\<lambda>g. \<not> field_id g < field_id f) (rev fs);
               before = dropWhile (\<lambda>g. \<not> field_id g < field_id f) (rev fs)
           in if before = [] then fs else rev before @ f # rev after)"

definition class_grow :: "field \<Rightarrow> class_obj \<Rightarrow> class_obj" where
  "class_grow f co = co\<lparr>co_size := grow_size (co_size co) (length (co_fields co)) (field_type f)\<rparr>"

definition class_enter :: "field \<Rightarrow> class_obj \<Rightarrow> class_obj" where
  "class_enter f co = co\<lparr>
     co_by_id := (co_by_id co)(field_id f \<mapsto> f),
     co_by_name := (co_by_name co)(field_name f \<mapsto> f)\<rparr>"

text \<open>\<open>Class::add_inherited_field\<close>.\<close>

fun add_inherited_field :: "nat \<Rightarrow> cref \<Rightarrow> cref \<Rightarrow> field \<Rightarrow> unit file_op" where
  "add_inherited_field 0 c parent f = sthrow NoReturn"
| "add_inherited_field (Suc n) c parent f =
     sbind (sget (\<lambda>d. class_at d c)) (\<lambda>co.
       if co_base_by_name co (field_name f) \<noteq> None then sret ()
       else
         sbind (case co_by_name co (field_name f) of
                  None \<Rightarrow> sret True
                | Some prev \<Rightarrow>
                    sbind (sget (\<lambda>d. df_owner d (field_id prev))) (\<lambda>owner.
                      resolve_conflict (Suc n) c parent owner prev True (co_parents co)))
           (\<lambda>add.
             if \<not> add then sret ()
             else
               sseq (on_class c (\<lambda>co. class_grow f
                       (class_enter f co\<lparr>co_fields := insert_field f (co_fields co)\<rparr>)))
                (sbind (sget (\<lambda>d. co_children (class_at d c)))
                  (for_each (\<lambda>ch. add_inherited_field n ch c f)))))"

text \<open>
  Children are constructed after their parents, so a chain of children is no longer than the heap.
\<close>

definition fuel_of :: "dcfile \<Rightarrow> nat" where
  "fuel_of d = Suc (length (df_heap d))"

text \<open>
  \<open>Class::add_parent\<close>. The parser only names finished classes as parents, so the fields of the
  parent do not change while they are handed down.
\<close>

definition add_parent :: "cref \<Rightarrow> cref \<Rightarrow> unit file_op" where
  "add_parent c parent =
     sseq (on_class parent (\<lambda>co. co\<lparr>co_children := co_children co @ [c]\<rparr>))
      (sseq (on_class c (\<lambda>co. co\<lparr>co_parents := co_parents co @ [parent]\<rparr>))
        (sbind (sget (\<lambda>d. (fuel_of d, co_fields (class_at d parent)))) (\<lambda>(n, fs).
          for_each (add_inherited_field n c parent) fs)))"

text \<open>\<open>File::add_field\<close> together with \<open>Field::set_struct\<close>: the field with its number.\<close>

definition number_field :: "cref \<Rightarrow> field \<Rightarrow> field file_op" where
  "number_field c f =
     (\<lambda>d. let (tbl, f') = file_add_field (df_fields d) f
          in (Inr f', d\<lparr>df_fields := tbl, df_owner := (df_owner d)(field_id f' \<mapsto> c)\<rparr>))"

text \<open>
  \<open>Class::add_field\<close>. \<open>foreign\<close> says whether the field belongs to another struct, \<open>None\<close> is the
  null pointer. The parser adds the fields of a class before any other class inherits from it.
\<close>

definition class_add_constructor :: "cref \<Rightarrow> field \<Rightarrow> bool file_op" where
  "class_add_constructor c f =
     sbind (sget (\<lambda>d. class_at d c)) (\<lambda>co.
       if co_constructor co \<noteq> None then sret False
       else if field_molecular f then sret False
       else if co_base_fields co \<noteq> [] then sret False
       else
         sbind (number_field c f) (\<lambda>f'.
           sseq (on_class c (\<lambda>co. class_enter f' co\<lparr>co_constructor := Some f'\<rparr>))
            (sret True)))"

definition class_add_field :: "cref \<Rightarrow> bool \<Rightarrow> field option \<Rightarrow> bool file_op" where
  "class_add_field c foreign fo =
     (case fo of
        None \<Rightarrow> sret False
      | Some f \<Rightarrow>
          sbind (sget (\<lambda>d. (fuel_of d, class_at d c))) (\<lambda>(n, co).
            if foreign then sret False
            else if field_name f = [] then sret False
            else if field_name f = co_name co then class_add_constructor c f
            else if co_base_by_name co (field_name f) \<noteq> None then sret False
            else
              sseq (case co_by_name co (field_name f) of
                      None \<Rightarrow> sret ()
                    | Some prev \<Rightarrow> shadow_field n c prev)
               (sbind (number_field c f) (\<lambda>f'.
                 sseq (on_class c (\<lambda>co.
                         let co' = class_enter f' co\<lparr>
                               co_base_by_name := (co_base_by_name co)(field_name f' \<mapsto> f'),
                               co_base_fields := co_base_fields co @ [f'],
                               co_fields := co_fields co @ [f']\<rparr>
                         in if field_molecular f' then co' else class_grow f' co'))
                  (sbind (sget (\<lambda>d. co_children (class_at d c)))
                    (\<lambda>cs. sseq (for_each (\<lambda>ch. add_inherited_field n ch c f') cs)
                      (sret True)))))))"

section \<open>The file\<close>

text \<open>\<open>File::add_class\<close>, \<open>add_struct\<close>, \<open>add_typedef\<close>, \<open>add_import\<close> and \<open>add_keyword\<close>.\<close>

definition add_class :: "cref \<Rightarrow> bool file_op" where
  "add_class c =
     sbind (sget (\<lambda>d. (co_name (class_at d c), d))) (\<lambda>(name, d).
       if name = [] then sret False
       else if df_by_name d name \<noteq> None then sret False
       else
         sseq (on_class c (\<lambda>co. co\<lparr>co_id := word_of_nat (length (df_types d))\<rparr>))
          (sseq (supd (\<lambda>d. d\<lparr>df_by_name := (df_by_name d)(name \<mapsto> ClassRef c),
                             df_types := df_types d @ [ClassRef c],
                             df_classes := df_classes d @ [c]\<rparr>))
            (sret True)))"

definition new_struct :: "string \<Rightarrow> nat file_op" where
  "new_struct name = (\<lambda>d. (Inr (length (df_struct_heap d)),
     d\<lparr>df_struct_heap := df_struct_heap d @ [struct_new name]\<rparr>))"

definition struct_at :: "dcfile \<Rightarrow> nat \<Rightarrow> struct_obj" where
  "struct_at d s = df_struct_heap d ! s"

definition file_struct_field :: "nat \<Rightarrow> bool \<Rightarrow> field option \<Rightarrow> bool file_op" where
  "file_struct_field s foreign fo =
     (\<lambda>d. let (ok, tbl, so) = struct_add_field (df_fields d) (struct_at d s) foreign fo
          in (Inr ok, d\<lparr>df_fields := tbl, df_struct_heap := (df_struct_heap d)[s := so]\<rparr>))"

definition add_struct :: "nat \<Rightarrow> bool file_op" where
  "add_struct s =
     sbind (sget (\<lambda>d. (so_name (struct_at d s), d))) (\<lambda>(name, d).
       if name = [] then sret False
       else if df_by_name d name \<noteq> None then sret False
       else
         sseq (supd (\<lambda>d. d\<lparr>df_struct_id := (df_struct_id d)(s \<mapsto> word_of_nat (length (df_types d))),
                           df_by_name := (df_by_name d)(name \<mapsto> StructRef s),
                           df_types := df_types d @ [StructRef s],
                           df_structs := df_structs d @ [s]\<rparr>))
          (sret True))"

text \<open>
  A type that the parser has just built, and \<open>set_alias\<close> on a type: of a class or a struct the alias
  is not kept (see \<open>DClass\<close>).
\<close>

definition new_type :: "dtype \<Rightarrow> type_ref file_op" where
  "new_type t = (\<lambda>d. (Inr (TypeRef (length (df_other d))), d\<lparr>df_other := df_other d @ [t]\<rparr>))"

definition set_ref_alias :: "type_ref \<Rightarrow> string \<Rightarrow> unit file_op" where
  "set_ref_alias t al = supd (\<lambda>d.
     case t of TypeRef i \<Rightarrow> d\<lparr>df_other := (df_other d)[i := set_alias al (df_other d ! i)]\<rparr> | _ \<Rightarrow> d)"

definition add_typedef :: "string \<Rightarrow> type_ref \<Rightarrow> bool file_op" where
  "add_typedef name t =
     (\<lambda>d. if name = [] then (Inr False, d)
          else if df_by_name d name \<noteq> None then (Inr False, d)
          else (Inr True, d\<lparr>df_by_name := (df_by_name d)(name \<mapsto> t)\<rparr>))"

definition add_import :: "dc_import \<Rightarrow> unit file_op" where
  "add_import im = supd (\<lambda>d. d\<lparr>df_imports := df_imports d @ [im]\<rparr>)"

definition file_has_keyword :: "dcfile \<Rightarrow> string \<Rightarrow> bool" where
  "file_has_keyword d kw = list_ex (\<lambda>k. k = kw) (df_keywords d)"

definition file_add_keyword :: "string \<Rightarrow> unit file_op" where
  "file_add_keyword kw =
     supd (\<lambda>d. if file_has_keyword d kw then d else d\<lparr>df_keywords := df_keywords d @ [kw]\<rparr>)"

definition get_type_by_id :: "dcfile \<Rightarrow> u32 \<Rightarrow> type_ref option" where
  "get_type_by_id d i = (if unat i < length (df_types d) then Some (df_types d ! unat i) else None)"

definition get_type_by_name :: "dcfile \<Rightarrow> string \<Rightarrow> type_ref option" where
  "get_type_by_name d name = df_by_name d name"

definition as_class :: "type_ref option \<Rightarrow> cref option" where
  "as_class t = (case t of Some (ClassRef c) \<Rightarrow> Some c | _ \<Rightarrow> None)"

definition get_class_by_id :: "dcfile \<Rightarrow> u32 \<Rightarrow> cref option" where
  "get_class_by_id d i = as_class (get_type_by_id d i)"

definition get_class_by_name :: "dcfile \<Rightarrow> string \<Rightarrow> cref option" where
  "get_class_by_name d name = as_class (get_type_by_name d name)"

definition file_field_by_id :: "dcfile \<Rightarrow> u32 \<Rightarrow> field option" where
  "file_field_by_id d i = (if unat i < length (df_fields d) then Some (df_fields d ! unat i) else None)"

text \<open>The class as the servers see it.\<close>

definition class_view :: "dcfile \<Rightarrow> cref \<Rightarrow> dclass" where
  "class_view d c = (let co = class_at d c in
     \<lparr>cls_id = co_id co, cls_name = co_name co, cls_fields = co_fields co, cls_by_id = co_by_id co\<rparr>)"

section \<open>The declarations of a dclass file\<close>

text \<open>
  The actions of the grammar (\<open>dclass/file/parser.ypp\<close>, compiled into \<open>parser.cpp\<close>) that fill the
  tables, over the tree of one declaration. A field that is not molecular arrives complete, with
  its type, default value and keywords. \<open>ps_errors\<close> counts the calls of \<open>parser_error\<close>.
\<close>

datatype field_decl = PlainField "field option" | MolecularDecl string "string list"

text \<open>
  What a typedef names: a type that has a name already, or one that the parser built for it.
\<close>

datatype typedef_type = NamedType string | BuiltType dtype

datatype decl =
    DeclClass string "string list" "field_decl list"
  | DeclStruct string "field option list"
  | DeclTypedef string typedef_type
  | DeclImport dc_import
  | DeclKeywords "string list"

record parser_state =
  ps_file :: dcfile
  ps_errors :: nat

definition on_file :: "'a file_op \<Rightarrow> (parser_state, 'a) sm" where
  "on_file m = (\<lambda>p. case m (ps_file p) of (r, d) \<Rightarrow> (r, p\<lparr>ps_file := d\<rparr>))"

definition parser_error :: "(parser_state, unit) sm" where
  "parser_error = supd (\<lambda>p. p\<lparr>ps_errors := Suc (ps_errors p)\<rparr>)"

definition checked :: "bool file_op \<Rightarrow> (parser_state, unit) sm" where
  "checked m = sbind (on_file m) (\<lambda>ok. swhen (\<not> ok) parser_error)"

definition defined_class :: "string \<Rightarrow> (parser_state, cref option) sm" where
  "defined_class name =
     sbind (sget (\<lambda>p. get_class_by_name (ps_file p) name)) (\<lambda>cls.
       case cls of None \<Rightarrow> sseq parser_error (sret None) | Some c \<Rightarrow> sret (Some c))"

definition act_parent :: "cref \<Rightarrow> string \<Rightarrow> (parser_state, unit) sm" where
  "act_parent current name =
     sbind (defined_class name) (\<lambda>cls.
       case cls of None \<Rightarrow> sret () | Some parent \<Rightarrow> on_file (add_parent current parent))"

definition defined_field :: "cref \<Rightarrow> string \<Rightarrow> (parser_state, field option) sm" where
  "defined_field current name =
     sbind (sget (\<lambda>p. co_by_name (class_at (ps_file p) current) name)) (\<lambda>f.
       case f of None \<Rightarrow> sseq parser_error (sret None) | Some f \<Rightarrow> sret (Some f))"

fun act_molecular :: "cref \<Rightarrow> molecular_obj \<Rightarrow> string list \<Rightarrow> (parser_state, molecular_obj) sm" where
  "act_molecular current mol [] = sret mol"
| "act_molecular current mol (name # names) =
     sbind (defined_field current name) (\<lambda>fo.
       case fo of
         None \<Rightarrow> act_molecular current mol names
       | Some f \<Rightarrow>
           (case molecular_add_field mol f of (ok, mol') \<Rightarrow>
             sseq (swhen (\<not> ok) parser_error) (act_molecular current mol' names)))"

definition act_class_field :: "cref \<Rightarrow> field_decl \<Rightarrow> (parser_state, unit) sm" where
  "act_class_field current fd =
     (case fd of
        PlainField None \<Rightarrow> sret ()
      | PlainField (Some f) \<Rightarrow>
          if field_name f = [] then parser_error
          else checked (class_add_field current False (Some f))
      | MolecularDecl name names \<Rightarrow>
          sbind (act_molecular current (molecular_new name) names) (\<lambda>mol.
            checked (class_add_field current False (Some (molecular_field 0 mol)))))"

definition act_class :: "string \<Rightarrow> string list \<Rightarrow> field_decl list \<Rightarrow> (parser_state, unit) sm" where
  "act_class name parents fds =
     sbind (on_file (new_class name)) (\<lambda>current.
       sseq (for_each (act_parent current) parents)
        (sseq (for_each (act_class_field current) fds)
          (checked (add_class current))))"

definition act_struct_field :: "nat \<Rightarrow> field option \<Rightarrow> (parser_state, unit) sm" where
  "act_struct_field current fo =
     (case fo of None \<Rightarrow> sret () | Some f \<Rightarrow> checked (file_struct_field current False (Some f)))"

definition act_struct :: "string \<Rightarrow> field option list \<Rightarrow> (parser_state, unit) sm" where
  "act_struct name fos =
     sbind (on_file (new_struct name)) (\<lambda>current.
       sseq (for_each (act_struct_field current) fos) (checked (add_struct current)))"

definition defined_type :: "string \<Rightarrow> (parser_state, type_ref option) sm" where
  "defined_type name =
     sbind (sget (\<lambda>p. get_type_by_name (ps_file p) name)) (\<lambda>t.
       case t of None \<Rightarrow> sseq parser_error (sret None) | Some t \<Rightarrow> sret (Some t))"

definition ref_type :: "dcfile \<Rightarrow> type_ref \<Rightarrow> type_tag" where
  "ref_type d t = (case t of TypeRef i \<Rightarrow> get_type (df_other d ! i) | _ \<Rightarrow> T_STRUCT)"

definition act_typedef_type :: "typedef_type \<Rightarrow> (parser_state, type_ref option) sm" where
  "act_typedef_type tt =
     (case tt of
        NamedType name \<Rightarrow>
          sbind (defined_type name) (\<lambda>to.
            case to of
              None \<Rightarrow> sret None
            | Some t \<Rightarrow>
                sbind (sget (\<lambda>p. ref_type (ps_file p) t)) (\<lambda>tag.
                  if tag = T_METHOD then sseq parser_error (sret None) else sret (Some t)))
      | BuiltType t \<Rightarrow> sbind (on_file (new_type t)) (\<lambda>r. sret (Some r)))"

definition act_typedef :: "string \<Rightarrow> typedef_type \<Rightarrow> (parser_state, unit) sm" where
  "act_typedef name tt =
     sbind (act_typedef_type tt) (\<lambda>to.
       case to of
         None \<Rightarrow> sret ()
       | Some t \<Rightarrow> sseq (on_file (set_ref_alias t name)) (checked (add_typedef name t)))"

definition run_decl :: "decl \<Rightarrow> (parser_state, unit) sm" where
  "run_decl d =
     (case d of
        DeclClass name parents fds \<Rightarrow> act_class name parents fds
      | DeclStruct name fos \<Rightarrow> act_struct name fos
      | DeclTypedef name tt \<Rightarrow> act_typedef name tt
      | DeclImport im \<Rightarrow> on_file (add_import im)
      | DeclKeywords kws \<Rightarrow> for_each (\<lambda>kw. on_file (file_add_keyword kw)) kws)"

text \<open>\<open>append\<close> and \<open>read\<close> of \<open>dclass/file/read.cpp\<close>, from the declarations on.\<close>

definition append_file :: "decl list \<Rightarrow> (dcfile, bool) sm" where
  "append_file ds =
     (\<lambda>f. case for_each run_decl ds \<lparr>ps_file = f, ps_errors = 0\<rparr> of
            (Inl e, p) \<Rightarrow> (Inl e, ps_file p)
          | (Inr _, p) \<Rightarrow> (Inr (ps_errors p = 0), ps_file p))"

definition read_file :: "decl list \<Rightarrow> dcfile option res" where
  "read_file ds =
     (case append_file ds dcfile_new of
        (Inl e, _) \<Rightarrow> Inl e
      | (Inr ok, f) \<Rightarrow> Inr (if ok then Some f else None))"

end
