(* ===== verification/DClass_Tables.thy ===== *)
theory DClass_Tables
  imports DClass_File
begin

text \<open>
  The tables of the classes of a dclass file: what adding an inherited or an own field does to a
  class without children, which is the only kind the parser extends, and the invariant of the
  tables over every sequence of declarations.
\<close>

section \<open>One class\<close>

text \<open>
  A class is consistent with the field table of its file when its two lookups agree, its fields
  are numbered upwards and can all be looked up, and its own fields are among them.
\<close>

definition co_ok :: "field list \<Rightarrow> class_obj \<Rightarrow> bool" where
  "co_ok tbl co \<longleftrightarrow>
     (\<forall>n f. co_by_name co n = Some f \<longrightarrow> field_name f = n \<and> co_by_id co (field_id f) = Some f)
   \<and> (\<forall>i f. co_by_id co i = Some f \<longrightarrow> field_id f = i \<and> unat i < length tbl \<and> tbl ! unat i = f)
   \<and> (\<forall>f \<in> set (co_fields co). co_by_id co (field_id f) = Some f)
   \<and> sorted_wrt (\<lambda>f g. field_id f < field_id g) (co_fields co)
   \<and> (\<forall>n f. co_base_by_name co n = Some f \<longleftrightarrow> f \<in> set (co_base_fields co) \<and> field_name f = n)
   \<and> (\<forall>f \<in> set (co_base_fields co). co_by_name co (field_name f) = Some f \<and> f \<in> set (co_fields co))"

text \<open>While a class only inherits, its two lookups hold the same fields.\<close>

definition co_paired :: "class_obj \<Rightarrow> bool" where
  "co_paired co \<longleftrightarrow> (\<forall>i f. co_by_id co i = Some f \<longrightarrow> co_by_name co (field_name f) = Some f)"

lemma co_okD:
  assumes "co_ok tbl co"
  shows "co_by_name co n = Some f \<Longrightarrow> field_name f = n" "co_by_name co n = Some f \<Longrightarrow> co_by_id co (field_id f) = Some f"
    "co_by_id co i = Some f \<Longrightarrow> field_id f = i" "co_by_id co i = Some f \<Longrightarrow> unat i < length tbl \<and> tbl ! unat i = f"
    "f \<in> set (co_fields co) \<Longrightarrow> co_by_id co (field_id f) = Some f"
    "sorted_wrt (\<lambda>f g. field_id f < field_id g) (co_fields co)"
    "co_base_by_name co n = Some f \<longleftrightarrow> f \<in> set (co_base_fields co) \<and> field_name f = n"
    "f \<in> set (co_base_fields co) \<Longrightarrow> co_by_name co (field_name f) = Some f"
    "f \<in> set (co_base_fields co) \<Longrightarrow> f \<in> set (co_fields co)"
  using assms by (auto simp: co_ok_def)

lemma co_okI:
  assumes "\<And>n f. co_by_name co n = Some f \<Longrightarrow> field_name f = n \<and> co_by_id co (field_id f) = Some f"
    and "\<And>i f. co_by_id co i = Some f \<Longrightarrow> field_id f = i \<and> unat i < length tbl \<and> tbl ! unat i = f"
    and "\<And>f. f \<in> set (co_fields co) \<Longrightarrow> co_by_id co (field_id f) = Some f"
    and "sorted_wrt (\<lambda>f g. field_id f < field_id g) (co_fields co)"
    and "\<And>n f. co_base_by_name co n = Some f \<longleftrightarrow> f \<in> set (co_base_fields co) \<and> field_name f = n"
    and "\<And>f. f \<in> set (co_base_fields co) \<Longrightarrow> co_by_name co (field_name f) = Some f \<and> f \<in> set (co_fields co)"
  shows "co_ok tbl co"
  using assms unfolding co_ok_def by blast

lemma co_ok_new [simp]: "co_ok tbl (class_obj_new name)"
  by (simp add: co_ok_def class_obj_new_def)

lemma co_paired_new [simp]: "co_paired (class_obj_new name)"
  by (simp add: co_paired_def class_obj_new_def)

lemma co_ok_table: "co_ok tbl co \<Longrightarrow> co_ok (tbl @ fs) co"
  unfolding co_ok_def by (auto simp: nth_append trans_less_add1)

lemma co_ok_links [simp]:
  "co_ok tbl (co\<lparr>co_children := cs\<rparr>) = co_ok tbl co" "co_ok tbl (co\<lparr>co_parents := ps\<rparr>) = co_ok tbl co"
  "co_ok tbl (co\<lparr>co_id := i\<rparr>) = co_ok tbl co" "co_ok tbl (class_grow f co) = co_ok tbl co"
  "co_ok tbl (co\<lparr>co_constructor := k\<rparr>) = co_ok tbl co" "co_ok tbl (co\<lparr>co_size := sz\<rparr>) = co_ok tbl co"
  "co_paired (co\<lparr>co_children := cs\<rparr>) = co_paired co" "co_paired (co\<lparr>co_parents := ps\<rparr>) = co_paired co"
  "co_paired (class_grow f co) = co_paired co"
  by (simp_all add: co_ok_def co_paired_def class_grow_def)

section \<open>The list of fields\<close>

lemma sorted_ids_distinct:
  "sorted_wrt (\<lambda>f g. field_id f < field_id g) fs \<Longrightarrow> distinct (map field_id fs)"
  by (induction fs) (auto simp: less_le)

lemma erase_first:
  assumes "distinct (map field_id fs)"
  shows "(let before = takeWhile (\<lambda>g. field_id g \<noteq> i) fs in before @ drop (Suc (length before)) fs)
    = filter (\<lambda>g. field_id g \<noteq> i) fs"
  using assms
proof (induction fs)
  case (Cons g fs)
  show ?case
  proof (cases "field_id g = i")
    case True
    have "field_id x \<noteq> i" if "x \<in> set fs" for x
      using Cons.prems True imageI [OF that, of field_id] by auto
    then have "filter (\<lambda>g. field_id g \<noteq> i) fs = fs" by (simp add: filter_True)
    with True show ?thesis by simp
  next
    case False
    with Cons show ?thesis by (simp add: Let_def)
  qed
qed simp

lemma insert_field_split:
  obtains before after where "fs = before @ after"
    "insert_field f fs = (if fs = [] then [f] else if before = [] then fs else before @ f # after)"
    "before \<noteq> [] \<Longrightarrow> field_id (last before) < field_id f"
    "\<And>g. g \<in> set after \<Longrightarrow> \<not> field_id g < field_id f"
proof
  let ?P = "\<lambda>g. \<not> field_id g < field_id f"
  let ?after = "rev (takeWhile ?P (rev fs))" and ?before = "rev (dropWhile ?P (rev fs))"
  show "fs = ?before @ ?after" by (metis rev_append rev_rev_ident takeWhile_dropWhile_id)
  show "insert_field f fs = (if fs = [] then [f] else if ?before = [] then fs else ?before @ f # ?after)"
    by (simp add: insert_field_def Let_def)
  show "field_id (last ?before) < field_id f" if "?before \<noteq> []"
    using hd_dropWhile [of ?P "rev fs"] that by (simp add: last_rev)
  show "\<not> field_id g < field_id f" if "g \<in> set ?after" for g
    using that by (auto dest: set_takeWhileD)
qed

lemma sorted_insert_field:
  assumes sorted: "sorted_wrt (\<lambda>f g. field_id f < field_id g) fs" and new: "field_id f \<notin> field_id ` set fs"
  shows "sorted_wrt (\<lambda>f g. field_id f < field_id g) (insert_field f fs)"
    "set (insert_field f fs) \<subseteq> insert f (set fs)" "set fs \<subseteq> set (insert_field f fs)"
proof -
  obtain before after where fs: "fs = before @ after"
    and ins: "insert_field f fs = (if fs = [] then [f] else if before = [] then fs else before @ f # after)"
    and last: "before \<noteq> [] \<Longrightarrow> field_id (last before) < field_id f"
    and after: "\<And>g. g \<in> set after \<Longrightarrow> \<not> field_id g < field_id f"
    using insert_field_split [of fs f] by blast
  have larger: "field_id f < field_id y" if "y \<in> set after" for y
    using after [OF that] that new fs by (force simp: not_less order.order_iff_strict)
  have smaller: "field_id x < field_id f" if "x \<in> set before" for x
  proof (cases "x = last before")
    case True
    with that last show ?thesis by force
  next
    case False
    from that have "before \<noteq> []" by auto
    then have b: "before = butlast before @ [last before]" by simp
    with False that have "x \<in> set (butlast before)" by (metis UnE append_Nil2 empty_iff empty_set set_ConsD set_append)
    moreover have "sorted_wrt (\<lambda>f g. field_id f < field_id g) (butlast before @ [last before])"
      using sorted fs b by (simp add: sorted_wrt_append)
    ultimately have "field_id x < field_id (last before)" by (simp add: sorted_wrt_append)
    with last \<open>before \<noteq> []\<close> show ?thesis by (metis less_trans)
  qed
  show "sorted_wrt (\<lambda>f g. field_id f < field_id g) (insert_field f fs)"
    unfolding ins using sorted larger smaller by (auto simp: fs sorted_wrt_append)
  show "set (insert_field f fs) \<subseteq> insert f (set fs)" "set fs \<subseteq> set (insert_field f fs)"
    unfolding ins by (auto simp: fs)
qed

lemma insert_field_last:
  "(\<And>g. g \<in> set fs \<Longrightarrow> field_id g < field_id f) \<Longrightarrow> insert_field f fs = fs @ [f]"
  by (cases fs rule: rev_cases) (auto simp: insert_field_def Let_def)

lemma insert_field_smallest:
  assumes "fs \<noteq> []" "\<And>g. g \<in> set fs \<Longrightarrow> \<not> field_id g < field_id f"
  shows "insert_field f fs = fs"
proof -
  have "dropWhile (\<lambda>g. \<not> field_id g < field_id f) (rev fs) = []" using assms(2) by simp
  with assms(1) show ?thesis by (simp add: insert_field_def Let_def)
qed

section \<open>Shadowing, inheriting and declaring a field\<close>

lemma drop_field_simps [simp]:
  "co_by_id (drop_field f co) = (co_by_id co)(field_id f := None)"
  "co_by_name (drop_field f co) = (co_by_name co)(field_name f := None)"
  "co_base_fields (drop_field f co) = co_base_fields co" "co_base_by_name (drop_field f co) = co_base_by_name co"
  "co_parents (drop_field f co) = co_parents co" "co_children (drop_field f co) = co_children co"
  "co_name (drop_field f co) = co_name co" "co_constructor (drop_field f co) = co_constructor co"
  "co_id (drop_field f co) = co_id co"
  by (simp_all add: drop_field_def)

lemma drop_field_fields:
  "co_ok tbl co \<Longrightarrow> co_fields (drop_field f co) = filter (\<lambda>g. field_id g \<noteq> field_id f) (co_fields co)"
  by (simp add: drop_field_def erase_first sorted_ids_distinct co_okD(6))

lemma drop_field_ok:
  assumes ok: "co_ok tbl co" and prev: "co_by_name co n = Some prev" "co_base_by_name co n = None"
  shows "co_ok tbl (drop_field prev co)"
proof -
  note D = co_okD [OF ok]
  have n: "field_name prev = n" and own: "co_by_id co (field_id prev) = Some prev" using D prev(1) by blast+
  have same: "g = prev" if "co_by_id co (field_id g) = Some g" "field_id g = field_id prev" for g
    using that own by simp
  have base: "field_id f \<noteq> field_id prev" "field_name f \<noteq> n" if "f \<in> set (co_base_fields co)" for f
    using D(5) [OF D(9) [OF that]] same [of f] n D(7) [of n f] that prev(2) by auto
  show ?thesis
  proof (rule co_okI)
    show "field_name f = m \<and> co_by_id (drop_field prev co) (field_id f) = Some f"
      if "co_by_name (drop_field prev co) m = Some f" for m f
    proof -
      from that n have m: "m \<noteq> n" "co_by_name co m = Some f" by (auto split: if_splits)
      with D(1,2) have "field_name f = m" "co_by_id co (field_id f) = Some f" by blast+
      with m(1) n same [of f] show ?thesis by auto
    qed
    show "sorted_wrt (\<lambda>f g. field_id f < field_id g) (co_fields (drop_field prev co))"
      using D(6) by (simp add: drop_field_fields [OF ok] sorted_wrt_filter)
    show "(co_base_by_name (drop_field prev co) m = Some f) = (f \<in> set (co_base_fields (drop_field prev co)) \<and> field_name f = m)" for m f
      using D(7) by simp
    show "co_by_name (drop_field prev co) (field_name f) = Some f \<and> f \<in> set (co_fields (drop_field prev co))"
      if "f \<in> set (co_base_fields (drop_field prev co))" for f
      using that base [of f] D(8,9) n by (simp add: drop_field_fields [OF ok])
  qed (use D(3,4,5) in \<open>auto simp: drop_field_fields [OF ok] split: if_splits\<close>)
qed

lemma drop_field_paired:
  assumes ok: "co_ok tbl co" and paired: "co_paired co" and prev: "co_by_name co n = Some prev"
  shows "co_paired (drop_field prev co)"
proof -
  have "field_name g \<noteq> field_name prev" if "co_by_id co i = Some g" "i \<noteq> field_id prev" for i g
  proof
    assume "field_name g = field_name prev"
    moreover have "co_by_name co (field_name g) = Some g" using paired that(1) by (simp add: co_paired_def)
    ultimately have "g = prev" using prev co_okD(1) [OF ok prev] by simp
    with that co_okD(3) [OF ok that(1)] show False by simp
  qed
  with paired show ?thesis by (auto simp: co_paired_def split: if_splits)
qed

text \<open>
  What handing down one field does to a class without children whose parents are different: the
  own field or the first parent that declares a field of that name keeps it, otherwise the new
  field replaces it.
\<close>

definition inherit_enter :: "field \<Rightarrow> class_obj \<Rightarrow> class_obj" where
  "inherit_enter f co = class_grow f (class_enter f co\<lparr>co_fields := insert_field f (co_fields co)\<rparr>)"

definition inherit_field :: "(u32 \<rightharpoonup> cref) \<Rightarrow> field \<Rightarrow> class_obj \<Rightarrow> class_obj" where
  "inherit_field owner f co =
     (if co_base_by_name co (field_name f) \<noteq> None then co
      else case co_by_name co (field_name f) of
        None \<Rightarrow> inherit_enter f co
      | Some prev \<Rightarrow>
          if owner (field_id prev) \<in> Some ` set (co_parents co) then co
          else inherit_enter f (drop_field prev co))"

lemma inherit_enter_simps [simp]:
  "co_by_id (inherit_enter f co) = (co_by_id co)(field_id f \<mapsto> f)"
  "co_by_name (inherit_enter f co) = (co_by_name co)(field_name f \<mapsto> f)"
  "co_fields (inherit_enter f co) = insert_field f (co_fields co)"
  "co_base_fields (inherit_enter f co) = co_base_fields co" "co_base_by_name (inherit_enter f co) = co_base_by_name co"
  "co_parents (inherit_enter f co) = co_parents co" "co_children (inherit_enter f co) = co_children co"
  "co_name (inherit_enter f co) = co_name co" "co_constructor (inherit_enter f co) = co_constructor co"
  "co_id (inherit_enter f co) = co_id co"
  by (simp_all add: inherit_enter_def class_grow_def class_enter_def)

lemma inherit_enter_ok:
  assumes ok: "co_ok tbl co" and paired: "co_paired co" and base: "co_base_fields co = []"
    and f: "unat (field_id f) < length tbl" "tbl ! unat (field_id f) = f"
    and free: "co_by_name co (field_name f) = None"
  shows "co_ok tbl (inherit_enter f co)" "co_paired (inherit_enter f co)"
proof -
  note D = co_okD [OF ok]
  have new: "co_by_id co (field_id f) = None"
  proof (rule ccontr)
    assume "co_by_id co (field_id f) \<noteq> None"
    then obtain g where g: "co_by_id co (field_id f) = Some g" by auto
    with D(4) f have "g = f" by auto
    with g paired free show False by (simp add: co_paired_def)
  qed
  then have "field_id f \<notin> field_id ` set (co_fields co)" using D(5) by fastforce
  note ins = sorted_insert_field [OF D(6) this]
  show "co_ok tbl (inherit_enter f co)"
  proof (rule co_okI)
    show "field_name g = n \<and> co_by_id (inherit_enter f co) (field_id g) = Some g"
      if "co_by_name (inherit_enter f co) n = Some g" for n g
      using that D(1) D(2) [of n g] new by (auto split: if_splits)
    show "co_by_id (inherit_enter f co) (field_id g) = Some g" if "g \<in> set (co_fields (inherit_enter f co))" for g
      using that ins(2) D(5) [of g] new by auto
    show "(co_base_by_name (inherit_enter f co) n = Some g) = (g \<in> set (co_base_fields (inherit_enter f co)) \<and> field_name g = n)" for n g
      using D(7) by simp
  qed (use D(3,4) f base ins(1) in \<open>auto split: if_splits\<close>)
  show "co_paired (inherit_enter f co)"
    unfolding co_paired_def
  proof (intro allI impI)
    fix i g assume g: "co_by_id (inherit_enter f co) i = Some g"
    show "co_by_name (inherit_enter f co) (field_name g) = Some g"
    proof (cases "i = field_id f")
      case False
      with g have "co_by_id co i = Some g" by simp
      with paired have "co_by_name co (field_name g) = Some g" by (simp add: co_paired_def)
      with free show ?thesis by auto
    qed (use g in simp)
  qed
qed

lemma inherit_field_ok:
  assumes ok: "co_ok tbl co" and paired: "co_paired co" and base: "co_base_fields co = []"
    and f: "unat (field_id f) < length tbl" "tbl ! unat (field_id f) = f"
  shows "co_ok tbl (inherit_field owner f co) \<and> co_paired (inherit_field owner f co)
    \<and> co_base_fields (inherit_field owner f co) = [] \<and> co_parents (inherit_field owner f co) = co_parents co"
proof (cases "co_by_name co (field_name f)")
  case None
  with inherit_enter_ok [OF ok paired base f] ok paired base show ?thesis by (simp add: inherit_field_def)
next
  case (Some prev)
  have none: "co_base_by_name co n = None" for n
    using co_okD(7) [OF ok, of n] base by (cases "co_base_by_name co n") auto
  have name: "field_name prev = field_name f" using co_okD(1) [OF ok Some] .
  from inherit_enter_ok [OF drop_field_ok [OF ok Some none] drop_field_paired [OF ok paired Some] _ f] base name
  show ?thesis using ok paired base Some by (simp add: inherit_field_def)
qed

text \<open>What declaring a field does.\<close>

definition declare_enter :: "field \<Rightarrow> class_obj \<Rightarrow> class_obj" where
  "declare_enter f co =
     (let co' = class_enter f co\<lparr>co_base_by_name := (co_base_by_name co)(field_name f \<mapsto> f),
                                co_base_fields := co_base_fields co @ [f],
                                co_fields := co_fields co @ [f]\<rparr>
      in if field_molecular f then co' else class_grow f co')"

lemma declare_enter_simps [simp]:
  "co_by_id (declare_enter f co) = (co_by_id co)(field_id f \<mapsto> f)"
  "co_by_name (declare_enter f co) = (co_by_name co)(field_name f \<mapsto> f)"
  "co_fields (declare_enter f co) = co_fields co @ [f]"
  "co_base_fields (declare_enter f co) = co_base_fields co @ [f]"
  "co_base_by_name (declare_enter f co) = (co_base_by_name co)(field_name f \<mapsto> f)"
  "co_parents (declare_enter f co) = co_parents co" "co_children (declare_enter f co) = co_children co"
  "co_name (declare_enter f co) = co_name co" "co_constructor (declare_enter f co) = co_constructor co"
  "co_id (declare_enter f co) = co_id co"
  by (simp_all add: declare_enter_def class_grow_def class_enter_def Let_def)

lemma fresh_id:
  assumes ok: "co_ok tbl co" and len: "length tbl < 2 ^ 32" and i: "i = word_of_nat (length tbl)"
  shows "co_by_id co i = None" "\<And>g. g \<in> set (co_fields co) \<Longrightarrow> field_id g < i"
proof -
  have u: "unat i = length tbl" using len unfolding i by (simp add: unsigned_of_nat take_bit_nat_eq_self)
  show "co_by_id co i = None" using co_okD(4) [OF ok, of i] u by (cases "co_by_id co i") auto
  show "field_id g < i" if "g \<in> set (co_fields co)" for g
    using co_okD(4) [OF ok co_okD(5) [OF ok that]] u by (simp add: word_less_nat_alt)
qed

lemma declare_enter_ok:
  assumes ok: "co_ok tbl co" and len: "length tbl < 2 ^ 32" and i: "field_id f = word_of_nat (length tbl)"
    and base: "co_base_by_name co (field_name f) = None" and free: "co_by_name co (field_name f) = None"
  shows "co_ok (tbl @ [f]) (declare_enter f co)"
proof -
  note D = co_okD [OF co_ok_table [OF ok, of "[f]"]] and new = fresh_id [OF ok len i]
  have u: "unat (field_id f) = length tbl" using len unfolding i by (simp add: unsigned_of_nat take_bit_nat_eq_self)
  have names: "field_name g \<noteq> field_name f" if "g \<in> set (co_base_fields co)" for g
    using D(7) [of "field_name g" g] that base by auto
  show ?thesis
  proof (rule co_okI)
    show "field_name g = n \<and> co_by_id (declare_enter f co) (field_id g) = Some g"
      if "co_by_name (declare_enter f co) n = Some g" for n g
      using that D(1) D(2) [of n g] new(1) by (auto split: if_splits)
    show "field_id g = j \<and> unat j < length (tbl @ [f]) \<and> (tbl @ [f]) ! unat j = g"
      if "co_by_id (declare_enter f co) j = Some g" for j g
      using that D(3,4) u by (auto split: if_splits)
    show "co_by_id (declare_enter f co) (field_id g) = Some g" if "g \<in> set (co_fields (declare_enter f co))" for g
      using that D(5) [of g] new(1) by auto
    show "sorted_wrt (\<lambda>f g. field_id f < field_id g) (co_fields (declare_enter f co))"
      using D(6) new(2) by (simp add: sorted_wrt_append)
    show "(co_base_by_name (declare_enter f co) n = Some g) = (g \<in> set (co_base_fields (declare_enter f co)) \<and> field_name g = n)" for n g
      using D(7) [of n g] names by auto
    show "co_by_name (declare_enter f co) (field_name g) = Some g \<and> g \<in> set (co_fields (declare_enter f co))"
      if "g \<in> set (co_base_fields (declare_enter f co))" for g
      using that D(8,9) names by auto
  qed
qed

end
