(* ===== verification/DClass_Read.thy ===== *)
theory DClass_Read
  imports DClass_Tables
begin

text \<open>
  Reading a dclass file: what the operations of the file do to the class under construction, and
  the invariant of all tables over every sequence of declarations.
\<close>

section \<open>Operations on a class without children\<close>

definition put_class :: "dcfile \<Rightarrow> cref \<Rightarrow> class_obj \<Rightarrow> dcfile" where
  "put_class d c co = d\<lparr>df_heap := (df_heap d)[c := co]\<rparr>"

lemma on_class_apply [simp]: "on_class c f d = (Inr (), put_class d c (f (class_at d c)))"
  by (simp add: on_class_def put_class_def class_at_def)

lemma put_class_simps [simp]:
  "length (df_heap (put_class d c co)) = length (df_heap d)" "df_fields (put_class d c co) = df_fields d"
  "df_owner (put_class d c co) = df_owner d" "df_by_name (put_class d c co) = df_by_name d"
  "df_types (put_class d c co) = df_types d" "df_struct_heap (put_class d c co) = df_struct_heap d"
  "df_struct_id (put_class d c co) = df_struct_id d"
  "df_classes (put_class d c co) = df_classes d"
  "put_class (put_class d c co) c co' = put_class d c co'"
  "df_other (put_class d c co) = df_other d"
  by (simp_all add: put_class_def)

lemma class_at_put [simp]:
  "c < length (df_heap d) \<Longrightarrow> class_at (put_class d c co) c = co"
  "a \<noteq> c \<Longrightarrow> class_at (put_class d c co) a = class_at d a"
  by (simp_all add: put_class_def class_at_def)

lemma put_class_same [simp]: "put_class d c (class_at d c) = d"
  by (simp add: put_class_def class_at_def)

lemma class_at_updates [simp]:
  "class_at (d\<lparr>df_fields := a\<rparr>) c = class_at d c" "class_at (d\<lparr>df_owner := b\<rparr>) c = class_at d c"
  "class_at (d\<lparr>df_by_name := x1\<rparr>) c = class_at d c" "class_at (d\<lparr>df_types := x2\<rparr>) c = class_at d c"
  "class_at (d\<lparr>df_classes := x3\<rparr>) c = class_at d c" "class_at (d\<lparr>df_structs := x4\<rparr>) c = class_at d c"
  "class_at (d\<lparr>df_struct_heap := x5\<rparr>) c = class_at d c" "class_at (d\<lparr>df_struct_id := x6\<rparr>) c = class_at d c"
  "class_at (d\<lparr>df_imports := x7\<rparr>) c = class_at d c" "class_at (d\<lparr>df_keywords := x8\<rparr>) c = class_at d c"
  by (simp_all add: class_at_def)

lemma shadow_field_run:
  assumes "co_children (class_at d c) = []" "c < length (df_heap d)"
  shows "shadow_field (Suc n) c f d = (Inr (), put_class d c (drop_field f (class_at d c)))"
  using assms by (simp add: sseq_apply)

lemma resolve_conflict_run:
  assumes c: "co_children (class_at d c) = []" "c < length (df_heap d)"
    and ps: "distinct ps" "ps \<noteq> []" "last ps = parent"
  shows "resolve_conflict (Suc n) c parent owner prev True ps d =
    (if owner \<in> Some ` set ps then (Inr False, d)
     else (Inr True, put_class d c (drop_field prev (class_at d c))))"
  using ps
proof (induction ps)
  case (Cons p ps)
  show ?case
  proof (cases "ps = []")
    case True
    with Cons.prems show ?thesis by (simp add: sseq_apply shadow_field_run [OF c] del: shadow_field.simps)
  next
    case False
    with Cons.prems have "p \<noteq> parent" by auto
    with Cons False show ?thesis by auto
  qed
qed simp

lemma add_inherited_field_run:
  assumes c: "co_children (class_at d c) = []" "c < length (df_heap d)"
    and ps: "distinct (co_parents (class_at d c))" "co_parents (class_at d c) \<noteq> []"
      "last (co_parents (class_at d c)) = parent"
  shows "add_inherited_field (Suc n) c parent f d
    = (Inr (), put_class d c (inherit_field (df_owner d) f (class_at d c)))"
proof (cases "co_base_by_name (class_at d c) (field_name f)")
  case (Some g)
  then show ?thesis by (simp add: inherit_field_def)
next
  case base: None
  show ?thesis
  proof (cases "co_by_name (class_at d c) (field_name f)")
    case None
    with base c show ?thesis
      by (simp add: inherit_field_def sbind_apply sseq_apply inherit_enter_def class_grow_def class_enter_def)
  next
    case (Some prev)
    with base c show ?thesis
      by (simp add: inherit_field_def sbind_apply sseq_apply resolve_conflict_run [OF c ps] inherit_enter_def
        class_grow_def class_enter_def del: resolve_conflict.simps)
  qed
qed

lemma inherit_field_links [simp]:
  "co_children (inherit_field owner f co) = co_children co" "co_parents (inherit_field owner f co) = co_parents co"
  "co_name (inherit_field owner f co) = co_name co" "co_id (inherit_field owner f co) = co_id co"
  "co_constructor (inherit_field owner f co) = co_constructor co"
  "co_base_fields (inherit_field owner f co) = co_base_fields co"
  by (simp_all add: inherit_field_def split: option.splits)

lemma inherit_fold_links [simp]:
  "co_children (fold (inherit_field owner) fs co) = co_children co"
  "co_parents (fold (inherit_field owner) fs co) = co_parents co"
  "co_name (fold (inherit_field owner) fs co) = co_name co" "co_id (fold (inherit_field owner) fs co) = co_id co"
  "co_constructor (fold (inherit_field owner) fs co) = co_constructor co"
  "co_base_fields (fold (inherit_field owner) fs co) = co_base_fields co"
  by (induction fs arbitrary: co) simp_all

lemma add_inherited_fields_run:
  assumes "co_children (class_at d c) = []" "c < length (df_heap d)"
    "distinct (co_parents (class_at d c))" "co_parents (class_at d c) \<noteq> []"
      "last (co_parents (class_at d c)) = parent"
  shows "for_each (add_inherited_field (Suc n) c parent) fs d
    = (Inr (), put_class d c (fold (inherit_field (df_owner d)) fs (class_at d c)))"
  using assms
proof (induction fs arbitrary: d)
  case (Cons f fs)
  then show ?case
    by (simp add: sseq_apply add_inherited_field_run [OF Cons.prems] del: add_inherited_field.simps)
qed simp

lemma add_parent_run:
  assumes c: "co_children (class_at d c) = []" "c < length (df_heap d)" "parent < length (df_heap d)" "c \<noteq> parent"
    and ps: "distinct (co_parents (class_at d c) @ [parent])"
  defines "p \<equiv> class_at d parent" and "co \<equiv> class_at d c"
  shows "add_parent c parent d = (Inr (), put_class (put_class d parent (p\<lparr>co_children := co_children p @ [c]\<rparr>)) c
    (fold (inherit_field (df_owner d)) (co_fields p) (co\<lparr>co_parents := co_parents co @ [parent]\<rparr>)))"
proof -
  let ?d = "put_class (put_class d parent (p\<lparr>co_children := co_children p @ [c]\<rparr>)) c (co\<lparr>co_parents := co_parents co @ [parent]\<rparr>)"
  have "for_each (add_inherited_field (Suc (length (df_heap ?d))) c parent) (co_fields p) ?d
    = (Inr (), put_class ?d c (fold (inherit_field (df_owner ?d)) (co_fields p) (class_at ?d c)))"
    by (rule add_inherited_fields_run) (use assms in simp_all)
  with c show ?thesis
    by (simp add: add_parent_def sseq_apply fuel_of_def p_def co_def del: add_inherited_field.simps)
qed

definition numbered :: "field list \<Rightarrow> field \<Rightarrow> field" where
  "numbered tbl f = snd (file_add_field tbl f)"

lemma numbered_simps [simp]:
  "file_add_field tbl f = (tbl @ [numbered tbl f], numbered tbl f)"
  "field_id (numbered tbl f) = word_of_nat (length tbl)" "field_name (numbered tbl f) = field_name f"
  "field_molecular (numbered tbl f) = field_molecular f" "field_type (numbered tbl f) = field_type f"
  "field_keywords (numbered tbl f) = field_keywords f" "field_default (numbered tbl f) = field_default f"
  by (cases f; simp add: numbered_def file_add_field_def Let_def)+

text \<open>The file after class \<open>c\<close> got a field number for \<open>f\<close>.\<close>

definition with_field :: "dcfile \<Rightarrow> cref \<Rightarrow> field \<Rightarrow> dcfile" where
  "with_field d c f = (let f' = numbered (df_fields d) f in
     d\<lparr>df_fields := df_fields d @ [f'], df_owner := (df_owner d)(field_id f' \<mapsto> c)\<rparr>)"

lemma with_field_simps [simp]:
  "df_heap (with_field d c f) = df_heap d" "df_fields (with_field d c f) = df_fields d @ [numbered (df_fields d) f]"
  "df_owner (with_field d c f) = (df_owner d)(word_of_nat (length (df_fields d)) \<mapsto> c)"
  "df_by_name (with_field d c f) = df_by_name d" "df_types (with_field d c f) = df_types d"
  "class_at (with_field d c f) a = class_at d a"
  by (simp_all add: with_field_def Let_def class_at_def)

lemma number_field_apply [simp]: "number_field c f d = (Inr (numbered (df_fields d) f), with_field d c f)"
  by (simp add: number_field_def with_field_def Let_def)

lemma constructor_run:
  "class_add_constructor c f d =
    (let co = class_at d c; f' = numbered (df_fields d) f in
     if co_constructor co \<noteq> None \<or> field_molecular f \<or> co_base_fields co \<noteq> [] then (Inr False, d)
     else (Inr True, put_class (with_field d c f) c (class_enter f' co\<lparr>co_constructor := Some f'\<rparr>)))"
  by (simp add: class_add_constructor_def sbind_apply sseq_apply class_enter_def Let_def)

definition unshadowed :: "string \<Rightarrow> class_obj \<Rightarrow> class_obj" where
  "unshadowed n co = (case co_by_name co n of None \<Rightarrow> co | Some prev \<Rightarrow> drop_field prev co)"

lemma unshadowed_simps [simp]:
  "co_children (unshadowed n co) = co_children co" "co_parents (unshadowed n co) = co_parents co"
  "co_base_fields (unshadowed n co) = co_base_fields co" "co_base_by_name (unshadowed n co) = co_base_by_name co"
  "co_constructor (unshadowed n co) = co_constructor co" "co_name (unshadowed n co) = co_name co"
  "co_id (unshadowed n co) = co_id co"
  by (simp_all add: unshadowed_def split: option.splits)

lemma class_add_field_run:
  assumes c: "co_children (class_at d c) = []" "c < length (df_heap d)"
    and f: "field_name f \<noteq> []" "field_name f \<noteq> co_name (class_at d c)"
  shows "class_add_field c False (Some f) d =
    (if co_base_by_name (class_at d c) (field_name f) \<noteq> None then (Inr False, d)
     else (Inr True, put_class (with_field d c f) c
       (declare_enter (numbered (df_fields d) f) (unshadowed (field_name f) (class_at d c)))))"
proof (cases "co_base_by_name (class_at d c) (field_name f)")
  case None
  show ?thesis
  proof (cases "co_by_name (class_at d c) (field_name f)")
    case no_prev: None
    with None c f show ?thesis
      by (simp add: class_add_field_def sbind_apply sseq_apply unshadowed_def declare_enter_def Let_def
        class_grow_def class_enter_def)
  next
    case (Some prev)
    let ?d = "put_class d c (drop_field prev (class_at d c))"
    from Some None c f have "class_add_field c False (Some f) d =
      (Inr True, put_class (with_field ?d c f) c (declare_enter (numbered (df_fields d) f) (drop_field prev (class_at d c))))"
      by (simp add: class_add_field_def sbind_apply sseq_apply fuel_of_def shadow_field_run [OF c] declare_enter_def
          Let_def class_grow_def class_enter_def del: shadow_field.simps)
    moreover have "put_class (with_field ?d c f) c co = put_class (with_field d c f) c co" for co
      by (simp add: with_field_def put_class_def Let_def)
    ultimately show ?thesis using None Some by (simp add: unshadowed_def)
  qed
qed (use f in \<open>simp add: class_add_field_def\<close>)

section \<open>The invariant of the file\<close>

text \<open>
  \<open>links_ok\<close>: a name that leads to a class is that of the class or an alias of it, types are
  numbered, and parents and children agree. \<open>fields_ok\<close>: the field table is numbered and every class is consistent with it,
  as long as the numbers are not used up.
\<close>

definition links_ok :: "dcfile \<Rightarrow> bool" where
  "links_ok d \<longleftrightarrow>
     (\<forall>n c. df_by_name d n = Some (ClassRef c) \<longrightarrow> c < length (df_heap d)
        \<and> df_by_name d (co_name (class_at d c)) = Some (ClassRef c))
   \<and> (\<forall>c < length (df_heap d). distinct (co_parents (class_at d c)) \<and> (\<forall>p \<in> set (co_parents (class_at d c)). p < c)
        \<and> (\<forall>ch \<in> set (co_children (class_at d c)). ch < length (df_heap d)))
   \<and> (\<forall>c < length (df_heap d). \<forall>p < length (df_heap d).
        p \<in> set (co_parents (class_at d c)) \<longleftrightarrow> c \<in> set (co_children (class_at d p)))
   \<and> (\<forall>i c. i < length (df_types d) \<longrightarrow> df_types d ! i = ClassRef c \<longrightarrow> c < length (df_heap d)
        \<and> df_by_name d (co_name (class_at d c)) = Some (ClassRef c) \<and> co_id (class_at d c) = word_of_nat i)"

definition fields_ok :: "dcfile \<Rightarrow> bool" where
  "fields_ok d \<longleftrightarrow> (length (df_fields d) < 2 ^ 32 \<longrightarrow>
     (\<forall>i < length (df_fields d). field_id (df_fields d ! i) = word_of_nat i)
   \<and> (\<forall>c < length (df_heap d). co_ok (df_fields d) (class_at d c)
        \<and> (\<forall>f \<in> set (co_base_fields (class_at d c)). df_owner d (field_id f) = Some c)))"

definition file_ok :: "dcfile \<Rightarrow> bool" where
  "file_ok d \<longleftrightarrow> links_ok d \<and> fields_ok d"

text \<open>The class being declared is the last of the heap, has no children and no name yet.\<close>

definition building :: "dcfile \<Rightarrow> cref \<Rightarrow> bool" where
  "building d c \<longleftrightarrow> length (df_heap d) = Suc c \<and> co_children (class_at d c) = []
     \<and> (\<forall>n. df_by_name d n \<noteq> Some (ClassRef c))"

definition inheriting :: "dcfile \<Rightarrow> cref \<Rightarrow> bool" where
  "inheriting d c \<longleftrightarrow> building d c \<and> co_base_fields (class_at d c) = []
     \<and> (length (df_fields d) < 2 ^ 32 \<longrightarrow> co_paired (class_at d c))"

lemma links_okD:
  assumes "links_ok d"
  shows "df_by_name d n = Some (ClassRef c) \<Longrightarrow> c < length (df_heap d)"
    "df_by_name d n = Some (ClassRef c) \<Longrightarrow> df_by_name d (co_name (class_at d c)) = Some (ClassRef c)"
    "c < length (df_heap d) \<Longrightarrow> distinct (co_parents (class_at d c))"
    "c < length (df_heap d) \<Longrightarrow> p \<in> set (co_parents (class_at d c)) \<Longrightarrow> p < c"
    "c < length (df_heap d) \<Longrightarrow> ch \<in> set (co_children (class_at d c)) \<Longrightarrow> ch < length (df_heap d)"
    "c < length (df_heap d) \<Longrightarrow> p < length (df_heap d) \<Longrightarrow>
      p \<in> set (co_parents (class_at d c)) \<longleftrightarrow> c \<in> set (co_children (class_at d p))"
    "i < length (df_types d) \<Longrightarrow> df_types d ! i = ClassRef c \<Longrightarrow>
      c < length (df_heap d) \<and> df_by_name d (co_name (class_at d c)) = Some (ClassRef c) \<and> co_id (class_at d c) = word_of_nat i"
  using assms unfolding links_ok_def by blast+

lemma fields_okD:
  assumes "fields_ok d" "length (df_fields d) < 2 ^ 32"
  shows "i < length (df_fields d) \<Longrightarrow> field_id (df_fields d ! i) = word_of_nat i"
    "c < length (df_heap d) \<Longrightarrow> co_ok (df_fields d) (class_at d c)"
    "c < length (df_heap d) \<Longrightarrow> f \<in> set (co_base_fields (class_at d c)) \<Longrightarrow> df_owner d (field_id f) = Some c"
  using assms unfolding fields_ok_def by blast+

text \<open>A step that keeps the names and links of every class keeps \<open>links_ok\<close>.\<close>

lemma links_ok_put:
  assumes "links_ok d" "c < length (df_heap d)"
    and "co_name co = co_name (class_at d c)" "co_id co = co_id (class_at d c)"
    and "co_parents co = co_parents (class_at d c)" "co_children co = co_children (class_at d c)"
  shows "links_ok (put_class d c co)"
proof -
  have at: "class_at (put_class d c co) a = (if a = c then co else class_at d a)" for a
    using assms(2) by simp
  have eqs: "co_name (class_at (put_class d c co) a) = co_name (class_at d a)"
    "co_id (class_at (put_class d c co) a) = co_id (class_at d a)"
    "co_parents (class_at (put_class d c co) a) = co_parents (class_at d a)"
    "co_children (class_at (put_class d c co) a) = co_children (class_at d a)" for a
    unfolding at using assms(3-6) by simp_all
  from assms(1) show ?thesis unfolding links_ok_def eqs put_class_simps .
qed

lemma links_ok_same [simp]:
  "links_ok (with_field d c f) = links_ok d"
  "links_ok (d\<lparr>df_fields := a\<rparr>) = links_ok d" "links_ok (d\<lparr>df_struct_heap := b\<rparr>) = links_ok d"
 "links_ok (d\<lparr>df_struct_id := x3\<rparr>) = links_ok d" "links_ok (d\<lparr>df_structs := x4\<rparr>) = links_ok d"
  "links_ok (d\<lparr>df_imports := x1\<rparr>) = links_ok d" "links_ok (d\<lparr>df_keywords := x2\<rparr>) = links_ok d"
  by (simp_all add: links_ok_def)

lemma building_last: "building d c \<Longrightarrow> c < length (df_heap d)"
  by (simp add: building_def)

section \<open>Steps\<close>

lemma new_class_step:
  assumes "links_ok d" "fields_ok d"
  shows "\<exists>d'. new_class name d = (Inr (length (df_heap d)), d') \<and> links_ok d' \<and> fields_ok d'
    \<and> inheriting d' (length (df_heap d)) \<and> df_by_name d' = df_by_name d
    \<and> class_at d' (length (df_heap d)) = class_obj_new name"
proof -
  let ?d = "d\<lparr>df_heap := df_heap d @ [class_obj_new name]\<rparr>"
  have old: "class_at ?d c = class_at d c" if "c < length (df_heap d)" for c
    using that by (simp add: class_at_def nth_append)
  have new: "class_at ?d (length (df_heap d)) = class_obj_new name" by (simp add: class_at_def nth_append)
  note L = links_okD [OF assms(1)] and F = fields_okD [OF assms(2)]
  have empty: "co_parents (class_obj_new name) = []" "co_children (class_obj_new name) = []" "co_base_fields (class_obj_new name) = []"
    by (simp_all add: class_obj_new_def)
  have heap: "length (df_heap ?d) = Suc (length (df_heap d))" by simp
  have "links_ok ?d"
    unfolding links_ok_def
  proof (intro conjI allI impI ballI)
    show "c < length (df_heap ?d)" "df_by_name ?d (co_name (class_at ?d c)) = Some (ClassRef c)"
      if "df_by_name ?d n = Some (ClassRef c)" for n c
      using that L(1,2) [of n c] by (simp_all add: old)
    show "distinct (co_parents (class_at ?d c))" if "c < length (df_heap ?d)" for c
      using that L(3) [of c] by (cases "c = length (df_heap d)") (simp_all add: old new empty)
    show "p < c" if "c < length (df_heap ?d)" "p \<in> set (co_parents (class_at ?d c))" for c p
      using that L(4) [of c p] by (cases "c = length (df_heap d)") (simp_all add: old new empty)
    show "ch < length (df_heap ?d)" if "c < length (df_heap ?d)" "ch \<in> set (co_children (class_at ?d c))" for c ch
      using that L(5) [of c ch] by (cases "c = length (df_heap d)") (simp_all add: old new empty)
    show "c < length (df_heap ?d)" "df_by_name ?d (co_name (class_at ?d c)) = Some (ClassRef c)" "co_id (class_at ?d c) = word_of_nat i"
      if "i < length (df_types ?d)" "df_types ?d ! i = ClassRef c" for i c
      using that L(7) [of i c] by (simp_all add: old)
    fix c p assume c: "c < length (df_heap ?d)" and p: "p < length (df_heap ?d)"
    have "length (df_heap d) \<notin> set (co_parents (class_at d c))" if "c < length (df_heap d)" for c
      using L(4) [OF that] that by force
    moreover have "length (df_heap d) \<notin> set (co_children (class_at d c))" if "c < length (df_heap d)" for c
      using L(5) [OF that] by force
    ultimately show "p \<in> set (co_parents (class_at ?d c)) \<longleftrightarrow> c \<in> set (co_children (class_at ?d p))"
      using L(6) [of c p] c p by (cases "c = length (df_heap d)"; cases "p = length (df_heap d)") (auto simp: old new empty less_Suc_eq)
  qed
  moreover have "fields_ok ?d"
    using F(1) by (auto simp: fields_ok_def less_Suc_eq old new empty F(2,3))
  moreover have "inheriting ?d (length (df_heap d))"
    using L(1) by (auto simp: inheriting_def building_def new empty)
  ultimately show ?thesis by (simp add: new_class_def new)
qed

lemma inherit_fold_ok:
  assumes "co_ok tbl co" "co_paired co" "co_base_fields co = []"
    and "\<And>f. f \<in> set fs \<Longrightarrow> unat (field_id f) < length tbl \<and> tbl ! unat (field_id f) = f"
  shows "co_ok tbl (fold (inherit_field owner) fs co) \<and> co_paired (fold (inherit_field owner) fs co)"
  using assms
proof (induction fs arbitrary: co)
  case (Cons f fs)
  from Cons.prems(4) [of f] have f: "unat (field_id f) < length tbl" "tbl ! unat (field_id f) = f" by simp_all
  from inherit_field_ok [OF Cons.prems(1-3) f, of owner] show ?case
    by (simp add: Cons.IH Cons.prems(4))
qed simp

lemma links_ok_parent:
  assumes ok: "links_ok d" and c: "building d c" and p: "p < c" "p \<notin> set (co_parents (class_at d c))"
    and co: "co_name co = co_name (class_at d c)" "co_children co = []" "co_parents co = co_parents (class_at d c) @ [p]"
  shows "links_ok (put_class (put_class d p ((class_at d p)\<lparr>co_children := co_children (class_at d p) @ [c]\<rparr>)) c co)"
    (is "links_ok ?d")
proof -
  have len: "length (df_heap d) = Suc c" "c < length (df_heap d)" "p < length (df_heap d)" "p \<noteq> c" "p < Suc c"
    using c p(1) by (simp_all add: building_def)
  have at: "class_at ?d a = (if a = c then co
      else if a = p then (class_at d p)\<lparr>co_children := co_children (class_at d p) @ [c]\<rparr> else class_at d a)" for a
    using len by simp
  have nm: "co_name (class_at ?d a) = co_name (class_at d a)" for a by (simp add: at co(1))
  have pa: "co_parents (class_at ?d a) = (if a = c then co_parents (class_at d c) @ [p] else co_parents (class_at d a))" for a
    by (simp add: at co(3))
  have ch: "co_children (class_at ?d a) = (if a = c then [] else if a = p then co_children (class_at d p) @ [c] else co_children (class_at d a))" for a
    by (simp add: at co(2))
  note L = links_okD [OF ok]
  have no_child: "c \<notin> set (co_parents (class_at d a))" if "a < length (df_heap d)" for a
    using L(4) [OF that] that len by force
  have untyped: "df_types d ! i \<noteq> ClassRef c" if "i < length (df_types d)" for i
    using L(7) [OF that, of c] c by (auto simp: building_def)
  show ?thesis
    unfolding links_ok_def
  proof (intro conjI allI impI ballI)
    show "a < length (df_heap ?d)" "df_by_name ?d (co_name (class_at ?d a)) = Some (ClassRef a)"
      if "df_by_name ?d n = Some (ClassRef a)" for n a
      using that L(1,2) [of n a] unfolding nm by simp_all
    show "distinct (co_parents (class_at ?d a))" if "a < length (df_heap ?d)" for a
      using that L(3) [of a] L(3) [of c] p len by (simp add: pa)
    show "q < a" if "a < length (df_heap ?d)" "q \<in> set (co_parents (class_at ?d a))" for a q
      using that L(4) [of a q] p(1) unfolding pa by (auto split: if_splits)
    show "q < length (df_heap ?d)" if "a < length (df_heap ?d)" "q \<in> set (co_children (class_at ?d a))" for a q
      using that L(5) [of a q] len by (auto simp: ch split: if_splits)
    show "q \<in> set (co_parents (class_at ?d a)) \<longleftrightarrow> a \<in> set (co_children (class_at ?d q))"
      if "a < length (df_heap ?d)" "q < length (df_heap ?d)" for a q
      using that L(6) [of a q] no_child [of a] c p len by (auto simp: pa ch building_def)
    show "a < length (df_heap ?d)" "df_by_name ?d (co_name (class_at ?d a)) = Some (ClassRef a)" "co_id (class_at ?d a) = word_of_nat i"
      if "i < length (df_types ?d)" "df_types ?d ! i = ClassRef a" for i a
    proof -
      from that have i: "i < length (df_types d)" "df_types d ! i = ClassRef a" by simp_all
      with untyped have "a \<noteq> c" by blast
      then show "a < length (df_heap ?d)" "df_by_name ?d (co_name (class_at ?d a)) = Some (ClassRef a)" "co_id (class_at ?d a) = word_of_nat i"
        using L(7) [OF i] unfolding nm by (auto simp: at)
    qed
  qed
qed

lemma add_parent_step:
  assumes ok: "links_ok d" "fields_ok d" and c: "inheriting d c"
    and p: "df_by_name d n = Some (ClassRef p)" "p \<notin> set (co_parents (class_at d c))"
  shows "\<exists>d'. add_parent c p d = (Inr (), d') \<and> links_ok d' \<and> fields_ok d' \<and> inheriting d' c
    \<and> df_by_name d' = df_by_name d \<and> co_parents (class_at d' c) = co_parents (class_at d c) @ [p]
    \<and> co_fields (class_at d' p) = co_fields (class_at d p)"
proof -
  have b: "building d c" using c by (simp add: inheriting_def)
  note L = links_okD [OF ok(1)]
  have pc: "p < c" using L(1) [OF p(1)] p(1) b by (cases "p = c") (auto simp: building_def)
  let ?p = "(class_at d p)\<lparr>co_children := co_children (class_at d p) @ [c]\<rparr>"
  let ?start = "(class_at d c)\<lparr>co_parents := co_parents (class_at d c) @ [p]\<rparr>"
  let ?co = "fold (inherit_field (df_owner d)) (co_fields (class_at d p)) ?start"
  let ?d = "put_class (put_class d p ?p) c ?co"
  have len: "c < length (df_heap d)" "p < length (df_heap d)" "c \<noteq> p" "length (df_heap d) = Suc c"
    using b pc by (simp_all add: building_def)
  have run: "add_parent c p d = (Inr (), ?d)"
    by (rule add_parent_run) (use b len L(3) [OF len(1)] p(2) in \<open>simp_all add: building_def\<close>)
  have links: "links_ok ?d"
    by (rule links_ok_parent [OF ok(1) b pc p(2)]) (use b in \<open>simp_all add: building_def\<close>)
  have good: "co_ok (df_fields d) ?co \<and> co_paired ?co" if l: "length (df_fields d) < 2 ^ 32"
  proof (rule inherit_fold_ok)
    note F = fields_okD [OF ok(2) l]
    show "co_ok (df_fields d) ?start" "co_paired ?start" "co_base_fields ?start = []"
      using F(2) [OF len(1)] c l by (simp_all add: inheriting_def)
    show "unat (field_id f) < length (df_fields d) \<and> df_fields d ! unat (field_id f) = f"
      if "f \<in> set (co_fields (class_at d p))" for f
      using co_okD(4,5) [OF F(2) [OF len(2)]] that by blast
  qed
  have at: "class_at ?d a = (if a = c then ?co else if a = p then ?p else class_at d a)" for a
    using len by simp
  have "fields_ok ?d"
    unfolding fields_ok_def
  proof (intro impI conjI allI ballI)
    assume l: "length (df_fields ?d) < 2 ^ 32"
    then have l': "length (df_fields d) < 2 ^ 32" by simp
    note F = fields_okD [OF ok(2) l']
    show "field_id (df_fields ?d ! i) = word_of_nat i" if "i < length (df_fields ?d)" for i using that F(1) by simp
    show "co_ok (df_fields ?d) (class_at ?d a)" if "a < length (df_heap ?d)" for a
      using that F(2) [of a] F(2) [OF len(2)] good [OF l'] by (simp add: at)
    show "df_owner ?d (field_id f) = Some a" if "a < length (df_heap ?d)" "f \<in> set (co_base_fields (class_at ?d a))" for a f
      using that F(3) [of a f] c by (auto simp: at inheriting_def split: if_splits)
  qed
  moreover have "inheriting ?d c"
    using c good len by (simp add: inheriting_def building_def)
  ultimately show ?thesis using run links len by simp
qed

lemma unshadowed_ok:
  assumes ok: "co_ok tbl co" and base: "co_base_by_name co n = None"
  shows "co_ok tbl (unshadowed n co)" "co_by_name (unshadowed n co) n = None"
proof -
  show "co_ok tbl (unshadowed n co)"
    using drop_field_ok [OF ok _ base] ok by (simp add: unshadowed_def split: option.split)
  show "co_by_name (unshadowed n co) n = None"
    using co_okD(1) [OF ok] by (auto simp: unshadowed_def split: option.split)
qed

lemma constructor_ok:
  assumes ok: "co_ok tbl co" and len: "length tbl < 2 ^ 32" and i: "field_id f = word_of_nat (length tbl)"
    and base: "co_base_fields co = []"
  shows "co_ok (tbl @ [f]) (class_enter f co\<lparr>co_constructor := Some f\<rparr>)"
proof -
  note D = co_okD [OF co_ok_table [OF ok, of "[f]"]] and new = fresh_id [OF ok len i]
  have u: "unat (field_id f) = length tbl" using len unfolding i by (simp add: unsigned_of_nat take_bit_nat_eq_self)
  show ?thesis
    unfolding co_ok_links
  proof (rule co_okI)
    show "field_name g = n \<and> co_by_id (class_enter f co) (field_id g) = Some g"
      if "co_by_name (class_enter f co) n = Some g" for n g
      using that D(1) D(2) [of n g] new(1) by (auto simp: class_enter_def split: if_splits)
    show "field_id g = j \<and> unat j < length (tbl @ [f]) \<and> (tbl @ [f]) ! unat j = g"
      if "co_by_id (class_enter f co) j = Some g" for j g
      using that D(3,4) u by (auto simp: class_enter_def split: if_splits)
    show "co_by_id (class_enter f co) (field_id g) = Some g" if "g \<in> set (co_fields (class_enter f co))" for g
      using that D(5) [of g] new(1) by (auto simp: class_enter_def)
  qed (use D(6,7) base in \<open>simp_all add: class_enter_def\<close>)
qed

text \<open>A step that gives a new field to the class being declared.\<close>

lemma with_field_step:
  assumes ok: "links_ok d" "fields_ok d" and c: "building d c"
    and co: "co_name co = co_name (class_at d c)" "co_id co = co_id (class_at d c)"
      "co_parents co = co_parents (class_at d c)" "co_children co = co_children (class_at d c)"
    and new: "length (df_fields d) < 2 ^ 32 \<Longrightarrow> co_ok (df_fields d @ [numbered (df_fields d) f]) co"
      "set (co_base_fields co) \<subseteq> insert (numbered (df_fields d) f) (set (co_base_fields (class_at d c)))"
  shows "links_ok (put_class (with_field d c f) c co) \<and> fields_ok (put_class (with_field d c f) c co)
    \<and> building (put_class (with_field d c f) c co) c"
proof -
  let ?d = "put_class (with_field d c f) c co"
  have len: "c < length (df_heap d)" "length (df_heap d) = Suc c" using c by (simp_all add: building_def)
  have "links_ok ?d" by (rule links_ok_put) (use ok(1) len co in simp_all)
  moreover have "building ?d c" using c len co by (simp add: building_def)
  moreover have "fields_ok ?d"
    unfolding fields_ok_def
  proof (intro impI conjI allI ballI)
    assume l: "length (df_fields ?d) < 2 ^ 32"
    then have l': "length (df_fields d) < 2 ^ 32" by simp
    note F = fields_okD [OF ok(2) l']
    have at: "class_at ?d a = (if a = c then co else class_at d a)" for a using len by simp
    show "field_id (df_fields ?d ! i) = word_of_nat i" if "i < length (df_fields ?d)" for i
      using that F(1) by (auto simp: nth_append less_Suc_eq)
    show "co_ok (df_fields ?d) (class_at ?d a)" if "a < length (df_heap ?d)" for a
      unfolding at using that F(2) [of a] new(1) l' by (simp add: co_ok_table)
    show "df_owner ?d (field_id g) = Some a" if g: "a < length (df_heap ?d)" "g \<in> set (co_base_fields (class_at ?d a))" for a g
    proof -
      consider "a = c" "g = numbered (df_fields d) f" | "g \<in> set (co_base_fields (class_at d a))"
        using g(2) new(2) unfolding at by (auto split: if_splits)
      then show ?thesis
      proof cases
        case 2
        with g(1) F(3) have own: "df_owner d (field_id g) = Some a" by simp
        have "field_id g \<noteq> word_of_nat (length (df_fields d))"
          using fresh_id(2) [OF F(2) l' refl, of a g] co_okD(9) [OF F(2) 2] g(1) by force
        with own show ?thesis by simp
      qed simp
    qed
  qed
  ultimately show ?thesis by blast
qed

lemma class_add_field_step:
  assumes ok: "links_ok d" "fields_ok d" and c: "building d c" and f: "field_name f \<noteq> []"
  shows "\<exists>b d'. class_add_field c False (Some f) d = (Inr b, d') \<and> links_ok d' \<and> fields_ok d' \<and> building d' c"
proof (cases "field_name f = co_name (class_at d c)")
  case True
  then have run: "class_add_field c False (Some f) d = class_add_constructor c f d"
    using f by (simp add: class_add_field_def)
  let ?co = "class_at d c" and ?f = "numbered (df_fields d) f"
  show ?thesis
  proof (cases "co_constructor ?co \<noteq> None \<or> field_molecular f \<or> co_base_fields ?co \<noteq> []")
    case False
    have "links_ok (put_class (with_field d c f) c (class_enter ?f ?co\<lparr>co_constructor := Some ?f\<rparr>))
      \<and> fields_ok (put_class (with_field d c f) c (class_enter ?f ?co\<lparr>co_constructor := Some ?f\<rparr>))
      \<and> building (put_class (with_field d c f) c (class_enter ?f ?co\<lparr>co_constructor := Some ?f\<rparr>)) c"
    proof (rule with_field_step [OF ok c])
      show "co_ok (df_fields d @ [?f]) (class_enter ?f ?co\<lparr>co_constructor := Some ?f\<rparr>)"
        if "length (df_fields d) < 2 ^ 32"
        by (rule constructor_ok) (use that False fields_okD(2) [OF ok(2) that building_last [OF c]] in simp_all)
    qed (simp_all add: class_enter_def subset_insertI)
    with False run show ?thesis by (simp add: constructor_run Let_def ex_bool_eq)
  qed (use run ok c in \<open>simp add: constructor_run Let_def ex_bool_eq\<close>)
next
  case False
  let ?co = "class_at d c" and ?f = "numbered (df_fields d) f"
  let ?new = "declare_enter ?f (unshadowed (field_name f) ?co)"
  have ch: "co_children ?co = []" using c by (simp add: building_def)
  note run = class_add_field_run [OF ch building_last [OF c] f False]
  show ?thesis
  proof (cases "co_base_by_name ?co (field_name f)")
    case None
    have "links_ok (put_class (with_field d c f) c ?new) \<and> fields_ok (put_class (with_field d c f) c ?new)
      \<and> building (put_class (with_field d c f) c ?new) c"
    proof (rule with_field_step [OF ok c])
      show "co_ok (df_fields d @ [?f]) ?new" if l: "length (df_fields d) < 2 ^ 32"
        using unshadowed_ok [OF fields_okD(2) [OF ok(2) l building_last [OF c]] None] None
        by (intro declare_enter_ok [OF _ l]) simp_all
    qed simp_all
    with run None show ?thesis by (simp add: ex_bool_eq)
  qed (use run ok c in auto)
qed

lemma add_class_step:
  assumes ok: "links_ok d" "fields_ok d" and c: "building d c"
  shows "\<exists>b d'. add_class c d = (Inr b, d') \<and> links_ok d' \<and> fields_ok d'"
proof -
  let ?n = "co_name (class_at d c)"
  show ?thesis
  proof (cases "?n = [] \<or> df_by_name d ?n \<noteq> None")
    case True
    with ok show ?thesis by (auto simp: add_class_def)
  next
    case False
    let ?co = "(class_at d c)\<lparr>co_id := word_of_nat (length (df_types d))\<rparr>"
    let ?d = "(put_class d c ?co)\<lparr>df_by_name := (df_by_name d)(?n \<mapsto> ClassRef c), df_types := df_types d @ [ClassRef c],
      df_classes := df_classes d @ [c]\<rparr>"
    note L = links_okD [OF ok(1)]
    have len: "c < length (df_heap d)" using c by (simp add: building_def)
    have at: "class_at ?d a = (if a = c then ?co else class_at d a)" for a using len by simp
    have same: "co_name (class_at ?d a) = co_name (class_at d a)" "co_parents (class_at ?d a) = co_parents (class_at d a)"
      "co_children (class_at ?d a) = co_children (class_at d a)" "co_base_fields (class_at ?d a) = co_base_fields (class_at d a)"
      "co_ok tbl (class_at ?d a) = co_ok tbl (class_at d a)" for a tbl
      unfolding at by simp_all
    have others: "c \<noteq> a" if "df_by_name d n = Some (ClassRef a)" for n a
      using that c by (auto simp: building_def)
    have "links_ok ?d"
      unfolding links_ok_def
    proof (intro conjI allI impI ballI)
      show "a < length (df_heap ?d)" "df_by_name ?d (co_name (class_at ?d a)) = Some (ClassRef a)"
        if "df_by_name ?d n = Some (ClassRef a)" for n a
        using that L(1,2) [of n a] len False unfolding same by (auto split: if_splits)
      show "distinct (co_parents (class_at ?d a))" if "a < length (df_heap ?d)" for a
        unfolding same using that L(3) [of a] by simp
      show "p < a" if "a < length (df_heap ?d)" "p \<in> set (co_parents (class_at ?d a))" for a p
        using that L(4) [of a p] unfolding same by simp
      show "ch < length (df_heap ?d)" if "a < length (df_heap ?d)" "ch \<in> set (co_children (class_at ?d a))" for a ch
        using that L(5) [of a ch] unfolding same by simp
      show "p \<in> set (co_parents (class_at ?d a)) \<longleftrightarrow> a \<in> set (co_children (class_at ?d p))"
        if "a < length (df_heap ?d)" "p < length (df_heap ?d)" for a p
        using that L(6) [of a p] unfolding same by simp
      fix i a assume i: "i < length (df_types ?d)" "df_types ?d ! i = ClassRef a"
      show "a < length (df_heap ?d)" "df_by_name ?d (co_name (class_at ?d a)) = Some (ClassRef a)"
        "co_id (class_at ?d a) = word_of_nat i"
      proof -
        consider (new) "i = length (df_types d)" "a = c" | (old) "i < length (df_types d)" "df_types d ! i = ClassRef a"
          using i by (auto simp: nth_append less_Suc_eq split: if_splits)
        then have "a < length (df_heap ?d) \<and> df_by_name ?d (co_name (class_at d a)) = Some (ClassRef a)
          \<and> co_id (class_at ?d a) = word_of_nat i"
        proof cases
          case old
          from L(7) [OF this] others False show ?thesis unfolding at by auto
        qed (use len in simp)
        then show "a < length (df_heap ?d)" "df_by_name ?d (co_name (class_at ?d a)) = Some (ClassRef a)"
          "co_id (class_at ?d a) = word_of_nat i" unfolding same by blast+
      qed
    qed
    moreover have "fields_ok ?d"
      using ok(2) unfolding fields_ok_def same by simp
    moreover have "add_class c d = (Inr True, ?d)"
      using False by (simp add: add_class_def sseq_apply)
    ultimately show ?thesis by blast
  qed
qed

text \<open>A step of a struct, which only takes numbers from the field table.\<close>

lemma struct_add_field_table:
  "\<exists>ok so' fs. struct_add_field tbl so foreign fo = (ok, tbl @ fs, so') \<and> (\<forall>i < length fs. field_id (fs ! i) = word_of_nat (length tbl + i))"
  by (auto simp: struct_add_field_def Let_def split: option.split)

lemma file_struct_field_step:
  assumes ok: "links_ok d" "fields_ok d"
  shows "\<exists>b d'. file_struct_field s foreign fo d = (Inr b, d') \<and> links_ok d' \<and> fields_ok d'"
proof -
  obtain b so fs where r: "struct_add_field (df_fields d) (struct_at d s) foreign fo = (b, df_fields d @ fs, so)"
    and ids: "\<forall>i < length fs. field_id (fs ! i) = word_of_nat (length (df_fields d) + i)"
    using struct_add_field_table by blast
  let ?d = "d\<lparr>df_fields := df_fields d @ fs, df_struct_heap := (df_struct_heap d)[s := so]\<rparr>"
  have "fields_ok ?d"
    unfolding fields_ok_def
  proof (intro impI conjI allI ballI)
    assume l: "length (df_fields ?d) < 2 ^ 32"
    then have l': "length (df_fields d) < 2 ^ 32" by simp
    note F = fields_okD [OF ok(2) l']
    show "field_id (df_fields ?d ! i) = word_of_nat i" if "i < length (df_fields ?d)" for i
      using that F(1) ids by (auto simp: nth_append not_less)
    show "co_ok (df_fields ?d) (class_at ?d a)" "\<And>g. g \<in> set (co_base_fields (class_at ?d a)) \<Longrightarrow> df_owner ?d (field_id g) = Some a"
      if "a < length (df_heap ?d)" for a
      using that F(2,3) [of a] by (simp_all add: co_ok_table)
  qed
  moreover have "links_ok ?d" using ok(1) by simp
  ultimately show ?thesis using r by (simp add: file_struct_field_def)
qed

lemma links_ok_name:
  assumes ok: "links_ok d" and n: "df_by_name d n = None" and ts: "\<And>c. ClassRef c \<notin> set ts"
    and t: "\<And>c. t = ClassRef c \<Longrightarrow> \<exists>m. df_by_name d m = Some (ClassRef c)"
  shows "links_ok (d\<lparr>df_by_name := (df_by_name d)(n \<mapsto> t), df_types := df_types d @ ts\<rparr>)" (is "links_ok ?d")
proof -
  note L = links_okD [OF ok]
  have old: "\<exists>m. df_by_name d m = Some (ClassRef a)" if "df_by_name ?d m = Some (ClassRef a)" for m a
    using that t by (auto split: if_splits)
  have typed: "i < length (df_types d) \<and> df_types d ! i = ClassRef a" if "i < length (df_types ?d)" "df_types ?d ! i = ClassRef a" for i a
    using that ts by (auto simp: nth_append split: if_splits) (metis add_diff_inverse_nat nat_add_left_cancel_less nth_mem)+
  show ?thesis
    unfolding links_ok_def
  proof (intro conjI allI impI ballI)
    show "a < length (df_heap ?d)" "df_by_name ?d (co_name (class_at ?d a)) = Some (ClassRef a)"
      if "df_by_name ?d m = Some (ClassRef a)" for m a
      using old [OF that] L(1) [of _ a] by auto (metis L(2) n option.distinct(1))+
    show "a < length (df_heap ?d)" "df_by_name ?d (co_name (class_at ?d a)) = Some (ClassRef a)" "co_id (class_at ?d a) = word_of_nat i"
      if "i < length (df_types ?d)" "df_types ?d ! i = ClassRef a" for i a
      using L(7) [of i a] typed [OF that] n by auto
  qed (use L(3,4,5,6) in simp_all)
qed

section \<open>Every file\<close>

abbreviation consistent :: "parser_state \<Rightarrow> bool" where
  "consistent p \<equiv> links_ok (ps_file p) \<and> fields_ok (ps_file p)"

abbreviation declaring :: "cref \<Rightarrow> parser_state \<Rightarrow> bool" where
  "declaring c p \<equiv> consistent p \<and> building (ps_file p) c"

lemma returns_on_file:
  assumes "\<And>d. P d \<Longrightarrow> \<exists>x d'. m d = (Inr x, d') \<and> Q x d'"
  shows "returns (\<lambda>p. P (ps_file p)) (on_file m) (\<lambda>x p. Q x (ps_file p))"
proof (rule returnsI)
  fix p :: parser_state assume "P (ps_file p)"
  with assms obtain x d' where "m (ps_file p) = (Inr x, d')" "Q x d'" by blast
  then show "\<exists>x s'. on_file m p = (Inr x, s') \<and> Q x (ps_file s')" by (simp add: on_file_def)
qed

lemma returns_parser_error: "returns (\<lambda>p. P (ps_file p)) parser_error (\<lambda>_ p. P (ps_file p))"
  by (simp add: returns_def parser_error_def)

lemma returns_swhen_error: "returns (\<lambda>p. P (ps_file p)) (swhen b parser_error) (\<lambda>_ p. P (ps_file p))"
  by (cases b) (auto intro: returns_parser_error returns_sret)

lemma returns_checked:
  assumes "\<And>d. P d \<Longrightarrow> \<exists>x d'. m d = (Inr x, d') \<and> Q d'"
  shows "returns (\<lambda>p. P (ps_file p)) (checked m) (\<lambda>_ p. Q (ps_file p))"
  unfolding checked_def by (rule returns_sbind [OF returns_on_file [of P m "\<lambda>_. Q"]]) (auto intro: assms returns_swhen_error)

text \<open>
  The classes named so far are the parents. No name is added meanwhile, so \<open>names\<close> still stand for
  the classes they stood for; \<open>tbl\<close> is the table of names.
\<close>

definition named_classes :: "(string \<rightharpoonup> type_ref) \<Rightarrow> string list \<Rightarrow> cref list" where
  "named_classes tbl names = List.map_filter (\<lambda>n. as_class (tbl n)) names"

definition inherited :: "(string \<rightharpoonup> type_ref) \<Rightarrow> cref \<Rightarrow> string list \<Rightarrow> dcfile \<Rightarrow> bool" where
  "inherited tbl c names d \<longleftrightarrow> links_ok d \<and> fields_ok d \<and> inheriting d c \<and> df_by_name d = tbl
     \<and> co_parents (class_at d c) = named_classes tbl names"

lemma as_class_Some [simp]: "as_class t = Some c \<longleftrightarrow> t = Some (ClassRef c)"
  by (auto simp: as_class_def split: option.splits type_ref.splits)

lemma as_class_simps [simp]: "as_class None = None" "as_class (Some (ClassRef c)) = Some c"
    "as_class (Some (StructRef s)) = None" "as_class (Some (TypeRef i)) = None"
  by (simp_all add: as_class_def)

lemma named_classes_simps [simp]:
  "named_classes tbl [] = []"
  "named_classes tbl (n # ns) = (case as_class (tbl n) of None \<Rightarrow> [] | Some c \<Rightarrow> [c]) @ named_classes tbl ns"
  by (simp_all add: named_classes_def split: option.split)

lemma named_classes_append [simp]: "named_classes tbl (xs @ ys) = named_classes tbl xs @ named_classes tbl ys"
  by (induction xs) auto

lemma act_parent_returns:
  assumes "distinct (named_classes tbl (names @ [name]))"
  shows "returns (\<lambda>p. inherited tbl c names (ps_file p)) (act_parent c name) (\<lambda>_ p. inherited tbl c (names @ [name]) (ps_file p))"
proof (rule returnsI)
  fix s :: parser_state assume inh: "inherited tbl c names (ps_file s)"
  let ?d = "ps_file s"
  show "\<exists>x s'. act_parent c name s = (Inr x, s') \<and> inherited tbl c (names @ [name]) (ps_file s')"
  proof (cases "get_class_by_name ?d name")
    case None
    with inh show ?thesis
      by (auto simp: act_parent_def defined_class_def sbind_apply sseq_apply parser_error_def inherited_def
          get_class_by_name_def get_type_by_name_def)
  next
    case (Some p)
    then have p: "df_by_name ?d name = Some (ClassRef p)"
      by (simp add: get_class_by_name_def get_type_by_name_def)
    have ok: "links_ok ?d" "fields_ok ?d" "inheriting ?d c" using inh by (simp_all add: inherited_def)
    have "p \<notin> set (co_parents (class_at ?d c))"
      using assms inh p by (auto simp: inherited_def)
    from add_parent_step [OF ok p this] obtain d' where
      run: "add_parent c p ?d = (Inr (), d')" and d': "links_ok d'" "fields_ok d'" "inheriting d' c"
      "df_by_name d' = df_by_name ?d" "co_parents (class_at d' c) = co_parents (class_at ?d c) @ [p]" by blast
    from d' inh p have "inherited tbl c (names @ [name]) d'" by (auto simp: inherited_def)
    with run Some show ?thesis
      by (simp add: act_parent_def defined_class_def sbind_apply on_file_def)
  qed
qed

lemma act_molecular_returns:
  "returns (\<lambda>p. P (ps_file p)) (act_molecular c mol names) (\<lambda>_ p. P (ps_file p))"
proof (induction names arbitrary: mol)
  case Nil
  show ?case unfolding act_molecular.simps by (rule returns_sret)
next
  case (Cons name names)
  have "returns (\<lambda>p. P (ps_file p)) (defined_field c name) (\<lambda>_ p. P (ps_file p))"
    by (auto simp: returns_def defined_field_def parser_error_def sseq_apply split: option.split)
  then show ?case
    by (auto intro!: returns_sbind [where Q = "\<lambda>_ p. P (ps_file p)"] returns_sseq Cons returns_swhen_error split: option.split prod.split)
qed

lemma declare_returns:
  "returns (declaring c) (checked (class_add_field c False (Some f))) (\<lambda>_. declaring c)"
proof (rule returns_checked [where P = "\<lambda>d. (links_ok d \<and> fields_ok d) \<and> building d c" and Q = "\<lambda>d. (links_ok d \<and> fields_ok d) \<and> building d c"])
  fix d assume "(links_ok d \<and> fields_ok d) \<and> building d c"
  then show "\<exists>x d'. class_add_field c False (Some f) d = (Inr x, d') \<and> (links_ok d' \<and> fields_ok d') \<and> building d' c"
    using class_add_field_step [of d c f] by (cases "field_name f = []") (auto simp: class_add_field_def)
qed

lemma act_class_field_returns: "returns (declaring c) (act_class_field c fd) (\<lambda>_. declaring c)"
proof (cases fd)
  case (PlainField fo)
  show ?thesis
  proof (cases fo)
    case None
    with PlainField show ?thesis by (simp add: act_class_field_def returns_def)
  next
    case (Some f)
    have "returns (declaring c) parser_error (\<lambda>_. declaring c)"
      by (rule returns_parser_error [where P = "\<lambda>d. (links_ok d \<and> fields_ok d) \<and> building d c"])
    with PlainField Some declare_returns [of c f] show ?thesis by (simp add: act_class_field_def)
  qed
next
  case (MolecularDecl name names)
  have "returns (declaring c) (act_molecular c (molecular_new name) names) (\<lambda>_. declaring c)"
    by (rule act_molecular_returns [where P = "\<lambda>d. (links_ok d \<and> fields_ok d) \<and> building d c"])
  with MolecularDecl declare_returns show ?thesis by (auto simp: act_class_field_def intro: returns_sbind)
qed

lemma act_class_returns:
  assumes "distinct (named_classes tbl parents)"
  shows "returns (\<lambda>p. consistent p \<and> df_by_name (ps_file p) = tbl) (act_class name parents fds) (\<lambda>_. consistent)"
  unfolding act_class_def
proof (rule returns_sbind)
  show "returns (\<lambda>p. consistent p \<and> df_by_name (ps_file p) = tbl) (on_file (new_class name)) (\<lambda>c p. inherited tbl c [] (ps_file p))"
  proof (rule returns_on_file [where P = "\<lambda>d. (links_ok d \<and> fields_ok d) \<and> df_by_name d = tbl" and Q = "\<lambda>c d. inherited tbl c [] d"])
    fix d assume "(links_ok d \<and> fields_ok d) \<and> df_by_name d = tbl"
    with new_class_step [of d name] show "\<exists>x d'. new_class name d = (Inr x, d') \<and> inherited tbl x [] d'"
      by (auto simp: inherited_def class_obj_new_def named_classes_def)
  qed
  fix c
  have front: "distinct (named_classes tbl (names @ [n]))" if "parents = names @ n # rest" for names n rest
    using assms unfolding that by auto
  have parents: "returns (\<lambda>p. inherited tbl c [] (ps_file p)) (for_each (act_parent c) parents) (\<lambda>_ p. inherited tbl c parents (ps_file p))"
    by (rule returns_for_each_prefix [where P = "\<lambda>names p. inherited tbl c names (ps_file p)"])
      (use front in \<open>blast intro: act_parent_returns\<close>)
  have fields: "returns (\<lambda>p. inherited tbl c parents (ps_file p)) (for_each (act_class_field c) fds) (\<lambda>_. declaring c)"
    by (rule returns_weaken [OF returns_for_each [OF act_class_field_returns]]) (auto simp: inherited_def inheriting_def)
  have "returns (declaring c) (checked (add_class c)) (\<lambda>_. consistent)"
    by (rule returns_checked [where P = "\<lambda>d. (links_ok d \<and> fields_ok d) \<and> building d c" and Q = "\<lambda>d. links_ok d \<and> fields_ok d"])
      (use add_class_step in blast)
  with parents fields show "returns (\<lambda>p. inherited tbl c [] (ps_file p)) (sseq (for_each (act_parent c) parents)
      (sseq (for_each (act_class_field c) fds) (checked (add_class c)))) (\<lambda>_. consistent)"
    by (blast intro: returns_sseq)
qed

lemma add_struct_step:
  assumes "links_ok d" "fields_ok d"
  shows "\<exists>b d'. add_struct s d = (Inr b, d') \<and> links_ok d' \<and> fields_ok d'"
proof (cases "so_name (struct_at d s) = [] \<or> df_by_name d (so_name (struct_at d s)) \<noteq> None")
  case False
  let ?d = "d\<lparr>df_by_name := (df_by_name d)(so_name (struct_at d s) \<mapsto> StructRef s), df_types := df_types d @ [StructRef s]\<rparr>"
  let ?e = "d\<lparr>df_struct_id := (df_struct_id d)(s \<mapsto> word_of_nat (length (df_types d))),
                           df_by_name := (df_by_name d)(so_name (struct_at d s) \<mapsto> StructRef s),
                           df_types := df_types d @ [StructRef s],
                           df_structs := df_structs d @ [s]\<rparr>"
  have "links_ok ?d" by (rule links_ok_name [OF assms(1)]) (use False in auto)
  moreover have "?e = ?d\<lparr>df_struct_id := (df_struct_id d)(s \<mapsto> word_of_nat (length (df_types d))), df_structs := df_structs d @ [s]\<rparr>"
    by simp
  ultimately have "links_ok ?e" by (simp only: links_ok_same)
  moreover have "fields_ok ?e" using assms(2) by (simp add: fields_ok_def)
  ultimately show ?thesis using False by (simp add: add_struct_def ex_bool_eq)
qed (use assms in \<open>auto simp: add_struct_def\<close>)

lemma act_struct_returns: "returns consistent (act_struct name fos) (\<lambda>_. consistent)"
  unfolding act_struct_def
proof (rule returns_sbind)
  show "returns consistent (on_file (new_struct name)) (\<lambda>_. consistent)"
    by (rule returns_on_file [where P = "\<lambda>d. links_ok d \<and> fields_ok d" and Q = "\<lambda>_ d. links_ok d \<and> fields_ok d"])
      (simp add: new_struct_def fields_ok_def)
  fix c
  have "returns consistent (act_struct_field c fo) (\<lambda>_. consistent)" for fo
  proof (cases fo)
    case (Some f)
    have "returns consistent (checked (file_struct_field c False (Some f))) (\<lambda>_. consistent)"
      by (rule returns_checked [where P = "\<lambda>d. links_ok d \<and> fields_ok d" and Q = "\<lambda>d. links_ok d \<and> fields_ok d"])
        (use file_struct_field_step in blast)
    with Some show ?thesis by (simp add: act_struct_field_def)
  qed (simp add: act_struct_field_def returns_def)
  moreover have "returns consistent (checked (add_struct c)) (\<lambda>_. consistent)"
    by (rule returns_checked [where P = "\<lambda>d. links_ok d \<and> fields_ok d" and Q = "\<lambda>d. links_ok d \<and> fields_ok d"])
      (use add_struct_step in blast)
  ultimately show "returns consistent (sseq (for_each (act_struct_field c) fos) (checked (add_struct c))) (\<lambda>_. consistent)"
    by (blast intro: returns_sseq returns_for_each)
qed

lemma other_types [simp]:
  "class_at (d\<lparr>df_other := ts\<rparr>) c = class_at d c"
  "links_ok (d\<lparr>df_other := ts\<rparr>) = links_ok d" "fields_ok (d\<lparr>df_other := ts\<rparr>) = fields_ok d"
  by (simp_all add: links_ok_def fields_ok_def class_at_def)

text \<open>A type that a typedef can name is not a class unless that class has a name already.\<close>

definition named_ref :: "type_ref \<Rightarrow> dcfile \<Rightarrow> bool" where
  "named_ref t d \<longleftrightarrow> (\<forall>c. t = ClassRef c \<longrightarrow> (\<exists>m. df_by_name d m = Some t))"

lemma add_typedef_step:
  assumes "links_ok d" "fields_ok d" "named_ref t d"
  shows "\<exists>b d'. add_typedef name t d = (Inr b, d') \<and> links_ok d' \<and> fields_ok d'"
proof (cases "name = [] \<or> df_by_name d name \<noteq> None")
  case False
  have "links_ok (d\<lparr>df_by_name := (df_by_name d)(name \<mapsto> t), df_types := df_types d @ []\<rparr>)"
    by (rule links_ok_name [OF assms(1)]) (use False assms(3) in \<open>auto simp: named_ref_def\<close>)
  with assms(2) False show ?thesis by (simp add: add_typedef_def fields_ok_def ex_bool_eq)
qed (use assms in \<open>auto simp: add_typedef_def\<close>)

lemma act_typedef_type_returns:
  "returns consistent (act_typedef_type tt) (\<lambda>to p. consistent p \<and> (\<forall>t. to = Some t \<longrightarrow> named_ref t (ps_file p)))"
proof (cases tt)
  case (NamedType name)
  then show ?thesis
    by (auto simp: returns_def act_typedef_type_def defined_type_def sbind_apply sseq_apply parser_error_def
        get_type_by_name_def named_ref_def split: option.split)
next
  case (BuiltType t)
  then show ?thesis
    by (auto simp: returns_def act_typedef_type_def sbind_apply on_file_def new_type_def named_ref_def)
qed

lemma set_ref_alias_returns:
  "returns (\<lambda>p. consistent p \<and> named_ref t (ps_file p)) (on_file (set_ref_alias t al))
    (\<lambda>_ p. consistent p \<and> named_ref t (ps_file p))"
  by (auto simp: returns_def on_file_def set_ref_alias_def named_ref_def split: type_ref.split)

lemma act_typedef_returns: "returns consistent (act_typedef name tt) (\<lambda>_. consistent)"
  unfolding act_typedef_def
proof (rule returns_sbind [OF act_typedef_type_returns])
  fix to
  have "returns (\<lambda>p. consistent p \<and> named_ref t (ps_file p)) (checked (add_typedef name t)) (\<lambda>_. consistent)" for t
    by (rule returns_checked [where P = "\<lambda>d. (links_ok d \<and> fields_ok d) \<and> named_ref t d" and Q = "\<lambda>d. links_ok d \<and> fields_ok d"])
      (use add_typedef_step in blast)
  then have "returns (\<lambda>p. consistent p \<and> named_ref t (ps_file p))
      (sseq (on_file (set_ref_alias t name)) (checked (add_typedef name t))) (\<lambda>_. consistent)" for t
    by (blast intro: returns_sseq set_ref_alias_returns)
  then show "returns (\<lambda>p. consistent p \<and> (\<forall>t. to = Some t \<longrightarrow> named_ref t (ps_file p)))
      (case to of None \<Rightarrow> sret () | Some t \<Rightarrow> sseq (on_file (set_ref_alias t name)) (checked (add_typedef name t)))
      (\<lambda>_. consistent)"
    by (cases to) (simp_all add: returns_def)
qed

text \<open>
  A file whose classes name no class twice as a parent, under one name or two, is read to its end,
  and leaves consistent tables. The hypothesis is needed: see the lemma on duplicate parents.
\<close>

definition parents_differ :: "decl \<Rightarrow> parser_state \<Rightarrow> bool" where
  "parents_differ dc p \<longleftrightarrow>
     (case dc of DeclClass _ parents _ \<Rightarrow> distinct (named_classes (df_by_name (ps_file p)) parents) | _ \<Rightarrow> True)"

fun no_parent_twice :: "decl list \<Rightarrow> parser_state \<Rightarrow> bool" where
  "no_parent_twice [] p \<longleftrightarrow> True"
| "no_parent_twice (dc # ds) p \<longleftrightarrow> parents_differ dc p \<and> no_parent_twice ds (snd (run_decl dc p))"

lemma run_decl_returns: "returns (\<lambda>p. consistent p \<and> parents_differ dc p) (run_decl dc) (\<lambda>_. consistent)"
proof (cases dc)
  case (DeclClass name parents fds)
  then show ?thesis
    unfolding returns_def using act_class_returns [unfolded returns_def, of _ parents name fds]
    by (auto simp: run_decl_def parents_differ_def)
next
  case (DeclStruct name fos)
  then show ?thesis by (simp add: run_decl_def act_struct_returns parents_differ_def)
next
  case (DeclTypedef name tt)
  then show ?thesis by (simp add: run_decl_def act_typedef_returns parents_differ_def)
next
  case (DeclImport im)
  then show ?thesis by (simp add: run_decl_def returns_def on_file_def add_import_def fields_ok_def)
next
  case (DeclKeywords kws)
  have "returns consistent (on_file (file_add_keyword kw)) (\<lambda>_. consistent)" for kw
    by (simp add: returns_def on_file_def file_add_keyword_def fields_ok_def)
  with DeclKeywords show ?thesis by (simp add: run_decl_def returns_for_each parents_differ_def)
qed

lemma run_decls_returns:
  assumes "consistent p" "no_parent_twice ds p"
  shows "\<exists>p'. for_each run_decl ds p = (Inr (), p') \<and> consistent p'"
  using assms
proof (induction ds arbitrary: p)
  case (Cons dc ds)
  from run_decl_returns [of dc] Cons.prems obtain p1 where "run_decl dc p = (Inr (), p1)" "consistent p1"
    by (fastforce simp: returns_def)
  with Cons show ?case by (simp add: sseq_apply)
qed simp

lemma read_returns:
  assumes "no_parent_twice ds \<lparr>ps_file = f, ps_errors = 0\<rparr>" "links_ok f" "fields_ok f"
  shows "\<exists>ok d. append_file ds f = (Inr ok, d) \<and> links_ok d \<and> fields_ok d"
proof -
  from run_decls_returns [OF _ assms(1)] assms(2,3) obtain p where "for_each run_decl ds \<lparr>ps_file = f, ps_errors = 0\<rparr> = (Inr (), p)" "consistent p"
    by auto
  then show ?thesis by (simp add: append_file_def)
qed

lemma dcfile_new_ok: "links_ok dcfile_new" "fields_ok dcfile_new"
  by (simp_all add: links_ok_def fields_ok_def dcfile_new_def)

end
