(* ===== verification/DClass_Props.thy ===== *)
theory DClass_Props
  imports DClass_Read
begin

text \<open>
  What a class of a dclass file holds: the properties of its tables and of inheritance, and the
  shapes of inheritance that go wrong.
\<close>

section \<open>Inheriting without conflicts\<close>

text \<open>The lookup by name knows exactly the fields of the list.\<close>

definition co_listed :: "class_obj \<Rightarrow> bool" where
  "co_listed co \<longleftrightarrow> (\<forall>n f. co_by_name co n = Some f \<longleftrightarrow> f \<in> set (co_fields co) \<and> field_name f = n)"

definition upwards :: "field list \<Rightarrow> bool" where
  "upwards fs \<longleftrightarrow> sorted_wrt (\<lambda>f g. field_id f < field_id g) fs \<and> distinct (map field_name fs)"

lemma upwards_front: "upwards (xs @ ys) \<Longrightarrow> upwards xs"
  by (simp add: upwards_def sorted_wrt_append)

lemma inherit_fold_listed:
  assumes "upwards (co_fields co @ fs)" "co_listed co" "co_base_by_name co = Map.empty"
  shows "co_fields (fold (inherit_field owner) fs co) = co_fields co @ fs
    \<and> co_listed (fold (inherit_field owner) fs co) \<and> co_base_by_name (fold (inherit_field owner) fs co) = Map.empty"
  using assms
proof (induction fs arbitrary: co)
  case (Cons f fs)
  have smaller: "field_id g < field_id f" if "g \<in> set (co_fields co)" for g
    using Cons.prems(1) that by (auto simp: upwards_def sorted_wrt_append)
  have names: "field_name g \<noteq> field_name f" if "g \<in> set (co_fields co)" for g
    using Cons.prems(1) imageI [OF that, of field_name] by (auto simp: upwards_def)
  have none: "co_by_name co (field_name f) = None"
    using Cons.prems(2) names by (cases "co_by_name co (field_name f)") (auto simp: co_listed_def)
  then have step: "inherit_field owner f co = inherit_enter f co"
    using Cons.prems(3) by (simp add: inherit_field_def)
  have fields: "co_fields (inherit_enter f co) = co_fields co @ [f]"
    using insert_field_last smaller by simp
  have "co_listed (inherit_enter f co)"
    unfolding co_listed_def fields using Cons.prems(2) names by (auto simp: co_listed_def)
  with Cons.IH [of "inherit_enter f co"] Cons.prems fields step show ?case by simp
qed simp

definition with_id :: "u32 \<Rightarrow> field \<Rightarrow> field" where
  "with_id i f = (case f of Field _ nm kws t d dflt m \<Rightarrow> Field i nm kws t d dflt m)"

lemma with_id_simps [simp]:
  "field_id (with_id i f) = i" "field_name (with_id i f) = field_name f" "field_type (with_id i f) = field_type f"
  "field_keywords (with_id i f) = field_keywords f"
  by (cases f; simp add: with_id_def)+

lemma numbered_with_id: "numbered tbl f = with_id (word_of_nat (length tbl)) f"
  by (cases f) (simp add: numbered_def file_add_field_def with_id_def Let_def del: numbered_simps)

fun renumbered :: "nat \<Rightarrow> field list \<Rightarrow> field list" where
  "renumbered n [] = []"
| "renumbered n (f # fs) = with_id (word_of_nat n) f # renumbered (Suc n) fs"

lemma renumbered_simps [simp]:
  "length (renumbered n fs) = length fs" "map field_name (renumbered n fs) = map field_name fs"
  by (induction fs arbitrary: n) auto

lemma renumbered_names [simp]: "field_name ` set (renumbered n fs) = field_name ` set fs"
  by (metis list.set_map renumbered_simps(2))

text \<open>
  Declaring fields one after the other: each takes the place of the inherited field of its name.
\<close>

lemma unshadowed_listed:
  assumes ok: "co_ok tbl co" and listed: "co_listed co" and names: "distinct (map field_name (co_fields co))"
  shows "co_fields (unshadowed n co) = filter (\<lambda>f. field_name f \<noteq> n) (co_fields co)"
    "co_by_name (unshadowed n co) = (co_by_name co)(n := None)"
proof -
  have key: "field_name g = n \<longleftrightarrow> field_id g = field_id prev" if "co_by_name co n = Some prev" "g \<in> set (co_fields co)" for g prev
    using that listed co_okD(1,2,5) [OF ok] unfolding co_listed_def by (metis option.inject)
  show "co_fields (unshadowed n co) = filter (\<lambda>f. field_name f \<noteq> n) (co_fields co)"
  proof (cases "co_by_name co n")
    case None
    with listed have "filter (\<lambda>f. field_name f \<noteq> n) (co_fields co) = co_fields co"
      by (intro filter_True) (metis co_listed_def option.distinct(1))
    with None show ?thesis by (simp add: unshadowed_def)
  next
    case (Some prev)
    with key [OF Some] show ?thesis
      by (simp add: unshadowed_def drop_field_fields [OF ok] cong: filter_cong)
  qed
  show "co_by_name (unshadowed n co) = (co_by_name co)(n := None)"
    using co_okD(1) [OF ok] by (cases "co_by_name co n") (auto simp: unshadowed_def fun_eq_iff)
qed

lemma declare_listed:
  assumes ok: "co_ok tbl co" and listed: "co_listed co" and names: "distinct (map field_name (co_fields co))"
    and f: "field_name f = n"
  defines "co' \<equiv> declare_enter f (unshadowed n co)"
  shows "co_fields co' = filter (\<lambda>g. field_name g \<noteq> n) (co_fields co) @ [f]" "co_listed co'"
    "distinct (map field_name (co_fields co'))"
proof -
  note u = unshadowed_listed [OF ok listed names, of n]
  show fields: "co_fields co' = filter (\<lambda>g. field_name g \<noteq> n) (co_fields co) @ [f]"
    by (simp add: co'_def u)
  show "co_listed co'"
    unfolding co_listed_def fields using listed f by (auto simp: co'_def u co_listed_def)
  show "distinct (map field_name (co_fields co'))"
    unfolding fields using names f by (auto simp: distinct_map_filter)
qed

text \<open>What a class holds does not change when another class is declared.\<close>

definition same_fields :: "cref \<Rightarrow> dcfile \<Rightarrow> dcfile \<Rightarrow> bool" where
  "same_fields c d d' \<longleftrightarrow> (\<forall>a. a \<noteq> c \<longrightarrow> co_fields (class_at d' a) = co_fields (class_at d a)
     \<and> co_base_fields (class_at d' a) = co_base_fields (class_at d a))"

lemma same_fields_refl [simp]: "same_fields c d d"
  by (simp add: same_fields_def)

lemma same_fields_trans: "same_fields c d1 d2 \<Longrightarrow> same_fields c d2 d3 \<Longrightarrow> same_fields c d1 d3"
  by (simp add: same_fields_def)

text \<open>The loop of the parser over the fields of a class without a constructor.\<close>

lemma declare_fields_run:
  assumes "links_ok (ps_file p)" "fields_ok (ps_file p)" "building (ps_file p) c"
    and "length (df_fields (ps_file p)) + length fs < 2 ^ 32"
    and "distinct (map field_name fs)" "[] \<notin> field_name ` set fs" "co_name (class_at (ps_file p) c) \<notin> field_name ` set fs"
    and "co_listed (class_at (ps_file p) c)" "distinct (map field_name (co_fields (class_at (ps_file p) c)))"
    and "\<And>f. f \<in> set fs \<Longrightarrow> co_base_by_name (class_at (ps_file p) c) (field_name f) = None"
  shows "\<exists>p'. for_each (act_class_field c) (map (\<lambda>f. PlainField (Some f)) fs) p = (Inr (), p')
    \<and> links_ok (ps_file p') \<and> fields_ok (ps_file p') \<and> building (ps_file p') c \<and> ps_errors p' = ps_errors p
    \<and> df_by_name (ps_file p') = df_by_name (ps_file p)
    \<and> co_name (class_at (ps_file p') c) = co_name (class_at (ps_file p) c)
    \<and> co_parents (class_at (ps_file p') c) = co_parents (class_at (ps_file p) c)
    \<and> co_fields (class_at (ps_file p') c) =
        filter (\<lambda>g. field_name g \<notin> field_name ` set fs) (co_fields (class_at (ps_file p) c))
        @ renumbered (length (df_fields (ps_file p))) fs
    \<and> co_base_fields (class_at (ps_file p') c) =
        co_base_fields (class_at (ps_file p) c) @ renumbered (length (df_fields (ps_file p))) fs
    \<and> df_fields (ps_file p') = df_fields (ps_file p) @ renumbered (length (df_fields (ps_file p))) fs
    \<and> same_fields c (ps_file p) (ps_file p') \<and> co_listed (class_at (ps_file p') c)"
  using assms
proof (induction fs arbitrary: p)
  case (Cons f fs)
  let ?d = "ps_file p" and ?n = "field_name f"
  let ?f = "numbered (df_fields ?d) f"
  let ?co = "class_at ?d c"
  let ?new = "declare_enter ?f (unshadowed ?n ?co)"
  let ?d' = "put_class (with_field ?d c f) c ?new"
  let ?p = "p\<lparr>ps_file := ?d'\<rparr>"
  have len: "c < length (df_heap ?d)" using Cons.prems(3) by (simp add: building_def)
  have f: "?n \<noteq> []" "?n \<noteq> co_name ?co" "co_base_by_name ?co ?n = None"
    using Cons.prems(6,7,10) by (auto simp: image_iff)
  have run: "class_add_field c False (Some f) ?d = (Inr True, ?d')"
    using class_add_field_run [OF _ len f(1,2)] Cons.prems(3) f(3) by (simp add: building_def)
  obtain b d2 where step: "class_add_field c False (Some f) ?d = (Inr b, d2)" "links_ok d2" "fields_ok d2" "building d2 c"
    using class_add_field_step [OF Cons.prems(1,2,3) f(1)] by blast
  then have inv: "links_ok ?d'" "fields_ok ?d'" "building ?d' c" using run by simp_all
  have act: "act_class_field c (PlainField (Some f)) p = (Inr (), ?p)"
    using f(1) run by (simp add: act_class_field_def checked_def sbind_apply on_file_def)
  have ok: "co_ok (df_fields ?d) ?co" using fields_okD(2) [OF Cons.prems(2) _ len] Cons.prems(4) by simp
  have at: "class_at ?d' c = ?new" using len by simp
  note listed = declare_listed [OF ok Cons.prems(8,9), of ?f ?n, simplified]
  have "\<exists>p'. for_each (act_class_field c) (map (\<lambda>f. PlainField (Some f)) fs) ?p = (Inr (), p')
    \<and> links_ok (ps_file p') \<and> fields_ok (ps_file p') \<and> building (ps_file p') c \<and> ps_errors p' = ps_errors ?p
    \<and> df_by_name (ps_file p') = df_by_name (ps_file ?p)
    \<and> co_name (class_at (ps_file p') c) = co_name (class_at (ps_file ?p) c)
    \<and> co_parents (class_at (ps_file p') c) = co_parents (class_at (ps_file ?p) c)
    \<and> co_fields (class_at (ps_file p') c) =
        filter (\<lambda>g. field_name g \<notin> field_name ` set fs) (co_fields (class_at (ps_file ?p) c))
        @ renumbered (length (df_fields (ps_file ?p))) fs
    \<and> co_base_fields (class_at (ps_file p') c) =
        co_base_fields (class_at (ps_file ?p) c) @ renumbered (length (df_fields (ps_file ?p))) fs
    \<and> df_fields (ps_file p') = df_fields (ps_file ?p) @ renumbered (length (df_fields (ps_file ?p))) fs
    \<and> same_fields c (ps_file ?p) (ps_file p') \<and> co_listed (class_at (ps_file p') c)"
  proof (rule Cons.IH)
    show "co_base_by_name (class_at (ps_file ?p) c) (field_name g) = None" if "g \<in> set fs" for g
    proof -
      have "field_name g \<noteq> ?n" using Cons.prems(5) that by (auto simp: image_iff)
      with Cons.prems(10) that show ?thesis by (simp add: at)
    qed
    show "co_listed (class_at (ps_file ?p) c)" "distinct (map field_name (co_fields (class_at (ps_file ?p) c)))"
      using listed(2,3) by (simp_all add: at)
  qed (use Cons.prems(4-7) inv in \<open>simp_all add: at\<close>)
  then obtain p' where p': "for_each (act_class_field c) (map (\<lambda>f. PlainField (Some f)) fs) ?p = (Inr (), p')"
    "links_ok (ps_file p')" "fields_ok (ps_file p')" "building (ps_file p') c" "ps_errors p' = ps_errors ?p"
    "df_by_name (ps_file p') = df_by_name (ps_file ?p)"
    "co_name (class_at (ps_file p') c) = co_name (class_at (ps_file ?p) c)"
    "co_parents (class_at (ps_file p') c) = co_parents (class_at (ps_file ?p) c)"
    "co_base_fields (class_at (ps_file p') c) =
        co_base_fields (class_at (ps_file ?p) c) @ renumbered (length (df_fields (ps_file ?p))) fs"
    "df_fields (ps_file p') = df_fields (ps_file ?p) @ renumbered (length (df_fields (ps_file ?p))) fs"
    "same_fields c (ps_file ?p) (ps_file p')"
    "co_listed (class_at (ps_file p') c)"
    and fields: "co_fields (class_at (ps_file p') c) =
        filter (\<lambda>g. field_name g \<notin> field_name ` set fs) (co_fields (class_at (ps_file ?p) c))
        @ renumbered (length (df_fields (ps_file ?p))) fs" by blast
  have "?n \<notin> field_name ` set fs" using Cons.prems(5) by simp
  then have "co_fields (class_at (ps_file p') c) =
      filter (\<lambda>g. field_name g \<notin> field_name ` set (f # fs)) (co_fields ?co)
      @ renumbered (length (df_fields ?d)) (f # fs)"
    unfolding fields by (simp add: at listed(1)) (simp add: numbered_with_id conj_commute)
  moreover have "same_fields c ?d ?d'" by (simp add: same_fields_def)
  with p'(11) have "same_fields c ?d (ps_file p')" using same_fields_trans by simp
  ultimately show ?case using p' act by (simp add: sseq_apply at) (simp add: numbered_with_id)
qed simp

lemma get_class_by_name_Some: "get_class_by_name d n = Some c \<longleftrightarrow> df_by_name d n = Some (ClassRef c)"
  by (auto simp: get_class_by_name_def get_type_by_name_def split: option.splits type_ref.splits)

text \<open>One parent: its child list and the class change, and nothing else.\<close>

definition after_parent :: "dcfile \<Rightarrow> cref \<Rightarrow> cref \<Rightarrow> class_obj" where
  "after_parent d c q = fold (inherit_field (df_owner d)) (co_fields (class_at d q))
     ((class_at d c)\<lparr>co_parents := co_parents (class_at d c) @ [q]\<rparr>)"

definition with_parent :: "dcfile \<Rightarrow> cref \<Rightarrow> cref \<Rightarrow> dcfile" where
  "with_parent d c q = put_class (put_class d q ((class_at d q)\<lparr>co_children := co_children (class_at d q) @ [c]\<rparr>)) c
     (after_parent d c q)"

lemma with_parent_simps [simp]:
  "length (df_heap (with_parent d c q)) = length (df_heap d)" "df_fields (with_parent d c q) = df_fields d"
  "df_owner (with_parent d c q) = df_owner d" "df_by_name (with_parent d c q) = df_by_name d"
  "c < length (df_heap d) \<Longrightarrow> class_at (with_parent d c q) c = after_parent d c q"
  "q < length (df_heap d) \<Longrightarrow> a \<noteq> c \<Longrightarrow> class_at (with_parent d c q) a =
     (if a = q then (class_at d q)\<lparr>co_children := co_children (class_at d q) @ [c]\<rparr> else class_at d a)"
  by (simp_all add: with_parent_def)

lemma after_parent_simps [simp]:
  "co_parents (after_parent d c q) = co_parents (class_at d c) @ [q]" "co_name (after_parent d c q) = co_name (class_at d c)"
  "co_base_fields (after_parent d c q) = co_base_fields (class_at d c)"
  "co_children (after_parent d c q) = co_children (class_at d c)"
  by (simp_all add: after_parent_def)

lemma act_parent_run:
  assumes "links_ok (ps_file p)" "fields_ok (ps_file p)" "inheriting (ps_file p) c"
    and q: "df_by_name (ps_file p) n = Some (ClassRef q)" "q \<notin> set (co_parents (class_at (ps_file p) c))"
  shows "act_parent c n p = (Inr (), p\<lparr>ps_file := with_parent (ps_file p) c q\<rparr>)"
    "links_ok (with_parent (ps_file p) c q)" "fields_ok (with_parent (ps_file p) c q)" "inheriting (with_parent (ps_file p) c q) c"
    "c < length (df_heap (ps_file p))" "q < c"
proof -
  let ?d = "ps_file p"
  note L = links_okD [OF assms(1)]
  have b: "building ?d c" using assms(3) by (simp add: inheriting_def)
  show qc: "q < c" using L(1) [OF q(1)] q(1) b by (cases "q = c") (auto simp: building_def)
  show len: "c < length (df_heap ?d)" using b by (simp add: building_def)
  have run: "add_parent c q ?d = (Inr (), with_parent ?d c q)"
    unfolding with_parent_def after_parent_def
    by (rule add_parent_run) (use b len q(2) qc L(3) [OF len] in \<open>simp_all add: building_def\<close>)
  with add_parent_step [OF assms(1-3) q]
  show "links_ok (with_parent ?d c q)" "fields_ok (with_parent ?d c q)" "inheriting (with_parent ?d c q) c" by auto
  show "act_parent c n p = (Inr (), p\<lparr>ps_file := with_parent ?d c q\<rparr>)"
    using q(1) run by (simp add: act_parent_def defined_class_def get_class_by_name_def get_type_by_name_def
        sbind_apply on_file_def)
qed

lemma after_parent_listed:
  assumes "upwards (co_fields (class_at d c) @ co_fields (class_at d q))" "co_listed (class_at d c)"
    "co_base_by_name (class_at d c) = Map.empty"
  shows "co_fields (after_parent d c q) = co_fields (class_at d c) @ co_fields (class_at d q)"
    "co_listed (after_parent d c q)" "co_base_by_name (after_parent d c q) = Map.empty"
  using inherit_fold_listed [of "(class_at d c)\<lparr>co_parents := co_parents (class_at d c) @ [q]\<rparr>" "co_fields (class_at d q)" "df_owner d"] assms
  by (simp_all add: after_parent_def co_listed_def)

text \<open>The loop of the parser over the parents of a class.\<close>

lemma act_parents_run:
  assumes "links_ok (ps_file p)" "fields_ok (ps_file p)" "inheriting (ps_file p) c"
    and "list_all2 (\<lambda>n q. df_by_name (ps_file p) n = Some (ClassRef q)) names qs"
    and "distinct qs" "set qs \<inter> set (co_parents (class_at (ps_file p) c)) = {}"
    and "fs = concat (map (\<lambda>q. co_fields (class_at (ps_file p) q)) qs)"
    and "upwards (co_fields (class_at (ps_file p) c) @ fs)"
    and "co_listed (class_at (ps_file p) c)" "co_base_by_name (class_at (ps_file p) c) = Map.empty"
  shows "\<exists>p'. for_each (act_parent c) names p = (Inr (), p')
    \<and> links_ok (ps_file p') \<and> fields_ok (ps_file p') \<and> inheriting (ps_file p') c \<and> ps_errors p' = ps_errors p
    \<and> df_fields (ps_file p') = df_fields (ps_file p) \<and> df_by_name (ps_file p') = df_by_name (ps_file p)
    \<and> co_name (class_at (ps_file p') c) = co_name (class_at (ps_file p) c)
    \<and> co_parents (class_at (ps_file p') c) = co_parents (class_at (ps_file p) c) @ qs
    \<and> co_fields (class_at (ps_file p') c) = co_fields (class_at (ps_file p) c) @ fs
    \<and> same_fields c (ps_file p) (ps_file p')
    \<and> co_listed (class_at (ps_file p') c) \<and> co_base_by_name (class_at (ps_file p') c) = Map.empty"
  using assms
proof (induction names arbitrary: p qs fs)
  case (Cons n names)
  let ?d = "ps_file p"
  from Cons.prems(4) obtain q rest where qs: "qs = q # rest" and q: "df_by_name ?d n = Some (ClassRef q)"
    and rest: "list_all2 (\<lambda>n q. df_by_name ?d n = Some (ClassRef q)) names rest"
    by (auto simp: list_all2_Cons1)
  have new: "q \<notin> set (co_parents (class_at ?d c))" using Cons.prems(6) qs by auto
  note run = act_parent_run [OF Cons.prems(1-3) q new]
  let ?d' = "with_parent ?d c q"
  have len: "c < length (df_heap ?d)" "q < length (df_heap ?d)" "c \<noteq> q" using run(5,6) by simp_all
  have b: "building ?d c" using Cons.prems(3) by (simp add: inheriting_def)
  have fs: "fs = co_fields (class_at ?d q) @ concat (map (\<lambda>q. co_fields (class_at ?d q)) rest)"
    using Cons.prems(7) qs by simp
  have "upwards (co_fields (class_at ?d c) @ co_fields (class_at ?d q))"
    by (rule upwards_front [where ys = "concat (map (\<lambda>q. co_fields (class_at ?d q)) rest)"])
      (use Cons.prems(8) fs in simp)
  note co = after_parent_listed [OF this Cons.prems(9,10)]
  have above: "r \<noteq> c" if "r \<in> set rest" for r
    using rest that b by (auto simp: list_all2_conv_all_nth in_set_conv_nth building_def)
  let ?p = "p\<lparr>ps_file := ?d'\<rparr>" and ?more = "concat (map (\<lambda>q. co_fields (class_at ?d q)) rest)"
  have same: "map (\<lambda>q. co_fields (class_at ?d' q)) rest = map (\<lambda>q. co_fields (class_at ?d q)) rest"
    by (rule map_cong [OF refl]) (use above len in auto)
  have now: "ps_file ?p = ?d'" by simp
  have "\<exists>p'. for_each (act_parent c) names ?p = (Inr (), p')
    \<and> links_ok (ps_file p') \<and> fields_ok (ps_file p') \<and> inheriting (ps_file p') c \<and> ps_errors p' = ps_errors ?p
    \<and> df_fields (ps_file p') = df_fields (ps_file ?p) \<and> df_by_name (ps_file p') = df_by_name (ps_file ?p)
    \<and> co_name (class_at (ps_file p') c) = co_name (class_at (ps_file ?p) c)
    \<and> co_parents (class_at (ps_file p') c) = co_parents (class_at (ps_file ?p) c) @ rest
    \<and> co_fields (class_at (ps_file p') c) = co_fields (class_at (ps_file ?p) c) @ ?more
    \<and> same_fields c (ps_file ?p) (ps_file p')
    \<and> co_listed (class_at (ps_file p') c) \<and> co_base_by_name (class_at (ps_file p') c) = Map.empty"
  proof (rule Cons.IH)
    show "?more = concat (map (\<lambda>q. co_fields (class_at (ps_file ?p) q)) rest)"
      unfolding now same ..
    show "upwards (co_fields (class_at (ps_file ?p) c) @ ?more)" using Cons.prems(8) fs co len by simp
    show "set rest \<inter> set (co_parents (class_at (ps_file ?p) c)) = {}"
      using Cons.prems(5,6) qs len by auto
  qed (use run rest Cons.prems(5) qs co len in simp_all)
  moreover have "same_fields c ?d ?d'" using len by (simp add: same_fields_def)
  ultimately show ?case using run(1) co len fs qs same_fields_trans [of c ?d ?d'] by (auto simp: sseq_apply)
qed auto

text \<open>A class declaration, from its first to its last action.\<close>

definition exact_class :: "parser_state \<Rightarrow> string \<Rightarrow> cref list \<Rightarrow> field list \<Rightarrow> parser_state \<Rightarrow> bool" where
  "exact_class p name qs fs p' \<longleftrightarrow>
     (let d = ps_file p; d' = ps_file p'; c = length (df_heap d); own = renumbered (length (df_fields d)) fs in
        ps_errors p' = ps_errors p \<and> links_ok d' \<and> fields_ok d' \<and> length (df_heap d') = Suc c
      \<and> df_by_name d' = (df_by_name d)(name \<mapsto> ClassRef c) \<and> df_fields d' = df_fields d @ own
      \<and> co_parents (class_at d' c) = qs \<and> co_base_fields (class_at d' c) = own
      \<and> co_fields (class_at d' c) =
          filter (\<lambda>g. field_name g \<notin> field_name ` set fs) (concat (map (\<lambda>q. co_fields (class_at d q)) qs)) @ own
      \<and> co_listed (class_at d' c)
      \<and> (\<forall>a < c. co_fields (class_at d' a) = co_fields (class_at d a)
            \<and> co_base_fields (class_at d' a) = co_base_fields (class_at d a)))"

lemma act_class_exact:
  assumes tables: "links_ok (ps_file p)" "fields_ok (ps_file p)"
    and room: "length (df_fields (ps_file p)) + length fs < 2 ^ 32"
    and parents: "list_all2 (\<lambda>n q. get_class_by_name (ps_file p) n = Some q) names qs" "distinct qs"
      "inherited_fields = concat (map (\<lambda>q. co_fields (class_at (ps_file p) q)) qs)" "upwards inherited_fields"
    and own: "distinct (map field_name fs)" "[] \<notin> field_name ` set fs" "name \<notin> field_name ` set fs"
    and fresh: "name \<noteq> []" "get_type_by_name (ps_file p) name = None"
  shows "\<exists>p'. act_class name names (map (\<lambda>f. PlainField (Some f)) fs) p = (Inr (), p') \<and> exact_class p name qs fs p'"
proof -
  let ?d = "ps_file p" and ?c = "length (df_heap (ps_file p))"
  obtain d1 where new: "new_class name ?d = (Inr ?c, d1)" and d1: "links_ok d1" "fields_ok d1" "inheriting d1 ?c"
    "df_by_name d1 = df_by_name ?d" "class_at d1 ?c = class_obj_new name"
    using new_class_step [OF tables] by blast
  then have d1_eq: "d1 = ?d\<lparr>df_heap := df_heap ?d @ [class_obj_new name]\<rparr>" by (simp add: new_class_def)
  have by_name: "list_all2 (\<lambda>n q. df_by_name d1 n = Some (ClassRef q)) names qs"
    using parents(1) unfolding d1(4) by (rule list_all2_mono) (simp add: get_class_by_name_Some)
  have "q < ?c" if "q \<in> set qs" for q
    using parents(1) that links_okD(1) [OF tables(1)] by (auto simp: list_all2_conv_all_nth in_set_conv_nth get_class_by_name_Some)
  then have old: "inherited_fields = concat (map (\<lambda>q. co_fields (class_at d1 q)) qs)"
    unfolding parents(3) by (intro arg_cong [of _ _ concat] map_cong) (simp_all add: d1_eq class_at_def nth_append)
  let ?p1 = "p\<lparr>ps_file := d1\<rparr>"
  obtain p2 where p2: "for_each (act_parent ?c) names ?p1 = (Inr (), p2)" "links_ok (ps_file p2)" "fields_ok (ps_file p2)"
    "inheriting (ps_file p2) ?c" "ps_errors p2 = ps_errors p" "df_fields (ps_file p2) = df_fields ?d"
    "df_by_name (ps_file p2) = df_by_name ?d" "co_name (class_at (ps_file p2) ?c) = name"
    "co_parents (class_at (ps_file p2) ?c) = qs" "co_fields (class_at (ps_file p2) ?c) = inherited_fields"
    "same_fields ?c d1 (ps_file p2)" "co_base_fields (class_at (ps_file p2) ?c) = []"
    "co_listed (class_at (ps_file p2) ?c)" "co_base_by_name (class_at (ps_file p2) ?c) = Map.empty"
    using act_parents_run [of ?p1 ?c names qs inherited_fields] d1 by_name old parents(2,4)
    by (auto simp: class_obj_new_def co_listed_def d1_eq inheriting_def)
  obtain p3 where p3: "for_each (act_class_field ?c) (map (\<lambda>f. PlainField (Some f)) fs) p2 = (Inr (), p3)"
    "building (ps_file p3) ?c" "ps_errors p3 = ps_errors p" "df_by_name (ps_file p3) = df_by_name ?d"
    "co_name (class_at (ps_file p3) ?c) = name" "co_parents (class_at (ps_file p3) ?c) = qs"
    "co_fields (class_at (ps_file p3) ?c) =
        filter (\<lambda>g. field_name g \<notin> field_name ` set fs) inherited_fields @ renumbered (length (df_fields ?d)) fs"
    "co_listed (class_at (ps_file p3) ?c)" "links_ok (ps_file p3)" "fields_ok (ps_file p3)"
    "co_base_fields (class_at (ps_file p3) ?c) = renumbered (length (df_fields ?d)) fs"
    "df_fields (ps_file p3) = df_fields ?d @ renumbered (length (df_fields ?d)) fs" "same_fields ?c d1 (ps_file p3)"
    using declare_fields_run [of p2 ?c fs] p2 room own parents(4)
    by (auto simp: inheriting_def upwards_def intro: same_fields_trans)
  let ?co = "(class_at (ps_file p3) ?c)\<lparr>co_id := word_of_nat (length (df_types (ps_file p3)))\<rparr>"
  obtain d4 where d4: "add_class ?c (ps_file p3) = (Inr True, d4)" "class_at d4 ?c = ?co"
    "df_by_name d4 = (df_by_name ?d)(name \<mapsto> ClassRef ?c)" "length (df_heap d4) = Suc ?c" "df_fields d4 = df_fields (ps_file p3)"
    "\<And>a. a \<noteq> ?c \<Longrightarrow> class_at d4 a = class_at (ps_file p3) a"
    using p3(2,4,5) fresh by (simp add: add_class_def sseq_apply get_type_by_name_def building_def)
  obtain b d5 where d5: "add_class ?c (ps_file p3) = (Inr b, d5)" "links_ok d5" "fields_ok d5"
    using add_class_step [OF p3(9,10,2)] by blast
  with d4(1) have ok: "links_ok d4" "fields_ok d4" by simp_all
  have old: "class_at d1 a = class_at ?d a" if "a < ?c" for a
    using that by (simp add: d1_eq class_at_def nth_append)
  have frame: "co_fields (class_at d4 a) = co_fields (class_at ?d a) \<and> co_base_fields (class_at d4 a) = co_base_fields (class_at ?d a)"
    if "a < ?c" for a
    using that d4(6) [of a] p3(13) old [OF that] by (simp add: same_fields_def)
  have "act_class name names (map (\<lambda>f. PlainField (Some f)) fs) p = (Inr (), p3\<lparr>ps_file := d4\<rparr>)"
    using new p2(1) p3(1) d4(1) by (simp add: act_class_def sbind_apply sseq_apply on_file_def checked_def)
  moreover have "exact_class p name qs fs (p3\<lparr>ps_file := d4\<rparr>)"
    using d4(2-5) ok p3(3,6,7,8,11,12) frame parents(3) by (simp add: exact_class_def Let_def co_listed_def)
  ultimately show ?thesis by blast
qed

section \<open>Properties\<close>


definition demo_field :: "string \<Rightarrow> field" where
  "demo_field name = Field 0 name [''required''] (TNumeric (numeric_type_new T_UINT8)) [0] False False"

lemma demo_field_name [simp]: "field_name (demo_field n) = n"
  by (simp add: demo_field_def)

definition demo_start :: parser_state where
  "demo_start = \<lparr>ps_file = dcfile_new, ps_errors = 0\<rparr>"

text \<open>A base class, and two classes that inherit from it.\<close>

definition demo_class :: "string \<Rightarrow> string list \<Rightarrow> string list \<Rightarrow> parser_state \<Rightarrow> parser_state" where
  "demo_class name parents ns p = snd (act_class name parents (map (\<lambda>f. PlainField (Some f)) (map demo_field ns)) p)"

definition demo_base :: parser_state where
  "demo_base = demo_class ''Base'' [] [''x'', ''y''] demo_start"

definition demo_left :: parser_state where
  "demo_left = demo_class ''Left'' [''Base''] [''l''] demo_base"

definition demo_right :: parser_state where
  "demo_right = demo_class ''Right'' [''Base''] [''r''] demo_left"

lemma demo_class_exact:
  assumes "links_ok (ps_file p)" "fields_ok (ps_file p)" "length (df_fields (ps_file p)) + length ns < 2 ^ 32"
    "list_all2 (\<lambda>n q. get_class_by_name (ps_file p) n = Some q) names qs" "distinct qs"
    "upwards (concat (map (\<lambda>q. co_fields (class_at (ps_file p) q)) qs))"
    "distinct ns" "[] \<notin> set ns" "name \<notin> set ns" "name \<noteq> []" "df_by_name (ps_file p) name = None"
  shows "exact_class p name qs (map demo_field ns) (demo_class name names ns p)"
proof -
  have "\<exists>p'. act_class name names (map (\<lambda>f. PlainField (Some f)) (map demo_field ns)) p = (Inr (), p')
      \<and> exact_class p name qs (map demo_field ns) p'"
    by (rule act_class_exact) (use assms in \<open>auto simp: comp_def get_type_by_name_def\<close>)
  then show ?thesis by (auto simp: demo_class_def)
qed

lemma demo_base_exact: "exact_class demo_start ''Base'' [] (map demo_field [''x'', ''y'']) demo_base"
  unfolding demo_base_def
  by (rule demo_class_exact) (simp_all add: demo_start_def dcfile_new_ok, simp_all add: dcfile_new_def upwards_def)

abbreviation demo_x :: field where "demo_x \<equiv> with_id 0 (demo_field ''x'')"
abbreviation demo_y :: field where "demo_y \<equiv> with_id 1 (demo_field ''y'')"

lemma demo_base_facts:
  "links_ok (ps_file demo_base)" "fields_ok (ps_file demo_base)" "length (df_fields (ps_file demo_base)) = 2"
  "df_by_name (ps_file demo_base) = [''Base'' \<mapsto> ClassRef 0]" "length (df_heap (ps_file demo_base)) = 1"
  "co_fields (class_at (ps_file demo_base) 0) = [demo_x, demo_y]"
  "co_base_fields (class_at (ps_file demo_base) 0) = [demo_x, demo_y]" "ps_errors demo_base = 0"
  using demo_base_exact by (simp_all add: exact_class_def Let_def demo_start_def dcfile_new_def)


section \<open>Inheriting the same field twice\<close>

text \<open>A field with the smallest number that is looked up but not listed stays so.\<close>

definition lost :: "field \<Rightarrow> class_obj \<Rightarrow> bool" where
  "lost x co \<longleftrightarrow> x \<notin> set (co_fields co) \<and> co_by_id co (field_id x) = Some x \<and> co_by_name co (field_name x) = Some x"

lemma set_insert_field: "set (insert_field f fs) \<subseteq> insert f (set fs)"
  by (rule insert_field_split [of fs f]) auto

lemma inherit_field_lost:
  assumes ok: "co_ok tbl co" and lost: "lost x co" and f: "field_id f \<noteq> field_id x" "field_name f \<noteq> field_name x"
  shows "lost x (inherit_field owner f co)"
proof -
  have fx: "x \<noteq> f" using f by auto
  have enter: "lost x (inherit_enter f co')" if "lost x co'" for co'
    using that f fx set_insert_field [of f "co_fields co'"] by (auto simp: lost_def)
  have drop: "lost x (drop_field prev co)" if "co_by_name co (field_name f) = Some prev" for prev
  proof -
    have "field_name prev = field_name f" "co_by_id co (field_id prev) = Some prev" using co_okD(1,2) [OF ok that] by simp_all
    moreover from this f(2) lost have "field_id prev \<noteq> field_id x" by (metis lost_def option.inject)
    ultimately show ?thesis using lost f(2) by (simp add: lost_def drop_field_fields [OF ok])
  qed
  show ?thesis
    using lost enter drop by (auto simp: inherit_field_def split: option.split)
qed

lemma inherit_fold_lost:
  assumes "co_ok tbl co" "co_paired co" "co_base_fields co = []" "lost x co"
    and "\<And>f. f \<in> set fs \<Longrightarrow> unat (field_id f) < length tbl \<and> tbl ! unat (field_id f) = f"
    and "\<And>f. f \<in> set fs \<Longrightarrow> field_id f \<noteq> field_id x \<and> field_name f \<noteq> field_name x"
  shows "lost x (fold (inherit_field owner) fs co)"
  using assms
proof (induction fs arbitrary: co)
  case (Cons f fs)
  have "unat (field_id f) < length tbl \<and> tbl ! unat (field_id f) = f" by (rule Cons.prems(5)) simp
  then have "unat (field_id f) < length tbl" "tbl ! unat (field_id f) = f" by blast+
  note step = inherit_field_ok [OF Cons.prems(1-3) this, of owner]
  have "lost x (inherit_field owner f co)"
    by (rule inherit_field_lost [OF Cons.prems(1,4)]) (use Cons.prems(6) [of f] in simp_all)
  note now = this
  have "lost x (fold (inherit_field owner) fs (inherit_field owner f co))"
  proof (rule Cons.IH [OF _ _ _ now])
    show "co_ok tbl (inherit_field owner f co)" "co_paired (inherit_field owner f co)" "co_base_fields (inherit_field owner f co) = []"
      using step by simp_all
    show "unat (field_id g) < length tbl \<and> tbl ! unat (field_id g) = g" if "g \<in> set fs" for g
      by (rule Cons.prems(5)) (simp add: that)
    show "field_id g \<noteq> field_id x \<and> field_name g \<noteq> field_name x" if "g \<in> set fs" for g
      by (rule Cons.prems(6)) (simp add: that)
  qed
  then show ?case by simp
qed simp

lemma inherit_twice_lost:
  assumes co: "co_fields co = x # fs" "fs \<noteq> []" "co_ok tbl co" "co_listed co" "co_base_by_name co = Map.empty"
    and owner: "owner (field_id x) \<notin> Some ` set (co_parents co)"
  shows "lost x (inherit_field owner x co)"
proof -
  note D = co_okD [OF co(3)]
  have x: "co_by_name co (field_name x) = Some x" using co(1,4) by (simp add: co_listed_def)
  have larger: "field_id x < field_id g" if "g \<in> set fs" for g using D(6) co(1) that by simp
  have rest: "co_fields (drop_field x co) = fs"
    using larger by (simp add: drop_field_fields [OF co(3)] co(1)) (metis (mono_tags, lifting) filter_True less_irrefl)
  have "insert_field x fs = fs" by (rule insert_field_smallest [OF co(2)]) (use larger in force)
  then have "co_fields (inherit_enter x (drop_field x co)) = fs" using rest by simp
  moreover have "x \<notin> set fs" using larger by force
  ultimately show ?thesis
    using x co(5) owner by (simp add: inherit_field_def lost_def)
qed


lemma demo_left_exact: "exact_class demo_base ''Left'' [0] (map demo_field [''l'']) demo_left"
  unfolding demo_left_def
  by (rule demo_class_exact) (simp_all add: demo_base_facts get_class_by_name_Some upwards_def)

abbreviation demo_l :: field where "demo_l \<equiv> with_id 2 (demo_field ''l'')"
abbreviation demo_r :: field where "demo_r \<equiv> with_id 3 (demo_field ''r'')"

lemma demo_left_facts:
  "links_ok (ps_file demo_left)" "fields_ok (ps_file demo_left)" "length (df_fields (ps_file demo_left)) = 3"
  "df_by_name (ps_file demo_left) = [''Base'' \<mapsto> ClassRef 0, ''Left'' \<mapsto> ClassRef 1]" "length (df_heap (ps_file demo_left)) = 2"
  "co_fields (class_at (ps_file demo_left) 0) = [demo_x, demo_y]" "co_fields (class_at (ps_file demo_left) (Suc 0)) = [demo_x, demo_y, demo_l]"
  "co_base_fields (class_at (ps_file demo_left) 0) = [demo_x, demo_y]" "ps_errors demo_left = 0"
  using demo_left_exact by (simp_all add: exact_class_def Let_def demo_base_facts numeral_2_eq_2)

lemma demo_right_exact: "exact_class demo_left ''Right'' [0] (map demo_field [''r'']) demo_right"
  unfolding demo_right_def
  by (rule demo_class_exact) (simp_all add: demo_left_facts get_class_by_name_Some upwards_def)

lemma demo_right_facts:
  "links_ok (ps_file demo_right)" "fields_ok (ps_file demo_right)" "length (df_fields (ps_file demo_right)) = 4"
  "df_by_name (ps_file demo_right) = [''Base'' \<mapsto> ClassRef 0, ''Left'' \<mapsto> ClassRef 1, ''Right'' \<mapsto> ClassRef 2]"
  "length (df_heap (ps_file demo_right)) = 3" "ps_errors demo_right = 0"
  "co_fields (class_at (ps_file demo_right) (Suc 0)) = [demo_x, demo_y, demo_l]"
  "co_fields (class_at (ps_file demo_right) 2) = [demo_x, demo_y, demo_r]"
  "co_base_fields (class_at (ps_file demo_right) 0) = [demo_x, demo_y]"
  using demo_right_exact by (simp_all add: exact_class_def Let_def demo_left_facts numeral_2_eq_2)

lemma demo_right_owner: "df_owner (ps_file demo_right) 0 = Some 0"
  using fields_okD(3) [OF demo_right_facts(2), of 0 demo_x] by (simp add: demo_right_facts)


text \<open>
  Naming a parent twice, by its name or by an alias of it, is undefined behaviour when that parent
  inherited a field itself. The
  class parser hands the field down a second time, takes the old field of that name out of its
  tables, and then uses the table entry it has just erased.
\<close>

theorem duplicate_parent_dangles:
  assumes tables: "links_ok (ps_file p)" "fields_ok (ps_file p)" "length (df_fields (ps_file p)) < 2 ^ 32"
    and parent: "get_class_by_name (ps_file p) nb = Some b" "get_class_by_name (ps_file p) nb' = Some b" "co_fields (class_at (ps_file p) b) = x # bs"
    and names: "distinct (map field_name (x # bs))"
    and owner: "df_owner (ps_file p) (field_id x) = Some a" "a \<noteq> b"
  shows "fst (act_class name (nb # nb' # ns) fds p) = Inl DanglingReference"
proof -
  let ?d = "ps_file p" and ?k = "length (df_heap (ps_file p))"
  have len: "b < ?k" using parent(1) links_okD(1) [OF tables(1)] by (simp add: get_class_by_name_Some)
  obtain d1 where new: "new_class name ?d = (Inr ?k, d1)" and d1: "links_ok d1" "fields_ok d1" "inheriting d1 ?k"
    "df_by_name d1 = df_by_name ?d" "class_at d1 ?k = class_obj_new name"
    using new_class_step [OF tables(1,2)] by blast
  then have d1_eq: "d1 = ?d\<lparr>df_heap := df_heap ?d @ [class_obj_new name]\<rparr>" by (simp add: new_class_def)
  have old: "class_at d1 b = class_at ?d b" using len by (simp add: d1_eq class_at_def nth_append)
  have up: "upwards (x # bs)"
    using co_okD(6) [OF fields_okD(2) [OF tables(2,3) len]] names parent(3) by (simp add: upwards_def)
  have pb: "df_by_name d1 nb = Some (ClassRef b)" "df_by_name d1 nb' = Some (ClassRef b)" using parent(1,2) d1(4) by (simp_all add: get_class_by_name_Some)
  have start: "co_fields (class_obj_new name) = []" "co_parents (class_obj_new name) = []" "co_children (class_obj_new name) = []"
    "co_listed (class_obj_new name)" "co_base_by_name (class_obj_new name) = Map.empty"
    by (simp_all add: class_obj_new_def co_listed_def)
  let ?p1 = "p\<lparr>ps_file := d1\<rparr>" and ?d2 = "with_parent d1 ?k b"
  have "b \<notin> set (co_parents (class_at (ps_file ?p1) ?k))" using d1(5) start by simp
  note run1 = act_parent_run [of ?p1 ?k nb b, simplified, OF d1(1-3) pb(1) this [simplified]]
  have l1: "?k < length (df_heap d1)" "b < length (df_heap d1)" "b \<noteq> ?k" using run1(5) len by simp_all
  have "co_fields (after_parent d1 ?k b) = x # bs \<and> co_listed (after_parent d1 ?k b) \<and> co_base_by_name (after_parent d1 ?k b) = Map.empty"
    using after_parent_listed [of d1 ?k b] up start d1(5) old parent(3) by simp
  then have at2: "co_by_name (class_at ?d2 ?k) (field_name x) = Some x" "co_base_by_name (class_at ?d2 ?k) = Map.empty"
    "co_parents (class_at ?d2 ?k) = [b]" "co_children (class_at ?d2 ?k) = []"
    using l1 d1(5) start by (simp_all add: co_listed_def)
  have b2: "co_fields (class_at ?d2 b) = x # bs" using l1 old parent(3) by simp
  let ?d3 = "put_class (put_class ?d2 b ((class_at ?d2 b)\<lparr>co_children := co_children (class_at ?d2 b) @ [?k]\<rparr>)) ?k
    ((class_at ?d2 ?k)\<lparr>co_parents := [b, b]\<rparr>)"
  have at3: "co_children (class_at ?d3 ?k) = []" "?k < length (df_heap ?d3)" using l1 at2(4) by simp_all
  have "resolve_conflict (Suc n) ?k b (Some a) x True [b, b] ?d3
      = (Inl DanglingReference, put_class ?d3 ?k (drop_field x (class_at ?d3 ?k)))" for n
    using owner(2) by (simp add: sseq_apply shadow_field_run [OF at3] del: shadow_field.simps put_class_simps(8) class_at_put)
  then have "fst (add_parent ?k b ?d2) = Inl DanglingReference"
    using at2 b2 l1 owner(1)
    by (simp add: add_parent_def sseq_apply sbind_apply fuel_of_def d1_eq del: resolve_conflict.simps)
  then have "fst (act_parent ?k nb' (p\<lparr>ps_file := ?d2\<rparr>)) = Inl DanglingReference"
    using pb by (cases "add_parent ?k b ?d2") (simp add: act_parent_def defined_class_def get_class_by_name_def
        get_type_by_name_def sbind_apply on_file_def)
  then show ?thesis
    using new run1(1) by (auto simp: act_class_def sbind_apply sseq_apply on_file_def split: prod.splits sum.splits)
qed

lemma duplicate_parent_dangles_witness:
  "fst (act_class ''Twice'' [''Left'', ''Left''] [] demo_right) = Inl DanglingReference"
  by (rule duplicate_parent_dangles [where b = "Suc 0" and x = demo_x and bs = "[demo_y, demo_l]" and a = 0])
    (simp_all add: demo_right_facts demo_right_owner get_class_by_name_Some)

section \<open>Every file\<close>

text \<open>
  C15: whatever the declarations of a dclass file are, once the parser has recognised them, as long as
  no class names the same class twice as its parent (by its name or by an alias a typedef gave it),
  carrying them out comes to an end without undefined behaviour, and if the file is accepted with
  fewer than 2^32 fields, every class the servers can look up is consistent: its number and its name
  lead back to it, its fields have increasing numbers, and the number of each of them leads to that
  field, in the class and in the file.
\<close>

theorem class_tables_consistent:
  assumes "no_parent_twice ds \<lparr>ps_file = dcfile_new, ps_errors = 0\<rparr>"
  shows "\<exists>r. read_file ds = Inr r \<and> (\<forall>d i c. r = Some d \<longrightarrow> length (df_fields d) < 2 ^ 32 \<longrightarrow> get_class_by_id d i = Some c \<longrightarrow>
    (let v = class_view d c in cls_id v = i \<and> get_class_by_name d (cls_name v) = Some c
      \<and> sorted_wrt (\<lambda>f g. field_id f < field_id g) (cls_fields v)
      \<and> (\<forall>f \<in> set (cls_fields v). get_field_by_id v (field_id f) = Some f \<and> file_field_by_id d (field_id f) = Some f)))"
proof -
  obtain accepted d where read: "append_file ds dcfile_new = (Inr accepted, d)" and ok: "links_ok d" "fields_ok d"
    using read_returns [OF assms dcfile_new_ok] by blast
  have "let v = class_view d c in cls_id v = i \<and> get_class_by_name d (cls_name v) = Some c
      \<and> sorted_wrt (\<lambda>f g. field_id f < field_id g) (cls_fields v)
      \<and> (\<forall>f \<in> set (cls_fields v). get_field_by_id v (field_id f) = Some f \<and> file_field_by_id d (field_id f) = Some f)"
    if room: "length (df_fields d) < 2 ^ 32" and c: "get_class_by_id d i = Some c" for i c
  proof -
    have "unat i < length (df_types d)" "df_types d ! unat i = ClassRef c"
      using c by (auto simp: get_class_by_id_def get_type_by_id_def split: if_splits)
    from links_okD(7) [OF ok(1) this] have c: "c < length (df_heap d)"
      "df_by_name d (co_name (class_at d c)) = Some (ClassRef c)" "co_id (class_at d c) = i" by simp_all
    note D = co_okD [OF fields_okD(2) [OF ok(2) room c(1)]]
    have "co_by_id (class_at d c) (field_id f) = Some f \<and> file_field_by_id d (field_id f) = Some f"
      if "f \<in> set (co_fields (class_at d c))" for f
      using D(4) [OF D(5) [OF that]] D(5) [OF that] by (simp add: file_field_by_id_def)
    with c D(6) show ?thesis by (simp add: class_view_def Let_def get_class_by_name_Some get_field_by_id_def)
  qed
  with read show ?thesis by (simp add: read_file_def)
qed

text \<open>A file in which a class is named by an alias as a parent.\<close>

definition demo_file :: "decl list" where
  "demo_file = [DeclClass ''Base'' [] (map (\<lambda>f. PlainField (Some f)) (map demo_field [''x'', ''y''])),
     DeclTypedef ''Ground'' (NamedType ''Base''),
     DeclClass ''Left'' [''Ground''] (map (\<lambda>f. PlainField (Some f)) (map demo_field [''l'']))]"

definition demo_alias :: parser_state where
  "demo_alias = demo_base\<lparr>ps_file := (ps_file demo_base)\<lparr>df_by_name := (df_by_name (ps_file demo_base))(''Ground'' \<mapsto> ClassRef 0)\<rparr>\<rparr>"

lemma demo_base_run: "act_class ''Base'' [] (map (\<lambda>f. PlainField (Some f)) (map demo_field [''x'', ''y''])) demo_start = (Inr (), demo_base)"
proof -
  have "\<exists>p'. act_class ''Base'' [] (map (\<lambda>f. PlainField (Some f)) (map demo_field [''x'', ''y''])) demo_start = (Inr (), p')
      \<and> exact_class demo_start ''Base'' [] (map demo_field [''x'', ''y'']) p'"
    by (rule act_class_exact) (simp_all add: demo_start_def dcfile_new_ok, simp_all add: dcfile_new_def upwards_def get_type_by_name_def)
  then show ?thesis by (auto simp: demo_base_def demo_class_def)
qed

lemma demo_alias_run: "act_typedef ''Ground'' (NamedType ''Base'') demo_base = (Inr (), demo_alias)"
  by (simp add: act_typedef_def act_typedef_type_def defined_type_def sbind_apply sseq_apply get_type_by_name_def
      demo_base_facts ref_type_def set_ref_alias_def on_file_def checked_def add_typedef_def demo_alias_def)

lemma demo_alias_facts:
  "links_ok (ps_file demo_alias)" "fields_ok (ps_file demo_alias)" "ps_errors demo_alias = 0"
  "df_by_name (ps_file demo_alias) = [''Base'' \<mapsto> ClassRef 0, ''Ground'' \<mapsto> ClassRef 0]"
  "df_fields (ps_file demo_alias) = df_fields (ps_file demo_base)" "df_heap (ps_file demo_alias) = df_heap (ps_file demo_base)"
  "class_at (ps_file demo_alias) c = class_at (ps_file demo_base) c"
  using act_typedef_returns [of "''Ground''" "NamedType ''Base''"] demo_base_facts(1,2)
  by (auto simp: returns_def demo_alias_run [symmetric] dest!: spec [of _ demo_base])
    (simp_all add: demo_alias_run demo_alias_def demo_base_facts)

lemma demo_last_run:
  "\<exists>p. act_class ''Left'' [''Ground''] (map (\<lambda>f. PlainField (Some f)) (map demo_field [''l''])) demo_alias = (Inr (), p)
    \<and> exact_class demo_alias ''Left'' [0] (map demo_field [''l'']) p"
  by (rule act_class_exact)
    (simp_all add: demo_alias_facts demo_base_facts get_class_by_name_Some get_type_by_name_def, simp_all add: upwards_def)

lemma class_tables_consistent_witness:
  "\<exists>d. read_file demo_file = Inr (Some d) \<and> get_class_by_name d ''Ground'' = Some 0 \<and> get_class_by_name d ''Left'' = Some 1
    \<and> cls_fields (class_view d 1) = [demo_x, demo_y, with_id 2 (demo_field ''l'')]
    \<and> (\<forall>i c. get_class_by_id d i = Some c \<longrightarrow>
      (let v = class_view d c in cls_id v = i \<and> get_class_by_name d (cls_name v) = Some c
        \<and> sorted_wrt (\<lambda>f g. field_id f < field_id g) (cls_fields v)
        \<and> (\<forall>f \<in> set (cls_fields v). get_field_by_id v (field_id f) = Some f \<and> file_field_by_id d (field_id f) = Some f)))"
proof -
  have "no_parent_twice demo_file \<lparr>ps_file = dcfile_new, ps_errors = 0\<rparr>"
    by (simp add: demo_file_def parents_differ_def split: option.split)
  note every = class_tables_consistent [OF this]
  obtain p where p: "act_class ''Left'' [''Ground''] (map (\<lambda>f. PlainField (Some f)) (map demo_field [''l''])) demo_alias = (Inr (), p)"
    "exact_class demo_alias ''Left'' [0] (map demo_field [''l'']) p" using demo_last_run by blast
  let ?d = "ps_file p"
  have facts: "ps_errors p = 0" "get_class_by_name ?d ''Ground'' = Some 0" "get_class_by_name ?d ''Left'' = Some 1"
    "length (df_fields ?d) = 3" "cls_fields (class_view ?d 1) = [demo_x, demo_y, with_id 2 (demo_field ''l'')]"
    using p(2) by (simp_all add: exact_class_def Let_def demo_alias_facts demo_base_facts get_class_by_name_Some class_view_def)
  have "for_each run_decl demo_file demo_start = (Inr (), p)"
    using p(1) demo_base_run demo_alias_run by (simp add: demo_file_def run_decl_def sseq_apply)
  then have read: "read_file demo_file = Inr (Some ?d)"
    using facts(1) by (simp add: read_file_def append_file_def demo_start_def)
  show ?thesis
    by (rule exI [of _ ?d]) (use every read facts in auto)
qed

end
