(* ===== verification/Network_Client.thy ===== *)
theory Network_Client
  imports Datagram
begin

text \<open>
  A TCP connection, the class \<open>NetworkClient\<close> of \<open>net/NetworkClient.cpp\<close>: outgoing datagrams are
  queued, framed with their length and written one buffer at a time; incoming bytes are cut into
  datagrams. The socket and its timer are uvw objects: \<open>nc_open\<close> says that both pointers are set,
  \<open>nc_written\<close> holds the buffers given to \<open>socket->write\<close>, \<open>nc_timer\<close> says that the write timer
  runs. \<open>nc_tasks\<close> are the tasks handed to the main thread's queue. The host is little-endian,
  as \<open>swap_le\<close> has it elsewhere.
\<close>

section \<open>State\<close>

datatype uv_error = UV_NONE | UV_EOF | UV_ENOBUFS | UV_ETIMEDOUT | UV_OTHER int

datatype nc_task = CloseSocket | FlushQueue

record netclient =
  nc_open :: bool
  nc_sending :: bool
  nc_send_buf :: "bytes option"
  nc_send_queue :: "datagram list"
  nc_total_queue_size :: u64
  nc_max_queue_size :: u64
  nc_write_timeout :: u32
  nc_timer :: bool
  nc_written :: "bytes list"
  nc_local_disconnect :: bool
  nc_disconnect_handled :: bool
  nc_disconnect_error :: uv_error
  nc_tasks :: "nc_task list"

definition netclient_new :: netclient where
  "netclient_new = \<lparr>nc_open = False, nc_sending = False, nc_send_buf = None, nc_send_queue = [],
     nc_total_queue_size = 0, nc_max_queue_size = 0, nc_write_timeout = 0, nc_timer = False,
     nc_written = [], nc_local_disconnect = False, nc_disconnect_handled = False,
     nc_disconnect_error = UV_EOF, nc_tasks = []\<rparr>"

text \<open>What \<open>initialize\<close> and the two setters do to this state.\<close>

definition nc_initialize :: "u64 \<Rightarrow> u32 \<Rightarrow> netclient" where
  "nc_initialize max_bytes write_timeout =
     netclient_new\<lparr>nc_open := True, nc_max_queue_size := max_bytes, nc_write_timeout := write_timeout\<rparr>"

section \<open>Sending\<close>

definition nc_shutdown :: "netclient \<Rightarrow> netclient" where
  "nc_shutdown n =
     (if \<not> nc_open n then n else n\<lparr>nc_open := False, nc_tasks := nc_tasks n @ [CloseSocket]\<rparr>)"

definition frame :: "datagram \<Rightarrow> bytes" where
  "frame dg = le_bytes 2 (dg_size dg) @ take (unat (dg_size dg)) (dg_buf dg)"

text \<open>
  The size counter is an unsigned 64-bit number; the loop subtracts every size that was added.
  A write timeout of 0 leaves the timer alone.
\<close>

definition nc_flush_send_queue :: "netclient \<Rightarrow> netclient" where
  "nc_flush_send_queue n =
     (if \<not> nc_open n \<or> nc_sending n \<or> nc_send_queue n = [] then n
      else
        let buf = concat (map frame (nc_send_queue n)) in
        n\<lparr>nc_send_buf := Some buf,
          nc_total_queue_size := nc_total_queue_size n - (\<Sum>dg\<leftarrow>nc_send_queue n. ucast (dg_size dg)),
          nc_send_queue := [],
          nc_timer := nc_timer n \<or> nc_write_timeout n > 0,
          nc_sending := True,
          nc_written := nc_written n @ [buf]\<rparr>)"

text \<open>Off the main thread the flush becomes a task.\<close>

definition nc_poke :: "bool \<Rightarrow> netclient \<Rightarrow> netclient" where
  "nc_poke on_main n =
     (if on_main then nc_flush_send_queue n else n\<lparr>nc_tasks := nc_tasks n @ [FlushQueue]\<rparr>)"

definition nc_disconnect :: "bool \<Rightarrow> uv_error \<Rightarrow> netclient \<Rightarrow> netclient" where
  "nc_disconnect on_main ec n =
     (if nc_local_disconnect n \<or> nc_disconnect_handled n then n
      else
        let n = n\<lparr>nc_local_disconnect := True, nc_disconnect_error := ec\<rparr> in
        if \<not> nc_sending n \<and> nc_total_queue_size n = 0 then nc_shutdown n else nc_poke on_main n)"

definition nc_send_datagram :: "bool \<Rightarrow> datagram \<Rightarrow> netclient \<Rightarrow> netclient" where
  "nc_send_datagram on_main dg n =
     (if \<not> nc_open n then n
      else
        let n = n\<lparr>nc_send_queue := nc_send_queue n @ [dg],
                  nc_total_queue_size := nc_total_queue_size n + ucast (dg_size dg)\<rparr> in
        if nc_total_queue_size n > nc_max_queue_size n \<and> nc_max_queue_size n \<noteq> 0
        then nc_disconnect on_main UV_ENOBUFS n
        else nc_poke on_main n)"

definition nc_send_finished :: "netclient \<Rightarrow> netclient" where
  "nc_send_finished n =
     (let n = n\<lparr>nc_sending := False, nc_send_buf := None\<rparr> in
      if \<not> nc_open n then n
      else
        let n = n\<lparr>nc_timer := False\<rparr> in
        if nc_local_disconnect n \<and> nc_total_queue_size n = 0 then nc_shutdown n
        else nc_flush_send_queue n)"

definition nc_send_expired :: "netclient \<Rightarrow> netclient" where
  "nc_send_expired n =
     nc_disconnect True UV_ETIMEDOUT
       (n\<lparr>nc_timer := False, nc_sending := False, nc_send_buf := None, nc_total_queue_size := 0, nc_send_queue := []\<rparr>)"

text \<open>The call of \<open>receive_disconnect\<close>, if there is one, is the result.\<close>

definition nc_handle_disconnect :: "uv_error \<Rightarrow> netclient \<Rightarrow> uv_error option \<times> netclient" where
  "nc_handle_disconnect ec n =
     (if nc_disconnect_handled n then (None, n)
      else (Some (if nc_local_disconnect n then nc_disconnect_error n else ec),
            nc_shutdown (n\<lparr>nc_disconnect_handled := True\<rparr>)))"

fun nc_run_task :: "nc_task \<Rightarrow> netclient \<Rightarrow> netclient" where
  "nc_run_task CloseSocket n = n\<lparr>nc_timer := False\<rparr>"
| "nc_run_task FlushQueue n = nc_flush_send_queue n"

section \<open>Receiving\<close>

text \<open>
  \<open>m_data_buf\<close> is the argument and, with the handler's result, the value: only these two
  functions touch it. \<open>receive\<close> is the handler's \<open>receive_datagram\<close>; when it throws, the bytes of
  its datagram have already left the buffer.
\<close>

function defragment_input ::
    "(datagram \<Rightarrow> ('s, unit) sm) \<Rightarrow> bytes \<Rightarrow> 's \<Rightarrow> unit res \<times> bytes \<times> 's" where
  "defragment_input receive buf s =
     (if length buf > 2 \<and> length buf \<ge> le_nat (take 2 buf) + 2
      then
        let data_size = le_word (take 2 buf) :: dgsize; rest = drop (le_nat (take 2 buf) + 2) buf in
        (case sbind (slift (dg_create_ptr (drop 2 buf) data_size)) receive s of
           (Inr _, s') \<Rightarrow> defragment_input receive rest s'
         | (Inl e, s') \<Rightarrow> (Inl e, rest, s'))
      else (Inr (), buf, s))"
  by pat_completeness auto
termination
  by (relation "measure (\<lambda>(receive, buf, s). length buf)") auto

declare defragment_input.simps [simp del]

definition nc_process_datagram ::
    "(datagram \<Rightarrow> ('s, unit) sm) \<Rightarrow> bytes \<Rightarrow> bytes \<Rightarrow> 's \<Rightarrow> unit res \<times> bytes \<times> 's" where
  "nc_process_datagram receive buf data s =
     (if buf = [] \<and> length data \<ge> 2 \<and> le_nat (take 2 data) = length data - 2
      then (case sbind (slift (dg_create_ptr (drop 2 data) (le_word (take 2 data)))) receive s of
              (r, s') \<Rightarrow> (r, [], s'))
      else defragment_input receive (buf @ data) s)"

fun process_chunks ::
    "(datagram \<Rightarrow> ('s, unit) sm) \<Rightarrow> bytes \<Rightarrow> bytes list \<Rightarrow> 's \<Rightarrow> unit res \<times> bytes \<times> 's" where
  "process_chunks receive buf [] s = (Inr (), buf, s)"
| "process_chunks receive buf (c # cs) s =
     (case nc_process_datagram receive buf c s of
        (Inr _, buf', s') \<Rightarrow> process_chunks receive buf' cs s'
      | (Inl e, buf', s') \<Rightarrow> (Inl e, buf', s'))"

end
