(* ===== verification/Event_Log.thy ===== *)
theory Event_Log
  imports Datagram
begin

text \<open>
  Text as the servers build it (string literals, decimal and hexadecimal numbers) and the events
  they send to the event logger (\<open>LoggedEvent\<close> of \<open>util/EventSender.cpp\<close>), a map in MessagePack.
\<close>

section \<open>Text\<close>

definition str :: "string \<Rightarrow> bytes" where
  "str cs = map of_char cs"

fun digits :: "nat \<Rightarrow> nat \<Rightarrow> nat list" where
  "digits base n = (if base < 2 \<or> n < base then [n] else digits base (n div base) @ [n mod base])"

declare digits.simps [simp del]

definition digit_char :: "nat \<Rightarrow> u8" where
  "digit_char d = word_of_nat (if d < 10 then 48 + d else 87 + d)"

definition decimal :: "nat \<Rightarrow> bytes" where
  "decimal n = map digit_char (digits 10 n)"

definition hexadecimal :: "nat \<Rightarrow> bytes" where
  "hexadecimal n = map digit_char (digits 16 n)"

section \<open>Events\<close>

text \<open>\<open>m_kv\<close>; \<open>m_keys\<close> is the index of the first components.\<close>

type_synonym logged_event = "(bytes \<times> bytes) list"

fun event_add :: "bytes \<Rightarrow> bytes \<Rightarrow> logged_event \<Rightarrow> logged_event" where
  "event_add key v [] = [(key, v)]"
| "event_add key v ((k, w) # kvs) = (if k = key then (key, v) # kvs else (k, w) # event_add key v kvs)"

definition event_new :: "bytes \<Rightarrow> logged_event" where
  "event_new type = event_add (str ''sender'') (str ''unset'') (event_add (str ''type'') type [])"

definition pack_string :: "bytes \<Rightarrow> datagram \<Rightarrow> datagram res" where
  "pack_string s =
     (let n = length s in
      if n < 32 then add_all [add_uint8 (word_of_nat (160 + n)), add_data s]
      else add_all [add_uint8 218, add_uint8 (word_of_nat (n div 256 mod 256)),
                    add_uint8 (word_of_nat (n mod 256)), add_data s])"

definition event_datagram :: "logged_event \<Rightarrow> datagram res" where
  "event_datagram kvs =
     (let n = length kvs in
      add_all ((if n < 16 then [add_uint8 (word_of_nat (128 + n))]
                else [add_uint8 222, add_uint8 (word_of_nat (n div 256 mod 256)),
                      add_uint8 (word_of_nat (n mod 256))])
               @ concat (map (\<lambda>(k, v). [pack_string k, pack_string v]) kvs)) dg_create)"

section \<open>What fits\<close>

definition packed_string :: "bytes \<Rightarrow> bytes" where
  "packed_string s =
     (if length s < 32 then [word_of_nat (160 + length s)]
      else [218, word_of_nat (length s div 256 mod 256), word_of_nat (length s mod 256)]) @ s"

lemma appends_byte [appends_intros]: "appends [b] (add_uint8 b)"
  using appends_add(1) [of b] by (simp add: le_bytes.simps)

lemma appends_pack_string [appends_intros]:
  assumes "length s \<le> DGSIZE_MAX"
  shows "appends (packed_string s) (pack_string s)"
proof (cases "length s < 32")
  case True
  have "appends ([word_of_nat (160 + length s)] @ s @ []) (add_all [add_uint8 (word_of_nat (160 + length s)), add_data s])"
    by (intro appends_intros assms)
  with True show ?thesis by (simp add: pack_string_def packed_string_def del: add_all.simps)
next
  case False
  have "appends ([218] @ [word_of_nat (length s div 256 mod 256)] @ [word_of_nat (length s mod 256)] @ s @ [])
    (add_all [add_uint8 218, add_uint8 (word_of_nat (length s div 256 mod 256)),
       add_uint8 (word_of_nat (length s mod 256)), add_data s])"
    by (intro appends_intros assms)
  with False show ?thesis by (simp add: pack_string_def packed_string_def Let_def del: add_all.simps)
qed

lemma appends_pairs:
  assumes "\<forall>(k, v) \<in> set kvs. length k \<le> DGSIZE_MAX \<and> length v \<le> DGSIZE_MAX"
  shows "appends (concat (map (\<lambda>(k, v). packed_string k @ packed_string v) kvs))
    (add_all (concat (map (\<lambda>(k, v). [pack_string k, pack_string v]) kvs)))"
  using assms
proof (induction kvs)
  case (Cons kv kvs)
  obtain k v where kv: "kv = (k, v)" by (cases kv)
  have "appends ((packed_string k @ packed_string v @ []) @ concat (map (\<lambda>(k, v). packed_string k @ packed_string v) kvs))
      (add_all ([pack_string k, pack_string v] @ concat (map (\<lambda>(k, v). [pack_string k, pack_string v]) kvs)))"
    using Cons kv by (intro appends_intros) simp_all
  then show ?case by (simp add: kv del: add_all.simps)
qed (simp add: appends_add_all_Nil del: add_all.simps)

lemma length_str [simp]: "length (str cs) = length cs"
  by (simp add: str_def)

end
