(* ===== verification/Client_State.thy ===== *)
theory Client_State
  imports Dg_Iterator Network_Client Event_Log
begin

text \<open>
  A client session of the client agent: the state of \<open>Client\<close> (\<open>clientagent/Client.h\<close>) and
  \<open>AstronClient\<close> (\<open>clientagent/AstronClient.cpp\<close>), the pool of client channels
  (\<open>ChannelTracker\<close>), and every message a session sends to its peer. A session keeps its
  connection (\<open>net\<close>) and the sequence \<open>cl_effects\<close> of what it did to the rest of the program:
  datagrams handed to the director, subscriptions, events, and the datagrams given to the
  connection. The configuration, the tables of classes and uberdogs, the addresses of the
  connection and the iteration orders of unordered containers are the environment \<open>cenv\<close>.
  Log lines and connection names are left out.
\<close>

section \<open>Messages and reasons of the client protocol\<close>

abbreviation (input) CLIENT_HELLO :: u16 where "CLIENT_HELLO \<equiv> 1"
abbreviation (input) CLIENT_HELLO_RESP :: u16 where "CLIENT_HELLO_RESP \<equiv> 2"
abbreviation (input) CLIENT_DISCONNECT :: u16 where "CLIENT_DISCONNECT \<equiv> 3"
abbreviation (input) CLIENT_EJECT :: u16 where "CLIENT_EJECT \<equiv> 4"
abbreviation (input) CLIENT_HEARTBEAT :: u16 where "CLIENT_HEARTBEAT \<equiv> 5"
abbreviation (input) CLIENT_OBJECT_SET_FIELD :: u16 where "CLIENT_OBJECT_SET_FIELD \<equiv> 120"
abbreviation (input) CLIENT_OBJECT_SET_FIELDS :: u16 where "CLIENT_OBJECT_SET_FIELDS \<equiv> 121"
abbreviation (input) CLIENT_OBJECT_LEAVING :: u16 where "CLIENT_OBJECT_LEAVING \<equiv> 132"
abbreviation (input) CLIENT_OBJECT_LEAVING_OWNER :: u16 where "CLIENT_OBJECT_LEAVING_OWNER \<equiv> 161"
abbreviation (input) CLIENT_OBJECT_LOCATION :: u16 where "CLIENT_OBJECT_LOCATION \<equiv> 140"
abbreviation (input) CLIENT_ENTER_OBJECT_REQUIRED :: u16 where "CLIENT_ENTER_OBJECT_REQUIRED \<equiv> 142"
abbreviation (input) CLIENT_ENTER_OBJECT_REQUIRED_OTHER :: u16 where "CLIENT_ENTER_OBJECT_REQUIRED_OTHER \<equiv> 143"
abbreviation (input) CLIENT_ENTER_OBJECT_REQUIRED_OWNER :: u16 where "CLIENT_ENTER_OBJECT_REQUIRED_OWNER \<equiv> 172"
abbreviation (input) CLIENT_ENTER_OBJECT_REQUIRED_OTHER_OWNER :: u16 where "CLIENT_ENTER_OBJECT_REQUIRED_OTHER_OWNER \<equiv> 173"
abbreviation (input) CLIENT_DONE_INTEREST_RESP :: u16 where "CLIENT_DONE_INTEREST_RESP \<equiv> 204"
abbreviation (input) CLIENT_ADD_INTEREST :: u16 where "CLIENT_ADD_INTEREST \<equiv> 200"
abbreviation (input) CLIENT_ADD_INTEREST_MULTIPLE :: u16 where "CLIENT_ADD_INTEREST_MULTIPLE \<equiv> 201"
abbreviation (input) CLIENT_REMOVE_INTEREST :: u16 where "CLIENT_REMOVE_INTEREST \<equiv> 203"
abbreviation (input) CLIENT_DISCONNECT_GENERIC :: u16 where "CLIENT_DISCONNECT_GENERIC \<equiv> 1"
abbreviation (input) CLIENT_DISCONNECT_OVERSIZED_DATAGRAM :: u16 where "CLIENT_DISCONNECT_OVERSIZED_DATAGRAM \<equiv> 106"
abbreviation (input) CLIENT_DISCONNECT_NO_HELLO :: u16 where "CLIENT_DISCONNECT_NO_HELLO \<equiv> 107"
abbreviation (input) CLIENT_DISCONNECT_NO_HEARTBEAT :: u16 where "CLIENT_DISCONNECT_NO_HEARTBEAT \<equiv> 345"
abbreviation (input) CLIENT_DISCONNECT_INVALID_MSGTYPE :: u16 where "CLIENT_DISCONNECT_INVALID_MSGTYPE \<equiv> 108"
abbreviation (input) CLIENT_DISCONNECT_TRUNCATED_DATAGRAM :: u16 where "CLIENT_DISCONNECT_TRUNCATED_DATAGRAM \<equiv> 109"
abbreviation (input) CLIENT_DISCONNECT_ANONYMOUS_VIOLATION :: u16 where "CLIENT_DISCONNECT_ANONYMOUS_VIOLATION \<equiv> 113"
abbreviation (input) CLIENT_DISCONNECT_FORBIDDEN_INTEREST :: u16 where "CLIENT_DISCONNECT_FORBIDDEN_INTEREST \<equiv> 115"
abbreviation (input) CLIENT_DISCONNECT_MISSING_OBJECT :: u16 where "CLIENT_DISCONNECT_MISSING_OBJECT \<equiv> 117"
abbreviation (input) CLIENT_DISCONNECT_FORBIDDEN_FIELD :: u16 where "CLIENT_DISCONNECT_FORBIDDEN_FIELD \<equiv> 118"
abbreviation (input) CLIENT_DISCONNECT_FORBIDDEN_RELOCATE :: u16 where "CLIENT_DISCONNECT_FORBIDDEN_RELOCATE \<equiv> 119"
abbreviation (input) CLIENT_DISCONNECT_BAD_VERSION :: u16 where "CLIENT_DISCONNECT_BAD_VERSION \<equiv> 124"
abbreviation (input) CLIENT_DISCONNECT_BAD_DCHASH :: u16 where "CLIENT_DISCONNECT_BAD_DCHASH \<equiv> 125"
abbreviation (input) CLIENT_DISCONNECT_FIELD_CONSTRAINT :: u16 where "CLIENT_DISCONNECT_FIELD_CONSTRAINT \<equiv> 127"
abbreviation (input) CLIENT_DISCONNECT_SESSION_OBJECT_DELETED :: u16 where "CLIENT_DISCONNECT_SESSION_OBJECT_DELETED \<equiv> 153"

section \<open>State\<close>

text \<open>\<open>ClientState\<close>; a server may set a number that is none of the three.\<close>

abbreviation (input) CLIENT_STATE_NEW :: u16 where "CLIENT_STATE_NEW \<equiv> 0"
abbreviation (input) CLIENT_STATE_ANONYMOUS :: u16 where "CLIENT_STATE_ANONYMOUS \<equiv> 1"
abbreviation (input) CLIENT_STATE_ESTABLISHED :: u16 where "CLIENT_STATE_ESTABLISHED \<equiv> 2"

datatype interest_permission = INTERESTS_ENABLED | INTERESTS_VISIBLE | INTERESTS_DISABLED

text \<open>
  \<open>DeclaredObject\<close>, \<open>OwnedObject\<close> and \<open>VisibleObject\<close> without their number, which is always the
  key they are stored under. A class that the dclass file does not have is a null pointer.
\<close>

record located =
  ob_class :: "dclass option"
  ob_parent :: doid
  ob_zone :: zone

record interest =
  int_id :: u16
  int_parent :: doid
  int_zones :: "zone set"

text \<open>
  \<open>iop_timer\<close> is \<open>m_timeout\<close>: the timer's \<open>m_callback_disabled\<close>, when there is a timer.
\<close>

record iop =
  iop_interest_id :: u16
  iop_client_context :: u32
  iop_request_context :: u32
  iop_parent :: doid
  iop_zones :: "zone set"
  iop_callers :: "channel set"
  iop_timer :: "bool option"
  iop_has_total :: bool
  iop_total :: doid
  iop_generates :: "datagram list"
  iop_datagrams :: "datagram list"

datatype cl_effect =
    CRoute datagram
  | CSubscribe channel
  | CUnsubscribe channel
  | CUnsubscribeAll
  | CPostRemove channel datagram
  | CClearPostRemoves channel
  | CFreeChannel channel
  | CTerminate
  | CEvent datagram
  | ToClient datagram
  | CHeartbeatReset
  | CHeartbeatCancel

record cenv =
  ce_on_main :: bool
  ce_class :: "u16 \<Rightarrow> dclass option"
  ce_uberdogs :: "doid \<rightharpoonup> dclass \<times> bool"
  ce_version :: bytes
  ce_hash :: u32
  ce_send_version :: bool
  ce_send_hash :: bool
  ce_relocate :: bool
  ce_interests :: interest_permission
  ce_heartbeat :: bool
  ce_local :: bool
  ce_remote_ip :: bytes
  ce_remote_port :: u16
  ce_local_ip :: bytes
  ce_local_port :: u16
  ce_tlvs :: bytes
  ce_violation :: "field \<Rightarrow> dgi \<Rightarrow> bytes"
  ce_zones :: "zone set \<Rightarrow> zone list"
  ce_objs :: "doid set \<Rightarrow> doid list"
  ce_ctxs :: "u32 set \<Rightarrow> u32 list"
  ce_chans :: "channel set \<Rightarrow> channel list"

record client =
  cl_state :: u16
  cl_channel :: channel
  cl_allocated :: channel
  cl_next_context :: u32
  seen_objects :: "doid set"
  session_objects :: "doid set"
  historical_objects :: "doid set"
  visible_objects :: "doid \<rightharpoonup> located"
  declared_objects :: "doid \<rightharpoonup> dclass option"
  owned_objects :: "doid \<rightharpoonup> located"
  pending_objects :: "doid \<rightharpoonup> u32"
  interests :: "u16 \<rightharpoonup> interest"
  pending_interests :: "u32 \<rightharpoonup> iop"
  fields_sendable :: "u16 \<rightharpoonup> u16 set"
  pending_timeouts :: "u32 list"
  cl_terminated :: bool
  clean_disconnect :: bool
  heartbeat_timer :: bool
  net :: netclient
  cl_effects :: "cl_effect list"

type_synonym 'a cl_op = "(client, 'a) sm"

section \<open>The pool of channels\<close>

record tracker =
  ct_next :: channel
  ct_max :: channel
  ct_unused :: "channel list"

definition tracker_new :: "channel \<Rightarrow> channel \<Rightarrow> tracker" where
  "tracker_new lo hi = \<lparr>ct_next = lo, ct_max = hi, ct_unused = []\<rparr>"

definition alloc_channel :: "tracker \<Rightarrow> channel \<times> tracker" where
  "alloc_channel t =
     (if ct_next t \<le> ct_max t then (ct_next t, t\<lparr>ct_next := ct_next t + 1\<rparr>)
      else (case ct_unused t of
              c # cs \<Rightarrow> (c, t\<lparr>ct_unused := cs\<rparr>)
            | [] \<Rightarrow> (0, t)))"

definition free_channel :: "channel \<Rightarrow> tracker \<Rightarrow> tracker" where
  "free_channel c t = t\<lparr>ct_unused := ct_unused t @ [c]\<rparr>"

section \<open>Effects\<close>

definition cl_effect :: "cl_effect \<Rightarrow> unit cl_op" where
  "cl_effect e = supd (\<lambda>s. s\<lparr>cl_effects := cl_effects s @ [e]\<rparr>)"

definition cl_route :: "datagram \<Rightarrow> unit cl_op" where
  "cl_route dg = cl_effect (CRoute dg)"

text \<open>\<open>m_client->send_datagram\<close> and \<open>m_client->disconnect\<close>.\<close>

definition to_client :: "cenv \<Rightarrow> datagram \<Rightarrow> unit cl_op" where
  "to_client env dg =
     supd (\<lambda>s. s\<lparr>net := nc_send_datagram (ce_on_main env) dg (net s), cl_effects := cl_effects s @ [ToClient dg]\<rparr>)"

definition close_client :: "cenv \<Rightarrow> unit cl_op" where
  "close_client env = supd (\<lambda>s. s\<lparr>net := nc_disconnect (ce_on_main env) UV_NONE (net s)\<rparr>)"

text \<open>A message put together and sent.\<close>

definition cl_tell :: "cenv \<Rightarrow> (datagram \<Rightarrow> datagram res) list \<Rightarrow> unit cl_op" where
  "cl_tell env body = sbind (slift (add_all body dg_create)) (to_client env)"

definition cl_send :: "channel \<Rightarrow> channel \<Rightarrow> u16 \<Rightarrow> (datagram \<Rightarrow> datagram res) list \<Rightarrow> unit cl_op" where
  "cl_send target sender msgtype body =
     sbind (slift (rbind (dg_create_server target sender msgtype) (add_all body))) cl_route"

section \<open>Logging and ejecting\<close>

definition log_event :: "logged_event \<Rightarrow> unit cl_op" where
  "log_event event =
     sbind (sget cl_allocated) (\<lambda>c.
     sbind (slift (event_datagram (event_add (str ''sender'') (str ''Client:'' @ decimal (unat c)) event)))
       (\<lambda>dg. cl_effect (CEvent dg)))"

text \<open>\<open>Client::send_disconnect\<close>, which only logs, and the override that ejects.\<close>

definition base_send_disconnect :: "u16 \<Rightarrow> bytes \<Rightarrow> bool \<Rightarrow> unit cl_op" where
  "base_send_disconnect reason message security =
     log_event (event_add (str ''reason_msg'') message (event_add (str ''reason_code'') (decimal (unat reason))
       (event_new (if security then str ''client-ejected-security'' else str ''client-ejected''))))"

definition send_disconnect :: "cenv \<Rightarrow> u16 \<Rightarrow> bytes \<Rightarrow> bool \<Rightarrow> unit cl_op" where
  "send_disconnect env reason message security =
     sbind (sget (\<lambda>s. nc_open (net s))) (\<lambda>connected.
     swhen connected
       (sseq (base_send_disconnect reason message security)
       (sseq (cl_tell env [add_uint16 CLIENT_EJECT, add_uint16 reason, add_string message])
       (sseq (supd (\<lambda>s. s\<lparr>clean_disconnect := True\<rparr>))
             (close_client env)))))"

section \<open>Messages to the client\<close>

definition forward_datagram :: "cenv \<Rightarrow> datagram \<Rightarrow> unit cl_op" where
  "forward_datagram env dg = to_client env dg"

definition handle_drop :: "cenv \<Rightarrow> unit cl_op" where
  "handle_drop env = sseq (supd (\<lambda>s. s\<lparr>clean_disconnect := True\<rparr>)) (close_client env)"

definition handle_add_interest :: "cenv \<Rightarrow> interest \<Rightarrow> u32 \<Rightarrow> unit cl_op" where
  "handle_add_interest env i context =
     (let multiple = card (int_zones i) > 1 in
      cl_tell env ([add_uint16 (if multiple then CLIENT_ADD_INTEREST_MULTIPLE else CLIENT_ADD_INTEREST),
         add_uint32 context, add_uint16 (int_id i), add_doid (int_parent i)]
        @ (if multiple then [add_uint16 (word_of_nat (card (int_zones i)))] else [])
        @ map add_zone (ce_zones env (int_zones i))))"

definition handle_remove_interest :: "cenv \<Rightarrow> u16 \<Rightarrow> u32 \<Rightarrow> unit cl_op" where
  "handle_remove_interest env iid context =
     cl_tell env [add_uint16 CLIENT_REMOVE_INTEREST, add_uint32 context, add_uint16 iid]"

text \<open>The four entry messages end with the rest of the incoming datagram.\<close>

definition tell_entry :: "cenv \<Rightarrow> u16 \<Rightarrow> doid \<Rightarrow> doid \<Rightarrow> zone \<Rightarrow> u16 \<Rightarrow> dgi \<Rightarrow> unit cl_op" where
  "tell_entry env msg d parent zn dc_id it =
     sbind (slift (read_remainder it)) (\<lambda>(data, _).
     cl_tell env [add_uint16 msg, add_doid d, add_location parent zn, add_uint16 dc_id, add_data data])"

definition handle_add_object :: "cenv \<Rightarrow> doid \<Rightarrow> doid \<Rightarrow> zone \<Rightarrow> u16 \<Rightarrow> dgi \<Rightarrow> bool \<Rightarrow> unit cl_op" where
  "handle_add_object env d parent zn dc_id it other =
     tell_entry env (if other then CLIENT_ENTER_OBJECT_REQUIRED_OTHER else CLIENT_ENTER_OBJECT_REQUIRED)
       d parent zn dc_id it"

definition handle_add_ownership :: "cenv \<Rightarrow> doid \<Rightarrow> doid \<Rightarrow> zone \<Rightarrow> u16 \<Rightarrow> dgi \<Rightarrow> bool \<Rightarrow> unit cl_op" where
  "handle_add_ownership env d parent zn dc_id it other =
     tell_entry env (if other then CLIENT_ENTER_OBJECT_REQUIRED_OTHER_OWNER else CLIENT_ENTER_OBJECT_REQUIRED_OWNER)
       d parent zn dc_id it"

definition handle_set_field :: "cenv \<Rightarrow> doid \<Rightarrow> u16 \<Rightarrow> dgi \<Rightarrow> unit cl_op" where
  "handle_set_field env d fid it =
     sbind (slift (read_remainder it)) (\<lambda>(data, _).
     cl_tell env [add_uint16 CLIENT_OBJECT_SET_FIELD, add_doid d, add_uint16 fid, add_data data])"

definition handle_set_fields :: "cenv \<Rightarrow> doid \<Rightarrow> u16 \<Rightarrow> dgi \<Rightarrow> unit cl_op" where
  "handle_set_fields env d num_fields it =
     sbind (slift (read_remainder it)) (\<lambda>(data, _).
     cl_tell env [add_uint16 CLIENT_OBJECT_SET_FIELDS, add_doid d, add_uint16 num_fields, add_data data])"

definition handle_change_location :: "cenv \<Rightarrow> doid \<Rightarrow> doid \<Rightarrow> zone \<Rightarrow> unit cl_op" where
  "handle_change_location env d new_parent new_zone =
     cl_tell env [add_uint16 CLIENT_OBJECT_LOCATION, add_doid d, add_location new_parent new_zone]"

definition handle_remove_object :: "cenv \<Rightarrow> doid \<Rightarrow> unit cl_op" where
  "handle_remove_object env d = cl_tell env [add_uint16 CLIENT_OBJECT_LEAVING, add_doid d]"

definition handle_remove_ownership :: "cenv \<Rightarrow> doid \<Rightarrow> unit cl_op" where
  "handle_remove_ownership env d = cl_tell env [add_uint16 CLIENT_OBJECT_LEAVING_OWNER, add_doid d]"

definition handle_interest_done :: "cenv \<Rightarrow> u16 \<Rightarrow> u32 \<Rightarrow> unit cl_op" where
  "handle_interest_done env iid context =
     cl_tell env [add_uint16 CLIENT_DONE_INTEREST_RESP, add_uint32 context, add_uint16 iid]"

end
