(* ===== verification/Client.thy ===== *)
theory Client
  imports Client_State
begin

text \<open>
  The cluster's side of a client session, \<open>clientagent/Client.cpp\<close>: interests and the operations
  that open them, the objects a client sees and owns, and the messages a session gets from the
  message director. A finished interest operation handles the datagrams it held back, and
  handling a datagram can finish an interest operation: \<open>client_handle\<close> carries the depth of this
  nesting, and \<open>Client_Laws\<close> shows that it never exceeds the one given.
\<close>

section \<open>Lookups\<close>

definition lookup_object :: "cenv \<Rightarrow> doid \<Rightarrow> client \<Rightarrow> dclass option" where
  "lookup_object env d s =
     (case ce_uberdogs env d of
        Some (cls, _) \<Rightarrow> Some cls
      | None \<Rightarrow>
          (case owned_objects s d of
             Some ob \<Rightarrow> ob_class ob
           | None \<Rightarrow>
               if d \<in> seen_objects s
               then (case visible_objects s d of Some ob \<Rightarrow> ob_class ob | None \<Rightarrow> None)
               else (case declared_objects s d of Some cls \<Rightarrow> cls | None \<Rightarrow> None)))"

text \<open>The interests (by number) through which a location is visible.\<close>

definition sees :: "interest \<Rightarrow> doid \<Rightarrow> zone \<Rightarrow> bool" where
  "sees i parent zn \<longleftrightarrow> int_parent i = parent \<and> zn \<in> int_zones i"

definition lookup_interests :: "doid \<Rightarrow> zone \<Rightarrow> client \<Rightarrow> u16 set" where
  "lookup_interests parent zn s =
     {n \<in> dom (interests s). case interests s n of Some i \<Rightarrow> sees i parent zn | None \<Rightarrow> False}"

definition is_historical_object :: "doid \<Rightarrow> client \<Rightarrow> bool" where
  "is_historical_object d s \<longleftrightarrow> d \<in> historical_objects s"

fun read_zones :: "nat \<Rightarrow> dgi \<Rightarrow> (zone list \<times> dgi) res" where
  "read_zones 0 it = Inr ([], it)"
| "read_zones (Suc n) it =
     rbind (read_zone it) (\<lambda>(z, it). rbind (read_zones n it) (\<lambda>(zs, it). Inr (z # zs, it)))"

definition build_interest :: "bool \<Rightarrow> dgi \<Rightarrow> (interest \<times> dgi) res" where
  "build_interest multiple it =
     rbind (read_uint16 it) (\<lambda>(iid, it).
     rbind (read_doid it) (\<lambda>(parent, it).
     rbind (if multiple then read_uint16 it else Inr (1, it)) (\<lambda>(count, it).
     rbind (read_zones (unat count) it) (\<lambda>(zs, it).
     Inr (\<lparr>int_id = iid, int_parent = parent, int_zones = set zs\<rparr>, it)))))"

section \<open>Closing zones\<close>

text \<open>
  The loop over the visible objects. The result is \<open>to_remove\<close>, or \<open>None\<close> where the function
  returns early because a session object would go.
\<close>

fun leave_objects :: "cenv \<Rightarrow> doid \<Rightarrow> zone set \<Rightarrow> doid list \<Rightarrow> doid list \<Rightarrow> doid list option cl_op" where
  "leave_objects env parent killed [] to_remove = sret (Some to_remove)"
| "leave_objects env parent killed (d # ds) to_remove =
     sbind (sget id) (\<lambda>s.
     case visible_objects s d of
       None \<Rightarrow> leave_objects env parent killed ds to_remove
     | Some ob \<Rightarrow>
         if ob_parent ob \<noteq> parent \<or> ob_zone ob \<notin> killed then leave_objects env parent killed ds to_remove
         else if d \<in> session_objects s then
           sseq (send_disconnect env CLIENT_DISCONNECT_SESSION_OBJECT_DELETED
             (str ''A session object has unexpectedly left interest.'') False) (sret None)
         else
           sseq (handle_remove_object env d)
          (sseq (supd (\<lambda>s. s\<lparr>seen_objects := seen_objects s - {d},
                             historical_objects := insert d (historical_objects s)\<rparr>))
                (leave_objects env parent killed ds (to_remove @ [d]))))"

fun unsubscribe_zones :: "doid \<Rightarrow> zone list \<Rightarrow> unit cl_op" where
  "unsubscribe_zones parent [] = sret ()"
| "unsubscribe_zones parent (z # zs) =
     sseq (cl_effect (CUnsubscribe (location_as_channel parent z))) (unsubscribe_zones parent zs)"

definition close_zones :: "cenv \<Rightarrow> doid \<Rightarrow> zone set \<Rightarrow> unit cl_op" where
  "close_zones env parent killed =
     sbind (sget (\<lambda>s. ce_objs env (dom (visible_objects s)))) (\<lambda>ds.
     sbind (leave_objects env parent killed ds []) (\<lambda>r.
     case r of
       None \<Rightarrow> sret ()
     | Some to_remove \<Rightarrow>
         sseq (supd (\<lambda>s. s\<lparr>visible_objects := visible_objects s |` (- set to_remove)\<rparr>))
           (unsubscribe_zones parent (ce_zones env killed))))"

section \<open>Interests\<close>

definition notify_interest_done :: "u16 \<Rightarrow> channel \<Rightarrow> unit cl_op" where
  "notify_interest_done iid caller =
     sbind (sget cl_channel) (\<lambda>me.
     swhen (caller \<noteq> 0)
       (cl_send caller me CLIENTAGENT_DONE_INTEREST_RESP [add_channel me, add_uint16 iid]))"

definition notify_iop_done :: "cenv \<Rightarrow> iop \<Rightarrow> unit cl_op" where
  "notify_iop_done env op =
     sbind (sget cl_channel) (\<lambda>me.
     swhen (iop_callers op \<noteq> {})
       (sbind (slift (rbind (dg_create_server_set (ce_chans env (iop_callers op)) me CLIENTAGENT_DONE_INTEREST_RESP)
          (add_all [add_channel me, add_uint16 (iop_interest_id op)]))) cl_route))"

text \<open>
  \<open>m_next_context++\<close>, and a new operation with its timer: started at once on the main thread,
  otherwise by a task. The constructor puts the caller into the set of callers, 0 included.
  \<open>emplace\<close> leaves an operation that has the same context; the new one is then reachable only
  through its timer, which is not followed here.
\<close>

definition take_context :: "u32 cl_op" where
  "take_context =
     sbind (sget cl_next_context) (\<lambda>c. sseq (supd (\<lambda>s. s\<lparr>cl_next_context := c + 1\<rparr>)) (sret c))"

definition iop_new :: "cenv \<Rightarrow> u16 \<Rightarrow> u32 \<Rightarrow> u32 \<Rightarrow> doid \<Rightarrow> zone set \<Rightarrow> channel \<Rightarrow> iop" where
  "iop_new env iid client_context request_context parent zones caller =
     \<lparr>iop_interest_id = iid, iop_client_context = client_context, iop_request_context = request_context,
      iop_parent = parent, iop_zones = zones, iop_callers = {caller},
      iop_timer = (if ce_on_main env then Some False else None),
      iop_has_total = False, iop_total = 0, iop_generates = [], iop_datagrams = []\<rparr>"

definition add_iop :: "cenv \<Rightarrow> iop \<Rightarrow> unit cl_op" where
  "add_iop env op =
     supd (\<lambda>s. s\<lparr>pending_timeouts := pending_timeouts s @ (if ce_on_main env then [] else [iop_request_context op]),
                 pending_interests := (case pending_interests s (iop_request_context op) of
                    None \<Rightarrow> (pending_interests s)(iop_request_context op \<mapsto> op)
                  | Some _ \<Rightarrow> pending_interests s)\<rparr>)"

text \<open>The loop that appends the zones to the request and subscribes to them.\<close>

fun request_zones :: "doid \<Rightarrow> zone list \<Rightarrow> datagram \<Rightarrow> datagram cl_op" where
  "request_zones parent [] dg = sret dg"
| "request_zones parent (z # zs) dg =
     sbind (slift (add_zone z dg)) (\<lambda>dg.
     sseq (cl_effect (CSubscribe (location_as_channel parent z))) (request_zones parent zs dg))"

definition new_zones :: "interest \<Rightarrow> client \<Rightarrow> zone set" where
  "new_zones i s = {z \<in> int_zones i. lookup_interests (int_parent i) z s = {}}"

definition altered_zones :: "interest \<Rightarrow> interest \<Rightarrow> client \<Rightarrow> zone set" where
  "altered_zones i previous s =
     {z \<in> int_zones previous. \<not> card (lookup_interests (int_parent previous) z s) > 1
        \<and> (int_parent i \<noteq> int_parent previous \<or> z \<notin> int_zones i)}"

definition open_zones :: "cenv \<Rightarrow> interest \<Rightarrow> zone set \<Rightarrow> u32 \<Rightarrow> channel \<Rightarrow> unit cl_op" where
  "open_zones env i zones context caller =
     sbind take_context (\<lambda>request_context.
     sseq (add_iop env (iop_new env (int_id i) context request_context (int_parent i) zones caller))
       (sbind (sget cl_channel) (\<lambda>me.
        sbind (slift (rbind (add_server_header (doid_channel (int_parent i)) me STATESERVER_OBJECT_GET_ZONES_OBJECTS dg_create)
          (add_all [add_uint32 request_context, add_doid (int_parent i), add_uint16 (word_of_nat (card zones))]))) (\<lambda>dg.
        sbind (request_zones (int_parent i) (ce_zones env zones) dg) cl_route))))"

definition add_interest :: "cenv \<Rightarrow> interest \<Rightarrow> u32 \<Rightarrow> channel \<Rightarrow> unit cl_op" where
  "add_interest env i context caller =
     sbind (sget (new_zones i)) (\<lambda>zones.
     sbind (sget id) (\<lambda>s.
     sseq (case interests s (int_id i) of
             None \<Rightarrow> sret ()
           | Some previous \<Rightarrow> close_zones env (int_parent previous) (altered_zones i previous s))
    (sseq (supd (\<lambda>s. s\<lparr>interests := (interests s)(int_id i \<mapsto> i)\<rparr>))
    (if zones = {} then sseq (notify_interest_done (int_id i) caller) (handle_interest_done env (int_id i) context)
     else open_zones env i zones context caller))))"

definition sole_zones :: "interest \<Rightarrow> client \<Rightarrow> zone set" where
  "sole_zones i s = {z \<in> int_zones i. card (lookup_interests (int_parent i) z s) = 1}"

definition remove_interest :: "cenv \<Rightarrow> interest \<Rightarrow> u32 \<Rightarrow> channel \<Rightarrow> unit cl_op" where
  "remove_interest env i context caller =
     sbind (sget (sole_zones i)) (\<lambda>killed.
     sseq (close_zones env (int_parent i) killed)
    (sseq (notify_interest_done (int_id i) caller)
    (sseq (handle_interest_done env (int_id i) context)
          (supd (\<lambda>s. s\<lparr>interests := (interests s)(int_id i := None)\<rparr>)))))"

section \<open>Objects entering\<close>

definition handle_object_entrance :: "cenv \<Rightarrow> dgi \<Rightarrow> bool \<Rightarrow> unit cl_op" where
  "handle_object_entrance env it other =
     sbind (slift (read_doid it)) (\<lambda>(d, it).
     sbind (slift (read_doid it)) (\<lambda>(parent, it).
     sbind (slift (read_zone it)) (\<lambda>(zn, it).
     sbind (slift (read_uint16 it)) (\<lambda>(dc_id, it).
     sseq (supd (\<lambda>s. s\<lparr>pending_objects := (pending_objects s)(d := None)\<rparr>))
       (sbind (sget id) (\<lambda>s.
        if d \<in> seen_objects s \<or> (owned_objects s d \<noteq> None \<and> d \<in> session_objects s) then sret ()
        else
          sseq (supd (\<lambda>s. s\<lparr>visible_objects := (case visible_objects s d of
                    None \<Rightarrow> (visible_objects s)(d \<mapsto> \<lparr>ob_class = ce_class env dc_id, ob_parent = parent, ob_zone = zn\<rparr>)
                  | Some _ \<Rightarrow> visible_objects s),
                 seen_objects := insert d (seen_objects s)\<rparr>))
            (handle_add_object env d parent zn dc_id it other)))))))"

text \<open>\<open>true\<close> is that the datagram was queued.\<close>

definition queue_datagram :: "datagram \<Rightarrow> iop \<Rightarrow> iop" where
  "queue_datagram dg op = op\<lparr>iop_datagrams := iop_datagrams op @ [dg]\<rparr>"

definition try_queue_pending :: "doid \<Rightarrow> datagram \<Rightarrow> bool cl_op" where
  "try_queue_pending d dg =
     sbind (sget id) (\<lambda>s.
     case pending_objects s d of
       None \<Rightarrow> sret False
     | Some ctx \<Rightarrow>
         (case pending_interests s ctx of
            None \<Rightarrow> sthrow DanglingReference
          | Some op \<Rightarrow>
              sseq (supd (\<lambda>s. s\<lparr>pending_interests := (pending_interests s)(ctx \<mapsto> queue_datagram dg op)\<rparr>))
                (sret True)))"

section \<open>Interest operations\<close>

definition is_ready :: "iop \<Rightarrow> bool" where
  "is_ready op \<longleftrightarrow> iop_has_total op \<and> length (iop_generates op) \<ge> unat (iop_total op)"

definition set_expected :: "doid \<Rightarrow> iop \<Rightarrow> iop" where
  "set_expected n op = (if \<not> iop_has_total op then op\<lparr>iop_total := n, iop_has_total := True\<rparr> else op)"

definition queue_expected :: "datagram \<Rightarrow> iop \<Rightarrow> iop" where
  "queue_expected dg op = op\<lparr>iop_generates := iop_generates op @ [dg]\<rparr>"

definition set_iop :: "u32 \<Rightarrow> iop \<Rightarrow> unit cl_op" where
  "set_iop ctx op = supd (\<lambda>s. s\<lparr>pending_interests := (pending_interests s)(ctx \<mapsto> op)\<rparr>)"

text \<open>\<open>Timeout::cancel\<close>: whether the callback was still enabled, and that it is disabled now.\<close>

definition timeout_cancel :: "bool \<Rightarrow> bool \<times> bool" where
  "timeout_cancel callback_disabled = (\<not> callback_disabled, True)"

fun finish_generates :: "cenv \<Rightarrow> datagram list \<Rightarrow> unit cl_op" where
  "finish_generates env [] = sret ()"
| "finish_generates env (dg # dgs) =
     sbind (slift (rbind (dgi_new dg 0) (\<lambda>it. rbind (seek_payload it) (skip_bytes 8)))) (\<lambda>it.
     sbind (slift (read_uint16 it)) (\<lambda>(msgtype, it).
     sbind (slift (skip_bytes 4 it)) (\<lambda>it.
     sseq (handle_object_entrance env it (msgtype = STATESERVER_OBJECT_ENTER_INTEREST_WITH_REQUIRED_OTHER))
       (finish_generates env dgs))))"

fun dispatch_held :: "(dgi \<Rightarrow> unit cl_op) \<Rightarrow> datagram list \<Rightarrow> unit cl_op" where
  "dispatch_held handle [] = sret ()"
| "dispatch_held handle (dg # dgs) =
     sbind (slift (rbind (dgi_new dg 0) seek_payload)) (\<lambda>it.
     sseq (handle it) (dispatch_held handle dgs))"

definition iop_complete :: "cenv \<Rightarrow> (dgi \<Rightarrow> unit cl_op) \<Rightarrow> u32 \<Rightarrow> iop \<Rightarrow> unit cl_op" where
  "iop_complete env handle ctx op =
     sseq (finish_generates env (iop_generates op))
    (sseq (notify_iop_done env op)
    (sseq (handle_interest_done env (iop_interest_id op) (iop_client_context op))
    (sseq (supd (\<lambda>s. s\<lparr>pending_interests := (pending_interests s)(iop_request_context op := None)\<rparr>))
          (dispatch_held handle (iop_datagrams op)))))"

definition iop_finish :: "cenv \<Rightarrow> (dgi \<Rightarrow> unit cl_op) \<Rightarrow> u32 \<Rightarrow> bool \<Rightarrow> unit cl_op" where
  "iop_finish env handle ctx is_timeout =
     sbind (sget (\<lambda>s. pending_interests s ctx)) (\<lambda>p.
     case p of
       None \<Rightarrow> sthrow DanglingReference
     | Some op \<Rightarrow>
         (if is_timeout then iop_complete env handle ctx op
          else
            (case iop_timer op of
               None \<Rightarrow> iop_complete env handle ctx op
             | Some disabled \<Rightarrow>
                 (case timeout_cancel disabled of
                    (False, disabled') \<Rightarrow> set_iop ctx (op\<lparr>iop_timer := Some disabled'\<rparr>)
                  | (True, disabled') \<Rightarrow>
                      sseq (set_iop ctx (op\<lparr>iop_timer := None\<rparr>))
                        (iop_complete env handle ctx (op\<lparr>iop_timer := None\<rparr>))))))"

text \<open>
  The tasks of the main thread: a timer for every operation that waits for one, and the timer's
  callback, which first disables itself.
\<close>

fun start_timers :: "u32 list \<Rightarrow> unit cl_op" where
  "start_timers [] = sret ()"
| "start_timers (ctx # ctxs) =
     sbind (sget (\<lambda>s. pending_interests s ctx)) (\<lambda>p.
     case p of
       None \<Rightarrow> sthrow DanglingReference
     | Some op \<Rightarrow> sseq (set_iop ctx (op\<lparr>iop_timer := Some False\<rparr>)) (start_timers ctxs))"

definition generate_timeouts :: "unit cl_op" where
  "generate_timeouts =
     sbind (sget pending_timeouts) (\<lambda>ctxs.
     sseq (supd (\<lambda>s. s\<lparr>pending_timeouts := []\<rparr>)) (start_timers ctxs))"

definition timer_due :: "u32 \<Rightarrow> unit cl_op" where
  "timer_due ctx = supd (\<lambda>s. case pending_interests s ctx of
     Some op \<Rightarrow> s\<lparr>pending_interests := (pending_interests s)(ctx \<mapsto> op\<lparr>iop_timer := map_option (\<lambda>_. True) (iop_timer op)\<rparr>)\<rparr>
   | None \<Rightarrow> s)"

end
