(* ===== verification/Client_Dispatch.thy ===== *)
theory Client_Dispatch
  imports Client
begin

text \<open>
  \<open>Client::handle_datagram\<close>, one definition per message a session gets from the director; the
  iterator is the one after the message type. The datagram itself (\<open>in_dg\<close>) is the iterator's.
  At the end construction and \<open>annihilate\<close>.
\<close>

section \<open>Messages for the client agent\<close>

definition ca_eject :: "cenv \<Rightarrow> dgi \<Rightarrow> unit cl_op" where
  "ca_eject env it =
     sbind (slift (read_uint16 it)) (\<lambda>(reason, it).
     sbind (slift (read_string it)) (\<lambda>(message, _). send_disconnect env reason message False))"

definition ca_set_state :: "dgi \<Rightarrow> unit cl_op" where
  "ca_set_state it = sbind (slift (read_uint16 it)) (\<lambda>(st, _). supd (\<lambda>s. s\<lparr>cl_state := st\<rparr>))"

definition ca_add_interest :: "cenv \<Rightarrow> channel \<Rightarrow> bool \<Rightarrow> dgi \<Rightarrow> unit cl_op" where
  "ca_add_interest env sender multiple it =
     sbind take_context (\<lambda>context.
     sbind (slift (build_interest multiple it)) (\<lambda>(i, _).
     sseq (handle_add_interest env i context) (add_interest env i context sender)))"

text \<open>
  \<open>m_interests[id]\<close>: where there is no such interest, one is made whose number and parent are 0 and
  that has no zones.
\<close>

definition interest_ref :: "u16 \<Rightarrow> interest cl_op" where
  "interest_ref iid =
     sbind (sget (\<lambda>s. interests s iid)) (\<lambda>p.
     case p of
       Some i \<Rightarrow> sret i
     | None \<Rightarrow>
         let i = \<lparr>int_id = 0, int_parent = 0, int_zones = {}\<rparr> in
         sseq (supd (\<lambda>s. s\<lparr>interests := (interests s)(iid \<mapsto> i)\<rparr>)) (sret i))"

definition ca_remove_interest :: "cenv \<Rightarrow> channel \<Rightarrow> dgi \<Rightarrow> unit cl_op" where
  "ca_remove_interest env sender it =
     sbind take_context (\<lambda>context.
     sbind (slift (read_uint16 it)) (\<lambda>(iid, _).
     sbind (interest_ref iid) (\<lambda>i.
     sseq (handle_remove_interest env iid context) (remove_interest env i context sender))))"

definition ca_set_client_id :: "dgi \<Rightarrow> unit cl_op" where
  "ca_set_client_id it =
     sbind (sget id) (\<lambda>s.
     sseq (swhen (cl_channel s \<noteq> cl_allocated s) (cl_effect (CUnsubscribe (cl_channel s))))
       (sbind (slift (read_channel it)) (\<lambda>(c, _).
        sseq (supd (\<lambda>s. s\<lparr>cl_channel := c\<rparr>)) (cl_effect (CSubscribe c)))))"

definition ca_send_datagram :: "cenv \<Rightarrow> dgi \<Rightarrow> unit cl_op" where
  "ca_send_datagram env it =
     sbind (slift (read_datagram it)) (\<lambda>(dg, _).
     sbind (slift (add_data_dg dg dg_create)) (forward_datagram env))"

definition ca_open_channel :: "dgi \<Rightarrow> unit cl_op" where
  "ca_open_channel it = sbind (slift (read_channel it)) (\<lambda>(c, _). cl_effect (CSubscribe c))"

definition ca_close_channel :: "dgi \<Rightarrow> unit cl_op" where
  "ca_close_channel it = sbind (slift (read_channel it)) (\<lambda>(c, _). cl_effect (CUnsubscribe c))"

definition ca_add_post_remove :: "dgi \<Rightarrow> unit cl_op" where
  "ca_add_post_remove it =
     sbind (slift (read_datagram it)) (\<lambda>(dg, _).
     sbind (sget cl_allocated) (\<lambda>c. cl_effect (CPostRemove c dg)))"

definition ca_clear_post_removes :: "unit cl_op" where
  "ca_clear_post_removes = sbind (sget cl_allocated) (\<lambda>c. cl_effect (CClearPostRemoves c))"

definition ca_declare_object :: "cenv \<Rightarrow> dgi \<Rightarrow> unit cl_op" where
  "ca_declare_object env it =
     sbind (slift (read_doid it)) (\<lambda>(d, it).
     sbind (slift (read_uint16 it)) (\<lambda>(dc_id, _).
     supd (\<lambda>s. case declared_objects s d of
        Some _ \<Rightarrow> s
      | None \<Rightarrow> s\<lparr>declared_objects := (declared_objects s)(d \<mapsto> ce_class env dc_id)\<rparr>)))"

definition ca_undeclare_object :: "dgi \<Rightarrow> unit cl_op" where
  "ca_undeclare_object it =
     sbind (slift (read_doid it)) (\<lambda>(d, _).
     supd (\<lambda>s. s\<lparr>declared_objects := (declared_objects s)(d := None)\<rparr>))"

fun read_numbers :: "nat \<Rightarrow> dgi \<Rightarrow> (u16 list \<times> dgi) res" where
  "read_numbers 0 it = Inr ([], it)"
| "read_numbers (Suc n) it =
     rbind (read_uint16 it) (\<lambda>(i, it). rbind (read_numbers n it) (\<lambda>(is, it). Inr (i # is, it)))"

text \<open>\<open>m_fields_sendable\<close> is keyed by \<open>uint16_t\<close>: the object's number loses its upper half.\<close>

definition ca_set_fields_sendable :: "dgi \<Rightarrow> unit cl_op" where
  "ca_set_fields_sendable it =
     sbind (slift (read_doid it)) (\<lambda>(d, it).
     sbind (slift (read_uint16 it)) (\<lambda>(field_count, it).
     sbind (slift (read_numbers (unat field_count) it)) (\<lambda>(fields, _).
     supd (\<lambda>s. s\<lparr>fields_sendable := (fields_sendable s)(ucast d \<mapsto> set fields)\<rparr>))))"

definition ca_add_session_object :: "dgi \<Rightarrow> unit cl_op" where
  "ca_add_session_object it =
     sbind (slift (read_doid it)) (\<lambda>(d, _). supd (\<lambda>s. s\<lparr>session_objects := insert d (session_objects s)\<rparr>))"

definition ca_remove_session_object :: "dgi \<Rightarrow> unit cl_op" where
  "ca_remove_session_object it =
     sbind (slift (read_doid it)) (\<lambda>(d, _). supd (\<lambda>s. s\<lparr>session_objects := session_objects s - {d}\<rparr>))"

definition ca_get_tlvs :: "cenv \<Rightarrow> channel \<Rightarrow> dgi \<Rightarrow> unit cl_op" where
  "ca_get_tlvs env sender it =
     sbind (sget cl_channel) (\<lambda>me.
     sbind (slift (dg_create_server sender me CLIENTAGENT_GET_TLVS_RESP)) (\<lambda>resp.
     sbind (slift (read_uint32 it)) (\<lambda>(context, _).
     sbind (slift (add_all [add_uint32 context, add_blob (ce_tlvs env)] resp)) cl_route)))"

definition ca_get_network_address :: "cenv \<Rightarrow> channel \<Rightarrow> dgi \<Rightarrow> unit cl_op" where
  "ca_get_network_address env sender it =
     sbind (sget cl_channel) (\<lambda>me.
     sbind (slift (dg_create_server sender me CLIENTAGENT_GET_NETWORK_ADDRESS_RESP)) (\<lambda>resp.
     sbind (slift (read_uint32 it)) (\<lambda>(context, _).
     sbind (slift (add_all [add_uint32 context, add_string (ce_remote_ip env), add_uint16 (ce_remote_port env),
        add_string (ce_local_ip env), add_uint16 (ce_local_port env)] resp)) cl_route)))"

section \<open>Messages about objects\<close>

text \<open>An object the client does not know: the datagram is held back for it or dropped.\<close>

definition cl_set_field :: "cenv \<Rightarrow> channel \<Rightarrow> dgi \<Rightarrow> unit cl_op" where
  "cl_set_field env sender it =
     sbind (slift (read_doid it)) (\<lambda>(d, it).
     sbind (sget id) (\<lambda>s.
     if lookup_object env d s = None then sbind (try_queue_pending d (it_dg it)) (\<lambda>_. sret ())
     else
       swhen (sender \<noteq> cl_channel s)
         (sbind (slift (read_uint16 it)) (\<lambda>(fid, it). handle_set_field env d fid it))))"

definition cl_set_fields :: "cenv \<Rightarrow> channel \<Rightarrow> dgi \<Rightarrow> unit cl_op" where
  "cl_set_fields env sender it =
     sbind (slift (read_doid it)) (\<lambda>(d, it).
     sbind (sget id) (\<lambda>s.
     if lookup_object env d s = None then sbind (try_queue_pending d (it_dg it)) (\<lambda>_. sret ())
     else
       swhen (sender \<noteq> cl_channel s)
         (sbind (slift (read_uint16 it)) (\<lambda>(num_fields, it). handle_set_fields env d num_fields it))))"

definition session_object_text :: "doid \<Rightarrow> string \<Rightarrow> bytes" where
  "session_object_text d what = str ''The session object with id '' @ decimal (unat d) @ str what"

definition cl_delete_ram :: "cenv \<Rightarrow> dgi \<Rightarrow> unit cl_op" where
  "cl_delete_ram env it =
     sbind (slift (read_doid it)) (\<lambda>(d, it).
     sbind (sget id) (\<lambda>s.
     if lookup_object env d s = None then sbind (try_queue_pending d (it_dg it)) (\<lambda>_. sret ())
     else if d \<in> session_objects s then
       sseq (supd (\<lambda>s. s\<lparr>session_objects := session_objects s - {d}\<rparr>))
         (send_disconnect env CLIENT_DISCONNECT_SESSION_OBJECT_DELETED
            (session_object_text d '' has been unexpectedly deleted.'') False)
     else
       sseq (swhen (d \<in> seen_objects s)
         (sseq (handle_remove_object env d) (supd (\<lambda>s. s\<lparr>seen_objects := seen_objects s - {d}\<rparr>))))
      (sseq (swhen (owned_objects s d \<noteq> None)
         (sseq (handle_remove_ownership env d) (supd (\<lambda>s. s\<lparr>owned_objects := (owned_objects s)(d := None)\<rparr>))))
      (supd (\<lambda>s. s\<lparr>historical_objects := insert d (historical_objects s),
                   visible_objects := (visible_objects s)(d := None)\<rparr>)))))"

definition cl_enter_owner :: "cenv \<Rightarrow> bool \<Rightarrow> dgi \<Rightarrow> unit cl_op" where
  "cl_enter_owner env with_other it =
     sbind (slift (read_doid it)) (\<lambda>(d, it).
     sbind (slift (read_doid it)) (\<lambda>(parent, it).
     sbind (slift (read_zone it)) (\<lambda>(zn, it).
     sbind (slift (read_uint16 it)) (\<lambda>(dc_id, it).
     sseq (supd (\<lambda>s. case owned_objects s d of
        Some _ \<Rightarrow> s
      | None \<Rightarrow> s\<lparr>owned_objects := (owned_objects s)(d \<mapsto>
            \<lparr>ob_class = ce_class env dc_id, ob_parent = parent, ob_zone = zn\<rparr>)\<rparr>))
       (handle_add_ownership env d parent zn dc_id it with_other)))))"

text \<open>The first pending operation, in the map's order, that opens this location.\<close>

definition opens :: "iop \<Rightarrow> doid \<Rightarrow> zone \<Rightarrow> bool" where
  "opens op parent zn \<longleftrightarrow> iop_parent op = parent \<and> zn \<in> iop_zones op"

definition matching_iop :: "cenv \<Rightarrow> doid \<Rightarrow> zone \<Rightarrow> client \<Rightarrow> (u32 \<times> iop) option" where
  "matching_iop env parent zn s =
     (case filter (\<lambda>(ctx, op). opens op parent zn)
        (List.map_filter (\<lambda>ctx. map_option (Pair ctx) (pending_interests s ctx)) (ce_ctxs env (dom (pending_interests s)))) of
        [] \<Rightarrow> None | p # _ \<Rightarrow> Some p)"

definition emplace_pending :: "doid \<Rightarrow> u32 \<Rightarrow> unit cl_op" where
  "emplace_pending d ctx =
     supd (\<lambda>s. case pending_objects s d of
        Some _ \<Rightarrow> s
      | None \<Rightarrow> s\<lparr>pending_objects := (pending_objects s)(d \<mapsto> ctx)\<rparr>)"

definition cl_enter_location :: "cenv \<Rightarrow> bool \<Rightarrow> dgi \<Rightarrow> unit cl_op" where
  "cl_enter_location env with_other it =
     sbind (slift (read_doid it)) (\<lambda>(d, it).
     sbind (slift (read_doid it)) (\<lambda>(parent, it).
     sbind (slift (read_zone it)) (\<lambda>(zn, it).
     sbind (sget (matching_iop env parent zn)) (\<lambda>p.
     case p of
       Some (ctx, op) \<Rightarrow> sseq (set_iop ctx (queue_datagram (it_dg it) op)) (emplace_pending d ctx)
     | None \<Rightarrow>
         sbind (slift (rbind (seek_payload it) (skip_bytes 10))) (\<lambda>it.
         handle_object_entrance env it with_other)))))"

text \<open>\<open>finish\<close> is \<open>InterestOperation::finish\<close> of an operation, by its context.\<close>

definition cl_enter_interest :: "(u32 \<Rightarrow> unit cl_op) \<Rightarrow> dgi \<Rightarrow> unit cl_op" where
  "cl_enter_interest finish it =
     sbind (slift (read_uint32 it)) (\<lambda>(ctx, it).
     sbind (sget (\<lambda>s. pending_interests s ctx)) (\<lambda>p.
     case p of
       None \<Rightarrow> sret ()
     | Some op \<Rightarrow>
         sbind (slift (read_doid it)) (\<lambda>(d, it).
         sseq (emplace_pending d ctx)
        (sseq (set_iop ctx (queue_expected (it_dg it) op))
              (swhen (is_ready (queue_expected (it_dg it) op)) (finish ctx))))))"

definition cl_zones_count :: "(u32 \<Rightarrow> unit cl_op) \<Rightarrow> dgi \<Rightarrow> unit cl_op" where
  "cl_zones_count finish it =
     sbind (slift (read_uint32 it)) (\<lambda>(ctx, it).
     sbind (slift (read_doid it)) (\<lambda>(count, _).
     sbind (sget (\<lambda>s. pending_interests s ctx)) (\<lambda>p.
     case p of
       None \<Rightarrow> sret ()
     | Some op \<Rightarrow>
         sseq (set_iop ctx (set_expected count op)) (swhen (is_ready (set_expected count op)) (finish ctx)))))"

definition set_place :: "doid \<Rightarrow> zone \<Rightarrow> doid \<Rightarrow> (doid \<rightharpoonup> located) \<Rightarrow> (doid \<rightharpoonup> located)" where
  "set_place parent zn d m = m(d := map_option (\<lambda>ob. ob\<lparr>ob_parent := parent, ob_zone := zn\<rparr>) (m d))"

definition cl_changing_location :: "cenv \<Rightarrow> dgi \<Rightarrow> unit cl_op" where
  "cl_changing_location env it =
     sbind (slift (read_doid it)) (\<lambda>(d, it).
     sbind (try_queue_pending d (it_dg it)) (\<lambda>queued.
     if queued then sret ()
     else
       sbind (slift (read_doid it)) (\<lambda>(n_parent, it).
       sbind (slift (read_zone it)) (\<lambda>(n_zone, _).
       sbind (sget id) (\<lambda>s.
       let disable = (lookup_interests n_parent n_zone s = {});
           visible = (visible_objects s d \<noteq> None);
           owned = (owned_objects s d \<noteq> None);
           session = (d \<in> session_objects s)
       in if \<not> visible \<and> \<not> owned then sret ()
          else
            sseq (supd (\<lambda>s. s\<lparr>visible_objects := set_place n_parent n_zone d (visible_objects s),
                               owned_objects := set_place n_parent n_zone d (owned_objects s)\<rparr>))
              (if disable \<and> visible then
                 (if session then
                    (if owned then handle_change_location env d n_parent n_zone
                     else send_disconnect env CLIENT_DISCONNECT_SESSION_OBJECT_DELETED
                        (session_object_text d '' has unexpectedly left interest.'') False)
                  else
                    sseq (handle_remove_object env d)
                      (supd (\<lambda>s. s\<lparr>seen_objects := seen_objects s - {d},
                                   historical_objects := insert d (historical_objects s),
                                   visible_objects := (visible_objects s)(d := None)\<rparr>)))
               else handle_change_location env d n_parent n_zone))))))"

definition cl_changing_owner :: "cenv \<Rightarrow> dgi \<Rightarrow> unit cl_op" where
  "cl_changing_owner env it =
     sbind (slift (read_doid it)) (\<lambda>(d, it).
     sbind (slift (read_channel it)) (\<lambda>(n_owner, it).
     sbind (slift (skip_bytes 8 it)) (\<lambda>_.
     sbind (sget id) (\<lambda>s.
     if n_owner = cl_channel s then sret ()
     else if owned_objects s d = None then sret ()
     else if d \<in> session_objects s then
       send_disconnect env CLIENT_DISCONNECT_SESSION_OBJECT_DELETED
         (session_object_text d '' has unexpectedly left ownership.'') False
     else
       sseq (handle_remove_ownership env d)
         (supd (\<lambda>s. s\<lparr>owned_objects := (owned_objects s)(d := None)\<rparr>))))))"

section \<open>Dispatch\<close>

definition client_dispatch :: "cenv \<Rightarrow> (u32 \<Rightarrow> unit cl_op) \<Rightarrow> channel \<Rightarrow> u16 \<Rightarrow> dgi \<Rightarrow> unit cl_op" where
  "client_dispatch env finish sender msgtype it =
     (if msgtype = CLIENTAGENT_EJECT then ca_eject env it
      else if msgtype = CLIENTAGENT_DROP then handle_drop env
      else if msgtype = CLIENTAGENT_SET_STATE then ca_set_state it
      else if msgtype = CLIENTAGENT_ADD_INTEREST then ca_add_interest env sender False it
      else if msgtype = CLIENTAGENT_ADD_INTEREST_MULTIPLE then ca_add_interest env sender True it
      else if msgtype = CLIENTAGENT_REMOVE_INTEREST then ca_remove_interest env sender it
      else if msgtype = CLIENTAGENT_SET_CLIENT_ID then ca_set_client_id it
      else if msgtype = CLIENTAGENT_SEND_DATAGRAM then ca_send_datagram env it
      else if msgtype = CLIENTAGENT_OPEN_CHANNEL then ca_open_channel it
      else if msgtype = CLIENTAGENT_CLOSE_CHANNEL then ca_close_channel it
      else if msgtype = CLIENTAGENT_ADD_POST_REMOVE then ca_add_post_remove it
      else if msgtype = CLIENTAGENT_CLEAR_POST_REMOVES then ca_clear_post_removes
      else if msgtype = CLIENTAGENT_DECLARE_OBJECT then ca_declare_object env it
      else if msgtype = CLIENTAGENT_UNDECLARE_OBJECT then ca_undeclare_object it
      else if msgtype = CLIENTAGENT_SET_FIELDS_SENDABLE then ca_set_fields_sendable it
      else if msgtype = CLIENTAGENT_ADD_SESSION_OBJECT then ca_add_session_object it
      else if msgtype = CLIENTAGENT_REMOVE_SESSION_OBJECT then ca_remove_session_object it
      else if msgtype = CLIENTAGENT_GET_TLVS then ca_get_tlvs env sender it
      else if msgtype = CLIENTAGENT_GET_NETWORK_ADDRESS then ca_get_network_address env sender it
      else if msgtype = STATESERVER_OBJECT_SET_FIELD then cl_set_field env sender it
      else if msgtype = STATESERVER_OBJECT_SET_FIELDS then cl_set_fields env sender it
      else if msgtype = STATESERVER_OBJECT_DELETE_RAM then cl_delete_ram env it
      else if msgtype = STATESERVER_OBJECT_ENTER_OWNER_WITH_REQUIRED_OTHER then cl_enter_owner env True it
      else if msgtype = STATESERVER_OBJECT_ENTER_OWNER_WITH_REQUIRED then cl_enter_owner env False it
      else if msgtype = STATESERVER_OBJECT_ENTER_LOCATION_WITH_REQUIRED then cl_enter_location env False it
      else if msgtype = STATESERVER_OBJECT_ENTER_LOCATION_WITH_REQUIRED_OTHER then cl_enter_location env True it
      else if msgtype = STATESERVER_OBJECT_ENTER_INTEREST_WITH_REQUIRED
           \<or> msgtype = STATESERVER_OBJECT_ENTER_INTEREST_WITH_REQUIRED_OTHER then cl_enter_interest finish it
      else if msgtype = STATESERVER_OBJECT_GET_ZONES_COUNT_RESP then cl_zones_count finish it
      else if msgtype = STATESERVER_OBJECT_CHANGING_LOCATION then cl_changing_location env it
      else if msgtype = STATESERVER_OBJECT_CHANGING_OWNER then cl_changing_owner env it
      else sret ())"

definition client_body :: "cenv \<Rightarrow> (u32 \<Rightarrow> unit cl_op) \<Rightarrow> dgi \<Rightarrow> unit cl_op" where
  "client_body env finish it =
     sbind (sget cl_terminated) (\<lambda>terminated.
     if terminated then sret ()
     else
       sbind (slift (read_channel it)) (\<lambda>(sender, it).
       sbind (sget cl_channel) (\<lambda>me.
       if sender = me then sret ()
       else sbind (slift (read_uint16 it)) (\<lambda>(msgtype, it). client_dispatch env finish sender msgtype it))))"

fun client_handle :: "nat \<Rightarrow> cenv \<Rightarrow> dgi \<Rightarrow> unit cl_op" where
  "client_handle 0 env it = sthrow NoReturn"
| "client_handle (Suc n) env it =
     client_body env (\<lambda>ctx. iop_finish env (client_handle n env) ctx False) it"

definition client_handle_datagram :: "cenv \<Rightarrow> dgi \<Rightarrow> unit cl_op" where
  "client_handle_datagram env = client_handle 2 env"

text \<open>\<open>InterestOperation::timeout\<close>, and \<open>finish\<close> where it is called from outside a handler.\<close>

definition interest_timeout :: "cenv \<Rightarrow> u32 \<Rightarrow> unit cl_op" where
  "interest_timeout env ctx = iop_finish env (client_handle_datagram env) ctx True"

definition interest_finish :: "cenv \<Rightarrow> u32 \<Rightarrow> unit cl_op" where
  "interest_finish env ctx = iop_finish env (client_handle_datagram env) ctx False"

section \<open>Birth and death\<close>

definition client_blank :: "channel \<Rightarrow> client" where
  "client_blank c = \<lparr>cl_state = CLIENT_STATE_NEW, cl_channel = c, cl_allocated = c, cl_next_context = 1,
     seen_objects = {}, session_objects = {}, historical_objects = {}, visible_objects = Map.empty,
     declared_objects = Map.empty, owned_objects = Map.empty, pending_objects = Map.empty,
     interests = Map.empty, pending_interests = Map.empty, fields_sendable = Map.empty,
     pending_timeouts = [], cl_terminated = False, clean_disconnect = False, heartbeat_timer = False,
     net = netclient_new, cl_effects = []\<rparr>"

text \<open>
  The constructor. Without a channel it calls \<open>send_disconnect\<close>, in a constructor the one of the
  base class, and returns; the connection is made all the same.
\<close>

definition client_new :: "cenv \<Rightarrow> tracker \<Rightarrow> unit res \<times> client \<times> tracker" where
  "client_new env t =
     (let (c, t') = alloc_channel t;
          (r, s) = (if c = 0 then base_send_disconnect CLIENT_DISCONNECT_GENERIC (str ''Client capacity reached'') False
                    else sseq (cl_effect (CSubscribe c)) (cl_effect (CSubscribe BCHAN_CLIENTS))) (client_blank c)
      in (r, s, t'))"

fun delete_session :: "doid list \<Rightarrow> unit cl_op" where
  "delete_session [] = sret ()"
| "delete_session (d # ds) =
     sseq (supd (\<lambda>s. s\<lparr>session_objects := session_objects s - {d}\<rparr>))
       (sbind (sget cl_channel) (\<lambda>me.
        sseq (cl_send (doid_channel d) me STATESERVER_OBJECT_DELETE_RAM [add_doid d]) (delete_session ds)))"

fun finish_all :: "cenv \<Rightarrow> u32 list \<Rightarrow> unit cl_op" where
  "finish_all env [] = sret ()"
| "finish_all env (ctx # ctxs) = sseq (interest_finish env ctx) (finish_all env ctxs)"

definition client_annihilate :: "cenv \<Rightarrow> unit cl_op" where
  "client_annihilate env =
     sbind (sget id) (\<lambda>s.
     if cl_terminated s then sret ()
     else
       sseq (cl_effect CUnsubscribeAll)
      (sseq (cl_effect (CFreeChannel (cl_allocated s)))
      (sseq (delete_session (ce_objs env (session_objects s)))
      (sbind (sget (\<lambda>s. ce_ctxs env (dom (pending_interests s)))) (\<lambda>ctxs.
       sseq (finish_all env ctxs)
      (sseq (supd (\<lambda>s. s\<lparr>cl_terminated := True\<rparr>)) (cl_effect CTerminate)))))))"

end
