(* ===== verification/Astron_Client.thy ===== *)
theory Astron_Client
  imports Client_Dispatch
begin

text \<open>
  The peer's side of a client session, \<open>clientagent/AstronClient.cpp\<close>: what a session does with
  a datagram of its client, by the state of the session, and with the end of the connection. The
  handlers of client messages return the iterator, because \<open>receive_datagram\<close> looks at what is
  left of the datagram.
\<close>

section \<open>Start\<close>

text \<open>\<open>initialize\<close>, which the connection calls; \<open>endpoint\<close> is \<open>ip:port\<close>.\<close>

definition endpoint :: "bytes \<Rightarrow> u16 \<Rightarrow> bytes" where
  "endpoint ip port = ip @ str '':'' @ decimal (unat port)"

definition astron_initialize :: "cenv \<Rightarrow> unit cl_op" where
  "astron_initialize env =
     sseq (supd (\<lambda>s. s\<lparr>heartbeat_timer := ce_heartbeat env\<rparr>))
       (swhen (\<not> ce_local env)
         (log_event (event_add (str ''local_address'') (endpoint (ce_local_ip env) (ce_local_port env))
            (event_add (str ''remote_address'') (endpoint (ce_remote_ip env) (ce_remote_port env))
               (event_new (str ''client-connected''))))))"

section \<open>Messages of the client\<close>

definition handle_client_heartbeat :: "unit cl_op" where
  "handle_client_heartbeat =
     sbind (sget heartbeat_timer) (\<lambda>running. swhen running (cl_effect CHeartbeatReset))"

definition heartbeat_timeout :: "cenv \<Rightarrow> unit cl_op" where
  "heartbeat_timeout env =
     sseq (supd (\<lambda>s. s\<lparr>heartbeat_timer := False\<rparr>))
       (send_disconnect env CLIENT_DISCONNECT_NO_HEARTBEAT
          (str ''Server timed out while waiting for heartbeat.'') False)"

text \<open>Eject, and leave the handler with the iterator as it is.\<close>

definition eject :: "cenv \<Rightarrow> u16 \<Rightarrow> bytes \<Rightarrow> bool \<Rightarrow> dgi \<Rightarrow> dgi cl_op" where
  "eject env reason message security it = sseq (send_disconnect env reason message security) (sret it)"

definition version_text :: "cenv \<Rightarrow> bytes \<Rightarrow> bytes" where
  "version_text env version = str ''Client version mismatch: client='' @ version
     @ (if ce_send_version env then str '', server='' @ ce_version env else [])"

definition hash_text :: "cenv \<Rightarrow> u32 \<Rightarrow> bytes" where
  "hash_text env dc_hash = str ''Client DC hash mismatch: client=0x'' @ hexadecimal (unat dc_hash)
     @ (if ce_send_hash env then str '', server=0x'' @ hexadecimal (unat (ce_hash env)) else [])"

definition handle_pre_hello :: "cenv \<Rightarrow> dgi \<Rightarrow> dgi cl_op" where
  "handle_pre_hello env it =
     sbind (slift (read_uint16 it)) (\<lambda>(msg_type, it).
     if msg_type \<noteq> CLIENT_HELLO then
       eject env CLIENT_DISCONNECT_NO_HELLO (str ''First packet is not CLIENT_HELLO'') False it
     else
       sseq handle_client_heartbeat
         (sbind (slift (read_uint32 it)) (\<lambda>(dc_hash, it).
          sbind (slift (read_string it)) (\<lambda>(version, it).
          if version \<noteq> ce_version env then
            eject env CLIENT_DISCONNECT_BAD_VERSION (version_text env version) False it
          else if dc_hash \<noteq> ce_hash env then
            eject env CLIENT_DISCONNECT_BAD_DCHASH (hash_text env dc_hash) False it
          else
            sseq (cl_tell env [add_uint16 CLIENT_HELLO_RESP])
              (sseq (supd (\<lambda>s. s\<lparr>cl_state := CLIENT_STATE_ANONYMOUS\<rparr>)) (sret it))))))"

definition handle_client_disconnect :: "cenv \<Rightarrow> unit cl_op" where
  "handle_client_disconnect env =
     sseq (log_event (event_new (str ''client-disconnected'')))
       (sseq (supd (\<lambda>s. s\<lparr>clean_disconnect := True\<rparr>)) (close_client env))"

text \<open>\<open>dgi.skip(dgi.get_remaining())\<close>.\<close>

definition skip_remaining :: "dgi \<Rightarrow> dgi res" where
  "skip_remaining it = skip_bytes (get_remaining it) it"

definition object_name :: "dclass \<Rightarrow> doid \<Rightarrow> bytes" where
  "object_name cls d = str (cls_name cls) @ str ''('' @ decimal (unat d) @ str '')''"

text \<open>
  Whether the client may send a field: by the field's keywords, or by the numbers a server listed
  for the object, looked up under the low half of the object's number.
\<close>

definition may_send :: "doid \<Rightarrow> field \<Rightarrow> u16 \<Rightarrow> client \<Rightarrow> bool" where
  "may_send d f fid s \<longleftrightarrow>
     has_keyword f ''clsend'' \<or> (owned_objects s d \<noteq> None \<and> has_keyword f ''ownsend'')
     \<or> (case fields_sendable s (ucast d) of Some fids \<Rightarrow> fid \<in> fids | None \<Rightarrow> False)"

definition anonymous_uberdog :: "cenv \<Rightarrow> doid \<Rightarrow> bool" where
  "anonymous_uberdog env d = (case ce_uberdogs env d of Some (_, anonymous) \<Rightarrow> anonymous | None \<Rightarrow> False)"

text \<open>
  Where \<open>unpack_field\<close> leaves the iterator when it throws \<open>FieldConstraintViolation\<close>: behind the
  value that violates its type. \<open>receive_datagram\<close> looks at what is left from there.
\<close>

fun stop_times :: "nat \<Rightarrow> (dgi \<Rightarrow> (bytes \<times> dgi) res) \<Rightarrow> (dgi \<Rightarrow> dgi) \<Rightarrow> dgi \<Rightarrow> dgi" where
  "stop_times 0 body stop it = it"
| "stop_times (Suc n) body stop it =
     (case body it of Inl _ \<Rightarrow> stop it | Inr (_, it') \<Rightarrow> stop_times n body stop it')"

fun stop_while :: "nat \<Rightarrow> (dgi \<Rightarrow> (bytes \<times> dgi) res) \<Rightarrow> (dgi \<Rightarrow> dgi) \<Rightarrow> nat \<Rightarrow> dgi \<Rightarrow> nat \<Rightarrow> dgi" where
  "stop_while 0 body stop len it got = it"
| "stop_while (Suc fuel) body stop len it got =
     (if got < len
      then (case body it of Inl _ \<Rightarrow> stop it | Inr (bs, it') \<Rightarrow> stop_while fuel body stop len it' (got + length bs))
      else it)"

fun stop_dtype :: "dtype \<Rightarrow> dgi \<Rightarrow> dgi"
and stop_fields :: "field list \<Rightarrow> dgi \<Rightarrow> dgi"
and stop_params :: "param list \<Rightarrow> dgi \<Rightarrow> dgi" where
  "stop_dtype TInvalid it = it"
| "stop_dtype (TNumeric nt) it = it\<lparr>it_offset := it_offset it + unat (nt_size nt)\<rparr>"
| "stop_dtype (TArray tag sz e n r al) it =
     (if sz \<noteq> 0 then
        (if tag = T_ARRAY \<and> has_range e
         then stop_times (unat n) (\<lambda>i. unpack_dtype e i) (\<lambda>i. stop_dtype e i) it
         else it\<lparr>it_offset := it_offset it + unat sz\<rparr>)
      else
        (case read_size it of
           Inl _ \<Rightarrow> it
         | Inr (len, it1) \<Rightarrow>
             if tag = T_VARARRAY
             then stop_while (unat len) (\<lambda>i. unpack_dtype e i) (\<lambda>i. stop_dtype e i) (unat len) it1 0
             else it1\<lparr>it_offset := it_offset it1 + unat len\<rparr>))"
| "stop_dtype (TStruct sz fs c sn sc) it = (if sz \<noteq> 0 \<and> \<not> c then it\<lparr>it_offset := it_offset it + unat sz\<rparr> else stop_fields fs it)"
| "stop_dtype (TMethod sz ps c) it = (if sz \<noteq> 0 \<and> \<not> c then it\<lparr>it_offset := it_offset it + unat sz\<rparr> else stop_params ps it)"
| "stop_fields [] it = it"
| "stop_fields (Field i nm kws t d dflt m # fs) it =
     (case unpack_dtype t it of Inl _ \<Rightarrow> stop_dtype t it | Inr (_, it') \<Rightarrow> stop_fields fs it')"
| "stop_params [] it = it"
| "stop_params (Param nm t d pd # ps) it =
     (case unpack_dtype t it of Inl _ \<Rightarrow> stop_dtype t it | Inr (_, it') \<Rightarrow> stop_params ps it')"

definition handle_client_object_update_field :: "cenv \<Rightarrow> dgi \<Rightarrow> dgi cl_op" where
  "handle_client_object_update_field env it =
     sbind (slift (read_doid it)) (\<lambda>(d, it).
     sbind (slift (read_uint16 it)) (\<lambda>(fid, it).
     sbind (sget id) (\<lambda>s.
     case lookup_object env d s of
       None \<Rightarrow>
         if is_historical_object d s then slift (skip_remaining it)
         else eject env CLIENT_DISCONNECT_MISSING_OBJECT
           (str ''Client tried to send update to nonexistent object '' @ decimal (unat d)) True it
     | Some cls \<Rightarrow>
         if cl_state s \<noteq> CLIENT_STATE_ESTABLISHED \<and> \<not> anonymous_uberdog env d then
           eject env CLIENT_DISCONNECT_ANONYMOUS_VIOLATION
             (str ''Client tried to send update to non-anonymous object '' @ object_name cls d) True it
         else
           (case get_field_by_id cls (ucast fid) of
              None \<Rightarrow>
                eject env CLIENT_DISCONNECT_FORBIDDEN_FIELD
                  (str ''Client tried to send update for nonexistent field '' @ decimal (unat fid)
                   @ str '' to object '' @ object_name cls d) True it
            | Some f \<Rightarrow>
                if \<not> may_send d f fid s then
                  eject env CLIENT_DISCONNECT_FORBIDDEN_FIELD
                    (str ''Client tried to send update for non-sendable field: '' @ object_name cls d
                     @ str ''.'' @ str (field_name f)) True it
                else
                  (case unpack_field f it of
                     Inl e \<Rightarrow>
                       if e = FieldConstraintViolation then
                         eject env CLIENT_DISCONNECT_FIELD_CONSTRAINT
                           (str ''Client tried to send update that violates the constraints for field ''
                            @ object_name cls d @ str ''.'' @ str (field_name f) @ str '': '' @ ce_violation env f it) True
                           (stop_dtype (field_type f) it)
                       else sthrow e
                   | Inr (data, it) \<Rightarrow>
                       sseq (cl_send (doid_channel d) (cl_channel s) STATESERVER_OBJECT_SET_FIELD
                          [add_doid d, add_uint16 fid, add_data data])
                         (sret it))))))"

definition handle_client_object_location :: "cenv \<Rightarrow> dgi \<Rightarrow> dgi cl_op" where
  "handle_client_object_location env it =
     (if \<not> ce_relocate env then
        eject env CLIENT_DISCONNECT_FORBIDDEN_RELOCATE (str ''Owned object relocation is disabled by server.'') True it
      else
        sbind (slift (read_doid it)) (\<lambda>(d, it).
        sbind (sget id) (\<lambda>s.
        if owned_objects s d = None then
          (if is_historical_object d s then slift (skip_remaining it)
           else if visible_objects s d \<noteq> None then
             eject env CLIENT_DISCONNECT_FORBIDDEN_RELOCATE (str ''Can't relocate an object the client doesn't own'') True it
           else
             eject env CLIENT_DISCONNECT_MISSING_OBJECT
               (str ''Client tried to manipulate unknown object '' @ decimal (unat d)) True it)
        else
          sbind (slift (dg_create_server (doid_channel d) (cl_channel s) STATESERVER_OBJECT_SET_LOCATION)) (\<lambda>dg.
          sbind (slift (read_doid it)) (\<lambda>(parent, it).
          sbind (slift (add_doid parent dg)) (\<lambda>dg.
          sbind (slift (read_zone it)) (\<lambda>(zn, it).
          sbind (slift (add_zone zn dg)) (\<lambda>dg.
          sseq (cl_route dg) (sret it)))))))))"

definition parent_text :: "string \<Rightarrow> doid \<Rightarrow> bytes" where
  "parent_text what parent = str what @ decimal (unat parent) @ str '' because parent is not visible to client.''"

definition handle_client_add_interest :: "cenv \<Rightarrow> bool \<Rightarrow> dgi \<Rightarrow> dgi cl_op" where
  "handle_client_add_interest env multiple it =
     (if ce_interests env = INTERESTS_DISABLED then
        eject env CLIENT_DISCONNECT_FORBIDDEN_INTEREST (str ''Client is not allowed to add interests.'') True it
      else
        sbind (slift (read_uint32 it)) (\<lambda>(context, it).
        sbind (slift (build_interest multiple it)) (\<lambda>(i, it).
        sbind (sget (lookup_object env (int_parent i))) (\<lambda>cls.
        if ce_interests env = INTERESTS_VISIBLE \<and> cls = None then
          eject env CLIENT_DISCONNECT_FORBIDDEN_INTEREST
            (parent_text ''Cannot add interest to parent with id '' (int_parent i)) True it
        else sseq (add_interest env i context 0) (sret it)))))"

definition handle_client_remove_interest :: "cenv \<Rightarrow> dgi \<Rightarrow> dgi cl_op" where
  "handle_client_remove_interest env it =
     (if ce_interests env = INTERESTS_DISABLED then
        eject env CLIENT_DISCONNECT_FORBIDDEN_INTEREST (str ''Client is not allowed to remove interests.'') True it
      else
        sbind (slift (read_uint32 it)) (\<lambda>(context, it).
        sbind (slift (read_uint16 it)) (\<lambda>(iid, it).
        sbind (sget (\<lambda>s. interests s iid)) (\<lambda>p.
        case p of
          None \<Rightarrow> eject env CLIENT_DISCONNECT_GENERIC (str ''Tried to remove a non-existing interest.'') True it
        | Some i \<Rightarrow>
            sbind (sget (lookup_object env (int_parent i))) (\<lambda>cls.
            if ce_interests env = INTERESTS_VISIBLE \<and> cls = None then
              eject env CLIENT_DISCONNECT_FORBIDDEN_INTEREST
                (parent_text ''Cannot remove interest for parent with id '' (int_parent i)) True it
            else sseq (remove_interest env i context 0) (sret it))))))"

section \<open>Dispatch by the state of the session\<close>

definition handle_pre_auth :: "cenv \<Rightarrow> dgi \<Rightarrow> dgi cl_op" where
  "handle_pre_auth env it =
     sbind (slift (read_uint16 it)) (\<lambda>(msg_type, it).
     if msg_type = CLIENT_DISCONNECT then sseq (handle_client_disconnect env) (sret it)
     else if msg_type = CLIENT_OBJECT_SET_FIELD then handle_client_object_update_field env it
     else if msg_type = CLIENT_HEARTBEAT then sseq handle_client_heartbeat (sret it)
     else
       eject env CLIENT_DISCONNECT_INVALID_MSGTYPE
         (str ''Message type '' @ decimal (unat msg_type) @ str '' not allowed prior to authentication.'') True it)"

definition handle_authenticated :: "cenv \<Rightarrow> dgi \<Rightarrow> dgi cl_op" where
  "handle_authenticated env it =
     sbind (slift (read_uint16 it)) (\<lambda>(msg_type, it).
     if msg_type = CLIENT_DISCONNECT then sseq (handle_client_disconnect env) (sret it)
     else if msg_type = CLIENT_OBJECT_SET_FIELD then handle_client_object_update_field env it
     else if msg_type = CLIENT_OBJECT_LOCATION then handle_client_object_location env it
     else if msg_type = CLIENT_ADD_INTEREST then handle_client_add_interest env False it
     else if msg_type = CLIENT_ADD_INTEREST_MULTIPLE then handle_client_add_interest env True it
     else if msg_type = CLIENT_REMOVE_INTEREST then handle_client_remove_interest env it
     else if msg_type = CLIENT_HEARTBEAT then sseq handle_client_heartbeat (sret it)
     else
       eject env CLIENT_DISCONNECT_INVALID_MSGTYPE
         (str ''Message type '' @ decimal (unat msg_type) @ str '' not valid.'') True it)"

definition receive_by_state :: "cenv \<Rightarrow> dgi \<Rightarrow> dgi cl_op" where
  "receive_by_state env it =
     sbind (sget cl_state) (\<lambda>st.
     if st = CLIENT_STATE_NEW then handle_pre_hello env it
     else if st = CLIENT_STATE_ANONYMOUS then handle_pre_auth env it
     else if st = CLIENT_STATE_ESTABLISHED then handle_authenticated env it
     else sret it)"

definition receive_datagram :: "cenv \<Rightarrow> datagram \<Rightarrow> unit cl_op" where
  "receive_datagram env dg =
     sbind (slift (dgi_new dg 0)) (\<lambda>it. \<lambda>s.
     case receive_by_state env it s of
       (Inl e, s') \<Rightarrow>
         (if e = DatagramIteratorEOF then
            send_disconnect env CLIENT_DISCONNECT_TRUNCATED_DATAGRAM
              (str ''Datagram unexpectedly ended while iterating.'') False
          else if e = DatagramOverflow then
            send_disconnect env CLIENT_DISCONNECT_OVERSIZED_DATAGRAM
              (str ''ClientDatagram too large to be routed on MD.'') True
          else sthrow e) s'
     | (Inr it', s') \<Rightarrow>
         swhen (get_remaining it' \<noteq> 0)
           (send_disconnect env CLIENT_DISCONNECT_OVERSIZED_DATAGRAM (str ''Datagram contains excess data.'') True) s')"

definition receive_disconnect :: "cenv \<Rightarrow> bytes \<Rightarrow> unit cl_op" where
  "receive_disconnect env reason =
     sbind (sget id) (\<lambda>s.
     sseq (swhen (\<not> clean_disconnect s \<and> \<not> ce_local env)
       (log_event (event_add (str ''reason'') reason
          (event_add (str ''local_address'') (endpoint (ce_local_ip env) (ce_local_port env))
             (event_add (str ''remote_address'') (endpoint (ce_remote_ip env) (ce_remote_port env))
                (event_new (str ''client-lost'')))))))
    (sseq (swhen (heartbeat_timer s)
       (sseq (cl_effect CHeartbeatCancel) (supd (\<lambda>s. s\<lparr>heartbeat_timer := False\<rparr>))))
     (client_annihilate env)))"

end
