(* ===== verification/Network_Props.thy ===== *)
theory Network_Props
  imports Network_Client
begin

text \<open>
  Connections: what is sent is what arrives, however the stream is cut; the accounting of the
  send queue; and what becomes of a connection that is closed while its peer does not read.
\<close>

section \<open>The receiving side\<close>

text \<open>A handler that never throws, as a plain state change.\<close>

definition receive_by :: "(datagram \<Rightarrow> 's \<Rightarrow> 's) \<Rightarrow> datagram \<Rightarrow> ('s, unit) sm" where
  "receive_by h dg = supd (h dg)"

lemma receive_by_apply: "receive_by h dg s = (Inr (), h dg s)"
  by (simp add: receive_by_def)

text \<open>Bytes that do not hold a whole datagram yet.\<close>

definition incomplete :: "bytes \<Rightarrow> bool" where
  "incomplete bs \<longleftrightarrow> length bs < 2 \<or> length bs < le_nat (take 2 bs) + 2"

lemma le_nat_dg_size [simp]: "le_nat (le_bytes 2 (dg_size d)) = unat (dg_size d)"
proof -
  have "unat (dg_size d) < 65536" using unsigned_less [of "dg_size d"] by simp
  then show ?thesis by (simp add: le_nat_le_bytes)
qed

lemma frame_ok:
  "dg_ok d \<Longrightarrow> frame d = le_bytes 2 (dg_size d) @ dg_buf d \<and> unat (dg_size d) = length (dg_buf d)"
  using unat_of_short_length [of "dg_buf d"] by (simp add: frame_def dg_ok_def dg_size_def buf_offset_def)

lemma frame_le_word: "le_word (le_bytes 2 (dg_size d)) = dg_size d"
  by simp

text \<open>A whole datagram at the front of a buffer is the stream's first frame.\<close>

lemma first_frame:
  assumes d: "dg_ok d" and eq: "x @ y = frame d @ z"
    and len: "2 \<le> length x" "le_nat (take 2 x) + 2 \<le> length x"
  shows "take 2 x = le_bytes 2 (dg_size d)"
    and "dg_create_ptr (drop 2 x) (le_word (take 2 x)) = Inr (dg_create_copy d)"
    and "drop (le_nat (take 2 x) + 2) x @ y = z"
proof -
  let ?n = "length (dg_buf d)"
  from frame_ok [OF d] have fr: "frame d = le_bytes 2 (dg_size d) @ dg_buf d" "unat (dg_size d) = ?n"
    by auto
  have "take 2 x = take 2 (x @ y)" using len(1) by simp
  also have "\<dots> = le_bytes 2 (dg_size d)" by (simp add: eq fr(1))
  finally show hd: "take 2 x = le_bytes 2 (dg_size d)" .
  with len(2) have n: "le_nat (take 2 x) = ?n" "?n + 2 \<le> length x" by (auto simp: fr(2))
  have "take ?n (drop 2 x) = take ?n (drop 2 (x @ y))" using n(2) by simp
  also have "\<dots> = dg_buf d" by (simp add: eq fr(1))
  finally have body: "take ?n (drop 2 x) = dg_buf d" .
  have "le_word (take 2 x) = dg_size d" by (simp only: hd frame_le_word)
  with body n(2) show "dg_create_ptr (drop 2 x) (le_word (take 2 x)) = Inr (dg_create_copy d)"
    by (simp add: dg_create_ptr_def dg_create_copy_def fr(2))
  have "drop (?n + 2) x @ y = drop (?n + 2) (x @ y)" using n(2) by simp
  also have "\<dots> = z" by (simp add: eq fr(1))
  finally show "drop (le_nat (take 2 x) + 2) x @ y = z" by (simp add: n(1))
qed

lemma rest_incomplete:
  assumes "x @ y = rest" "incomplete rest" "2 \<le> length x"
  shows "length x < le_nat (take 2 x) + 2"
  using assms by (auto simp: incomplete_def)

lemma defragment_frames:
  assumes "x @ y = concat (map frame ds) @ rest" "list_all dg_ok ds" "incomplete rest"
  shows "\<exists>k b. defragment_input (receive_by h) x s
      = (Inr (), b, fold h (map dg_create_copy (take k ds)) s)
    \<and> b @ y = concat (map frame (drop k ds)) @ rest
    \<and> \<not> (length b > 2 \<and> length b \<ge> le_nat (take 2 b) + 2)"
  using assms(1,2)
proof (induction ds arbitrary: x s)
  case Nil
  then have "\<not> (length x > 2 \<and> length x \<ge> le_nat (take 2 x) + 2)"
    using rest_incomplete [OF _ assms(3), of x y] by auto
  with Nil show ?case
    by (intro exI [of _ 0] exI [of _ x]) (subst defragment_input.simps, auto)
next
  case (Cons d ds)
  show ?case
  proof (cases "length x > 2 \<and> length x \<ge> le_nat (take 2 x) + 2")
    case False
    with Cons.prems show ?thesis
      by (intro exI [of _ 0] exI [of _ x]) (subst defragment_input.simps, auto)
  next
    case True
    from Cons.prems have "dg_ok d" "x @ y = frame d @ concat (map frame ds) @ rest" by auto
    note f = first_frame [OF this] 
    from True have len: "2 \<le> length x" "le_nat (take 2 x) + 2 \<le> length x" by auto
    note f = f(2,3) [OF len]
    let ?r = "drop (le_nat (take 2 x) + 2) x"
    from Cons.IH [OF f(2)] Cons.prems(2) obtain k b where
      kb: "defragment_input (receive_by h) ?r (h (dg_create_copy d) s)
        = (Inr (), b, fold h (map dg_create_copy (take k ds)) (h (dg_create_copy d) s))"
      "b @ y = concat (map frame (drop k ds)) @ rest"
      "\<not> (length b > 2 \<and> length b \<ge> le_nat (take 2 b) + 2)" by fastforce
    have "defragment_input (receive_by h) x s = defragment_input (receive_by h) ?r (h (dg_create_copy d) s)"
      using True by (subst defragment_input.simps) (simp add: f(1) Let_def receive_by_apply [of h "dg_create_copy d" s])
    with kb show ?thesis
      by (intro exI [of _ "Suc k"] exI [of _ b]) simp
  qed
qed

lemma chunks_frames:
  assumes "buf @ concat cs = concat (map frame ds) @ rest"
    "list_all (\<lambda>d. dg_ok d \<and> dg_buf d \<noteq> []) ds" "incomplete rest"
    "\<not> (length buf > 2 \<and> length buf \<ge> le_nat (take 2 buf) + 2)"
  shows "process_chunks (receive_by h) buf cs s = (Inr (), rest, fold h (map dg_create_copy ds) s)"
  using assms(1,2,4)
proof (induction cs arbitrary: buf ds s)
  case Nil
  have "ds = []"
  proof (rule ccontr)
    assume "ds \<noteq> []"
    then obtain d ds' where ds: "ds = d # ds'" by (cases ds) auto
    with Nil.prems(2) frame_ok [of d] have "frame d = le_bytes 2 (dg_size d) @ dg_buf d"
      "unat (dg_size d) = length (dg_buf d)" "dg_buf d \<noteq> []" by auto
    moreover from Nil.prems(1) ds have "buf = frame d @ concat (map frame ds') @ rest" by simp
    ultimately show False using Nil.prems(3) by auto
  qed
  with Nil.prems(1) show ?case by simp
next
  case (Cons c cs)
  show ?case
  proof (cases "buf = [] \<and> length c \<ge> 2 \<and> le_nat (take 2 c) = length c - 2")
    case True
    then have len: "2 \<le> length c" "le_nat (take 2 c) + 2 \<le> length c" by auto
    have "ds \<noteq> []"
      using rest_incomplete [OF _ assms(3), of c "concat cs"] Cons.prems(1) True by auto
    then obtain d ds' where ds: "ds = d # ds'" by (cases ds) auto
    from Cons.prems(2) ds have d: "dg_ok d" by simp
    from Cons.prems(1) True ds have eq: "c @ concat cs = frame d @ concat (map frame ds') @ rest" by simp
    note f = first_frame(2,3) [OF d eq len]
    from True have "drop (le_nat (take 2 c) + 2) c = []" by simp
    with f(2) have "[] @ concat cs = concat (map frame ds') @ rest" by simp
    from Cons.IH [OF this] Cons.prems(2) ds
    have "process_chunks (receive_by h) [] cs (h (dg_create_copy d) s)
      = (Inr (), rest, fold h (map dg_create_copy ds') (h (dg_create_copy d) s))" by simp
    with True f(1) ds show ?thesis by (simp add: nc_process_datagram_def receive_by_apply [of h "dg_create_copy d" s])
  next
    case False
    from Cons.prems(1) have "(buf @ c) @ concat cs = concat (map frame ds) @ rest" by simp
    moreover from Cons.prems(2) have "list_all dg_ok ds" by (simp add: list_all_iff)
    ultimately obtain k b where kb: "defragment_input (receive_by h) (buf @ c) s
        = (Inr (), b, fold h (map dg_create_copy (take k ds)) s)"
      "b @ concat cs = concat (map frame (drop k ds)) @ rest"
      "\<not> (length b > 2 \<and> length b \<ge> le_nat (take 2 b) + 2)"
      using defragment_frames [OF _ _ assms(3)] by metis
    from Cons.prems(2) have "list_all (\<lambda>d. dg_ok d \<and> dg_buf d \<noteq> []) (drop k ds)"
      by (auto simp: list_all_iff dest: in_set_dropD)
    from Cons.IH [OF kb(2) this kb(3), of "fold h (map dg_create_copy (take k ds)) s"]
    have "process_chunks (receive_by h) b cs (fold h (map dg_create_copy (take k ds)) s)
      = (Inr (), rest, fold h (map dg_create_copy ds) s)"
      by (metis append_take_drop_id fold_append map_append o_apply)
    with False kb(1) show ?thesis by (simp add: nc_process_datagram_def) blast
  qed
qed

section \<open>The sending side\<close>

text \<open>
  Everything a connection was given to send, written or not yet; the interface through which a
  client session sees its connection.
\<close>

definition nc_outgoing :: "netclient \<Rightarrow> bytes" where
  "nc_outgoing n = concat (nc_written n) @ concat (map frame (nc_send_queue n))"

locale outbox =
  fixes connected :: "'n \<Rightarrow> bool"
    and outgoing :: "'n \<Rightarrow> bytes"
    and send :: "datagram \<Rightarrow> 'n \<Rightarrow> 'n"
    and close :: "'n \<Rightarrow> 'n"
  assumes send_appends: "connected n \<Longrightarrow> outgoing (send d n) = outgoing n @ frame d"
    and send_unconnected: "\<not> connected n \<Longrightarrow> send d n = n"
    and close_keeps: "outgoing (close n) = outgoing n"
    and close_unconnected: "\<not> connected n \<Longrightarrow> \<not> connected (close n)"
    and send_stays_unconnected: "\<not> connected n \<Longrightarrow> \<not> connected (send d n)"
begin

text \<open>Sending never takes back what was sent before.\<close>

lemma send_prefix: "\<exists>bs. outgoing (send d n) = outgoing n @ bs"
  using send_appends [of n d] send_unconnected [of n d] by (cases "connected n") auto

lemma farewell: "connected n \<Longrightarrow> outgoing (close (send d n)) = outgoing n @ frame d"
  by (simp add: close_keeps send_appends)

lemma sends_appended:
  "\<exists>bs. outgoing (fold send ds n) = outgoing n @ bs"
  by (induction ds arbitrary: n) (auto, metis append.assoc send_prefix)

end

lemma nc_flush_outgoing [simp]: "nc_outgoing (nc_flush_send_queue n) = nc_outgoing n"
  by (simp add: nc_flush_send_queue_def nc_outgoing_def Let_def)

lemma nc_shutdown_outgoing [simp]: "nc_outgoing (nc_shutdown n) = nc_outgoing n"
  by (simp add: nc_shutdown_def nc_outgoing_def)

lemma nc_outgoing_update [simp]:
  "nc_outgoing (n\<lparr>nc_tasks := a\<rparr>) = nc_outgoing n" "nc_outgoing (n\<lparr>nc_local_disconnect := b\<rparr>) = nc_outgoing n"
  "nc_outgoing (n\<lparr>nc_disconnect_error := c\<rparr>) = nc_outgoing n" "nc_outgoing (n\<lparr>nc_sending := b\<rparr>) = nc_outgoing n"
  "nc_outgoing (n\<lparr>nc_send_buf := d\<rparr>) = nc_outgoing n" "nc_outgoing (n\<lparr>nc_timer := b\<rparr>) = nc_outgoing n"
  "nc_outgoing (n\<lparr>nc_disconnect_handled := b\<rparr>) = nc_outgoing n"
  "nc_outgoing (n\<lparr>nc_total_queue_size := e\<rparr>) = nc_outgoing n"
  by (simp_all add: nc_outgoing_def)

lemma nc_poke_outgoing [simp]: "nc_outgoing (nc_poke on_main n) = nc_outgoing n"
  by (simp add: nc_poke_def)

lemma nc_disconnect_outgoing [simp]: "nc_outgoing (nc_disconnect on_main ec n) = nc_outgoing n"
  by (simp add: nc_disconnect_def Let_def)

lemma nc_send_outgoing:
  "nc_open n \<Longrightarrow> nc_outgoing (nc_send_datagram on_main d n) = nc_outgoing n @ frame d"
proof -
  assume open_n: "nc_open n"
  let ?n = "n\<lparr>nc_send_queue := nc_send_queue n @ [d],
              nc_total_queue_size := nc_total_queue_size n + ucast (dg_size d)\<rparr>"
  have "nc_outgoing ?n = nc_outgoing n @ frame d" by (simp add: nc_outgoing_def)
  moreover from open_n have "nc_outgoing (nc_send_datagram on_main d n) = nc_outgoing ?n"
    by (simp add: nc_send_datagram_def Let_def del: nc_outgoing_update(8))
  ultimately show ?thesis by simp
qed

lemma nc_open_flush [simp]: "nc_open (nc_flush_send_queue n) = nc_open n"
  by (simp add: nc_flush_send_queue_def Let_def)

lemma nc_open_poke [simp]: "nc_open (nc_poke on_main n) = nc_open n"
  by (simp add: nc_poke_def)

lemma nc_closed_stays: "\<not> nc_open n \<Longrightarrow> \<not> nc_open (nc_disconnect on_main ec n)"
  by (simp add: nc_disconnect_def nc_shutdown_def Let_def)

interpretation netbox: outbox nc_open nc_outgoing "nc_send_datagram on_main" "nc_disconnect on_main ec" for on_main ec
  by unfold_locales (simp_all add: nc_send_outgoing nc_closed_stays, simp_all add: nc_send_datagram_def)

section \<open>What can happen to a connection\<close>

text \<open>
  Calls from the program, callbacks of the event loop (a write finished, the write timer fired,
  the socket ended or failed), and the main thread taking the oldest task.
\<close>

datatype nc_event =
    Send bool datagram
  | Close bool uv_error
  | WriteDone
  | WriteExpired
  | SocketDown uv_error
  | MainTask

fun nc_step :: "nc_event \<Rightarrow> netclient \<Rightarrow> netclient" where
  "nc_step (Send on_main d) n = nc_send_datagram on_main d n"
| "nc_step (Close on_main ec) n = nc_disconnect on_main ec n"
| "nc_step WriteDone n = nc_send_finished n"
| "nc_step WriteExpired n = nc_send_expired n"
| "nc_step (SocketDown ec) n = snd (nc_handle_disconnect ec n)"
| "nc_step MainTask n = (case nc_tasks n of [] \<Rightarrow> n | t # ts \<Rightarrow> nc_run_task t (n\<lparr>nc_tasks := ts\<rparr>))"

definition nc_steps :: "nc_event list \<Rightarrow> netclient \<Rightarrow> netclient" where
  "nc_steps es n = fold nc_step es n"

lemma nc_steps_simps [simp]: "nc_steps [] n = n" "nc_steps (e # es) n = nc_steps es (nc_step e n)"
  by (simp_all add: nc_steps_def)

text \<open>The datagrams a connection took, those given to it while it was open.\<close>

fun taken :: "nc_event \<Rightarrow> netclient \<Rightarrow> datagram list" where
  "taken (Send on_main d) n = (if nc_open n then [d] else [])"
| "taken _ n = []"

fun all_taken :: "nc_event list \<Rightarrow> netclient \<Rightarrow> datagram list" where
  "all_taken [] n = []"
| "all_taken (e # es) n = taken e n @ all_taken es (nc_step e n)"

text \<open>The datagrams taken are those written and, after them, those waiting.\<close>

definition carries :: "datagram list \<Rightarrow> netclient \<Rightarrow> bool" where
  "carries ds n \<longleftrightarrow> (\<exists>sent. ds = sent @ nc_send_queue n \<and> concat (nc_written n) = concat (map frame sent))"

lemma carries_flush: "carries ds n \<Longrightarrow> carries ds (nc_flush_send_queue n)"
  by (auto simp: carries_def nc_flush_send_queue_def Let_def)

lemma carries_shutdown: "carries ds n \<Longrightarrow> carries ds (nc_shutdown n)"
  by (simp add: carries_def nc_shutdown_def)

lemma carries_poke: "carries ds n \<Longrightarrow> carries ds (nc_poke on_main n)"
  using carries_flush by (simp add: nc_poke_def) (simp add: carries_def)

lemma carries_disconnect: "carries ds n \<Longrightarrow> carries ds (nc_disconnect on_main ec n)"
  by (auto simp: nc_disconnect_def Let_def intro!: carries_shutdown carries_poke) (simp_all add: carries_def)

lemma carries_send: "carries ds n \<Longrightarrow> nc_open n \<Longrightarrow> carries (ds @ [d]) (nc_send_datagram on_main d n)"
  by (auto simp: nc_send_datagram_def Let_def intro!: carries_disconnect carries_poke) (auto simp: carries_def)

lemma carries_finished: "carries ds n \<Longrightarrow> carries ds (nc_send_finished n)"
  by (auto simp: nc_send_finished_def Let_def intro!: carries_shutdown carries_flush) (auto simp: carries_def)

lemma carries_step:
  assumes "carries ds n" "e \<noteq> WriteExpired"
  shows "carries (ds @ taken e n) (nc_step e n)"
  using assms
proof (cases e)
  case (Send on_main d)
  with assms carries_send show ?thesis by (cases "nc_open n") (auto simp: nc_send_datagram_def)
next
  case (SocketDown ec)
  with assms(1) show ?thesis
    by (auto simp: nc_handle_disconnect_def intro!: carries_shutdown) (auto simp: carries_def)
next
  case MainTask
  with assms(1) show ?thesis
  proof (cases "nc_tasks n")
    case (Cons t ts)
    have "carries ds (n\<lparr>nc_tasks := ts\<rparr>)" "carries ds (n\<lparr>nc_tasks := ts, nc_timer := False\<rparr>)"
      using assms(1) by (simp_all add: carries_def)
    with Cons MainTask show ?thesis by (cases t) (auto intro: carries_flush)
  qed simp
qed (auto intro: carries_disconnect carries_finished)

lemma carries_steps:
  "carries ds n \<Longrightarrow> WriteExpired \<notin> set es \<Longrightarrow> carries (ds @ all_taken es n) (nc_steps es n)"
proof (induction es arbitrary: ds n)
  case (Cons e es)
  from Cons.prems have "carries (ds @ taken e n) (nc_step e n)" by (auto intro: carries_step)
  from Cons.IH [OF this] Cons.prems show ?case by simp
qed simp

text \<open>Any first part of a run of frames is some of the frames and the start of the next.\<close>

lemma prefix_of_frames:
  "list_all dg_ok ds \<Longrightarrow>
    \<exists>k rest. take m (concat (map frame ds)) = concat (map frame (take k ds)) @ rest \<and> incomplete rest"
proof (induction ds arbitrary: m)
  case Nil
  show ?case by (intro exI [of _ 0] exI [of _ "[]"]) (simp add: incomplete_def)
next
  case (Cons d ds)
  from Cons.prems frame_ok [of d] have fr: "frame d = le_bytes 2 (dg_size d) @ dg_buf d"
    "unat (dg_size d) = length (dg_buf d)" by auto
  show ?case
  proof (cases "m < length (frame d)")
    case True
    have "incomplete (take m (frame d))"
      using True by (cases "m < 2") (auto simp: incomplete_def fr min_def)
    with True show ?thesis by (intro exI [of _ 0] exI [of _ "take m (frame d)"]) simp
  next
    case False
    from Cons.IH [of "m - length (frame d)"] Cons.prems obtain k rest where
      "take (m - length (frame d)) (concat (map frame ds)) = concat (map frame (take k ds)) @ rest"
      "incomplete rest" by auto
    with False show ?thesis by (intro exI [of _ "Suc k"] exI [of _ rest]) simp
  qed
qed

lemma le_bytes_2: "le_bytes 2 w = [ucast w, ucast (drop_bit 8 w)]"
  by (simp add: numeral_2_eq_2 le_bytes.simps)

lemma sent_received:
  assumes "list_all (\<lambda>d. dg_ok d \<and> dg_buf d \<noteq> []) sent"
    "concat chunks = concat (map frame (take k sent)) @ rest" "incomplete rest"
  shows "process_chunks (receive_by h) [] chunks s
    = (Inr (), rest, fold h (map dg_create_copy (take k sent)) s)"
  using chunks_frames [of "[]" chunks "take k sent" rest h s] assms
  by (auto simp: list_all_iff dest: in_set_takeD)



section \<open>Accounting\<close>

text \<open>What the assertions of \<open>flush_send_queue\<close> and \<open>send_finished\<close> rely on.\<close>

definition nc_accounts :: "netclient \<Rightarrow> bool" where
  "nc_accounts n \<longleftrightarrow> nc_total_queue_size n = (\<Sum>dg\<leftarrow>nc_send_queue n. ucast (dg_size dg))
     \<and> (nc_send_buf n = None \<longleftrightarrow> \<not> nc_sending n)"

lemma accounts_flush: "nc_accounts n \<Longrightarrow> nc_accounts (nc_flush_send_queue n)"
  by (auto simp: nc_accounts_def nc_flush_send_queue_def Let_def)

lemma accounts_shutdown: "nc_accounts n \<Longrightarrow> nc_accounts (nc_shutdown n)"
  by (simp add: nc_accounts_def nc_shutdown_def)

lemma accounts_poke: "nc_accounts n \<Longrightarrow> nc_accounts (nc_poke on_main n)"
  using accounts_flush by (simp add: nc_poke_def) (simp add: nc_accounts_def)

lemma accounts_disconnect: "nc_accounts n \<Longrightarrow> nc_accounts (nc_disconnect on_main ec n)"
  by (auto simp: nc_disconnect_def Let_def intro!: accounts_shutdown accounts_poke) (simp_all add: nc_accounts_def)

lemma accounts_step: "nc_accounts n \<Longrightarrow> nc_accounts (nc_step e n)"
proof (cases e)
  case (Send on_main d)
  assume "nc_accounts n"
  with Send show ?thesis
    by (auto simp: nc_send_datagram_def Let_def intro!: accounts_disconnect accounts_poke)
       (auto simp: nc_accounts_def)
next
  case WriteDone
  assume "nc_accounts n"
  with WriteDone show ?thesis
    by (auto simp: nc_send_finished_def Let_def intro!: accounts_shutdown accounts_flush)
       (auto simp: nc_accounts_def)
next
  case WriteExpired
  then show ?thesis by (auto simp: nc_send_expired_def intro!: accounts_disconnect) (simp add: nc_accounts_def)
next
  case (SocketDown ec)
  assume "nc_accounts n"
  with SocketDown show ?thesis
    by (auto simp: nc_handle_disconnect_def intro!: accounts_shutdown) (simp_all add: nc_accounts_def)
next
  case MainTask
  assume acc: "nc_accounts n"
  show ?thesis
  proof (cases "nc_tasks n")
    case (Cons t ts)
    have "nc_accounts (n\<lparr>nc_tasks := ts\<rparr>)" "nc_accounts (n\<lparr>nc_tasks := ts, nc_timer := False\<rparr>)"
      using acc by (simp_all add: nc_accounts_def)
    with Cons MainTask show ?thesis by (cases t) (auto intro: accounts_flush)
  qed (simp add: MainTask acc)
qed (auto intro: accounts_disconnect)

text \<open>
  After any sequence of calls and callbacks on a connection the size counter is the sum of
  the sizes of the waiting datagrams and a send buffer exists exactly while a write is marked as
  running: what the assertions of the sending functions check.
\<close>

theorem connection_accounts: "nc_accounts (nc_steps es (nc_initialize quota tmo))"
proof -
  have "nc_accounts n \<Longrightarrow> nc_accounts (nc_steps es n)" for n
    by (induction es arbitrary: n) (auto intro: accounts_step)
  then show ?thesis by (simp add: nc_accounts_def nc_initialize_def netclient_new_def)
qed

section \<open>Closing\<close>

text \<open>
  A peer that does not read cannot be thrown out. A connection sends a farewell and is closed
  by the program; the peer does not read, so the write never finishes and its timer fires. Then
  the socket is still open although no write, timer or task is left that could close it, and no
  later \<open>disconnect\<close> closes it either, because the flag of the first one is set.
\<close>

theorem stalled_peer_stays:
  assumes "0 < tmo"
  shows "let n = nc_steps [Send True d, Close True UV_NONE, WriteExpired] (nc_initialize quota tmo) in
    nc_open n \<and> \<not> nc_sending n \<and> \<not> nc_timer n \<and> nc_tasks n = [] \<and> nc_disconnect on_main ec n = n"
  using assms
  by (simp add: nc_initialize_def netclient_new_def nc_send_datagram_def nc_poke_def nc_flush_send_queue_def
      nc_disconnect_def nc_send_expired_def nc_shutdown_def Let_def)

theorem stalled_peer_stays_witness:
  "nc_open (nc_steps [Send True (dg_create_data [4, 0]), Close True UV_NONE, WriteExpired] (nc_initialize 1024 5000))"
  using stalled_peer_stays [of 5000 "dg_create_data [4, 0]" 1024] by (simp add: Let_def del: nc_steps_simps)

end
