(* ===== verification/Client_Laws.thy ===== *)
theory Client_Laws
  imports Astron_Client Network_Props Object_Laws
begin

text \<open>
  Facts about client sessions that their properties share: the messages they send byte for byte,
  what the handlers of client messages may touch, and the invariant of the interest operations.
\<close>

section \<open>Messages to the peer and to the cluster\<close>

lemma cl_effect_apply [simp]: "cl_effect e s = (Inr (), s\<lparr>cl_effects := cl_effects s @ [e]\<rparr>)"
  by (simp add: cl_effect_def)

lemma cl_route_apply [simp]: "cl_route dg s = (Inr (), s\<lparr>cl_effects := cl_effects s @ [CRoute dg]\<rparr>)"
  by (simp add: cl_route_def)

text \<open>The session after a datagram was given to its connection.\<close>

definition told :: "cenv \<Rightarrow> datagram \<Rightarrow> client \<Rightarrow> client" where
  "told env dg s = s\<lparr>net := nc_send_datagram (ce_on_main env) dg (net s), cl_effects := cl_effects s @ [ToClient dg]\<rparr>"

lemma to_client_apply [simp]: "to_client env dg s = (Inr (), told env dg s)"
  by (simp add: to_client_def told_def)

text \<open>\<open>is_client_message dg bs\<close>: the datagram holds the bytes \<open>bs\<close>.\<close>

definition is_bytes :: "datagram \<Rightarrow> bytes \<Rightarrow> bool" where
  "is_bytes dg bs \<longleftrightarrow> dg_ok dg \<and> dg_buf dg = bs"

lemma cl_tell_told:
  assumes "appends bs (add_all body)" "length bs \<le> DGSIZE_MAX"
  shows "\<exists>dg. is_bytes dg bs \<and> cl_tell env body s = (Inr (), told env dg s)"
  using appends_dg_create [OF assms] by (auto simp: cl_tell_def is_bytes_def)

lemma cl_send_cases:
  assumes "appends bs (add_all body)"
  shows "(\<exists>q. is_message q [target] sender t bs
      \<and> cl_send target sender t body s = (Inr (), s\<lparr>cl_effects := cl_effects s @ [CRoute q]\<rparr>))
    \<or> cl_send target sender t body s = (Inl DatagramOverflow, s) \<and> DGSIZE_MAX < 19 + length bs"
proof -
  have ap: "appends (server_header_bytes [target] sender t @ bs)
      (\<lambda>dg. rbind (add_server_header target sender t dg) (add_all body))"
    by (rule appends_seq [OF appends_add_server_header assms])
  show ?thesis
  proof (cases "19 + length bs \<le> DGSIZE_MAX")
    case True
    from appends_dg_create [OF ap] True show ?thesis
      by (auto simp: cl_send_def dg_create_server_def is_message_def)
  next
    case False
    from appends_overflow [OF ap dg_create_ok(1)] False show ?thesis
      by (simp add: cl_send_def dg_create_server_def sbind_apply)
  qed
qed

lemma cl_send_sent:
  assumes "appends bs (add_all body)" "19 + length bs \<le> DGSIZE_MAX"
  shows "\<exists>q. is_message q [target] sender t bs
      \<and> cl_send target sender t body s = (Inr (), s\<lparr>cl_effects := cl_effects s @ [CRoute q]\<rparr>)"
  using cl_send_cases [OF assms(1), of target sender t s] assms(2) by auto

section \<open>Confinement\<close>

text \<open>
  What a client may cause before it is authenticated: traffic on its own connection, events,
  and, where \<open>updates\<close> holds, field updates of anonymous uberdogs.
\<close>

fun harmless :: "cenv \<Rightarrow> bool \<Rightarrow> channel \<Rightarrow> cl_effect \<Rightarrow> bool" where
  "harmless env updates me (CRoute q) \<longleftrightarrow> updates \<and> (\<exists>d fid data. anonymous_uberdog env d
     \<and> is_message q [doid_channel d] me STATESERVER_OBJECT_SET_FIELD
         (le_bytes 4 d @ le_bytes 2 (fid :: u16) @ data))"
| "harmless env updates me (ToClient dg) \<longleftrightarrow> True"
| "harmless env updates me (CEvent dg) \<longleftrightarrow> True"
| "harmless env updates me CHeartbeatReset \<longleftrightarrow> True"
| "harmless env updates me e \<longleftrightarrow> False"

text \<open>All of a session but its phase, its connection, its heartbeat and its effects.\<close>

definition tables :: "client \<Rightarrow> client" where
  "tables s = s\<lparr>cl_state := 0, clean_disconnect := False, heartbeat_timer := False, net := netclient_new, cl_effects := []\<rparr>"

lemma tables_simps [simp]:
  "tables (s\<lparr>cl_state := st\<rparr>) = tables s" "tables (s\<lparr>clean_disconnect := b\<rparr>) = tables s"
  "tables (s\<lparr>heartbeat_timer := b\<rparr>) = tables s" "tables (s\<lparr>net := n\<rparr>) = tables s"
  "tables (s\<lparr>cl_effects := es\<rparr>) = tables s" "tables (s\<lparr>net := n, cl_effects := es\<rparr>) = tables s"
  by (simp_all add: tables_def)

lemma tablesD:
  assumes "tables s' = tables s"
  shows "cl_channel s' = cl_channel s" "cl_allocated s' = cl_allocated s" "interests s' = interests s"
    "pending_interests s' = pending_interests s" "pending_objects s' = pending_objects s"
    "visible_objects s' = visible_objects s" "seen_objects s' = seen_objects s" "session_objects s' = session_objects s"
    "owned_objects s' = owned_objects s" "declared_objects s' = declared_objects s"
    "historical_objects s' = historical_objects s" "fields_sendable s' = fields_sendable s"
    "cl_terminated s' = cl_terminated s" "cl_next_context s' = cl_next_context s"
    "pending_timeouts s' = pending_timeouts s"
  using arg_cong [OF assms, of cl_channel] arg_cong [OF assms, of cl_allocated] arg_cong [OF assms, of interests]
    arg_cong [OF assms, of pending_interests] arg_cong [OF assms, of pending_objects]
    arg_cong [OF assms, of visible_objects] arg_cong [OF assms, of seen_objects]
    arg_cong [OF assms, of session_objects] arg_cong [OF assms, of owned_objects]
    arg_cong [OF assms, of declared_objects] arg_cong [OF assms, of historical_objects]
    arg_cong [OF assms, of fields_sendable] arg_cong [OF assms, of cl_terminated]
    arg_cong [OF assms, of cl_next_context] arg_cong [OF assms, of pending_timeouts]
  by (simp_all add: tables_def)

lemma tables_lookup:
  assumes "tables s' = tables s"
  shows "lookup_object env d s' = lookup_object env d s" "may_send d f fid s' = may_send d f fid s"
  unfolding lookup_object_def may_send_def tablesD [OF assms] by (rule refl)+

definition confined :: "cenv \<Rightarrow> bool \<Rightarrow> client \<Rightarrow> client \<Rightarrow> bool" where
  "confined env updates s s' \<longleftrightarrow> tables s' = tables s
     \<and> (cl_state s' = cl_state s \<or> (cl_state s = CLIENT_STATE_NEW \<and> cl_state s' = CLIENT_STATE_ANONYMOUS))
     \<and> (\<exists>more. cl_effects s' = cl_effects s @ more \<and> list_all (harmless env updates (cl_channel s)) more)"

lemma confined_refl [simp]: "confined env updates s s"
  by (simp add: confined_def)

lemma keeps_sbind_sget:
  "(\<And>x. P x \<Longrightarrow> keeps P (f (g x))) \<Longrightarrow> keeps P (sbind (sget g) f)"
  by (simp add: keeps_def)

lemma confined_channel: "confined env updates s s' \<Longrightarrow> cl_channel s' = cl_channel s"
  by (auto simp: confined_def dest: tablesD)

lemma keeps_confined_supd [keeps_intros]:
  assumes "\<And>s. tables (f s) = tables s" "\<And>s. cl_state (f s) = cl_state s" "\<And>s. cl_effects (f s) = cl_effects s"
  shows "keeps (confined env updates s0) (supd f)"
  by (rule keeps_supd) (simp add: confined_def assms)

lemma keeps_confined_effect:
  "harmless env updates (cl_channel s0) e \<Longrightarrow> keeps (confined env updates s0) (cl_effect e)"
  unfolding cl_effect_def by (rule keeps_supd) (auto simp: confined_def)

lemma keeps_confined_client [keeps_intros]:
  "keeps (confined env updates s0) (to_client env' dg)" "keeps (confined env updates s0) (close_client env')"
  "keeps (confined env updates s0) (cl_tell env' body)" "keeps (confined env updates s0) (log_event ev)"
  "keeps (confined env updates s0) (base_send_disconnect reason msg sec)"
  "keeps (confined env updates s0) (send_disconnect env' reason msg sec)"
  "keeps (confined env updates s0) (eject env' reason msg sec it)"
  "keeps (confined env updates s0) handle_client_heartbeat"
  "keeps (confined env updates s0) (handle_client_disconnect env')"
proof -
  show 1: "keeps (confined env updates s0) (to_client env' dg)" for dg
    unfolding to_client_def by (rule keeps_supd) (auto simp: confined_def)
  show 2: "keeps (confined env updates s0) (close_client env')"
    unfolding close_client_def by (intro keeps_intros; simp)
  show 3: "keeps (confined env updates s0) (cl_tell env' body)" for body
    unfolding cl_tell_def by (intro keeps_intros 1)
  show 4: "keeps (confined env updates s0) (log_event ev)" for ev
    unfolding log_event_def by (intro keeps_intros keeps_confined_effect; simp)
  show 5: "keeps (confined env updates s0) (base_send_disconnect reason msg sec)"
    unfolding base_send_disconnect_def by (rule 4)
  show 6: "keeps (confined env updates s0) (send_disconnect env' reason msg sec)"
    unfolding send_disconnect_def by (intro keeps_intros 2 3 5; simp)
  show "keeps (confined env updates s0) (eject env' reason msg sec it)"
    unfolding eject_def by (intro keeps_intros 6)
  show "keeps (confined env updates s0) handle_client_heartbeat"
    unfolding handle_client_heartbeat_def by (intro keeps_intros keeps_confined_effect; simp)
  show "keeps (confined env updates s0) (handle_client_disconnect env')"
    unfolding handle_client_disconnect_def by (intro keeps_intros 2 4; simp)
qed

text \<open>A field value taken from a datagram fits a datagram.\<close>

lemma unpacked_length: "unpack_field f it = Inr (data, it') \<Longrightarrow> length data \<le> DGSIZE_MAX"
proof -
  assume "unpack_field f it = Inr (data, it')"
  then have c: "consumed it data it'" using unpack_consumed(1) by (simp add: unpack_field_def)
  show ?thesis
  proof (cases "data = []")
    case False
    with c have "it_offset it + length data \<le> unat (dg_size (it_dg it))" by (auto simp: consumed_def)
    moreover have "unat (dg_size (it_dg it)) < 65536" using unsigned_less [of "dg_size (it_dg it)"] by simp
    ultimately show ?thesis by (simp add: DGSIZE_MAX_def)
  qed simp
qed

lemma appends_update:
  "length data \<le> DGSIZE_MAX \<Longrightarrow>
    appends (le_bytes 4 d @ le_bytes 2 fid @ data) (add_all [add_doid d, add_uint16 fid, add_data data])"
proof -
  assume "length data \<le> DGSIZE_MAX"
  then have "appends (le_bytes 4 d @ le_bytes 2 fid @ data @ []) (add_all [add_doid d, add_uint16 fid, add_data data])"
    by (intro appends_intros)
  then show ?thesis by simp
qed

lemma keeps_confined_update:
  assumes "cl_state s0 \<noteq> CLIENT_STATE_ESTABLISHED" "updates"
  shows "keeps (confined env updates s0) (handle_client_object_update_field env it)"
  unfolding handle_client_object_update_field_def
proof (rule keeps_sbind [OF keeps_slift], rule keeps_case_prod, rule keeps_sbind [OF keeps_slift],
    rule keeps_case_prod, rule keeps_sbind_sget, unfold id_apply)
  fix s d it1 fid it2
  assume s: "confined env updates s0 s"
  then have st: "cl_state s \<noteq> CLIENT_STATE_ESTABLISHED" using assms(1) by (auto simp: confined_def)
  have sends: "keeps (confined env updates s0) (cl_send (doid_channel d) (cl_channel s) STATESERVER_OBJECT_SET_FIELD
      [add_doid d, add_uint16 fid, add_data data])"
    if d: "anonymous_uberdog env d" and len: "length data \<le> DGSIZE_MAX" for data
  proof (rule keepsI)
    fix x assume x: "confined env updates s0 x"
    show "confined env updates s0 (snd (cl_send (doid_channel d) (cl_channel s) STATESERVER_OBJECT_SET_FIELD
      [add_doid d, add_uint16 fid, add_data data] x))"
      using cl_send_cases [OF appends_update [OF len], of "doid_channel d" "cl_channel s" STATESERVER_OBJECT_SET_FIELD d fid x]
    proof (elim disjE exE conjE)
      fix m
      assume "is_message m [doid_channel d] (cl_channel s) STATESERVER_OBJECT_SET_FIELD (le_bytes 4 d @ le_bytes 2 fid @ data)"
        and sent: "cl_send (doid_channel d) (cl_channel s) STATESERVER_OBJECT_SET_FIELD
          [add_doid d, add_uint16 fid, add_data data] x = (Inr (), x\<lparr>cl_effects := cl_effects x @ [CRoute m]\<rparr>)"
      then have "harmless env updates (cl_channel s0) (CRoute m)"
        using assms(2) d confined_channel [OF s] by auto
      from keepsD [OF keeps_confined_effect [OF this] x] sent show ?thesis by simp
    qed (use x in simp)
  qed
  show "keeps (confined env updates s0)
     (case lookup_object env d s of
       None \<Rightarrow>
         if is_historical_object d s then slift (skip_remaining it2)
         else eject env CLIENT_DISCONNECT_MISSING_OBJECT
           (str ''Client tried to send update to nonexistent object '' @ decimal (unat d)) True it2
     | Some cls \<Rightarrow>
         if cl_state s \<noteq> CLIENT_STATE_ESTABLISHED \<and> \<not> anonymous_uberdog env d then
           eject env CLIENT_DISCONNECT_ANONYMOUS_VIOLATION
             (str ''Client tried to send update to non-anonymous object '' @ object_name cls d) True it2
         else
           (case get_field_by_id cls (ucast fid) of
              None \<Rightarrow>
                eject env CLIENT_DISCONNECT_FORBIDDEN_FIELD
                  (str ''Client tried to send update for nonexistent field '' @ decimal (unat fid)
                   @ str '' to object '' @ object_name cls d) True it2
            | Some f \<Rightarrow>
                if \<not> may_send d f fid s then
                  eject env CLIENT_DISCONNECT_FORBIDDEN_FIELD
                    (str ''Client tried to send update for non-sendable field: '' @ object_name cls d
                     @ str ''.'' @ str (field_name f)) True it2
                else
                  (case unpack_field f it2 of
                     Inl e \<Rightarrow>
                       if e = FieldConstraintViolation then
                         eject env CLIENT_DISCONNECT_FIELD_CONSTRAINT
                           (str ''Client tried to send update that violates the constraints for field ''
                            @ object_name cls d @ str ''.'' @ str (field_name f) @ str '': '' @ ce_violation env f it2) True
                           (stop_dtype (field_type f) it2)
                       else sthrow e
                   | Inr (data, it) \<Rightarrow>
                       sseq (cl_send (doid_channel d) (cl_channel s) STATESERVER_OBJECT_SET_FIELD
                          [add_doid d, add_uint16 fid, add_data data])
                         (sret it))))"
    using st by (auto split: option.split sum.split intro!: keeps_intros sends dest: unpacked_length)
qed

lemma confined_receive:
  assumes "cl_state s \<noteq> CLIENT_STATE_ESTABLISHED"
  shows "confined env (cl_state s = CLIENT_STATE_ANONYMOUS) s (snd (receive_datagram env dg s))"
proof -
  let ?P = "confined env (cl_state s = CLIENT_STATE_ANONYMOUS) s"
  have "keeps ?P (handle_pre_hello env it)" if "cl_state s = CLIENT_STATE_NEW" for it
    unfolding handle_pre_hello_def
    by (intro keeps_intros keeps_supd) (use that in \<open>auto simp: confined_def\<close>)
  moreover have "keeps ?P (handle_pre_auth env it)" if "cl_state s = CLIENT_STATE_ANONYMOUS" for it
    unfolding handle_pre_auth_def
    by (intro keeps_intros keeps_confined_update) (use that in auto)
  ultimately have st: "?P (snd (receive_by_state env it s))" for it
    using assms by (simp add: receive_by_state_def keepsD)
  have sd: "?P x \<Longrightarrow> ?P (snd (send_disconnect env reason msg sec x))" for reason msg sec x
    by (rule keepsD [OF keeps_confined_client(6)])
  show ?thesis
  proof (cases "dgi_new dg 0")
    case (Inr it)
    with st [of it] sd show ?thesis
      by (auto simp: receive_datagram_def swhen_def split: prod.split sum.split)
  qed (simp add: receive_datagram_def)
qed

text \<open>A client's datagram starts with the message type.\<close>

lemma client_message:
  assumes "dg_ok dg" "dg_buf dg = le_bytes 2 mt @ rest"
  shows "read_uint16 (start dg) = Inr (mt, advance (start dg) 2)" "upcoming (advance (start dg) 2) rest"
proof -
  from start_upcoming [OF assms(1)] have "upcoming (start dg) (le_bytes 2 mt @ rest)" by (simp add: assms(2))
  then have up: "upcoming (start dg) (le_bytes 2 mt)" "upcoming (advance (start dg) 2) rest"
    by (simp_all add: upcoming_append)
  show "read_uint16 (start dg) = Inr (mt, advance (start dg) 2)" using u16c.rd_upcoming [OF TrueI up(1)] by simp
  show "upcoming (advance (start dg) 2) rest" by (rule up(2))
qed

text \<open>What is left of a datagram whose last part was read.\<close>

lemma get_remaining_advance:
  assumes "dg_ok dg" "length (dg_buf dg) = n"
  shows "get_remaining (advance (start dg) n) = 0"
proof -
  have "unat (dg_size dg) = n"
    using assms unat_of_short_length [of "dg_buf dg"] by (simp add: dg_ok_def dg_size_def buf_offset_def)
  then show ?thesis by (simp add: get_remaining_def start_def advance_def)
qed

section \<open>Ejections\<close>

lemma length_digits: "n < base ^ k \<Longrightarrow> 0 < k \<Longrightarrow> length (digits base n) \<le> k"
proof (induction k arbitrary: n)
  case (Suc k)
  show ?case
  proof (cases "base < 2 \<or> n < base")
    case True
    then show ?thesis by (subst digits.simps) simp
  next
    case False
    then have "k \<noteq> 0" using Suc.prems by (cases k) auto
    moreover have "n div base < base ^ k" using Suc.prems False by (simp add: less_mult_imp_div_less mult.commute)
    ultimately show ?thesis using Suc.IH [of "n div base"] False by (subst digits.simps) simp
  qed
qed simp

lemma length_decimal_word: "length (decimal (unat (c :: 'a::len word))) \<le> LENGTH('a)"
proof -
  have "unat c < 2 ^ LENGTH('a)" by (rule unsigned_less)
  also have "\<dots> \<le> 10 ^ LENGTH('a)" by (rule power_mono) simp_all
  finally show ?thesis by (simp add: decimal_def length_digits)
qed

lemma length_decimal_channel: "length (decimal (unat (c :: channel))) \<le> 20"
proof -
  have "unat c < 10 ^ 20" using unsigned_less [of c] by (rule less_trans) simp
  then show ?thesis by (simp add: decimal_def length_digits)
qed

text \<open>The event of an ejection.\<close>

lemma eject_event:
  "event_add (str ''sender'') c (event_add (str ''reason_msg'') msg (event_add (str ''reason_code'') code (event_new type)))
    = [(str ''type'', type), (str ''sender'', c), (str ''reason_code'', code), (str ''reason_msg'', msg)]"
  by (simp add: event_new_def str_def)

lemma event_datagram_fits:
  assumes "list_all (\<lambda>(k, v). length k \<le> DGSIZE_MAX \<and> length v \<le> DGSIZE_MAX) kvs" "length kvs < 16"
    "1 + length (concat (map (\<lambda>(k, v). packed_string k @ packed_string v) kvs)) \<le> DGSIZE_MAX"
  shows "\<exists>dg. event_datagram kvs = Inr dg"
proof -
  have "\<forall>(k, v) \<in> set kvs. length k \<le> DGSIZE_MAX \<and> length v \<le> DGSIZE_MAX"
    using assms(1) by (auto simp: list_all_iff)
  from appends_pairs [OF this]
  have "appends ([word_of_nat (128 + length kvs)] @ concat (map (\<lambda>(k, v). packed_string k @ packed_string v) kvs))
    (add_all (add_uint8 (word_of_nat (128 + length kvs)) # concat (map (\<lambda>(k, v). [pack_string k, pack_string v]) kvs)))"
    by (intro appends_add_all_Cons appends_intros)
  from appends_dg_create [OF this] assms(2,3) show ?thesis
    by (auto simp: event_datagram_def Let_def)
qed

text \<open>The session after its event was logged, its farewell sent and its connection closed.\<close>

definition ejected :: "cenv \<Rightarrow> datagram \<Rightarrow> datagram \<Rightarrow> client \<Rightarrow> client" where
  "ejected env ev q s =
     (let s1 = told env q (s\<lparr>cl_effects := cl_effects s @ [CEvent ev]\<rparr>) in
      s1\<lparr>clean_disconnect := True, net := nc_disconnect (ce_on_main env) UV_NONE (net s1)\<rparr>)"

definition eject_bytes :: "u16 \<Rightarrow> bytes \<Rightarrow> bytes" where
  "eject_bytes reason msg = le_bytes 2 CLIENT_EJECT @ le_bytes 2 reason @ sized_bytes msg"

lemma length_packed_string: "length (packed_string s) \<le> 3 + length s"
  by (simp add: packed_string_def)

lemma log_eject:
  assumes "length msg \<le> 60000"
  shows "\<exists>ev. base_send_disconnect reason msg sec s = (Inr (), s\<lparr>cl_effects := cl_effects s @ [CEvent ev]\<rparr>)"
proof -
  let ?kvs = "[(str ''type'', if sec then str ''client-ejected-security'' else str ''client-ejected''),
    (str ''sender'', str ''Client:'' @ decimal (unat (cl_allocated s))),
    (str ''reason_code'', decimal (unat reason)), (str ''reason_msg'', msg)]"
  note l = length_decimal_channel [of "cl_allocated s"] length_decimal_word [of reason] assms
  have "\<exists>ev. event_datagram ?kvs = Inr ev"
    by (rule event_datagram_fits) (use l in \<open>auto simp: DGSIZE_MAX_def packed_string_def\<close>)
  then show ?thesis by (auto simp: base_send_disconnect_def log_event_def eject_event)
qed

lemma send_disconnect_ejects:
  assumes "nc_open (net s)" "length msg \<le> 60000"
  shows "\<exists>ev q. is_bytes q (eject_bytes reason msg) \<and> send_disconnect env reason msg sec s = (Inr (), ejected env ev q s)"
proof -
  have "appends (le_bytes 2 CLIENT_EJECT @ le_bytes 2 reason @ sized_bytes msg @ [])
      (add_all [add_uint16 CLIENT_EJECT, add_uint16 reason, add_string msg])"
    using assms(2) unfolding sized_bytes_def by (intro appends_add_all_Cons appends_intros) (simp_all add: DGSIZE_MAX_def)
  then have "appends (eject_bytes reason msg) (add_all [add_uint16 CLIENT_EJECT, add_uint16 reason, add_string msg])"
    by (simp add: eject_bytes_def)
  from cl_tell_told [OF this] assms(2) have tell:
    "\<exists>q. is_bytes q (eject_bytes reason msg) \<and> cl_tell env [add_uint16 CLIENT_EJECT, add_uint16 reason, add_string msg] x
      = (Inr (), told env q x)" for x
    by (simp add: eject_bytes_def sized_bytes_def DGSIZE_MAX_def)
  from log_eject [OF assms(2)] obtain ev where
    ev: "base_send_disconnect reason msg sec s = (Inr (), s\<lparr>cl_effects := cl_effects s @ [CEvent ev]\<rparr>)" by blast
  from tell [of "s\<lparr>cl_effects := cl_effects s @ [CEvent ev]\<rparr>"] obtain q where
    q: "is_bytes q (eject_bytes reason msg)" "cl_tell env [add_uint16 CLIENT_EJECT, add_uint16 reason, add_string msg]
      (s\<lparr>cl_effects := cl_effects s @ [CEvent ev]\<rparr>) = (Inr (), told env q (s\<lparr>cl_effects := cl_effects s @ [CEvent ev]\<rparr>))"
    by blast
  have "send_disconnect env reason msg sec s = (Inr (), ejected env ev q s)"
    using assms(1) by (simp add: send_disconnect_def sseq_apply ev q(2) ejected_def Let_def close_client_def)
  with q(1) show ?thesis by blast
qed

lemma ejected_simps [simp]:
  "tables (ejected env ev q s) = tables s" "cl_state (ejected env ev q s) = cl_state s"
  "cl_effects (ejected env ev q s) = cl_effects s @ [CEvent ev, ToClient q]"
  by (simp_all add: ejected_def told_def Let_def tables_def)

lemma nc_disconnect_marks: "nc_local_disconnect (nc_disconnect m ec n) \<or> nc_disconnect_handled (nc_disconnect m ec n)"
  by (simp add: nc_disconnect_def nc_shutdown_def nc_poke_def nc_flush_send_queue_def Let_def)

lemma ejected_closing: "nc_local_disconnect (net (ejected env ev q s)) \<or> nc_disconnect_handled (net (ejected env ev q s))"
  by (simp add: ejected_def Let_def nc_disconnect_marks)

end
