(* ===== verification/Client_Security.thy ===== *)
theory Client_Security
  imports Client_Laws
begin

text \<open>
  What a client can do: before it is authenticated, with an oversized greeting, with the fields of
  objects, and after it was thrown out.
\<close>

section \<open>Clients that are not authenticated\<close>

definition receive_all :: "cenv \<Rightarrow> datagram list \<Rightarrow> client \<Rightarrow> client" where
  "receive_all env dgs s = fold (\<lambda>dg s. snd (receive_datagram env dg s)) dgs s"

lemma receive_all_simps [simp]:
  "receive_all env [] s = s" "receive_all env (dg # dgs) s = receive_all env dgs (snd (receive_datagram env dg s))"
  by (simp_all add: receive_all_def)

lemma harmless_mono: "harmless env u me e \<Longrightarrow> harmless env True me e"
  by (cases e) auto

text \<open>
  C9: Whatever datagrams a client that is not authenticated sends, it stays unauthenticated, its
  session keeps its channel, objects and interests, and all it causes is traffic on its own
  connection, log events, and field updates of anonymous uberdogs in its own name. Only the cluster
  can authenticate it.
\<close>

theorem unauthenticated_confined:
  assumes "cl_state s \<noteq> CLIENT_STATE_ESTABLISHED"
  shows "cl_state (receive_all env dgs s) \<noteq> CLIENT_STATE_ESTABLISHED
    \<and> tables (receive_all env dgs s) = tables s
    \<and> (\<exists>more. cl_effects (receive_all env dgs s) = cl_effects s @ more
        \<and> list_all (harmless env True (cl_channel s)) more)"
  using assms
proof (induction dgs arbitrary: s)
  case (Cons dg dgs)
  let ?s = "snd (receive_datagram env dg s)"
  from confined_receive [OF Cons.prems, of env dg] obtain first where
    one: "tables ?s = tables s" "cl_state ?s \<noteq> CLIENT_STATE_ESTABLISHED" "cl_effects ?s = cl_effects s @ first"
    and "list_all (harmless env (cl_state s = CLIENT_STATE_ANONYMOUS) (cl_channel s)) first"
    using Cons.prems unfolding confined_def by auto
  then have one4: "list_all (harmless env True (cl_channel s)) first"
    by (auto elim: list.pred_mono_strong dest: harmless_mono)
  from Cons.IH [OF one(2)] tablesD(1) [OF one(1)] obtain rest where
    "cl_state (receive_all env dgs ?s) \<noteq> CLIENT_STATE_ESTABLISHED"
    "tables (receive_all env dgs ?s) = tables ?s" "cl_effects (receive_all env dgs ?s) = cl_effects ?s @ rest"
    "list_all (harmless env True (cl_channel s)) rest" by auto
  with one one4 show ?case by (intro conjI exI [of _ "first @ rest"]) auto
qed simp

definition demo_cenv :: cenv where
  "demo_cenv = \<lparr>ce_on_main = True, ce_class = (\<lambda>_. None), ce_uberdogs = Map.empty, ce_version = str ''dev'',
     ce_hash = 7, ce_send_version = True, ce_send_hash = True, ce_relocate = False, ce_interests = INTERESTS_ENABLED,
     ce_heartbeat = False, ce_local = True, ce_remote_ip = [], ce_remote_port = 0, ce_local_ip = [], ce_local_port = 0,
     ce_tlvs = [], ce_violation = (\<lambda>_ _. []), ce_zones = sorted_list_of_set, ce_objs = sorted_list_of_set,
     ce_ctxs = sorted_list_of_set, ce_chans = sorted_list_of_set\<rparr>"

definition demo_client :: client where
  "demo_client = (client_blank 1000)\<lparr>net := nc_initialize 0 0\<rparr>"

lemma demo_client_simps [simp]:
  "cl_state demo_client = CLIENT_STATE_NEW" "nc_open (net demo_client)" "cl_allocated demo_client = 1000"
  "cl_channel demo_client = 1000" "cl_effects demo_client = []"
  by (simp_all add: demo_client_def client_blank_def nc_initialize_def netclient_new_def)

theorem unauthenticated_confined_witness:
  "cl_state (receive_all demo_cenv [dg_create_data [1, 0], dg_create_data [120, 0, 1]] demo_client) \<noteq> CLIENT_STATE_ESTABLISHED"
  using unauthenticated_confined [of demo_client demo_cenv "[dg_create_data [1, 0], dg_create_data [120, 0, 1]]"] by simp

section \<open>An oversized greeting\<close>

text \<open>The allocation of a datagram is never much larger than what it holds.\<close>

definition roomy :: "datagram \<Rightarrow> bool" where
  "roomy dg \<longleftrightarrow> buf_cap dg \<le> 2 * buf_offset dg + 64"

definition keeps_room :: "(datagram \<Rightarrow> datagram res) \<Rightarrow> bool" where
  "keeps_room op \<longleftrightarrow> (\<forall>dg dg'. roomy dg \<longrightarrow> op dg = Inr dg' \<longrightarrow> roomy dg')"

lemma room_put: "unat n = length bs \<Longrightarrow> keeps_room (dg_put n bs)"
  by (auto simp: keeps_room_def dg_put_def check_add_length_def dg_store_def roomy_def buf_offset_def Let_def
      rbind_eq_Inr split: if_splits)

lemma room_add_uint8: "keeps_room (add_uint8 b)"
  by (simp add: add_uint8_def room_put)

lemma room_add_data: "length s \<le> DGSIZE_MAX \<Longrightarrow> keeps_room (add_data s)"
proof (cases "s = []")
  case True
  then have "add_data s = Inr" by (simp add: add_data_def fun_eq_iff)
  then show ?thesis by (simp add: keeps_room_def)
next
  case False
  then have "add_data s = dg_put (word_of_nat (length s)) s" by (simp add: add_data_def fun_eq_iff)
  moreover assume "length s \<le> DGSIZE_MAX"
  ultimately show ?thesis by (simp only: room_put unat_of_short_length)
qed

lemma room_seq: "keeps_room f \<Longrightarrow> keeps_room g \<Longrightarrow> keeps_room (\<lambda>dg. rbind (f dg) g)"
  unfolding keeps_room_def by (blast elim!: rbind_InrE)

lemma room_add_all: "list_all keeps_room ops \<Longrightarrow> keeps_room (add_all ops)"
proof (induction ops)
  case (Cons a ops)
  then have "keeps_room (\<lambda>dg. rbind (a dg) (add_all ops))" by (intro room_seq) auto
  then show ?case by (simp add: keeps_room_def)
qed (simp add: keeps_room_def)

lemma room_pack_string: "length s \<le> DGSIZE_MAX \<Longrightarrow> keeps_room (pack_string s)"
  by (auto simp: pack_string_def Let_def simp del: add_all.simps intro!: room_add_all room_add_uint8 room_add_data)

text \<open>Adding a string of 65536 bytes or a little more writes past the allocation.\<close>

lemma add_data_overflow:
  assumes "roomy dg" "buf_offset dg \<le> 210" "65536 \<le> length s" "length s \<le> 130000"
  shows "add_data s dg = Inl HeapOverflow"
proof -
  have n: "unat (word_of_nat (length s) :: u16) = length s - 65536"
    using assms(3,4) by (simp add: unsigned_of_nat take_bit_eq_mod mod_if)
  from assms(3) have "s \<noteq> []" by auto
  with assms n show ?thesis
    by (auto simp: add_data_def dg_put_def check_add_length_def dg_store_def roomy_def buf_offset_def DGSIZE_MAX_def Let_def)
qed

lemma pack_string_overflow:
  assumes dg: "dg_ok dg" "roomy dg" "buf_offset dg \<le> 200" and len: "65536 \<le> length s" "length s \<le> 130000"
  shows "pack_string s dg = Inl HeapOverflow"
proof -
  let ?n = "length s"
  define b1 b2 where b: "b1 = (word_of_nat (?n div 256 mod 256) :: u8)" "b2 = (word_of_nat (?n mod 256) :: u8)"
  let ?ops = "[add_uint8 218, add_uint8 b1, add_uint8 b2]"
  from len(1) have "\<not> ?n < 32" by simp
  have ap: "appends ([218] @ [b1] @ [b2] @ []) (add_all ?ops)"
    by (intro appends_intros)
  have room: "keeps_room (add_all ?ops)" by (rule room_add_all) (simp add: room_add_uint8)
  have fits: "buf_offset dg + length ([218] @ [b1] @ [b2] @ [] :: bytes) \<le> DGSIZE_MAX"
    using dg(3) by (simp add: DGSIZE_MAX_def)
  obtain dg1 where dg1: "add_all ?ops dg = Inr dg1" "dg_buf dg1 = dg_buf dg @ [218] @ [b1] @ [b2] @ []"
    by (rule appends_ok [OF ap dg(1) fits])
  with room dg(2) have "roomy dg1" unfolding keeps_room_def by blast
  moreover from dg1(2) dg(3) have "buf_offset dg1 \<le> 210" by (simp add: buf_offset_def)
  ultimately have over: "add_data s dg1 = Inl HeapOverflow" using len by (rule add_data_overflow)
  have "pack_string s = add_all (?ops @ [add_data s])"
    using \<open>\<not> ?n < 32\<close> by (simp only: pack_string_def Let_def b if_False append.simps)
  then have "pack_string s dg = rbind (add_all ?ops dg) (add_all [add_data s])"
    by (simp only: add_all_append)
  also have "\<dots> = Inl HeapOverflow"
    unfolding dg1(1) by (simp only: rbind_Inr add_all.simps over rbind_Inl)
  finally show ?thesis .
qed

lemma pack_event_overflow:
  assumes "length type \<le> 31" "length c \<le> 31" "length code \<le> 31" "65536 \<le> length msg" "length msg \<le> 130000"
  shows "event_datagram [(str ''type'', type), (str ''sender'', c), (str ''reason_code'', code), (str ''reason_msg'', msg)]
    = Inl HeapOverflow"
proof -
  let ?ops = "[add_uint8 132, pack_string (str ''type''), pack_string type, pack_string (str ''sender''), pack_string c,
      pack_string (str ''reason_code''), pack_string code, pack_string (str ''reason_msg'')]"
  let ?bs = "[132] @ packed_string (str ''type'') @ packed_string type @ packed_string (str ''sender'') @ packed_string c
      @ packed_string (str ''reason_code'') @ packed_string code @ packed_string (str ''reason_msg'') @ []"
  have short: "length s \<le> 31 \<Longrightarrow> length s \<le> DGSIZE_MAX" for s :: bytes by (simp add: DGSIZE_MAX_def)
  have ap: "appends ?bs (add_all ?ops)"
    by (intro appends_intros; (rule short)?) (use assms(1-3) in simp_all)
  have len: "length ?bs \<le> 140" using assms(1-3) by (simp add: packed_string_def)
  have room: "keeps_room (add_all ?ops)"
    by (rule room_add_all) (use assms(1-3) in \<open>simp add: room_add_uint8 room_pack_string DGSIZE_MAX_def\<close>)
  obtain dg where dg: "add_all ?ops dg_create = Inr dg" "dg_ok dg" "dg_buf dg = ?bs"
    using appends_ok [OF ap dg_create_ok(1)] len by (auto simp: DGSIZE_MAX_def)
  have "roomy dg_create" by (simp add: roomy_def dg_create_def)
  with room dg(1) have "roomy dg" unfolding keeps_room_def by blast
  moreover have "buf_offset dg \<le> 200" using dg(3) len by (simp add: buf_offset_def)
  ultimately have "pack_string msg dg = Inl HeapOverflow" using dg(2) assms(4,5) by (intro pack_string_overflow)
  moreover have "event_datagram [(str ''type'', type), (str ''sender'', c), (str ''reason_code'', code), (str ''reason_msg'', msg)]
      = rbind (add_all ?ops dg_create) (add_all [pack_string msg])"
    unfolding add_all_append [symmetric] by (simp add: event_datagram_def Let_def del: add_all.simps)
  ultimately show ?thesis using dg(1) by simp
qed

text \<open>
  C35: A client that greets the server with a version so long that the ejection message passes 65535
  bytes makes the server write that message past the allocation of the event it logs, before the
  client has authenticated or even sent a second datagram.
\<close>

theorem oversized_greeting_overflows:
  assumes "cl_state s = CLIENT_STATE_NEW" "nc_open (net s)"
    and dg: "dg_ok dg" "dg_buf dg = le_bytes 2 CLIENT_HELLO @ le_bytes 4 (h :: u32) @ sized_bytes version"
    and "version \<noteq> ce_version env"
    and len: "65536 \<le> length (version_text env version)" "length (version_text env version) \<le> 130000"
  shows "fst (receive_datagram env dg s) = Inl HeapOverflow"
proof -
  note msg = client_message [OF dg]
  note hash = read_uint32_upcoming [OF msg(2)]
  have "length version \<le> DGSIZE_MAX"
    using dg by (simp add: dg_ok_def buf_offset_def sized_bytes_def)
  from stringc.rd_upcoming [OF this] hash have ver:
    "\<exists>it. read_string (advance (advance (start dg) 2) 4) = Inr (version, it)" by blast
  have ejects: "fst (send_disconnect env CLIENT_DISCONNECT_BAD_VERSION (version_text env version) False x) = Inl HeapOverflow"
    if "nc_open (net x)" for x
  proof -
    have "length (str ''Client:'' @ decimal (unat (cl_allocated x))) \<le> 31"
      using length_decimal_channel [of "cl_allocated x"] by simp
    moreover have "length (decimal (unat (CLIENT_DISCONNECT_BAD_VERSION :: u16))) \<le> 31"
      by (simp add: decimal_def digits.simps)
    ultimately have "event_datagram [(str ''type'', str ''client-ejected''), (str ''sender'', str ''Client:'' @ decimal (unat (cl_allocated x))),
        (str ''reason_code'', decimal (unat (CLIENT_DISCONNECT_BAD_VERSION :: u16))), (str ''reason_msg'', version_text env version)]
      = Inl HeapOverflow"
      by (intro pack_event_overflow len) simp_all
    with that show ?thesis
      by (simp add: send_disconnect_def base_send_disconnect_def log_event_def eject_event sbind_apply sseq_apply)
  qed
  obtain t where t: "handle_client_heartbeat s = (Inr (), t)" "net t = net s"
    by (cases "heartbeat_timer s") (auto simp: handle_client_heartbeat_def)
  from msg(1) hash ver assms(5) have "\<exists>it. handle_pre_hello env (start dg) s
    = eject env CLIENT_DISCONNECT_BAD_VERSION (version_text env version) False it t"
    by (auto simp: handle_pre_hello_def sseq_apply t(1))
  moreover have "fst (eject env CLIENT_DISCONNECT_BAD_VERSION (version_text env version) False it t) = Inl HeapOverflow" for it
    using ejects [of t] assms(2) t(2) by (auto simp: eject_def sseq_apply split: prod.split sum.split)
  ultimately have "fst (handle_pre_hello env (start dg) s) = Inl HeapOverflow" by auto
  with assms(1) show ?thesis
    by (auto simp: receive_datagram_def receive_by_state_def split: prod.split sum.split)
qed

definition demo_greeting :: datagram where
  "demo_greeting = dg_create_data (le_bytes 2 CLIENT_HELLO @ le_bytes 4 (0 :: u32) @ sized_bytes (replicate 65510 120))"

theorem oversized_greeting_overflows_witness:
  "fst (receive_datagram demo_cenv demo_greeting demo_client) = Inl HeapOverflow"
proof (rule oversized_greeting_overflows)
  show "dg_buf demo_greeting = le_bytes 2 CLIENT_HELLO @ le_bytes 4 (0 :: u32) @ sized_bytes (replicate 65510 120)"
    by (simp add: demo_greeting_def dg_create_data_def)
  show "dg_ok demo_greeting"
    by (simp add: demo_greeting_def dg_create_data_def dg_ok_def buf_offset_def DGSIZE_MAX_def sized_bytes_def)
  have "length (replicate 65510 120 :: bytes) \<noteq> length (ce_version demo_cenv)" by (simp add: demo_cenv_def)
  then show "replicate 65510 120 \<noteq> ce_version demo_cenv" by metis
qed (simp_all add: version_text_def demo_cenv_def)

section \<open>Field updates\<close>

text \<open>The datagram of a client that updates a field.\<close>

definition update_bytes :: "doid \<Rightarrow> u16 \<Rightarrow> bytes \<Rightarrow> bytes" where
  "update_bytes d fid data = le_bytes 2 CLIENT_OBJECT_SET_FIELD @ le_bytes 4 d @ le_bytes 2 fid @ data"

lemma update_reaches_handler:
  assumes "cl_state s = CLIENT_STATE_ESTABLISHED" "dg_ok dg" "dg_buf dg = update_bytes d fid data"
  shows "receive_by_state env (start dg) s = handle_client_object_update_field env (advance (start dg) 2) s"
    and "read_doid (advance (start dg) 2) = Inr (d, advance (start dg) 6)"
    and "read_uint16 (advance (start dg) 6) = Inr (fid, advance (start dg) 8)"
proof -
  note msg = client_message [OF assms(2) assms(3) [unfolded update_bytes_def]]
  note doid = read_doid_upcoming [OF msg(2)]
  from msg(1) assms(1) show "receive_by_state env (start dg) s = handle_client_object_update_field env (advance (start dg) 2) s"
    by (simp add: receive_by_state_def handle_authenticated_def)
  from doid show "read_doid (advance (start dg) 2) = Inr (d, advance (start dg) 6)" by simp
  from read_uint16_upcoming [OF conjunct2 [OF doid]]
  show "read_uint16 (advance (start dg) 6) = Inr (fid, advance (start dg) 8)" by simp
qed

text \<open>
  What the session asks of an update: the object is known, the field exists, the client may send it - by
  a keyword of the field, as the owner of the object, or because a server listed the field - and a
  value of the field's type comes next, small enough to be passed on.
\<close>

definition acceptable_update :: "cenv \<Rightarrow> client \<Rightarrow> doid \<Rightarrow> u16 \<Rightarrow> dgi \<Rightarrow> bytes \<Rightarrow> bool" where
  "acceptable_update env s d fid it data \<longleftrightarrow>
     (\<exists>cls f it'. lookup_object env d s = Some cls \<and> get_field_by_id cls (ucast fid) = Some f
        \<and> (has_keyword f ''clsend'' \<or> (d \<in> dom (owned_objects s) \<and> has_keyword f ''ownsend'')
           \<or> (\<exists>fids. fields_sendable s (ucast d) = Some fids \<and> fid \<in> fids))
        \<and> unpack_field f it = Inr (data, it') \<and> length data \<le> 65510)"

lemma acceptable_iff:
  "acceptable_update env s d fid it data \<longleftrightarrow>
     (\<exists>cls f it'. lookup_object env d s = Some cls \<and> get_field_by_id cls (ucast fid) = Some f \<and> may_send d f fid s
        \<and> unpack_field f it = Inr (data, it') \<and> length data \<le> 65510)"
  by (auto simp: acceptable_update_def may_send_def split: option.splits)

lemma update_handled:
  assumes "cl_state s = CLIENT_STATE_ESTABLISHED" "dg_ok dg" "dg_buf dg = update_bytes d fid rest"
    and ok: "acceptable_update env s d fid (advance (start dg) 8) data"
  shows "\<exists>q. is_message q [doid_channel d] (cl_channel s) STATESERVER_OBJECT_SET_FIELD (le_bytes 4 d @ le_bytes 2 fid @ data)
    \<and> data = take (length data) rest
    \<and> receive_by_state env (start dg) s
      = (Inr (advance (start dg) (8 + length data)), s\<lparr>cl_effects := cl_effects s @ [CRoute q]\<rparr>)"
proof -
  note h = update_reaches_handler(1) [OF assms(1-3), where env = env] update_reaches_handler(2,3) [OF assms(1-3)]
  from ok obtain cls f it' where u: "lookup_object env d s = Some cls" "get_field_by_id cls (ucast fid) = Some f"
    "may_send d f fid s" "unpack_field f (advance (start dg) 8) = Inr (data, it')" "length data \<le> 65510"
    by (auto simp: acceptable_iff)
  have c: "consumed (advance (start dg) 8) data it'" using u(4) unpack_consumed(1) by (simp add: unpack_field_def)
  then have it': "it' = advance (start dg) (8 + length data)" "data = take (length data) rest"
    using assms(3) by (simp_all add: consumed_def advance_def start_def update_bytes_def)
  have "length data \<le> DGSIZE_MAX" "19 + length (le_bytes 4 d @ le_bytes 2 fid @ data) \<le> DGSIZE_MAX"
    using u(5) by (simp_all add: DGSIZE_MAX_def)
  then obtain q where
    q: "is_message q [doid_channel d] (cl_channel s) STATESERVER_OBJECT_SET_FIELD (le_bytes 4 d @ le_bytes 2 fid @ data)"
      "cl_send (doid_channel d) (cl_channel s) STATESERVER_OBJECT_SET_FIELD [add_doid d, add_uint16 fid, add_data data] s
        = (Inr (), s\<lparr>cl_effects := cl_effects s @ [CRoute q]\<rparr>)"
    using cl_send_sent [OF appends_update] by blast
  have "receive_by_state env (start dg) s
    = (Inr (advance (start dg) (8 + length data)), s\<lparr>cl_effects := cl_effects s @ [CRoute q]\<rparr>)"
    unfolding h(1) using h(2,3) assms(1) u(1-4) it'(1)
    by (simp add: handle_client_object_update_field_def sseq_apply q(2))
  with q(1) it'(2) show ?thesis by blast
qed

lemma update_routes:
  assumes "cl_state s = CLIENT_STATE_ESTABLISHED" "dg_ok dg" "dg_buf dg = update_bytes d fid data"
    and obj: "lookup_object env d s = Some cls" "get_field_by_id cls (ucast fid) = Some f" "may_send d f fid s"
    and data: "unpack_field f (advance (start dg) 8) = Inr (data, advance (start dg) (8 + length data))"
    and fits: "length data \<le> 65510"
  shows "\<exists>q. is_message q [doid_channel d] (cl_channel s) STATESERVER_OBJECT_SET_FIELD
        (le_bytes 4 d @ le_bytes 2 fid @ data)
    \<and> receive_datagram env dg s = (Inr (), s\<lparr>cl_effects := cl_effects s @ [CRoute q]\<rparr>)"
proof -
  have "acceptable_update env s d fid (advance (start dg) 8) data" using obj data fits by (auto simp: acceptable_iff)
  from update_handled [OF assms(1-3) this] obtain q where
    q: "is_message q [doid_channel d] (cl_channel s) STATESERVER_OBJECT_SET_FIELD (le_bytes 4 d @ le_bytes 2 fid @ data)"
      "receive_by_state env (start dg) s
        = (Inr (advance (start dg) (8 + length data)), s\<lparr>cl_effects := cl_effects s @ [CRoute q]\<rparr>)"
    by blast
  moreover have "get_remaining (advance (start dg) (8 + length data)) = 0"
    by (rule get_remaining_advance [OF assms(2)]) (simp add: assms(3) update_bytes_def)
  ultimately show ?thesis by (auto simp: receive_datagram_def)
qed

lemma update_refused:
  assumes "cl_state s = CLIENT_STATE_ESTABLISHED" "dg_ok dg" "dg_buf dg = update_bytes d fid rest"
    and no: "\<And>data. \<not> acceptable_update env s d fid (advance (start dg) 8) data"
  shows "confined env False s (snd (receive_by_state env (start dg) s))"
proof -
  note h = update_reaches_handler(1) [OF assms(1-3), where env = env] update_reaches_handler(2,3) [OF assms(1-3)]
  have ej: "confined env False s (snd (eject env reason msg True it s))" for reason msg it
    by (rule keepsD [OF keeps_confined_client(7) confined_refl])
  have over: "confined env False s (snd (cl_send (doid_channel d) (cl_channel s) STATESERVER_OBJECT_SET_FIELD
      [add_doid d, add_uint16 fid, add_data data] s))"
    if "unpack_field f (advance (start dg) 8) = Inr (data, it')" "65510 < length data" for f data it'
    using cl_send_cases [OF appends_update [OF unpacked_length [OF that(1)]], of "doid_channel d" "cl_channel s"
        STATESERVER_OBJECT_SET_FIELD d fid s] that(2)
    by (auto simp: is_message_def dg_ok_def buf_offset_def server_header_bytes_def DGSIZE_MAX_def)
  show ?thesis
  proof (cases "lookup_object env d s")
    case None
    then show ?thesis
      unfolding h(1) using h(2,3) ej by (simp add: handle_client_object_update_field_def)
  next
    case (Some cls)
    show ?thesis
    proof (cases "get_field_by_id cls (ucast fid)")
      case None
      with Some show ?thesis
        unfolding h(1) using h(2,3) assms(1) ej by (simp add: handle_client_object_update_field_def)
    next
      case f: (Some f)
      show ?thesis
      proof (cases "may_send d f fid s")
        case False
        with Some f show ?thesis
          unfolding h(1) using h(2,3) assms(1) ej by (simp add: handle_client_object_update_field_def)
      next
        case True
        show ?thesis
        proof (cases "unpack_field f (advance (start dg) 8)")
          case (Inl e)
          with Some f True show ?thesis
            unfolding h(1) using h(2,3) assms(1) ej by (simp add: handle_client_object_update_field_def)
        next
          case (Inr r)
          obtain data it' where r: "r = (data, it')" by (cases r)
          have "65510 < length data" using no [of data] Some f True Inr r by (auto simp: acceptable_iff)
          note small = over [OF Inr [unfolded r] this]
          from Inr r Some f True show ?thesis
            unfolding h(1) using h(2,3) assms(1) small
            by (auto simp: handle_client_object_update_field_def sseq_def sbind_apply split: prod.split sum.split)
        qed
      qed
    qed
  qed
qed

text \<open>What follows the handler passes nothing on.\<close>

lemma confined_after:
  assumes "confined env False s0 (snd (receive_by_state env (start dg) s))"
  shows "confined env False s0 (snd (receive_datagram env dg s))"
proof -
  have "confined env False s0 x \<Longrightarrow> confined env False s0 (snd (send_disconnect env reason msg sec x))" for reason msg sec x
    by (rule keepsD [OF keeps_confined_client(6)])
  with assms show ?thesis by (auto simp: receive_datagram_def swhen_def split: prod.split sum.split)
qed

text \<open>
  C10: An update by an authenticated client is passed on exactly when it is acceptable: the object is
  known, the field exists, the client may send it, and a value of its type that fits comes next. Then it
  goes to the object in the client's name, with exactly the bytes the client sent as this value; if they
  are all it sent, nothing else happens, otherwise the client is also told why it is disconnected. An
  update that is not acceptable is not passed on, and no table of the session changes.
\<close>

theorem field_update_checked:
  assumes "cl_state s = CLIENT_STATE_ESTABLISHED" "dg_ok dg" "dg_buf dg = update_bytes d fid rest"
  shows "(\<forall>data. acceptable_update env s d fid (advance (start dg) 8) data \<longrightarrow>
      (\<exists>q. is_message q [doid_channel d] (cl_channel s) STATESERVER_OBJECT_SET_FIELD (le_bytes 4 d @ le_bytes 2 fid @ data)
        \<and> data = take (length data) rest
        \<and> confined env False (s\<lparr>cl_effects := cl_effects s @ [CRoute q]\<rparr>) (snd (receive_datagram env dg s))
        \<and> (data = rest \<longrightarrow> receive_datagram env dg s = (Inr (), s\<lparr>cl_effects := cl_effects s @ [CRoute q]\<rparr>))))
    \<and> ((\<nexists>data. acceptable_update env s d fid (advance (start dg) 8) data) \<longrightarrow>
        confined env False s (snd (receive_datagram env dg s)))"
proof (intro conjI allI impI)
  fix data
  assume "acceptable_update env s d fid (advance (start dg) 8) data"
  from update_handled [OF assms this] obtain q where
    q: "is_message q [doid_channel d] (cl_channel s) STATESERVER_OBJECT_SET_FIELD (le_bytes 4 d @ le_bytes 2 fid @ data)"
      "data = take (length data) rest" "receive_by_state env (start dg) s
        = (Inr (advance (start dg) (8 + length data)), s\<lparr>cl_effects := cl_effects s @ [CRoute q]\<rparr>)"
    by blast
  have "confined env False (s\<lparr>cl_effects := cl_effects s @ [CRoute q]\<rparr>) (snd (receive_datagram env dg s))"
    by (rule confined_after) (simp add: q(3))
  moreover have "data = rest \<longrightarrow> receive_datagram env dg s = (Inr (), s\<lparr>cl_effects := cl_effects s @ [CRoute q]\<rparr>)"
    using q(3) get_remaining_advance [OF assms(2), of "8 + length data"]
    by (auto simp: receive_datagram_def assms(3) update_bytes_def)
  ultimately show "\<exists>q. is_message q [doid_channel d] (cl_channel s) STATESERVER_OBJECT_SET_FIELD
        (le_bytes 4 d @ le_bytes 2 fid @ data)
      \<and> data = take (length data) rest
      \<and> confined env False (s\<lparr>cl_effects := cl_effects s @ [CRoute q]\<rparr>) (snd (receive_datagram env dg s))
      \<and> (data = rest \<longrightarrow> receive_datagram env dg s = (Inr (), s\<lparr>cl_effects := cl_effects s @ [CRoute q]\<rparr>))"
    using q(1,2) by blast
next
  assume "\<nexists>data. acceptable_update env s d fid (advance (start dg) 8) data"
  then show "confined env False s (snd (receive_datagram env dg s))"
    by (intro confined_after update_refused [OF assms]) blast
qed

text \<open>A class with one field a client may send, a byte, and an owner with a field of it.\<close>

definition demo_send_field :: field where
  "demo_send_field = Field 3 ''wave'' [''clsend''] (TNumeric (numeric_type_new T_UINT8)) [] False False"

definition demo_send_class :: dclass where
  "demo_send_class = \<lparr>cls_id = 0, cls_name = ''Avatar'', cls_fields = [demo_send_field], cls_by_id = [3 \<mapsto> demo_send_field]\<rparr>"

definition demo_session :: client where
  "demo_session = demo_client\<lparr>cl_state := CLIENT_STATE_ESTABLISHED, declared_objects := [5 \<mapsto> Some demo_send_class]\<rparr>"

definition demo_update :: datagram where
  "demo_update = dg_create_data (update_bytes 5 3 [9])"

lemma demo_session_simps [simp]:
  "cl_state demo_session = CLIENT_STATE_ESTABLISHED" "cl_channel demo_session = 1000" "nc_open (net demo_session)"
  "lookup_object demo_cenv 5 demo_session = Some demo_send_class"
  "get_field_by_id demo_send_class 3 = Some demo_send_field" "may_send 5 demo_send_field 3 demo_session"
  by (simp_all add: demo_session_def demo_client_def client_blank_def nc_initialize_def netclient_new_def
      lookup_object_def demo_cenv_def demo_send_class_def get_field_by_id_def may_send_def has_keyword_def demo_send_field_def)

lemma demo_update_ok: "dg_ok demo_update" "dg_buf demo_update = update_bytes 5 3 [9]"
  by (simp_all add: demo_update_def dg_create_data_def dg_ok_def buf_offset_def DGSIZE_MAX_def update_bytes_def)

lemma demo_unpack:
  "unpack_field demo_send_field (advance (start demo_update) 8) = Inr ([9], advance (start demo_update) (8 + length [9 :: u8]))"
proof -
  have "dg_size demo_update = 9" by (simp add: dg_size_def buf_offset_def demo_update_ok(2) update_bytes_def)
  then have "read_raw 1 (advance (start demo_update) 8) = Inr ([9], advance (start demo_update) 9)"
    by (simp add: read_raw_def check_read_length_def start_def advance_def demo_update_ok(2) update_bytes_def)
  then show ?thesis
    by (simp add: unpack_field_def demo_send_field_def numeric_type_new_def read_fixed_value_def read_data_def
        numeric_has_range_def nrange_none_def nrange_is_empty_def)
qed

theorem field_update_checked_witness:
  "\<exists>q. is_message q [doid_channel 5] 1000 STATESERVER_OBJECT_SET_FIELD (le_bytes 4 (5 :: doid) @ le_bytes 2 (3 :: u16) @ [9])
    \<and> receive_datagram demo_cenv demo_update demo_session
      = (Inr (), demo_session\<lparr>cl_effects := cl_effects demo_session @ [CRoute q]\<rparr>)"
proof -
  have "acceptable_update demo_cenv demo_session 5 3 (advance (start demo_update) 8) [9]"
    using demo_unpack by (simp add: acceptable_iff)
  from field_update_checked [of demo_session demo_update 5 3 "[9]" demo_cenv, THEN conjunct1, THEN spec, THEN mp, OF _ _ _ this]
  show ?thesis using demo_update_ok by auto
qed

section \<open>The key of the sendable fields\<close>

text \<open>The message that lists the fields a client may send to an object.\<close>

lemma read_numbers_upcoming:
  "upcoming it (concat (map (le_bytes 2) (fids :: u16 list))) \<Longrightarrow> \<exists>it'. read_numbers (length fids) it = Inr (fids, it')"
proof (induction fids arbitrary: it)
  case (Cons fid fids)
  then have "upcoming it (le_bytes 2 fid @ concat (map (le_bytes 2) fids))" by simp
  from read_uint16_upcoming [OF this] Cons.IH [of "advance it 2"] show ?case by auto
qed simp

text \<open>
  The permission to send fields of one object carries over to other objects. The table is
  keyed by 16 bits: after the cluster allowed a client some fields of object \<open>d\<close>, the client may send
  the fields of these numbers to every object whose number ends in the same 16 bits, and what it was
  allowed for those objects is gone.
\<close>

theorem sendable_fields_leak:
  assumes "upcoming it (le_bytes 4 (d :: doid) @ le_bytes 2 (word_of_nat (length fids) :: u16) @ concat (map (le_bytes 2) fids))"
    "length (fids :: u16 list) \<le> 65535" "(ucast d' :: u16) = ucast d"
  shows "\<exists>s'. ca_set_fields_sendable it s = (Inr (), s')
    \<and> (\<forall>fid f. may_send d' f fid s' \<longleftrightarrow> fid \<in> set fids \<or> has_keyword f ''clsend''
          \<or> (owned_objects s d' \<noteq> None \<and> has_keyword f ''ownsend''))"
proof -
  note doid = read_doid_upcoming [OF assms(1)]
  note count = read_uint16_upcoming [OF conjunct2 [OF doid]]
  have "unat (word_of_nat (length fids) :: u16) = length fids"
    using assms(2) by (simp add: unsigned_of_nat take_bit_nat_eq_self)
  with read_numbers_upcoming [OF conjunct2 [OF count]] obtain it' where
    "read_numbers (unat (word_of_nat (length fids) :: u16)) (advance (advance it 4) 2) = Inr (fids, it')" by auto
  with doid count assms(3) show ?thesis
    by (auto simp: ca_set_fields_sendable_def may_send_def)
qed

definition demo_sendable :: datagram where
  "demo_sendable = dg_create_data (le_bytes 4 (5 :: doid) @ le_bytes 2 (1 :: u16) @ le_bytes 2 (3 :: u16))"

theorem sendable_fields_leak_witness:
  "\<exists>s'. ca_set_fields_sendable (start demo_sendable) demo_session = (Inr (), s')
    \<and> may_send (5 + 65536) (Field 3 ''secret'' [] TInvalid [] False False) 3 s'"
proof -
  have "upcoming (start demo_sendable)
      (le_bytes 4 (5 :: doid) @ le_bytes 2 (word_of_nat (length [3 :: u16]) :: u16) @ concat (map (le_bytes 2) [3 :: u16]))"
    using start_upcoming [of demo_sendable]
    by (simp add: demo_sendable_def dg_create_data_def dg_ok_def buf_offset_def DGSIZE_MAX_def)
  from sendable_fields_leak [OF this, of "5 + 65536" demo_session] show ?thesis by auto
qed

section \<open>After an ejection\<close>

text \<open>A datagram too short for its message type.\<close>

lemma short_datagram_ejects:
  assumes "cl_state s = CLIENT_STATE_ESTABLISHED" "nc_open (net s)" "dg_ok dg" "length (dg_buf dg) = 1"
  shows "\<exists>ev q. is_bytes q (eject_bytes CLIENT_DISCONNECT_TRUNCATED_DATAGRAM (str ''Datagram unexpectedly ended while iterating.''))
    \<and> receive_datagram env dg s = (Inr (), ejected env ev q s)"
proof -
  have "read_uint16 (start dg) = Inl DatagramIteratorEOF"
    using assms(4) by (simp add: read_uint16_def read_raw_def check_read_length_def start_def dg_size_def buf_offset_def)
  then have "receive_datagram env dg s = send_disconnect env CLIENT_DISCONNECT_TRUNCATED_DATAGRAM
      (str ''Datagram unexpectedly ended while iterating.'') False s"
    using assms(1) by (simp add: receive_datagram_def receive_by_state_def handle_authenticated_def)
  with send_disconnect_ejects [OF assms(2)] show ?thesis by simp
qed

lemma copy_of_data: "length bs \<le> DGSIZE_MAX \<Longrightarrow> dg_ok (dg_create_data bs) \<and> dg_create_copy (dg_create_data bs) = dg_create_data bs"
  using unat_of_short_length [of bs]
  by (simp add: dg_create_data_def dg_create_copy_def dg_ok_def dg_size_def buf_offset_def)

lemma two_frames:
  assumes "length as \<le> DGSIZE_MAX" "as \<noteq> []" "length bs \<le> DGSIZE_MAX" "bs \<noteq> []"
    and one: "receive (dg_create_data as) s = (Inr (), s1)"
    and two: "receive (dg_create_data bs) s1 = (Inr (), s2)"
  shows "nc_process_datagram receive [] (frame (dg_create_data as) @ frame (dg_create_data bs)) s = (Inr (), [], s2)"
proof -
  let ?a = "dg_create_data as" and ?b = "dg_create_data bs"
  note ca = copy_of_data [OF assms(1)] and cb = copy_of_data [OF assms(3)]
  from frame_ok [of ?a] ca have fa: "frame ?a = le_bytes 2 (dg_size ?a) @ as" "unat (dg_size ?a) = length as"
    by (auto simp: dg_create_data_def)
  from frame_ok [of ?b] cb have fb: "frame ?b = le_bytes 2 (dg_size ?b) @ bs" "unat (dg_size ?b) = length bs"
    by (auto simp: dg_create_data_def)
  have lens: "length as > 0" "length bs > 0" using assms(2,4) by auto
  have long: "2 \<le> length (frame ?a @ frame ?b)" "le_nat (take 2 (frame ?a @ frame ?b)) + 2 \<le> length (frame ?a @ frame ?b)"
    and long': "2 \<le> length (frame ?b)" "le_nat (take 2 (frame ?b)) + 2 \<le> length (frame ?b)"
    by (simp_all add: fa fb)
  from ca have "dg_ok ?a" by blast
  from first_frame(2,3) [OF this _ long, of "[]" "frame ?b"] ca
  have f: "dg_create_ptr (drop 2 (frame ?a @ frame ?b)) (le_word (take 2 (frame ?a @ frame ?b))) = Inr ?a"
    "drop (le_nat (take 2 (frame ?a @ frame ?b)) + 2) (frame ?a @ frame ?b) = frame ?b" by auto
  from cb have "dg_ok ?b" by blast
  from first_frame(2,3) [OF this _ long', of "[]" "[]"] cb
  have g: "dg_create_ptr (drop 2 (frame ?b)) (le_word (take 2 (frame ?b))) = Inr ?b"
    "drop (le_nat (take 2 (frame ?b)) + 2) (frame ?b) = []" by auto
  have "defragment_input receive (frame ?b) s1 = (Inr (), [], s2)"
    by (subst defragment_input.simps, subst if_P) (use long' lens in \<open>simp add: fb\<close>,
        simp only: Let_def g slift_apply sbind_slift_Inr two prod.case sum.case,
        subst defragment_input.simps, simp)
  then have "defragment_input receive (frame ?a @ frame ?b) s = (Inr (), [], s2)"
    by (subst defragment_input.simps, subst if_P) (use long lens in \<open>simp add: fa fb\<close>,
        simp only: Let_def f slift_apply sbind_slift_Inr one prod.case sum.case)
  moreover have "\<not> (le_nat (take 2 (frame ?a @ frame ?b)) = length (frame ?a @ frame ?b) - 2)"
    by (simp add: fa fb)
  ultimately show ?thesis by (simp only: nc_process_datagram_def if_not_P append_Nil) simp
qed

text \<open>
  An ejected client is still served. A client sends, in one segment, a datagram it is thrown
  out for and then a field update it may send: the session tells it the reason and closes the
  connection, and then it routes the update all the same.
\<close>

theorem ejected_client_is_served:
  assumes "cl_state s = CLIENT_STATE_ESTABLISHED" "nc_open (net s)"
    and obj: "lookup_object env d s = Some cls" "get_field_by_id cls (ucast fid) = Some f" "may_send d f fid s"
    and data: "unpack_field f (advance (start (dg_create_data (update_bytes d fid data))) 8)
      = Inr (data, advance (start (dg_create_data (update_bytes d fid data))) (8 + length data))"
    and fits: "length data \<le> 65510"
  shows "\<exists>s' q. nc_process_datagram (receive_datagram env) []
        (frame (dg_create_data [b]) @ frame (dg_create_data (update_bytes d fid data))) s = (Inr (), [], s')
    \<and> (nc_local_disconnect (net s') \<or> nc_disconnect_handled (net s'))
    \<and> (\<exists>eject. is_bytes eject (eject_bytes CLIENT_DISCONNECT_TRUNCATED_DATAGRAM
          (str ''Datagram unexpectedly ended while iterating.'')) \<and> ToClient eject \<in> set (cl_effects s'))
    \<and> CRoute q = last (cl_effects s')
    \<and> is_message q [doid_channel d] (cl_channel s) STATESERVER_OBJECT_SET_FIELD (le_bytes 4 d @ le_bytes 2 fid @ data)"
proof -
  let ?dg = "dg_create_data (update_bytes d fid data)"
  have short: "length [b] \<le> DGSIZE_MAX" "length (update_bytes d fid data) \<le> DGSIZE_MAX"
    using fits by (simp_all add: DGSIZE_MAX_def update_bytes_def)
  from short_datagram_ejects [OF assms(1,2), of "dg_create_data [b]" env] copy_of_data [OF short(1)]
  obtain ev e where e: "is_bytes e (eject_bytes CLIENT_DISCONNECT_TRUNCATED_DATAGRAM
      (str ''Datagram unexpectedly ended while iterating.''))"
    "receive_datagram env (dg_create_data [b]) s = (Inr (), ejected env ev e s)"
    by (auto simp: dg_create_data_def)
  let ?s = "ejected env ev e s"
  have "tables ?s = tables s" by simp
  note same = tablesD [OF this] tables_lookup [OF this]
  have "cl_state ?s = CLIENT_STATE_ESTABLISHED" using assms(1) by simp
  moreover have "lookup_object env d ?s = Some cls" "may_send d f fid ?s"
    using obj by (simp_all add: same)
  moreover have "dg_buf ?dg = update_bytes d fid data" by (simp add: dg_create_data_def)
  ultimately obtain q where
    q: "is_message q [doid_channel d] (cl_channel s) STATESERVER_OBJECT_SET_FIELD (le_bytes 4 d @ le_bytes 2 fid @ data)"
      "receive_datagram env ?dg ?s = (Inr (), ?s\<lparr>cl_effects := cl_effects ?s @ [CRoute q]\<rparr>)"
    using update_routes [of ?s ?dg d fid data env cls f] copy_of_data [OF short(2)] obj(2) data fits
    unfolding same by blast
  have "nc_process_datagram (receive_datagram env) [] (frame (dg_create_data [b]) @ frame ?dg) s
    = (Inr (), [], ?s\<lparr>cl_effects := cl_effects ?s @ [CRoute q]\<rparr>)"
    by (rule two_frames [OF short(1) _ short(2) _ e(2) q(2)]) (simp_all add: update_bytes_def)
  with q(1) e(1) ejected_closing [of env ev e s] show ?thesis
    by (intro exI [of _ "?s\<lparr>cl_effects := cl_effects ?s @ [CRoute q]\<rparr>"] exI [of _ q]) auto
qed

theorem ejected_client_is_served_witness:
  "\<exists>s' q. nc_process_datagram (receive_datagram demo_cenv) []
      (frame (dg_create_data [0]) @ frame (dg_create_data (update_bytes 5 3 [9]))) demo_session = (Inr (), [], s')
    \<and> CRoute q = last (cl_effects s')"
proof -
  have dg: "dg_create_data (update_bytes 5 3 [9]) = demo_update" by (simp add: demo_update_def)
  show ?thesis
    using ejected_client_is_served [of demo_session demo_cenv 5 demo_send_class 3 demo_send_field "[9]" 0] demo_unpack
    unfolding dg by auto
qed

end
