(* ===== verification/Client_Pool.thy ===== *)
theory Client_Pool
  imports Client_Security
begin

text \<open>
  The client agent's pool of channels under clients that come and go: who holds which channel, and
  what happens when the pool is empty.
\<close>

section \<open>Clients come and go\<close>

datatype pool_event = Connect | Leave channel

text \<open>The pool and the channels of the clients that are there; a client leaves with its channel.\<close>

fun pool_step :: "pool_event \<Rightarrow> tracker \<times> channel list \<Rightarrow> tracker \<times> channel list" where
  "pool_step Connect (t, live) = (case alloc_channel t of (c, t') \<Rightarrow> (t', c # live))"
| "pool_step (Leave c) (t, live) = (if c \<in> set live then (free_channel c t, remove1 c live) else (t, live))"

definition pool_run :: "channel \<Rightarrow> channel \<Rightarrow> pool_event list \<Rightarrow> tracker \<times> channel list" where
  "pool_run lo hi es = fold pool_step es (tracker_new lo hi, [])"

definition real_channels :: "channel list \<Rightarrow> channel list" where
  "real_channels cs = filter (\<lambda>c. c \<noteq> 0) cs"

lemma real_channels_simps [simp]:
  "real_channels [] = []" "real_channels (c # cs) = (if c = 0 then real_channels cs else c # real_channels cs)"
  "real_channels (cs @ cs') = real_channels cs @ real_channels cs'"
  by (auto simp: real_channels_def)

lemma in_real_channels: "c \<in> set (real_channels cs) \<longleftrightarrow> c \<in> set cs \<and> c \<noteq> 0"
  by (auto simp: real_channels_def)

lemma real_channels_remove1 [simp]: "real_channels (remove1 c cs) = remove1 c (real_channels cs)"
  by (simp add: real_channels_def filter_remove1)

definition pool_ok :: "channel \<Rightarrow> channel \<Rightarrow> tracker \<times> channel list \<Rightarrow> bool" where
  "pool_ok lo hi p \<longleftrightarrow> (case p of (t, live) \<Rightarrow>
     ct_max t = hi \<and> unat lo \<le> unat (ct_next t) \<and> unat (ct_next t) \<le> unat hi + 1
     \<and> distinct (real_channels (live @ ct_unused t))
     \<and> (\<forall>c \<in> set (real_channels (live @ ct_unused t)). unat lo \<le> unat c \<and> unat c < unat (ct_next t)))"

lemma next_channel:
  assumes "c \<le> hi" "hi \<noteq> (-1 :: channel)"
  shows "unat (c + 1) = unat c + 1"
proof -
  have "1 + c \<noteq> 0"
  proof
    assume "1 + c = 0"
    then have "c = -1" by (simp add: add_eq_0_iff)
    with assms show False by (simp add: word_order.extremum_unique)
  qed
  then show ?thesis using unatSuc [of c] by (simp add: add.commute)
qed

lemma pool_ok_connect:
  assumes ok: "pool_ok lo hi (t, live)" and hi: "hi \<noteq> -1" "0 < lo"
  shows "pool_ok lo hi (pool_step Connect (t, live))"
proof (cases "ct_next t \<le> ct_max t")
  case True
  from ok True have nxt: "unat (ct_next t + 1) = unat (ct_next t) + 1" "unat (ct_next t) \<le> unat hi"
    using next_channel [OF _ hi(1)] by (auto simp: pool_ok_def word_le_nat_alt)
  from hi(2) have "0 < unat lo" by (simp add: word_less_nat_alt)
  with ok have "ct_next t \<noteq> 0" by (auto simp: pool_ok_def)
  moreover from ok have "ct_next t \<notin> set (real_channels (live @ ct_unused t))" by (auto simp: pool_ok_def)
  ultimately show ?thesis
    using ok nxt True by (auto simp: pool_ok_def alloc_channel_def less_Suc_eq)
next
  case False
  with ok show ?thesis
    by (cases "ct_unused t") (auto simp: pool_ok_def alloc_channel_def)
qed

lemma pool_ok_leave:
  assumes ok: "pool_ok lo hi (t, live)"
  shows "pool_ok lo hi (pool_step (Leave c) (t, live))"
proof (cases "c \<in> set live")
  case True
  let ?L = "real_channels live" and ?U = "real_channels (ct_unused t)"
  from ok have d: "distinct ?L" "distinct ?U" "set ?L \<inter> set ?U = {}" by (auto simp: pool_ok_def)
  then have "set (remove1 c ?L) = set ?L - {c}" by simp
  moreover have "c \<noteq> 0 \<Longrightarrow> c \<in> set ?L" using True by (simp add: in_real_channels)
  moreover have "c = 0 \<Longrightarrow> remove1 c ?L = ?L" by (simp add: remove1_idem in_real_channels)
  ultimately show ?thesis
    using ok d True by (cases "c = 0") (auto simp: pool_ok_def free_channel_def)
qed (simp add: ok)

text \<open>
  However clients come and go, no two connected clients hold the same channel, and every
  channel a client holds is one of the configured range, unless it is the 0 of a client for which
  there was none.
\<close>

theorem live_channels_distinct:
  assumes "0 < lo" "lo \<le> hi" "hi \<noteq> -1"
  shows "distinct (real_channels (snd (pool_run lo hi es)))
    \<and> (\<forall>c \<in> set (snd (pool_run lo hi es)). c = 0 \<or> lo \<le> c \<and> c \<le> hi)"
proof -
  have step: "pool_ok lo hi p \<Longrightarrow> pool_ok lo hi (pool_step e p)" for e p
    using pool_ok_connect [OF _ assms(3,1)] pool_ok_leave by (cases p; cases e) auto
  have "pool_ok lo hi p \<Longrightarrow> pool_ok lo hi (fold pool_step es p)" for p
    by (induction es arbitrary: p) (simp_all add: step)
  moreover have "pool_ok lo hi (tracker_new lo hi, [])"
    using assms(2) by (simp add: pool_ok_def tracker_new_def word_le_nat_alt)
  ultimately have ok: "pool_ok lo hi (pool_run lo hi es)" by (simp add: pool_run_def)
  obtain t live where run: "pool_run lo hi es = (t, live)" by (cases "pool_run lo hi es")
  from ok have p: "unat (ct_next t) \<le> unat hi + 1" "distinct (real_channels live)"
    "\<forall>c \<in> set (real_channels live). unat lo \<le> unat c \<and> unat c < unat (ct_next t)"
    by (simp_all add: run pool_ok_def)
  have "c = 0 \<or> lo \<le> c \<and> c \<le> hi" if "c \<in> set live" for c
  proof (cases "c = 0")
    case False
    with that have "c \<in> set (real_channels live)" by (simp add: in_real_channels)
    with p(3) have "unat lo \<le> unat c" "unat c < unat (ct_next t)" by blast+
    with p(1) show ?thesis by (simp add: word_le_nat_alt)
  qed simp
  with p(2) show ?thesis by (simp add: run)
qed

theorem live_channels_distinct_witness:
  "distinct (real_channels (snd (pool_run 1000 1001 [Connect, Connect, Connect, Leave 1000, Connect])))"
  using live_channels_distinct [of 1000 1001 "[Connect, Connect, Connect, Leave 1000, Connect]"] by simp

section \<open>A full agent\<close>

text \<open>
  A full client agent does not turn clients away. When no channel is left, a new client is
  only noted in the log: its session starts with channel 0, unsubscribed, in the same state as every
  new session. And when it leaves, its 0 joins the free channels, so that a channel freed after it
  is not handed out to the next client, who gets the 0.
\<close>

theorem full_agent_accepts:
  assumes "ct_max t < ct_next t" "ct_unused t = []"
  shows "\<exists>ev. client_new env t = (Inr (), (client_blank 0)\<lparr>cl_effects := [CEvent ev]\<rparr>, t)
    \<and> (let t' = free_channel c (free_channel 0 t) in alloc_channel t' = (0, t'\<lparr>ct_unused := [c]\<rparr>))"
proof -
  have full: "\<not> ct_next t \<le> ct_max t" using assms(1) by (simp add: not_le)
  then have "alloc_channel t = (0, t)" using assms(2) by (simp add: alloc_channel_def)
  moreover obtain ev where "base_send_disconnect CLIENT_DISCONNECT_GENERIC (str ''Client capacity reached'') False (client_blank 0)
    = (Inr (), (client_blank 0)\<lparr>cl_effects := cl_effects (client_blank 0) @ [CEvent ev]\<rparr>)"
    using log_eject [of "str ''Client capacity reached''" CLIENT_DISCONNECT_GENERIC False "client_blank 0"]
    by (auto simp del: One_nat_def)
  ultimately show ?thesis
    using assms(2) full by (simp add: client_new_def client_blank_def free_channel_def alloc_channel_def Let_def)
qed

theorem full_agent_accepts_witness:
  "\<exists>ev. client_new demo_cenv (fst (pool_run 1000 1000 [Connect]))
      = (Inr (), (client_blank 0)\<lparr>cl_effects := [CEvent ev]\<rparr>, fst (pool_run 1000 1000 [Connect]))"
  using full_agent_accepts [of "fst (pool_run 1000 1000 [Connect])" demo_cenv]
  by (simp add: pool_run_def tracker_new_def alloc_channel_def)

end
