(* ===== verification/Client_Sessions.thy ===== *)
theory Client_Sessions
  imports Client_Security
begin

text \<open>
  The invariant of client sessions and the nesting of their handlers. Sessions live by the events
  of the relation \<open>session\<close>: datagrams of the client and of the cluster, timers, and the end of the
  connection.
\<close>

section \<open>Handlers that leave the tables alone\<close>

definition quiet :: "'a cl_op \<Rightarrow> bool" where
  "quiet m \<longleftrightarrow> (\<forall>s. tables (snd (m s)) = tables s)"

lemma quietD: "quiet m \<Longrightarrow> tables (snd (m s)) = tables s"
  by (simp add: quiet_def)

lemma quiet_keeps: "quiet m \<longleftrightarrow> (\<forall>T. keeps (\<lambda>s. tables s = T) m)"
  by (auto simp: quiet_def keeps_def)

lemma quiet_sbind: "quiet m \<Longrightarrow> (\<And>x. quiet (f x)) \<Longrightarrow> quiet (sbind m f)"
  unfolding quiet_keeps by (intro allI keeps_sbind) auto

lemma quiet_sseq: "quiet m \<Longrightarrow> quiet n \<Longrightarrow> quiet (sseq m n)"
  by (simp add: sseq_def quiet_sbind)

lemma quiet_simple [simp]:
  "quiet (sret x)" "quiet (sthrow e)" "quiet (sget g)" "quiet (slift r)" "quiet (Pair r)" "quiet (cl_effect ef)" "quiet (cl_route dg)"
  "quiet (to_client env dg)" "quiet (close_client env)"
  by (simp_all add: quiet_def told_def close_client_def)

lemma quiet_swhen: "quiet m \<Longrightarrow> quiet (swhen b m)"
  by (simp add: swhen_def)

lemma quiet_case_prod: "(\<And>a b. quiet (f a b)) \<Longrightarrow> quiet (case p of (a, b) \<Rightarrow> f a b)"
  by (cases p) simp

lemma quiet_supd: "(\<And>s. tables (f s) = tables s) \<Longrightarrow> quiet (supd f)"
  by (simp add: quiet_def)

lemmas quiet_intros = quiet_sbind quiet_sseq quiet_simple quiet_swhen quiet_case_prod

lemma quiet_messages [simp]:
  "quiet (cl_tell env body)" "quiet (cl_send target sender mt body)" "quiet (log_event ev)"
  "quiet (base_send_disconnect reason msg sec)" "quiet (send_disconnect env reason msg sec)"
  "quiet (forward_datagram env dg)" "quiet (handle_drop env)" "quiet (handle_add_interest env i ctx)"
  "quiet (handle_remove_interest env iid ctx)" "quiet (handle_add_object env d p z dc it other)"
  "quiet (handle_add_ownership env d p z dc it other)" "quiet (handle_set_field env d fid it)"
  "quiet (handle_set_fields env d n it)" "quiet (handle_change_location env d p z)"
  "quiet (handle_remove_object env d)" "quiet (handle_remove_ownership env d)"
  "quiet (handle_interest_done env iid ctx)" "quiet (notify_interest_done iid caller)"
  "quiet (notify_iop_done env op)" "quiet (unsubscribe_zones p zs)" "quiet (request_zones p zs dg)"
  "quiet (eject env reason msg sec it)"
proof -
  show 1: "quiet (cl_tell env body)" for body unfolding cl_tell_def by (intro quiet_intros)
  show 2: "quiet (cl_send target sender mt body)" for target sender mt body unfolding cl_send_def by (intro quiet_intros)
  show 3: "quiet (log_event ev)" for ev unfolding log_event_def by (intro quiet_intros)
  show 4: "quiet (base_send_disconnect reason msg sec)" unfolding base_send_disconnect_def by (rule 3)
  show 5: "quiet (send_disconnect env reason msg sec)"
    unfolding send_disconnect_def by (intro quiet_intros 1 4 quiet_supd; simp)
  show "quiet (forward_datagram env dg)" by (simp add: forward_datagram_def del: to_client_apply)
  show "quiet (handle_drop env)" unfolding handle_drop_def by (intro quiet_intros quiet_supd; simp)
  show "quiet (handle_add_interest env i ctx)" unfolding handle_add_interest_def Let_def by (rule 1)
  show "quiet (handle_remove_interest env iid ctx)" unfolding handle_remove_interest_def by (rule 1)
  show "quiet (handle_add_object env d p z dc it other)"
    unfolding handle_add_object_def tell_entry_def by (intro quiet_intros 1)
  show "quiet (handle_add_ownership env d p z dc it other)"
    unfolding handle_add_ownership_def tell_entry_def by (intro quiet_intros 1)
  show "quiet (handle_set_field env d fid it)" unfolding handle_set_field_def by (intro quiet_intros 1)
  show "quiet (handle_set_fields env d n it)" unfolding handle_set_fields_def by (intro quiet_intros 1)
  show "quiet (handle_change_location env d p z)" unfolding handle_change_location_def by (rule 1)
  show "quiet (handle_remove_object env d)" unfolding handle_remove_object_def by (rule 1)
  show "quiet (handle_remove_ownership env d)" unfolding handle_remove_ownership_def by (rule 1)
  show "quiet (handle_interest_done env iid ctx)" unfolding handle_interest_done_def by (rule 1)
  show "quiet (notify_interest_done iid caller)" unfolding notify_interest_done_def by (intro quiet_intros 2)
  show "quiet (notify_iop_done env op)" unfolding notify_iop_done_def by (intro quiet_intros)
  show "quiet (unsubscribe_zones p zs)" by (induction zs) (auto intro: quiet_intros)
  show "quiet (request_zones p zs dg)" by (induction zs arbitrary: dg) (auto intro!: quiet_intros)
  show "quiet (eject env reason msg sec it)" unfolding eject_def by (intro quiet_intros 5)
qed

section \<open>The invariant\<close>

text \<open>
  The datagrams an interest operation holds back are of five kinds, none of which touches an
  interest operation when it is handled.
\<close>

definition held_types :: "u16 set" where
  "held_types = {STATESERVER_OBJECT_SET_FIELD, STATESERVER_OBJECT_SET_FIELDS, STATESERVER_OBJECT_DELETE_RAM,
     STATESERVER_OBJECT_ENTER_LOCATION_WITH_REQUIRED, STATESERVER_OBJECT_ENTER_LOCATION_WITH_REQUIRED_OTHER,
     STATESERVER_OBJECT_CHANGING_LOCATION}"

definition at_payload :: "dgi \<Rightarrow> bool" where
  "at_payload it \<longleftrightarrow> rbind (dgi_new (it_dg it) 0) seek_payload = Inr it"

definition held_back :: "datagram \<Rightarrow> bool" where
  "held_back dg \<longleftrightarrow> (\<exists>it sender it1 mt it2. rbind (dgi_new dg 0) seek_payload = Inr it
     \<and> read_channel it = Inr (sender, it1) \<and> read_uint16 it1 = Inr (mt, it2) \<and> mt \<in> held_types)"

definition session_ok :: "client \<Rightarrow> bool" where
  "session_ok s \<longleftrightarrow> seen_objects s \<subseteq> dom (visible_objects s)
     \<and> (\<forall>ctx op. pending_interests s ctx = Some op \<longrightarrow>
          iop_request_context op = ctx \<and> list_all held_back (iop_datagrams op))"

lemma session_ok_tables: "session_ok (tables s) = session_ok s"
  by (simp add: session_ok_def tables_def)

lemma session_keeps_quiet: "quiet m \<Longrightarrow> keeps session_ok m"
  by (metis keepsI quietD session_ok_tables)

lemmas keeps_session_messages [keeps_intros] =
  quiet_messages [THEN session_keeps_quiet] quiet_simple(6,7,8,9) [THEN session_keeps_quiet]

lemma keeps_same:
  assumes "\<And>s. seen_objects (f s) = seen_objects s" "\<And>s. visible_objects (f s) = visible_objects s"
    "\<And>s. pending_interests (f s) = pending_interests s"
  shows "keeps session_ok (supd f)"
  by (rule keeps_supd) (simp add: session_ok_def assms)

text \<open>The datagram under an iterator never changes.\<close>

lemma read_dg:
  "read_channel it = Inr (c, it') \<Longrightarrow> it_dg it' = it_dg it" "read_uint16 it = Inr (w, it') \<Longrightarrow> it_dg it' = it_dg it"
  "read_uint32 it = Inr (x, it') \<Longrightarrow> it_dg it' = it_dg it" "read_doid it = Inr (d, it') \<Longrightarrow> it_dg it' = it_dg it"
  "read_zone it = Inr (z, it') \<Longrightarrow> it_dg it' = it_dg it"
  by (auto simp: read_channel_def read_uint16_def read_uint32_def read_doid_def read_zone_def rbind_eq_Inr read_raw_Inr)

lemma keeps_read:
  "(\<And>v it'. r it = Inr (v, it') \<Longrightarrow> keeps P (f (v, it'))) \<Longrightarrow> keeps P (sbind (slift (r it)) f)"
  by (cases "r it") (auto simp: keeps_def)

lemma keeps_set_iop:
  "iop_request_context op = ctx \<Longrightarrow> list_all held_back (iop_datagrams op) \<Longrightarrow> keeps session_ok (set_iop ctx op)"
  unfolding set_iop_def by (rule keeps_supd) (auto simp: session_ok_def)

lemma keeps_try_queue:
  assumes "held_back dg"
  shows "keeps session_ok (try_queue_pending d dg)"
proof (rule keepsI)
  fix s assume "session_ok s"
  with assms show "session_ok (snd (try_queue_pending d dg s))"
    by (auto simp: try_queue_pending_def session_ok_def queue_datagram_def split: option.split)
qed

lemma keeps_entrance [keeps_intros]: "keeps session_ok (handle_object_entrance env it other)"
proof -
  have "keeps session_ok (supd (\<lambda>s. s\<lparr>visible_objects := (case visible_objects s d of
      None \<Rightarrow> (visible_objects s)(d \<mapsto> ob) | Some _ \<Rightarrow> visible_objects s), seen_objects := insert d (seen_objects s)\<rparr>))" for d ob
    by (rule keeps_supd) (auto simp: session_ok_def split: option.split)
  from this show ?thesis
    unfolding handle_object_entrance_def by (intro keeps_intros keeps_same [where f = "\<lambda>s. s\<lparr>pending_objects := p s\<rparr>" for p]; simp)
qed

text \<open>
  Closing zones: an object that leaves is neither seen nor, unless a session object stops the loop,
  visible any more.
\<close>

lemma leave_objects_ok:
  assumes "session_ok s" "set to_remove \<inter> seen_objects s = {}"
  shows "session_ok (snd (leave_objects env parent killed ds to_remove s))
    \<and> (\<forall>r s'. leave_objects env parent killed ds to_remove s = (Inr (Some r), s') \<longrightarrow> set r \<inter> seen_objects s' = {})"
  using assms
proof (induction ds arbitrary: to_remove s)
  case (Cons d ds)
  show ?case
  proof (cases "\<exists>ob. visible_objects s d = Some ob \<and> ob_parent ob = parent \<and> ob_zone ob \<in> killed \<and> d \<notin> session_objects s")
    case True
    then obtain ob where ob: "visible_objects s d = Some ob" "ob_parent ob = parent" "ob_zone ob \<in> killed" "d \<notin> session_objects s"
      by blast
    let ?f = "\<lambda>s. s\<lparr>seen_objects := seen_objects s - {d}, historical_objects := insert d (historical_objects s)\<rparr>"
    obtain r s1 where r: "handle_remove_object env d s = (r, s1)" by (cases "handle_remove_object env d s")
    then have t: "tables s1 = tables s" using quietD [OF quiet_messages(15), of env d s] by simp
    with Cons.prems(1) have ok: "session_ok s1" by (metis session_ok_tables)
    show ?thesis
    proof (cases r)
      case (Inl e)
      with ob r ok show ?thesis by (simp add: sseq_apply)
    next
      case (Inr u)
      have "session_ok (?f s1)" using ok by (auto simp: session_ok_def)
      moreover have "set (to_remove @ [d]) \<inter> seen_objects (?f s1) = {}"
        using Cons.prems(2) tablesD(7) [OF t] by auto
      ultimately show ?thesis using Cons.IH [of "?f s1" "to_remove @ [d]"] Inr ob r by (simp add: sseq_apply)
    qed
  next
    case False
    have "leave_objects env parent killed (d # ds) to_remove s = leave_objects env parent killed ds to_remove s
      \<or> leave_objects env parent killed (d # ds) to_remove s
        = sseq (send_disconnect env CLIENT_DISCONNECT_SESSION_OBJECT_DELETED
            (str ''A session object has unexpectedly left interest.'') False) (sret None) s"
      using False by (auto split: option.split)
    then show ?thesis
    proof
      assume "leave_objects env parent killed (d # ds) to_remove s
        = sseq (send_disconnect env CLIENT_DISCONNECT_SESSION_OBJECT_DELETED
            (str ''A session object has unexpectedly left interest.'') False) (sret None) s"
      moreover have "keeps session_ok (sseq (send_disconnect env CLIENT_DISCONNECT_SESSION_OBJECT_DELETED
            (str ''A session object has unexpectedly left interest.'') False) (sret (None :: doid list option)))"
        by (intro keeps_intros)
      ultimately show ?thesis
        using Cons.prems(1) by (auto simp: keeps_def sseq_apply split: prod.splits sum.splits)
    next
      assume "leave_objects env parent killed (d # ds) to_remove s = leave_objects env parent killed ds to_remove s"
      with Cons.IH [OF Cons.prems] show ?thesis by simp
    qed
  qed
qed simp

lemma keeps_close_zones [keeps_intros]: "keeps session_ok (close_zones env parent killed)"
proof (rule keepsI)
  fix s assume ok: "session_ok s"
  let ?ds = "ce_objs env (dom (visible_objects s))"
  note l = leave_objects_ok [OF ok, of "[]" env parent killed ?ds, simplified]
  obtain r s1 where r: "leave_objects env parent killed ?ds [] s = (r, s1)" by (cases "leave_objects env parent killed ?ds [] s")
  with l have ok1: "session_ok s1" by simp
  show "session_ok (snd (close_zones env parent killed s))"
  proof (cases r)
    case (Inr p)
    show ?thesis
    proof (cases p)
      case (Some rs)
      with l r Inr have "set rs \<inter> seen_objects s1 = {}" by auto
      with ok1 have "session_ok (s1\<lparr>visible_objects := visible_objects s1 |` (- set rs)\<rparr>)"
        by (auto simp: session_ok_def)
      moreover have "keeps session_ok (unsubscribe_zones parent (ce_zones env killed))" by (intro keeps_intros)
      ultimately show ?thesis using r Inr Some by (simp add: close_zones_def sbind_apply keepsD)
    qed (use r Inr ok1 in \<open>simp add: close_zones_def sbind_apply\<close>)
  qed (use r ok1 in \<open>simp add: close_zones_def sbind_apply\<close>)
qed

lemma keeps_interests [keeps_intros]:
  "keeps session_ok (add_iop env (iop_new env iid cc rc p zs caller))" "keeps session_ok take_context"
  "keeps session_ok (open_zones env i zs ctx caller)" "keeps session_ok (add_interest env i ctx caller)"
  "keeps session_ok (remove_interest env i ctx caller)" "keeps session_ok (interest_ref iid)"
  "keeps session_ok (emplace_pending d rc)"
proof -
  show 1: "keeps session_ok (add_iop env (iop_new env iid cc rc p zs caller))" for iid cc rc p zs caller
    unfolding add_iop_def by (rule keeps_supd) (auto simp: session_ok_def iop_new_def split: option.split if_splits)
  show 2: "keeps session_ok take_context" unfolding take_context_def by (intro keeps_intros keeps_same; simp)
  show 3: "keeps session_ok (open_zones env i zs ctx caller)" for zs
    unfolding open_zones_def by (intro keeps_intros 1 2)
  show "keeps session_ok (add_interest env i ctx caller)"
    unfolding add_interest_def by (intro keeps_intros keeps_same 3; simp)
  show "keeps session_ok (remove_interest env i ctx caller)"
    unfolding remove_interest_def by (intro keeps_intros keeps_same; simp)
  show "keeps session_ok (interest_ref iid)"
    unfolding interest_ref_def Let_def by (intro keeps_intros keeps_same; simp)
  show "keeps session_ok (emplace_pending d rc)"
    unfolding emplace_pending_def by (intro keeps_same; simp split: option.split)
qed

section \<open>Messages keep the invariant\<close>

lemma keeps_queue:
  assumes "held_back (it_dg it)" "\<And>d s it'. keeps session_ok (rest d s it')"
  shows "keeps session_ok (sbind (slift (read_doid it)) (\<lambda>(d, it).
     sbind (sget id) (\<lambda>s. if lookup_object env d s = None then sbind (try_queue_pending d (it_dg it)) (\<lambda>_. sret ())
       else rest d s it)))"
proof (rule keeps_read, simp only: prod.case)
  fix d it' assume "read_doid it = Inr (d, it')"
  then have "it_dg it' = it_dg it" by (rule read_dg(4))
  then show "keeps session_ok (sbind (sget id) (\<lambda>s. if lookup_object env d s = None
      then sbind (try_queue_pending d (it_dg it')) (\<lambda>_. sret ()) else rest d s it'))"
    using assms by (intro keeps_intros keeps_try_queue) auto
qed

lemma keeps_tables:
  assumes "\<And>s. P (tables s) = P s" "quiet m"
  shows "keeps P m"
  using assms by (metis keepsI quietD)

lemma forget_seen:
  assumes ok: "session_ok s"
    and rest: "\<And>s. session_ok s \<Longrightarrow> d \<notin> seen_objects s \<Longrightarrow> session_ok (snd (rest s))"
  shows "session_ok (snd (sseq (swhen (d \<in> seen_objects s)
     (sseq (handle_remove_object env d) (supd (\<lambda>s. s\<lparr>seen_objects := seen_objects s - {d}\<rparr>)))) rest s))"
proof (cases "d \<in> seen_objects s")
  case True
  obtain r s1 where r: "handle_remove_object env d s = (r, s1)" by (cases "handle_remove_object env d s")
  then have ok1: "session_ok s1" using ok keepsD [OF keeps_session_messages(15), of s env d] by simp
  then have "session_ok (s1\<lparr>seen_objects := seen_objects s1 - {d}\<rparr>)" by (auto simp: session_ok_def)
  from rest [OF this] show ?thesis using True r ok1 by (cases r) (simp_all add: sseq_apply)
qed (use rest [OF ok] in \<open>simp add: sseq_apply\<close>)

lemma keeps_here: "(\<And>s. P s \<Longrightarrow> P (snd (f s s))) \<Longrightarrow> keeps P (sbind (sget id) f)"
  by (simp add: keeps_def sbind_apply)

lemma keeps_object_messages:
  assumes "held_back (it_dg it)"
  shows "keeps session_ok (cl_set_field env sender it)" "keeps session_ok (cl_set_fields env sender it)"
    "keeps session_ok (cl_delete_ram env it)" "keeps session_ok (cl_changing_location env it)"
proof -
  show "keeps session_ok (cl_set_field env sender it)" unfolding cl_set_field_def
    by (rule keeps_queue [OF assms]) (intro keeps_intros)
  show "keeps session_ok (cl_set_fields env sender it)" unfolding cl_set_fields_def
    by (rule keeps_queue [OF assms]) (intro keeps_intros)
  show "keeps session_ok (cl_delete_ram env it)" unfolding cl_delete_ram_def
  proof (rule keeps_read, simp only: prod.case, rule keeps_here)
    fix d it' s assume r: "read_doid it = Inr (d, it')" and ok: "session_ok s"
    let ?gone = "supd (\<lambda>s. s\<lparr>historical_objects := insert d (historical_objects s), visible_objects := (visible_objects s)(d := None)\<rparr>)"
    let ?out = "\<lambda>s. session_ok s \<and> d \<notin> seen_objects s"
    have own: "keeps ?out (swhen b (sseq (handle_remove_ownership env d) (supd (\<lambda>s. s\<lparr>owned_objects := (owned_objects s)(d := None)\<rparr>))))" for b
    proof -
      have "keeps ?out (handle_remove_ownership env d)"
        by (rule keeps_tables [OF _ quiet_messages(16)]) (simp add: session_ok_tables, simp add: tables_def)
      moreover have "keeps ?out (supd (\<lambda>s. s\<lparr>owned_objects := (owned_objects s)(d := None)\<rparr>))"
        by (rule keeps_supd) (simp add: session_ok_def)
      ultimately show ?thesis by (intro keeps_swhen keeps_sseq)
    qed
    have rest: "session_ok (snd (sseq (swhen b (sseq (handle_remove_ownership env d) (supd (\<lambda>s. s\<lparr>owned_objects := (owned_objects s)(d := None)\<rparr>)))) ?gone s))"
      if "session_ok s" "d \<notin> seen_objects s" for b s
    proof -
      obtain r s1 where s1: "swhen b (sseq (handle_remove_ownership env d) (supd (\<lambda>s. s\<lparr>owned_objects := (owned_objects s)(d := None)\<rparr>))) s = (r, s1)"
        by (rule prod.exhaust)
      with keepsD [OF own, of s b] that have ok1: "session_ok s1" "d \<notin> seen_objects s1" by simp_all
      then have "session_ok (snd (?gone s1))" by (auto simp: session_ok_def)
      with ok1 s1 show ?thesis by (cases r) (simp_all add: sseq_apply)
    qed
    have queue: "keeps session_ok (sbind (try_queue_pending d (it_dg it')) (\<lambda>_. sret ()))"
      by (intro keeps_intros keeps_try_queue) (use assms read_dg(4) [OF r] in simp)
    have "session_ok (s\<lparr>session_objects := X\<rparr>) = session_ok s" for X by (simp add: session_ok_def)
    with ok keepsD [OF keeps_session_messages(5)]
    have leave: "session_ok (snd (send_disconnect env c t b (s\<lparr>session_objects := X\<rparr>)))" for c t b X by simp
    show "session_ok (snd ((if lookup_object env d s = None then sbind (try_queue_pending d (it_dg it')) (\<lambda>_. sret ())
       else if d \<in> session_objects s then
         sseq (supd (\<lambda>s. s\<lparr>session_objects := session_objects s - {d}\<rparr>))
           (send_disconnect env CLIENT_DISCONNECT_SESSION_OBJECT_DELETED
              (session_object_text d '' has been unexpectedly deleted.'') False)
       else
         sseq (swhen (d \<in> seen_objects s)
           (sseq (handle_remove_object env d) (supd (\<lambda>s. s\<lparr>seen_objects := seen_objects s - {d}\<rparr>))))
        (sseq (swhen (owned_objects s d \<noteq> None)
           (sseq (handle_remove_ownership env d) (supd (\<lambda>s. s\<lparr>owned_objects := (owned_objects s)(d := None)\<rparr>))))
          ?gone)) s))"
      using ok by (simp add: keepsD [OF queue] leave forget_seen rest)
  qed
  have place: "keeps session_ok (supd (\<lambda>s. s\<lparr>visible_objects := set_place p z d (visible_objects s), owned_objects := set_place p z d (owned_objects s)\<rparr>))" for p z d
    by (rule keeps_supd) (auto simp: session_ok_def set_place_def dom_def)
  have gone: "keeps session_ok (supd (\<lambda>s. s\<lparr>seen_objects := seen_objects s - {d},
      historical_objects := insert d (historical_objects s), visible_objects := (visible_objects s)(d := None)\<rparr>))" for d
    by (rule keeps_supd) (auto simp: session_ok_def)
  show "keeps session_ok (cl_changing_location env it)" unfolding cl_changing_location_def
  proof (rule keeps_read, simp only: prod.case)
    fix d it' assume r: "read_doid it = Inr (d, it')"
    then have "held_back (it_dg it')" using assms read_dg(4) [OF r] by simp
    then show "keeps session_ok (sbind (try_queue_pending d (it_dg it')) (\<lambda>queued. if queued then sret () else
       sbind (slift (read_doid it')) (\<lambda>(n_parent, it).
       sbind (slift (read_zone it)) (\<lambda>(n_zone, _).
       sbind (sget id) (\<lambda>s.
       let disable = (lookup_interests n_parent n_zone s = {});
           visible = (visible_objects s d \<noteq> None);
           owned = (owned_objects s d \<noteq> None);
           session = (d \<in> session_objects s)
       in if \<not> visible \<and> \<not> owned then sret ()
          else
            sseq (supd (\<lambda>s. s\<lparr>visible_objects := set_place n_parent n_zone d (visible_objects s),
                               owned_objects := set_place n_parent n_zone d (owned_objects s)\<rparr>))
              (if disable \<and> visible then
                 (if session then
                    (if owned then handle_change_location env d n_parent n_zone
                     else send_disconnect env CLIENT_DISCONNECT_SESSION_OBJECT_DELETED
                        (session_object_text d '' has unexpectedly left interest.'') False)
                  else
                    sseq (handle_remove_object env d)
                      (supd (\<lambda>s. s\<lparr>seen_objects := seen_objects s - {d},
                                   historical_objects := insert d (historical_objects s),
                                   visible_objects := (visible_objects s)(d := None)\<rparr>)))
               else handle_change_location env d n_parent n_zone))))))"
      unfolding Let_def by (intro keeps_intros keeps_try_queue place gone)
  qed
qed

lemma keeps_get: "(\<And>s. P s \<Longrightarrow> P (snd (f (g s) s))) \<Longrightarrow> keeps P (sbind (sget g) f)"
  by (simp add: keeps_def sbind_apply)

lemma matching_iop_Some:
  assumes "matching_iop env parent zn s = Some (ctx, op)"
  shows "pending_interests s ctx = Some op"
proof -
  let ?all = "List.map_filter (\<lambda>ctx. map_option (Pair ctx) (pending_interests s ctx)) (ce_ctxs env (dom (pending_interests s)))"
  obtain rest where "filter (\<lambda>(ctx, op). opens op parent zn) ?all = (ctx, op) # rest"
    using assms by (auto simp: matching_iop_def split: list.splits)
  then have "(ctx, op) \<in> set ?all" using filter_is_subset [of "\<lambda>(ctx, op). opens op parent zn" ?all] by simp
  then show ?thesis by (auto simp: List.map_filter_def)
qed

lemma session_ok_pending:
  "session_ok s \<Longrightarrow> pending_interests s ctx = Some op \<Longrightarrow> iop_request_context op = ctx \<and> list_all held_back (iop_datagrams op)"
  by (simp add: session_ok_def)

lemma keeps_enter_location:
  assumes "held_back (it_dg it)"
  shows "keeps session_ok (cl_enter_location env other it)"
  unfolding cl_enter_location_def
proof (rule keeps_read, simp only: prod.case, rule keeps_read, simp only: prod.case, rule keeps_read, simp only: prod.case, rule keeps_get)
  fix d it1 parent it2 zn it3 s
  assume r: "read_doid it = Inr (d, it1)" "read_doid it1 = Inr (parent, it2)" "read_zone it2 = Inr (zn, it3)" and ok: "session_ok s"
  from r assms have held: "held_back (it_dg it3)" by (simp add: read_dg)
  have "keeps session_ok (case matching_iop env parent zn s of
       Some (ctx, op) \<Rightarrow> sseq (set_iop ctx (queue_datagram (it_dg it3) op)) (emplace_pending d ctx)
     | None \<Rightarrow> sbind (slift (rbind (seek_payload it3) (skip_bytes 10))) (\<lambda>it. handle_object_entrance env it other))"
  proof (cases "matching_iop env parent zn s")
    case None
    then show ?thesis by (simp, intro keeps_intros)
  next
    case (Some p)
    then obtain ctx op where m: "matching_iop env parent zn s = Some (ctx, op)" by (cases p) simp
    from session_ok_pending [OF ok matching_iop_Some [OF m]] held
    have "keeps session_ok (set_iop ctx (queue_datagram (it_dg it3) op))"
      by (intro keeps_set_iop) (simp_all add: queue_datagram_def)
    then show ?thesis unfolding m by (simp, intro keeps_intros)
  qed
  from keepsD [OF this ok]
  show "session_ok (snd ((case matching_iop env parent zn s of
       Some (ctx, op) \<Rightarrow> sseq (set_iop ctx (queue_datagram (it_dg it3) op)) (emplace_pending d ctx)
     | None \<Rightarrow> sbind (slift (rbind (seek_payload it3) (skip_bytes 10))) (\<lambda>it. handle_object_entrance env it other)) s))" .
qed

lemma keeps_answers:
  assumes finish: "\<And>ctx. keeps session_ok (finish ctx)"
  shows "keeps session_ok (cl_enter_interest finish it)" "keeps session_ok (cl_zones_count finish it)"
proof -
  have enter: "keeps session_ok (case p of None \<Rightarrow> sret () | Some op \<Rightarrow>
      sbind (slift (read_doid it)) (\<lambda>(d, it). sseq (emplace_pending d ctx)
        (sseq (set_iop ctx (queue_expected (it_dg it) op)) (swhen (is_ready (queue_expected (it_dg it) op)) (finish ctx)))))"
    if "\<And>op. p = Some op \<Longrightarrow> iop_request_context op = ctx \<and> list_all held_back (iop_datagrams op)" for p ctx it
    using that by (intro keeps_intros keeps_set_iop finish) (simp_all add: queue_expected_def)
  have count: "keeps session_ok (case p of None \<Rightarrow> sret () | Some op \<Rightarrow>
      sseq (set_iop ctx (set_expected n op)) (swhen (is_ready (set_expected n op)) (finish ctx)))"
    if "\<And>op. p = Some op \<Longrightarrow> iop_request_context op = ctx \<and> list_all held_back (iop_datagrams op)" for p ctx n
    using that by (intro keeps_intros keeps_set_iop finish) (simp_all add: set_expected_def)
  show "keeps session_ok (cl_enter_interest finish it)"
    unfolding cl_enter_interest_def
    by (intro keeps_sbind [OF keeps_slift] keeps_case_prod keeps_get) (rule keepsD [OF enter], rule session_ok_pending)
  show "keeps session_ok (cl_zones_count finish it)"
    unfolding cl_zones_count_def
    by (intro keeps_sbind [OF keeps_slift] keeps_case_prod keeps_get) (rule keepsD [OF count], rule session_ok_pending)
qed

text \<open>Completion hands the held datagrams, one by one and at their payload, to the dispatcher.\<close>

lemma keeps_dispatch_held:
  assumes "list_all held_back dgs" "\<And>it. at_payload it \<Longrightarrow> held_back (it_dg it) \<Longrightarrow> keeps session_ok (handle it)"
  shows "keeps session_ok (dispatch_held handle dgs)"
  using assms(1)
proof (induction dgs)
  case (Cons dg dgs)
  have "keeps session_ok (handle it)" if "rbind (dgi_new dg 0) seek_payload = Inr it" for it
  proof (rule assms(2))
    have "it_dg it = dg" using that by (auto simp: rbind_eq_Inr dgi_new_def seek_payload_def Let_def)
    with that Cons.prems show "at_payload it" "held_back (it_dg it)" by (simp_all add: at_payload_def)
  qed
  with Cons show ?case
    by (cases "rbind (dgi_new dg 0) seek_payload") (auto simp: keeps_def sseq_apply sbind_apply split: sum.split prod.split)
qed (simp add: keeps_sret)

lemma keeps_iop_finish:
  assumes "\<And>it. at_payload it \<Longrightarrow> held_back (it_dg it) \<Longrightarrow> keeps session_ok (handle it)"
  shows "keeps session_ok (iop_finish env handle ctx is_timeout)"
proof -
  have gens: "keeps session_ok (finish_generates env dgs)" for dgs
    by (induction dgs) (auto intro!: keeps_intros)
  have drop: "keeps session_ok (supd (\<lambda>s. s\<lparr>pending_interests := (pending_interests s)(c := None)\<rparr>))" for c
    by (rule keeps_supd) (simp add: session_ok_def)
  have complete: "keeps session_ok (iop_complete env handle ctx op)" if "list_all held_back (iop_datagrams op)" for op
    unfolding iop_complete_def by (intro keeps_intros gens drop keeps_dispatch_held [OF that] assms)
  have timer: "keeps session_ok (set_iop ctx (op\<lparr>iop_timer := t\<rparr>))"
    if "iop_request_context op = ctx \<and> list_all held_back (iop_datagrams op)" for op t
    using that by (intro keeps_set_iop) simp_all
  have step: "keeps session_ok (case p of None \<Rightarrow> sthrow DanglingReference
     | Some op \<Rightarrow> if is_timeout then iop_complete env handle ctx op
       else (case iop_timer op of None \<Rightarrow> iop_complete env handle ctx op
          | Some disabled \<Rightarrow> (case timeout_cancel disabled of
                (False, disabled') \<Rightarrow> set_iop ctx (op\<lparr>iop_timer := Some disabled'\<rparr>)
              | (True, disabled') \<Rightarrow> sseq (set_iop ctx (op\<lparr>iop_timer := None\<rparr>))
                  (iop_complete env handle ctx (op\<lparr>iop_timer := None\<rparr>)))))"
    if "\<And>op. p = Some op \<Longrightarrow> iop_request_context op = ctx \<and> list_all held_back (iop_datagrams op)" for p
    using that
  proof (cases p)
    case (Some op)
    from that [OF Some] have op: "iop_request_context op = ctx \<and> list_all held_back (iop_datagrams op)" .
    then have fin: "keeps session_ok (iop_complete env handle ctx (op\<lparr>iop_timer := t\<rparr>))"
      "keeps session_ok (iop_complete env handle ctx op)" for t
      by (intro complete; simp)+
    show ?thesis
    proof (cases "iop_timer op")
      case (Some b)
      then show ?thesis using \<open>p = Some op\<close> fin timer [OF op] by (cases b) (auto simp: timeout_cancel_def intro!: keeps_sseq)
    qed (use \<open>p = Some op\<close> fin in simp)
  qed (simp add: keeps_sthrow)
  show ?thesis unfolding iop_finish_def
    by (intro keeps_get) (rule keepsD [OF step], rule session_ok_pending)
qed

lemma keeps_client_dispatch:
  assumes finish: "\<And>ctx. keeps session_ok (finish ctx)" and held: "mt \<in> held_types \<Longrightarrow> held_back (it_dg it)"
  shows "keeps session_ok (client_dispatch env finish sender mt it)"
proof -
  note defs = ca_eject_def ca_set_state_def ca_add_interest_def ca_remove_interest_def ca_set_client_id_def
    ca_send_datagram_def ca_open_channel_def ca_close_channel_def ca_add_post_remove_def ca_clear_post_removes_def
    ca_declare_object_def ca_undeclare_object_def ca_set_fields_sendable_def ca_add_session_object_def
    ca_remove_session_object_def ca_get_tlvs_def ca_get_network_address_def
  have ca: "keeps session_ok (ca_eject env it)" "keeps session_ok (ca_set_state it)"
    "keeps session_ok (ca_add_interest env sender b it)" "keeps session_ok (ca_remove_interest env sender it)"
    "keeps session_ok (ca_set_client_id it)" "keeps session_ok (ca_send_datagram env it)"
    "keeps session_ok (ca_open_channel it)" "keeps session_ok (ca_close_channel it)" "keeps session_ok (ca_add_post_remove it)"
    "keeps session_ok ca_clear_post_removes" for b
    unfolding defs by (intro keeps_intros keeps_same; simp split: option.split)+
  have ca': "keeps session_ok (ca_declare_object env it)" "keeps session_ok (ca_undeclare_object it)"
    "keeps session_ok (ca_set_fields_sendable it)" "keeps session_ok (ca_add_session_object it)"
    "keeps session_ok (ca_remove_session_object it)" "keeps session_ok (ca_get_tlvs env sender it)"
    "keeps session_ok (ca_get_network_address env sender it)"
    unfolding defs by (intro keeps_intros keeps_same; simp split: option.split)+
  have own: "keeps session_ok (cl_enter_owner env b it)" "keeps session_ok (cl_changing_owner env it)" for b
    unfolding cl_enter_owner_def cl_changing_owner_def by (intro keeps_intros keeps_same; simp split: option.split)+
  show ?thesis
    unfolding client_dispatch_def
    by (intro keeps_intros ca ca' own keeps_answers finish keeps_object_messages keeps_enter_location held;
        simp add: held_types_def)
qed

lemma keeps_client_body:
  assumes "at_payload it" "\<And>ctx. keeps session_ok (finish ctx)"
  shows "keeps session_ok (client_body env finish it)"
proof -
  have "keeps session_ok (client_dispatch env finish sender mt it2)"
    if "read_channel it = Inr (sender, it1)" "read_uint16 it1 = Inr (mt, it2)" for sender it1 mt it2
  proof (rule keeps_client_dispatch [OF assms(2)])
    assume "mt \<in> held_types"
    moreover have "it_dg it2 = it_dg it" using read_dg(1,2) that by metis
    ultimately show "held_back (it_dg it2)" using that assms(1) unfolding held_back_def at_payload_def by metis
  qed
  then show ?thesis unfolding client_body_def
    by (intro keeps_sbind [OF keeps_sget] keeps_if keeps_sret keeps_read) (simp only: prod.case, intro keeps_sbind [OF keeps_sget] keeps_if keeps_sret keeps_read, simp)
qed

lemma keeps_client_handle: "at_payload it \<Longrightarrow> keeps session_ok (client_handle n env it)"
  by (induction n arbitrary: it) (auto intro: keeps_sthrow keeps_client_body keeps_iop_finish)

lemma keeps_timers:
  "keeps session_ok (interest_timeout env ctx)" "keeps session_ok (interest_finish env ctx)"
  "keeps session_ok generate_timeouts" "keeps session_ok (timer_due ctx)"
proof -
  show "keeps session_ok (interest_timeout env ctx)" "keeps session_ok (interest_finish env ctx)"
    unfolding interest_timeout_def interest_finish_def client_handle_datagram_def
    by (intro keeps_iop_finish keeps_client_handle; assumption)+
  have "keeps session_ok (start_timers ctxs)" for ctxs
  proof (induction ctxs)
    case (Cons ctx ctxs)
    have step: "keeps session_ok (case p of None \<Rightarrow> sthrow DanglingReference
        | Some op \<Rightarrow> sseq (set_iop ctx (op\<lparr>iop_timer := Some False\<rparr>)) (start_timers ctxs))"
      if "\<And>op. p = Some op \<Longrightarrow> iop_request_context op = ctx \<and> list_all held_back (iop_datagrams op)" for p
      using that by (intro keeps_intros keeps_set_iop Cons) simp_all
    show ?case unfolding start_timers.simps
      by (intro keeps_get) (rule keepsD [OF step], rule session_ok_pending)
  qed (simp add: keeps_Pair)
  then show "keeps session_ok generate_timeouts"
    unfolding generate_timeouts_def by (intro keeps_intros keeps_same; simp)
  show "keeps session_ok (timer_due ctx)"
    unfolding timer_due_def by (rule keeps_supd) (auto simp: session_ok_def split: option.split)
qed

section \<open>The peer's messages and the end of the connection\<close>

lemma keeps_receive_by_state: "keeps session_ok (receive_by_state env it)"
proof -
  have beat: "keeps session_ok handle_client_heartbeat"
    unfolding handle_client_heartbeat_def by (intro keeps_intros)
  have bye: "keeps session_ok (handle_client_disconnect env)"
    unfolding handle_client_disconnect_def by (intro keeps_intros keeps_same; simp)
  have field: "keeps session_ok (handle_client_object_update_field env it)" for it
    unfolding handle_client_object_update_field_def
    by (intro keeps_sbind [OF keeps_slift] keeps_case_prod keeps_sbind [OF keeps_sget] keeps_case_option keeps_if
          keeps_intros) (auto intro!: keeps_intros split: sum.split)
  have location: "keeps session_ok (handle_client_object_location env it)" for it
    unfolding handle_client_object_location_def by (intro keeps_intros)
  have interests: "keeps session_ok (handle_client_add_interest env b it)" "keeps session_ok (handle_client_remove_interest env it)" for b it
    unfolding handle_client_add_interest_def handle_client_remove_interest_def by (intro keeps_intros)+
  have hello: "keeps session_ok (handle_pre_hello env it)" for it
    unfolding handle_pre_hello_def by (intro keeps_intros beat keeps_same; simp)
  show ?thesis
    unfolding receive_by_state_def handle_pre_auth_def handle_authenticated_def
    by (intro keeps_intros beat bye field location interests hello)
qed

lemma keeps_receive_datagram: "keeps session_ok (receive_datagram env dg)"
proof -
  have "session_ok (snd ((case receive_by_state env it s of
       (Inl e, s') \<Rightarrow>
         (if e = DatagramIteratorEOF then
            send_disconnect env CLIENT_DISCONNECT_TRUNCATED_DATAGRAM
              (str ''Datagram unexpectedly ended while iterating.'') False
          else if e = DatagramOverflow then
            send_disconnect env CLIENT_DISCONNECT_OVERSIZED_DATAGRAM
              (str ''ClientDatagram too large to be routed on MD.'') True
          else sthrow e) s'
     | (Inr it', s') \<Rightarrow>
         swhen (get_remaining it' \<noteq> 0)
           (send_disconnect env CLIENT_DISCONNECT_OVERSIZED_DATAGRAM (str ''Datagram contains excess data.'') True) s')))"
    if "session_ok s" for it s
  proof -
    obtain r s' where r: "receive_by_state env it s = (r, s')" by (rule prod.exhaust)
    with keepsD [OF keeps_receive_by_state that, of env it] have ok: "session_ok s'" by simp
    have "keeps session_ok (swhen b (send_disconnect env c t sec))" "keeps session_ok (sthrow e)"
       "keeps session_ok (send_disconnect env c t sec)" for b c t sec e
      by (intro keeps_intros)+
    with ok r show ?thesis by (cases r) (simp_all add: keepsD)
  qed
  then show ?thesis unfolding receive_datagram_def by (intro keeps_sbind [OF keeps_slift]) (auto simp: keeps_def)
qed

lemma keeps_ending:
  "keeps session_ok (astron_initialize env)" "keeps session_ok (heartbeat_timeout env)" "keeps session_ok (receive_disconnect env reason)"
proof -
  show "keeps session_ok (astron_initialize env)" unfolding astron_initialize_def by (intro keeps_intros keeps_same; simp)
  show "keeps session_ok (heartbeat_timeout env)" unfolding heartbeat_timeout_def by (intro keeps_intros keeps_same; simp)
  have "keeps session_ok (delete_session ds)" for ds
  proof (induction ds)
    case (Cons d ds)
    then show ?case unfolding delete_session.simps by (intro keeps_intros keeps_same; simp)
  qed (simp add: keeps_Pair)
  moreover have "keeps session_ok (finish_all env ctxs)" for ctxs
    by (induction ctxs) (auto intro!: keeps_Pair keeps_sseq keeps_timers)
  ultimately have "keeps session_ok (client_annihilate env)"
    unfolding client_annihilate_def by (intro keeps_intros keeps_same; simp)
  then show "keeps session_ok (receive_disconnect env reason)"
    unfolding receive_disconnect_def by (intro keeps_intros keeps_same; simp)
qed

section \<open>The nesting of handlers\<close>

text \<open>
  A handler may finish an operation, and the operation hands the datagrams it held back to the
  handler. Those never finish an operation, so the handler is entered at most twice.
\<close>

lemma held_dispatch: "mt \<in> held_types \<Longrightarrow> client_dispatch env f sender mt it = client_dispatch env g sender mt it"
  by (auto simp: held_types_def client_dispatch_def)

lemma held_body:
  assumes "at_payload it" "held_back (it_dg it)"
  shows "client_body env f it = client_body env g it"
proof -
  from assms obtain sender it1 mt it2 where
    "read_channel it = Inr (sender, it1)" "read_uint16 it1 = Inr (mt, it2)" "mt \<in> held_types"
    by (auto simp: at_payload_def held_back_def)
  then show ?thesis using held_dispatch by (auto simp: client_body_def fun_eq_iff sbind_apply)
qed

lemma sseq_cong: "(\<And>x s'. m s = (Inr x, s') \<Longrightarrow> f s' = g s') \<Longrightarrow> sseq m f s = sseq m g s"
  by (cases "m s") (auto simp: sseq_apply split: sum.split)

lemma dispatch_held_cong:
  assumes "\<And>it. at_payload it \<Longrightarrow> held_back (it_dg it) \<Longrightarrow> h it = h' it" "list_all held_back dgs"
  shows "dispatch_held h dgs = dispatch_held h' dgs"
  using assms(2)
proof (induction dgs)
  case (Cons dg dgs)
  have "h it = h' it" if "rbind (dgi_new dg 0) seek_payload = Inr it" for it
  proof (rule assms(1))
    have "it_dg it = dg" using that by (auto simp: rbind_eq_Inr dgi_new_def seek_payload_def Let_def)
    with that Cons.prems show "at_payload it" "held_back (it_dg it)" by (simp_all add: at_payload_def)
  qed
  moreover have "dispatch_held h dgs = dispatch_held h' dgs" using Cons by simp
  ultimately show ?case by (cases "rbind (dgi_new dg 0) seek_payload") (auto intro!: ext simp: sbind_apply)
qed simp

lemma iop_finish_cong:
  assumes "\<And>it. at_payload it \<Longrightarrow> held_back (it_dg it) \<Longrightarrow> h it = h' it" "session_ok s"
  shows "iop_finish env h ctx b s = iop_finish env h' ctx b s"
proof -
  have "dispatch_held h (iop_datagrams op) = dispatch_held h' (iop_datagrams op)" if "pending_interests s ctx = Some op" for op
    using session_ok_pending [OF assms(2) that] by (intro dispatch_held_cong assms(1)) auto
  then show ?thesis
    by (cases "pending_interests s ctx") (simp_all add: iop_finish_def iop_complete_def timeout_cancel_def sbind_apply split: option.split bool.split)
qed

lemma client_dispatch_cong:
  assumes fg: "\<And>ctx s. session_ok s \<Longrightarrow> f ctx s = g ctx s" and ok: "session_ok s"
  shows "client_dispatch env f sender mt it s = client_dispatch env g sender mt it s"
proof -
  have after: "sseq (set_iop ctx op) (swhen b (f ctx)) s = sseq (set_iop ctx op) (swhen b (g ctx)) s"
    if "session_ok s" "iop_request_context op = ctx" "list_all held_back (iop_datagrams op)" for ctx op b s
  proof (rule sseq_cong)
    fix x s' assume "set_iop ctx op s = (Inr x, s')"
    with keepsD [OF keeps_set_iop [OF that(2,3)] that(1)] have "session_ok s'" by simp
    with fg show "swhen b (f ctx) s' = swhen b (g ctx) s'" by (cases b) simp_all
  qed
  have enter: "cl_enter_interest f it s = cl_enter_interest g it s"
  proof (cases "read_uint32 it")
    case (Inr p)
    obtain ctx it1 where p: "p = (ctx, it1)" by (cases p)
    show ?thesis
    proof (cases "pending_interests s ctx")
      case (Some op)
      have "sseq (emplace_pending d ctx) (sseq (set_iop ctx (queue_expected dg op)) (swhen b (f ctx))) s
        = sseq (emplace_pending d ctx) (sseq (set_iop ctx (queue_expected dg op)) (swhen b (g ctx))) s" for d dg b
      proof (rule sseq_cong)
        fix x s' assume "emplace_pending d ctx s = (Inr x, s')"
        with keepsD [OF keeps_interests(7) ok, of d ctx] have "session_ok s'" by simp
        with session_ok_pending [OF ok Some]
        show "sseq (set_iop ctx (queue_expected dg op)) (swhen b (f ctx)) s' = sseq (set_iop ctx (queue_expected dg op)) (swhen b (g ctx)) s'"
          by (intro after) (simp_all add: queue_expected_def)
      qed
      with Inr p Some show ?thesis by (cases "read_doid it1") (auto simp: cl_enter_interest_def sbind_apply)
    qed (use Inr p in \<open>simp add: cl_enter_interest_def sbind_apply\<close>)
  qed (simp add: cl_enter_interest_def sbind_apply)
  have count: "cl_zones_count f it s = cl_zones_count g it s"
  proof (cases "read_uint32 it")
    case (Inr p)
    obtain ctx it1 where p: "p = (ctx, it1)" by (cases p)
    show ?thesis
    proof (cases "pending_interests s ctx")
      case (Some op)
      have "sseq (set_iop ctx (set_expected n op)) (swhen b (f ctx)) s = sseq (set_iop ctx (set_expected n op)) (swhen b (g ctx)) s" for n b
        using session_ok_pending [OF ok Some] by (intro after ok) (simp_all add: set_expected_def)
      with Inr p Some show ?thesis by (cases "read_doid it1") (auto simp: cl_zones_count_def sbind_apply)
    qed (use Inr p in \<open>cases "read_doid it1"; auto simp: cl_zones_count_def sbind_apply\<close>)
  qed (simp add: cl_zones_count_def sbind_apply)
  show ?thesis unfolding client_dispatch_def using enter count by (simp only: if_distrib [of "\<lambda>m. m s"])
qed

lemma client_body_cong:
  assumes "\<And>ctx s. session_ok s \<Longrightarrow> f ctx s = g ctx s" "session_ok s"
  shows "client_body env f it s = client_body env g it s"
  using client_dispatch_cong [OF assms]
  by (cases "read_channel it") (auto simp: client_body_def sbind_apply slift_def split: sum.split)

lemma handle_at_depth_two:
  assumes "session_ok s"
  shows "client_handle (Suc (Suc n)) env it s = client_body env (\<lambda>ctx. iop_finish env (client_body env F) ctx False) it s"
proof -
  have "client_handle (Suc n) env it = client_body env F it" if "at_payload it" "held_back (it_dg it)" for it
    using held_body [OF that] by simp
  then show ?thesis
    unfolding client_handle.simps(2) [of "Suc n"] by (intro client_body_cong iop_finish_cong assms)
qed

section \<open>Sessions\<close>

text \<open>
  The life of a session: it is made, its connection is set up and carries bytes, the peer and the
  cluster send datagrams, timers of operations start and expire, the heartbeat fails, the
  connection ends. What the cluster sends is handled on any thread, the rest on the main thread.
\<close>

abbreviation on_thread :: "bool \<Rightarrow> cenv \<Rightarrow> cenv" where
  "on_thread b env \<equiv> env\<lparr>ce_on_main := b\<rparr>"

inductive session :: "cenv \<Rightarrow> client \<Rightarrow> bool" for env where
  made: "client_new (on_thread True env) t = (r, s, t') \<Longrightarrow> session env s"
| started: "session env s \<Longrightarrow> session env (snd (astron_initialize (on_thread True env) s))"
| connection: "session env s \<Longrightarrow> session env (s\<lparr>net := n\<rparr>)"
| from_peer: "session env s \<Longrightarrow> session env (snd (receive_datagram (on_thread True env) dg s))"
| from_cluster: "session env s \<Longrightarrow> rbind (dgi_new dg 0) seek_payload = Inr it
    \<Longrightarrow> session env (snd (client_handle_datagram (on_thread b env) it s))"
| timers_made: "session env s \<Longrightarrow> session env (snd (generate_timeouts s))"
| timer_fires: "session env s \<Longrightarrow> session env (snd (timer_due ctx s))"
| timed_out: "session env s \<Longrightarrow> session env (snd (interest_timeout (on_thread True env) ctx s))"
| no_heartbeat: "session env s \<Longrightarrow> session env (snd (heartbeat_timeout (on_thread True env) s))"
| ended: "session env s \<Longrightarrow> session env (snd (receive_disconnect (on_thread True env) reason s))"

lemma payload_iterator: "rbind (dgi_new dg 0) seek_payload = Inr it \<Longrightarrow> at_payload it"
  by (auto simp: at_payload_def rbind_eq_Inr dgi_new_def seek_payload_def Let_def)

lemma session_inv: "session env s \<Longrightarrow> session_ok s"
proof (induction rule: session.induct)
  case (made t r s t')
  then obtain c where "s = snd ((if c = 0 then base_send_disconnect CLIENT_DISCONNECT_GENERIC (str ''Client capacity reached'') False
      else sseq (cl_effect (CSubscribe c)) (cl_effect (CSubscribe BCHAN_CLIENTS))) (client_blank c))"
    unfolding client_new_def Let_def by (auto split: prod.splits) (metis snd_conv)
  moreover have "keeps session_ok (if c = 0 then base_send_disconnect CLIENT_DISCONNECT_GENERIC (str ''Client capacity reached'') False
      else sseq (cl_effect (CSubscribe c)) (cl_effect (CSubscribe BCHAN_CLIENTS)))" for c
    by (intro keeps_intros)
  moreover have "session_ok (client_blank c)" by (simp add: session_ok_def client_blank_def)
  ultimately show ?case by (simp add: keepsD)
next
  case (connection s n)
  then show ?case by (simp add: session_ok_def)
next
  case (from_cluster s dg it b)
  then show ?case unfolding client_handle_datagram_def
    by (intro keepsD [OF keeps_client_handle] payload_iterator)
qed (simp_all add: keepsD [OF keeps_ending(1)] keepsD [OF keeps_ending(2)] keepsD [OF keeps_ending(3)]
       keepsD [OF keeps_receive_datagram] keepsD [OF keeps_timers(1)] keepsD [OF keeps_timers(3)] keepsD [OF keeps_timers(4)])

text \<open>
  C19: In every state a session can reach, an object the client sees has its class and location on
  record, so that looking it up yields what was recorded when it entered; every pending operation is
  stored under its own request context, so that finishing it removes itself and no other; and each
  datagram it holds back is, from its payload on, one of the six messages about a single object
  that the dispatcher can take again.
\<close>

theorem session_consistent:
  assumes "session env s"
  shows "seen_objects s \<subseteq> dom (visible_objects s)
    \<and> (\<forall>ctx op. pending_interests s ctx = Some op \<longrightarrow> iop_request_context op = ctx \<and> list_all held_back (iop_datagrams op))"
  using session_inv [OF assms] by (simp add: session_ok_def)

text \<open>
  C20: A datagram of the cluster is handled in finitely many steps, at whatever point of a session
  it arrives. Completing an interest operation re-enters the handler for the datagrams that were
  held back, and these complete no further operation: the handler equals the one whose nested
  calls get any function \<open>F\<close> at all for completion, so that a nesting depth of 2, which is what
  \<open>client_handle_datagram\<close> allows, is never exceeded, and more fuel changes nothing.
\<close>

theorem handler_returns:
  assumes "session env s"
  shows "client_handle_datagram (on_thread b env) it s
      = client_body (on_thread b env) (\<lambda>ctx. iop_finish (on_thread b env) (client_body (on_thread b env) F) ctx False) it s
    \<and> client_handle (n + 2) (on_thread b env) it s = client_handle_datagram (on_thread b env) it s"
  using handle_at_depth_two [OF session_inv [OF assms(1)], where n = 0 and F = F]
    handle_at_depth_two [OF session_inv [OF assms(1)], where n = n and F = F]
  by (simp add: client_handle_datagram_def numeral_2_eq_2)

text \<open>A session to which a server opens an interest, and an object that enters meanwhile.\<close>

definition demo_new :: client where
  "demo_new = fst (snd (client_new (on_thread True demo_cenv) (tracker_new 1000 1001)))"

definition demo_open :: datagram where
  "demo_open = dg_create_data ([1] @ le_bytes 8 (1000 :: channel) @ le_bytes 8 (77 :: channel)
     @ le_bytes 2 CLIENTAGENT_ADD_INTEREST @ le_bytes 2 (5 :: u16) @ le_bytes 4 (900 :: doid) @ le_bytes 4 (3 :: zone))"

definition demo_enter :: datagram where
  "demo_enter = dg_create_data ([1] @ le_bytes 8 (1000 :: channel) @ le_bytes 8 (500 :: channel)
     @ le_bytes 2 STATESERVER_OBJECT_ENTER_LOCATION_WITH_REQUIRED @ le_bytes 4 (500 :: doid) @ le_bytes 4 (900 :: doid)
     @ le_bytes 4 (3 :: zone) @ le_bytes 2 (0 :: u16))"

lemma payload_of:
  assumes "dg = dg_create_data ([1] @ bs)" "length bs < 65535"
  shows "rbind (dgi_new dg 0) seek_payload = Inr \<lparr>it_dg = dg, it_offset = 9\<rparr>"
proof -
  have "unat (dg_size dg) = Suc (length bs)"
    using assms by (simp add: dg_size_def buf_offset_def dg_create_data_def unsigned_of_nat take_bit_eq_mod del: of_nat_Suc)
  then have "dg_size dg > 0" by (simp add: word_less_nat_alt)
  then show ?thesis using assms(1) by (simp add: seek_payload_def get_recipient_count_def start_def dg_create_data_def)
qed

lemma demo_payload:
  "rbind (dgi_new demo_open 0) seek_payload = Inr \<lparr>it_dg = demo_open, it_offset = 9\<rparr>"
  "rbind (dgi_new demo_enter 0) seek_payload = Inr \<lparr>it_dg = demo_enter, it_offset = 9\<rparr>"
proof -
  show "rbind (dgi_new demo_open 0) seek_payload = Inr \<lparr>it_dg = demo_open, it_offset = 9\<rparr>"
    by (rule payload_of, rule demo_open_def, simp only: length_append length_le_bytes)
  show "rbind (dgi_new demo_enter 0) seek_payload = Inr \<lparr>it_dg = demo_enter, it_offset = 9\<rparr>"
    by (rule payload_of, rule demo_enter_def, simp only: length_append length_le_bytes)
qed

definition demo_waiting :: client where
  "demo_waiting = snd (client_handle_datagram (on_thread False demo_cenv) \<lparr>it_dg = demo_enter, it_offset = 9\<rparr>
     (snd (client_handle_datagram (on_thread False demo_cenv) \<lparr>it_dg = demo_open, it_offset = 9\<rparr> demo_new)))"

lemma demo_waiting_session: "session demo_cenv demo_waiting"
proof -
  obtain r s t' where m: "client_new (on_thread True demo_cenv) (tracker_new 1000 1001) = (r, s, t')"
    by (rule prod_cases3)
  from session.made [OF m] have "session demo_cenv demo_new" by (simp add: demo_new_def m)
  then show ?thesis unfolding demo_waiting_def
    by (rule session.from_cluster [OF session.from_cluster [OF _ demo_payload(1)] demo_payload(2)])
qed

theorem session_consistent_witness:
  "seen_objects demo_waiting \<subseteq> dom (visible_objects demo_waiting)"
  using session_consistent [OF demo_waiting_session] by simp

theorem handler_returns_witness:
  "client_handle 7 (on_thread True demo_cenv) \<lparr>it_dg = demo_open, it_offset = 9\<rparr> demo_waiting
    = client_handle_datagram (on_thread True demo_cenv) \<lparr>it_dg = demo_open, it_offset = 9\<rparr> demo_waiting"
  using handler_returns [OF demo_waiting_session, where n = 5 and b = True] by simp

end
