(* ===== verification/Client_Interests.thy ===== *)
theory Client_Interests
  imports Client_Sessions
begin

text \<open>
  Interests from the first message to the last: what opening one asks of the cluster, how the
  answer of the parent object (\<open>Distributed_Object\<close>) fixes the number of objects a session waits
  for, and what the peer is told when they have all arrived.
\<close>

section \<open>The request\<close>

definition zone_bytes :: "zone list \<Rightarrow> bytes" where
  "zone_bytes zl = concat (map (le_bytes 4) zl)"

lemma zone_bytes_simps [simp]: "zone_bytes [] = []" "zone_bytes (z # zl) = le_bytes 4 z @ zone_bytes zl"
  "length (zone_bytes zl) = 4 * length zl"
  by (simp_all add: zone_bytes_def length_concat sum_list_triv comp_def)

lemma request_zones_run:
  assumes "dg_ok dg" "length (dg_buf dg) + 4 * length zl \<le> DGSIZE_MAX"
  shows "\<exists>q. dg_ok q \<and> dg_buf q = dg_buf dg @ zone_bytes zl
    \<and> request_zones parent zl dg s
      = (Inr q, s\<lparr>cl_effects := cl_effects s @ map (\<lambda>z. CSubscribe (location_as_channel parent z)) zl\<rparr>)"
  using assms
proof (induction zl arbitrary: dg s)
  case (Cons z zl)
  have "buf_offset dg + length (le_bytes 4 z) \<le> DGSIZE_MAX" using Cons.prems(2) by (simp add: buf_offset_def)
  from appends_ok [OF appends_add(14) Cons.prems(1) this] obtain dg' where
    dg': "add_zone z dg = Inr dg'" "dg_ok dg'" "dg_buf dg' = dg_buf dg @ le_bytes 4 z" by auto
  then have "length (dg_buf dg') + 4 * length zl \<le> DGSIZE_MAX" using Cons.prems(2) by simp
  from Cons.IH [OF dg'(2) this, of "s\<lparr>cl_effects := cl_effects s @ [CSubscribe (location_as_channel parent z)]\<rparr>"] dg'
  show ?case by (auto simp: sseq_apply)
qed (simp add: assms(1))

text \<open>The body of a request for zones, and the state of a session that has sent it.\<close>

definition request_bytes :: "u32 \<Rightarrow> doid \<Rightarrow> zone list \<Rightarrow> bytes" where
  "request_bytes ctx parent zl =
     le_bytes 4 ctx @ le_bytes 4 parent @ le_bytes 2 (word_of_nat (length zl) :: u16) @ zone_bytes zl"

definition waiting :: "cenv \<Rightarrow> interest \<Rightarrow> zone list \<Rightarrow> u32 \<Rightarrow> channel \<Rightarrow> datagram \<Rightarrow> client \<Rightarrow> client" where
  "waiting env i zl ctx caller q s =
     (let rc = cl_next_context s in
      s\<lparr>cl_next_context := rc + 1, interests := (interests s)(int_id i \<mapsto> i),
        pending_interests := (pending_interests s)(rc \<mapsto> iop_new env (int_id i) ctx rc (int_parent i) (set zl) caller),
        cl_effects := cl_effects s @ map (\<lambda>z. CSubscribe (location_as_channel (int_parent i) z)) zl @ [CRoute q]\<rparr>)"

lemma take_context_apply: "take_context s = (Inr (cl_next_context s), s\<lparr>cl_next_context := cl_next_context s + 1\<rparr>)"
  by (simp add: take_context_def)

lemma add_interest_run:
  assumes "ce_on_main env" "new_zones i s = set zl" "zl \<noteq> []" "distinct zl" "length zl \<le> 16000"
    "ce_zones env (set zl) = zl" "interests s (int_id i) = None" "pending_interests s (cl_next_context s) = None"
  shows "\<exists>q. is_message q [doid_channel (int_parent i)] (cl_channel s) STATESERVER_OBJECT_GET_ZONES_OBJECTS
        (request_bytes (cl_next_context s) (int_parent i) zl)
    \<and> add_interest env i ctx caller s = (Inr (), waiting env i zl ctx caller q s)"
proof -
  let ?rc = "cl_next_context s" and ?p = "int_parent i"
  let ?hd = "server_header_bytes [doid_channel ?p] (cl_channel s) STATESERVER_OBJECT_GET_ZONES_OBJECTS"
  have card: "card (set zl) = length zl" using assms(4) by (rule distinct_card)
  have "appends (?hd @ (le_bytes 4 ?rc @ le_bytes 4 ?p @ le_bytes 2 (word_of_nat (length zl) :: u16) @ []))
      (\<lambda>dg. rbind (add_server_header (doid_channel ?p) (cl_channel s) STATESERVER_OBJECT_GET_ZONES_OBJECTS dg)
        (add_all [add_uint32 ?rc, add_doid ?p, add_uint16 (word_of_nat (length zl))]))"
    by (rule appends_seq [OF appends_add_server_header]) (intro appends_intros)
  from appends_dg_create [OF this] obtain dg where
    dg: "rbind (add_server_header (doid_channel ?p) (cl_channel s) STATESERVER_OBJECT_GET_ZONES_OBJECTS dg_create)
      (add_all [add_uint32 ?rc, add_doid ?p, add_uint16 (word_of_nat (length zl))]) = Inr dg" "dg_ok dg"
      "dg_buf dg = ?hd @ le_bytes 4 ?rc @ le_bytes 4 ?p @ le_bytes 2 (word_of_nat (length zl) :: u16)"
    by (auto simp: DGSIZE_MAX_def)
  let ?s = "s\<lparr>interests := (interests s)(int_id i \<mapsto> i), cl_next_context := ?rc + 1,
    pending_timeouts := pending_timeouts s,
    pending_interests := (pending_interests s)(?rc \<mapsto> iop_new env (int_id i) ctx ?rc ?p (set zl) caller)\<rparr>"
  from request_zones_run [OF dg(2), of zl ?p ?s] obtain q where
    q: "dg_ok q" "dg_buf q = dg_buf dg @ zone_bytes zl" "request_zones ?p zl dg ?s
      = (Inr q, ?s\<lparr>cl_effects := cl_effects ?s @ map (\<lambda>z. CSubscribe (location_as_channel ?p z)) zl\<rparr>)"
    using assms(5) by (auto simp: dg(3) DGSIZE_MAX_def)
  have "add_interest env i ctx caller s = (Inr (), waiting env i zl ctx caller q s)"
    using assms(1,3,6,7,8) dg(1) q(3)
    by (simp add: add_interest_def assms(2) open_zones_def sbind_ok [OF take_context_apply] add_iop_def iop_new_def card sseq_apply
        sbind_apply [of "request_zones _ _ _"] waiting_def Let_def del: add_all.simps)
  then show ?thesis using q(1,2) dg(3) by (auto simp: is_message_def request_bytes_def)
qed

section \<open>From the peer's bytes\<close>

definition add_interest_bytes :: "u32 \<Rightarrow> u16 \<Rightarrow> doid \<Rightarrow> zone list \<Rightarrow> bytes" where
  "add_interest_bytes ctx iid parent zl =
     le_bytes 2 CLIENT_ADD_INTEREST_MULTIPLE @ le_bytes 4 ctx @ le_bytes 2 iid @ le_bytes 4 parent
     @ le_bytes 2 (word_of_nat (length zl) :: u16) @ zone_bytes zl"

lemma read_zones_upcoming:
  "upcoming it (zone_bytes zl @ rest) \<Longrightarrow> read_zones (length zl) it = Inr (zl, advance it (4 * length zl))
     \<and> upcoming (advance it (4 * length zl)) rest"
proof (induction zl arbitrary: it)
  case (Cons z zl)
  from Cons.prems have "upcoming it (le_bytes 4 z @ (zone_bytes zl @ rest))" by simp
  note r = read_zone_upcoming [OF this]
  from Cons.IH [OF conjunct2 [OF r]] r show ?case by (simp add: algebra_simps)
qed simp

lemma unat_short: "n \<le> 16000 \<Longrightarrow> unat (word_of_nat n :: u16) = n"
  by (simp add: unsigned_of_nat take_bit_eq_mod)

lemma build_interest_upcoming:
  assumes "upcoming it (le_bytes 2 iid @ le_bytes 4 parent @ le_bytes 2 (word_of_nat (length zl) :: u16) @ zone_bytes zl)"
    "length zl \<le> 16000"
  shows "build_interest True it
    = Inr (\<lparr>int_id = iid, int_parent = parent, int_zones = set zl\<rparr>, advance it (8 + 4 * length zl))"
proof -
  note i = read_uint16_upcoming [OF assms(1)]
  note p = read_doid_upcoming [OF conjunct2 [OF i]]
  note n = read_uint16_upcoming [OF conjunct2 [OF p]]
  from conjunct2 [OF n] have "upcoming (advance (advance (advance it 2) 4) 2) (zone_bytes zl @ [])" by simp
  note z = read_zones_upcoming [OF this]
  show ?thesis
    using conjunct1 [OF i] conjunct1 [OF p] conjunct1 [OF n] conjunct1 [OF z]
    by (simp add: build_interest_def unat_short [OF assms(2)])
qed

lemma message_payload:
  assumes "is_message q [c] sender mt body"
  shows "rbind (dgi_new q 0) seek_payload = Inr (advance (start q) 9)"
    "upcoming (advance (start q) 9) (le_bytes 8 sender @ le_bytes 2 mt @ body)"
proof -
  have buf: "dg_buf q = [1] @ le_bytes 8 c @ le_bytes 8 sender @ le_bytes 2 mt @ body" and ok: "dg_ok q"
    using assms by (simp_all add: is_message_def server_header_bytes_def le_bytes.simps)
  show "upcoming (advance (start q) 9) (le_bytes 8 sender @ le_bytes 2 mt @ body)"
    using start_upcoming [OF ok] unfolding buf upcoming_append by (simp add: upcoming_append)
  have "unat (dg_size q) = length (dg_buf q)"
    using ok unat_of_short_length [of "dg_buf q"] by (simp add: dg_ok_def dg_size_def buf_offset_def)
  then have "dg_size q > 0" using buf by (simp add: word_less_nat_alt)
  with buf show "rbind (dgi_new q 0) seek_payload = Inr (advance (start q) 9)"
    by (simp add: seek_payload_def get_recipient_count_def start_def advance_def)
qed

text \<open>An interest the configuration lets the client open.\<close>

definition may_open :: "cenv \<Rightarrow> doid \<Rightarrow> client \<Rightarrow> bool" where
  "may_open env parent s \<longleftrightarrow> ce_interests env = INTERESTS_ENABLED
     \<or> ce_interests env = INTERESTS_VISIBLE \<and> lookup_object env parent s \<noteq> None"

lemma receive_add_interest:
  assumes "cl_state s = CLIENT_STATE_ESTABLISHED" "dg_ok dg" "dg_buf dg = add_interest_bytes ctx iid parent zl"
    "may_open env parent s" "length zl \<le> 16000"
    and add: "add_interest env \<lparr>int_id = iid, int_parent = parent, int_zones = set zl\<rparr> ctx 0 s = (Inr (), s')"
  shows "receive_datagram env dg s = (Inr (), s')"
proof -
  note m = client_message [OF assms(2) assms(3) [unfolded add_interest_bytes_def]]
  note c = read_uint32_upcoming [OF m(2)]
  note b = build_interest_upcoming [OF conjunct2 [OF c] assms(5)]
  have "receive_by_state env (start dg) s = handle_client_add_interest env True (advance (start dg) 2) s"
    using assms(1) m(1) by (simp add: receive_by_state_def handle_authenticated_def)
  also have "\<dots> = (Inr (advance (start dg) (14 + 4 * length zl)), s')"
    using assms(4) conjunct1 [OF c] b add
    by (auto simp: handle_client_add_interest_def may_open_def sseq_apply)
  finally have "receive_by_state env (start dg) s = (Inr (advance (start dg) (14 + 4 * length zl)), s')" .
  moreover have "get_remaining (advance (start dg) (14 + 4 * length zl)) = 0"
    by (rule get_remaining_advance [OF assms(2)]) (simp add: assms(3) add_interest_bytes_def)
  ultimately show ?thesis by (simp add: receive_datagram_def)
qed

text \<open>
  An established client opens a new interest. If the configuration allows it and zones of it
  are not covered by another interest, exactly these zones are subscribed to and asked for.
\<close>

lemma interest_requested:
  fixes ctx :: u32 and iid :: u16 and parent :: doid and asked zl :: "zone list"
  assumes i_def: "i = \<lparr>int_id = iid, int_parent = parent, int_zones = set asked\<rparr>"
    and "cl_state s = CLIENT_STATE_ESTABLISHED" "dg_ok dg" "dg_buf dg = add_interest_bytes ctx iid parent asked"
    and "may_open env parent s" "ce_on_main env" "length asked \<le> 16000"
    and "new_zones i s = set zl" "zl \<noteq> []" "distinct zl" "ce_zones env (set zl) = zl"
    and "interests s iid = None" "pending_interests s (cl_next_context s) = None"
  shows "\<exists>q. is_message q [doid_channel parent] (cl_channel s) STATESERVER_OBJECT_GET_ZONES_OBJECTS
        (request_bytes (cl_next_context s) parent zl)
    \<and> receive_datagram env dg s = (Inr (), waiting env i zl ctx 0 q s)"
proof -
  have "set zl \<subseteq> set asked" using assms(8) by (auto simp: new_zones_def i_def)
  then have "length zl \<le> 16000"
    using distinct_card [OF assms(10)] card_length [of asked] assms(7) card_mono [of "set asked" "set zl"] by simp
  then obtain q where "is_message q [doid_channel parent] (cl_channel s) STATESERVER_OBJECT_GET_ZONES_OBJECTS
        (request_bytes (cl_next_context s) parent zl)" "add_interest env i ctx 0 s = (Inr (), waiting env i zl ctx 0 q s)"
    using add_interest_run [OF assms(6,8,9,10) _ assms(11), of ctx 0] assms(12,13) by (auto simp: i_def)
  then show ?thesis using receive_add_interest [OF assms(2,3,4,5,7)] unfolding i_def by blast
qed

section \<open>The answer of the parent\<close>

text \<open>
  The parent of the zones, \<open>Distributed_Object\<close>, counts its children there and passes the request
  on to them.
\<close>

definition looked_up :: "zone list \<Rightarrow> dobj \<Rightarrow> dobj" where
  "looked_up zl s = s\<lparr>zone_objects := (\<lambda>z. if z \<in> set zl then Some (zone_children (zone_objects s) z) else zone_objects s z)\<rparr>"

lemma zone_children_looked_up [simp]:
  "zone_children (zone_objects (looked_up zl s)) z = zone_children (zone_objects s) z"
  by (simp add: looked_up_def zone_children_def)

lemma count_zones_run:
  assumes "upcoming it (zone_bytes zl)" "dg_ok dg" "length (dg_buf dg) + 4 * length zl \<le> DGSIZE_MAX"
  shows "\<exists>dg'. dg_ok dg' \<and> dg_buf dg' = dg_buf dg @ zone_bytes zl \<and> count_zones (length zl) it n dg s
    = (Inr (n + word_of_nat (\<Sum>z\<leftarrow>zl. card (zone_children (zone_objects s) z)), dg'), looked_up zl s)"
  using assms
proof (induction zl arbitrary: it dg n s)
  case (Cons z zl)
  from Cons.prems(1) have "upcoming it (le_bytes 4 z @ zone_bytes zl)" by simp
  note r = read_zone_upcoming [OF this]
  have "buf_offset dg + length (le_bytes 4 z) \<le> DGSIZE_MAX" using Cons.prems(3) by (simp add: buf_offset_def)
  from appends_ok [OF appends_add(14) Cons.prems(2) this] obtain dg' where
    dg': "add_zone z dg = Inr dg'" "dg_ok dg'" "dg_buf dg' = dg_buf dg @ le_bytes 4 z" by auto
  then have "length (dg_buf dg') + 4 * length zl \<le> DGSIZE_MAX" using Cons.prems(3) by simp
  let ?s = "s\<lparr>zone_objects := (zone_objects s)(z \<mapsto> zone_children (zone_objects s) z)\<rparr>"
  have s: "looked_up zl ?s = looked_up (z # zl) s" "zone_children (zone_objects ?s) = zone_children (zone_objects s)"
    by (auto simp: looked_up_def zone_children_def fun_eq_iff)
  from Cons.IH [OF conjunct2 [OF r] dg'(2) \<open>length (dg_buf dg') + _ \<le> _\<close>, of "n + word_of_nat (card (zone_children (zone_objects s) z))" ?s]
    r dg' show ?case unfolding s by (auto simp: sseq_apply algebra_simps)
qed (simp add: looked_up_def)

definition children_in :: "zone list \<Rightarrow> dobj \<Rightarrow> doid" where
  "children_in zl s = word_of_nat (\<Sum>z\<leftarrow>zl. card (zone_children (zone_objects s) z))"

lemma parent_answers:
  assumes "is_message q [c] sender STATESERVER_OBJECT_GET_ZONES_OBJECTS (request_bytes rc parent zl)"
    "do_id s = parent" "parent_id s \<noteq> parent" "length zl \<le> 16000"
  shows "\<exists>r k. is_message r [sender] (doid_channel parent) STATESERVER_OBJECT_GET_ZONES_COUNT_RESP
          (le_bytes 4 rc @ le_bytes 4 (children_in zl s))
    \<and> is_message k [parent_to_children parent] sender STATESERVER_OBJECT_GET_ZONES_OBJECTS (request_bytes rc parent zl)
    \<and> do_handle_datagram env (advance (start q) 9) s
      = (Inr (), emit (r # (if children_in zl s > 0 then [k] else [])) (looked_up zl s))"
proof -
  let ?n = "word_of_nat (length zl) :: u16"
  note p = message_payload(2) [OF assms(1)]
  note sender = read_channel_upcoming [OF p]
  note mt = read_uint16_upcoming [OF conjunct2 [OF sender]]
  note ctx = read_uint32_upcoming [OF conjunct2 [OF mt, unfolded request_bytes_def]]
  note par = read_doid_upcoming [OF conjunct2 [OF ctx]]
  note cnt = read_uint16_upcoming [OF conjunct2 [OF par]]
  note reads = conjunct1 [OF sender] conjunct1 [OF mt] conjunct1 [OF ctx] conjunct1 [OF par] conjunct1 [OF cnt]
  let ?hd = "server_header_bytes [parent_to_children parent] sender STATESERVER_OBJECT_GET_ZONES_OBJECTS"
  have "appends (?hd @ (le_bytes 4 rc @ le_bytes 4 parent @ le_bytes 2 ?n @ []))
      (\<lambda>dg. rbind (add_server_header (parent_to_children parent) sender STATESERVER_OBJECT_GET_ZONES_OBJECTS dg)
        (add_all [add_uint32 rc, add_doid parent, add_uint16 ?n]))"
    by (rule appends_seq [OF appends_add_server_header]) (intro appends_intros)
  from appends_dg_create [OF this] obtain dg where
    dg: "rbind (dg_create_server (parent_to_children parent) sender STATESERVER_OBJECT_GET_ZONES_OBJECTS)
      (add_all [add_uint32 rc, add_doid parent, add_uint16 ?n]) = Inr dg" "dg_ok dg"
      "dg_buf dg = ?hd @ le_bytes 4 rc @ le_bytes 4 parent @ le_bytes 2 ?n"
    by (auto simp: dg_create_server_def DGSIZE_MAX_def)
  have "length (dg_buf dg) + 4 * length zl \<le> DGSIZE_MAX" using assms(4) by (simp add: dg(3) DGSIZE_MAX_def)
  from count_zones_run [OF conjunct2 [OF cnt] dg(2) this, of 0 s] obtain k where
    k: "dg_ok k" "dg_buf k = dg_buf dg @ zone_bytes zl"
      "count_zones (length zl) (advance (start q) 29) 0 dg s = (Inr (children_in zl s, k), looked_up zl s)"
    by (auto simp: children_in_def)
  have "appends (le_bytes 4 rc @ le_bytes 4 (children_in zl s) @ []) (add_all [add_uint32 rc, add_doid (children_in zl s)])"
    by (intro appends_intros)
  from send_to_emit [OF this, of sender "doid_channel parent" STATESERVER_OBJECT_GET_ZONES_COUNT_RESP "looked_up zl s"]
  obtain r where r: "is_message r [sender] (doid_channel parent) STATESERVER_OBJECT_GET_ZONES_COUNT_RESP
      (le_bytes 4 rc @ le_bytes 4 (children_in zl s))"
    "send_to sender (doid_channel parent) STATESERVER_OBJECT_GET_ZONES_COUNT_RESP
      [add_uint32 rc, add_doid (children_in zl s)] (looked_up zl s) = (Inr (), emit [r] (looked_up zl s))"
    by auto
  have "is_message k [parent_to_children parent] sender STATESERVER_OBJECT_GET_ZONES_OBJECTS (request_bytes rc parent zl)"
    using k(1,2) dg(3) by (simp add: is_message_def request_bytes_def)
  moreover have "do_handle_datagram env (advance (start q) 9) s
      = (Inr (), emit (r # (if children_in zl s > 0 then [k] else [])) (looked_up zl s))"
    using reads dg(1) k(3) r(2) assms(2,3)
    by (simp add: do_handle_datagram_def do_dispatch_def on_get_zones_objects_def sbind_apply [of "count_zones _ _ _ _"] sseq_apply
        unat_short [OF assms(4)] emit_def swhen_def del: add_all.simps count_zones.simps)
  ultimately show ?thesis using r(1) by blast
qed

section \<open>The number of objects to wait for\<close>

lemma count_arrives:
  assumes "is_message r [c] sender STATESERVER_OBJECT_GET_ZONES_COUNT_RESP (le_bytes 4 rc @ le_bytes 4 n)"
    "\<not> cl_terminated s" "cl_channel s \<noteq> sender" "pending_interests s rc = Some op" "\<not> is_ready (set_expected n op)"
  shows "client_handle_datagram env (advance (start r) 9) s
    = (Inr (), s\<lparr>pending_interests := (pending_interests s)(rc \<mapsto> set_expected n op)\<rparr>)"
proof -
  note p = message_payload(2) [OF assms(1)]
  note sender = read_channel_upcoming [OF p]
  note mt = read_uint16_upcoming [OF conjunct2 [OF sender]]
  note ctx = read_uint32_upcoming [OF conjunct2 [OF mt]]
  have "upcoming (advance (start r) 23) (le_bytes 4 n @ [])" using conjunct2 [OF ctx] by simp
  note cnt = read_doid_upcoming [OF this]
  note reads = conjunct1 [OF sender] conjunct1 [OF mt] conjunct1 [OF ctx] conjunct1 [OF cnt]
  let ?F = "\<lambda>ctx. iop_finish env (client_handle 1 env) ctx False"
  have "client_handle_datagram env (advance (start r) 9) s = client_body env ?F (advance (start r) 9) s"
    by (simp only: client_handle_datagram_def numeral_2_eq_2 client_handle.simps One_nat_def)
  also have "\<dots> = cl_zones_count ?F (advance (start r) 19) s"
    using reads(1,2) assms(2,3) by (simp add: client_body_def client_dispatch_def)
  also have "\<dots> = (Inr (), s\<lparr>pending_interests := (pending_interests s)(rc \<mapsto> set_expected n op)\<rparr>)"
    using reads(3,4) assms(4,5) by (simp add: cl_zones_count_def set_iop_def)
  finally show ?thesis .
qed

text \<open>
  C17: From the client's message to the cluster and back: an established client opens an interest the
  configuration allows. The zones it asks for that no interest on record has of this parent are subscribed
  to and asked for, no others, in one request to the parent under a fresh request context; the interest and
  the operation are on record, and nothing else changes. The parent object handles the request, and the
  session handles the parent's answer: the operation then waits for exactly as many objects as the
  parent has in these zones, and the parent has passed the very request, with the session as its
  sender, on to its children. The session runs on the main thread and has no interest of this number, at
  least one zone is new, and the parent has an object there.
\<close>

theorem interest_counted:
  fixes ctx :: u32 and iid :: u16 and parent :: doid and asked zl :: "zone list"
  assumes rc_def: "rc = cl_next_context s"
    and op_def: "op = \<lparr>iop_interest_id = iid, iop_client_context = ctx, iop_request_context = rc, iop_parent = parent,
      iop_zones = set zl, iop_callers = {0}, iop_timer = Some False, iop_has_total = False, iop_total = 0,
      iop_generates = [], iop_datagrams = []\<rparr>"
    and "cl_state s = CLIENT_STATE_ESTABLISHED" "dg_ok dg" "dg_buf dg = add_interest_bytes ctx iid parent asked"
    and "may_open env parent s" "ce_on_main env" "length asked \<le> 16000"
    and uncovered: "set zl = {z \<in> set asked. \<nexists>n j. interests s n = Some j \<and> int_parent j = parent \<and> z \<in> int_zones j}"
    and "zl \<noteq> []" "distinct zl" "ce_zones env (set zl) = zl"
    and "interests s iid = None" "pending_interests s rc = None"
    and "\<not> cl_terminated s" "cl_channel s \<noteq> doid_channel parent"
    and "do_id ob = parent" "parent_id ob \<noteq> parent" "0 < children_in zl ob"
  shows "\<exists>q r k s1. receive_datagram env dg s = (Inr (), s1)
    \<and> s1 = s\<lparr>cl_next_context := rc + 1,
        interests := (interests s)(iid \<mapsto> \<lparr>int_id = iid, int_parent = parent, int_zones = set asked\<rparr>),
        pending_interests := (pending_interests s)(rc \<mapsto> op),
        cl_effects := cl_effects s @ map (\<lambda>z. CSubscribe (location_as_channel parent z)) zl @ [CRoute q]\<rparr>
    \<and> is_message q [doid_channel parent] (cl_channel s) STATESERVER_OBJECT_GET_ZONES_OBJECTS (request_bytes rc parent zl)
    \<and> do_handle_datagram denv (advance (start q) 9) ob = (Inr (), emit [r, k] (looked_up zl ob))
    \<and> is_message k [parent_to_children parent] (cl_channel s) STATESERVER_OBJECT_GET_ZONES_OBJECTS (request_bytes rc parent zl)
    \<and> client_handle_datagram env' (advance (start r) 9) s1
      = (Inr (), s1\<lparr>pending_interests := (pending_interests s1)(rc \<mapsto>
          op\<lparr>iop_total := children_in zl ob, iop_has_total := True\<rparr>)\<rparr>)"
proof -
  define i where i_def: "i = \<lparr>int_id = iid, int_parent = parent, int_zones = set asked\<rparr>"
  have new: "new_zones i s = set zl"
    unfolding uncovered by (auto simp: new_zones_def i_def lookup_interests_def sees_def split: option.splits)
  have "set zl \<subseteq> set asked" using uncovered by auto
  then have len: "length zl \<le> 16000"
    using distinct_card [OF assms(11)] card_length [of asked] assms(8) card_mono [of "set asked" "set zl"] by simp
  from interest_requested [OF i_def assms(3-8) new assms(10-13) assms(14) [unfolded rc_def]]
  obtain q where q: "is_message q [doid_channel parent] (cl_channel s) STATESERVER_OBJECT_GET_ZONES_OBJECTS (request_bytes rc parent zl)"
    "receive_datagram env dg s = (Inr (), waiting env i zl ctx 0 q s)" unfolding rc_def by blast
  let ?s = "waiting env i zl ctx 0 q s"
  have op: "iop_new env iid ctx rc parent (set zl) 0 = op" using assms(7) by (simp add: op_def iop_new_def)
  from parent_answers [OF q(1) assms(17,18) len, of denv] assms(19) obtain r k where
    r: "is_message r [cl_channel s] (doid_channel parent) STATESERVER_OBJECT_GET_ZONES_COUNT_RESP
      (le_bytes 4 rc @ le_bytes 4 (children_in zl ob))"
    and k: "is_message k [parent_to_children parent] (cl_channel s) STATESERVER_OBJECT_GET_ZONES_OBJECTS (request_bytes rc parent zl)"
    and h: "do_handle_datagram denv (advance (start q) 9) ob = (Inr (), emit [r, k] (looked_up zl ob))" by auto
  have n: "0 < unat (children_in zl ob)" using assms(19) by (simp add: word_greater_zero_iff unat_gt_0)
  have s: "\<not> cl_terminated ?s" "cl_channel ?s \<noteq> doid_channel parent" "pending_interests ?s rc = Some op"
    using assms(15,16) op by (simp_all add: waiting_def Let_def rc_def i_def)
  have ready: "\<not> is_ready (set_expected (children_in zl ob) op)"
    "set_expected (children_in zl ob) op = op\<lparr>iop_total := children_in zl ob, iop_has_total := True\<rparr>"
    using n by (simp_all add: is_ready_def set_expected_def op_def)
  have "client_handle_datagram env' (advance (start r) 9) ?s
      = (Inr (), ?s\<lparr>pending_interests := (pending_interests ?s)(rc \<mapsto>
          op\<lparr>iop_total := children_in zl ob, iop_has_total := True\<rparr>)\<rparr>)"
    using count_arrives [OF r s ready(1), of env'] ready(2) by simp
  moreover have "?s = s\<lparr>cl_next_context := rc + 1,
        interests := (interests s)(iid \<mapsto> \<lparr>int_id = iid, int_parent = parent, int_zones = set asked\<rparr>),
        pending_interests := (pending_interests s)(rc \<mapsto> op),
        cl_effects := cl_effects s @ map (\<lambda>z. CSubscribe (location_as_channel parent z)) zl @ [CRoute q]\<rparr>"
    using op by (simp add: waiting_def Let_def rc_def i_def)
  ultimately show ?thesis using q h k by auto
qed

section \<open>The objects arrive\<close>

text \<open>
  An object as its entry message describes it: its number, parent, zone, class, whether there are
  other fields than the required ones, and the bytes of the fields.
\<close>

type_synonym entry = "doid \<times> doid \<times> zone \<times> u16 \<times> bool \<times> bytes"

fun entry_doid :: "entry \<Rightarrow> doid" where
  "entry_doid (d, p, z, dc, other, data) = d"

fun entry_type :: "entry \<Rightarrow> u16" where
  "entry_type (d, p, z, dc, other, data) =
     (if other then STATESERVER_OBJECT_ENTER_INTEREST_WITH_REQUIRED_OTHER else STATESERVER_OBJECT_ENTER_INTEREST_WITH_REQUIRED)"

fun entry_body :: "entry \<Rightarrow> bytes" where
  "entry_body (d, p, z, dc, other, data) = le_bytes 4 d @ le_bytes 4 p @ le_bytes 4 z @ le_bytes 2 dc @ data"

fun entry_told :: "entry \<Rightarrow> bytes" where
  "entry_told (d, p, z, dc, other, data) =
     le_bytes 2 (if other then CLIENT_ENTER_OBJECT_REQUIRED_OTHER else CLIENT_ENTER_OBJECT_REQUIRED)
     @ le_bytes 4 d @ le_bytes 4 p @ le_bytes 4 z @ le_bytes 2 dc @ data"

text \<open>What the entry of one object does to the tables.\<close>

fun enter_tables :: "cenv \<Rightarrow> entry \<Rightarrow> client \<Rightarrow> client" where
  "enter_tables env (d, p, z, dc, other, data) s =
     s\<lparr>pending_objects := (pending_objects s)(d := None),
       visible_objects := (case visible_objects s d of
           None \<Rightarrow> (visible_objects s)(d \<mapsto> \<lparr>ob_class = ce_class env dc, ob_parent = p, ob_zone = z\<rparr>)
         | Some _ \<Rightarrow> visible_objects s),
       seen_objects := insert d (seen_objects s)\<rparr>"

lemma read_remainder_upcoming:
  assumes "dg_ok dg" "dg_buf dg = pre @ data" "n = length pre"
  shows "read_remainder (advance (start dg) n) = Inr (data, advance (start dg) (n + length data))"
proof -
  have len: "unat (dg_size dg) = n + length data"
    using assms unat_of_short_length [of "dg_buf dg"] by (simp add: dg_ok_def dg_size_def buf_offset_def)
  moreover have "unat (get_remaining (advance (start dg) n)) = length data"
  proof -
    have "get_remaining (advance (start dg) n) = word_of_nat (length data)"
      using len by (simp add: get_remaining_def start_def advance_def)
    moreover have "length data < 65536" using len unsigned_less [of "dg_size dg", where 'a = nat] by simp
    ultimately show ?thesis by (simp add: unsigned_of_nat take_bit_eq_mod)
  qed
  ultimately show ?thesis
    using assms(2,3) by (simp add: read_remainder_def read_data_def read_raw_def check_read_length_def start_def advance_def)
qed

lemma entrance_run:
  assumes "dg_ok dg" "dg_buf dg = pre @ entry_body (d, p, z, dc, other, data)" "length data \<le> 60000"
    "d \<notin> seen_objects s" "owned_objects s d = None \<or> d \<notin> session_objects s"
  shows "\<exists>m. is_bytes m (entry_told (d, p, z, dc, other, data))
    \<and> handle_object_entrance env (advance (start dg) (length pre)) other s
      = (Inr (), told env m (enter_tables env (d, p, z, dc, other, data) s))"
proof -
  let ?n = "length pre"
  have "upcoming (start dg) (pre @ le_bytes 4 d @ le_bytes 4 p @ le_bytes 4 z @ le_bytes 2 dc @ data)"
    using start_upcoming [OF assms(1)] assms(2) by simp
  then have up: "upcoming (advance (start dg) ?n) (le_bytes 4 d @ le_bytes 4 p @ le_bytes 4 z @ le_bytes 2 dc @ data)"
    unfolding upcoming_append [of "start dg" pre] by simp
  note r1 = read_doid_upcoming [OF up]
  note r2 = read_doid_upcoming [OF conjunct2 [OF r1]]
  note r3 = read_zone_upcoming [OF conjunct2 [OF r2]]
  note r4 = read_uint16_upcoming [OF conjunct2 [OF r3]]
  have rem: "read_remainder (advance (start dg) (14 + ?n)) = Inr (data, advance (start dg) (14 + ?n + length data))"
    by (rule read_remainder_upcoming [OF assms(1), where pre = "pre @ le_bytes 4 d @ le_bytes 4 p @ le_bytes 4 z @ le_bytes 2 dc"])
       (simp_all add: assms(2))
  let ?mt = "if other then CLIENT_ENTER_OBJECT_REQUIRED_OTHER else CLIENT_ENTER_OBJECT_REQUIRED"
  let ?body = "[add_uint16 ?mt, add_doid d, add_location p z, add_uint16 dc, add_data data]"
  have "appends (le_bytes 2 ?mt @ le_bytes 4 d @ (le_bytes 4 p @ le_bytes 4 z) @ le_bytes 2 dc @ data @ []) (add_all ?body)"
    using assms(3) by (intro appends_intros) (simp add: DGSIZE_MAX_def)
  then have "appends (entry_told (d, p, z, dc, other, data)) (add_all ?body)" by simp
  from cl_tell_told [OF this, of env "enter_tables env (d, p, z, dc, other, data) s"] assms(3) obtain m where
    m: "is_bytes m (entry_told (d, p, z, dc, other, data))" "cl_tell env ?body (enter_tables env (d, p, z, dc, other, data) s)
      = (Inr (), told env m (enter_tables env (d, p, z, dc, other, data) s))"
    by (auto simp: DGSIZE_MAX_def)
  have "handle_object_entrance env (advance (start dg) ?n) other s
      = cl_tell env ?body (enter_tables env (d, p, z, dc, other, data) s)"
    using conjunct1 [OF r1] conjunct1 [OF r2] conjunct1 [OF r3] conjunct1 [OF r4] rem assms(4,5)
    by (cases "visible_objects s d") (auto simp: handle_object_entrance_def handle_add_object_def tell_entry_def simp del: add_all.simps)
  with m show ?thesis by auto
qed

lemma skip_upcoming:
  assumes "upcoming it (bs @ rest)" "unat n = length bs"
  shows "skip_bytes n it = Inr (advance it (unat n))"
  using assms by (simp add: skip_bytes_def check_read_length_def upcoming_def advance_def)

text \<open>\<open>entered_by\<close>: the datagrams are the entries of these objects, for this request.\<close>

definition entry_message :: "channel \<Rightarrow> u32 \<Rightarrow> datagram \<Rightarrow> entry \<Rightarrow> bool" where
  "entry_message me rc q e \<longleftrightarrow>
     is_message q [me] (doid_channel (entry_doid e)) (entry_type e) (le_bytes 4 rc @ entry_body e)"

lemma generate_run:
  assumes "entry_message me rc q e" "e = (d, p, z, dc, other, data)" "length data \<le> 60000"
    "d \<notin> seen_objects s" "owned_objects s d = None \<or> d \<notin> session_objects s"
  shows "\<exists>m. is_bytes m (entry_told e)
    \<and> finish_generates env (q # qs) s = finish_generates env qs (told env m (enter_tables env e s))"
proof -
  let ?ch = "doid_channel d"
  have msg: "is_message q [me] ?ch (entry_type e) (le_bytes 4 rc @ entry_body e)"
    using assms(1,2) by (simp add: entry_message_def)
  have buf: "dg_buf q = (server_header_bytes [me] ?ch (entry_type e) @ le_bytes 4 rc) @ entry_body (d, p, z, dc, other, data)" "dg_ok q"
    using msg assms(2) by (simp_all add: is_message_def)
  note payload = message_payload [OF msg]
  have "skip_bytes 8 (advance (start q) 9) = Inr (advance (advance (start q) 9) (unat (8 :: dgsize)))"
    by (rule skip_upcoming [OF payload(2)]) simp
  then have skip: "skip_bytes 8 (advance (start q) 9) = Inr (advance (start q) 17)" by simp
  have "upcoming (advance (start q) 17) (le_bytes 2 (entry_type e) @ le_bytes 4 rc @ entry_body e)"
    using payload(2) unfolding upcoming_append [of _ "le_bytes 8 _"] by simp
  note mt = read_uint16_upcoming [OF this]
  have "skip_bytes 4 (advance (start q) 19) = Inr (advance (advance (start q) 19) (unat (4 :: dgsize)))"
    by (rule skip_upcoming [of _ "le_bytes 4 rc" "entry_body e"]) (use conjunct2 [OF mt] in simp_all)
  then have skip4: "skip_bytes 4 (advance (start q) 19) = Inr (advance (start q) 23)" by simp
  from entrance_run [OF buf(2,1) assms(3-5), of env] obtain m where
    m: "is_bytes m (entry_told e)" "handle_object_entrance env (advance (start q) 23) other s
      = (Inr (), told env m (enter_tables env e s))"
    by (auto simp: server_header_bytes_def assms(2) simp del: enter_tables.simps)
  have "(entry_type e = STATESERVER_OBJECT_ENTER_INTEREST_WITH_REQUIRED_OTHER) = other" by (simp add: assms(2))
  then have "finish_generates env (q # qs) s = finish_generates env qs (told env m (enter_tables env e s))"
    using payload(1) skip conjunct1 [OF mt] skip4 m(2) by (auto simp: sseq_apply)
  with m(1) show ?thesis by blast
qed

text \<open>An object the session does not have yet.\<close>

fun new_entry :: "client \<Rightarrow> entry \<Rightarrow> bool" where
  "new_entry s (d, p, z, dc, other, data) \<longleftrightarrow>
     length data \<le> 60000 \<and> d \<notin> seen_objects s \<and> (owned_objects s d = None \<or> d \<notin> session_objects s)"

lemma told_enter: "told env m (enter_tables env e s) = enter_tables env e (told env m s)"
  by (cases e) (simp add: told_def split: option.split)

lemma tolds_enter: "fold (told env) ms (enter_tables env e s) = enter_tables env e (fold (told env) ms s)"
  by (induction ms arbitrary: s) (simp_all add: told_enter)

lemma generates_run:
  assumes "list_all2 (entry_message me rc) qs es" "distinct (map entry_doid es)" "list_all (new_entry s) es"
  shows "\<exists>ms. list_all2 is_bytes ms (map entry_told es)
    \<and> finish_generates env qs s = (Inr (), fold (enter_tables env) es (fold (told env) ms s))"
  using assms
proof (induction qs es arbitrary: s rule: list_all2_induct)
  case (Cons q qs e es)
  obtain d p z dc other data where e: "e = (d, p, z, dc, other, data)" by (cases e)
  from Cons.prems(2) e obtain m where m: "is_bytes m (entry_told e)"
    "finish_generates env (q # qs) s = finish_generates env qs (told env m (enter_tables env e s))"
    using generate_run [OF Cons.hyps(1) e, of s env qs] by auto
  let ?s = "told env m (enter_tables env e s)"
  have "new_entry ?s e'" if "e' \<in> set es" for e'
  proof -
    have "new_entry s e'" "entry_doid e' \<noteq> d" using Cons.prems that e by (auto simp: list_all_iff)
    then show ?thesis using e by (cases e') (simp add: told_def)
  qed
  then have "list_all (new_entry ?s) es" by (simp add: list_all_iff)
  from Cons.IH [OF _ this] Cons.prems(1) obtain ms where
    ms: "list_all2 is_bytes ms (map entry_told es)"
      "finish_generates env qs ?s = (Inr (), fold (enter_tables env) es (fold (told env) ms ?s))" by auto
  have "fold (told env) ms ?s = enter_tables env e (fold (told env) ms (told env m s))"
    by (simp add: told_enter tolds_enter)
  with m ms show ?case by (intro exI [of _ "m # ms"]) (simp del: finish_generates.simps)
qed simp

text \<open>An entry arrives: it is kept, and its object is from now on one to hold datagrams back for.\<close>

lemma entry_arrives:
  assumes "entry_message me rc q e" "\<not> cl_terminated s" "cl_channel s \<noteq> doid_channel (entry_doid e)"
    "pending_interests s rc = Some op"
  shows "client_body env F (advance (start q) 9) s
    = (let s' = s\<lparr>pending_objects := [entry_doid e \<mapsto> rc] ++ pending_objects s,
                  pending_interests := (pending_interests s)(rc \<mapsto> queue_expected q op)\<rparr>
       in if is_ready (queue_expected q op) then F rc s' else (Inr (), s'))"
proof -
  obtain d p z dc other data where e: "e = (d, p, z, dc, other, data)" by (cases e)
  note p = message_payload(2) [OF assms(1) [unfolded entry_message_def]]
  note sender = read_channel_upcoming [OF p]
  note mt = read_uint16_upcoming [OF conjunct2 [OF sender]]
  note ctx = read_uint32_upcoming [OF conjunct2 [OF mt]]
  have "upcoming (advance (start q) 23) (le_bytes 4 d @ le_bytes 4 p @ le_bytes 4 z @ le_bytes 2 dc @ data)"
    using conjunct2 [OF ctx] by (simp add: e)
  note doid = read_doid_upcoming [OF this]
  note reads = conjunct1 [OF sender] conjunct1 [OF mt] conjunct1 [OF ctx] conjunct1 [OF doid]
  have "client_body env F (advance (start q) 9) s = cl_enter_interest F (advance (start q) 19) s"
    using reads(1,2) assms(2,3) by (simp add: client_body_def client_dispatch_def e)
  also have "\<dots> = sseq (emplace_pending d rc) (sseq (set_iop rc (queue_expected q op)) (swhen (is_ready (queue_expected q op)) (F rc))) s"
    using reads(3,4) assms(4) by (simp add: cl_enter_interest_def start_def)
  also have "emplace_pending d rc s = (Inr (), s\<lparr>pending_objects := [d \<mapsto> rc] ++ pending_objects s\<rparr>)"
    by (cases "pending_objects s d") (auto simp: emplace_pending_def map_add_def fun_eq_iff split: option.split intro!: client.equality)
  then have "sseq (emplace_pending d rc) (sseq (set_iop rc (queue_expected q op)) (swhen (is_ready (queue_expected q op)) (F rc))) s
      = (let s' = s\<lparr>pending_objects := [d \<mapsto> rc] ++ pending_objects s,
                  pending_interests := (pending_interests s)(rc \<mapsto> queue_expected q op)\<rparr>
         in if is_ready (queue_expected q op) then F rc s' else (Inr (), s'))"
    by (simp add: sseq_apply set_iop_def swhen_def Let_def)
  finally show ?thesis by (simp add: e)
qed

section \<open>Completion\<close>

text \<open>The director hands over datagrams one by one.\<close>

fun handle_all :: "cenv \<Rightarrow> datagram list \<Rightarrow> unit cl_op" where
  "handle_all env [] = sret ()"
| "handle_all env (q # qs) =
     sseq (sbind (slift (rbind (dgi_new q 0) seek_payload)) (client_handle_datagram env)) (handle_all env qs)"

definition awaiting :: "u32 \<Rightarrow> entry list \<Rightarrow> (doid \<rightharpoonup> u32) \<Rightarrow> (doid \<rightharpoonup> u32)" where
  "awaiting rc es m = fold (\<lambda>e m. [entry_doid e \<mapsto> rc] ++ m) es m"

definition waiting_for :: "u32 \<Rightarrow> iop \<Rightarrow> entry list \<Rightarrow> datagram list \<Rightarrow> client \<Rightarrow> client" where
  "waiting_for rc op es qs s = s\<lparr>pending_objects := awaiting rc es (pending_objects s),
     pending_interests := (pending_interests s)(rc \<mapsto> op\<lparr>iop_generates := iop_generates op @ qs\<rparr>)\<rparr>"

lemma one_waits:
  assumes "entry_message me rc q e" "\<not> cl_terminated s" "cl_channel s \<noteq> doid_channel (entry_doid e)"
    "pending_interests s rc = Some op" "iop_has_total op" "Suc (length (iop_generates op)) < unat (iop_total op)"
  shows "handle_all env (q # qs) s = handle_all env qs (waiting_for rc op [e] [q] s)"
proof -
  note e = entry_arrives [OF assms(1-4), of env "\<lambda>ctx. iop_finish env (client_handle 1 env) ctx False"]
  have "client_handle_datagram env (advance (start q) 9) s = (Inr (), waiting_for rc op [e] [q] s)"
    using assms(5,6) unfolding client_handle_datagram_def numeral_2_eq_2 client_handle.simps(2) One_nat_def [symmetric] e
    by (simp add: Let_def is_ready_def queue_expected_def waiting_for_def awaiting_def)
  with message_payload(1) [OF assms(1) [unfolded entry_message_def]] show ?thesis
    by (simp add: sseq_apply sbind_apply)
qed

lemma entries_wait:
  assumes "list_all2 (entry_message me rc) qs es" "\<not> cl_terminated s" "\<forall>e\<in>set es. cl_channel s \<noteq> doid_channel (entry_doid e)"
    "pending_interests s rc = Some op" "iop_has_total op" "length (iop_generates op) + length qs < unat (iop_total op)"
  shows "handle_all env (qs @ rest) s = handle_all env rest (waiting_for rc op es qs s)"
  using assms
proof (induction qs es arbitrary: s op rule: list_all2_induct)
  case Nil
  then have "waiting_for rc op [] [] s = s" by (auto simp: waiting_for_def awaiting_def intro!: client.equality)
  then show ?case by simp
next
  case (Cons q qs e es)
  let ?op = "op\<lparr>iop_generates := iop_generates op @ [q]\<rparr>" and ?s = "waiting_for rc op [e] [q] s"
  have "handle_all env (q # qs @ rest) s = handle_all env (qs @ rest) ?s"
    using Cons.prems Cons.hyps(1) by (intro one_waits) auto
  also have "\<dots> = handle_all env rest (waiting_for rc ?op es qs ?s)"
    using Cons.prems by (intro Cons.IH) (simp_all add: waiting_for_def)
  also have "waiting_for rc ?op es qs ?s = waiting_for rc op (e # es) (q # qs) s"
    by (simp add: waiting_for_def awaiting_def)
  finally show ?case by simp
qed

text \<open>What the tables hold when all have entered.\<close>

lemma fold_enter_tables:
  "seen_objects (fold (enter_tables env) es s) = seen_objects s \<union> set (map entry_doid es)"
  "pending_interests (fold (enter_tables env) es s) = pending_interests s"
  "cl_effects (fold (enter_tables env) es s) = cl_effects s" "cl_channel (fold (enter_tables env) es s) = cl_channel s"
  "pending_objects (fold (enter_tables env) es s) = pending_objects s |` (- set (map entry_doid es))"
proof (induction es arbitrary: s)
  case (Cons e es)
  { case 1 show ?case by (cases e) (auto simp: Cons) }
  { case 2 show ?case by (cases e) (auto simp: Cons) }
  { case 3 show ?case by (cases e) (auto simp: Cons) }
  { case 4 show ?case by (cases e) (auto simp: Cons) }
  { case 5 show ?case by (cases e) (auto simp: Cons restrict_map_def fun_eq_iff) }
qed (simp_all add: restrict_map_def)

lemma fold_told:
  "seen_objects (fold (told env) ms s) = seen_objects s" "pending_interests (fold (told env) ms s) = pending_interests s"
  "cl_effects (fold (told env) ms s) = cl_effects s @ map ToClient ms" "cl_channel (fold (told env) ms s) = cl_channel s"
  "pending_objects (fold (told env) ms s) = pending_objects s"
  by (induction ms arbitrary: s) (simp_all add: told_def)

lemma awaiting_outside: "d \<notin> set (map entry_doid es) \<Longrightarrow> awaiting rc es m d = m d"
  unfolding awaiting_def by (induction es arbitrary: m) (auto simp: map_add_def split: option.split)

definition done_resp_bytes :: "channel \<Rightarrow> u16 \<Rightarrow> bytes" where
  "done_resp_bytes me iid = le_bytes 8 me @ le_bytes 2 iid"

definition done_told :: "u32 \<Rightarrow> u16 \<Rightarrow> bytes" where
  "done_told ctx iid = le_bytes 2 CLIENT_DONE_INTEREST_RESP @ le_bytes 4 ctx @ le_bytes 2 iid"

lemma notify_run:
  assumes "iop_callers op \<noteq> {}" "length (ce_chans env (iop_callers op)) \<le> 200"
  shows "\<exists>r. is_message r (ce_chans env (iop_callers op)) (cl_channel s) CLIENTAGENT_DONE_INTEREST_RESP
      (done_resp_bytes (cl_channel s) (iop_interest_id op))
    \<and> notify_iop_done env op s = (Inr (), s\<lparr>cl_effects := cl_effects s @ [CRoute r]\<rparr>)"
proof -
  let ?cs = "ce_chans env (iop_callers op)" and ?me = "cl_channel s"
  have "appends (server_header_bytes ?cs ?me CLIENTAGENT_DONE_INTEREST_RESP @ (le_bytes 8 ?me @ le_bytes 2 (iop_interest_id op) @ []))
      (\<lambda>dg. rbind (add_server_header_set ?cs ?me CLIENTAGENT_DONE_INTEREST_RESP dg) (add_all [add_channel ?me, add_uint16 (iop_interest_id op)]))"
    by (rule appends_seq [OF appends_add_server_header_set]) (intro appends_intros)
  from appends_dg_create [OF this] assms show ?thesis
    by (auto simp: notify_iop_done_def dg_create_server_set_def is_message_def done_resp_bytes_def DGSIZE_MAX_def simp del: add_all.simps)
qed

lemma interest_done_run:
  "\<exists>m. is_bytes m (done_told ctx iid) \<and> handle_interest_done env iid ctx s = (Inr (), told env m s)"
proof -
  have "appends (le_bytes 2 CLIENT_DONE_INTEREST_RESP @ le_bytes 4 ctx @ le_bytes 2 iid @ [])
      (add_all [add_uint16 CLIENT_DONE_INTEREST_RESP, add_uint32 ctx, add_uint16 iid])"
    by (intro appends_intros)
  then have "appends (done_told ctx iid) (add_all [add_uint16 CLIENT_DONE_INTEREST_RESP, add_uint32 ctx, add_uint16 iid])"
    by (simp add: done_told_def)
  from cl_tell_told [OF this, of env s] show ?thesis
    unfolding handle_interest_done_def by (auto simp: done_told_def DGSIZE_MAX_def)
qed

lemma finish_run:
  assumes "pending_interests s rc = Some op" "iop_request_context op = rc" "iop_timer op = Some False" "iop_datagrams op = []"
    "list_all2 (entry_message me rc) (iop_generates op) es" "distinct (map entry_doid es)" "list_all (new_entry s) es"
    "iop_callers op \<noteq> {}" "length (ce_chans env (iop_callers op)) \<le> 200"
  shows "\<exists>ms r m s'. iop_finish env h rc False s = (Inr (), s')
    \<and> list_all2 is_bytes ms (map entry_told es)
    \<and> is_message r (ce_chans env (iop_callers op)) (cl_channel s) CLIENTAGENT_DONE_INTEREST_RESP
        (done_resp_bytes (cl_channel s) (iop_interest_id op))
    \<and> is_bytes m (done_told (iop_client_context op) (iop_interest_id op))
    \<and> cl_effects s' = cl_effects s @ map ToClient ms @ [CRoute r, ToClient m]
    \<and> pending_interests s' = (pending_interests s)(rc := None)
    \<and> seen_objects s' = seen_objects s \<union> set (map entry_doid es)
    \<and> pending_objects s' = pending_objects s |` (- set (map entry_doid es))"
proof -
  let ?op = "op\<lparr>iop_timer := None\<rparr>" and ?s = "s\<lparr>pending_interests := (pending_interests s)(rc \<mapsto> op\<lparr>iop_timer := None\<rparr>)\<rparr>"
  have "list_all (new_entry ?s) es" using assms(7) by (auto simp: list_all_iff)
  from generates_run [OF assms(5,6) this, of env] obtain ms where
    ms: "list_all2 is_bytes ms (map entry_told es)"
      "finish_generates env (iop_generates op) ?s = (Inr (), fold (enter_tables env) es (fold (told env) ms ?s))" by blast
  let ?s1 = "fold (enter_tables env) es (fold (told env) ms ?s)"
  have ch: "cl_channel ?s1 = cl_channel s" by (simp add: fold_enter_tables fold_told)
  obtain r where r: "is_message r (ce_chans env (iop_callers op)) (cl_channel s) CLIENTAGENT_DONE_INTEREST_RESP
      (done_resp_bytes (cl_channel s) (iop_interest_id op))"
    "notify_iop_done env ?op ?s1 = (Inr (), ?s1\<lparr>cl_effects := cl_effects ?s1 @ [CRoute r]\<rparr>)"
    using notify_run [of ?op env ?s1] assms(8,9) ch by auto
  let ?s2 = "?s1\<lparr>cl_effects := cl_effects ?s1 @ [CRoute r]\<rparr>"
  obtain m where m: "is_bytes m (done_told (iop_client_context op) (iop_interest_id op))"
    "handle_interest_done env (iop_interest_id op) (iop_client_context op) ?s2 = (Inr (), told env m ?s2)"
    using interest_done_run by blast
  let ?s3 = "told env m ?s2"
  let ?s' = "?s3\<lparr>pending_interests := (pending_interests ?s3)(rc := None)\<rparr>"
  have "iop_finish env h rc False s = (Inr (), ?s')"
    using assms(1-4) ms(2) r(2) m(2)
    by (simp add: iop_finish_def timeout_cancel_def set_iop_def iop_complete_def sseq_apply)
  moreover have "cl_effects ?s' = cl_effects s @ map ToClient ms @ [CRoute r, ToClient m]"
    by (simp add: told_def fold_enter_tables fold_told)
  moreover have "pending_interests ?s' = (pending_interests s)(rc := None)"
    by (simp add: told_def fold_enter_tables fold_told)
  moreover have "seen_objects ?s' = seen_objects s \<union> set (map entry_doid es)"
    by (simp add: told_def fold_enter_tables fold_told)
  moreover have "pending_objects ?s' = pending_objects s |` (- set (map entry_doid es))"
    by (simp add: told_def fold_enter_tables fold_told)
  ultimately show ?thesis using ms(1) r(1) m(1) by blast
qed

text \<open>
  C18: An interest operation that knows its total, holds nothing back and whose timer has not
  fired receives its entries, in any number and sizes, for objects the session does not have. With
  the last of them it completes: the client is told of every object, byte for byte and in the order
  of arrival, then that the interest is open, and the callers are told in between; the
  objects are seen and no longer pending, and the operation is gone.
\<close>

theorem interest_completes:
  assumes "pending_interests s rc = Some op" "iop_request_context op = rc" "iop_timer op = Some False" "iop_datagrams op = []"
    "iop_has_total op" "unat (iop_total op) = length es" "es \<noteq> []" "iop_generates op = []"
    and "list_all2 (entry_message me rc) qs es" "distinct (map entry_doid es)" "list_all (new_entry s) es"
    and "\<not> cl_terminated s" "\<forall>e\<in>set es. cl_channel s \<noteq> doid_channel (entry_doid e)"
    and "iop_callers op \<noteq> {}" "length (ce_chans env (iop_callers op)) \<le> 200"
  shows "\<exists>ms r m s'. handle_all env qs s = (Inr (), s')
    \<and> list_all2 is_bytes ms (map entry_told es)
    \<and> is_message r (ce_chans env (iop_callers op)) (cl_channel s) CLIENTAGENT_DONE_INTEREST_RESP
        (done_resp_bytes (cl_channel s) (iop_interest_id op))
    \<and> is_bytes m (done_told (iop_client_context op) (iop_interest_id op))
    \<and> cl_effects s' = cl_effects s @ map ToClient ms @ [CRoute r, ToClient m]
    \<and> pending_interests s' = (pending_interests s)(rc := None)
    \<and> seen_objects s' = seen_objects s \<union> entry_doid ` set es
    \<and> (\<forall>d. pending_objects s' d = (if d \<in> entry_doid ` set es then None else pending_objects s d))"
proof -
  obtain es0 e where es: "es = es0 @ [e]" using assms(7) by (metis rev_exhaust)
  obtain qs0 q where qs: "qs = qs0 @ [q]" "list_all2 (entry_message me rc) qs0 es0" "entry_message me rc q e"
    using assms(9) unfolding es by (auto simp: list_all2_append2 list_all2_Cons2)
  let ?op0 = "op\<lparr>iop_generates := qs0\<rparr>" and ?s0 = "waiting_for rc op es0 qs0 s"
  have "length qs0 < unat (iop_total op)" using list_all2_lengthD [OF qs(2)] assms(6) by (simp add: es)
  then have "handle_all env qs s = handle_all env [q] ?s0"
    unfolding qs(1) using entries_wait [OF qs(2), of s op env "[q]"] assms es by simp
  also have "\<dots> = client_handle_datagram env (advance (start q) 9) ?s0"
    using message_payload(1) [OF qs(3) [unfolded entry_message_def]]
    by (cases "client_handle_datagram env (advance (start q) 9) ?s0") (simp add: sseq_apply sbind_apply split: sum.split)
  also have "\<dots> = iop_finish env (client_handle 1 env) rc False (waiting_for rc op es qs s)"
  proof -
    have "pending_interests ?s0 rc = Some ?op0" by (simp add: waiting_for_def assms(8))
    note a = entry_arrives [OF qs(3) _ _ this, of env "\<lambda>ctx. iop_finish env (client_handle 1 env) ctx False"]
    have "is_ready (queue_expected q ?op0)"
      using list_all2_lengthD [OF qs(2)] assms(5,6) by (simp add: is_ready_def queue_expected_def es)
    then show ?thesis
      using a assms(12,13) es unfolding client_handle_datagram_def numeral_2_eq_2 client_handle.simps(2) One_nat_def [symmetric]
      by (simp add: Let_def queue_expected_def waiting_for_def awaiting_def qs(1) assms(8))
  qed
  finally have run: "handle_all env qs s = iop_finish env (client_handle 1 env) rc False (waiting_for rc op es qs s)" .
  let ?s1 = "waiting_for rc op es qs s" and ?op1 = "op\<lparr>iop_generates := qs\<rparr>"
  have s1: "pending_interests ?s1 rc = Some ?op1" "list_all (new_entry ?s1) es" "cl_channel ?s1 = cl_channel s"
    "cl_effects ?s1 = cl_effects s" "seen_objects ?s1 = seen_objects s"
    "(pending_interests ?s1)(rc := None) = (pending_interests s)(rc := None)"
    using assms(8,11) by (auto simp: waiting_for_def list_all_iff)
  have po: "(pending_objects ?s1 |` (- set (map entry_doid es))) d = (if d \<in> entry_doid ` set es then None else pending_objects s d)" for d
    using awaiting_outside [of d es rc "pending_objects s"] by (auto simp: waiting_for_def restrict_map_def)
  have "\<exists>ms r m s'. iop_finish env (client_handle 1 env) rc False ?s1 = (Inr (), s')
    \<and> list_all2 is_bytes ms (map entry_told es)
    \<and> is_message r (ce_chans env (iop_callers op)) (cl_channel s) CLIENTAGENT_DONE_INTEREST_RESP
        (done_resp_bytes (cl_channel s) (iop_interest_id op))
    \<and> is_bytes m (done_told (iop_client_context op) (iop_interest_id op))
    \<and> cl_effects s' = cl_effects s @ map ToClient ms @ [CRoute r, ToClient m]
    \<and> pending_interests s' = (pending_interests s)(rc := None)
    \<and> seen_objects s' = seen_objects s \<union> entry_doid ` set es
    \<and> pending_objects s' = pending_objects ?s1 |` (- set (map entry_doid es))"
    using finish_run [OF s1(1) _ _ _ _ assms(10) s1(2), of me env "client_handle 1 env"] assms s1(3-6) by simp
  with po show ?thesis unfolding run by metis
qed

section \<open>Instances\<close>

definition demo_ask :: datagram where
  "demo_ask = dg_create_data (add_interest_bytes 5 9 900 [3, 4])"

text \<open>The session already has an interest in zone 3 of the parent.\<close>

definition demo_covered :: client where
  "demo_covered = demo_session\<lparr>interests := [7 \<mapsto> \<lparr>int_id = 7, int_parent = 900, int_zones = {3}\<rparr>]\<rparr>"

definition demo_zones_parent :: dobj where
  "demo_zones_parent = (dobj_new 900 demo_send_class True)\<lparr>zone_objects := [3 \<mapsto> {100}, 4 \<mapsto> {200}]\<rparr>"

lemma demo_ask_ok: "dg_ok demo_ask" "dg_buf demo_ask = add_interest_bytes 5 9 900 [3, 4]"
  by (simp_all add: demo_ask_def dg_create_data_def dg_ok_def buf_offset_def DGSIZE_MAX_def add_interest_bytes_def)

lemma demo_ask_session:
  "may_open demo_cenv 900 demo_covered" "ce_on_main demo_cenv" "ce_zones demo_cenv (set [4]) = [4]"
  "set [4] = {z \<in> set [3, 4]. \<nexists>n j. interests demo_covered n = Some j \<and> int_parent j = 900 \<and> z \<in> int_zones j}"
  "interests demo_covered 9 = None" "pending_interests demo_covered 1 = None" "\<not> cl_terminated demo_covered"
  "cl_channel demo_covered \<noteq> doid_channel 900" "1 = cl_next_context demo_covered" "cl_state demo_covered = CLIENT_STATE_ESTABLISHED"
  "cl_channel demo_covered = 1000"
  by (auto simp: may_open_def demo_cenv_def demo_covered_def demo_session_def demo_client_def client_blank_def)

lemma demo_children: "children_in [4] demo_zones_parent = 1" "do_id demo_zones_parent = 900" "parent_id demo_zones_parent \<noteq> 900"
  by (simp_all add: children_in_def demo_zones_parent_def dobj_new_def zone_children_def)

theorem interest_counted_witness:
  "\<exists>q r k s1. receive_datagram demo_cenv demo_ask demo_covered = (Inr (), s1)
    \<and> cl_effects s1 = cl_effects demo_covered @ [CSubscribe (location_as_channel 900 4), CRoute q]
    \<and> is_message q [doid_channel 900] 1000 STATESERVER_OBJECT_GET_ZONES_OBJECTS (request_bytes 1 900 [4])
    \<and> do_handle_datagram \<lparr>target_order = sorted_list_of_set, zone_order = sorted_list_of_set, objs_order = sorted_list_of_set\<rparr>
        (advance (start q) 9) demo_zones_parent = (Inr (), emit [r, k] (looked_up [4] demo_zones_parent))"
proof -
  have c: "0 < children_in [4] demo_zones_parent" by (simp add: demo_children(1))
  from interest_counted [OF demo_ask_session(9) refl demo_ask_session(10) demo_ask_ok demo_ask_session(1,2) _
      demo_ask_session(4) _ _ demo_ask_session(3,5-8) demo_children(2,3) c, of
      "\<lparr>target_order = sorted_list_of_set, zone_order = sorted_list_of_set, objs_order = sorted_list_of_set\<rparr>" demo_cenv]
  show ?thesis unfolding demo_ask_session(11) by fastforce
qed

definition demo_op :: iop where
  "demo_op = (iop_new demo_cenv 9 5 1 900 {3} 0)\<lparr>iop_total := 1, iop_has_total := True\<rparr>"

definition demo_expecting :: client where
  "demo_expecting = demo_session\<lparr>pending_interests := [1 \<mapsto> demo_op]\<rparr>"

definition demo_entry :: datagram where
  "demo_entry = dg_create_data (server_header_bytes [1000] (doid_channel 200) STATESERVER_OBJECT_ENTER_INTEREST_WITH_REQUIRED
     @ le_bytes 4 (1 :: u32) @ entry_body (200, 900, 3, 0, False, [7]))"

lemma demo_entry_message: "entry_message 1000 1 demo_entry (200, 900, 3, 0, False, [7])"
  by (simp add: entry_message_def is_message_def demo_entry_def dg_create_data_def dg_ok_def buf_offset_def DGSIZE_MAX_def
      server_header_bytes_def)

lemma demo_expecting_simps:
  "pending_interests demo_expecting 1 = Some demo_op" "iop_request_context demo_op = 1" "iop_timer demo_op = Some False"
  "iop_datagrams demo_op = []" "iop_has_total demo_op" "unat (iop_total demo_op) = 1" "iop_generates demo_op = []"
  "iop_callers demo_op = {0}" "ce_chans demo_cenv {0} = [0]" "\<not> cl_terminated demo_expecting" "cl_channel demo_expecting = 1000"
  "seen_objects demo_expecting = {}" "owned_objects demo_expecting = Map.empty"
  by (simp_all add: demo_expecting_def demo_op_def iop_new_def demo_cenv_def demo_session_def demo_client_def client_blank_def)

theorem interest_completes_witness:
  "\<exists>s'. handle_all demo_cenv [demo_entry] demo_expecting = (Inr (), s') \<and> seen_objects s' = {200}
    \<and> pending_interests s' 1 = None"
  using interest_completes [OF demo_expecting_simps(1-5) _ _ demo_expecting_simps(7), of "[(200, 900, 3, 0, False, [7])]" 1000 "[demo_entry]" demo_cenv]
    demo_entry_message demo_expecting_simps
  by auto

end
