(* ===== verification/Default_Values.thy ===== *)
theory Default_Values
  imports Field_Laws
begin

text \<open>
  \<open>dclass/value/default.cpp\<close> and the constructors and setters of \<open>Field.cpp\<close> and
  \<open>Parameter.cpp\<close>: the packed value a field has until one is given.
\<close>

section \<open>Implicit default values\<close>

definition zero_bytes :: "nat \<Rightarrow> bytes" where
  "zero_bytes n = replicate n 0"

text \<open>
  \<open>create_default_value\<close>: the packed value and \<open>is_implicit\<close>. A fixed array gets one zero byte for
  every element; a variable one a length of as many bytes as it has elements at least.
\<close>

definition create_default_value :: "dtype \<Rightarrow> bytes \<times> bool" where
  "create_default_value t =
     (case t of
        TInvalid \<Rightarrow> ([], True)
      | TNumeric nt \<Rightarrow>
          (case numeric_size (nt_type nt) of None \<Rightarrow> ([], True) | Some n \<Rightarrow> (zero_bytes (unat n), True))
      | TArray tag sz e n r al \<Rightarrow>
          if tag = T_ARRAY \<or> tag = T_BLOB \<or> tag = T_STRING
          then (zero_bytes (unat (ucast (num_bits (nr_min r)) :: u32)), True)
          else if tag = T_VARARRAY \<or> tag = T_VARBLOB \<or> tag = T_VARSTRING
          then let len = ucast (num_bits (nr_min r)) :: dgsize
               in (le_bytes 2 len @ zero_bytes (unat len), True)
          else ([], True)
      | TStruct sz fs c sn sc \<Rightarrow> (concat (map field_default fs), \<not> list_ex field_has_default fs)
      | TMethod sz ps c \<Rightarrow> (concat (map param_default ps), \<not> list_ex param_has_default ps))"

section \<open>Fields and parameters\<close>

text \<open>\<open>Field::Field\<close> and \<open>Parameter::Parameter\<close>; \<open>None\<close> is the null pointer.\<close>

definition field_new :: "dtype option \<Rightarrow> string \<Rightarrow> field" where
  "field_new to name =
     (case to of
        None \<Rightarrow> Field 0 name [] TInvalid [] False False
      | Some t \<Rightarrow> (case create_default_value t of (v, implicit) \<Rightarrow> Field 0 name [] t v (\<not> implicit) False))"

definition field_set_type :: "dtype \<Rightarrow> field \<Rightarrow> field" where
  "field_set_type t f =
     (case f of Field i nm kws _ _ _ m \<Rightarrow> Field i nm kws t (fst (create_default_value t)) False m)"

definition field_set_default_value :: "bytes \<Rightarrow> field \<Rightarrow> bool \<times> field" where
  "field_set_default_value v f =
     (case f of Field i nm kws t d h m \<Rightarrow> if m then (False, f) else (True, Field i nm kws t v True m))"

definition field_add_keyword :: "string \<Rightarrow> field \<Rightarrow> bool \<times> field" where
  "field_add_keyword kw f =
     (case f of Field i nm kws t d h m \<Rightarrow>
       (case add_keyword kw kws of (inserted, kws') \<Rightarrow> (inserted, Field i nm kws' t d h m)))"

definition param_new :: "dtype \<Rightarrow> string \<Rightarrow> param" where
  "param_new t name = (case create_default_value t of (v, implicit) \<Rightarrow> Param name t v (\<not> implicit))"

definition param_set_type :: "dtype option \<Rightarrow> param \<Rightarrow> bool \<times> param" where
  "param_set_type to p =
     (case to of
        None \<Rightarrow> (False, p)
      | Some t \<Rightarrow>
          if get_type t = T_METHOD then (False, p)
          else if get_type t = T_STRUCT \<and> (case t of TStruct _ _ _ _ sc \<Rightarrow> sc \<noteq> None | _ \<Rightarrow> False) then (False, p)
          else (case p of Param nm _ _ _ \<Rightarrow> (True, Param nm t (fst (create_default_value t)) False)))"

definition param_set_default_value :: "bytes \<Rightarrow> param \<Rightarrow> bool \<times> param" where
  "param_set_default_value v p = (case p of Param nm t _ _ \<Rightarrow> (True, Param nm t v True))"

section \<open>Values of a type\<close>

text \<open>
  \<open>bs\<close> is a value of type \<open>t\<close> when unpacking \<open>t\<close> where \<open>bs\<close> comes next takes exactly \<open>bs\<close>.
\<close>

definition has_type :: "dtype \<Rightarrow> bytes \<Rightarrow> bool" where
  "has_type t bs \<longleftrightarrow> (\<forall>it rest. upcoming it (bs @ rest) \<longrightarrow> unpack_dtype t it = Inr (bs, advance it (length bs)))"

text \<open>
  The types whose implicit default is a value of the type: numbers whose range allows 0, fixed
  arrays of one-byte numbers, variable arrays of them, other variable arrays that may be empty,
  structs and methods with members of that kind.
\<close>

fun is_numeric :: "dtype \<Rightarrow> bool" where
  "is_numeric (TNumeric nt) = True"
| "is_numeric _ = False"

fun defaults_fit :: "dtype \<Rightarrow> bool"
and defaults_fit_fields :: "field list \<Rightarrow> bool"
and defaults_fit_params :: "param list \<Rightarrow> bool" where
  "defaults_fit TInvalid = True"
| "defaults_fit (TNumeric nt) = (numeric_has_range nt \<longrightarrow> numeric_within_range nt (zero_bytes (unat (nt_size nt))))"
| "defaults_fit (TArray tag sz e n r al) =
     (if sz \<noteq> 0 then get_size e = 1 \<and> is_numeric e \<and> defaults_fit e \<and> ucast (num_bits (nr_min r)) = n
      else n = 0 \<and> num_bits (nr_min r) \<le> num_bits (nr_max r)
         \<and> (if tag = T_VARARRAY then num_bits (nr_min r) = 0 else unat (num_bits (nr_min r)) < 65536))"
| "defaults_fit (TStruct sz fs c sn sc) = defaults_fit_fields fs"
| "defaults_fit (TMethod sz ps c) = defaults_fit_params ps"
| "defaults_fit_fields [] = True"
| "defaults_fit_fields (Field i nm kws t d dflt m # fs) =
     (defaults_fit t \<and> d = fst (create_default_value t) \<and> defaults_fit_fields fs)"
| "defaults_fit_params [] = True"
| "defaults_fit_params (Param nm t d pd # ps) =
     (defaults_fit t \<and> d = fst (create_default_value t) \<and> defaults_fit_params ps)"

lemma length_zero_bytes [simp]: "length (zero_bytes n) = n"
  by (simp add: zero_bytes_def)

lemma string_ok_zero [simp]: "string_ok (zero_bytes n)"
  by (simp add: string_ok_def zero_bytes_def list_ex_iff)

lemma read_fixed_upcoming:
  assumes "upcoming it (bs @ rest)" "length bs = unat (get_size t)"
    and "\<And>nt. t = TNumeric nt \<Longrightarrow> numeric_has_range nt \<Longrightarrow> numeric_within_range nt bs"
    and "get_type t = T_STRING \<Longrightarrow> string_ok bs"
  shows "read_fixed_value t it = Inr (bs, advance it (length bs))"
proof -
  have "upcoming it bs" using assms(1) by (simp add: upcoming_append)
  with assms(2) have "read_data (get_size t) it = Inr (bs, advance it (length bs))"
    by (simp add: read_data_def read_raw_upcoming)
  with assms(3,4) show ?thesis by (cases t) (auto simp: read_fixed_value_def)
qed

lemma unpack_times_zeros:
  assumes "has_type e (zero_bytes 1)" "upcoming it (zero_bytes n @ rest)"
  shows "unpack_times n (unpack_dtype e) it = Inr (zero_bytes n, advance it n)"
  using assms(2)
proof (induction n arbitrary: it)
  case 0
  then show ?case by (simp add: zero_bytes_def)
next
  case (Suc n)
  have split: "zero_bytes (Suc n) = zero_bytes 1 @ zero_bytes n" by (simp add: zero_bytes_def)
  with Suc.prems have up: "upcoming it (zero_bytes 1 @ zero_bytes n @ rest)" by simp
  then have "unpack_dtype e it = Inr (zero_bytes 1, advance it 1)" using assms(1) unfolding has_type_def by fastforce
  moreover have "upcoming (advance it 1) (zero_bytes n @ rest)" using up by (simp add: upcoming_append)
  ultimately show ?case using Suc.IH by (simp add: split)
qed

lemma fixed_array_size:
  assumes "wf_type (TArray tag sz e n r al)" "sz \<noteq> 0" "get_size e = 1"
  shows "unat sz = unat n" "tag = T_STRING \<or> tag = T_BLOB \<or> tag = T_ARRAY"
proof -
  have shape: "array_shape tag sz e n" and e: "wf_type e" and fits: "fits (byte_size (TArray tag sz e n r al))"
    using assms(1) by simp_all
  have fixed: "has_fixed_size e" "n > 0"
    using shape assms(2) by (auto simp: array_shape_def split: if_splits)
  have "byte_size e = Some 1" using wf_size_agrees(1) [OF e] assms(3) by (simp add: size_agrees_def)
  with fits fixed have "unat n \<le> 65535" by (simp add: fits_def DGSIZE_MAX_def)
  moreover have "sz = ucast n" using shape fixed assms(3) by (simp add: array_shape_def)
  ultimately show "unat sz = unat n" by (simp add: unsigned_ucast_eq take_bit_nat_eq_self)
  show "tag = T_STRING \<or> tag = T_BLOB \<or> tag = T_ARRAY"
    using shape fixed by (auto simp: array_shape_def split: if_splits)
qed

lemma numeric_default: "wf_type (TNumeric nt) \<Longrightarrow> fst (create_default_value (TNumeric nt)) = zero_bytes (unat (nt_size nt))"
  by (simp add: create_default_value_def)

lemma numeric_size_pos: "numeric_size t = Some n \<Longrightarrow> n \<noteq> 0"
  by (cases t) auto

text \<open>The two shapes of arrays.\<close>

lemma default_fixed_array:
  assumes wf: "wf_type (TArray tag sz e n r al)" and sz: "sz \<noteq> 0"
    and fit: "get_size e = 1" "is_numeric e" "ucast (num_bits (nr_min r)) = n"
    and elem: "has_type e (fst (create_default_value e))"
  shows "has_type (TArray tag sz e n r al) (fst (create_default_value (TArray tag sz e n r al)))"
proof -
  note size = fixed_array_size [OF wf sz fit(1)]
  have def: "fst (create_default_value (TArray tag sz e n r al)) = zero_bytes (unat n)"
    using size(2) fit(3) by (auto simp: create_default_value_def)
  obtain nt where nt: "e = TNumeric nt" using fit(2) by (cases e) auto
  with wf fit(1) have one: "has_type e (zero_bytes 1)" using elem numeric_default [of nt] by simp
  show ?thesis
    unfolding has_type_def def
  proof (intro allI impI)
    fix it rest assume up: "upcoming it (zero_bytes (unat n) @ rest)"
    have "read_fixed_value (TArray tag sz e n r al) it = Inr (zero_bytes (unat n), advance it (unat n))"
      using read_fixed_upcoming [OF up, of "TArray tag sz e n r al"] size(1) by simp
    with unpack_times_zeros [OF one up] sz
    show "unpack_dtype (TArray tag sz e n r al) it = Inr (zero_bytes (unat n), advance it (length (zero_bytes (unat n))))"
      by simp
  qed
qed

lemma default_variable_array:
  assumes wf: "wf_type (TArray tag 0 e n r al)" and n: "n = 0" "num_bits (nr_min r) \<le> num_bits (nr_max r)"
    and least: "if tag = T_VARARRAY then num_bits (nr_min r) = 0 else unat (num_bits (nr_min r)) < 65536"
  shows "has_type (TArray tag 0 e n r al) (fst (create_default_value (TArray tag 0 e n r al)))"
proof -
  let ?len = "ucast (num_bits (nr_min r)) :: dgsize"
  have tag: "tag = T_VARSTRING \<or> tag = T_VARBLOB \<or> tag = T_VARARRAY"
    using wf n(1) by (auto simp: array_shape_def split: if_splits)
  have small: "unat (num_bits (nr_min r)) < 65536" using least by (auto split: if_splits)
  then have len: "unat ?len = unat (num_bits (nr_min r))" by (simp add: unsigned_ucast_eq take_bit_nat_eq_self)
  then have same: "word_of_nat (unat ?len) = num_bits (nr_min r)" by simp
  have def: "fst (create_default_value (TArray tag 0 e n r al)) = le_bytes 2 ?len @ zero_bytes (unat ?len)"
    using tag by (auto simp: create_default_value_def Let_def)
  show ?thesis
    unfolding has_type_def def
  proof (intro allI impI)
    fix it rest assume "upcoming it ((le_bytes 2 ?len @ zero_bytes (unat ?len)) @ rest)"
    then have up: "upcoming it (le_bytes 2 ?len)" "upcoming (advance it 2) (zero_bytes (unat ?len))"
      by (simp_all add: upcoming_append)
    from sizec.rd_upcoming [OF TrueI up(1)] have size: "read_size it = Inr (?len, advance it 2)" by simp
    from read_raw_upcoming [OF up(2), of ?len] have data: "read_data ?len (advance it 2) = Inr (zero_bytes (unat ?len), advance it (2 + unat ?len))"
      by (simp add: read_data_def)
    have in_range: "array_within_range (TArray tag 0 e n r al) (word_of_nat (unat ?len))"
      using n unfolding same by simp
    show "unpack_dtype (TArray tag 0 e n r al) it
      = Inr (le_bytes 2 ?len @ zero_bytes (unat ?len), advance it (length (le_bytes 2 ?len @ zero_bytes (unat ?len))))"
    proof (cases "tag = T_VARARRAY")
      case True
      with least have zero: "num_bits (nr_min r) = 0" by simp
      with size have "read_size it = Inr (0, advance it 2)" by simp
      with True zero n(1) show ?thesis by (simp add: zero_bytes_def)
    next
      case False
      with tag size data in_range show ?thesis by auto
    qed
  qed
qed

lemma defaults_typed:
  "wf_type t \<Longrightarrow> defaults_fit t \<Longrightarrow> has_type t (fst (create_default_value t))"
  "wf_fields fs \<Longrightarrow> defaults_fit_fields fs \<Longrightarrow> upcoming it (concat (map field_default fs) @ rest) \<Longrightarrow>
    unpack_fields fs it = Inr (concat (map field_default fs), advance it (length (concat (map field_default fs))))"
  "wf_params ps \<Longrightarrow> defaults_fit_params ps \<Longrightarrow> upcoming it (concat (map param_default ps) @ rest) \<Longrightarrow>
    unpack_params ps it = Inr (concat (map param_default ps), advance it (length (concat (map param_default ps))))"
proof (induction t and fs and ps arbitrary: and it rest and it rest rule: wf_type_wf_fields_wf_params.induct)
  case 1
  then show ?case by (simp add: has_type_def create_default_value_def)
next
  case (2 nt)
  then have size: "numeric_size (nt_type nt) = Some (nt_size nt)" by simp
  show ?case
    unfolding has_type_def numeric_default [OF 2(1)]
    using read_fixed_upcoming [of _ "zero_bytes (unat (nt_size nt))" _ "TNumeric nt"] 2(2) numeric_size_pos [OF size] size
    by (cases "nt_type nt") auto
next
  case (3 tag sz e n r al)
  show ?case
  proof (cases "sz = 0")
    case True
    show ?thesis
      unfolding True
    proof (rule default_variable_array)
      show "wf_type (TArray tag 0 e n r al)" using "3.prems"(1) unfolding True .
    qed (use "3.prems"(2) True in simp_all)
  next
    case False
    with 3 default_fixed_array [of tag sz e n r al] show ?thesis by simp
  qed
next
  case (4 sz fs c sn sc)
  let ?d = "concat (map field_default fs)"
  have def: "fst (create_default_value (TStruct sz fs c sn sc)) = ?d" by (simp add: create_default_value_def)
  show ?case
    unfolding has_type_def def
  proof (intro allI impI)
    fix it rest assume up: "upcoming it (?d @ rest)"
    have fields: "unpack_fields fs it = Inr (?d, advance it (length ?d))" using 4 up by simp
    show "unpack_dtype (TStruct sz fs c sn sc) it = Inr (?d, advance it (length ?d))"
    proof (cases "sz \<noteq> 0 \<and> \<not> c")
      case True
      with wf_size_agrees(1) [OF "4.prems"(1)] have "field_sizes fs = Some (unat sz)" by (simp add: size_agrees_def)
      then have "length ?d = unat sz" using unpack_length(2) [OF fields] "4.prems"(1) by simp
      with read_fixed_upcoming [OF up, of "TStruct sz fs c sn sc"] True show ?thesis by simp
    qed (use fields in auto)
  qed
next
  case (5 sz ps c)
  let ?d = "concat (map param_default ps)"
  have def: "fst (create_default_value (TMethod sz ps c)) = ?d" by (simp add: create_default_value_def)
  show ?case
    unfolding has_type_def def
  proof (intro allI impI)
    fix it rest assume up: "upcoming it (?d @ rest)"
    have fields: "unpack_params ps it = Inr (?d, advance it (length ?d))" using 5 up by simp
    show "unpack_dtype (TMethod sz ps c) it = Inr (?d, advance it (length ?d))"
    proof (cases "sz \<noteq> 0 \<and> \<not> c")
      case True
      with wf_size_agrees(1) [OF "5.prems"(1)] have "param_sizes ps = Some (unat sz)" by (simp add: size_agrees_def)
      then have "length ?d = unat sz" using unpack_length(3) [OF fields] "5.prems"(1) by simp
      with read_fixed_upcoming [OF up, of "TMethod sz ps c"] True show ?thesis by simp
    qed (use fields in auto)
  qed
next
  case (7 i nm kws t d dflt m fs)
  from "7.prems" have t: "has_type t d" using 7 by simp
  from "7.prems"(3) have up: "upcoming it (d @ concat (map field_default fs) @ rest)" by simp
  then have one: "unpack_dtype t it = Inr (d, advance it (length d))" using t unfolding has_type_def by blast
  have "upcoming (advance it (length d)) (concat (map field_default fs) @ rest)" using up by (simp add: upcoming_append)
  with 7 one show ?case by simp
next
  case (9 nm t d pd ps)
  from "9.prems" have t: "has_type t d" using 9 by simp
  from "9.prems"(3) have up: "upcoming it (d @ concat (map param_default ps) @ rest)" by simp
  then have one: "unpack_dtype t it = Inr (d, advance it (length d))" using t unfolding has_type_def by blast
  have "upcoming (advance it (length d)) (concat (map param_default ps) @ rest)" using up by (simp add: upcoming_append)
  with 9 one show ?case by simp
qed simp_all

section \<open>Properties\<close>

text \<open>
  C29: the value a field has until it is given one is a value of its type: a reader that unpacks
  that type where the value comes next takes exactly its bytes, checks included. This holds for
  every well-formed type out of numbers whose ranges, if they have one, contain 0, arrays of a fixed
  size whose elements are such numbers of one byte and whose smallest number of elements is their
  size, and arrays without a fixed number of elements that may be empty (of a string or blob the
  smallest size may be another below 65536), their smallest size not above the largest; the members of structs and
  methods have implicit default values too.
\<close>

theorem default_has_type:
  assumes "wf_type t" "defaults_fit t" "f = field_new (Some t) name"
    and "upcoming it (field_default f @ rest)"
  shows "unpack_field f it = Inr (field_default f, advance it (length (field_default f)))"
  using defaults_typed(1) [OF assms(1,2)] assms(3,4)
  by (auto simp: has_type_def field_new_def unpack_field_def split: prod.splits)

definition demo_struct :: dtype where
  "demo_struct = TStruct 0 [field_new (Some (TNumeric (numeric_type_new T_UINT16))) ''hp'',
     field_new (Some (array_type (Some (TNumeric (numeric_type_new T_CHAR))) nrange_none)) ''name''] False ''avatar'' None"

definition demo_bytes :: "bytes \<Rightarrow> dgi" where
  "demo_bytes bs = \<lparr>it_dg = \<lparr>dg_buf = bs, buf_cap = length bs\<rparr>, it_offset = 0\<rparr>"

lemma demo_struct_default: "field_default (field_new (Some demo_struct) ''who'') = [0, 0, 0, 0]"
  by (simp add: field_new_def demo_struct_def create_default_value_def zero_bytes_def numeric_type_new_def
      array_type_def nrange_none_def nrange_is_empty_def has_fixed_size_def Let_def)
    (simp add: le_bytes.simps numeral_2_eq_2)

lemma default_has_type_witness:
  "unpack_field (field_new (Some demo_struct) ''who'') (demo_bytes [0, 0, 0, 0, 7])
    = Inr ([0, 0, 0, 0], advance (demo_bytes [0, 0, 0, 0, 7]) 4)"
proof -
  have "wf_type demo_struct" "defaults_fit demo_struct"
    by (simp_all add: demo_struct_def field_new_def create_default_value_def numeric_type_new_def numeric_has_range_def
      array_type_def nrange_none_def nrange_is_empty_def has_fixed_size_def array_shape_def grow_size_def fits_def Let_def)
  moreover have "upcoming (demo_bytes [0, 0, 0, 0, 7]) (field_default (field_new (Some demo_struct) ''who'') @ [7])"
    unfolding demo_struct_default by (simp add: upcoming_def demo_bytes_def dg_size_def buf_offset_def)
  ultimately show ?thesis
    using default_has_type [where t = demo_struct and name = "''who''", OF _ _ refl] by (simp add: demo_struct_default)
qed

lemma unpack_while_length:
  assumes "\<And>it bs it'. body it = Inr (bs, it') \<Longrightarrow> length bs = k"
  shows "unpack_while fuel body len it acc cnt = Inr (bs, cnt', it') \<Longrightarrow>
    cnt \<le> cnt' \<and> length bs = length acc + (cnt' - cnt) * k"
proof (induction fuel arbitrary: it acc cnt)
  case (Suc fuel)
  show ?case
  proof (cases "length acc < len")
    case True
    with Suc.prems obtain b it1 where b: "body it = Inr (b, it1)"
      and rest: "unpack_while fuel body len it1 (acc @ b) (Suc cnt) = Inr (bs, cnt', it')"
      by (auto simp: rbind_eq_Inr)
    from Suc.IH [OF rest] have ih: "Suc cnt \<le> cnt'" "length bs = length acc + k + (cnt' - Suc cnt) * k"
      using assms [OF b] by simp_all
    then obtain j where "cnt' = Suc cnt + j" using nat_le_iff_add by blast
    with ih(2) show ?thesis by simp
  qed (use Suc.prems in simp)
qed (auto split: if_splits)

lemma demo_bytes_upcoming: "length bs \<le> DGSIZE_MAX \<Longrightarrow> upcoming (demo_bytes bs) bs"
  using unat_of_short_length [of bs] by (simp add: upcoming_def demo_bytes_def dg_size_def buf_offset_def)

lemma has_type_unpacks:
  assumes "has_type t bs" "length bs \<le> DGSIZE_MAX"
  shows "\<exists>it. unpack_dtype t it = Inr (bs, advance it (length bs))"
  using assms demo_bytes_upcoming [of bs] unfolding has_type_def by (metis append_Nil2)

text \<open>
  The implicit default of an array whose elements have more than one byte is not a value of its
  type, unless it may be empty: it has one byte for every element (a fixed array), or a byte length
  that counts elements (a variable one), so that a reader either runs into the bytes behind it or
  finds too few elements.
\<close>

theorem array_default_ill_typed:
  assumes elem: "wf_type (TNumeric nt)" "1 < unat (nt_size nt)"
    and least: "0 < unat k" "unat k < 8192" "k \<le> m"
    and t: "t = array_type (Some (TNumeric nt)) (nrange_uint k m)"
  shows "\<not> has_type t (fst (create_default_value t))"
proof
  assume typed: "has_type t (fst (create_default_value t))"
  have size: "numeric_size (nt_type nt) = Some (nt_size nt)" using elem(1) by simp
  then have s: "unat (nt_size nt) \<le> 8" "nt_type nt \<noteq> T_CHAR" "nt_type nt \<noteq> T_UINT8" "nt_size nt \<noteq> 0"
    using elem(2) by (cases "nt_type nt"; auto)+
  let ?k = "unat k" and ?s = "unat (nt_size nt)"
  have k32: "unat (ucast k :: u32) = ?k" and k16: "unat (ucast k :: u16) = ?k"
    using least(2) by (simp_all add: unsigned_ucast_eq take_bit_nat_eq_self)
  show False
  proof (cases "k = m")
    case True
    let ?n = "ucast k :: u32"
    have pos: "0 < ?n" using least(1) k32 by (simp add: word_gt_0 unat_eq_zero) (metis k32 less_irrefl unat_0)
    have shape: "t = TArray T_ARRAY (ucast (?n * ucast (nt_size nt))) (TNumeric nt) ?n (nrange_uint k m) []"
      using True pos s by (simp add: t array_type_def nrange_uint_def nrange_is_empty_def has_fixed_size_def Let_def)
    have prod: "?k * ?s \<le> 65535" using mult_le_mono [of ?k 8191 ?s 8] least(2) s(1) by simp
    have wf: "wf_type t"
      using elem(1) pos s prod k32 by (simp add: shape array_shape_def has_fixed_size_def fits_def DGSIZE_MAX_def)
    have byte: "byte_size t = Some (?k * ?s)" using pos s k32 by (simp add: shape has_fixed_size_def)
    have def: "fst (create_default_value t) = zero_bytes ?k"
      using k32 by (simp add: shape create_default_value_def nrange_uint_def)
    from has_type_unpacks [OF typed] least(2) obtain it it' where "unpack_dtype t it = Inr (zero_bytes ?k, it')"
      by (auto simp: def DGSIZE_MAX_def)
    from unpack_length(1) [OF this wf byte] have "?k = ?k * ?s" by simp
    with least(1) elem(2) show False by simp
  next
    case False
    have shape: "t = TArray T_VARARRAY 0 (TNumeric nt) 0 (nrange_uint k m) []"
      using False s by (simp add: t array_type_def nrange_uint_def nrange_is_empty_def has_fixed_size_def Let_def)
    have def: "fst (create_default_value t) = le_bytes 2 (ucast k :: u16) @ zero_bytes ?k"
      using k16 by (simp add: shape create_default_value_def nrange_uint_def Let_def)
    from has_type_unpacks [OF typed] least(2) obtain it it' where "unpack_dtype t it = Inr (le_bytes 2 (ucast k :: u16) @ zero_bytes ?k, it')"
      by (auto simp: def DGSIZE_MAX_def)
    then obtain len :: dgsize and it1 data cnt where run: "unpack_while (unat len) (unpack_dtype (TNumeric nt)) (unat len) it1 [] 0 = Inr (data, cnt, it')"
      and range: "array_within_range t (word_of_nat cnt)" and out: "le_bytes 2 len @ data = le_bytes 2 (ucast k :: u16) @ zero_bytes ?k"
      by (auto simp: shape rbind_eq_Inr simp del: unpack_while.simps unpack_dtype.simps(2) split: if_splits)
    have elem_length: "length bs = ?s" if "unpack_dtype (TNumeric nt) it = Inr (bs, it')" for it bs it'
      using unpack_length(1) [OF that elem(1)] by simp
    have "length data = ?k" using arg_cong [OF out, of length] by simp
    with unpack_while_length [OF elem_length run] have cnt: "?k = cnt * ?s" by simp
    then have "cnt \<le> ?k" using elem(2) by simp
    with least(2) have "unat (word_of_nat cnt :: u64) = cnt" by (simp add: unsigned_of_nat take_bit_nat_eq_self)
    moreover have "k \<le> word_of_nat cnt" using range by (simp add: shape nrange_uint_def)
    ultimately have "?k \<le> cnt" by (simp add: word_le_nat_alt)
    with cnt have "cnt * ?s \<le> cnt * 1" by simp
    then have "cnt = 0 \<or> ?s \<le> 1" by (simp only: mult_le_cancel1) auto
    with cnt least(1) elem(2) show False by auto
  qed
qed

lemma array_default_ill_typed_witness:
  "\<not> has_type (array_type (Some (TNumeric (numeric_type_new T_UINT16))) (nrange_uint 3 3))
     (fst (create_default_value (array_type (Some (TNumeric (numeric_type_new T_UINT16))) (nrange_uint 3 3))))"
  by (rule array_default_ill_typed [OF _ _ _ _ _ refl]) (simp_all add: numeric_type_new_def)

end
