(* ===== verification/Numeric_Types.thy ===== *)
theory Numeric_Types
  imports DClass
begin

text \<open>
  The setters of \<open>dclass/dc/NumericType.cpp\<close>: the divisor, modulus and range of a fixed-point
  number. They compute with doubles, which are exact here: a finite double is a whole number of
  units of \<open>2 ^ -1074\<close>, and every operation rounds to nearest, ties to even.
\<close>

section \<open>Doubles\<close>

text \<open>The number of units in 1 is \<open>2 ^ unit_bits\<close>.\<close>

definition unit_bits :: nat where
  "unit_bits = 1074"

definition double_negative :: "u64 \<Rightarrow> bool" where
  "double_negative b \<longleftrightarrow> 2 ^ 63 \<le> unat b"

definition double_exponent :: "u64 \<Rightarrow> nat" where
  "double_exponent b = unat b mod 2 ^ 63 div 2 ^ 52"

definition double_finite :: "u64 \<Rightarrow> bool" where
  "double_finite b \<longleftrightarrow> double_exponent b < 2047"

definition double_mag :: "u64 \<Rightarrow> nat" where
  "double_mag b =
     (let m = unat b mod 2 ^ 52 in
      if double_exponent b = 0 then m else (2 ^ 52 + m) * 2 ^ (double_exponent b - 1))"

definition double_units :: "u64 \<Rightarrow> int" where
  "double_units b = (if double_negative b then - int (double_mag b) else int (double_mag b))"

text \<open>The double nearest to a number of units; too large a one becomes infinite.\<close>

definition double_of_mag :: "bool \<Rightarrow> nat \<Rightarrow> u64" where
  "double_of_mag neg n =
     (let s = top_bit n - 52; q = n div 2 ^ s; r = n mod 2 ^ s;
          up = (2 ^ s < 2 * r \<or> 2 ^ s = 2 * r \<and> odd q)
      in word_of_nat ((if neg then 2 ^ 63 else 0) + min (s * 2 ^ 52 + q + of_bool up) (2047 * 2 ^ 52)))"

text \<open>A NaN operand is returned with its quiet bit set, an infinity as it is.\<close>

definition double_special :: "u64 \<Rightarrow> u64" where
  "double_special b = (if double_is_nan b then or b (2 ^ 51) else b)"

text \<open>The product with an \<open>unsigned int\<close> other than 0, and the sum with \<open>0.5\<close>.\<close>

definition double_mul :: "u64 \<Rightarrow> u32 \<Rightarrow> u64" where
  "double_mul b d =
     (if double_finite b then double_of_mag (double_negative b) (double_mag b * unat d) else double_special b)"

definition double_add_half :: "u64 \<Rightarrow> u64" where
  "double_add_half b =
     (if double_finite b
      then let n = double_units b + 2 ^ (unit_bits - 1) in double_of_mag (n < 0) (nat \<bar>n\<bar>)
      else double_special b)"

text \<open>\<open>floor\<close> followed by the conversion to a 64-bit integer.\<close>

definition floor_to_int64 :: "u64 \<Rightarrow> int res" where
  "floor_to_int64 b =
     (let n = double_units b div 2 ^ unit_bits in
      if double_finite b \<and> - (2 ^ 63) \<le> n \<and> n < 2 ^ 63 then Inr n else Inl UndefinedConversion)"

definition floor_to_uint64 :: "u64 \<Rightarrow> u64 res" where
  "floor_to_uint64 b =
     (let n = double_units b div 2 ^ unit_bits in
      if double_finite b \<and> 0 \<le> n \<and> n < 2 ^ 64 then Inr (word_of_int n) else Inl UndefinedConversion)"

section \<open>The setters\<close>

definition numeric_has_modulus :: "numeric_type \<Rightarrow> bool" where
  "numeric_has_modulus nt \<longleftrightarrow> nt_modulus nt \<noteq> 0 \<and> nt_modulus nt \<noteq> 2 ^ 63"

fun modulus_fits :: "type_tag \<Rightarrow> u64 \<Rightarrow> bool" where
  "modulus_fits T_CHAR m = (1 \<le> m \<and> m \<le> 256)"
| "modulus_fits T_UINT8 m = (1 \<le> m \<and> m \<le> 256)"
| "modulus_fits T_INT8 m = (1 \<le> m \<and> m \<le> 256)"
| "modulus_fits T_UINT16 m = (1 \<le> m \<and> m \<le> 65536)"
| "modulus_fits T_INT16 m = (1 \<le> m \<and> m \<le> 65536)"
| "modulus_fits T_UINT32 m = (1 \<le> m \<and> m \<le> 4294967296)"
| "modulus_fits T_INT32 m = (1 \<le> m \<and> m \<le> 4294967296)"
| "modulus_fits T_UINT64 m = (1 \<le> m)"
| "modulus_fits T_INT64 m = (1 \<le> m)"
| "modulus_fits T_FLOAT32 m = True"
| "modulus_fits T_FLOAT64 m = True"
| "modulus_fits _ m = False"

text \<open>
  \<open>set_modulus\<close>. The assignment \<open>m_modulus = uint_modulus\<close> calls \<open>Number::operator=\<close>, which returns
  a new number and leaves \<open>m_modulus\<close> as it was, so only \<open>m_orig_modulus\<close> is kept.
\<close>

definition set_modulus :: "u64 \<Rightarrow> numeric_type \<Rightarrow> (bool \<times> numeric_type) res" where
  "set_modulus modulus nt =
     (if double_le modulus 0 then Inr (False, nt)
      else
        rbind (floor_to_uint64 (double_add_half (double_mul modulus (nt_divisor nt)))) (\<lambda>uint_modulus.
          if modulus_fits (nt_type nt) uint_modulus then Inr (True, nt\<lparr>nt_modulus := modulus\<rparr>)
          else Inr (False, nt)))"

text \<open>The range that \<open>set_range\<close> computes; \<open>None\<close> when the type is not numeric.\<close>

definition scaled_range :: "type_tag \<Rightarrow> u32 \<Rightarrow> nrange \<Rightarrow> nrange option res" where
  "scaled_range tag d r =
     (let lo = double_mul (num_bits (nr_min r)) d; hi = double_mul (num_bits (nr_max r)) d
      in if tag = T_INT8 \<or> tag = T_INT16 \<or> tag = T_INT32 \<or> tag = T_INT64
         then rbind (floor_to_int64 (double_add_half lo)) (\<lambda>a.
                rbind (floor_to_int64 (double_add_half hi)) (\<lambda>b. Inr (Some (nrange_int a b))))
         else if tag = T_CHAR \<or> tag = T_UINT8 \<or> tag = T_UINT16 \<or> tag = T_UINT32 \<or> tag = T_UINT64
         then rbind (floor_to_uint64 (double_add_half lo)) (\<lambda>a.
                rbind (floor_to_uint64 (double_add_half hi)) (\<lambda>b. Inr (Some (nrange_uint a b))))
         else if tag = T_FLOAT32 \<or> tag = T_FLOAT64
         then Inr (Some \<lparr>nr_kind = NK_FLOAT, nr_min = \<lparr>num_kind = NK_FLOAT, num_bits = lo\<rparr>,
                         nr_max = \<lparr>num_kind = NK_FLOAT, num_bits = hi\<rparr>\<rparr>)
         else Inr None)"

definition set_range :: "nrange \<Rightarrow> numeric_type \<Rightarrow> (bool \<times> numeric_type) res" where
  "set_range r nt =
     (if nr_kind r \<noteq> NK_FLOAT then Inr (False, nt)
      else
        rbind (scaled_range (nt_type nt) (nt_divisor nt) r) (\<lambda>scaled.
          case scaled of
            None \<Rightarrow> Inr (False, nt\<lparr>nt_orig_range := r\<rparr>)
          | Some r' \<Rightarrow> Inr (True, nt\<lparr>nt_orig_range := r, nt_range := r'\<rparr>)))"

definition set_divisor :: "u32 \<Rightarrow> numeric_type \<Rightarrow> (bool \<times> numeric_type) res" where
  "set_divisor d nt =
     (if d = 0 then Inr (False, nt)
      else
        rbind (if numeric_has_range nt then rbind (set_range (nt_orig_range nt) (nt\<lparr>nt_divisor := d\<rparr>)) (Inr \<circ> snd)
               else Inr (nt\<lparr>nt_divisor := d\<rparr>)) (\<lambda>nt.
          rbind (if numeric_has_modulus nt then rbind (set_modulus (nt_modulus nt) nt) (Inr \<circ> snd) else Inr nt) (\<lambda>nt.
            Inr (True, nt))))"

section \<open>Doubles that need no rounding\<close>

lemma top_bit_bounds: "0 < n \<Longrightarrow> 2 ^ top_bit n \<le> n \<and> n < 2 ^ Suc (top_bit n)"
proof (induction n rule: top_bit.induct)
  case (1 n)
  show ?case
  proof (cases "n \<le> 1")
    case True
    with 1 have "n = 1" by simp
    then show ?thesis by (simp add: top_bit.simps)
  next
    case False
    with 1 have "2 ^ top_bit (n div 2) \<le> n div 2 \<and> n div 2 < 2 ^ Suc (top_bit (n div 2))" by simp
    then have "2 * 2 ^ top_bit (n div 2) \<le> n \<and> n < 2 * (2 * 2 ^ top_bit (n div 2))"
      unfolding power_Suc by linarith
    with False show ?thesis by (simp add: top_bit.simps [of n])
  qed
qed

lemma top_bit_0: "top_bit 0 = 0"
  by (simp add: top_bit.simps)

lemma top_bit_less: "n < 2 ^ Suc k \<Longrightarrow> top_bit n \<le> k"
proof (cases "n = 0")
  case False
  assume "n < 2 ^ Suc k"
  with top_bit_bounds [of n] False have "(2 :: nat) ^ top_bit n < 2 ^ Suc k" by linarith
  then have "top_bit n < Suc k" by (rule power_less_imp_less_exp [rotated]) simp
  then show ?thesis by simp
qed (simp add: top_bit_0)

lemma top_bit_shift:
  assumes "n = q * 2 ^ t" "q < 2 ^ 53"
  shows "top_bit n - 52 \<le> t"
proof -
  have "n < 2 ^ 53 * 2 ^ t" unfolding assms(1) using assms(2) by simp
  also have "\<dots> = 2 ^ Suc (52 + t)" by (simp add: power_add)
  finally have "top_bit n \<le> 52 + t" by (rule top_bit_less)
  then show ?thesis by simp
qed

text \<open>A number of units with at most 53 significant bits is a double.\<close>

lemma double_of_mag_exact:
  assumes n: "n = q * 2 ^ t" "q < 2 ^ 53" and t: "t \<le> 2000"
  shows "double_mag (double_of_mag neg n) = n" "double_finite (double_of_mag neg n)"
    "double_negative (double_of_mag neg n) = neg"
proof -
  define s where "s = top_bit n - 52"
  define p where "p = n div 2 ^ s"
  have s: "s \<le> t" unfolding s_def by (rule top_bit_shift [OF n])
  then have "2 ^ s dvd n" unfolding n(1) by (simp add: le_imp_power_dvd)
  then have np: "n = p * 2 ^ s" "n mod 2 ^ s = 0" by (simp_all add: p_def)
  have p53: "p < 2 ^ 53"
  proof (cases "n = 0")
    case False
    then have "n < 2 ^ Suc (top_bit n)" using top_bit_bounds by simp
    also have "\<dots> \<le> 2 ^ (53 + s)" by (rule power_increasing) (simp_all add: s_def)
    finally show ?thesis by (simp add: np(1) power_add)
  qed (simp add: p_def)
  have p52: "2 ^ 52 \<le> p" if "0 < s"
  proof -
    have "n \<noteq> 0" using that by (cases "n = 0") (simp_all add: s_def top_bit_0)
    then have "2 ^ top_bit n \<le> n" using top_bit_bounds by simp
    moreover have "top_bit n = 52 + s" using that by (simp add: s_def)
    ultimately show ?thesis by (simp add: np(1) power_add)
  qed
  let ?b = "s * 2 ^ 52 + p"
  have small: "?b < 2047 * 2 ^ 52" using p53 s t by simp
  then have eq: "double_of_mag neg n = word_of_nat ((if neg then 2 ^ 63 else 0) + ?b)"
    unfolding double_of_mag_def using np(2) by (simp add: Let_def flip: s_def p_def)
  have unat: "unat (double_of_mag neg n) = (if neg then 2 ^ 63 else 0) + ?b"
    unfolding eq unat_of_nat by (rule mod_less) (use small in simp)
  have mod63: "unat (double_of_mag neg n) mod 2 ^ 63 = ?b"
    unfolding unat using small by (cases neg) simp_all
  have e: "double_exponent (double_of_mag neg n) = ?b div 2 ^ 52" by (simp only: double_exponent_def mod63)
  show "double_finite (double_of_mag neg n)"
    unfolding double_finite_def e using small by (simp add: less_mult_imp_div_less)
  show "double_negative (double_of_mag neg n) = neg"
    unfolding double_negative_def unat using small by simp
  have m: "unat (double_of_mag neg n) mod 2 ^ 52 = p mod 2 ^ 52"
  proof -
    have "unat (double_of_mag neg n) mod 2 ^ 52 = unat (double_of_mag neg n) mod 2 ^ 63 mod 2 ^ 52"
      by (rule mod_mod_cancel [symmetric]) simp
    then show ?thesis unfolding mod63 by simp
  qed
  show "double_mag (double_of_mag neg n) = n"
  proof (cases "p < 2 ^ 52")
    case True
    then have "s = 0" using p52 by force
    with True have "?b div 2 ^ 52 = 0" "p mod 2 ^ 52 = n" by (simp_all add: np(1))
    then show ?thesis unfolding double_mag_def Let_def e m by simp
  next
    case False
    define k where "k = p - 2 ^ 52"
    have k: "p = 2 ^ 52 + k" "k < 2 ^ 52" unfolding k_def using False p53 by simp_all
    then have "?b div 2 ^ 52 = Suc s" "p mod 2 ^ 52 = k" by simp_all
    then show ?thesis unfolding double_mag_def Let_def e m by (simp add: np(1) k(1))
  qed
qed

text \<open>The double of a whole number, and what scaling and rounding make of it.\<close>

lemma unit_bits_le: "unit_bits \<le> 2000" "unit_bits - 1 \<le> 2000" "unit_bits = Suc (unit_bits - 1)"
  by (simp_all add: unit_bits_def)

lemma divisor_pos: "d \<noteq> 0 \<Longrightarrow> 0 < uint (d :: u32)"
  by (simp add: word_neq_0_conv word_less_def)

definition double_of_int :: "int \<Rightarrow> u64" where
  "double_of_int k = double_of_mag (k < 0) (nat \<bar>k\<bar> * 2 ^ unit_bits)"

lemma mul_double_of_int:
  assumes "\<bar>k\<bar> * int (unat d) < 2 ^ 52" "d \<noteq> 0"
  shows "double_mul (double_of_int k) d = double_of_mag (k < 0) (nat \<bar>k\<bar> * unat d * 2 ^ unit_bits)"
proof -
  have "1 \<le> int (unat d)" using divisor_pos [OF assms(2)] by simp
  then have "\<bar>k\<bar> * 1 \<le> \<bar>k\<bar> * int (unat d)" by (intro mult_left_mono) simp_all
  then have "nat \<bar>k\<bar> < 2 ^ 53" using assms(1) by simp
  note ex = double_of_mag_exact [OF refl this, of unit_bits "k < 0"]
  show ?thesis
    unfolding double_mul_def double_of_int_def ex(1) [OF unit_bits_le(1)]
    using ex(2,3) [OF unit_bits_le(1)] by (simp add: ac_simps)
qed

lemma units_of_mag:
  assumes "\<bar>k\<bar> < 2 ^ 53" "k < 0 \<Longrightarrow> neg" "neg \<Longrightarrow> k \<le> 0"
  shows "double_finite (double_of_mag neg (nat \<bar>k\<bar> * 2 ^ unit_bits))"
    "double_units (double_of_mag neg (nat \<bar>k\<bar> * 2 ^ unit_bits)) = k * 2 ^ unit_bits"
proof -
  have "nat \<bar>k\<bar> < 2 ^ 53" using assms(1) by simp
  note ex = double_of_mag_exact [OF refl this, of unit_bits neg]
  show "double_finite (double_of_mag neg (nat \<bar>k\<bar> * 2 ^ unit_bits))" by (rule ex(2) [OF unit_bits_le(1)])
  show "double_units (double_of_mag neg (nat \<bar>k\<bar> * 2 ^ unit_bits)) = k * 2 ^ unit_bits"
    unfolding double_units_def ex(1) [OF unit_bits_le(1)] ex(3) [OF unit_bits_le(1)] using assms(2,3) by (cases "k < 0") auto
qed

lemma add_half_exact:
  assumes "double_finite b" "double_units b = k * 2 ^ unit_bits" "\<bar>k\<bar> < 2 ^ 52"
  shows "double_finite (double_add_half b)" "double_units (double_add_half b) div 2 ^ unit_bits = k"
proof -
  let ?h = "2 ^ (unit_bits - 1) :: int"
  have two: "2 ^ unit_bits = 2 * ?h" by (metis power_Suc unit_bits_le(3))
  define n where "n = (2 * k + 1) * ?h"
  have n: "double_units b + ?h = n" unfolding assms(2) two n_def by (simp add: algebra_simps)
  have nat: "nat \<bar>n\<bar> = nat \<bar>2 * k + 1\<bar> * 2 ^ (unit_bits - 1)"
    by (simp add: n_def abs_mult nat_mult_distrib nat_power_eq)
  have "nat \<bar>2 * k + 1\<bar> < 2 ^ 53" using assms(3) by simp
  note ex' = double_of_mag_exact [OF nat this, of "n < 0"]
  have b: "double_add_half b = double_of_mag (n < 0) (nat \<bar>n\<bar>)"
    unfolding double_add_half_def n Let_def using assms(1) by simp
  show "double_finite (double_add_half b)" unfolding b by (rule ex'(2) [OF unit_bits_le(2)])
  have "double_units (double_add_half b) = n"
    unfolding double_units_def b ex'(1) [OF unit_bits_le(2)] ex'(3) [OF unit_bits_le(2)] by simp
  then show "double_units (double_add_half b) div 2 ^ unit_bits = k"
    unfolding two n_def by simp
qed

text \<open>A product that is a whole number is computed without rounding.\<close>

lemma mul_whole:
  assumes "double_finite b" "double_units b * int (unat d) = n * 2 ^ unit_bits" "\<bar>n\<bar> < 2 ^ 53"
  shows "double_finite (double_mul b d)" "double_units (double_mul b d) = n * 2 ^ unit_bits"
proof -
  have mag: "double_mag b * unat d = nat \<bar>n\<bar> * 2 ^ unit_bits"
  proof -
    have "\<bar>double_units b\<bar> * int (unat d) = \<bar>n\<bar> * 2 ^ unit_bits"
      using arg_cong [OF assms(2), of abs] by (simp add: abs_mult)
    then have "int (double_mag b * unat d) = int (nat \<bar>n\<bar> * 2 ^ unit_bits)" by (simp add: double_units_def split: if_splits)
    then show ?thesis by (simp only: of_nat_eq_iff)
  qed
  have "0 \<le> n" if "\<not> double_negative b"
  proof -
    have "0 \<le> n * 2 ^ unit_bits" unfolding assms(2) [symmetric] using that by (simp add: double_units_def)
    then show ?thesis by (simp add: zero_le_mult_iff)
  qed
  then have pos: "n < 0 \<Longrightarrow> double_negative b" by force
  have neg: "n \<le> 0" if "double_negative b"
  proof -
    have "n * 2 ^ unit_bits \<le> 0" unfolding assms(2) [symmetric] using that
      by (simp add: double_units_def mult_nonpos_nonneg)
    then show ?thesis by (simp add: mult_le_0_iff)
  qed
  show "double_finite (double_mul b d)" "double_units (double_mul b d) = n * 2 ^ unit_bits"
    using units_of_mag [OF assms(3) pos neg] assms(1) by (simp_all add: double_mul_def mag)
qed

lemma scaled_exact:
  assumes "\<bar>k\<bar> * int (unat d) < 2 ^ 52" "d \<noteq> 0"
  shows "floor_to_int64 (double_add_half (double_mul (double_of_int k) d)) = Inr (k * int (unat d))"
    "0 \<le> k \<Longrightarrow> floor_to_uint64 (double_add_half (double_mul (double_of_int k) d)) = Inr (word_of_int (k * int (unat d)))"
proof -
  let ?k = "k * int (unat d)"
  have neg: "k < 0 \<longleftrightarrow> ?k < 0" using divisor_pos [OF assms(2)] by (auto simp: mult_less_0_iff)
  have "nat \<bar>?k\<bar> = nat \<bar>k\<bar> * unat d" by (simp add: abs_mult nat_mult_distrib)
  then have "double_mul (double_of_int k) d = double_of_mag (?k < 0) (nat \<bar>?k\<bar> * 2 ^ unit_bits)"
    unfolding mul_double_of_int [OF assms] neg by simp
  moreover have k: "\<bar>?k\<bar> < 2 ^ 52" using assms(1) by (simp add: abs_mult)
  ultimately have b: "double_finite (double_mul (double_of_int k) d)"
    "double_units (double_mul (double_of_int k) d) = ?k * 2 ^ unit_bits"
    using units_of_mag [OF less_trans [OF k], of "?k < 0"] by (auto simp: less_imp_le)
  have ex: "double_finite (double_add_half (double_mul (double_of_int k) d))"
    "double_units (double_add_half (double_mul (double_of_int k) d)) div 2 ^ unit_bits = ?k"
    using add_half_exact [OF b k] by simp_all
  from k have b: "- (2 ^ 63) \<le> ?k \<and> ?k < 2 ^ 63" by (simp add: abs_less_iff)
  then show "floor_to_int64 (double_add_half (double_mul (double_of_int k) d)) = Inr ?k"
    unfolding floor_to_int64_def Let_def ex(2) using ex(1) by (simp only: simp_thms if_True)
  assume "0 \<le> k"
  then have "0 \<le> ?k \<and> ?k < 2 ^ 64" using b by simp
  then show "floor_to_uint64 (double_add_half (double_mul (double_of_int k) d)) = Inr (word_of_int ?k)"
    unfolding floor_to_uint64_def Let_def ex(2) using ex(1) by (simp only: simp_thms if_True)
qed

section \<open>The stored range\<close>

text \<open>What the setters keep of a number type: its range is the declared one times the divisor.\<close>

definition range_scaled :: "numeric_type \<Rightarrow> bool" where
  "range_scaled nt \<longleftrightarrow> nt_divisor nt \<noteq> 0 \<and> numeric_size (nt_type nt) \<noteq> None \<and>
     (if numeric_has_range nt
      then nr_kind (nt_orig_range nt) = NK_FLOAT
         \<and> scaled_range (nt_type nt) (nt_divisor nt) (nt_orig_range nt) = Inr (Some (nt_range nt))
      else nt_range nt = nrange_none)"

datatype numeric_call = SetDivisor u32 | SetModulus u64 | SetRange nrange

fun numeric_step :: "numeric_call \<Rightarrow> numeric_type \<Rightarrow> (bool \<times> numeric_type) res" where
  "numeric_step (SetDivisor d) nt = set_divisor d nt"
| "numeric_step (SetModulus m) nt = set_modulus m nt"
| "numeric_step (SetRange r) nt = set_range r nt"

primrec numeric_steps :: "numeric_call list \<Rightarrow> numeric_type \<Rightarrow> numeric_type res" where
  "numeric_steps [] nt = Inr nt"
| "numeric_steps (c # cs) nt = rbind (numeric_step c nt) (\<lambda>(ok, nt). numeric_steps cs nt)"

lemma scaled_range_some: "numeric_size tag \<noteq> None \<Longrightarrow> scaled_range tag d r \<noteq> Inr None"
  by (cases tag) (auto simp: scaled_range_def res_simps Let_def)

lemma set_modulus_scaled:
  assumes "range_scaled nt" "set_modulus m nt = Inr (ok, nt')"
  shows "range_scaled nt'" "nt_type nt' = nt_type nt"
proof -
  have "nt' = nt \<or> nt' = nt\<lparr>nt_modulus := m\<rparr>"
    using assms(2) by (auto simp: set_modulus_def res_simps split: if_splits)
  then show "range_scaled nt'" "nt_type nt' = nt_type nt"
    using assms(1) by (auto simp: range_scaled_def numeric_has_range_def split: if_splits)
qed

lemma set_range_scaled:
  assumes "set_range r nt = Inr (ok, nt')" "nt_divisor nt \<noteq> 0" "numeric_size (nt_type nt) \<noteq> None"
    "nr_kind r = NK_FLOAT"
  shows "range_scaled nt'" "nt_type nt' = nt_type nt"
proof -
  from assms obtain r' where r': "scaled_range (nt_type nt) (nt_divisor nt) r = Inr (Some r')"
      "nt' = nt\<lparr>nt_orig_range := r, nt_range := r'\<rparr>"
    using scaled_range_some [OF assms(3)] by (auto simp: set_range_def res_simps split: if_splits option.splits)
  with assms show "range_scaled nt'" "nt_type nt' = nt_type nt"
    by (simp_all add: range_scaled_def numeric_has_range_def nrange_is_empty_def)
qed

lemma set_divisor_scaled:
  assumes "range_scaled nt" "set_divisor d nt = Inr (ok, nt')"
  shows "range_scaled nt'" "nt_type nt' = nt_type nt"
proof -
  have "range_scaled nt' \<and> nt_type nt' = nt_type nt"
  proof (cases "d = 0")
    case False
    let ?nt = "nt\<lparr>nt_divisor := d\<rparr>"
    from assms(2) False obtain nt1 where
      nt1: "(if numeric_has_range nt then rbind (set_range (nt_orig_range nt) ?nt) (Inr \<circ> snd) else Inr ?nt) = Inr nt1"
      and nt': "(if numeric_has_modulus nt1 then rbind (set_modulus (nt_modulus nt1) nt1) (Inr \<circ> snd) else Inr nt1)
        = Inr nt'"
      by (auto simp: set_divisor_def rbind_eq_Inr)
    have "range_scaled nt1 \<and> nt_type nt1 = nt_type nt"
    proof (cases "numeric_has_range nt")
      case True
      then obtain ok' where sr: "set_range (nt_orig_range nt) ?nt = Inr (ok', nt1)"
        using nt1 by (auto simp: rbind_eq_Inr)
      have "nt_divisor ?nt \<noteq> 0" "numeric_size (nt_type ?nt) \<noteq> None" "nr_kind (nt_orig_range nt) = NK_FLOAT"
        using assms(1) True \<open>d \<noteq> 0\<close> by (simp_all add: range_scaled_def)
      from set_range_scaled [OF sr this] show ?thesis by simp
    next
      case False
      with nt1 have "nt1 = ?nt" by simp
      with False assms(1) \<open>d \<noteq> 0\<close> show ?thesis by (simp add: range_scaled_def numeric_has_range_def)
    qed
    with nt' set_modulus_scaled [of nt1] show ?thesis
      by (auto simp: rbind_eq_Inr split: if_splits)
  qed (use assms in \<open>simp add: set_divisor_def\<close>)
  then show "range_scaled nt'" "nt_type nt' = nt_type nt" by simp_all
qed

lemma numeric_step_scaled:
  assumes "range_scaled nt" "numeric_step c nt = Inr (ok, nt')"
  shows "range_scaled nt' \<and> nt_type nt' = nt_type nt"
proof (cases c)
  case (SetDivisor d)
  with assms set_divisor_scaled [OF assms(1)] show ?thesis by simp
next
  case (SetModulus m)
  with assms set_modulus_scaled [OF assms(1)] show ?thesis by simp
next
  case (SetRange r)
  show ?thesis
  proof (cases "nr_kind r = NK_FLOAT")
    case True
    have "nt_divisor nt \<noteq> 0" "numeric_size (nt_type nt) \<noteq> None" using assms(1) by (simp_all add: range_scaled_def)
    with SetRange assms(2) True set_range_scaled [of r nt ok nt'] show ?thesis by simp
  next
    case False
    with SetRange assms show ?thesis by (simp add: set_range_def)
  qed
qed

lemma numeric_steps_scaled:
  "range_scaled nt \<Longrightarrow> numeric_steps cs nt = Inr nt' \<Longrightarrow> range_scaled nt' \<and> nt_type nt' = nt_type nt"
proof (induction cs arbitrary: nt)
  case (Cons c cs)
  then obtain ok nt1 where nt1: "numeric_step c nt = Inr (ok, nt1)" "numeric_steps cs nt1 = Inr nt'"
    by (auto simp: rbind_eq_Inr)
  with numeric_step_scaled [OF Cons.prems(1) nt1(1)] Cons.IH [OF _ nt1(2)] show ?case by simp
qed simp

lemma numeric_type_new_scaled: "numeric_size t \<noteq> None \<Longrightarrow> range_scaled (numeric_type_new t)"
  by (auto simp: range_scaled_def numeric_type_new_def numeric_has_range_def nrange_is_empty_def nrange_none_def)

section \<open>Fixed-point numbers\<close>

fun signed_tag :: "type_tag \<Rightarrow> bool" where
  "signed_tag tag = (tag \<in> {T_INT8, T_INT16, T_INT32, T_INT64})"

fun unsigned_tag :: "type_tag \<Rightarrow> bool" where
  "unsigned_tag tag = (tag \<in> {T_CHAR, T_UINT8, T_UINT16, T_UINT32, T_UINT64})"

text \<open>The whole number a packed value stands for, before the division.\<close>

fun stored_value :: "type_tag \<Rightarrow> bytes \<Rightarrow> int" where
  "stored_value T_INT8 data = sint (le_word data :: u8)"
| "stored_value T_INT16 data = sint (le_word data :: u16)"
| "stored_value T_INT32 data = sint (le_word data :: u32)"
| "stored_value T_INT64 data = sint (le_word data :: u64)"
| "stored_value T_UINT16 data = uint (le_word data :: u16)"
| "stored_value T_UINT32 data = uint (le_word data :: u32)"
| "stored_value T_UINT64 data = uint (le_word data :: u64)"
| "stored_value _ data = uint (le_word data :: u8)"

lemma sint_word64: "- (2 ^ 63) \<le> k \<Longrightarrow> k < 2 ^ 63 \<Longrightarrow> sint (word_of_int k :: u64) = k"
  by (simp add: sint_sbintrunc' signed_take_bit_int_eq_self)

lemma sint_small: "\<bar>k\<bar> < 2 ^ 52 \<Longrightarrow> sint (word_of_int k :: u64) = k"
  by (rule sint_word64) simp_all

lemma stored_signed:
  assumes "signed_tag t"
  shows "- (2 ^ 63) \<le> stored_value t data" "stored_value t data < 2 ^ 63"
  using assms sint_greater_eq [of "le_word data :: u8"] sint_lt [of "le_word data :: u8"]
    sint_greater_eq [of "le_word data :: u16"] sint_lt [of "le_word data :: u16"]
    sint_greater_eq [of "le_word data :: u32"] sint_lt [of "le_word data :: u32"]
    sint_greater_eq [of "le_word data :: u64"] sint_lt [of "le_word data :: u64"]
  by (auto simp del: sint_lt)

lemma stored_unsigned:
  assumes "unsigned_tag t"
  shows "uint (word_of_int (stored_value t data) :: u64) = stored_value t data"
proof -
  have "0 \<le> stored_value t data \<and> stored_value t data < 2 ^ 64"
    using assms uint_lt2p [of "le_word data :: u8"] uint_lt2p [of "le_word data :: u16"]
      uint_lt2p [of "le_word data :: u32"] uint_lt2p [of "le_word data :: u64"] by auto
  then show ?thesis by (simp add: uint_word_of_int)
qed

lemma uint_small: "0 \<le> k \<Longrightarrow> k < 2 ^ 52 \<Longrightarrow> uint (word_of_int k :: u64) = k"
  by (simp add: uint_word_of_int)

text \<open>
  C30: whatever the order in which divisor, modulus and range of an integer type are set, a value of it
  is accepted exactly when the number it stores lies between the bounds times the divisor, provided
  that both bounds are whole numbers whose products with the divisor are smaller than 2^52 in size,
  and not negative where the type is unsigned: the doubles that the setters compute with then lose
  nothing. (A bound such as 0.25 is rounded.)
\<close>

theorem fixed_point_range:
  assumes "numeric_steps cs (numeric_type_new t) = Inr nt" "length data = unat (nt_size nt)"
    and "nt_orig_range nt = \<lparr>nr_kind = NK_FLOAT, nr_min = \<lparr>num_kind = NK_FLOAT, num_bits = double_of_int lo\<rparr>,
      nr_max = \<lparr>num_kind = NK_FLOAT, num_bits = double_of_int hi\<rparr>\<rparr>"
    and "signed_tag t \<or> unsigned_tag t \<and> 0 \<le> lo \<and> 0 \<le> hi"
    and "\<bar>lo\<bar> * int (unat (nt_divisor nt)) < 2 ^ 52" "\<bar>hi\<bar> * int (unat (nt_divisor nt)) < 2 ^ 52"
  shows "numeric_within_range nt data \<longleftrightarrow>
    lo * int (unat (nt_divisor nt)) \<le> stored_value t data \<and> stored_value t data \<le> hi * int (unat (nt_divisor nt))"
proof -
  let ?d = "int (unat (nt_divisor nt))"
  have "numeric_size t \<noteq> None" using assms(4) by auto
  from numeric_steps_scaled [OF numeric_type_new_scaled [OF this] assms(1)] this
  have sc: "range_scaled nt" and t: "nt_type nt = t" by (auto simp: numeric_type_new_def split: option.splits)
  from sc have d: "nt_divisor nt \<noteq> 0" by (simp add: range_scaled_def)
  have range: "scaled_range t (nt_divisor nt) (nt_orig_range nt) = Inr (Some (nt_range nt))"
    using sc t by (simp add: range_scaled_def numeric_has_range_def nrange_is_empty_def assms(3))
  note lo = scaled_exact [OF assms(5) d] and hi = scaled_exact [OF assms(6) d]
  have small: "\<bar>lo * ?d\<bar> < 2 ^ 52" "\<bar>hi * ?d\<bar> < 2 ^ 52" using assms(5,6) by (simp_all add: abs_mult)
  show ?thesis
  proof (cases "signed_tag t")
    case True
    then have "nt_range nt = nrange_int (lo * ?d) (hi * ?d)"
      using range lo(1) hi(1) by (auto simp: scaled_range_def assms(3))
    moreover have "data_to_number nt data = Some (num_int (stored_value t data))"
      using True assms(2) t by auto
    moreover note sint_word64 [OF stored_signed [OF True, of data]]
    ultimately show ?thesis
      by (simp only: numeric_within_range_def nrange_contains_def nrange_int_def option.case nrange.simps
          number.simps number_kind.case sint_small [OF small(1)] sint_small [OF small(2)])
  next
    case False
    with assms(4) have u: "unsigned_tag t" "0 \<le> lo * ?d" "0 \<le> hi * ?d" "0 \<le> lo" "0 \<le> hi" by simp_all
    then have "nt_range nt = nrange_uint (word_of_int (lo * ?d)) (word_of_int (hi * ?d))"
      using range lo(2) hi(2) by (auto simp: scaled_range_def assms(3))
    moreover have "data_to_number nt data = Some (num_uint (word_of_int (stored_value t data)))"
      using u(1) assms(2) t by auto
    moreover note stored_unsigned [OF u(1), of data]
    moreover have "uint (word_of_int (lo * ?d) :: u64) = lo * ?d" "uint (word_of_int (hi * ?d) :: u64) = hi * ?d"
      using small u(2,3) by (simp_all only: uint_small abs_of_nonneg)
    ultimately show ?thesis
      by (simp only: numeric_within_range_def nrange_contains_def nrange_uint_def option.case nrange.simps
          number.simps number_kind.case word_le_def)
  qed
qed

definition demo_range :: nrange where
  "demo_range = \<lparr>nr_kind = NK_FLOAT, nr_min = \<lparr>num_kind = NK_FLOAT, num_bits = double_of_int (- 100)\<rparr>,
     nr_max = \<lparr>num_kind = NK_FLOAT, num_bits = double_of_int 100\<rparr>\<rparr>"

definition demo_fixed :: numeric_type where
  "demo_fixed = (numeric_type_new T_INT16)\<lparr>nt_divisor := 10, nt_orig_range := demo_range,
     nt_range := nrange_int (- 1000) 1000\<rparr>"

lemma demo_steps: "numeric_steps [SetRange demo_range, SetDivisor 10] (numeric_type_new T_INT16) = Inr demo_fixed"
proof -
  have one: "floor_to_int64 (double_add_half (double_mul (double_of_int (- 100)) 1)) = Inr (- 100)"
    "floor_to_int64 (double_add_half (double_mul (double_of_int 100) 1)) = Inr 100"
    using scaled_exact(1) [of "- 100" 1] scaled_exact(1) [of 100 1] by simp_all
  have ten: "floor_to_int64 (double_add_half (double_mul (double_of_int (- 100)) 10)) = Inr (- 1000)"
    "floor_to_int64 (double_add_half (double_mul (double_of_int 100) 10)) = Inr 1000"
    using scaled_exact(1) [of "- 100" 10] scaled_exact(1) [of 100 10] by simp_all
  show ?thesis
    by (simp add: set_range_def set_divisor_def scaled_range_def numeric_type_new_def demo_range_def demo_fixed_def
        numeric_has_range_def nrange_is_empty_def numeric_has_modulus_def one ten)
qed

lemma fixed_point_range_witness:
  "numeric_within_range demo_fixed [232, 3] \<and> \<not> numeric_within_range demo_fixed [233, 3]"
proof -
  have size: "length [232, 3 :: u8] = unat (nt_size demo_fixed)" "length [233, 3 :: u8] = unat (nt_size demo_fixed)"
    "nt_divisor demo_fixed = 10"
    by (simp_all add: demo_fixed_def numeric_type_new_def)
  have range: "nt_orig_range demo_fixed = \<lparr>nr_kind = NK_FLOAT, nr_min = \<lparr>num_kind = NK_FLOAT, num_bits = double_of_int (- 100)\<rparr>,
      nr_max = \<lparr>num_kind = NK_FLOAT, num_bits = double_of_int 100\<rparr>\<rparr>"
    by (simp add: demo_fixed_def demo_range_def)
  show ?thesis
    using fixed_point_range [OF demo_steps size(1) range] fixed_point_range [OF demo_steps size(2) range]
    by (simp add: size(3) le_word_def)
qed

end
