(* ===== verification/Prime_Bound.thy ===== *)
theory Prime_Bound
  imports Complex_Main
begin

text \<open>
  How many primes there are below a bound: the arithmetic behind the table of
  \<open>dclass/util/PrimeNumberGenerator.cpp\<close>. Every number up to \<open>n\<close> divides a product of at most
  \<open>n\<close> for each prime, while the least common multiple of these numbers is at least \<open>2 ^ (n - 1)\<close>.
\<close>

definition is_prime :: "nat \<Rightarrow> bool" where
  "is_prime p \<longleftrightarrow> 1 < p \<and> (\<forall>m. m dvd p \<longrightarrow> m = 1 \<or> m = p)"

lemma is_primeD: "is_prime p \<Longrightarrow> m dvd p \<Longrightarrow> m = 1 \<or> m = p" "is_prime p \<Longrightarrow> 1 < p"
  by (simp_all add: is_prime_def)

lemma prime_divisor:
  assumes "1 < (n :: nat)"
  shows "\<exists>p. is_prime p \<and> p dvd n"
  using assms
proof (induction n rule: less_induct)
  case (less n)
  show ?case
  proof (cases "is_prime n")
    case False
    with less.prems obtain m where m: "m dvd n" "m \<noteq> 1" "m \<noteq> n" by (auto simp: is_prime_def)
    with less.prems have "0 < m" "m \<le> n" by (auto intro: dvd_pos_nat dvd_imp_le)
    with m have "1 < m" "m < n" by simp_all
    with m(1) less.IH [of m] show ?thesis by (meson dvd_trans)
  qed auto
qed

lemma prime_coprime: "is_prime p \<Longrightarrow> \<not> p dvd j \<Longrightarrow> coprime p (j :: nat)"
  by (metis coprime_iff_gcd_eq_1 gcd_dvd1 gcd_dvd2 is_primeD(1))

lemma divisor_split:
  assumes "is_prime p" "0 < (j :: nat)"
  shows "\<exists>a i. j = p ^ a * i \<and> \<not> p dvd i"
  using assms(2)
proof (induction j rule: less_induct)
  case (less j)
  show ?case
  proof (cases "p dvd j")
    case True
    then obtain i where i: "j = p * i" by auto
    with less.prems is_primeD(2) [OF assms(1)] have "i < j" "0 < i" by auto
    from less.IH [OF this] obtain a k where "i = p ^ a * k" "\<not> p dvd k" by auto
    with i have "j = p ^ Suc a * k \<and> \<not> p dvd k" by simp
    then show ?thesis by blast
  next
    case False
    then have "j = p ^ 0 * j \<and> \<not> p dvd j" by simp
    then show ?thesis by blast
  qed
qed

text \<open>A number divides whatever all its prime powers divide.\<close>

lemma dvd_by_prime_powers:
  assumes "0 < (j :: nat)" "\<And>p a. is_prime p \<Longrightarrow> p ^ a dvd j \<Longrightarrow> p ^ a dvd q"
  shows "j dvd q"
  using assms
proof (induction j rule: less_induct)
  case (less j)
  show ?case
  proof (cases "j = 1")
    case False
    with less.prems(1) obtain p where p: "is_prime p" "p dvd j" using prime_divisor [of j] by auto
    obtain a i where j: "j = p ^ a * i" "\<not> p dvd i" using divisor_split [OF p(1) less.prems(1)] by auto
    with p(2) have "a \<noteq> 0" by (cases a) auto
    have i: "0 < i" "i < j"
    proof -
      show "0 < i" using less.prems(1) j(1) by (cases i) auto
      moreover have "1 < p ^ a" using one_less_power [OF is_primeD(2) [OF p(1)]] \<open>a \<noteq> 0\<close> by blast
      ultimately show "i < j" unfolding j(1) by simp
    qed
    have "p ^ a dvd q" using less.prems(2) [OF p(1), of a] j(1) by simp
    moreover have "i dvd q"
      using less.IH [OF i(2,1)] less.prems(2) j(1) by (metis dvd_mult)
    moreover have "coprime (p ^ a) i" using prime_coprime [OF p(1) j(2)] by simp
    ultimately show ?thesis unfolding j(1) by (rule divides_mult)
  qed simp
qed

section \<open>A product that all numbers up to a bound divide\<close>

definition max_power :: "nat \<Rightarrow> nat \<Rightarrow> nat" where
  "max_power n p = (if 1 < p \<and> p \<le> n then p ^ Max {a. p ^ a \<le> n} else 1)"

lemma max_power:
  assumes "1 < p" "p \<le> n"
  shows "max_power n p \<le> n" "p ^ a \<le> n \<Longrightarrow> p ^ a dvd max_power n p"
proof -
  have fin: "finite {a. p ^ a \<le> n}"
  proof (rule finite_subset)
    show "{a. p ^ a \<le> n} \<subseteq> {..n}" using power_gt_expt [of p] assms(1)
      by (auto intro: less_imp_le order.strict_trans2)
  qed simp
  have "0 \<in> {a. p ^ a \<le> n}" using assms by simp
  then have ne: "{a. p ^ a \<le> n} \<noteq> {}" by blast
  show "max_power n p \<le> n" using Max_in [OF fin ne] assms by (simp add: max_power_def)
  show "p ^ a dvd max_power n p" if "p ^ a \<le> n"
    using Max_ge [OF fin, of a] that assms by (simp add: max_power_def le_imp_power_dvd)
qed

definition primes_upto :: "nat \<Rightarrow> nat set" where
  "primes_upto n = {p. is_prime p \<and> p \<le> n}"

lemma finite_primes_upto [simp]: "finite (primes_upto n)"
  by (simp add: primes_upto_def)

definition power_product :: "nat \<Rightarrow> nat" where
  "power_product n = (\<Prod>p \<in> primes_upto n. max_power n p)"

lemma dvd_power_product:
  assumes "0 < j" "j \<le> n"
  shows "j dvd power_product n"
proof (rule dvd_by_prime_powers [OF assms(1)])
  fix p a assume p: "is_prime p" "p ^ a dvd j"
  show "p ^ a dvd power_product n"
  proof (cases "a = 0")
    case False
    have le: "p ^ a \<le> n" using dvd_imp_le [OF p(2) assms(1)] assms(2) by simp
    moreover have "p \<le> p ^ a" using is_primeD(2) [OF p(1)] False by (simp add: self_le_power)
    ultimately have "p \<le> n" by simp
    then have "p ^ a dvd max_power n p" using max_power(2) le is_primeD(2) [OF p(1)] by blast
    moreover have "max_power n p dvd power_product n"
      unfolding power_product_def by (rule dvd_prodI) (use p(1) \<open>p \<le> n\<close> in \<open>auto simp: primes_upto_def\<close>)
    ultimately show ?thesis by (rule dvd_trans)
  qed simp
qed

lemma power_product_le: "power_product n \<le> n ^ card (primes_upto n)"
proof -
  have "power_product n \<le> (\<Prod>p \<in> primes_upto n. n)"
    unfolding power_product_def
  proof (rule prod_mono)
    fix p assume "p \<in> primes_upto n"
    then show "0 \<le> max_power n p \<and> max_power n p \<le> n"
      using max_power(1) [of p n] is_primeD(2) [of p] by (auto simp: primes_upto_def)
  qed
  then show ?thesis by simp
qed

lemma power_product_pos: "0 < power_product n"
  unfolding power_product_def by (rule prod_pos) (simp add: max_power_def)

section \<open>A lower bound for common multiples\<close>

text \<open>\<open>1 / (k * (n choose k))\<close> is an integer over every common multiple of \<open>1, ..., n\<close>.\<close>

lemma leibniz_step:
  assumes "0 < k" "k < n"
  shows "1 / (real k * real (n choose k)) + 1 / (real (Suc k) * real (n choose Suc k))
    = 1 / (real k * real ((n - 1) choose k))"
proof -
  have pos: "0 < n choose k" using assms by simp
  have a: "real (Suc k) * real (n choose Suc k) = real (n - k) * real (n choose k)"
  proof -
    have "Suc k * (n choose Suc k) = (n - k) * (n choose k)"
      using binomial_absorb_comp [of n k] binomial_absorption [of k "n"] assms
      by (metis Suc_times_binomial_add add_diff_inverse_nat binomial_absorption less_imp_le_nat mult.commute not_less)
    then show ?thesis by (metis of_nat_mult)
  qed
  have b: "real n * real ((n - 1) choose k) = real (n - k) * real (n choose k)"
    using binomial_absorb_comp [of n k] by (metis of_nat_mult)
  have nk: "0 < real (n - k)" "real (n - k) = real n - real k" using assms by simp_all
  have c: "real ((n - 1) choose k) = real (n - k) * real (n choose k) / real n"
    using b assms by (simp add: field_simps)
  show ?thesis
    unfolding a c using assms pos nk by (simp add: field_simps)
qed

lemma leibniz_int:
  assumes "\<And>j. 0 < j \<Longrightarrow> j \<le> n \<Longrightarrow> j dvd q" "0 < k" "k \<le> n"
  shows "real q / (real k * real (n choose k)) \<in> \<int>"
  using assms
proof (induction "n - k" arbitrary: n k)
  case 0
  then have "k = n" by simp
  with 0 have "k dvd q" "real (n choose k) = 1" by simp_all
  then show ?case by (metis Ints_of_nat mult.right_neutral of_nat_1 real_of_nat_div)
next
  case (Suc d)
  then have k: "0 < k" "k < n" by simp_all
  have "real q / (real k * real ((n - 1) choose k)) \<in> \<int>"
    by (rule Suc.hyps(1)) (use Suc in auto)
  moreover have "real q / (real (Suc k) * real (n choose Suc k)) \<in> \<int>"
    by (rule Suc.hyps(1)) (use Suc in auto)
  moreover have "real q / (real k * real (n choose k))
      = real q / (real k * real ((n - 1) choose k)) - real q / (real (Suc k) * real (n choose Suc k))"
    using arg_cong [OF leibniz_step [OF k], of "\<lambda>x. real q * x"] by (simp add: algebra_simps)
  ultimately show ?case by (metis Ints_diff)
qed

lemma common_multiple_ge:
  assumes "\<And>j. 0 < j \<Longrightarrow> j \<le> 2 * m \<Longrightarrow> j dvd q" "0 < m" "0 < q"
  shows "4 ^ m \<le> 2 * q"
proof -
  let ?b = "real m * real ((2 * m) choose m)"
  have pos: "0 < ?b" using assms(2) by simp
  have "real q / ?b \<in> \<int>" by (rule leibniz_int) (use assms in auto)
  moreover have "0 < real q / ?b" using pos assms(3) by simp
  ultimately have "1 \<le> real q / ?b" by (metis Ints_cases of_int_0_less_iff of_int_1_le_iff zless_imp_add1_zle add_0)
  then have "?b \<le> real q" using pos by (simp add: field_simps)
  moreover have "4 ^ m \<le> 2 * ?b"
    using central_binomial_lower_bound [OF assms(2)] assms(2) by (simp add: field_simps)
  ultimately have "4 ^ m \<le> 2 * real q" by simp
  then show ?thesis by (metis (mono_tags, opaque_lifting) of_nat_le_iff of_nat_mult of_nat_numeral of_nat_power)
qed

text \<open>There are more than 14500 primes below \<open>2 ^ 18\<close>.\<close>

lemma primes_below_power:
  assumes "0 < e"
  shows "2 ^ e \<le> Suc (e * card (primes_upto (2 ^ e)))"
proof -
  let ?n = "2 ^ e :: nat" and ?m = "2 ^ (e - 1) :: nat"
  have m: "2 * ?m = ?n" using assms by (cases e) simp_all
  have "(4 :: nat) ^ ?m \<le> 2 * power_product ?n"
    by (rule common_multiple_ge) (simp_all only: m dvd_power_product power_product_pos zero_less_power pos2)
  also have "\<dots> \<le> 2 * ?n ^ card (primes_upto ?n)" using power_product_le [of ?n] by simp
  also have "\<dots> = 2 ^ Suc (e * card (primes_upto ?n))" by (simp add: power_mult)
  finally have "(4 :: nat) ^ ?m \<le> 2 ^ Suc (e * card (primes_upto ?n))" .
  moreover have "(4 :: nat) ^ ?m = 2 ^ (2 * ?m)" unfolding power_mult by simp
  ultimately have "(2 :: nat) ^ (2 * ?m) \<le> 2 ^ Suc (e * card (primes_upto ?n))" by (simp only:)
  then have "2 * ?m \<le> Suc (e * card (primes_upto ?n))" by (rule power_le_imp_le_exp [rotated]) simp
  then show ?thesis unfolding m .
qed

lemma many_primes: "14563 \<le> card (primes_upto (2 ^ 18))"
  using primes_below_power [of 18] by simp

end
