(* ===== verification/Hash_Generator.thy ===== *)
theory Hash_Generator
  imports Prelude Prime_Bound "HOL-Library.Infinite_Set"
begin

text \<open>
  \<open>dclass/util/PrimeNumberGenerator.cpp\<close> and \<open>dclass/util/HashGenerator.cpp\<close>: the table of prime
  numbers that grows when a larger index is read, and the hash of a sequence of integers. The
  table is the static object \<open>PrimeNumberGenerator::singleton\<close>, so it is part of the state that
  the operations of a \<open>HashGenerator\<close> pass on.
\<close>

section \<open>The table of primes\<close>

text \<open>
  The inner loop of \<open>operator []\<close>, from the table's \<open>j\<close>-th entry on: the result is \<open>maybe_prime\<close>.
  The squares and products are those of \<open>unsigned int\<close>, and reading past the table's end is
  undefined behaviour.
\<close>

primrec trial_division :: "u32 \<Rightarrow> u32 list \<Rightarrow> bool res" where
  "trial_division candidate [] = Inl HeapOverread"
| "trial_division candidate (p # primes) =
     (if p * p \<le> candidate
      then if p * (candidate div p) = candidate then Inr False else trial_division candidate primes
      else Inr True)"

text \<open>The outer loop, with fuel.\<close>

primrec grow_table :: "nat \<Rightarrow> u32 \<Rightarrow> u32 list \<Rightarrow> u32 \<Rightarrow> u32 list res" where
  "grow_table 0 n primes candidate = Inl NoReturn"
| "grow_table (Suc fuel) n primes candidate =
     (if length primes \<le> unat n
      then rbind (trial_division candidate primes) (\<lambda>maybe_prime.
             grow_table fuel n (if maybe_prime then primes @ [candidate] else primes) (candidate + 1))
      else Inr primes)"

definition table_new :: "u32 list" where
  "table_new = [2]"

definition nth_prime :: "u32 \<Rightarrow> u32 list \<Rightarrow> (u32 \<times> u32 list) res" where
  "nth_prime n primes =
     rbind (grow_table (2 ^ 32) n primes (last primes + 1)) (\<lambda>primes'. Inr (primes' ! unat n, primes'))"

section \<open>Trial division decides primality\<close>

lemma prime_by_divisors:
  assumes "1 < (n :: nat)" "\<And>p. is_prime p \<Longrightarrow> p < n \<Longrightarrow> p * p \<le> n \<Longrightarrow> \<not> p dvd n"
  shows "is_prime n"
  unfolding is_prime_def
proof (intro conjI allI impI)
  fix m assume "m dvd n"
  then obtain k where k: "n = m * k" by auto
  have small: "a = 1" if "n = a * b" "a \<le> b" for a b
  proof (rule ccontr)
    assume "a \<noteq> 1"
    moreover have "0 < a" using that assms(1) by (cases a) auto
    ultimately have "1 < a" by simp
    then obtain p where p: "is_prime p" "p dvd a" using prime_divisor by blast
    then have "p \<le> a" using \<open>0 < a\<close> by (simp add: dvd_imp_le)
    then have "p * p \<le> n" unfolding that(1) using that(2) by (intro mult_le_mono) auto
    moreover have "p dvd n" using p(2) that(1) by simp
    moreover have "p < p * p" using is_primeD(2) [OF p(1)] by simp
    then have "p < n" using \<open>p * p \<le> n\<close> by (rule less_le_trans)
    ultimately show False using assms(2) p(1) by blast
  qed
  show "m = 1 \<or> m = n"
    using small [of m k] small [of k m] k by (cases "m \<le> k") (auto simp: mult.commute)
qed (rule assms(1))

lemma prime_iff_divisors:
  assumes "1 < (n :: nat)"
  shows "is_prime n \<longleftrightarrow> (\<forall>p. is_prime p \<and> p < n \<and> p * p \<le> n \<longrightarrow> \<not> p dvd n)"
  using prime_by_divisors [OF assms] is_primeD [of n] by (metis is_primeD(2) less_irrefl)

lemma prime_by_trial:
  assumes "1 < (n :: nat)" "n < k * k" "\<forall>m \<in> set [2..<k]. n mod m \<noteq> 0"
  shows "is_prime n"
proof (rule prime_by_divisors [OF assms(1)])
  fix p assume p: "is_prime p" "p * p \<le> n"
  then have "p * p < k * k" using assms(2) by simp
  then have "p < k" using mult_le_mono [of k p k p] by (metis not_le)
  then have "p \<in> set [2..<k]" using is_primeD(2) [OF p(1)] by simp
  then show "\<not> p dvd n" using assms(3) by (metis dvd_eq_mod_eq_0)
qed

lemma word_divides: "p * (c div p) = c \<longleftrightarrow> unat p dvd unat (c :: u32)"
proof -
  have "unat p * (unat c div unat p) \<le> unat c" by (rule times_div_less_eq_dividend)
  then have "unat p * (unat c div unat p) < 2 ^ 32" using unsigned_less [of c, where ?'a = nat] by (simp del: times_div_less_eq_dividend)
  then have "unat (p * (c div p)) = unat p * (unat c div unat p)"
    by (simp add: unat_word_ariths(2) unat_div_distrib)
  then show ?thesis
    by (metis dvd_mult_div_cancel dvd_triv_left word_unat_eq_iff)
qed

lemma square_no_wrap: "unat p < 2 ^ 16 \<Longrightarrow> unat ((p :: u32) * p) = unat p * unat p"
proof -
  assume "unat p < 2 ^ 16"
  then have "unat p * unat p < 2 ^ 16 * 2 ^ 16" by (intro mult_strict_mono) simp_all
  then show ?thesis by (simp add: unat_word_ariths)
qed

lemma trial_division_scan:
  assumes "sorted (map unat ps)" "q \<in> set ps" "unat candidate < unat q * unat q" "unat q < 2 ^ 16"
  shows "trial_division candidate ps =
    Inr (\<forall>p \<in> set ps. unat p * unat p \<le> unat candidate \<longrightarrow> \<not> unat p dvd unat candidate)"
  using assms
proof (induction ps)
  case (Cons p ps)
  from Cons.prems have le: "unat p \<le> unat q" by auto
  then have sq: "p * p \<le> candidate \<longleftrightarrow> unat p * unat p \<le> unat candidate"
    using square_no_wrap [of p] Cons.prems(4) by (simp add: word_le_nat_alt)
  show ?case
  proof (cases "unat p * unat p \<le> unat candidate")
    case True
    with Cons.prems(3) have "p \<noteq> q" by auto
    with Cons have "trial_division candidate ps =
        Inr (\<forall>p \<in> set ps. unat p * unat p \<le> unat candidate \<longrightarrow> \<not> unat p dvd unat candidate)" by auto
    with True sq show ?thesis by (simp add: word_divides)
  next
    case False
    have "\<not> unat p' * unat p' \<le> unat candidate" if "p' \<in> set ps" for p'
    proof -
      have "unat p \<le> unat p'" using that Cons.prems(1) by auto
      then have "unat p * unat p \<le> unat p' * unat p'" by (rule mult_le_mono) fact
      with False show ?thesis by simp
    qed
    with False sq show ?thesis by auto
  qed
qed simp

section \<open>The table holds the primes in order\<close>

abbreviation primes :: "nat set" where
  "primes \<equiv> {p. is_prime p}"

lemma infinite_primes: "infinite primes"
proof
  assume fin: "finite primes"
  obtain p where p: "is_prime p" "p dvd Suc (\<Prod>primes)" using prime_divisor [of "Suc (\<Prod>primes)"] fin
    by (auto simp: is_prime_def intro!: prod_pos)
  then have "p dvd \<Prod>primes" using fin by (intro dvd_prodI) simp_all
  with p show False using dvd_diff_nat [of p "Suc (\<Prod>primes)" "\<Prod>primes"] by (auto dest: is_primeD(2))
qed

lemma enumerate_prime [simp]: "is_prime (enumerate primes n)"
  using enumerate_in_set [OF infinite_primes] by simp

lemma prime_between:
  assumes "is_prime p" "n = 0 \<or> enumerate primes (n - 1) < p" "p \<le> enumerate primes n"
  shows "p = enumerate primes n"
proof -
  obtain j where j: "p = enumerate primes j" using enumerate_Ex [OF infinite_primes, of p] assms(1) by auto
  have "j \<le> n" using assms(3) infinite_primes by (simp add: j)
  moreover have "n \<le> j" using assms(2) infinite_primes by (auto simp: j)
  ultimately show ?thesis using j by simp
qed

lemma enumerate_below: "enumerate primes 9999 \<le> 2 ^ 18"
proof (rule ccontr)
  assume big: "\<not> enumerate primes 9999 \<le> 2 ^ 18"
  have "primes_upto (2 ^ 18) \<subseteq> enumerate primes ` {..<9999}"
  proof
    fix p assume p: "p \<in> primes_upto (2 ^ 18)"
    then obtain j where j: "p = enumerate primes j"
      using enumerate_Ex [OF infinite_primes, of p] by (auto simp: primes_upto_def)
    with p big have "enumerate primes j < enumerate primes 9999" by (simp add: primes_upto_def)
    then show "p \<in> enumerate primes ` {..<9999}" using infinite_primes j by auto
  qed
  then have "card (primes_upto (2 ^ 18)) \<le> card (enumerate primes ` {..<9999})" by (rule card_mono [rotated]) simp
  also have "\<dots> \<le> card {..<9999 :: nat}" by (rule card_image_le) simp
  finally show False using many_primes by simp
qed

lemma nth_prime_below: "n < 10000 \<Longrightarrow> enumerate primes n \<le> 2 ^ 18"
  using enumerate_mono_le_iff [OF infinite_primes, of n 9999] enumerate_below by simp

lemma is_prime_2: "is_prime 2" and is_prime_3: "is_prime 3" and is_prime_7: "is_prime 7"
  and is_prime_47: "is_prime 47" and is_prime_521: "is_prime 521"
proof -
  show "is_prime 2" by (rule prime_by_trial [where k = 2]) code_simp+
  show "is_prime 3" by (rule prime_by_trial [where k = 2]) code_simp+
  show "is_prime 7" by (rule prime_by_trial [where k = 3]) code_simp+
  show "is_prime 47" by (rule prime_by_trial [where k = 7]) code_simp+
  show "is_prime 521" by (rule prime_by_trial [where k = 23]) code_simp+
qed

text \<open>The table never runs out: a prime below the candidate has a larger square.\<close>

lemma square_above:
  assumes "3 \<le> c" "c \<le> 2 ^ 18"
  shows "\<exists>q. is_prime q \<and> q < c \<and> c < q * q \<and> q < 2 ^ 16"
proof -
  consider "c = 3" | "4 \<le> c \<and> c < 9" | "8 \<le> c \<and> c < 49" | "48 \<le> c \<and> c < 2209" | "522 \<le> c \<and> c < 271441"
    using assms by fastforce
  then show ?thesis
    using is_prime_2 is_prime_3 is_prime_7 is_prime_47 is_prime_521
    by cases (force intro: exI [of _ 2] exI [of _ 3] exI [of _ 7] exI [of _ 47] exI [of _ 521])+
qed

definition prime_table :: "u32 list \<Rightarrow> bool" where
  "prime_table ps \<longleftrightarrow> ps \<noteq> [] \<and> length ps \<le> 10000 \<and> map unat ps = map (enumerate primes) [0..<length ps]"

lemma prime_table_nth:
  assumes "prime_table ps" "i < length ps"
  shows "unat (ps ! i) = enumerate primes i"
proof -
  have "map unat ps ! i = map (enumerate primes) [0..<length ps] ! i" using assms(1) by (simp add: prime_table_def)
  with assms(2) show ?thesis by simp
qed

lemma enumerate_0: "enumerate primes 0 = 2"
  using prime_between [of 2 0] is_prime_2 is_primeD(2) [OF enumerate_prime [of 0]] by simp

lemma prime_table_new [simp]: "prime_table table_new"
  by (simp add: prime_table_def table_new_def enumerate_0)

lemma prime_table_snoc:
  assumes "prime_table ps" "length ps < 10000" "unat c = enumerate primes (length ps)"
  shows "prime_table (ps @ [c])"
  using assms by (simp add: prime_table_def)

lemma prime_table_sorted: "prime_table ps \<Longrightarrow> sorted (map unat ps)"
  using infinite_primes by (simp add: prime_table_def sorted_iff_nth_mono)

lemma prime_table_set:
  assumes "prime_table ps" "enumerate primes (length ps - 1) < c" "c \<le> enumerate primes (length ps)"
  shows "unat ` set ps = {p. is_prime p \<and> p < c}"
proof (intro set_eqI iffI)
  have len: "0 < length ps" using assms(1) by (simp add: prime_table_def)
  fix p
  have img: "unat ` set ps = enumerate primes ` {..<length ps}"
  proof -
    have "set (map unat ps) = set (map (enumerate primes) [0..<length ps])" using assms(1) by (simp add: prime_table_def)
    then show ?thesis by (simp only: set_map set_upt atLeast0LessThan)
  qed
  show "p \<in> {p. is_prime p \<and> p < c}" if "p \<in> unat ` set ps"
  proof -
    from that obtain j where j: "j < length ps" "p = enumerate primes j" unfolding img by auto
    then have "enumerate primes j \<le> enumerate primes (length ps - 1)" using infinite_primes len by simp
    with assms(2) j show ?thesis by simp
  qed
  assume p: "p \<in> {p. is_prime p \<and> p < c}"
  then obtain j where j: "p = enumerate primes j" using enumerate_Ex [OF infinite_primes, of p] by auto
  with p assms(3) have "enumerate primes j < enumerate primes (length ps)" by simp
  then show "p \<in> unat ` set ps" unfolding img using infinite_primes j by simp
qed

lemma trial_division_prime:
  assumes table: "prime_table ps"
    and c: "enumerate primes (length ps - 1) < unat c" "unat c \<le> enumerate primes (length ps)" "unat c \<le> 2 ^ 18"
  shows "trial_division c ps = Inr (is_prime (unat c))"
proof -
  have set: "unat ` set ps = {p. is_prime p \<and> p < unat c}" by (rule prime_table_set [OF table c(1,2)])
  have two: "1 < unat c" using c(1) is_primeD(2) [OF enumerate_prime [of "length ps - 1"]] by simp
  have "3 \<le> unat c"
    using c(1) is_primeD(2) [OF enumerate_prime [of "length ps - 1"]] by simp
  then obtain q where q: "is_prime q" "q < unat c" "unat c < q * q" "q < 2 ^ 16" using square_above c(3) by blast
  then have "q \<in> unat ` set ps" unfolding set by simp
  then obtain w where w: "w \<in> set ps" "unat w = q" by auto
  have "trial_division c ps = Inr (\<forall>p \<in> set ps. unat p * unat p \<le> unat c \<longrightarrow> \<not> unat p dvd unat c)"
    by (rule trial_division_scan [OF prime_table_sorted [OF table] w(1)]) (simp_all only: w(2) q)
  also have "(\<forall>p \<in> set ps. unat p * unat p \<le> unat c \<longrightarrow> \<not> unat p dvd unat c)
      \<longleftrightarrow> (\<forall>p \<in> unat ` set ps. p * p \<le> unat c \<longrightarrow> \<not> p dvd unat c)" by blast
  also have "\<dots> \<longleftrightarrow> is_prime (unat c)" unfolding set prime_iff_divisors [OF two] by blast
  finally show ?thesis .
qed

lemma unat_suc_small: "unat (c :: u32) \<le> 2 ^ 18 \<Longrightarrow> unat (c + 1) = Suc (unat c)"
  by (simp add: unat_word_ariths)

text \<open>The fuel needed is what separates the candidate from the prime looked for.\<close>

lemma grow_table_primes:
  assumes "prime_table ps" "unat n < 10000"
    and "length ps \<le> unat n \<Longrightarrow> enumerate primes (length ps - 1) < unat c \<and> unat c \<le> enumerate primes (length ps)
      \<and> enumerate primes (unat n) + 2 \<le> unat c + fuel"
    and "0 < fuel"
  shows "\<exists>ps'. grow_table fuel n ps c = Inr ps' \<and> prime_table ps' \<and> unat n < length ps'"
  using assms
proof (induction fuel arbitrary: ps c)
  case (Suc fuel)
  show ?case
  proof (cases "length ps \<le> unat n")
    case True
    note c = Suc.prems(3) [OF True]
    have "enumerate primes (length ps) \<le> enumerate primes (unat n)" using infinite_primes True by simp
    with c nth_prime_below [OF Suc.prems(2)] have le: "unat c \<le> enumerate primes (unat n)" "unat c \<le> 2 ^ 18" by linarith+
    let ?ps = "if is_prime (unat c) then ps @ [c] else ps"
    have trial: "trial_division c ps = Inr (is_prime (unat c))"
      using trial_division_prime [OF Suc.prems(1)] c le(2) by blast
    have len: "0 < length ps" using Suc.prems(1) by (simp add: prime_table_def)
    have eq: "unat c = enumerate primes (length ps)" if "is_prime (unat c)"
      by (rule prime_between [OF that]) (use c in auto)
    have "prime_table ?ps"
      using Suc.prems(1,2) True eq prime_table_snoc [of ps c] by (simp split: if_split)
    moreover have "enumerate primes (length ?ps - 1) < unat (c + 1) \<and> unat (c + 1) \<le> enumerate primes (length ?ps)
        \<and> enumerate primes (unat n) + 2 \<le> unat (c + 1) + fuel"
    proof (cases "is_prime (unat c)")
      case True
      then show ?thesis
        using eq c unat_suc_small [OF le(2)] enumerate_step [OF infinite_primes, of "length ps"] by (simp add: Suc_le_eq)
    next
      case False
      then have "unat c \<noteq> enumerate primes (length ps)" by (metis enumerate_prime)
      with False c unat_suc_small [OF le(2)] show ?thesis by simp
    qed
    moreover have "0 < fuel" using c le(1) by (cases fuel) simp_all
    ultimately have "\<exists>ps'. grow_table fuel n ?ps (c + 1) = Inr ps' \<and> prime_table ps' \<and> unat n < length ps'"
      using Suc.IH [of ?ps "c + 1"] Suc.prems(2) by blast
    then show ?thesis using True trial by simp
  qed (use Suc.prems(1) in simp)
qed simp

lemma nth_prime_right:
  assumes "prime_table ps" "unat n < 10000"
  shows "\<exists>p ps'. nth_prime n ps = Inr (p, ps') \<and> unat p = enumerate primes (unat n) \<and> prime_table ps'"
proof -
  have ne: "ps \<noteq> []" using assms(1) by (simp add: prime_table_def)
  then have last: "unat (last ps) = enumerate primes (length ps - 1)"
    using prime_table_nth [OF assms(1), of "length ps - 1"] by (simp add: last_conv_nth)
  have "length ps - 1 < 10000" using assms(1) ne by (auto simp: prime_table_def)
  then have c: "unat (last ps + 1) = Suc (enumerate primes (length ps - 1))"
    using unat_suc_small [of "last ps"] nth_prime_below last by simp
  have "enumerate primes (length ps - 1) < enumerate primes (length ps)" using infinite_primes ne by simp
  moreover have "enumerate primes (unat n) \<le> 2 ^ 18" by (rule nth_prime_below [OF assms(2)])
  ultimately have "\<exists>ps'. grow_table (2 ^ 32) n ps (last ps + 1) = Inr ps' \<and> prime_table ps' \<and> unat n < length ps'"
    using c by (intro grow_table_primes [OF assms]) simp_all
  then show ?thesis using prime_table_nth by (auto simp: nth_prime_def simp del: grow_table.simps)
qed

section \<open>The hash of a sequence of integers\<close>

text \<open>\<open>hg_primes\<close> is the table of the static prime number generator.\<close>

record hash_gen =
  hg_hash :: u32
  hg_index :: u32
  hg_primes :: "u32 list"

definition hash_gen_new :: "u32 list \<Rightarrow> hash_gen" where
  "hash_gen_new ps = \<lparr>hg_hash = 0, hg_index = 0, hg_primes = ps\<rparr>"

text \<open>
  \<open>add_int\<close>: an \<open>int\<close> is its 32 bits; it is converted to \<open>unsigned int\<close> before the product.
\<close>

definition add_int :: "u32 \<Rightarrow> hash_gen \<Rightarrow> hash_gen res" where
  "add_int num g =
     rbind (nth_prime (hg_index g) (hg_primes g)) (\<lambda>(p, ps).
       Inr (g\<lparr>hg_hash := hg_hash g + p * num, hg_index := (hg_index g + 1) mod 10000, hg_primes := ps\<rparr>))"

primrec add_ints :: "u32 list \<Rightarrow> hash_gen \<Rightarrow> hash_gen res" where
  "add_ints [] g = Inr g"
| "add_ints (x # xs) g = rbind (add_int x g) (add_ints xs)"

text \<open>A \<open>char\<close> is signed on the platforms built for, so it is widened with its sign.\<close>

definition char_int :: "char \<Rightarrow> u32" where
  "char_int c = scast (of_char c :: u8)"

definition add_string :: "string \<Rightarrow> hash_gen \<Rightarrow> hash_gen res" where
  "add_string str g = rbind (add_int (word_of_nat (length str)) g) (add_ints (map char_int str))"

unbundle bit_operations_syntax

definition get_hash :: "hash_gen \<Rightarrow> u32" where
  "get_hash g = hg_hash g AND 0xffffffff"

definition hash_ready :: "hash_gen \<Rightarrow> bool" where
  "hash_ready g \<longleftrightarrow> prime_table (hg_primes g) \<and> unat (hg_index g) < 10000"

definition weight :: "nat \<Rightarrow> u32" where
  "weight i = word_of_nat (enumerate primes (i mod 10000))"

lemma hash_ready_new [simp]: "prime_table ps \<Longrightarrow> hash_ready (hash_gen_new ps)"
  by (simp add: hash_ready_def hash_gen_new_def)

lemma get_hash_eq [simp]: "get_hash g = hg_hash g"
proof -
  have "(0xffffffff :: u32) = - 1" by simp
  then show ?thesis unfolding get_hash_def by (metis and.right_neutral)
qed

lemma add_int_ready:
  assumes "hash_ready g"
  shows "\<exists>g'. add_int x g = Inr g' \<and> hash_ready g'
    \<and> hg_hash g' = hg_hash g + weight (unat (hg_index g)) * x
    \<and> unat (hg_index g') = Suc (unat (hg_index g)) mod 10000"
proof -
  from assms have ok: "prime_table (hg_primes g)" "unat (hg_index g) < 10000" by (simp_all add: hash_ready_def)
  from nth_prime_right [OF this] obtain p ps where np: "nth_prime (hg_index g) (hg_primes g) = Inr (p, ps)"
    "unat p = enumerate primes (unat (hg_index g))" "prime_table ps" by blast
  have "p = word_of_nat (enumerate primes (unat (hg_index g)))" unfolding np(2) [symmetric] by simp
  moreover have "unat (hg_index g + 1) = Suc (unat (hg_index g))" using ok(2) by (simp add: unat_word_ariths)
  then have "unat ((hg_index g + 1) mod 10000) = Suc (unat (hg_index g)) mod 10000" by (simp add: unat_mod_distrib)
  ultimately show ?thesis using np(1,3) ok(2) by (simp add: add_int_def hash_ready_def weight_def)
qed

lemma weight_mod [simp]: "weight (i mod 10000) = weight i"
  by (simp add: weight_def)

text \<open>Adding the integers \<open>xs\<close> from a generator that has taken \<open>k\<close> integers before.\<close>

lemma add_ints_ready:
  assumes "hash_ready g" "unat (hg_index g) = k mod 10000"
  shows "\<exists>g'. add_ints xs g = Inr g' \<and> hash_ready g'
    \<and> hg_hash g' = hg_hash g + (\<Sum>i<length xs. weight (k + i) * xs ! i)
    \<and> unat (hg_index g') = (k + length xs) mod 10000"
  using assms
proof (induction xs arbitrary: g k)
  case (Cons x xs)
  obtain g1 where g1: "add_int x g = Inr g1" "hash_ready g1" "hg_hash g1 = hg_hash g + weight k * x"
    "unat (hg_index g1) = Suc k mod 10000"
    using add_int_ready [OF Cons.prems(1), of x] Cons.prems(2) by (auto simp: mod_Suc_eq)
  from Cons.IH [OF g1(2,4)] obtain g' where g': "add_ints xs g1 = Inr g'" "hash_ready g'"
    "hg_hash g' = hg_hash g1 + (\<Sum>i<length xs. weight (Suc k + i) * xs ! i)"
    "unat (hg_index g') = (Suc k + length xs) mod 10000" by blast
  have "(\<Sum>i<length (x # xs). weight (k + i) * (x # xs) ! i)
      = weight k * x + (\<Sum>i<length xs. weight (Suc k + i) * xs ! i)"
    by (simp only: length_Cons sum.lessThan_Suc_shift) simp
  with g1 g' show ?case by simp
qed simp

lemma card_smaller_primes: "card {q. is_prime q \<and> q < enumerate primes m} = m"
proof -
  have "{q. is_prime q \<and> q < enumerate primes m} = enumerate primes ` {..<m}"
  proof (intro set_eqI iffI)
    fix q assume q: "q \<in> {q. is_prime q \<and> q < enumerate primes m}"
    then obtain j where "q = enumerate primes j" using enumerate_Ex [OF infinite_primes, of q] by auto
    with q show "q \<in> enumerate primes ` {..<m}" using infinite_primes by simp
  qed (use infinite_primes in auto)
  moreover have "inj_on (enumerate primes) {..<m}"
    by (rule inj_onI) (metis enumerate_mono_le_iff [OF infinite_primes] order_antisym order_refl)
  ultimately show ?thesis by (simp add: card_image)
qed

text \<open>Indexing the table gives the prime numbers in order: the entry \<open>n\<close>, for any of the 10000
  indices the hash uses, is the prime with exactly \<open>n\<close> smaller ones. The loop ends, no product of
  the trial division wraps into a wrong answer, and the scan never reads past the table's end.\<close>

theorem primes_in_order:
  assumes "prime_table ps" "unat n < 10000"
  shows "\<exists>p ps'. nth_prime n ps = Inr (p, ps') \<and> prime_table ps'
    \<and> is_prime (unat p) \<and> card {q. is_prime q \<and> q < unat p} = unat n"
proof -
  obtain p ps' where "nth_prime n ps = Inr (p, ps')" "unat p = enumerate primes (unat n)" "prime_table ps'"
    using nth_prime_right [OF assms] by blast
  moreover from this have "is_prime (unat p) \<and> card {q. is_prime q \<and> q < unat p} = unat n"
    by (simp add: card_smaller_primes)
  ultimately show ?thesis by blast
qed

lemma primes_in_order_witness:
  "\<exists>p ps'. nth_prime 9999 table_new = Inr (p, ps') \<and> is_prime (unat p)
    \<and> card {q. is_prime q \<and> q < unat p} = 9999"
  using primes_in_order [of table_new 9999] by force

text \<open>C32: the hash of a sequence of integers is the sum of the integers, each times the prime of its
  place, modulo \<open>2 ^ 32\<close>; the primes are used again from the first after 10000 integers.\<close>

theorem hash_is_weighted_sum:
  assumes "prime_table ps"
  shows "\<exists>g. add_ints xs (hash_gen_new ps) = Inr g
    \<and> get_hash g = (\<Sum>i<length xs. word_of_nat (enumerate {p. is_prime p} (i mod 10000)) * xs ! i)"
  using add_ints_ready [of "hash_gen_new ps" 0 xs] assms by (auto simp: hash_gen_new_def weight_def hash_ready_def)

lemma hash_is_weighted_sum_witness:
  "\<exists>g. add_ints [7, 1, 5] (hash_gen_new table_new) = Inr g
    \<and> get_hash g = (\<Sum>i<3. word_of_nat (enumerate {p. is_prime p} (i mod 10000)) * [7, 1, 5] ! i)"
  using hash_is_weighted_sum [OF prime_table_new, of "[7, 1, 5]"] by (simp add: numeral_3_eq_3)

end
