(* ===== verification/Legacy_Hash.thy ===== *)
theory Legacy_Hash
  imports Numeric_Types DClass_File Hash_Generator
begin

text \<open>
  \<open>dclass/file/hash_legacy.cpp\<close>: the hash of a dclass file that the client agent compares with a
  client's at login. The functions call each other along the types, and along the heap of classes
  where a type is a class; the argument \<open>n\<close> bounds how often a class is entered in a class.
\<close>

type_synonym hash_op = "hash_gen \<Rightarrow> hash_gen res"

definition hseq :: "hash_op \<Rightarrow> hash_op \<Rightarrow> hash_op" where
  "hseq h h' g = rbind (h g) h'"

definition hash_nothing :: hash_op where
  "hash_nothing g = Inr g"

definition hash_fail :: "exn \<Rightarrow> hash_op" where
  "hash_fail e g = Inl e"

primrec hash_each :: "('a \<Rightarrow> hash_op) \<Rightarrow> 'a list \<Rightarrow> hash_op" where
  "hash_each h [] = hash_nothing"
| "hash_each h (x # xs) = hseq (h x) (hash_each h xs)"

definition add_size :: "nat \<Rightarrow> hash_op" where
  "add_size n = add_int (word_of_nat n)"

section \<open>Keywords\<close>

text \<open>The nine keywords of \<open>legacy_keywords\<close> with their flags.\<close>

definition legacy_keywords :: "(string \<times> u32) list" where
  "legacy_keywords = [(''required'', 0x0001), (''broadcast'', 0x0002), (''ownrecv'', 0x0004), (''ram'', 0x0008),
     (''db'', 0x0010), (''clsend'', 0x0020), (''clrecv'', 0x0040), (''ownsend'', 0x0080), (''airecv'', 0x0100)]"

text \<open>
  The loops of \<open>hash_keywords\<close>. A keyword that is none of the nine is compared with the null
  pointer that ends the table (and the loop, which counts to the table's size in bytes, would go
  on behind the table), so no iteration ends with \<open>set_flag\<close> false: the flags are never \<open>~0\<close>, and
  the code that hashes the names is not reached.
\<close>

fun keyword_flags :: "u32 \<Rightarrow> string list \<Rightarrow> u32 res" where
  "keyword_flags flags [] = Inr flags"
| "keyword_flags flags (k # ks) =
     (case map_of legacy_keywords k of
        None \<Rightarrow> Inl DanglingReference
      | Some f \<Rightarrow> keyword_flags (or flags f) ks)"

definition hash_keywords :: "string list \<Rightarrow> hash_op" where
  "hash_keywords kws g = rbind (keyword_flags 0 kws) (\<lambda>flags. add_int flags g)"

section \<open>Numbers\<close>

text \<open>The conversions from \<open>double\<close> to \<open>int\<close> and \<open>unsigned int\<close>, which truncate.\<close>

definition truncate_to_int :: "u64 \<Rightarrow> u32 res" where
  "truncate_to_int b =
     (let n = int (double_mag b div 2 ^ unit_bits); v = (if double_negative b then - n else n) in
      if double_finite b \<and> - (2 ^ 31) \<le> v \<and> v < 2 ^ 31 then Inr (word_of_int v) else Inl UndefinedConversion)"

definition floor_to_int :: "u64 \<Rightarrow> u32 res" where
  "floor_to_int b =
     (let n = double_units b div 2 ^ unit_bits in
      if double_finite b \<and> - (2 ^ 31) \<le> n \<and> n < 2 ^ 31 then Inr (word_of_int n) else Inl UndefinedConversion)"

definition floor_to_uint :: "u64 \<Rightarrow> u32 res" where
  "floor_to_uint b =
     (let n = double_units b div 2 ^ unit_bits in
      if double_finite b \<and> 0 \<le> n \<and> n < 2 ^ 32 then Inr (word_of_int n) else Inl UndefinedConversion)"

definition add_converted :: "u32 res \<Rightarrow> hash_op" where
  "add_converted r g = rbind r (\<lambda>x. add_int x g)"

definition hash_int_type :: "numeric_type \<Rightarrow> hash_op" where
  "hash_int_type nt =
     (let scaled = (\<lambda>b. double_add_half (double_mul b (nt_divisor nt))) in
      hseq (add_int (nt_divisor nt))
       (hseq (if numeric_has_modulus nt then add_converted (floor_to_uint (scaled (nt_modulus nt))) else hash_nothing)
         (if numeric_has_range nt
          then hseq (add_int 1)
                (hseq (add_converted (floor_to_int (scaled (num_bits (nr_min (nt_orig_range nt))))))
                  (add_converted (floor_to_int (scaled (num_bits (nr_max (nt_orig_range nt)))))))
          else hash_nothing)))"

definition hash_float_type :: "numeric_type \<Rightarrow> hash_op" where
  "hash_float_type nt =
     (let scaled = (\<lambda>b. double_mul b (nt_divisor nt)) in
      hseq (add_int (nt_divisor nt))
       (hseq (if numeric_has_modulus nt then add_converted (truncate_to_int (scaled (nt_modulus nt))) else hash_nothing)
         (if numeric_has_range nt
          then hseq (add_int 1)
                (hseq (add_converted (truncate_to_int (scaled (num_bits (nr_min (nt_orig_range nt))))))
                  (add_converted (truncate_to_int (scaled (num_bits (nr_max (nt_orig_range nt)))))))
          else hash_nothing)))"

text \<open>The tags of \<open>LegacyType\<close>; \<open>L_FLOAT64\<close>, \<open>L_STRING\<close> and \<open>L_BLOB\<close> are 8, 9 and 10.\<close>

fun legacy_int_tag :: "type_tag \<Rightarrow> u32 option" where
  "legacy_int_tag T_INT8 = Some 0"
| "legacy_int_tag T_INT16 = Some 1"
| "legacy_int_tag T_INT32 = Some 2"
| "legacy_int_tag T_INT64 = Some 3"
| "legacy_int_tag T_UINT8 = Some 4"
| "legacy_int_tag T_UINT16 = Some 5"
| "legacy_int_tag T_UINT32 = Some 6"
| "legacy_int_tag T_UINT64 = Some 7"
| "legacy_int_tag T_CHAR = Some 19"
| "legacy_int_tag _ = None"

definition hash_numeric :: "numeric_type \<Rightarrow> hash_op" where
  "hash_numeric nt =
     (case legacy_int_tag (nt_type nt) of
        Some tag \<Rightarrow> hseq (add_int tag) (hash_int_type nt)
      | None \<Rightarrow> if nt_type nt = T_FLOAT64 then hseq (add_int 8) (hash_float_type nt) else hash_nothing)"

section \<open>Types, fields and classes\<close>

definition hash_size_range :: "nrange \<Rightarrow> hash_op" where
  "hash_size_range r =
     (if nrange_is_empty r then hash_nothing
      else hseq (add_int 1)
            (hseq (add_int (ucast (num_bits (nr_min r)))) (add_int (ucast (num_bits (nr_max r))))))"

text \<open>
  \<open>hash_legacy_type\<close>, \<open>hash_field\<close>, \<open>hash_parameter\<close> and \<open>hash_struct\<close>; \<open>hc\<close> is \<open>hash_class\<close>.
\<close>

fun hash_legacy_type :: "(cref \<Rightarrow> hash_op) \<Rightarrow> dtype \<Rightarrow> hash_op"
and hash_field :: "(cref \<Rightarrow> hash_op) \<Rightarrow> field \<Rightarrow> hash_op"
and hash_fields :: "(cref \<Rightarrow> hash_op) \<Rightarrow> field list \<Rightarrow> hash_op"
and hash_parameters :: "(cref \<Rightarrow> hash_op) \<Rightarrow> param list \<Rightarrow> hash_op" where
  "hash_legacy_type hc TInvalid = hash_nothing"
| "hash_legacy_type hc (TNumeric nt) = hash_numeric nt"
| "hash_legacy_type hc (TArray tag sz e n r al) =
     (if tag = T_ARRAY \<or> tag = T_VARARRAY then hseq (hash_legacy_type hc e) (hash_size_range r)
      else if tag = T_BLOB \<or> tag = T_VARBLOB
      then hseq (add_int (if al = ''blob'' then 10 else 4)) (hseq (add_int 1) (hash_size_range r))
      else if tag = T_STRING \<or> tag = T_VARSTRING
      then hseq (add_int (if al = ''string'' then 9 else 19)) (hseq (add_int 1) (hash_size_range r))
      else hash_nothing)"
| "hash_legacy_type hc (TStruct sz fs c name sc) =
     (case sc of
        Some cls \<Rightarrow> hc cls
      | None \<Rightarrow>
          hseq (add_string name)
           (hseq (add_int 1) (hseq (add_int 0) (hseq (add_size (length fs)) (hash_fields hc fs)))))"
| "hash_legacy_type hc (TMethod sz ps c) = hash_nothing"
| "hash_field hc (Field i nm kws t d h m) =
     (if m
      then hseq (add_string nm)
            (hseq (add_int i)
              (case t of
                 TStruct sz fs c name sc \<Rightarrow> hseq (add_size (length fs)) (hash_fields hc fs)
               | _ \<Rightarrow> hash_nothing))
      else
        (case t of
           TMethod sz ps c \<Rightarrow>
             hseq (add_string nm)
              (hseq (add_int i)
                (hseq (add_size (length ps)) (hseq (hash_parameters hc ps) (hash_keywords kws))))
         | _ \<Rightarrow> hseq (if kws \<noteq> [] then hash_keywords kws else hash_nothing) (hash_legacy_type hc t)))"
| "hash_fields hc [] = hash_nothing"
| "hash_fields hc (f # fs) = hseq (hash_field hc f) (hash_fields hc fs)"
| "hash_parameters hc [] = hash_nothing"
| "hash_parameters hc (Param nm t d h # ps) = hseq (hash_legacy_type hc t) (hash_parameters hc ps)"

fun hash_class :: "nat \<Rightarrow> dcfile \<Rightarrow> cref \<Rightarrow> hash_op" where
  "hash_class 0 d c = hash_fail NoReturn"
| "hash_class (Suc n) d c =
     (let co = class_at d c in
      hseq (add_string (co_name co))
       (hseq (add_size (length (co_parents co)))
         (hseq (hash_each (\<lambda>p. add_int (co_id (class_at d p))) (co_parents co))
           (hseq (case co_constructor co of None \<Rightarrow> hash_nothing | Some f \<Rightarrow> hash_field (hash_class n d) f)
             (hseq (add_size (length (co_base_fields co)))
               (hash_fields (hash_class n d) (co_base_fields co)))))))"

definition hash_struct :: "dcfile \<Rightarrow> nat \<Rightarrow> hash_op" where
  "hash_struct d s = hash_legacy_type (hash_class (fuel_of d) d) (struct_type (struct_at d s))"

text \<open>
  The loop over the types of \<open>hash_file\<close>; it gives up at a type that is not a struct.
\<close>

fun hash_types :: "dcfile \<Rightarrow> type_ref list \<Rightarrow> hash_op" where
  "hash_types d [] = hash_nothing"
| "hash_types d (ClassRef c # ts) = hseq (hash_class (fuel_of d) d c) (hash_types d ts)"
| "hash_types d (StructRef s # ts) = hseq (hash_struct d s) (hash_types d ts)"
| "hash_types d (TypeRef t # ts) = hash_nothing"

definition hash_file :: "dcfile \<Rightarrow> hash_op" where
  "hash_file d =
     hseq (add_int 1)
      (hseq (add_size (length (df_structs d) + length (df_classes d))) (hash_types d (df_types d)))"

text \<open>\<open>legacy_hash\<close>; \<open>ps\<close> is the table of the prime number generator before the call.\<close>

definition legacy_hash :: "u32 list \<Rightarrow> dcfile \<Rightarrow> u32 res" where
  "legacy_hash ps d = rbind (hash_file d (hash_gen_new ps)) (\<lambda>g. Inr (get_hash g))"

text \<open>\<open>ClientAgent::ClientAgent\<close>: the configuration may override the hash.\<close>

definition agent_hash :: "u32 \<Rightarrow> u32 list \<Rightarrow> dcfile \<Rightarrow> u32 res" where
  "agent_hash config_hash ps d = (if 0 < config_hash then Inr config_hash else legacy_hash ps d)"

section \<open>The integers a file is turned into\<close>

text \<open>
  The sequence that is hashed, as a list: a string is its length and its characters, a list its
  length and its elements, the keywords of a field are nine bits, and a constant of a numeric type is
  its product with the divisor.
\<close>

definition legacy_names :: "string list" where
  "legacy_names = [''required'', ''broadcast'', ''ownrecv'', ''ram'', ''db'', ''clsend'', ''clrecv'', ''ownsend'', ''airecv'']"

definition name_ints :: "string \<Rightarrow> u32 list" where
  "name_ints str = word_of_nat (length str) # map char_int str"

definition keyword_int :: "string list \<Rightarrow> u32" where
  "keyword_int kws = horner_sum of_bool 2 (map (\<lambda>k. k \<in> set kws) legacy_names)"

definition constant_int :: "numeric_type \<Rightarrow> u64 \<Rightarrow> u32" where
  "constant_int nt b = word_of_int (double_units b * int (unat (nt_divisor nt)) div 2 ^ unit_bits)"

definition number_tag :: "type_tag \<Rightarrow> u32 option" where
  "number_tag t = (if t = T_FLOAT64 then Some 8 else legacy_int_tag t)"

definition numeric_ints :: "numeric_type \<Rightarrow> u32 list" where
  "numeric_ints nt =
     (case number_tag (nt_type nt) of
        None \<Rightarrow> []
      | Some tag \<Rightarrow> [tag, nt_divisor nt]
          @ (if numeric_has_modulus nt then [constant_int nt (nt_modulus nt)] else [])
          @ (if numeric_has_range nt then [1, constant_int nt (num_bits (nr_min (nt_orig_range nt))),
               constant_int nt (num_bits (nr_max (nt_orig_range nt)))] else []))"

definition size_ints :: "nrange \<Rightarrow> u32 list" where
  "size_ints r = (if nrange_is_empty r then [] else [1, ucast (num_bits (nr_min r)), ucast (num_bits (nr_max r))])"

fun type_ints :: "(cref \<Rightarrow> u32 list) \<Rightarrow> dtype \<Rightarrow> u32 list"
and field_ints :: "(cref \<Rightarrow> u32 list) \<Rightarrow> field \<Rightarrow> u32 list"
and fields_ints :: "(cref \<Rightarrow> u32 list) \<Rightarrow> field list \<Rightarrow> u32 list"
and params_ints :: "(cref \<Rightarrow> u32 list) \<Rightarrow> param list \<Rightarrow> u32 list" where
  "type_ints ci TInvalid = []"
| "type_ints ci (TNumeric nt) = numeric_ints nt"
| "type_ints ci (TArray tag sz e n r al) =
     (if tag \<in> {T_ARRAY, T_VARARRAY} then type_ints ci e @ size_ints r
      else if tag \<in> {T_BLOB, T_VARBLOB} then [if al = ''blob'' then 10 else 4, 1] @ size_ints r
      else if tag \<in> {T_STRING, T_VARSTRING} then [if al = ''string'' then 9 else 19, 1] @ size_ints r
      else [])"
| "type_ints ci (TStruct sz fs c name (Some cls)) = ci cls"
| "type_ints ci (TStruct sz fs c name None) =
     name_ints name @ [1, 0, word_of_nat (length fs)] @ fields_ints ci fs"
| "type_ints ci (TMethod sz ps c) = []"
| "field_ints ci (Field i nm kws (TMethod sz ps c) d h False) =
     name_ints nm @ [i, word_of_nat (length ps)] @ params_ints ci ps @ [keyword_int kws]"
| "field_ints ci (Field i nm kws t d h False) =
     (if kws = [] then [] else [keyword_int kws]) @ type_ints ci t"
| "field_ints ci (Field i nm kws (TStruct sz fs c name sc) d h True) =
     name_ints nm @ [i, word_of_nat (length fs)] @ fields_ints ci fs"
| "field_ints ci (Field i nm kws t d h True) = name_ints nm @ [i]"
| "fields_ints ci [] = []"
| "fields_ints ci (f # fs) = field_ints ci f @ fields_ints ci fs"
| "params_ints ci [] = []"
| "params_ints ci (Param nm t d h # ps) = type_ints ci t @ params_ints ci ps"

text \<open>A class is declared after the classes its fields hold.\<close>

function class_ints :: "dcfile \<Rightarrow> cref \<Rightarrow> u32 list" where
  "class_ints d c =
     name_ints (co_name (class_at d c))
     @ word_of_nat (length (co_parents (class_at d c))) # map (\<lambda>p. co_id (class_at d p)) (co_parents (class_at d c))
     @ (case co_constructor (class_at d c) of None \<Rightarrow> []
        | Some f \<Rightarrow> field_ints (\<lambda>c'. if c' < c then class_ints d c' else []) f)
     @ word_of_nat (length (co_base_fields (class_at d c)))
     # fields_ints (\<lambda>c'. if c' < c then class_ints d c' else []) (co_base_fields (class_at d c))"
  by pat_completeness auto
termination by (relation "measure snd") auto

declare class_ints.simps [simp del]

definition ref_ints :: "dcfile \<Rightarrow> type_ref \<Rightarrow> u32 list" where
  "ref_ints d t =
     (case t of
        ClassRef c \<Rightarrow> class_ints d c
      | StructRef s \<Rightarrow> name_ints (so_name (struct_at d s)) @ [1, 0, word_of_nat (length (so_fields (struct_at d s)))]
          @ fields_ints (class_ints d) (so_fields (struct_at d s))
      | TypeRef i \<Rightarrow> [])"

definition file_ints :: "dcfile \<Rightarrow> u32 list" where
  "file_ints d = [1, word_of_nat (length (df_structs d) + length (df_classes d))] @ concat (map (ref_ints d) (df_types d))"

section \<open>Operations that add a list of integers\<close>

text \<open>These equations turn an operation into \<open>add_ints\<close> of a list.\<close>

named_theorems feeding

lemma add_ints_append: "add_ints (xs @ ys) g = rbind (add_ints xs g) (add_ints ys)"
proof (induction xs arbitrary: g)
  case (Cons x xs)
  have "add_ints (xs @ ys) = (\<lambda>g. rbind (add_ints xs g) (add_ints ys))" by (rule ext) (rule Cons.IH)
  then show ?case by (simp add: rbind_assoc)
qed simp

lemma rbind_Inr_right [simp]: "rbind r Inr = r"
  by (cases r) simp_all

lemma add_ints_Nil: "add_ints [] = Inr"
  by (rule ext) simp

lemma nothing_ints [feeding]: "hash_nothing = add_ints []"
  by (rule ext) (simp add: hash_nothing_def)

lemma add_int_ints [feeding]: "add_int x = add_ints [x]"
  by (rule ext) (simp add: add_ints_Nil)

lemma string_ints [feeding]: "add_string str = add_ints (name_ints str)"
  by (rule ext) (simp add: add_string_def name_ints_def)

lemma hseq_ints [feeding]: "hseq (add_ints xs) (add_ints ys) = add_ints (xs @ ys)"
  by (rule ext) (simp add: hseq_def add_ints_append)

lemma add_size_ints [feeding]: "add_size n = add_ints [word_of_nat n]"
  by (simp add: add_size_def feeding)

lemma converted_ints [feeding]: "add_converted (Inr x) = add_ints [x]"
  by (rule ext) (simp add: add_converted_def add_ints_Nil)

lemma size_range_ints [feeding]: "hash_size_range r = add_ints (size_ints r)"
  by (simp add: hash_size_range_def size_ints_def feeding)

lemma each_ints: "(\<And>x. h x = add_ints (f x)) \<Longrightarrow> hash_each h xs = add_ints (concat (map f xs))"
  by (induction xs) (simp_all add: feeding)


section \<open>Keywords as bits\<close>

definition keyword_bits :: "(string \<times> u32) list" where
  "keyword_bits = map (\<lambda>i. (legacy_names ! i, 2 ^ i)) [0..<9]"

lemma legacy_keywords_bits: "legacy_keywords = keyword_bits"
  by (simp add: legacy_keywords_def keyword_bits_def legacy_names_def upt_rec)

lemma legacy_names_simps: "length legacy_names = 9" "distinct legacy_names"
  by (simp_all add: legacy_names_def)

lemma legacy_keyword_nth: "i < 9 \<Longrightarrow> map_of legacy_keywords (legacy_names ! i) = Some (2 ^ i)"
  unfolding legacy_keywords_bits using legacy_names_simps
  by (intro map_of_is_SomeI) (auto simp: keyword_bits_def comp_def distinct_map inj_on_def nth_eq_iff_index_eq)

lemma keyword_flags_bits:
  assumes "set kws \<subseteq> set legacy_names"
  shows "\<exists>x. keyword_flags flags kws = Inr x
    \<and> (\<forall>i. bit x i \<longleftrightarrow> bit flags i \<or> i < 9 \<and> legacy_names ! i \<in> set kws)"
  using assms
proof (induction kws arbitrary: flags)
  case (Cons k kws)
  then obtain j where j: "j < 9" "k = legacy_names ! j"
    using legacy_names_simps(1) by (auto simp: in_set_conv_nth)
  have same: "legacy_names ! i = k \<longleftrightarrow> i = j" if "i < 9" for i
    using that j legacy_names_simps by (simp add: nth_eq_iff_index_eq)
  have bit: "bit (2 ^ j :: u32) i \<longleftrightarrow> i = j" for i
    using j(1) by (auto simp: bit_exp_iff)
  from Cons.IH [of "or flags (2 ^ j)"] Cons.prems obtain x where
    x: "keyword_flags (or flags (2 ^ j)) kws = Inr x"
    "\<And>i. bit x i \<longleftrightarrow> bit (or flags (2 ^ j)) i \<or> i < 9 \<and> legacy_names ! i \<in> set kws" by auto
  have "keyword_flags flags (k # kws) = Inr x"
    using x(1) legacy_keyword_nth [OF j(1)] j(2) by simp
  moreover have "bit x i \<longleftrightarrow> bit flags i \<or> i < 9 \<and> legacy_names ! i \<in> set (k # kws)" for i
    unfolding x(2) bit_or_iff bit using same [of i] j by auto
  ultimately show ?case by blast
qed simp

lemma keywords_ints:
  assumes "set kws \<subseteq> set legacy_names"
  shows "hash_keywords kws = add_ints [keyword_int kws]"
proof -
  from keyword_flags_bits [OF assms, of 0] obtain x where x: "keyword_flags 0 kws = Inr x"
    "\<And>i. bit x i \<longleftrightarrow> i < 9 \<and> legacy_names ! i \<in> set kws" by auto
  have "x = keyword_int kws"
    by (rule bit_word_eqI) (auto simp: x(2) keyword_int_def bit_horner_sum_bit_word_iff legacy_names_simps(1))
  with x(1) show ?thesis unfolding hash_keywords_def fun_eq_iff by (simp add: add_ints_Nil)
qed

lemma keyword_flags_unknown:
  "k \<in> set kws \<Longrightarrow> k \<notin> set legacy_names \<Longrightarrow> keyword_flags flags kws = Inl DanglingReference"
proof (induction kws arbitrary: flags)
  case (Cons k' kws)
  show ?case
  proof (cases "k = k'")
    case True
    with Cons.prems(2) have "map_of legacy_keywords k' = None"
      by (auto simp: map_of_eq_None_iff legacy_keywords_def legacy_names_def)
    then show ?thesis by simp
  qed (use Cons in \<open>auto split: option.split\<close>)
qed simp

section \<open>Files that can be hashed\<close>

text \<open>
  A constant times the divisor is a whole number that fits an \<open>int\<close>, so that the doubles the code
  computes with are exact. A modulus is not negative.
\<close>

definition whole_constant :: "numeric_type \<Rightarrow> u64 \<Rightarrow> bool" where
  "whole_constant nt b \<longleftrightarrow> double_finite b
     \<and> (\<exists>n. double_units b * int (unat (nt_divisor nt)) = n * 2 ^ unit_bits \<and> - (2 ^ 31) \<le> n \<and> n < 2 ^ 31)"

definition constants_whole :: "numeric_type \<Rightarrow> bool" where
  "constants_whole nt \<longleftrightarrow>
     (numeric_has_modulus nt \<longrightarrow> whole_constant nt (nt_modulus nt) \<and> \<not> double_negative (nt_modulus nt))
   \<and> (numeric_has_range nt \<longrightarrow> whole_constant nt (num_bits (nr_min (nt_orig_range nt)))
        \<and> whole_constant nt (num_bits (nr_max (nt_orig_range nt))))"

text \<open>
  Every keyword is one of the nine, every constant is whole, and every class a type names is one of
  the first \<open>n\<close> of the heap.
\<close>

fun type_hashable :: "nat \<Rightarrow> dtype \<Rightarrow> bool"
and fields_hashable :: "nat \<Rightarrow> field list \<Rightarrow> bool"
and params_hashable :: "nat \<Rightarrow> param list \<Rightarrow> bool" where
  "type_hashable n TInvalid = True"
| "type_hashable n (TNumeric nt) = constants_whole nt"
| "type_hashable n (TArray tag sz e c r al) = type_hashable n e"
| "type_hashable n (TStruct sz fs c name sc) = (fields_hashable n fs \<and> (case sc of None \<Rightarrow> True | Some cls \<Rightarrow> cls < n))"
| "type_hashable n (TMethod sz ps c) = params_hashable n ps"
| "fields_hashable n [] = True"
| "fields_hashable n (Field i nm kws t d h m # fs) =
     (type_hashable n t \<and> (m \<or> set kws \<subseteq> set legacy_names) \<and> fields_hashable n fs)"
| "params_hashable n [] = True"
| "params_hashable n (Param nm t d h # ps) = (type_hashable n t \<and> params_hashable n ps)"

definition file_hashable :: "dcfile \<Rightarrow> bool" where
  "file_hashable d \<longleftrightarrow>
     (\<forall>c < length (df_heap d). fields_hashable c (co_base_fields (class_at d c))
        \<and> (\<forall>f. co_constructor (class_at d c) = Some f \<longrightarrow> fields_hashable c [f]))
     \<and> (\<forall>c. ClassRef c \<in> set (df_types d) \<longrightarrow> c < length (df_heap d))
     \<and> (\<forall>s. StructRef s \<in> set (df_types d) \<longrightarrow> fields_hashable (length (df_heap d)) (so_fields (struct_at d s)))
     \<and> (\<forall>i. TypeRef i \<notin> set (df_types d))"

lemma whole_constantE:
  assumes "whole_constant nt b"
  obtains n where "constant_int nt b = word_of_int n" "- (2 ^ 31) \<le> n" "n < 2 ^ 31" "\<bar>n\<bar> < 2 ^ 52"
    "double_finite (double_mul b (nt_divisor nt))" "double_units (double_mul b (nt_divisor nt)) = n * 2 ^ unit_bits"
    "double_negative b \<or> 0 \<le> n"
proof -
  from assms obtain n where fin: "double_finite b" and n: "double_units b * int (unat (nt_divisor nt)) = n * 2 ^ unit_bits"
    "- (2 ^ 31) \<le> n" "n < 2 ^ 31" unfolding whole_constant_def by blast
  then have small: "\<bar>n\<bar> < 2 ^ 52" "\<bar>n\<bar> < 2 ^ 53" by (simp_all add: abs_less_iff)
  have "0 \<le> n" if "\<not> double_negative b"
  proof -
    have "0 \<le> n * 2 ^ unit_bits" unfolding n(1) [symmetric] using that by (simp add: double_units_def)
    then show ?thesis by (simp add: zero_le_mult_iff)
  qed
  moreover have "constant_int nt b = word_of_int n" unfolding constant_int_def n(1) by simp
  ultimately show ?thesis using that n(2,3) small(1) mul_whole [OF fin n(1) small(2)] by blast
qed

lemma whole_floor:
  assumes "whole_constant nt b"
  shows "floor_to_int (double_add_half (double_mul b (nt_divisor nt))) = Inr (constant_int nt b)"
    "\<not> double_negative b \<Longrightarrow> floor_to_uint (double_add_half (double_mul b (nt_divisor nt))) = Inr (constant_int nt b)"
proof -
  from assms obtain n where n: "constant_int nt b = word_of_int n" "- (2 ^ 31) \<le> n" "n < 2 ^ 31" "\<bar>n\<bar> < 2 ^ 52"
    "double_finite (double_mul b (nt_divisor nt))" "double_units (double_mul b (nt_divisor nt)) = n * 2 ^ unit_bits"
    "double_negative b \<or> 0 \<le> n" by (rule whole_constantE)
  note half = add_half_exact [OF n(5,6,4)]
  show "floor_to_int (double_add_half (double_mul b (nt_divisor nt))) = Inr (constant_int nt b)"
    unfolding floor_to_int_def Let_def half(2) n(1) using half(1) n(2,3) by (simp only: simp_thms if_True)
  assume "\<not> double_negative b"
  with n(3,7) have "0 \<le> n \<and> n < 2 ^ 32" by simp
  then show "floor_to_uint (double_add_half (double_mul b (nt_divisor nt))) = Inr (constant_int nt b)"
    unfolding floor_to_uint_def Let_def half(2) n(1) using half(1) by (simp only: simp_thms if_True)
qed

lemma whole_truncate:
  assumes "whole_constant nt b"
  shows "truncate_to_int (double_mul b (nt_divisor nt)) = Inr (constant_int nt b)"
proof -
  from assms obtain n where n: "constant_int nt b = word_of_int n" "- (2 ^ 31) \<le> n" "n < 2 ^ 31" "\<bar>n\<bar> < 2 ^ 52"
    "double_finite (double_mul b (nt_divisor nt))" "double_units (double_mul b (nt_divisor nt)) = n * 2 ^ unit_bits"
    "double_negative b \<or> 0 \<le> n" by (rule whole_constantE)
  let ?p = "double_mul b (nt_divisor nt)"
  have "int (double_mag ?p) = (if double_negative ?p then - n else n) * 2 ^ unit_bits"
    using n(6) by (auto simp: double_units_def split: if_splits)
  then have "int (double_mag ?p) div 2 ^ unit_bits = (if double_negative ?p then - n else n)" by simp
  then have "int (double_mag ?p div 2 ^ unit_bits) = (if double_negative ?p then - n else n)" by (simp add: zdiv_int)
  then have "(if double_negative ?p then - int (double_mag ?p div 2 ^ unit_bits) else int (double_mag ?p div 2 ^ unit_bits)) = n"
    by simp
  then show ?thesis
    unfolding truncate_to_int_def Let_def n(1) using n(2,3,5) by (simp only: simp_thms if_True)
qed

lemma numeric_add_ints: "constants_whole nt \<Longrightarrow> hash_numeric nt = add_ints (numeric_ints nt)"
  by (cases "legacy_int_tag (nt_type nt)")
    (auto simp: hash_numeric_def hash_int_type_def hash_float_type_def numeric_ints_def number_tag_def Let_def
      constants_whole_def whole_floor whole_truncate feeding)

lemma types_add_ints:
  assumes "\<And>c. c < n \<Longrightarrow> hc c = add_ints (ci c)"
  shows "type_hashable n t \<Longrightarrow> hash_legacy_type hc t = add_ints (type_ints ci t)"
    and "fields_hashable n [f] \<Longrightarrow> hash_field hc f = add_ints (field_ints ci f)"
    and "fields_hashable n fs \<Longrightarrow> hash_fields hc fs = add_ints (fields_ints ci fs)"
    and "params_hashable n ps \<Longrightarrow> hash_parameters hc ps = add_ints (params_ints ci ps)"
  using assms
proof (induction hc t and hc f and hc fs and hc ps
    rule: hash_legacy_type_hash_field_hash_fields_hash_parameters.induct)
  case (2 hc nt)
  then show ?case by (simp add: numeric_add_ints)
next
  case (4 hc sz fs c name sc)
  then show ?case by (cases sc) (simp_all add: feeding)
next
  case (6 hc i nm kws t d h m)
  show ?case
  proof (cases t)
    case (TStruct sz fs c name sc)
    with 6 show ?thesis
      by (cases m) (simp_all add: feeding keywords_ints del: hash_legacy_type.simps type_ints.simps)
  next
    case (TMethod sz ps c)
    with 6 show ?thesis by (cases m) (simp_all add: feeding keywords_ints)
  qed (use 6 in \<open>cases m; simp add: feeding keywords_ints del: hash_legacy_type.simps type_ints.simps type_hashable.simps\<close>)+
next
  case (8 hc f fs)
  then show ?case by (cases f) (simp add: feeding del: hash_field.simps field_ints.simps)
qed (simp_all add: feeding)

lemma class_add_ints:
  assumes "file_hashable d"
  shows "c < n \<Longrightarrow> c < length (df_heap d) \<Longrightarrow> hash_class n d c = add_ints (class_ints d c)"
proof (induction n arbitrary: c)
  case (Suc n)
  have below: "hash_class n d c' = add_ints (if c' < c then class_ints d c' else [])" if "c' < c" for c'
    using Suc.IH [of c'] Suc.prems that by simp
  have fields: "fields_hashable c (co_base_fields (class_at d c))"
    "co_constructor (class_at d c) = Some f \<Longrightarrow> fields_hashable c [f]" for f
    using assms Suc.prems(2) by (auto simp: file_hashable_def)
  show ?case
    unfolding hash_class.simps Let_def class_ints.simps [of d c]
    by (simp add: feeding each_ints [where f = "\<lambda>p. [co_id (class_at d p)]"] types_add_ints(2,3) [OF below] fields
        split: option.split)
qed simp

lemma ref_ints_simps:
  "ref_ints d (ClassRef c) = class_ints d c"
  "ref_ints d (StructRef s) = name_ints (so_name (struct_at d s)) @ [1, 0, word_of_nat (length (so_fields (struct_at d s)))]
    @ fields_ints (class_ints d) (so_fields (struct_at d s))"
  by (simp_all add: ref_ints_def)

lemma file_add_ints:
  assumes "file_hashable d"
  shows "hash_file d = add_ints (file_ints d)"
proof -
  have "hash_types d ts = add_ints (concat (map (ref_ints d) ts))" if "set ts \<subseteq> set (df_types d)" for ts
    using that
  proof (induction ts)
    case (Cons t ts)
    show ?case
    proof (cases t)
      case (ClassRef c)
      with Cons.prems assms have "c < length (df_heap d)" by (auto simp: file_hashable_def)
      then have "hash_class (fuel_of d) d c = add_ints (class_ints d c)"
        using class_add_ints [OF assms] by (simp add: fuel_of_def del: hash_class.simps)
      with ClassRef Cons show ?thesis by (simp add: feeding ref_ints_simps del: hash_class.simps)
    next
      case (StructRef s)
      with Cons.prems assms have "fields_hashable (length (df_heap d)) (so_fields (struct_at d s))"
        by (auto simp: file_hashable_def)
      then have "hash_struct d s = add_ints (type_ints (class_ints d) (struct_type (struct_at d s)))"
        unfolding hash_struct_def
        by (intro types_add_ints(1) [where n = "length (df_heap d)"] class_add_ints [OF assms])
          (simp_all add: fuel_of_def struct_type_def del: hash_class.simps)
      with StructRef Cons show ?thesis by (simp add: feeding ref_ints_simps struct_type_def)
    qed (use Cons.prems assms in \<open>auto simp: file_hashable_def\<close>)
  qed (simp add: feeding)
  then show ?thesis by (simp add: hash_file_def file_ints_def feeding)
qed

text \<open>
  C31: take a file whose keywords are the nine legacy ones, whose numeric constants times their
  divisors are whole numbers that fit an \<open>int\<close> (a modulus not negative), whose classes hold only
  classes declared earlier and which lists only classes and structs. Its legacy hash is computed, with
  the table of primes in any state it can reach, and it is the weighted sum of exactly these integers:
  1, the number of structs and classes, and for each of them in order its name, for a class the number
  of its parents, their ids and its constructor, for a struct the three numbers that stand for them,
  and then the number of its own fields and each field with its keywords and type.
\<close>

theorem legacy_hash_returns:
  assumes "prime_table ps" "file_hashable d"
  shows "legacy_hash ps d =
    Inr (\<Sum>i<length (file_ints d). word_of_nat (enumerate {p. is_prime p} (i mod 10000)) * file_ints d ! i)"
proof -
  obtain g where "add_ints (file_ints d) (hash_gen_new ps) = Inr g"
    "hg_hash g = (\<Sum>i<length (file_ints d). weight i * file_ints d ! i)"
    using add_ints_ready [of "hash_gen_new ps" 0 "file_ints d"] assms(1) by (auto simp: hash_gen_new_def hash_ready_def)
  then show ?thesis by (simp add: legacy_hash_def file_add_ints [OF assms(2)] weight_def)
qed

definition demo_hash_file :: "string \<Rightarrow> dcfile" where
  "demo_hash_file kw =
     (let f = Field 0 ''hp'' [''required'', kw] (TNumeric (numeric_type_new T_UINT16)) [0, 0] False False
      in dcfile_new\<lparr>df_heap := [(class_obj_new ''Avatar'')\<lparr>co_fields := [f], co_base_fields := [f]\<rparr>],
           df_fields := [f], df_classes := [0], df_types := [ClassRef 0],
           df_by_name := [''Avatar'' \<mapsto> ClassRef 0]\<rparr>)"

text \<open>
  A class with a field \<open>hp\<close> between 0 and 100, and one that inherits from it and declares a method.
\<close>

definition demo_hp :: field where
  "demo_hp = Field 0 ''hp'' [''required'', ''ram''] (TNumeric ((numeric_type_new T_UINT16)\<lparr>nt_orig_range :=
     \<lparr>nr_kind = NK_FLOAT, nr_min = \<lparr>num_kind = NK_FLOAT, num_bits = double_of_int 0\<rparr>,
      nr_max = \<lparr>num_kind = NK_FLOAT, num_bits = double_of_int 100\<rparr>\<rparr>\<rparr>)) [0, 0] False False"

definition demo_say :: field where
  "demo_say = Field 1 ''say'' [''broadcast'']
     (TMethod 0 [Param [] (TArray T_VARSTRING 0 (TNumeric (numeric_type_new T_CHAR)) 0 nrange_none ''string'') [] False] False)
     [] False False"

definition demo_hash_pair :: dcfile where
  "demo_hash_pair = dcfile_new\<lparr>
     df_heap := [(class_obj_new ''Avatar'')\<lparr>co_fields := [demo_hp], co_base_fields := [demo_hp], co_children := [1]\<rparr>,
       (class_obj_new ''Npc'')\<lparr>co_id := 1, co_fields := [demo_hp, demo_say], co_base_fields := [demo_say], co_parents := [0]\<rparr>],
     df_fields := [demo_hp, demo_say], df_classes := [0, 1], df_types := [ClassRef 0, ClassRef 1]\<rparr>"

lemma whole_double_of_int:
  assumes "nt_divisor nt = 1" "- (2 ^ 31) \<le> k" "k < 2 ^ 31"
  shows "whole_constant nt (double_of_int k)" "constant_int nt (double_of_int k) = word_of_int k"
proof -
  have "\<bar>k\<bar> < 2 ^ 53" using assms(2,3) by (simp add: abs_less_iff)
  then have b: "double_finite (double_of_int k)" "double_units (double_of_int k) = k * 2 ^ unit_bits"
    unfolding double_of_int_def by (rule units_of_mag; simp)+
  then show "whole_constant nt (double_of_int k)"
    unfolding whole_constant_def using assms by (intro conjI exI [of _ k]) simp_all
  show "constant_int nt (double_of_int k) = word_of_int k"
    unfolding constant_int_def b(2) assms(1) by simp
qed

lemma demo_hash_pair_ok: "file_hashable demo_hash_pair"
  by (simp add: file_hashable_def demo_hash_pair_def dcfile_new_def class_at_def class_obj_new_def less_Suc_eq demo_hp_def demo_say_def
      constants_whole_def whole_double_of_int numeric_type_new_def numeric_has_modulus_def numeric_has_range_def
      nrange_is_empty_def nrange_none_def legacy_names_def)

lemma demo_hash_pair_ints: "file_ints demo_hash_pair =
    [1, 2, 6, 65, 118, 97, 116, 97, 114, 0, 1, 9, 5, 1, 1, 0, 100,
     3, 78, 112, 99, 1, 0, 1, 3, 115, 97, 121, 1, 1, 9, 1, 2]"
  by (simp add: file_ints_def ref_ints_simps class_ints.simps demo_hash_pair_def dcfile_new_def class_at_def class_obj_new_def
      demo_hp_def demo_say_def name_ints_def char_int_def keyword_int_def legacy_names_def numeric_ints_def number_tag_def
      whole_double_of_int numeric_type_new_def numeric_has_modulus_def numeric_has_range_def nrange_is_empty_def nrange_none_def
      size_ints_def)

lemma legacy_hash_returns_witness:
  "let xs = [1, 2, 6, 65, 118, 97, 116, 97, 114, 0, 1, 9, 5, 1, 1, 0, 100,
     3, 78, 112, 99, 1, 0, 1, 3, 115, 97, 121, 1, 1, 9, 1, 2]
   in legacy_hash table_new demo_hash_pair = Inr (\<Sum>i<length xs. word_of_nat (enumerate {p. is_prime p} (i mod 10000)) * xs ! i)"
  unfolding Let_def demo_hash_pair_ints [symmetric] by (rule legacy_hash_returns [OF prime_table_new demo_hash_pair_ok])

section \<open>Unknown keywords\<close>

definition hash_fails :: "hash_op \<Rightarrow> bool" where
  "hash_fails h \<longleftrightarrow> (\<forall>g g'. h g \<noteq> Inr g')"

lemma fails_hseq: "hash_fails h \<or> hash_fails h' \<Longrightarrow> hash_fails (hseq h h')"
  by (auto simp: hash_fails_def hseq_def res_simps)

lemma fails_keywords: "k \<in> set kws \<Longrightarrow> k \<notin> set legacy_names \<Longrightarrow> hash_fails (hash_keywords kws)"
  by (simp add: hash_fails_def hash_keywords_def keyword_flags_unknown)

lemma fails_field:
  assumes "k \<in> set (field_keywords f)" "k \<notin> set legacy_names" "\<not> field_molecular f"
  shows "hash_fails (hash_field hc f)"
proof (cases f)
  case (Field i nm kws t d h m)
  with assms have kw: "hash_fails (hash_keywords kws)" "kws \<noteq> []" "\<not> m" by (auto intro: fails_keywords)
  show ?thesis
  proof (cases t)
    case (TMethod sz ps c)
    with Field kw show ?thesis by (simp add: fails_hseq)
  qed (use Field kw in \<open>simp_all add: fails_hseq del: hash_legacy_type.simps\<close>)
qed

lemma fails_fields: "f \<in> set fs \<Longrightarrow> hash_fails (hash_field hc f) \<Longrightarrow> hash_fails (hash_fields hc fs)"
  by (induction fs) (auto intro: fails_hseq simp del: hash_field.simps)

lemma fails_types:
  assumes "ClassRef c \<in> set ts" "hash_fails (hash_class (fuel_of d) d c)" "\<forall>t. TypeRef t \<notin> set ts"
  shows "hash_fails (hash_types d ts)"
  using assms
proof (induction ts)
  case (Cons t ts)
  then show ?case by (cases t) (auto intro: fails_hseq simp del: hash_class.simps)
qed simp

text \<open>
  A single field with a keyword outside the nine, in any class of the file, makes the hash
  undefined: no client agent that is not given a hash by its configuration starts with such a file.
\<close>

theorem unknown_keyword_unhashed:
  assumes "ClassRef c \<in> set (df_types d)" "\<forall>t. TypeRef t \<notin> set (df_types d)"
    and "f \<in> set (co_base_fields (class_at d c))" "\<not> field_molecular f"
    and "k \<in> set (field_keywords f)" "k \<notin> set (map fst legacy_keywords)"
  shows "agent_hash 0 ps d \<noteq> Inr h"
proof -
  have "hash_fails (hash_class (fuel_of d) d c)"
    unfolding fuel_of_def hash_class.simps Let_def
    using fails_fields [OF assms(3) fails_field [OF assms(5) _ assms(4)]] assms(6)
    by (auto simp: legacy_names_def legacy_keywords_def intro!: fails_hseq)
  from fails_types [OF assms(1) this assms(2)] have "hash_fails (hash_file d)"
    unfolding hash_file_def by (intro fails_hseq disjI2)
  then show ?thesis by (auto simp: agent_hash_def legacy_hash_def hash_fails_def res_simps)
qed

lemma unknown_keyword_unhashed_witness: "\<forall>h. agent_hash 0 table_new (demo_hash_file ''persist'') \<noteq> Inr h"
  by (intro allI, rule unknown_keyword_unhashed [where c = 0 and k = "''persist''"
        and f = "Field 0 ''hp'' [''required'', ''persist''] (TNumeric (numeric_type_new T_UINT16)) [0, 0] False False"])
    (simp_all add: demo_hash_file_def Let_def dcfile_new_def class_at_def class_obj_new_def legacy_keywords_def)

end
