(* ===== verification/Msgpack.thy ===== *)
theory Msgpack
  imports Event_Log Dg_Iterator
begin

text \<open>
  The event logger: \<open>eventlogger/msgpack_decode.h\<close>, which turns a MessagePack value into text, and
  \<open>EventLogger::process_packet\<close>, which writes a line of the log for every packet. The text goes to
  an output stream whose number base is part of its state: \<open>std::hex\<close> stays in force.
\<close>

section \<open>The output stream\<close>

record ostream =
  out_text :: bytes
  out_hex :: bool

definition out_new :: ostream where
  "out_new = \<lparr>out_text = [], out_hex = False\<rparr>"

definition put_text :: "bytes \<Rightarrow> ostream \<Rightarrow> ostream" where
  "put_text bs out = out\<lparr>out_text := out_text out @ bs\<rparr>"

text \<open>
  Integers of 16 bits and more; a signed one in base 16 is written as the unsigned one with the
  same bits. An 8-bit integer is a character for the stream and is written as its byte.
\<close>

definition put_unsigned :: "'a::len word \<Rightarrow> ostream \<Rightarrow> ostream" where
  "put_unsigned w out = put_text (if out_hex out then hexadecimal (unat w) else decimal (unat w)) out"

definition put_signed :: "'a::len word \<Rightarrow> ostream \<Rightarrow> ostream" where
  "put_signed w out =
     (if out_hex out then put_text (hexadecimal (unat w)) out
      else if sint w < 0 then put_text (str ''-'' @ decimal (nat (- sint w))) out
      else put_text (decimal (unat w)) out)"

text \<open>
  Floating-point numbers that are whole and not negative, with the six significant digits of the
  default format. The number is first rounded to the \<open>k\<close> bits of its type, both times to nearest,
  ties to even.
\<close>

definition round_half_even :: "nat \<Rightarrow> nat \<Rightarrow> nat" where
  "round_half_even n d =
     (let q = n div d; r = n mod d in if d < 2 * r \<or> d = 2 * r \<and> odd q then Suc q else q)"

definition round_bits :: "nat \<Rightarrow> nat \<Rightarrow> nat" where
  "round_bits k n = (let s = top_bit n - (k - 1) in round_half_even n (2 ^ s) * 2 ^ s)"

definition strip_zeros :: "nat list \<Rightarrow> nat list" where
  "strip_zeros ds = rev (dropWhile (\<lambda>d. d = 0) (rev ds))"

definition general_text :: "nat \<Rightarrow> bytes" where
  "general_text n =
     (if n < 10 ^ 6 then decimal n
      else
        let e = length (digits 10 n) - 1;
            m = round_half_even n (10 ^ (e - 5));
            (m', e') = (if m = 10 ^ 6 then (10 ^ 5, Suc e) else (m, e));
            ds = digits 10 m';
            tail = strip_zeros (tl ds)
        in [digit_char (hd ds)] @ (if tail = [] then [] else str ''.'' @ map digit_char tail)
           @ str ''e+'' @ (if e' < 10 then str ''0'' else []) @ decimal e')"

section \<open>Decoding\<close>

type_synonym decoder = "ostream \<times> dgi \<Rightarrow> (ostream \<times> dgi) res"

definition out_write :: "bytes \<Rightarrow> decoder" where
  "out_write bs = (\<lambda>(out, it). Inr (put_text bs out, it))"

definition dseq :: "decoder \<Rightarrow> decoder \<Rightarrow> decoder" where
  "dseq f g st = rbind (f st) g"

definition dread :: "(dgi \<Rightarrow> ('a \<times> dgi) res) \<Rightarrow> ('a \<Rightarrow> decoder) \<Rightarrow> decoder" where
  "dread rd f = (\<lambda>(out, it). rbind (rd it) (\<lambda>(v, it). f v (out, it)))"

text \<open>\<open>msgpack_swap\<close>, by the size of its argument.\<close>

definition swap_bytes :: "nat \<Rightarrow> 'a::len word \<Rightarrow> 'a word" where
  "swap_bytes n w = le_word (rev (le_bytes n w))"

text \<open>A length is an \<open>int\<close>: one of 32 bits may be negative, and then no iteration takes place.\<close>

definition int_length :: "u32 \<Rightarrow> nat" where
  "int_length w = nat (sint w)"

text \<open>\<open>json_escapes\<close> and the rest of the loop body of \<open>msgpack_decode_string\<close>.\<close>

definition json_escape :: "u8 \<Rightarrow> u8 option" where
  "json_escape b = map_of [(8, 98), (9, 116), (10, 110), (11, 118), (12, 102), (13, 114)] b"

definition hex_byte :: "u8 \<Rightarrow> bytes" where
  "hex_byte b = [digit_char (unat b div 16), digit_char (unat b mod 16)]"

definition put_char :: "u8 \<Rightarrow> ostream \<Rightarrow> ostream" where
  "put_char b out =
     (if b < 0x20 \<and> json_escape b \<noteq> None then put_text [92, the (json_escape b)] out
      else if b = 34 then put_text [92, 34] out
      else if b = 92 then put_text [92, 92] out
      else if 0x20 \<le> b \<and> b < 0x7F then put_text [b] out
      else (put_text ([92, 120] @ hex_byte b) out)\<lparr>out_hex := True\<rparr>)"

primrec decode_chars :: "nat \<Rightarrow> decoder" where
  "decode_chars 0 = Inr"
| "decode_chars (Suc n) = dread read_uint8 (\<lambda>b (out, it). decode_chars n (put_char b out, it))"

definition decode_string :: "nat \<Rightarrow> decoder" where
  "decode_string n = dseq (out_write [34]) (dseq (decode_chars n) (out_write [34]))"

text \<open>The type of an extension is an \<open>uint8_t\<close>, which the stream takes for a character.\<close>

definition decode_ext :: "nat \<Rightarrow> decoder" where
  "decode_ext n =
     dseq (out_write (str ''ext('')) (dread read_uint8 (\<lambda>t. dseq (out_write [t])
       (dseq (out_write (str '', '')) (dseq (decode_string n) (out_write (str '')''))))))"

text \<open>
  The loop of \<open>msgpack_decode_container\<close> over the elements that are left; \<open>decode\<close> is
  \<open>msgpack_decode\<close>.
\<close>

primrec decode_elements :: "decoder \<Rightarrow> bool \<Rightarrow> bool \<Rightarrow> nat \<Rightarrow> decoder" where
  "decode_elements decode first as_map 0 = Inr"
| "decode_elements decode first as_map (Suc n) =
     dseq (if first then Inr else out_write (str '', ''))
      (dseq (if as_map then dseq decode (out_write (str '': '')) else Inr)
        (dseq decode (decode_elements decode False as_map n)))"

definition decode_container :: "decoder \<Rightarrow> nat \<Rightarrow> bool \<Rightarrow> decoder" where
  "decode_container decode n as_map =
     dseq (out_write (if as_map then str ''{'' else str ''[''))
      (dseq (decode_elements decode True as_map n) (out_write (if as_map then str ''}'' else str '']'')))"

text \<open>
  \<open>msgpack_decode\<close>. Every call reads a byte, so the fuel only has to exceed the bytes that are
  left. The bytes of a floating-point number are swapped as an integer, and this integer, not the
  number with these bits, is converted to \<open>T\<close> and written.
\<close>

primrec msgpack_decode :: "nat \<Rightarrow> decoder" where
  "msgpack_decode 0 = (\<lambda>st. Inl NoReturn)"
| "msgpack_decode (Suc fuel) =
     dread read_uint8 (\<lambda>msg.
       let n = unat msg;
           put = (\<lambda>f (out, it). Inr (f out, it));
           again = msgpack_decode fuel
       in
       if n < 0x80 then put (put_unsigned (ucast msg :: u32))
       else if n \<le> 0x8f then decode_container again (n - 0x80) True
       else if n \<le> 0x9f then decode_container again (n - 0x90) False
       else if n \<le> 0xbf then decode_string (n - 0xa0)
       else if n = 0xc0 then out_write (str ''null'')
       else if n = 0xc1 then out_write (str ''*INVALID*'')
       else if n = 0xc2 then out_write (str ''false'')
       else if n = 0xc3 then out_write (str ''true'')
       else if n = 0xc4 \<or> n = 0xd9 then dread read_uint8 (\<lambda>l. decode_string (unat l))
       else if n = 0xc5 \<or> n = 0xda then dread read_uint16 (\<lambda>l. decode_string (unat (swap_bytes 2 l)))
       else if n = 0xc6 \<or> n = 0xdb then dread read_uint32 (\<lambda>l. decode_string (int_length (swap_bytes 4 l)))
       else if n = 0xc7 then dread read_uint8 (\<lambda>l. decode_ext (unat l))
       else if n = 0xc8 then dread read_uint16 (\<lambda>l. decode_ext (unat (swap_bytes 2 l)))
       else if n = 0xc9 then dread read_uint32 (\<lambda>l. decode_ext (int_length (swap_bytes 4 l)))
       else if n = 0xca then dread read_float32 (\<lambda>v. out_write (general_text (round_bits 24 (unat (swap_bytes 4 v)))))
       else if n = 0xcb then dread read_float64 (\<lambda>v. out_write (general_text (round_bits 53 (unat (swap_bytes 8 v)))))
       else if n = 0xcc then dread read_uint8 (\<lambda>v. out_write [v])
       else if n = 0xcd then dread read_uint16 (\<lambda>v. put (put_unsigned (swap_bytes 2 v)))
       else if n = 0xce then dread read_uint32 (\<lambda>v. put (put_unsigned (swap_bytes 4 v)))
       else if n = 0xcf then dread read_uint64 (\<lambda>v. put (put_unsigned (swap_bytes 8 v)))
       else if n = 0xd0 then dread read_int8 (\<lambda>v. out_write [v])
       else if n = 0xd1 then dread read_int16 (\<lambda>v. put (put_signed (swap_bytes 2 v)))
       else if n = 0xd2 then dread read_int32 (\<lambda>v. put (put_signed (swap_bytes 4 v)))
       else if n = 0xd3 then dread read_int64 (\<lambda>v. put (put_signed (swap_bytes 8 v)))
       else if n \<le> 0xd8 then decode_ext (2 ^ (n - 0xd4))
       else if n = 0xdc then dread read_uint16 (\<lambda>l. decode_container again (unat (swap_bytes 2 l)) False)
       else if n = 0xdd then dread read_uint32 (\<lambda>l. decode_container again (int_length (swap_bytes 4 l)) False)
       else if n = 0xde then dread read_uint16 (\<lambda>l. decode_container again (unat (swap_bytes 2 l)) True)
       else if n = 0xdf then dread read_uint32 (\<lambda>l. decode_container again (int_length (swap_bytes 4 l)) True)
       else put (put_signed (scast msg :: u32)))"

section \<open>Packets\<close>

text \<open>
  \<open>process_packet\<close>: the line written to the log file, if any; \<open>timestamp\<close> is what \<open>strftime\<close> makes
  of the time. Datagrams hold fewer than \<open>2 ^ 16\<close> bytes, which is the fuel.
\<close>

definition process_packet :: "bytes \<Rightarrow> datagram \<Rightarrow> bytes option res" where
  "process_packet timestamp dg =
     rbind (dgi_new dg 0) (\<lambda>it.
       case msgpack_decode (2 ^ 16) (out_new, it) of
         Inl e \<Rightarrow> if e = DatagramIteratorEOF then Inr None else Inl e
       | Inr (out, it) \<Rightarrow>
           if tell it \<noteq> dg_size dg then Inr None
           else if out_text out = [] \<or> hd (out_text out) \<noteq> 123 then Inr None
           else Inr (Some (timestamp @ tl (out_text out) @ [10])))"

text \<open>
  The log files written so far; the last one is open. \<open>open_log\<close>, \<open>cycle_log\<close>, the constructor of
  \<open>EventLogger\<close> and the callback of its socket.
\<close>

type_synonym log_files = "bytes list"

definition write_log :: "bytes \<Rightarrow> datagram \<Rightarrow> log_files \<Rightarrow> log_files res" where
  "write_log timestamp dg files =
     rbind (process_packet timestamp dg) (\<lambda>line.
       Inr (case line of None \<Rightarrow> files | Some l \<Rightarrow> butlast files @ [last files @ l]))"

definition open_log :: "log_files \<Rightarrow> log_files" where
  "open_log files = files @ [[]]"

definition log_opened :: "bytes \<Rightarrow> logged_event" where
  "log_opened msg =
     event_add (str ''msg'') msg
      (event_add (str ''sender'') (str ''EventLogger'') (event_add (str ''type'') (str ''log-opened'') []))"

definition cycle_log :: "bytes \<Rightarrow> log_files \<Rightarrow> log_files res" where
  "cycle_log timestamp files =
     rbind (event_datagram (log_opened (str ''Log cycled.''))) (\<lambda>dg. write_log timestamp dg (open_log files))"

definition event_logger_new :: "bytes \<Rightarrow> log_files res" where
  "event_logger_new timestamp =
     rbind (event_datagram (log_opened (str ''Log opened upon Event Logger startup.''))) (\<lambda>dg.
       write_log timestamp dg (open_log []))"

definition receive_packet :: "bytes \<Rightarrow> bytes \<Rightarrow> log_files \<Rightarrow> log_files res" where
  "receive_packet timestamp data files =
     rbind (dg_create_ptr data (word_of_nat (length data))) (\<lambda>dg. write_log timestamp dg files)"

section \<open>Decoding ends\<close>

text \<open>
  \<open>sound m k f\<close>: with at most \<open>m\<close> bytes left, \<open>f\<close> either reads at least \<open>k\<close> bytes of the same
  datagram or throws the iterator's exception.
\<close>

definition sound :: "nat \<Rightarrow> nat \<Rightarrow> decoder \<Rightarrow> bool" where
  "sound m k f \<longleftrightarrow> (\<forall>out it. unat (dg_size (it_dg it)) \<le> it_offset it + m \<longrightarrow>
     (case f (out, it) of
        Inl e \<Rightarrow> e = DatagramIteratorEOF
      | Inr (out', it') \<Rightarrow> it_dg it' = it_dg it \<and> it_offset it + k \<le> it_offset it'))"

named_theorems sound_intros

lemma soundD:
  fixes it :: dgi
  assumes "sound m k f" "unat (dg_size (it_dg it)) \<le> it_offset it + m"
  shows "f (out, it) = Inl DatagramIteratorEOF
    \<or> (\<exists>out' it'. f (out, it) = Inr (out', it') \<and> it_dg it' = it_dg it \<and> it_offset it + k \<le> it_offset it')"
  using assms(1) [unfolded sound_def, rule_format, OF assms(2), of out] by (auto split: sum.splits)

lemma sound_ret [sound_intros]: "sound m 0 Inr"
  by (simp add: sound_def)

lemma sound_put [sound_intros]: "sound m 0 (\<lambda>(out, it). Inr (f out, it))"
  by (simp add: sound_def)

lemma sound_write [sound_intros]: "sound m 0 (out_write bs)"
  by (simp add: sound_def out_write_def)

lemma sound_weaken:
  assumes "sound m k f"
  shows "sound m 0 f"
  unfolding sound_def
proof (intro allI impI)
  fix out :: ostream and it :: dgi assume "unat (dg_size (it_dg it)) \<le> it_offset it + m"
  from soundD [OF assms this, of out]
  show "case f (out, it) of Inl e \<Rightarrow> e = DatagramIteratorEOF
    | Inr (out', it') \<Rightarrow> it_dg it' = it_dg it \<and> it_offset it + 0 \<le> it_offset it'" by auto
qed

lemma sound_dseq:
  assumes "sound m i f" "sound m j g"
  shows "sound m (i + j) (dseq f g)"
  unfolding sound_def
proof (intro allI impI)
  fix out :: ostream and it :: dgi assume le: "unat (dg_size (it_dg it)) \<le> it_offset it + m"
  from soundD [OF assms(1) le, of out]
  show "case dseq f g (out, it) of Inl e \<Rightarrow> e = DatagramIteratorEOF
    | Inr (out', it') \<Rightarrow> it_dg it' = it_dg it \<and> it_offset it + (i + j) \<le> it_offset it'"
  proof (elim disjE exE conjE)
    fix out1 it1
    assume f: "f (out, it) = Inr (out1, it1)" "it_dg it1 = it_dg it" "it_offset it + i \<le> it_offset it1"
    with le have "unat (dg_size (it_dg it1)) \<le> it_offset it1 + m" by simp
    from soundD [OF assms(2) this, of out1] f show ?thesis by (auto simp: dseq_def)
  qed (simp add: dseq_def)
qed

lemma sound_dseq_0 [sound_intros]: "sound m 0 f \<Longrightarrow> sound m 0 g \<Longrightarrow> sound m 0 (dseq f g)"
  using sound_dseq [of m 0 f 0 g] by simp

lemma read_raw_cases:
  "read_raw n it = Inl DatagramIteratorEOF
   \<or> (\<exists>bs. read_raw n it = Inr (bs, advance it (unat n)) \<and> it_offset it + unat n \<le> unat (dg_size (it_dg it)))"
  for it :: dgi
  by (auto simp: read_raw_def check_read_length_def advance_def)

definition reader :: "nat \<Rightarrow> (dgi \<Rightarrow> ('a \<times> dgi) res) \<Rightarrow> bool" where
  "reader n rd \<longleftrightarrow> (\<forall>it. rd it = Inl DatagramIteratorEOF
     \<or> (\<exists>v. rd it = Inr (v, advance it n) \<and> it_offset it + n \<le> unat (dg_size (it_dg it))))"

lemma reader_raw: "reader (unat n) (\<lambda>it. rbind (read_raw n it) (\<lambda>(bs, it). Inr (le_word bs, it)))"
  unfolding reader_def using read_raw_cases [of n] by (metis (mono_tags, lifting) case_prod_conv rbind_Inl rbind_Inr)

lemma readers:
  "reader 1 read_uint8" "reader 2 read_uint16" "reader 4 read_uint32" "reader 8 read_uint64"
  "reader 1 read_int8" "reader 2 read_int16" "reader 4 read_int32" "reader 8 read_int64"
  "reader 4 read_float32" "reader 8 read_float64"
  unfolding read_uint8_def [abs_def] read_uint16_def [abs_def] read_uint32_def [abs_def] read_uint64_def [abs_def]
    read_int8_def [abs_def] read_int16_def [abs_def] read_int32_def [abs_def] read_int64_def [abs_def]
    read_float32_def [abs_def] read_float64_def [abs_def]
  using reader_raw [of 1] reader_raw [of 2] reader_raw [of 4] reader_raw [of 8] by simp_all

lemma sound_dread_first:
  assumes "reader n rd" "\<And>v. n \<le> m \<Longrightarrow> sound (m - n) 0 (f v)"
  shows "sound m n (dread rd f)"
  unfolding sound_def
proof (intro allI impI)
  fix out :: ostream and it :: dgi assume le: "unat (dg_size (it_dg it)) \<le> it_offset it + m"
  show "case dread rd f (out, it) of Inl e \<Rightarrow> e = DatagramIteratorEOF
    | Inr (out', it') \<Rightarrow> it_dg it' = it_dg it \<and> it_offset it + n \<le> it_offset it'"
  proof (cases "rd it = Inl DatagramIteratorEOF")
    case False
    with assms(1) obtain v where v: "rd it = Inr (v, advance it n)" "it_offset it + n \<le> unat (dg_size (it_dg it))"
      unfolding reader_def by blast
    with le have "n \<le> m" "unat (dg_size (it_dg (advance it n))) \<le> it_offset (advance it n) + (m - n)" by simp_all
    from soundD [OF assms(2) [OF this(1)] this(2), of v out] v(1) show ?thesis by (auto simp: dread_def)
  qed (simp add: dread_def)
qed

lemma sound_mono: "sound m k f \<Longrightarrow> m' \<le> m \<Longrightarrow> sound m' k f"
  by (auto simp: sound_def)

lemma sound_dread: "reader n rd \<Longrightarrow> (\<And>v. sound m 0 (f v)) \<Longrightarrow> sound m 0 (dread rd f)"
  by (rule sound_weaken [OF sound_dread_first]) (blast intro: sound_mono diff_le_self)+

lemmas sound_reads [sound_intros] = readers [THEN sound_dread]

lemma sound_chars [sound_intros]: "sound m 0 (decode_chars n)"
proof (induction n)
  case (Suc n)
  have "sound m 0 (\<lambda>(out, it). decode_chars n (put_char b out, it))" for b
    using Suc by (fastforce simp: sound_def)
  then show ?case by (auto intro: sound_intros)
qed (auto intro: sound_intros)

lemma sound_string [sound_intros]: "sound m 0 (decode_string n)"
  unfolding decode_string_def by (intro sound_intros)

lemma sound_ext [sound_intros]: "sound m 0 (decode_ext n)"
  unfolding decode_ext_def by (intro sound_intros)

lemma sound_elements [sound_intros]: "sound m 0 f \<Longrightarrow> sound m 0 (decode_elements f first as_map n)"
  by (induction n arbitrary: first) (auto intro!: sound_intros)

lemma sound_container [sound_intros]: "sound m 0 f \<Longrightarrow> sound m 0 (decode_container f n as_map)"
  unfolding decode_container_def by (intro sound_intros) auto

lemma sound_if [sound_intros]: "sound m k f \<Longrightarrow> sound m k g \<Longrightarrow> sound m k (if b then f else g)"
  by simp

lemma decode_sound: "m < fuel \<Longrightarrow> sound m 1 (msgpack_decode fuel)"
proof (induction fuel arbitrary: m)
  case (Suc fuel)
  have again: "sound (m - Suc 0) 0 (msgpack_decode fuel)" if "Suc 0 \<le> m"
    by (rule sound_weaken [OF Suc.IH]) (use that Suc.prems in simp)
  show ?case
    unfolding msgpack_decode.simps Let_def
    by (rule sound_dread_first [OF readers(1)]) (auto intro!: sound_intros again)
qed simp

lemma process_packet_returns:
  assumes "dg_ok dg"
  shows "\<exists>line. process_packet timestamp dg = Inr line"
proof -
  have it: "dgi_new dg 0 = Inr \<lparr>it_dg = dg, it_offset = 0\<rparr>"
    by (simp add: dgi_new_def check_read_length_def)
  have "unat (dg_size dg) < 2 ^ 16" using unsigned_less [of "dg_size dg", where ?'a = nat] by simp
  then have "sound (unat (dg_size dg)) 1 (msgpack_decode (2 ^ 16))" by (rule decode_sound)
  from soundD [OF this, of "\<lparr>it_dg = dg, it_offset = 0\<rparr>" out_new] it show ?thesis
    by (auto simp: process_packet_def simp del: msgpack_decode.simps)
qed

text \<open>
  The event logger takes every packet to its end: whatever bytes arrive in a packet, decoding
  them ends, reads nothing outside the packet, and adds at most one piece to the open log file.
\<close>

theorem every_packet_processed:
  assumes "length data \<le> DGSIZE_MAX"
  shows "\<exists>entry. \<forall>closed file. receive_packet timestamp data (closed @ [file]) = Inr (closed @ [file @ entry])"
proof -
  have n: "unat (word_of_nat (length data) :: dgsize) = length data"
    using unat_of_short_length [OF assms] by simp
  define dg where "dg = \<lparr>dg_buf = data, buf_cap = length data\<rparr>"
  have dg: "dg_create_ptr data (word_of_nat (length data)) = Inr dg" by (simp add: dg_create_ptr_def n dg_def)
  have "dg_ok dg" using assms by (simp add: dg_ok_def dg_def buf_offset_def)
  then obtain line where "process_packet timestamp dg = Inr line" using process_packet_returns by blast
  then show ?thesis
    by (intro exI [of _ "case line of None \<Rightarrow> [] | Some l \<Rightarrow> l"])
      (simp add: receive_packet_def dg write_log_def split: option.split)
qed

lemma every_packet_processed_witness:
  "\<exists>entry. \<forall>closed file. receive_packet [123] [0xdd, 0xff, 0xff, 0xff, 0x7f] (closed @ [file]) = Inr (closed @ [file @ entry])"
  by (rule every_packet_processed) (simp add: DGSIZE_MAX_def)

section \<open>Events of the servers\<close>

text \<open>
  The text of a character in the log: a quotation mark and a backslash behind a backslash, six control
  characters by a letter, any other character that is not printable by two hexadecimal digits.
\<close>

definition json_char :: "u8 \<Rightarrow> bytes" where
  "json_char b =
     (if b = 34 then [92, 34] else if b = 92 then [92, 92]
      else if 0x20 \<le> b \<and> b < 0x7F then [b]
      else if b = 8 then [92, 98] else if b = 9 then [92, 116] else if b = 10 then [92, 110]
      else if b = 11 then [92, 118] else if b = 12 then [92, 102] else if b = 13 then [92, 114]
      else [92, 120, str ''0123456789abcdef'' ! (unat b div 16), str ''0123456789abcdef'' ! (unat b mod 16)])"

lemma hex_table: "d < 16 \<Longrightarrow> str ''0123456789abcdef'' ! d = digit_char d"
proof -
  assume "d < 16"
  moreover have "\<forall>d \<in> set [0..<16]. str ''0123456789abcdef'' ! d = digit_char d"
    by (simp add: upt_rec str_def digit_char_def)
  ultimately show ?thesis by simp
qed

lemma unat_digits: "unat (b :: u8) div 16 < 16" "unat (b :: u8) mod 16 < 16"
  using unsigned_less [of b, where ?'a = nat] by simp_all

definition json_string :: "bytes \<Rightarrow> bytes" where
  "json_string s = [34] @ concat (map json_char s) @ [34]"

fun json_entries :: "logged_event \<Rightarrow> bytes" where
  "json_entries [] = []"
| "json_entries [(k, v)] = json_string k @ str '': '' @ json_string v"
| "json_entries ((k, v) # kvs) = json_string k @ str '': '' @ json_string v @ str '', '' @ json_entries kvs"

text \<open>\<open>turns src txt f\<close>: where the bytes \<open>src\<close> come next, \<open>f\<close> reads exactly them and writes \<open>txt\<close>.\<close>

definition turns :: "bytes \<Rightarrow> bytes \<Rightarrow> decoder \<Rightarrow> bool" where
  "turns src txt f \<longleftrightarrow> (\<forall>out it. upcoming it src \<longrightarrow>
     (\<exists>out'. f (out, it) = Inr (out', advance it (length src)) \<and> out_text out' = out_text out @ txt))"

named_theorems turns_intros

lemma turns_ret [turns_intros]: "turns [] [] Inr"
  by (simp add: turns_def)

lemma turns_write [turns_intros]: "turns [] bs (out_write bs)"
  by (simp add: turns_def out_write_def put_text_def)

lemma turns_dseq [turns_intros]:
  assumes "turns as x f" "turns bs y g"
  shows "turns (as @ bs) (x @ y) (dseq f g)"
  unfolding turns_def
proof (intro allI impI)
  fix out :: ostream and it :: dgi assume "upcoming it (as @ bs)"
  then have up: "upcoming it as" "upcoming (advance it (length as)) bs" by (simp_all add: upcoming_append)
  from assms(1) up(1) obtain out1 where 1: "f (out, it) = Inr (out1, advance it (length as))"
    "out_text out1 = out_text out @ x" unfolding turns_def by blast
  from assms(2) up(2) obtain out2 where 2: "g (out1, advance it (length as)) = Inr (out2, advance it (length as + length bs))"
    "out_text out2 = out_text out1 @ y" unfolding turns_def by fastforce
  with 1 show "\<exists>out'. dseq f g (out, it) = Inr (out', advance it (length (as @ bs)))
      \<and> out_text out' = out_text out @ x @ y" by (simp add: dseq_def)
qed

lemma turns_read8:
  assumes "turns src txt (f b)"
  shows "turns (b # src) txt (dread read_uint8 f)"
  unfolding turns_def
proof (intro allI impI)
  fix out :: ostream and it :: dgi assume "upcoming it (b # src)"
  then have up: "upcoming it [b]" "upcoming (advance it 1) src"
    using upcoming_append [of it "[b]" src] by simp_all
  from read_raw_upcoming [OF up(1), of 1] have "read_uint8 it = Inr (b, advance it 1)"
    by (simp add: read_uint8_def le_word_def)
  with assms up(2) show "\<exists>out'. dread read_uint8 f (out, it) = Inr (out', advance it (length (b # src)))
      \<and> out_text out' = out_text out @ txt" unfolding turns_def by (fastforce simp: dread_def)
qed

lemma turns_read16:
  assumes "turns src txt (f (le_word [a, b]))"
  shows "turns (a # b # src) txt (dread read_uint16 f)"
  unfolding turns_def
proof (intro allI impI)
  fix out :: ostream and it :: dgi assume "upcoming it (a # b # src)"
  then have up: "upcoming it [a, b]" "upcoming (advance it 2) src"
    using upcoming_append [of it "[a, b]" src] by (simp_all add: numeral_2_eq_2)
  from read_raw_upcoming [OF up(1), of 2] have "read_uint16 it = Inr (le_word [a, b], advance it 2)"
    by (simp add: read_uint16_def)
  with assms up(2) show "\<exists>out'. dread read_uint16 f (out, it) = Inr (out', advance it (length (a # b # src)))
      \<and> out_text out' = out_text out @ txt" unfolding turns_def by (fastforce simp: dread_def numeral_2_eq_2)
qed

lemma put_char_text: "out_text (put_char b out) = out_text out @ json_char b"
proof -
  have "json_escape b = (if b = 8 then Some 98 else if b = 9 then Some 116 else if b = 10 then Some 110
      else if b = 11 then Some 118 else if b = 12 then Some 102 else if b = 13 then Some 114 else None)"
    by (simp add: json_escape_def)
  then show ?thesis
    by (auto simp: json_char_def put_char_def put_text_def hex_byte_def hex_table unat_digits)
qed

lemma turns_chars: "turns s (concat (map json_char s)) (decode_chars (length s))"
proof (induction s)
  case (Cons b s)
  have "turns s (json_char b @ concat (map json_char s)) (\<lambda>(out, it). decode_chars (length s) (put_char b out, it))"
    using Cons unfolding turns_def by (fastforce simp: put_char_text)
  from turns_read8 [where f = "\<lambda>b (out, it). decode_chars (length s) (put_char b out, it)", OF this]
  show ?case by simp
qed (simp add: turns_ret)

lemma turns_string: "turns s (json_string s) (decode_string (length s))"
  using turns_dseq [OF turns_write [of "[34]"] turns_dseq [OF turns_chars [of s] turns_write [of "[34]"]]]
  by (simp add: decode_string_def json_string_def)

lemma swapped_length:
  assumes "n < 65536"
  shows "unat (swap_bytes 2 (le_word [word_of_nat (n div 256 mod 256), word_of_nat (n mod 256)] :: u16)) = n"
proof -
  have "le_bytes 2 (le_word [a, b] :: u16) = [a, b]" for a b
    using le_bytes_le_word [of "[a, b]", where ?'a = 16] by (simp add: numeral_2_eq_2)
  then have swap: "swap_bytes 2 (le_word [a, b] :: u16) = le_word [b, a]" for a b by (simp add: swap_bytes_def)
  have "n div 256 < 256" "n mod 256 < 256" using assms by simp_all
  then have "unat (word_of_nat (n div 256 mod 256) :: u8) = n div 256" "unat (word_of_nat (n mod 256) :: u8) = n mod 256"
    by (simp_all only: unsigned_of_nat take_bit_nat_eq_self mod_less) (simp_all add: take_bit_nat_eq_self)
  then have "le_nat [word_of_nat (n mod 256), word_of_nat (n div 256 mod 256)] = n" by simp
  then have "unat (le_word [word_of_nat (n mod 256), word_of_nat (n div 256 mod 256)] :: u16) = n"
    unfolding le_word_def using assms by (simp only: unsigned_of_nat) (simp add: take_bit_nat_eq_self)
  then show ?thesis unfolding swap .
qed

lemma turns_packed:
  assumes "length s \<le> DGSIZE_MAX"
  shows "turns (packed_string s) (json_string s) (msgpack_decode (Suc fuel))"
proof (cases "length s < 32")
  case True
  then have "unat (word_of_nat (160 + length s) :: u8) = 160 + length s"
    by (simp add: unsigned_of_nat take_bit_nat_eq_self del: of_nat_add)
  with True show ?thesis
    unfolding packed_string_def msgpack_decode.simps Let_def by (auto intro!: turns_read8 simp: turns_string)
next
  case False
  have "length s < 65536" using assms by (simp add: DGSIZE_MAX_def)
  note len = swapped_length [OF this]
  have "turns ([word_of_nat (length s div 256 mod 256), word_of_nat (length s mod 256)] @ s) (json_string s)
      (dread read_uint16 (\<lambda>l. decode_string (unat (swap_bytes 2 l))))"
    using turns_string [of s] by (simp add: turns_read16 len)
  with False show ?thesis
    unfolding packed_string_def msgpack_decode.simps Let_def by (auto intro!: turns_read8)
qed

lemma turns_entries:
  assumes "\<forall>(k, v) \<in> set kvs. length k \<le> DGSIZE_MAX \<and> length v \<le> DGSIZE_MAX"
  shows "turns (concat (map (\<lambda>(k, v). packed_string k @ packed_string v) kvs))
    ((if first \<or> kvs = [] then [] else str '', '') @ json_entries kvs)
    (decode_elements (msgpack_decode (Suc fuel)) first True (length kvs))"
  using assms
proof (induction kvs arbitrary: first)
  case (Cons kv kvs)
  obtain k v where kv: "kv = (k, v)" by (cases kv)
  let ?d = "msgpack_decode (Suc fuel)"
  have k: "turns (packed_string k) (json_string k) ?d" and v: "turns (packed_string v) (json_string v) ?d"
    using Cons.prems kv by (auto intro: turns_packed simp del: msgpack_decode.simps)
  have sep: "turns [] (if first then [] else str '', '') (if first then Inr else out_write (str '', ''))"
    by (simp add: turns_ret turns_write)
  have rest: "turns (concat (map (\<lambda>(k, v). packed_string k @ packed_string v) kvs))
      ((if kvs = [] then [] else str '', '') @ json_entries kvs)
      (decode_elements ?d False True (length kvs))"
    using Cons.IH [of False] Cons.prems by (simp del: msgpack_decode.simps)
  from turns_dseq [OF sep turns_dseq [OF turns_dseq [OF k turns_write [of "str '': ''"]] turns_dseq [OF v rest]]]
  show ?case by (cases kvs) (simp_all add: kv del: msgpack_decode.simps split: prod.splits)
qed (simp add: turns_ret)

definition packed_event :: "logged_event \<Rightarrow> bytes" where
  "packed_event kvs =
     (let n = length kvs in
      (if n < 16 then [word_of_nat (128 + n)] else [222, word_of_nat (n div 256 mod 256), word_of_nat (n mod 256)])
      @ concat (map (\<lambda>(k, v). packed_string k @ packed_string v) kvs))"

lemma turns_event:
  assumes "\<forall>(k, v) \<in> set kvs. length k \<le> DGSIZE_MAX \<and> length v \<le> DGSIZE_MAX" "length kvs < 65536"
  shows "turns (packed_event kvs) (str ''{'' @ json_entries kvs @ str ''}'') (msgpack_decode (Suc (Suc fuel)))"
proof -
  let ?src = "concat (map (\<lambda>(k, v). packed_string k @ packed_string v) kvs)"
  have map: "turns ?src (str ''{'' @ json_entries kvs @ str ''}'')
      (decode_container (msgpack_decode (Suc fuel)) (length kvs) True)"
    using turns_dseq [OF turns_write [of "str ''{''"] turns_dseq [OF turns_entries [OF assms(1), of True fuel] turns_write [of "str ''}''"]]]
    by (simp add: decode_container_def del: msgpack_decode.simps)
  show ?thesis
  proof (cases "length kvs < 16")
    case True
    then have n: "unat (word_of_nat (128 + length kvs) :: u8) = 128 + length kvs"
      by (simp add: unsigned_of_nat take_bit_nat_eq_self del: of_nat_add)
    with True map show ?thesis
      unfolding packed_event_def msgpack_decode.simps(2) [of "Suc fuel"] Let_def
      by (auto intro!: turns_read8 simp del: msgpack_decode.simps of_nat_add)
  next
    case False
    have "turns ([word_of_nat (length kvs div 256 mod 256), word_of_nat (length kvs mod 256)] @ ?src)
        (str ''{'' @ json_entries kvs @ str ''}'')
        (dread read_uint16 (\<lambda>l. decode_container (msgpack_decode (Suc fuel)) (unat (swap_bytes 2 l)) True))"
      using map by (simp add: turns_read16 swapped_length [OF assms(2)] del: msgpack_decode.simps)
    with False show ?thesis
      unfolding packed_event_def msgpack_decode.simps(2) [of "Suc fuel"] Let_def
      by (auto intro!: turns_read8 simp del: msgpack_decode.simps)
  qed
qed

lemma event_bytes:
  assumes "\<forall>(k, v) \<in> set kvs. length k \<le> DGSIZE_MAX \<and> length v \<le> DGSIZE_MAX" "event_datagram kvs = Inr dg"
  shows "dg_ok dg" "dg_buf dg = packed_event kvs"
proof -
  have "appends (packed_event kvs) (\<lambda>dg. add_all
      ((if length kvs < 16 then [add_uint8 (word_of_nat (128 + length kvs))]
        else [add_uint8 222, add_uint8 (word_of_nat (length kvs div 256 mod 256)), add_uint8 (word_of_nat (length kvs mod 256))])
       @ concat (map (\<lambda>(k, v). [pack_string k, pack_string v]) kvs)) dg)"
  proof (cases "length kvs < 16")
    case True
    have "appends (([word_of_nat (128 + length kvs)] @ []) @ concat (map (\<lambda>(k, v). packed_string k @ packed_string v) kvs))
        (add_all ([add_uint8 (word_of_nat (128 + length kvs))] @ concat (map (\<lambda>(k, v). [pack_string k, pack_string v]) kvs)))"
      by (intro appends_intros appends_pairs assms)
    with True show ?thesis by (simp add: packed_event_def del: add_all.simps of_nat_add)
  next
    case False
    have "appends (([222] @ [word_of_nat (length kvs div 256 mod 256)] @ [word_of_nat (length kvs mod 256)] @ [])
          @ concat (map (\<lambda>(k, v). packed_string k @ packed_string v) kvs))
        (add_all ([add_uint8 222, add_uint8 (word_of_nat (length kvs div 256 mod 256)), add_uint8 (word_of_nat (length kvs mod 256))]
          @ concat (map (\<lambda>(k, v). [pack_string k, pack_string v]) kvs)))"
      by (intro appends_intros appends_pairs assms)
    with False show ?thesis by (simp add: packed_event_def Let_def del: add_all.simps)
  qed
  from appends_Inr [OF this, of dg_create dg] assms(2)
  show "dg_ok dg" "dg_buf dg = packed_event kvs" by (simp_all add: event_datagram_def Let_def del: add_all.simps)
qed

text \<open>What is written of a string, and so of an event, is printable: one line.\<close>

definition printable :: "bytes \<Rightarrow> bool" where
  "printable bs \<longleftrightarrow> (\<forall>b \<in> set bs. 0x20 \<le> b \<and> b < 0x7f)"

lemma printable_simps [simp]:
  "printable []" "printable (b # bs) \<longleftrightarrow> 0x20 \<le> b \<and> b < 0x7f \<and> printable bs"
  "printable (as @ bs) \<longleftrightarrow> printable as \<and> printable bs"
  by (auto simp: printable_def)

lemma printable_digit: "d < 16 \<Longrightarrow> 0x20 \<le> digit_char d \<and> digit_char d < 0x7f"
  by (simp add: digit_char_def word_le_nat_alt word_less_nat_alt unsigned_of_nat take_bit_nat_eq_self)

lemma printable_char: "printable (json_char b)"
  by (auto simp: json_char_def hex_table unat_digits printable_digit)

lemma printable_string: "printable (json_string s)"
proof -
  have "printable (concat (map json_char s))" by (induction s) (simp_all add: printable_char)
  then show ?thesis by (simp add: json_string_def)
qed

lemma printable_entries: "printable (json_entries kvs)"
proof (induction kvs rule: json_entries.induct)
  case (3 k v kv kvs)
  then show ?case by (simp add: printable_string str_def)
qed (simp_all add: printable_string str_def)

text \<open>A line can be taken apart again: the text of a character tells the character and where it ends.\<close>

definition digit_value :: "u8 \<Rightarrow> nat" where
  "digit_value c = (if c \<le> 57 then unat c - 48 else unat c - 87)"

lemma digit_value_char: "d < 16 \<Longrightarrow> digit_value (digit_char d) = d"
  by (auto simp: digit_value_def digit_char_def word_le_nat_alt unsigned_of_nat take_bit_nat_eq_self)

definition first_char :: "bytes \<Rightarrow> u8 \<times> bytes" where
  "first_char s =
     (if hd s \<noteq> 92 then (hd s, tl s)
      else if s ! 1 = 120 then (word_of_nat (16 * digit_value (s ! 2) + digit_value (s ! 3)), drop 4 s)
      else (if s ! 1 = 98 then 8 else if s ! 1 = 116 then 9 else if s ! 1 = 110 then 10
            else if s ! 1 = 118 then 11 else if s ! 1 = 102 then 12 else if s ! 1 = 114 then 13 else s ! 1, drop 2 s))"

lemma hex_digits_value: "16 * word_of_nat (unat b div 16) + word_of_nat (unat b mod 16) = (b :: u8)"
proof -
  have "16 * word_of_nat (unat b div 16) + word_of_nat (unat b mod 16) = (word_of_nat (16 * (unat b div 16) + unat b mod 16) :: u8)"
    by (simp only: of_nat_add of_nat_mult of_nat_numeral)
  then show ?thesis by simp
qed

lemma first_char_text: "first_char (json_char b @ r) = (b, r)"
  by (auto simp: hex_digits_value json_char_def first_char_def hex_table unat_digits digit_value_char numeral_3_eq_3)

lemma char_text_start: "json_char b @ r \<noteq> 34 # q"
  by (auto simp: json_char_def)

lemma chars_text_inj:
  "concat (map json_char s) @ 34 # r = concat (map json_char t) @ 34 # q \<Longrightarrow> s = t \<and> r = q"
proof (induction s arbitrary: t)
  case Nil
  then show ?case by (cases t) (auto dest: char_text_start [THEN notE, OF sym])
next
  case (Cons b s)
  show ?case
  proof (cases t)
    case Nil
    with Cons.prems show ?thesis using char_text_start by simp
  next
    case t: (Cons c t')
    with Cons.prems have "json_char b @ concat (map json_char s) @ 34 # r = json_char c @ concat (map json_char t') @ 34 # q"
      by simp
    then have "b = c" "concat (map json_char s) @ 34 # r = concat (map json_char t') @ 34 # q"
      by (metis first_char_text prod.inject)+
    with Cons.IH [of t'] t show ?thesis by simp
  qed
qed

lemma string_text_inj: "json_string s @ r = json_string t @ q \<Longrightarrow> s = t \<and> r = q"
  by (auto simp: json_string_def dest: chars_text_inj)

lemma pair_text_inj:
  assumes "json_string k @ str '': '' @ json_string v @ r = json_string l @ str '': '' @ json_string w @ q"
  shows "k = l \<and> v = w \<and> r = q"
proof -
  from string_text_inj [OF assms] have "k = l" "json_string v @ r = json_string w @ q" by (simp_all add: str_def)
  with string_text_inj [OF this(2)] show ?thesis by simp
qed

text \<open>Behind the first pair comes nothing, or a comma and the other pairs.\<close>

definition more_entries :: "logged_event \<Rightarrow> bytes" where
  "more_entries kvs = (if kvs = [] then [] else str '', '' @ json_entries kvs)"

lemma json_entries_Cons:
  "json_entries ((k, v) # kvs) = json_string k @ str '': '' @ json_string v @ more_entries kvs"
  by (cases kvs) (simp_all add: more_entries_def)

lemma entries_text_inj: "json_entries kvs = json_entries kvs' \<Longrightarrow> kvs = kvs'"
proof (induction kvs arbitrary: kvs')
  case Nil
  then show ?case by (cases kvs') (auto simp: json_entries_Cons json_string_def)
next
  case (Cons kv kvs)
  obtain k v where kv: "kv = (k, v)" by (cases kv)
  show ?case
  proof (cases kvs')
    case Nil
    with Cons.prems kv show ?thesis by (simp add: json_entries_Cons json_string_def)
  next
    case kvs': (Cons lw lws)
    obtain l w where lw: "lw = (l, w)" by (cases lw)
    from Cons.prems kvs' have "k = l \<and> v = w \<and> more_entries kvs = more_entries lws"
      unfolding kv lw by (intro pair_text_inj) (simp add: json_entries_Cons)
    moreover from this have "json_entries kvs = json_entries lws"
      by (auto simp: more_entries_def str_def split: if_splits)
    ultimately show ?thesis using Cons.IH kv kvs' lw by simp
  qed
qed

text \<open>
  C28: every event a server logs that fits a datagram becomes exactly one line of the event log: the
  timestamp, then each key with its value in quotation marks, in the order of the event, character by
  character as \<open>json_char\<close> says. The line contains printable characters only, so nothing in a key or value
  can start another one, and it is the line of no other event: keys and values can be read back.
\<close>

theorem logged_event_line:
  assumes "event_datagram kvs = Inr dg" "length kvs < 65536"
    and "\<forall>(k, v) \<in> set kvs. length k \<le> DGSIZE_MAX \<and> length v \<le> DGSIZE_MAX"
  shows "process_packet timestamp dg = Inr (Some (timestamp @ json_entries kvs @ str ''}'' @ [10]))
    \<and> printable (json_entries kvs) \<and> (\<forall>kvs'. json_entries kvs' = json_entries kvs \<longrightarrow> kvs' = kvs)"
proof -
  note ok = event_bytes [OF assms(3,1)]
  let ?it = "\<lparr>it_dg = dg, it_offset = 0\<rparr>"
  have it: "dgi_new dg 0 = Inr ?it" by (simp add: dgi_new_def check_read_length_def)
  have "upcoming ?it (packed_event kvs)" using ok dg_ok_size [OF ok(1)] by (simp add: upcoming_def)
  moreover have "turns (packed_event kvs) (str ''{'' @ json_entries kvs @ str ''}'') (msgpack_decode (2 ^ 16))"
  proof -
    have fuel: "(2 :: nat) ^ 16 = Suc (Suc 65534)" by simp
    show ?thesis unfolding fuel by (rule turns_event [OF assms(3,2)])
  qed
  ultimately obtain out' where out': "msgpack_decode (2 ^ 16) (out_new, ?it) = Inr (out', advance ?it (length (packed_event kvs)))"
    "out_text out' = str ''{'' @ json_entries kvs @ str ''}''"
    unfolding turns_def by (force simp: out_new_def simp del: msgpack_decode.simps)
  have "tell (advance ?it (length (packed_event kvs))) = dg_size dg"
    by (simp add: tell_def dg_size_def buf_offset_def flip: ok(2))
  with out' it have "process_packet timestamp dg = Inr (Some (timestamp @ json_entries kvs @ str ''}'' @ [10]))"
    by (simp add: process_packet_def str_def del: msgpack_decode.simps)
  then show ?thesis using entries_text_inj by (auto simp: printable_entries)
qed

lemma logged_event_line_witness:
  "\<exists>dg. event_datagram [(str ''type'', [10])] = Inr dg
    \<and> process_packet (str ''{'') dg = Inr (Some (str ''{'' @ [34] @ str ''type'' @ [34] @ str '': '' @ [34, 92, 110, 34] @ str ''}'' @ [10]))"
proof -
  have "event_datagram [(str ''type'', [10])]
      = Inr \<lparr>dg_buf = [0x81, 0xa4, 116, 121, 112, 101, 0xa1, 10], buf_cap = 64\<rparr>"
    by (simp add: event_datagram_def pack_string_def str_def add_uint8_def add_data_def dg_put_def check_add_length_def
        dg_store_def dg_create_def buf_offset_def dg_cap_def DGSIZE_MAX_def le_bytes.simps)
  with logged_event_line [OF this, of "str ''{''"] show ?thesis
    by (simp add: DGSIZE_MAX_def json_string_def json_char_def str_def)
qed

text \<open>
  An 8-bit number in a packet is written as the character with that code: with the code of a
  line feed, anyone who can send to the event logger starts a line of the log of his own.
\<close>

theorem small_number_breaks_line:
  "process_packet timestamp (dg_create_data [0x81, 0xa1, 97, 0xcc, v])
    = Inr (Some (timestamp @ str ''\"a\": '' @ [v] @ str ''}'' @ [10]))"
proof -
  let ?dg = "dg_create_data [0x81, 0xa1, 97, 0xcc, v]"
  let ?it = "\<lparr>it_dg = ?dg, it_offset = 0\<rparr>"
  have fuel: "(2 :: nat) ^ 16 = Suc (Suc 65534)" by simp
  have it: "dgi_new ?dg 0 = Inr ?it" "upcoming ?it [0x81, 0xa1, 97, 0xcc, v]"
    by (simp_all add: dgi_new_def check_read_length_def dg_create_data_def upcoming_def dg_size_def buf_offset_def)
  have key: "turns [0xa1, 97] (json_string [97]) (msgpack_decode (Suc 65534))"
    using turns_packed [of "[97]" 65534] by (simp add: packed_string_def DGSIZE_MAX_def del: msgpack_decode.simps)
  have num: "turns [0xcc, v] [v] (msgpack_decode (Suc 65534))"
    unfolding msgpack_decode.simps Let_def by (auto intro!: turns_read8 simp: turns_write)
  from turns_dseq [OF turns_ret turns_dseq [OF turns_dseq [OF key turns_write [of "str '': ''"]] turns_dseq [OF num turns_ret]]]
  have "turns [0xa1, 97, 0xcc, v] (json_string [97] @ str '': '' @ [v])
      (decode_elements (msgpack_decode (Suc 65534)) True True 1)"
    by (simp del: msgpack_decode.simps)
  from turns_dseq [OF turns_write [of "str ''{''"] turns_dseq [OF this turns_write [of "str ''}''"]]]
  have "turns [0xa1, 97, 0xcc, v] (str ''{'' @ json_string [97] @ str '': '' @ [v] @ str ''}'')
      (decode_container (msgpack_decode (Suc 65534)) 1 True)"
    by (simp add: decode_container_def del: msgpack_decode.simps)
  then have "turns [0x81, 0xa1, 97, 0xcc, v] (str ''{'' @ json_string [97] @ str '': '' @ [v] @ str ''}'') (msgpack_decode (2 ^ 16))"
    unfolding fuel msgpack_decode.simps(2) [of "Suc 65534"] Let_def
    by (auto intro!: turns_read8 simp del: msgpack_decode.simps)
  from this [unfolded turns_def, rule_format, OF it(2), of out_new] obtain out' where
    "msgpack_decode (2 ^ 16) (out_new, ?it) = Inr (out', advance ?it 5)"
    "out_text out' = str ''{'' @ json_string [97] @ str '': '' @ [v] @ str ''}''"
    by (auto simp: out_new_def simp del: msgpack_decode.simps)
  then show ?thesis
    using it(1) by (simp add: process_packet_def tell_def dg_size_def buf_offset_def dg_create_data_def str_def
        json_string_def json_char_def del: msgpack_decode.simps)
qed

end
