(* ===== verification/HAProxy.thy ===== *)
theory HAProxy
  imports Network_Props
begin

text \<open>
  \<open>net/HAProxyHandler.cpp\<close> and the data event of \<open>net/NetworkClient.cpp\<close> behind a proxy: the PROXY
  header (version 1 in text, version 2 in binary) at the start of a connection, which names the
  peer. The text of an address is made by \<open>uv_inet_ntop\<close>, a parameter.
\<close>

section \<open>State\<close>

record net_addr =
  ad_ip :: bytes
  ad_port :: u32

definition no_addr :: net_addr where
  "no_addr = \<lparr>ad_ip = [], ad_port = 0\<rparr>"

record haproxy =
  hp_data :: bytes
  hp_tlv :: bytes
  hp_local :: net_addr
  hp_remote :: net_addr
  hp_is_local :: bool
  hp_error :: "uv_error option"

definition haproxy_new :: haproxy where
  "haproxy_new = \<lparr>hp_data = [], hp_tlv = [], hp_local = no_addr, hp_remote = no_addr, hp_is_local = False,
     hp_error = None\<rparr>"

abbreviation UV_EPROTO :: uv_error where "UV_EPROTO \<equiv> UV_OTHER (- 71)"
abbreviation UV_EPROTONOSUPPORT :: uv_error where "UV_EPROTONOSUPPORT \<equiv> UV_OTHER (- 93)"
abbreviation UV_EAFNOSUPPORT :: uv_error where "UV_EAFNOSUPPORT \<equiv> UV_OTHER (- 97)"

abbreviation HAPROXY_HEADER_MAX :: nat where "HAPROXY_HEADER_MAX \<equiv> 107"
abbreviation HAPROXY_HEADER_MIN :: nat where "HAPROXY_HEADER_MIN \<equiv> 16"

definition haproxy_signature_v1 :: bytes where
  "haproxy_signature_v1 = [80, 82, 79, 88, 89, 32, 84, 67, 80]"

definition haproxy_signature_v2 :: bytes where
  "haproxy_signature_v2 = [0x0D, 0x0A, 0x0D, 0x0A, 0x00, 0x0D, 0x0A, 0x51, 0x55, 0x49, 0x54, 0x0A]"

definition set_error :: "uv_error \<Rightarrow> haproxy \<Rightarrow> haproxy" where
  "set_error ec h = h\<lparr>hp_error := Some ec\<rparr>"

section \<open>Text of the C library\<close>

primrec memchr :: "u8 \<Rightarrow> bytes \<Rightarrow> nat option" where
  "memchr c [] = None"
| "memchr c (b # bs) = (if b = c then Some 0 else map_option Suc (memchr c bs))"

text \<open>\<open>strtok\<close>: the next token, if there is one, and what it leaves for the next call.\<close>

definition strtok :: "u8 \<Rightarrow> bytes \<Rightarrow> bytes option \<times> bytes" where
  "strtok delim s =
     (let t = dropWhile (\<lambda>b. b = delim) s in
      if t = [] then (None, [])
      else (Some (takeWhile (\<lambda>b. b \<noteq> delim) t), drop 1 (dropWhile (\<lambda>b. b \<noteq> delim) t)))"

text \<open>\<open>atoi\<close>: blanks, a sign and digits; a value that is no \<open>int\<close> is undefined behaviour.\<close>

definition is_digit :: "u8 \<Rightarrow> bool" where
  "is_digit b \<longleftrightarrow> 48 \<le> b \<and> b \<le> 57"

definition atoi :: "bytes \<Rightarrow> u32 res" where
  "atoi s =
     (let t = dropWhile (\<lambda>b. b = 32 \<or> 9 \<le> b \<and> b \<le> 13) s;
          (neg, t) = (case t of [] \<Rightarrow> (False, []) | b # bs \<Rightarrow> if b = 45 then (True, bs) else if b = 43 then (False, bs) else (False, t));
          n = foldl (\<lambda>n b. 10 * n + int (unat b - 48)) 0 (takeWhile is_digit t);
          v = (if neg then - n else n)
      in if - (2 ^ 31) \<le> v \<and> v < 2 ^ 31 then Inr (word_of_int v) else Inl UndefinedConversion)"

section \<open>The handler\<close>

text \<open>
  The parsers look at the bytes gathered so far and return the size of the header: 0 for an error,
  more than there is while bytes are missing. Of a version 2 header that is there as a whole only its
  own bytes are read, \<open>hdr\<close> below.
\<close>

definition parse_v2_fields :: "(bool \<Rightarrow> bytes \<Rightarrow> bytes) \<Rightarrow> bytes \<Rightarrow> haproxy \<Rightarrow> nat \<times> haproxy" where
  "parse_v2_fields ntop hdr h =
     (let total_len = length hdr; body_len = total_len - HAPROXY_HEADER_MIN;
          version = unat (hdr ! 12) div 16; command = unat (hdr ! 12) mod 16;
          family = unat (hdr ! 13) div 16; transp = unat (hdr ! 13) mod 16
      in
      if version \<noteq> 2 then (0, set_error UV_EPROTO h)
      else if family \<noteq> 1 \<and> family \<noteq> 2 then (0, set_error UV_EAFNOSUPPORT h)
      else if transp \<noteq> 1 then (0, set_error UV_EPROTONOSUPPORT h)
      else if command = 0 then (total_len, h\<lparr>hp_is_local := True\<rparr>)
      else if command \<noteq> 1 then (0, set_error UV_EPROTO h)
      else if family = 1 \<and> body_len < 12 \<or> family = 2 \<and> body_len < 36 then (0, set_error UV_EPROTO h)
      else
        let v6 = (family = 2); n = (if v6 then 16 else 4);
            port_offset = HAPROXY_HEADER_MIN + 2 * n;
            port = (\<lambda>i. ucast (hdr ! i) * 256 + ucast (hdr ! (i + 1)) :: u32);
            tlv_off = port_offset + 4
        in (total_len,
            h\<lparr>hp_remote := \<lparr>ad_ip = ntop v6 (take n (drop HAPROXY_HEADER_MIN hdr)), ad_port = port port_offset\<rparr>,
              hp_local := \<lparr>ad_ip = ntop v6 (take n (drop (HAPROXY_HEADER_MIN + n) hdr)), ad_port = port (port_offset + 2)\<rparr>,
              hp_tlv := (if tlv_off < total_len then drop tlv_off hdr else hp_tlv h)\<rparr>))"

definition v2_size :: "bytes \<Rightarrow> nat" where
  "v2_size buf = HAPROXY_HEADER_MIN + (unat (buf ! 14) * 256 + unat (buf ! 15))"

definition parse_v2_block :: "(bool \<Rightarrow> bytes \<Rightarrow> bytes) \<Rightarrow> haproxy \<Rightarrow> nat \<times> haproxy" where
  "parse_v2_block ntop h =
     (let total_len = v2_size (hp_data h) in
      if length (hp_data h) < total_len then (total_len, h)
      else parse_v2_fields ntop (take total_len (hp_data h)) h)"

text \<open>The fields of a version 1 header; a zero byte ends the string that \<open>strtok\<close> takes apart.\<close>

definition parse_v1_fields :: "bytes \<Rightarrow> haproxy \<Rightarrow> (nat \<times> haproxy) res" where
  "parse_v1_fields hdr h =
     (let (_, s0) = strtok 32 (takeWhile (\<lambda>b. b \<noteq> 0) hdr);
          (tcp, s1) = strtok 32 s0;
          (srcip, s2) = strtok 32 s1;
          (dstip, s3) = strtok 32 s2;
          (srcport, s4) = strtok 32 s3;
          (dstport, s5) = strtok 13 s4
      in case (tcp, srcip, dstip, srcport, dstport) of
           (Some t, Some sip, Some dip, Some sp, Some dp) \<Rightarrow>
             if t \<noteq> [84, 67, 80, 52] \<and> t \<noteq> [84, 67, 80, 54] then Inr (0, set_error UV_EPROTO h)
             else
               rbind (atoi sp) (\<lambda>rport. rbind (atoi dp) (\<lambda>lport.
                 Inr (length hdr, h\<lparr>hp_remote := \<lparr>ad_ip = sip, ad_port = rport\<rparr>,
                                    hp_local := \<lparr>ad_ip = dip, ad_port = lport\<rparr>\<rparr>)))
         | _ \<Rightarrow> Inr (0, set_error UV_EPROTO h))"

definition parse_v1_block :: "haproxy \<Rightarrow> (nat \<times> haproxy) res" where
  "parse_v1_block h =
     (let buf = hp_data h; capped = take HAPROXY_HEADER_MAX buf in
      case memchr 13 capped of
        None \<Rightarrow>
          if HAPROXY_HEADER_MAX - 1 \<le> length buf then Inr (0, set_error UV_EPROTO h) else Inr (length buf + 2, h)
      | Some cr \<Rightarrow>
          if HAPROXY_HEADER_MAX - 1 < cr + 1 then Inr (0, set_error UV_EPROTO h)
          else if memchr 10 capped \<noteq> Some (cr + 1)
          then if HAPROXY_HEADER_MAX \<le> length buf then Inr (0, set_error UV_EPROTO h) else Inr (length buf + 1, h)
          else if HAPROXY_HEADER_MAX < cr + 2 then Inr (0, set_error UV_EPROTO h)
          else parse_v1_fields (take (cr + 2) buf) h)"

definition parse_proxy_block :: "(bool \<Rightarrow> bytes \<Rightarrow> bytes) \<Rightarrow> haproxy \<Rightarrow> (nat \<times> haproxy) res" where
  "parse_proxy_block ntop h =
     (if length (hp_data h) < HAPROXY_HEADER_MIN then Inr (HAPROXY_HEADER_MIN, h)
      else if take 12 (hp_data h) = haproxy_signature_v2 then Inr (parse_v2_block ntop h)
      else if take 9 (hp_data h) = haproxy_signature_v1 then parse_v1_block h
      else Inr (0, h))"

text \<open>The difference of two \<open>size_t\<close> values.\<close>

definition size_sub :: "nat \<Rightarrow> nat \<Rightarrow> nat" where
  "size_sub a b = (if b \<le> a then a - b else 2 ^ 64 + a - b)"

definition consume :: "(bool \<Rightarrow> bytes \<Rightarrow> bytes) \<Rightarrow> bytes \<Rightarrow> haproxy \<Rightarrow> (nat \<times> haproxy) res" where
  "consume ntop data h =
     (if hp_error h \<noteq> None then Inr (0, h)
      else
        let prev_size = length (hp_data h) in
        rbind (parse_proxy_block ntop (h\<lparr>hp_data := hp_data h @ data\<rparr>)) (\<lambda>(hdr_size, h).
          if hdr_size = 0 then Inr (0, set_error UV_EPROTO h)
          else if hdr_size < length (hp_data h) then Inr (size_sub hdr_size prev_size, h)
          else if hdr_size = length (hp_data h) then Inr (0, h)
          else Inr (length data, h)))"

section \<open>The connection\<close>

text \<open>
  What the data event touches: \<open>px_started\<close> says that the session's \<open>initialize\<close> was called,
  \<open>px_passed\<close> are the pieces given to \<open>process_datagram\<close>, \<open>px_disconnect\<close> the error the connection
  was disconnected with.
\<close>

record proxied =
  px_handler :: "haproxy option"
  px_is_local :: bool
  px_local :: net_addr
  px_remote :: net_addr
  px_tlv :: bytes
  px_started :: bool
  px_passed :: "bytes list"
  px_disconnect :: "uv_error option"

definition proxied_new :: "net_addr \<Rightarrow> net_addr \<Rightarrow> proxied" where
  "proxied_new remote local = \<lparr>px_handler = Some haproxy_new, px_is_local = False, px_local = local, px_remote = remote,
     px_tlv = [], px_started = False, px_passed = [], px_disconnect = None\<rparr>"

definition data_event :: "(bool \<Rightarrow> bytes \<Rightarrow> bytes) \<Rightarrow> bytes \<Rightarrow> proxied \<Rightarrow> proxied res" where
  "data_event ntop data px =
     (case px_handler px of
        None \<Rightarrow> Inr (px\<lparr>px_passed := px_passed px @ [data]\<rparr>)
      | Some h \<Rightarrow>
          rbind (consume ntop data h) (\<lambda>(bytes_consumed, h).
            if bytes_consumed < length data \<or> bytes_consumed = 0 then
              (case hp_error h of
                 Some ec \<Rightarrow> Inr (px\<lparr>px_handler := None,
                                  px_disconnect := (if px_disconnect px = None then Some ec else px_disconnect px)\<rparr>)
               | None \<Rightarrow>
                   let px = px\<lparr>px_is_local := hp_is_local h\<rparr>;
                       px = (if hp_is_local h then px
                             else px\<lparr>px_local := hp_local h, px_remote := hp_remote h, px_tlv := hp_tlv h\<rparr>);
                       px = px\<lparr>px_handler := None, px_started := True\<rparr>
                   in Inr (if 0 < bytes_consumed
                           then px\<lparr>px_passed := px_passed px @ [drop bytes_consumed data]\<rparr> else px))
            else Inr (px\<lparr>px_handler := Some h\<rparr>)))"

fun data_events :: "(bool \<Rightarrow> bytes \<Rightarrow> bytes) \<Rightarrow> bytes list \<Rightarrow> proxied \<Rightarrow> proxied res" where
  "data_events ntop [] px = Inr px"
| "data_events ntop (data # ds) px = rbind (data_event ntop data px) (data_events ntop ds)"

section \<open>Headers in pieces\<close>

text \<open>\<open>hdr\<close> is a whole header: the parser takes exactly its bytes, with the result \<open>h\<close>.\<close>

definition proxy_header :: "(bool \<Rightarrow> bytes \<Rightarrow> bytes) \<Rightarrow> bytes \<Rightarrow> haproxy \<Rightarrow> bool" where
  "proxy_header ntop hdr h \<longleftrightarrow>
     parse_proxy_block ntop (haproxy_new\<lparr>hp_data := hdr\<rparr>) = Inr (length hdr, h) \<and> hdr \<noteq> [] \<and> hp_error h = None"

lemma memchr_less: "memchr c bs = Some i \<Longrightarrow> i < length bs"
  by (induction bs arbitrary: i) (auto split: if_splits)

lemma memchr_append: "memchr c as = Some i \<Longrightarrow> memchr c (as @ bs) = Some i"
  by (induction as arbitrary: i) (auto split: if_splits)

lemma memchr_take: "memchr c bs = Some i \<Longrightarrow> memchr c (take m bs) = (if i < m then Some i else None)"
proof (induction bs arbitrary: i m)
  case (Cons b bs)
  then show ?case by (cases m) (auto split: if_splits)
qed simp

lemma v1_whole:
  assumes "parse_v1_block (h\<lparr>hp_data := hdr\<rparr>) = Inr (length hdr, h')" "hdr \<noteq> []"
  obtains cr where "memchr 13 hdr = Some cr" "memchr 10 hdr = Some (cr + 1)" "length hdr = cr + 2" "length hdr \<le> 107"
    "parse_v1_fields hdr (h\<lparr>hp_data := hdr\<rparr>) = Inr (length hdr, h')"
proof -
  obtain cr where cr: "memchr 13 (take 107 hdr) = Some cr" "memchr 10 (take 107 hdr) = Some (cr + 1)"
    "parse_v1_fields (take (cr + 2) hdr) (h\<lparr>hp_data := hdr\<rparr>) = Inr (length hdr, h')"
    using assms by (auto simp: parse_v1_block_def Let_def split: option.splits if_splits)
  then have "cr + 1 < length (take 107 hdr)" using memchr_less by blast
  then have le: "cr + 2 \<le> length hdr" "cr + 2 \<le> 107" by simp_all
  have "length hdr = length (take (cr + 2) hdr) \<or> length hdr = 0"
    using cr(3) by (auto simp: parse_v1_fields_def Let_def res_simps split: prod.splits option.splits if_splits)
  with assms(2) le have len: "length hdr = cr + 2" by auto
  with le have "take 107 hdr = hdr" "take (cr + 2) hdr = hdr" by simp_all
  with cr len le that show ?thesis by simp
qed

lemma parse_v1_fields_data:
  "parse_v1_fields hdr h = Inr (n, h') \<Longrightarrow> parse_v1_fields hdr (h\<lparr>hp_data := d\<rparr>) = Inr (n, h'\<lparr>hp_data := d\<rparr>)"
  by (auto simp: parse_v1_fields_def Let_def res_simps set_error_def split: prod.splits option.splits if_splits)

lemma v1_extended:
  assumes "parse_v1_block (h\<lparr>hp_data := hdr\<rparr>) = Inr (length hdr, h')" "hdr \<noteq> []"
  shows "parse_v1_block (h\<lparr>hp_data := hdr @ rest\<rparr>) = Inr (length hdr, h'\<lparr>hp_data := hdr @ rest\<rparr>)"
proof -
  obtain cr where cr: "memchr 13 hdr = Some cr" "memchr 10 hdr = Some (cr + 1)" "length hdr = cr + 2" "length hdr \<le> 107"
    "parse_v1_fields hdr (h\<lparr>hp_data := hdr\<rparr>) = Inr (length hdr, h')"
    by (rule v1_whole [OF assms])
  have "take 107 (hdr @ rest) = hdr @ take (107 - length hdr) rest" using cr(4) by simp
  moreover have "take (cr + 2) (hdr @ rest) = hdr" using cr(3) by simp
  ultimately show ?thesis
    using cr(3,4) memchr_append [OF cr(1)] memchr_append [OF cr(2)] parse_v1_fields_data [OF cr(5), of "hdr @ rest"]
    by (simp add: parse_v1_block_def Let_def)
qed

lemma v1_prefix:
  assumes "parse_v1_block (h\<lparr>hp_data := hdr\<rparr>) = Inr (length hdr, h')" "m < length hdr"
  shows "\<exists>n > m. parse_v1_block (h\<lparr>hp_data := take m hdr\<rparr>) = Inr (n, h\<lparr>hp_data := take m hdr\<rparr>)"
proof -
  have "hdr \<noteq> []" using assms(2) by auto
  from v1_whole [OF assms(1) this] obtain cr where cr: "memchr 13 hdr = Some cr" "memchr 10 hdr = Some (cr + 1)"
    "length hdr = cr + 2" "length hdr \<le> 107" by metis
  have "take 107 (take m hdr) = take m hdr" using cr(4) assms(2) by simp
  then show ?thesis
    using cr assms(2) memchr_take [OF cr(1), of m] memchr_take [OF cr(2), of m]
    by (simp add: parse_v1_block_def Let_def)
qed

lemma v2_fields_data:
  "parse_v2_fields ntop hdr (h\<lparr>hp_data := d\<rparr>)
    = (fst (parse_v2_fields ntop hdr h), (snd (parse_v2_fields ntop hdr h))\<lparr>hp_data := d\<rparr>)"
  by (simp add: parse_v2_fields_def Let_def set_error_def)

lemma v2_whole:
  assumes "parse_v2_block ntop (h\<lparr>hp_data := hdr\<rparr>) = (length hdr, h')" "hdr \<noteq> []"
  shows "v2_size hdr = length hdr"
proof -
  have "fst (parse_v2_fields ntop x y) \<in> {0, length x}" for x y
    by (simp add: parse_v2_fields_def Let_def)
  from this [of "take (v2_size hdr) hdr" "h\<lparr>hp_data := hdr\<rparr>"] assms show ?thesis
    by (auto simp: parse_v2_block_def Let_def min_def split: if_splits)
qed

lemma v2_size_append: "16 \<le> length hdr \<Longrightarrow> v2_size (hdr @ rest) = v2_size hdr"
  by (simp add: v2_size_def nth_append)

lemma v2_extended:
  assumes "parse_v2_block ntop (h\<lparr>hp_data := hdr\<rparr>) = (length hdr, h')" "16 \<le> length hdr"
  shows "parse_v2_block ntop (h\<lparr>hp_data := hdr @ rest\<rparr>) = (length hdr, h'\<lparr>hp_data := hdr @ rest\<rparr>)"
proof -
  have ne: "hdr \<noteq> []" using assms(2) by auto
  note size = v2_whole [OF assms(1) ne] v2_size_append [OF assms(2), of rest]
  from assms(1) size(1) have "parse_v2_fields ntop hdr (h\<lparr>hp_data := hdr\<rparr>) = (length hdr, h')"
    by (simp add: parse_v2_block_def)
  with size show ?thesis
    using v2_fields_data [where ntop = ntop and hdr = hdr and h = "h\<lparr>hp_data := hdr\<rparr>" and d = "hdr @ rest"] by (simp add: parse_v2_block_def)
qed

lemma v2_prefix:
  assumes "parse_v2_block ntop (h\<lparr>hp_data := hdr\<rparr>) = (length hdr, h')" "m < length hdr" "16 \<le> m"
  shows "parse_v2_block ntop (h\<lparr>hp_data := take m hdr\<rparr>) = (length hdr, h\<lparr>hp_data := take m hdr\<rparr>)"
proof -
  have "hdr \<noteq> []" using assms(2) by auto
  from v2_whole [OF assms(1) this] have "v2_size (take m hdr) = length hdr"
    using assms(2,3) by (simp add: v2_size_def)
  then show ?thesis using assms(2) by (simp add: parse_v2_block_def)
qed

lemma header_extended:
  assumes "proxy_header ntop hdr h"
  shows "parse_proxy_block ntop (haproxy_new\<lparr>hp_data := hdr @ rest\<rparr>) = Inr (length hdr, h\<lparr>hp_data := hdr @ rest\<rparr>)"
proof -
  have len: "16 \<le> length hdr"
    using assms by (auto simp: proxy_header_def parse_proxy_block_def split: if_splits)
  with assms show ?thesis
    using v2_extended [where ntop = ntop and h = haproxy_new and hdr = hdr and h' = h and rest = rest]
      v1_extended [where h = haproxy_new and hdr = hdr and h' = h and rest = rest]
    by (auto simp: proxy_header_def parse_proxy_block_def split: if_splits)
qed

lemma header_prefix:
  assumes "proxy_header ntop hdr h" "m < length hdr"
  shows "\<exists>n > m. parse_proxy_block ntop (haproxy_new\<lparr>hp_data := take m hdr\<rparr>) = Inr (n, haproxy_new\<lparr>hp_data := take m hdr\<rparr>)"
proof (cases "m < 16")
  case False
  with assms show ?thesis
    using v2_prefix [where ntop = ntop and h = haproxy_new and hdr = hdr and h' = h and m = m]
      v1_prefix [where h = haproxy_new and hdr = hdr and h' = h and m = m]
    by (auto simp: proxy_header_def parse_proxy_block_def min_def split: if_splits)
qed (use assms in \<open>auto simp: parse_proxy_block_def\<close>)


lemma data_events_plain:
  "px_handler px = None \<Longrightarrow> data_events ntop ds px = Inr (px\<lparr>px_passed := px_passed px @ ds\<rparr>)"
  by (induction ds arbitrary: px) (simp_all add: data_event_def res_simps)

text \<open>What the connection is after the header \<open>h\<close>, with \<open>ps\<close> passed on.\<close>

definition px_open :: "haproxy \<Rightarrow> bytes list \<Rightarrow> proxied \<Rightarrow> proxied" where
  "px_open h ps px =
     px\<lparr>px_handler := None, px_is_local := hp_is_local h,
        px_local := (if hp_is_local h then px_local px else hp_local h),
        px_remote := (if hp_is_local h then px_remote px else hp_remote h),
        px_tlv := (if hp_is_local h then px_tlv px else hp_tlv h), px_started := True,
        px_passed := px_passed px @ ps\<rparr>"

lemma consume_part:
  assumes "proxy_header ntop hdr h" "m + length d < length hdr" "d = take (length d) (drop m hdr)"
  shows "consume ntop d (haproxy_new\<lparr>hp_data := take m hdr\<rparr>) = Inr (length d, haproxy_new\<lparr>hp_data := take (m + length d) hdr\<rparr>)"
proof -
  have app: "take m hdr @ d = take (m + length d) hdr" by (subst assms(3)) (simp add: take_add)
  obtain n where "m + length d < n" "parse_proxy_block ntop (haproxy_new\<lparr>hp_data := take (m + length d) hdr\<rparr>)
      = Inr (n, haproxy_new\<lparr>hp_data := take (m + length d) hdr\<rparr>)"
    using header_prefix [OF assms(1,2)] by blast
  then show ?thesis using assms(2) by (simp add: consume_def app haproxy_new_def res_simps)
qed

lemma consume_last:
  assumes "proxy_header ntop hdr h" "m \<le> length hdr" "take m hdr @ d = hdr @ left"
  shows "consume ntop d (haproxy_new\<lparr>hp_data := take m hdr\<rparr>)
    = Inr (if left = [] then 0 else length hdr - m, h\<lparr>hp_data := hdr @ left\<rparr>)"
proof -
  have "hdr \<noteq> []" using assms(1) by (simp add: proxy_header_def)
  with header_extended [OF assms(1), of left] assms(2,3) show ?thesis
    by (simp add: consume_def haproxy_new_def res_simps size_sub_def)
qed

lemma header_consumed:
  assumes "proxy_header ntop hdr h" "[] \<notin> set chunks" "concat chunks = drop m hdr @ rest" "m < length hdr"
    "px_handler px = Some (haproxy_new\<lparr>hp_data := take m hdr\<rparr>)"
  shows "\<exists>ps. data_events ntop chunks px = Inr (px_open h ps px) \<and> concat ps = rest"
  using assms(2-5)
proof (induction chunks arbitrary: m px)
  case (Cons d ds)
  show ?case
  proof (cases "m + length d < length hdr")
    case True
    have "take (length d) (drop m hdr @ rest) = d" using Cons.prems(2) [symmetric] by simp
    with True have d: "d = take (length d) (drop m hdr)" by simp
    have "drop (length d) (drop m hdr @ rest) = concat ds" using Cons.prems(2) [symmetric] by simp
    with True have ds: "concat ds = drop (m + length d) hdr @ rest" by (simp add: add.commute)
    let ?px = "px\<lparr>px_handler := Some (haproxy_new\<lparr>hp_data := take (m + length d) hdr\<rparr>)\<rparr>"
    have "d \<noteq> []" using Cons.prems(1) by auto
    then have "data_event ntop d px = Inr ?px"
      using Cons.prems(4) consume_part [OF assms(1) True d] by (simp add: data_event_def res_simps)
    moreover obtain ps where "data_events ntop ds ?px = Inr (px_open h ps ?px)" "concat ps = rest"
      using Cons.IH [OF _ ds True, of ?px] Cons.prems(1) by auto
    moreover have "px_open h ps ?px = px_open h ps px" by (simp add: px_open_def)
    ultimately show ?thesis by (auto simp: res_simps)
  next
    case False
    define left where "left = drop (length hdr - m) d"
    have "take (length hdr - m) (d @ concat ds) = drop m hdr" using Cons.prems(2) by simp
    with False have "take (length hdr - m) d = drop m hdr" by simp
    moreover have "take (length hdr - m) d @ left = d" by (simp add: left_def)
    ultimately have d: "d = drop m hdr @ left" by simp
    with Cons.prems(2) have rest: "rest = left @ concat ds" by simp
    have all: "take m hdr @ d = hdr @ left" using d by simp
    note c = consume_last [OF assms(1) _ all]
    have err: "hp_error h = None" using assms(1) by (simp add: proxy_header_def)
    have lt: "left \<noteq> [] \<Longrightarrow> length hdr - m < length hdr + length left - m"
      using Cons.prems(3) by (cases left) auto
    let ?ps = "if left = [] then [] else [left]"
    have "data_event ntop d px = Inr (px_open h ?ps px)"
      using c Cons.prems(3,4) err d lt by (cases "left = []") (simp_all add: data_event_def res_simps px_open_def Let_def)
    moreover have "px_handler (px_open h ?ps px) = None" by (simp add: px_open_def)
    ultimately have "data_events ntop (d # ds) px = Inr ((px_open h ?ps px)\<lparr>px_passed := px_passed (px_open h ?ps px) @ ds\<rparr>)"
      by (simp add: res_simps data_events_plain)
    moreover have "(px_open h ?ps px)\<lparr>px_passed := px_passed (px_open h ?ps px) @ ds\<rparr> = px_open h (?ps @ ds) px"
      by (simp add: px_open_def)
    moreover have "concat (?ps @ ds) = rest" using rest by simp
    ultimately show ?thesis by metis
  qed
qed simp

section \<open>The header and what follows\<close>



section \<open>Headers that are rejected\<close>

lemma v2_error_kept: "parse_v2_fields ntop hdr h = (n, h') \<Longrightarrow> n \<noteq> 0 \<Longrightarrow> hp_error h' = hp_error h"
  by (auto simp: parse_v2_fields_def Let_def split: if_splits)

lemma v1_error_kept: "parse_v1_fields hdr h = Inr (n, h') \<Longrightarrow> n \<noteq> 0 \<Longrightarrow> hp_error h' = hp_error h"
  by (auto simp: parse_v1_fields_def Let_def res_simps split: prod.splits option.splits if_splits)

lemma parse_error_kept:
  assumes "parse_proxy_block ntop h = Inr (n, h')" "n \<noteq> 0"
  shows "hp_error h' = hp_error h"
proof (cases "length (hp_data h) < HAPROXY_HEADER_MIN")
  case True
  with assms(1) show ?thesis by (simp add: parse_proxy_block_def)
next
  case False
  then consider "parse_v2_block ntop h = (n, h')" | "parse_v1_block h = Inr (n, h')"
    using assms by (auto simp: parse_proxy_block_def split: if_splits)
  then show ?thesis
  proof cases
    case 1
    then show ?thesis using assms(2) v2_error_kept by (auto simp: parse_v2_block_def Let_def split: if_splits)
  next
    case 2
    then consider "h' = h" | hdr where "parse_v1_fields hdr h = Inr (n, h')"
      using assms(2) by (auto simp: parse_v1_block_def Let_def split: if_splits option.splits)
    then show ?thesis using assms(2) v1_error_kept by cases auto
  qed
qed

lemma consume_error:
  assumes "consume ntop d h = Inr (n, h')" "hp_error h = None"
  shows "hp_error h' = None \<or> hp_error h' = Some UV_EPROTO \<and> n = 0"
proof -
  from assms obtain k h1 where p: "parse_proxy_block ntop (h\<lparr>hp_data := hp_data h @ d\<rparr>) = Inr (k, h1)"
    by (auto simp: consume_def rbind_def split: sum.splits)
  then have "k \<noteq> 0 \<Longrightarrow> hp_error h1 = None" using parse_error_kept [OF p] assms(2) by simp
  with p assms show ?thesis by (auto simp: consume_def set_error_def res_simps Let_def split: if_splits)
qed

definition px_sound :: "proxied \<Rightarrow> bool" where
  "px_sound px \<longleftrightarrow>
     (case px_handler px of
        Some h \<Rightarrow> hp_error h = None \<and> px_disconnect px = None \<and> \<not> px_started px \<and> px_passed px = []
      | None \<Rightarrow> px_disconnect px = (if px_started px then None else Some UV_EPROTO))"

lemma data_event_sound:
  assumes "data_event ntop d px = Inr px'" "px_sound px"
  shows "px_sound px'"
proof (cases "px_handler px")
  case None
  with assms show ?thesis by (auto simp: data_event_def px_sound_def)
next
  case (Some h)
  with assms(1) obtain n h' where c: "consume ntop d h = Inr (n, h')"
    by (auto simp: data_event_def rbind_def split: sum.splits)
  have "hp_error h' = None \<or> hp_error h' = Some UV_EPROTO \<and> n = 0"
    using consume_error [OF c] Some assms(2) by (simp add: px_sound_def)
  with assms Some c show ?thesis
    by (auto simp: data_event_def px_sound_def res_simps Let_def split: if_splits)
qed

lemma data_events_sound: "data_events ntop ds px = Inr px' \<Longrightarrow> px_sound px \<Longrightarrow> px_sound px'"
proof (induction ds arbitrary: px)
  case (Cons d ds)
  from Cons.prems(1) obtain px1 where "data_event ntop d px = Inr px1" "data_events ntop ds px1 = Inr px'"
    by (auto simp: rbind_def split: sum.splits)
  with Cons.IH data_event_sound Cons.prems(2) show ?case by blast
qed simp

text \<open>
  Whatever arrives, the connection is in one of three states: still reading the header, with nothing
  done; started, with no disconnect; or disconnected, and then the session was not started, and the
  error is always \<open>UV_EPROTO\<close>, whichever error the parser had set.
\<close>

lemma header_outcome:
  assumes "data_events ntop chunks (proxied_new remote local) = Inr px"
  shows "px_disconnect px = None \<and> (px_started px \<longleftrightarrow> px_handler px = None)
    \<or> px_disconnect px = Some UV_EPROTO \<and> \<not> px_started px \<and> px_handler px = None"
proof -
  have "px_sound (proxied_new remote local)" by (simp add: px_sound_def proxied_new_def haproxy_new_def)
  with data_events_sound [OF assms] have "px_sound px" .
  then show ?thesis by (cases "px_handler px") (auto simp: px_sound_def split: if_splits)
qed

lemma data_events_append:
  "data_events ntop (cs @ ds) px = rbind (data_events ntop cs px) (data_events ntop ds)"
  by (induction cs arbitrary: px) (simp_all add: rbind_def split: sum.splits)

text \<open>
  C37: When the header of a connection is rejected, the connection is disconnected with \<open>UV_EPROTO\<close>,
  whichever error the parser had set, and the session is never started; but every chunk that libuv
  still hands over before the task that closes the socket has run goes to the session as data.
\<close>

theorem rejected_header_served:
  assumes "data_events ntop chunks (proxied_new remote local) = Inr px" "px_disconnect px \<noteq> None"
  shows "px_disconnect px = Some UV_EPROTO \<and> \<not> px_started px
    \<and> data_events ntop (chunks @ ds) (proxied_new remote local) = Inr (px\<lparr>px_passed := px_passed px @ ds\<rparr>)"
  using header_outcome [OF assms(1)] assms data_events_plain [of px ntop ds]
  by (auto simp: data_events_append res_simps)

theorem rejected_header_served_witness:
  "\<exists>px. data_events (\<lambda>_ b. b) [haproxy_signature_v2 @ [0x21, 0x31, 0, 0], [1, 0, 7]] (proxied_new no_addr no_addr) = Inr px
    \<and> px_disconnect px = Some UV_EPROTO \<and> \<not> px_started px \<and> px_passed px = [[1, 0, 7]]"
proof -
  obtain px where px: "data_events (\<lambda>_ b. b) [haproxy_signature_v2 @ [0x21, 0x31, 0, 0]] (proxied_new no_addr no_addr) = Inr px"
    "px_disconnect px \<noteq> None" "px_passed px = []"
    by (simp add: data_event_def proxied_new_def haproxy_new_def consume_def parse_proxy_block_def set_error_def
        haproxy_signature_v2_def res_simps parse_v2_block_def v2_size_def parse_v2_fields_def Let_def)
  from rejected_header_served [OF px(1,2), of "[[1, 0, 7]]"] px(3) show ?thesis
    by (intro exI [of _ "px\<lparr>px_passed := [[1, 0, 7]]\<rparr>"]) simp
qed

section \<open>Version 2 headers\<close>

text \<open>What a proxy writes, after the protocol's document, with the addresses in network order.\<close>

definition be_bytes_2 :: "nat \<Rightarrow> bytes" where
  "be_bytes_2 n = [of_nat (n div 256), of_nat (n mod 256)]"

definition v2_header :: "bool \<Rightarrow> bytes \<Rightarrow> bytes \<Rightarrow> nat \<Rightarrow> nat \<Rightarrow> bytes \<Rightarrow> bytes" where
  "v2_header v6 src dst sport dport tlv =
     haproxy_signature_v2 @ [0x21, if v6 then 0x21 else 0x11]
       @ be_bytes_2 (length src + length dst + 4 + length tlv) @ src @ dst @ be_bytes_2 sport @ be_bytes_2 dport @ tlv"

lemma unat_be: "n < 65536 \<Longrightarrow> unat (of_nat (n div 256) :: u8) * 256 + unat (of_nat (n mod 256) :: u8) = n"
  by (simp add: unsigned_of_nat take_bit_nat_eq_self less_mult_imp_div_less)

lemma port_be:
  assumes "n < 65536"
  shows "ucast (of_nat (n div 256) :: u8) * 256 + ucast (of_nat (n mod 256) :: u8) = (of_nat n :: u32)"
proof -
  have u: "ucast w = (of_nat (unat w) :: u32)" for w :: u8 by simp
  have "ucast (of_nat (n div 256) :: u8) * 256 + ucast (of_nat (n mod 256) :: u8)
      = (of_nat (unat (of_nat (n div 256) :: u8) * 256 + unat (of_nat (n mod 256) :: u8)) :: u32)"
    by (simp only: u of_nat_add of_nat_mult of_nat_numeral)
  then show ?thesis by (simp only: unat_be [OF assms])
qed

definition v2_header_result :: "(bool \<Rightarrow> bytes \<Rightarrow> bytes) \<Rightarrow> bool \<Rightarrow> bytes \<Rightarrow> bytes \<Rightarrow> nat \<Rightarrow> nat \<Rightarrow> bytes \<Rightarrow> haproxy" where
  "v2_header_result ntop v6 src dst sport dport tlv =
     haproxy_new\<lparr>hp_data := v2_header v6 src dst sport dport tlv,
       hp_remote := \<lparr>ad_ip = ntop v6 src, ad_port = of_nat sport\<rparr>,
       hp_local := \<lparr>ad_ip = ntop v6 dst, ad_port = of_nat dport\<rparr>, hp_tlv := tlv\<rparr>"

text \<open>
  C27: The version 2 header that names a TCP peer is read back: whatever the addresses, the ports and
  the TLVs (as long as the length field holds), the parser takes the header as a whole and exactly it,
  and keeps the addresses, the ports and the TLVs it was made of.
\<close>

theorem v2_header_read:
  assumes "length src = (if v6 then 16 else 4)" "length dst = length src" "sport < 65536" "dport < 65536"
    "2 * length src + 4 + length tlv < 65536"
  shows "proxy_header ntop (v2_header v6 src dst sport dport tlv) (v2_header_result ntop v6 src dst sport dport tlv)"
proof -
  let ?hdr = "v2_header v6 src dst sport dport tlv"
  let ?body = "be_bytes_2 (length src + length dst + 4 + length tlv) @ src @ dst @ be_bytes_2 sport @ be_bytes_2 dport @ tlv"
  have len: "length ?hdr = 20 + 2 * length src + length tlv"
    using assms(2) by (simp add: v2_header_def haproxy_signature_v2_def be_bytes_2_def)
  have n: "?hdr ! 12 = 0x21" "?hdr ! 13 = (if v6 then 0x21 else 0x11)"
    "?hdr ! 14 = of_nat ((length src + length dst + 4 + length tlv) div 256)"
    "?hdr ! 15 = of_nat ((length src + length dst + 4 + length tlv) mod 256)"
    "take 12 ?hdr = haproxy_signature_v2"
    by (simp_all add: v2_header_def haproxy_signature_v2_def be_bytes_2_def)
  have d: "drop 16 ?hdr = src @ dst @ be_bytes_2 sport @ be_bytes_2 dport @ tlv"
    by (simp add: v2_header_def haproxy_signature_v2_def be_bytes_2_def)
  have nth16: "?hdr ! (16 + k) = (src @ dst @ be_bytes_2 sport @ be_bytes_2 dport @ tlv) ! k" for k
    using nth_drop [of 16 ?hdr k] len unfolding d by simp
  have size: "v2_size ?hdr = length ?hdr"
    unfolding v2_size_def n using unat_be [of "length src + length dst + 4 + length tlv"] assms(2,5) len by simp
  have p: "?hdr ! (16 + 2 * length src) = of_nat (sport div 256)" "?hdr ! (16 + (2 * length src + 1)) = of_nat (sport mod 256)"
    "?hdr ! (16 + (2 * length src + 2)) = of_nat (dport div 256)" "?hdr ! (16 + (2 * length src + 3)) = of_nat (dport mod 256)"
    unfolding nth16 using assms(2) by (simp_all add: nth_append be_bytes_2_def)
  have addr: "take (length src) (drop 16 ?hdr) = src" "take (length src) (drop (16 + length src) ?hdr) = dst"
    "drop (16 + 2 * length src + 4) ?hdr = tlv"
  proof -
    have sh: "drop (16 + k) ?hdr = drop k (src @ dst @ be_bytes_2 sport @ be_bytes_2 dport @ tlv)" for k
      unfolding d [symmetric] by (simp add: add.commute)
    show "take (length src) (drop 16 ?hdr) = src" unfolding d by simp
    show "take (length src) (drop (16 + length src) ?hdr) = dst" unfolding sh using assms(2) by simp
    show "drop (16 + 2 * length src + 4) ?hdr = tlv"
      using sh [of "2 * length src + 4"] assms(2) by (simp add: be_bytes_2_def add.assoc)
  qed
  have f: "parse_v2_fields ntop ?hdr (haproxy_new\<lparr>hp_data := ?hdr\<rparr>)
      = (length ?hdr, v2_header_result ntop v6 src dst sport dport tlv)"
  proof (cases v6)
    case True
    with assms(1,2) n(1,2) p addr len show ?thesis
      by (simp add: parse_v2_fields_def Let_def v2_header_result_def haproxy_new_def port_be [OF assms(3)] port_be [OF assms(4)])
  next
    case False
    with assms(1,2) n(1,2) p addr len show ?thesis
      by (simp add: parse_v2_fields_def Let_def v2_header_result_def haproxy_new_def port_be [OF assms(3)] port_be [OF assms(4)])
  qed
  have "16 \<le> length ?hdr" using len by simp
  then show ?thesis
    using n(5) f size
    by (auto simp: proxy_header_def parse_proxy_block_def parse_v2_block_def v2_header_result_def haproxy_new_def)
qed

theorem v2_header_read_witness:
  "proxy_header (\<lambda>_ b. b) (v2_header False [10, 0, 0, 1] [10, 0, 0, 2] 50000 7198 [4, 0, 0])
     (v2_header_result (\<lambda>_ b. b) False [10, 0, 0, 1] [10, 0, 0, 2] 50000 7198 [4, 0, 0])"
  by (rule v2_header_read) simp_all

end
