(* ===== verification/Value_Format.thy ===== *)
theory Value_Format
  imports Msgpack
begin

text \<open>
  \<open>dclass/value/format.cpp\<close>: the text of a packed value, in the form of a .dc file. The YAML database
  keeps the fields of its objects in this form. Floating-point numbers are written as the C++ library
  writes them by default, with six significant digits.
\<close>

section \<open>Floating-point numbers\<close>

text \<open>How many times a positive ratio below 1 is multiplied by ten until it is 1 or more.\<close>

function tenfolds :: "nat \<Rightarrow> nat \<Rightarrow> nat" where
  "tenfolds num den = (if den \<le> num \<or> num = 0 then 0 else Suc (tenfolds (10 * num) den))"
  by pat_completeness auto
termination
  by (relation "measure (\<lambda>(num, den). den - num)") auto

declare tenfolds.simps [simp del]

definition digit_chars :: "nat list \<Rightarrow> bytes" where
  "digit_chars ds = map digit_char ds"

definition fraction_text :: "nat list \<Rightarrow> bytes" where
  "fraction_text ds = (if ds = [] then [] else str ''.'' @ digit_chars ds)"

definition ratio_text :: "nat \<Rightarrow> nat \<Rightarrow> bytes" where
  "ratio_text num den =
     (let x0 = (if den \<le> num then int (length (digits 10 (num div den))) - 1 else - int (tenfolds num den));
          q0 = (if x0 \<le> 5 then round_half_even (num * 10 ^ nat (5 - x0)) den
                else round_half_even num (den * 10 ^ nat (x0 - 5)));
          (q, x) = (if q0 = 10 ^ 6 then (10 ^ 5, x0 + 1) else (q0, x0));
          ds = digits 10 q
      in if 0 \<le> x \<and> x < 6 then digit_chars (take (nat x + 1) ds) @ fraction_text (strip_zeros (drop (nat x + 1) ds))
         else if - 4 \<le> x \<and> x < 0 then str ''0.'' @ replicate (nat (- x - 1)) 48 @ digit_chars (strip_zeros ds)
         else digit_chars (take 1 ds) @ fraction_text (strip_zeros (drop 1 ds))
           @ (if x < 0 then str ''e-'' else str ''e+'')
           @ (if \<bar>x\<bar> < 10 then str ''0'' else []) @ decimal (nat \<bar>x\<bar>))"

definition double_text :: "u64 \<Rightarrow> bytes" where
  "double_text b =
     (let n = unat b; e = n div 2 ^ 52 mod 2048; m = n mod 2 ^ 52
      in (if n \<ge> 2 ^ 63 then str ''-'' else [])
         @ (if e = 2047 then (if m = 0 then str ''inf'' else str ''nan'')
            else if e = 0 \<and> m = 0 then str ''0''
            else if e = 0 then ratio_text m (2 ^ 1074)
            else if e \<ge> 1075 then ratio_text ((2 ^ 52 + m) * 2 ^ (e - 1075)) 1
            else ratio_text (2 ^ 52 + m) (2 ^ (1075 - e))))"

section \<open>Integers, quoted and hexadecimal strings\<close>

definition int_text :: "int \<Rightarrow> bytes" where
  "int_text i = (if i < 0 then str ''-'' @ decimal (nat (- i)) else decimal (nat i))"

definition is_print :: "u8 \<Rightarrow> bool" where
  "is_print c \<longleftrightarrow> 32 \<le> c \<and> c < 127"

definition quoted_char :: "u8 \<Rightarrow> u8 \<Rightarrow> bytes" where
  "quoted_char quote_mark c =
     (if c = quote_mark \<or> c = 92 then [92, c] else if \<not> is_print c then [92, 120] @ hex_byte c else [c])"

definition format_quoted :: "u8 \<Rightarrow> bytes \<Rightarrow> bytes" where
  "format_quoted quote_mark s = [quote_mark] @ concat (map (quoted_char quote_mark) s) @ [quote_mark]"

definition format_hex :: "bytes \<Rightarrow> bytes" where
  "format_hex s = [60] @ concat (map hex_byte s) @ [62]"

definition number_text :: "type_tag \<Rightarrow> bytes \<Rightarrow> bytes" where
  "number_text t bs =
     (case t of
        T_INT8 \<Rightarrow> int_text (sint (le_word bs :: u8))
      | T_INT16 \<Rightarrow> int_text (sint (le_word bs :: u16))
      | T_INT32 \<Rightarrow> int_text (sint (le_word bs :: u32))
      | T_INT64 \<Rightarrow> int_text (sint (le_word bs :: u64))
      | T_FLOAT32 \<Rightarrow> double_text (float_to_double (le_word bs))
      | T_FLOAT64 \<Rightarrow> double_text (le_word bs)
      | T_CHAR \<Rightarrow> format_quoted 39 bs
      | _ \<Rightarrow> decimal (le_nat bs))"

section \<open>The formatter\<close>

text \<open>
  The formatter goes over the packed bytes \<open>inp\<close>; its state is the offset and what it has written.
  \<open>format\<close> returns a flag and the state, or never returns: an element that takes no bytes keeps the
  loop over a variable array where it is for ever.
\<close>

type_synonym formatted = "(bool \<times> nat \<times> bytes) option"
type_synonym formatter = "nat \<times> bytes \<Rightarrow> formatted"

definition remaining :: "bytes \<Rightarrow> nat \<Rightarrow> nat \<Rightarrow> bool" where
  "remaining inp off n \<longleftrightarrow> off + n \<le> length inp"

definition part :: "bytes \<Rightarrow> nat \<Rightarrow> nat \<Rightarrow> bytes" where
  "part inp off n = take n (drop off inp)"

definition fmt_bind :: "formatted \<Rightarrow> (nat \<times> bytes \<Rightarrow> formatted) \<Rightarrow> (nat \<times> bytes \<Rightarrow> formatted) \<Rightarrow> formatted" where
  "fmt_bind r ok failed =
     (case r of None \<Rightarrow> None | Some (b, st) \<Rightarrow> if b then ok st else failed st)"

text \<open>Ending with a closing character, or without one.\<close>

definition fmt_end :: "bool \<Rightarrow> bytes \<Rightarrow> formatter" where
  "fmt_end b close = (\<lambda>(off, out). Some (b, off, out @ close))"

definition fmt_leaf :: "bytes \<Rightarrow> nat \<Rightarrow> (bytes \<Rightarrow> bytes) \<Rightarrow> formatter" where
  "fmt_leaf inp n text_of =
     (\<lambda>(off, out). if remaining inp off n then Some (True, off + n, out @ text_of (part inp off n))
                   else Some (False, off, out))"

primrec fmt_more :: "formatter \<Rightarrow> nat \<Rightarrow> formatter" where
  "fmt_more f 0 = (\<lambda>st. Some (True, st))"
| "fmt_more f (Suc n) =
     (\<lambda>(off, out). fmt_bind (f (off, out @ str '', '')) (fmt_more f n) (\<lambda>st. Some (False, st)))"

definition fmt_fixed :: "bytes \<Rightarrow> formatter \<Rightarrow> nat \<Rightarrow> formatter" where
  "fmt_fixed close_failed f n =
     (\<lambda>(off, out). fmt_bind (f (off, out @ str ''[''))
        (\<lambda>st. fmt_bind (fmt_more f (n - 1) st) (fmt_end True (str '']'')) (fmt_end False close_failed))
        (fmt_end False close_failed))"

function fmt_while :: "formatter \<Rightarrow> nat \<Rightarrow> nat \<times> bytes \<Rightarrow> formatted" where
  "fmt_while f array_end (off, out) =
     (if off < array_end
      then (case f (off, out @ str '', '') of
              None \<Rightarrow> None
            | Some (b, off', out') \<Rightarrow>
                if \<not> b then Some (False, off', out')
                else if off' \<le> off then None
                else fmt_while f array_end (off', out'))
      else Some (True, off, out))"
  by pat_completeness auto
termination
  by (relation "measure (\<lambda>(f, array_end, off, out). array_end - off)") auto

declare fmt_while.simps [simp del]

definition read_length :: "bytes \<Rightarrow> nat \<Rightarrow> nat" where
  "read_length inp off = le_nat (part inp off 2)"

definition fmt_variable :: "bytes \<Rightarrow> formatter \<Rightarrow> formatter" where
  "fmt_variable inp f =
     (\<lambda>(off, out).
        let out = out @ str ''['' in
        if \<not> remaining inp off 2 then fmt_end False (str '']'') (off, out)
        else
          let len = read_length inp off; off = off + 2 in
          if len = 0 then fmt_end True (str '']'') (off, out)
          else if \<not> remaining inp off len then fmt_end False (str '']'') (off, out)
          else
            let array_end = off + len; failed = fmt_end False (str '']'') in
            fmt_bind (f (off, out))
              (\<lambda>st. fmt_bind (fmt_while f array_end st)
                 (\<lambda>(off, out). if off > array_end then failed (off, out) else fmt_end True (str '']'') (off, out))
                 failed)
              failed)"

text \<open>A string or blob behind its length; the text of a blob shows the two bytes of the length too.\<close>

definition fmt_prefixed :: "bytes \<Rightarrow> nat \<Rightarrow> (bytes \<Rightarrow> bytes) \<Rightarrow> formatter" where
  "fmt_prefixed inp back_up text_of =
     (\<lambda>(off, out).
        if \<not> remaining inp off 2 then Some (False, off, out)
        else
          let len = read_length inp off; off = off + 2 in
          if \<not> remaining inp off len then Some (False, off, out)
          else Some (True, off + len, out @ text_of (part inp (off - back_up) (len + back_up))))"

fun fmt_dtype :: "bytes \<Rightarrow> dtype \<Rightarrow> formatter"
and fmt_fields :: "bytes \<Rightarrow> bool \<Rightarrow> field list \<Rightarrow> formatter"
and fmt_params :: "bytes \<Rightarrow> bool \<Rightarrow> param list \<Rightarrow> formatter" where
  "fmt_dtype inp TInvalid = (\<lambda>(off, out). Some (True, off, out @ str ''<invalid>''))"
| "fmt_dtype inp (TNumeric nt) =
     (case numeric_size (nt_type nt) of
        None \<Rightarrow> (\<lambda>(off, out). Some (True, off, out @ str ''<invalid>''))
      | Some n \<Rightarrow> fmt_leaf inp (unat n) (number_text (nt_type nt)))"
| "fmt_dtype inp (TArray tag sz e n r al) =
     (case tag of
        T_STRING \<Rightarrow> if al = ''string'' then fmt_leaf inp (unat sz) (format_quoted 34)
                     else fmt_fixed [] (fmt_dtype inp e) (unat n)
      | T_VARSTRING \<Rightarrow> if al = ''string'' then fmt_prefixed inp 0 (format_quoted 34)
                        else fmt_variable inp (fmt_dtype inp e)
      | T_BLOB \<Rightarrow> if al = ''blob'' then fmt_leaf inp (unat sz) format_hex
                   else fmt_fixed (str '']'') (fmt_dtype inp e) (unat n)
      | T_VARBLOB \<Rightarrow> if al = ''blob'' then fmt_prefixed inp 2 format_hex
                      else fmt_variable inp (fmt_dtype inp e)
      | T_ARRAY \<Rightarrow> fmt_fixed (str '']'') (fmt_dtype inp e) (unat n)
      | T_VARARRAY \<Rightarrow> fmt_variable inp (fmt_dtype inp e)
      | _ \<Rightarrow> (\<lambda>(off, out). Some (False, off, out @ str ''<error>'')))"
| "fmt_dtype inp (TStruct sz fs c sn sc) =
     (\<lambda>(off, out). fmt_bind (fmt_fields inp True fs (off, out @ str ''{''))
        (fmt_end True (str ''}'')) (fmt_end False (str ''}'')))"
| "fmt_dtype inp (TMethod sz ps c) =
     (\<lambda>(off, out). fmt_bind (fmt_params inp True ps (off, out @ str ''(''))
        (fmt_end True (str '')'')) (fmt_end False (str '')'')))"
| "fmt_fields inp first [] = (\<lambda>st. Some (True, st))"
| "fmt_fields inp first (Field i nm kws t d dflt m # fs) =
     (\<lambda>(off, out). fmt_bind (fmt_dtype inp (t) (off, if first then out else out @ str '', ''))
        (fmt_fields inp False fs) (\<lambda>st. Some (False, st)))"
| "fmt_params inp first [] = (\<lambda>st. Some (True, st))"
| "fmt_params inp first (Param nm t d pd # ps) =
     (\<lambda>(off, out). fmt_bind (fmt_dtype inp (t) (off, if first then out else out @ str '', ''))
        (fmt_params inp False ps) (\<lambda>st. Some (False, st)))"

text \<open>\<open>format_value\<close>: what was written, whether the formatter succeeded or not.\<close>

definition format_value :: "dtype \<Rightarrow> bytes \<Rightarrow> bytes option" where
  "format_value t packed = map_option (\<lambda>(_, _, out). out) (fmt_dtype packed t (0, []))"

end
