(* ===== verification/Value_Lexer.thy ===== *)
theory Value_Lexer
  imports Value_Format HAProxy
begin

text \<open>
  The lexer of .dc files (\<open>dclass/file/lexer.cpp\<close>): the actions of its rules and the scanners for
  strings and comments. The tables flex makes of the rules are not modelled; the rules themselves are,
  with the longest match. \<open>yyinput\<close> returns 0, not \<open>EOF\<close>, at the end of the input: a scanner that waits
  for its closing character then never returns, which is \<open>None\<close>.
\<close>

section \<open>Tokens\<close>

datatype vtoken =
    VUnsigned u64
  | VReal u64
  | VString bytes
  | VChar bytes
  | VHex bytes
  | VWord bytes
  | VSymbol u8

section \<open>Floating-point numbers\<close>

text \<open>
  The IEEE 754 number nearest to a ratio, ties to even, with \<open>k\<close> fraction bits and the given bias;
  \<open>atof\<close> and the conversions between the number types round this way.
\<close>

definition ratio_exponent :: "nat \<Rightarrow> nat \<Rightarrow> int" where
  "ratio_exponent num den =
     (let e = int (top_bit num) - int (top_bit den)
      in if den * 2 ^ nat e \<le> num * 2 ^ nat (- e) then e else e - 1)"

definition ieee_of_ratio :: "nat \<Rightarrow> nat \<Rightarrow> nat \<Rightarrow> nat \<Rightarrow> nat" where
  "ieee_of_ratio k bias num den =
     (if num = 0 then 0
      else
        let e = max (ratio_exponent num den) (1 - int bias);
            s = int k - e;
            q = round_half_even (num * 2 ^ nat s) (den * 2 ^ nat (- s))
        in min (nat (e + int bias - 1) * 2 ^ k + q) ((2 * bias + 1) * 2 ^ k))"

definition double_of_ratio :: "bool \<Rightarrow> nat \<Rightarrow> nat \<Rightarrow> u64" where
  "double_of_ratio neg num den = word_of_nat ((if neg then 2 ^ 63 else 0) + ieee_of_ratio 52 1023 num den)"

text \<open>A finite or infinite double as a \<open>float\<close>.\<close>

definition double_to_float :: "u64 \<Rightarrow> u32" where
  "double_to_float b =
     (let n = unat b; e = n div 2 ^ 52 mod 2048; m = n mod 2 ^ 52; sign = n div 2 ^ 63 * 2 ^ 31
      in word_of_nat (sign +
          (if e = 2047 then 255 * 2 ^ 23
           else if e = 0 then ieee_of_ratio 23 127 m (2 ^ 1074)
           else if e \<ge> 1075 then ieee_of_ratio 23 127 ((2 ^ 52 + m) * 2 ^ (e - 1075)) 1
           else ieee_of_ratio 23 127 (2 ^ 52 + m) (2 ^ (1075 - e)))))"

section \<open>Numbers\<close>

definition hex_digit :: "u8 \<Rightarrow> nat option" where
  "hex_digit c =
     (if 48 \<le> c \<and> c \<le> 57 then Some (unat c - 48)
      else if 97 \<le> c \<and> c \<le> 102 then Some (unat c - 87)
      else if 65 \<le> c \<and> c \<le> 70 then Some (unat c - 55)
      else None)"

definition digits_of :: "bytes \<Rightarrow> bytes" where
  "digits_of s = takeWhile is_digit s"

definition nat_of_digits :: "bytes \<Rightarrow> nat" where
  "nat_of_digits ds = foldl (\<lambda>n c. 10 * n + (unat c - 48)) 0 ds"

text \<open>The loops of the \<open>INTEGERNUM\<close> and \<open>HEXNUM\<close> rules, with the number of errors.\<close>

fun lex_unsigned :: "u64 \<Rightarrow> u64 \<Rightarrow> bytes \<Rightarrow> u64 \<times> nat" where
  "lex_unsigned base v [] = (v, 0)"
| "lex_unsigned base v (c # cs) =
     (let next_value = v * base in
      if next_value < v then (1, 1)
      else lex_unsigned base (next_value + (case hex_digit c of None \<Rightarrow> 0 | Some d \<Rightarrow> word_of_nat d)) cs)"

text \<open>How much of the input the rule \<open>REALNUM\<close> matches.\<close>

definition exponent_length :: "bytes \<Rightarrow> nat" where
  "exponent_length s =
     (case s of
        c # cs \<Rightarrow>
          if c = 101 \<or> c = 69
          then let sg = (if take 1 cs = [43] \<or> take 1 cs = [45] then 1 else 0);
                   n = length (digits_of (drop sg cs))
               in if n = 0 then 0 else 1 + sg + n
          else 0
      | [] \<Rightarrow> 0)"

definition real_length :: "bytes \<Rightarrow> nat option" where
  "real_length s =
     (let m = (if take 1 s = [45] then 1 else 0);
          i = length (digits_of (drop m s))
      in if take 1 (drop (m + i) s) = [46]
         then let f = length (digits_of (drop (m + i + 1) s)) in
              if i = 0 \<and> f = 0 then None else Some (m + i + 1 + f + exponent_length (drop (m + i + 1 + f) s))
         else None)"

text \<open>\<open>atof\<close> of a text that \<open>REALNUM\<close> matches.\<close>

definition atof :: "bytes \<Rightarrow> u64" where
  "atof s =
     (let neg = (take 1 s = [45]); s1 = (if neg then drop 1 s else s);
          ip = digits_of s1; s2 = drop (length ip + 1) s1; fp = digits_of s2; s3 = drop (length fp) s2;
          eneg = (take 1 (drop 1 s3) = [45]);
          e = nat_of_digits (digits_of (drop (if take 1 (drop 1 s3) \<in> {[43], [45]} then 2 else 1) s3));
          num = nat_of_digits (ip @ fp); den = 10 ^ length fp
      in if eneg then double_of_ratio neg num (den * 10 ^ e) else double_of_ratio neg (num * 10 ^ e) den)"

section \<open>Strings and comments\<close>

definition span_upto :: "nat \<Rightarrow> (u8 \<Rightarrow> bool) \<Rightarrow> bytes \<Rightarrow> bytes \<times> bytes" where
  "span_upto n P s = (let k = takeWhile P (take n s) in (k, drop (length k) s))"

definition hex_escape :: "bytes \<Rightarrow> nat" where
  "hex_escape ds = foldl (\<lambda>n c. 16 * n + (case hex_digit c of None \<Rightarrow> 0 | Some d \<Rightarrow> d)) 0 ds"

definition octal_escape :: "bytes \<Rightarrow> nat" where
  "octal_escape ds = foldl (\<lambda>n c. 8 * n + (unat c - 48)) 0 ds"

text \<open>The character after a backslash: what it stands for and what is left behind it.\<close>

definition scan_escape :: "u8 \<Rightarrow> bytes \<Rightarrow> u8 \<times> bytes" where
  "scan_escape e s =
     (if e = 97 then (7, s)
      else if e = 110 then (10, s)
      else if e = 114 then (13, s)
      else if e = 116 then (9, s)
      else if e = 120 then (case span_upto 2 (\<lambda>c. hex_digit c \<noteq> None) s of (ds, r) \<Rightarrow> (word_of_nat (hex_escape ds), r))
      else if e = 48 then (case span_upto 3 (\<lambda>c. 48 \<le> c \<and> c < 55) s of (ds, r) \<Rightarrow> (word_of_nat (octal_escape ds), r))
      else if 49 \<le> e \<and> e \<le> 57 then (case span_upto 3 is_digit s of (ds, r) \<Rightarrow> (word_of_nat (nat_of_digits ds), r))
      else (e, s))"

lemma span_upto_shorter: "span_upto n P s = (ds, r) \<Longrightarrow> length r \<le> length s"
  by (auto simp: span_upto_def Let_def)

lemma scan_escape_shorter: "scan_escape e s = (c, r) \<Longrightarrow> length r \<le> length s"
  by (auto simp: scan_escape_def span_upto_shorter split: if_splits prod.splits)

function scan_quoted_string :: "u8 \<Rightarrow> bytes \<Rightarrow> (bytes \<times> nat \<times> bytes) option" where
  "scan_quoted_string quote_mark [] = None"
| "scan_quoted_string quote_mark (c # cs) =
     (if c = quote_mark then Some ([], 0, cs)
      else if c = 10 then Some ([], 1, cs)
      else if c = 92
      then (case cs of
              [] \<Rightarrow> None
            | e # es \<Rightarrow>
                (case scan_escape e es of
                   (x, r) \<Rightarrow> map_option (\<lambda>(s, rest). (x # s, rest)) (scan_quoted_string quote_mark r)))
      else map_option (\<lambda>(s, rest). (c # s, rest)) (scan_quoted_string quote_mark cs))"
  by pat_completeness auto
termination
  by (relation "measure (\<lambda>(q, s). length s)")
    (auto dest!: scan_escape_shorter [OF sym])

fun scan_hex_string :: "bytes \<Rightarrow> nat option \<Rightarrow> bytes \<Rightarrow> bytes \<times> nat \<times> bytes" where
  "scan_hex_string result pending [] = ([], 1, [])"
| "scan_hex_string result pending (c # cs) =
     (if c = 62 then (if pending = None then (result, 0, cs) else ([], 1, cs))
      else
        case hex_digit c of
          None \<Rightarrow> ([], 1, cs)
        | Some v \<Rightarrow>
            (case pending of
               None \<Rightarrow> scan_hex_string result (Some v) cs
             | Some l \<Rightarrow> scan_hex_string (result @ [word_of_nat (16 * l + v)]) None cs))"

fun eat_c_comment :: "u8 \<Rightarrow> bytes \<Rightarrow> bytes option" where
  "eat_c_comment last_c [] = None"
| "eat_c_comment last_c (c # cs) = (if last_c = 42 \<and> c = 47 then Some cs else eat_c_comment c cs)"

section \<open>Rules\<close>

definition is_word_start :: "u8 \<Rightarrow> bool" where
  "is_word_start c \<longleftrightarrow> 65 \<le> c \<and> c \<le> 90 \<or> 97 \<le> c \<and> c \<le> 122 \<or> c = 95"

text \<open>
  One match: the token, if the rule returns one, the errors, and the rest of the input. A character
  that is no positive \<open>char\<close> stands for the end of the input in the parser.
\<close>

definition lex_rule :: "bytes \<Rightarrow> (vtoken list \<times> nat \<times> bytes) option" where
  "lex_rule s =
     (case s of
        [] \<Rightarrow> Some ([], 0, [])
      | c # cs \<Rightarrow>
          if c = 10 \<or> c = 32 \<or> c = 9 \<or> c = 13 then Some ([], 0, cs)
          else if c = 47 \<and> take 1 cs = [47] then Some ([], 0, dropWhile (\<lambda>b. b \<noteq> 10) cs)
          else if c = 47 \<and> take 1 cs = [42]
          then map_option (\<lambda>rest. ([], 0, rest)) (eat_c_comment 0 (drop 1 cs))
          else if real_length s \<noteq> None
          then let n = the (real_length s) in Some ([VReal (atof (take n s))], 0, drop n s)
          else if c = 48 \<and> take 1 cs = [120]
          then let ds = takeWhile (\<lambda>b. hex_digit b \<noteq> None) (drop 1 cs) in
               (case lex_unsigned 16 0 ds of (v, e) \<Rightarrow> Some ([VUnsigned v], e, drop (2 + length ds) s))
          else if is_digit c
          then let ds = digits_of s in
               (case lex_unsigned 10 0 ds of (v, e) \<Rightarrow> Some ([VUnsigned v], e, drop (length ds) s))
          else if c = 34 then map_option (\<lambda>(x, e, rest). ([VString x], e, rest)) (scan_quoted_string 34 cs)
          else if c = 39 then map_option (\<lambda>(x, e, rest). ([VChar x], e, rest)) (scan_quoted_string 39 cs)
          else if c = 60 then (case scan_hex_string [] None cs of (x, e, rest) \<Rightarrow> Some ([VHex x], e, rest))
          else if is_word_start c
          then let w = takeWhile (\<lambda>b. is_word_start b \<or> is_digit b) s in Some ([VWord w], 0, drop (length w) s)
          else if c = 0 \<or> 128 \<le> c then Some ([], 0, [])
          else Some ([VSymbol c], 0, cs))"

function lex :: "bytes \<Rightarrow> (vtoken list \<times> nat) option" where
  "lex s =
     (if s = [] then Some ([], 0)
      else
        case lex_rule s of
          None \<Rightarrow> None
        | Some (ts, e, rest) \<Rightarrow>
            if length rest < length s then map_option (\<lambda>(us, e'). (ts @ us, e + e')) (lex rest) else None)"
  by pat_completeness auto
termination
  by (relation "measure length") auto

declare lex.simps [simp del]

end
