(* ===== verification/Value_Parser.thy ===== *)
theory Value_Parser
  imports Value_Lexer
begin

text \<open>
  The value part of the .dc grammar (\<open>dclass/file/parser.cpp\<close>, from \<open>parser.ypp\<close>) and
  \<open>dclass/value/parse.cpp\<close>: the actions of the rules, with the stack of types and the depth they
  share. The rules are applied by recursive descent; the tables bison makes of them are not modelled.
  The fuel bounds the nesting and the length of lists; three times the number of tokens is enough.
\<close>

section \<open>State\<close>

record pstate =
  ps_tokens :: "vtoken list"
  type_stack :: "(dtype \<times> u32) list"
  current_depth :: u32
  ps_errors :: nat

datatype parse_stop = SyntaxError | EmptyStack | NoFuel

type_synonym 'a presult = "parse_stop + 'a \<times> pstate"

definition pbind :: "'a presult \<Rightarrow> ('a \<Rightarrow> pstate \<Rightarrow> 'b presult) \<Rightarrow> 'b presult" where
  "pbind m f = (case m of Inl e \<Rightarrow> Inl e | Inr (x, st) \<Rightarrow> f x st)"

definition parser_error :: "pstate \<Rightarrow> pstate" where
  "parser_error st = st\<lparr>ps_errors := Suc (ps_errors st)\<rparr>"

definition errors_if :: "bool \<Rightarrow> pstate \<Rightarrow> pstate" where
  "errors_if b st = (if b then parser_error st else st)"

definition check_depth :: "pstate \<Rightarrow> bool" where
  "check_depth st = (case type_stack st of [] \<Rightarrow> False | (_, d) # _ \<Rightarrow> current_depth st = d)"

text \<open>\<open>if(!check_depth()) depth_error(...)\<close>; \<open>depth_error\<close> only chooses the words of the error.\<close>

definition expect_depth :: "pstate \<Rightarrow> pstate" where
  "expect_depth st = errors_if (\<not> check_depth st) st"

text \<open>\<open>type_stack.top()\<close>, undefined on an empty stack; with \<open>pop()\<close>, and with \<open>push()\<close>.\<close>

definition top_type :: "pstate \<Rightarrow> (dtype \<times> u32) presult" where
  "top_type st = (case type_stack st of [] \<Rightarrow> Inl EmptyStack | td # _ \<Rightarrow> Inr (td, st))"

definition pop_type :: "pstate \<Rightarrow> (dtype \<times> u32) presult" where
  "pop_type st = (case type_stack st of [] \<Rightarrow> Inl EmptyStack | td # rest \<Rightarrow> Inr (td, st\<lparr>type_stack := rest\<rparr>))"

definition push_types :: "dtype list \<Rightarrow> pstate \<Rightarrow> pstate" where
  "push_types ts st = st\<lparr>type_stack := map (\<lambda>t. (t, current_depth st)) ts @ type_stack st\<rparr>"

text \<open>A symbol of the grammar.\<close>

definition expect_symbol :: "u8 \<Rightarrow> pstate \<Rightarrow> unit presult" where
  "expect_symbol c st =
     (case ps_tokens st of
        VSymbol d # rest \<Rightarrow> if d = c then Inr ((), st\<lparr>ps_tokens := rest\<rparr>) else Inl SyntaxError
      | _ \<Rightarrow> Inl SyntaxError)"

definition at_symbol :: "u8 \<Rightarrow> pstate \<Rightarrow> bool" where
  "at_symbol c st \<longleftrightarrow> take 1 (ps_tokens st) = [VSymbol c]"

section \<open>Numbers\<close>

text \<open>\<open>number_value\<close>, by the type of its argument: the packed number and the number of errors.\<close>

definition number_value_real :: "type_tag \<Rightarrow> u64 \<Rightarrow> bytes \<times> nat" where
  "number_value_real t number =
     (case t of
        T_FLOAT32 \<Rightarrow>
          let v = double_to_float number
          in (le_bytes 4 v, if unat v mod 2 ^ 31 = 255 * 2 ^ 23 then 1 else 0)
      | T_FLOAT64 \<Rightarrow> (le_bytes 8 number, 0)
      | _ \<Rightarrow> ([], 1))"

definition double_of_int :: "int \<Rightarrow> u64" where
  "double_of_int i = double_of_ratio (i < 0) (nat \<bar>i\<bar>) 1"

definition signed_number :: "nat \<Rightarrow> u64 \<Rightarrow> bytes \<times> nat" where
  "signed_number k number =
     (le_bytes k number, if - (2 ^ (8 * k - 1)) \<le> sint number \<and> sint number < 2 ^ (8 * k - 1) then 0 else 1)"

definition unsigned_number :: "nat \<Rightarrow> u64 \<Rightarrow> bytes \<times> nat" where
  "unsigned_number k number = (le_bytes k number, if unat number < 2 ^ (8 * k) then 0 else 1)"

definition number_value_int :: "type_tag \<Rightarrow> u64 \<Rightarrow> bytes \<times> nat" where
  "number_value_int t number =
     (let negative = (if sint number < 0 then 1 else 0);
          unsigned = (\<lambda>k. case unsigned_number k number of (v, e) \<Rightarrow> (v, negative + e)) in
      case t of
        T_INT8 \<Rightarrow> signed_number 1 number
      | T_INT16 \<Rightarrow> signed_number 2 number
      | T_INT32 \<Rightarrow> signed_number 4 number
      | T_INT64 \<Rightarrow> signed_number 8 number
      | T_CHAR \<Rightarrow> unsigned 1
      | T_UINT8 \<Rightarrow> unsigned 1
      | T_UINT16 \<Rightarrow> unsigned 2
      | T_UINT32 \<Rightarrow> unsigned 4
      | T_UINT64 \<Rightarrow> unsigned 8
      | T_FLOAT32 \<Rightarrow> number_value_real t (double_of_int (sint number))
      | T_FLOAT64 \<Rightarrow> number_value_real t (double_of_int (sint number))
      | _ \<Rightarrow> ([], 1))"

definition number_value_uint :: "type_tag \<Rightarrow> u64 \<Rightarrow> bytes \<times> nat" where
  "number_value_uint t number =
     (let too_big = (if 2 ^ 63 \<le> unat number then 1 else 0);
          signed = (case number_value_int t number of (v, e) \<Rightarrow> (v, too_big + e)) in
      case t of
        T_CHAR \<Rightarrow> unsigned_number 1 number
      | T_UINT8 \<Rightarrow> unsigned_number 1 number
      | T_UINT16 \<Rightarrow> unsigned_number 2 number
      | T_UINT32 \<Rightarrow> unsigned_number 4 number
      | T_UINT64 \<Rightarrow> unsigned_number 8 number
      | T_INT8 \<Rightarrow> signed
      | T_INT16 \<Rightarrow> signed
      | T_INT32 \<Rightarrow> signed
      | T_INT64 \<Rightarrow> signed
      | T_FLOAT32 \<Rightarrow> number_value_real t (double_of_int (uint number))
      | T_FLOAT64 \<Rightarrow> number_value_real t (double_of_int (uint number))
      | _ \<Rightarrow> ([], 1))"

section \<open>Literals\<close>

text \<open>A token, or a sign and an unsigned integer; the negation wraps, as on the machine.\<close>

datatype literal = LSigned u64 | LUnsigned u64 | LReal u64 | LChar bytes | LString bytes | LHex bytes

fun read_literal :: "vtoken list \<Rightarrow> (literal \<times> vtoken list) option" where
  "read_literal (VUnsigned w # ts) = Some (LUnsigned w, ts)"
| "read_literal (VReal b # ts) = Some (LReal b, ts)"
| "read_literal (VChar s # ts) = Some (LChar s, ts)"
| "read_literal (VString s # ts) = Some (LString s, ts)"
| "read_literal (VHex s # ts) = Some (LHex s, ts)"
| "read_literal (VSymbol c # VUnsigned w # ts) =
     (if c = 43 then Some (LSigned w, ts) else if c = 45 then Some (LSigned (- w), ts) else None)"
| "read_literal _ = None"

definition with_length :: "bytes \<Rightarrow> bytes" where
  "with_length s = le_bytes 2 (word_of_nat (length s) :: u16) @ s"

definition string_value :: "dtype \<Rightarrow> bytes \<Rightarrow> bytes \<times> nat" where
  "string_value t s =
     (case get_type t of
        T_STRING \<Rightarrow> (s, if length s = unat (get_size t) then 0 else 1)
      | T_BLOB \<Rightarrow> (s, if length s = unat (get_size t) then 0 else 1)
      | T_VARSTRING \<Rightarrow> (with_length s, 0)
      | T_VARBLOB \<Rightarrow> (with_length s, 0)
      | _ \<Rightarrow> (s, 1))"

definition hex_value :: "dtype \<Rightarrow> bytes \<Rightarrow> bytes \<times> nat" where
  "hex_value t s =
     (case get_type t of
        T_BLOB \<Rightarrow> (s, if length s = unat (get_size t) then 0 else 1)
      | T_VARBLOB \<Rightarrow> (s, 0)
      | _ \<Rightarrow> (s, 1))"

definition char_value :: "dtype \<Rightarrow> bytes \<Rightarrow> bytes \<times> nat" where
  "char_value t s =
     (if length s = 1 then s else [], (if get_type t = T_CHAR then 0 else 1) + (if length s = 1 then 0 else 1))"

definition literal_value :: "literal \<Rightarrow> dtype \<Rightarrow> bytes \<times> nat" where
  "literal_value l t =
     (case l of
        LSigned w \<Rightarrow> number_value_int (get_type t) w
      | LUnsigned w \<Rightarrow> number_value_uint (get_type t) w
      | LReal b \<Rightarrow> number_value_real (get_type t) b
      | LChar s \<Rightarrow> char_value t s
      | LString s \<Rightarrow> string_value t s
      | LHex s \<Rightarrow> hex_value t s)"

text \<open>What \<open>array_expansion\<close> repeats; a string is no value of a blob here, and a blob has its length.\<close>

definition repeated_value :: "literal \<Rightarrow> dtype \<Rightarrow> bytes \<times> nat" where
  "repeated_value l t =
     (case l of
        LString s \<Rightarrow>
          (case get_type t of T_STRING \<Rightarrow> string_value t s | T_VARSTRING \<Rightarrow> string_value t s | _ \<Rightarrow> (s, 1))
      | LHex s \<Rightarrow>
          (case get_type t of T_BLOB \<Rightarrow> hex_value t s | T_VARBLOB \<Rightarrow> (with_length s, 0) | _ \<Rightarrow> (s, 1))
      | _ \<Rightarrow> literal_value l t)"

definition add_errors :: "nat \<Rightarrow> pstate \<Rightarrow> pstate" where
  "add_errors n st = st\<lparr>ps_errors := ps_errors st + n\<rparr>"

definition type_literal :: "literal \<Rightarrow> pstate \<Rightarrow> bytes presult" where
  "type_literal l st =
     pbind (pop_type (expect_depth st)) (\<lambda>(t, _) st.
       case literal_value l t of (v, e) \<Rightarrow> Inr (v, add_errors e st))"

definition expand_literal :: "literal \<Rightarrow> u64 \<Rightarrow> pstate \<Rightarrow> bytes presult" where
  "expand_literal l count st =
     (let num = ucast count :: u32; st = errors_if (ucast num \<noteq> count) st in
      pbind (pop_type st) (\<lambda>(t, _) st.
        case repeated_value l t of
          (v, e) \<Rightarrow> Inr (concat (replicate (unat num) v),
            (add_errors e st)\<lparr>current_depth := current_depth st + num\<rparr>)))"

section \<open>Arrays\<close>

definition empty_array :: "pstate \<Rightarrow> bytes presult" where
  "empty_array st =
     pbind (pop_type (expect_depth st)) (\<lambda>(t, _) st.
       case t of
         TArray tag sz e n r al \<Rightarrow>
           Inr (replicate 2 0,
                errors_if (0 < n \<or> \<not> nrange_is_empty r \<and> 0 < num_bits (nr_min r)) st)
       | _ \<Rightarrow> Inr ([], parser_error st))"

definition array_open :: "pstate \<Rightarrow> unit presult" where
  "array_open st =
     pbind (top_type (expect_depth st)) (\<lambda>(t, _) st.
       case t of
         TArray tag sz e n r al \<Rightarrow> Inr ((), push_types [e] st)
       | _ \<Rightarrow> Inr ((), parser_error st))"

text \<open>The comma between two elements: \<open>as_array\<close> of a type that is none is the null pointer.\<close>

definition array_next :: "pstate \<Rightarrow> unit presult" where
  "array_next st =
     pbind (top_type st) (\<lambda>(t, _) st.
       case t of
         TArray tag sz e n r al \<Rightarrow> Inr ((), push_types [e] st)
       | _ \<Rightarrow> Inl EmptyStack)"

definition array_close :: "bytes \<Rightarrow> pstate \<Rightarrow> bytes presult" where
  "array_close elements st =
     pbind (pop_type st) (\<lambda>(t, d) st.
       case t of
         TArray tag sz e n r al \<Rightarrow>
           let actual_size = scast (current_depth st - d) :: u64 in
           Inr (if n = 0 then with_length elements else elements,
                (errors_if (\<not> nrange_is_empty r
                    \<and> (num_bits (nr_max r) < actual_size \<or> actual_size < num_bits (nr_min r))) st)\<lparr>current_depth := d\<rparr>)
       | _ \<Rightarrow> Inr ([], st))"

section \<open>Structs and methods\<close>

definition struct_begin :: "pstate \<Rightarrow> unit presult" where
  "struct_begin st =
     pbind (top_type (expect_depth st)) (\<lambda>(t, _) st.
       case t of
         TStruct sz fs c sn sc \<Rightarrow>
           Inr ((), push_types (map field_type fs) (st\<lparr>current_depth := current_depth st + 1\<rparr>))
       | _ \<Rightarrow> Inr ((), parser_error st))"

definition struct_end :: "pstate \<Rightarrow> unit presult" where
  "struct_end st =
     pbind (pop_type st) (\<lambda>(t, _) st.
       case t of
         TStruct sz fs c sn sc \<Rightarrow> Inr ((), st\<lparr>current_depth := current_depth st - 1\<rparr>)
       | _ \<Rightarrow> Inr ((), st))"

definition method_begin :: "pstate \<Rightarrow> unit presult" where
  "method_begin st =
     pbind (top_type (expect_depth st)) (\<lambda>(t, _) st.
       case t of
         TMethod sz ps c \<Rightarrow>
           Inr ((), push_types (map param_type ps) (st\<lparr>current_depth := current_depth st + 1\<rparr>))
       | _ \<Rightarrow> Inr ((), parser_error st))"

definition method_end :: "pstate \<Rightarrow> unit presult" where
  "method_end st =
     pbind (pop_type st) (\<lambda>(t, _) st.
       case t of
         TMethod sz ps c \<Rightarrow> Inr ((), st\<lparr>current_depth := current_depth st - 1\<rparr>)
       | _ \<Rightarrow> Inr ((), st))"

section \<open>The grammar\<close>

definition next_token :: "pstate \<Rightarrow> pstate" where
  "next_token st = st\<lparr>ps_tokens := drop 1 (ps_tokens st)\<rparr>"

text \<open>A literal at the head of the input, with the count behind a star.\<close>

definition star_count :: "vtoken list \<Rightarrow> (u64 \<times> vtoken list) option" where
  "star_count ts =
     (case ts of
        VSymbol c # VUnsigned w # rest \<Rightarrow> if c = 42 then Some (w, rest) else None
      | _ \<Rightarrow> None)"

fun type_value :: "nat \<Rightarrow> pstate \<Rightarrow> bytes presult"
and element_values :: "nat \<Rightarrow> pstate \<Rightarrow> bytes presult"
and array_expansion :: "nat \<Rightarrow> pstate \<Rightarrow> bytes presult"
and field_values :: "nat \<Rightarrow> pstate \<Rightarrow> bytes presult"
and parameter_values :: "nat \<Rightarrow> pstate \<Rightarrow> bytes presult"
and method_value :: "nat \<Rightarrow> pstate \<Rightarrow> bytes presult" where
  "type_value 0 st = Inl NoFuel"
| "type_value (Suc fuel) st =
     (if at_symbol 91 st
      then
        let st = next_token st in
        if at_symbol 93 st then empty_array (next_token st)
        else
          pbind (array_open st) (\<lambda>_ st. pbind (element_values fuel st) (\<lambda>v st.
            pbind (expect_symbol 93 st) (\<lambda>_ st. array_close v st)))
      else if at_symbol 123 st
      then
        pbind (struct_begin (next_token st)) (\<lambda>_ st. pbind (field_values fuel st) (\<lambda>v st.
          pbind (expect_symbol 125 st) (\<lambda>_ st. pbind (struct_end st) (\<lambda>_ st. Inr (v, st)))))
      else
        case read_literal (ps_tokens st) of
          None \<Rightarrow> Inl SyntaxError
        | Some (l, rest) \<Rightarrow> type_literal l (st\<lparr>ps_tokens := rest\<rparr>))"
| "element_values 0 st = Inl NoFuel"
| "element_values (Suc fuel) st =
     pbind (array_expansion fuel st) (\<lambda>v st.
       if at_symbol 44 st
       then pbind (array_next (next_token st)) (\<lambda>_ st. pbind (element_values fuel st) (\<lambda>w st. Inr (v @ w, st)))
       else Inr (v, st))"
| "array_expansion 0 st = Inl NoFuel"
| "array_expansion (Suc fuel) st =
     (case Option.bind (read_literal (ps_tokens st)) (\<lambda>(l, rest). map_option (\<lambda>c. (l, c)) (star_count rest)) of
        Some (l, count, rest) \<Rightarrow>
          (case l of LChar _ \<Rightarrow> Inl SyntaxError | _ \<Rightarrow> expand_literal l count (st\<lparr>ps_tokens := rest\<rparr>))
      | None \<Rightarrow>
          pbind (type_value fuel st) (\<lambda>v st. Inr (v, st\<lparr>current_depth := current_depth st + 1\<rparr>)))"
| "field_values 0 st = Inl NoFuel"
| "field_values (Suc fuel) st =
     pbind (if at_symbol 40 st then method_value fuel st else type_value fuel st) (\<lambda>v st.
       if at_symbol 44 st
       then pbind (field_values fuel (next_token st)) (\<lambda>w st. Inr (v @ w, st))
       else Inr (v, st))"
| "parameter_values 0 st = Inl NoFuel"
| "parameter_values (Suc fuel) st =
     pbind (type_value fuel st) (\<lambda>v st.
       if at_symbol 44 st
       then pbind (parameter_values fuel (next_token st)) (\<lambda>w st. Inr (v @ w, st))
       else Inr (v, st))"
| "method_value 0 st = Inl NoFuel"
| "method_value (Suc fuel) st =
     pbind (expect_symbol 40 st) (\<lambda>_ st. pbind (method_begin st) (\<lambda>_ st.
       pbind (parameter_values fuel st) (\<lambda>v st. pbind (expect_symbol 41 st) (\<lambda>_ st.
         pbind (method_end st) (\<lambda>_ st. Inr (v, st))))))"

text \<open>The start rule of a value: what is left on the stack of types is an error.\<close>

definition grammar_value :: "nat \<Rightarrow> pstate \<Rightarrow> bytes presult" where
  "grammar_value fuel st =
     (if ps_tokens st = [] then Inr ([], st)
      else
        pbind (if at_symbol 40 st then method_value fuel st else type_value fuel st) (\<lambda>v st.
          if ps_tokens st \<noteq> [] then Inl SyntaxError
          else Inr (v, errors_if (type_stack st \<noteq> []) st)))"

text \<open>
  \<open>parse_value\<close>: the packed value, or \<open>None\<close> with the error flag set. The lexer may not return, and
  the actions may look at the top of an empty stack.
\<close>

definition parse_value :: "dtype \<Rightarrow> bytes \<Rightarrow> bytes option res" where
  "parse_value t formatted =
     (case lex formatted of
        None \<Rightarrow> Inl NoReturn
      | Some (tokens, e) \<Rightarrow>
          (case grammar_value (3 * length tokens + 3) \<lparr>ps_tokens = tokens, type_stack = [(t, 0)], current_depth = 0, ps_errors = e\<rparr> of
             Inl SyntaxError \<Rightarrow> Inr None
           | Inl EmptyStack \<Rightarrow> Inl DanglingReference
           | Inl NoFuel \<Rightarrow> Inl NoReturn
           | Inr (v, st) \<Rightarrow> Inr (if ps_errors st = 0 then Some v else None)))"

end
