(* ===== verification/Value_Roundtrip.thy ===== *)
theory Value_Roundtrip
  imports Value_Parser
begin

text \<open>
  Reading back what was written: the text \<open>format_value\<close> makes of a packed value is taken apart by the
  lexer and turned into the same bytes by \<open>parse_value\<close>.
\<close>

section \<open>Lexing\<close>

definition prepend :: "vtoken list \<Rightarrow> (vtoken list \<times> nat) option \<Rightarrow> (vtoken list \<times> nat) option" where
  "prepend ts r = map_option (\<lambda>(us, e). (ts @ us, e)) r"

lemma prepend_append [simp]: "prepend ts (prepend us r) = prepend (ts @ us) r"
  by (cases r) (auto simp: prepend_def)

lemma prepend_Nil [simp]: "prepend [] r = r"
  by (cases r) (auto simp: prepend_def)

text \<open>What may follow a value: nothing, a comma or a closing bracket.\<close>

definition delim :: "bytes \<Rightarrow> bool" where
  "delim s \<longleftrightarrow> s = [] \<or> hd s \<in> {41, 44, 93, 125}"

definition lexes :: "bytes \<Rightarrow> vtoken list \<Rightarrow> bool" where
  "lexes tx ts \<longleftrightarrow> (\<forall>rest. delim rest \<longrightarrow> lex (tx @ rest) = prepend ts (lex rest))"

lemma lex_step:
  assumes "lex_rule s = Some (ts, 0, rest)" "length rest < length s"
  shows "lex s = prepend ts (lex rest)"
proof -
  have "s \<noteq> []" using assms(2) by auto
  with assms show ?thesis by (subst lex.simps) (simp add: prepend_def)
qed

lemma not_digit: "\<not> (48 \<le> c \<and> c \<le> 57) \<Longrightarrow> digits_of (c # s) = []"
  by (simp add: digits_of_def is_digit_def)

lemma lex_symbol:
  assumes "c \<in> {40, 41, 44, 91, 93, 123, 125}"
  shows "lex (c # s) = prepend [VSymbol c] (lex s)"
proof (rule lex_step)
  have c: "\<not> is_digit c" "\<not> is_word_start c" "\<not> 128 \<le> c"
    using assms by (auto simp: is_digit_def is_word_start_def)
  have ne: "c \<noteq> 10" "c \<noteq> 32" "c \<noteq> 9" "c \<noteq> 13" "c \<noteq> 47" "c \<noteq> 48" "c \<noteq> 34" "c \<noteq> 39" "c \<noteq> 60" "c \<noteq> 0"
    "c \<noteq> 45" "c \<noteq> 46"
    using assms by auto
  have "real_length (c # s) = None"
    using c(1) ne by (simp add: real_length_def digits_of_def)
  with c ne show "lex_rule (c # s) = Some ([VSymbol c], 0, s)"
    by (simp add: lex_rule_def)
qed simp

lemma lex_space: "lex (32 # s) = lex s"
  using lex_step [of "32 # s" "[]" s] by (simp add: lex_rule_def)

subsection \<open>Numbers\<close>

lemma unat_digit_char: "d < 16 \<Longrightarrow> unat (digit_char d) = (if d < 10 then 48 + d else 87 + d)"
  by (simp add: digit_char_def unsigned_of_nat take_bit_nat_eq_self)

lemma is_digit_unat: "is_digit c \<longleftrightarrow> 48 \<le> unat c \<and> unat c \<le> 57"
  by (simp add: is_digit_def word_le_nat_alt)

lemma hex_digit_char: "d < 16 \<Longrightarrow> hex_digit (digit_char d) = Some d"
  by (auto simp: hex_digit_def word_le_nat_alt unat_digit_char)

lemma digits_less: "1 < base \<Longrightarrow> d \<in> set (digits base n) \<Longrightarrow> d < base"
  by (induction base n rule: digits.induct) (subst (asm) (2) digits.simps, auto split: if_splits)

lemma digits_nonempty: "digits base n \<noteq> []"
  by (subst digits.simps) simp

lemma decimal_digits: "list_all is_digit (decimal n)"
proof -
  have "is_digit (digit_char d)" if "d \<in> set (digits 10 n)" for d
    using digits_less [of 10 d n] that by (simp add: is_digit_unat unat_digit_char)
  then show ?thesis by (simp add: decimal_def list_all_iff)
qed

lemma decimal_nonempty: "decimal n \<noteq> []"
  by (simp add: decimal_def digits_nonempty)

lemma takeWhile_all: "list_all P xs \<Longrightarrow> ys = [] \<or> \<not> P (hd ys) \<Longrightarrow> takeWhile P (xs @ ys) = xs"
  by (cases ys) (auto simp: list_all_iff)

lemma delim_not_digit: "delim s \<Longrightarrow> s = [] \<or> \<not> is_digit (hd s)"
  by (auto simp: delim_def is_digit_def)

lemma digits_of_decimal: "delim s \<Longrightarrow> digits_of (decimal n @ s) = decimal n"
  by (simp add: digits_of_def takeWhile_all decimal_digits delim_not_digit)

lemma lex_unsigned_append:
  "lex_unsigned base v (xs @ ys)
    = (case lex_unsigned base v xs of (w, e) \<Rightarrow> if e = 0 then lex_unsigned base w ys else (w, e))"
  by (induction base v xs rule: lex_unsigned.induct) (auto simp: Let_def)

lemma lex_unsigned_decimal:
  "n < 2 ^ 64 \<Longrightarrow> lex_unsigned 10 0 (decimal n) = (word_of_nat n, 0)"
proof (induction n rule: less_induct)
  case (less n)
  show ?case
  proof (cases "n < 10")
    case True
    then show ?thesis by (simp add: decimal_def digits.simps hex_digit_char)
  next
    case False
    then have dec: "decimal n = decimal (n div 10) @ [digit_char (n mod 10)]"
      by (simp add: decimal_def digits.simps [of 10 n])
    have "n div 10 < n" "n div 10 < 2 ^ 64" using False less.prems by simp_all
    note ih = less.IH [OF this]
    have "unat (word_of_nat (n div 10) * 10 :: u64) = n div 10 * 10"
      using less.prems by (simp add: unat_word_ariths unsigned_of_nat take_bit_nat_eq_self)
    then have "\<not> word_of_nat (n div 10) * 10 < (word_of_nat (n div 10) :: u64)"
      using less.prems by (simp add: word_less_nat_alt unsigned_of_nat take_bit_nat_eq_self)
    moreover have "word_of_nat (n div 10) * 10 + word_of_nat (n mod 10) = (word_of_nat n :: u64)"
      by (metis (no_types) div_mult_mod_eq of_nat_add of_nat_mult of_nat_numeral)
    ultimately show ?thesis
      by (simp add: dec lex_unsigned_append ih hex_digit_char)
  qed
qed

lemma decimal_hd: "decimal n = c # cs \<Longrightarrow> is_digit c \<and> list_all is_digit cs"
  using decimal_digits [of n] by simp

lemma no_real_decimal:
  assumes "delim s"
  shows "real_length (decimal n @ s) = None" "real_length (45 # decimal n @ s) = None"
proof -
  obtain c cs where n: "decimal n = c # cs" using decimal_nonempty by (cases "decimal n") auto
  with decimal_hd [OF n] have "c \<noteq> 45" by (auto simp: is_digit_def)
  moreover have "take 1 s \<noteq> [46]" using assms by (cases s) (auto simp: delim_def)
  ultimately show "real_length (decimal n @ s) = None" "real_length (45 # decimal n @ s) = None"
    using digits_of_decimal [OF assms, of n] by (simp_all add: real_length_def Let_def n)
qed

lemma lex_decimal:
  assumes "n < 2 ^ 64" "delim s"
  shows "lex (decimal n @ s) = prepend [VUnsigned (word_of_nat n)] (lex s)"
proof (rule lex_step)
  obtain c cs where n: "decimal n = c # cs" using decimal_nonempty by (cases "decimal n") auto
  note d = decimal_hd [OF n]
  have x: "take 1 (cs @ s) \<noteq> [120]"
  proof (cases "cs @ s")
    case (Cons b bs)
    with d assms(2) have "is_digit b \<or> b \<in> {41, 44, 93, 125}"
      by (cases cs) (auto simp: delim_def)
    with Cons show ?thesis by (auto simp: is_digit_def)
  qed simp
  have "c \<noteq> 10 \<and> c \<noteq> 32 \<and> c \<noteq> 9 \<and> c \<noteq> 13 \<and> c \<noteq> 47" using d by (auto simp: is_digit_def)
  with x d no_real_decimal(1) [OF assms(2), of n] digits_of_decimal [OF assms(2), of n] lex_unsigned_decimal [OF assms(1)]
  show "lex_rule (decimal n @ s) = Some ([VUnsigned (word_of_nat n)], 0, s)"
    by (simp add: lex_rule_def n Let_def)
  show "length s < length (decimal n @ s)" by (simp add: n)
qed

lemma lex_minus:
  assumes "delim s"
  shows "lex (45 # decimal n @ s) = prepend [VSymbol 45] (lex (decimal n @ s))"
proof (rule lex_step)
  show "lex_rule (45 # decimal n @ s) = Some ([VSymbol 45], 0, decimal n @ s)"
    using no_real_decimal(2) [OF assms, of n] by (simp add: lex_rule_def is_digit_def is_word_start_def)
qed simp


subsection \<open>Strings\<close>

lemma word_of_unat_split: "word_of_nat (16 * (unat (c :: u8) div 16) + unat c mod 16) = c"
  by simp

lemma hex_byte_digits:
  "hex_digit (digit_char (unat (c :: u8) div 16)) = Some (unat c div 16)"
  "hex_digit (digit_char (unat c mod 16)) = Some (unat c mod 16)"
proof -
  have "unat c < 256" using unsigned_less [of c] by simp
  then show "hex_digit (digit_char (unat (c :: u8) div 16)) = Some (unat c div 16)"
    "hex_digit (digit_char (unat c mod 16)) = Some (unat c mod 16)"
    by (simp_all add: hex_digit_char)
qed

lemma scan_escape_hex: "scan_escape 120 (hex_byte c @ s) = (c, s)"
  by (simp add: scan_escape_def span_upto_def hex_byte_def hex_byte_digits hex_escape_def Let_def
      word_of_unat_split del: of_nat_add of_nat_mult)

lemma scan_escape_mark: "q \<in> {34, 39, 92} \<Longrightarrow> scan_escape q s = (q, s)"
  by (auto simp: scan_escape_def)

lemma scan_quoted:
  assumes "q \<in> {34, 39}"
  shows "scan_quoted_string q (concat (map (quoted_char q) s) @ q # rest) = Some (s, 0, rest)"
proof (induction s)
  case Nil
  show ?case by simp
next
  case (Cons c s)
  let ?more = "concat (map (quoted_char q) s) @ q # rest"
  have q: "q \<noteq> 92" "q \<noteq> 10" using assms by auto
  consider (mark) "c = q \<or> c = 92" | (hex) "c \<noteq> q" "c \<noteq> 92" "\<not> is_print c" | (plain) "c \<noteq> q" "c \<noteq> 92" "is_print c"
    by blast
  then show ?case
  proof cases
    case mark
    with assms have "scan_escape c ?more = (c, ?more)" by (intro scan_escape_mark) auto
    with mark q Cons.IH show ?thesis by (auto simp: quoted_char_def [of q c])
  next
    case hex
    with scan_escape_hex [of c ?more] q Cons.IH show ?thesis by (simp add: quoted_char_def [of q c])
  next
    case plain
    then have "c \<noteq> 10" by (auto simp: is_print_def)
    with plain Cons.IH show ?thesis by (simp add: quoted_char_def [of q c])
  qed
qed

lemma hex_digit_not_end: "hex_digit c = Some v \<Longrightarrow> c \<noteq> 62"
  by (auto simp: hex_digit_def)

lemma scan_hex:
  "scan_hex_string acc None (concat (map hex_byte s) @ 62 # rest) = (acc @ s, 0, rest)"
proof (induction s arbitrary: acc)
  case (Cons c s)
  show ?case
    using hex_digit_not_end [OF hex_byte_digits(1), of c] hex_digit_not_end [OF hex_byte_digits(2), of c] Cons.IH [of "acc @ [c]"]
    by (simp add: hex_byte_def [of c] hex_byte_digits word_of_unat_split del: of_nat_add of_nat_mult)
qed simp

lemma no_real_mark: "\<not> is_digit c \<Longrightarrow> c \<noteq> 45 \<Longrightarrow> c \<noteq> 46 \<Longrightarrow> real_length (c # s) = None"
  by (simp add: real_length_def digits_of_def)

lemma lex_quoted:
  "lex (format_quoted 34 x @ s) = prepend [VString x] (lex s)"
  "lex (format_quoted 39 x @ s) = prepend [VChar x] (lex s)"
  using scan_quoted [of 34 x s] scan_quoted [of 39 x s]
  by (intro lex_step; simp add: format_quoted_def lex_rule_def no_real_mark is_digit_def)+

lemma lex_hex: "lex (format_hex x @ s) = prepend [VHex x] (lex s)"
  using scan_hex [of "[]" x s]
  by (intro lex_step; simp add: format_hex_def lex_rule_def no_real_mark is_digit_def)

section \<open>Texts with their tokens\<close>

lemma lexes_leaf:
  "lexes (format_quoted 34 x) [VString x]" "lexes (format_quoted 39 x) [VChar x]" "lexes (format_hex x) [VHex x]"
  "n < 2 ^ 64 \<Longrightarrow> lexes (decimal n) [VUnsigned (word_of_nat n)]"
  by (simp_all add: lexes_def lex_quoted lex_hex lex_decimal)

lemma lexes_int_text:
  assumes "\<bar>i\<bar> < 2 ^ 64"
  shows "lexes (int_text i) (if i < 0 then [VSymbol 45, VUnsigned (word_of_nat (nat (- i)))] else [VUnsigned (word_of_nat (nat i))])"
proof -
  have n1: "nat (- i) < 2 ^ 64" using assms by (cases "i < 0") (simp_all add: nat_less_iff)
  have n2: "nat i < 2 ^ 64" using assms by (cases "i < 0") (simp_all add: nat_less_iff)
  have minus: "str ''-'' = [45]" by (simp add: str_def)
  show ?thesis
    using lex_decimal [OF n1] lex_decimal [OF n2] lex_minus [of _ "nat (- i)"]
    by (auto simp: lexes_def int_text_def minus)
qed

definition bracketed :: "u8 \<Rightarrow> u8 \<Rightarrow> bool" where
  "bracketed a b \<longleftrightarrow> (a, b) \<in> {(40, 41), (91, 93), (123, 125)}"

text \<open>The elements behind the first one, each with a comma and a blank in front.\<close>

definition comma_texts :: "bytes list \<Rightarrow> bytes" where
  "comma_texts xs = concat (map (\<lambda>x. [44, 32] @ x) xs)"

definition comma_tokens :: "vtoken list list \<Rightarrow> vtoken list" where
  "comma_tokens tss = concat (map (\<lambda>ts. VSymbol 44 # ts) tss)"

lemma comma_simps [simp]:
  "comma_texts [] = []" "comma_texts (x # xs) = [44, 32] @ x @ comma_texts xs"
  "comma_tokens [] = []" "comma_tokens (ts # tss) = VSymbol 44 # ts @ comma_tokens tss"
  by (simp_all add: comma_texts_def comma_tokens_def)

lemma delim_comma: "delim s \<Longrightarrow> delim (comma_texts xs @ s)"
  by (cases xs) (auto simp: delim_def)

lemma lex_commas:
  "list_all2 lexes xs tss \<Longrightarrow> delim s \<Longrightarrow> lex (comma_texts xs @ s) = prepend (comma_tokens tss) (lex s)"
proof (induction rule: list_all2_induct)
  case (Cons x xs ts tss)
  have "lex (x @ comma_texts xs @ s) = prepend ts (lex (comma_texts xs @ s))"
    using Cons.hyps(1) delim_comma [OF Cons.prems] by (simp add: lexes_def)
  with Cons show ?case by (simp add: lex_symbol lex_space)
qed simp

lemma lexes_bracketed:
  assumes "bracketed a b" "lexes x ts" "list_all2 lexes xs tss"
  shows "lexes ([a] @ x @ comma_texts xs @ [b]) (VSymbol a # ts @ comma_tokens tss @ [VSymbol b])"
  unfolding lexes_def
proof (intro allI impI)
  fix s
  have ab: "a \<in> {40, 41, 44, 91, 93, 123, 125}" "b \<in> {40, 41, 44, 91, 93, 123, 125}" "delim (b # s)"
    using assms(1) by (auto simp: bracketed_def delim_def)
  have "lex (x @ comma_texts xs @ b # s) = prepend ts (lex (comma_texts xs @ b # s))"
    using assms(2) delim_comma [OF ab(3)] by (simp add: lexes_def)
  with lex_commas [OF assms(3) ab(3)] lex_symbol [OF ab(1)] lex_symbol [OF ab(2)]
  show "lex (([a] @ x @ comma_texts xs @ [b]) @ s) = prepend (VSymbol a # ts @ comma_tokens tss @ [VSymbol b]) (lex s)"
    by simp
qed

lemma lexes_empty: "lexes [91, 93] [VSymbol 91, VSymbol 93]"
  by (simp add: lexes_def lex_symbol)


section \<open>Parsing\<close>

abbreviation pst :: "vtoken list \<Rightarrow> (dtype \<times> u32) list \<Rightarrow> u32 \<Rightarrow> nat \<Rightarrow> pstate" where
  "pst ts stack d e \<equiv> \<lparr>ps_tokens = ts, type_stack = stack, current_depth = d, ps_errors = e\<rparr>"

definition no_star :: "vtoken list \<Rightarrow> bool" where
  "no_star ts \<longleftrightarrow> take 1 ts \<noteq> [VSymbol 42]"

definition any_value :: "dtype \<Rightarrow> nat \<Rightarrow> pstate \<Rightarrow> bytes presult" where
  "any_value t n st = (if is_method t then method_value n st else type_value n st)"

text \<open>
  The tokens \<open>ts\<close> are a value of the type \<open>t\<close> that is packed as \<open>bs\<close>: with \<open>t\<close> on the stack at the
  current depth they are read up, without an error, and \<open>t\<close> is off the stack.
\<close>

definition parses :: "dtype \<Rightarrow> vtoken list \<Rightarrow> bytes \<Rightarrow> bool" where
  "parses t ts bs \<longleftrightarrow> ts \<noteq> [] \<and> hd ts \<noteq> VSymbol 93 \<and> (hd ts = VSymbol 40 \<longleftrightarrow> is_method t)
     \<and> (\<forall>rest l r. no_star rest \<longrightarrow> read_literal (ts @ rest) = Some (l, r) \<longrightarrow> star_count r = None)
     \<and> (\<forall>n rest stack d e. 3 * length ts \<le> n \<longrightarrow>
          any_value t n (pst (ts @ rest) ((t, d) # stack) d e) = Inr (bs, pst rest stack d e))"

lemma parsesD:
  assumes "parses t ts bs"
  shows "ts \<noteq> []" "hd ts \<noteq> VSymbol 93" "hd ts = VSymbol 40 \<longleftrightarrow> is_method t"
    "no_star rest \<Longrightarrow> read_literal (ts @ rest) = Some (l, r) \<Longrightarrow> star_count r = None"
    "3 * length ts \<le> n \<Longrightarrow> any_value t n (pst (ts @ rest) ((t, d) # stack) d e) = Inr (bs, pst rest stack d e)"
  using assms by (auto simp: parses_def)

lemma pbind_Inr [simp]: "pbind (Inr (x, st)) f = f x st"
  by (simp add: pbind_def)

lemma pbind_Inl [simp]: "pbind (Inl e) f = Inl e"
  by (simp add: pbind_def)

lemma no_star_count: "no_star r \<Longrightarrow> star_count r = None"
  by (auto simp: no_star_def star_count_def split: list.splits vtoken.splits)

lemma expect_depth_ok: "expect_depth (pst ts ((t, d) # stack) d e) = pst ts ((t, d) # stack) d e"
  by (simp add: expect_depth_def check_depth_def errors_if_def)

lemma parses_literal:
  assumes "\<And>rest. read_literal (ts @ rest) = Some (l, rest)" "literal_value l t = (bs, 0)" "\<not> is_method t"
    "ts \<noteq> []" "hd ts \<noteq> VSymbol 93" "hd ts \<noteq> VSymbol 40" "hd ts \<noteq> VSymbol 91" "hd ts \<noteq> VSymbol 123"
  shows "parses t ts bs"
proof -
  have "any_value t n (pst (ts @ rest) ((t, d) # stack) d e) = Inr (bs, pst rest stack d e)"
    if "3 * length ts \<le> n" for n rest stack d e
  proof -
    from that assms(4) obtain m where "n = Suc m" by (cases n) auto
    with assms show ?thesis
      by (cases ts) (simp_all add: any_value_def at_symbol_def type_literal_def expect_depth_ok pop_type_def add_errors_def)
  qed
  with assms show ?thesis by (auto simp: parses_def no_star_count)
qed

subsection \<open>Numbers\<close>

lemma le_nat_inject: "length a = length b \<Longrightarrow> le_nat a = le_nat b \<Longrightarrow> a = b"
proof (induction a arbitrary: b)
  case (Cons x a)
  then obtain y c where b: "b = y # c" by (cases b) auto
  have "unat x < 256" "unat y < 256" using unsigned_less [of x] unsigned_less [of y] by simp_all
  then have m: "unat x = (unat x + 256 * le_nat a) mod 256" "unat y = (unat y + 256 * le_nat c) mod 256"
    by simp_all
  have eq: "unat x + 256 * le_nat a = unat y + 256 * le_nat c" using Cons.prems(2) b by simp
  with m have xy: "unat x = unat y" by simp
  with eq have "le_nat a = le_nat c" by simp
  with Cons.IH [of c] Cons.prems(1) b have "a = c" by simp
  with xy b show ?case by (simp add: word_unat_eq_iff)
qed simp

lemma unsigned_bytes:
  assumes "length bs = k" "k \<le> 8"
  shows "unsigned_number k (word_of_nat (le_nat bs)) = (bs, 0)" "le_nat bs < 2 ^ 64"
proof -
  have "le_nat bs < 256 ^ k" using le_nat_bound [of bs] assms(1) by simp
  moreover have "(256 :: nat) ^ k = 2 ^ (8 * k)" by (simp add: power_mult)
  ultimately have less: "le_nat bs < 2 ^ (8 * k)" by simp
  moreover have "(2 :: nat) ^ (8 * k) \<le> 2 ^ 64" using assms(2) by (intro power_increasing) auto
  ultimately show le: "le_nat bs < 2 ^ 64" by simp
  then have "le_bytes k (word_of_nat (le_nat bs) :: u64) = bs"
    using le_bytes_of_nat [where 'a = 64, of bs] assms(1) by simp
  moreover have "unat (word_of_nat (le_nat bs) :: u64) = le_nat bs"
    using le by (simp add: unsigned_of_nat take_bit_nat_eq_self)
  ultimately show "unsigned_number k (word_of_nat (le_nat bs)) = (bs, 0)" using less by (simp add: unsigned_number_def)
qed

lemma sint_u64: "- (2 ^ 63) \<le> i \<Longrightarrow> i < 2 ^ 63 \<Longrightarrow> sint (word_of_int i :: u64) = i"
  by (simp add: signed_of_int signed_take_bit_int_eq_self)

lemma signed_bytes:
  assumes "LENGTH('a::len) = 8 * k" "length bs = k" "k \<le> 8" "sint (le_word bs :: 'a word) = i"
  shows "signed_number k (word_of_int i) = (bs, 0)" "- (2 ^ 63) \<le> i" "i < 2 ^ 63"
proof -
  let ?w = "le_word bs :: 'a word" and ?x = "word_of_int i :: u64"
  have r: "- (2 ^ (8 * k - 1)) \<le> i" "i < 2 ^ (8 * k - 1)"
    using sint_ge [of ?w] sint_lt [of ?w] assms(1,4) by simp_all
  have "(2 :: int) ^ (8 * k - 1) \<le> 2 ^ 63" using assms(3) by (intro power_increasing) auto
  with r show b: "- (2 ^ 63) \<le> i" "i < 2 ^ 63" by linarith+
  have pow: "(256 :: nat) ^ k = 2 ^ (8 * k)" by (simp add: power_mult)
  have "le_nat bs < 2 ^ (8 * k)" using le_nat_bound [of bs] assms(2) pow by simp
  then have w: "uint ?w = int (le_nat bs)"
    using assms(1) unfolding le_word_def by (simp add: unsigned_of_nat take_bit_int_eq_self take_bit_of_nat [symmetric])
  have "int (le_nat (le_bytes k ?x)) = take_bit (8 * k) (uint ?x)"
    by (simp add: le_nat_le_bytes pow take_bit_eq_mod zmod_int)
  also have "\<dots> = take_bit (8 * k) i" using assms(3) by (simp add: unsigned_of_int take_bit_take_bit min_def)
  also have "\<dots> = uint ?w" using uint_sint [of ?w] assms(1,4) by simp
  finally have "le_nat (le_bytes k ?x) = le_nat bs" using w by simp
  then have "le_bytes k ?x = bs" using assms(2) by (intro le_nat_inject) simp_all
  with r sint_u64 [OF b] show "signed_number k ?x = (bs, 0)" by (simp add: signed_number_def)
qed

text \<open>The tokens of the text of an integer.\<close>

definition int_tokens :: "int \<Rightarrow> vtoken list" where
  "int_tokens i = (if i < 0 then [VSymbol 45, VUnsigned (word_of_nat (nat (- i)))] else [VUnsigned (word_of_nat (nat i))])"

lemma parses_int:
  assumes "number_value_int (get_type t) (word_of_int i) = (bs, 0)" "- (2 ^ 63) \<le> i" "i < 2 ^ 63" "\<not> is_method t"
    "get_type t \<in> {T_INT8, T_INT16, T_INT32, T_INT64}"
  shows "parses t (int_tokens i) bs"
proof (cases "i < 0")
  case True
  then have "- word_of_nat (nat (- i)) = (word_of_int i :: u64)" by (simp add: of_nat_nat)
  with True assms show ?thesis
    by (intro parses_literal [where l = "LSigned (word_of_int i)"])
      (simp_all add: int_tokens_def literal_value_def)
next
  case False
  then have w: "word_of_nat (nat i) = (word_of_int i :: u64)" by (simp add: of_nat_nat)
  have "unat (word_of_int i :: u64) < 2 ^ 63"
    using False assms(3) by (simp add: unsigned_of_int take_bit_int_eq_self nat_less_iff)
  with assms(1,5) have "number_value_uint (get_type t) (word_of_int i) = (bs, 0)"
    by (auto simp: number_value_uint_def Let_def)
  with False w assms(4) show ?thesis
    by (intro parses_literal [where l = "LUnsigned (word_of_int i)"])
      (simp_all add: int_tokens_def literal_value_def)
qed

definition text_tags :: "type_tag set" where
  "text_tags = {T_INT8, T_INT16, T_INT32, T_INT64, T_UINT8, T_UINT16, T_UINT32, T_UINT64, T_CHAR}"

definition written_as :: "dtype \<Rightarrow> bytes \<Rightarrow> bytes \<Rightarrow> bool" where
  "written_as t tx bs \<longleftrightarrow> (\<exists>ts. lexes tx ts \<and> parses t ts bs)"

lemma number_written:
  assumes "nt_type nt \<in> text_tags" "numeric_size (nt_type nt) = Some n" "length bs = unat n"
  shows "written_as (TNumeric nt) (number_text (nt_type nt) bs) bs"
proof -
  have signed: "written_as (TNumeric nt) (number_text (nt_type nt) bs) bs"
    if "number_text (nt_type nt) bs = int_text i" "number_value_int (nt_type nt) (word_of_int i) = (bs, 0)"
      "- (2 ^ 63) \<le> i" "i < 2 ^ 63" "nt_type nt \<in> {T_INT8, T_INT16, T_INT32, T_INT64}" for i
  proof -
    have "\<bar>i\<bar> < 2 ^ 64" using that(3,4) by simp
    with lexes_int_text [of i] parses_int [of "TNumeric nt" i bs] that show ?thesis
      by (auto simp: written_as_def int_tokens_def is_method_def)
  qed
  have unsigned: "written_as (TNumeric nt) (number_text (nt_type nt) bs) bs"
    if "number_text (nt_type nt) bs = decimal (le_nat bs)" "le_nat bs < 2 ^ 64"
      "number_value_uint (nt_type nt) (word_of_nat (le_nat bs)) = (bs, 0)"
  proof -
    have "parses (TNumeric nt) [VUnsigned (word_of_nat (le_nat bs))] bs"
      using that by (intro parses_literal [where l = "LUnsigned (word_of_nat (le_nat bs))"])
        (simp_all add: literal_value_def is_method_def)
    with that lexes_leaf(4) show ?thesis by (auto simp: written_as_def)
  qed
  show ?thesis
  proof (cases "nt_type nt")
    case T_INT8
    with assms signed_bytes [where 'a = 8, of 1 bs] show ?thesis
      by (intro signed) (auto simp: number_text_def number_value_int_def Let_def)
  next
    case T_INT16
    with assms signed_bytes [where 'a = 16, of 2 bs] show ?thesis
      by (intro signed) (auto simp: number_text_def number_value_int_def Let_def)
  next
    case T_INT32
    with assms signed_bytes [where 'a = 32, of 4 bs] show ?thesis
      by (intro signed) (auto simp: number_text_def number_value_int_def Let_def)
  next
    case T_INT64
    with assms signed_bytes [where 'a = 64, of 8 bs] show ?thesis
      by (intro signed) (auto simp: number_text_def number_value_int_def Let_def)
  next
    case T_UINT8
    with assms unsigned_bytes [of bs 1] show ?thesis
      by (intro unsigned) (auto simp: number_text_def number_value_uint_def Let_def)
  next
    case T_UINT16
    with assms unsigned_bytes [of bs 2] show ?thesis
      by (intro unsigned) (auto simp: number_text_def number_value_uint_def Let_def)
  next
    case T_UINT32
    with assms unsigned_bytes [of bs 4] show ?thesis
      by (intro unsigned) (auto simp: number_text_def number_value_uint_def Let_def)
  next
    case T_UINT64
    with assms unsigned_bytes [of bs 8] show ?thesis
      by (intro unsigned) (auto simp: number_text_def number_value_uint_def Let_def)
  next
    case T_CHAR
    with assms have "length bs = 1" by simp
    with T_CHAR have "parses (TNumeric nt) [VChar bs] bs"
      by (intro parses_literal [where l = "LChar bs"]) (simp_all add: literal_value_def char_value_def is_method_def)
    with lexes_leaf(2) T_CHAR show ?thesis by (auto simp: written_as_def number_text_def)
  qed (use assms(1) in \<open>simp_all add: text_tags_def\<close>)
qed


subsection \<open>Lists of values\<close>

definition no_comma :: "vtoken list \<Rightarrow> bool" where
  "no_comma ts \<longleftrightarrow> take 1 ts \<noteq> [VSymbol 44]"

lemma no_star_commas: "no_star rest \<Longrightarrow> no_star (comma_tokens tss @ rest)"
  by (cases tss) (simp_all add: no_star_def)

lemma expansion_read:
  assumes "parses e ts bs" "\<not> is_method e" "no_star rest" "3 * length ts \<le> n"
  shows "array_expansion (Suc n) (pst (ts @ rest) ((e, d) # stack) d err) = Inr (bs, pst rest stack (d + 1) err)"
proof -
  have "Option.bind (read_literal (ts @ rest)) (\<lambda>(l, r). map_option (\<lambda>c. (l, c)) (star_count r)) = None"
    using parsesD(4) [OF assms(1,3)] by (cases "read_literal (ts @ rest)") auto
  moreover have "type_value n (pst (ts @ rest) ((e, d) # stack) d err) = Inr (bs, pst rest stack d err)"
    using parsesD(5) [OF assms(1,4)] assms(2) by (simp add: any_value_def)
  ultimately show ?thesis by simp
qed

lemma elements_read:
  assumes "list_all2 (parses e) tss bss" "parses e ts bs" "\<not> is_method e" "no_star rest" "no_comma rest"
    "3 * length (ts @ comma_tokens tss) + 1 \<le> n"
  shows "element_values (Suc n) (pst (ts @ comma_tokens tss @ rest) ((e, d) # (TArray tag sz e cnt r al, d0) # stack) d err)
    = Inr (bs @ concat bss, pst rest ((TArray tag sz e cnt r al, d0) # stack) (d + 1 + word_of_nat (length tss)) err)"
  using assms(1,2,6)
proof (induction tss bss arbitrary: ts bs d n rule: list_all2_induct)
  case Nil
  then obtain m where n: "n = Suc m" "3 * length ts \<le> m" by (cases n) auto
  with expansion_read [OF Nil.prems(1) assms(3,4) n(2)] assms(5) show ?case
    by (simp add: at_symbol_def no_comma_def del: array_expansion.simps)
next
  case (Cons us tss us_bytes bss)
  from Cons.prems(2) obtain m where n: "n = Suc m" "3 * length ts \<le> m" by (cases n) auto
  have "no_star (comma_tokens (us # tss) @ rest)" by (rule no_star_commas [OF assms(4)])
  note first = expansion_read [OF Cons.prems(1) assms(3) this n(2)]
  have "3 * length (us @ comma_tokens tss) + 1 \<le> m" using Cons.prems(2) n by simp
  note others = Cons.IH [OF Cons.hyps(1) this]
  show ?case
    using first others n(1)
    by (simp add: at_symbol_def next_token_def array_next_def top_type_def push_types_def del: array_expansion.simps)
qed

lemma fields_read:
  assumes "list_all2 (\<lambda>t q. parses t (fst q) (snd q)) types qs" "parses t ts bs" "no_star rest" "no_comma rest"
    "3 * length (ts @ comma_tokens (map fst qs)) + 1 \<le> n"
  shows "field_values (Suc n) (pst (ts @ comma_tokens (map fst qs) @ rest) ((t, d) # map (\<lambda>t. (t, d)) types @ stack) d err)
    = Inr (bs @ concat (map snd qs), pst rest stack d err)"
  using assms(1,2,5)
proof (induction types qs arbitrary: t ts bs n rule: list_all2_induct)
  case Nil
  from parsesD(1,3) [OF Nil.prems(1)] have "at_symbol 40 (pst (ts @ rest) ((t, d) # stack) d err) \<longleftrightarrow> is_method t"
    by (cases ts) (auto simp: at_symbol_def)
  with parsesD(5) [OF Nil.prems(1), of n rest d stack err] Nil.prems(2) assms(4) show ?case
    by (auto simp: at_symbol_def no_comma_def any_value_def split: if_splits)
next
  case (Cons t' types q qs)
  let ?rest = "comma_tokens (map fst (q # qs)) @ rest" and ?stack = "map (\<lambda>t. (t, d)) (t' # types) @ stack"
  from parsesD(1,3) [OF Cons.prems(1)] have a: "at_symbol 40 (pst (ts @ ?rest) ((t, d) # ?stack) d err) \<longleftrightarrow> is_method t"
    by (cases ts) (auto simp: at_symbol_def)
  have first: "any_value t n (pst (ts @ ?rest) ((t, d) # ?stack) d err) = Inr (bs, pst ?rest ?stack d err)"
    using parsesD(5) [OF Cons.prems(1)] Cons.prems(2) by simp
  from Cons.prems(2) obtain m where n: "n = Suc m" by (cases n) auto
  have "3 * length (fst q @ comma_tokens (map fst qs)) + 1 \<le> m" using Cons.prems(2) n by simp
  note others = Cons.IH [OF Cons.hyps(1) this]
  show ?case
    using first others a n
    by (cases "is_method t") (simp_all add: any_value_def at_symbol_def next_token_def del: type_value.simps method_value.simps)
qed

lemma params_read:
  assumes "list_all2 (\<lambda>t q. parses t (fst q) (snd q)) types qs" "parses t ts bs" "no_star rest" "no_comma rest"
    "\<not> is_method t" "list_all (\<lambda>t. \<not> is_method t) types" "3 * length (ts @ comma_tokens (map fst qs)) + 1 \<le> n"
  shows "parameter_values (Suc n) (pst (ts @ comma_tokens (map fst qs) @ rest) ((t, d) # map (\<lambda>t. (t, d)) types @ stack) d err)
    = Inr (bs @ concat (map snd qs), pst rest stack d err)"
  using assms(1,2,5,6,7)
proof (induction types qs arbitrary: t ts bs n rule: list_all2_induct)
  case Nil
  with parsesD(5) [OF Nil.prems(1), of n rest d stack err] assms(4) show ?case
    by (simp add: at_symbol_def no_comma_def any_value_def)
next
  case (Cons t' types q qs)
  let ?rest = "comma_tokens (map fst (q # qs)) @ rest" and ?stack = "map (\<lambda>t. (t, d)) (t' # types) @ stack"
  have first: "type_value n (pst (ts @ ?rest) ((t, d) # ?stack) d err) = Inr (bs, pst ?rest ?stack d err)"
    using parsesD(5) [OF Cons.prems(1)] Cons.prems(2,4) by (simp add: any_value_def)
  from Cons.prems(4) obtain m where n: "n = Suc m" by (cases n) auto
  have "3 * length (fst q @ comma_tokens (map fst qs)) + 1 \<le> m" using Cons.prems(4) n by simp
  note others = Cons.IH [OF Cons.hyps(1) _ _ this]
  show ?case
    using first others n Cons.prems(3)
    by (simp add: at_symbol_def next_token_def del: type_value.simps)
qed

subsection \<open>Arrays, structs and methods\<close>

lemma scast_small: "k < 2 ^ 31 \<Longrightarrow> scast (word_of_nat k :: u32) = (word_of_nat k :: u64)"
proof -
  assume k: "k < 2 ^ 31"
  have "sint (word_of_nat k :: u32) = int k"
    using k by (simp add: signed_of_nat signed_take_bit_int_eq_self)
  then have "word_of_int (sint (word_of_nat k :: u32)) = (word_of_nat k :: u64)" by simp
  then show ?thesis by simp
qed

lemma read_literal_bracket: "c \<noteq> 43 \<Longrightarrow> c \<noteq> 45 \<Longrightarrow> read_literal (VSymbol c # ts) = None"
  by (cases ts; cases "hd ts") auto

lemma parses_array:
  assumes "parses e ts bs" "list_all2 (parses e) tss bss" "\<not> is_method e"
    "nrange_is_empty r \<or> num_bits (nr_min r) = word_of_nat (Suc (length tss)) \<and> num_bits (nr_max r) = word_of_nat (Suc (length tss))
       \<and> Suc (length tss) < 2 ^ 31"
  shows "parses (TArray tag sz e cnt r al) (VSymbol 91 # ts @ comma_tokens tss @ [VSymbol 93])
    (if cnt = 0 then with_length (bs @ concat bss) else bs @ concat bss)"
proof -
  let ?t = "TArray tag sz e cnt r al" and ?ts = "VSymbol 91 # ts @ comma_tokens tss @ [VSymbol 93]"
  let ?bs = "if cnt = 0 then with_length (bs @ concat bss) else bs @ concat bss"
  have "type_value n (pst (?ts @ rest) ((?t, d) # stack) d err) = Inr (?bs, pst rest stack d err)"
    if n: "3 * length ?ts \<le> n" for n rest stack d err
  proof -
    from n obtain m where m: "n = Suc (Suc m)" "3 * length (ts @ comma_tokens tss) + 1 \<le> m"
      by (cases n; cases "n - 1") auto
    have b: "no_star (VSymbol 93 # rest)" "no_comma (VSymbol 93 # rest)" by (simp_all add: no_star_def no_comma_def)
    have "\<not> at_symbol 93 (pst (ts @ comma_tokens tss @ VSymbol 93 # rest) ((?t, d) # stack) d err)"
      using parsesD(1,2) [OF assms(1)] by (cases ts) (auto simp: at_symbol_def)
    moreover have "(word_of_nat (Suc (length tss)) :: u64) = scast (d + 1 + word_of_nat (length tss) - d :: u32) \<or> nrange_is_empty r"
      using assms(4) scast_small [of "Suc (length tss)"] by auto
    ultimately show ?thesis
      using elements_read [OF assms(2,1,3) b m(2), of d tag sz cnt r al d stack err] m(1) assms(4)
      by (auto simp: at_symbol_def next_token_def array_open_def expect_depth_ok top_type_def push_types_def
          expect_symbol_def array_close_def pop_type_def errors_if_def simp del: element_values.simps)
  qed
  then show ?thesis by (auto simp: parses_def any_value_def is_method_def read_literal_bracket)
qed


lemma parses_empty_array:
  "nrange_is_empty r \<Longrightarrow> parses (TArray tag sz e 0 r al) [VSymbol 91, VSymbol 93] [0, 0]"
proof -
  assume r: "nrange_is_empty r"
  have "type_value n (pst (VSymbol 91 # VSymbol 93 # rest) ((TArray tag sz e 0 r al, d) # stack) d err)
      = Inr ([0, 0], pst rest stack d err)" if "6 \<le> n" for n rest stack d err
    using that r by (cases n) (simp_all add: at_symbol_def next_token_def empty_array_def expect_depth_ok pop_type_def
        errors_if_def numeral_2_eq_2)
  then show ?thesis by (simp add: parses_def any_value_def is_method_def read_literal_bracket)
qed

lemma parses_struct:
  assumes "list_all2 (\<lambda>t q. parses t (fst q) (snd q)) types qs" "parses t ts bs" "map field_type fs = t # types"
  shows "parses (TStruct sz fs c sn sc) (VSymbol 123 # ts @ comma_tokens (map fst qs) @ [VSymbol 125]) (bs @ concat (map snd qs))"
proof -
  let ?t = "TStruct sz fs c sn sc" and ?ts = "VSymbol 123 # ts @ comma_tokens (map fst qs) @ [VSymbol 125]"
  have "type_value n (pst (?ts @ rest) ((?t, d) # stack) d err) = Inr (bs @ concat (map snd qs), pst rest stack d err)"
    if n: "3 * length ?ts \<le> n" for n rest stack d err
  proof -
    from n obtain m where m: "n = Suc (Suc m)" "3 * length (ts @ comma_tokens (map fst qs)) + 1 \<le> m"
      by (cases n; cases "n - 1") auto
    have b: "no_star (VSymbol 125 # rest)" "no_comma (VSymbol 125 # rest)" by (simp_all add: no_star_def no_comma_def)
    show ?thesis
      using fields_read [OF assms(1,2) b m(2), of "d + 1" "(?t, d) # stack" err] m(1) assms(3)
      by (simp add: at_symbol_def next_token_def struct_begin_def expect_depth_ok top_type_def push_types_def
          expect_symbol_def struct_end_def pop_type_def del: field_values.simps map_map)
  qed
  then show ?thesis by (auto simp: parses_def any_value_def is_method_def read_literal_bracket)
qed

lemma parses_method:
  assumes "list_all2 (\<lambda>t q. parses t (fst q) (snd q)) types qs" "parses t ts bs" "map param_type ps = t # types"
    "\<not> is_method t" "list_all (\<lambda>t. \<not> is_method t) types"
  shows "parses (TMethod sz ps c) (VSymbol 40 # ts @ comma_tokens (map fst qs) @ [VSymbol 41]) (bs @ concat (map snd qs))"
proof -
  let ?t = "TMethod sz ps c" and ?ts = "VSymbol 40 # ts @ comma_tokens (map fst qs) @ [VSymbol 41]"
  have "method_value n (pst (?ts @ rest) ((?t, d) # stack) d err) = Inr (bs @ concat (map snd qs), pst rest stack d err)"
    if n: "3 * length ?ts \<le> n" for n rest stack d err
  proof -
    from n obtain m where m: "n = Suc (Suc m)" "3 * length (ts @ comma_tokens (map fst qs)) + 1 \<le> m"
      by (cases n; cases "n - 1") auto
    have b: "no_star (VSymbol 41 # rest)" "no_comma (VSymbol 41 # rest)" by (simp_all add: no_star_def no_comma_def)
    show ?thesis
      using params_read [OF assms(1,2) b assms(4,5) m(2), of "d + 1" "(?t, d) # stack" err] m(1) assms(3)
      by (simp add: method_begin_def expect_depth_ok top_type_def push_types_def
          expect_symbol_def method_end_def pop_type_def del: parameter_values.simps map_map)
  qed
  then show ?thesis by (auto simp: parses_def any_value_def is_method_def read_literal_bracket)
qed

section \<open>Types whose values are read back\<close>

text \<open>
  Integers and characters; strings and blobs; fixed arrays, and variable ones without a range; structs
  and methods with at least one member. Left out are floating-point numbers, of which the text keeps six
  digits, and arrays whose size is fixed while their elements are not.
\<close>

fun text_type :: "bool \<Rightarrow> dtype \<Rightarrow> bool"
and text_fields :: "field list \<Rightarrow> bool"
and text_params :: "param list \<Rightarrow> bool" where
  "text_type methods TInvalid = False"
| "text_type methods (TNumeric nt) = (nt_type nt \<in> text_tags)"
| "text_type methods (TArray tag sz e n r al) =
     (if (tag = T_STRING \<or> tag = T_VARSTRING) \<and> al = ''string'' \<or> (tag = T_BLOB \<or> tag = T_VARBLOB) \<and> al = ''blob'' then True
      else if tag = T_STRING \<or> tag = T_BLOB \<or> tag = T_ARRAY
      then text_type False e \<and> 0 < n \<and> unat n < 2 ^ 31
        \<and> (nrange_is_empty r \<or> num_bits (nr_min r) = ucast n \<and> num_bits (nr_max r) = ucast n)
      else (tag = T_VARSTRING \<or> tag = T_VARBLOB \<or> tag = T_VARARRAY) \<and> text_type False e \<and> n = 0 \<and> nrange_is_empty r)"
| "text_type methods (TStruct sz fs c sn sc) = (fs \<noteq> [] \<and> text_fields fs)"
| "text_type methods (TMethod sz ps c) = (methods \<and> ps \<noteq> [] \<and> text_params ps)"
| "text_fields [] = True"
| "text_fields (Field i nm kws t d dflt m # fs) = (text_type True t \<and> text_fields fs)"
| "text_params [] = True"
| "text_params (Param nm t d pd # ps) = (text_type False t \<and> text_params ps)"

lemma text_type_no_method: "text_type False t \<Longrightarrow> \<not> is_method t"
  by (cases t) (auto simp: is_method_def)

lemma text_params_no_method: "text_params ps \<Longrightarrow> list_all (\<lambda>p. \<not> is_method (param_type p)) ps"
proof (induction ps)
  case (Cons p ps)
  then show ?case by (cases p) (auto dest: text_type_no_method)
qed simp


section \<open>Formatting\<close>

lemma part_append: "part inp off a @ part inp (off + a) b = part inp off (a + b)"
  by (simp add: part_def take_add add.commute)

lemma part_join: "off \<le> k \<Longrightarrow> k \<le> off' \<Longrightarrow> part inp off (k - off) @ part inp k (off' - k) = part inp off (off' - off)"
  using part_append [of inp off "k - off" "off' - k"] by simp

lemma length_part: "off + n \<le> length inp \<Longrightarrow> length (part inp off n) = n"
  by (simp add: part_def)

lemma str_marks:
  "str '', '' = [44, 32]" "str ''['' = [91]" "str '']'' = [93]" "str ''{'' = [123]" "str ''}'' = [125]"
  "str ''('' = [40]" "str '')'' = [41]"
  by (simp_all add: str_def)

text \<open>Whenever the formatter succeeds, what it has written is the text of the bytes it went over.\<close>

definition fmt_writes :: "bytes \<Rightarrow> dtype \<Rightarrow> formatter \<Rightarrow> bool" where
  "fmt_writes inp t f \<longleftrightarrow>
     (\<forall>off out off' out'. f (off, out) = Some (True, off', out') \<longrightarrow>
        off \<le> off' \<and> (\<exists>tx. out' = out @ tx \<and> written_as t tx (part inp off (off' - off))))"

lemma fmt_writesD:
  assumes "fmt_writes inp t f" "f (off, out) = Some (True, off', out')"
  obtains tx where "off \<le> off'" "out' = out @ tx" "written_as t tx (part inp off (off' - off))"
  using assms unfolding fmt_writes_def by blast

lemma written_list:
  "list_all2 (written_as e) xs bss \<Longrightarrow> \<exists>tss. list_all2 lexes xs tss \<and> list_all2 (parses e) tss bss"
proof (induction rule: list_all2_induct)
  case (Cons x xs b bss)
  then obtain ts tss where "lexes x ts" "parses e ts b" "list_all2 lexes xs tss" "list_all2 (parses e) tss bss"
    by (auto simp: written_as_def)
  then show ?case by (intro exI [of _ "ts # tss"]) simp
qed simp

lemma written_members:
  "list_all2 (\<lambda>t q. written_as t (fst q) (snd q)) types qs \<Longrightarrow>
    \<exists>ps. list_all2 lexes (map fst qs) (map fst ps) \<and> list_all2 (\<lambda>t p. parses t (fst p) (snd p)) types ps \<and> map snd ps = map snd qs"
proof (induction rule: list_all2_induct)
  case (Cons t types q qs)
  then obtain ts ps where "lexes (fst q) ts" "parses t ts (snd q)" "list_all2 lexes (map fst qs) (map fst ps)"
    "list_all2 (\<lambda>t p. parses t (fst p) (snd p)) types ps" "map snd ps = map snd qs"
    by (auto simp: written_as_def)
  then show ?case by (intro exI [of _ "(ts, snd q) # ps"]) simp
qed simp

lemma fmt_more_writes:
  assumes "fmt_writes inp e f" "fmt_more f n (off, out) = Some (True, off', out')"
  shows "off \<le> off' \<and> (\<exists>xs bss. length xs = n \<and> out' = out @ comma_texts xs \<and> list_all2 (written_as e) xs bss
    \<and> concat bss = part inp off (off' - off))"
  using assms(2)
proof (induction n arbitrary: off out)
  case 0
  then show ?case by (auto simp: part_def)
next
  case (Suc n)
  from Suc.prems obtain k o1 where k: "f (off, out @ [44, 32]) = Some (True, k, o1)" "fmt_more f n (k, o1) = Some (True, off', out')"
    by (auto simp: fmt_bind_def str_marks split: option.splits if_splits prod.splits)
  obtain tx where t: "off \<le> k" "o1 = (out @ [44, 32]) @ tx" "written_as e tx (part inp off (k - off))"
    by (rule fmt_writesD [OF assms(1) k(1)])
  obtain xs bss where xs: "k \<le> off'" "length xs = n" "out' = o1 @ comma_texts xs" "list_all2 (written_as e) xs bss"
    "concat bss = part inp k (off' - k)"
    using Suc.IH [OF k(2)] by blast
  show ?case
    using t xs part_join [OF t(1) xs(1), of inp]
    by (intro conjI exI [of _ "tx # xs"] exI [of _ "part inp off (k - off) # bss"]) auto
qed

lemma fmt_while_writes:
  assumes "fmt_writes inp e f" "fmt_while f array_end (off, out) = Some (True, off', out')"
  shows "off \<le> off' \<and> (array_end \<le> off') \<and> (\<exists>xs bss. out' = out @ comma_texts xs \<and> list_all2 (written_as e) xs bss
    \<and> concat bss = part inp off (off' - off))"
  using assms(2)
proof (induction "array_end - off" arbitrary: off out rule: less_induct)
  case less
  show ?case
  proof (cases "off < array_end")
    case False
    with less.prems have "off' = off" "out' = out" by (subst (asm) fmt_while.simps; auto)+
    with False show ?thesis by (intro conjI exI [of _ "[]"]) (simp_all add: part_def)
  next
    case True
    with less.prems obtain k o1 where k: "f (off, out @ [44, 32]) = Some (True, k, o1)" "off < k"
      "fmt_while f array_end (k, o1) = Some (True, off', out')"
      by (subst (asm) fmt_while.simps) (auto simp: str_marks split: option.splits if_splits prod.splits)
    obtain tx where t: "off \<le> k" "o1 = (out @ [44, 32]) @ tx" "written_as e tx (part inp off (k - off))"
      by (rule fmt_writesD [OF assms(1) k(1)])
    have "array_end - k < array_end - off" using k(2) True by simp
    from less.hyps [OF this k(3)] obtain xs bss where xs: "k \<le> off'" "array_end \<le> off'" "out' = o1 @ comma_texts xs"
      "list_all2 (written_as e) xs bss" "concat bss = part inp k (off' - k)" by blast
    show ?thesis
      using t xs part_join [OF t(1) xs(1), of inp]
      by (intro conjI exI [of _ "tx # xs"] exI [of _ "part inp off (k - off) # bss"]) auto
  qed
qed

lemma written_array:
  assumes "written_as e x b" "list_all2 (written_as e) xs bss" "\<not> is_method e"
    "nrange_is_empty r \<or> num_bits (nr_min r) = word_of_nat (Suc (length xs)) \<and> num_bits (nr_max r) = word_of_nat (Suc (length xs))
       \<and> Suc (length xs) < 2 ^ 31"
  shows "written_as (TArray tag sz e cnt r al) ([91] @ x @ comma_texts xs @ [93])
    (if cnt = 0 then with_length (b @ concat bss) else b @ concat bss)"
proof -
  obtain ts where ts: "lexes x ts" "parses e ts b" using assms(1) by (auto simp: written_as_def)
  obtain tss where tss: "list_all2 lexes xs tss" "list_all2 (parses e) tss bss" using written_list [OF assms(2)] by blast
  have "length tss = length xs" using tss(1) by (simp add: list_all2_lengthD)
  with assms(4) have range: "nrange_is_empty r \<or> num_bits (nr_min r) = word_of_nat (Suc (length tss))
      \<and> num_bits (nr_max r) = word_of_nat (Suc (length tss)) \<and> Suc (length tss) < 2 ^ 31" by simp
  have "lexes ([91] @ x @ comma_texts xs @ [93]) (VSymbol 91 # ts @ comma_tokens tss @ [VSymbol 93])"
    by (rule lexes_bracketed [OF _ ts(1) tss(1)]) (simp add: bracketed_def)
  with parses_array [OF ts(2) tss(2) assms(3) range] show ?thesis unfolding written_as_def by blast
qed

lemma fixed_writes:
  assumes "fmt_writes inp e f" "\<not> is_method e" "0 < n" "unat n < 2 ^ 31"
    "nrange_is_empty r \<or> num_bits (nr_min r) = ucast n \<and> num_bits (nr_max r) = ucast n"
  shows "fmt_writes inp (TArray tag sz e n r al) (fmt_fixed close_failed f (unat n))"
  unfolding fmt_writes_def
proof (intro allI impI)
  fix off out off' out'
  assume "fmt_fixed close_failed f (unat n) (off, out) = Some (True, off', out')"
  then obtain k o1 o2 where k: "f (off, out @ [91]) = Some (True, k, o1)" "fmt_more f (unat n - 1) (k, o1) = Some (True, off', o2)"
    "out' = o2 @ [93]"
    by (auto simp: fmt_fixed_def fmt_bind_def fmt_end_def str_marks split: option.splits if_splits prod.splits)
  obtain x where x: "off \<le> k" "o1 = (out @ [91]) @ x" "written_as e x (part inp off (k - off))"
    by (rule fmt_writesD [OF assms(1) k(1)])
  obtain xs bss where xs: "k \<le> off'" "length xs = unat n - 1" "o2 = o1 @ comma_texts xs" "list_all2 (written_as e) xs bss"
    "concat bss = part inp k (off' - k)"
    using fmt_more_writes [OF assms(1) k(2)] by blast
  have "0 < unat n" using assms(3) by (simp add: word_less_nat_alt)
  then have len: "Suc (length xs) = unat n" using xs(2) by simp
  then have "word_of_nat (Suc (length xs)) = (ucast n :: u64)" by simp
  with assms(4,5) len have "nrange_is_empty r \<or> num_bits (nr_min r) = word_of_nat (Suc (length xs))
      \<and> num_bits (nr_max r) = word_of_nat (Suc (length xs)) \<and> Suc (length xs) < 2 ^ 31" by simp
  note written = written_array [OF x(3) xs(4) assms(2) this, of tag sz n al]
  have "n \<noteq> 0" using assms(3) by auto
  with written
  have "written_as (TArray tag sz e n r al) ([91] @ x @ comma_texts xs @ [93]) (part inp off (off' - off))"
    using part_join [OF x(1) xs(1), of inp] xs(5) by simp
  with x xs k(3) show "off \<le> off' \<and> (\<exists>tx. out' = out @ tx
      \<and> written_as (TArray tag sz e n r al) tx (part inp off (off' - off)))" by auto
qed

lemma length_bytes:
  assumes "off + 2 \<le> length inp" "length s = read_length inp off"
  shows "with_length s = part inp off 2 @ s"
  using le_bytes_of_nat [where 'a = 16, of "part inp off 2"] le_nat_bound [of "part inp off 2"] length_part [OF assms(1)] assms(2)
  by (simp add: with_length_def read_length_def)

lemma empty_written:
  "nrange_is_empty r \<Longrightarrow> written_as (TArray tag sz e 0 r al) [91, 93] [0, 0]"
  using lexes_empty parses_empty_array by (auto simp: written_as_def)

lemma variable_writes:
  assumes "fmt_writes inp e f" "\<not> is_method e" "nrange_is_empty r"
  shows "fmt_writes inp (TArray tag sz e 0 r al) (fmt_variable inp f)"
  unfolding fmt_writes_def
proof (intro allI impI)
  fix off out off' out'
  assume run: "fmt_variable inp f (off, out) = Some (True, off', out')"
  then have r2: "off + 2 \<le> length inp" by (auto simp: fmt_variable_def Let_def remaining_def fmt_end_def split: if_splits)
  let ?t = "TArray tag sz e 0 r al" and ?n = "read_length inp off"
  show "off \<le> off' \<and> (\<exists>tx. out' = out @ tx \<and> written_as ?t tx (part inp off (off' - off)))"
  proof (cases "?n = 0")
    case True
    with run r2 have o: "off' = off + 2" "out' = out @ [91, 93]"
      by (auto simp: fmt_variable_def Let_def remaining_def fmt_end_def str_marks)
    have "part inp off 2 = [0, 0]"
      using True length_part [OF r2] by (auto simp: read_length_def numeral_2_eq_2 length_Suc_conv unat_eq_0)
    with o empty_written [OF assms(3), of tag sz e al] show ?thesis by simp
  next
    case False
    with run r2 obtain k o1 o2 where k: "off + 2 + ?n \<le> length inp" "f (off + 2, out @ [91]) = Some (True, k, o1)"
      "fmt_while f (off + 2 + ?n) (k, o1) = Some (True, off', o2)" "off' \<le> off + 2 + ?n" "out' = o2 @ [93]"
      by (auto simp: fmt_variable_def Let_def remaining_def fmt_end_def fmt_bind_def str_marks
          split: option.splits if_splits prod.splits)
    obtain x where x: "off + 2 \<le> k" "o1 = (out @ [91]) @ x" "written_as e x (part inp (off + 2) (k - (off + 2)))"
      by (rule fmt_writesD [OF assms(1) k(2)])
    obtain xs bss where xs: "k \<le> off'" "off + 2 + ?n \<le> off'" "o2 = o1 @ comma_texts xs" "list_all2 (written_as e) xs bss"
      "concat bss = part inp k (off' - k)"
      using fmt_while_writes [OF assms(1) k(3)] by blast
    have o: "off' = off + 2 + ?n" using k(4) xs(2) by simp
    let ?s = "part inp (off + 2) (k - (off + 2)) @ concat bss"
    have s: "?s = part inp (off + 2) ?n" using part_join [OF x(1) xs(1), of inp] xs(5) o by simp
    have "length ?s = ?n" using length_part [OF k(1)] s by simp
    with length_bytes [OF r2, of ?s] have "with_length ?s = part inp off (off' - off)"
      using part_append [of inp off 2 ?n] s o by simp
    with written_array [OF x(3) xs(4) assms(2), of r tag sz 0 al] assms(3)
    have "written_as ?t ([91] @ x @ comma_texts xs @ [93]) (part inp off (off' - off))" by simp
    with x xs k(5) o show ?thesis by auto
  qed
qed


lemma leaf_writes:
  "(\<And>bs. length bs = n \<Longrightarrow> written_as t (text_of bs) bs) \<Longrightarrow> fmt_writes inp t (fmt_leaf inp n text_of)"
  by (auto simp: fmt_writes_def fmt_leaf_def remaining_def length_part split: if_splits)

lemma prefixed_writes:
  assumes "\<And>s. written_as t (text_of (if back_up = 2 then with_length s else s)) (with_length s)" "back_up \<in> {0, 2}"
  shows "fmt_writes inp t (fmt_prefixed inp back_up text_of)"
  unfolding fmt_writes_def
proof (intro allI impI)
  fix off out off' out'
  let ?n = "read_length inp off" and ?s = "part inp (off + 2) (read_length inp off)"
  assume "fmt_prefixed inp back_up text_of (off, out) = Some (True, off', out')"
  then have r: "off + 2 \<le> length inp" "off + 2 + ?n \<le> length inp" "off' = off + 2 + ?n"
    "out' = out @ text_of (part inp (off + 2 - back_up) (?n + back_up))"
    by (auto simp: fmt_prefixed_def Let_def remaining_def split: if_splits)
  have l: "with_length ?s = part inp off (2 + ?n)"
    using length_bytes [OF r(1), of ?s] length_part [OF r(2)] part_append [of inp off 2 ?n] by simp
  have "part inp (off + 2 - back_up) (?n + back_up) = (if back_up = 2 then with_length ?s else ?s)"
    using assms(2) l by (auto simp: add.commute)
  with assms(1) [of ?s] l r show "off \<le> off' \<and> (\<exists>tx. out' = out @ tx \<and> written_as t tx (part inp off (off' - off)))"
    by (auto simp: add.commute)
qed

lemma written_literal:
  "literal_value (LString s) t = (bs, 0) \<Longrightarrow> \<not> is_method t \<Longrightarrow> written_as t (format_quoted 34 s) bs"
  "literal_value (LHex s) t = (bs, 0) \<Longrightarrow> \<not> is_method t \<Longrightarrow> written_as t (format_hex s) bs"
  using lexes_leaf(1) [of s] lexes_leaf(3) [of s]
    parses_literal [where ts = "[VString s]" and l = "LString s" and t = t and bs = bs]
    parses_literal [where ts = "[VHex s]" and l = "LHex s" and t = t and bs = bs]
  by (auto simp: written_as_def)

lemma array_writes:
  assumes "text_type b (TArray tag sz e n r al)" "text_type False e \<Longrightarrow> fmt_writes inp e (fmt_dtype inp e)"
  shows "fmt_writes inp (TArray tag sz e n r al) (fmt_dtype inp (TArray tag sz e n r al))"
proof -
  let ?t = "TArray tag sz e n r al"
  have m: "\<not> is_method ?t" by (simp add: is_method_def)
  consider (str) "tag = T_STRING" "al = ''string''" | (vstr) "tag = T_VARSTRING" "al = ''string''"
    | (blob) "tag = T_BLOB" "al = ''blob''" | (vblob) "tag = T_VARBLOB" "al = ''blob''"
    | (fixed) close_failed where "fmt_dtype inp ?t = fmt_fixed close_failed (fmt_dtype inp e) (unat n)" "text_type False e" "0 < n"
        "unat n < 2 ^ 31" "nrange_is_empty r \<or> num_bits (nr_min r) = ucast n \<and> num_bits (nr_max r) = ucast n"
    | (variable) "fmt_dtype inp ?t = fmt_variable inp (fmt_dtype inp e)" "text_type False e" "n = 0" "nrange_is_empty r"
    using assms(1) by (cases tag) (auto split: if_splits)
  then show ?thesis
  proof cases
    case str
    with m show ?thesis
      by (auto intro!: leaf_writes written_literal simp: literal_value_def string_value_def)
  next
    case vstr
    with m show ?thesis
      by (auto intro!: prefixed_writes written_literal simp: literal_value_def string_value_def)
  next
    case blob
    with m show ?thesis
      by (auto intro!: leaf_writes written_literal simp: literal_value_def hex_value_def)
  next
    case vblob
    with m show ?thesis
      by (auto intro!: prefixed_writes written_literal simp: literal_value_def hex_value_def)
  next
    case fixed
    with fixed_writes [OF assms(2) [OF fixed(2)] text_type_no_method] show ?thesis by simp
  next
    case variable
    with variable_writes [OF assms(2) [OF variable(2)] text_type_no_method] show ?thesis by simp
  qed
qed

definition joined :: "bool \<Rightarrow> bytes list \<Rightarrow> bytes" where
  "joined first xs = (case xs of [] \<Rightarrow> [] | x # ys \<Rightarrow> if first then x @ comma_texts ys else comma_texts xs)"

text \<open>The members of a struct or method, in the same way.\<close>

definition writes_members :: "bytes \<Rightarrow> dtype list \<Rightarrow> bool \<Rightarrow> formatter \<Rightarrow> bool" where
  "writes_members inp types first f \<longleftrightarrow>
     (\<forall>off out off' out'. f (off, out) = Some (True, off', out') \<longrightarrow>
        off \<le> off' \<and> (\<exists>qs. out' = out @ joined first (map fst qs)
          \<and> list_all2 (\<lambda>t q. written_as t (fst q) (snd q)) types qs \<and> concat (map snd qs) = part inp off (off' - off)))"

lemma members_Nil: "writes_members inp [] first (\<lambda>st. Some (True, st))"
  by (auto simp: writes_members_def joined_def part_def)

lemma members_Cons:
  assumes "fmt_writes inp t f" "writes_members inp types False g"
  shows "writes_members inp (t # types) first
    (\<lambda>(off, out). fmt_bind (f (off, if first then out else out @ str '', '')) g (\<lambda>st. Some (False, st)))"
  unfolding writes_members_def
proof (intro allI impI)
  fix off out off' out'
  assume "(\<lambda>(off, out). fmt_bind (f (off, if first then out else out @ str '', '')) g (\<lambda>st. Some (False, st))) (off, out)
      = Some (True, off', out')"
  then obtain k o1 where k: "f (off, if first then out else out @ [44, 32]) = Some (True, k, o1)" "g (k, o1) = Some (True, off', out')"
    by (auto simp: fmt_bind_def str_marks split: option.splits if_splits prod.splits)
  obtain x where x: "off \<le> k" "o1 = (if first then out else out @ [44, 32]) @ x" "written_as t x (part inp off (k - off))"
    by (rule fmt_writesD [OF assms(1) k(1)])
  obtain qs where qs: "k \<le> off'" "out' = o1 @ joined False (map fst qs)" "list_all2 (\<lambda>t q. written_as t (fst q) (snd q)) types qs"
    "concat (map snd qs) = part inp k (off' - k)"
    using assms(2) k(2) unfolding writes_members_def by blast
  have "joined False (map fst qs) = comma_texts (map fst qs)" by (cases qs) (simp_all add: joined_def)
  with x qs part_join [OF x(1) qs(1), of inp]
  show "off \<le> off' \<and> (\<exists>qs. out' = out @ joined first (map fst qs)
      \<and> list_all2 (\<lambda>t q. written_as t (fst q) (snd q)) (t # types) qs \<and> concat (map snd qs) = part inp off (off' - off))"
    by (intro conjI exI [of _ "(x, part inp off (k - off)) # qs"]) (auto simp: joined_def)
qed

lemma written_bracket:
  assumes "bracketed a b" "list_all2 (\<lambda>t q. written_as t (fst q) (snd q)) (t # types) qs"
    "\<And>ts bs ps. list_all2 (\<lambda>t q. parses t (fst q) (snd q)) types ps \<Longrightarrow> parses t ts bs \<Longrightarrow>
       parses s (VSymbol a # ts @ comma_tokens (map fst ps) @ [VSymbol b]) (bs @ concat (map snd ps))"
  shows "written_as s ([a] @ joined True (map fst qs) @ [b]) (concat (map snd qs))"
proof -
  obtain ps where ps: "list_all2 lexes (map fst qs) (map fst ps)" "list_all2 (\<lambda>t p. parses t (fst p) (snd p)) (t # types) ps"
    "map snd ps = map snd qs" using written_members [OF assms(2)] by blast
  obtain p ps' where p: "ps = p # ps'" using ps(2) by (cases ps) auto
  obtain q qs' where q: "qs = q # qs'" using ps(3) p by (cases qs) auto
  from ps p q have "parses t (fst p) (snd p)" "list_all2 (\<lambda>t p. parses t (fst p) (snd p)) types ps'"
    "lexes (fst q) (fst p)" "list_all2 lexes (map fst qs') (map fst ps')" "map snd ps' = map snd qs'" "snd p = snd q" by auto
  with assms(3) [of ps' "fst p" "snd p"] lexes_bracketed [OF assms(1), of "fst q" "fst p" "map fst qs'" "map fst ps'"] q
  show ?thesis unfolding written_as_def joined_def by auto
qed

lemma struct_writes:
  assumes "bracketed a b" "writes_members inp (t # types) True f"
    "\<And>ts bs ps. list_all2 (\<lambda>t q. parses t (fst q) (snd q)) types ps \<Longrightarrow> parses t ts bs \<Longrightarrow>
       parses s (VSymbol a # ts @ comma_tokens (map fst ps) @ [VSymbol b]) (bs @ concat (map snd ps))"
  shows "fmt_writes inp s (\<lambda>(off, out). fmt_bind (f (off, out @ [a])) (fmt_end True [b]) (fmt_end False [b]))"
  unfolding fmt_writes_def
proof (intro allI impI)
  fix off out off' out'
  assume "(\<lambda>(off, out). fmt_bind (f (off, out @ [a])) (fmt_end True [b]) (fmt_end False [b])) (off, out) = Some (True, off', out')"
  then obtain o1 where k: "f (off, out @ [a]) = Some (True, off', o1)" "out' = o1 @ [b]"
    by (auto simp: fmt_bind_def fmt_end_def split: option.splits if_splits prod.splits)
  then obtain qs where qs: "off \<le> off'" "o1 = (out @ [a]) @ joined True (map fst qs)"
    "list_all2 (\<lambda>t q. written_as t (fst q) (snd q)) (t # types) qs" "concat (map snd qs) = part inp off (off' - off)"
    using assms(2) unfolding writes_members_def by blast
  from written_bracket [OF assms(1) qs(3) assms(3)] qs k(2)
  show "off \<le> off' \<and> (\<exists>tx. out' = out @ tx \<and> written_as s tx (part inp off (off' - off)))" by auto
qed


lemma fmt_members_simps:
  "fmt_fields inp first (f # fs) = (\<lambda>(off, out). fmt_bind (fmt_dtype inp (field_type f) (off, if first then out else out @ str '', ''))
      (fmt_fields inp False fs) (\<lambda>st. Some (False, st)))"
  "fmt_params inp first (p # ps) = (\<lambda>(off, out). fmt_bind (fmt_dtype inp (param_type p) (off, if first then out else out @ str '', ''))
      (fmt_params inp False ps) (\<lambda>st. Some (False, st)))"
  by (cases f, simp) (cases p, simp)

lemma fields_writes:
  "(\<And>f b. f \<in> set fs \<Longrightarrow> text_type b (field_type f) \<Longrightarrow> fmt_writes inp (field_type f) (fmt_dtype inp (field_type f))) \<Longrightarrow>
    text_fields fs \<Longrightarrow> writes_members inp (map field_type fs) first (fmt_fields inp first fs)"
proof (induction fs arbitrary: first)
  case Nil
  then show ?case by (simp add: members_Nil)
next
  case (Cons f fs)
  from Cons.prems(2) have "text_type True (field_type f)" "text_fields fs" by (cases f; simp)+
  with Cons.IH [OF Cons.prems(1)] Cons.prems(1) [of f] show ?case
    by (simp add: fmt_members_simps members_Cons del: fmt_fields.simps)
qed

lemma params_writes:
  "(\<And>p b. p \<in> set ps \<Longrightarrow> text_type b (param_type p) \<Longrightarrow> fmt_writes inp (param_type p) (fmt_dtype inp (param_type p))) \<Longrightarrow>
    text_params ps \<Longrightarrow> writes_members inp (map param_type ps) first (fmt_params inp first ps)"
proof (induction ps arbitrary: first)
  case Nil
  then show ?case by (simp add: members_Nil)
next
  case (Cons p ps)
  from Cons.prems(2) have "text_type False (param_type p)" "text_params ps" by (cases p; simp)+
  with Cons.IH [OF Cons.prems(1)] Cons.prems(1) [of p] show ?case
    by (simp add: fmt_members_simps members_Cons del: fmt_params.simps)
qed

lemma type_writes: "text_type b t \<Longrightarrow> fmt_writes inp t (fmt_dtype inp t)"
proof (induction t arbitrary: b rule: measure_induct_rule [where f = size])
  case (less t)
  show ?case
  proof (cases t)
    case TInvalid
    with less.prems show ?thesis by simp
  next
    case (TNumeric nt)
    with less.prems obtain n where "numeric_size (nt_type nt) = Some n"
      by (cases "nt_type nt") (auto simp: text_tags_def)
    with TNumeric less.prems show ?thesis by (auto intro!: leaf_writes number_written)
  next
    case (TArray tag sz e n r al)
    with less.IH [of e] less.prems show ?thesis by (auto intro: array_writes simp del: fmt_dtype.simps)
  next
    case (TStruct sz fs c sn sc)
    with less.prems obtain f fs' where fs: "fs = f # fs'" "text_fields fs" by (cases fs) auto
    have "fmt_writes inp (field_type g) (fmt_dtype inp (field_type g))" if "g \<in> set fs" "text_type b (field_type g)" for g b
    proof -
      have "size g \<le> size_list size fs" using that(1) by (intro size_list_estimation' [of g]) auto
      moreover have "size (field_type g) < size g" by (cases g) simp
      ultimately show ?thesis using less.IH [of "field_type g" b] that(2) TStruct by simp
    qed
    from fields_writes [OF this fs(2), where first = True] fs(1)
    have "writes_members inp (field_type f # map field_type fs') True (fmt_fields inp True fs)" by simp
    from struct_writes [where a = 123 and b = 125, OF _ this, of "TStruct sz fs c sn sc"]
      parses_struct [of "map field_type fs'"] fs(1) TStruct
    show ?thesis by (simp add: bracketed_def str_marks)
  next
    case (TMethod sz ps c)
    with less.prems obtain p ps' where ps: "ps = p # ps'" "text_params ps" by (cases ps) auto
    have "fmt_writes inp (param_type g) (fmt_dtype inp (param_type g))" if "g \<in> set ps" "text_type b (param_type g)" for g b
    proof -
      have "size g \<le> size_list size ps" using that(1) by (intro size_list_estimation' [of g]) auto
      moreover have "size (param_type g) < size g" by (cases g) simp
      ultimately show ?thesis using less.IH [of "param_type g" b] that(2) TMethod by simp
    qed
    from params_writes [OF this ps(2), where first = True] ps(1)
    have "writes_members inp (param_type p # map param_type ps') True (fmt_params inp True ps)" by simp
    from struct_writes [where a = 40 and b = 41, OF _ this, of "TMethod sz ps c"]
      parses_method [of "map param_type ps'"] ps text_params_no_method [OF ps(2)] TMethod
    show ?thesis by (auto simp: bracketed_def str_marks list_all_iff)
  qed
qed


section \<open>The round trip\<close>

lemma grammar_reads:
  assumes "parses t ts bs"
  shows "grammar_value (3 * length ts + 3) (pst ts [(t, 0)] 0 0) = Inr (bs, pst [] [] 0 0)"
proof -
  have "any_value t (3 * length ts + 3) (pst (ts @ []) [(t, 0)] 0 0) = Inr (bs, pst [] [] 0 0)"
    by (rule parsesD(5) [OF assms]) simp
  moreover have "at_symbol 40 (pst ts [(t, 0)] 0 0) \<longleftrightarrow> is_method t"
    using parsesD(1,3) [OF assms] by (cases ts) (auto simp: at_symbol_def)
  ultimately show ?thesis
    using parsesD(1) [OF assms] by (cases "is_method t") (simp_all add: grammar_value_def any_value_def errors_if_def)
qed

lemma written_parses:
  assumes "written_as t tx bs"
  shows "parse_value t tx = Inr (Some bs)"
proof -
  obtain ts where ts: "lexes tx ts" "parses t ts bs" using assms by (auto simp: written_as_def)
  have "lex [] = Some ([], 0)" by (simp add: lex.simps)
  with ts(1) have "lex tx = Some (ts, 0)" unfolding lexes_def by (force simp: delim_def prepend_def)
  with grammar_reads [OF ts(2)] show ?thesis by (simp add: parse_value_def)
qed

text \<open>
  C22: A value written as text is read back as the same bytes, whenever the formatter goes over the packed
  bytes to their end: the parser turns the text into exactly these bytes, without an error. This holds for the
  types of \<open>text_type\<close>: integers and characters, strings and blobs, arrays whose packed form has a fixed size,
  arrays of any number of elements without a range, structs with at least one field and methods with at least
  one parameter, out of such members; methods stand alone or in a struct. It does not hold for floating-point
  numbers or arrays of a fixed number of strings; variable arrays with a range are not covered.
\<close>

theorem format_parse:
  assumes "text_type True t" "fmt_dtype packed t (0, []) = Some (True, length packed, tx)"
  shows "format_value t packed = Some tx \<and> parse_value t tx = Inr (Some packed)"
proof -
  from type_writes [OF assms(1), of packed] have "written_as t tx (part packed 0 (length packed))"
    using assms(2) unfolding fmt_writes_def by fastforce
  then have "parse_value t tx = Inr (Some packed)" by (intro written_parses) (simp add: part_def)
  with assms(2) show ?thesis by (simp add: format_value_def)
qed


theorem format_parse_witness:
  "parse_value (TMethod 0 [Param ''delta'' (TNumeric (numeric_type_new T_INT16)) [] False,
       Param ''who'' (TArray T_VARSTRING 0 (TNumeric (numeric_type_new T_CHAR)) 0 nrange_none ''string'') [] False] False)
     (str ''(-2, '' @ [34, 97, 92, 34, 34, 41]) = Inr (Some [0xFE, 0xFF, 2, 0, 97, 34])"
  using format_parse [of "TMethod 0 [Param ''delta'' (TNumeric (numeric_type_new T_INT16)) [] False,
       Param ''who'' (TArray T_VARSTRING 0 (TNumeric (numeric_type_new T_CHAR)) 0 nrange_none ''string'') [] False] False"
      "[0xFE, 0xFF, 2, 0, 97, 34]" "str ''(-2, '' @ [34, 97, 92, 34, 34, 41]"]
  by (simp add: numeric_type_new_def text_tags_def fmt_leaf_def remaining_def part_def number_text_def le_word_def
      int_text_def decimal_def digits.simps digit_char_def fmt_bind_def fmt_end_def fmt_prefixed_def read_length_def
      format_quoted_def quoted_char_def is_print_def str_def Let_def)

end
