(* ===== verification/Value_Returns.thy ===== *)
theory Value_Returns
  imports Value_Roundtrip
begin

text \<open>
  When \<open>parse_value\<close> returns, and values that are not read back: the fuel of the parser is always
  enough, a text without quotes and comments is always read to its end, an open quote never; and the
  values whose text stands for another value or for none.
\<close>

section \<open>The fuel is enough\<close>

text \<open>With enough fuel a parser does not run out of it, and leaves at most \<open>m\<close> tokens.\<close>

definition ends_within :: "nat \<Rightarrow> 'a presult \<Rightarrow> bool" where
  "ends_within m r \<longleftrightarrow> r \<noteq> Inl NoFuel \<and> (\<forall>x st. r = Inr (x, st) \<longrightarrow> length (ps_tokens st) \<le> m)"

lemma ends_bind:
  "ends_within m r \<Longrightarrow> (\<And>x st. length (ps_tokens st) \<le> m \<Longrightarrow> ends_within k (f x st)) \<Longrightarrow> ends_within k (pbind r f)"
  by (cases r) (auto simp: ends_within_def pbind_def)

lemma ends_Inr: "length (ps_tokens st) \<le> m \<Longrightarrow> ends_within m (Inr (x, st))"
  by (simp add: ends_within_def)

lemma ends_Inl: "e \<noteq> NoFuel \<Longrightarrow> ends_within m (Inl e)"
  by (simp add: ends_within_def)

lemma tokens_kept [simp]:
  "ps_tokens (parser_error st) = ps_tokens st" "ps_tokens (errors_if b st) = ps_tokens st"
  "ps_tokens (expect_depth st) = ps_tokens st" "ps_tokens (push_types ts st) = ps_tokens st"
  "ps_tokens (add_errors n st) = ps_tokens st" "ps_tokens (next_token st) = drop 1 (ps_tokens st)"
  by (simp_all add: parser_error_def errors_if_def expect_depth_def push_types_def add_errors_def next_token_def)

lemma ends_stack:
  "length (ps_tokens st) \<le> m \<Longrightarrow> ends_within m (top_type st)"
  "length (ps_tokens st) \<le> m \<Longrightarrow> ends_within m (pop_type st)"
  by (auto simp: top_type_def pop_type_def ends_within_def split: list.split)

lemma ends_symbol: "length (ps_tokens st) \<le> Suc m \<Longrightarrow> ends_within m (expect_symbol c st)"
  by (auto simp: expect_symbol_def ends_within_def split: list.split vtoken.split)

lemma ends_actions:
  assumes "length (ps_tokens st) \<le> m"
  shows "ends_within m (type_literal l st)" "ends_within m (expand_literal l n st)" "ends_within m (empty_array st)"
    "ends_within m (array_open st)" "ends_within m (array_next st)" "ends_within m (array_close v st)"
    "ends_within m (struct_begin st)" "ends_within m (struct_end st)" "ends_within m (method_begin st)" "ends_within m (method_end st)"
  unfolding type_literal_def expand_literal_def empty_array_def array_open_def array_next_def array_close_def
    struct_begin_def struct_end_def method_begin_def method_end_def Let_def
  using assms
  by (auto intro!: ends_bind [where m = m] ends_stack ends_Inr ends_Inl split: dtype.split prod.split)

lemma read_literal_shorter: "read_literal ts = Some (l, rest) \<Longrightarrow> length rest < length ts"
  by (induction ts rule: read_literal.induct) (auto split: if_splits)

lemma star_count_shorter: "star_count ts = Some (w, rest) \<Longrightarrow> length rest < length ts"
  by (auto simp: star_count_def split: list.splits vtoken.splits if_splits)

lemma at_symbol_tokens: "at_symbol c st \<Longrightarrow> 0 < length (ps_tokens st)"
  by (cases "ps_tokens st") (auto simp: at_symbol_def)

lemma ends_mono: "ends_within m r \<Longrightarrow> m \<le> k \<Longrightarrow> ends_within k r"
  by (auto simp: ends_within_def)

lemma ends_next: "length (ps_tokens st) \<le> m \<Longrightarrow> at_symbol c st \<Longrightarrow> Suc (length (ps_tokens (next_token st))) \<le> m"
  using at_symbol_tokens [of c st] by simp

lemma ends_type:
  assumes "\<And>st. length (ps_tokens st) \<le> m \<Longrightarrow> ends_within m (element_values n st)"
    "\<And>st. length (ps_tokens st) \<le> m \<Longrightarrow> ends_within m (field_values n st)" "length (ps_tokens st) \<le> Suc m"
  shows "ends_within m (type_value (Suc n) st)"
proof -
  let ?st = "next_token st"
  have len: "length (ps_tokens ?st) \<le> m" using assms(3) by simp
  have close: "ends_within m (pbind (expect_symbol c st') f)"
    if "length (ps_tokens st') \<le> m" "\<And>x st'. length (ps_tokens st') \<le> m \<Longrightarrow> ends_within m (f x st')"
    for c st' and f :: "unit \<Rightarrow> pstate \<Rightarrow> bytes presult"
    using that by (intro ends_bind [OF ends_symbol]) auto
  have arr: "ends_within m (pbind (array_open ?st) (\<lambda>_ st. pbind (element_values n st) (\<lambda>v st.
      pbind (expect_symbol 93 st) (\<lambda>_ st. array_close v st))))"
    by (intro ends_bind [OF ends_actions(4) [OF len]] ends_bind [OF assms(1)] close ends_actions)
  have str: "ends_within m (pbind (struct_begin ?st) (\<lambda>_ st. pbind (field_values n st) (\<lambda>v st.
      pbind (expect_symbol 125 st) (\<lambda>_ st. pbind (struct_end st) (\<lambda>_ st. Inr (v, st))))))"
    by (intro ends_bind [OF ends_actions(7) [OF len]] ends_bind [OF assms(2)] close ends_bind [OF ends_actions(8)] ends_Inr)
  have "length rest \<le> m" if "read_literal (ps_tokens st) = Some (l, rest)" for l rest
    using read_literal_shorter [OF that] assms(3) by simp
  then have lit: "ends_within m (case read_literal (ps_tokens st) of None \<Rightarrow> Inl SyntaxError
      | Some (l, rest) \<Rightarrow> type_literal l (st\<lparr>ps_tokens := rest\<rparr>))"
    by (auto intro!: ends_actions ends_Inl split: option.split)
  show ?thesis
    using arr str lit ends_actions(3) [of "next_token ?st" m] len by (simp add: Let_def)
qed

lemma ends_elements:
  assumes "ends_within m (array_expansion n st)" "\<And>st. Suc (length (ps_tokens st)) \<le> m \<Longrightarrow> ends_within m (element_values n st)"
  shows "ends_within m (element_values (Suc n) st)"
proof -
  have "ends_within m (pbind (array_next (next_token st)) (\<lambda>_ st. pbind (element_values n st) (\<lambda>w st. Inr (v @ w, st))))"
    if "length (ps_tokens st) \<le> m" "at_symbol 44 st" for st v
  proof -
    note s = ends_next [OF that]
    have "ends_within (m - 1) (array_next (next_token st))" by (rule ends_actions(5)) (use s in linarith)
    then show ?thesis using s by (intro ends_bind [OF _ ends_bind [OF assms(2)]] ends_Inr) auto
  qed
  with assms(1) show ?thesis by (auto intro!: ends_bind [where m = m] ends_Inr)
qed

lemma ends_expansion:
  assumes "ends_within m (type_value n st)" "length (ps_tokens st) \<le> Suc m"
  shows "ends_within m (array_expansion (Suc n) st)"
proof (cases "Option.bind (read_literal (ps_tokens st)) (\<lambda>(l, rest). map_option (\<lambda>c. (l, c)) (star_count rest))")
  case None
  have "ends_within m (pbind (type_value n st) (\<lambda>v st. Inr (v, st\<lparr>current_depth := current_depth st + 1\<rparr>)))"
    by (rule ends_bind [OF assms(1) ends_Inr]) simp
  with None show ?thesis by simp
next
  case (Some p)
  obtain l c rest where p: "p = (l, c, rest)" by (cases p)
  with Some have "length rest \<le> m"
    using assms(2) by (auto simp: bind_eq_Some_conv dest!: read_literal_shorter star_count_shorter)
  then show ?thesis unfolding array_expansion.simps Some p by (cases l) (auto intro!: ends_actions ends_Inl)
qed

lemma ends_members:
  assumes "ends_within m (type_value n st)" "ends_within m (method_value n st)"
    "\<And>st. Suc (length (ps_tokens st)) \<le> m \<Longrightarrow> ends_within m (field_values n st)"
    "\<And>st. Suc (length (ps_tokens st)) \<le> m \<Longrightarrow> ends_within m (parameter_values n st)"
  shows "ends_within m (field_values (Suc n) st)" "ends_within m (parameter_values (Suc n) st)"
proof -
  have "ends_within m (if at_symbol 40 st then method_value n st else type_value n st)" using assms(1,2) by simp
  moreover have "ends_within m (pbind (field_values n (next_token st)) (\<lambda>w st. Inr (v @ w, st)))"
    if "length (ps_tokens st) \<le> m" "at_symbol 44 st" for st v
    by (rule ends_bind [OF assms(3) [OF ends_next [OF that]] ends_Inr])
  ultimately show "ends_within m (field_values (Suc n) st)"
    unfolding field_values.simps by (intro ends_bind) (auto intro!: ends_Inr)
  have "ends_within m (pbind (parameter_values n (next_token st)) (\<lambda>w st. Inr (v @ w, st)))"
    if "length (ps_tokens st) \<le> m" "at_symbol 44 st" for st v
    by (rule ends_bind [OF assms(4) [OF ends_next [OF that]] ends_Inr])
  with assms(1) show "ends_within m (parameter_values (Suc n) st)"
    unfolding parameter_values.simps by (intro ends_bind) (auto intro!: ends_Inr)
qed

lemma ends_method:
  assumes "\<And>st. length (ps_tokens st) \<le> m \<Longrightarrow> ends_within m (parameter_values n st)" "length (ps_tokens st) \<le> Suc m"
  shows "ends_within m (method_value (Suc n) st)"
  unfolding method_value.simps
  by (intro ends_bind [OF ends_symbol [OF assms(2)]] ends_bind [OF ends_actions(9)] ends_bind [OF assms(1)]
      ends_bind [OF ends_symbol [OF le_SucI]] ends_bind [OF ends_actions(10)] ends_Inr)

lemma grammar_ends:
  "3 * length (ps_tokens st) + 1 \<le> n \<Longrightarrow> ends_within (length (ps_tokens st) - 1) (type_value n st)"
  "3 * length (ps_tokens st) + 3 \<le> n \<Longrightarrow> ends_within (length (ps_tokens st) - 1) (element_values n st)"
  "3 * length (ps_tokens st) + 2 \<le> n \<Longrightarrow> ends_within (length (ps_tokens st) - 1) (array_expansion n st)"
  "3 * length (ps_tokens st) + 3 \<le> n \<Longrightarrow> ends_within (length (ps_tokens st) - 1) (field_values n st)"
  "3 * length (ps_tokens st) + 3 \<le> n \<Longrightarrow> ends_within (length (ps_tokens st) - 1) (parameter_values n st)"
  "3 * length (ps_tokens st) + 1 \<le> n \<Longrightarrow> ends_within (length (ps_tokens st) - 1) (method_value n st)"
proof (induction n arbitrary: st)
  case (Suc n)
  have shorter: "ends_within m (element_values n st')" "ends_within m (field_values n st')" "ends_within m (parameter_values n st')"
    if "length (ps_tokens st') \<le> m" "3 * length (ps_tokens st') + 3 \<le> n" for st' m
    using Suc.IH(2,4,5) [of st'] that by (auto intro: ends_mono)
  {
    case 1
    show ?case
    proof (cases "ps_tokens st")
      case Nil
      then show ?thesis by (simp add: at_symbol_def ends_Inl)
    next
      case (Cons t ts)
      with 1 show ?thesis by (intro ends_type shorter) auto
    qed
  next
    case 2
    show ?case
      by (rule ends_elements [OF Suc.IH(3) shorter(1)]) (use 2 in linarith)+
  next
    case 3
    show ?case by (rule ends_expansion [OF Suc.IH(1)]) (use 3 in linarith)+
  next
    case 4
    show ?case by (rule ends_members(1) [OF Suc.IH(1) Suc.IH(6) shorter(2,3)]) (use 4 in linarith)+
  next
    case 5
    show ?case by (rule ends_members(2) [OF Suc.IH(1) Suc.IH(6) shorter(2,3)]) (use 5 in linarith)+
  next
    case 6
    show ?case
    proof (cases "ps_tokens st")
      case Nil
      then show ?thesis by (simp add: expect_symbol_def ends_Inl)
    next
      case (Cons t ts)
      with 6 show ?thesis by (intro ends_method shorter) auto
    qed
  }
qed (simp_all)

lemma parser_ends: "grammar_value (3 * length (ps_tokens st) + 3) st \<noteq> Inl NoFuel"
proof -
  let ?n = "3 * length (ps_tokens st) + 3"
  have "ends_within (length (ps_tokens st)) (if at_symbol 40 st then method_value ?n st else type_value ?n st)"
    using grammar_ends(1,6) [of st ?n] by (auto intro: ends_mono)
  then have "ends_within (length (ps_tokens st)) (grammar_value ?n st)"
    unfolding grammar_value_def by (auto intro!: ends_bind ends_Inr ends_Inl)
  then show ?thesis by (simp add: ends_within_def)
qed


section \<open>The lexer\<close>

lemma scan_quoted_shorter: "scan_quoted_string q s = Some (x, e, rest) \<Longrightarrow> length rest < length s"
proof (induction "length s" arbitrary: s x e rest rule: less_induct)
  case less
  obtain c cs where s: "s = c # cs" using less.prems by (cases s) auto
  have step: "length rest < length s"
    if "scan_quoted_string q r = Some (y, e', rest)" "length r \<le> length cs" for y e' r
  proof -
    have "length r < length s" using that(2) s by simp
    from less.hyps [OF this that(1)] that(2) s show ?thesis by simp
  qed
  consider "c = q \<or> c = 10" | "c = 92" "c \<noteq> q" | "c \<noteq> q" "c \<noteq> 10" "c \<noteq> 92" by blast
  then show ?case
  proof cases
    case 1
    with less.prems s show ?thesis by (auto split: if_splits)
  next
    case 2
    then obtain a es where cs: "cs = a # es" using less.prems s by (cases cs) auto
    obtain y r where r: "scan_escape a es = (y, r)" by (cases "scan_escape a es")
    with less.prems 2 s cs obtain z e' where "scan_quoted_string q r = Some (z, e', rest)" by auto
    with step scan_escape_shorter [OF r] cs show ?thesis by simp
  next
    case 3
    with less.prems s obtain z e' where "scan_quoted_string q cs = Some (z, e', rest)" by auto
    with step show ?thesis by simp
  qed
qed

lemma scan_hex_suffix: "scan_hex_string acc pending s = (x, e, rest) \<Longrightarrow> length rest \<le> length s \<and> set rest \<subseteq> set s"
proof (induction acc pending s arbitrary: x e rest rule: scan_hex_string.induct)
  case (2 acc pending c cs)
  then show ?case by (fastforce split: if_splits option.splits)
qed simp

lemma eat_comment_shorter: "eat_c_comment c s = Some rest \<Longrightarrow> length rest < length s"
  by (induction c s rule: eat_c_comment.induct) (auto split: if_splits)

lemma real_length_pos: "real_length s = Some n \<Longrightarrow> 0 < n"
  by (auto simp: real_length_def Let_def split: if_splits)

lemma lex_rule_shorter:
  assumes "lex_rule s = Some (ts, e, rest)" "s \<noteq> []"
  shows "length rest < length s"
proof -
  obtain c cs where s: "s = c # cs" using assms(2) by (cases s) auto
  have "length (dropWhile P xs) \<le> length xs" for P and xs :: bytes by (rule length_dropWhile_le)
  with assms show ?thesis
    by (auto simp: lex_rule_def s Let_def digits_of_def le_imp_less_Suc
        dest!: scan_quoted_shorter scan_hex_suffix eat_comment_shorter real_length_pos
        split: if_splits prod.splits)
qed


lemma lex_rule_plain:
  assumes "set s \<inter> {34, 39, 47} = {}"
  obtains ts e rest where "lex_rule s = Some (ts, e, rest)" "set rest \<subseteq> set s"
proof (cases s)
  case Nil
  then show ?thesis by (intro that) (simp_all add: lex_rule_def)
next
  case (Cons c cs)
  with assms have c: "c \<noteq> 34" "c \<noteq> 39" "c \<noteq> 47" by auto
  obtain x e r where hex: "scan_hex_string [] None cs = (x, e, r)" by (cases "scan_hex_string [] None cs")
  note r = scan_hex_suffix [OF hex]
  have "\<exists>ts e rest. lex_rule (c # cs) = Some (ts, e, rest) \<and> set rest \<subseteq> set (c # cs)"
    using c hex r by (auto simp: lex_rule_def Let_def split: prod.split dest!: in_set_dropD)
  with Cons that show ?thesis by blast
qed

lemma lex_plain: "set s \<inter> {34, 39, 47} = {} \<Longrightarrow> lex s \<noteq> None"
proof (induction s rule: measure_induct_rule [where f = length])
  case (less s)
  show ?case
  proof (cases "s = []")
    case False
    obtain ts e rest where l: "lex_rule s = Some (ts, e, rest)" "set rest \<subseteq> set s" by (rule lex_rule_plain [OF less.prems])
    have "lex rest \<noteq> None"
      using less.prems l(2) by (intro less.IH lex_rule_shorter [OF l(1) False]) auto
    with l(1) False lex_rule_shorter [OF l(1) False] show ?thesis by (subst lex.simps) simp
  qed (simp add: lex.simps)
qed

section \<open>Returning\<close>

text \<open>
  C25: Reading a value ends for every text without quotation marks and slashes, whatever its type: with a
  value, with an error, or at the top of an empty stack of types.
\<close>

theorem parse_value_ends:
  assumes "set tx \<inter> {34, 39, 47} = {}"
  shows "(\<exists>r. parse_value t tx = Inr r) \<or> parse_value t tx = Inl DanglingReference"
proof -
  obtain ts e where l: "lex tx = Some (ts, e)" using lex_plain [OF assms] by auto
  have "grammar_value (3 * length ts + 3) (pst ts [(t, 0)] 0 e) \<noteq> Inl NoFuel"
    using parser_ends [of "pst ts [(t, 0)] 0 e"] by simp
  with l show ?thesis by (auto simp: parse_value_def split: sum.split parse_stop.split)
qed

theorem parse_value_ends_witness:
  "(\<exists>r. parse_value TInvalid (str ''[1, {2'') = Inr r) \<or> parse_value TInvalid (str ''[1, {2'') = Inl DanglingReference"
  by (rule parse_value_ends) (simp add: str_def)

text \<open>Blanks, opening brackets and commas in front of a value.\<close>

lemma lex_opening:
  assumes "c \<in> {32, 91, 123, 40, 44}" "lex s = None"
  shows "lex (c # s) = None"
proof -
  have n: "real_length (c # s) = None" if "c \<in> {32, 91, 123, 40, 44}" for c
    using that by (auto simp: real_length_def digits_of_def is_digit_def)
  have "lex_rule (c # s) = Some (if c = 32 then [] else [VSymbol c], 0, s)"
    using assms(1) n [OF assms(1)] by (elim insertE) (simp_all add: lex_rule_def is_digit_def is_word_start_def)
  with assms(2) show ?thesis by (subst lex.simps) simp
qed



text \<open>
  A number in brackets for a type that is no array is reported as an error first; then the number takes
  the type off the stack, and the closing bracket looks at the top of the empty stack.
\<close>

theorem bracketed_number_undefined: "parse_value (TNumeric nt) (str ''[1]'') = Inl DanglingReference"
proof -
  have "lex (str ''[1]'') = Some ([VSymbol 91, VUnsigned 1, VSymbol 93], 0)"
    by (simp add: lex.simps lex_rule_def str_def real_length_def digits_of_def is_digit_def is_word_start_def hex_digit_def Let_def)
  moreover have "grammar_value (Suc (Suc (Suc (Suc n)))) (pst [VSymbol 91, VUnsigned 1, VSymbol 93] [(TNumeric nt, 0)] 0 0)
      = Inl EmptyStack" for n
    by (simp add: grammar_value_def at_symbol_def next_token_def array_open_def expect_depth_ok
        top_type_def parser_error_def star_count_def type_literal_def pop_type_def literal_value_def add_errors_def
        expect_symbol_def array_close_def split_def)
  from this [of 8] have "grammar_value 12 (pst [VSymbol 91, VUnsigned 1, VSymbol 93] [(TNumeric nt, 0)] 0 0) = Inl EmptyStack"
    by simp
  ultimately show ?thesis by (simp add: parse_value_def)
qed

section \<open>Values that are not read back\<close>

abbreviation float64 :: dtype where
  "float64 \<equiv> TNumeric (numeric_type_new T_FLOAT64)"

lemmas lex_eval = lex.simps lex_rule_def str_def real_length_def digits_of_def is_digit_def is_word_start_def hex_digit_def
  exponent_length_def Let_def

lemmas format_eval = format_value_def numeric_type_new_def fmt_leaf_def remaining_def part_def number_text_def double_text_def
  le_word_le_bytes ratio_text_def Let_def digits.simps round_half_even_def strip_zeros_def digit_chars_def fraction_text_def
  digit_char_def str_def decimal_def

lemma exponent_unread: "parse_value t (str ''1e+06'') = Inr None"
proof -
  have "lex (str ''1e+06'') = Some ([VUnsigned 1, VWord [101], VSymbol 43, VUnsigned 6], 0)"
    by (simp add: lex_eval)
  moreover have "grammar_value (Suc n) (pst [VUnsigned 1, VWord [101], VSymbol 43, VUnsigned 6] [(t, 0)] 0 0) = Inl SyntaxError"
    for n
    by (simp add: grammar_value_def at_symbol_def type_literal_def expect_depth_ok pop_type_def
        add_errors_def split_def)
  from this [of 14] have "grammar_value 15 (pst [VUnsigned 1, VWord [101], VSymbol 43, VUnsigned 6] [(t, 0)] 0 0) = Inl SyntaxError"
    by simp
  ultimately show "parse_value t (str ''1e+06'') = Inr None"
    by (simp add: parse_value_def)
qed

text \<open>
  Floating-point numbers are written with six digits: the double 16777217 is read back as 16777200, and
  of one million the text has no decimal point and is no number for the lexer, so that it is lost.
\<close>

theorem doubles_not_read_back:
  "format_value float64 (le_bytes 8 (0x4170000010000000 :: u64)) = Some (str ''1.67772e+07'')
   \<and> parse_value float64 (str ''1.67772e+07'') = Inr (Some (le_bytes 8 (0x416FFFFE00000000 :: u64)))
   \<and> format_value float64 (le_bytes 8 (0x412E848000000000 :: u64)) = Some (str ''1e+06'')
   \<and> parse_value float64 (str ''1e+06'') = Inr None"
proof (intro conjI)
  show "format_value float64 (le_bytes 8 (0x4170000010000000 :: u64)) = Some (str ''1.67772e+07'')"
    by (simp add: format_eval)
  show "format_value float64 (le_bytes 8 (0x412E848000000000 :: u64)) = Some (str ''1e+06'')"
    by (simp add: format_eval)
  have "lex (str ''1.67772e+07'') = Some ([VReal (atof (str ''1.67772e+07''))], 0)"
    by (simp add: lex_eval)
  moreover have "atof (str ''1.67772e+07'') = 0x416FFFFE00000000"
    by (simp add: str_def atof_def digits_of_def is_digit_def Let_def nat_of_digits_def double_of_ratio_def
        ieee_of_ratio_def ratio_exponent_def top_bit.simps round_half_even_def)
  moreover have "grammar_value (Suc n) (pst [VReal b] [(float64, 0)] 0 0) = Inr (le_bytes 8 b, pst [] [] 0 0)" for n b
    by (simp add: grammar_value_def at_symbol_def type_literal_def expect_depth_ok pop_type_def literal_value_def
        number_value_real_def numeric_type_new_def add_errors_def errors_if_def del: le_bytes.simps)
  from this [of 5] have "grammar_value 6 (pst [VReal b] [(float64, 0)] 0 0) = Inr (le_bytes 8 b, pst [] [] 0 0)" for b
    by simp
  ultimately show "parse_value float64 (str ''1.67772e+07'') = Inr (Some (le_bytes 8 (0x416FFFFE00000000 :: u64)))"
    by (simp add: parse_value_def del: le_bytes.simps)
  show "parse_value float64 (str ''1e+06'') = Inr None" by (rule exponent_unread)
qed

definition text_string :: dtype where
  "text_string = set_alias ''string'' (array_type (Some (TNumeric (numeric_type_new T_CHAR))) nrange_none)"

lemma text_string_shape:
  obtains r where "text_string = TArray T_VARSTRING 0 (TNumeric (numeric_type_new T_CHAR)) 0 r ''string''"
  by (simp add: text_string_def array_type_def numeric_type_new_def nrange_none_def nrange_is_empty_def has_fixed_size_def Let_def)

lemma text_string_written: "written_as text_string (format_quoted 34 s) (with_length s)"
proof -
  obtain r where eq: "text_string = TArray T_VARSTRING 0 (TNumeric (numeric_type_new T_CHAR)) 0 r ''string''"
    by (rule text_string_shape)
  show ?thesis unfolding eq
    by (intro written_literal(1)) (simp_all add: literal_value_def string_value_def is_method_def)
qed

lemma length_prefix:
  "length s < 65536 \<Longrightarrow> inp = pre @ with_length s @ post \<Longrightarrow> read_length inp (length pre) = length s"
  by (simp add: read_length_def part_def with_length_def le_nat_le_bytes unsigned_of_nat take_bit_nat_eq_self)

lemma fmt_text_string:
  assumes "length s < 65536" "inp = pre @ with_length s @ post"
  shows "fmt_dtype inp text_string (length pre, out)
    = Some (True, length pre + 2 + length s, out @ format_quoted 34 s)"
proof -
  have "length (with_length s) = 2 + length s" by (simp add: with_length_def)
  then have "remaining inp (length pre) 2" "remaining inp (length pre + 2) (length s)"
    using assms(2) by (simp_all add: remaining_def)
  moreover have "part inp (length pre + 2) (length s) = s"
    using assms(2) by (simp add: part_def with_length_def)
  moreover obtain r where eq: "text_string = TArray T_VARSTRING 0 (TNumeric (numeric_type_new T_CHAR)) 0 r ''string''"
    by (rule text_string_shape)
  ultimately show ?thesis unfolding eq
    using length_prefix [OF assms] by (simp add: fmt_prefixed_def Let_def)
qed

text \<open>
  C39: The type of arrays of exactly two strings: its packed form has a length in front, because its elements
  vary in size, but the parser leaves this length out because their number is fixed. The text of two strings is
  read back without an error, and without the length.
\<close>

theorem counted_strings_misread:
  assumes "length a + length b < 65532"
  shows "\<exists>tx. format_value (array_type (Some text_string) (nrange_uint 2 2)) (with_length (with_length a @ with_length b)) = Some tx
    \<and> parse_value (array_type (Some text_string) (nrange_uint 2 2)) tx = Inr (Some (with_length a @ with_length b))"
proof -
  let ?p = "with_length a @ with_length b" and ?r = "nrange_uint 2 2"
  let ?inp = "with_length ?p" and ?t = "TArray T_VARARRAY 0 text_string 2 ?r []"
  let ?tx = "[91] @ format_quoted 34 a @ comma_texts [format_quoted 34 b] @ [93]"
  obtain rs where eq: "text_string = TArray T_VARSTRING 0 (TNumeric (numeric_type_new T_CHAR)) 0 rs ''string''"
    by (rule text_string_shape)
  have t: "array_type (Some text_string) ?r = ?t" unfolding eq
    by (simp add: array_type_def nrange_uint_def nrange_is_empty_def has_fixed_size_def Let_def)
  have len: "length (with_length s) = 2 + length s" for s by (simp add: with_length_def)
  have small: "length a < 65536" "length b < 65536" "length ?p < 65536" using assms by (simp_all add: len)
  let ?pre = "le_bytes 2 (word_of_nat (length ?p) :: u16)"
  have inp: "?inp = ?pre @ with_length a @ with_length b" "?inp = (?pre @ with_length a) @ with_length b @ []"
    by (simp_all add: with_length_def)
  let ?f = "fmt_dtype ?inp text_string" and ?k = "4 + length a" and ?e = "6 + length a + length b"
  have f1: "?f (2, out) = Some (True, ?k, out @ format_quoted 34 a)" for out
    using fmt_text_string [OF small(1) inp(1), of out] by (simp add: numeral_eq_Suc)
  have f2: "?f (?k, out) = Some (True, ?e, out @ format_quoted 34 b)" for out
    using fmt_text_string [OF small(2) inp(2), of out] by (simp add: len numeral_eq_Suc)
  have plen: "length ?p = ?e - 2" "length ?inp = ?e" by (simp_all add: len)
  have rl: "read_length ?inp 0 = ?e - 2" using length_prefix [OF small(3), of ?inp "[]" "[]"] plen(1) by simp
  have stop: "fmt_while ?f ?e (?e, out) = Some (True, ?e, out)" for out by (subst fmt_while.simps) simp
  have w: "fmt_while ?f ?e (?k, out) = Some (True, ?e, out @ [44, 32] @ format_quoted 34 b)" for out
    by (subst fmt_while.simps) (simp add: f2 stop str_marks)
  have "format_value ?t ?inp = Some ?tx"
    using f1 [unfolded numeral_2_eq_2] w [unfolded add.assoc] rl plen(2) by (simp add: format_value_def fmt_variable_def remaining_def fmt_bind_def fmt_end_def str_marks Let_def)
  moreover have "parse_value ?t ?tx = Inr (Some ?p)"
  proof -
    have "\<not> is_method text_string" unfolding eq by (simp add: is_method_def)
    from written_array [OF text_string_written [of a] _ this, of "[format_quoted 34 b]" "[with_length b]" ?r T_VARARRAY 0 2 "[]"]
    have "written_as ?t ?tx ?p" using text_string_written [of b] by (simp add: nrange_uint_def)
    then show ?thesis by (rule written_parses)
  qed
  ultimately show ?thesis unfolding t by blast
qed

theorem counted_strings_misread_witness:
  "\<exists>tx. format_value (array_type (Some text_string) (nrange_uint 2 2)) (with_length (with_length [97] @ with_length [98])) = Some tx
    \<and> parse_value (array_type (Some text_string) (nrange_uint 2 2)) tx = Inr (Some (with_length [97] @ with_length [98]))"
  by (rule counted_strings_misread) simp

end
