(* ===== verification/YAML_Database.thy ===== *)
theory YAML_Database
  imports Value_Returns DB_Operation
begin

text \<open>
  \<open>database/YAMLDatabase.cpp\<close>: the storage backend that keeps every object in a YAML file of its own, with
  the text of its fields, and the next free number in \<open>info.yaml\<close>. A file is the document \<open>YAML::Load\<close>
  makes of it: what was written is read back as the same tree of strings. The dclass file is looked up by
  name here, which the record \<open>named_file\<close> adds.
\<close>

section \<open>State\<close>

record named_file = dc_file +
  class_by_name :: "string \<Rightarrow> dclass option"
  field_by_name :: "dclass \<Rightarrow> string \<Rightarrow> field option"

text \<open>A document; a key that is absent or null is \<open>None\<close>.\<close>

record ydoc =
  yd_class :: "string option"
  yd_fields :: "(string \<times> bytes) list option"

text \<open>
  \<open>y_writable\<close> says whether the file of an object can be opened for writing and removed,
  \<open>y_info_writable\<close> the same of \<open>info.yaml\<close>.
\<close>

record ydb =
  y_next_id :: doid
  y_free_ids :: "doid list"
  y_max_id :: doid
  y_files :: "doid \<rightharpoonup> ydoc"
  y_info :: "(doid \<times> doid list) option"
  y_writable :: "doid \<Rightarrow> bool"
  y_info_writable :: bool

definition yaml_open ::
    "doid \<Rightarrow> doid \<Rightarrow> (doid \<rightharpoonup> ydoc) \<Rightarrow> (doid \<times> doid list) option \<Rightarrow> (doid \<Rightarrow> bool) \<Rightarrow> bool \<Rightarrow> ydb" where
  "yaml_open min_id max_id files info writable info_writable =
     \<lparr>y_next_id = (case info of None \<Rightarrow> min_id | Some (nxt, _) \<Rightarrow> nxt),
      y_free_ids = (case info of None \<Rightarrow> [] | Some (_, free) \<Rightarrow> free), y_max_id = max_id,
      y_files = files, y_info = info, y_writable = writable, y_info_writable = info_writable\<rparr>"

section \<open>Files\<close>

definition yaml_load :: "named_file \<Rightarrow> doid \<Rightarrow> ydb \<Rightarrow> (dclass \<times> (string \<times> bytes) list) option" where
  "yaml_load nf d db =
     (case y_files db d of
        None \<Rightarrow> None
      | Some doc \<Rightarrow>
          (case (yd_class doc, yd_fields doc) of
             (Some dc_name, Some nodes) \<Rightarrow> map_option (\<lambda>cls. (cls, nodes)) (class_by_name nf dc_name)
           | _ \<Rightarrow> None))"

definition update_info :: "ydb \<Rightarrow> ydb" where
  "update_info db = (if y_info_writable db then db\<lparr>y_info := Some (y_next_id db, y_free_ids db)\<rparr> else db)"

definition get_next_id :: "ydb \<Rightarrow> doid \<times> ydb" where
  "get_next_id db =
     (if y_next_id db \<le> y_max_id db
      then (y_next_id db, update_info (db\<lparr>y_next_id := y_next_id db + 1\<rparr>))
      else
        case y_free_ids db of
          [] \<Rightarrow> (0, db)
        | d # _ \<Rightarrow> (d, update_info (db\<lparr>y_free_ids := removeAll d (y_free_ids db)\<rparr>)))"

definition read_yaml_field :: "field \<Rightarrow> bytes \<Rightarrow> bytes res" where
  "read_yaml_field f node =
     rbind (parse_value (field_type f) node) (\<lambda>v. Inr (case v of None \<Rightarrow> [] | Some data \<Rightarrow> data))"

text \<open>
  The loop over the fields of a document that several operations share; a field of the set \<open>skip\<close> is
  passed over, and one without a value is left out.
\<close>

fun read_yaml_fields :: "named_file \<Rightarrow> dclass \<Rightarrow> (field \<Rightarrow> bool) \<Rightarrow> (string \<times> bytes) list \<Rightarrow> field_values \<Rightarrow> field_values res" where
  "read_yaml_fields nf cls skip [] dbo = Inr dbo"
| "read_yaml_fields nf cls skip ((name, node) # nodes) dbo =
     (case field_by_name nf cls name of
        None \<Rightarrow> read_yaml_fields nf cls skip nodes dbo
      | Some f \<Rightarrow>
          if skip f then read_yaml_fields nf cls skip nodes dbo
          else rbind (read_yaml_field f node) (\<lambda>v.
            read_yaml_fields nf cls skip nodes (if v \<noteq> [] then fv_update f v dbo else dbo)))"

definition no_skip :: "field \<Rightarrow> bool" where
  "no_skip f = False"

fun yaml_texts :: "field_values \<Rightarrow> (string \<times> bytes) list res" where
  "yaml_texts [] = Inr []"
| "yaml_texts ((f, v) # kvs) =
     (case format_value (field_type f) v of
        None \<Rightarrow> Inl NoReturn
      | Some tx \<Rightarrow> rbind (yaml_texts kvs) (\<lambda>rest. Inr ((field_name f, tx) # rest)))"

definition write_yaml_object :: "doid \<Rightarrow> dclass \<Rightarrow> field_values \<Rightarrow> ydb \<Rightarrow> (bool \<times> ydb) res" where
  "write_yaml_object d cls dbo db =
     rbind (yaml_texts dbo) (\<lambda>texts.
       if y_writable db d
       then Inr (True, db\<lparr>y_files := (y_files db)(d \<mapsto> \<lparr>yd_class = Some (cls_name cls), yd_fields = Some texts\<rparr>)\<rparr>)
       else Inr (False, db))"

section \<open>Operations\<close>

definition yaml_create_object :: "named_file \<Rightarrow> u16 \<Rightarrow> field_values \<Rightarrow> ydb \<Rightarrow> (doid \<times> ydb) res" where
  "yaml_create_object nf dc_id dbo db =
     (case get_next_id db of
        (d, db) \<Rightarrow>
          if d = 0 then Inr (0, db)
          else
            case dcf_class nf dc_id of
              None \<Rightarrow> Inl DanglingReference
            | Some cls \<Rightarrow> rbind (write_yaml_object d cls dbo db) (\<lambda>(ok, db). Inr (if ok then d else 0, db)))"

definition yaml_delete_object :: "doid \<Rightarrow> ydb \<Rightarrow> ydb" where
  "yaml_delete_object d db =
     (if y_files db d \<noteq> None \<and> y_writable db d
      then update_info (db\<lparr>y_files := (y_files db)(d := None), y_free_ids := y_free_ids db @ [d]\<rparr>)
      else db)"

definition yaml_get_object :: "named_file \<Rightarrow> doid \<Rightarrow> ydb \<Rightarrow> (u16 \<times> field_values) option res" where
  "yaml_get_object nf d db =
     (case yaml_load nf d db of
        None \<Rightarrow> Inr None
      | Some (cls, nodes) \<Rightarrow>
          rbind (read_yaml_fields nf cls no_skip nodes []) (\<lambda>dbo. Inr (Some (ucast (cls_id cls), dbo))))"

definition yaml_get_class :: "named_file \<Rightarrow> doid \<Rightarrow> ydb \<Rightarrow> dclass option" where
  "yaml_get_class nf d db = map_option fst (yaml_load nf d db)"

text \<open>
  The operations that change fields read the object, change the values and write it again; the flag says
  whether they take place.
\<close>

definition yaml_modify :: "named_file \<Rightarrow> doid \<Rightarrow> (field \<Rightarrow> bool) \<Rightarrow> (field_values \<Rightarrow> field_values) \<Rightarrow> ydb \<Rightarrow> ydb res" where
  "yaml_modify nf d skip change db =
     (case yaml_load nf d db of
        None \<Rightarrow> Inr db
      | Some (cls, nodes) \<Rightarrow>
          rbind (read_yaml_fields nf cls skip nodes []) (\<lambda>dbo.
            rbind (write_yaml_object d cls (change dbo) db) (\<lambda>(_, db). Inr db)))"

definition fv_erase :: "field \<Rightarrow> field_values \<Rightarrow> field_values" where
  "fv_erase f kvs = filter (\<lambda>(g, _). field_id g \<noteq> field_id f) kvs"

definition yaml_del_field :: "named_file \<Rightarrow> doid \<Rightarrow> field \<Rightarrow> ydb \<Rightarrow> ydb res" where
  "yaml_del_field nf d f = yaml_modify nf d no_skip (fv_erase f)"

definition yaml_del_fields :: "named_file \<Rightarrow> doid \<Rightarrow> field list \<Rightarrow> ydb \<Rightarrow> ydb res" where
  "yaml_del_fields nf d fs = yaml_modify nf d no_skip (fold fv_erase fs)"

definition yaml_set_field :: "named_file \<Rightarrow> doid \<Rightarrow> field \<Rightarrow> bytes \<Rightarrow> ydb \<Rightarrow> ydb res" where
  "yaml_set_field nf d f v = yaml_modify nf d no_skip (fv_update f v)"

definition yaml_set_fields :: "named_file \<Rightarrow> doid \<Rightarrow> field_values \<Rightarrow> ydb \<Rightarrow> ydb res" where
  "yaml_set_fields nf d kvs =
     yaml_modify nf d (\<lambda>f. fv_lookup f kvs \<noteq> None) (fold (\<lambda>(f, v). fv_update f v) kvs)"

text \<open>The conditional operations also return a value: the current one, when they do not take place.\<close>

definition yaml_checked ::
    "named_file \<Rightarrow> doid \<Rightarrow> 'a \<Rightarrow> (field_values \<Rightarrow> 'a + field_values) \<Rightarrow> 'a \<Rightarrow> ydb \<Rightarrow> ((bool \<times> 'a) \<times> ydb) res" where
  "yaml_checked nf d absent change value db =
     (case yaml_load nf d db of
        None \<Rightarrow> Inr ((False, absent), db)
      | Some (cls, nodes) \<Rightarrow>
          rbind (read_yaml_fields nf cls no_skip nodes []) (\<lambda>dbo.
            case change dbo of
              Inl current \<Rightarrow> Inr ((False, current), db)
            | Inr dbo' \<Rightarrow> rbind (write_yaml_object d cls dbo' db) (\<lambda>(_, db). Inr ((True, value), db))))"

definition yaml_set_field_if_empty :: "named_file \<Rightarrow> doid \<Rightarrow> field \<Rightarrow> bytes \<Rightarrow> ydb \<Rightarrow> ((bool \<times> bytes) \<times> ydb) res" where
  "yaml_set_field_if_empty nf d f value =
     yaml_checked nf d [] (\<lambda>dbo. case fv_lookup f dbo of Some v \<Rightarrow> Inl v | None \<Rightarrow> Inr (fv_update f value dbo)) value"

definition yaml_set_field_if_equals ::
    "named_file \<Rightarrow> doid \<Rightarrow> field \<Rightarrow> bytes \<Rightarrow> bytes \<Rightarrow> ydb \<Rightarrow> ((bool \<times> bytes) \<times> ydb) res" where
  "yaml_set_field_if_equals nf d f equal value =
     yaml_checked nf d []
       (\<lambda>dbo. case fv_lookup f dbo of
                None \<Rightarrow> Inl []
              | Some v \<Rightarrow> if v \<noteq> equal then Inl v else Inr (fv_update f value dbo)) value"

text \<open>
  When a field differs, its entry is erased from the values that are returned, and the others get their
  current value.
\<close>

definition yaml_set_fields_if_equals ::
    "named_file \<Rightarrow> doid \<Rightarrow> field_values \<Rightarrow> field_values \<Rightarrow> ydb \<Rightarrow> ((bool \<times> field_values) \<times> ydb) res" where
  "yaml_set_fields_if_equals nf d equals values =
     yaml_checked nf d []
       (\<lambda>dbo.
          let differing = map fst (filter (\<lambda>(f, v). fv_lookup f dbo \<noteq> Some v) equals) in
          if differing \<noteq> []
          then Inl (map (\<lambda>(f, _). (f, case fv_lookup f dbo of None \<Rightarrow> [] | Some v \<Rightarrow> v)) (fold fv_erase differing values))
          else Inr (fold (\<lambda>(f, v). fv_update f v) values dbo)) values"

definition yaml_get_field :: "named_file \<Rightarrow> doid \<Rightarrow> field \<Rightarrow> ydb \<Rightarrow> bytes option res" where
  "yaml_get_field nf d f db =
     (case yaml_load nf d db of
        None \<Rightarrow> Inr None
      | Some (_, nodes) \<Rightarrow>
          (case map_of nodes (field_name f) of
             None \<Rightarrow> Inr None
           | Some node \<Rightarrow> rbind (read_yaml_field f node) (\<lambda>v. Inr (if v \<noteq> [] then Some v else None))))"

text \<open>For every wanted field the whole list of nodes is gone through.\<close>

fun read_named_nodes :: "field \<Rightarrow> (string \<times> bytes) list \<Rightarrow> field_values \<Rightarrow> field_values res" where
  "read_named_nodes f [] values = Inr values"
| "read_named_nodes f ((name, node) # nodes) values =
     (if name = field_name f
      then rbind (read_yaml_field f node) (\<lambda>v. read_named_nodes f nodes (if v \<noteq> [] then fv_update f v values else values))
      else read_named_nodes f nodes values)"

fun read_wanted :: "field list \<Rightarrow> (string \<times> bytes) list \<Rightarrow> field_values \<Rightarrow> field_values res" where
  "read_wanted [] nodes values = Inr values"
| "read_wanted (f # fs) nodes values = rbind (read_named_nodes f nodes values) (read_wanted fs nodes)"

definition yaml_get_fields :: "named_file \<Rightarrow> doid \<Rightarrow> field list \<Rightarrow> ydb \<Rightarrow> field_values option res" where
  "yaml_get_fields nf d fs db =
     (case yaml_load nf d db of
        None \<Rightarrow> Inr None
      | Some (_, nodes) \<Rightarrow> rbind (read_wanted fs nodes []) (\<lambda>values. Inr (Some values)))"

end
