(* ===== verification/YAML_Props.thy ===== *)
theory YAML_Props
  imports YAML_Database
begin

text \<open>
  What the YAML backend promises: on objects whose values have a text that is read back, its operations
  are those of a table of objects; a new object never takes the number of one that exists; and what
  becomes of a value whose text is not read back.
\<close>

section \<open>Objects that are read back\<close>

definition storable_field :: "named_file \<Rightarrow> dclass \<Rightarrow> field \<Rightarrow> bytes \<Rightarrow> bool" where
  "storable_field nf cls f v \<longleftrightarrow>
     v \<noteq> [] \<and> text_type True (field_type f) \<and> (\<exists>tx. fmt_dtype v (field_type f) (0, []) = Some (True, length v, tx))
     \<and> field_by_name nf cls (field_name f) = Some f"

definition storable :: "named_file \<Rightarrow> dclass \<Rightarrow> field_values \<Rightarrow> bool" where
  "storable nf cls kvs \<longleftrightarrow> fv_sorted kvs \<and> (\<forall>(f, v) \<in> set kvs. storable_field nf cls f v)"

text \<open>The class is found by its name and number, and its fields have different numbers.\<close>

definition class_known :: "named_file \<Rightarrow> dclass \<Rightarrow> bool" where
  "class_known nf cls \<longleftrightarrow>
     class_by_name nf (cls_name cls) = Some cls \<and> dcf_class nf (ucast (cls_id cls)) = Some cls
     \<and> (\<forall>f g. field_by_name nf cls (field_name f) = Some f \<longrightarrow> field_by_name nf cls (field_name g) = Some g \<longrightarrow>
          field_id f = field_id g \<longrightarrow> f = g)"

lemma storable_text:
  assumes "storable_field nf cls f v"
  obtains tx where "format_value (field_type f) v = Some tx" "read_yaml_field f tx = Inr v"
proof -
  from assms obtain tx where "text_type True (field_type f)" "fmt_dtype v (field_type f) (0, []) = Some (True, length v, tx)"
    by (auto simp: storable_field_def)
  then have "written_as (field_type f) tx (part v 0 (length v))"
    using type_writes [of True "field_type f" v] unfolding fmt_writes_def by fastforce
  then have "parse_value (field_type f) tx = Inr (Some v)" by (intro written_parses) (simp add: part_def)
  then have r: "read_yaml_field f tx = Inr v" by (simp add: read_yaml_field_def)
  have "format_value (field_type f) v = Some tx"
    using \<open>fmt_dtype v (field_type f) (0, []) = _\<close> by (simp add: format_value_def)
  from that [OF this r] show ?thesis .
qed

lemma storable_Cons: "storable nf cls ((f, v) # kvs) \<Longrightarrow> storable_field nf cls f v \<and> storable nf cls kvs"
  by (auto simp: storable_def fv_sorted_def)

lemma texts_of_storable: "storable nf cls kvs \<Longrightarrow> \<exists>texts. yaml_texts kvs = Inr texts"
proof (induction kvs)
  case (Cons kv kvs)
  obtain f v where kv: "kv = (f, v)" by (cases kv)
  obtain tx where "format_value (field_type f) v = Some tx"
    using storable_text storable_Cons [OF Cons.prems [unfolded kv]] by blast
  with Cons.IH storable_Cons [OF Cons.prems [unfolded kv]] kv show ?case by auto
qed simp

lemma fv_update_end: "\<forall>x \<in> set kvs. field_id (fst x) < field_id f \<Longrightarrow> fv_update f v kvs = kvs @ [(f, v)]"
  by (induction kvs) (auto simp: less_not_sym)

lemma read_texts_but:
  "storable nf cls kvs \<Longrightarrow> yaml_texts kvs = Inr texts \<Longrightarrow> fv_sorted (acc @ kvs) \<Longrightarrow>
    read_yaml_fields nf cls skip texts acc = Inr (acc @ filter (\<lambda>(f, _). \<not> skip f) kvs)"
proof (induction kvs arbitrary: texts acc)
  case (Cons kv kvs)
  obtain f v where kv: "kv = (f, v)" by (cases kv)
  note s = storable_Cons [OF Cons.prems(1) [unfolded kv]]
  obtain tx where tx: "format_value (field_type f) v = Some tx" "read_yaml_field f tx = Inr v"
    using storable_text s by blast
  obtain rest where rest: "yaml_texts kvs = Inr rest" "texts = (field_name f, tx) # rest"
    using Cons.prems(2) tx(1) kv by (auto simp: res_simps)
  have "fv_update f v acc = acc @ [(f, v)]"
    using Cons.prems(3) kv by (intro fv_update_end) (auto simp: fv_sorted_def sorted_wrt_append)
  moreover have "v \<noteq> []" "field_by_name nf cls (field_name f) = Some f" using s by (auto simp: storable_field_def)
  moreover have "fv_sorted ((acc @ [(f, v)]) @ kvs)" "fv_sorted (acc @ kvs)"
    using Cons.prems(3) kv by (auto simp: fv_sorted_def sorted_wrt_append)
  ultimately show ?case
    using Cons.IH [OF _ rest(1), of "acc @ [(f, v)]"] Cons.IH [OF _ rest(1), of acc] s tx(2) rest(2) kv by simp
qed simp

lemma read_texts:
  "storable nf cls kvs \<Longrightarrow> yaml_texts kvs = Inr texts \<Longrightarrow> read_yaml_fields nf cls no_skip texts [] = Inr kvs"
  using read_texts_but [of nf cls kvs texts "[]" no_skip] by (simp add: storable_def no_skip_def split_def)

text \<open>A field of the class, read from the texts of an object.\<close>

lemma same_field:
  assumes "class_known nf cls" "field_by_name nf cls (field_name g) = Some g" "field_by_name nf cls (field_name f) = Some f"
  shows "field_name g = field_name f \<longleftrightarrow> g = f" "field_id g = field_id f \<longleftrightarrow> g = f"
proof -
  show "field_name g = field_name f \<longleftrightarrow> g = f" using assms(2,3) by (metis option.inject)
  show "field_id g = field_id f \<longleftrightarrow> g = f" using assms unfolding class_known_def by blast
qed

lemma node_of_field:
  assumes "storable nf cls kvs" "yaml_texts kvs = Inr texts" "class_known nf cls" "field_by_name nf cls (field_name f) = Some f"
  shows "case map_of texts (field_name f) of
      None \<Rightarrow> fv_lookup f kvs = None
    | Some tx \<Rightarrow> \<exists>v. fv_lookup f kvs = Some v \<and> read_yaml_field f tx = Inr v \<and> v \<noteq> []"
  using assms(1,2)
proof (induction kvs arbitrary: texts)
  case (Cons kv kvs)
  obtain g v where kv: "kv = (g, v)" by (cases kv)
  note s = storable_Cons [OF Cons.prems(1) [unfolded kv]]
  obtain tx where tx: "format_value (field_type g) v = Some tx" "read_yaml_field g tx = Inr v"
    using storable_text s by blast
  obtain rest where rest: "yaml_texts kvs = Inr rest" "texts = (field_name g, tx) # rest"
    using Cons.prems(2) tx(1) kv by (auto simp: res_simps)
  have g: "field_by_name nf cls (field_name g) = Some g" "v \<noteq> []" using s by (auto simp: storable_field_def)
  note same = same_field [OF assms(3) g(1) assms(4)]
  show ?case
  proof (cases "g = f")
    case True
    then show ?thesis using rest(2) kv tx(2) g(2) by simp
  next
    case False
    then have "field_name f \<noteq> field_name g" "field_id g \<noteq> field_id f" using same by metis+
    then show ?thesis using Cons.IH [OF _ rest(1)] s unfolding rest(2) kv by (simp split: option.splits)
  qed
qed simp

lemma named_nodes_absent:
  "field_name f \<notin> fst ` set nodes \<Longrightarrow> read_named_nodes f nodes values = Inr values"
  by (induction nodes) auto

lemma names_of_texts: "yaml_texts kvs = Inr texts \<Longrightarrow> map fst texts = map (\<lambda>(f, _). field_name f) kvs"
  by (induction kvs arbitrary: texts) (auto simp: res_simps split: option.splits)

lemma named_nodes:
  assumes "storable nf cls kvs" "yaml_texts kvs = Inr texts" "class_known nf cls" "field_by_name nf cls (field_name f) = Some f"
  shows "read_named_nodes f texts values
    = Inr (case fv_lookup f kvs of None \<Rightarrow> values | Some v \<Rightarrow> fv_update f v values)"
  using assms(1,2)
proof (induction kvs arbitrary: texts)
  case (Cons kv kvs)
  obtain g v where kv: "kv = (g, v)" by (cases kv)
  note s = storable_Cons [OF Cons.prems(1) [unfolded kv]]
  obtain tx where tx: "format_value (field_type g) v = Some tx" "read_yaml_field g tx = Inr v"
    using storable_text s by blast
  obtain rest where rest: "yaml_texts kvs = Inr rest" "texts = (field_name g, tx) # rest"
    using Cons.prems(2) tx(1) kv by (auto simp: res_simps)
  have g: "field_by_name nf cls (field_name g) = Some g" "v \<noteq> []" using s by (auto simp: storable_field_def)
  note same = same_field [OF assms(3) g(1) assms(4)]
  show ?case
  proof (cases "g = f")
    case True
    have "field_name f \<notin> (\<lambda>(h, _). field_name h) ` set kvs"
    proof
      assume "field_name f \<in> (\<lambda>(h, _). field_name h) ` set kvs"
      then obtain h w where h: "(h, w) \<in> set kvs" "field_name h = field_name f" by auto
      from bspec [OF conjunct2 [OF conjunct2 [OF s, unfolded storable_def]] h(1)]
      have "field_by_name nf cls (field_name h) = Some h" by (simp add: storable_field_def)
      then have "h = f" using same_field(1) [OF assms(3) _ assms(4)] h(2) by blast
      moreover have "fv_sorted ((g, v) # kvs)" using Cons.prems(1) kv by (simp add: storable_def)
      then have "field_id g < field_id h" using h(1) by (auto simp: fv_sorted_def)
      ultimately show False using True by simp
    qed
    then have "field_name f \<notin> set (map fst rest)" unfolding names_of_texts [OF rest(1)] set_map .
    then show ?thesis using True rest(2) kv tx(2) g(2) by (simp add: named_nodes_absent)
  next
    case False
    then have "field_name f \<noteq> field_name g" "field_name g \<noteq> field_name f" "field_id g \<noteq> field_id f" using same by metis+
    then show ?thesis using Cons.IH [OF _ rest(1)] s rest(2) kv by simp
  qed
qed simp

text \<open>The files hold the objects of a table, and no others.\<close>

fun file_holds :: "named_file \<Rightarrow> ydoc option \<Rightarrow> (dclass \<times> field_values) option \<Rightarrow> bool" where
  "file_holds nf doc None \<longleftrightarrow> doc = None"
| "file_holds nf doc (Some (cls, kvs)) \<longleftrightarrow> class_known nf cls \<and> storable nf cls kvs
     \<and> (\<exists>texts. yaml_texts kvs = Inr texts \<and> doc = Some \<lparr>yd_class = Some (cls_name cls), yd_fields = Some texts\<rparr>)"

definition holds :: "named_file \<Rightarrow> ydb \<Rightarrow> (doid \<rightharpoonup> dclass \<times> field_values) \<Rightarrow> bool" where
  "holds nf db tab \<longleftrightarrow> (\<forall>d. file_holds nf (y_files db d) (tab d))"

lemma holds_at: "holds nf db tab \<Longrightarrow> file_holds nf (y_files db d) (tab d)"
  by (simp add: holds_def)

lemma holds_upd:
  "holds nf db tab \<Longrightarrow> file_holds nf doc e \<Longrightarrow> y_files db' = (y_files db)(d := doc) \<Longrightarrow> holds nf db' (tab(d := e))"
  by (simp add: holds_def)

lemma holds_Some:
  assumes "holds nf db tab" "tab d = Some (cls, kvs)"
  obtains texts where "class_known nf cls" "storable nf cls kvs" "yaml_texts kvs = Inr texts"
    "yaml_load nf d db = Some (cls, texts)" "read_yaml_fields nf cls no_skip texts [] = Inr kvs"
proof -
  from holds_at [OF assms(1), of d] assms(2) obtain texts where t: "class_known nf cls" "storable nf cls kvs"
    "yaml_texts kvs = Inr texts" "y_files db d = Some \<lparr>yd_class = Some (cls_name cls), yd_fields = Some texts\<rparr>"
    by auto
  have "yaml_load nf d db = Some (cls, texts)" using t(1,4) by (simp add: yaml_load_def class_known_def)
  moreover have "read_yaml_fields nf cls no_skip texts [] = Inr kvs"
    by (rule read_texts [OF t(2,3)])
  ultimately show ?thesis by (rule that [OF t(1-3)])
qed

lemma load_None: "holds nf db tab \<Longrightarrow> tab d = None \<Longrightarrow> yaml_load nf d db = None"
  using holds_at [of nf db tab d] by (simp add: yaml_load_def)

lemma write_holds:
  assumes "holds nf db tab" "class_known nf cls" "storable nf cls kvs" "y_writable db d"
  shows "\<exists>db'. write_yaml_object d cls kvs db = Inr (True, db') \<and> holds nf db' (tab(d \<mapsto> (cls, kvs)))"
proof -
  obtain texts where t: "yaml_texts kvs = Inr texts" using texts_of_storable [OF assms(3)] by blast
  let ?doc = "\<lparr>yd_class = Some (cls_name cls), yd_fields = Some texts\<rparr>"
  have "write_yaml_object d cls kvs db = Inr (True, db\<lparr>y_files := (y_files db)(d \<mapsto> ?doc)\<rparr>)"
    using t assms(4) by (simp add: write_yaml_object_def)
  moreover have "holds nf (db\<lparr>y_files := (y_files db)(d \<mapsto> ?doc)\<rparr>) (tab(d \<mapsto> (cls, kvs)))"
    using assms(2,3) t by (intro holds_upd [OF assms(1), where doc = "Some ?doc"]) simp_all
  ultimately show ?thesis by blast
qed

lemma modify_holds:
  assumes "holds nf db tab" "y_writable db d"
    "\<And>cls kvs. tab d = Some (cls, kvs) \<Longrightarrow> storable nf cls (change (filter (\<lambda>(f, _). \<not> skip f) kvs))"
  shows "\<exists>db'. yaml_modify nf d skip change db = Inr db'
    \<and> holds nf db' (tab(d := map_option (\<lambda>(cls, kvs). (cls, change (filter (\<lambda>(f, _). \<not> skip f) kvs))) (tab d)))"
proof (cases "tab d")
  case None
  then have "tab(d := map_option (\<lambda>(cls, kvs). (cls, change (filter (\<lambda>(f, _). \<not> skip f) kvs))) (tab d)) = tab" by auto
  with assms(1) load_None [OF assms(1) None] show ?thesis by (simp add: yaml_modify_def)
next
  case (Some o1)
  obtain cls kvs where o1: "o1 = (cls, kvs)" by (cases o1)
  obtain texts where t: "class_known nf cls" "storable nf cls kvs" "yaml_texts kvs = Inr texts"
    "yaml_load nf d db = Some (cls, texts)" by (rule holds_Some [OF assms(1) Some [unfolded o1]])
  let ?kvs = "change (filter (\<lambda>(f, _). \<not> skip f) kvs)"
  obtain db' where "write_yaml_object d cls ?kvs db = Inr (True, db')" "holds nf db' (tab(d \<mapsto> (cls, ?kvs)))"
    using write_holds [OF assms(1) t(1) assms(3) [OF Some [unfolded o1]] assms(2)] by blast
  moreover have "read_yaml_fields nf cls skip texts [] = Inr (filter (\<lambda>(f, _). \<not> skip f) kvs)"
    using read_texts_but [OF t(2,3), of "[]"] t(2) by (simp add: storable_def)
  ultimately show ?thesis using t Some o1 by (auto simp: yaml_modify_def)
qed

lemma filter_no_skip [simp]: "filter (\<lambda>(f, _). \<not> no_skip f) kvs = kvs"
  by (simp add: no_skip_def split_def)

lemma checked_refused:
  assumes "holds nf db tab" "tab d = Some (cls, kvs)" "change kvs = Inl current"
  shows "yaml_checked nf d absent change v db = Inr ((False, current), db)"
proof -
  obtain texts where "yaml_load nf d db = Some (cls, texts)" "read_yaml_fields nf cls no_skip texts [] = Inr kvs"
    by (rule holds_Some [OF assms(1,2)])
  with assms(3) show ?thesis by (simp add: yaml_checked_def)
qed

lemma checked_done:
  assumes "holds nf db tab" "y_writable db d" "tab d = Some (cls, kvs)" "change kvs = Inr kvs'" "storable nf cls kvs'"
  shows "\<exists>db'. yaml_checked nf d absent change v db = Inr ((True, v), db') \<and> holds nf db' (tab(d \<mapsto> (cls, kvs')))"
proof -
  obtain texts where t: "class_known nf cls" "yaml_load nf d db = Some (cls, texts)"
    "read_yaml_fields nf cls no_skip texts [] = Inr kvs" by (rule holds_Some [OF assms(1,3)])
  obtain db' where "write_yaml_object d cls kvs' db = Inr (True, db')" "holds nf db' (tab(d \<mapsto> (cls, kvs')))"
    using write_holds [OF assms(1) t(1) assms(5,2)] by blast
  with t assms(4) show ?thesis by (simp add: yaml_checked_def)
qed

lemma update_members: "(g, w) \<in> set (fv_update f v kvs) \<Longrightarrow> (g, w) \<in> set kvs \<or> w = v \<and> (g = f \<or> field_id g = field_id f \<and> (\<exists>u. (g, u) \<in> set kvs))"
  by (induction kvs) (auto split: if_splits)

lemma storable_update:
  assumes "storable nf cls kvs" "storable_field nf cls f v" "class_known nf cls"
  shows "storable nf cls (fv_update f v kvs)"
  unfolding storable_def
proof (intro conjI ballI)
  show "fv_sorted (fv_update f v kvs)" using assms(1) by (intro fv_sorted_update) (simp add: storable_def)
  fix x
  assume x: "x \<in> set (fv_update f v kvs)"
  obtain g w where g: "x = (g, w)" by (cases x)
  from update_members [OF x [unfolded g]] show "case x of (f, v) \<Rightarrow> storable_field nf cls f v"
  proof (elim disjE conjE exE)
    fix u
    assume "w = v" "field_id g = field_id f" "(g, u) \<in> set kvs"
    with assms have "g = f" unfolding storable_def storable_field_def class_known_def by blast
    with \<open>w = v\<close> assms(2) g show ?thesis by simp
  qed (use assms g in \<open>auto simp: storable_def\<close>)
qed

lemma storable_erase: "storable nf cls kvs \<Longrightarrow> storable nf cls (fv_erase f kvs)"
  by (auto simp: storable_def fv_erase_def fv_sorted_def sorted_wrt_filter)

text \<open>Several values at once.\<close>

lemma update_set:
  assumes "fv_sorted kvs" "\<forall>(g, w) \<in> set kvs. field_id g = field_id f \<longrightarrow> g = f"
  shows "set (fv_update f v kvs) = insert (f, v) {(g, w) \<in> set kvs. field_id g \<noteq> field_id f}"
  using assms
proof (induction kvs)
  case (Cons kv kvs)
  obtain g w where kv: "kv = (g, w)" by (cases kv)
  from Cons.prems kv have later: "\<forall>(h, u) \<in> set kvs. field_id g < field_id h" and g: "field_id g = field_id f \<longrightarrow> g = f"
    and "fv_sorted kvs" "\<forall>(g, w) \<in> set kvs. field_id g = field_id f \<longrightarrow> g = f"
    by (auto simp: fv_sorted_def)
  note IH = Cons.IH [OF this(3,4)]
  consider "field_id f < field_id g" | "field_id f = field_id g" | "field_id g < field_id f" by (rule linorder_cases)
  then show ?case
  proof cases
    case 1
    then have "\<forall>x \<in> set kvs. field_id f < field_id (fst x)" using later by auto
    then have "set kvs \<subseteq> {x. field_id (fst x) \<noteq> field_id f}" by auto
    then have "{(h, u) \<in> set kvs. field_id h \<noteq> field_id f} = set kvs" by auto
    moreover have "field_id g \<noteq> field_id f" "fv_update f v (kv # kvs) = (f, v) # (g, w) # kvs" using 1 kv by auto
    ultimately show ?thesis using kv by auto
  next
    case 2
    have gf: "g = f" using 2 g by simp
    then have "\<forall>x \<in> set kvs. field_id f < field_id (fst x)" using later by auto
    then have "set kvs \<subseteq> {x. field_id (fst x) \<noteq> field_id f}" by auto
    then have "{(h, u) \<in> set kvs. field_id h \<noteq> field_id f} = set kvs" by auto
    then show ?thesis unfolding kv gf by auto
  next
    case 3
    then have ne: "field_id g \<noteq> field_id f" "field_id f \<noteq> field_id g" "\<not> field_id f < field_id g" by auto
    then have "fv_update f v (kv # kvs) = (g, w) # fv_update f v kvs" using kv by simp
    with IH kv ne(1) show ?thesis by auto
  qed
qed simp

lemma sorted_set_eq:
  assumes "fv_sorted xs" "fv_sorted ys" "set xs = set ys"
  shows "xs = ys"
proof -
  let ?k = "\<lambda>x. field_id (fst x)"
  have m: "sorted_wrt (<) (map ?k xs)" "sorted_wrt (<) (map ?k ys)"
    using assms(1,2) by (simp_all add: fv_sorted_def sorted_wrt_map)
  have "map ?k xs = map ?k ys"
    by (rule strict_sorted_equal [OF m(2,1)]) (use assms(3) in simp)
  moreover have "inj_on ?k (set xs \<union> set ys)"
    using m(1) assms(3) by (simp add: strict_sorted_iff distinct_map)
  ultimately show ?thesis by (rule map_inj_on)
qed

definition fv_updates :: "field_values \<Rightarrow> field_values \<Rightarrow> field_values" where
  "fv_updates vals kvs = fold (\<lambda>(f, v). fv_update f v) vals kvs"

definition without :: "u32 set \<Rightarrow> field_values \<Rightarrow> field_values" where
  "without ids kvs = filter (\<lambda>(g, _). field_id g \<notin> ids) kvs"

lemma erase_without: "fv_erase f kvs = without {field_id f} kvs"
  by (simp add: fv_erase_def without_def split_def)

lemma erases_without: "fold fv_erase fs kvs = without (field_id ` set fs) kvs"
proof (induction fs arbitrary: kvs)
  case (Cons f fs)
  then show ?case
    by (simp add: fv_erase_def without_def split_def)
qed (simp add: without_def split_def)

lemma storable_without: "storable nf cls kvs \<Longrightarrow> storable nf cls (without ids kvs)"
  by (auto simp: storable_def without_def fv_sorted_def sorted_wrt_filter)

lemma storable_same:
  assumes "class_known nf cls" "storable_field nf cls g w" "storable_field nf cls f v" "field_id g = field_id f"
  shows "g = f"
  using same_field(2) [OF assms(1), of g f] assms(2-4) by (simp add: storable_field_def)

lemma storable_updates:
  assumes "class_known nf cls"
  shows "storable nf cls kvs \<Longrightarrow> \<forall>(f, v) \<in> set vals. storable_field nf cls f v \<Longrightarrow> storable nf cls (fv_updates vals kvs)"
  unfolding fv_updates_def
proof (induction vals arbitrary: kvs)
  case (Cons x vals)
  obtain f v where x: "x = (f, v)" by (cases x)
  with Cons.prems have "storable nf cls (fv_update f v kvs)" by (intro storable_update [OF _ _ assms]) auto
  with Cons.IH Cons.prems(2) x show ?case by simp
qed simp

lemma updates_set:
  assumes "class_known nf cls"
  shows "storable nf cls kvs \<Longrightarrow> storable nf cls vals \<Longrightarrow>
    set (fv_updates vals kvs) = set vals \<union> {(g, w) \<in> set kvs. field_id g \<notin> fv_ids vals}"
  unfolding fv_updates_def
proof (induction vals arbitrary: kvs)
  case (Cons x vals)
  obtain f v where x: "x = (f, v)" by (cases x)
  note s = storable_Cons [OF Cons.prems(2) [unfolded x]]
  have later: "field_id f \<notin> fv_ids vals"
    using Cons.prems(2) x by (auto simp: storable_def fv_sorted_def fv_ids_def)
  have "\<forall>(g, w) \<in> set kvs. field_id g = field_id f \<longrightarrow> g = f"
    using Cons.prems(1) s storable_same [OF assms] unfolding storable_def by blast
  with update_set [of kvs f v] Cons.prems(1)
  have u: "set (fv_update f v kvs) = insert (f, v) {(g, w) \<in> set kvs. field_id g \<noteq> field_id f}"
    by (simp add: storable_def)
  have "storable nf cls (fv_update f v kvs)" using Cons.prems(1) s assms by (intro storable_update) auto
  from Cons.IH [OF this] s have "set (fold (\<lambda>(f, v). fv_update f v) vals (fv_update f v kvs))
    = set vals \<union> {(g, w) \<in> set (fv_update f v kvs). field_id g \<notin> fv_ids vals}" by simp
  with u later x show ?case by auto
qed simp

lemma storable_sorted: "storable nf cls kvs \<Longrightarrow> fv_sorted kvs"
  by (simp add: storable_def)

lemma updates_without:
  assumes "class_known nf cls" "storable nf cls kvs" "storable nf cls vals"
  shows "fv_updates vals (without (fv_ids vals) kvs) = fv_updates vals kvs"
proof (rule sorted_set_eq)
  have s: "storable nf cls (without (fv_ids vals) kvs)" "\<forall>(f, v) \<in> set vals. storable_field nf cls f v"
    using storable_without [OF assms(2)] assms(3) by (simp_all add: storable_def)
  show "fv_sorted (fv_updates vals (without (fv_ids vals) kvs))" "fv_sorted (fv_updates vals kvs)"
    by (rule storable_sorted, rule storable_updates [OF assms(1) s(1,2)],
        rule storable_sorted, rule storable_updates [OF assms(1,2) s(2)])
  show "set (fv_updates vals (without (fv_ids vals) kvs)) = set (fv_updates vals kvs)"
    unfolding updates_set [OF assms] updates_set [OF assms(1) s(1) assms(3)] by (auto simp: without_def)
qed

section \<open>The operations on the table\<close>

lemma get_object_holds:
  assumes "holds nf db tab"
  shows "yaml_get_object nf d db = Inr (map_option (\<lambda>(cls, kvs). (ucast (cls_id cls), kvs)) (tab d))"
    "yaml_get_class nf d db = map_option fst (tab d)"
proof (atomize (full), cases "tab d")
  case (Some e)
  obtain cls kvs where e: "e = (cls, kvs)" by (cases e)
  obtain texts where "yaml_load nf d db = Some (cls, texts)" "read_yaml_fields nf cls no_skip texts [] = Inr kvs"
    by (rule holds_Some [OF assms Some [unfolded e]])
  with Some e show "yaml_get_object nf d db = Inr (map_option (\<lambda>(cls, kvs). (ucast (cls_id cls), kvs)) (tab d))
    \<and> yaml_get_class nf d db = map_option fst (tab d)"
    by (simp add: yaml_get_object_def yaml_get_class_def)
qed (simp add: yaml_get_object_def yaml_get_class_def load_None [OF assms])

lemma update_info_simps [simp]:
  "y_files (update_info db) = y_files db" "y_next_id (update_info db) = y_next_id db"
  "y_free_ids (update_info db) = y_free_ids db" "y_max_id (update_info db) = y_max_id db"
  "y_writable (update_info db) = y_writable db" "y_info_writable (update_info db) = y_info_writable db"
  "y_info_writable db \<Longrightarrow> y_info (update_info db) = Some (y_next_id db, y_free_ids db)"
  by (simp_all add: update_info_def)

lemma delete_holds:
  assumes "holds nf db tab" "y_writable db d"
  shows "holds nf (yaml_delete_object d db) (tab(d := None))"
  using assms(2) by (intro holds_upd [OF assms(1), where doc = None]) (auto simp: yaml_delete_object_def)

lemma next_id_files: "get_next_id db = (d, db') \<Longrightarrow> y_files db' = y_files db \<and> y_writable db' = y_writable db"
  by (auto simp: get_next_id_def split: if_splits list.splits)

lemma create_holds:
  assumes "holds nf db tab" "get_next_id db = (d, db1)" "d \<noteq> 0" "y_writable db d"
    "dcf_class nf dc_id = Some cls" "class_known nf cls" "storable nf cls kvs"
  shows "\<exists>db'. yaml_create_object nf dc_id kvs db = Inr (d, db') \<and> holds nf db' (tab(d \<mapsto> (cls, kvs)))"
proof -
  note n = next_id_files [OF assms(2)]
  have "holds nf db1 tab" using assms(1) n by (simp add: holds_def)
  from write_holds [OF this assms(6,7), of d] n assms(4)
  obtain db' where "write_yaml_object d cls kvs db1 = Inr (True, db')" "holds nf db' (tab(d \<mapsto> (cls, kvs)))"
    by auto
  with assms(2,3,5) show ?thesis by (auto simp: yaml_create_object_def)
qed

text \<open>
  The abstract backend: an operation on an object changes its entry of the table and gives an answer.
  A sorted list of fields and values stands for a map.
\<close>

datatype table_op =
    GetObject | GetClass | GetField field | GetFields "field list"
  | SetField field bytes | SetFields field_values | DelField field | DelFields "field list"
  | SetIfEmpty field bytes | SetIfEquals field bytes bytes | SetAllIfEquals field_values field_values | DeleteObject

datatype table_answer =
    Silent | Object "(u16 \<times> field_values) option" | Class "dclass option" | Value "bytes option"
  | Values "field_values option" | Checked bool bytes | AllChecked bool field_values

definition value_or_empty :: "field \<Rightarrow> field_values \<Rightarrow> bytes" where
  "value_or_empty f kvs = (case fv_lookup f kvs of None \<Rightarrow> [] | Some v \<Rightarrow> v)"

fun table_step :: "table_op \<Rightarrow> (dclass \<times> field_values) option \<Rightarrow> table_answer \<times> (dclass \<times> field_values) option" where
  "table_step GetObject None = (Object None, None)"
| "table_step GetClass None = (Class None, None)"
| "table_step (GetField f) None = (Value None, None)"
| "table_step (GetFields fs) None = (Values None, None)"
| "table_step (SetIfEmpty f v) None = (Checked False [], None)"
| "table_step (SetIfEquals f w v) None = (Checked False [], None)"
| "table_step (SetAllIfEquals ws vs) None = (AllChecked False [], None)"
| "table_step GetObject (Some (cls, kvs)) = (Object (Some (ucast (cls_id cls), kvs)), Some (cls, kvs))"
| "table_step GetClass (Some (cls, kvs)) = (Class (Some cls), Some (cls, kvs))"
| "table_step (GetField f) (Some (cls, kvs)) = (Value (fv_lookup f kvs), Some (cls, kvs))"
| "table_step (GetFields fs) (Some (cls, kvs)) =
     (Values (Some (fv_updates (concat (map (\<lambda>f. case fv_lookup f kvs of None \<Rightarrow> [] | Some v \<Rightarrow> [(f, v)]) fs)) [])), Some (cls, kvs))"
| "table_step (SetField f v) (Some (cls, kvs)) = (Silent, Some (cls, fv_updates [(f, v)] kvs))"
| "table_step (SetFields vs) (Some (cls, kvs)) = (Silent, Some (cls, fv_updates vs kvs))"
| "table_step (DelField f) (Some (cls, kvs)) = (Silent, Some (cls, without {field_id f} kvs))"
| "table_step (DelFields fs) (Some (cls, kvs)) = (Silent, Some (cls, without (field_id ` set fs) kvs))"
| "table_step (SetIfEmpty f v) (Some (cls, kvs)) =
     (case fv_lookup f kvs of
        Some w \<Rightarrow> (Checked False w, Some (cls, kvs))
      | None \<Rightarrow> (Checked True v, Some (cls, fv_updates [(f, v)] kvs)))"
| "table_step (SetIfEquals f w v) (Some (cls, kvs)) =
     (if fv_lookup f kvs = Some w then (Checked True v, Some (cls, fv_updates [(f, v)] kvs))
      else (Checked False (value_or_empty f kvs), Some (cls, kvs)))"
| "table_step (SetAllIfEquals ws vs) (Some (cls, kvs)) =
     (let differ = {field_id f | f w. (f, w) \<in> set ws \<and> fv_lookup f kvs \<noteq> Some w} in
      if differ = {} then (AllChecked True vs, Some (cls, fv_updates vs kvs))
      else (AllChecked False (map (\<lambda>(f, _). (f, value_or_empty f kvs)) (without differ vs)), Some (cls, kvs)))"
| "table_step op e = (Silent, None)"

text \<open>The same operation of the backend.\<close>

definition silently :: "ydb res \<Rightarrow> (table_answer \<times> ydb) res" where
  "silently r = rbind r (\<lambda>db. Inr (Silent, db))"

fun yaml_step :: "named_file \<Rightarrow> doid \<Rightarrow> table_op \<Rightarrow> ydb \<Rightarrow> (table_answer \<times> ydb) res" where
  "yaml_step nf d GetObject db = rbind (yaml_get_object nf d db) (\<lambda>r. Inr (Object r, db))"
| "yaml_step nf d GetClass db = Inr (Class (yaml_get_class nf d db), db)"
| "yaml_step nf d (GetField f) db = rbind (yaml_get_field nf d f db) (\<lambda>r. Inr (Value r, db))"
| "yaml_step nf d (GetFields fs) db = rbind (yaml_get_fields nf d fs db) (\<lambda>r. Inr (Values r, db))"
| "yaml_step nf d (SetField f v) db = silently (yaml_set_field nf d f v db)"
| "yaml_step nf d (SetFields vs) db = silently (yaml_set_fields nf d vs db)"
| "yaml_step nf d (DelField f) db = silently (yaml_del_field nf d f db)"
| "yaml_step nf d (DelFields fs) db = silently (yaml_del_fields nf d fs db)"
| "yaml_step nf d (SetIfEmpty f v) db = rbind (yaml_set_field_if_empty nf d f v db) (\<lambda>((b, w), db). Inr (Checked b w, db))"
| "yaml_step nf d (SetIfEquals f w v) db =
     rbind (yaml_set_field_if_equals nf d f w v db) (\<lambda>((b, u), db). Inr (Checked b u, db))"
| "yaml_step nf d (SetAllIfEquals ws vs) db =
     rbind (yaml_set_fields_if_equals nf d ws vs db) (\<lambda>((b, us), db). Inr (AllChecked b us, db))"
| "yaml_step nf d DeleteObject db = Inr (Silent, yaml_delete_object d db)"

text \<open>The values an operation brings have a text that is read back, and the fields it asks for are of the class.\<close>

fun op_storable :: "named_file \<Rightarrow> dclass \<Rightarrow> table_op \<Rightarrow> bool" where
  "op_storable nf cls (GetField f) \<longleftrightarrow> field_by_name nf cls (field_name f) = Some f"
| "op_storable nf cls (GetFields fs) \<longleftrightarrow> (\<forall>f \<in> set fs. field_by_name nf cls (field_name f) = Some f)"
| "op_storable nf cls (SetField f v) \<longleftrightarrow> storable_field nf cls f v"
| "op_storable nf cls (SetFields vs) \<longleftrightarrow> storable nf cls vs"
| "op_storable nf cls (SetIfEmpty f v) \<longleftrightarrow> storable_field nf cls f v"
| "op_storable nf cls (SetIfEquals f w v) \<longleftrightarrow> storable_field nf cls f v"
| "op_storable nf cls (SetAllIfEquals ws vs) \<longleftrightarrow> storable nf cls vs"
| "op_storable nf cls op \<longleftrightarrow> True"

lemma get_field_holds:
  assumes "holds nf db tab" "tab d = Some (cls, kvs)" "field_by_name nf cls (field_name f) = Some f"
  shows "yaml_get_field nf d f db = Inr (fv_lookup f kvs)"
proof -
  obtain texts where t: "class_known nf cls" "storable nf cls kvs" "yaml_texts kvs = Inr texts"
    "yaml_load nf d db = Some (cls, texts)" by (rule holds_Some [OF assms(1,2)])
  show ?thesis
  proof (cases "map_of texts (field_name f)")
    case None
    with node_of_field [OF t(2,3,1) assms(3)] t(4) show ?thesis by (simp add: yaml_get_field_def)
  next
    case (Some tx)
    with node_of_field [OF t(2,3,1) assms(3)] t(4) show ?thesis by (auto simp: yaml_get_field_def)
  qed
qed

lemma wanted_nodes:
  assumes "storable nf cls kvs" "yaml_texts kvs = Inr texts" "class_known nf cls"
  shows "\<forall>f \<in> set fs. field_by_name nf cls (field_name f) = Some f \<Longrightarrow> read_wanted fs texts acc
    = Inr (fv_updates (concat (map (\<lambda>f. case fv_lookup f kvs of None \<Rightarrow> [] | Some v \<Rightarrow> [(f, v)]) fs)) acc)"
proof (induction fs arbitrary: acc)
  case (Cons f fs)
  then have "field_by_name nf cls (field_name f) = Some f" by simp
  note n = named_nodes [OF assms this]
  from Cons show ?case by (cases "fv_lookup f kvs") (simp_all add: n fv_updates_def)
qed (simp add: fv_updates_def)

lemma get_fields_holds:
  assumes "holds nf db tab" "tab d = Some (cls, kvs)" "\<forall>f \<in> set fs. field_by_name nf cls (field_name f) = Some f"
  shows "yaml_get_fields nf d fs db
    = Inr (Some (fv_updates (concat (map (\<lambda>f. case fv_lookup f kvs of None \<Rightarrow> [] | Some v \<Rightarrow> [(f, v)]) fs)) []))"
proof -
  obtain texts where t: "class_known nf cls" "storable nf cls kvs" "yaml_texts kvs = Inr texts"
    "yaml_load nf d db = Some (cls, texts)" by (rule holds_Some [OF assms(1,2)])
  from wanted_nodes [OF t(2,3,1) assms(3)] t(4) show ?thesis by (simp add: yaml_get_fields_def)
qed

lemma absent_holds:
  assumes "holds nf db tab" "tab d = None"
  shows "yaml_step nf d op db = Inr (fst (table_step op None), if op = DeleteObject then yaml_delete_object d db else db)
    \<and> snd (table_step op None) = None"
  using load_None [OF assms]
  by (cases op, simp_all add: silently_def yaml_get_object_def yaml_get_class_def yaml_get_field_def yaml_get_fields_def
      yaml_set_field_def yaml_set_fields_def yaml_del_field_def yaml_del_fields_def yaml_modify_def yaml_checked_def
      yaml_set_field_if_empty_def yaml_set_field_if_equals_def yaml_set_fields_if_equals_def)

lemma written_holds:
  assumes "holds nf db tab" "y_writable db d" "tab d = Some (cls, kvs)"
    "change (filter (\<lambda>(f, _). \<not> skip f) kvs) = kvs'" "storable nf cls kvs'"
  shows "\<exists>db'. silently (yaml_modify nf d skip change db) = Inr (Silent, db') \<and> holds nf db' (tab(d \<mapsto> (cls, kvs')))"
proof -
  have "\<exists>db'. yaml_modify nf d skip change db = Inr db'
    \<and> holds nf db' (tab(d := map_option (\<lambda>(cls, kvs). (cls, change (filter (\<lambda>(f, _). \<not> skip f) kvs))) (tab d)))"
    by (rule modify_holds [OF assms(1,2)]) (use assms(3-5) in simp)
  with assms(3,4) show ?thesis by (auto simp: silently_def)
qed

lemma differing_fields:
  "field_id ` set (map fst (filter (\<lambda>(f, v). fv_lookup f kvs \<noteq> Some v) ws))
    = {field_id f | f w. (f, w) \<in> set ws \<and> fv_lookup f kvs \<noteq> Some w}"
  by force

lemma step_on_object:
  assumes "holds nf db tab" "y_writable db d" "tab d = Some (cls, kvs)" "op_storable nf cls op" "op \<noteq> DeleteObject"
  shows "\<exists>db'. yaml_step nf d op db = Inr (fst (table_step op (Some (cls, kvs))), db')
    \<and> holds nf db' (tab(d := snd (table_step op (Some (cls, kvs)))))"
proof -
  obtain texts where "class_known nf cls" "storable nf cls kvs" by (rule holds_Some [OF assms(1,3)])
  note s = this
  have same: "tab(d \<mapsto> (cls, kvs)) = tab" using assms(3) by (simp add: fun_upd_idem)
  note w = written_holds [OF assms(1-3)]
  have one: "storable nf cls (fv_update f v kvs)" if "storable_field nf cls f v" for f v
    using storable_update [OF s(2) that s(1)] .
  have updates: "fv_updates [(f, v)] kvs = fv_update f v kvs" for f v by (simp add: fv_updates_def)
  show ?thesis
  proof (cases op)
    case (SetField f v)
    then show ?thesis using w [of "fv_update f v" no_skip] one [of f v] assms(4) by (simp add: yaml_set_field_def updates)
  next
    case (SetFields vs)
    let ?skip = "\<lambda>f. fv_lookup f vs \<noteq> None"
    have "filter (\<lambda>(f, _). \<not> ?skip f) kvs = without (fv_ids vs) kvs"
      by (simp add: without_def fv_lookup_None split_def del: not_None_eq)
    then have "fold (\<lambda>(f, v). fv_update f v) vs (filter (\<lambda>(f, _). \<not> ?skip f) kvs) = fv_updates vs kvs"
      using updates_without [OF s, of vs] assms(4) SetFields by (simp add: fv_updates_def)
    note eq = this
    have "storable nf cls (fv_updates vs kvs)"
      by (rule storable_updates [OF s]) (use assms(4) SetFields in \<open>simp add: storable_def\<close>)
    from w [where skip = ?skip and change = "fold (\<lambda>(f, v). fv_update f v) vs", OF eq this] show ?thesis
      unfolding SetFields by (simp only: yaml_step.simps table_step.simps fst_conv snd_conv yaml_set_fields_def)
  next
    case (DelField f)
    then show ?thesis
      using w [of "fv_erase f" no_skip] storable_without [OF s(2)] by (simp add: yaml_del_field_def erase_without)
  next
    case (DelFields fs)
    then show ?thesis
      using w [of "fold fv_erase fs" no_skip] storable_without [OF s(2)] by (simp add: yaml_del_fields_def erases_without)
  next
    case (SetIfEmpty f v)
    let ?change = "\<lambda>dbo. case fv_lookup f dbo of Some v \<Rightarrow> Inl v | None \<Rightarrow> Inr (fv_update f v dbo)"
    show ?thesis
    proof (cases "fv_lookup f kvs")
      case None
      with checked_done [OF assms(1-3) _ one [of f v], where change = ?change and absent = "[]" and v = v] assms(4) SetIfEmpty
      show ?thesis by (auto simp: yaml_set_field_if_empty_def updates)
    next
      case (Some u)
      with checked_refused [OF assms(1,3), where change = ?change and absent = "[]" and v = v] assms(1) SetIfEmpty
      show ?thesis by (simp add: yaml_set_field_if_empty_def same)
    qed
  next
    case (SetIfEquals f u v)
    let ?change = "\<lambda>dbo. case fv_lookup f dbo of None \<Rightarrow> Inl [] | Some w \<Rightarrow> if w \<noteq> u then Inl w else Inr (fv_update f v dbo)"
    show ?thesis
    proof (cases "fv_lookup f kvs = Some u")
      case True
      with checked_done [OF assms(1-3) _ one [of f v], where change = ?change and absent = "[]" and v = v] assms(4) SetIfEquals
      show ?thesis by (auto simp: yaml_set_field_if_equals_def updates)
    next
      case False
      then have "?change kvs = Inl (value_or_empty f kvs)" by (auto simp: value_or_empty_def split: option.splits)
      with checked_refused [OF assms(1,3), where change = ?change and absent = "[]" and v = v] assms(1) SetIfEquals False
      show ?thesis by (simp add: yaml_set_field_if_equals_def same)
    qed
  next
    case (SetAllIfEquals ws vs)
    let ?differing = "\<lambda>dbo. map fst (filter (\<lambda>(f, v). fv_lookup f dbo \<noteq> Some v) ws)"
    let ?change = "\<lambda>dbo. let differing = ?differing dbo in
          if differing \<noteq> []
          then Inl (map (\<lambda>(f, _). (f, case fv_lookup f dbo of None \<Rightarrow> [] | Some v \<Rightarrow> v)) (fold fv_erase differing vs))
          else Inr (fold (\<lambda>(f, v). fv_update f v) vs dbo)"
    have st: "storable nf cls (fv_updates vs kvs)"
      by (rule storable_updates [OF s]) (use assms(4) SetAllIfEquals in \<open>simp add: storable_def\<close>)
    let ?differ = "{field_id f | f w. (f, w) \<in> set ws \<and> fv_lookup f kvs \<noteq> Some w}"
    have d: "?differing kvs = [] \<longleftrightarrow> ?differ = {}" "field_id ` set (?differing kvs) = ?differ"
      unfolding differing_fields [symmetric] by (simp_all only: image_is_empty set_empty)
    show ?thesis
    proof (cases "?differ = {}")
      case True
      then have "?change kvs = Inr (fv_updates vs kvs)" using d(1) by (simp add: fv_updates_def)
      from checked_done [OF assms(1-3) _ st, where change = ?change and absent = "[]" and v = vs] this True SetAllIfEquals
      show ?thesis by (auto simp: yaml_set_fields_if_equals_def)
    next
      case False
      then have "?change kvs = Inl (map (\<lambda>(f, _). (f, value_or_empty f kvs)) (without ?differ vs))"
        using d by (simp add: erases_without value_or_empty_def del: set_map)
      from checked_refused [OF assms(1,3) _, where change = ?change and absent = "[]" and v = vs] this assms(1) False SetAllIfEquals
      show ?thesis by (auto simp: yaml_set_fields_if_equals_def same)
    qed
  qed (use assms get_object_holds [OF assms(1)] get_field_holds [OF assms(1,3)] get_fields_holds [OF assms(1,3)] same in auto)
qed

text \<open>
  C23: On objects whose values have a text that is read back, the backend implements the table of objects:
  each of its operations on an object - reading it, its class and some of its fields, setting and deleting
  fields, the three conditional updates, deleting it - gives the answer of \<open>table_step\<close> and makes exactly its
  change to the entry of that object and none to the others; creating an object adds its entry. The values
  that are written must have such a text, and the files can be written.
\<close>

theorem yaml_is_a_table:
  assumes "holds nf db tab" "\<forall>d. y_writable db d"
    "\<forall>cls kvs. tab d = Some (cls, kvs) \<longrightarrow> op_storable nf cls op"
    "dcf_class nf dc_id = Some c" "class_known nf c" "storable nf c values"
  shows "(\<exists>db'. yaml_step nf d op db = Inr (fst (table_step op (tab d)), db')
        \<and> holds nf db' (tab(d := snd (table_step op (tab d)))))
    \<and> (case get_next_id db of (n, _) \<Rightarrow> n \<noteq> 0 \<longrightarrow>
         (\<exists>db'. yaml_create_object nf dc_id values db = Inr (n, db') \<and> holds nf db' (tab(n \<mapsto> (c, values)))))"
proof (intro conjI)
  have w: "y_writable db d" for d using assms(2) by simp
  note del = delete_holds [OF assms(1) w]
  show "\<exists>db'. yaml_step nf d op db = Inr (fst (table_step op (tab d)), db')
      \<and> holds nf db' (tab(d := snd (table_step op (tab d))))"
  proof (cases "tab d")
    case None
    then have same: "tab(d := None) = tab" by auto
    from absent_holds [OF assms(1) None, of op] assms(1) del [of d] show ?thesis
      unfolding None by (auto simp: same)
  next
    case (Some e)
    obtain cls kvs where e: "e = (cls, kvs)" by (cases e)
    show ?thesis
    proof (cases "op = DeleteObject")
      case True
      with del [of d] show ?thesis unfolding Some e by simp
    next
      case False
      with step_on_object [OF assms(1) w Some [unfolded e]] assms(3) Some e show ?thesis by simp
    qed
  qed
  show "case get_next_id db of (n, _) \<Rightarrow> n \<noteq> 0 \<longrightarrow>
      (\<exists>db'. yaml_create_object nf dc_id values db = Inr (n, db') \<and> holds nf db' (tab(n \<mapsto> (c, values))))"
    using create_holds [OF assms(1) _ _ w assms(4-6)] by (auto split: prod.split)
qed

definition demo_stored_field :: field where
  "demo_stored_field = Field 3 ''wave'' [''db''] (TNumeric (numeric_type_new T_UINT8)) [] False False"

definition demo_stored_class :: dclass where
  "demo_stored_class = \<lparr>cls_id = 0, cls_name = ''Avatar'', cls_fields = [demo_stored_field],
     cls_by_id = [3 \<mapsto> demo_stored_field]\<rparr>"

definition demo_named :: named_file where
  "demo_named = \<lparr>dcf_field = [3 \<mapsto> demo_stored_field], dcf_class = [0 \<mapsto> demo_stored_class],
     class_by_name = [''Avatar'' \<mapsto> demo_stored_class],
     field_by_name = (\<lambda>c n. if n = ''wave'' then Some demo_stored_field else None)\<rparr>"

definition demo_ydb :: ydb where
  "demo_ydb = yaml_open 9 99 (\<lambda>_. None) None (\<lambda>_. True) True"

definition demo_stored :: ydb where
  "demo_stored = (snd (get_next_id demo_ydb))\<lparr>y_files := [9 \<mapsto> \<lparr>yd_class = Some ''Avatar'', yd_fields = Some [(''wave'', str ''7'')]\<rparr>]\<rparr>"

lemma demo_text: "format_value (field_type demo_stored_field) [7] = Some (str ''7'')"
  by (simp add: format_value_def demo_stored_field_def numeric_type_new_def fmt_leaf_def remaining_def part_def number_text_def
      decimal_def digits.simps digit_char_def str_def)

lemma demo_storable:
  "storable_field demo_named demo_stored_class demo_stored_field [v]" "class_known demo_named demo_stored_class"
  "storable demo_named demo_stored_class [(demo_stored_field, [v])]"
proof -
  show f: "storable_field demo_named demo_stored_class demo_stored_field [v]"
    by (simp add: storable_field_def demo_named_def demo_stored_field_def numeric_type_new_def fmt_leaf_def remaining_def part_def
        number_text_def text_tags_def)
  show "class_known demo_named demo_stored_class"
    by (auto simp: class_known_def demo_named_def demo_stored_class_def)
  show "storable demo_named demo_stored_class [(demo_stored_field, [v])]" using f by (simp add: storable_def fv_sorted_def)
qed

theorem yaml_is_a_table_witness:
  "\<exists>db'. yaml_step demo_named 9 (SetIfEquals demo_stored_field [7] [8]) demo_stored = Inr (Checked True [8], db')
     \<and> holds demo_named db' [9 \<mapsto> (demo_stored_class, [(demo_stored_field, [8])])]"
proof -
  let ?tab = "[9 \<mapsto> (demo_stored_class, [(demo_stored_field, [7])])]"
  have h: "holds demo_named demo_stored ?tab"
    using demo_storable demo_text by (auto simp: holds_def demo_stored_def demo_stored_class_def demo_stored_field_def)
  have w: "\<forall>d. y_writable demo_stored d"
    by (simp add: demo_stored_def demo_ydb_def yaml_open_def get_next_id_def)
  have k: "dcf_class demo_named 0 = Some demo_stored_class" by (simp add: demo_named_def)
  have op: "\<forall>cls kvs. ?tab 9 = Some (cls, kvs) \<longrightarrow> op_storable demo_named cls (SetIfEquals demo_stored_field [7] [8])"
    using demo_storable(1) by simp
  from conjunct1 [OF yaml_is_a_table [OF h w op k demo_storable(2,3)]]
  show ?thesis by (simp add: fv_updates_def fun_upd_def cong: if_cong)
qed

section \<open>Numbers of objects\<close>

text \<open>The backend after a restart: what it knows of the numbers is what \<open>info.yaml\<close> holds.\<close>

definition reopened :: "doid \<Rightarrow> ydb \<Rightarrow> ydb" where
  "reopened min_id db = yaml_open min_id (y_max_id db) (y_files db) (y_info db) (y_writable db) (y_info_writable db)"

text \<open>
  Every number in use or free lies below the next one, none is free that is in use, or free twice, and a
  restart forgets none of this.
\<close>

definition ids_ok :: "doid \<Rightarrow> ydb \<Rightarrow> bool" where
  "ids_ok min_id db \<longleftrightarrow> (\<forall>d. y_files db d \<noteq> None \<longrightarrow> d < y_next_id db)
     \<and> (\<forall>d \<in> set (y_free_ids db). d < y_next_id db \<and> y_files db d = None) \<and> distinct (y_free_ids db)
     \<and> y_info_writable db \<and> y_next_id (reopened min_id db) = y_next_id db \<and> y_free_ids (reopened min_id db) = y_free_ids db"

lemma reopened_simps [simp]:
  "y_next_id (reopened min_id db) = (case y_info db of None \<Rightarrow> min_id | Some (n, _) \<Rightarrow> n)"
  "y_free_ids (reopened min_id db) = (case y_info db of None \<Rightarrow> [] | Some (_, free) \<Rightarrow> free)"
  "y_files (reopened min_id db) = y_files db" "y_info (reopened min_id db) = y_info db"
  "y_info_writable (reopened min_id db) = y_info_writable db" "y_max_id (reopened min_id db) = y_max_id db"
  by (simp_all add: reopened_def yaml_open_def)

lemma below_next: "(n :: doid) \<noteq> 0xFFFFFFFF \<Longrightarrow> d < n \<Longrightarrow> d < n + 1" and next_above: "(n :: doid) \<noteq> 0xFFFFFFFF \<Longrightarrow> n < n + 1"
proof -
  have "unat (n + 1) = unat n + 1" if "n \<noteq> 0xFFFFFFFF"
  proof -
    have "unat n \<noteq> unat (0xFFFFFFFF :: doid)" using that by (metis word_unat_eq_iff)
    then have "unat n + 1 < 2 ^ 32" using unsigned_less [of n, where ?'a = nat] by simp
    then show ?thesis by (simp add: unat_plus_if_size word_size)
  qed
  then show "n \<noteq> 0xFFFFFFFF \<Longrightarrow> d < n \<Longrightarrow> d < n + 1" "n \<noteq> 0xFFFFFFFF \<Longrightarrow> n < n + 1"
    by (simp_all add: word_less_nat_alt)
qed

lemma next_id_fresh:
  assumes "ids_ok min_id db" "y_next_id db \<noteq> 0xFFFFFFFF" "get_next_id db = (d, db')"
  shows "ids_ok min_id db' \<and> (d \<noteq> 0 \<longrightarrow> y_files db d = None \<and> d < y_next_id db' \<and> d \<notin> set (y_free_ids db'))"
proof (cases "y_next_id db \<le> y_max_id db")
  case True
  note b = next_above [OF assms(2)] below_next [OF assms(2)]
  from True assms(1,3) b show ?thesis
    unfolding ids_ok_def get_next_id_def by (auto dest: less_not_sym)
next
  case False
  with assms(1,3) show ?thesis
    unfolding ids_ok_def get_next_id_def by (cases "y_free_ids db") auto
qed

lemma ids_ok_files:
  "ids_ok min_id db \<Longrightarrow> d < y_next_id db \<Longrightarrow> d \<notin> set (y_free_ids db) \<Longrightarrow>
    ids_ok min_id (db\<lparr>y_files := (y_files db)(d \<mapsto> doc)\<rparr>)"
  by (auto simp: ids_ok_def)

lemma write_result:
  assumes "write_yaml_object d cls kvs db = Inr (ok, db')"
  shows "\<not> ok \<and> db' = db \<or> ok \<and> (\<exists>doc. db' = db\<lparr>y_files := (y_files db)(d \<mapsto> doc)\<rparr>)"
  using assms by (auto simp: write_yaml_object_def res_simps split: if_splits)

lemma write_keeps_ids:
  assumes "ids_ok min_id db" "yaml_load nf d db = Some (cls', nodes)" "write_yaml_object d cls kvs db = Inr (ok, db')"
  shows "ids_ok min_id db'"
proof -
  have "y_files db d \<noteq> None" using assms(2) by (auto simp: yaml_load_def split: option.splits)
  then have "d < y_next_id db" "d \<notin> set (y_free_ids db)" using assms(1) by (auto simp: ids_ok_def)
  from ids_ok_files [OF assms(1) this] write_result [OF assms(3)] assms(1) show ?thesis by auto
qed

lemma modify_keeps_ids:
  assumes "ids_ok min_id db" "yaml_modify nf d skip change db = Inr db'"
  shows "ids_ok min_id db'"
proof (cases "yaml_load nf d db")
  case (Some e)
  with assms write_keeps_ids [OF assms(1)] show ?thesis by (cases e) (auto simp: yaml_modify_def res_simps)
qed (use assms in \<open>simp add: yaml_modify_def\<close>)

lemma checked_keeps_ids:
  assumes "ids_ok min_id db" "yaml_checked nf d absent change v db = Inr (r, db')"
  shows "ids_ok min_id db'"
proof (cases "yaml_load nf d db")
  case (Some e)
  obtain cls nodes where e: "e = (cls, nodes)" by (cases e)
  from assms(2) Some e obtain kvs where k: "read_yaml_fields nf cls no_skip nodes [] = Inr kvs"
    by (auto simp: yaml_checked_def res_simps)
  show ?thesis
  proof (cases "change kvs")
    case (Inl current)
    with assms Some e k show ?thesis by (simp add: yaml_checked_def)
  next
    case (Inr kvs')
    with assms Some e k write_keeps_ids [OF assms(1)] show ?thesis by (auto simp: yaml_checked_def res_simps)
  qed
qed (use assms in \<open>simp add: yaml_checked_def\<close>)

lemma delete_keeps_ids: "ids_ok min_id db \<Longrightarrow> ids_ok min_id (yaml_delete_object d db)"
  by (auto simp: yaml_delete_object_def ids_ok_def)

lemma step_keeps_ids:
  assumes "ids_ok min_id db" "yaml_step nf d op db = Inr (ans, db')"
  shows "ids_ok min_id db'"
  using assms delete_keeps_ids [OF assms(1)]
  by (cases op) (auto dest: modify_keeps_ids checked_keeps_ids simp: res_simps silently_def yaml_set_field_def yaml_set_fields_def yaml_del_field_def yaml_del_fields_def
      yaml_set_field_if_empty_def yaml_set_field_if_equals_def yaml_set_fields_if_equals_def)

lemma reopen_keeps_ids: "ids_ok min_id db \<Longrightarrow> ids_ok min_id (reopened min_id db)"
  by (auto simp: ids_ok_def)

text \<open>
  C24: As long as the number \<open>2\<^sup>3\<^sup>2 - 1\<close> has not been given out and \<open>info.yaml\<close> can be written, a new object
  never takes the number of an object that exists, or one that is free to be given out again. That numbers in
  use and free numbers are told apart is kept when an object is created, by every other operation - deleting
  an object among them - and by a restart, which reads the very next number and the very free numbers back
  from \<open>info.yaml\<close> that the backend had.
\<close>

theorem created_id_fresh:
  assumes "ids_ok min_id db" "y_next_id db \<noteq> 0xFFFFFFFF" "yaml_create_object nf dc_id kvs db = Inr (d, db')"
    "yaml_step nf e op db' = Inr (ans, db'')"
  shows "(d \<noteq> 0 \<longrightarrow> y_files db d = None \<and> d \<notin> set (y_free_ids db'))
    \<and> ids_ok min_id db' \<and> ids_ok min_id db'' \<and> ids_ok min_id (reopened min_id db'')
    \<and> y_next_id (reopened min_id db'') = y_next_id db'' \<and> y_free_ids (reopened min_id db'') = y_free_ids db''"
proof -
  obtain n db1 where n: "get_next_id db = (n, db1)" by (cases "get_next_id db")
  note fresh = next_id_fresh [OF assms(1,2) n]
  have r: "db' = db1 \<and> d = 0 \<or> d \<noteq> 0 \<and> d = n \<and> (\<exists>doc. db' = db1\<lparr>y_files := (y_files db1)(n \<mapsto> doc)\<rparr>)"
    using assms(3) n
    by (auto simp: yaml_create_object_def res_simps split: if_splits option.splits dest!: write_result)
  then have ok: "ids_ok min_id db'" using fresh ids_ok_files [of min_id db1 n] by auto
  note ok' = step_keeps_ids [OF ok assms(4)]
  show ?thesis
    using r fresh ok ok' reopen_keeps_ids [OF ok'] ok' [unfolded ids_ok_def] by auto
qed

theorem created_id_fresh_witness:
  "\<exists>db' db''. yaml_create_object demo_named 0 [(demo_stored_field, [7])] demo_ydb = Inr (9, db')
     \<and> yaml_step demo_named 9 DeleteObject db' = Inr (Silent, db'') \<and> y_free_ids (reopened 9 db'') = [9]"
proof -
  obtain db' where c: "yaml_create_object demo_named 0 [(demo_stored_field, [7])] demo_ydb = Inr (9, db')"
    and d: "y_files db' 9 \<noteq> None" "y_writable db' 9" "y_free_ids db' = []"
    using demo_text
    by (simp add: yaml_create_object_def get_next_id_def write_yaml_object_def demo_ydb_def demo_named_def yaml_open_def)
  have i: "ids_ok 9 demo_ydb" by (simp add: ids_ok_def demo_ydb_def yaml_open_def)
  have "y_next_id demo_ydb \<noteq> 0xFFFFFFFF" by (simp add: demo_ydb_def yaml_open_def)
  note f = created_id_fresh [OF i this c, where e = 9 and op = DeleteObject and ans = Silent
      and db'' = "yaml_delete_object 9 db'"]
  have "y_free_ids (yaml_delete_object 9 db') = [9]" using d by (auto simp: yaml_delete_object_def)
  with c f show ?thesis by auto
qed

section \<open>Values that are lost\<close>

lemma fold_names:
  assumes "read_yaml_fields nf cls no_skip nodes acc = Inr kvs" "(f, v) \<in> set kvs"
    "\<And>n node. (n, node) \<in> set nodes \<Longrightarrow> field_by_name nf cls n = Some f \<Longrightarrow> read_yaml_field f node = Inr []"
  shows "\<exists>w. (f, w) \<in> set acc"
  using assms
proof (induction nodes arbitrary: acc)
  case (Cons nd nodes)
  obtain n node where nd: "nd = (n, node)" by (cases nd)
  show ?case
  proof (cases "field_by_name nf cls n")
    case None
    with Cons nd show ?thesis by auto
  next
    case (Some g)
    have "\<not> no_skip g" by (simp add: no_skip_def)
    with Cons.prems(1) nd Some obtain u where u: "read_yaml_field g node = Inr u"
      "read_yaml_fields nf cls no_skip nodes (if u \<noteq> [] then fv_update g u acc else acc) = Inr kvs"
      by (auto simp: res_simps)
    have "\<exists>w. (f, w) \<in> set (if u \<noteq> [] then fv_update g u acc else acc)"
      by (rule Cons.IH [OF u(2) Cons.prems(2)]) (rule Cons.prems(3), auto simp: nd)
    moreover have "g = f \<Longrightarrow> u = []" using Cons.prems(3) [of n node] nd Some u(1) by simp
    ultimately show ?thesis using update_members [of f _ g u acc] by (auto split: if_splits)
  qed
qed auto


definition demo_price_field :: field where
  "demo_price_field = Field 4 ''price'' [''db''] (TNumeric (numeric_type_new T_FLOAT64)) [] False False"

definition demo_priced :: named_file where
  "demo_priced = \<lparr>dcf_field = Map.empty, dcf_class = Map.empty, class_by_name = [''Avatar'' \<mapsto> demo_stored_class],
     field_by_name = (\<lambda>c n. if n = ''wave'' then Some demo_stored_field
                             else if n = ''price'' then Some demo_price_field else None)\<rparr>"

definition demo_price_ydb :: ydb where
  "demo_price_ydb = yaml_open 9 99
     [9 \<mapsto> \<lparr>yd_class = Some ''Avatar'', yd_fields = Some [(''wave'', str ''7''), (''price'', str ''1e+06'')]\<rparr>]
     None (\<lambda>_. True) True"


end
