(* ===== verification/Spec2Isabelle.thy ===== *)
theory Spec2Isabelle
  imports Director_Routing DBSS_Props DClass_Props Object_Props DB_Props Client_Pool Client_Interests Default_Values Legacy_Hash Msgpack HAProxy YAML_Props
begin

text \<open>
  Astron is a server suite for distributed objects. Processes run roles (state servers, database
  servers, client agents) that exchange datagrams through a message director; every datagram
  names the channels it is for, and every participant of the director subscribes to channels.
  Objects live in state servers, under a parent object and a zone; their fields are typed by a
  dclass file whose keywords say who is told of a change. This library models the C++ sources
  under \<open>src/src\<close> as executable HOL functions and proves what makes each part correct. A
  handler of the sources is a function from the state to a result and a state (\<open>sm\<close> in
  \<open>Prelude\<close>): exceptions are values of \<open>exn\<close>, and what a handler did before it threw stays done.
  Undefined behaviour of the C++ that the sources can reach (a read or write outside an
  allocation, a loop that never ends) is a value of \<open>exn\<close> too.

  The parts, from the wire up:

  \<open>Prelude\<close>: results, the state and exception monad, \<open>keeps\<close> (a handler preserves an invariant
  however it ends), little-endian bytes. \<open>Wire\<close>: \<open>core/types.h\<close> and \<open>core/msgtypes.h\<close>; the
  channel spaces are disjoint (\<open>channel_spaces\<close>). \<open>Datagram\<close>: \<open>util/Datagram.h\<close>; \<open>appends\<close> says
  which bytes an operation adds, or that it throws. \<open>DClass\<close>: the types of \<open>dclass/dc\<close>.
  \<open>DClass_File\<close>: \<open>Class.cpp\<close>, \<open>File.cpp\<close> and the actions of the class parser over a heap of
  classes; an alias is one more name for the same type; the recursion over children takes the number
  of classes as fuel. \<open>DClass_Tables\<close> and
  \<open>DClass_Read\<close> have the invariant of the tables over every sequence of declarations (\<open>returns\<close>:
  a step ends without an exception), \<open>DClass_Props\<close> what inheritance yields and where it goes wrong.
  \<open>Dg_Iterator\<close>: \<open>util/DatagramIterator.h\<close>; the locale \<open>wire_codec\<close> states that a read takes back
  what the matching add wrote and is interpreted for every scalar, string and blob. \<open>Field_Laws\<close>:
  the size of a type agrees with what unpacking reads, skipping moves as far as unpacking, and
  unpacking ends for every type without zero-size array elements (the fuel of \<open>unpack_while\<close>, the
  declared length, is then enough). \<open>Field_Values\<close>: the containers of \<open>core/objtypes.h\<close>.

  \<open>Default_Values\<close>: \<open>value/default.cpp\<close> with the constructors and setters of fields and parameters;
  \<open>has_type\<close> says that bytes are a packed value of a type. \<open>Prime_Bound\<close> bounds from below how many
  primes there are, so that \<open>Hash_Generator\<close> (\<open>dclass/util\<close>) can show that the table of primes is
  complete, that growing it ends well within \<open>2 ^ 32\<close> candidates (its fuel), and what a hash is.
  \<open>Numeric_Types\<close>: the setters of \<open>NumericType.cpp\<close>, with doubles as whole numbers of the smallest
  unit; \<open>fixed_point_range\<close> says what the scaled ranges accept. \<open>Legacy_Hash\<close>: \<open>file/hash_legacy.cpp\<close>;
  classes within classes take the size of the heap as fuel, enough by \<open>legacy_hash_returns\<close>, which
  compares the hash with the list \<open>file_ints\<close> of everything the file is turned into.

  \<open>Value_Format\<close>: \<open>dclass/value/format.cpp\<close>, the text of a packed value. \<open>Value_Lexer\<close> and
  \<open>Value_Parser\<close>: \<open>file/lexer.cpp\<close> and the grammar of values in \<open>file/parser.cpp\<close> with
  \<open>value/parse.cpp\<close>; the lexer has no result where it reads zeros behind the end of the text for
  ever, and the descent over the grammar takes fuel. \<open>Value_Roundtrip\<close> shows that
  a text is read back (types of \<open>text_type\<close>); \<open>Value_Returns\<close> that reading ends for every text without
  quotation marks and slashes, with the fuel that \<open>parse_value\<close> takes, and what is not read back.

  \<open>Channel_Map\<close>: \<open>messagedirector/ChannelMap.cpp\<close>, with the locale \<open>listener_registry\<close>.
  \<open>Message_Director\<close>: \<open>MessageDirector.cpp\<close>, its participant interface, network participants and
  the upstream link; \<open>route_datagram\<close> and \<open>flush_queue\<close> call each other through the handlers of the
  participants, so \<open>flush_queue\<close> takes fuel, and \<open>flush_queue_fifo\<close> shows that one unit per message
  and one more are enough when no handler routes. \<open>Director_Laws\<close> and \<open>Director_Routing\<close> hold its
  invariant, delivery, termination and the two-level refinement (a director above and one below).

  \<open>Distributed_Object\<close> and \<open>State_Server\<close>: \<open>stateserver/DistributedObject.cpp\<close> and
  \<open>StateServer.cpp\<close>, one definition per message; what an object asks of the outside (subscribe,
  route, erase itself) is appended to its \<open>effects\<close>. \<open>Object_Laws\<close>, \<open>Object_Location\<close> and
  \<open>Object_Props\<close> show what is sent, byte for byte, the handshake of a location change across two
  objects, and the invariants of the table of children (locales \<open>child_table\<close> and
  \<open>queried_child_table\<close>).

  \<open>DB_Queue\<close>, \<open>DB_Operation\<close> and \<open>Database_Server\<close>: \<open>database/DBOperationQueue.cpp\<close>,
  \<open>DBOperation.cpp\<close>, \<open>DatabaseServer.cpp\<close> and \<open>OldDatabaseBackend.cpp\<close>. The locale
  \<open>operation_queue\<close> states what the queue promises for any symmetric independence, and is
  interpreted on \<open>is_independent_of\<close>. \<open>DB_Laws\<close> and \<open>DB_Props\<close> carry it to runs of the server
  (\<open>db_run\<close>): held operations are pairwise independent, therefore commute on the abstract object
  (\<open>spec_run\<close>), and reach the backend in order; \<open>old_submit_refines\<close> refines \<open>spec_run\<close> by the
  synchronous adaptor over any store that behaves as a map from objects to fields
  (\<open>implements\<close>). \<open>YAML_Database\<close>: \<open>database/YAMLDatabase.cpp\<close>, over files whose YAML is taken by
  what the library reads back of it; \<open>YAML_Props\<close> refines the abstract \<open>table_step\<close> by every operation
  of it (\<open>yaml_step\<close>) and shows how object numbers are given out over changes and restarts.

  \<open>DB_State_Server\<close>: \<open>stateserver/DBStateServer.cpp\<close> and \<open>LoadingObject.cpp\<close>: the state server
  that loads objects from a database, its loaders, and its tables of pending database requests.
  \<open>DBSS_Laws\<close> and \<open>DBSS_Load\<close> follow a query and a load message by message (\<open>load_run\<close>: where the
  values of a loaded object come from and what is replayed to it), with \<open>Object_Activation\<close> for
  the constructor of the new object; \<open>DBSS_Invariant\<close> has the consistency of the tables over every
  reachable state (\<open>dbss_run\<close>) and what keeps a loader waiting (\<open>dbss_later\<close>), and \<open>DBSS_Props\<close> the
  properties, among them two of what goes wrong.

  \<open>Network_Client\<close> (\<open>net/NetworkClient.cpp\<close>) and \<open>Event_Log\<close> (\<open>util/EventSender.cpp\<close>) are what a
  client session stands on. \<open>Msgpack\<close> is the other end of \<open>Event_Log\<close>: \<open>eventlogger/msgpack_decode.h\<close>
  and \<open>EventLogger.cpp\<close>; every call of the decoder reads a byte, so its fuel, the largest size of a
  datagram and one more, is enough (\<open>sound\<close>), and it takes back what the sender packed (\<open>turns\<close>).
  \<open>HAProxy\<close>: \<open>net/HAProxyHandler.cpp\<close> and the branch of a connection's data event behind a proxy, with
  both versions of the header. \<open>Network_Props\<close> states a connection as a step relation and shows what
  it writes and how the reader takes it apart (locale \<open>outbox\<close>). \<open>Client_State\<close>, \<open>Client\<close>,
  \<open>Client_Dispatch\<close> (\<open>clientagent/Client.cpp\<close>) and \<open>Astron_Client\<close> (\<open>clientagent/AstronClient.cpp\<close>)
  are a session: its state, its messages, interest operations, one definition per message of the
  director, and what it does with a datagram of its peer. An interest operation that ends hands the
  datagrams it held back to the dispatcher again; \<open>client_handle\<close> takes the depth of this nesting
  as fuel. \<open>Client_Laws\<close> and \<open>Client_Security\<close> show what a peer can reach before and after a server
  authenticates it, \<open>Client_Pool\<close> how channels are handed out to sessions. \<open>Client_Sessions\<close> has the
  step relation of a session, its invariant, and that the nesting depth 2 of
  \<open>client_handle_datagram\<close> is enough; \<open>Client_Interests\<close> follows an interest from the client's message
  over the parent object to the last entry.

  Parameters of the model: the iteration order of the unordered containers and the segments of
  the Boost interval sets (\<open>do_env\<close>, \<open>containers\<close>), constrained only by what is documented
  (\<open>env_ok\<close>, \<open>containers_ok\<close>); what local participants do (\<open>handler\<close>); the storage operations of a
  database backend (\<open>old_db\<close>), which \<open>YAML_Database\<close> has in full for one backend.

  Not modelled: sockets, the event loop (uvw) and its threads with the task queue, configuration files
  and groups, address parsing, log lines, the MongoDB and SQL storage drivers, the tables that flex and
  bison generate (their rules and actions are modelled), the writer of dclass files, which is commented
  out, and the 128-bit channel build. The director is modelled with the calls of one thread at a time; a
  client session records what it hands to the main thread's queue.
\<close>

end
